(* ===== verification/Prelude.thy ===== *)
theory Prelude imports Main "HOL-Library.Word" begin

text \<open>
  Shared vocabulary of the development: the machine integers and bytes of the
  C++ code as type synonyms, the collections of facts the component theories
  fill, generic facts on lists, options and words, decimal printing, and the
  interfaces (locales) that several components implement: a step function with
  an invariant and a byte codec with its round-trip law.
\<close>

unbundle bit_operations_syntax

type_synonym u8 = "8 word"
type_synonym u16 = "16 word"
type_synonym u32 = "32 word"
type_synonym u64 = "64 word"
type_synonym bytes = "8 word list"

text \<open>
  Collections: \<open>step_defs\<close> gathers the defining equations of the operations of
  a component, \<open>wf_intros\<close> the facts that an operation keeps an invariant, and
  \<open>frame\<close> the facts that an operation leaves a part of the state alone.
\<close>

named_theorems step_defs "defining equations of the operations of a component"
named_theorems wf_intros "operations keep the well-formedness of their state"
named_theorems frame "parts of the state an operation does not touch"

section \<open>Lists\<close>

text \<open>\<open>std::find\<close> followed by \<open>erase\<close> removes the first occurrence only.\<close>

fun erase_first :: "'a \<Rightarrow> 'a list \<Rightarrow> 'a list" where
  "erase_first a [] = []"
| "erase_first a (x # xs) = (if x = a then xs else x # erase_first a xs)"

lemma erase_first_eq_remove1: "erase_first a xs = remove1 a xs"
  by (induction xs) auto

lemma set_erase_first_distinct [simp]:
  "distinct xs \<Longrightarrow> set (erase_first a xs) = set xs - {a}"
  by (simp add: erase_first_eq_remove1)

lemma distinct_erase_first [simp]: "distinct xs \<Longrightarrow> distinct (erase_first a xs)"
  by (simp add: erase_first_eq_remove1)

lemma set_erase_first_subset: "set (erase_first a xs) \<subseteq> set xs"
  by (simp add: erase_first_eq_remove1 set_remove1_subset)

lemma erase_first_notin [simp]: "a \<notin> set xs \<Longrightarrow> erase_first a xs = xs"
  by (simp add: erase_first_eq_remove1 remove1_idem)

text \<open>
  \<open>std::swap(*it, v.back()); v.pop_back()\<close> and \<open>*it = v.back(); v.pop_back()\<close>:
  the erased slot receives the last element.
\<close>

fun swap_erase :: "'a \<Rightarrow> 'a list \<Rightarrow> 'a list" where
  "swap_erase a [] = []"
| "swap_erase a (x # xs) =
     (if x = a then (if xs = [] then [] else last xs # butlast xs)
      else x # swap_erase a xs)"

lemma set_swap_erase_distinct [simp]:
  "distinct xs \<Longrightarrow> set (swap_erase a xs) = set xs - {a}"
proof (induction xs)
  case Nil
  then show ?case by simp
next
  case (Cons x xs)
  have "xs \<noteq> [] \<Longrightarrow> insert (last xs) (set (butlast xs)) = set xs"
    by (metis append_butlast_last_id list.set(2) rotate1.simps(2) set_rotate1)
  with Cons show ?case by auto
qed

lemma distinct_swap_erase [simp]: "distinct xs \<Longrightarrow> distinct (swap_erase a xs)"
proof (induction xs)
  case Nil
  then show ?case by simp
next
  case (Cons x xs)
  have "xs \<noteq> [] \<Longrightarrow> distinct (last xs # butlast xs)"
    using Cons.prems
    by (metis append_butlast_last_id distinct.simps(2) distinct1_rotate rotate1.simps(2))
  with Cons show ?case by auto
qed

lemma filter_last_append: "filter P (xs @ [x]) = filter P xs @ (if P x then [x] else [])"
  by simp

section \<open>Words\<close>

lemma unat_ucast_up [simp]:
  "LENGTH('a) \<le> LENGTH('b) \<Longrightarrow> unat (ucast (x :: 'a::len word) :: 'b::len word) = unat x"
proof -
  assume "LENGTH('a) \<le> LENGTH('b)"
  then have "unat x < 2 ^ LENGTH('b)"
    by (meson less_le_trans one_le_numeral power_increasing unsigned_less)
  then show ?thesis by (simp add: unsigned_ucast_eq take_bit_nat_eq_self)
qed

lemma u8_le_255: "unat (x :: u8) \<le> 255"
  using unsigned_less [of x, where 'a = nat] by simp

lemma u16_le_65535: "unat (x :: u16) \<le> 65535"
  using unsigned_less [of x, where 'a = nat] by simp

section \<open>Decimal printing\<close>

text \<open>\<open>std::to_string\<close> and \<open>operator<<\<close> on an unsigned integer.\<close>

definition digit_char :: "nat \<Rightarrow> char" where
  "digit_char d = char_of (48 + d)"

fun dec_digits :: "nat \<Rightarrow> nat list" where
  "dec_digits n = (if n < 10 then [n] else dec_digits (n div 10) @ [n mod 10])"

declare dec_digits.simps [simp del]

definition to_dec :: "nat \<Rightarrow> string" where
  "to_dec n = map digit_char (dec_digits n)"

definition of_digits :: "nat list \<Rightarrow> nat" where
  "of_digits ds = foldl (\<lambda>acc d. 10 * acc + d) 0 ds"

lemma of_digits_snoc [simp]: "of_digits (ds @ [d]) = 10 * of_digits ds + d"
  by (simp add: of_digits_def)

lemma of_digits_dec_digits [simp]: "of_digits (dec_digits n) = n"
proof (induction n rule: dec_digits.induct)
  case (1 n)
  show ?case
  proof (cases "n < 10")
    case True
    then show ?thesis by (simp add: dec_digits.simps [of n] of_digits_def)
  next
    case False
    with 1 show ?thesis by (simp add: dec_digits.simps [of n])
  qed
qed

lemma dec_digits_lt: "d \<in> set (dec_digits n) \<Longrightarrow> d < 10"
proof (induction n arbitrary: d rule: dec_digits.induct)
  case (1 n)
  then show ?case
    by (cases "n < 10") (auto simp: dec_digits.simps [of n])
qed

lemma digit_char_inj: "d < 10 \<Longrightarrow> e < 10 \<Longrightarrow> digit_char d = digit_char e \<Longrightarrow> d = e"
proof -
  assume *: "d < 10" "e < 10" "digit_char d = digit_char e"
  then have "of_char (char_of (48 + d) :: char) = (of_char (char_of (48 + e) :: char) :: nat)"
    by (simp add: digit_char_def)
  then have "(48 + d) mod 256 = (48 + e) mod 256" by simp
  with * show "d = e" by simp
qed

lemma to_dec_inj: "to_dec m = to_dec n \<Longrightarrow> m = n"
proof -
  assume "to_dec m = to_dec n"
  moreover have "inj_on digit_char (set (dec_digits m) \<union> set (dec_digits n))"
    by (auto intro!: inj_onI digit_char_inj dest: dec_digits_lt)
  ultimately have "dec_digits m = dec_digits n"
    by (simp add: to_dec_def inj_on_map_eq_map)
  then show "m = n" by (metis of_digits_dec_digits)
qed

lemma length_dec_digits_le: "n < 10 ^ k \<Longrightarrow> 0 < k \<Longrightarrow> length (dec_digits n) \<le> k"
proof (induction n arbitrary: k rule: dec_digits.induct)
  case (1 n)
  show ?case
  proof (cases "n < 10")
    case True
    with 1 show ?thesis by (simp add: dec_digits.simps [of n])
  next
    case False
    then obtain j where k: "k = Suc j" "0 < j"
      using 1(2,3) by (cases k; cases "k - 1") auto
    with 1 False have "length (dec_digits (n div 10)) \<le> j"
      by (simp add: div_less_iff_less_mult mult.commute)
    with False k show ?thesis by (simp add: dec_digits.simps [of n])
  qed
qed

lemma length_to_dec_le: "n < 10 ^ k \<Longrightarrow> 0 < k \<Longrightarrow> length (to_dec n) \<le> k"
  by (simp add: to_dec_def length_dec_digits_le)

text \<open>\<open>std::setw(w) << std::setfill('0')\<close>: pads on the left up to the width.\<close>

definition zero_pad :: "nat \<Rightarrow> string \<Rightarrow> string" where
  "zero_pad w s = replicate (w - length s) (CHR ''0'') @ s"

lemma length_zero_pad [simp]: "length (zero_pad w s) = max w (length s)"
  by (simp add: zero_pad_def)

lemma digit_char_0: "digit_char 0 = CHR ''0''"
  by code_simp

lemma of_digits_replicate_0 [simp]: "of_digits (replicate k 0 @ ds) = of_digits ds"
  by (induction k) (simp_all add: of_digits_def)

lemma zero_pad_to_dec: "zero_pad w (to_dec n) = map digit_char (replicate (w - length (to_dec n)) 0 @ dec_digits n)"
  by (simp add: zero_pad_def to_dec_def digit_char_0)

lemma zero_pad_to_dec_inj: "zero_pad w (to_dec m) = zero_pad w (to_dec n) \<Longrightarrow> m = n"
proof -
  assume eq: "zero_pad w (to_dec m) = zero_pad w (to_dec n)"
  let ?ds = "\<lambda>n. replicate (w - length (to_dec n)) 0 @ dec_digits n"
  have "inj_on digit_char (set (?ds m) \<union> set (?ds n))"
    by (auto intro!: inj_onI digit_char_inj dest: dec_digits_lt split: if_splits)
  with eq have "?ds m = ?ds n"
    by (simp only: zero_pad_to_dec inj_on_map_eq_map)
  then have "of_digits (?ds m) = of_digits (?ds n)" by (rule arg_cong)
  then show "m = n" by simp
qed

section \<open>Interfaces\<close>

text \<open>
  A state machine given by one total step function: an invariant that every
  operation keeps holds after every sequence of operations.
\<close>

locale step_machine =
  fixes step :: "'op \<Rightarrow> 's \<Rightarrow> 's"
    and inv :: "'s \<Rightarrow> bool"
  assumes step_inv: "inv s \<Longrightarrow> inv (step a s)"
begin

lemma run_inv: "inv s \<Longrightarrow> inv (fold step ops s)"
  by (induction ops arbitrary: s) (auto intro: step_inv)

end

text \<open>
  A data refinement: every operation of the code keeps the relation to an abstract
  state that runs the operations of the specification.
\<close>

locale refinement =
  fixes cstep :: "'op \<Rightarrow> 'c \<Rightarrow> 'c"
    and astep :: "'op \<Rightarrow> 'a \<Rightarrow> 'a"
    and rel :: "'c \<Rightarrow> 'a \<Rightarrow> bool"
  assumes step_rel: "rel c a \<Longrightarrow> rel (cstep p c) (astep p a)"
begin

lemma run_rel: "rel c a \<Longrightarrow> rel (fold cstep ops c) (fold astep ops a)"
  by (induction ops arbitrary: c a) (auto intro: step_rel)

end

text \<open>
  A byte codec: decoding what was encoded gives the value back and leaves the
  rest of the input. Codecs compose: pairs and counted sequences.
\<close>

locale codec =
  fixes enc :: "'a \<Rightarrow> bytes"
    and dec :: "bytes \<Rightarrow> ('a \<times> bytes) option"
    and ok :: "'a \<Rightarrow> bool"
  assumes dec_enc: "ok v \<Longrightarrow> dec (enc v @ rest) = Some (v, rest)"
begin

fun dec_many :: "nat \<Rightarrow> bytes \<Rightarrow> ('a list \<times> bytes) option" where
  "dec_many 0 bs = Some ([], bs)"
| "dec_many (Suc n) bs =
     (case dec bs of None \<Rightarrow> None
      | Some (v, r) \<Rightarrow> (case dec_many n r of None \<Rightarrow> None
                       | Some (vs, r') \<Rightarrow> Some (v # vs, r')))"

lemma dec_many_enc:
  "\<forall>v \<in> set vs. ok v \<Longrightarrow> dec_many (length vs) (concat (map enc vs) @ rest) = Some (vs, rest)"
  by (induction vs arbitrary: rest) (auto simp: dec_enc)

lemma enc_inj: "ok v \<Longrightarrow> ok w \<Longrightarrow> enc v = enc w \<Longrightarrow> v = w"
  using dec_enc [of v "[]"] dec_enc [of w "[]"] by simp

end

end
