(* ===== verification/Streams.thy ===== *)
theory Streams imports Prelude begin

text \<open>
  Little-endian byte strings and the property streams of fileloader.h
  (\<open>PropStream\<close>, \<open>PropWriteStream\<close>). \<open>memcpy\<close> of an integer is its
  little-endian image, as on the hosts the server is built for; a
  \<open>std::string\<close> of this layer is a list of bytes.
\<close>

section \<open>Little-endian images\<close>

fun to_le :: "nat \<Rightarrow> 'a::len word \<Rightarrow> bytes" where
  "to_le 0 w = []"
| "to_le (Suc n) w = ucast w # to_le n (drop_bit 8 w)"

fun of_le :: "bytes \<Rightarrow> 'a::len word" where
  "of_le [] = 0"
| "of_le (b # bs) = ucast b OR push_bit 8 (of_le bs)"

lemma length_to_le [simp]: "length (to_le n w) = n"
  by (induction n arbitrary: w) auto

lemma of_le_to_le_take: "of_le (to_le n w) = take_bit (8 * n) w"
proof (induction n arbitrary: w)
  case 0
  then show ?case by simp
next
  case (Suc n)
  show ?case
    by (rule bit_word_eqI)
      (auto simp: Suc bit_or_iff bit_push_bit_iff bit_take_bit_iff bit_drop_bit_eq bit_ucast_iff
        bit_imp_le_length not_less le_add_diff_inverse)
qed

lemma of_le_to_le [simp]: "LENGTH('a) = 8 * n \<Longrightarrow> of_le (to_le n (w :: 'a::len word)) = w"
  by (simp add: of_le_to_le_take take_bit_word_eq_self)

lemma to_le_of_le:
  "8 * length bs \<le> LENGTH('a) \<Longrightarrow> to_le (length bs) (of_le bs :: 'a::len word) = bs"
proof (induction bs)
  case Nil
  then show ?case by simp
next
  case (Cons b bs)
  let ?w = "ucast b OR push_bit 8 (of_le bs) :: 'a word"
  have lo: "(ucast ?w :: u8) = b"
    using Cons.prems
    by (intro bit_word_eqI) (auto simp: bit_ucast_iff bit_or_iff bit_push_bit_iff)
  have top: "bit (of_le bs :: 'a word) i \<Longrightarrow> i < 8 * length bs" for i
  proof (induction bs arbitrary: i)
    case Nil
    then show ?case by simp
  next
    case (Cons c cs)
    then show ?case
      by (auto simp: bit_or_iff bit_push_bit_iff bit_ucast_iff dest: bit_imp_le_length)
        (metis Cons.IH add_less_cancel_left bit_push_bit_iff le_add_diff_inverse)
  qed
  have hi: "drop_bit 8 ?w = (of_le bs :: 'a word)"
    using Cons.prems top
    by (intro bit_word_eqI)
      (fastforce simp: bit_drop_bit_eq bit_or_iff bit_push_bit_iff bit_ucast_iff
        dest: bit_imp_le_length)
  show ?case using Cons by (simp add: lo hi del: drop_bit_or)
qed

section \<open>Reading: PropStream\<close>

text \<open>
  The state of a \<open>PropStream\<close> is the bytes between its cursor \<open>p\<close> and its \<open>end\<close>.
  A read returns the stream and its result; a failed read returns \<open>None\<close> for the
  \<open>false\<close> of the code.
\<close>

record prop_stream =
  unread :: bytes

definition ps_init :: "bytes \<Rightarrow> prop_stream" where
  "ps_init a = \<lparr>unread = a\<rparr>"

definition ps_size :: "prop_stream \<Rightarrow> nat" where
  "ps_size s = length (unread s)"

definition ps_read :: "nat \<Rightarrow> prop_stream \<Rightarrow> prop_stream \<times> 'a::len word option" where
  "ps_read n s =
     (if ps_size s < n then (s, None)
      else (s\<lparr>unread := drop n (unread s)\<rparr>, Some (of_le (take n (unread s)))))"

definition ps_readString :: "prop_stream \<Rightarrow> prop_stream \<times> bytes option" where
  "ps_readString s =
     (case ps_read 2 s of
        (s1, None) \<Rightarrow> (s1, None)
      | (s1, Some strLen) \<Rightarrow>
          (let n = unat (strLen :: u16) in
           if ps_size s1 < n then (s1, None)
           else (s1\<lparr>unread := drop n (unread s1)\<rparr>, Some (take n (unread s1)))))"

definition ps_skip :: "nat \<Rightarrow> prop_stream \<Rightarrow> prop_stream \<times> bool" where
  "ps_skip n s =
     (if ps_size s < n then (s, False) else (s\<lparr>unread := drop n (unread s)\<rparr>, True))"

section \<open>Writing: PropWriteStream\<close>

record prop_write_stream =
  wbuffer :: bytes

definition pw_empty :: prop_write_stream where
  "pw_empty = \<lparr>wbuffer = []\<rparr>"

definition pw_getStream :: "prop_write_stream \<Rightarrow> bytes \<times> nat" where
  "pw_getStream s = (wbuffer s, length (wbuffer s))"

definition pw_clear :: "prop_write_stream \<Rightarrow> prop_write_stream" where
  "pw_clear s = s\<lparr>wbuffer := []\<rparr>"

definition pw_write :: "nat \<Rightarrow> 'a::len word \<Rightarrow> prop_write_stream \<Rightarrow> prop_write_stream" where
  "pw_write n v s = s\<lparr>wbuffer := wbuffer s @ to_le n v\<rparr>"

definition pw_writeString :: "bytes \<Rightarrow> prop_write_stream \<Rightarrow> prop_write_stream" where
  "pw_writeString str s =
     (let strLength = length str in
      if strLength > 65535 then pw_write 2 (0 :: u16) s
      else (let s1 = pw_write 2 (of_nat strLength :: u16) s
            in s1\<lparr>wbuffer := wbuffer s1 @ str\<rparr>))"

lemmas ps_defs = ps_init_def ps_size_def ps_read_def ps_readString_def ps_skip_def
lemmas pw_defs = pw_empty_def pw_getStream_def pw_clear_def pw_write_def pw_writeString_def Let_def

section \<open>The codecs of the streams\<close>

text \<open>Each typed read as a decoder, each typed write as an encoder of bytes.\<close>

definition dec_int :: "nat \<Rightarrow> bytes \<Rightarrow> ('a::len word \<times> bytes) option" where
  "dec_int n bs =
     (case ps_read n (ps_init bs) of (s, None) \<Rightarrow> None | (s, Some v) \<Rightarrow> Some (v, unread s))"

definition enc_int :: "nat \<Rightarrow> 'a::len word \<Rightarrow> bytes" where
  "enc_int n v = wbuffer (pw_write n v pw_empty)"

definition dec_str :: "bytes \<Rightarrow> (bytes \<times> bytes) option" where
  "dec_str bs =
     (case ps_readString (ps_init bs) of (s, None) \<Rightarrow> None | (s, Some v) \<Rightarrow> Some (v, unread s))"

definition enc_str :: "bytes \<Rightarrow> bytes" where
  "enc_str v = wbuffer (pw_writeString v pw_empty)"

lemma dec_int_append: "length b = n \<Longrightarrow> dec_int n (b @ rest) = Some (of_le b, rest)"
  by (simp add: dec_int_def ps_defs)

lemma dec_enc_int:
  "LENGTH('a) = 8 * n \<Longrightarrow> dec_int n (enc_int n (v :: 'a::len word) @ rest) = Some (v, rest)"
  by (simp add: enc_int_def pw_defs dec_int_append)

lemma enc_str_eq:
  "length v \<le> 65535 \<Longrightarrow> enc_str v = to_le 2 (of_nat (length v) :: u16) @ v"
  by (simp add: enc_str_def pw_defs)

lemma dec_str_append:
  "dec_str (to_le 2 (n :: u16) @ bs) =
     (if length bs < unat n then None else Some (take (unat n) bs, drop (unat n) bs))"
  by (simp add: dec_str_def ps_defs Let_def)

lemma dec_enc_str: "length v \<le> 65535 \<Longrightarrow> dec_str (enc_str v @ rest) = Some (v, rest)"
  by (simp add: enc_str_eq dec_str_append unat_of_nat)

interpretation c8: codec "enc_int 1 :: u8 \<Rightarrow> bytes" "dec_int 1" "\<lambda>_. True"
  by unfold_locales (rule dec_enc_int, simp)

interpretation c16: codec "enc_int 2 :: u16 \<Rightarrow> bytes" "dec_int 2" "\<lambda>_. True"
  by unfold_locales (rule dec_enc_int, simp)

interpretation c32: codec "enc_int 4 :: u32 \<Rightarrow> bytes" "dec_int 4" "\<lambda>_. True"
  by unfold_locales (rule dec_enc_int, simp)

interpretation c64: codec "enc_int 8 :: u64 \<Rightarrow> bytes" "dec_int 8" "\<lambda>_. True"
  by unfold_locales (rule dec_enc_int, simp)

interpretation cstr: codec enc_str dec_str "\<lambda>v. length v \<le> 65535"
  by unfold_locales (rule dec_enc_str)

section \<open>Safety of reading\<close>

text \<open>Every operation only ever moves the cursor forward inside the buffer.\<close>

lemma ps_read_suffix: "ps_read n s = (s', r) \<Longrightarrow> \<exists>pre. unread s = pre @ unread s'"
  by (auto simp: ps_defs split: if_splits) (metis append_take_drop_id)

lemma ps_readString_suffix: "ps_readString s = (s', r) \<Longrightarrow> \<exists>pre. unread s = pre @ unread s'"
proof (cases "ps_read 2 s :: prop_stream \<times> u16 option")
  case (Pair s1 o1)
  assume r: "ps_readString s = (s', r)"
  obtain p1 where p1: "unread s = p1 @ unread s1"
    using ps_read_suffix [OF Pair] by blast
  show ?thesis
  proof (cases o1)
    case None
    with r Pair p1 show ?thesis by (auto simp: ps_readString_def)
  next
    case (Some n)
    with r Pair p1 show ?thesis
      by (auto simp: ps_readString_def Let_def split: if_splits)
        (metis append.assoc append_take_drop_id)
  qed
qed

text \<open>
  What \<open>PropWriteStream\<close> writes, \<open>PropStream\<close> reads back: a list of strings, each
  preceded by its 16-bit length, is read back unchanged, and a 32-bit value written
  after it follows, as long as no string passes the 65535 bytes of the length field.
\<close>

theorem prop_stream_round_trip:
  assumes "\<forall>v \<in> set strs. length v \<le> 65535"
  shows "cstr.dec_many (length strs) (concat (map enc_str strs) @ enc_int 4 (w :: u32) @ rest) =
           Some (strs, enc_int 4 w @ rest) \<and>
         dec_int 4 (enc_int 4 w @ rest) = Some (w, rest)"
  using cstr.dec_many_enc [OF assms] c32.dec_enc by simp

theorem prop_stream_round_trip_witness:
  "cstr.dec_many (length [[104 :: u8, 105], []])
     (concat (map enc_str [[104 :: u8, 105], []]) @ enc_int 4 (7 :: u32) @ []) =
     Some ([[104 :: u8, 105], []], enc_int 4 (7 :: u32) @ []) \<and>
   dec_int 4 (enc_int 4 (7 :: u32) @ []) = Some (7 :: u32, [])"
  by (rule prop_stream_round_trip) simp

text \<open>
  A string too long for the 16-bit length field is written as the empty string, and
  a \<open>readString\<close> whose announced length passes the end fails after having consumed
  the two length bytes.
\<close>

theorem prop_stream_long_strings:
  "dec_str (enc_str v @ rest) = Some (if length v > 65535 then [] else v, rest) \<and>
   ps_readString (ps_init (to_le 2 (n :: u16) @ bs)) =
     (if length bs < unat n then (ps_init bs, None)
      else (ps_init (drop (unat n) bs), Some (take (unat n) bs)))"
proof
  show "dec_str (enc_str v @ rest) = Some (if length v > 65535 then [] else v, rest)"
  proof (cases "length v \<le> 65535")
    case True
    then show ?thesis by (simp add: dec_enc_str)
  next
    case False
    then have "enc_str v = to_le 2 (0 :: u16) @ []" by (simp add: enc_str_def pw_defs)
    with False show ?thesis by (simp only: append.assoc append_Nil dec_str_append) simp
  qed
qed (simp add: ps_defs Let_def)

end
