(* ===== verification/Geometry.thy ===== *)
theory Geometry imports Prelude begin

text \<open>
  Positions and directions of the game map (position.h, position.cpp and the
  direction functions of tools.cpp). Coordinates are the 16-bit and 8-bit
  unsigned integers of the struct; their arithmetic wraps. \<open>operator<\<close> is
  given as an instance of the library's \<open>linorder\<close> class, which is what the
  code's ordered maps keyed by positions need of it.
\<close>

section \<open>Directions\<close>

datatype direction =
    North | East | South | West
  | SouthWest | SouthEast | NorthWest | NorthEast
  | NoDirection

fun direction_code :: "direction \<Rightarrow> u8" where
  "direction_code North = 0"
| "direction_code East = 1"
| "direction_code South = 2"
| "direction_code West = 3"
| "direction_code SouthWest = 4 OR 0"
| "direction_code SouthEast = 4 OR 1"
| "direction_code NorthWest = 4 OR 2"
| "direction_code NorthEast = 4 OR 3"
| "direction_code NoDirection = 8"

text \<open>\<open>operator<<(ostream, Direction)\<close>: \<open>DIRECTION_NONE\<close> prints nothing.\<close>

fun direction_name :: "direction \<Rightarrow> string" where
  "direction_name North = ''North''"
| "direction_name East = ''East''"
| "direction_name West = ''West''"
| "direction_name South = ''South''"
| "direction_name SouthWest = ''South-West''"
| "direction_name SouthEast = ''South-East''"
| "direction_name NorthWest = ''North-West''"
| "direction_name NorthEast = ''North-East''"
| "direction_name NoDirection = ''''"

text \<open>\<open>getDirection\<close>: the first matching comparison wins, an unknown word is north.\<close>

definition getDirection :: "string \<Rightarrow> direction" where
  "getDirection s =
     (if s = ''north'' \<or> s = ''n'' \<or> s = ''0'' then North
      else if s = ''east'' \<or> s = ''e'' \<or> s = ''1'' then East
      else if s = ''south'' \<or> s = ''s'' \<or> s = ''2'' then South
      else if s = ''west'' \<or> s = ''w'' \<or> s = ''3'' then West
      else if s = ''southwest'' \<or> s = ''south west'' \<or> s = ''south-west'' \<or> s = ''sw'' \<or> s = ''4''
        then SouthWest
      else if s = ''southeast'' \<or> s = ''south east'' \<or> s = ''south-east'' \<or> s = ''se'' \<or> s = ''5''
        then SouthEast
      else if s = ''northwest'' \<or> s = ''north west'' \<or> s = ''north-west'' \<or> s = ''nw'' \<or> s = ''6''
        then NorthWest
      else if s = ''northeast'' \<or> s = ''north east'' \<or> s = ''north-east'' \<or> s = ''ne'' \<or> s = ''7''
        then NorthEast
      else North)"

section \<open>Positions\<close>

record position =
  px :: u16
  py :: u16
  pz :: u8

definition getX :: "position \<Rightarrow> int" where "getX p = uint (px p)"
definition getY :: "position \<Rightarrow> int" where "getY p = uint (py p)"
definition getZ :: "position \<Rightarrow> int" where "getZ p = uint (pz p)"

text \<open>The offsets are signed and wide enough: no wrap-around happens here.\<close>

definition getOffsetX :: "position \<Rightarrow> position \<Rightarrow> int" where
  "getOffsetX p1 p2 = getX p1 - getX p2"

definition getOffsetY :: "position \<Rightarrow> position \<Rightarrow> int" where
  "getOffsetY p1 p2 = getY p1 - getY p2"

definition getOffsetZ :: "position \<Rightarrow> position \<Rightarrow> int" where
  "getOffsetZ p1 p2 = getZ p1 - getZ p2"

definition getDistanceX :: "position \<Rightarrow> position \<Rightarrow> int" where
  "getDistanceX p1 p2 = \<bar>getOffsetX p1 p2\<bar>"

definition getDistanceY :: "position \<Rightarrow> position \<Rightarrow> int" where
  "getDistanceY p1 p2 = \<bar>getOffsetY p1 p2\<bar>"

definition getDistanceZ :: "position \<Rightarrow> position \<Rightarrow> int" where
  "getDistanceZ p1 p2 = \<bar>getOffsetZ p1 p2\<bar>"

definition areInRange2 :: "int \<Rightarrow> int \<Rightarrow> position \<Rightarrow> position \<Rightarrow> bool" where
  "areInRange2 deltax deltay p1 p2 \<longleftrightarrow>
     getDistanceX p1 p2 \<le> deltax \<and> getDistanceY p1 p2 \<le> deltay"

definition areInRange3 :: "int \<Rightarrow> int \<Rightarrow> int \<Rightarrow> position \<Rightarrow> position \<Rightarrow> bool" where
  "areInRange3 deltax deltay deltaz p1 p2 \<longleftrightarrow>
     getDistanceX p1 p2 \<le> deltax \<and> getDistanceY p1 p2 \<le> deltay \<and> getDistanceZ p1 p2 \<le> deltaz"

text \<open>\<open>Position::operator<\<close>, test by test.\<close>

definition pos_less :: "position \<Rightarrow> position \<Rightarrow> bool" where
  "pos_less a b =
     (if pz a < pz b then True
      else if pz b < pz a then False
      else if py a < py b then True
      else if py b < py a then False
      else if px a < px b then True
      else if px b < px a then False
      else False)"

text \<open>\<open>Position::operator>\<close> is written as the negation of \<open>operator<\<close>.\<close>

definition pos_greater :: "position \<Rightarrow> position \<Rightarrow> bool" where
  "pos_greater a b = (\<not> pos_less a b)"

definition pos_eq :: "position \<Rightarrow> position \<Rightarrow> bool" where
  "pos_eq a b \<longleftrightarrow> px b = px a \<and> py b = py a \<and> pz b = pz a"

definition pos_neq :: "position \<Rightarrow> position \<Rightarrow> bool" where
  "pos_neq a b \<longleftrightarrow> px b \<noteq> px a \<or> py b \<noteq> py a \<or> pz b \<noteq> pz a"

definition pos_plus :: "position \<Rightarrow> position \<Rightarrow> position" where
  "pos_plus a b = \<lparr>px = px a + px b, py = py a + py b, pz = pz a + pz b\<rparr>"

definition pos_minus :: "position \<Rightarrow> position \<Rightarrow> position" where
  "pos_minus a b = \<lparr>px = px a - px b, py = py a - py b, pz = pz a - pz b\<rparr>"

text \<open>\<open>operator<<(ostream, Position)\<close>.\<close>

definition position_string :: "position \<Rightarrow> string" where
  "position_string p =
     ''( '' @ zero_pad 5 (to_dec (unat (px p))) @ '' / '' @
     zero_pad 5 (to_dec (unat (py p))) @ '' / '' @
     zero_pad 3 (to_dec (unat (pz p))) @ '' )''"

section \<open>Moving in a direction\<close>

fun getNextPosition :: "direction \<Rightarrow> position \<Rightarrow> position" where
  "getNextPosition North p = p\<lparr>py := py p - 1\<rparr>"
| "getNextPosition South p = p\<lparr>py := py p + 1\<rparr>"
| "getNextPosition West p = p\<lparr>px := px p - 1\<rparr>"
| "getNextPosition East p = p\<lparr>px := px p + 1\<rparr>"
| "getNextPosition SouthWest p = p\<lparr>px := px p - 1, py := py p + 1\<rparr>"
| "getNextPosition NorthWest p = p\<lparr>px := px p - 1, py := py p - 1\<rparr>"
| "getNextPosition NorthEast p = p\<lparr>px := px p + 1, py := py p - 1\<rparr>"
| "getNextPosition SouthEast p = p\<lparr>px := px p + 1, py := py p + 1\<rparr>"
| "getNextPosition NoDirection p = p"

definition getDirectionTo :: "position \<Rightarrow> position \<Rightarrow> direction" where
  "getDirectionTo from to =
     (let x0 = getOffsetX from to;
          dir = (if x0 < 0 then East else West);
          x_offset = (if x0 < 0 then \<bar>x0\<bar> else x0);
          y0 = getOffsetY from to
      in if y0 \<ge> 0 then
           (if y0 > x_offset then North
            else if y0 = x_offset then (if dir = East then NorthEast else NorthWest)
            else dir)
         else
           (let y_offset = \<bar>y0\<bar> in
            if y_offset > x_offset then South
            else if y_offset = x_offset then (if dir = East then SouthEast else SouthWest)
            else dir))"

lemmas offset_defs = getOffsetX_def getOffsetY_def getOffsetZ_def getX_def getY_def getZ_def
lemmas distance_defs = getDistanceX_def getDistanceY_def getDistanceZ_def offset_defs

section \<open>The order on positions\<close>

lemma pos_less_iff:
  "pos_less a b \<longleftrightarrow>
     pz a < pz b \<or> (pz a = pz b \<and> (py a < py b \<or> (py a = py b \<and> px a < px b)))"
  by (auto simp: pos_less_def not_less_iff_gr_or_eq)

lemma position_eqI: "px a = px b \<Longrightarrow> py a = py b \<Longrightarrow> pz a = pz b \<Longrightarrow> (a::position) = b"
  by (cases a, cases b) simp

lemma pos_eq_iff [simp]: "pos_eq a b \<longleftrightarrow> a = b"
  by (auto simp: pos_eq_def intro: position_eqI)

lemma pos_neq_iff [simp]: "pos_neq a b \<longleftrightarrow> a \<noteq> b"
  by (auto simp: pos_neq_def intro: position_eqI)

instantiation position_ext :: (linorder) linorder
begin

definition less_position_ext :: "'a position_ext \<Rightarrow> 'a position_ext \<Rightarrow> bool" where
  "less_position_ext a b \<longleftrightarrow>
     pz a < pz b \<or> (pz a = pz b \<and> (py a < py b \<or> (py a = py b \<and>
       (px a < px b \<or> (px a = px b \<and> position.more a < position.more b)))))"

definition less_eq_position_ext :: "'a position_ext \<Rightarrow> 'a position_ext \<Rightarrow> bool" where
  "less_eq_position_ext a b \<longleftrightarrow> a < b \<or> a = b"

instance
proof
  fix a b c :: "'a position_ext"
  show "a \<le> a" by (simp add: less_eq_position_ext_def)
  show "(a < b) = (a \<le> b \<and> \<not> b \<le> a)"
    by (auto simp: less_eq_position_ext_def less_position_ext_def)
  show "a \<le> b \<Longrightarrow> b \<le> c \<Longrightarrow> a \<le> c"
    by (auto simp: less_eq_position_ext_def less_position_ext_def)
  show "a \<le> b \<Longrightarrow> b \<le> a \<Longrightarrow> a = b"
    by (auto simp: less_eq_position_ext_def less_position_ext_def)
  have "a < b \<or> b < a" if "a \<noteq> b"
  proof -
    from that consider "px a \<noteq> px b" | "py a \<noteq> py b" | "pz a \<noteq> pz b"
      | "position.more a \<noteq> position.more b"
      by (cases a, cases b) auto
    then show ?thesis
      unfolding less_position_ext_def using linear less_le by metis
  qed
  then show "a \<le> b \<or> b \<le> a"
    by (auto simp: less_eq_position_ext_def)
qed

end

text \<open>On plain positions the instance is exactly the code's operator.\<close>

lemma less_is_pos_less: "(a :: position) < b \<longleftrightarrow> pos_less a b"
  by (simp add: less_position_ext_def pos_less_iff)

section \<open>Facts about moving and distances\<close>

lemma uint_minus_1: "0 < uint (w :: 'a::len word) \<Longrightarrow> uint (w - 1) = uint w - 1"
proof -
  assume "0 < uint w"
  then have "1 \<le> w" by (simp add: word_le_def)
  then show ?thesis by (simp add: uint_minus_simple_alt)
qed

lemma uint_plus_1: "uint (w :: 'a::len word) + 1 < 2 ^ LENGTH('a) \<Longrightarrow> uint (w + 1) = uint w + 1"
  by (simp add: uint_word_ariths mod_pos_pos_trivial)

text \<open>Positions one step away from the border of the coordinate space.\<close>

definition inner :: "position \<Rightarrow> bool" where
  "inner p \<longleftrightarrow> 0 < getX p \<and> getX p < 65535 \<and> 0 < getY p \<and> getY p < 65535"

lemma next_position_coords:
  assumes "inner p"
  shows "getX (getNextPosition d p) - getX p =
           (if d \<in> {East, NorthEast, SouthEast} then 1
            else if d \<in> {West, NorthWest, SouthWest} then -1 else 0)"
    and "getY (getNextPosition d p) - getY p =
           (if d \<in> {South, SouthWest, SouthEast} then 1
            else if d \<in> {North, NorthWest, NorthEast} then -1 else 0)"
    and "getZ (getNextPosition d p) = getZ p"
  using assms
  by (cases d; simp add: inner_def getX_def getY_def getZ_def uint_minus_1 uint_plus_1)+

text \<open>
  Facing the tile one step away gives the direction of the step: for every real
  direction, \<open>getDirectionTo(p, getNextPosition(d, p)) = d\<close>, for positions off the
  border of the coordinate space (at the border the 16-bit coordinate wraps around).
\<close>

theorem direction_of_next_position:
  assumes "inner p" and "d \<noteq> NoDirection"
  shows "getDirectionTo p (getNextPosition d p) = d"
proof -
  have "getOffsetX p (getNextPosition d p) = - (getX (getNextPosition d p) - getX p)"
    and "getOffsetY p (getNextPosition d p) = - (getY (getNextPosition d p) - getY p)"
    by (simp_all add: getOffsetX_def getOffsetY_def)
  with assms(2) show ?thesis
    unfolding next_position_coords[OF assms(1)] getDirectionTo_def Let_def
    by (cases d) simp_all
qed

theorem direction_of_next_position_witness:
  "getDirectionTo \<lparr>px = 100, py = 100, pz = 7\<rparr>
     (getNextPosition SouthWest \<lparr>px = 100, py = 100, pz = 7\<rparr>) = SouthWest"
  by (rule direction_of_next_position) (simp_all add: inner_def getX_def getY_def)

text \<open>
  \<open>Position::operator<\<close> is a strict total order (irreflexive, transitive and total
  for \<open>operator==\<close>), as an ordered map with positions as keys requires, while
  \<open>operator>\<close> is not the converse of it: it also holds of a position and itself.
\<close>

theorem pos_less_strict_total_order:
  "irreflp pos_less \<and> transp pos_less \<and> totalp pos_less \<and>
   (\<forall>a b. pos_greater a b \<longleftrightarrow> pos_less b a \<or> pos_eq a b) \<and> (\<forall>a. pos_greater a a)"
proof (intro conjI)
  show "irreflp pos_less" by (auto intro!: irreflpI simp: less_is_pos_less [symmetric])
  show "transp pos_less"
    by (auto intro!: transpI simp: less_is_pos_less [symmetric])
  show "totalp pos_less"
    by (auto intro!: totalpI simp: less_is_pos_less [symmetric])
  show "\<forall>a b. pos_greater a b \<longleftrightarrow> pos_less b a \<or> pos_eq a b"
    by (auto simp: pos_greater_def less_is_pos_less [symmetric])
  show "\<forall>a. pos_greater a a"
    by (simp add: pos_greater_def less_is_pos_less [symmetric])
qed

lemma zero_pad_5_u16: "length (zero_pad 5 (to_dec (unat (w :: u16)))) = 5"
proof -
  have "unat w < 10 ^ 5" using unsigned_less [of w, where 'a = nat] by simp
  then show ?thesis using length_to_dec_le [of "unat w" 5] by simp
qed

lemma zero_pad_3_u8: "length (zero_pad 3 (to_dec (unat (w :: u8)))) = 3"
proof -
  have "unat w < 10 ^ 3" using unsigned_less [of w, where 'a = nat] by simp
  then show ?thesis using length_to_dec_le [of "unat w" 3] by simp
qed

text \<open>The printed form of a position has a fixed width and names the position uniquely.\<close>

lemma length_position_string: "length (position_string p) = 23"
  by (simp add: position_string_def zero_pad_5_u16 zero_pad_3_u8 del: length_zero_pad)

lemma position_string_inj: "position_string p = position_string q \<Longrightarrow> p = q"
proof (rule position_eqI)
  assume eq: "position_string p = position_string q"
  then have parts:
    "zero_pad 5 (to_dec (unat (px p))) = zero_pad 5 (to_dec (unat (px q)))"
    "zero_pad 5 (to_dec (unat (py p))) = zero_pad 5 (to_dec (unat (py q)))"
    "zero_pad 3 (to_dec (unat (pz p))) = zero_pad 3 (to_dec (unat (pz q)))"
    by (auto simp: position_string_def append_eq_append_conv zero_pad_5_u16 zero_pad_3_u8
        simp del: length_zero_pad)
  then show "px p = px q" "py p = py q" "pz p = pz q"
    using zero_pad_to_dec_inj word_unat_eq_iff by blast+
qed

lemma distance_sym:
  "getDistanceX p q = getDistanceX q p" "getDistanceY p q = getDistanceY q p"
  "getDistanceZ p q = getDistanceZ q p"
  by (simp_all add: distance_defs)

end
