(* ===== verification/NetMsg.thy ===== *)
theory NetMsg imports Geometry Streams begin

text \<open>
  \<open>NetworkMessage\<close> (networkmessage.h, networkmessage.cpp): the byte buffer of
  fixed size every packet is read from and written to. The buffer is a function
  from indices to bytes, so that an access outside of it is visible: the code may
  only touch indices below \<open>NETWORKMESSAGE_MAXSIZE\<close>. The three 16-bit and boolean
  fields of \<open>NetworkMessageInfo\<close> keep their width.
\<close>

section \<open>State\<close>

definition NETWORKMESSAGE_MAXSIZE :: nat where "NETWORKMESSAGE_MAXSIZE = 24590"
definition HEADER_LENGTH :: nat where "HEADER_LENGTH = 2"
definition CHECKSUM_LENGTH :: nat where "CHECKSUM_LENGTH = 4"
definition XTEA_MULTIPLE :: nat where "XTEA_MULTIPLE = 8"

definition MAX_BODY_LENGTH :: nat where
  "MAX_BODY_LENGTH = NETWORKMESSAGE_MAXSIZE - HEADER_LENGTH - CHECKSUM_LENGTH - XTEA_MULTIPLE"

definition MAX_PROTOCOL_BODY_LENGTH :: nat where
  "MAX_PROTOCOL_BODY_LENGTH = MAX_BODY_LENGTH - 10"

definition INITIAL_BUFFER_POSITION :: u16 where "INITIAL_BUFFER_POSITION = 8"

lemmas net_consts = NETWORKMESSAGE_MAXSIZE_def HEADER_LENGTH_def CHECKSUM_LENGTH_def
  XTEA_MULTIPLE_def MAX_BODY_LENGTH_def MAX_PROTOCOL_BODY_LENGTH_def INITIAL_BUFFER_POSITION_def

record netmsg =
  nm_length :: u16
  nm_position :: u16
  nm_overrun :: bool
  nm_buffer :: "nat \<Rightarrow> u8"

text \<open>\<open>memcpy\<close> out of and into the buffer.\<close>

definition bslice :: "(nat \<Rightarrow> u8) \<Rightarrow> nat \<Rightarrow> nat \<Rightarrow> bytes" where
  "bslice buf off n = map buf [off..<off + n]"

definition store :: "(nat \<Rightarrow> u8) \<Rightarrow> nat \<Rightarrow> bytes \<Rightarrow> (nat \<Rightarrow> u8)" where
  "store buf off bs = (\<lambda>i. if off \<le> i \<and> i < off + length bs then bs ! (i - off) else buf i)"

definition pos_of :: "netmsg \<Rightarrow> nat" where "pos_of m = unat (nm_position m)"
definition body_len :: "netmsg \<Rightarrow> nat" where "body_len m = unat (nm_length m)"

definition nm_reset :: "netmsg \<Rightarrow> netmsg" where
  "nm_reset m = m\<lparr>nm_length := 0, nm_position := INITIAL_BUFFER_POSITION, nm_overrun := False\<rparr>"

section \<open>Reading\<close>

text \<open>
  \<open>canRead\<close> takes a signed size; the sum and the difference are computed in \<open>int\<close>
  and cannot overflow for the sizes the class passes to it.
\<close>

definition canRead :: "nat \<Rightarrow> netmsg \<Rightarrow> bool \<times> netmsg" where
  "canRead n m =
     (if pos_of m + n > body_len m + 8 \<or>
         int n \<ge> int NETWORKMESSAGE_MAXSIZE - int (pos_of m)
      then (False, m\<lparr>nm_overrun := True\<rparr>) else (True, m))"

definition nm_getByte :: "netmsg \<Rightarrow> u8 \<times> netmsg" where
  "nm_getByte m =
     (case canRead 1 m of
        (False, m') \<Rightarrow> (0, m')
      | (True, m') \<Rightarrow> (nm_buffer m' (pos_of m'), m'\<lparr>nm_position := nm_position m' + 1\<rparr>))"

text \<open>
  \<open>getPreviousByte\<close> has no check: it steps the 16-bit position back and reads there;
  \<open>None\<close> is the read outside of the buffer.
\<close>

definition nm_getPreviousByte :: "netmsg \<Rightarrow> (u8 \<times> netmsg) option" where
  "nm_getPreviousByte m =
     (let m' = m\<lparr>nm_position := nm_position m - 1\<rparr>
      in if pos_of m' < NETWORKMESSAGE_MAXSIZE then Some (nm_buffer m' (pos_of m'), m') else None)"

definition nm_get :: "nat \<Rightarrow> netmsg \<Rightarrow> 'a::len word \<times> netmsg" where
  "nm_get n m =
     (case canRead n m of
        (False, m') \<Rightarrow> (0, m')
      | (True, m') \<Rightarrow> (of_le (bslice (nm_buffer m') (pos_of m') n),
                      m'\<lparr>nm_position := nm_position m' + of_nat n\<rparr>))"

definition nm_getString :: "u16 \<Rightarrow> netmsg \<Rightarrow> bytes \<times> netmsg" where
  "nm_getString stringLen m =
     (let (n, m1) = (if stringLen = 0 then nm_get 2 m else (stringLen, m))
      in case canRead (unat n) m1 of
           (False, m2) \<Rightarrow> ([], m2)
         | (True, m2) \<Rightarrow> (bslice (nm_buffer m2) (pos_of m2) (unat n),
                         m2\<lparr>nm_position := nm_position m2 + n\<rparr>))"

definition nm_getPosition :: "netmsg \<Rightarrow> position \<times> netmsg" where
  "nm_getPosition m =
     (let (x, m1) = nm_get 2 m;
          (y, m2) = nm_get 2 m1;
          (z, m3) = nm_getByte m2
      in (\<lparr>px = x, py = y, pz = z\<rparr>, m3))"

definition nm_skipBytes :: "16 word \<Rightarrow> netmsg \<Rightarrow> netmsg" where
  "nm_skipBytes count m = m\<lparr>nm_position := nm_position m + count\<rparr>"

section \<open>Writing\<close>

definition canAdd :: "nat \<Rightarrow> netmsg \<Rightarrow> bool" where
  "canAdd n m \<longleftrightarrow> n + pos_of m < MAX_BODY_LENGTH"

definition put_bytes :: "bytes \<Rightarrow> netmsg \<Rightarrow> netmsg" where
  "put_bytes bs m = m\<lparr>nm_buffer := store (nm_buffer m) (pos_of m) bs,
     nm_position := nm_position m + of_nat (length bs),
     nm_length := nm_length m + of_nat (length bs)\<rparr>"

definition nm_addByte :: "u8 \<Rightarrow> netmsg \<Rightarrow> netmsg" where
  "nm_addByte v m = (if \<not> canAdd 1 m then m else put_bytes [v] m)"

definition nm_add :: "nat \<Rightarrow> 'a::len word \<Rightarrow> netmsg \<Rightarrow> netmsg" where
  "nm_add n v m = (if \<not> canAdd n m then m else put_bytes (to_le n v) m)"

definition nm_addBytes :: "bytes \<Rightarrow> netmsg \<Rightarrow> netmsg" where
  "nm_addBytes bs m =
     (if \<not> canAdd (length bs) m \<or> length bs > 8192 then m else put_bytes bs m)"

text \<open>\<open>addPaddingBytes\<close> writes at the position but advances only the length.\<close>

definition nm_addPaddingBytes :: "nat \<Rightarrow> netmsg \<Rightarrow> netmsg" where
  "nm_addPaddingBytes n m =
     (if \<not> canAdd n m then m
      else m\<lparr>nm_buffer := store (nm_buffer m) (pos_of m) (replicate n 0x33),
             nm_length := nm_length m + of_nat n\<rparr>)"

definition nm_addString :: "bytes \<Rightarrow> netmsg \<Rightarrow> netmsg" where
  "nm_addString value m =
     (let stringLen = length value in
      if \<not> canAdd (stringLen + 2) m \<or> stringLen > 8192 then m
      else put_bytes value (nm_add 2 (of_nat stringLen :: u16) m))"

definition nm_addPosition :: "position \<Rightarrow> netmsg \<Rightarrow> netmsg" where
  "nm_addPosition p m = nm_addByte (pz p) (nm_add 2 (py p) (nm_add 2 (px p) m))"

text \<open>
  The item of a packet. \<open>item_net\<close> holds what \<open>addItem\<close> reads of an
  \<open>ItemType\<close>; \<open>fluidMap\<close> is the table of const.h.
\<close>

record item_net =
  clientId :: u16
  it_stackable :: bool
  it_splash :: bool
  it_fluid :: bool
  it_animation :: bool

definition fluidMap :: "u8 list" where
  "fluidMap = [0, 1, 5, 3, 6, 8, 9, 2]"

definition nm_addItemId :: "item_net \<Rightarrow> netmsg \<Rightarrow> netmsg" where
  "nm_addItemId it m = nm_add 2 (clientId it) m"

definition nm_addItem :: "item_net \<Rightarrow> u8 \<Rightarrow> netmsg \<Rightarrow> netmsg" where
  "nm_addItem it count m =
     (let m1 = nm_addByte 0xFF (nm_add 2 (clientId it) m);
          m2 = (if it_stackable it then nm_addByte count m1
                else if it_splash it \<or> it_fluid it
                  then nm_addByte (fluidMap ! unat (count AND 7)) m1
                else m1)
      in if it_animation it then nm_addByte 0xFE m2 else m2)"

section \<open>The remaining accessors\<close>

definition nm_setLength :: "u16 \<Rightarrow> netmsg \<Rightarrow> netmsg" where
  "nm_setLength n m = m\<lparr>nm_length := n\<rparr>"

definition nm_getLengthHeader :: "netmsg \<Rightarrow> u16" where
  "nm_getLengthHeader m = ucast (nm_buffer m 0) OR push_bit 8 (ucast (nm_buffer m 1))"

text \<open>\<open>getBodyBuffer\<close> returns the offset of the body and moves the position there.\<close>

definition nm_getBodyBuffer :: "netmsg \<Rightarrow> nat \<times> netmsg" where
  "nm_getBodyBuffer m = (HEADER_LENGTH, m\<lparr>nm_position := 2\<rparr>)"

lemmas nm_read_defs = nm_getByte_def nm_get_def nm_getString_def nm_getPosition_def
lemmas nm_write_defs = nm_addByte_def nm_add_def nm_addBytes_def nm_addString_def
  nm_addPosition_def nm_addItem_def nm_addItemId_def

end
