(* ===== verification/NetMsgProps.thy ===== *)
theory NetMsgProps imports NetMsg begin

text \<open>
  Correctness of \<open>NetworkMessage\<close>: what a message writer wrote is read back
  field by field, no write leaves the buffer's body and no checked read leaves the
  buffer, and the two unchecked operations are shown to be unchecked.
\<close>

section \<open>Slices of the buffer\<close>

lemma length_bslice [simp]: "length (bslice buf off n) = n"
  by (simp add: bslice_def)

lemma bslice_store [simp]: "bslice (store buf off bs) off (length bs) = bs"
  by (auto simp: bslice_def store_def intro!: nth_equalityI)

lemma bslice_0 [simp]: "bslice buf off 0 = []"
  by (simp add: bslice_def)

lemma bslice_append: "bslice buf off (a + b) = bslice buf off a @ bslice buf (off + a) b"
  by (simp add: bslice_def map_append [symmetric] upt_add_eq_append [symmetric] del: map_append)
    (metis add.assoc le_add1 map_append upt_add_eq_append)

lemma store_store: "store (store buf off as) (off + length as) bs = store buf off (as @ bs)"
  by (rule ext) (auto simp: store_def nth_append)

lemma store_Nil [simp]: "store buf off [] = buf"
  by (rule ext) (auto simp: store_def)

lemma store_outside: "i < off \<or> off + length bs \<le> i \<Longrightarrow> store buf off bs i = buf i"
  by (auto simp: store_def)

lemma bslice_cong: "(\<And>i. off \<le> i \<Longrightarrow> i < off + n \<Longrightarrow> b1 i = b2 i) \<Longrightarrow> bslice b1 off n = bslice b2 off n"
  by (auto simp: bslice_def)

section \<open>A writer's state\<close>

text \<open>
  A message that has only been written to: its length counts the bytes after the
  initial position, and the position stays below the body limit.
\<close>

definition writer :: "netmsg \<Rightarrow> bool" where
  "writer m \<longleftrightarrow> pos_of m = 8 + body_len m \<and> pos_of m < MAX_BODY_LENGTH"

lemma put_bytes_pos:
  assumes "writer m" "canAdd (length bs) m"
  shows "pos_of (put_bytes bs m) = pos_of m + length bs"
    and "body_len (put_bytes bs m) = body_len m + length bs"
  using assms
  by (auto simp: writer_def canAdd_def put_bytes_def pos_of_def body_len_def net_consts
      unat_word_ariths unat_of_nat)

lemma writer_put_bytes [wf_intros]:
  "writer m \<Longrightarrow> canAdd (length bs) m \<Longrightarrow> writer (put_bytes bs m)"
  using put_bytes_pos [of m bs] by (simp add: writer_def canAdd_def)

lemma put_bytes_append:
  assumes "writer m" "canAdd (length as + length bs) m"
  shows "put_bytes bs (put_bytes as m) = put_bytes (as @ bs) m"
proof -
  have "canAdd (length as) m" using assms by (simp add: canAdd_def)
  then have "pos_of (put_bytes as m) = pos_of m + length as"
    using put_bytes_pos assms(1) by blast
  then show ?thesis
    by (simp add: put_bytes_def store_store pos_of_def)
qed

lemma writer_reset [wf_intros]: "writer (nm_reset m)"
  by (simp add: writer_def nm_reset_def pos_of_def body_len_def net_consts)

lemma writer_add [wf_intros]: "writer m \<Longrightarrow> writer (nm_add n v m)"
  by (auto simp: nm_add_def intro: wf_intros)

lemma writer_addByte [wf_intros]: "writer m \<Longrightarrow> writer (nm_addByte v m)"
  by (auto simp: nm_addByte_def intro: wf_intros)

lemma writer_addBytes [wf_intros]: "writer m \<Longrightarrow> writer (nm_addBytes bs m)"
  by (auto simp: nm_addBytes_def intro: wf_intros)

lemma nm_addString_eq:
  assumes "writer m"
  shows "nm_addString v m =
    (if canAdd (length v + 2) m \<and> length v \<le> 8192
     then put_bytes (to_le 2 (of_nat (length v) :: u16) @ v) m else m)"
  using assms
  by (auto simp: nm_addString_def nm_add_def Let_def canAdd_def put_bytes_append)

lemma writer_addString [wf_intros]: "writer m \<Longrightarrow> writer (nm_addString v m)"
  by (auto simp: nm_addString_eq add.commute intro: wf_intros)

lemma writer_addPosition [wf_intros]: "writer m \<Longrightarrow> writer (nm_addPosition p m)"
  by (auto simp: nm_addPosition_def intro: wf_intros)

lemma writer_addItem [wf_intros]: "writer m \<Longrightarrow> writer (nm_addItem it c m)"
  by (auto simp: nm_addItem_def Let_def intro: wf_intros)

section \<open>Fields\<close>

text \<open>The typed fields a packet is made of, how each is written and read.\<close>

datatype field = F8 u8 | F16 u16 | F32 u32 | F64 u64 | FStr bytes | FPos position

fun write_field :: "field \<Rightarrow> netmsg \<Rightarrow> netmsg" where
  "write_field (F8 v) m = nm_addByte v m"
| "write_field (F16 v) m = nm_add 2 v m"
| "write_field (F32 v) m = nm_add 4 v m"
| "write_field (F64 v) m = nm_add 8 v m"
| "write_field (FStr v) m = nm_addString v m"
| "write_field (FPos p) m = nm_addPosition p m"

fun read_field :: "field \<Rightarrow> netmsg \<Rightarrow> field \<times> netmsg" where
  "read_field (F8 _) m = map_prod F8 id (nm_getByte m)"
| "read_field (F16 _) m = map_prod F16 id (nm_get 2 m)"
| "read_field (F32 _) m = map_prod F32 id (nm_get 4 m)"
| "read_field (F64 _) m = map_prod F64 id (nm_get 8 m)"
| "read_field (FStr _) m = map_prod FStr id (nm_getString 0 m)"
| "read_field (FPos _) m = map_prod FPos id (nm_getPosition m)"

fun write_fields :: "field list \<Rightarrow> netmsg \<Rightarrow> netmsg" where
  "write_fields [] m = m"
| "write_fields (f # fs) m = write_fields fs (write_field f m)"

fun read_fields :: "field list \<Rightarrow> netmsg \<Rightarrow> field list \<times> netmsg" where
  "read_fields [] m = ([], m)"
| "read_fields (f # fs) m =
     (let (g, m1) = read_field f m; (gs, m2) = read_fields fs m1 in (g # gs, m2))"

fun field_bytes :: "field \<Rightarrow> bytes" where
  "field_bytes (F8 v) = [v]"
| "field_bytes (F16 v) = to_le 2 v"
| "field_bytes (F32 v) = to_le 4 v"
| "field_bytes (F64 v) = to_le 8 v"
| "field_bytes (FStr v) = to_le 2 (of_nat (length v) :: u16) @ v"
| "field_bytes (FPos p) = to_le 2 (px p) @ to_le 2 (py p) @ [pz p]"

fun field_ok :: "field \<Rightarrow> bool" where
  "field_ok (FStr v) \<longleftrightarrow> length v \<le> 8192"
| "field_ok _ \<longleftrightarrow> True"

definition fields_bytes :: "field list \<Rightarrow> bytes" where
  "fields_bytes fs = concat (map field_bytes fs)"

lemma write_field_eq:
  assumes "writer m" "field_ok f" "canAdd (length (field_bytes f)) m"
  shows "write_field f m = put_bytes (field_bytes f) m"
proof (cases f)
  case (FPos p)
  then have c: "canAdd 5 m" using assms(3) by simp
  then have "nm_add 2 (px p) m = put_bytes (to_le 2 (px p)) m"
    by (simp add: nm_add_def canAdd_def)
  moreover have "nm_add 2 (py p) (put_bytes (to_le 2 (px p)) m) =
      put_bytes (to_le 2 (px p) @ to_le 2 (py p)) m"
    using put_bytes_pos(1) [of m "to_le 2 (px p)"] assms(1) c
    by (simp add: nm_add_def canAdd_def put_bytes_append)
  moreover have "nm_addByte (pz p) (put_bytes (to_le 2 (px p) @ to_le 2 (py p)) m) =
      put_bytes ((to_le 2 (px p) @ to_le 2 (py p)) @ [pz p]) m"
    using put_bytes_pos(1) [of m "to_le 2 (px p) @ to_le 2 (py p)"] assms(1) c
    by (simp add: nm_addByte_def canAdd_def put_bytes_append del: append_assoc)
  ultimately show ?thesis using FPos by (simp add: nm_addPosition_def)
qed (use assms in \<open>simp_all add: nm_addByte_def nm_add_def nm_addString_eq add.commute\<close>)

lemma write_fields_eq:
  assumes "writer m" "\<forall>f \<in> set fs. field_ok f" "canAdd (length (fields_bytes fs)) m"
  shows "write_fields fs m = put_bytes (fields_bytes fs) m"
  using assms
proof (induction fs arbitrary: m)
  case Nil
  then show ?case by (simp add: fields_bytes_def put_bytes_def)
next
  case (Cons f fs)
  let ?a = "field_bytes f" and ?b = "fields_bytes fs"
  have all: "fields_bytes (f # fs) = ?a @ ?b" by (simp add: fields_bytes_def)
  then have c: "canAdd (length ?a + length ?b) m" using Cons.prems(3) by simp
  then have ca: "canAdd (length ?a) m" by (simp add: canAdd_def)
  have "canAdd (length ?b) (put_bytes ?a m)"
    using c put_bytes_pos(1) [OF Cons.prems(1) ca] by (simp add: canAdd_def)
  then have "write_fields fs (put_bytes ?a m) = put_bytes ?b (put_bytes ?a m)"
    using Cons.prems ca by (intro Cons.IH) (auto intro: wf_intros)
  then show ?case
    using Cons.prems ca c by (simp add: write_field_eq all put_bytes_append)
qed

section \<open>Reading back\<close>

text \<open>
  \<open>readable bs m\<close>: the bytes from the position on are \<open>bs\<close>, and they lie
  inside both the announced length and the buffer.
\<close>

definition readable :: "bytes \<Rightarrow> netmsg \<Rightarrow> bool" where
  "readable bs m \<longleftrightarrow>
     bslice (nm_buffer m) (pos_of m) (length bs) = bs \<and>
     pos_of m + length bs \<le> body_len m + 8 \<and>
     pos_of m + length bs < NETWORKMESSAGE_MAXSIZE"

definition advance :: "nat \<Rightarrow> netmsg \<Rightarrow> netmsg" where
  "advance n m = m\<lparr>nm_position := nm_position m + of_nat n\<rparr>"

lemma pos_advance:
  "pos_of m + n < NETWORKMESSAGE_MAXSIZE \<Longrightarrow> pos_of (advance n m) = pos_of m + n"
  by (simp add: advance_def pos_of_def net_consts unat_word_ariths unat_of_nat)

lemma advance_simps [simp]:
  "nm_buffer (advance n m) = nm_buffer m" "body_len (advance n m) = body_len m"
  by (simp_all add: advance_def body_len_def)

lemma advance_advance [simp]: "advance b (advance a m) = advance (a + b) m"
  by (simp add: advance_def add.assoc)

lemma readable_append:
  assumes "readable (as @ bs) m"
  shows "readable as m" and "readable bs (advance (length as) m)"
proof -
  have lim: "pos_of m + length as < NETWORKMESSAGE_MAXSIZE"
    using assms by (simp add: readable_def)
  have "bslice (nm_buffer m) (pos_of m) (length as) @
        bslice (nm_buffer m) (pos_of m + length as) (length bs) = as @ bs"
    using assms by (simp add: readable_def bslice_append)
  then have "bslice (nm_buffer m) (pos_of m) (length as) = as"
    and "bslice (nm_buffer m) (pos_of m + length as) (length bs) = bs"
    by (simp_all add: append_eq_append_conv)
  with assms lim show "readable as m" "readable bs (advance (length as) m)"
    by (auto simp: readable_def pos_advance)
qed

lemma canRead_readable: "readable bs m \<Longrightarrow> canRead (length bs) m = (True, m)"
  by (auto simp: canRead_def readable_def)

lemma nm_get_readable:
  assumes "readable (to_le n (v :: 'a::len word)) m" "LENGTH('a) = 8 * n"
  shows "nm_get n m = (v, advance n m)"
proof -
  have "canRead n m = (True, m)" using canRead_readable [OF assms(1)] by simp
  moreover have "bslice (nm_buffer m) (pos_of m) n = to_le n v"
    using assms(1) by (simp add: readable_def)
  ultimately show ?thesis
    using assms(2) by (simp add: nm_get_def advance_def)
qed

lemma nm_getByte_readable:
  assumes "readable [v] m"
  shows "nm_getByte m = (v, advance 1 m)"
proof -
  have "canRead 1 m = (True, m)" using canRead_readable [OF assms] by simp
  moreover have "nm_buffer m (pos_of m) = v"
    using assms by (simp add: readable_def bslice_def)
  ultimately show ?thesis by (simp add: nm_getByte_def advance_def)
qed

lemma nm_getString_readable:
  assumes "readable (to_le 2 (of_nat (length v) :: u16) @ v) m" "length v \<le> 8192"
  shows "nm_getString 0 m = (v, advance (2 + length v) m)"
proof -
  let ?n = "of_nat (length v) :: u16"
  have n: "unat ?n = length v" using assms(2) by (simp add: unat_of_nat)
  note r = readable_append [OF assms(1)]
  have g: "nm_get 2 m = (?n, advance 2 m)"
    using nm_get_readable [OF r(1)] by simp
  from r(2) have r2: "readable v (advance 2 m)" by simp
  have "canRead (unat ?n) (advance 2 m) = (True, advance 2 m)"
    using canRead_readable [OF r2] by (simp add: n)
  moreover have "bslice (nm_buffer (advance 2 m)) (pos_of (advance 2 m)) (length v) = v"
    using r2 by (simp add: readable_def)
  ultimately show ?thesis
    by (simp add: nm_getString_def g n) (simp add: advance_def)
qed

lemma nm_getPosition_readable:
  assumes "readable (to_le 2 (px p) @ to_le 2 (py p) @ [pz p]) m"
  shows "nm_getPosition m = (p, advance 5 m)"
proof -
  note r1 = readable_append [OF assms]
  note r2 = readable_append [OF r1(2)]
  have "nm_get 2 m = (px p, advance 2 m)"
    using nm_get_readable [OF r1(1)] by simp
  moreover have "nm_get 2 (advance 2 m) = (py p, advance 4 m)"
    using nm_get_readable [OF r2(1)] by simp
  moreover have "nm_getByte (advance 4 m) = (pz p, advance 5 m)"
    using nm_getByte_readable [of "pz p" "advance 4 m"] r2(2) by simp
  ultimately show ?thesis by (simp add: nm_getPosition_def)
qed

lemma read_field_readable:
  "readable (field_bytes f) m \<Longrightarrow> field_ok f \<Longrightarrow>
   read_field f m = (f, advance (length (field_bytes f)) m)"
  by (cases f)
    (auto simp: nm_getByte_readable nm_get_readable nm_getString_readable nm_getPosition_readable
      simp flip: One_nat_def)

lemma read_fields_readable:
  assumes "readable (fields_bytes fs) m" "\<forall>f \<in> set fs. field_ok f"
  shows "read_fields fs m = (fs, advance (length (fields_bytes fs)) m)"
  using assms
proof (induction fs arbitrary: m)
  case Nil
  then show ?case by (simp add: fields_bytes_def advance_def)
next
  case (Cons f fs)
  have "readable (field_bytes f @ fields_bytes fs) m"
    using Cons.prems(1) by (simp add: fields_bytes_def)
  note r = readable_append [OF this]
  from Cons.prems r have "read_field f m = (f, advance (length (field_bytes f)) m)"
    by (intro read_field_readable) auto
  moreover have "read_fields fs (advance (length (field_bytes f)) m) =
      (fs, advance (length (field_bytes f) + length (fields_bytes fs)) m)"
    using Cons.IH [OF r(2)] Cons.prems by simp
  ultimately show ?case by (simp add: fields_bytes_def)
qed

lemma readable_put_bytes:
  assumes "writer m" "canAdd (length bs) m"
  shows "readable bs ((put_bytes bs m)\<lparr>nm_position := nm_position m\<rparr>)"
proof -
  have "body_len (put_bytes bs m) = body_len m + length bs"
    using put_bytes_pos(2) [OF assms] .
  moreover have "bslice (store (nm_buffer m) (pos_of m) bs) (pos_of m) (length bs) = bs"
    by simp
  ultimately show ?thesis
    using assms
    by (simp add: readable_def writer_def canAdd_def pos_of_def body_len_def net_consts
        put_bytes_def)
qed

lemma write_fields_filter: "write_fields fs m = write_fields (filter field_ok fs) m"
proof (induction fs arbitrary: m)
  case (Cons f fs)
  have "write_field f m = m" if "\<not> field_ok f"
    using that by (cases f) (auto simp: nm_addString_def)
  with Cons show ?case by simp
qed simp

text \<open>
  C38. A packet is read back as it was written: after a list of bytes, integers, strings
  and positions has been written to a message, a reader that starts where the writer
  started gets the same fields, ends where the writer ended and sees no overrun, when
  the fields fit into the body. Strings of more than 8192 bytes are the exception, which
  \<open>addString\<close> drops: what is read back is the list without them.
\<close>

theorem network_message_round_trip:
  assumes "writer m" and "canAdd (length (fields_bytes (filter field_ok fs))) m"
  shows "read_fields (filter field_ok fs) ((write_fields fs m)\<lparr>nm_position := nm_position m\<rparr>) =
           (filter field_ok fs, write_fields fs m)"
proof -
  let ?fs = "filter field_ok fs"
  let ?bs = "fields_bytes ?fs" and ?w = "write_fields fs m"
  have ok: "\<forall>f \<in> set ?fs. field_ok f" by simp
  have w: "?w = put_bytes ?bs m"
    using write_fields_filter [of fs m] write_fields_eq [OF assms(1) ok assms(2)] by simp
  have "readable ?bs (?w\<lparr>nm_position := nm_position m\<rparr>)"
    unfolding w using assms by (rule readable_put_bytes)
  then have "read_fields ?fs (?w\<lparr>nm_position := nm_position m\<rparr>) =
      (?fs, advance (length ?bs) (?w\<lparr>nm_position := nm_position m\<rparr>))"
    using ok by (rule read_fields_readable)
  then show ?thesis by (simp add: w advance_def put_bytes_def)
qed

definition fresh_msg :: netmsg where
  "fresh_msg = \<lparr>nm_length = 0, nm_position = 8, nm_overrun = False, nm_buffer = (\<lambda>_. 0)\<rparr>"

theorem network_message_round_trip_witness:
  "read_fields [F16 513, FStr [72, 105]]
     ((write_fields [F16 513, FStr [72, 105]] fresh_msg)\<lparr>nm_position := nm_position fresh_msg\<rparr>) =
   ([F16 513, FStr [72, 105]], write_fields [F16 513, FStr [72, 105]] fresh_msg)"
  using network_message_round_trip [of fresh_msg "[F16 513, FStr [72, 105]]"]
  by (simp add: fresh_msg_def writer_def canAdd_def fields_bytes_def pos_of_def body_len_def net_consts)

section \<open>Memory safety\<close>

text \<open>
  Reads are memory safe when their result does not depend on anything outside of
  the buffer; writes are when they leave everything outside of the body alone.
\<close>

datatype nm_op =
    GetByte | Get16 | Get32 | Get64 | GetString u16 | GetPosition
  | AddByte u8 | Add16 u16 | Add32 u32 | Add64 u64 | AddBytes bytes
  | AddPadding nat | AddString bytes | AddPosition position | AddItem item_net u8

fun nm_exec :: "nm_op \<Rightarrow> netmsg \<Rightarrow> bytes \<times> netmsg" where
  "nm_exec GetByte m = map_prod (\<lambda>v. [v]) id (nm_getByte m)"
| "nm_exec Get16 m = map_prod (to_le 2 :: u16 \<Rightarrow> bytes) id (nm_get 2 m)"
| "nm_exec Get32 m = map_prod (to_le 4 :: u32 \<Rightarrow> bytes) id (nm_get 4 m)"
| "nm_exec Get64 m = map_prod (to_le 8 :: u64 \<Rightarrow> bytes) id (nm_get 8 m)"
| "nm_exec (GetString n) m = nm_getString n m"
| "nm_exec GetPosition m =
     map_prod (\<lambda>p. to_le 2 (px p) @ to_le 2 (py p) @ [pz p]) id (nm_getPosition m)"
| "nm_exec (AddByte v) m = ([], nm_addByte v m)"
| "nm_exec (Add16 v) m = ([], nm_add 2 v m)"
| "nm_exec (Add32 v) m = ([], nm_add 4 v m)"
| "nm_exec (Add64 v) m = ([], nm_add 8 v m)"
| "nm_exec (AddBytes bs) m = ([], nm_addBytes bs m)"
| "nm_exec (AddPadding n) m = ([], nm_addPaddingBytes n m)"
| "nm_exec (AddString v) m = ([], nm_addString v m)"
| "nm_exec (AddPosition p) m = ([], nm_addPosition p m)"
| "nm_exec (AddItem it c) m = ([], nm_addItem it c m)"

definition same_inside :: "netmsg \<Rightarrow> netmsg \<Rightarrow> bool" where
  "same_inside m1 m2 \<longleftrightarrow>
     nm_length m1 = nm_length m2 \<and> nm_position m1 = nm_position m2 \<and>
     nm_overrun m1 = nm_overrun m2 \<and>
     (\<forall>i < NETWORKMESSAGE_MAXSIZE. nm_buffer m1 i = nm_buffer m2 i)"

text \<open>
  Two runs agree (result and buffer) and neither changes a byte outside of the buffer.
\<close>

definition safe_pair :: "netmsg \<Rightarrow> netmsg \<Rightarrow> ('r \<times> netmsg) \<Rightarrow> ('r \<times> netmsg) \<Rightarrow> bool" where
  "safe_pair m1 m2 r1 r2 \<longleftrightarrow>
     fst r1 = fst r2 \<and> same_inside (snd r1) (snd r2) \<and>
     (\<forall>i \<ge> NETWORKMESSAGE_MAXSIZE. nm_buffer (snd r1) i = nm_buffer m1 i \<and>
                                   nm_buffer (snd r2) i = nm_buffer m2 i)"

lemma safe_pair_same: "same_inside m1 m2 \<Longrightarrow> safe_pair m1 m2 (r, m1) (r, m2)"
  by (simp add: safe_pair_def)

lemma safe_pair_then:
  assumes "safe_pair m1 m2 (a1, n1) (a2, n2)"
    and "\<And>a. a = a1 \<Longrightarrow> same_inside n1 n2 \<Longrightarrow> safe_pair n1 n2 (f a n1) (f a n2)"
  shows "safe_pair m1 m2 (f a1 n1) (f a2 n2)"
  using assms unfolding safe_pair_def by fastforce

lemma safe_map_prod: "safe_pair m1 m2 r1 r2 \<Longrightarrow> safe_pair m1 m2 (map_prod f id r1) (map_prod f id r2)"
  by (auto simp: safe_pair_def)

lemma same_inside_pos: "same_inside m1 m2 \<Longrightarrow> pos_of m1 = pos_of m2 \<and> body_len m1 = body_len m2"
  by (simp add: same_inside_def pos_of_def body_len_def)

lemma canRead_safe:
  assumes "same_inside m1 m2"
  shows "safe_pair m1 m2 (canRead n m1) (canRead n m2)"
  using assms same_inside_pos [OF assms]
  by (auto simp: canRead_def safe_pair_def same_inside_def)

lemma canRead_inside: "canRead n m = (True, m') \<Longrightarrow> m' = m \<and> pos_of m + n < NETWORKMESSAGE_MAXSIZE"
  by (auto simp: canRead_def split: if_splits)

lemma canRead_same:
  "same_inside m1 m2 \<Longrightarrow> fst (canRead n m1) = fst (canRead n m2)"
  using canRead_safe [of m1 m2 n] by (simp add: safe_pair_def)

lemma guarded_read_safe:
  assumes "same_inside m1 m2"
  shows "safe_pair m1 m2
      (case canRead n m1 of (False, m') \<Rightarrow> (d, m')
       | (True, m') \<Rightarrow> (g (bslice (nm_buffer m') (pos_of m') n), m'\<lparr>nm_position := nm_position m' + k\<rparr>))
      (case canRead n m2 of (False, m') \<Rightarrow> (d, m')
       | (True, m') \<Rightarrow> (g (bslice (nm_buffer m') (pos_of m') n), m'\<lparr>nm_position := nm_position m' + k\<rparr>))"
proof (cases "fst (canRead n m1)")
  case True
  then have c: "canRead n m1 = (True, m1)" "canRead n m2 = (True, m2)"
      and lim: "pos_of m1 + n < NETWORKMESSAGE_MAXSIZE"
    using canRead_same [OF assms, of n] canRead_inside [of n m1] canRead_inside [of n m2]
    by (metis prod.collapse)+
  have "bslice (nm_buffer m1) (pos_of m1) n = bslice (nm_buffer m2) (pos_of m1) n"
    using assms lim by (intro bslice_cong) (simp add: same_inside_def)
  with c assms same_inside_pos [OF assms] show ?thesis
    by (simp add: safe_pair_def same_inside_def)
next
  case False
  then have "canRead n m1 = (False, m1\<lparr>nm_overrun := True\<rparr>)"
    and "canRead n m2 = (False, m2\<lparr>nm_overrun := True\<rparr>)"
    using canRead_same [OF assms, of n] by (auto simp: canRead_def split: if_splits)
  with assms show ?thesis by (simp add: safe_pair_def same_inside_def)
qed

lemma nm_get_safe: "same_inside m1 m2 \<Longrightarrow> safe_pair m1 m2 (nm_get n m1) (nm_get n m2)"
  unfolding nm_get_def by (rule guarded_read_safe)

lemma nm_getByte_as_slice:
  "nm_getByte m = (case canRead 1 m of (False, m') \<Rightarrow> (0, m')
     | (True, m') \<Rightarrow> (hd (bslice (nm_buffer m') (pos_of m') 1), m'\<lparr>nm_position := nm_position m' + 1\<rparr>))"
  by (simp add: nm_getByte_def bslice_def split: prod.split bool.split)

lemma nm_getByte_safe: "same_inside m1 m2 \<Longrightarrow> safe_pair m1 m2 (nm_getByte m1) (nm_getByte m2)"
  unfolding nm_getByte_as_slice by (rule guarded_read_safe)

lemma nm_getString_safe:
  assumes "same_inside m1 m2"
  shows "safe_pair m1 m2 (nm_getString k m1) (nm_getString k m2)"
proof -
  define rd where "rd = (\<lambda>(n :: u16) m. case canRead (unat n) m of (False, m2) \<Rightarrow> ([], m2)
      | (True, m2) \<Rightarrow> (bslice (nm_buffer m2) (pos_of m2) (unat n),
                      m2\<lparr>nm_position := nm_position m2 + n\<rparr>))"
  have rd: "same_inside a b \<Longrightarrow> safe_pair a b (rd n a) (rd n b)" for n a b
    unfolding rd_def using guarded_read_safe [where n = "unat n" and d = "[]" and g = "\<lambda>x. x" and k = n] by simp
  show ?thesis
  proof (cases "k = 0")
    case True
    obtain n1 a1 n2 a2 where g: "nm_get 2 m1 = (n1 :: u16, a1)" "nm_get 2 m2 = (n2 :: u16, a2)"
      by (metis prod.exhaust)
    have "safe_pair m1 m2 (n1, a1) (n2, a2)"
      using nm_get_safe [OF assms, of 2, where 'a = 16] by (simp add: g)
    then have "safe_pair m1 m2 (rd n1 a1) (rd n2 a2)"
      by (rule safe_pair_then) (rule rd)
    with True g show ?thesis by (simp add: nm_getString_def rd_def)
  next
    case False
    then show ?thesis using rd [OF assms] by (simp add: nm_getString_def rd_def)
  qed
qed

lemma nm_getPosition_safe:
  assumes "same_inside m1 m2"
  shows "safe_pair m1 m2 (nm_getPosition m1) (nm_getPosition m2)"
proof -
  obtain x1 a1 x2 a2 where a: "nm_get 2 m1 = (x1 :: u16, a1)" "nm_get 2 m2 = (x2 :: u16, a2)"
    by (metis prod.exhaust)
  obtain y1 b1 y2 b2 where b: "nm_get 2 a1 = (y1 :: u16, b1)" "nm_get 2 a2 = (y2 :: u16, b2)"
    by (metis prod.exhaust)
  obtain z1 c1 z2 c2 where c: "nm_getByte b1 = (z1, c1)" "nm_getByte b2 = (z2, c2)"
    by (metis prod.exhaust)
  have sa: "safe_pair m1 m2 (x1, a1) (x2, a2)"
    using nm_get_safe [OF assms, of 2, where 'a = 16] by (simp add: a)
  then have "same_inside a1 a2" by (simp add: safe_pair_def)
  then have sb: "safe_pair a1 a2 (y1, b1) (y2, b2)"
    using nm_get_safe [of a1 a2 2, where 'a = 16] by (simp add: b)
  then have "same_inside b1 b2" by (simp add: safe_pair_def)
  then have sc: "safe_pair b1 b2 (z1, c1) (z2, c2)"
    using nm_getByte_safe [of b1 b2] by (simp add: c)
  from sa sb sc show ?thesis
    by (simp add: nm_getPosition_def a b c safe_pair_def)
qed

lemma put_bytes_safe:
  "same_inside m1 m2 \<Longrightarrow> canAdd (length bs) m1 \<Longrightarrow>
   safe_pair m1 m2 (r, put_bytes bs m1) (r, put_bytes bs m2)"
  using same_inside_pos [of m1 m2]
  by (auto simp: safe_pair_def same_inside_def put_bytes_def store_def canAdd_def net_consts)

lemma canAdd_same: "same_inside m1 m2 \<Longrightarrow> canAdd n m1 = canAdd n m2"
  using same_inside_pos [of m1 m2] by (simp add: canAdd_def)

lemma nm_add_safe: "same_inside m1 m2 \<Longrightarrow> safe_pair m1 m2 (r, nm_add n v m1) (r, nm_add n v m2)"
  by (auto simp: nm_add_def canAdd_same intro: safe_pair_same put_bytes_safe)

lemma nm_addByte_safe: "same_inside m1 m2 \<Longrightarrow> safe_pair m1 m2 (r, nm_addByte v m1) (r, nm_addByte v m2)"
  by (auto simp: nm_addByte_def canAdd_same intro!: safe_pair_same put_bytes_safe)

lemma safe_chain:
  assumes "safe_pair m1 m2 (r, n1) (r, n2)"
    and "same_inside n1 n2 \<Longrightarrow> safe_pair n1 n2 (r, f n1) (r, f n2)"
  shows "safe_pair m1 m2 (r, f n1) (r, f n2)"
  using assms unfolding safe_pair_def by fastforce

lemma nm_addString_safe:
  assumes s: "same_inside m1 m2"
  shows "safe_pair m1 m2 (r, nm_addString v m1) (r, nm_addString v m2)"
proof (cases "canAdd (length v + 2) m1 \<and> length v \<le> 8192")
  case True
  let ?a = "\<lambda>m. nm_add 2 (of_nat (length v) :: u16) m"
  have "pos_of m1 + 2 < 65536" using True by (simp add: canAdd_def net_consts)
  then have "canAdd (length v) (?a m1)"
    using True
    by (auto simp: nm_add_def canAdd_def put_bytes_def pos_of_def unat_word_ariths net_consts)
  then have "safe_pair m1 m2 (r, put_bytes v (?a m1)) (r, put_bytes v (?a m2))"
    by (intro safe_chain [OF nm_add_safe [OF s]] put_bytes_safe) auto
  with True show ?thesis by (simp add: nm_addString_def canAdd_same [OF s] flip: canAdd_same)
next
  case False
  with s show ?thesis
    by (auto simp: nm_addString_def Let_def canAdd_same [OF s] intro: safe_pair_same)
qed

lemma nm_addPosition_safe:
  assumes "same_inside m1 m2"
  shows "safe_pair m1 m2 (r, nm_addPosition p m1) (r, nm_addPosition p m2)"
proof -
  have s: "safe_pair m1 m2 (r, nm_add 2 (px p) m1) (r, nm_add 2 (px p) m2)"
    using assms by (rule nm_add_safe)
  have "safe_pair m1 m2 (r, nm_add 2 (py p) (nm_add 2 (px p) m1)) (r, nm_add 2 (py p) (nm_add 2 (px p) m2))"
    by (rule safe_chain [OF s nm_add_safe])
  then show ?thesis
    unfolding nm_addPosition_def by (rule safe_chain [OF _ nm_addByte_safe])
qed

lemma nm_addPadding_safe:
  "same_inside m1 m2 \<Longrightarrow> safe_pair m1 m2 (r, nm_addPaddingBytes n m1) (r, nm_addPaddingBytes n m2)"
  using same_inside_pos [of m1 m2]
  by (auto simp: nm_addPaddingBytes_def canAdd_same safe_pair_def same_inside_def
      store_def canAdd_def net_consts)

lemma nm_addByte_if_safe:
  "same_inside m1 m2 \<Longrightarrow>
   safe_pair m1 m2 (r, if q then nm_addByte v m1 else m1) (r, if q then nm_addByte v m2 else m2)"
  by (simp add: nm_addByte_safe safe_pair_same)

lemma nm_addItem_safe:
  assumes "same_inside m1 m2"
  shows "safe_pair m1 m2 (r, nm_addItem it c m1) (r, nm_addItem it c m2)"
proof -
  define f1 where "f1 = (\<lambda>m. nm_addByte 0xFF (nm_add 2 (clientId it) m))"
  define f2 where "f2 = (\<lambda>m. if it_stackable it then nm_addByte c m
      else if it_splash it \<or> it_fluid it then nm_addByte (fluidMap ! unat (c AND 7)) m else m)"
  define f3 where "f3 = (\<lambda>m. if it_animation it then nm_addByte 0xFE m else m)"
  have s1: "safe_pair m1 m2 (r, f1 m1) (r, f1 m2)"
    unfolding f1_def by (rule safe_chain [OF nm_add_safe [OF assms] nm_addByte_safe])
  have "same_inside a b \<Longrightarrow> safe_pair a b (r, f2 a) (r, f2 b)" for a b
    by (simp add: f2_def nm_addByte_safe safe_pair_same)
  then have s2: "safe_pair m1 m2 (r, f2 (f1 m1)) (r, f2 (f1 m2))"
    by (rule safe_chain [OF s1])
  have "safe_pair m1 m2 (r, f3 (f2 (f1 m1))) (r, f3 (f2 (f1 m2)))"
    unfolding f3_def by (rule safe_chain [OF s2 nm_addByte_if_safe])
  then show ?thesis by (simp add: nm_addItem_def Let_def f1_def f2_def f3_def)
qed

lemma nm_addBytes_safe:
  "same_inside m1 m2 \<Longrightarrow> safe_pair m1 m2 (r, nm_addBytes bs m1) (r, nm_addBytes bs m2)"
  by (simp add: nm_addBytes_def canAdd_same safe_pair_same put_bytes_safe)

lemmas op_safe = safe_map_prod nm_get_safe nm_getByte_safe nm_getString_safe nm_getPosition_safe
  nm_add_safe nm_addByte_safe nm_addBytes_safe nm_addPadding_safe nm_addString_safe
  nm_addPosition_safe nm_addItem_safe

lemma nm_exec_safe: "same_inside m1 m2 \<Longrightarrow> safe_pair m1 m2 (nm_exec a m1) (nm_exec a m2)"
  by (cases a) (simp_all add: op_safe)

fun nm_run :: "nm_op list \<Rightarrow> netmsg \<Rightarrow> bytes list \<times> netmsg" where
  "nm_run [] m = ([], m)"
| "nm_run (a # as) m = (let (r, m1) = nm_exec a m; (rs, m2) = nm_run as m1 in (r # rs, m2))"

text \<open>
  No sequence of the checked operations leaves the buffer, whatever the message's
  length and position fields are (a client sends them): the results do not depend on
  memory outside of the \<open>NETWORKMESSAGE_MAXSIZE\<close> bytes, and that memory is unchanged.
\<close>

theorem network_message_memory_safe:
  assumes "same_inside m1 m2"
  shows "safe_pair m1 m2 (nm_run as m1) (nm_run as m2)"
  using assms
proof (induction as arbitrary: m1 m2)
  case Nil
  then show ?case by (simp add: safe_pair_def)
next
  case (Cons a as)
  obtain r1 n1 r2 n2 where e: "nm_exec a m1 = (r1, n1)" "nm_exec a m2 = (r2, n2)"
    by (metis prod.exhaust)
  have s: "safe_pair m1 m2 (r1, n1) (r2, n2)" using nm_exec_safe [OF Cons.prems, of a] by (simp add: e)
  then have "safe_pair n1 n2 (nm_run as n1) (nm_run as n2)"
    by (intro Cons.IH) (simp add: safe_pair_def)
  with s show ?case
    by (auto simp: e safe_pair_def split: prod.splits)
qed

theorem network_message_memory_safe_witness:
  "safe_pair fresh_msg (fresh_msg\<lparr>nm_buffer := (\<lambda>i. if i < 24590 then 0 else 1)\<rparr>)
     (nm_run [AddPadding 24567, Get32, GetString 65535] fresh_msg)
     (nm_run [AddPadding 24567, Get32, GetString 65535]
        (fresh_msg\<lparr>nm_buffer := (\<lambda>i. if i < 24590 then 0 else 1)\<rparr>))"
  by (rule network_message_memory_safe) (simp add: same_inside_def fresh_msg_def net_consts)

text \<open>
  \<open>getPreviousByte\<close> reads outside of the buffer exactly when the position is 0 (it
  wraps to 65535) or lies past the buffer, and \<open>skipBytes\<close> can move the position there
  from anywhere: neither looks at the buffer's bounds.
\<close>

theorem unchecked_operations:
  "(nm_getPreviousByte m = None \<longleftrightarrow> pos_of m = 0 \<or> NETWORKMESSAGE_MAXSIZE < pos_of m) \<and>
   nm_getPreviousByte (nm_skipBytes (- nm_position m) m) = None"
proof -
  have minus: "unat (w - 1) = (if w = 0 then 65535 else unat w - 1)" for w :: u16
  proof (cases "w = 0")
    case False
    then have "1 \<le> w" by (simp add: word_le_nat_alt unat_gt_0 Suc_le_eq)
    with False show ?thesis by (simp add: unat_sub)
  next
    case True
    have "unat (0 - 1 :: u16) = 65535"
      by (simp add: unsigned_minus_1_eq_mask mask_eq_exp_minus_1)
    then show ?thesis by (simp only: True simp_thms if_True)
  qed
  have none: "nm_getPreviousByte x = None \<longleftrightarrow> \<not> unat (nm_position x - 1) < 24590" for x
    by (simp add: nm_getPreviousByte_def Let_def pos_of_def net_consts)
  have "unat (nm_position m) < 65536"
    using unsigned_less [of "nm_position m", where 'a = nat] by simp
  then have "nm_getPreviousByte m = None \<longleftrightarrow> pos_of m = 0 \<or> NETWORKMESSAGE_MAXSIZE < pos_of m"
    unfolding none minus pos_of_def NETWORKMESSAGE_MAXSIZE_def
    by (cases "nm_position m = 0") (auto simp: unat_eq_zero)
  moreover have "nm_getPreviousByte (nm_skipBytes (- nm_position m) m) = None"
    using minus [of 0] by (simp add: none nm_skipBytes_def)
  ultimately show ?thesis by blast
qed

end
