(* ===== verification/Checksum.thy ===== *)
theory Checksum imports NetMsg begin

text \<open>
  \<open>adlerChecksum\<close> of tools.cpp. The code delays the reductions modulo 65521: it
  adds up to 5552 bytes with plain 32-bit additions before it reduces both sums. The
  theory shows that no addition wraps and that the result is the Adler-32 checksum.
\<close>

section \<open>The code\<close>

text \<open>The inner \<open>do\<close> loop on the bytes of one chunk.\<close>

fun adler_chunk :: "bytes \<Rightarrow> u32 \<times> u32 \<Rightarrow> u32 \<times> u32" where
  "adler_chunk [] (a, b) = (a, b)"
| "adler_chunk (x # xs) (a, b) =
     (let a' = a + ucast x; b' = b + a' in adler_chunk xs (a', b'))"

text \<open>The outer \<open>while\<close> loop.\<close>

function adler_loop :: "bytes \<Rightarrow> u32 \<times> u32 \<Rightarrow> u32 \<times> u32" where
  "adler_loop data (a, b) =
     (if length data > 0 then
        (let tmp = (if length data > 5552 then 5552 else length data);
             (a', b') = adler_chunk (take tmp data) (a, b)
         in adler_loop (drop tmp data) (a' mod 65521, b' mod 65521))
      else (a, b))"
  by pat_completeness auto
termination
  by (relation "measure (\<lambda>(data, _). length data)") auto

declare adler_loop.simps [simp del]

definition adlerChecksum :: "bytes \<Rightarrow> u32" where
  "adlerChecksum data =
     (if length data > NETWORKMESSAGE_MAXSIZE then 0
      else (let (a, b) = adler_loop data (1, 0) in push_bit 16 b OR a))"

section \<open>The specification\<close>

text \<open>Adler-32: both sums are reduced after every byte, on unbounded numbers.\<close>

fun adler_spec :: "bytes \<Rightarrow> nat \<times> nat \<Rightarrow> nat \<times> nat" where
  "adler_spec [] (a, b) = (a, b)"
| "adler_spec (x # xs) (a, b) =
     (let a' = (a + unat x) mod 65521 in adler_spec xs (a', (b + a') mod 65521))"

definition adler32 :: "bytes \<Rightarrow> nat" where
  "adler32 data = (let (a, b) = adler_spec data (1, 0) in b * 65536 + a)"

section \<open>A chunk does not overflow\<close>

text \<open>The sums of a chunk on unbounded numbers, without any reduction.\<close>

fun plain_sums :: "bytes \<Rightarrow> nat \<times> nat \<Rightarrow> nat \<times> nat" where
  "plain_sums [] (a, b) = (a, b)"
| "plain_sums (x # xs) (a, b) = plain_sums xs (a + unat x, b + (a + unat x))"

lemma plain_sums_le:
  "fst (plain_sums xs (a, b)) \<le> a + 255 * length xs \<and>
   2 * snd (plain_sums xs (a, b)) \<le> 2 * b + 2 * length xs * a + 255 * length xs * (length xs + 1)"
proof (induction xs arbitrary: a b)
  case Nil
  then show ?case by simp
next
  case (Cons x xs)
  have x: "unat x \<le> 255" by (rule u8_le_255)
  let ?n = "length xs"
  have f: "fst (plain_sums (x # xs) (a, b)) \<le> a + 255 * length (x # xs)"
    using Cons [of "a + unat x" "b + (a + unat x)"] x by simp
  have "2 * snd (plain_sums xs (a + unat x, b + (a + unat x))) \<le>
      2 * (b + (a + unat x)) + 2 * ?n * (a + unat x) + 255 * ?n * (?n + 1)"
    using Cons [of "a + unat x" "b + (a + unat x)"] by blast
  also have "\<dots> \<le> 2 * (b + (a + 255)) + 2 * ?n * (a + 255) + 255 * ?n * (?n + 1)"
    using x by (intro add_mono mult_le_mono) auto
  also have "\<dots> = 2 * b + 2 * length (x # xs) * a + 255 * length (x # xs) * (length (x # xs) + 1)"
    by (simp add: algebra_simps)
  finally show ?case using f by simp
qed

lemma plain_sums_mono: "a \<le> fst (plain_sums xs (a, b)) \<and> b \<le> snd (plain_sums xs (a, b))"
proof (induction xs arbitrary: a b)
  case Nil
  then show ?case by simp
next
  case (Cons x xs)
  from Cons [of "a + unat x" "b + (a + unat x)"] show ?case by auto
qed

lemma adler_chunk_exact:
  assumes "fst (plain_sums xs (unat a, unat b)) < 2 ^ 32"
    and "snd (plain_sums xs (unat a, unat b)) < 2 ^ 32"
  shows "map_prod unat unat (adler_chunk xs (a, b)) = plain_sums xs (unat a, unat b)"
  using assms
proof (induction xs arbitrary: a b)
  case Nil
  then show ?case by simp
next
  case (Cons x xs)
  let ?a = "unat a + unat x" and ?b = "unat b + (unat a + unat x)"
  have "?a \<le> fst (plain_sums xs (?a, ?b))" "?b \<le> snd (plain_sums xs (?a, ?b))"
    using plain_sums_mono [of ?a xs ?b] by auto
  then have "?a < 2 ^ 32" "?b < 2 ^ 32" using Cons.prems by (auto dest: le_less_trans)
  then have "unat (a + ucast x) = ?a" "unat (b + (a + ucast x)) = ?b"
    by (simp_all add: unat_word_ariths)
  with Cons show ?case by (simp add: Let_def)
qed

lemma plain_sums_bound:
  assumes "length xs \<le> 5552" "a < 65521" "b < 65521"
  shows "fst (plain_sums xs (a, b)) < 2 ^ 32" and "snd (plain_sums xs (a, b)) < 2 ^ 32"
proof -
  have le: "fst (plain_sums xs (a, b)) \<le> a + 255 * length xs"
    "2 * snd (plain_sums xs (a, b)) \<le> 2 * b + 2 * length xs * a + 255 * length xs * (length xs + 1)"
    using plain_sums_le by blast+
  show "fst (plain_sums xs (a, b)) < 2 ^ 32" using le(1) assms by simp
  have "2 * b + 2 * length xs * a + 255 * length xs * (length xs + 1)
      \<le> 2 * 65520 + 2 * 5552 * 65520 + 255 * 5552 * (5552 + 1)"
    using assms by (intro add_mono mult_le_mono) auto
  with le(2) show "snd (plain_sums xs (a, b)) < 2 ^ 32" by simp
qed

section \<open>Reducing late is reducing often\<close>

lemma plain_sums_cong:
  "a mod m = a' mod m \<Longrightarrow> b mod m = b' mod m \<Longrightarrow>
   map_prod (\<lambda>v. v mod m) (\<lambda>v. v mod m) (plain_sums xs (a, b)) =
   map_prod (\<lambda>v. v mod m) (\<lambda>v. v mod m) (plain_sums xs (a', b'))"
proof (induction xs arbitrary: a b a' b')
  case Nil
  then show ?case by simp
next
  case (Cons x xs)
  show ?case
    unfolding plain_sums.simps
    by (rule Cons.IH; (intro mod_add_cong)?) (use Cons.prems in \<open>auto intro: mod_add_cong\<close>)
qed

lemma adler_spec_plain:
  "a < 65521 \<Longrightarrow> b < 65521 \<Longrightarrow>
   adler_spec xs (a, b) = map_prod (\<lambda>v. v mod 65521) (\<lambda>v. v mod 65521) (plain_sums xs (a, b))"
proof (induction xs arbitrary: a b)
  case Nil
  then show ?case by simp
next
  case (Cons x xs)
  let ?a = "(a + unat x) mod 65521" and ?b = "(b + (a + unat x) mod 65521) mod 65521"
  have "adler_spec (x # xs) (a, b) = adler_spec xs (?a, ?b)" by (simp add: Let_def)
  also have "\<dots> = map_prod (\<lambda>v. v mod 65521) (\<lambda>v. v mod 65521) (plain_sums xs (?a, ?b))"
    by (rule Cons.IH) auto
  also have "\<dots> = map_prod (\<lambda>v. v mod 65521) (\<lambda>v. v mod 65521)
      (plain_sums xs (a + unat x, b + (a + unat x)))"
    by (rule plain_sums_cong) (simp_all add: mod_simps)
  finally show ?case by simp
qed

lemma adler_spec_append:
  "adler_spec (xs @ ys) s = adler_spec ys (adler_spec xs s)"
  by (induction xs s rule: adler_spec.induct) (simp_all add: Let_def)

lemma adler_spec_range:
  "fst s < 65521 \<Longrightarrow> snd s < 65521 \<Longrightarrow>
   fst (adler_spec xs s) < 65521 \<and> snd (adler_spec xs s) < 65521"
  by (induction xs s rule: adler_spec.induct) (simp_all add: Let_def)

lemma adler_chunk_spec:
  assumes "length xs \<le> 5552" "unat a < 65521" "unat b < 65521"
  shows "(let (a', b') = adler_chunk xs (a, b) in (unat (a' mod 65521), unat (b' mod 65521))) =
         adler_spec xs (unat a, unat b)"
proof -
  have "map_prod unat unat (adler_chunk xs (a, b)) = plain_sums xs (unat a, unat b)"
    using plain_sums_bound assms by (intro adler_chunk_exact) blast+
  moreover obtain p q where "adler_chunk xs (a, b) = (p, q)" by fastforce
  ultimately show ?thesis
    using assms
    by (simp add: adler_spec_plain unat_mod_distrib) (metis map_prod_simp)
qed

lemma adler_loop_spec:
  assumes "unat a < 65521" "unat b < 65521"
  shows "map_prod unat unat (adler_loop data (a, b)) = adler_spec data (unat a, unat b)"
  using assms
proof (induction data "(a, b)" arbitrary: a b rule: adler_loop.induct)
  case (1 data a b)
  show ?case
  proof (cases "length data > 0")
    case True
    define tmp where "tmp = (if length data > 5552 then 5552 else length data)"
    obtain a' b' where c: "adler_chunk (take tmp data) (a, b) = (a', b')" by fastforce
    have s: "(unat (a' mod 65521), unat (b' mod 65521)) = adler_spec (take tmp data) (unat a, unat b)"
      using adler_chunk_spec [of "take tmp data" a b] 1(2,3) c by (simp add: tmp_def)
    have r: "unat (a' mod 65521) < 65521" "unat (b' mod 65521) < 65521"
      by (simp_all add: unat_mod_distrib)
    have "map_prod unat unat (adler_loop data (a, b)) =
        map_prod unat unat (adler_loop (drop tmp data) (a' mod 65521, b' mod 65521))"
      using True c by (simp add: adler_loop.simps [of data] tmp_def [symmetric])
    also have "\<dots> = adler_spec (drop tmp data) (unat (a' mod 65521), unat (b' mod 65521))"
      using 1(1) [OF True tmp_def c [symmetric] refl] r by blast
    also have "\<dots> = adler_spec data (unat a, unat b)"
      by (simp add: s adler_spec_append [symmetric])
    finally show ?thesis .
  next
    case False
    then show ?thesis by (subst adler_loop.simps) simp
  qed
qed

lemma push_or_sum: "a < (2 :: nat) ^ 16 \<Longrightarrow> b < 2 ^ 16 \<Longrightarrow>
  unat (push_bit 16 (of_nat b :: u32) OR of_nat a) = b * 65536 + a"
proof -
  assume *: "a < 2 ^ 16" "b < 2 ^ 16"
  have "unat (push_bit 16 (of_nat b :: u32) OR of_nat a) = push_bit 16 b OR a"
    using * by (simp add: unsigned_or_eq unsigned_push_bit_eq unat_of_nat take_bit_push_bit
        take_bit_nat_eq_self)
  also have "\<dots> = push_bit 16 b + a"
  proof (rule disjunctive_add [symmetric])
    fix n
    show "\<not> bit (push_bit 16 b) n \<or> \<not> bit a n"
    proof (cases "n < 16")
      case True
      then show ?thesis by (simp add: bit_push_bit_iff)
    next
      case False
      then have "(2 :: nat) ^ 16 \<le> 2 ^ n" by (intro power_increasing) auto
      with *(1) have "a < 2 ^ n" by linarith
      then have "\<not> bit a n" by (simp only: bit_iff_odd div_less) simp
      then show ?thesis ..
    qed
  qed
  finally show ?thesis by (simp add: push_bit_eq_mult)
qed

text \<open>
  The checksum of a packet that fits a network message is its Adler-32 checksum:
  reducing the two sums only every 5552 bytes loses nothing, because no 32-bit addition
  in between wraps around. Longer data gives 0.
\<close>

theorem adler_checksum_correct:
  "adlerChecksum data =
     (if length data \<le> NETWORKMESSAGE_MAXSIZE then of_nat (adler32 data) else 0)"
proof (cases "length data \<le> NETWORKMESSAGE_MAXSIZE")
  case True
  obtain a b where l: "adler_loop data (1, 0) = (a, b)" by fastforce
  have s: "adler_spec data (1, 0) = (unat a, unat b)"
    using adler_loop_spec [of 1 0 data] l by simp
  have r: "unat a < 65521" "unat b < 65521"
    using adler_spec_range [of "(1, 0)" data] by (simp_all add: s del: One_nat_def)
  have "unat (push_bit 16 (of_nat (unat b) :: u32) OR of_nat (unat a)) = adler32 data"
    using push_or_sum [of "unat a" "unat b"] r by (simp only: adler32_def s) simp
  then have "unat (push_bit 16 b OR a) = adler32 data" by simp
  moreover have "push_bit 16 b OR a = of_nat (unat (push_bit 16 b OR a))" by simp
  ultimately have "push_bit 16 b OR a = of_nat (adler32 data)" by simp
  with True l show ?thesis by (simp add: adlerChecksum_def)
qed (simp add: adlerChecksum_def)

end
