(* ===== verification/Cipher.thy ===== *)
theory Cipher imports NetMsgProps Checksum begin

text \<open>
  The encrypted transport of protocol.cpp and outputmessage.h: the XTEA block
  transform, the in-place loops over a message buffer, the headers an
  \<open>OutputMessage\<close> puts in front of its body, and \<open>onSendMessage\<close> /
  \<open>XTEA_decrypt\<close> as whole handlers.
\<close>

section \<open>Block ciphers\<close>

text \<open>
  What the transport relies on: a keyed transform of 64-bit blocks with an inverse.
\<close>

locale block_cipher =
  fixes encb decb :: "'k \<Rightarrow> u32 \<times> u32 \<Rightarrow> u32 \<times> u32"
  assumes decb_encb: "decb k (encb k b) = b"
    and encb_decb: "encb k (decb k b) = b"

text \<open>A block transform on eight bytes and on a list of blocks.\<close>

definition on_block :: "(u32 \<times> u32 \<Rightarrow> u32 \<times> u32) \<Rightarrow> bytes \<Rightarrow> bytes" where
  "on_block f bs =
     (let (v0, v1) = f (of_le (take 4 bs), of_le (take 4 (drop 4 bs)))
      in to_le 4 v0 @ to_le 4 v1)"

fun on_blocks :: "nat \<Rightarrow> (u32 \<times> u32 \<Rightarrow> u32 \<times> u32) \<Rightarrow> bytes \<Rightarrow> bytes" where
  "on_blocks 0 f bs = []"
| "on_blocks (Suc n) f bs = on_block f (take 8 bs) @ on_blocks n f (drop 8 bs)"

lemma length_on_block [simp]: "length (on_block f bs) = 8"
  by (simp add: on_block_def split: prod.split)

lemma length_on_blocks [simp]: "length (on_blocks n f bs) = 8 * n"
  by (induction n arbitrary: bs) auto

context block_cipher begin

lemma on_block_inverse:
  "length bs = 8 \<Longrightarrow> on_block (decb k) (on_block (encb k) bs) = bs"
proof -
  assume len: "length bs = 8"
  obtain w0 w1 where w: "encb k (of_le (take 4 bs), of_le (take 4 (drop 4 bs))) = (w0, w1)"
    by fastforce
  have "on_block (encb k) bs = to_le 4 w0 @ to_le 4 w1" by (simp add: on_block_def w)
  then have "on_block (decb k) (on_block (encb k) bs) =
      (let (v0, v1) = decb k (w0, w1) in to_le 4 v0 @ to_le 4 v1)"
    by (simp add: on_block_def)
  also have "decb k (w0, w1) = (of_le (take 4 bs), of_le (take 4 (drop 4 bs)))"
    using decb_encb w by metis
  also have "to_le 4 (of_le (take 4 bs) :: u32) = take 4 bs"
    using to_le_of_le [of "take 4 bs", where 'a = 32] len by simp
  moreover have "to_le 4 (of_le (take 4 (drop 4 bs)) :: u32) = drop 4 bs"
    using to_le_of_le [of "take 4 (drop 4 bs)", where 'a = 32] len by simp
  ultimately show ?thesis by simp
qed

lemma on_blocks_inverse:
  "length bs = 8 * n \<Longrightarrow> on_blocks n (decb k) (on_blocks n (encb k) bs) = bs"
proof (induction n arbitrary: bs)
  case 0
  then show ?case by simp
next
  case (Suc n)
  then show ?case by (simp add: on_block_inverse)
qed

end

section \<open>XTEA\<close>

text \<open>The four key words, selected by a two-bit index.\<close>

type_synonym xtea_key = "nat \<Rightarrow> u32"

definition delta :: u32 where "delta = 0x61C88647"

definition mix :: "u32 \<Rightarrow> u32" where
  "mix v = (push_bit 4 v XOR drop_bit 5 v) + v"

definition key_at :: "xtea_key \<Rightarrow> u32 \<Rightarrow> u32" where
  "key_at k i = k (unat (i AND 3))"

text \<open>The bodies of the two \<open>for\<close> loops; the state is \<open>(v0, v1, sum)\<close>.\<close>

definition xtea_enc_round :: "xtea_key \<Rightarrow> u32 \<times> u32 \<times> u32 \<Rightarrow> u32 \<times> u32 \<times> u32" where
  "xtea_enc_round k = (\<lambda>(v0, v1, s).
     (let v0' = v0 + (mix v1 XOR (s + key_at k s));
          s' = s - delta;
          v1' = v1 + (mix v0' XOR (s' + key_at k (drop_bit 11 s')))
      in (v0', v1', s')))"

definition xtea_dec_round :: "xtea_key \<Rightarrow> u32 \<times> u32 \<times> u32 \<Rightarrow> u32 \<times> u32 \<times> u32" where
  "xtea_dec_round k = (\<lambda>(v0, v1, s).
     (let v1' = v1 - (mix v0 XOR (s + key_at k (drop_bit 11 s)));
          s' = s + delta;
          v0' = v0 - (mix v1' XOR (s' + key_at k s'))
      in (v0', v1', s')))"

definition xtea_enc :: "xtea_key \<Rightarrow> u32 \<times> u32 \<Rightarrow> u32 \<times> u32" where
  "xtea_enc k = (\<lambda>(v0, v1).
     (let (w0, w1, _) = (xtea_enc_round k ^^ 32) (v0, v1, 0) in (w0, w1)))"

definition xtea_dec :: "xtea_key \<Rightarrow> u32 \<times> u32 \<Rightarrow> u32 \<times> u32" where
  "xtea_dec k = (\<lambda>(v0, v1).
     (let (w0, w1, _) = (xtea_dec_round k ^^ 32) (v0, v1, 0xC6EF3720) in (w0, w1)))"

lemma dec_enc_round [simp]: "xtea_dec_round k (xtea_enc_round k s) = s"
  by (cases s) (simp add: xtea_dec_round_def xtea_enc_round_def Let_def)

lemma enc_dec_round [simp]: "xtea_enc_round k (xtea_dec_round k s) = s"
  by (cases s) (simp add: xtea_dec_round_def xtea_enc_round_def Let_def)

lemma funpow_inverse:
  fixes f g :: "'a \<Rightarrow> 'a"
  shows "(\<And>x. f (g x) = x) \<Longrightarrow> (f ^^ n) ((g ^^ n) x) = x"
proof (induction n arbitrary: x)
  case 0
  show ?case by simp
next
  case (Suc n)
  have "(f ^^ Suc n) ((g ^^ Suc n) x) = (f ^^ n) (f (g ((g ^^ n) x)))"
    by (simp add: funpow_swap1)
  with Suc show ?case by simp
qed

text \<open>After \<open>n\<close> rounds the running sum is \<open>- n * delta\<close>: 32 rounds give \<open>0xC6EF3720\<close>.\<close>

lemma enc_round_sum: "snd (snd (xtea_enc_round k s)) = snd (snd s) - delta"
  by (cases s) (simp add: xtea_enc_round_def Let_def)

lemma dec_round_sum: "snd (snd (xtea_dec_round k s)) = snd (snd s) + delta"
  by (cases s) (simp add: xtea_dec_round_def Let_def)

lemma enc_rounds_sum: "snd (snd ((xtea_enc_round k ^^ n) s)) = snd (snd s) - of_nat n * delta"
  by (induction n) (simp_all add: enc_round_sum algebra_simps)

lemma dec_rounds_sum: "snd (snd ((xtea_dec_round k ^^ n) s)) = snd (snd s) + of_nat n * delta"
  by (induction n) (simp_all add: dec_round_sum algebra_simps)

lemma xtea_dec_enc: "xtea_dec k (xtea_enc k b) = b"
proof -
  obtain v0 v1 where b: "b = (v0, v1)" by (cases b)
  obtain w0 w1 s where w: "(xtea_enc_round k ^^ 32) (v0, v1, 0) = (w0, w1, s)"
    by (metis prod.exhaust)
  have "s = 0xC6EF3720"
    using enc_rounds_sum [where n = 32 and k = k and s = "(v0, v1, 0)"] by (simp add: w delta_def)
  moreover have "(xtea_dec_round k ^^ 32) (w0, w1, s) = (v0, v1, 0)"
    unfolding w [symmetric] by (rule funpow_inverse) simp
  ultimately show ?thesis by (simp add: xtea_enc_def xtea_dec_def b w)
qed

lemma xtea_enc_dec: "xtea_enc k (xtea_dec k b) = b"
proof -
  obtain v0 v1 where b: "b = (v0, v1)" by (cases b)
  obtain w0 w1 s where w: "(xtea_dec_round k ^^ 32) (v0, v1, 0xC6EF3720) = (w0, w1, s)"
    by (metis prod.exhaust)
  have "s = 0"
    using dec_rounds_sum [where n = 32 and k = k and s = "(v0, v1, 0xC6EF3720)"] by (simp add: w delta_def)
  moreover have "(xtea_enc_round k ^^ 32) (w0, w1, s) = (v0, v1, 0xC6EF3720)"
    unfolding w [symmetric] by (rule funpow_inverse) simp
  ultimately show ?thesis by (simp add: xtea_enc_def xtea_dec_def b w)
qed

interpretation xtea: block_cipher xtea_enc xtea_dec
  by unfold_locales (rule xtea_dec_enc, rule xtea_enc_dec)

section \<open>The loops over a buffer\<close>

text \<open>
  \<open>while (readPos < messageLength)\<close>: both directions read two little-endian words,
  transform them and write them back, then step over the eight bytes.
\<close>

function xtea_loop ::
    "(u32 \<times> u32 \<Rightarrow> u32 \<times> u32) \<Rightarrow> nat \<Rightarrow> nat \<Rightarrow> nat \<Rightarrow> (nat \<Rightarrow> u8) \<Rightarrow> (nat \<Rightarrow> u8)" where
  "xtea_loop f off readPos messageLength buf =
     (if readPos < messageLength then
        (let v0 = of_le (bslice buf (off + readPos) 4);
             v1 = of_le (bslice buf (off + readPos + 4) 4);
             (w0, w1) = f (v0, v1);
             buf1 = store buf (off + readPos) (to_le 4 w0);
             buf2 = store buf1 (off + readPos + 4) (to_le 4 w1)
         in xtea_loop f off (readPos + 8) messageLength buf2)
      else buf)"
  by pat_completeness auto
termination
  by (relation "measure (\<lambda>(f, off, readPos, messageLength, buf). messageLength - readPos)") auto

declare xtea_loop.simps [simp del]

lemma bslice_8: "bslice buf off 8 = bslice buf off 4 @ bslice buf (off + 4) 4"
  using bslice_append [of buf off 4 4] by simp

lemma bslice_store_before: "off + n \<le> p \<Longrightarrow> bslice (store buf p bs) off n = bslice buf off n"
  by (rule bslice_cong) (simp add: store_def)

lemma bslice_store_after: "p + length bs \<le> off \<Longrightarrow> bslice (store buf p bs) off n = bslice buf off n"
  by (rule bslice_cong) (simp add: store_def)

lemma xtea_loop_step:
  assumes "readPos < messageLength"
  shows "xtea_loop f off readPos messageLength buf =
    xtea_loop f off (readPos + 8) messageLength
      (store buf (off + readPos) (on_block f (bslice buf (off + readPos) 8)))"
proof -
  obtain w0 w1 where w: "f (of_le (bslice buf (off + readPos) 4), of_le (bslice buf (off + readPos + 4) 4)) = (w0, w1)"
    by fastforce
  have "on_block f (bslice buf (off + readPos) 8) = to_le 4 w0 @ to_le 4 w1"
    using w by (simp add: on_block_def bslice_8)
  moreover have "store (store buf (off + readPos) (to_le 4 w0)) (off + readPos + 4) (to_le 4 w1) =
      store buf (off + readPos) (to_le 4 w0 @ to_le 4 w1)"
    using store_store [of buf "off + readPos" "to_le 4 w0" "to_le 4 w1"] by simp
  ultimately show ?thesis
    using assms w by (subst xtea_loop.simps) (simp add: Let_def add.assoc)
qed

lemma xtea_loop_blocks:
  "xtea_loop f off r (r + 8 * n) buf =
     store buf (off + r) (on_blocks n f (bslice buf (off + r) (8 * n)))"
proof (induction n arbitrary: r buf)
  case 0
  then show ?case by (subst xtea_loop.simps) simp
next
  case (Suc n)
  let ?b1 = "store buf (off + r) (on_block f (bslice buf (off + r) 8))"
  have "xtea_loop f off r (r + 8 * Suc n) buf = xtea_loop f off (r + 8) ((r + 8) + 8 * n) ?b1"
    by (subst xtea_loop_step) (simp_all add: add.assoc)
  also have "\<dots> = store ?b1 (off + (r + 8)) (on_blocks n f (bslice ?b1 (off + (r + 8)) (8 * n)))"
    by (rule Suc.IH)
  also have "bslice ?b1 (off + (r + 8)) (8 * n) = bslice buf (off + r + 8) (8 * n)"
    by (simp add: bslice_store_after add.assoc)
  also have "store ?b1 (off + (r + 8)) (on_blocks n f (bslice buf (off + r + 8) (8 * n))) =
      store buf (off + r) (on_block f (bslice buf (off + r) 8) @ on_blocks n f (bslice buf (off + r + 8) (8 * n)))"
    using store_store [of buf "off + r" "on_block f (bslice buf (off + r) 8)"]
    by (simp add: add.assoc)
  also have "\<dots> = store buf (off + r) (on_blocks (Suc n) f (bslice buf (off + r) (8 * Suc n)))"
    by (simp add: bslice_append [of buf "off + r" 8 "8 * n"])
  finally show ?case .
qed

section \<open>Output messages\<close>

text \<open>
  An \<open>OutputMessage\<close> adds the offset at which its headers start; the headers grow
  downwards from the body. \<open>assert(outputBufferStart >= sizeof(T))\<close> is the \<open>None\<close>.
\<close>

record output_msg =
  om_msg :: netmsg
  om_start :: u16

definition om_add_header :: "nat \<Rightarrow> 'a::len word \<Rightarrow> output_msg \<Rightarrow> output_msg option" where
  "om_add_header n v m =
     (if unat (om_start m) < n then None
      else (let start = om_start m - of_nat n; nm = om_msg m
            in Some \<lparr>om_msg = nm\<lparr>nm_buffer := store (nm_buffer nm) (unat start) (to_le n v),
                                nm_length := nm_length nm + of_nat n\<rparr>,
                     om_start = start\<rparr>))"

definition om_writeMessageLength :: "output_msg \<Rightarrow> output_msg option" where
  "om_writeMessageLength m = om_add_header 2 (nm_length (om_msg m)) m"

definition om_checksum :: "output_msg \<Rightarrow> u32" where
  "om_checksum m =
     adlerChecksum (bslice (nm_buffer (om_msg m)) (unat (om_start m)) (body_len (om_msg m)))"

definition om_addCryptoHeader :: "bool \<Rightarrow> output_msg \<Rightarrow> output_msg option" where
  "om_addCryptoHeader addChecksum m =
     Option.bind (if addChecksum then om_add_header 4 (om_checksum m) m else Some m)
       om_writeMessageLength"

definition om_append :: "netmsg \<Rightarrow> output_msg \<Rightarrow> output_msg" where
  "om_append src m =
     m\<lparr>om_msg := put_bytes (bslice (nm_buffer src) 8 (body_len src)) (om_msg m)\<rparr>"

definition om_wire :: "output_msg \<Rightarrow> bytes" where
  "om_wire m = bslice (nm_buffer (om_msg m)) (unat (om_start m)) (body_len (om_msg m))"

definition XTEA_encrypt :: "xtea_key \<Rightarrow> output_msg \<Rightarrow> output_msg" where
  "XTEA_encrypt k m =
     (let paddingBytes = body_len (om_msg m) mod 8;
          m1 = (if paddingBytes \<noteq> 0
                then m\<lparr>om_msg := nm_addPaddingBytes (8 - paddingBytes) (om_msg m)\<rparr> else m);
          nm = om_msg m1
      in m1\<lparr>om_msg := nm\<lparr>nm_buffer :=
           xtea_loop (xtea_enc k) (unat (om_start m1)) 0 (body_len nm) (nm_buffer nm)\<rparr>\<rparr>)"

text \<open>\<open>Protocol\<close>: the flags and the key of a connection's protocol.\<close>

record protocol =
  pr_key :: xtea_key
  encryptionEnabled :: bool
  checksumEnabled :: bool
  rawMessages :: bool

definition onSendMessage :: "protocol \<Rightarrow> output_msg \<Rightarrow> output_msg option" where
  "onSendMessage p m =
     (if rawMessages p then Some m
      else Option.bind (om_writeMessageLength m) (\<lambda>m1.
             if encryptionEnabled p
             then om_addCryptoHeader (checksumEnabled p) (XTEA_encrypt (pr_key p) m1)
             else Some m1))"

lemma and_7_mod_8: "(x :: int) AND 7 = x mod 8"
  using take_bit_eq_mask [of 3 x] by (simp add: mask_eq_exp_minus_1 take_bit_eq_mod)

definition XTEA_decrypt :: "xtea_key \<Rightarrow> netmsg \<Rightarrow> bool \<times> netmsg" where
  "XTEA_decrypt k m =
     (if (int (body_len m) - 6) AND 7 \<noteq> 0 then (False, m)
      else
        (let messageLength = nat (int (body_len m) - 6);
             m1 = m\<lparr>nm_buffer := xtea_loop (xtea_dec k) (pos_of m) 0 messageLength (nm_buffer m)\<rparr>;
             (innerLength, m2) = nm_get 2 m1
         in if int (unat (innerLength :: u16)) > int (body_len m2) - 8 then (False, m2)
            else (True, m2\<lparr>nm_length := innerLength\<rparr>)))"

text \<open>\<open>onRecvMessage\<close>: the message handed to \<open>parsePacket\<close>, if any.\<close>

definition onRecvMessage :: "protocol \<Rightarrow> netmsg \<Rightarrow> netmsg option" where
  "onRecvMessage p m =
     (if encryptionEnabled p then
        (case XTEA_decrypt (pr_key p) m of (False, _) \<Rightarrow> None | (True, m') \<Rightarrow> Some m')
      else Some m)"

end
