(* ===== verification/CipherProps.thy ===== *)
theory CipherProps imports Cipher begin

text \<open>
  The encrypted transport is correct: what \<open>onSendMessage\<close> puts on the wire is the
  length, the checksum and the encrypted frame, and \<open>XTEA_decrypt\<close> recovers the body
  from that frame.
\<close>

section \<open>The frame of a body\<close>

text \<open>How many bytes of padding a body of length \<open>n\<close> needs, and the plain frame.\<close>

definition pad_len :: "nat \<Rightarrow> nat" where
  "pad_len n = (8 - (n + 2) mod 8) mod 8"

definition frame_of :: "bytes \<Rightarrow> bytes" where
  "frame_of body =
     to_le 2 (of_nat (length body) :: u16) @ body @ replicate (pad_len (length body)) 0x33"

definition frame_blocks :: "bytes \<Rightarrow> nat" where
  "frame_blocks body = length (frame_of body) div 8"

lemma frame_mod: "(n + 2 + pad_len n) mod 8 = 0"
proof -
  have "(n + 2 + pad_len n) mod 8 = ((n + 2) mod 8 + (8 - (n + 2) mod 8)) mod 8"
    unfolding pad_len_def by (metis mod_add_left_eq mod_add_right_eq)
  also have "(n + 2) mod 8 + (8 - (n + 2) mod 8) = 8"
    using mod_less_divisor [of 8 "n + 2"] by linarith
  finally show ?thesis by simp
qed

lemma length_frame: "length (frame_of body) = 8 * frame_blocks body"
proof -
  have "length (frame_of body) mod 8 = 0"
    using frame_mod [of "length body"] by (simp add: frame_of_def add.commute add.left_commute)
  then show ?thesis by (metis frame_blocks_def mod_0_imp_dvd dvd_mult_div_cancel)
qed

text \<open>
  The limit \<open>MAX_PROTOCOL_BODY_LENGTH\<close> is what makes the padding fit: up to it,
  body and padding together stay below the limit of \<open>canAdd\<close>.
\<close>

lemma padding_fits: "n \<le> MAX_PROTOCOL_BODY_LENGTH \<Longrightarrow> 8 + n + pad_len n < MAX_BODY_LENGTH"
proof -
  have *: "(n + 2 + p) mod 8 = 0 \<Longrightarrow> p < 8 \<Longrightarrow> n \<le> 24566 \<Longrightarrow> 8 + n + p < 24576" for p :: nat
    by presburger
  assume "n \<le> MAX_PROTOCOL_BODY_LENGTH"
  with * [OF frame_mod] show ?thesis by (simp add: net_consts pad_len_def)
qed

definition sendable :: "output_msg \<Rightarrow> bool" where
  "sendable m \<longleftrightarrow> writer (om_msg m) \<and> om_start m = 8 \<and>
     body_len (om_msg m) \<le> MAX_PROTOCOL_BODY_LENGTH"

definition body_of :: "output_msg \<Rightarrow> bytes" where
  "body_of m = bslice (nm_buffer (om_msg m)) 8 (body_len (om_msg m))"

lemma length_body_of [simp]: "length (body_of m) = body_len (om_msg m)"
  by (simp add: body_of_def)

section \<open>Sending\<close>

lemma writeMessageLength_eq:
  assumes "sendable m"
  shows "om_writeMessageLength m =
    Some \<lparr>om_msg = (om_msg m)\<lparr>nm_buffer := store (nm_buffer (om_msg m)) 6 (to_le 2 (nm_length (om_msg m))),
                             nm_length := nm_length (om_msg m) + 2\<rparr>, om_start = 6\<rparr>"
  using assms by (simp add: om_writeMessageLength_def om_add_header_def sendable_def Let_def)

lemma len_plus:
  "body_len m + n < 65536 \<Longrightarrow> unat (nm_length m + of_nat n) = body_len m + n"
  by (simp add: body_len_def unat_word_ariths unat_of_nat)

text \<open>The frame before encryption: header, body and padding in one piece at offset 6.\<close>

lemma plain_frame:
  assumes "sendable m"
  shows "bslice (store (store (nm_buffer (om_msg m)) 6 (to_le 2 (nm_length (om_msg m))))
            (pos_of (om_msg m)) (replicate (pad_len (body_len (om_msg m))) 0x33)) 6
          (8 * frame_blocks (body_of m)) = frame_of (body_of m)"
proof -
  let ?m = "om_msg m" and ?n = "body_len (om_msg m)"
  let ?b1 = "store (nm_buffer ?m) 6 (to_le 2 (nm_length ?m))"
  let ?b2 = "store ?b1 (8 + ?n) (replicate (pad_len ?n) 0x33)"
  have pos: "pos_of ?m = 8 + ?n" using assms by (simp add: sendable_def writer_def)
  have len: "8 * frame_blocks (body_of m) = 2 + (?n + pad_len ?n)"
    using length_frame [of "body_of m"] by (simp add: frame_of_def)
  have "bslice ?b2 6 (2 + (?n + pad_len ?n)) =
      bslice ?b2 6 2 @ bslice ?b2 8 ?n @ bslice ?b2 (8 + ?n) (pad_len ?n)"
    by (simp only: bslice_append) (simp add: eval_nat_numeral)
  also have "bslice ?b2 6 2 = to_le 2 (nm_length ?m)"
    using bslice_store [of "nm_buffer ?m" 6 "to_le 2 (nm_length ?m)"]
    by (simp add: bslice_store_before)
  also have "bslice ?b2 8 ?n = body_of m"
    by (simp add: bslice_store_before bslice_store_after body_of_def)
  also have "bslice ?b2 (8 + ?n) (pad_len ?n) = replicate (pad_len ?n) 0x33"
    using bslice_store [of ?b1 "8 + ?n" "replicate (pad_len ?n) 0x33"] by simp
  finally show ?thesis by (simp add: len pos frame_of_def body_len_def)
qed

lemma XTEA_encrypt_frame:
  assumes "sendable m"
  defines "m1 \<equiv> the (om_writeMessageLength m)"
  defines "n \<equiv> frame_blocks (body_of m)"
  shows "om_start (XTEA_encrypt k m1) = 6"
    and "body_len (om_msg (XTEA_encrypt k m1)) = 8 * n"
    and "bslice (nm_buffer (om_msg (XTEA_encrypt k m1))) 6 (8 * n) =
           on_blocks n (xtea_enc k) (frame_of (body_of m))"
proof -
  let ?L = "body_len (om_msg m)"
  let ?m = "om_msg m"
  have L: "?L \<le> 24566" and pos: "pos_of ?m = 8 + ?L"
    using assms(1) by (simp_all add: sendable_def writer_def net_consts)
  have m1: "om_msg m1 = ?m\<lparr>nm_buffer := store (nm_buffer ?m) 6 (to_le 2 (nm_length ?m)),
      nm_length := nm_length ?m + 2\<rparr>" "om_start m1 = 6"
    using writeMessageLength_eq [OF assms(1)] by (simp_all add: m1_def)
  have len1: "body_len (om_msg m1) = ?L + 2"
    using len_plus [of ?m 2] L by (simp add: m1 body_len_def)
  define pad where "pad = pad_len ?L"
  define mp where "mp = (if (?L + 2) mod 8 \<noteq> 0
      then nm_addPaddingBytes (8 - (?L + 2) mod 8) (om_msg m1) else om_msg m1)"
  have pad_eq: "pad = (if (?L + 2) mod 8 \<noteq> 0 then 8 - (?L + 2) mod 8 else 0)"
    by (auto simp: pad_def pad_len_def)
  have "canAdd pad (om_msg m1)"
    using padding_fits [of ?L] L pos by (simp add: canAdd_def m1 pos_of_def pad_def net_consts)
  then have mp: "mp = (om_msg m1)\<lparr>nm_buffer := store (nm_buffer (om_msg m1)) (pos_of ?m) (replicate pad 0x33),
      nm_length := nm_length (om_msg m1) + of_nat pad\<rparr>"
    by (auto simp: mp_def pad_eq nm_addPaddingBytes_def m1 pos_of_def)
  have "pad < 8" by (simp add: pad_def pad_len_def)
  then have lenp: "body_len mp = ?L + 2 + pad"
    using len_plus [of "om_msg m1" pad] len1 L by (simp add: mp body_len_def)
  have n8: "8 * n = ?L + 2 + pad"
    using length_frame [of "body_of m"] by (simp add: n_def frame_of_def pad_def)
  have enc: "XTEA_encrypt k m1 = m1\<lparr>om_msg := mp\<lparr>nm_buffer :=
      store (nm_buffer mp) 6 (on_blocks n (xtea_enc k) (bslice (nm_buffer mp) 6 (8 * n)))\<rparr>\<rparr>"
    using xtea_loop_blocks [of "xtea_enc k" 6 0 n "nm_buffer mp"] lenp n8 len1
    by (auto simp: XTEA_encrypt_def Let_def m1(2) mp_def)
  have fr: "bslice (nm_buffer mp) 6 (8 * n) = frame_of (body_of m)"
    using plain_frame [OF assms(1)] by (simp add: mp m1 n_def pad_def)
  show "om_start (XTEA_encrypt k m1) = 6" by (simp add: enc m1)
  show "body_len (om_msg (XTEA_encrypt k m1)) = 8 * n"
    using lenp n8 by (simp add: enc body_len_def)
  show "bslice (nm_buffer (om_msg (XTEA_encrypt k m1))) 6 (8 * n) =
      on_blocks n (xtea_enc k) (frame_of (body_of m))"
    using bslice_store [of "nm_buffer mp" 6 "on_blocks n (xtea_enc k) (frame_of (body_of m))"]
    by (simp add: enc fr)
qed

definition cipher_of :: "xtea_key \<Rightarrow> bytes \<Rightarrow> bytes" where
  "cipher_of k body = on_blocks (frame_blocks body) (xtea_enc k) (frame_of body)"

lemma length_cipher_of: "length (cipher_of k body) = 8 * frame_blocks body"
  by (simp add: cipher_of_def)

lemma crypto_header_eq:
  assumes "om_start m = 6" "body_len (om_msg m) = n" "n < 65000"
    and "bslice (nm_buffer (om_msg m)) 6 n = c"
  shows "\<exists>m'. om_addCryptoHeader True m = Some m' \<and>
    om_wire m' = to_le 2 (of_nat (n + 4) :: u16) @ to_le 4 (adlerChecksum c) @ c"
proof -
  let ?b = "nm_buffer (om_msg m)" and ?ck = "adlerChecksum c"
  let ?b1 = "store ?b 2 (to_le 4 ?ck)"
  define l1 where "l1 = nm_length (om_msg m) + 4"
  let ?b2 = "store ?b1 0 (to_le 2 l1)"
  have l1: "unat l1 = n + 4" "unat (l1 + 2) = n + 6"
    using len_plus [of "om_msg m" 4] len_plus [of "om_msg m" 6] assms(2,3)
    by (simp_all add: l1_def add.assoc)
  have l1': "l1 = of_nat (n + 4)" unfolding l1(1) [symmetric] by simp
  have ck: "om_checksum m = ?ck" using assms by (simp add: om_checksum_def)
  have "om_addCryptoHeader True m = Some \<lparr>om_msg = (om_msg m)\<lparr>nm_buffer := ?b2, nm_length := l1 + 2\<rparr>, om_start = 0\<rparr>"
    using assms(1)
    by (simp add: om_addCryptoHeader_def om_writeMessageLength_def om_add_header_def Let_def ck l1_def)
  moreover have "bslice ?b2 0 (n + 6) = to_le 2 l1 @ to_le 4 ?ck @ c"
  proof -
    have "bslice ?b2 0 (2 + (4 + n)) = bslice ?b2 0 2 @ bslice ?b2 2 4 @ bslice ?b2 6 n"
      by (simp only: bslice_append) (simp add: eval_nat_numeral)
    moreover have "bslice ?b2 0 2 = to_le 2 l1"
      using bslice_store [of ?b1 0 "to_le 2 l1"] by simp
    moreover have "bslice ?b2 2 4 = to_le 4 ?ck"
      using bslice_store [of ?b 2 "to_le 4 ?ck"] by (simp add: bslice_store_after)
    moreover have "bslice ?b2 6 n = c"
      using assms(4) by (simp add: bslice_store_after)
    ultimately show ?thesis by (simp add: add.commute add.left_commute)
  qed
  ultimately show ?thesis using l1 l1' by (simp add: om_wire_def body_len_def)
qed

lemma frame_blocks_bound: "length body \<le> MAX_PROTOCOL_BODY_LENGTH \<Longrightarrow> 8 * frame_blocks body \<le> 24568"
  using padding_fits [of "length body"] length_frame [of body]
  by (simp add: frame_of_def net_consts)

text \<open>
  A packet on the wire: for a body within \<open>MAX_PROTOCOL_BODY_LENGTH\<close>, an encrypting
  protocol with checksums sends the 16-bit length of the rest, the Adler-32 checksum of
  the encrypted frame, and the encrypted frame; no header assertion fails.
\<close>

theorem sent_packet_layout:
  assumes "sendable m" and "\<not> rawMessages p" and "encryptionEnabled p" and "checksumEnabled p"
  shows "\<exists>m'. onSendMessage p m = Some m' \<and>
    om_wire m' =
      to_le 2 (of_nat (length (cipher_of (pr_key p) (body_of m)) + 4) :: u16) @
      to_le 4 (adlerChecksum (cipher_of (pr_key p) (body_of m))) @
      cipher_of (pr_key p) (body_of m)"
proof -
  let ?m1 = "the (om_writeMessageLength m)" and ?n = "frame_blocks (body_of m)"
  have w: "om_writeMessageLength m = Some ?m1" by (simp add: writeMessageLength_eq [OF assms(1)])
  note e = XTEA_encrypt_frame [OF assms(1), of "pr_key p"]
  have "8 * ?n < 65000"
    using frame_blocks_bound [of "body_of m"] assms(1) by (simp add: sendable_def)
  from crypto_header_eq [OF e(1) e(2) this e(3)] show ?thesis
    using assms(2-4) by (subst onSendMessage_def, subst w)
      (auto simp: cipher_of_def length_cipher_of)
qed

definition demo_msg :: output_msg where
  "demo_msg = \<lparr>om_msg = fresh_msg, om_start = 8\<rparr>"

definition demo_protocol :: protocol where
  "demo_protocol = \<lparr>pr_key = (\<lambda>i. of_nat i), encryptionEnabled = True,
     checksumEnabled = True, rawMessages = False\<rparr>"

theorem sent_packet_layout_witness:
  "\<exists>m'. onSendMessage demo_protocol demo_msg = Some m' \<and>
    om_wire m' =
      to_le 2 (of_nat (length (cipher_of (pr_key demo_protocol) (body_of demo_msg)) + 4) :: u16) @
      to_le 4 (adlerChecksum (cipher_of (pr_key demo_protocol) (body_of demo_msg))) @
      cipher_of (pr_key demo_protocol) (body_of demo_msg)"
  by (rule sent_packet_layout)
    (simp_all add: sendable_def demo_msg_def demo_protocol_def fresh_msg_def writer_def
      pos_of_def body_len_def net_consts)

section \<open>Receiving\<close>

text \<open>
  The length guard of \<open>XTEA_decrypt\<close> also keeps the subtraction from going below zero.
\<close>

lemma decrypt_guard: "(int l - 6) AND 7 = 0 \<Longrightarrow> 6 \<le> l"
  unfolding and_7_mod_8 by presburger

text \<open>The encrypted frame of a body at position 6, after the length and the checksum.\<close>

lemma decrypt_frame:
  assumes "length body \<le> MAX_PROTOCOL_BODY_LENGTH"
    and "bslice (nm_buffer m) (pos_of m) (length (cipher_of k body)) = cipher_of k body"
    and "pos_of m = 6" and "body_len m = 6 + length (cipher_of k body)"
  shows "\<exists>m'. XTEA_decrypt k m = (True, m') \<and> body_len m' = length body \<and> pos_of m' = 8 \<and>
           bslice (nm_buffer m') (pos_of m') (body_len m') = body"
proof -
  let ?n = "frame_blocks body"
  have lc: "length (cipher_of k body) = 8 * ?n" by (rule length_cipher_of)
  have n: "8 * ?n = length body + 2 + pad_len (length body)"
    using length_frame [of body] by (simp add: frame_of_def)
  have guard: "(int (body_len m) - 6) AND 7 = 0"
    using assms(4) lc by (simp add: and_7_mod_8)
  define m1 where "m1 = m\<lparr>nm_buffer := store (nm_buffer m) 6 (frame_of body)\<rparr>"
  have "on_blocks ?n (xtea_dec k) (cipher_of k body) = frame_of body"
    unfolding cipher_of_def by (rule xtea.on_blocks_inverse) (rule length_frame)
  then have dec: "xtea_loop (xtea_dec k) 6 0 (8 * ?n) (nm_buffer m) = store (nm_buffer m) 6 (frame_of body)"
    using xtea_loop_blocks [of "xtea_dec k" 6 0 ?n "nm_buffer m"] assms(2,3) lc by simp
  have pm: "pos_of m1 = 6" and lm: "body_len m1 = 6 + 8 * ?n"
    using assms(3,4) lc by (simp_all add: m1_def pos_of_def body_len_def)
  have fr: "bslice (nm_buffer m1) 6 (8 * ?n) = frame_of body"
    using bslice_store [of "nm_buffer m" 6 "frame_of body"] by (simp add: m1_def length_frame)
  have rd: "readable (frame_of body) m1"
    using fr frame_blocks_bound [OF assms(1)]
    by (simp add: readable_def pm lm length_frame net_consts)
  then have "readable (to_le 2 (of_nat (length body) :: u16)) m1"
    and rest: "readable (body @ replicate (pad_len (length body)) 0x33) (advance 2 m1)"
    using readable_append [of "to_le 2 (of_nat (length body) :: u16)" _ m1] by (auto simp: frame_of_def)
  then have g: "nm_get 2 m1 = (of_nat (length body) :: u16, advance 2 m1)"
    by (intro nm_get_readable) auto
  have lb: "unat (of_nat (length body) :: u16) = length body"
    using assms(1) by (simp add: unat_of_nat net_consts)
  have p8: "pos_of (advance 2 m1) = 8" by (simp add: pos_advance pm net_consts)
  have body: "bslice (nm_buffer m1) 8 (length body) = body"
    using readable_append(1) [OF rest] p8 by (simp add: readable_def)
  let ?m' = "(advance 2 m1)\<lparr>nm_length := of_nat (length body)\<rparr>"
  have ub: "uint (of_nat (length body) :: u16) = int (length body)"
    using lb by (metis uint_nat)
  have nat: "nat (int (body_len m) - 6) = 8 * ?n" using assms(4) lc by simp
  have "XTEA_decrypt k m =
      (case nm_get 2 m1 of (il, m2) \<Rightarrow>
         if int (unat (il :: u16)) > int (body_len m2) - 8 then (False, m2)
         else (True, m2\<lparr>nm_length := il\<rparr>))"
    by (simp only: XTEA_decrypt_def guard nat assms(3) dec Let_def m1_def) simp
  then have "XTEA_decrypt k m = (True, ?m')"
    using n by (simp add: g ub lm)
  moreover have "body_len ?m' = length body" "pos_of ?m' = 8"
    using lb p8 by (simp_all add: body_len_def pos_of_def)
  moreover have "bslice (nm_buffer ?m') 8 (length body) = body" using body by simp
  ultimately show ?thesis by auto
qed

text \<open>
  C39. What is sent is received: when a protocol with encryption and checksums sends a body of at most
  \<open>MAX_PROTOCOL_BODY_LENGTH\<close> bytes, and the bytes of the wire lie at the front of a received message
  of their length, read up to position 6 (past the length and the checksum, as the connection
  leaves a packet whose checksum is right), then a protocol with the same key accepts the message,
  and its length, its position and the bytes there are those of the body that was sent.
\<close>

theorem decrypt_recovers_body:
  assumes "sendable m" and "\<not> rawMessages p" and "encryptionEnabled p" and "checksumEnabled p"
    and "onSendMessage p m = Some m'"
    and "bslice (nm_buffer r) 0 (length (om_wire m')) = om_wire m'"
    and "body_len r = length (om_wire m')" and "pos_of r = 6"
  shows "\<exists>r'. onRecvMessage p r = Some r' \<and> body_len r' = body_len (om_msg m) \<and> pos_of r' = 8 \<and>
           bslice (nm_buffer r') (pos_of r') (body_len r') = body_of m"
proof -
  let ?c = "cipher_of (pr_key p) (body_of m)"
  define h where "h = to_le 2 (of_nat (length ?c + 4) :: u16) @ to_le 4 (adlerChecksum ?c)"
  have h: "length h = 6" by (simp add: h_def)
  have wire: "om_wire m' = h @ ?c"
    using sent_packet_layout [OF assms(1-4)] assms(5) by (simp add: h_def)
  then have "bslice (nm_buffer r) 0 (6 + length ?c) = h @ ?c" using assms(6) h by simp
  then have "bslice (nm_buffer r) 6 (length ?c) = ?c"
    using h by (simp add: bslice_append append_eq_append_conv)
  then show ?thesis
    using decrypt_frame [of "body_of m" r "pr_key p"] assms(1,3,7,8) wire h
    by (auto simp: onRecvMessage_def sendable_def)
qed

lemma demo_sendable: "sendable demo_msg"
  by (simp add: sendable_def demo_msg_def fresh_msg_def writer_def pos_of_def body_len_def net_consts)

lemma demo_wire: "length (om_wire (the (onSendMessage demo_protocol demo_msg))) = 14"
  using sent_packet_layout [OF demo_sendable, of demo_protocol]
  by (auto simp: demo_protocol_def length_cipher_of frame_blocks_def frame_of_def pad_len_def body_len_def
      demo_msg_def fresh_msg_def)

text \<open>A received message for the witness: the wire bytes of an empty body.\<close>

definition demo_recv :: netmsg where
  "demo_recv = \<lparr>nm_length = 14, nm_position = 6, nm_overrun = False,
     nm_buffer = store (\<lambda>_. 0) 0 (om_wire (the (onSendMessage demo_protocol demo_msg)))\<rparr>"

theorem decrypt_recovers_body_witness:
  "\<exists>r'. onRecvMessage demo_protocol demo_recv = Some r' \<and> body_len r' = body_len (om_msg demo_msg) \<and>
     pos_of r' = 8 \<and> bslice (nm_buffer r') (pos_of r') (body_len r') = body_of demo_msg"
proof (rule decrypt_recovers_body [OF demo_sendable])
  show "onSendMessage demo_protocol demo_msg = Some (the (onSendMessage demo_protocol demo_msg))"
    using sent_packet_layout [OF demo_sendable, of demo_protocol] by (auto simp: demo_protocol_def)
  show "bslice (nm_buffer demo_recv) 0 (length (om_wire (the (onSendMessage demo_protocol demo_msg)))) =
      om_wire (the (onSendMessage demo_protocol demo_msg))"
    by (simp add: demo_recv_def)
  show "body_len demo_recv = length (om_wire (the (onSendMessage demo_protocol demo_msg)))"
    by (simp add: demo_wire) (simp add: demo_recv_def body_len_def)
qed (simp_all add: demo_protocol_def demo_recv_def pos_of_def)

text \<open>
  The length check counts on the checksum: a frame of whole blocks without one, which the
  connection leaves at position 2, is refused.
\<close>

lemma frame_without_checksum_refused:
  "body_len r = 2 + 8 * n \<Longrightarrow> XTEA_decrypt k r = (False, r)"
proof -
  assume "body_len r = 2 + 8 * n"
  then have "int (body_len r) - 6 = 8 * (int n - 1) + 4" by simp
  then have "(int (body_len r) - 6) AND 7 = 4" unfolding and_7_mod_8 by presburger
  then show ?thesis by (simp add: XTEA_decrypt_def)
qed

text \<open>
  The limit is sharp: a body of 24567 bytes, one more than
  \<open>MAX_PROTOCOL_BODY_LENGTH\<close>, is still accepted by \<open>canAdd\<close>, but its padding is not;
  the frame is then encrypted with a length that is no multiple of eight, and the length
  check of \<open>XTEA_decrypt\<close> refuses it.
\<close>

theorem padding_limit_sharp:
  assumes "writer (om_msg m)" and "om_start m = 8"
    and "body_len (om_msg m) = MAX_PROTOCOL_BODY_LENGTH + 1"
    and "om_writeMessageLength m = Some m1"
    and "body_len r = 6 + body_len (om_msg (XTEA_encrypt k m1))"
  shows "body_len (om_msg (XTEA_encrypt k m1)) mod 8 \<noteq> 0 \<and> XTEA_decrypt k r = (False, r)"
proof -
  let ?m = "om_msg m"
  have m1: "om_msg m1 = ?m\<lparr>nm_buffer := store (nm_buffer ?m) 6 (to_le 2 (nm_length ?m)),
      nm_length := nm_length ?m + 2\<rparr>" "om_start m1 = 6"
    using assms(2,4) by (auto simp: om_writeMessageLength_def om_add_header_def Let_def)
  have l1: "body_len (om_msg m1) = 24569"
    using len_plus [of ?m 2] assms(3) by (simp add: m1 body_len_def net_consts)
  have "pos_of (om_msg m1) = 24575"
    using assms(1,3) by (simp add: m1 writer_def pos_of_def net_consts)
  then have "nm_addPaddingBytes 7 (om_msg m1) = om_msg m1"
    by (simp add: nm_addPaddingBytes_def canAdd_def net_consts)
  then have enc: "body_len (om_msg (XTEA_encrypt k m1)) = 24569"
    using l1 by (simp add: XTEA_encrypt_def Let_def) (simp add: body_len_def)
  have "(int (body_len r) - 6) AND 7 = 1"
    using assms(5) enc by (simp add: and_7_mod_8)
  with enc show ?thesis by (simp add: XTEA_decrypt_def)
qed

definition long_msg :: output_msg where
  "long_msg = \<lparr>om_msg = fresh_msg\<lparr>nm_length := 24567, nm_position := 24575\<rparr>, om_start = 8\<rparr>"

theorem padding_limit_sharp_witness:
  "\<exists>r. body_len (om_msg (XTEA_encrypt (\<lambda>_. 0) (the (om_writeMessageLength long_msg)))) mod 8 \<noteq> 0 \<and>
       XTEA_decrypt (\<lambda>_. 0) r = (False, r)"
proof -
  let ?m1 = "the (om_writeMessageLength long_msg)"
  let ?r = "fresh_msg\<lparr>nm_length := 6 + nm_length (om_msg (XTEA_encrypt (\<lambda>_. 0) ?m1))\<rparr>"
  have w: "om_writeMessageLength long_msg = Some ?m1"
    by (simp add: om_writeMessageLength_def om_add_header_def long_msg_def Let_def)
  have "unat (nm_length (om_msg (XTEA_encrypt (\<lambda>_. 0) ?m1))) = 24569"
    by (simp add: om_writeMessageLength_def om_add_header_def long_msg_def Let_def fresh_msg_def
        XTEA_encrypt_def nm_addPaddingBytes_def canAdd_def pos_of_def body_len_def net_consts)
  then have l: "body_len ?r = 6 + body_len (om_msg (XTEA_encrypt (\<lambda>_. 0) ?m1))"
    by (simp add: body_len_def unat_word_ariths)
  have "body_len (om_msg (XTEA_encrypt (\<lambda>_. 0) ?m1)) mod 8 \<noteq> 0 \<and> XTEA_decrypt (\<lambda>_. 0) ?r = (False, ?r)"
    by (rule padding_limit_sharp [OF _ _ _ w l])
      (simp_all add: long_msg_def fresh_msg_def writer_def pos_of_def body_len_def net_consts)
  then show ?thesis by blast
qed

end
