(* ===== verification/Sha1.thy ===== *)
theory Sha1 imports Prelude begin

text \<open>
  The SHA-1 of tools.cpp (\<open>circularShift\<close>, \<open>processSHA1MessageBlock\<close>,
  \<open>transformToSHA1\<close>). The code streams its input through one 64-byte block and pads
  in place; the theory shows that this computes the hash of the padded message.
\<close>

section \<open>The compression function\<close>

definition circularShift :: "nat \<Rightarrow> u32 \<Rightarrow> u32" where
  "circularShift bits v = push_bit bits v OR drop_bit (32 - bits) v"

type_synonym sha_state = "u32 \<times> u32 \<times> u32 \<times> u32 \<times> u32"

definition be_word :: "bytes \<Rightarrow> nat \<Rightarrow> u32" where
  "be_word mb offset =
     push_bit 24 (ucast (mb ! offset)) OR push_bit 16 (ucast (mb ! (offset + 1))) OR
     push_bit 8 (ucast (mb ! (offset + 2))) OR ucast (mb ! (offset + 3))"

definition sha_schedule :: "bytes \<Rightarrow> u32 list" where
  "sha_schedule mb =
     fold (\<lambda>i W. W @ [circularShift 1 (W ! (i - 3) XOR W ! (i - 8) XOR W ! (i - 14) XOR W ! (i - 16))])
       [16..<80] (map (\<lambda>i. be_word mb (4 * i)) [0..<16])"

definition sha_round :: "(u32 \<Rightarrow> u32 \<Rightarrow> u32 \<Rightarrow> u32) \<Rightarrow> u32 \<Rightarrow> u32 list \<Rightarrow> nat \<Rightarrow> sha_state \<Rightarrow> sha_state" where
  "sha_round f k W i = (\<lambda>(A, B, C, D, E).
     (let tmp = circularShift 5 A + f B C D + E + W ! i + k
      in (tmp, A, circularShift 30 B, C, D)))"

definition processSHA1MessageBlock :: "bytes \<Rightarrow> sha_state \<Rightarrow> sha_state" where
  "processSHA1MessageBlock mb H =
     (let W = sha_schedule mb;
          s1 = fold (sha_round (\<lambda>B C D. (B AND C) OR ((NOT B) AND D)) 0x5A827999 W) [0..<20] H;
          s2 = fold (sha_round (\<lambda>B C D. B XOR C XOR D) 0x6ED9EBA1 W) [20..<40] s1;
          s3 = fold (sha_round (\<lambda>B C D. (B AND C) OR (B AND D) OR (C AND D)) 0x8F1BBCDC W) [40..<60] s2;
          (A, B, C, D, E) = fold (sha_round (\<lambda>B C D. B XOR C XOR D) 0xCA62C1D6 W) [60..<80] s3;
          (H0, H1, H2, H3, H4) = H
      in (H0 + A, H1 + B, H2 + C, H3 + D, H4 + E))"

definition sha_init :: sha_state where
  "sha_init = (0x67452301, 0xEFCDAB89, 0x98BADCFE, 0x10325476, 0xC3D2E1F0)"

section \<open>The streaming loop\<close>

record sha_stream =
  messageBlock :: bytes
  sh_index :: nat
  length_low :: u32
  length_high :: u32
  sh_H :: sha_state

definition sha_put :: "u8 \<Rightarrow> sha_stream \<Rightarrow> sha_stream" where
  "sha_put v s = s\<lparr>messageBlock := (messageBlock s)[sh_index s := v], sh_index := sh_index s + 1\<rparr>"

definition sha_flush :: "sha_stream \<Rightarrow> sha_stream" where
  "sha_flush s = s\<lparr>sh_H := processSHA1MessageBlock (messageBlock s) (sh_H s), sh_index := 0\<rparr>"

text \<open>The body of \<open>for (char ch : input)\<close>.\<close>

definition sha_feed :: "u8 \<Rightarrow> sha_stream \<Rightarrow> sha_stream" where
  "sha_feed ch s =
     (let s1 = sha_put ch s;
          s2 = s1\<lparr>length_low := length_low s1 + 8\<rparr>;
          s3 = (if length_low s2 = 0 then s2\<lparr>length_high := length_high s2 + 1\<rparr> else s2)
      in if sh_index s3 = 64 then sha_flush s3 else s3)"

text \<open>\<open>while (index < n) messageBlock[index++] = 0;\<close>\<close>

function sha_zero_to :: "nat \<Rightarrow> sha_stream \<Rightarrow> sha_stream" where
  "sha_zero_to n s = (if sh_index s < n then sha_zero_to n (sha_put 0 s) else s)"
  by pat_completeness auto
termination
  by (relation "measure (\<lambda>(n, s). n - sh_index s)") (auto simp: sha_put_def)

declare sha_zero_to.simps [simp del]

definition be_bytes :: "u32 \<Rightarrow> bytes" where
  "be_bytes w = [ucast (drop_bit 24 w), ucast (drop_bit 16 w), ucast (drop_bit 8 w), ucast w]"

definition sha_finish :: "sha_stream \<Rightarrow> sha_state" where
  "sha_finish s =
     (let s1 = sha_put 0x80 s;
          s2 = (if sh_index s1 > 56 then sha_flush (sha_zero_to 64 s1) else s1);
          s3 = sha_zero_to 56 s2;
          mb = take 56 (messageBlock s3) @ be_bytes (length_high s3) @ be_bytes (length_low s3)
      in processSHA1MessageBlock mb (sh_H s3))"

definition hexDigits :: string where "hexDigits = ''0123456789abcdef''"

definition sha_word :: "sha_state \<Rightarrow> nat \<Rightarrow> u32" where
  "sha_word H i = (case H of (H0, H1, H2, H3, H4) \<Rightarrow> [H0, H1, H2, H3, H4] ! i)"

text \<open>The byte the last loop prints at position \<open>hashByte\<close>.\<close>

definition sha_byte :: "sha_state \<Rightarrow> nat \<Rightarrow> u8" where
  "sha_byte H hashByte =
     ucast (drop_bit (nat (((3 - int hashByte) AND 3) * 8)) (sha_word H (hashByte div 4)))"

definition hex_byte :: "u8 \<Rightarrow> string" where
  "hex_byte b = [hexDigits ! unat (drop_bit 4 b), hexDigits ! unat (b AND 15)]"

definition sha_hex :: "sha_state \<Rightarrow> string" where
  "sha_hex H = concat (map (\<lambda>i. hex_byte (sha_byte H i)) [0..<20])"

text \<open>
  The array \<open>messageBlock\<close> is not initialised by the code: its first contents are
  the parameter \<open>mb0\<close>.
\<close>

definition sha_start :: "bytes \<Rightarrow> sha_stream" where
  "sha_start mb0 = \<lparr>messageBlock = mb0, sh_index = 0, length_low = 0, length_high = 0, sh_H = sha_init\<rparr>"

definition sha1_digest :: "bytes \<Rightarrow> bytes \<Rightarrow> sha_state" where
  "sha1_digest mb0 input = sha_finish (fold sha_feed input (sha_start mb0))"

definition transformToSHA1 :: "bytes \<Rightarrow> bytes \<Rightarrow> string" where
  "transformToSHA1 mb0 input = sha_hex (sha1_digest mb0 input)"

section \<open>The specification\<close>

text \<open>A hash by iterated compression of the blocks of a message.\<close>

fun blocks :: "nat \<Rightarrow> bytes \<Rightarrow> bytes list" where
  "blocks 0 xs = []"
| "blocks (Suc n) xs = take 64 xs # blocks n (drop 64 xs)"

definition sha1_pad :: "bytes \<Rightarrow> bytes" where
  "sha1_pad m = m @ [0x80] @ replicate ((119 - length m mod 64) mod 64) 0 @
     be_bytes (of_nat (8 * length m div 2 ^ 32)) @ be_bytes (of_nat (8 * length m))"

definition sha1_spec :: "bytes \<Rightarrow> sha_state" where
  "sha1_spec m = fold processSHA1MessageBlock (blocks (length (sha1_pad m) div 64) (sha1_pad m)) sha_init"

section \<open>The stream invariant\<close>

definition stream_inv :: "bytes \<Rightarrow> sha_stream \<Rightarrow> bool" where
  "stream_inv m s \<longleftrightarrow>
     length (messageBlock s) = 64 \<and> sh_index s = length m mod 64 \<and>
     take (sh_index s) (messageBlock s) = drop (64 * (length m div 64)) m \<and>
     sh_H s = fold processSHA1MessageBlock (blocks (length m div 64) m) sha_init"

definition counter_inv :: "bytes \<Rightarrow> sha_stream \<Rightarrow> bool" where
  "counter_inv m s \<longleftrightarrow>
     length_low s = of_nat (8 * length m) \<and> length_high s = of_nat (8 * length m div 2 ^ 32)"

lemma blocks_append: "length xs = 64 * n \<Longrightarrow> blocks (n + k) (xs @ ys) = blocks n xs @ blocks k ys"
proof (induction n arbitrary: xs)
  case 0
  then show ?case by simp
next
  case (Suc n)
  then have "length (drop 64 xs) = 64 * n" by simp
  from Suc.IH [OF this] Suc.prems show ?case by simp
qed

lemma blocks_prefix: "64 * n \<le> length xs \<Longrightarrow> blocks n (xs @ ys) = blocks n xs"
proof (induction n arbitrary: xs)
  case 0
  then show ?case by simp
next
  case (Suc n)
  then show ?case by simp
qed

lemma blocks_snoc:
  assumes "64 * n \<le> length m" "length (drop (64 * n) m) = 64"
  shows "blocks (Suc n) m = blocks n m @ [drop (64 * n) m]"
proof -
  have l: "length (take (64 * n) m) = 64 * n" using assms(1) by simp
  have "blocks (n + 1) (take (64 * n) m @ drop (64 * n) m) =
      blocks n (take (64 * n) m) @ blocks 1 (drop (64 * n) m)"
    using l by (rule blocks_append)
  moreover have "blocks n (take (64 * n) m @ drop (64 * n) m) = blocks n (take (64 * n) m)"
    using l by (intro blocks_prefix) simp
  ultimately show ?thesis using assms(2) by simp
qed

text \<open>One byte more, on the block and on the counter separately.\<close>

lemma put_flush_inv:
  assumes "stream_inv m s"
  shows "stream_inv (m @ [v]) (let t = sha_put v s in if sh_index t = 64 then sha_flush t else t)"
proof -
  define q where "q = length m div 64"
  define r where "r = length m mod 64"
  have lm: "length m = 64 * q + r" and r: "r < 64" by (simp_all add: q_def r_def)
  let ?t = "sha_put v s"
  have i: "sh_index s = r" and mb: "length (messageBlock s) = 64"
    and tk: "take r (messageBlock s) = drop (64 * q) m"
    and H: "sh_H s = fold processSHA1MessageBlock (blocks q m) sha_init"
    using assms unfolding stream_inv_def q_def [symmetric] r_def [symmetric] by auto
  have t: "take (r + 1) (messageBlock ?t) = drop (64 * q) (m @ [v])"
    using tk mb r i lm by (simp add: sha_put_def take_Suc_conv_app_nth)
  show ?thesis
  proof (cases "r = 63")
    case True
    have d: "length (m @ [v]) div 64 = Suc q" "length (m @ [v]) mod 64 = 0"
      using lm True by simp_all
    have full: "messageBlock ?t = drop (64 * q) (m @ [v])"
      using t mb True by (simp add: sha_put_def)
    have "blocks (Suc q) (m @ [v]) = blocks q (m @ [v]) @ [drop (64 * q) (m @ [v])]"
      using lm True by (intro blocks_snoc) auto
    also have "blocks q (m @ [v]) = blocks q m" using lm by (intro blocks_prefix) simp
    finally have b: "blocks (Suc q) (m @ [v]) = blocks q m @ [messageBlock ?t]" by (simp add: full)
    have "sh_index ?t = 64" using i True by (simp add: sha_put_def)
    then have "(let t = sha_put v s in if sh_index t = 64 then sha_flush t else t) = sha_flush ?t"
      by simp
    moreover have "stream_inv (m @ [v]) (sha_flush ?t)"
      unfolding stream_inv_def d
      using mb H lm True b by (simp add: sha_flush_def) (simp add: sha_put_def)
    ultimately show ?thesis by simp
  next
    case False
    then have d: "length (m @ [v]) div 64 = q" "length (m @ [v]) mod 64 = r + 1"
      using lm r by simp_all
    have "blocks q (m @ [v]) = blocks q m" using lm by (intro blocks_prefix) simp
    moreover have "(let t = sha_put v s in if sh_index t = 64 then sha_flush t else t) = ?t"
      using i r False by (simp add: sha_put_def)
    moreover have "sh_index ?t = r + 1" "length (messageBlock ?t) = 64" "sh_H ?t = sh_H s"
      using i mb by (simp_all add: sha_put_def)
    ultimately show ?thesis using H t unfolding stream_inv_def d by simp
  qed
qed

lemma feed_as_put:
  "sha_feed v s = (let t = sha_put v s; u = (if sh_index t = 64 then sha_flush t else t)
     in u\<lparr>length_low := length_low s + 8,
         length_high := (if length_low s + 8 = 0 then length_high s + 1 else length_high s)\<rparr>)"
  by (simp add: sha_feed_def sha_put_def sha_flush_def Let_def)

lemma stream_inv_counters [simp]:
  "stream_inv m (u\<lparr>length_low := a, length_high := b\<rparr>) = stream_inv m u"
  by (simp add: stream_inv_def)

lemma feed_stream_inv: "stream_inv m s \<Longrightarrow> stream_inv (m @ [v]) (sha_feed v s)"
  using put_flush_inv [of m s v] unfolding feed_as_put Let_def stream_inv_counters .

lemma low_carry:
  "(of_nat (8 * n) + 8 = (0 :: u32)) \<longleftrightarrow> 8 * (n + 1) mod 2 ^ 32 = 0"
proof -
  have "(of_nat (8 * n) + 8 = (0 :: u32)) \<longleftrightarrow> (of_nat (8 * (n + 1)) = (0 :: u32))"
    by (simp add: algebra_simps)
  also have "\<dots> \<longleftrightarrow> 8 * (n + 1) mod 2 ^ 32 = 0"
    by (simp only: word_of_nat_eq_0_iff dvd_eq_mod_eq_0) simp
  finally show ?thesis .
qed

lemma carry_div_gen:
  fixes k :: nat
  assumes "0 < k"
  shows "8 * (n + 1) div (8 * k) = 8 * n div (8 * k) + (if 8 * (n + 1) mod (8 * k) = 0 then 1 else 0)"
proof -
  have "Suc n div k = n div k + (if Suc n mod k = 0 then 1 else 0)"
    using assms by (simp add: div_Suc)
  then show ?thesis using assms by (simp add: mult_mod_right [symmetric] del: mult_Suc_right)
qed

lemma carry_div:
  "8 * (n + 1) div 2 ^ 32 =
     8 * n div 2 ^ 32 + (if 8 * (n + 1) mod (2 :: nat) ^ 32 = 0 then 1 else (0 :: nat))"
  using carry_div_gen [of "2 ^ 29" n] by simp

lemma feed_counter_inv: "counter_inv m s \<Longrightarrow> counter_inv (m @ [v]) (sha_feed v s)"
proof -
  assume c: "counter_inv m s"
  let ?n = "length m"
  have l: "length_low (sha_feed v s) = of_nat (8 * (?n + 1))"
    using c by (simp add: feed_as_put counter_inv_def Let_def)
  have "length_high (sha_feed v s) =
      (if 8 * (?n + 1) mod 2 ^ 32 = 0 then length_high s + 1 else length_high s)"
    using c low_carry [of ?n] by (simp add: feed_as_put counter_inv_def Let_def)
  also have "\<dots> = of_nat (8 * (?n + 1) div 2 ^ 32)"
    unfolding carry_div using c by (simp add: counter_inv_def)
  finally show ?thesis using l by (simp add: counter_inv_def)
qed

lemma feed_all:
  assumes "length mb0 = 64"
  shows "stream_inv m (fold sha_feed m (sha_start mb0)) \<and> counter_inv m (fold sha_feed m (sha_start mb0))"
proof (induction m rule: rev_induct)
  case Nil
  show ?case using assms by (simp add: stream_inv_def counter_inv_def sha_start_def)
next
  case (snoc v m)
  then show ?case by (simp add: feed_stream_inv feed_counter_inv)
qed

section \<open>Padding\<close>

lemma zero_to_inv:
  assumes "stream_inv m s" "n \<le> 64" "sh_index s + k = n" "k \<le> 63" "n = 64 \<longrightarrow> 0 < k"
  shows "stream_inv (m @ replicate k 0) (if n = 64 then sha_flush (sha_zero_to n s) else sha_zero_to n s)"
  using assms
proof (induction k arbitrary: m s)
  case 0
  then show ?case by (subst sha_zero_to.simps) simp
next
  case (Suc k)
  let ?t = "sha_put 0 s"
  have z: "sha_zero_to n s = sha_zero_to n ?t"
    using Suc.prems by (subst sha_zero_to.simps) simp
  have i: "sh_index ?t = sh_index s + 1" by (simp add: sha_put_def)
  show ?case
  proof (cases "sh_index ?t = 64")
    case True
    then have "k = 0" "n = 64" using Suc.prems i by simp_all
    moreover have "sha_zero_to n ?t = ?t" using True \<open>n = 64\<close> by (subst sha_zero_to.simps) simp
    ultimately show ?thesis using put_flush_inv [OF Suc.prems(1), of 0] True z by simp
  next
    case False
    have "stream_inv (m @ [0]) ?t" using put_flush_inv [OF Suc.prems(1), of 0] False by simp
    moreover have "n = 64 \<longrightarrow> 0 < k" using False Suc.prems(3) i by auto
    ultimately have "stream_inv ((m @ [0]) @ replicate k 0)
        (if n = 64 then sha_flush (sha_zero_to n ?t) else sha_zero_to n ?t)"
      using Suc.prems i by (intro Suc.IH) auto
    then show ?thesis using z by (cases "n = 64") simp_all
  qed
qed

lemma counters_frame [frame]:
  "length_low (sha_put v s) = length_low s" "length_high (sha_put v s) = length_high s"
  "length_low (sha_flush s) = length_low s" "length_high (sha_flush s) = length_high s"
  by (simp_all add: sha_put_def sha_flush_def)

lemma zero_to_counters [frame]:
  "length_low (sha_zero_to n s) = length_low s \<and> length_high (sha_zero_to n s) = length_high s"
proof (induction n s rule: sha_zero_to.induct)
  case (1 n s)
  then show ?case by (subst (1 2) sha_zero_to.simps) (simp add: frame)
qed

lemma zero_to_index: "sh_index s \<le> n \<Longrightarrow> sh_index (sha_zero_to n s) = n"
proof (induction n s rule: sha_zero_to.induct)
  case (1 n s)
  then show ?case by (subst sha_zero_to.simps) (simp add: sha_put_def)
qed

lemma length_be_bytes [simp]: "length (be_bytes w) = 4"
  by (simp add: be_bytes_def)

text \<open>What the finishing steps hash: the message, the marker, zeros, and the length.\<close>

lemma finish_padded:
  assumes inv: "stream_inv m s" and k: "k = (119 - length m mod 64) mod 64"
  shows "\<exists>s3. sha_finish s = processSHA1MessageBlock
      (take 56 (messageBlock s3) @ be_bytes (length_high s) @ be_bytes (length_low s)) (sh_H s3) \<and>
    stream_inv (m @ [0x80] @ replicate k 0) s3 \<and> sh_index s3 = 56"
proof -
  let ?s1 = "sha_put 0x80 s" and ?r = "length m mod 64"
  have i: "sh_index s = ?r" using inv by (simp add: stream_inv_def)
  have i1: "sh_index ?s1 = ?r + 1" by (simp add: sha_put_def i)
  have r: "?r < 64" by simp
  note put = put_flush_inv [OF inv, of "0x80"]
  define s2 where "s2 = (if sh_index ?s1 > 56 then sha_flush (sha_zero_to 64 ?s1) else ?s1)"
  have fin: "sha_finish s = processSHA1MessageBlock
      (take 56 (messageBlock (sha_zero_to 56 s2)) @ be_bytes (length_high s) @ be_bytes (length_low s))
      (sh_H (sha_zero_to 56 s2))"
    by (simp add: sha_finish_def Let_def s2_def frame)
  have "stream_inv (m @ [0x80] @ replicate k 0) (sha_zero_to 56 s2) \<and> sh_index (sha_zero_to 56 s2) = 56"
  proof (cases "?r + 1 > 56")
    case False
    have p: "stream_inv (m @ [0x80]) ?s1" using put False i1 by simp
    have k': "k = 55 - ?r"
    proof -
      have "119 - ?r = (55 - ?r) + 64" using False by simp
      moreover have "55 - ?r < 64" by simp
      ultimately show ?thesis unfolding k by (simp only: mod_add_self2 mod_less)
    qed
    have "stream_inv ((m @ [0x80]) @ replicate k 0) (sha_zero_to 56 ?s1)"
      using zero_to_inv [OF p, of 56 k] False i1 k' by simp
    moreover have "s2 = ?s1" using False i1 by (simp add: s2_def)
    ultimately show ?thesis using zero_to_index [of ?s1 56] False i1 by simp
  next
    case True
    define j where "j = 63 - ?r"
    have s2: "s2 = sha_flush (sha_zero_to 64 ?s1)" using True i1 by (simp add: s2_def)
    have k': "k = j + 56"
      using k True r by (simp add: j_def)
    have "stream_inv ((m @ [0x80]) @ replicate j 0) s2"
    proof (cases "?r = 63")
      case True
      then have "sha_zero_to 64 ?s1 = ?s1" using i1 by (subst sha_zero_to.simps) simp
      with put True i1 show ?thesis by (simp add: s2 j_def)
    next
      case False
      then have p: "stream_inv (m @ [0x80]) ?s1" using put i1 r by simp
      show ?thesis using zero_to_inv [OF p, of 64 j] False r i1 by (simp add: s2 j_def)
    qed
    moreover have i2: "sh_index s2 = 0" by (simp add: s2 sha_flush_def)
    ultimately have "stream_inv (((m @ [0x80]) @ replicate j 0) @ replicate 56 0)
        (if (56 :: nat) = 64 then sha_flush (sha_zero_to 56 s2) else sha_zero_to 56 s2)"
      by (intro zero_to_inv) auto
    then have "stream_inv (((m @ [0x80]) @ replicate j 0) @ replicate 56 0) (sha_zero_to 56 s2)"
      by (simp only: rel_simps if_False)
    then show ?thesis using zero_to_index [of s2 56] i2 by (simp add: k' replicate_add)
  qed
  with fin show ?thesis by blast
qed

lemma finish_hashes:
  assumes "stream_inv p s3" "sh_index s3 = 56" "length t = 8"
  shows "processSHA1MessageBlock (take 56 (messageBlock s3) @ t) (sh_H s3) =
    fold processSHA1MessageBlock (blocks (length (p @ t) div 64) (p @ t)) sha_init"
proof -
  define q where "q = length p div 64"
  have st: "length p mod 64 = 56" "take 56 (messageBlock s3) = drop (64 * q) p"
    "sh_H s3 = fold processSHA1MessageBlock (blocks q p) sha_init"
    using assms unfolding stream_inv_def q_def by auto
  then have lp: "length p = 64 * q + 56" unfolding q_def by (metis mult_div_mod_eq)
  have d: "length (p @ t) div 64 = Suc q" unfolding length_append lp assms(3) by presburger
  have "length (drop (64 * q) (p @ t)) = 64" unfolding length_drop length_append lp assms(3) by presburger
  then have "blocks (Suc q) (p @ t) = blocks q (p @ t) @ [drop (64 * q) (p @ t)]"
    using lp by (intro blocks_snoc) auto
  also have "blocks q (p @ t) = blocks q p" using lp by (intro blocks_prefix) simp
  also have "drop (64 * q) (p @ t) = take 56 (messageBlock s3) @ t"
    using lp st(2) by simp
  finally have "blocks (Suc q) (p @ t) = blocks q p @ [take 56 (messageBlock s3) @ t]" .
  then show ?thesis unfolding d st(3) by (simp only: fold_append comp_apply fold.simps id_apply)
qed

lemma transformToSHA1_equals:
  assumes "length mb0 = 64"
  shows "transformToSHA1 mb0 m = sha_hex (sha1_spec m)"
proof -
  let ?s = "fold sha_feed m (sha_start mb0)"
  define k where "k = (119 - length m mod 64) mod 64"
  define t where "t = be_bytes (length_high ?s) @ be_bytes (length_low ?s)"
  note inv = feed_all [OF assms, of m]
  obtain s3 where s3: "sha_finish ?s = processSHA1MessageBlock (take 56 (messageBlock s3) @ t) (sh_H s3)"
    "stream_inv (m @ [0x80] @ replicate k 0) s3" "sh_index s3 = 56"
    using finish_padded [OF conjunct1 [OF inv] k_def] by (auto simp: t_def)
  have pad: "(m @ [0x80] @ replicate k 0) @ t = sha1_pad m"
    using inv by (simp add: sha1_pad_def k_def t_def counter_inv_def)
  have "length t = 8" by (simp add: t_def)
  from finish_hashes [OF s3(2,3) this] show ?thesis
    unfolding transformToSHA1_def sha1_digest_def s3(1) sha1_spec_def pad [symmetric] by simp
qed

text \<open>
  C40. The streaming SHA-1 hashes the padded message: whatever the uninitialised block
  held, \<open>transformToSHA1\<close> prints the iterated compression of the 64-byte blocks of the
  message followed by 0x80, zeros and its length in bits as a 64-bit number, including
  the carry between the two 32-bit halves of the length.
\<close>

theorem transformToSHA1_correct:
  assumes "length mb0 = 64"
  shows "transformToSHA1 mb0 m = sha_hex (sha1_spec m)"
  using assms by (rule transformToSHA1_equals)

theorem transformToSHA1_correct_witness:
  "transformToSHA1 (replicate 64 0xCC) [97, 98, 99] = sha_hex (sha1_spec [97, 98, 99])"
  by (rule transformToSHA1_correct) simp

end
