(* ===== verification/Token.thy ===== *)
theory Token imports Sha1 begin

text \<open>
  The one-time passwords of tools.cpp (\<open>generateToken\<close>): an HMAC over the streaming
  SHA-1, whose hexadecimal digests the code parses back to bytes, and the truncation
  to decimal digits.
\<close>

section \<open>The code\<close>

definition AUTHENTICATOR_DIGITS :: nat where "AUTHENTICATOR_DIGITS = 6"

text \<open>\<open>for (uint8_t i = 8; --i; ticks >>= 8) message[i] = ticks & 0xFF;\<close>\<close>

fun ticks_loop :: "nat \<Rightarrow> u32 \<Rightarrow> bytes \<Rightarrow> bytes" where
  "ticks_loop 0 ticks message = message"
| "ticks_loop (Suc i) ticks message =
     (if i = 0 then message
      else ticks_loop i (drop_bit 8 ticks) (message[i := ucast (ticks AND 0xFF)]))"

definition ticks_message :: "u32 \<Rightarrow> bytes" where
  "ticks_message ticks = ticks_loop 8 ticks (replicate 8 0)"

text \<open>\<open>iKeyPad[i] ^= key[i]\<close> over the 64 bytes of a pad.\<close>

fun xor_key :: "bytes \<Rightarrow> bytes \<Rightarrow> bytes" where
  "xor_key (k # ks) (p # ps) = (p XOR k) # xor_key ks ps"
| "xor_key [] ps = ps"
| "xor_key ks [] = []"

text \<open>\<open>std::strtoul(s, nullptr, 16)\<close> on a string of lower-case hexadecimal digits.\<close>

definition hex_val :: "char \<Rightarrow> nat" where
  "hex_val c = (if of_char c < (58 :: nat) then of_char c - 48 else of_char c - 87)"

definition strtoul16 :: "string \<Rightarrow> nat" where
  "strtoul16 s = foldl (\<lambda>acc c. 16 * acc + hex_val c) 0 s"

definition substr :: "string \<Rightarrow> nat \<Rightarrow> nat \<Rightarrow> string" where
  "substr s i n = take n (drop i s)"

text \<open>
  A key of more than 64 bytes is written past the end of the pads: \<open>None\<close>. The two
  parameters are the uninitialised blocks of the two hash computations.
\<close>

definition last_digits :: "string \<Rightarrow> string" where
  "last_digits message =
     (let hashLen = length message;
          tail = drop (hashLen - min hashLen AUTHENTICATOR_DIGITS) message
      in replicate (AUTHENTICATOR_DIGITS - min hashLen AUTHENTICATOR_DIGITS) (CHR ''0'') @ tail)"

definition generateToken :: "bytes \<Rightarrow> bytes \<Rightarrow> bytes \<Rightarrow> u32 \<Rightarrow> string option" where
  "generateToken mb0 mb1 key ticks =
     (if length key > 64 then None
      else
        (let iKeyPad = xor_key key (replicate 64 0x36);
             oKeyPad = xor_key key (replicate 64 0x5C);
             message = transformToSHA1 mb0 (iKeyPad @ ticks_message ticks);
             oKeyPad1 = oKeyPad @ map (\<lambda>i. of_nat (strtoul16 (substr message (2 * i) 2))) [0..<length message div 2];
             message1 = transformToSHA1 mb1 oKeyPad1;
             offset = (of_nat (strtoul16 (substr message1 39 1)) AND 0xF :: u32);
             truncHash = (of_nat (strtoul16 (substr message1 (2 * unat offset) 8)) AND 0x7FFFFFFF :: u32)
         in Some (last_digits (to_dec (unat truncHash)))))"

section \<open>The specification\<close>

definition digest_bytes :: "sha_state \<Rightarrow> bytes" where
  "digest_bytes H = map (sha_byte H) [0..<20]"

definition hmac_sha1 :: "bytes \<Rightarrow> bytes \<Rightarrow> bytes" where
  "hmac_sha1 key m =
     (let k = key @ replicate (64 - length key) 0
      in digest_bytes (sha1_spec (map (\<lambda>b. 0x5C XOR b) k @
           digest_bytes (sha1_spec (map (\<lambda>b. 0x36 XOR b) k @ m)))))"

definition be_value :: "bytes \<Rightarrow> nat" where
  "be_value bs = foldl (\<lambda>acc b. 256 * acc + unat b) 0 bs"

fun fixed_digits :: "nat \<Rightarrow> nat \<Rightarrow> nat list" where
  "fixed_digits 0 n = []"
| "fixed_digits (Suc w) n = fixed_digits w (n div 10) @ [n mod 10]"

text \<open>RFC 4226: dynamic truncation of the HMAC of the eight-byte counter.\<close>

definition hotp :: "bytes \<Rightarrow> u32 \<Rightarrow> string" where
  "hotp key ticks =
     (let hs = hmac_sha1 key (replicate 4 0 @ be_bytes ticks);
          off = unat (hs ! 19) mod 16
      in map digit_char (fixed_digits 6 (be_value (take 4 (drop off hs)) mod 2 ^ 31)))"

section \<open>Hexadecimal round trip\<close>

lemma hexDigit_val: "n < 16 \<Longrightarrow> hex_val (hexDigits ! n) = n"
proof -
  have "\<forall>n \<in> set [0..<16]. hex_val (hexDigits ! n) = n" by code_simp
  then show "n < 16 \<Longrightarrow> ?thesis" by simp
qed

lemma low_nibble_mod: "unat ((b :: u8) AND 15) = unat b mod 16"
  using take_bit_eq_mask [of 4 b] unsigned_take_bit_eq [of 4 b, where 'a = nat]
  by (simp add: mask_eq_exp_minus_1 take_bit_eq_mod)

lemma nibble_low: "unat ((b :: u8) AND 15) < 16"
  by (simp add: low_nibble_mod)

lemma byte_split: "unat b = 16 * unat (drop_bit 4 b :: u8) + unat (b AND 15)"
proof -
  have "unat (drop_bit 4 b) = unat b div 16"
    by (simp only: drop_bit_eq_div unat_div_distrib power_numeral) simp
  then show ?thesis by (simp add: low_nibble_mod)
qed

lemma nibble_high: "unat (drop_bit 4 (b :: u8)) < 16"
  using byte_split [of b] u8_le_255 [of b] by linarith

lemma hex_fold_byte:
  "foldl (\<lambda>acc c. 16 * acc + hex_val c) acc (hex_byte b) = 256 * acc + unat b"
  using byte_split [of b] by (simp add: hex_byte_def hexDigit_val nibble_low nibble_high)

lemma hex_fold_bytes:
  "foldl (\<lambda>acc c. 16 * acc + hex_val c) acc (concat (map hex_byte bs)) =
     foldl (\<lambda>acc b. 256 * acc + unat b) acc bs"
  by (induction bs arbitrary: acc) (simp_all add: hex_fold_byte)

lemma strtoul16_bytes: "strtoul16 (concat (map hex_byte bs)) = be_value bs"
  by (simp add: strtoul16_def be_value_def hex_fold_bytes)

lemma length_hex_byte [simp]: "length (hex_byte b) = 2"
  by (simp add: hex_byte_def)

lemma length_hex_bytes [simp]: "length (concat (map hex_byte bs)) = 2 * length bs"
  by (induction bs) auto

lemma take_hex_bytes: "take (2 * n) (concat (map hex_byte bs)) = concat (map hex_byte (take n bs))"
proof (induction bs arbitrary: n)
  case (Cons b bs)
  then show ?case by (cases n) simp_all
qed simp

lemma drop_hex_bytes: "drop (2 * n) (concat (map hex_byte bs)) = concat (map hex_byte (drop n bs))"
proof (induction bs arbitrary: n)
  case (Cons b bs)
  then show ?case by (cases n) simp_all
qed simp

lemma substr_hex_bytes:
  "substr (concat (map hex_byte bs)) (2 * i) (2 * n) = concat (map hex_byte (take n (drop i bs)))"
  by (simp add: substr_def take_hex_bytes drop_hex_bytes)

lemma sha_hex_bytes: "sha_hex H = concat (map hex_byte (digest_bytes H))"
  by (simp add: sha_hex_def digest_bytes_def comp_def)

lemma length_digest_bytes [simp]: "length (digest_bytes H) = 20"
  by (simp add: digest_bytes_def)

lemma length_sha_hex [simp]: "length (sha_hex H) = 40"
  by (simp add: sha_hex_bytes)

text \<open>The conversion loop of \<open>generateToken\<close> recovers the bytes of a digest.\<close>

lemma parse_digest:
  "map (\<lambda>i. of_nat (strtoul16 (substr (sha_hex H) (2 * i) 2))) [0..<20] = digest_bytes H"
proof (rule nth_equalityI)
  fix i assume "i < length (map (\<lambda>i. of_nat (strtoul16 (substr (sha_hex H) (2 * i) 2))) [0..<20] :: bytes)"
  then have i: "i < 20" by simp
  have "take 1 (drop i (digest_bytes H)) = [digest_bytes H ! i]"
    using i by (simp add: take_Suc_conv_app_nth)
  then show "map (\<lambda>i. of_nat (strtoul16 (substr (sha_hex H) (2 * i) 2))) [0..<20] ! i = digest_bytes H ! i"
    using i substr_hex_bytes [of "digest_bytes H" i 1]
    by (simp add: sha_hex_bytes) (simp add: hex_byte_def [symmetric] strtoul16_def hex_fold_byte)
qed simp

section \<open>Decimal truncation\<close>

lemma length_fixed_digits [simp]: "length (fixed_digits w n) = w"
  by (induction w arbitrary: n) auto

lemma fixed_digits_mod: "fixed_digits w (n mod 10 ^ w) = fixed_digits w n"
proof (induction w arbitrary: n)
  case (Suc w)
  have "n mod 10 ^ Suc w div 10 = n div 10 mod 10 ^ w"
    by (simp add: div_mult2_eq mod_mult2_eq)
  with Suc [of "n div 10"] show ?case by (simp add: mod_mult2_eq)
qed simp

lemma fixed_digits_0: "fixed_digits w 0 = replicate w 0"
  by (induction w) (simp_all add: replicate_append_same)

text \<open>Padding on the left and cutting to the last \<open>w\<close> digits is printing with \<open>w\<close> digits.\<close>

lemma pad_cut_digits:
  "replicate (w - length (dec_digits n)) 0 @ drop (length (dec_digits n) - w) (dec_digits n) =
     fixed_digits w n"
proof (induction w arbitrary: n)
  case 0
  then show ?case by simp
next
  case (Suc w)
  show ?case
  proof (cases "n < 10")
    case True
    then show ?thesis by (simp add: dec_digits.simps [of n] fixed_digits_0)
  next
    case False
    then have d: "dec_digits n = dec_digits (n div 10) @ [n mod 10]"
      by (simp add: dec_digits.simps [of n])
    show ?thesis using Suc [of "n div 10"] by (simp add: d)
  qed
qed

lemma last_digits_to_dec: "last_digits (to_dec n) = map digit_char (fixed_digits 6 n)"
proof -
  let ?d = "dec_digits n"
  have "last_digits (to_dec n) = map digit_char (replicate (6 - length ?d) 0 @ drop (length ?d - 6) ?d)"
    by (simp add: last_digits_def to_dec_def AUTHENTICATOR_DIGITS_def digit_char_0 drop_map min_def Let_def)
  then show ?thesis by (simp only: pad_cut_digits)
qed

section \<open>The theorem\<close>

lemma xor_key_pad:
  "length key \<le> n \<Longrightarrow> xor_key key (replicate n p) = map (\<lambda>b. p XOR b) (key @ replicate (n - length key) 0)"
proof (induction key arbitrary: n)
  case Nil
  then show ?case by simp
next
  case (Cons k ks)
  then show ?case by (cases n) simp_all
qed

lemma ucast_low_byte: "(ucast ((x :: u32) AND 255) :: u8) = ucast x"
proof -
  have "x AND 255 = take_bit 8 x" by (simp add: take_bit_eq_mask mask_eq_exp_minus_1)
  moreover have "(ucast (take_bit 8 x) :: u8) = ucast x"
    by (rule bit_word_eqI) (simp add: bit_ucast_iff bit_take_bit_iff)
  ultimately show ?thesis by simp
qed

lemma drop_all_bits: "32 \<le> n \<Longrightarrow> drop_bit n (x :: u32) = 0"
  by (rule bit_word_eqI) (auto simp: bit_drop_bit_eq dest: bit_imp_le_length)

lemma ticks_loop_num:
  "2 \<le> n \<Longrightarrow>
     ticks_loop n t m = ticks_loop (n - 1) (drop_bit 8 t) (m[n - 1 := ucast (t AND 0xFF)])"
  by (cases n) auto

lemma ticks_loop_1: "ticks_loop 1 t m = m"
  by simp

lemma ticks_message_be: "ticks_message ticks = replicate 4 0 @ be_bytes ticks"
proof -
  have "ticks_message ticks =
      [0, ucast (drop_bit 48 ticks AND 255), ucast (drop_bit 40 ticks AND 255),
       ucast (drop_bit 32 ticks AND 255), ucast (drop_bit 24 ticks AND 255),
       ucast (drop_bit 16 ticks AND 255), ucast (drop_bit 8 ticks AND 255), ucast (ticks AND 255)]"
    by (simp add: ticks_message_def ticks_loop_num ticks_loop_1 del: One_nat_def) (simp add: numeral_eq_Suc)
  then show ?thesis
    by (simp add: be_bytes_def ucast_low_byte drop_all_bits) (simp add: numeral_eq_Suc)
qed

lemma last_nibble:
  "strtoul16 (substr (sha_hex H) 39 1) = unat (digest_bytes H ! 19) mod 16"
proof -
  let ?b = "digest_bytes H ! 19"
  have "drop 19 (digest_bytes H) = [?b]"
    by (rule nth_equalityI) simp_all
  then have "drop 38 (sha_hex H) = hex_byte ?b"
    using drop_hex_bytes [of 19 "digest_bytes H"] by (simp add: sha_hex_bytes)
  moreover have "drop 39 (sha_hex H) = drop 1 (drop 38 (sha_hex H))" by simp
  ultimately have "substr (sha_hex H) 39 1 = [hexDigits ! unat (?b AND 15)]"
    by (simp add: substr_def hex_byte_def)
  then show ?thesis by (simp add: strtoul16_def hexDigit_val low_nibble_mod)
qed

lemma unat_low_31: "unat (of_nat n AND 0x7FFFFFFF :: u32) = n mod 2 ^ 31"
proof -
  have "(of_nat n AND 0x7FFFFFFF :: u32) = take_bit 31 (of_nat n)"
    by (simp add: take_bit_eq_mask mask_eq_exp_minus_1)
  then show ?thesis by (simp add: unsigned_take_bit_eq unat_of_nat) (simp add: take_bit_eq_mod mod_mod_cancel)
qed

lemma unat_low_4: "n < 16 \<Longrightarrow> unat (of_nat n AND 0xF :: u32) = n"
proof -
  assume n: "n < 16"
  have "(of_nat n AND 0xF :: u32) = take_bit 4 (of_nat n)"
    by (simp add: take_bit_eq_mask mask_eq_exp_minus_1)
  then show ?thesis using n by (simp add: unsigned_take_bit_eq unat_of_nat) (simp add: take_bit_eq_mod)
qed

text \<open>
  The token is the RFC 4226 one-time password: for a key of at most 64 bytes,
  \<open>generateToken\<close> returns the six decimal digits of the truncated HMAC-SHA-1 of the
  ticks as an eight-byte big-endian counter; a longer key writes past the pads.
\<close>

theorem generateToken_is_hotp:
  assumes "length mb0 = 64" "length mb1 = 64"
  shows "generateToken mb0 mb1 key ticks = (if length key \<le> 64 then Some (hotp key ticks) else None)"
proof (cases "length key \<le> 64")
  case False
  then show ?thesis by (simp add: generateToken_def)
next
  case True
  let ?k = "key @ replicate (64 - length key) 0"
  define H0 where "H0 = sha1_spec (map (\<lambda>b. 0x36 XOR b) ?k @ ticks_message ticks)"
  define H1 where "H1 = sha1_spec (map (\<lambda>b. 0x5C XOR b) ?k @ digest_bytes H0)"
  let ?off = "unat (digest_bytes H1 ! 19) mod 16"
  have hash: "transformToSHA1 mb0 m = sha_hex (sha1_spec m)" "transformToSHA1 mb1 m = sha_hex (sha1_spec m)" for m
    using transformToSHA1_equals assms by auto
  have m0: "transformToSHA1 mb0 (xor_key key (replicate 64 0x36) @ ticks_message ticks) = sha_hex H0"
    using True by (simp only: hash xor_key_pad H0_def)
  have m1: "transformToSHA1 mb1 (xor_key key (replicate 64 0x5C) @ digest_bytes H0) = sha_hex H1"
    using True by (simp only: hash xor_key_pad H1_def)
  have off: "unat (of_nat (strtoul16 (substr (sha_hex H1) 39 1)) AND 0xF :: u32) = ?off"
    by (subst last_nibble) (rule unat_low_4, simp)
  have trunc: "strtoul16 (substr (sha_hex H1) (2 * ?off) 8) = be_value (take 4 (drop ?off (digest_bytes H1)))"
    using substr_hex_bytes [of "digest_bytes H1" ?off 4] by (simp add: sha_hex_bytes strtoul16_bytes)
  have "generateToken mb0 mb1 key ticks =
      Some (last_digits (to_dec (be_value (take 4 (drop ?off (digest_bytes H1))) mod 2 ^ 31)))"
    using True unfolding generateToken_def Let_def m0
    by (simp add: parse_digest m1 off trunc unat_low_31 del: One_nat_def)
  moreover have "hmac_sha1 key (replicate 4 0 @ be_bytes ticks) = digest_bytes H1"
    by (simp add: hmac_sha1_def H1_def H0_def ticks_message_be Let_def)
  ultimately show ?thesis
    using True by (simp add: hotp_def Let_def last_digits_to_dec)
qed

theorem generateToken_is_hotp_witness:
  "generateToken (replicate 64 0xCC) (replicate 64 0) [49, 50, 51] 7 = Some (hotp [49, 50, 51] 7)"
  using generateToken_is_hotp [of "replicate 64 0xCC" "replicate 64 0" "[49, 50, 51]" 7] by simp

end
