(* ===== verification/Party.thy ===== *)
theory Party imports Geometry begin

text \<open>
  Parties (party.cpp, the party members of player.cpp and the party handlers of
  game.cpp). Players and parties live in a store and refer to each other by
  address: a player is named by its creature id, a party by an allocation number.
  The script callbacks, the clock and the configuration are fields of the store,
  and what the code sends to clients is the list \<open>notices\<close>.
\<close>

section \<open>The store\<close>

datatype party_shield =
  SHIELD_NONE | SHIELD_WHITEYELLOW | SHIELD_WHITEBLUE | SHIELD_BLUE | SHIELD_YELLOW
| SHIELD_BLUE_SHAREDEXP | SHIELD_YELLOW_SHAREDEXP | SHIELD_BLUE_NOSHAREDEXP_BLINK
| SHIELD_YELLOW_NOSHAREDEXP_BLINK | SHIELD_BLUE_NOSHAREDEXP | SHIELD_YELLOW_NOSHAREDEXP | SHIELD_GRAY

text \<open>
  Messages to clients: a text to a player, the shield or skull of one player to
  another, closing the party channel, and the two broadcasts to the spectators of a
  player (\<open>Game::updatePlayerShield\<close>, \<open>Game::updatePlayerHelpers\<close>).
\<close>

datatype notice =
  Text nat string
| Shield nat nat party_shield
| Skull nat nat
| ClosePartyChannel nat
| ShieldToSpectators nat
| HelpersToSpectators nat

record party =
  memberList :: "nat list"
  inviteList :: "nat list"
  leader :: "nat option"
  ticksMap :: "nat \<Rightarrow> int option"
  sharedExpBonus :: "nat option"
  sharedExpActive :: bool
  sharedExpEnabled :: bool

record pplayer =
  pl_name :: string
  pl_female :: bool
  pl_level :: nat
  pl_fromVocation :: nat
  pl_position :: position
  pl_notGainInFight :: bool
  pl_inFight :: bool
  pl_inProtectionZone :: bool
  pl_party :: "nat option"
  invitePartyList :: "nat list"

record pgame =
  online :: "nat \<Rightarrow> bool"
  players :: "nat \<Rightarrow> pplayer"
  parties :: "nat \<Rightarrow> party option"
  nextParty :: nat
  now :: int
  pzLocked :: int
  onDisband :: "nat \<Rightarrow> bool"
  onLeave :: "nat \<Rightarrow> nat \<Rightarrow> bool"
  onJoin :: "nat \<Rightarrow> nat \<Rightarrow> bool"
  notices :: "notice list"

abbreviation pty :: "pgame \<Rightarrow> nat \<Rightarrow> nat option" where
  "pty g q \<equiv> pl_party (players g q)"

abbreviation invs :: "pgame \<Rightarrow> nat \<Rightarrow> nat list" where
  "invs g q \<equiv> invitePartyList (players g q)"

text \<open>Dereferencing a pointer to a party and the pointer to its leader.\<close>

definition the_party :: "pgame \<Rightarrow> nat \<Rightarrow> party" where
  "the_party g pid = the (parties g pid)"

definition the_leader :: "pgame \<Rightarrow> nat \<Rightarrow> nat" where
  "the_leader g pid = the (leader (the_party g pid))"

definition upd_player :: "nat \<Rightarrow> (pplayer \<Rightarrow> pplayer) \<Rightarrow> pgame \<Rightarrow> pgame" where
  "upd_player q f g = g\<lparr>players := (players g)(q := f (players g q))\<rparr>"

definition upd_party :: "nat \<Rightarrow> (party \<Rightarrow> party) \<Rightarrow> pgame \<Rightarrow> pgame" where
  "upd_party pid f g = g\<lparr>parties := (parties g)(pid := map_option f (parties g pid))\<rparr>"

definition emit :: "notice \<Rightarrow> pgame \<Rightarrow> pgame" where
  "emit n g = g\<lparr>notices := notices g @ [n]\<rparr>"

definition setParty :: "nat \<Rightarrow> nat option \<Rightarrow> pgame \<Rightarrow> pgame" where
  "setParty q p = upd_player q (\<lambda>x. x\<lparr>pl_party := p\<rparr>)"

definition addPartyInvitation :: "nat \<Rightarrow> nat \<Rightarrow> pgame \<Rightarrow> pgame" where
  "addPartyInvitation q pid g =
     (if pid \<in> set (invs g q) then g
      else upd_player q (\<lambda>x. x\<lparr>invitePartyList := pid # invitePartyList x\<rparr>) g)"

definition removePartyInvitation :: "nat \<Rightarrow> nat \<Rightarrow> pgame \<Rightarrow> pgame" where
  "removePartyInvitation q pid =
     upd_player q (\<lambda>x. x\<lparr>invitePartyList := removeAll pid (invitePartyList x)\<rparr>)"

section \<open>Shared experience\<close>

text \<open>
  \<open>ceil((float)highestLevel * 2 / 3)\<close>: in single precision the quotient is within
  1/16 of the exact one for levels below \<open>2 ^ 21\<close>, so its ceiling is exact there.
\<close>

definition minSharedLevel :: "nat \<Rightarrow> nat" where
  "minSharedLevel highestLevel = (2 * highestLevel + 2) div 3"

definition highestLevel :: "pgame \<Rightarrow> nat \<Rightarrow> nat" where
  "highestLevel g pid =
     fold (\<lambda>m h. if pl_level (players g m) > h then pl_level (players g m) else h)
       (memberList (the_party g pid)) (pl_level (players g (the_leader g pid)))"

definition canUseSharedExperience :: "pgame \<Rightarrow> nat \<Rightarrow> nat \<Rightarrow> bool" where
  "canUseSharedExperience g pid q =
     (let p = the_party g pid; pl = players g q in
      if memberList p = [] then False
      else if pl_level pl < minSharedLevel (highestLevel g pid) then False
      else if \<not> areInRange3 30 30 1 (pl_position (players g (the_leader g pid))) (pl_position pl) then False
      else if \<not> pl_notGainInFight pl then
        (case ticksMap p q of
           None \<Rightarrow> False
         | Some t \<Rightarrow> \<not> ((now g - t) mod 2 ^ 64 > pzLocked g mod 2 ^ 64))
      else True)"

definition canEnableSharedExperience :: "pgame \<Rightarrow> nat \<Rightarrow> bool" where
  "canEnableSharedExperience g pid \<longleftrightarrow>
     canUseSharedExperience g pid (the_leader g pid) \<and>
     list_all (canUseSharedExperience g pid) (memberList (the_party g pid))"

section \<open>What a player shows of another\<close>

definition isPlayerInvited :: "pgame \<Rightarrow> nat \<Rightarrow> nat \<Rightarrow> bool" where
  "isPlayerInvited g pid q \<longleftrightarrow> q \<in> set (inviteList (the_party g pid))"

definition isInviting :: "pgame \<Rightarrow> nat \<Rightarrow> nat option \<Rightarrow> bool" where
  "isInviting g self player =
     (case (player, pty g self) of
        (Some q, Some pid) \<Rightarrow>
          (if leader (the_party g pid) \<noteq> Some self then False else isPlayerInvited g pid q)
      | _ \<Rightarrow> False)"

definition isPartner :: "pgame \<Rightarrow> nat \<Rightarrow> nat option \<Rightarrow> bool" where
  "isPartner g self player =
     (case (player, pty g self) of
        (Some q, Some pid) \<Rightarrow> pty g q = Some pid
      | _ \<Rightarrow> False)"

definition getPartyShield :: "pgame \<Rightarrow> nat \<Rightarrow> nat option \<Rightarrow> party_shield" where
  "getPartyShield g self player =
     (case player of None \<Rightarrow> SHIELD_NONE
      | Some q \<Rightarrow>
         (let own = (case pty g self of None \<Rightarrow> None
            | Some pid \<Rightarrow>
               (let p = the_party g pid in
                if leader p = Some q then
                  Some (if sharedExpActive p then
                          if sharedExpEnabled p then SHIELD_YELLOW_SHAREDEXP
                          else if canUseSharedExperience g pid q then SHIELD_YELLOW_NOSHAREDEXP
                          else SHIELD_YELLOW_NOSHAREDEXP_BLINK
                        else SHIELD_YELLOW)
                else if pty g q = Some pid then
                  Some (if sharedExpActive p then
                          if sharedExpEnabled p then SHIELD_BLUE_SHAREDEXP
                          else if canUseSharedExperience g pid q then SHIELD_BLUE_NOSHAREDEXP
                          else SHIELD_BLUE_NOSHAREDEXP_BLINK
                        else SHIELD_BLUE)
                else if isInviting g self (Some q) then Some SHIELD_WHITEBLUE
                else None))
          in case own of Some s \<Rightarrow> s
             | None \<Rightarrow> if isInviting g q (Some self) then SHIELD_WHITEYELLOW
                       else if pty g q \<noteq> None then SHIELD_GRAY
                       else SHIELD_NONE))"

definition sendCreatureShield :: "nat \<Rightarrow> nat \<Rightarrow> pgame \<Rightarrow> pgame" where
  "sendCreatureShield to about g = emit (Shield to about (getPartyShield g to (Some about))) g"

definition sendCreatureSkull :: "nat \<Rightarrow> nat \<Rightarrow> pgame \<Rightarrow> pgame" where
  "sendCreatureSkull to about = emit (Skull to about)"

definition sendPlayerPartyIcons :: "nat \<Rightarrow> nat \<Rightarrow> pgame \<Rightarrow> pgame" where
  "sendPlayerPartyIcons to about g = sendCreatureSkull to about (sendCreatureShield to about g)"

definition sendTextMessage :: "nat \<Rightarrow> string \<Rightarrow> pgame \<Rightarrow> pgame" where
  "sendTextMessage to msg = emit (Text to msg)"

definition sendClosePrivate :: "nat \<Rightarrow> pgame \<Rightarrow> pgame" where
  "sendClosePrivate to = emit (ClosePartyChannel to)"

definition updatePlayerShield :: "nat \<Rightarrow> pgame \<Rightarrow> pgame" where
  "updatePlayerShield q = emit (ShieldToSpectators q)"

definition updatePlayerHelpers :: "nat \<Rightarrow> pgame \<Rightarrow> pgame" where
  "updatePlayerHelpers q = emit (HelpersToSpectators q)"

section \<open>Broadcasts and shared experience state\<close>

definition updateAllPartyIcons :: "nat \<Rightarrow> pgame \<Rightarrow> pgame" where
  "updateAllPartyIcons pid g =
     (let ms = memberList (the_party g pid); l = the_leader g pid;
          g1 = fold (\<lambda>m g. let g = fold (\<lambda>m2 g. sendCreatureShield m m2 g) ms g
                          in sendCreatureShield l m (sendCreatureShield m l g)) ms g
      in sendCreatureShield l l g1)"

definition broadcastPartyMessage :: "nat \<Rightarrow> string \<Rightarrow> bool \<Rightarrow> pgame \<Rightarrow> pgame" where
  "broadcastPartyMessage pid msg sendToInvitations g =
     (let p = the_party g pid;
          g1 = fold (\<lambda>m. sendTextMessage m msg) (memberList p) g;
          g2 = sendTextMessage (the_leader g pid) msg g1
      in if sendToInvitations then fold (\<lambda>i. sendTextMessage i msg) (inviteList p) g2 else g2)"

definition broadcastPartyLoot :: "nat \<Rightarrow> string \<Rightarrow> pgame \<Rightarrow> pgame" where
  "broadcastPartyLoot pid loot g =
     fold (\<lambda>m. sendTextMessage m loot) (memberList (the_party g pid))
       (sendTextMessage (the_leader g pid) loot g)"

definition updateSharedExperience :: "nat \<Rightarrow> pgame \<Rightarrow> pgame" where
  "updateSharedExperience pid g =
     (if sharedExpActive (the_party g pid) then
        (let result = canEnableSharedExperience g pid in
         if result \<noteq> sharedExpEnabled (the_party g pid)
         then updateAllPartyIcons pid (upd_party pid (\<lambda>p. p\<lparr>sharedExpEnabled := result\<rparr>) g)
         else g)
      else g)"

text \<open>
  The bonus in percent: \<open>max(0.2, size * (5 * (size - 1) + 10) / 100.)\<close>. For an empty
  set the unsigned \<open>size - 1\<close> wraps, but it is multiplied by zero.
\<close>

definition updateSharedExperienceBonus :: "nat \<Rightarrow> pgame \<Rightarrow> pgame" where
  "updateSharedExperienceBonus pid g =
     (let p = the_party g pid;
          ids = map (\<lambda>q. pl_fromVocation (players g q)) (the_leader g pid # memberList p);
          vocationIds = remdups (filter (\<lambda>v. v \<noteq> 0) ids);
          size = length vocationIds
      in upd_party pid (\<lambda>p. p\<lparr>sharedExpBonus := Some (max 20 (size * (5 * (size - 1) + 10)))\<rparr>) g)"

definition clearPlayerPoints :: "nat \<Rightarrow> nat \<Rightarrow> pgame \<Rightarrow> pgame" where
  "clearPlayerPoints pid q g =
     (case ticksMap (the_party g pid) q of
        None \<Rightarrow> g
      | Some _ \<Rightarrow> updateSharedExperience pid (upd_party pid (\<lambda>p. p\<lparr>ticksMap := (ticksMap p)(q := None)\<rparr>) g))"

definition updatePlayerTicks :: "nat \<Rightarrow> nat \<Rightarrow> u32 \<Rightarrow> pgame \<Rightarrow> pgame" where
  "updatePlayerTicks pid q points g =
     (if points \<noteq> 0 \<and> \<not> pl_notGainInFight (players g q) then
        updateSharedExperience pid (upd_party pid (\<lambda>p. p\<lparr>ticksMap := (ticksMap p)(q \<mapsto> now g)\<rparr>) g)
      else g)"

definition setSharedExperience :: "nat \<Rightarrow> nat option \<Rightarrow> bool \<Rightarrow> pgame \<Rightarrow> bool \<times> pgame" where
  "setSharedExperience pid player active g =
     (let p = the_party g pid; l = the_leader g pid in
      if player = None \<or> leader p \<noteq> player then (False, g)
      else if sharedExpActive p = active then (True, g)
      else
        (let g1 = upd_party pid (\<lambda>p. p\<lparr>sharedExpActive := active\<rparr>) g;
             g2 = (if active then
                 (let en = canEnableSharedExperience g1 pid;
                      g1 = upd_party pid (\<lambda>p. p\<lparr>sharedExpEnabled := en\<rparr>) g1
                  in if en then sendTextMessage l ''Shared Experience is now active.'' g1
                     else sendTextMessage l
                       ''Shared Experience has been activated, but some members of your party are inactive.'' g1)
               else sendTextMessage l ''Shared Experience has been deactivated.'' g1)
         in (True, updateAllPartyIcons pid g2)))"

definition canOpenCorpse :: "pgame \<Rightarrow> nat \<Rightarrow> nat \<Rightarrow> bool" where
  "canOpenCorpse g pid ownerId =
     (if online g ownerId then leader (the_party g pid) = Some ownerId \<or> pty g ownerId = Some pid else False)"

section \<open>Membership\<close>

text \<open>\<open>Party::disband\<close>; the last step, \<open>delete this\<close>, frees the party.\<close>

definition delete_party :: "nat \<Rightarrow> pgame \<Rightarrow> pgame" where
  "delete_party pid g = g\<lparr>parties := (parties g)(pid := None)\<rparr>"

definition disband :: "nat \<Rightarrow> pgame \<Rightarrow> pgame" where
  "disband pid g =
     (if \<not> onDisband g pid then g
      else
        (let cl = the_leader g pid; p = the_party g pid;
             g = upd_party pid (\<lambda>p. p\<lparr>leader := None\<rparr>) g;
             g = setParty cl None g;
             g = sendClosePrivate cl g;
             g = updatePlayerShield cl g;
             g = updatePlayerHelpers cl g;
             g = sendCreatureSkull cl cl g;
             g = sendTextMessage cl ''Your party has been disbanded.'' g;
             g = fold (\<lambda>i g. sendCreatureShield cl i (removePartyInvitation i pid g)) (inviteList p) g;
             g = upd_party pid (\<lambda>p. p\<lparr>inviteList := []\<rparr>) g;
             g = fold (\<lambda>m g. sendTextMessage m ''Your party has been disbanded.''
                     (sendClosePrivate m (setParty m None g))) (memberList p) g;
             g = fold (\<lambda>m g.
                   (let g = updatePlayerShield m g;
                        g = fold (\<lambda>m2. sendCreatureSkull m2 m) (memberList p) g;
                        g = sendCreatureSkull m cl g;
                        g = sendCreatureSkull cl m g
                    in updatePlayerHelpers m g)) (memberList p) g
         in delete_party pid g))"

definition empty_party :: "pgame \<Rightarrow> nat \<Rightarrow> bool" where
  "empty_party g pid \<longleftrightarrow> memberList (the_party g pid) = [] \<and> inviteList (the_party g pid) = []"

definition passPartyLeadership :: "nat \<Rightarrow> nat option \<Rightarrow> pgame \<Rightarrow> bool \<times> pgame" where
  "passPartyLeadership pid player g =
     (case player of None \<Rightarrow> (False, g)
      | Some q \<Rightarrow>
         if leader (the_party g pid) = Some q \<or> pty g q \<noteq> Some pid then (False, g)
         else
           (let g = upd_party pid (\<lambda>p. p\<lparr>memberList := erase_first q (memberList p)\<rparr>) g;
                g = broadcastPartyMessage pid (pl_name (players g q) @ '' is now the leader of the party.'') True g;
                oldLeader = the_leader g pid;
                g = upd_party pid (\<lambda>p. p\<lparr>leader := Some q\<rparr>) g;
                g = upd_party pid (\<lambda>p. p\<lparr>memberList := oldLeader # memberList p\<rparr>) g;
                g = updateSharedExperience pid g;
                p = the_party g pid;
                g = fold (\<lambda>m g. sendCreatureShield m q (sendCreatureShield m oldLeader g)) (memberList p) g;
                g = fold (\<lambda>i g. sendCreatureShield i q (sendCreatureShield i oldLeader g)) (inviteList p) g;
                g = sendCreatureShield q oldLeader g;
                g = sendCreatureShield q q g
            in (True, sendTextMessage q ''You are now the leader of the party.'' g)))"

definition leaveParty :: "nat \<Rightarrow> nat option \<Rightarrow> pgame \<Rightarrow> bool \<times> pgame" where
  "leaveParty pid player g =
     (case player of None \<Rightarrow> (False, g)
      | Some q \<Rightarrow>
         if pty g q \<noteq> Some pid \<and> leader (the_party g pid) \<noteq> Some q then (False, g)
         else if \<not> onLeave g pid q then (False, g)
         else
           (let p = the_party g pid;
                (missingLeader, g) =
                  (if leader p = Some q then
                     if memberList p \<noteq> [] then
                       if length (memberList p) = 1 \<and> inviteList p = [] then (True, g)
                       else (False, snd (passPartyLeadership pid (Some (hd (memberList p))) g))
                     else (True, g)
                   else (False, g));
                g = upd_party pid (\<lambda>p. p\<lparr>memberList := erase_first q (memberList p)\<rparr>) g;
                g = setParty q None g;
                g = sendClosePrivate q g;
                g = updatePlayerShield q g;
                g = updatePlayerHelpers q g;
                g = fold (\<lambda>m g. updatePlayerHelpers m (sendPlayerPartyIcons q m (sendCreatureSkull m q g)))
                      (memberList (the_party g pid)) g;
                l = the_leader g pid;
                g = sendCreatureSkull l q g;
                g = sendCreatureSkull q q g;
                g = sendPlayerPartyIcons q l g;
                g = sendTextMessage q ''You have left the party.'' g;
                g = updateSharedExperience pid g;
                g = updateSharedExperienceBonus pid g;
                g = clearPlayerPoints pid q g;
                g = broadcastPartyMessage pid (pl_name (players g q) @ '' has left the party.'') False g
            in (True, if missingLeader \<or> empty_party g pid then disband pid g else g)))"

definition joinParty :: "nat \<Rightarrow> nat \<Rightarrow> pgame \<Rightarrow> bool \<times> pgame" where
  "joinParty pid q g =
     (if \<not> onJoin g pid q then (False, g)
      else if \<not> isPlayerInvited g pid q then (False, g)
      else
        (let g = upd_party pid (\<lambda>p. p\<lparr>inviteList := erase_first q (inviteList p)\<rparr>) g;
             g = broadcastPartyMessage pid (pl_name (players g q) @ '' has joined the party.'') False g;
             g = setParty q (Some pid) g;
             g = updatePlayerShield q g;
             g = fold (\<lambda>m g. sendPlayerPartyIcons q m (sendCreatureSkull m q g)) (memberList (the_party g pid)) g;
             l = the_leader g pid;
             g = sendCreatureSkull q q g;
             g = sendCreatureSkull l q g;
             g = sendPlayerPartyIcons q l g;
             g = upd_party pid (\<lambda>p. p\<lparr>memberList := memberList p @ [q]\<rparr>) g;
             g = updatePlayerHelpers q g;
             g = removePartyInvitation q pid g;
             g = updateSharedExperience pid g;
             g = updateSharedExperienceBonus pid g;
             leaderName = pl_name (players g l);
             ss = ''You have joined '' @ leaderName @ [char_of (39 :: nat)] @
               (if last leaderName = CHR ''s'' then '''' else ''s'') @
               '' party. Open the party channel to communicate with your companions.''
         in (True, sendTextMessage q ss g)))"

definition removeInvite :: "nat \<Rightarrow> nat \<Rightarrow> bool \<Rightarrow> pgame \<Rightarrow> bool \<times> pgame" where
  "removeInvite pid q removeFromPlayer g =
     (if \<not> isPlayerInvited g pid q then (False, g)
      else
        (let g = upd_party pid (\<lambda>p. p\<lparr>inviteList := erase_first q (inviteList p)\<rparr>) g;
             l = the_leader g pid;
             g = sendCreatureShield l q g;
             g = sendCreatureShield q l g;
             g = (if removeFromPlayer then removePartyInvitation q pid g else g);
             g = (if empty_party g pid then disband pid g
                  else updatePlayerHelpers l (fold updatePlayerHelpers (memberList (the_party g pid)) g))
         in (True, g)))"

definition possessive :: "pgame \<Rightarrow> nat \<Rightarrow> string" where
  "possessive g q = (if pl_female (players g q) then ''her'' else ''his'')"

definition revokeInvitation :: "nat \<Rightarrow> nat \<Rightarrow> pgame \<Rightarrow> pgame" where
  "revokeInvitation pid q g =
     (let l = the_leader g pid;
          g = sendTextMessage q (pl_name (players g l) @ '' has revoked '' @ possessive g l @ '' invitation.'') g;
          g = sendTextMessage l (''Invitation for '' @ pl_name (players g q) @ '' has been revoked.'') g
      in snd (removeInvite pid q True g))"

definition invitePlayer :: "nat \<Rightarrow> nat \<Rightarrow> pgame \<Rightarrow> bool \<times> pgame" where
  "invitePlayer pid q g =
     (if isPlayerInvited g pid q then (False, g)
      else
        (let l = the_leader g pid; msg = pl_name (players g q) @ '' has been invited.'';
             (msg, g) =
               (if empty_party g pid
                then (msg @ '' Open the party channel to communicate with your members.'',
                      sendCreatureSkull l l (updatePlayerShield l g))
                else (msg, g));
             g = sendTextMessage l msg g;
             g = upd_party pid (\<lambda>p. p\<lparr>inviteList := inviteList p @ [q]\<rparr>) g;
             g = fold updatePlayerHelpers (memberList (the_party g pid)) g;
             g = updatePlayerHelpers l g;
             g = sendCreatureShield l q g;
             g = sendCreatureShield q l g;
             g = addPartyInvitation q pid g
         in (True, sendTextMessage q
               (pl_name (players g l) @ '' has invited you to '' @ possessive g l @ '' party.'') g)))"

definition clearPartyInvitations :: "nat \<Rightarrow> pgame \<Rightarrow> pgame" where
  "clearPartyInvitations q g =
     (let g = fold (\<lambda>pid g. snd (removeInvite pid q False g)) (invs g q) g
      in upd_player q (\<lambda>x. x\<lparr>invitePartyList := []\<rparr>) g)"

text \<open>\<open>new Party(leader)\<close>; the bonus is not initialised.\<close>

definition newParty :: "nat \<Rightarrow> pgame \<Rightarrow> pgame" where
  "newParty l g =
     setParty l (Some (nextParty g))
       (g\<lparr>parties := (parties g)(nextParty g \<mapsto>
            \<lparr>memberList = [], inviteList = [], leader = Some l, ticksMap = (\<lambda>_. None),
             sharedExpBonus = None, sharedExpActive = False, sharedExpEnabled = False\<rparr>),
          nextParty := nextParty g + 1\<rparr>)"

section \<open>The handlers of the game\<close>

definition getPlayerByID :: "pgame \<Rightarrow> nat \<Rightarrow> nat option" where
  "getPlayerByID g q = (if online g q then Some q else None)"

definition playerInviteToParty :: "nat \<Rightarrow> nat \<Rightarrow> pgame \<Rightarrow> pgame" where
  "playerInviteToParty playerId invitedId g =
     (case getPlayerByID g playerId of None \<Rightarrow> g
      | Some player \<Rightarrow>
         (case getPlayerByID g invitedId of None \<Rightarrow> g
          | Some invited \<Rightarrow>
             if isInviting g invited (Some player) then g
             else if pty g invited \<noteq> None then
               sendTextMessage player (pl_name (players g invited) @ '' is already in a party.'') g
             else
               (case pty g player of
                  None \<Rightarrow> snd (invitePlayer (nextParty g) invited (newParty player g))
                | Some pid \<Rightarrow>
                    if leader (the_party g pid) \<noteq> Some player then g
                    else snd (invitePlayer pid invited g))))"

definition playerJoinParty :: "nat \<Rightarrow> nat \<Rightarrow> pgame \<Rightarrow> pgame" where
  "playerJoinParty playerId leaderId g =
     (case getPlayerByID g playerId of None \<Rightarrow> g
      | Some player \<Rightarrow>
         (case getPlayerByID g leaderId of None \<Rightarrow> g
          | Some l \<Rightarrow>
             if \<not> isInviting g l (Some player) then g
             else
               (case pty g l of None \<Rightarrow> g
                | Some pid \<Rightarrow>
                    if leader (the_party g pid) \<noteq> Some l then g
                    else if pty g player \<noteq> None then sendTextMessage player ''You are already in a party.'' g
                    else snd (joinParty pid player g))))"

definition playerRevokePartyInvitation :: "nat \<Rightarrow> nat \<Rightarrow> pgame \<Rightarrow> pgame" where
  "playerRevokePartyInvitation playerId invitedId g =
     (case getPlayerByID g playerId of None \<Rightarrow> g
      | Some player \<Rightarrow>
         (case pty g player of None \<Rightarrow> g
          | Some pid \<Rightarrow>
             if leader (the_party g pid) \<noteq> Some player then g
             else
               (case getPlayerByID g invitedId of None \<Rightarrow> g
                | Some invited \<Rightarrow>
                    if \<not> isInviting g player (Some invited) then g else revokeInvitation pid invited g)))"

definition playerPassPartyLeadership :: "nat \<Rightarrow> nat \<Rightarrow> pgame \<Rightarrow> pgame" where
  "playerPassPartyLeadership playerId newLeaderId g =
     (case getPlayerByID g playerId of None \<Rightarrow> g
      | Some player \<Rightarrow>
         (case pty g player of None \<Rightarrow> g
          | Some pid \<Rightarrow>
             if leader (the_party g pid) \<noteq> Some player then g
             else
               (case getPlayerByID g newLeaderId of None \<Rightarrow> g
                | Some newLeader \<Rightarrow>
                    if \<not> isPartner g player (Some newLeader) then g
                    else snd (passPartyLeadership pid (Some newLeader) g))))"

definition playerLeaveParty :: "nat \<Rightarrow> pgame \<Rightarrow> pgame" where
  "playerLeaveParty playerId g =
     (case getPlayerByID g playerId of None \<Rightarrow> g
      | Some player \<Rightarrow>
         (case pty g player of None \<Rightarrow> g
          | Some pid \<Rightarrow> if pl_inFight (players g player) then g else snd (leaveParty pid (Some player) g)))"

definition playerEnableSharedPartyExperience :: "nat \<Rightarrow> bool \<Rightarrow> pgame \<Rightarrow> pgame" where
  "playerEnableSharedPartyExperience playerId active g =
     (case getPlayerByID g playerId of None \<Rightarrow> g
      | Some player \<Rightarrow>
         (case pty g player of None \<Rightarrow> g
          | Some pid \<Rightarrow>
             if pl_inFight (players g player) \<and> \<not> pl_inProtectionZone (players g player) then g
             else snd (setSharedExperience pid (Some player) active g)))"

text \<open>The party steps of \<open>Player::onRemoveCreature\<close> when a player logs out.\<close>

definition partyLogout :: "nat \<Rightarrow> pgame \<Rightarrow> pgame" where
  "partyLogout q g =
     (let g = clearPartyInvitations q g
      in case pty g q of None \<Rightarrow> g | Some pid \<Rightarrow> snd (leaveParty pid (Some q) g))"

end
