(* ===== verification/PartyProps.thy ===== *)
theory PartyProps imports Party begin

text \<open>
  The invariant of the party store and the effect of every operation on it: which
  player is in which party, who leads it, and who is invited. The steps that only
  talk to clients are instances of one interface, \<open>quiet_step\<close>.
\<close>

section \<open>Steps that only send\<close>

locale quiet_step =
  fixes f :: "pgame \<Rightarrow> pgame"
  assumes only_notices: "\<exists>ns. f g = g\<lparr>notices := ns\<rparr>"
begin

lemma quiet_players [simp]: "players (f g) = players g"
  using only_notices [of g] by auto

lemma quiet_parties [simp]: "parties (f g) = parties g"
  using only_notices [of g] by auto

lemma quiet_next [simp]: "nextParty (f g) = nextParty g"
  using only_notices [of g] by auto

lemma quiet_online [simp]: "online (f g) = online g"
  using only_notices [of g] by auto

lemma quiet_onDisband [simp]: "onDisband (f g) = onDisband g"
  using only_notices [of g] by auto

lemma quiet_onLeave [simp]: "onLeave (f g) = onLeave g"
  using only_notices [of g] by auto

lemma quiet_onJoin [simp]: "onJoin (f g) = onJoin g"
  using only_notices [of g] by auto

lemma quiet_now [simp]: "now (f g) = now g" "pzLocked (f g) = pzLocked g"
  using only_notices [of g] by auto

lemma quiet_the_party [simp]: "the_party (f g) pid = the_party g pid"
  by (simp add: the_party_def)

lemma quiet_the_leader [simp]: "the_leader (f g) pid = the_leader g pid"
  by (simp add: the_leader_def)

end

lemma quiet_emit: "quiet_step (emit n)"
  by unfold_locales (simp add: emit_def, blast)

text \<open>The same as a relation, so that compositions follow by chaining.\<close>

definition told :: "pgame \<Rightarrow> pgame \<Rightarrow> bool" where
  "told g h \<longleftrightarrow> (\<exists>ns. h = g\<lparr>notices := ns\<rparr>)"

lemma told_refl: "told g g"
  unfolding told_def by (rule exI [of _ "notices g"]) simp

lemma told_quiet: "quiet_step f \<Longrightarrow> told g h \<Longrightarrow> told g (f h)"
  unfolding told_def quiet_step_def by (metis pgame.update_convs(10) pgame.surjective)

lemma told_fold: "(\<And>x h. told g h \<Longrightarrow> told g (f x h)) \<Longrightarrow> told g h \<Longrightarrow> told g (fold f xs h)"
  by (induction xs arbitrary: h) simp_all

lemma quiet_told: "(\<And>g. told g (f g)) \<Longrightarrow> quiet_step f"
  unfolding told_def quiet_step_def by blast

interpretation send_shield: quiet_step "sendCreatureShield to about" for to about
  using quiet_emit unfolding quiet_step_def sendCreatureShield_def by blast

interpretation send_skull: quiet_step "sendCreatureSkull to about" for to about
  unfolding sendCreatureSkull_def by (rule quiet_emit)

interpretation send_icons: quiet_step "sendPlayerPartyIcons to about" for to about
  by (rule quiet_told) (simp add: sendPlayerPartyIcons_def told_refl
      told_quiet send_shield.quiet_step_axioms send_skull.quiet_step_axioms)

interpretation send_text: quiet_step "sendTextMessage to msg" for to msg
  unfolding sendTextMessage_def by (rule quiet_emit)

interpretation send_close: quiet_step "sendClosePrivate to" for to
  unfolding sendClosePrivate_def by (rule quiet_emit)

interpretation send_pshield: quiet_step "updatePlayerShield q" for q
  unfolding updatePlayerShield_def by (rule quiet_emit)

interpretation send_helpers: quiet_step "updatePlayerHelpers q" for q
  unfolding updatePlayerHelpers_def by (rule quiet_emit)

lemmas told_sends =
  told_refl told_quiet [OF send_shield.quiet_step_axioms] told_quiet [OF send_skull.quiet_step_axioms]
  told_quiet [OF send_icons.quiet_step_axioms] told_quiet [OF send_text.quiet_step_axioms]
  told_quiet [OF send_close.quiet_step_axioms] told_quiet [OF send_pshield.quiet_step_axioms]
  told_quiet [OF send_helpers.quiet_step_axioms]

interpretation icons: quiet_step "updateAllPartyIcons pid" for pid
  by (rule quiet_told) (simp add: updateAllPartyIcons_def Let_def told_sends told_fold)

interpretation broadcast: quiet_step "broadcastPartyMessage pid msg inv" for pid msg inv
  by (rule quiet_told) (simp add: broadcastPartyMessage_def Let_def told_sends told_fold)

text \<open>The loops of the handlers that send, in the form the proofs meet them.\<close>

lemma fold_frames [simp]:
  "(\<And>x g. players (f x g) = players g) \<Longrightarrow> players (fold f xs g) = players g"
  "(\<And>x g. parties (f x g) = parties g) \<Longrightarrow> parties (fold f xs g) = parties g"
  "(\<And>x g. nextParty (f x g) = nextParty g) \<Longrightarrow> nextParty (fold f xs g) = nextParty g"
  "(\<And>x g. online (f x g) = online g) \<Longrightarrow> online (fold f xs g) = online g"
  "(\<And>x g. onDisband (f x g) = onDisband g) \<Longrightarrow> onDisband (fold f xs g) = onDisband g"
  "(\<And>x g. onLeave (f x g) = onLeave g) \<Longrightarrow> onLeave (fold f xs g) = onLeave g"
  "(\<And>x g. onJoin (f x g) = onJoin g) \<Longrightarrow> onJoin (fold f xs g) = onJoin g"
  by (induction xs arbitrary: g) simp_all

section \<open>Updates of the store\<close>

lemma upd_party_sel [simp]:
  "parties (upd_party pid f g) = (parties g)(pid := map_option f (parties g pid))"
  "players (upd_party pid f g) = players g"
  by (simp_all add: upd_party_def)

lemma upd_player_sel [simp]:
  "players (upd_player q f g) = (players g)(q := f (players g q))"
  "parties (upd_player q f g) = parties g"
  by (simp_all add: upd_player_def)

lemma setParty_sel [simp]:
  "pty (setParty q x g) r = (if r = q then x else pty g r)"
  "invs (setParty q x g) r = invs g r"
  "parties (setParty q x g) = parties g"
  by (simp_all add: setParty_def)

lemma addPartyInvitation_sel [simp]:
  "pty (addPartyInvitation q pid g) r = pty g r"
  "invs (addPartyInvitation q pid g) r =
     (if r = q \<and> pid \<notin> set (invs g q) then pid # invs g r else invs g r)"
  "parties (addPartyInvitation q pid g) = parties g"
  by (simp_all add: addPartyInvitation_def)

lemma removePartyInvitation_sel [simp]:
  "pty (removePartyInvitation q pid g) r = pty g r"
  "invs (removePartyInvitation q pid g) r =
     (if r = q then removeAll pid (invs g r) else invs g r)"
  "parties (removePartyInvitation q pid g) = parties g"
  by (simp_all add: removePartyInvitation_def)

text \<open>What every operation leaves alone.\<close>

definition same_env :: "pgame \<Rightarrow> pgame \<Rightarrow> bool" where
  "same_env g h \<longleftrightarrow> nextParty h = nextParty g \<and> online h = online g \<and>
     onDisband h = onDisband g \<and> onLeave h = onLeave g \<and> onJoin h = onJoin g"

lemma env_upd [simp]:
  "nextParty (upd_party pid f g) = nextParty g" "online (upd_party pid f g) = online g"
  "onDisband (upd_party pid f g) = onDisband g" "onLeave (upd_party pid f g) = onLeave g"
  "onJoin (upd_party pid f g) = onJoin g"
  "nextParty (upd_player q k g) = nextParty g" "online (upd_player q k g) = online g"
  "onDisband (upd_player q k g) = onDisband g" "onLeave (upd_player q k g) = onLeave g"
  "onJoin (upd_player q k g) = onJoin g"
  by (simp_all add: upd_party_def upd_player_def)

lemma env_player_ops [simp]:
  "nextParty (setParty q x g) = nextParty g" "online (setParty q x g) = online g"
  "onDisband (setParty q x g) = onDisband g" "onLeave (setParty q x g) = onLeave g"
  "onJoin (setParty q x g) = onJoin g"
  "nextParty (addPartyInvitation q pid g) = nextParty g" "online (addPartyInvitation q pid g) = online g"
  "onDisband (addPartyInvitation q pid g) = onDisband g" "onLeave (addPartyInvitation q pid g) = onLeave g"
  "onJoin (addPartyInvitation q pid g) = onJoin g"
  "nextParty (removePartyInvitation q pid g) = nextParty g" "online (removePartyInvitation q pid g) = online g"
  "onDisband (removePartyInvitation q pid g) = onDisband g" "onLeave (removePartyInvitation q pid g) = onLeave g"
  "onJoin (removePartyInvitation q pid g) = onJoin g"
  by (simp_all add: setParty_def addPartyInvitation_def removePartyInvitation_def)

text \<open>
  The shared experience updates change flags of the party only: \<open>newFlags\<close> stands for
  whatever they compute.
\<close>

definition shape :: "pgame \<Rightarrow> nat \<Rightarrow> (nat option \<times> nat list \<times> nat list) option" where
  "shape g pid = map_option (\<lambda>p. (leader p, memberList p, inviteList p)) (parties g pid)"

definition same_core :: "pgame \<Rightarrow> pgame \<Rightarrow> bool" where
  "same_core g h \<longleftrightarrow> players h = players g \<and> shape h = shape g \<and> same_env g h"

lemma same_core_refl [simp]: "same_core g g"
  by (simp add: same_core_def same_env_def)

lemma same_core_trans: "same_core g h \<Longrightarrow> same_core h k \<Longrightarrow> same_core g k"
  by (simp add: same_core_def same_env_def)

lemma core_quiet: "quiet_step f \<Longrightarrow> same_core g h \<Longrightarrow> same_core g (f h)"
proof -
  assume "quiet_step f" "same_core g h"
  moreover from this obtain ns where "f h = h\<lparr>notices := ns\<rparr>"
    unfolding quiet_step_def by blast
  ultimately show ?thesis by (simp add: same_core_def same_env_def shape_def fun_eq_iff)
qed

lemmas core_sends = core_quiet [OF icons.quiet_step_axioms] core_quiet [OF send_text.quiet_step_axioms]
  core_quiet [OF broadcast.quiet_step_axioms] core_quiet [OF send_icons.quiet_step_axioms]

lemma core_flags:
  "same_core g h \<Longrightarrow>
   (\<And>p. leader (f p) = leader p \<and> memberList (f p) = memberList p \<and> inviteList (f p) = inviteList p) \<Longrightarrow>
   same_core g (upd_party pid f h)"
proof -
  assume c: "same_core g h"
    and f: "\<And>p. leader (f p) = leader p \<and> memberList (f p) = memberList p \<and> inviteList (f p) = inviteList p"
  have "shape (upd_party pid f h) = shape h"
    using f by (simp add: shape_def fun_eq_iff option.map_comp comp_def)
  with c show ?thesis by (simp add: same_core_def same_env_def)
qed

lemma core_updateSharedExperience: "same_core g h \<Longrightarrow> same_core g (updateSharedExperience pid h)"
  by (simp add: updateSharedExperience_def Let_def core_sends core_flags)

lemma core_updateSharedExperienceBonus: "same_core g h \<Longrightarrow> same_core g (updateSharedExperienceBonus pid h)"
  by (simp add: updateSharedExperienceBonus_def Let_def core_flags)

lemma core_clearPlayerPoints: "same_core g h \<Longrightarrow> same_core g (clearPlayerPoints pid q h)"
  by (simp add: clearPlayerPoints_def core_updateSharedExperience core_flags split: option.split)

lemma core_updatePlayerTicks: "same_core g h \<Longrightarrow> same_core g (updatePlayerTicks pid q n h)"
  by (simp add: updatePlayerTicks_def core_updateSharedExperience core_flags)

lemma core_setSharedExperience: "same_core g h \<Longrightarrow> same_core g (snd (setSharedExperience pid player active h))"
  by (simp add: setSharedExperience_def Let_def core_sends core_flags)

section \<open>The core of the store\<close>

text \<open>
  Who belongs to what: the shapes of the parties, the party and the invitations of every
  player, and the environment. The handlers are followed on this projection.
\<close>

definition env :: "pgame \<Rightarrow> nat \<times> (nat \<Rightarrow> bool) \<times> (nat \<Rightarrow> bool) \<times> (nat \<Rightarrow> nat \<Rightarrow> bool) \<times> (nat \<Rightarrow> nat \<Rightarrow> bool)" where
  "env g = (nextParty g, online g, onDisband g, onLeave g, onJoin g)"

definition core where
  "core g = (shape g, (\<lambda>q. pty g q), (\<lambda>q. invs g q), env g)"

lemma core_same_core: "same_core g h \<Longrightarrow> core h = core g"
  by (simp add: same_core_def same_env_def core_def env_def)

lemma core_of_quiet: "quiet_step f \<Longrightarrow> core (f g) = core g"
  by (rule core_same_core) (simp add: core_quiet)

lemmas core_frames [simp] =
  core_of_quiet [OF send_shield.quiet_step_axioms] core_of_quiet [OF send_skull.quiet_step_axioms]
  core_of_quiet [OF send_icons.quiet_step_axioms] core_of_quiet [OF send_text.quiet_step_axioms]
  core_of_quiet [OF send_close.quiet_step_axioms] core_of_quiet [OF send_pshield.quiet_step_axioms]
  core_of_quiet [OF send_helpers.quiet_step_axioms] core_of_quiet [OF icons.quiet_step_axioms]
  core_of_quiet [OF broadcast.quiet_step_axioms]
  core_same_core [OF core_updateSharedExperience [OF same_core_refl]]
  core_same_core [OF core_updateSharedExperienceBonus [OF same_core_refl]]
  core_same_core [OF core_clearPlayerPoints [OF same_core_refl]]
  core_same_core [OF core_updatePlayerTicks [OF same_core_refl]]
  core_same_core [OF core_setSharedExperience [OF same_core_refl]]

lemma core_fold [simp]: "(\<And>x g. core (f x g) = core g) \<Longrightarrow> core (fold f xs g) = core g"
  by (induction xs arbitrary: g) simp_all

text \<open>The steps that change the core.\<close>

fun on_members :: "(nat list \<Rightarrow> nat list) \<Rightarrow> (nat option \<times> nat list \<times> nat list) option \<Rightarrow> (nat option \<times> nat list \<times> nat list) option" where
  "on_members f None = None"
| "on_members f (Some (l, ms, is)) = Some (l, f ms, is)"

fun on_invited :: "(nat list \<Rightarrow> nat list) \<Rightarrow> (nat option \<times> nat list \<times> nat list) option \<Rightarrow> (nat option \<times> nat list \<times> nat list) option" where
  "on_invited f None = None"
| "on_invited f (Some (l, ms, is)) = Some (l, ms, f is)"

fun on_leader :: "nat option \<Rightarrow> (nat option \<times> nat list \<times> nat list) option \<Rightarrow> (nat option \<times> nat list \<times> nat list) option" where
  "on_leader x None = None"
| "on_leader x (Some (l, ms, is)) = Some (x, ms, is)"

lemma core_members [simp]:
  "core (upd_party pid (\<lambda>p. p\<lparr>memberList := f (memberList p)\<rparr>) g) =
     (case core g of (S, P, I, E) \<Rightarrow> (S(pid := on_members f (S pid)), P, I, E))"
  by (cases "parties g pid") (simp_all add: core_def shape_def env_def fun_eq_iff)

lemma core_invited [simp]:
  "core (upd_party pid (\<lambda>p. p\<lparr>inviteList := f (inviteList p)\<rparr>) g) =
     (case core g of (S, P, I, E) \<Rightarrow> (S(pid := on_invited f (S pid)), P, I, E))"
  by (cases "parties g pid") (simp_all add: core_def shape_def env_def fun_eq_iff)

lemmas core_member_joins [simp] = core_members [where f = "\<lambda>ms. ms @ [q]" for q]
lemmas core_invite_added [simp] = core_invited [where f = "\<lambda>is. is @ [q]" for q]
lemmas core_no_invites [simp] = core_invited [where f = "\<lambda>is. []"]

lemma core_leader [simp]:
  "core (upd_party pid (\<lambda>p. p\<lparr>leader := x\<rparr>) g) =
     (case core g of (S, P, I, E) \<Rightarrow> (S(pid := on_leader x (S pid)), P, I, E))"
  by (cases "parties g pid") (simp_all add: core_def shape_def env_def fun_eq_iff)

lemma core_setParty [simp]:
  "core (setParty q x g) = (case core g of (S, P, I, E) \<Rightarrow> (S, P(q := x), I, E))"
  by (simp add: core_def shape_def env_def fun_eq_iff)

lemma core_addPartyInvitation [simp]:
  "core (addPartyInvitation q pid g) = (case core g of (S, P, I, E) \<Rightarrow>
     (S, P, I(q := (if pid \<in> set (I q) then I q else pid # I q)), E))"
  by (simp add: core_def shape_def env_def fun_eq_iff)

lemma core_removePartyInvitation [simp]:
  "core (removePartyInvitation q pid g) = (case core g of (S, P, I, E) \<Rightarrow>
     (S, P, I(q := removeAll pid (I q)), E))"
  by (simp add: core_def shape_def env_def fun_eq_iff)

lemma core_delete [simp]:
  "core (delete_party pid g) = (case core g of (S, P, I, E) \<Rightarrow>
     (S(pid := None), P, I, E))"
  by (simp add: delete_party_def core_def shape_def env_def fun_eq_iff)

lemma core_clear_invitations [simp]:
  "core (upd_player q (\<lambda>x. x\<lparr>invitePartyList := []\<rparr>) g) = (case core g of (S, P, I, E) \<Rightarrow>
     (S, P, I(q := []), E))"
  by (simp add: core_def shape_def env_def fun_eq_iff)

text \<open>Reading the store through its core.\<close>

lemma core_sel:
  assumes "core g = (S, P, I, n, on, dis, lv, jn)"
  shows "shape g = S" "pty g q = P q" "invs g q = I q" "nextParty g = n"
    "online g = on" "onDisband g = dis" "onLeave g = lv" "onJoin g = jn"
  using assms by (auto simp: core_def env_def)

lemma shape_sel:
  assumes "shape g pid = Some (l, ms, is)"
  shows "leader (the_party g pid) = l" "memberList (the_party g pid) = ms"
    "inviteList (the_party g pid) = is" "the_leader g pid = the l"
    "empty_party g pid \<longleftrightarrow> ms = [] \<and> is = []"
    "isPlayerInvited g pid q \<longleftrightarrow> q \<in> set is"
  using assms by (auto simp: shape_def the_party_def the_leader_def empty_party_def isPlayerInvited_def)

section \<open>The operations on the core\<close>

lemma core_withdraw_all:
  "core (fold (\<lambda>i g. sendCreatureShield cl i (removePartyInvitation i pid g)) xs g) =
     (case core g of (S, P, I, E) \<Rightarrow>
        (S, P, (\<lambda>q. if q \<in> set xs then removeAll pid (I q) else I q), E))"
  by (induction xs arbitrary: g) (auto simp: fun_eq_iff split: prod.split)

lemma core_expel_all:
  "core (fold (\<lambda>m g. sendTextMessage m msg (sendClosePrivate m (setParty m None g))) xs g) =
     (case core g of (S, P, I, E) \<Rightarrow> (S, (\<lambda>q. if q \<in> set xs then None else P q), I, E))"
  by (induction xs arbitrary: g) (auto simp: fun_eq_iff split: prod.split)

text \<open>The core after a party is gone.\<close>

definition without_party where
  "without_party pid l ms is S P I E =
     (S(pid := None), (\<lambda>q. if q = l \<or> q \<in> set ms then None else P q),
      (\<lambda>q. if q \<in> set is then removeAll pid (I q) else I q), E)"

lemma core_disband:
  assumes "core g = (S, P, I, n, on, dis, lv, jn)" and "S pid = Some (Some l, ms, is)" and "dis pid"
  shows "core (disband pid g) = without_party pid l ms is S P I (n, on, dis, lv, jn)"
proof -
  note sel = core_sel [OF assms(1)]
  have sh: "shape g pid = Some (Some l, ms, is)" using sel assms(2) by simp
  show ?thesis
    using assms(3)
    by (simp add: disband_def Let_def sel shape_sel [OF sh] core_withdraw_all core_expel_all
        assms(1,2) without_party_def) (auto simp: fun_eq_iff)
qed

lemma core_pass:
  assumes "core g = (S, P, I, n, on, dis, lv, jn)" and "S pid = Some (Some l, ms, is)"
    and "l \<noteq> q" and "P q = Some pid"
  shows "core (snd (passPartyLeadership pid (Some q) g)) =
    (S(pid \<mapsto> (Some q, l # erase_first q ms, is)), P, I, n, on, dis, lv, jn)"
proof -
  note sel = core_sel [OF assms(1)]
  have sh: "shape g pid = Some (Some l, ms, is)" using sel assms(2) by simp
  let ?g1 = "upd_party pid (\<lambda>p. p\<lparr>memberList := erase_first q (memberList p)\<rparr>) g"
  have "core ?g1 = (S(pid \<mapsto> (Some l, erase_first q ms, is)), P, I, n, on, dis, lv, jn)"
    using assms(1,2) by simp
  then have "shape ?g1 pid = Some (Some l, erase_first q ms, is)"
    using core_sel(1) by fastforce
  then have l: "the_leader ?g1 pid = l" by (simp add: shape_sel)
  show ?thesis
    using assms(3,4)
    by (simp add: passPartyLeadership_def Let_def sel shape_sel [OF sh] assms(1,2) l del: upd_party_sel)
qed

lemma core_join:
  assumes "core g = (S, P, I, n, on, dis, lv, jn)" and "S pid = Some (Some l, ms, is)"
    and "q \<in> set is" and "jn pid q"
  shows "core (snd (joinParty pid q g)) =
    (S(pid \<mapsto> (Some l, ms @ [q], erase_first q is)), P(q \<mapsto> pid), I(q := removeAll pid (I q)),
     n, on, dis, lv, jn)"
proof -
  note sel = core_sel [OF assms(1)]
  have sh: "shape g pid = Some (Some l, ms, is)" using sel assms(2) by simp
  show ?thesis
    using assms(3,4) by (simp add: joinParty_def Let_def sel shape_sel [OF sh] assms(1,2))
qed

lemma core_invite:
  assumes "core g = (S, P, I, n, on, dis, lv, jn)" and "S pid = Some (Some l, ms, is)"
    and "q \<notin> set is" and "pid \<notin> set (I q)"
  shows "core (snd (invitePlayer pid q g)) =
    (S(pid \<mapsto> (Some l, ms, is @ [q])), P, I(q := pid # I q), n, on, dis, lv, jn)"
proof -
  note sel = core_sel [OF assms(1)]
  have sh: "shape g pid = Some (Some l, ms, is)" using sel assms(2) by simp
  show ?thesis
    using assms(3,4) by (simp add: invitePlayer_def Let_def sel shape_sel [OF sh] assms(1,2) split_def)
qed

lemma core_newParty:
  assumes "core g = (S, P, I, n, on, dis, lv, jn)"
  shows "core (newParty l g) = (S(n \<mapsto> (Some l, [], [])), P(l \<mapsto> n), I, n + 1, on, dis, lv, jn)"
  using assms by (auto simp: newParty_def core_def shape_def env_def fun_eq_iff)

section \<open>The invariant\<close>

text \<open>
  A player points to a party exactly when the party has it as leader or member, a
  party stands in a player's list of invitations exactly when the party has invited the
  player, and a party has a leader who is not among its members, no repetitions, an
  address below the next free one and, unless it is in \<open>ex\<close>, a member or an invitation.
\<close>

type_synonym party_shape = "nat option \<times> nat list \<times> nat list"

definition belongs :: "party_shape option \<Rightarrow> nat \<Rightarrow> bool" where
  "belongs s q = (case s of None \<Rightarrow> False | Some (lo, ms, is) \<Rightarrow> lo = Some q \<or> q \<in> set ms)"

definition invited :: "party_shape option \<Rightarrow> nat \<Rightarrow> bool" where
  "invited s q = (case s of None \<Rightarrow> False | Some (lo, ms, is) \<Rightarrow> q \<in> set is)"

definition party_wf :: "party_shape option \<Rightarrow> bool" where
  "party_wf s = (case s of None \<Rightarrow> True | Some (lo, ms, is) \<Rightarrow>
     (case lo of None \<Rightarrow> False | Some l \<Rightarrow> l \<notin> set ms) \<and> distinct ms \<and> distinct is)"

definition deserted :: "party_shape option \<Rightarrow> bool" where
  "deserted s = (case s of None \<Rightarrow> False | Some (lo, ms, is) \<Rightarrow> ms = [] \<and> is = [])"

lemmas shape_preds = belongs_def invited_def party_wf_def deserted_def

definition core_ok :: "nat set \<Rightarrow> (nat \<Rightarrow> party_shape option) \<Rightarrow> (nat \<Rightarrow> nat option) \<Rightarrow> (nat \<Rightarrow> nat list) \<Rightarrow> nat \<Rightarrow> bool" where
  "core_ok ex S P I n \<longleftrightarrow>
     (\<forall>q pid. P q = Some pid \<longleftrightarrow> belongs (S pid) q) \<and>
     (\<forall>q pid. pid \<in> set (I q) \<longleftrightarrow> invited (S pid) q) \<and>
     (\<forall>q. distinct (I q)) \<and>
     (\<forall>pid. party_wf (S pid)) \<and>
     (\<forall>pid. S pid \<noteq> None \<longrightarrow> pid < n) \<and>
     (\<forall>pid. pid \<notin> ex \<longrightarrow> \<not> deserted (S pid))"

lemma core_okD:
  assumes "core_ok ex S P I n"
  shows "P q = Some pid \<longleftrightarrow> belongs (S pid) q" "pid \<in> set (I q) \<longleftrightarrow> invited (S pid) q"
    "distinct (I q)" "party_wf (S pid)" "S pid \<noteq> None \<Longrightarrow> pid < n"
    "pid \<notin> ex \<Longrightarrow> \<not> deserted (S pid)"
  using assms unfolding core_ok_def by blast+

text \<open>
  Replacing one party: what has to be shown is about that party and the pointers to it.
\<close>

lemma core_ok_update:
  assumes "core_ok ex S P I n"
    and "\<And>q p. P' q = Some p \<longleftrightarrow> (if p = pid then belongs s q else P q = Some p)"
    and "\<And>q p. p \<in> set (I' q) \<longleftrightarrow> (if p = pid then invited s q else p \<in> set (I q))"
    and "\<And>q. distinct (I' q)" and "party_wf s" and "s \<noteq> None \<Longrightarrow> pid < n'" and "n \<le> n'"
    and "ex - {pid} \<subseteq> ex'" and "pid \<notin> ex' \<Longrightarrow> \<not> deserted s"
  shows "core_ok ex' (S(pid := s)) P' I' n'"
proof -
  note ok = core_okD [OF assms(1)]
  have "P' q = Some p \<longleftrightarrow> belongs ((S(pid := s)) p) q" for q p
    using assms(2) ok(1) by simp
  moreover have "p \<in> set (I' q) \<longleftrightarrow> invited ((S(pid := s)) p) q" for q p
    using assms(3) ok(2) by simp
  moreover have "party_wf ((S(pid := s)) p)" for p
    using assms(5) ok(4) by simp
  moreover have "(S(pid := s)) p \<noteq> None \<Longrightarrow> p < n'" for p
    using assms(6,7) ok(5) [of p] by (cases "p = pid") auto
  moreover have "p \<notin> ex' \<Longrightarrow> \<not> deserted ((S(pid := s)) p)" for p
    using assms(8,9) ok(6) [of p] by (cases "p = pid") auto
  ultimately show ?thesis using assms(4) unfolding core_ok_def by blast
qed

lemma core_ok_settle:
  "core_ok {pid} S P I n \<Longrightarrow> \<not> deserted (S pid) \<Longrightarrow> core_ok {} S P I n"
  unfolding core_ok_def by (metis empty_iff singletonD)

text \<open>What the invariant says of one party.\<close>

lemma core_ok_at:
  assumes "core_ok ex S P I n" "S pid = Some (Some l, ms, is)"
  shows "l \<notin> set ms" "distinct ms" "distinct is" "pid < n" "distinct (I r)"
    "P r = Some pid \<longleftrightarrow> r = l \<or> r \<in> set ms" "pid \<in> set (I r) \<longleftrightarrow> r \<in> set is"
    "P l = Some pid" "r \<in> set ms \<Longrightarrow> P r = Some pid" "r \<in> set is \<Longrightarrow> pid \<in> set (I r)"
    "P l = Some p \<longleftrightarrow> p = pid" "r \<in> set ms \<Longrightarrow> P r = Some p \<longleftrightarrow> p = pid"
proof -
  note ok = core_okD [OF assms(1)]
  have "party_wf (Some (Some l, ms, is))" using ok(4) assms(2) by metis
  then show "l \<notin> set ms" "distinct ms" "distinct is" by (simp_all add: shape_preds)
  show "pid < n" "distinct (I r)" using ok(3,5) assms(2) by blast+
  have "P r = Some pid \<longleftrightarrow> belongs (Some (Some l, ms, is)) r"
    "pid \<in> set (I r) \<longleftrightarrow> invited (Some (Some l, ms, is)) r" for r
    using ok(1,2) assms(2) by metis+
  then have b: "P r = Some pid \<longleftrightarrow> r = l \<or> r \<in> set ms" "pid \<in> set (I r) \<longleftrightarrow> r \<in> set is" for r
    by (auto simp: shape_preds)
  then show "P r = Some pid \<longleftrightarrow> r = l \<or> r \<in> set ms" "pid \<in> set (I r) \<longleftrightarrow> r \<in> set is"
    "P l = Some pid" "r \<in> set ms \<Longrightarrow> P r = Some pid" "r \<in> set is \<Longrightarrow> pid \<in> set (I r)"
    by auto
  show "P l = Some p \<longleftrightarrow> p = pid" "r \<in> set ms \<Longrightarrow> P r = Some p \<longleftrightarrow> p = pid"
    using b(1) [of l] b(1) [of r] by auto
qed

lemma ok_withdraw:
  assumes "core_ok {} S P I n" "S pid = Some (Some l, ms, is)"
  shows "core_ok {pid} (S(pid \<mapsto> (Some l, ms, erase_first q is))) P (I(q := removeAll pid (I q))) n"
  using core_ok_at [OF assms]
  by (intro core_ok_update [OF assms(1)]) (auto simp: shape_preds distinct_removeAll)

lemma ok_gone:
  assumes "core_ok {pid} S P I n" "S pid = Some (Some l, ms, is)"
  shows "core_ok {} (S(pid := None)) (\<lambda>q. if q = l \<or> q \<in> set ms then None else P q)
    (\<lambda>q. if q \<in> set is then removeAll pid (I q) else I q) n"
  using core_ok_at [OF assms]
  by (intro core_ok_update [OF assms(1)]) (auto simp: shape_preds distinct_removeAll)

lemma ok_join:
  assumes "core_ok {} S P I n" "S pid = Some (Some l, ms, is)" "q \<in> set is" "P q = None"
  shows "core_ok {} (S(pid \<mapsto> (Some l, ms @ [q], erase_first q is))) (P(q \<mapsto> pid))
    (I(q := removeAll pid (I q))) n"
proof -
  have "q \<noteq> l" "q \<notin> set ms" using core_ok_at(8,9) [OF assms(1,2)] assms(4) by force+
  then show ?thesis using core_ok_at [OF assms(1,2)] assms(3,4)
    by (intro core_ok_update [OF assms(1)]) (auto simp: shape_preds distinct_removeAll)
qed

lemma ok_invite:
  assumes "core_ok {pid} S P I n" "S pid = Some (Some l, ms, is)" "q \<notin> set is"
  shows "core_ok {} (S(pid \<mapsto> (Some l, ms, is @ [q]))) P (I(q := pid # I q)) n"
  using core_ok_at [OF assms(1,2)] assms(3)
  by (intro core_ok_update [OF assms(1)]) (auto simp: shape_preds)

lemma ok_new:
  assumes "core_ok {} S P I n" "P l = None"
  shows "core_ok {n} (S(n \<mapsto> (Some l, [], []))) (P(l \<mapsto> n)) I (n + 1)"
proof -
  note ok = core_okD [OF assms(1)]
  have "S n = None" using ok(5) [of n] by blast
  then have "P r \<noteq> Some n" "n \<notin> set (I r)" for r
    using ok(1,2) by (simp_all add: shape_preds)
  then show ?thesis using ok(3) assms(2)
    by (intro core_ok_update [OF assms(1)]) (auto simp: shape_preds)
qed

lemma ok_pass:
  assumes "core_ok {} S P I n" "S pid = Some (Some l, ms, is)" "q \<in> set ms"
  shows "core_ok {} (S(pid \<mapsto> (Some q, l # erase_first q ms, is))) P I n"
  using core_ok_at [OF assms(1,2)] assms(3)
  by (intro core_ok_update [OF assms(1)]) (auto simp: shape_preds)

lemma ok_member_leaves:
  assumes "core_ok {} S P I n" "S pid = Some (Some l, ms, is)" "q \<in> set ms"
  shows "core_ok {pid} (S(pid \<mapsto> (Some l, erase_first q ms, is))) (P(q := None)) I n"
  using core_ok_at [OF assms(1,2)] assms(3)
  by (intro core_ok_update [OF assms(1)]) (auto simp: shape_preds)

section \<open>Leaving and withdrawing\<close>

lemma empty_core: "fst (core g) pid \<noteq> None \<Longrightarrow> empty_party g pid \<longleftrightarrow> deserted (fst (core g) pid)"
  by (auto simp: core_def shape_def empty_party_def deserted_def the_party_def)

text \<open>The part of \<open>leaveParty\<close> after the leadership is settled.\<close>

definition leave_rest :: "nat \<Rightarrow> nat \<Rightarrow> pgame \<Rightarrow> pgame" where
  "leave_rest pid q g =
     (let g = upd_party pid (\<lambda>p. p\<lparr>memberList := erase_first q (memberList p)\<rparr>) g;
          g = setParty q None g;
          g = sendClosePrivate q g;
          g = updatePlayerShield q g;
          g = updatePlayerHelpers q g;
          g = fold (\<lambda>m g. updatePlayerHelpers m (sendPlayerPartyIcons q m (sendCreatureSkull m q g)))
                (memberList (the_party g pid)) g;
          l = the_leader g pid;
          g = sendCreatureSkull l q g;
          g = sendCreatureSkull q q g;
          g = sendPlayerPartyIcons q l g;
          g = sendTextMessage q ''You have left the party.'' g;
          g = updateSharedExperience pid g;
          g = updateSharedExperienceBonus pid g;
          g = clearPlayerPoints pid q g
      in broadcastPartyMessage pid (pl_name (players g q) @ '' has left the party.'') False g)"

lemma core_leave_rest:
  "core (leave_rest pid q g) =
     (case core g of (S, P, I, E) \<Rightarrow> (S(pid := on_members (erase_first q) (S pid)), P(q := None), I, E))"
  by (simp add: leave_rest_def Let_def split: prod.split)

lemma leaveParty_rest:
  "leaveParty pid (Some q) g =
     (if pty g q \<noteq> Some pid \<and> leader (the_party g pid) \<noteq> Some q then (False, g)
      else if \<not> onLeave g pid q then (False, g)
      else
        (let p = the_party g pid;
             (missingLeader, g) =
               (if leader p = Some q then
                  if memberList p \<noteq> [] then
                    if length (memberList p) = 1 \<and> inviteList p = [] then (True, g)
                    else (False, snd (passPartyLeadership pid (Some (hd (memberList p))) g))
                  else (True, g)
                else (False, g));
             g = leave_rest pid q g
         in (True, if missingLeader \<or> empty_party g pid then disband pid g else g)))"
  by (simp add: leaveParty_def leave_rest_def Let_def split_def)

lemma core_after_leave:
  assumes "core g = (S, P, I, n, on, dis, lv, jn)" and "S pid = Some (Some l, ms, is)" and "dis pid"
  shows "core (let h = leave_rest pid q g in if missing \<or> empty_party h pid then disband pid h else h) =
    (if missing \<or> (erase_first q ms = [] \<and> is = [])
     then without_party pid l (erase_first q ms) is S (P(q := None)) I (n, on, dis, lv, jn)
     else (S(pid \<mapsto> (Some l, erase_first q ms, is)), P(q := None), I, n, on, dis, lv, jn))"
proof -
  have c: "core (leave_rest pid q g) = (S(pid \<mapsto> (Some l, erase_first q ms, is)), P(q := None), I, n, on, dis, lv, jn)"
    using assms(1,2) by (simp add: core_leave_rest)
  then have "empty_party (leave_rest pid q g) pid \<longleftrightarrow> erase_first q ms = [] \<and> is = []"
    by (simp add: empty_core deserted_def)
  with core_disband [OF c] assms(3) c show ?thesis
    by (simp add: Let_def without_party_def)
qed

lemma core_leave:
  assumes c: "core g = (S, P, I, n, on, dis, lv, jn)" and ok: "core_ok {} S P I n"
    and S: "S pid = Some (Some l, ms, is)" and q: "P q = Some pid" and ev: "lv pid q" "dis pid"
  shows "core (snd (leaveParty pid (Some q) g)) =
    (if q = l then
       if ms = [] \<or> (length ms = 1 \<and> is = []) then without_party pid l ms is S P I (n, on, dis, lv, jn)
       else (S(pid \<mapsto> (Some (hd ms), tl ms, is)), P(q := None), I, n, on, dis, lv, jn)
     else if erase_first q ms = [] \<and> is = [] then without_party pid l ms is S P I (n, on, dis, lv, jn)
     else (S(pid \<mapsto> (Some l, erase_first q ms, is)), P(q := None), I, n, on, dis, lv, jn))"
proof -
  note sel = core_sel [OF c]
  note at = core_ok_at [OF ok S]
  have sh: "shape g pid = Some (Some l, ms, is)" using sel S by simp
  let ?fin = "\<lambda>missing g. let h = leave_rest pid q g in if missing \<or> empty_party h pid then disband pid h else h"
  show ?thesis
  proof (cases "q = l")
    case False
    then have m: "q \<in> set ms" using at(6) q by blast
    have "snd (leaveParty pid (Some q) g) = ?fin False g"
      using False q ev by (simp add: leaveParty_rest sel shape_sel [OF sh] Let_def)
    moreover have "erase_first q ms = [] \<Longrightarrow> ms = [q]"
      using m by (cases ms) (auto split: if_splits)
    ultimately show ?thesis
      using False core_after_leave [OF c S ev(2), of q False]
      by (auto simp: without_party_def fun_eq_iff)
  next
    case True
    have nm: "erase_first l ms = ms" using at(1) by simp
    show ?thesis
    proof (cases "ms = [] \<or> (length ms = 1 \<and> is = [])")
      case gone: True
      have "snd (leaveParty pid (Some q) g) = ?fin True g"
        using True gone ev by (auto simp: leaveParty_rest sel shape_sel [OF sh] Let_def)
      then show ?thesis
        using True gone core_after_leave [OF c S ev(2), of q True]
        by (simp add: nm without_party_def) (auto simp: fun_eq_iff)
    next
      case stays: False
      then obtain h t where ms: "ms = h # t" by (cases ms) auto
      let ?g1 = "snd (passPartyLeadership pid (Some h) g)"
      have "l \<noteq> h" "P h = Some pid" using at(1,9) ms by auto
      from core_pass [OF c S this]
      have c1: "core ?g1 = (S(pid \<mapsto> (Some h, l # t, is)), P, I, n, on, dis, lv, jn)"
        by (simp add: ms)
      have "snd (leaveParty pid (Some q) g) = ?fin False ?g1"
        using True stays ev by (auto simp: leaveParty_rest sel shape_sel [OF sh] Let_def ms)
      then show ?thesis
        using True stays core_after_leave [OF c1 _ ev(2), of h "l # t" "is" q False]
        by (auto simp: ms)
    qed
  qed
qed

lemma core_removeInvite:
  assumes c: "core g = (S, P, I, n, on, dis, lv, jn)" and S: "S pid = Some (Some l, ms, is)"
    and q: "q \<in> set is" and d: "dis pid"
  shows "core (snd (removeInvite pid q rfp g)) =
    (let is' = erase_first q is; I' = (if rfp then I(q := removeAll pid (I q)) else I)
     in if ms = [] \<and> is' = [] then without_party pid l ms is' S P I' (n, on, dis, lv, jn)
        else (S(pid \<mapsto> (Some l, ms, is')), P, I', n, on, dis, lv, jn))"
proof -
  note sel = core_sel [OF c]
  have sh: "shape g pid = Some (Some l, ms, is)" using sel S by simp
  let ?is = "erase_first q is" and ?I = "if rfp then I(q := removeAll pid (I q)) else I"
  let ?g1 = "upd_party pid (\<lambda>p. p\<lparr>inviteList := erase_first q (inviteList p)\<rparr>) g"
  let ?l = "the_leader ?g1 pid"
  let ?g2 = "sendCreatureShield q ?l (sendCreatureShield ?l q ?g1)"
  let ?g3 = "if rfp then removePartyInvitation q pid ?g2 else ?g2"
  have c3: "core ?g3 = (S(pid \<mapsto> (Some l, ms, ?is)), P, ?I, n, on, dis, lv, jn)"
    using c S by simp
  then have e: "empty_party ?g3 pid \<longleftrightarrow> ms = [] \<and> ?is = []"
    by (simp add: empty_core deserted_def)
  have "snd (removeInvite pid q rfp g) =
      (if empty_party ?g3 pid then disband pid ?g3
       else updatePlayerHelpers (the_leader ?g1 pid) (fold updatePlayerHelpers (memberList (the_party ?g3 pid)) ?g3))"
    unfolding removeInvite_def Let_def using q by (simp add: shape_sel [OF sh])
  then show ?thesis
    using core_disband [OF c3, of pid l ms ?is] d c3
    by (simp add: e Let_def without_party_def)
qed

section \<open>Every handler keeps the invariant\<close>

text \<open>The invariant of the store, for scripts that never refuse to disband a party.\<close>

definition pinv :: "pgame \<Rightarrow> bool" where
  "pinv g \<longleftrightarrow> core_ok {} (shape g) (\<lambda>q. pty g q) (\<lambda>q. invs g q) (nextParty g) \<and> (\<forall>pid. onDisband g pid)"

lemma pinv_core: "core g = (S, P, I, n, on, dis, lv, jn) \<Longrightarrow> pinv g \<longleftrightarrow> core_ok {} S P I n \<and> (\<forall>pid. dis pid)"
  by (simp add: pinv_def core_sel)

lemma pinv_same: "core h = core g \<Longrightarrow> pinv g \<Longrightarrow> pinv h"
  by (simp add: pinv_def core_def env_def)

lemma pinvE:
  assumes "pinv g"
  obtains S P I n on dis lv jn where "core g = (S, P, I, n, on, dis, lv, jn)" "core_ok {} S P I n"
    "\<forall>pid. dis pid"
proof -
  obtain S P I n on dis lv jn where c: "core g = (S, P, I, n, on, dis, lv, jn)"
    by (metis prod.exhaust)
  show ?thesis using that [OF c] assms by (simp add: pinv_core [OF c])
qed

lemma leader_some:
  assumes "core_ok ex S P I n" "S pid = Some s"
  obtains l ms iv where "S pid = Some (Some l, ms, iv)"
proof -
  obtain lo ms iv where s: "s = (lo, ms, iv)" by (cases s)
  have "party_wf (Some s)" using core_okD(4) [OF assms(1)] assms(2) by metis
  then obtain l where "lo = Some l" by (auto simp: party_wf_def s split: option.splits)
  with that s assms(2) show ?thesis by blast
qed

text \<open>A player's party exists and has a leader.\<close>

lemma party_of_player:
  assumes "core_ok ex S P I n" "P q = Some pid"
  obtains l ms iv where "S pid = Some (Some l, ms, iv)" "q = l \<or> q \<in> set ms"
proof -
  have "belongs (S pid) q" using core_okD(1) [OF assms(1)] assms(2) by blast
  then obtain s where "S pid = Some s" by (auto simp: belongs_def split: option.splits)
  then obtain l ms iv where S: "S pid = Some (Some l, ms, iv)" using leader_some [OF assms(1)] by metis
  with core_ok_at(6) [OF assms(1) S] assms(2) that show ?thesis by blast
qed

text \<open>Every handler leaves the store as it was or ends in one of the cores of the section above.\<close>

lemma pinvI: "core h = (S, P, I, n, on, dis, lv, jn) \<Longrightarrow> core_ok {} S P I n \<Longrightarrow> (\<And>pid. dis pid) \<Longrightarrow> pinv h"
  by (simp add: pinv_core)

lemma pinv_gone:
  assumes "core h = without_party pid l ms is S P I (n, on, dis, lv, jn)"
    and "core_ok {pid} S P I n" "S pid = Some (Some l, ms, is)" "\<And>pid. dis pid"
  shows "pinv h"
proof -
  have "core h = (S(pid := None), (\<lambda>q. if q = l \<or> q \<in> set ms then None else P q),
      (\<lambda>q. if q \<in> set is then removeAll pid (I q) else I q), n, on, dis, lv, jn)"
    using assms(1) by (simp add: without_party_def)
  then show ?thesis using ok_gone [OF assms(2,3)] assms(4) by (rule pinvI)
qed

lemma core_ok_exempt: "core_ok {} S P I n \<Longrightarrow> core_ok {pid} S P I n"
  unfolding core_ok_def by simp

lemma pinv_leave:
  assumes "pinv g" "pty g q = Some pid"
  shows "pinv (snd (leaveParty pid (Some q) g))"
proof -
  from assms(1) obtain S P I n on dis lv jn where c: "core g = (S, P, I, n, on, dis, lv, jn)"
    and ok: "core_ok {} S P I n" and d: "\<forall>pid. dis pid" by (rule pinvE)
  note sel = core_sel [OF c]
  have q: "P q = Some pid" using assms(2) sel by simp
  then obtain l ms iv where S: "S pid = Some (Some l, ms, iv)" and m: "q = l \<or> q \<in> set ms"
    by (rule party_of_player [OF ok])
  show ?thesis
  proof (cases "lv pid q")
    case False
    then show ?thesis using assms by (simp add: leaveParty_def sel)
  next
    case True
    note cl = core_leave [OF c ok S q True d [rule_format]]
    have gone: "core h = without_party pid l ms iv S P I (n, on, dis, lv, jn) \<Longrightarrow> pinv h" for h
      using pinv_gone [OF _ core_ok_exempt [OF ok] S] d by blast
    show ?thesis
    proof (cases "q = l")
      case lead: True
      show ?thesis
      proof (cases "ms = [] \<or> (length ms = 1 \<and> iv = [])")
        case True
        then show ?thesis using cl lead gone by simp
      next
        case False
        then have h: "hd ms \<in> set ms" "tl ms \<noteq> [] \<or> iv \<noteq> []" by (cases ms; auto)+
        from ok_pass [OF ok S h(1)]
        have "core_ok {} (S(pid \<mapsto> (Some (hd ms), l # tl ms, iv))) P I n"
          using h(1) by (cases ms) auto
        from ok_member_leaves [OF this, of pid "hd ms" "l # tl ms" iv l]
        have "core_ok {pid} (S(pid \<mapsto> (Some (hd ms), tl ms, iv))) (P(l := None)) I n" by simp
        then have "core_ok {} (S(pid \<mapsto> (Some (hd ms), tl ms, iv))) (P(l := None)) I n"
          by (rule core_ok_settle) (use h in \<open>auto simp: deserted_def\<close>)
        then show ?thesis using cl lead False d by (intro pinvI) auto
      qed
    next
      case False
      then have "q \<in> set ms" using m by simp
      from ok_member_leaves [OF ok S this]
      have k: "core_ok {pid} (S(pid \<mapsto> (Some l, erase_first q ms, iv))) (P(q := None)) I n" .
      show ?thesis
      proof (cases "erase_first q ms = [] \<and> iv = []")
        case True
        then show ?thesis using cl False gone by simp
      next
        case stays: False
        then have "core_ok {} (S(pid \<mapsto> (Some l, erase_first q ms, iv))) (P(q := None)) I n"
          by (intro core_ok_settle [OF k]) (auto simp: deserted_def)
        then show ?thesis using cl False stays d by (intro pinvI) auto
      qed
    qed
  qed
qed

text \<open>
  Withdrawing an invitation. With \<open>removeFromPlayer\<close> false the player's own list is left
  for the caller to clear: the invariant then holds for the list \<open>rest\<close> of the parties that
  are still to be visited.
\<close>

lemma removeInvite_step:
  assumes c: "core g = (S, P, I, n, on, dis, lv, jn)" and d: "\<forall>pid. dis pid"
    and ok: "core_ok {} S P (I(q := pid # rest)) n"
  obtains S' P' I' where "core (snd (removeInvite pid q False g)) = (S', P', I', n, on, dis, lv, jn)"
    "core_ok {} S' P' (I'(q := rest)) n"
proof -
  let ?I = "I(q := pid # rest)"
  have "pid \<in> set (?I q)" by simp
  then have "invited (S pid) q" using core_okD(2) [OF ok] by blast
  then obtain s where "S pid = Some s" by (auto simp: invited_def split: option.splits)
  then obtain l ms iv where S: "S pid = Some (Some l, ms, iv)" by (rule leader_some [OF ok])
  have q: "q \<in> set iv" using \<open>invited (S pid) q\<close> S by (simp add: invited_def)
  have "distinct (?I q)" using core_ok_at(5) [OF ok S] .
  then have rest: "removeAll pid (?I q) = rest" by (simp add: removeAll_id)
  let ?iv = "erase_first q iv" and ?S = "S(pid \<mapsto> (Some l, ms, erase_first q iv))"
  have "core_ok {pid} ?S P (?I(q := removeAll pid (?I q))) n" by (rule ok_withdraw [OF ok S])
  then have w: "core_ok {pid} ?S P (I(q := rest)) n" by (simp only: rest fun_upd_upd)
  note cr = core_removeInvite [OF c S q d [rule_format], of False]
  show thesis
  proof (cases "ms = [] \<and> ?iv = []")
    case True
    have "core_ok {} (S(pid := None)) (\<lambda>r. if r = l \<or> r \<in> set ms then None else P r)
        (\<lambda>r. if r \<in> set ?iv then removeAll pid ((I(q := rest)) r) else (I(q := rest)) r) n"
      using ok_gone [OF w, of l ms ?iv] by simp
    moreover have "(\<lambda>r. if r \<in> set ?iv then removeAll pid ((I(q := rest)) r) else (I(q := rest)) r) = I(q := rest)"
      using True by (simp add: fun_eq_iff)
    ultimately show ?thesis
      using cr True that [of "S(pid := None)" "\<lambda>r. if r = l \<or> r \<in> set ms then None else P r" I]
      by (simp add: without_party_def)
  next
    case False
    then have "core_ok {} ?S P (I(q := rest)) n"
      by (intro core_ok_settle [OF w]) (auto simp: deserted_def)
    then show ?thesis using cr False that by (simp add: Let_def)
  qed
qed

lemma pinv_withdraw:
  assumes "pinv g" "isPlayerInvited g pid q" "parties g pid \<noteq> None"
  shows "pinv (snd (removeInvite pid q True g))"
proof -
  from assms(1) obtain S P I n on dis lv jn where c: "core g = (S, P, I, n, on, dis, lv, jn)"
    and ok: "core_ok {} S P I n" and d: "\<forall>pid. dis pid" by (rule pinvE)
  note sel = core_sel [OF c]
  have "S pid \<noteq> None" using assms(3) sel(1) by (auto simp: shape_def)
  then obtain l ms iv where S: "S pid = Some (Some l, ms, iv)" using leader_some [OF ok] by blast
  then have q: "q \<in> set iv" using assms(2) sel(1) shape_sel(6) by metis
  let ?S = "S(pid \<mapsto> (Some l, ms, erase_first q iv))" and ?I = "I(q := removeAll pid (I q))"
  have w: "core_ok {pid} ?S P ?I n" by (rule ok_withdraw [OF ok S])
  note cr = core_removeInvite [OF c S q d [rule_format], of True]
  show ?thesis
  proof (cases "ms = [] \<and> erase_first q iv = []")
    case True
    then have "core (snd (removeInvite pid q True g)) = without_party pid l ms (erase_first q iv) ?S P ?I (n, on, dis, lv, jn)"
      using cr by (simp add: without_party_def fun_eq_iff)
    from pinv_gone [OF this w] d show ?thesis by simp
  next
    case False
    then have "core_ok {} ?S P ?I n" by (intro core_ok_settle [OF w]) (auto simp: deserted_def)
    then show ?thesis using cr False d by (intro pinvI) (auto simp: Let_def)
  qed
qed

lemma removeInvites_ok:
  "core g = (S, P, I, n, on, dis, lv, jn) \<Longrightarrow> \<forall>pid. dis pid \<Longrightarrow> core_ok {} S P (I(q := xs)) n \<Longrightarrow>
   \<exists>S' P' I'. core (fold (\<lambda>pid g. snd (removeInvite pid q False g)) xs g) = (S', P', I', n, on, dis, lv, jn) \<and>
     core_ok {} S' P' (I'(q := [])) n"
proof (induction xs arbitrary: g S P I)
  case Nil
  then show ?case by auto
next
  case (Cons pid xs)
  obtain S' P' I' where "core (snd (removeInvite pid q False g)) = (S', P', I', n, on, dis, lv, jn)"
    "core_ok {} S' P' (I'(q := xs)) n"
    by (rule removeInvite_step [OF Cons.prems])
  from Cons.IH [OF this(1) Cons.prems(2) this(2)] show ?case by simp
qed

lemma core_clear:
  assumes c: "core g = (S, P, I, n, on, dis, lv, jn)" and ok: "core_ok {} S P I n" and d: "\<forall>pid. dis pid"
  obtains S' P' I' where "core (clearPartyInvitations q g) = (S', P', I', n, on, dis, lv, jn)"
    "core_ok {} S' P' I' n" "I' q = []"
proof -
  note sel = core_sel [OF c]
  have "core_ok {} S P (I(q := I q)) n" using ok by simp
  then obtain S' P' I' where "core (fold (\<lambda>pid g. snd (removeInvite pid q False g)) (I q) g) = (S', P', I', n, on, dis, lv, jn)"
    "core_ok {} S' P' (I'(q := [])) n"
    using removeInvites_ok [OF c d] by blast
  then show ?thesis
    using that [of S' P' "I'(q := [])"] by (simp add: clearPartyInvitations_def Let_def sel)
qed

text \<open>The handlers, each on a store that satisfies the invariant.\<close>

lemma pinv_text: "pinv g \<Longrightarrow> pinv (sendTextMessage q msg g)"
  by (rule pinv_same [OF core_frames(4)])

lemma live_of_player:
  assumes "pinv g" "pty g q = Some pid"
  shows "parties g pid \<noteq> None"
proof -
  from assms(1) obtain S P I n on dis lv jn where c: "core g = (S, P, I, n, on, dis, lv, jn)"
    and ok: "core_ok {} S P I n" and d: "\<forall>pid. dis pid" by (rule pinvE)
  note sel = core_sel [OF c]
  have "P q = Some pid" using assms(2) sel by simp
  then obtain l ms iv where "S pid = Some (Some l, ms, iv)" by (rule party_of_player [OF ok])
  then show ?thesis using sel(1) by (auto simp: shape_def)
qed

lemma pinv_playerInviteToParty: "pinv g \<Longrightarrow> pinv (playerInviteToParty p q g)"
proof -
  assume inv: "pinv g"
  then obtain S P I n on dis lv jn where c: "core g = (S, P, I, n, on, dis, lv, jn)"
    and ok: "core_ok {} S P I n" and d: "\<forall>pid. dis pid" by (rule pinvE)
  note sel = core_sel [OF c]
  have fresh: "pinv (snd (invitePlayer n q (newParty p g)))" if "P p = None" "P q = None"
  proof -
    have ok1: "core_ok {n} (S(n \<mapsto> (Some p, [], []))) (P(p \<mapsto> n)) I (n + 1)"
      using ok that(1) by (rule ok_new)
    have "n \<notin> set (I q)"
      using core_okD(2,5) [OF ok, of n] by (auto simp: invited_def split: option.splits)
    from core_invite [OF core_newParty [OF c], where pid = n and q = q] this
    have "core (snd (invitePlayer n q (newParty p g))) =
        (S(n \<mapsto> (Some p, [], [q])), P(p \<mapsto> n), I(q := n # I q), n + 1, on, dis, lv, jn)"
      by simp
    moreover have "core_ok {} (S(n \<mapsto> (Some p, [], [q]))) (P(p \<mapsto> n)) (I(q := n # I q)) (n + 1)"
      using ok_invite [OF ok1, of p "[]" "[]" q] by simp
    ultimately show ?thesis using d by (intro pinvI) auto
  qed
  have old: "pinv (snd (invitePlayer pid q g))" if P: "P p = Some pid" for pid
  proof -
    obtain l ms iv where S: "S pid = Some (Some l, ms, iv)" using P by (rule party_of_player [OF ok])
    have sh: "shape g pid = Some (Some l, ms, iv)" using S sel by simp
    show ?thesis
    proof (cases "q \<in> set iv")
      case True
      then show ?thesis using inv by (simp add: invitePlayer_def shape_sel [OF sh])
    next
      case False
      then have "pid \<notin> set (I q)" using core_ok_at(7) [OF ok S] by blast
      from core_invite [OF c S False this] ok_invite [OF core_ok_exempt [OF ok] S False] d
      show ?thesis by (intro pinvI) auto
    qed
  qed
  show ?thesis
    using inv fresh old sel
    by (simp add: playerInviteToParty_def getPlayerByID_def pinv_text split: option.split)
qed

lemma pinv_playerJoinParty: "pinv g \<Longrightarrow> pinv (playerJoinParty p q g)"
proof -
  assume inv: "pinv g"
  then obtain S P I n on dis lv jn where c: "core g = (S, P, I, n, on, dis, lv, jn)"
    and ok: "core_ok {} S P I n" and d: "\<forall>pid. dis pid" by (rule pinvE)
  note sel = core_sel [OF c]
  have join: "pinv (snd (joinParty pid p g))" if q: "P q = Some pid" and p: "P p = None" for pid
  proof -
    obtain l ms iv where S: "S pid = Some (Some l, ms, iv)" using q by (rule party_of_player [OF ok])
    have sh: "shape g pid = Some (Some l, ms, iv)" using S sel by simp
    show ?thesis
    proof (cases "p \<in> set iv \<and> jn pid p")
      case False
      then show ?thesis using inv sel by (auto simp: joinParty_def shape_sel [OF sh])
    next
      case True
      from core_join [OF c S] ok_join [OF ok S _ p] True d show ?thesis
        by (intro pinvI) auto
    qed
  qed
  show ?thesis
    using inv join sel
    by (simp add: playerJoinParty_def getPlayerByID_def pinv_text split: option.split)
qed

lemma pinv_playerRevoke: "pinv g \<Longrightarrow> pinv (playerRevokePartyInvitation p q g)"
proof -
  assume inv: "pinv g"
  have rev: "pinv (revokeInvitation pid q g)" if "pty g p = Some pid" "isInviting g p (Some q)" for pid
  proof -
    let ?h = "\<lambda>a b. sendTextMessage (the_leader g pid) a (sendTextMessage q b g)"
    have "pinv (?h a b)" for a b using inv by (intro pinv_text)
    moreover have "isPlayerInvited (?h a b) pid q" for a b
      using that by (simp add: isInviting_def isPlayerInvited_def split: if_splits)
    moreover have "parties (?h a b) pid \<noteq> None" for a b
      using live_of_player [OF inv that(1)] by simp
    ultimately show ?thesis
      unfolding revokeInvitation_def Let_def by (intro pinv_withdraw)
  qed
  show ?thesis
    using inv rev by (simp add: playerRevokePartyInvitation_def getPlayerByID_def split: option.split)
qed

lemma pinv_playerPass: "pinv g \<Longrightarrow> pinv (playerPassPartyLeadership p q g)"
proof -
  assume inv: "pinv g"
  then obtain S P I n on dis lv jn where c: "core g = (S, P, I, n, on, dis, lv, jn)"
    and ok: "core_ok {} S P I n" and d: "\<forall>pid. dis pid" by (rule pinvE)
  note sel = core_sel [OF c]
  have pass: "pinv (snd (passPartyLeadership pid (Some q) g))" if P: "P q = Some pid" for pid
  proof -
    obtain l ms iv where S: "S pid = Some (Some l, ms, iv)" and m: "q = l \<or> q \<in> set ms"
      using P by (rule party_of_player [OF ok])
    have sh: "shape g pid = Some (Some l, ms, iv)" using S sel by simp
    show ?thesis
    proof (cases "q = l")
      case True
      then show ?thesis using inv by (simp add: passPartyLeadership_def shape_sel [OF sh])
    next
      case False
      then have "l \<noteq> q" "q \<in> set ms" using m by auto
      from core_pass [OF c S this(1) P] ok_pass [OF ok S this(2)] d show ?thesis
        by (intro pinvI) auto
    qed
  qed
  show ?thesis
    using inv pass sel
    by (auto simp: playerPassPartyLeadership_def getPlayerByID_def isPartner_def split: option.split)
qed

lemma pinv_playerLeave: "pinv g \<Longrightarrow> pinv (playerLeaveParty p g)"
  by (simp add: playerLeaveParty_def getPlayerByID_def pinv_leave split: option.split)

lemma pinv_playerEnable: "pinv g \<Longrightarrow> pinv (playerEnableSharedPartyExperience p a g)"
  by (simp add: playerEnableSharedPartyExperience_def getPlayerByID_def
      pinv_same [OF core_frames(14)] split: option.split)

lemma pinv_logout: "pinv g \<Longrightarrow> pinv (partyLogout p g)"
proof -
  assume "pinv g"
  then obtain S P I n on dis lv jn where c: "core g = (S, P, I, n, on, dis, lv, jn)"
    and ok: "core_ok {} S P I n" and d: "\<forall>pid. dis pid" by (rule pinvE)
  obtain S' P' I' where "core (clearPartyInvitations p g) = (S', P', I', n, on, dis, lv, jn)"
    "core_ok {} S' P' I' n" by (rule core_clear [OF c ok d])
  then have "pinv (clearPartyInvitations p g)" using d by (intro pinvI) auto
  then show ?thesis by (simp add: partyLogout_def Let_def pinv_leave split: option.split)
qed

section \<open>The party machine\<close>

text \<open>
  The client requests, the fight events and the logout of a player as the operations of
  one machine, with the changes other parts of the game make to a player and the clock.
\<close>

datatype party_op =
  Invite nat nat | Join nat nat | Revoke nat nat | Pass nat nat | Leave nat | Share nat bool
| Logout nat | Points nat u32 | Idle nat | Alter nat nat position bool bool | Clock int

fun party_step :: "party_op \<Rightarrow> pgame \<Rightarrow> pgame" where
  "party_step (Invite p q) g = playerInviteToParty p q g"
| "party_step (Join p q) g = playerJoinParty p q g"
| "party_step (Revoke p q) g = playerRevokePartyInvitation p q g"
| "party_step (Pass p q) g = playerPassPartyLeadership p q g"
| "party_step (Leave p) g = playerLeaveParty p g"
| "party_step (Share p a) g = playerEnableSharedPartyExperience p a g"
| "party_step (Logout p) g = partyLogout p g"
| "party_step (Points p n) g = (case pty g p of None \<Rightarrow> g | Some pid \<Rightarrow> updatePlayerTicks pid p n g)"
| "party_step (Idle p) g = (case pty g p of None \<Rightarrow> g | Some pid \<Rightarrow> clearPlayerPoints pid p g)"
| "party_step (Alter p lv pos fight prot) g =
     upd_player p (\<lambda>x. x\<lparr>pl_level := lv, pl_position := pos, pl_inFight := fight, pl_inProtectionZone := prot\<rparr>) g"
| "party_step (Clock t) g = g\<lparr>now := t\<rparr>"

definition fresh_store :: "pgame \<Rightarrow> bool" where
  "fresh_store g \<longleftrightarrow> parties g = (\<lambda>_. None) \<and> (\<forall>q. pty g q = None \<and> invs g q = []) \<and> (\<forall>pid. onDisband g pid)"

lemma pinv_fresh: "fresh_store g \<Longrightarrow> pinv g"
  by (simp add: fresh_store_def pinv_def core_ok_def shape_def shape_preds)

lemma pinv_step: "pinv g \<Longrightarrow> pinv (party_step a g)"
proof (cases a)
  case (Alter p lv pos fight prot)
  assume "pinv g"
  then show ?thesis
    unfolding Alter party_step.simps
    by (rule pinv_same [rotated]) (simp add: core_def shape_def env_def fun_eq_iff)
next
  case (Clock t)
  assume "pinv g"
  then show ?thesis
    unfolding Clock party_step.simps
    by (rule pinv_same [rotated]) (simp add: core_def shape_def env_def fun_eq_iff)
qed (auto simp: pinv_playerInviteToParty pinv_playerJoinParty pinv_playerRevoke pinv_playerPass
      pinv_playerLeave pinv_playerEnable pinv_logout pinv_same [OF core_frames(12)]
      pinv_same [OF core_frames(13)] split: option.split)

interpretation party_machine: step_machine party_step pinv
  by unfold_locales (rule pinv_step)

text \<open>A store of four players to apply the theorems to.\<close>

definition demo_player :: pplayer where
  "demo_player = \<lparr>pl_name = ''Elda'', pl_female = True, pl_level = 50, pl_fromVocation = 1,
     pl_position = \<lparr>px = 100, py = 100, pz = 7\<rparr>, pl_notGainInFight = False, pl_inFight = False,
     pl_inProtectionZone = False, pl_party = None, invitePartyList = []\<rparr>"

definition demo_store :: pgame where
  "demo_store = \<lparr>online = (\<lambda>q. q < 4), players = (\<lambda>_. demo_player), parties = (\<lambda>_. None),
     nextParty = 0, now = 0, pzLocked = 60000, onDisband = (\<lambda>_. True), onLeave = (\<lambda>_ _. True),
     onJoin = (\<lambda>_ _. True), notices = []\<rparr>"

lemma demo_fresh: "fresh_store demo_store"
  by (simp add: fresh_store_def demo_store_def demo_player_def)

lemma demo_run_inv: "pinv (fold party_step ops demo_store)"
  by (rule party_machine.run_inv) (rule pinv_fresh [OF demo_fresh])

end
