(* ===== verification/PartyTheorems.thy ===== *)
theory PartyTheorems imports PartyProps begin

text \<open>
  The properties of parties: the pointers between players and parties agree after any
  sequence of requests, each request has exactly the effect it should have on
  membership, leadership and invitations, and the limits of what scripts may refuse.
\<close>

section \<open>Reachable stores\<close>

lemma pinv_parties:
  assumes "pinv g" "parties g pid = Some p"
  shows "(\<exists>l. leader p = Some l \<and> l \<notin> set (memberList p)) \<and> distinct (memberList p) \<and>
    distinct (inviteList p) \<and> (memberList p \<noteq> [] \<or> inviteList p \<noteq> [])"
proof -
  have s: "shape g pid = Some (leader p, memberList p, inviteList p)" using assms(2) by (simp add: shape_def)
  have "core_ok {} (shape g) (\<lambda>q. pty g q) (\<lambda>q. invs g q) (nextParty g)" using assms(1) by (simp add: pinv_def)
  from core_okD(4,6) [OF this, of pid] show ?thesis
    by (auto simp: s shape_preds split: option.splits)
qed

lemma pinv_pointers:
  assumes "pinv g"
  shows "pty g q = Some pid \<longleftrightarrow>
      (\<exists>p. parties g pid = Some p \<and> (leader p = Some q \<or> q \<in> set (memberList p)))"
    "pid \<in> set (invs g q) \<longleftrightarrow> (\<exists>p. parties g pid = Some p \<and> q \<in> set (inviteList p))"
proof -
  have "core_ok {} (shape g) (\<lambda>q. pty g q) (\<lambda>q. invs g q) (nextParty g)" using assms by (simp add: pinv_def)
  note ok = core_okD [OF this]
  show "pty g q = Some pid \<longleftrightarrow>
      (\<exists>p. parties g pid = Some p \<and> (leader p = Some q \<or> q \<in> set (memberList p)))"
    using ok(1) [of q pid] by (auto simp: shape_def belongs_def split: option.splits)
  show "pid \<in> set (invs g q) \<longleftrightarrow> (\<exists>p. parties g pid = Some p \<and> q \<in> set (inviteList p))"
    using ok(2) [of pid q] by (auto simp: shape_def invited_def split: option.splits)
qed



section \<open>Requests\<close>

text \<open>What a party is, on the core, and the two shapes of a reply.\<close>

lemma player_party_cases:
  assumes "pinv g"
  obtains (none) "pty g q = None"
  | (some) pid l ms iv where "pty g q = Some pid" "shape g pid = Some (Some l, ms, iv)" "q = l \<or> q \<in> set ms"
      "leader (the_party g pid) = Some l"
proof (cases "pty g q")
  case None
  then show ?thesis by (rule none)
next
  case (Some pid)
  have ok: "core_ok {} (shape g) (\<lambda>q. pty g q) (\<lambda>q. invs g q) (nextParty g)" using assms by (simp add: pinv_def)
  obtain l ms iv where S: "shape g pid = Some (Some l, ms, iv)" "q = l \<or> q \<in> set ms"
    using Some by (rule party_of_player [OF ok])
  then show ?thesis using some [OF Some S] shape_sel(1) [OF S(1)] by blast
qed

lemma core_eta: "core g = (shape g, (\<lambda>q. pty g q), (\<lambda>q. invs g q), nextParty g, online g, onDisband g, onLeave g, onJoin g)"
  by (simp add: core_def env_def)

text \<open>
  Joining: the request of a player to join the party of another changes the store
  exactly when both are online, the other leads a party that has invited the player, the
  player is in no party and the script allows it; then the player becomes the last member
  and the invitation disappears on both sides, and nothing else about any party changes.
\<close>

theorem join_effect:
  assumes "pinv g"
  shows "core (playerJoinParty p q g) =
    (case pty g q of None \<Rightarrow> core g
     | Some pid \<Rightarrow>
        (let pa = the_party g pid in
         if online g p \<and> online g q \<and> leader pa = Some q \<and> p \<in> set (inviteList pa) \<and>
            pty g p = None \<and> onJoin g pid p
         then ((shape g)(pid \<mapsto> (Some q, memberList pa @ [p], erase_first p (inviteList pa))),
               (\<lambda>r. pty g r)(p \<mapsto> pid), (\<lambda>r. invs g r)(p := removeAll pid (invs g p)), env g)
         else core g))"
  using assms
proof (cases rule: player_party_cases [where q = q])
  case none
  then show ?thesis
    by (simp add: playerJoinParty_def getPlayerByID_def isInviting_def)
next
  case (some pid l ms iv)
  note core_join [OF core_eta some(2), of p]
  then show ?thesis
    using some by (auto simp: playerJoinParty_def getPlayerByID_def isInviting_def Let_def
        shape_sel [OF some(2)] joinParty_def env_def)
qed

text \<open>The demonstration store after player 0 has invited player 1, and after 1 joined.\<close>

lemma demo_core: "core demo_store = ((\<lambda>_. None), (\<lambda>_. None), (\<lambda>_. []), 0, (\<lambda>q. q < 4), (\<lambda>_. True), (\<lambda>_ _. True), (\<lambda>_ _. True))"
  by (simp add: core_def env_def shape_def demo_store_def demo_player_def fun_eq_iff)

lemma demo_invited_core:
  "core (party_step (Invite 0 2) demo_store) =
     ((\<lambda>_. None)(0 \<mapsto> (Some 0, [], [2])), (\<lambda>_. None)(0 \<mapsto> 0), (\<lambda>_. [])(2 := [0]),
      1, (\<lambda>q. q < 4), (\<lambda>_. True), (\<lambda>_ _. True), (\<lambda>_ _. True))"
proof -
  note sel = core_sel [OF demo_core]
  have "party_step (Invite 0 2) demo_store = snd (invitePlayer 0 2 (newParty 0 demo_store))"
    by (simp add: playerInviteToParty_def getPlayerByID_def sel isInviting_def)
  then show ?thesis
    using core_invite [OF core_newParty [OF demo_core], where pid = 0 and q = 2] by simp
qed

theorem join_effect_witness:
  "core (playerJoinParty 2 0 (party_step (Invite 0 2) demo_store)) =
     ((\<lambda>_. None)(0 \<mapsto> (Some 0, [2], [])), (\<lambda>_. None)(0 \<mapsto> 0, 2 \<mapsto> 0), (\<lambda>_. []),
      1, (\<lambda>q. q < 4), (\<lambda>_. True), (\<lambda>_ _. True), (\<lambda>_ _. True))"
proof -
  define g where "g = party_step (Invite 0 2) demo_store"
  have inv: "pinv g" using demo_run_inv [of "[Invite 0 2]"] by (simp add: g_def)
  note sel = core_sel [OF demo_invited_core [folded g_def]]
  have "shape g 0 = Some (Some 0, [], [2])" by (simp only: sel) simp
  note sh = shape_sel [OF this]
  show ?thesis
    using join_effect [OF inv, of 2 0] unfolding g_def [symmetric]
    by (simp add: sel sh env_def Let_def fun_eq_iff)
qed

text \<open>
  Leaving: a player in a party who is not fighting and whom the script lets go leaves
  it. A leader hands the party to the first member before; the party is dissolved, its
  members and invitations with it, exactly when nobody is left to lead or to be invited.
\<close>

theorem leave_effect:
  assumes "pinv g" and "pty g q = Some pid"
  shows "core (playerLeaveParty q g) =
    (let pa = the_party g pid; l = the_leader g pid; ms = memberList pa; is = inviteList pa in
     if online g q \<and> \<not> pl_inFight (players g q) \<and> onLeave g pid q then
       if (if q = l then ms = [] \<or> (length ms = 1 \<and> is = []) else ms = [q] \<and> is = [])
       then ((shape g)(pid := None), (\<lambda>r. if r = l \<or> r \<in> set ms then None else pty g r),
             (\<lambda>r. if r \<in> set is then removeAll pid (invs g r) else invs g r), env g)
       else ((shape g)(pid \<mapsto> (if q = l then (Some (hd ms), tl ms, is) else (Some l, erase_first q ms, is))),
             (\<lambda>r. pty g r)(q := None), (\<lambda>r. invs g r), env g)
     else core g)"
  using assms(1)
proof (cases rule: player_party_cases [where q = q])
  case none
  then show ?thesis using assms(2) by simp
next
  case (some pid' l ms iv)
  then have "pid' = pid" using assms(2) by simp
  note sh = shape_sel [OF some(2) [unfolded \<open>pid' = pid\<close>]]
  have ok: "core_ok {} (shape g) (\<lambda>q. pty g q) (\<lambda>q. invs g q) (nextParty g)" and d: "onDisband g pid"
    using assms(1) by (simp_all add: pinv_def)
  have e: "q \<noteq> l \<Longrightarrow> erase_first q ms = [] \<longleftrightarrow> ms = [q]"
    using some(3) by (cases ms) auto
  note cl = core_leave [OF core_eta ok some(2) [unfolded \<open>pid' = pid\<close>], of q]
  show ?thesis
  proof (cases "online g q \<and> \<not> pl_inFight (players g q) \<and> onLeave g pid q")
    case False
    then have "playerLeaveParty q g = g"
      using assms(2) by (auto simp: playerLeaveParty_def getPlayerByID_def leaveParty_def)
    then show ?thesis using False by (simp only: Let_def if_False)
  next
    case True
    then have "core (playerLeaveParty q g) = core (snd (leaveParty pid (Some q) g))"
      using assms(2) by (simp add: playerLeaveParty_def getPlayerByID_def)
    with True cl [OF some(1) [unfolded \<open>pid' = pid\<close>]] d
    have c: "core (playerLeaveParty q g) =
      (if q = l then
         if ms = [] \<or> (length ms = 1 \<and> iv = []) then without_party pid l ms iv (shape g) (\<lambda>q. pty g q) (\<lambda>q. invs g q) (env g)
         else ((shape g)(pid \<mapsto> (Some (hd ms), tl ms, iv)), (\<lambda>r. pty g r)(q := None), (\<lambda>r. invs g r), env g)
       else if erase_first q ms = [] \<and> iv = [] then without_party pid l ms iv (shape g) (\<lambda>q. pty g q) (\<lambda>q. invs g q) (env g)
       else ((shape g)(pid \<mapsto> (Some l, erase_first q ms, iv)), (\<lambda>r. pty g r)(q := None), (\<lambda>r. invs g r), env g))"
      by (simp add: env_def)
    show ?thesis
      using True sh unfolding c Let_def by (cases "q = l") (simp_all add: without_party_def e)
  qed
qed

text \<open>
  Handing over: only the leader of a party, and only to another of its members, can
  pass the leadership; then the two swap roles, the old leader becoming the first member,
  and the set of people in the party, its invitations and all other parties stay the same.
\<close>

theorem pass_effect:
  assumes "pinv g"
  shows "core (playerPassPartyLeadership p q g) =
    (case pty g p of None \<Rightarrow> core g
     | Some pid \<Rightarrow>
        (let pa = the_party g pid in
         if online g p \<and> online g q \<and> leader pa = Some p \<and> q \<in> set (memberList pa)
         then ((shape g)(pid \<mapsto> (Some q, p # erase_first q (memberList pa), inviteList pa)),
               (\<lambda>r. pty g r), (\<lambda>r. invs g r), env g)
         else core g))"
  using assms
proof (cases rule: player_party_cases [where q = p])
  case none
  then show ?thesis by (simp add: playerPassPartyLeadership_def getPlayerByID_def)
next
  case (some pid l ms iv)
  note sh = shape_sel [OF some(2)]
  have ok: "core_ok {} (shape g) (\<lambda>q. pty g q) (\<lambda>q. invs g q) (nextParty g)"
    using assms(1) by (simp add: pinv_def)
  note at = core_ok_at [OF ok some(2)]
  show ?thesis
  proof (cases "online g p \<and> online g q \<and> l = p")
    case False
    then show ?thesis using some(1) sh by (auto simp: playerPassPartyLeadership_def getPlayerByID_def Let_def)
  next
    case True
    show ?thesis
    proof (cases "q \<in> set ms")
      case m: True
      then have "l \<noteq> q" "pty g q = Some pid" using at(1,9) by auto
      from core_pass [OF core_eta some(2) this] True m some(1) \<open>pty g q = Some pid\<close> show ?thesis
        by (simp add: playerPassPartyLeadership_def getPlayerByID_def isPartner_def sh env_def)
    next
      case False
      then have "pty g q = Some pid \<Longrightarrow> q = l" using at(6) by blast
      with True False some(1) show ?thesis
        by (auto simp: playerPassPartyLeadership_def getPlayerByID_def isPartner_def sh passPartyLeadership_def)
    qed
  qed
qed

lemma demo_joined_core:
  "core (fold party_step [Invite 0 2, Join 2 0] demo_store) =
     ((\<lambda>_. None)(0 \<mapsto> (Some 0, [2], [])), (\<lambda>_. None)(0 \<mapsto> 0, 2 \<mapsto> 0), (\<lambda>_. []),
      1, (\<lambda>q. q < 4), (\<lambda>_. True), (\<lambda>_ _. True), (\<lambda>_ _. True))"
proof -
  define g where "g = party_step (Invite 0 2) demo_store"
  note c = demo_invited_core [folded g_def]
  note sel = core_sel [OF c]
  have "shape g 0 = Some (Some 0, [], [2])" by (simp only: sel) simp
  note sh = shape_sel [OF this]
  have "playerJoinParty 2 0 g = snd (joinParty 0 2 g)"
    by (simp add: playerJoinParty_def getPlayerByID_def isInviting_def sel sh)
  moreover have "fold party_step [Invite 0 2, Join 2 0] demo_store = playerJoinParty 2 0 g"
    by (simp add: g_def)
  ultimately show ?thesis using core_join [OF c, of 0 0 "[]" "[2]" 2] by (simp add: fun_eq_iff)
qed

theorem leave_effect_witness:
  "(let g = fold party_step [Invite 0 2, Join 2 0] demo_store; pa = the_party g 0; l = the_leader g 0;
        ms = memberList pa; is = inviteList pa in
    core (playerLeaveParty 0 g) =
    (if online g 0 \<and> \<not> pl_inFight (players g 0) \<and> onLeave g 0 0 then
       if (if 0 = l then ms = [] \<or> (length ms = 1 \<and> is = []) else ms = [0] \<and> is = [])
       then ((shape g)(0 := None), (\<lambda>r. if r = l \<or> r \<in> set ms then None else pty g r),
             (\<lambda>r. if r \<in> set is then removeAll 0 (invs g r) else invs g r), env g)
       else ((shape g)(0 \<mapsto> (if 0 = l then (Some (hd ms), tl ms, is) else (Some l, erase_first 0 ms, is))),
             (\<lambda>r. pty g r)(0 := None), (\<lambda>r. invs g r), env g)
     else core g))"
proof -
  let ?g = "fold party_step [Invite 0 2, Join 2 0] demo_store"
  have "pty ?g 0 = Some 0" using core_sel(2) [OF demo_joined_core, of 0] by simp
  from leave_effect [OF demo_run_inv this] show ?thesis unfolding Let_def .
qed

theorem pass_effect_witness:
  "core (playerPassPartyLeadership 0 2 (fold party_step [Invite 0 2, Join 2 0] demo_store)) =
     ((\<lambda>_. None)(0 \<mapsto> (Some 2, [0], [])), (\<lambda>_. None)(0 \<mapsto> 0, 2 \<mapsto> 0), (\<lambda>_. []),
      1, (\<lambda>q. q < 4), (\<lambda>_. True), (\<lambda>_ _. True), (\<lambda>_ _. True))"
proof -
  define g where "g = fold party_step [Invite 0 2, Join 2 0] demo_store"
  have inv: "pinv g" using demo_run_inv by (simp only: g_def)
  note sel = core_sel [OF demo_joined_core [folded g_def]]
  have "shape g 0 = Some (Some 0, [2], [])" by (simp only: sel) simp
  note sh = shape_sel [OF this]
  show ?thesis
    using pass_effect [OF inv, of 0 2] unfolding g_def [symmetric]
    by (simp add: sel sh env_def Let_def fun_eq_iff)
qed

section \<open>Logging out\<close>

text \<open>
  Nothing of a player who logs out is left in any party: when the scripts let the
  player leave, the player is in no party and has no invitation afterwards, and no live
  party has the player as leader, member or invited player.
\<close>

theorem logout_leaves_no_trace:
  assumes "pinv g" and "\<forall>pid. onLeave g pid q"
  shows "pty (partyLogout q g) q = None \<and> invs (partyLogout q g) q = [] \<and>
    (\<forall>pid p. parties (partyLogout q g) pid = Some p \<longrightarrow>
       leader p \<noteq> Some q \<and> q \<notin> set (memberList p) \<and> q \<notin> set (inviteList p))"
proof -
  let ?h = "partyLogout q g"
  from assms(1) obtain S P I n on dis lv jn where c: "core g = (S, P, I, n, on, dis, lv, jn)"
    and ok: "core_ok {} S P I n" and d: "\<forall>pid. dis pid" by (rule pinvE)
  obtain S' P' I' where c': "core (clearPartyInvitations q g) = (S', P', I', n, on, dis, lv, jn)"
    and ok': "core_ok {} S' P' I' n" and I: "I' q = []" by (rule core_clear [OF c ok d])
  note sel = core_sel [OF c']
  have lv: "lv pid q" for pid using assms(2) core_sel(7) [OF c] by simp
  have out: "pty ?h q = None \<and> invs ?h q = []"
  proof (cases "P' q")
    case None
    then show ?thesis by (simp add: partyLogout_def Let_def sel I)
  next
    case (Some pid)
    then obtain l ms iv where S: "S' pid = Some (Some l, ms, iv)" by (rule party_of_player [OF ok'])
    have "?h = snd (leaveParty pid (Some q) (clearPartyInvitations q g))"
      using Some by (simp add: partyLogout_def Let_def sel)
    then have "core ?h = core (snd (leaveParty pid (Some q) (clearPartyInvitations q g)))" by simp
    also note core_leave [OF c' ok' S Some lv d [rule_format]]
    finally have ch: "core ?h = (if q = l
        then if ms = [] \<or> length ms = 1 \<and> iv = [] then without_party pid l ms iv S' P' I' (n, on, dis, lv, jn)
             else (S'(pid \<mapsto> (Some (hd ms), tl ms, iv)), P'(q := None), I', n, on, dis, lv, jn)
        else if erase_first q ms = [] \<and> iv = [] then without_party pid l ms iv S' P' I' (n, on, dis, lv, jn)
             else (S'(pid \<mapsto> (Some l, erase_first q ms, iv)), P'(q := None), I', n, on, dis, lv, jn))" .
    have "q = l \<or> q \<in> set ms" using core_ok_at(6) [OF ok' S] Some by blast
    moreover have "pty ?h q = fst (snd (core ?h)) q" "invs ?h q = fst (snd (snd (core ?h))) q"
      by (simp_all add: core_def)
    ultimately show ?thesis unfolding ch using I by (auto simp: without_party_def)
  qed
  have "pinv ?h" using assms(1) by (rule pinv_logout)
  note ptr = pinv_pointers [OF this]
  show ?thesis
    using out ptr(1) [of q] ptr(2) [of _ q] by fastforce
qed

theorem logout_leaves_no_trace_witness:
  "pty (partyLogout 2 (fold party_step [Invite 0 2, Join 2 0] demo_store)) 2 = None"
proof -
  have "\<forall>pid. onLeave (fold party_step [Invite 0 2, Join 2 0] demo_store) pid 2"
    using core_sel(7) [OF demo_joined_core] by simp
  from logout_leaves_no_trace [OF demo_run_inv this] show ?thesis by simp
qed

section \<open>What the code lets happen\<close>

text \<open>
  A refused disband dangles: when the leader of a party with one member and no
  invitation leaves and the script refuses to disband, the leader has left, but stays the
  leader of a live party whose only member still points to it.
\<close>

theorem refused_disband_dangles:
  assumes "parties g pid = Some p" and "leader p = Some l" and "memberList p = [m]"
    and "inviteList p = []" and "l \<noteq> m" and "pty g l = Some pid" and "pty g m = Some pid"
    and "onLeave g pid l" and "\<not> onDisband g pid"
  shows "let h = snd (leaveParty pid (Some l) g) in
    pty h l = None \<and> pty h m = Some pid \<and> leader (the_party h pid) = Some l \<and>
    memberList (the_party h pid) = [m] \<and> parties h pid \<noteq> None"
proof -
  let ?h = "leave_rest pid l g"
  have sh: "shape g pid = Some (Some l, [m], [])" using assms(1-4) by (simp add: shape_def)
  have c: "core ?h = ((shape g)(pid \<mapsto> (Some l, [m], [])), (\<lambda>q. pty g q)(l := None), (\<lambda>q. invs g q), env g)"
    using sh assms(5) unfolding core_leave_rest by (simp add: core_def)
  then have s: "shape ?h pid = Some (Some l, [m], [])" "pty ?h l = None" "pty ?h m = pty g m" "env ?h = env g"
    using assms(5) by (auto simp: core_def fun_eq_iff dest: spec [of _ l] spec [of _ m])
  have "snd (leaveParty pid (Some l) g) = disband pid ?h"
    using assms(6,8) sh by (simp add: leaveParty_rest shape_sel [OF sh] Let_def)
  moreover have "disband pid ?h = ?h"
    using s(4) assms(9) by (simp add: disband_def env_def)
  ultimately show ?thesis
    using s shape_sel [OF s(1)] assms(7) by (auto simp: Let_def shape_def)
qed

text \<open>
  A player can found a party alone by inviting herself: nothing in the handler compares
  the two players, and the party that results has its leader as its only invited player.
\<close>

theorem self_invitation:
  assumes "pinv g" and "online g p" and "pty g p = None"
  shows "core (playerInviteToParty p p g) =
    ((shape g)(nextParty g \<mapsto> (Some p, [], [p])), (\<lambda>q. pty g q)(p \<mapsto> nextParty g),
     (\<lambda>q. invs g q)(p := nextParty g # invs g p), nextParty g + 1, online g, onDisband g, onLeave g, onJoin g)"
proof -
  have "core_ok {} (shape g) (\<lambda>q. pty g q) (\<lambda>q. invs g q) (nextParty g)" using assms(1) by (simp add: pinv_def)
  from core_okD(2,5) [OF this, of "nextParty g"] have "nextParty g \<notin> set (invs g p)"
    by (auto simp: invited_def split: option.splits)
  moreover have "playerInviteToParty p p g = snd (invitePlayer (nextParty g) p (newParty p g))"
    using assms(2,3) by (simp add: playerInviteToParty_def getPlayerByID_def isInviting_def)
  ultimately show ?thesis
    using core_invite [OF core_newParty [OF core_eta], where pid = "nextParty g" and q = p] by simp
qed

theorem self_invitation_witness:
  "core (playerInviteToParty 0 0 demo_store) =
    ((\<lambda>_. None)(0 \<mapsto> (Some 0, [], [0])), (\<lambda>_. None)(0 \<mapsto> 0), (\<lambda>_. [])(0 := [0]), 1,
     (\<lambda>q. q < 4), (\<lambda>_. True), (\<lambda>_ _. True), (\<lambda>_ _. True))"
proof -
  note sel = core_sel [OF demo_core]
  show ?thesis
    using self_invitation [OF pinv_fresh [OF demo_fresh], of 0] by (simp add: sel fun_upd_def)
qed

theorem refused_disband_dangles_witness:
  "let g = (fold party_step [Invite 0 2, Join 2 0] demo_store)\<lparr>onDisband := \<lambda>_. False\<rparr>;
       h = snd (leaveParty 0 (Some 0) g)
   in pty h 0 = None \<and> pty h 2 = Some 0 \<and> leader (the_party h 0) = Some 0"
proof -
  define g0 where "g0 = fold party_step [Invite 0 2, Join 2 0] demo_store"
  define g where "g = g0\<lparr>onDisband := \<lambda>_. False\<rparr>"
  note sel = core_sel [OF demo_joined_core [folded g0_def]]
  have "shape g0 0 = Some (Some 0, [2], [])" by (simp only: sel) simp
  then obtain p where "parties g 0 = Some p" "leader p = Some 0" "memberList p = [2]" "inviteList p = []"
    by (auto simp: shape_def g_def)
  from refused_disband_dangles [OF this] have "let h = snd (leaveParty 0 (Some 0) g) in
      pty h 0 = None \<and> pty h 2 = Some 0 \<and> leader (the_party h 0) = Some 0 \<and>
      memberList (the_party h 0) = [2] \<and> parties h 0 \<noteq> None"
    using sel by (simp add: g_def)
  then show ?thesis by (simp add: Let_def g_def g0_def del: party_step.simps fold.simps)
qed

section \<open>Shared experience\<close>

lemma highestLevel_Max:
  "highestLevel g pid = Max (pl_level ` players g ` set (the_leader g pid # memberList (the_party g pid)))"
proof -
  have "fold (\<lambda>m h. if f m > h then f m else h) xs (a :: nat) = Max (insert a (f ` set xs))" for f :: "nat \<Rightarrow> nat" and xs a
  proof (induction xs arbitrary: a)
    case Nil
    show ?case by simp
  next
    case (Cons y xs)
    have "Max (insert (max a (f y)) (f ` set xs)) = Max (insert a (insert (f y) (f ` set xs)))"
      by (cases "xs = []") (simp_all add: max.assoc)
    moreover have "(if f y > a then f y else a) = max a (f y)" by (simp add: max_def)
    ultimately show ?case using Cons.IH by simp
  qed
  from this [of "\<lambda>m. pl_level (players g m)"] show ?thesis
    by (simp add: highestLevel_def image_image)
qed

lemma minSharedLevel_iff: "minSharedLevel h \<le> lv \<longleftrightarrow> 2 * h \<le> 3 * lv"
  unfolding minSharedLevel_def by presburger

text \<open>
  What sharing asks of a player: two thirds of the highest level in the party, a place
  near the leader, and a recorded action that is recent enough.
\<close>

definition may_share :: "pgame \<Rightarrow> nat \<Rightarrow> nat \<Rightarrow> bool" where
  "may_share g pid q \<longleftrightarrow>
     2 * Max (pl_level ` players g ` set (the_leader g pid # memberList (the_party g pid))) \<le> 3 * pl_level (players g q) \<and>
     getDistanceX (pl_position (players g (the_leader g pid))) (pl_position (players g q)) \<le> 30 \<and>
     getDistanceY (pl_position (players g (the_leader g pid))) (pl_position (players g q)) \<le> 30 \<and>
     getDistanceZ (pl_position (players g (the_leader g pid))) (pl_position (players g q)) \<le> 1 \<and>
     (pl_notGainInFight (players g q) \<or>
      (\<exists>t. ticksMap (the_party g pid) q = Some t \<and> (now g - t) mod 2 ^ 64 \<le> pzLocked g mod 2 ^ 64))"

lemma canUse_may_share:
  "canUseSharedExperience g pid q \<longleftrightarrow> memberList (the_party g pid) \<noteq> [] \<and> may_share g pid q"
  unfolding canUseSharedExperience_def may_share_def highestLevel_Max [symmetric]
    minSharedLevel_iff [symmetric] Let_def areInRange3_def
  by (auto simp: not_less split: option.split)

lemma canEnable_frame:
  assumes "players h = players g" "now h = now g" "pzLocked h = pzLocked g"
    "leader (the_party h pid) = leader (the_party g pid)"
    "memberList (the_party h pid) = memberList (the_party g pid)"
    "ticksMap (the_party h pid) = ticksMap (the_party g pid)"
  shows "canEnableSharedExperience h pid = canEnableSharedExperience g pid"
proof -
  have "the_leader h pid = the_leader g pid" using assms(4) by (simp add: the_leader_def)
  then have "canUseSharedExperience h pid q = canUseSharedExperience g pid q" for q
    using assms by (simp add: canUse_may_share may_share_def)
  then show ?thesis
    using assms(5) \<open>the_leader h pid = the_leader g pid\<close>
    by (simp add: canEnableSharedExperience_def list_all_iff)
qed

text \<open>
  Shared experience is enabled when it should be: after \<open>updateSharedExperience\<close> on a
  party that shares, the flag says whether the party has a member and everyone in it, the
  leader included, satisfies \<open>may_share\<close> in the store that results.
\<close>

theorem shared_experience_flag:
  assumes "parties g pid = Some p" and "sharedExpActive p"
  shows "let h = updateSharedExperience pid g in
    sharedExpEnabled (the_party h pid) \<longleftrightarrow>
      memberList p \<noteq> [] \<and> may_share h pid (the_leader h pid) \<and> (\<forall>m \<in> set (memberList p). may_share h pid m)"
proof -
  define r where "r = canEnableSharedExperience g pid"
  let ?u = "upd_party pid (\<lambda>p. p\<lparr>sharedExpEnabled := r\<rparr>) g"
  let ?h = "updateSharedExperience pid g"
  have p: "the_party g pid = p" using assms(1) by (simp add: the_party_def)
  have u: "the_party ?u pid = p\<lparr>sharedExpEnabled := r\<rparr>" "now ?u = now g" "pzLocked ?u = pzLocked g"
    using assms(1) by (simp_all add: the_party_def upd_party_def)
  have h: "?h = (if r \<noteq> sharedExpEnabled p then updateAllPartyIcons pid ?u else g)"
    using assms(2) p by (simp add: updateSharedExperience_def Let_def r_def)
  have "canEnableSharedExperience (updateAllPartyIcons pid ?u) pid = r"
    unfolding r_def by (rule canEnable_frame) (simp_all add: u p r_def [symmetric])
  moreover have "?h = updateAllPartyIcons pid ?u \<or> ?h = g" by (simp only: h split: if_split) blast
  ultimately have "canEnableSharedExperience ?h pid = r" by (metis r_def)
  moreover have e: "the_party ?h pid = p\<lparr>sharedExpEnabled := r\<rparr>"
  proof (cases "r = sharedExpEnabled p")
    case True
    then have "?h = g" by (simp add: h)
    then show ?thesis using p True by simp
  next
    case False
    then have "?h = updateAllPartyIcons pid ?u" unfolding h by (rule if_P)
    then show ?thesis by (simp only: icons.quiet_the_party u)
  qed
  then have "sharedExpEnabled (the_party ?h pid) = r" "memberList (the_party ?h pid) = memberList p"
    by simp_all
  ultimately show ?thesis
    by (auto simp: Let_def canEnableSharedExperience_def canUse_may_share list_all_iff)
qed

theorem shared_experience_flag_witness:
  "\<exists>g p. parties g 0 = Some p \<and> sharedExpActive p \<and> \<not> sharedExpEnabled (the_party (updateSharedExperience 0 g) 0)"
proof -
  fix p0 :: party
  let ?p = "p0\<lparr>memberList := [], sharedExpActive := True\<rparr>"
  let ?g = "demo_store\<lparr>parties := [0 \<mapsto> ?p]\<rparr>"
  have "parties ?g 0 = Some ?p" "sharedExpActive ?p" by simp_all
  with shared_experience_flag [OF this] show ?thesis
    by (intro exI [of _ ?g] exI [of _ ?p]) (simp add: Let_def)
qed

end
