(* ===== verification/Otb.thy ===== *)
theory Otb imports Streams begin

text \<open>
  The binary tree files of fileloader.cpp (\<open>OTB::Loader\<close>): the constructor's checks, the
  parser with its stack of open nodes, and the unescaping of a node's properties. The
  file is a list of bytes and an iterator is a position in it.
\<close>

section \<open>The loader\<close>

definition ESCAPE :: u8 where "ESCAPE = 0xFD"
definition START :: u8 where "START = 0xFE"
definition END_BYTE :: u8 where "END_BYTE = 0xFF"

lemmas node_chars = ESCAPE_def START_def END_BYTE_def

datatype load_error = InvalidOTBFormat

datatype otb_node = OtbNode (node_type: u8) (propsBegin: nat) (propsEnd: nat) (node_children: "otb_node list")

text \<open>A node that is still open: its end of properties is not known until its first child or its end.\<close>

record open_node =
  on_type :: u8
  on_begin :: nat
  on_end :: "nat option"
  on_children :: "otb_node list"

definition open_at :: "u8 \<Rightarrow> nat \<Rightarrow> open_node" where
  "open_at ty b = \<lparr>on_type = ty, on_begin = b, on_end = None, on_children = []\<rparr>"

text \<open>\<open>if (currentNode.children.empty()) currentNode.propsEnd = it;\<close>\<close>

definition mark_end :: "nat \<Rightarrow> open_node \<Rightarrow> open_node" where
  "mark_end it n = (if on_children n = [] then n\<lparr>on_end := Some it\<rparr> else n)"

definition close_node :: "open_node \<Rightarrow> otb_node" where
  "close_node n = OtbNode (on_type n) (on_begin n) (the (on_end n)) (on_children n)"

definition add_child :: "otb_node \<Rightarrow> open_node \<Rightarrow> open_node" where
  "add_child c n = n\<lparr>on_children := on_children n @ [c]\<rparr>"

text \<open>
  The loop of \<open>parseTree\<close> from position \<open>it\<close> on the rest of the file. The stack holds
  the open nodes, innermost first; a popped node enters its parent. The root, once popped,
  is the last argument.
\<close>

fun parse_loop :: "nat \<Rightarrow> bytes \<Rightarrow> open_node list \<Rightarrow> otb_node option \<Rightarrow> load_error + otb_node" where
  "parse_loop it [] stack root =
     (if stack \<noteq> [] then Inl InvalidOTBFormat
      else (case root of None \<Rightarrow> Inl InvalidOTBFormat | Some r \<Rightarrow> Inr r))"
| "parse_loop it (b # bs) stack root =
     (if b = START then
        (case stack of [] \<Rightarrow> Inl InvalidOTBFormat
         | cur # st \<Rightarrow>
            (case bs of [] \<Rightarrow> Inl InvalidOTBFormat
             | ty # bs' \<Rightarrow> parse_loop (it + 2) bs' (open_at ty (it + 2) # mark_end it cur # st) root))
      else if b = END_BYTE then
        (case stack of [] \<Rightarrow> Inl InvalidOTBFormat
         | cur # st \<Rightarrow>
            (let n = close_node (mark_end it cur) in
             case st of [] \<Rightarrow> parse_loop (it + 1) bs [] (Some n)
             | par # st' \<Rightarrow> parse_loop (it + 1) bs (add_child n par # st') root))
      else if b = ESCAPE then
        (case bs of [] \<Rightarrow> Inl InvalidOTBFormat | _ # bs' \<Rightarrow> parse_loop (it + 2) bs' stack root)
      else parse_loop (it + 1) bs stack root)"

definition parseTree :: "bytes \<Rightarrow> load_error + otb_node" where
  "parseTree content =
     (if content ! 4 \<noteq> START then Inl InvalidOTBFormat
      else parse_loop 6 (drop 6 content) [open_at (content ! 5) 6] None)"

definition minimalSize :: nat where "minimalSize = 4 + 1 + 1 + 1"

definition wildcard :: bytes where "wildcard = [0, 0, 0, 0]"

text \<open>The constructor: the mapped file, or the exception it throws.\<close>

definition Loader :: "bytes \<Rightarrow> bytes \<Rightarrow> load_error + bytes" where
  "Loader acceptedIdentifier content =
     (if length content \<le> minimalSize then Inl InvalidOTBFormat
      else (let fileIdentifier = take 4 content in
            if fileIdentifier \<noteq> acceptedIdentifier \<and> fileIdentifier \<noteq> wildcard
            then Inl InvalidOTBFormat else Inr content))"

definition load_tree :: "bytes \<Rightarrow> bytes \<Rightarrow> load_error + otb_node" where
  "load_tree ident content = (case Loader ident content of Inl e \<Rightarrow> Inl e | Inr f \<Rightarrow> parseTree f)"

text \<open>The filter of \<open>getProps\<close>, with \<open>lastEscaped\<close> as the first argument.\<close>

fun unescape :: "bool \<Rightarrow> bytes \<Rightarrow> bytes" where
  "unescape lastEscaped [] = []"
| "unescape lastEscaped (b # bs) =
     (let esc = (b = ESCAPE \<and> \<not> lastEscaped) in
      if esc then unescape esc bs else b # unescape esc bs)"

definition getProps :: "bytes \<Rightarrow> otb_node \<Rightarrow> bytes option" where
  "getProps content n =
     (let size = propsEnd n - propsBegin n in
      if size = 0 then None else Some (unescape False (take size (drop (propsBegin n) content))))"

section \<open>The format\<close>

text \<open>A tree of typed nodes with properties, and how such a file is written.\<close>

datatype otb_tree = OtbTree (tree_type: u8) (tree_props: bytes) (tree_kids: "otb_tree list")

fun escape :: "bytes \<Rightarrow> bytes" where
  "escape [] = []"
| "escape (b # bs) =
     (if b = START \<or> b = END_BYTE \<or> b = ESCAPE then ESCAPE # b # escape bs else b # escape bs)"

fun serialize :: "otb_tree \<Rightarrow> bytes" where
  "serialize (OtbTree ty ps ks) = START # ty # escape ps @ concat (map serialize ks) @ [END_BYTE]"

text \<open>What the loader makes of a node: the type, the unescaped properties and the children.\<close>

fun read_back :: "bytes \<Rightarrow> otb_node \<Rightarrow> otb_tree" where
  "read_back content (OtbNode ty b e ks) =
     OtbTree ty (case getProps content (OtbNode ty b e ks) of None \<Rightarrow> [] | Some ps \<Rightarrow> ps) (map (read_back content) ks)"

section \<open>Round trip\<close>

lemma unescape_escape: "unescape False (escape ps) = ps"
  by (induction ps) (auto simp: Let_def node_chars)

lemma parse_escape:
  "parse_loop it (escape ps @ rest) st root = parse_loop (it + length (escape ps)) rest st root"
proof (induction ps arbitrary: it)
  case (Cons b ps)
  have "ESCAPE \<noteq> START" "ESCAPE \<noteq> END_BYTE" by (simp_all add: node_chars)
  with Cons show ?case by (simp add: add.assoc)
qed simp

lemma read_back_props:
  assumes "content = pre @ escape ps @ rest" and "b = length pre" and "e = length pre + length (escape ps)"
  shows "(case getProps content (OtbNode ty b e ks) of None \<Rightarrow> [] | Some ps \<Rightarrow> ps) = ps"
proof (cases "ps = []")
  case True
  then show ?thesis using assms by (simp add: getProps_def)
next
  case False
  then have "escape ps \<noteq> []" by (cases ps) auto
  then show ?thesis using assms unescape_escape [of ps] by (simp add: getProps_def)
qed

text \<open>
  Parsing a written node below an open one adds the node that reads back as it
  (\<open>parses_node\<close>); a written forest then adds the nodes in order.
\<close>

definition parses_node :: "bytes \<Rightarrow> otb_tree \<Rightarrow> bool" where
  "parses_node content t \<longleftrightarrow> (\<forall>pre rest cur st root. content = pre @ serialize t @ rest \<longrightarrow>
     (\<exists>n. read_back content n = t \<and>
       parse_loop (length pre) (serialize t @ rest) (cur # st) root =
       parse_loop (length pre + length (serialize t)) rest
         (add_child n (mark_end (length pre) cur) # st) root))"

lemma parses_nodeD:
  assumes "parses_node content t" "content = pre @ serialize t @ rest"
  obtains n where "read_back content n = t"
    "parse_loop (length pre) (serialize t @ rest) (cur # st) root =
     parse_loop (length pre + length (serialize t)) rest (add_child n (mark_end (length pre) cur) # st) root"
  using assms(1) [unfolded parses_node_def, rule_format, OF assms(2)] that by blast

definition with_kids :: "nat \<Rightarrow> otb_node list \<Rightarrow> open_node \<Rightarrow> open_node" where
  "with_kids it ns n = (if ns = [] then n else (mark_end it n)\<lparr>on_children := on_children n @ ns\<rparr>)"

lemma parse_forest:
  "(\<And>k. k \<in> set ks \<Longrightarrow> parses_node content k) \<Longrightarrow>
   content = pre @ concat (map serialize ks) @ rest \<Longrightarrow>
   \<exists>ns. map (read_back content) ns = ks \<and>
     parse_loop (length pre) (concat (map serialize ks) @ rest) (c # st) root =
     parse_loop (length pre + length (concat (map serialize ks))) rest
       (with_kids (length pre) ns c # st) root"
proof (induction ks arbitrary: pre c)
  case Nil
  then show ?case by (simp add: with_kids_def)
next
  case (Cons k ks)
  let ?c1 = "\<lambda>n. add_child n (mark_end (length pre) c)"
  have f: "content = pre @ serialize k @ (concat (map serialize ks) @ rest)"
    and f2: "content = (pre @ serialize k) @ concat (map serialize ks) @ rest"
    using Cons.prems(2) by simp_all
  obtain n where n: "read_back content n = k"
    "parse_loop (length pre) (serialize k @ concat (map serialize ks) @ rest) (c # st) root =
     parse_loop (length pre + length (serialize k)) (concat (map serialize ks) @ rest) (?c1 n # st) root"
    by (rule parses_nodeD [OF Cons.prems(1) [of k] f]) simp
  obtain ns where ns: "map (read_back content) ns = ks"
    "parse_loop (length (pre @ serialize k)) (concat (map serialize ks) @ rest) (?c1 n # st) root =
     parse_loop (length (pre @ serialize k) + length (concat (map serialize ks))) rest
       (with_kids (length (pre @ serialize k)) ns (?c1 n) # st) root"
    using Cons.IH [OF Cons.prems(1) f2, of "?c1 n"] by auto
  have "with_kids (length (pre @ serialize k)) ns (?c1 n) = with_kids (length pre) (n # ns) c"
    by (auto simp: with_kids_def add_child_def mark_end_def)
  with n ns show ?case
    by (intro exI [of _ "n # ns"]) (simp add: add.assoc)
qed

text \<open>From the properties of a node to its closing byte.\<close>

lemma parse_body:
  assumes ks: "\<And>k. k \<in> set ks \<Longrightarrow> parses_node content k"
    and f: "content = pre @ escape ps @ concat (map serialize ks) @ [END_BYTE] @ rest"
  shows "\<exists>m. read_back content m = OtbTree ty ps ks \<and>
    parse_loop (length pre) (escape ps @ concat (map serialize ks) @ [END_BYTE] @ rest)
      (open_at ty (length pre) # st) root =
    (let it = length pre + length (escape ps @ concat (map serialize ks) @ [END_BYTE]) in
     case st of [] \<Rightarrow> parse_loop it rest [] (Some m) | par # st' \<Rightarrow> parse_loop it rest (add_child m par # st') root)"
proof -
  let ?pre2 = "pre @ escape ps" and ?new = "open_at ty (length pre)"
  have f2: "content = ?pre2 @ concat (map serialize ks) @ ([END_BYTE] @ rest)" using f by simp
  obtain ns where ns: "map (read_back content) ns = ks"
    "parse_loop (length ?pre2) (concat (map serialize ks) @ [END_BYTE] @ rest) (?new # st) root =
     parse_loop (length ?pre2 + length (concat (map serialize ks))) ([END_BYTE] @ rest)
       (with_kids (length ?pre2) ns ?new # st) root"
    using parse_forest [OF ks f2] by blast
  let ?n = "mark_end (length ?pre2 + length (concat (map serialize ks))) (with_kids (length ?pre2) ns ?new)"
  have close: "close_node ?n = OtbNode ty (length pre) (length pre + length (escape ps)) ns"
    using ns(1) by (auto simp: with_kids_def close_node_def mark_end_def open_at_def)
  have chars: "END_BYTE \<noteq> START" by (simp add: node_chars)
  have "parse_loop (length pre) (escape ps @ concat (map serialize ks) @ [END_BYTE] @ rest) (?new # st) root =
      parse_loop (length ?pre2) (concat (map serialize ks) @ [END_BYTE] @ rest) (?new # st) root"
    by (subst parse_escape) simp
  also have "\<dots> = parse_loop (length ?pre2 + length (concat (map serialize ks))) ([END_BYTE] @ rest)
       (with_kids (length ?pre2) ns ?new # st) root" by (rule ns(2))
  also have "\<dots> = (let it = length ?pre2 + length (concat (map serialize ks)) + 1;
          m = OtbNode ty (length pre) (length pre + length (escape ps)) ns in
       case st of [] \<Rightarrow> parse_loop it rest [] (Some m) | par # st' \<Rightarrow> parse_loop it rest (add_child m par # st') root)"
    using chars unfolding close [symmetric] by (cases st) (simp_all add: Let_def)
  moreover have "read_back content (OtbNode ty (length pre) (length pre + length (escape ps)) ns) = OtbTree ty ps ks"
    using ns(1) read_back_props [where content = content and pre = pre and ps = ps] f by simp
  ultimately show ?thesis
    by (intro exI [of _ "OtbNode ty (length pre) (length pre + length (escape ps)) ns"])
      (simp add: add.assoc Let_def)
qed

lemma parse_node: "parses_node content t"
proof (induction t)
  case (OtbTree ty ps ks)
  show ?case unfolding parses_node_def
  proof (intro allI impI)
    fix pre rest cur st root
    assume "content = pre @ serialize (OtbTree ty ps ks) @ rest"
    then have f: "content = (pre @ [START, ty]) @ escape ps @ concat (map serialize ks) @ [END_BYTE] @ rest" by simp
    from parse_body [OF OtbTree.IH f, of ty "mark_end (length pre) cur # st" root]
    obtain n where "read_back content n = OtbTree ty ps ks"
      "parse_loop (length (pre @ [START, ty])) (escape ps @ concat (map serialize ks) @ [END_BYTE] @ rest)
        (open_at ty (length (pre @ [START, ty])) # mark_end (length pre) cur # st) root =
       parse_loop (length (pre @ [START, ty]) + length (escape ps @ concat (map serialize ks) @ [END_BYTE])) rest
         (add_child n (mark_end (length pre) cur) # st) root"
      unfolding Let_def list.case by blast
    then show "\<exists>n. read_back content n = OtbTree ty ps ks \<and>
       parse_loop (length pre) (serialize (OtbTree ty ps ks) @ rest) (cur # st) root =
       parse_loop (length pre + length (serialize (OtbTree ty ps ks))) rest
         (add_child n (mark_end (length pre) cur) # st) root"
      by (intro exI [of _ n]) (simp add: add.assoc)
  qed
qed

text \<open>
  C37. What is written is read back: a file that consists of the identifier the loader
  accepts (or of the wildcard) and of a tree of nodes written with escaped properties is
  parsed to nodes that read back as exactly that tree, for all types, properties and
  depths; the exception is a file of one node without properties, which is too short.
\<close>

theorem otb_round_trip:
  assumes "length ident = 4" and "ident' = ident \<or> ident' = wildcard"
  shows "case load_tree ident (ident' @ serialize t) of
      Inl e \<Rightarrow> length (serialize t) \<le> 3
    | Inr n \<Rightarrow> read_back (ident' @ serialize t) n = t \<and> length (serialize t) > 3"
proof -
  obtain ty ps ks where t: "t = OtbTree ty ps ks" by (cases t)
  have l: "length ident' = 4" using assms by (auto simp: wildcard_def)
  let ?content = "ident' @ serialize t"
  show ?thesis
  proof (cases "length (serialize t) \<le> 3")
    case True
    then show ?thesis using l by (simp add: load_tree_def Loader_def minimalSize_def)
  next
    case False
    let ?pre = "ident' @ [START, ty]"
    have f: "?content = ?pre @ escape ps @ concat (map serialize ks) @ [END_BYTE] @ []" by (simp add: t)
    from parse_body [OF parse_node f, of ty "[]" None]
    obtain n where n: "read_back ?content n = t"
      "parse_loop (length ?pre) (escape ps @ concat (map serialize ks) @ [END_BYTE] @ [])
         [open_at ty (length ?pre)] None =
       parse_loop (length ?pre + length (escape ps @ concat (map serialize ks) @ [END_BYTE])) [] [] (Some n)"
      unfolding Let_def list.case t [symmetric] by blast
    have pre: "length ?pre = 6" using l by simp
    have "Loader ident ?content = Inr ?content"
      using False l assms by (auto simp: Loader_def minimalSize_def)
    moreover have "?content ! 4 = START" "?content ! 5 = ty"
      "drop 6 ?content = escape ps @ concat (map serialize ks) @ [END_BYTE]"
      using l by (simp_all add: t nth_append)
    ultimately have "load_tree ident ?content = Inr n"
      using n(2) [unfolded pre] by (simp add: load_tree_def parseTree_def)
    with n(1) False show ?thesis by simp
  qed
qed

definition demo_tree :: otb_tree where
  "demo_tree = OtbTree 0 [0xFE, 7] [OtbTree 0xFF [] []]"

theorem otb_round_trip_witness:
  "case load_tree [1, 2, 3, 4] ([1, 2, 3, 4] @ serialize demo_tree) of
      Inl e \<Rightarrow> False | Inr n \<Rightarrow> read_back ([1, 2, 3, 4] @ serialize demo_tree) n = demo_tree"
proof -
  have "length (serialize demo_tree) > 3" by (simp add: demo_tree_def)
  then show ?thesis
    using otb_round_trip [of "[1, 2, 3, 4]" "[1, 2, 3, 4]" demo_tree]
    by (cases "load_tree [1, 2, 3, 4] ([1, 2, 3, 4] @ serialize demo_tree)") simp_all
qed

end
