(* ===== verification/Wildcard.thy ===== *)
theory Wildcard imports Prelude "HOL-Library.Sublist" begin

text \<open>
  The tree of the names of the online players (wildcardtree.cpp): a trie that
  completes the unambiguous prefix of a name. Its contents are a set of names; the
  theory shows that the operations refine those of the set.
\<close>

section \<open>The tree\<close>

text \<open>
  \<open>std::map<char, WildcardTreeNode>\<close> is a list of keys and nodes without repeated keys;
  the code looks at its order only when it has one entry.
\<close>

datatype wnode = WNode (children: "(char \<times> wnode) list") (breakpoint: bool)

definition getChild :: "char \<Rightarrow> wnode \<Rightarrow> wnode option" where
  "getChild ch n = map_of (children n) ch"

text \<open>Writing through the pointer to a child, and erasing a child.\<close>

fun put_in :: "char \<Rightarrow> wnode \<Rightarrow> (char \<times> wnode) list \<Rightarrow> (char \<times> wnode) list" where
  "put_in ch k [] = [(ch, k)]"
| "put_in ch k ((c, n) # cs) = (if c = ch then (ch, k) # cs else (c, n) # put_in ch k cs)"

definition put_child :: "char \<Rightarrow> wnode \<Rightarrow> wnode \<Rightarrow> wnode" where
  "put_child ch k n = WNode (put_in ch k (children n)) (breakpoint n)"

definition erase_child :: "char \<Rightarrow> wnode \<Rightarrow> wnode" where
  "erase_child ch n = WNode (filter (\<lambda>(c, _). c \<noteq> ch) (children n)) (breakpoint n)"

definition addChild :: "char \<Rightarrow> bool \<Rightarrow> wnode \<Rightarrow> wnode" where
  "addChild ch bp n =
     (case getChild ch n of
        Some child \<Rightarrow>
          if bp \<and> \<not> breakpoint child then put_child ch (WNode (children child) True) n else n
      | None \<Rightarrow> put_child ch (WNode [] bp) n)"

text \<open>
  \<open>insert\<close>: the walk of the loop with the pointer \<open>cur\<close>, as a recursion. For the empty
  string \<open>str.length() - 1\<close> wraps and the loop reads past the string: \<open>None\<close>.
\<close>

fun insert_walk :: "string \<Rightarrow> wnode \<Rightarrow> wnode" where
  "insert_walk [] n = n"
| "insert_walk [ch] n = addChild ch True n"
| "insert_walk (ch # ch2 # cs) n =
     (let n1 = addChild ch False n
      in put_child ch (insert_walk (ch2 # cs) (the (getChild ch n1))) n1)"

definition insert_name :: "string \<Rightarrow> wnode \<Rightarrow> wnode option" where
  "insert_name str n = (if str = [] then None else Some (insert_walk str n))"

text \<open>
  \<open>remove\<close>: down the path, clear the breakpoint, and erase the nodes on the way back
  that are left without children and breakpoint. \<open>None\<close>: the path does not exist.
\<close>

fun remove_walk :: "string \<Rightarrow> wnode \<Rightarrow> wnode option" where
  "remove_walk [] n = Some (WNode (children n) False)"
| "remove_walk (ch # cs) n =
     (case getChild ch n of None \<Rightarrow> None
      | Some k \<Rightarrow>
         (case remove_walk cs k of None \<Rightarrow> None
          | Some k' \<Rightarrow>
              Some (if children k' \<noteq> [] \<or> breakpoint k' then put_child ch k' n else erase_child ch n)))"

definition remove_name :: "string \<Rightarrow> wnode \<Rightarrow> wnode" where
  "remove_name str n = (case remove_walk str n of None \<Rightarrow> n | Some n' \<Rightarrow> n')"

datatype find_result = NOERROR | PLAYERWITHTHISNAMEISNOTONLINE | NAMEISTOOAMBIGUOUS

fun descend :: "string \<Rightarrow> wnode \<Rightarrow> wnode option" where
  "descend [] n = Some n"
| "descend (ch # cs) n = (case getChild ch n of None \<Rightarrow> None | Some k \<Rightarrow> descend cs k)"

fun complete :: "wnode \<Rightarrow> string \<Rightarrow> find_result \<times> string" where
  "complete (WNode [] bp) result = (NOERROR, result)"
| "complete (WNode [(ch, k)] bp) result =
     (if bp then (NAMEISTOOAMBIGUOUS, result) else complete k (result @ [ch]))"
| "complete (WNode (x # y # zs) bp) result = (NAMEISTOOAMBIGUOUS, result)"

definition findOne :: "wnode \<Rightarrow> string \<Rightarrow> string \<Rightarrow> find_result \<times> string" where
  "findOne n query result =
     (case descend query n of None \<Rightarrow> (PLAYERWITHTHISNAMEISNOTONLINE, result)
      | Some cur \<Rightarrow> complete cur query)"

section \<open>The names of a tree\<close>

definition has :: "wnode \<Rightarrow> string \<Rightarrow> bool" where
  "has n s = (case descend s n of None \<Rightarrow> False | Some k \<Rightarrow> breakpoint k)"

lemma has_Nil [simp]: "has n [] = breakpoint n"
  by (simp add: has_def)

lemma has_Cons [simp]: "has n (c # cs) = (case getChild c n of None \<Rightarrow> False | Some k \<Rightarrow> has k cs)"
  by (simp add: has_def split: option.split)

text \<open>No key twice, and below the root no node without children and breakpoint.\<close>

definition alive :: "wnode \<Rightarrow> bool" where
  "alive n \<longleftrightarrow> breakpoint n \<or> children n \<noteq> []"

inductive wf_node :: "wnode \<Rightarrow> bool" where
  "distinct (map fst (children n)) \<Longrightarrow> (\<And>c k. (c, k) \<in> set (children n) \<Longrightarrow> wf_node k \<and> alive k) \<Longrightarrow> wf_node n"

inductive_simps wf_node_iff: "wf_node n"

lemma wf_child: "wf_node n \<Longrightarrow> getChild c n = Some k \<Longrightarrow> wf_node k \<and> alive k"
  by (subst (asm) wf_node_iff) (auto simp: getChild_def dest: map_of_SomeD)

lemma put_in_lookup [simp]: "map_of (put_in ch k cs) = (map_of cs)(ch \<mapsto> k)"
  by (induction ch k cs rule: put_in.induct) auto

lemma put_in_keys: "fst ` set (put_in ch k cs) = insert ch (fst ` set cs)"
  by (induction ch k cs rule: put_in.induct) auto

lemma put_in_distinct: "distinct (map fst cs) \<Longrightarrow> distinct (map fst (put_in ch k cs))"
  by (induction ch k cs rule: put_in.induct) (auto simp: put_in_keys)

lemma put_in_set: "(c, n) \<in> set (put_in ch k cs) \<Longrightarrow> (c, n) = (ch, k) \<or> (c, n) \<in> set cs"
  by (induction ch k cs rule: put_in.induct) (auto split: if_splits)

lemma put_in_ne [simp]: "put_in ch k cs \<noteq> []"
  by (induction ch k cs rule: put_in.induct) auto

lemma getChild_put [simp]: "getChild c (put_child ch k n) = (if c = ch then Some k else getChild c n)"
  by (simp add: getChild_def put_child_def)

lemma getChild_erase [simp]: "getChild c (erase_child ch n) = (if c = ch then None else getChild c n)"
proof -
  have "map_of (filter (\<lambda>(c, _). c \<noteq> ch) xs) c = (if c = ch then None else map_of xs c)" for xs :: "(char \<times> wnode) list"
    by (induction xs) auto
  then show ?thesis by (simp add: getChild_def erase_child_def)
qed

lemma node_sel [simp]:
  "breakpoint (put_child ch k n) = breakpoint n" "children (put_child ch k n) \<noteq> []"
  "breakpoint (erase_child ch n) = breakpoint n"
  "getChild c (WNode (children n) b) = getChild c n"
  by (simp_all add: put_child_def erase_child_def getChild_def)

lemma wf_put: "wf_node n \<Longrightarrow> wf_node k \<Longrightarrow> alive k \<Longrightarrow> wf_node (put_child ch k n)"
  by (subst wf_node_iff, subst (asm) (1) wf_node_iff)
    (auto simp: put_child_def put_in_distinct dest: put_in_set)

lemma wf_erase: "wf_node n \<Longrightarrow> wf_node (erase_child ch n)"
  by (subst wf_node_iff, subst (asm) wf_node_iff)
    (auto simp: erase_child_def distinct_map_filter)

lemma wf_breakpoint: "wf_node n \<Longrightarrow> wf_node (WNode (children n) b)"
  by (subst wf_node_iff, subst (asm) wf_node_iff) simp

lemma wf_leaf: "wf_node (WNode [] b)"
  by (subst wf_node_iff) simp

section \<open>The operations on the set of names\<close>

lemma put_in_put_in [simp]: "put_in ch k (put_in ch j cs) = put_in ch k cs"
  by (induction ch j cs rule: put_in.induct) auto

lemma put_add: "put_child ch k (addChild ch False n) = put_child ch k n"
  by (simp add: addChild_def put_child_def split: option.split)

lemma getChild_add:
  "getChild c (addChild ch bp n) =
     (if c = ch then Some (case getChild ch n of None \<Rightarrow> WNode [] bp
        | Some k \<Rightarrow> WNode (children k) (breakpoint k \<or> bp))
      else getChild c n)"
  by (cases "getChild ch n"; cases "the (getChild ch n)") (auto simp: addChild_def)

lemma breakpoint_add [simp]: "breakpoint (addChild ch bp n) = breakpoint n"
  by (simp add: addChild_def split: option.split)

lemma has_leaf [simp]: "has (WNode [] b) w \<longleftrightarrow> b \<and> w = []"
  by (cases w) (simp_all add: getChild_def)

lemma has_set_breakpoint: "has (WNode (children k) b) w \<longleftrightarrow> (if w = [] then b else has k w)"
  by (cases w) simp_all

lemma has_insert: "s \<noteq> [] \<Longrightarrow> has (insert_walk s n) w \<longleftrightarrow> w = s \<or> has n w"
proof (induction s n arbitrary: w rule: insert_walk.induct)
  case (1 n)
  then show ?case by simp
next
  case (2 ch n)
  show ?case
    by (cases w) (auto simp: getChild_add has_set_breakpoint split: option.split)
next
  case (3 ch ch2 cs n)
  let ?k = "case getChild ch n of None \<Rightarrow> WNode [] False | Some k \<Rightarrow> k"
  have k: "the (getChild ch (addChild ch False n)) = ?k"
    by (simp add: getChild_add split: option.split)
  have "has (insert_walk (ch2 # cs) ?k) v \<longleftrightarrow> v = ch2 # cs \<or> has ?k v" for v
    using "3.IH" [OF refl] by (simp add: k)
  then show ?case
    by (cases w) (auto simp: Let_def k put_add split: option.splits)
qed

lemma insert_ok: "wf_node n \<Longrightarrow> s \<noteq> [] \<Longrightarrow> wf_node (insert_walk s n) \<and> alive (insert_walk s n)"
proof (induction s n rule: insert_walk.induct)
  case (1 n)
  then show ?case by simp
next
  case (2 ch n)
  let ?k = "case getChild ch n of None \<Rightarrow> WNode [] True | Some k \<Rightarrow> WNode (children k) True"
  have "wf_node (put_child ch ?k n)"
    using 2 by (intro wf_put) (auto simp: wf_leaf alive_def dest: wf_child intro: wf_breakpoint split: option.split)
  moreover have "insert_walk [ch] n = put_child ch ?k n \<or> insert_walk [ch] n = n \<and> getChild ch n \<noteq> None"
    by (auto simp: addChild_def split: option.split)
  moreover have "getChild ch n \<noteq> None \<Longrightarrow> alive n"
    by (cases "children n") (auto simp: getChild_def alive_def)
  ultimately show ?case using 2 by (auto simp: alive_def)
next
  case (3 ch ch2 cs n)
  let ?k = "case getChild ch n of None \<Rightarrow> WNode [] False | Some k \<Rightarrow> k"
  have k: "the (getChild ch (addChild ch False n)) = ?k"
    by (simp add: getChild_add split: option.split)
  have "wf_node ?k" using 3(2) by (auto simp: wf_leaf dest: wf_child split: option.split)
  then have "wf_node (insert_walk (ch2 # cs) ?k) \<and> alive (insert_walk (ch2 # cs) ?k)"
    using "3.IH" [OF refl] by (simp add: k)
  then show ?case using 3(2) by (simp add: Let_def k put_add wf_put alive_def [of "put_child _ _ _"])
qed

lemma dead_has: "\<not> alive n \<Longrightarrow> \<not> has n w"
  by (cases w) (auto simp: alive_def getChild_def)

lemma remove_none: "remove_walk s n = None \<Longrightarrow> \<not> has n s"
  by (induction s n rule: remove_walk.induct) (auto split: option.splits)

lemma has_remove: "remove_walk s n = Some n' \<Longrightarrow> has n' w \<longleftrightarrow> w \<noteq> s \<and> has n w"
proof (induction s n arbitrary: n' w rule: remove_walk.induct)
  case (1 n)
  then show ?case by (auto simp: has_set_breakpoint split: if_splits)
next
  case (2 ch cs n)
  then obtain k k' where k: "getChild ch n = Some k" "remove_walk cs k = Some k'"
    and n': "n' = (if children k' \<noteq> [] \<or> breakpoint k' then put_child ch k' n else erase_child ch n)"
    by (auto split: option.splits)
  note IH = "2.IH" [OF k]
  show ?case
  proof (cases "alive k'")
    case True
    then have "n' = put_child ch k' n" using n' by (auto simp: alive_def)
    then show ?thesis using IH k by (cases w) (auto split: option.split)
  next
    case False
    then have "n' = erase_child ch n" using n' by (auto simp: alive_def)
    then show ?thesis using IH dead_has [OF False] k by (cases w) (auto split: option.split)
  qed
qed

lemma remove_wf: "remove_walk s n = Some n' \<Longrightarrow> wf_node n \<Longrightarrow> wf_node n'"
proof (induction s n arbitrary: n' rule: remove_walk.induct)
  case (1 n)
  then show ?case by (auto intro: wf_breakpoint)
next
  case (2 ch cs n)
  then obtain k k' where k: "getChild ch n = Some k" "remove_walk cs k = Some k'"
    and n': "n' = (if children k' \<noteq> [] \<or> breakpoint k' then put_child ch k' n else erase_child ch n)"
    by (auto split: option.splits)
  have "wf_node k'" using "2.IH" [OF k] wf_child [OF "2.prems"(2) k(1)] by simp
  with n' "2.prems"(2) show ?case by (auto simp: alive_def intro: wf_put wf_erase)
qed

section \<open>Completion\<close>

lemma alive_word: "wf_node n \<Longrightarrow> alive n \<Longrightarrow> \<exists>w. has n w"
proof (induction n rule: wf_node.induct)
  case (1 n)
  show ?case
  proof (cases "breakpoint n")
    case True
    then show ?thesis by (intro exI [of _ "[]"]) simp
  next
    case False
    then obtain c k where ck: "(c, k) \<in> set (children n)"
      using 1(3) by (cases "children n") (auto simp: alive_def)
    then obtain w where "has k w" using 1(2) by blast
    moreover have "getChild c n = Some k" using ck 1(1) by (simp add: getChild_def)
    ultimately show ?thesis by (intro exI [of _ "c # w"]) simp
  qed
qed

lemma complete_unique:
  "wf_node n \<Longrightarrow> alive n \<Longrightarrow> complete n r = (NOERROR, s) \<Longrightarrow> \<exists>w. s = r @ w \<and> (\<forall>v. has n v \<longleftrightarrow> v = w)"
proof (induction n r rule: complete.induct)
  case (1 bp result)
  then show ?case by (auto simp: alive_def)
next
  case (2 ch k bp result)
  have k: "wf_node k" "alive k" using wf_child [OF 2(2), of ch k] by (simp_all add: getChild_def)
  from 2(4) have bp: "\<not> bp" "complete k (result @ [ch]) = (NOERROR, s)" by (auto split: if_splits)
  obtain w where w: "s = (result @ [ch]) @ w" "\<forall>v. has k v \<longleftrightarrow> v = w"
    using "2.IH" [OF bp(1) k bp(2)] by blast
  have "has (WNode [(ch, k)] bp) v \<longleftrightarrow> v = ch # w" for v
    using w(2) bp(1) by (cases v) (auto simp: getChild_def)
  with w(1) show ?case by (intro exI [of _ "ch # w"]) simp
next
  case (3 x y zs bp result)
  then show ?case by simp
qed

lemma complete_ambiguous:
  "wf_node n \<Longrightarrow> alive n \<Longrightarrow> fst (complete n r) \<noteq> NOERROR \<Longrightarrow>
   fst (complete n r) = NAMEISTOOAMBIGUOUS \<and> (\<exists>v w. v \<noteq> w \<and> has n v \<and> has n w)"
proof (induction n r rule: complete.induct)
  case (1 bp result)
  then show ?case by simp
next
  case (2 ch k bp result)
  have k: "wf_node k" "alive k" using wf_child [OF 2(2), of ch k] by (simp_all add: getChild_def)
  show ?case
  proof (cases bp)
    case True
    obtain w where "has k w" using alive_word k by blast
    then have "has (WNode [(ch, k)] bp) (ch # w)" "has (WNode [(ch, k)] bp) []"
      using True by (simp_all add: getChild_def)
    then show ?thesis using True by (metis complete.simps(2) fst_conv list.distinct(1))
  next
    case False
    then obtain v w where "v \<noteq> w" "has k v" "has k w" "fst (complete k (result @ [ch])) = NAMEISTOOAMBIGUOUS"
      using "2.IH" [OF False k] "2.prems"(3) by auto
    then have "ch # v \<noteq> ch # w" "has (WNode [(ch, k)] bp) (ch # v)" "has (WNode [(ch, k)] bp) (ch # w)"
      "fst (complete (WNode [(ch, k)] bp) result) = NAMEISTOOAMBIGUOUS"
      using False by (simp_all add: getChild_def)
    then show ?thesis by blast
  qed
next
  case (3 x y zs bp result)
  obtain c k d j where xy: "x = (c, k)" "y = (d, j)" by (cases x; cases y)
  have "c \<noteq> d" using 3(1) by (subst (asm) wf_node_iff) (simp add: xy)
  then have g: "getChild c (WNode (x # y # zs) bp) = Some k" "getChild d (WNode (x # y # zs) bp) = Some j"
    by (simp_all add: getChild_def xy)
  from wf_child [OF 3(1) g(1)] wf_child [OF 3(1) g(2)] obtain v w where "has k v" "has j w"
    using alive_word by meson
  then have "has (WNode (x # y # zs) bp) (c # v)" "has (WNode (x # y # zs) bp) (d # w)"
    using g by simp_all
  with \<open>c \<noteq> d\<close> show ?case by (metis complete.simps(3) fst_conv list.inject)
qed

lemma descend_has: "descend q n = Some k \<Longrightarrow> has n (q @ w) = has k w"
  by (induction q n rule: descend.induct) (auto split: option.splits)

lemma descend_none: "descend q n = None \<Longrightarrow> \<not> has n (q @ w)"
  by (induction q n rule: descend.induct) (auto split: option.splits)

lemma descend_ok: "descend q n = Some k \<Longrightarrow> wf_node n \<Longrightarrow> q \<noteq> [] \<Longrightarrow> wf_node k \<and> alive k"
proof (induction q n rule: descend.induct)
  case (2 ch cs n)
  then show ?case by (cases cs) (auto dest: wf_child split: option.splits)
qed simp

section \<open>The tree refines the set of names\<close>

datatype name_op = AddName string | RemoveName string

text \<open>\<open>insert\<close> is not called on an empty name, for which it has no defined result.\<close>

fun tree_step :: "name_op \<Rightarrow> wnode \<Rightarrow> wnode" where
  "tree_step (AddName s) n = (case insert_name s n of None \<Rightarrow> n | Some n' \<Rightarrow> n')"
| "tree_step (RemoveName s) n = remove_name s n"

fun set_step :: "name_op \<Rightarrow> string set \<Rightarrow> string set" where
  "set_step (AddName s) N = (if s = [] then N else insert s N)"
| "set_step (RemoveName s) N = N - {s}"

definition tree_rel :: "wnode \<Rightarrow> string set \<Rightarrow> bool" where
  "tree_rel n N \<longleftrightarrow> wf_node n \<and> (\<forall>s. has n s \<longleftrightarrow> s \<in> N)"

interpretation names: refinement tree_step set_step tree_rel
proof
  fix n N p assume rel: "tree_rel n N"
  show "tree_rel (tree_step p n) (set_step p N)"
  proof (cases p)
    case (AddName s)
    then show ?thesis
      using rel insert_ok [of n s] by (auto simp: tree_rel_def insert_name_def has_insert)
  next
    case (RemoveName s)
    then show ?thesis
      using rel by (cases "remove_walk s n")
        (auto simp: tree_rel_def remove_name_def has_remove dest: remove_none remove_wf)
  qed
qed

text \<open>
  The name tree answers for the set of names: after any additions and removals of
  names, the query of a non-empty prefix reports that nobody is online when no name of the
  set has the prefix, returns the name when exactly one has it, and reports ambiguity when
  several have it; removal leaves nothing of a name behind that could match.
\<close>

theorem findOne_completes_prefix:
  assumes "q \<noteq> []" and "n = fold tree_step ops (WNode [] False)" and "N = fold set_step ops {}"
  shows "if \<forall>s\<in>N. \<not> prefix q s then findOne n q r = (PLAYERWITHTHISNAMEISNOTONLINE, r)
    else if \<exists>!s. s \<in> N \<and> prefix q s then findOne n q r = (NOERROR, THE s. s \<in> N \<and> prefix q s)
    else fst (findOne n q r) = NAMEISTOOAMBIGUOUS"
proof -
  have "tree_rel (WNode [] False) {}" by (simp add: tree_rel_def wf_leaf)
  from names.run_rel [OF this, of ops] have wf: "wf_node n" and N: "\<And>s. has n s \<longleftrightarrow> s \<in> N"
    by (auto simp: tree_rel_def assms)
  show ?thesis
  proof (cases "descend q n")
    case None
    then have "\<forall>s\<in>N. \<not> prefix q s" using descend_none N by (auto simp: prefix_def)
    with None show ?thesis by (simp add: findOne_def)
  next
    case (Some k)
    note k = descend_ok [OF Some wf assms(1)]
    have m: "s \<in> N \<and> prefix q s \<longleftrightarrow> (\<exists>w. s = q @ w \<and> has k w)" for s
      using descend_has [OF Some] N by (auto simp: prefix_def)
    obtain w0 where "has k w0" using alive_word k by blast
    then have some: "\<not> (\<forall>s\<in>N. \<not> prefix q s)" using m by blast
    show ?thesis
    proof (cases "fst (complete k q) = NOERROR")
      case True
      then obtain w where w: "complete k q = (NOERROR, q @ w)" "\<forall>v. has k v \<longleftrightarrow> v = w"
        using complete_unique [of k q "snd (complete k q)"] k by (cases "complete k q") auto
      then have "s \<in> N \<and> prefix q s \<longleftrightarrow> s = q @ w" for s using m by auto
      with some w(1) Some show ?thesis by (simp add: findOne_def)
    next
      case False
      from complete_ambiguous [OF _ _ this] k obtain v w where vw: "v \<noteq> w" "has k v" "has k w"
        "fst (complete k q) = NAMEISTOOAMBIGUOUS" by blast
      then have "q @ v \<in> N \<and> prefix q (q @ v)" "q @ w \<in> N \<and> prefix q (q @ w)" using m by blast+
      with vw(1) have "\<not> (\<exists>!s. s \<in> N \<and> prefix q s)" by (metis same_append_eq)
      then show ?thesis using some vw(4) Some by (simp only: findOne_def option.case if_False)
    qed
  qed
qed

theorem findOne_completes_prefix_witness:
  "findOne (fold tree_step [AddName ''anna'', AddName ''bert'', RemoveName ''bert''] (WNode [] False)) ''an'' [] =
     (NOERROR, ''anna'')"
proof -
  have N: "fold set_step [AddName ''anna'', AddName ''bert'', RemoveName ''bert''] {} = {''anna''}"
    by (simp add: insert_commute)
  have "\<exists>!s. s \<in> {''anna''} \<and> prefix ''an'' s" "(THE s. s \<in> {''anna''} \<and> prefix ''an'' s) = ''anna''"
    by (auto intro: the_equality)
  with findOne_completes_prefix [of "''an''", OF _ refl refl,
      of "[AddName ''anna'', AddName ''bert'', RemoveName ''bert'']" "[]"]
  show ?thesis unfolding N by auto
qed

end
