(* ===== verification/Admission.thy ===== *)
theory Admission imports Prelude begin

text \<open>
  Who may connect and who has to wait: the connection throttle of ban.cpp
  (\<open>Ban::acceptConnection\<close>) and the login queue of waitlist.cpp. Times are the 64-bit
  milliseconds of \<open>OTSYS_TIME\<close>.
\<close>

section \<open>The connection throttle\<close>

record connect_block =
  lastAttempt :: u64
  blockTime :: u64
  cb_count :: u32

type_synonym ip_connect_map = "u32 \<Rightarrow> connect_block option"

definition acceptConnection :: "u32 \<Rightarrow> u64 \<Rightarrow> ip_connect_map \<Rightarrow> bool \<times> ip_connect_map" where
  "acceptConnection clientip currentTime m =
     (case m clientip of
        None \<Rightarrow> (True, m(clientip \<mapsto> \<lparr>lastAttempt = currentTime, blockTime = 0, cb_count = 1\<rparr>))
      | Some b \<Rightarrow>
          if blockTime b > currentTime then
            (False, m(clientip \<mapsto> b\<lparr>blockTime := blockTime b + 250\<rparr>))
          else
            (let timeDiff = sint (currentTime - lastAttempt b);
                 b = b\<lparr>lastAttempt := currentTime\<rparr>
             in if timeDiff \<le> 5000 then
                  (let b = b\<lparr>cb_count := cb_count b + 1\<rparr> in
                   if cb_count b > 5 then
                     (let b = b\<lparr>cb_count := 0\<rparr> in
                      if timeDiff \<le> 500 then (False, m(clientip \<mapsto> b\<lparr>blockTime := currentTime + 3000\<rparr>))
                      else (True, m(clientip \<mapsto> b)))
                   else (True, m(clientip \<mapsto> b)))
                else (True, m(clientip \<mapsto> b\<lparr>cb_count := 1\<rparr>))))"

text \<open>The answers to the attempts of one client at the given times.\<close>

fun attempts :: "u32 \<Rightarrow> nat list \<Rightarrow> ip_connect_map \<Rightarrow> bool list" where
  "attempts ip [] m = []"
| "attempts ip (t # ts) m =
     (let (ok, m') = acceptConnection ip (of_nat t) m in ok # attempts ip ts m')"

fun gaps :: "nat \<Rightarrow> nat list \<Rightarrow> nat list" where
  "gaps t [] = []"
| "gaps t (d # ds) = (t + d) # gaps (t + d) ds"

lemma sint_gap: "t + d < 2 ^ 63 \<Longrightarrow> sint (of_nat (t + d) - of_nat t :: u64) = int d"
proof -
  assume b: "t + d < 2 ^ 63"
  have "(of_nat (t + d) - of_nat t :: u64) = of_nat d" by simp
  moreover have "sint (of_nat d :: u64) = int d"
    using b by (simp add: sint_uint unsigned_of_nat take_bit_nat_eq_self signed_take_bit_int_eq_self)
  ultimately show ?thesis by simp
qed

lemma of_nat_le: "t < 2 ^ 63 \<Longrightarrow> u < 2 ^ 63 \<Longrightarrow> (of_nat t :: u64) < of_nat u \<longleftrightarrow> t < u"
  by (simp add: word_less_nat_alt unsigned_of_nat take_bit_nat_eq_self)

lemma patient_run:
  "m ip = Some \<lparr>lastAttempt = of_nat t, blockTime = 0, cb_count = 1\<rparr> \<Longrightarrow>
   \<forall>d \<in> set ds. 5000 < d \<Longrightarrow> t + sum_list ds < 2 ^ 63 \<Longrightarrow>
   attempts ip (gaps t ds) m = replicate (length ds) True"
proof (induction ds arbitrary: t m)
  case Nil
  then show ?case by simp
next
  case (Cons d ds)
  have b: "t + d < 2 ^ 63" using Cons.prems(3) by simp
  let ?b = "\<lparr>lastAttempt = of_nat (t + d), blockTime = 0, cb_count = 1\<rparr>"
  have "acceptConnection ip (of_nat (t + d)) m = (True, m(ip \<mapsto> ?b))"
    using Cons.prems(1,2) sint_gap [OF b] by (simp add: acceptConnection_def Let_def)
  moreover have "attempts ip (gaps (t + d) ds) (m(ip \<mapsto> ?b)) = replicate (length ds) True"
    using Cons.prems by (intro Cons.IH) (simp_all add: add.assoc)
  ultimately show ?case by (simp del: of_nat_add)
qed

text \<open>
  A patient client is never turned away: a client whose attempts are all more than five
  seconds apart is accepted every time, for any number of attempts.
\<close>

theorem patient_client_accepted:
  assumes "m ip = None" and "\<forall>d \<in> set ds. 5000 < d" and "t + sum_list ds < 2 ^ 63"
  shows "attempts ip (t # gaps t ds) m = replicate (length ds + 1) True"
  using patient_run [of "m(ip \<mapsto> \<lparr>lastAttempt = of_nat t, blockTime = 0, cb_count = 1\<rparr>)" ip t ds] assms
  by (simp add: acceptConnection_def)

theorem patient_client_accepted_witness:
  "attempts 7 (10 # gaps 10 [6000, 5001]) (\<lambda>_. None) = [True, True, True]"
  using patient_client_accepted [of "\<lambda>_. None" 7 "[6000, 5001]" 10] by simp

text \<open>One more quick attempt of a client that is not blocked.\<close>

lemma quick_attempt:
  assumes "m ip = Some \<lparr>lastAttempt = of_nat t, blockTime = 0, cb_count = c\<rparr>" and "d \<le> 5000"
    and "t + d < 2 ^ 63" and "c + 1 \<le> 5"
  shows "acceptConnection ip (of_nat (t + d)) m =
    (True, m(ip \<mapsto> \<lparr>lastAttempt = of_nat (t + d), blockTime = 0, cb_count = c + 1\<rparr>))"
proof -
  show ?thesis
    using assms(1,2,4) sint_gap [OF assms(3)]
    by (simp add: acceptConnection_def Let_def) (auto dest: leD)
qed

text \<open>
  A burst is stopped: of six attempts at most five seconds apart the first five are
  accepted, the sixth is refused when it follows within half a second of the fifth, and so
  is every attempt in the three seconds after.
\<close>

theorem burst_is_blocked:
  assumes "m ip = None" and "d1 \<le> 5000" "d2 \<le> 5000" "d3 \<le> 5000" "d4 \<le> 5000" and "d5 \<le> 500"
    and "d6 < 3000" and "t + d1 + d2 + d3 + d4 + d5 + d6 + 3000 < 2 ^ 63"
  shows "attempts ip (t # gaps t [d1, d2, d3, d4, d5, d6]) m = [True, True, True, True, True, False, False]"
proof -
  let ?b = "\<lambda>t c. \<lparr>lastAttempt = of_nat t, blockTime = 0, cb_count = c :: u32\<rparr>"
  let ?t1 = "t + d1" and ?t2 = "t + d1 + d2" and ?t3 = "t + d1 + d2 + d3"
  let ?t4 = "t + d1 + d2 + d3 + d4" and ?t5 = "t + d1 + d2 + d3 + d4 + d5"
  have s0: "acceptConnection ip (of_nat t) m = (True, m(ip \<mapsto> ?b t 1))"
    using assms(1) by (simp add: acceptConnection_def)
  have s1: "acceptConnection ip (of_nat ?t1) (m(ip \<mapsto> ?b t 1)) = (True, m(ip \<mapsto> ?b ?t1 2))"
    using quick_attempt [of "m(ip \<mapsto> ?b t 1)" ip t 1 d1] assms by simp
  have s2: "acceptConnection ip (of_nat ?t2) (m(ip \<mapsto> ?b ?t1 2)) = (True, m(ip \<mapsto> ?b ?t2 3))"
    using quick_attempt [of "m(ip \<mapsto> ?b ?t1 2)" ip ?t1 2 d2] assms by simp
  have s3: "acceptConnection ip (of_nat ?t3) (m(ip \<mapsto> ?b ?t2 3)) = (True, m(ip \<mapsto> ?b ?t3 4))"
    using quick_attempt [of "m(ip \<mapsto> ?b ?t2 3)" ip ?t2 3 d3] assms by simp
  have s4: "acceptConnection ip (of_nat ?t4) (m(ip \<mapsto> ?b ?t3 4)) = (True, m(ip \<mapsto> ?b ?t4 5))"
    using quick_attempt [of "m(ip \<mapsto> ?b ?t3 4)" ip ?t3 4 d4] assms by simp
  let ?e = "\<lparr>lastAttempt = of_nat ?t5, blockTime = of_nat (?t5 + 3000), cb_count = 0 :: u32\<rparr>"
  have s5: "acceptConnection ip (of_nat ?t5) (m(ip \<mapsto> ?b ?t4 5)) = (False, m(ip \<mapsto> ?e))"
    using sint_gap [of ?t4 d5] assms by (simp add: acceptConnection_def Let_def)
  have "(of_nat (?t5 + d6) :: u64) < of_nat (?t5 + 3000)"
    using assms by (subst of_nat_le) simp_all
  then have s6: "fst (acceptConnection ip (of_nat (?t5 + d6)) (m(ip \<mapsto> ?e))) = False"
    by (simp add: acceptConnection_def)
  show ?thesis
    using s0 s1 s2 s3 s4 s5 s6 by (simp add: split_def del: of_nat_add)
qed

theorem burst_is_blocked_witness:
  "attempts 7 (1000 # gaps 1000 [10, 20, 30, 40, 50, 60]) (\<lambda>_. None) =
     [True, True, True, True, True, False, False]"
  using burst_is_blocked [of "\<lambda>_. None" 7 10 20 30 40 50 60 1000] by simp

section \<open>The login queue\<close>

record wait =
  timeout :: u64
  playerGUID :: nat

record wait_info =
  priorityWaitList :: "wait list"
  waitList :: "wait list"

text \<open>The player as the queue sees it, and what it asks the configuration and the game.\<close>

record wait_player =
  wp_guid :: nat
  wp_canAlwaysLogin :: bool
  wp_gamemaster :: bool
  wp_premium :: bool

definition getTime :: "nat \<Rightarrow> nat" where
  "getTime slot = (if slot < 5 then 5 else if slot < 10 then 10 else if slot < 20 then 20
     else if slot < 50 then 60 else 120)"

definition getTimeout :: "nat \<Rightarrow> nat" where
  "getTimeout slot = getTime slot + 15"

text \<open>
  \<open>(it->timeout - time) <= 0\<close>: the difference of a \<open>size_t\<close> and an \<open>int64_t\<close> is
  unsigned.
\<close>

fun cleanupList :: "int \<Rightarrow> wait list \<Rightarrow> wait list" where
  "cleanupList time [] = []"
| "cleanupList time (w # ws) =
     (if timeout w - of_int time \<le> 0 then cleanupList time ws else w # cleanupList time ws)"

text \<open>\<open>findClient\<close>: an iterator into one of the lists (a position), or the end, and the slot.\<close>

datatype wait_it = PriorityIt nat | WaitIt nat | WaitEnd

fun find_guid :: "nat \<Rightarrow> wait list \<Rightarrow> nat option" where
  "find_guid g [] = None"
| "find_guid g (w # ws) = (if playerGUID w = g then Some 0 else map_option Suc (find_guid g ws))"

definition findClient :: "nat \<Rightarrow> wait_info \<Rightarrow> wait_it \<times> nat" where
  "findClient g info =
     (case find_guid g (priorityWaitList info) of
        Some i \<Rightarrow> (PriorityIt i, i + 1)
      | None \<Rightarrow>
         (case find_guid g (waitList info) of
            Some i \<Rightarrow> (WaitIt i, length (priorityWaitList info) + i + 1)
          | None \<Rightarrow> (WaitEnd, length (priorityWaitList info) + length (waitList info) + 1)))"

definition erase_at :: "nat \<Rightarrow> 'a list \<Rightarrow> 'a list" where
  "erase_at i xs = take i xs @ drop (Suc i) xs"

definition new_timeout :: "int \<Rightarrow> nat \<Rightarrow> u64" where
  "new_timeout time slot = of_int time + of_nat (getTimeout slot) * 1000"

text \<open>
  \<open>clientLogin\<close>. Erasing from \<open>waitList\<close> with an iterator of \<open>priorityWaitList\<close> is
  undefined: \<open>None\<close>.
\<close>

definition clientLogin :: "wait_player \<Rightarrow> nat \<Rightarrow> nat \<Rightarrow> int \<Rightarrow> wait_info \<Rightarrow> (bool \<times> wait_info) option" where
  "clientLogin player maxPlayers playersOnline time info =
     (if wp_canAlwaysLogin player \<or> wp_gamemaster player then Some (True, info)
      else if maxPlayers = 0 \<or>
        (priorityWaitList info = [] \<and> waitList info = [] \<and> playersOnline < maxPlayers) then Some (True, info)
      else
        (let info = info\<lparr>priorityWaitList := cleanupList time (priorityWaitList info)\<rparr>;
             info = info\<lparr>waitList := cleanupList time (waitList info)\<rparr>;
             (it, slot) = findClient (wp_guid player) info
         in case it of
              PriorityIt i \<Rightarrow>
                if playersOnline + slot \<le> maxPlayers then None
                else Some (False, info\<lparr>priorityWaitList := (priorityWaitList info)
                  [i := (priorityWaitList info ! i)\<lparr>timeout := new_timeout time slot\<rparr>]\<rparr>)
            | WaitIt i \<Rightarrow>
                if playersOnline + slot \<le> maxPlayers then Some (True, info\<lparr>waitList := erase_at i (waitList info)\<rparr>)
                else Some (False, info\<lparr>waitList := (waitList info)
                  [i := (waitList info ! i)\<lparr>timeout := new_timeout time slot\<rparr>]\<rparr>)
            | WaitEnd \<Rightarrow>
                (let slot = length (priorityWaitList info) in
                 if wp_premium player then
                   Some (False, info\<lparr>priorityWaitList := priorityWaitList info @
                     [\<lparr>timeout = new_timeout time (slot + 1), playerGUID = wp_guid player\<rparr>]\<rparr>)
                 else
                   (let slot = slot + length (waitList info) in
                    Some (False, info\<lparr>waitList := waitList info @
                      [\<lparr>timeout = new_timeout time (slot + 1), playerGUID = wp_guid player\<rparr>]\<rparr>)))))"

definition getClientSlot :: "wait_player \<Rightarrow> wait_info \<Rightarrow> nat" where
  "getClientSlot player info =
     (let (it, slot) = findClient (wp_guid player) info in if it = WaitEnd then 0 else slot)"

section \<open>What the queue does\<close>

lemma cleanupList_filter: "cleanupList time ws = filter (\<lambda>w. timeout w \<noteq> of_int time) ws"
  by (induction ws) (auto simp: word_le_0_iff)

lemma find_guid_Some:
  "find_guid g ws = Some i \<Longrightarrow> i < length ws \<and> playerGUID (ws ! i) = g"
  by (induction ws arbitrary: i) (auto split: if_splits)

lemma find_guid_None: "find_guid g ws = None \<longleftrightarrow> g \<notin> playerGUID ` set ws"
  by (induction ws) auto

text \<open>
  Entries of the login queue do not expire: an entry stays in the list however long its
  timeout has passed, because the difference that is compared with zero is unsigned; only
  an entry whose timeout is the current millisecond is removed.
\<close>

theorem waiting_entries_never_expire:
  "w \<in> set (cleanupList time ws) \<longleftrightarrow> w \<in> set ws \<and> timeout w \<noteq> of_int time"
  by (auto simp: cleanupList_filter)

text \<open>
  A premium player cannot leave the queue: when the slot of a player in the priority
  list becomes free, the code erases the entry from the other list with an iterator that
  does not belong to it, which is undefined.
\<close>

theorem priority_login_undefined:
  assumes "\<not> wp_canAlwaysLogin player" and "\<not> wp_gamemaster player" and "maxPlayers \<noteq> 0"
    and "find_guid (wp_guid player) (cleanupList time (priorityWaitList info)) = Some i"
    and "playersOnline + i + 1 \<le> maxPlayers"
  shows "clientLogin player maxPlayers playersOnline time info = None"
proof -
  have "priorityWaitList info \<noteq> []" using assms(4) by auto
  then show ?thesis
    using assms by (simp add: clientLogin_def findClient_def Let_def)
qed

definition demo_info :: wait_info where
  "demo_info = \<lparr>priorityWaitList = [\<lparr>timeout = 5, playerGUID = 9\<rparr>], waitList = []\<rparr>"

theorem priority_login_undefined_witness:
  "clientLogin \<lparr>wp_guid = 9, wp_canAlwaysLogin = False, wp_gamemaster = False, wp_premium = True\<rparr>
     100 50 1000 demo_info = None"
  by (rule priority_login_undefined [where i = 0]) (simp_all add: demo_info_def)

definition queue_order :: "wait_info \<Rightarrow> nat list" where
  "queue_order info = map playerGUID (priorityWaitList info @ waitList info)"

lemma map_guid_timeout [simp]:
  "i < length ws \<Longrightarrow> map playerGUID (ws[i := (ws ! i)\<lparr>timeout := t\<rparr>]) = map playerGUID ws"
  by (simp add: map_update) (metis length_map list_update_id nth_map)

lemma erase_at_remove1:
  "find_guid g ws = Some i \<Longrightarrow> map playerGUID (erase_at i ws) = remove1 g (map playerGUID ws)"
  by (induction ws arbitrary: i) (auto simp: erase_at_def split: if_splits)

text \<open>A login attempt of a player who has to queue, by where the player stands.\<close>

lemma clientLogin_queue:
  assumes "\<not> wp_canAlwaysLogin player" "\<not> wp_gamemaster player" "maxPlayers \<noteq> 0"
    and "priorityWaitList info \<noteq> [] \<or> waitList info \<noteq> [] \<or> maxPlayers \<le> playersOnline"
    and P: "P = cleanupList time (priorityWaitList info)" and W: "W = cleanupList time (waitList info)"
  shows "clientLogin player maxPlayers playersOnline time info =
    (case find_guid (wp_guid player) P of
       Some i \<Rightarrow>
         if playersOnline + i + 1 \<le> maxPlayers then None
         else Some (False, \<lparr>priorityWaitList = P[i := (P ! i)\<lparr>timeout := new_timeout time (i + 1)\<rparr>], waitList = W\<rparr>)
     | None \<Rightarrow>
         (case find_guid (wp_guid player) W of
            Some i \<Rightarrow>
              if playersOnline + length P + i + 1 \<le> maxPlayers
              then Some (True, \<lparr>priorityWaitList = P, waitList = erase_at i W\<rparr>)
              else Some (False, \<lparr>priorityWaitList = P,
                waitList = W[i := (W ! i)\<lparr>timeout := new_timeout time (length P + i + 1)\<rparr>]\<rparr>)
          | None \<Rightarrow>
              if wp_premium player
              then Some (False, \<lparr>priorityWaitList = P @ [\<lparr>timeout = new_timeout time (length P + 1), playerGUID = wp_guid player\<rparr>],
                waitList = W\<rparr>)
              else Some (False, \<lparr>priorityWaitList = P, waitList = W @
                [\<lparr>timeout = new_timeout time (length P + length W + 1), playerGUID = wp_guid player\<rparr>]\<rparr>)))"
proof -
  have g: "(wp_canAlwaysLogin player \<or> wp_gamemaster player) = False"
    "(maxPlayers = 0 \<or> priorityWaitList info = [] \<and> waitList info = [] \<and> playersOnline < maxPlayers) = False"
    using assms(1-4) by auto
  show ?thesis
    unfolding clientLogin_def g if_False
    by (simp add: Let_def findClient_def P [symmetric] W [symmetric] add.assoc split: option.split)
qed

text \<open>
  First come, first served: a login attempt of a player who has to wait admits only
  when the players online leave room up to the player's place in the queue, and then only
  that player's entry goes. Otherwise nobody overtakes: the order of those who wait is
  kept and a newcomer joins at the end of her list.
\<close>

theorem queue_is_fair:
  assumes "clientLogin player maxPlayers playersOnline time info = Some (ok, info')"
    and "\<not> wp_canAlwaysLogin player" "\<not> wp_gamemaster player" "maxPlayers \<noteq> 0"
    and "priorityWaitList info \<noteq> [] \<or> waitList info \<noteq> [] \<or> maxPlayers \<le> playersOnline"
  shows "let P = map playerGUID (cleanupList time (priorityWaitList info));
             W = map playerGUID (cleanupList time (waitList info));
             P' = map playerGUID (priorityWaitList info'); W' = map playerGUID (waitList info');
             g = wp_guid player
         in if ok then P' = P \<and> g \<notin> set P \<and> (\<exists>i < length W. W ! i = g \<and> g \<notin> set (take i W) \<and>
              playersOnline + length P + i + 1 \<le> maxPlayers) \<and> W' = remove1 g W
            else if g \<in> set P \<union> set W then P' = P \<and> W' = W
            else if wp_premium player then P' = P @ [g] \<and> W' = W else P' = P \<and> W' = W @ [g]"
proof -
  define P where "P = cleanupList time (priorityWaitList info)"
  define W where "W = cleanupList time (waitList info)"
  let ?g = "wp_guid player"
  note login = assms(1) [unfolded clientLogin_queue [OF assms(2-5) P_def W_def]]
  have mem: "?g \<in> set (map playerGUID ws) \<longleftrightarrow> find_guid ?g ws \<noteq> None" for ws
    by (simp add: find_guid_None)
  show ?thesis
  proof (cases "find_guid ?g P")
    case (Some i)
    then show ?thesis
      using login find_guid_Some [OF Some] mem [of P]
      unfolding P_def [symmetric] W_def [symmetric] Let_def by (auto split: if_splits)
  next
    case P: None
    show ?thesis
    proof (cases "find_guid ?g W")
      case None
      then show ?thesis
        using login P mem [of P] mem [of W] unfolding P_def [symmetric] W_def [symmetric] Let_def
        by (auto split: if_splits)
    next
      case (Some i)
      note i = find_guid_Some [OF Some]
      have "?g \<notin> playerGUID ` set (take i W)" using Some
        by (induction W arbitrary: i) (auto split: if_splits)
      then have f: "map playerGUID W ! i = ?g" "?g \<notin> set (take i (map playerGUID W))"
        using i by (simp_all add: take_map)
      show ?thesis
      proof (cases ok)
        case True
        then have "info' = \<lparr>priorityWaitList = P, waitList = erase_at i W\<rparr>"
          "playersOnline + length P + i + 1 \<le> maxPlayers"
          using login P Some by (auto split: if_splits)
        then show ?thesis
          using True f i mem [of P] P erase_at_remove1 [OF Some]
          unfolding P_def [symmetric] W_def [symmetric] Let_def by auto
      next
        case False
        then have "info' = \<lparr>priorityWaitList = P, waitList = W[i := (W ! i)\<lparr>timeout := new_timeout time (length P + i + 1)\<rparr>]\<rparr>"
          using login P Some by (auto split: if_splits)
        then show ?thesis
          using False i mem [of W] Some unfolding P_def [symmetric] W_def [symmetric] Let_def by simp
      qed
    qed
  qed
qed

definition demo_queue :: wait_info where
  "demo_queue = \<lparr>priorityWaitList = [], waitList = [\<lparr>timeout = 5, playerGUID = 9\<rparr>, \<lparr>timeout = 6, playerGUID = 8\<rparr>]\<rparr>"

theorem queue_is_fair_witness:
  "map playerGUID (waitList (snd (the (clientLogin
     \<lparr>wp_guid = 9, wp_canAlwaysLogin = False, wp_gamemaster = False, wp_premium = False\<rparr> 10 9 1000 demo_queue)))) = [8]"
proof -
  let ?pl = "\<lparr>wp_guid = 9, wp_canAlwaysLogin = False, wp_gamemaster = False, wp_premium = False\<rparr>"
  let ?info = "\<lparr>priorityWaitList = [], waitList = [\<lparr>timeout = 6, playerGUID = 8\<rparr>]\<rparr>"
  have r: "clientLogin ?pl 10 9 1000 demo_queue = Some (True, ?info)"
    by (simp add: clientLogin_def demo_queue_def findClient_def erase_at_def word_le_0_iff)
  have "map playerGUID (waitList ?info) = [8]"
    using queue_is_fair [OF r] by (simp add: demo_queue_def Let_def word_le_0_iff)
  then show ?thesis by (simp add: r)
qed

end
