(* ===== verification/Scheduling.thy ===== *)
theory Scheduling imports Prelude begin

text \<open>
  The two threads that drive the game: the dispatcher, a queue of tasks with a condition
  variable (tasks.cpp), and the scheduler, a priority queue of timed events that can be
  stopped by their id (scheduler.cpp). Each critical section is one step of a relation;
  the interleaving of the sections is arbitrary.
\<close>

datatype thread_state = THREAD_STATE_RUNNING | THREAD_STATE_CLOSING | THREAD_STATE_TERMINATED

section \<open>Tasks\<close>

text \<open>What a task does is its name; the task of \<open>shutdown\<close> sets the state. Expiration 0 is never.\<close>

datatype task_body = Work nat | Terminate

record task =
  func :: task_body
  expiration :: nat

definition setDontExpire :: "task \<Rightarrow> task" where
  "setDontExpire t = t\<lparr>expiration := 0\<rparr>"

definition hasExpired :: "nat \<Rightarrow> task \<Rightarrow> bool" where
  "hasExpired time t = (if expiration t = 0 then False else expiration t < time)"

section \<open>The dispatcher\<close>

text \<open>
  Where the dispatcher thread is: at the test of the loop, before its critical section,
  waiting for the signal, woken up again inside the section, or gone.
\<close>

datatype thread_pos = Looping | Checked | Waiting | Awake | Gone

record dispatcher =
  d_state :: thread_state
  taskList :: "task list"
  dispatcherCycle :: nat
  d_thread :: thread_pos
  notifies :: nat
  executed :: "task_body list"

definition addTask :: "task \<Rightarrow> bool \<Rightarrow> dispatcher \<Rightarrow> dispatcher" where
  "addTask t push_front d =
     (if d_state d = THREAD_STATE_RUNNING then
        (let do_signal = (taskList d = []);
             d = d\<lparr>taskList := (if push_front then t # taskList d else taskList d @ [t])\<rparr>
         in if do_signal then d\<lparr>notifies := notifies d + 1\<rparr> else d)
      else d)"

definition shutdown_dispatcher :: "dispatcher \<Rightarrow> dispatcher" where
  "shutdown_dispatcher d =
     d\<lparr>taskList := taskList d @ [\<lparr>func = Terminate, expiration = 0\<rparr>], notifies := notifies d + 1\<rparr>"

definition execute :: "task \<Rightarrow> dispatcher \<Rightarrow> dispatcher" where
  "execute t d =
     (let d = d\<lparr>dispatcherCycle := dispatcherCycle d + 1, executed := executed d @ [func t]\<rparr>
      in case func t of Work n \<Rightarrow> d
         | Terminate \<Rightarrow> d\<lparr>d_state := THREAD_STATE_TERMINATED, notifies := notifies d + 1\<rparr>)"

text \<open>
  The steps of the machine. \<open>notifies\<close> counts the calls of \<open>notify_one\<close> that are still to
  come, which the code makes after it has released the lock. A waiting thread may also wake
  up without being notified; it then looks at the list again.
\<close>

inductive dstep :: "dispatcher \<Rightarrow> dispatcher \<Rightarrow> bool" where
  add: "dstep d (addTask t front d)"
| shut: "dstep d (shutdown_dispatcher d)"
| notify: "notifies d = Suc n \<Longrightarrow>
    dstep d (d\<lparr>notifies := n, d_thread := (if d_thread d = Waiting then Awake else d_thread d)\<rparr>)"
| spurious: "d_thread d = Waiting \<Longrightarrow> dstep d (d\<lparr>d_thread := Awake\<rparr>)"
| check: "d_thread d = Looping \<Longrightarrow>
    dstep d (d\<lparr>d_thread := (if d_state d \<noteq> THREAD_STATE_TERMINATED then Checked else Gone)\<rparr>)"
| sleep: "d_thread d = Checked \<Longrightarrow> taskList d = [] \<Longrightarrow> dstep d (d\<lparr>d_thread := Waiting\<rparr>)"
| idle: "d_thread d = Awake \<Longrightarrow> taskList d = [] \<Longrightarrow> dstep d (d\<lparr>d_thread := Looping\<rparr>)"
| take: "d_thread d = Checked \<or> d_thread d = Awake \<Longrightarrow> taskList d = t # ts \<Longrightarrow>
    d1 = d\<lparr>taskList := ts, d_thread := Looping\<rparr> \<Longrightarrow>
    dstep d (if hasExpired time t then d1 else execute t d1)"

inductive_cases dstepE: "dstep d d'"

definition d_init :: dispatcher where
  "d_init = \<lparr>d_state = THREAD_STATE_RUNNING, taskList = [], dispatcherCycle = 0, d_thread = Looping,
     notifies = 0, executed = []\<rparr>"

text \<open>No lost wake-up: whoever sleeps over a task is about to be woken.\<close>

definition awake_inv :: "dispatcher \<Rightarrow> bool" where
  "awake_inv d \<longleftrightarrow> (d_thread d = Waiting \<longrightarrow> taskList d = [] \<or> notifies d > 0) \<and>
     dispatcherCycle d = length (executed d)"

lemma awake_step: "dstep d d' \<Longrightarrow> awake_inv d \<Longrightarrow> awake_inv d'"
  by (erule dstepE)
    (auto simp: awake_inv_def addTask_def shutdown_dispatcher_def execute_def Let_def
      split: if_splits task_body.splits)

text \<open>
  C36. The dispatcher does not sleep over work: in every reachable state of the machine, with
  any interleaving of producers, notifications and spurious wake-ups, a dispatcher thread
  that waits for the signal has an empty list or a notification under way, and the cycle
  counter counts the executed tasks.
\<close>

theorem dispatcher_no_lost_wakeup:
  assumes "dstep\<^sup>*\<^sup>* d_init d"
  shows "(d_thread d = Waiting \<longrightarrow> taskList d = [] \<or> notifies d > 0) \<and>
    dispatcherCycle d = length (executed d)"
  using assms
proof (induction rule: rtranclp_induct)
  case base
  show ?case by (simp add: d_init_def)
next
  case (step d d')
  then show ?case by (metis awake_step awake_inv_def)
qed

definition demo_sleeping :: dispatcher where
  "demo_sleeping = addTask \<lparr>func = Work 3, expiration = 0\<rparr> False (d_init\<lparr>d_thread := Waiting\<rparr>)"

lemma demo_dispatch: "dstep\<^sup>*\<^sup>* d_init demo_sleeping"
proof -
  have "dstep d_init (d_init\<lparr>d_thread := Checked\<rparr>)"
    using dstep.check [of d_init] by (simp add: d_init_def)
  moreover have "dstep (d_init\<lparr>d_thread := Checked\<rparr>) (d_init\<lparr>d_thread := Waiting\<rparr>)"
    using dstep.sleep [of "d_init\<lparr>d_thread := Checked\<rparr>"] by (simp add: d_init_def)
  moreover have "dstep (d_init\<lparr>d_thread := Waiting\<rparr>) demo_sleeping"
    unfolding demo_sleeping_def by (rule dstep.add)
  ultimately show ?thesis by (meson r_into_rtranclp rtranclp.rtrancl_into_rtrancl)
qed

theorem dispatcher_no_lost_wakeup_witness: "notifies demo_sleeping > 0"
  using dispatcher_no_lost_wakeup [OF demo_dispatch]
  by (simp add: demo_sleeping_def addTask_def d_init_def Let_def)

section \<open>The scheduler\<close>

record sched_task =
  st_name :: nat
  st_cycle :: nat
  st_eventId :: u32

record scheduler =
  s_state :: thread_state
  lastEventId :: u32
  eventList :: "sched_task list"
  eventIds :: "u32 set"

text \<open>\<open>addEvent\<close>: the event id, or 0 when the scheduler does not run.\<close>

definition addEvent :: "sched_task \<Rightarrow> scheduler \<Rightarrow> u32 \<times> scheduler" where
  "addEvent t s =
     (if s_state s \<noteq> THREAD_STATE_RUNNING then (0, s)
      else
        (let (t, s) =
           (if st_eventId t = 0 then
              (let next = lastEventId s + 1; next = (if next = 0 then 1 else next)
               in (t\<lparr>st_eventId := next\<rparr>, s\<lparr>lastEventId := next\<rparr>))
            else (t, s));
             eventId = st_eventId t;
             s = s\<lparr>eventIds := insert eventId (eventIds s)\<rparr>
         in (eventId, s\<lparr>eventList := t # eventList s\<rparr>)))"

definition stopEvent :: "u32 \<Rightarrow> scheduler \<Rightarrow> bool \<times> scheduler" where
  "stopEvent eventId s =
     (if eventId = 0 then (False, s)
      else if eventId \<notin> eventIds s then (False, s)
      else (True, s\<lparr>eventIds := eventIds s - {eventId}\<rparr>))"

text \<open>\<open>shutdown\<close>.\<close>

definition shutdown_scheduler :: "scheduler \<Rightarrow> scheduler" where
  "shutdown_scheduler s = s\<lparr>s_state := THREAD_STATE_TERMINATED, eventList := [], eventIds := {}\<rparr>"

text \<open>
  The timeout of the scheduler thread for the event \<open>t\<close> on top: whether the event goes to
  the front of the dispatcher's list.
\<close>

definition fire :: "sched_task \<Rightarrow> scheduler \<Rightarrow> bool \<times> scheduler" where
  "fire t s =
     (let s = s\<lparr>eventList := erase_first t (eventList s)\<rparr> in
      if st_eventId t \<notin> eventIds s then (False, s)
      else (True, s\<lparr>eventIds := eventIds s - {st_eventId t}\<rparr>))"

text \<open>The top of the priority queue: an event with a least time.\<close>

definition is_top :: "sched_task \<Rightarrow> scheduler \<Rightarrow> bool" where
  "is_top t s \<longleftrightarrow> t \<in> set (eventList s) \<and> (\<forall>u \<in> set (eventList s). st_cycle t \<le> st_cycle u)"

datatype sched_label =
  Add nat nat u32
| Stop u32 bool
| Fire sched_task bool
| Shutdown

inductive sstep :: "scheduler \<Rightarrow> sched_label \<Rightarrow> scheduler \<Rightarrow> bool" where
  s_add: "addEvent \<lparr>st_name = n, st_cycle = c, st_eventId = 0\<rparr> s = (i, s') \<Longrightarrow> sstep s (Add n c i) s'"
| s_stop: "stopEvent i s = (b, s') \<Longrightarrow> sstep s (Stop i b) s'"
| s_fire: "is_top t s \<Longrightarrow> s_state s \<noteq> THREAD_STATE_TERMINATED \<Longrightarrow> st_cycle t \<le> time \<Longrightarrow>
    fire t s = (b, s') \<Longrightarrow> sstep s (Fire t b) s'"
| s_shutdown: "sstep s Shutdown (shutdown_scheduler s)"

inductive_cases sstepE: "sstep s l s'"
inductive_cases sstep_addE: "sstep s (Add n c i) s'"
inductive_cases sstep_stopE: "sstep s (Stop i b) s'"
inductive_cases sstep_fireE: "sstep s (Fire t b) s'"

inductive sruns :: "scheduler \<Rightarrow> sched_label list \<Rightarrow> scheduler \<Rightarrow> bool" where
  s_done: "sruns s [] s"
| s_more: "sstep s l s1 \<Longrightarrow> sruns s1 ls s2 \<Longrightarrow> sruns s (l # ls) s2"

inductive_cases sruns_ConsE: "sruns s (l # ls) s'"

inductive_cases sruns_NilE: "sruns s [] s'"

lemma sruns_append: "sruns s (ls @ ms) s' \<longleftrightarrow> (\<exists>s1. sruns s ls s1 \<and> sruns s1 ms s')"
proof (induction ls arbitrary: s)
  case Nil
  show ?case by (auto intro: sruns.s_done elim: sruns_NilE)
next
  case (Cons l ls)
  show ?case by (metis Cons.IH append_Cons sruns.s_more sruns_ConsE)
qed

definition s_init :: scheduler where
  "s_init = \<lparr>s_state = THREAD_STATE_RUNNING, lastEventId = 0, eventList = [], eventIds = {}\<rparr>"

text \<open>
  While fewer than \<open>2 ^ 32\<close> events have been added, ids are fresh: the queued events have
  distinct ids between 1 and the last one, and the active ids are among them.
\<close>

definition fresh_inv :: "nat \<Rightarrow> scheduler \<Rightarrow> bool" where
  "fresh_inv k s \<longleftrightarrow> unat (lastEventId s) \<le> k \<and>
     (\<forall>t \<in> set (eventList s). st_eventId t \<noteq> 0 \<and> st_eventId t \<le> lastEventId s) \<and>
     distinct (map st_eventId (eventList s)) \<and>
     eventIds s \<subseteq> st_eventId ` set (eventList s)"

lemma word_succ_fresh:
  assumes "unat (w :: u32) < 2 ^ 32 - 1"
  shows "w + 1 \<noteq> 0" "w < w + 1" "unat (w + 1) = unat w + 1"
proof -
  show u: "unat (w + 1) = unat w + 1" using assms by (simp add: unat_word_ariths)
  then show "w + 1 \<noteq> 0" by (metis Suc_eq_plus1 nat.distinct(1) unat_0)
  show "w < w + 1" using u by (simp add: word_less_nat_alt)
qed

lemma addEvent_fresh:
  assumes "unat (lastEventId s) < 2 ^ 32 - 1"
    and "addEvent \<lparr>st_name = n, st_cycle = c, st_eventId = 0\<rparr> s = (i, s')"
  shows "(s_state s \<noteq> THREAD_STATE_RUNNING \<and> i = 0 \<and> s' = s) \<or>
    (i = lastEventId s + 1 \<and> lastEventId s' = i \<and> eventIds s' = insert i (eventIds s) \<and>
     eventList s' = \<lparr>st_name = n, st_cycle = c, st_eventId = i\<rparr> # eventList s)"
  using assms word_succ_fresh(1) [OF assms(1)] by (auto simp: addEvent_def Let_def split: if_splits)

lemma fire_sel: "fire t s = (b, s') \<Longrightarrow>
    b = (st_eventId t \<in> eventIds s) \<and> eventList s' = erase_first t (eventList s) \<and>
    eventIds s' = eventIds s - {st_eventId t} \<and> lastEventId s' = lastEventId s"
  by (auto simp: fire_def Let_def split: if_splits)

lemma stop_sel: "stopEvent i s = (b, s') \<Longrightarrow>
    b = (i \<noteq> 0 \<and> i \<in> eventIds s) \<and> eventList s' = eventList s \<and>
    eventIds s' = (if b then eventIds s - {i} else eventIds s) \<and> lastEventId s' = lastEventId s"
  by (auto simp: stopEvent_def split: if_splits)

lemma distinct_id_erase:
  assumes "distinct (map st_eventId ts)" "t \<in> set ts"
  shows "st_eventId ` set (erase_first t ts) = st_eventId ` set ts - {st_eventId t}"
    "distinct (map st_eventId (erase_first t ts))"
proof -
  have d: "distinct ts" using assms(1) by (simp add: distinct_map)
  have "inj_on st_eventId (set ts)" using assms(1) by (simp add: distinct_map)
  then have "st_eventId ` (set ts - {t}) = st_eventId ` set ts - {st_eventId t}"
    using assms(2) by (subst inj_on_image_set_diff [where C = "set ts"]) auto
  then show "st_eventId ` set (erase_first t ts) = st_eventId ` set ts - {st_eventId t}" using d by simp
  show "distinct (map st_eventId (erase_first t ts))"
    using assms(1) d by (simp add: distinct_map) (metis Diff_subset inj_on_subset set_erase_first_subset)
qed

lemma fresh_step:
  assumes "sstep s l s'" "fresh_inv k s" "k + 1 < 2 ^ 32"
  shows "fresh_inv (k + 1) s'"
  using assms(1)
proof (cases rule: sstep.cases)
  case (s_add n c i)
  have u: "unat (lastEventId s) < 2 ^ 32 - 1" using assms(2,3) by (simp add: fresh_inv_def)
  note w = word_succ_fresh [OF u]
  from addEvent_fresh [OF u s_add(2)] show ?thesis
  proof
    assume "s_state s \<noteq> THREAD_STATE_RUNNING \<and> i = 0 \<and> s' = s"
    then show ?thesis using assms(2) by (simp add: fresh_inv_def)
  next
    assume n: "i = lastEventId s + 1 \<and> lastEventId s' = i \<and> eventIds s' = insert i (eventIds s) \<and>
      eventList s' = \<lparr>st_name = n, st_cycle = c, st_eventId = i\<rparr> # eventList s"
    have "t \<in> set (eventList s) \<Longrightarrow> st_eventId t < lastEventId s + 1" for t
      using assms(2) w(2) by (auto simp: fresh_inv_def intro: le_less_trans)
    then show ?thesis
      using n assms(2) w by (auto simp: fresh_inv_def dest: less_imp_le)
  qed
next
  case (s_stop i b)
  then show ?thesis using stop_sel [OF s_stop(2)] assms(2) by (auto simp: fresh_inv_def split: if_splits)
next
  case (s_fire t time b)
  have t: "t \<in> set (eventList s)" using s_fire(2) by (simp add: is_top_def)
  have d: "distinct (map st_eventId (eventList s))" using assms(2) by (simp add: fresh_inv_def)
  from fire_sel [OF s_fire(5)] distinct_id_erase [OF d t] assms(2) show ?thesis
    by (auto simp: fresh_inv_def dest: subsetD [OF set_erase_first_subset])
next
  case s_shutdown
  then show ?thesis using assms(2) by (simp add: fresh_inv_def shutdown_scheduler_def)
qed

text \<open>An id that was given out and is active no more stays so.\<close>

definition spent :: "u32 \<Rightarrow> scheduler \<Rightarrow> bool" where
  "spent i s \<longleftrightarrow> i \<le> lastEventId s \<and> i \<notin> eventIds s"

lemma spent_step:
  assumes "sstep s l s'" "fresh_inv k s" "k + 1 < 2 ^ 32" "spent i s"
  shows "spent i s' \<and> (\<forall>t. l = Fire t True \<longrightarrow> st_eventId t \<noteq> i)"
  using assms(1)
proof (cases rule: sstep.cases)
  case (s_add n c j)
  have u: "unat (lastEventId s) < 2 ^ 32 - 1" using assms(2,3) by (simp add: fresh_inv_def)
  note w = word_succ_fresh [OF u]
  have "i < lastEventId s + 1" using assms(4) w(2) by (auto simp: spent_def intro: le_less_trans)
  then show ?thesis
    using addEvent_fresh [OF u s_add(2)] assms(4) s_add(1) by (auto simp: spent_def dest: less_imp_le)
next
  case (s_stop j b)
  then show ?thesis using stop_sel [OF s_stop(2)] assms(4) by (auto simp: spent_def split: if_splits)
next
  case (s_fire t time b)
  then show ?thesis using fire_sel [OF s_fire(5)] assms(4) by (auto simp: spent_def)
next
  case s_shutdown
  then show ?thesis using assms(4) by (simp add: spent_def shutdown_scheduler_def)
qed

lemma spent_runs:
  "sruns s ls s' \<Longrightarrow> fresh_inv k s \<Longrightarrow> k + length ls < 2 ^ 32 \<Longrightarrow> spent i s \<Longrightarrow>
   Fire t True \<in> set ls \<Longrightarrow> st_eventId t \<noteq> i"
proof (induction arbitrary: k rule: sruns.induct)
  case (s_done s)
  then show ?case by simp
next
  case (s_more s l s1 ls s2)
  have k: "k + 1 < 2 ^ 32" using s_more.prems(2) by simp
  note sp = spent_step [OF s_more.hyps(1) s_more.prems(1) k s_more.prems(3)]
  show ?case
  proof (cases "l = Fire t True")
    case True
    then show ?thesis using sp by blast
  next
    case False
    then show ?thesis
      using s_more.IH [OF fresh_step [OF s_more.hyps(1) s_more.prems(1) k]] sp s_more.prems by simp
  qed
qed

lemma fresh_runs: "sruns s ls s' \<Longrightarrow> fresh_inv k s \<Longrightarrow> k + length ls < 2 ^ 32 \<Longrightarrow> fresh_inv (k + length ls) s'"
proof (induction arbitrary: k rule: sruns.induct)
  case (s_more s l s1 ls s2)
  then have "fresh_inv (k + 1) s1" using fresh_step [OF s_more.hyps(1)] by simp
  from s_more.IH [OF this] s_more.prems(2) show ?case by simp
qed simp

text \<open>
  C35. A stopped event never runs, and an event runs at most once: in a history of fewer
  than \<open>2 ^ 32\<close> steps, once \<open>stopEvent\<close> has answered true for an id, or its event has gone
  to the dispatcher, no later timeout hands an event with that id to the dispatcher, even
  though the stopped event itself stays in the priority queue until its time comes.
\<close>

theorem stopped_event_never_runs:
  assumes "sruns s_init (pre @ l # post) s" and "length (pre @ l # post) < 2 ^ 32"
    and "l = Stop i True \<or> (\<exists>u. l = Fire u True \<and> st_eventId u = i)"
    and "Fire t True \<in> set post"
  shows "st_eventId t \<noteq> i"
proof -
  obtain s1 s2 where r: "sruns s_init pre s1" "sstep s1 l s2" "sruns s2 post s"
    using assms(1) by (auto simp: sruns_append elim: sruns_ConsE)
  have "fresh_inv 0 s_init" by (simp add: fresh_inv_def s_init_def)
  from fresh_runs [OF r(1) this] have f1: "fresh_inv (length pre) s1" using assms(2) by simp
  have f2: "fresh_inv (length pre + 1) s2" using fresh_step [OF r(2) f1] assms(2) by simp
  have act: "j \<in> eventIds s1 \<Longrightarrow> j \<le> lastEventId s1" for j
    using f1 by (auto simp: fresh_inv_def)
  have "spent i s2"
    using assms(3)
  proof
    assume "l = Stop i True"
    then show ?thesis using r(2) act by (auto simp: spent_def elim!: sstep_stopE dest!: stop_sel)
  next
    assume "\<exists>u. l = Fire u True \<and> st_eventId u = i"
    then show ?thesis using r(2) act by (auto simp: spent_def elim!: sstep_fireE dest!: fire_sel)
  qed
  then show ?thesis using spent_runs [OF r(3) f2] assms(2,4) by simp
qed

text \<open>A short history: two events, the first one stopped.\<close>

definition ev1 :: sched_task where "ev1 = \<lparr>st_name = 1, st_cycle = 5, st_eventId = 1\<rparr>"
definition ev2 :: sched_task where "ev2 = \<lparr>st_name = 2, st_cycle = 3, st_eventId = 2\<rparr>"

lemma demo_history:
  "sruns s_init ([Add 1 5 1] @ Stop 1 True # [Add 2 3 2, Fire ev2 True])
     \<lparr>s_state = THREAD_STATE_RUNNING, lastEventId = 2, eventList = [ev1], eventIds = {}\<rparr>"
proof -
  let ?s = "\<lambda>l es is. \<lparr>s_state = THREAD_STATE_RUNNING, lastEventId = l, eventList = es, eventIds = is\<rparr>"
  have "sstep s_init (Add 1 5 1) (?s 1 [ev1] {1})"
    by (rule sstep.s_add) (simp add: addEvent_def s_init_def ev1_def)
  moreover have "sstep (?s 1 [ev1] {1}) (Stop 1 True) (?s 1 [ev1] {})"
    by (rule sstep.s_stop) (simp add: stopEvent_def)
  moreover have "sstep (?s 1 [ev1] {}) (Add 2 3 2) (?s 2 [ev2, ev1] {2})"
    by (rule sstep.s_add) (simp add: addEvent_def ev2_def)
  moreover have "sstep (?s 2 [ev2, ev1] {2}) (Fire ev2 True) (?s 2 [ev1] {})"
    by (rule sstep.s_fire [where time = 3]) (simp_all add: fire_def is_top_def ev1_def ev2_def)
  ultimately show ?thesis unfolding append_Cons append_Nil by (meson sruns.intros)
qed

theorem stopped_event_never_runs_witness: "st_eventId ev2 \<noteq> 1"
  by (rule stopped_event_never_runs [OF demo_history]) simp_all

text \<open>What is in the queue was added, and what is active is in the queue.\<close>

lemma queued_were_added:
  "sruns s ls s' \<Longrightarrow> t \<in> set (eventList s') \<Longrightarrow>
   t \<in> set (eventList s) \<or> Add (st_name t) (st_cycle t) (st_eventId t) \<in> set ls"
proof (induction rule: sruns.induct)
  case (s_done s)
  then show ?case by simp
next
  case (s_more s l s1 ls s2)
  have "t \<in> set (eventList s1) \<Longrightarrow> t \<in> set (eventList s) \<or> Add (st_name t) (st_cycle t) (st_eventId t) = l"
    using s_more.hyps(1)
  proof (cases rule: sstep.cases)
    case (s_add n c i)
    then show "t \<in> set (eventList s1) \<Longrightarrow> ?thesis"
      by (auto simp: addEvent_def Let_def split: if_splits)
  next
    case (s_stop i b)
    then show "t \<in> set (eventList s1) \<Longrightarrow> ?thesis" using stop_sel [OF s_stop(2)] by simp
  next
    case (s_fire u time b)
    then show "t \<in> set (eventList s1) \<Longrightarrow> ?thesis"
      using fire_sel [OF s_fire(5)] subsetD [OF set_erase_first_subset] by auto
  next
    case s_shutdown
    then show "t \<in> set (eventList s1) \<Longrightarrow> ?thesis" by (simp add: shutdown_scheduler_def)
  qed
  with s_more show ?case by auto
qed

text \<open>
  Events run in order and only when due: when a timeout hands an event to the
  dispatcher, the event was added before under that id and with that time, its time has
  come, and every other event in the queue has the same or a later time.
\<close>

theorem events_run_in_order:
  assumes "sruns s_init ls s" and "sstep s (Fire t True) s'"
  shows "Add (st_name t) (st_cycle t) (st_eventId t) \<in> set ls \<and> st_eventId t \<in> eventIds s \<and>
    st_eventId t \<notin> eventIds s' \<and> (\<forall>u \<in> set (eventList s). st_cycle t \<le> st_cycle u)"
proof -
  have t: "is_top t s" "st_eventId t \<in> eventIds s" "st_eventId t \<notin> eventIds s'"
    using assms(2) by (auto elim!: sstep_fireE dest!: fire_sel)
  then have "t \<in> set (eventList s)" by (simp add: is_top_def)
  from queued_were_added [OF assms(1) this] t show ?thesis by (auto simp: s_init_def is_top_def)
qed

theorem events_run_in_order_witness:
  "Add 2 3 2 \<in> set ([Add 1 5 1] @ Stop 1 True # [Add 2 3 2])"
proof -
  have "sruns s_init (([Add 1 5 1] @ Stop 1 True # [Add 2 3 2]) @ [Fire ev2 True])
     \<lparr>s_state = THREAD_STATE_RUNNING, lastEventId = 2, eventList = [ev1], eventIds = {}\<rparr>"
    using demo_history by simp
  then obtain s s' where "sruns s_init ([Add 1 5 1] @ Stop 1 True # [Add 2 3 2]) s" "sstep s (Fire ev2 True) s'"
    unfolding sruns_append by (meson sruns_ConsE)
  from events_run_in_order [OF this] show ?thesis by (simp add: ev2_def)
qed

text \<open>
  When the ids start again from 1, a stopped event can come back: if the id of an event
  that was stopped but still waits in the queue is given out again, the stopped event goes
  to the dispatcher when its time comes, and the new event is the one that is dropped.
\<close>

theorem reused_id_revives_stopped_event:
  assumes "s_state s = THREAD_STATE_RUNNING" and "lastEventId s = - 1"
    and "old \<in> set (eventList s)" and "st_eventId old = 1" and "1 \<notin> eventIds s"
    and "addEvent \<lparr>st_name = n, st_cycle = c, st_eventId = 0\<rparr> s = (i, s1)"
    and "fire old s1 = (b, s2)"
  shows "i = 1 \<and> b \<and> fst (fire \<lparr>st_name = n, st_cycle = c, st_eventId = i\<rparr> s2) = False"
proof -
  have a: "i = 1" "eventIds s1 = insert 1 (eventIds s)"
    using assms(1,2,6) by (auto simp: addEvent_def Let_def)
  from fire_sel [OF assms(7)] a assms(4) have "b" "eventIds s2 = insert 1 (eventIds s) - {1}" by simp_all
  with a show ?thesis by (simp add: fire_def)
qed

theorem reused_id_revives_stopped_event_witness:
  "fst (fire ev1 (snd (addEvent \<lparr>st_name = 9, st_cycle = 7, st_eventId = 0\<rparr>
     \<lparr>s_state = THREAD_STATE_RUNNING, lastEventId = - 1, eventList = [ev1], eventIds = {}\<rparr>)))"
proof -
  let ?s = "\<lparr>s_state = THREAD_STATE_RUNNING, lastEventId = - 1 :: u32, eventList = [ev1], eventIds = {} :: u32 set\<rparr>"
  let ?n = "\<lparr>st_name = 9, st_cycle = 7, st_eventId = 0\<rparr> :: sched_task"
  have "addEvent ?n ?s = (fst (addEvent ?n ?s), snd (addEvent ?n ?s))"
    "fire ev1 (snd (addEvent ?n ?s)) = (fst (fire ev1 (snd (addEvent ?n ?s))), snd (fire ev1 (snd (addEvent ?n ?s))))"
    by (simp_all only: prod.collapse)
  from reused_id_revives_stopped_event [OF _ _ _ _ _ this] show ?thesis by (simp add: ev1_def)
qed

end
