(* ===== verification/MapTree.thy ===== *)
theory MapTree imports Geometry begin

text \<open>
  The storage of the map (map.h, map.cpp): a quadtree over bits 15 to 3 of the
  coordinates, whose leaves hold eight by eight tiles for each of sixteen floors, the
  creatures that stand there, and links to the leaves south and east of them. Leaves live
  in a store and are named by allocation numbers; a tile is a pointer, a number.
\<close>

section \<open>Floors, leaves and the tree\<close>

definition MAP_MAX_LAYERS :: nat where "MAP_MAX_LAYERS = 16"
definition FLOOR_BITS :: nat where "FLOOR_BITS = 3"
definition FLOOR_SIZE :: nat where "FLOOR_SIZE = 8"
definition FLOOR_MASK :: u32 where "FLOOR_MASK = 7"

lemmas floor_consts = MAP_MAX_LAYERS_def FLOOR_BITS_def FLOOR_SIZE_def FLOOR_MASK_def

type_synonym floor = "nat \<Rightarrow> nat \<Rightarrow> nat option"

record leaf =
  leafS :: "nat option"
  leafE :: "nat option"
  floors :: "nat \<Rightarrow> floor option"
  creature_list :: "nat list"
  player_list :: "nat list"

definition new_leaf :: leaf where
  "new_leaf = \<lparr>leafS = None, leafE = None, floors = (\<lambda>_. None), creature_list = [], player_list = []\<rparr>"

datatype qnode = QNode "nat \<Rightarrow> qnode option" | QLeaf nat

definition empty_node :: qnode where "empty_node = QNode (\<lambda>_. None)"

text \<open>\<open>((x & 0x8000) >> 15) | ((y & 0x8000) >> 14)\<close>.\<close>

definition child_index :: "u32 \<Rightarrow> u32 \<Rightarrow> nat" where
  "child_index x y = unat (drop_bit 15 (x AND 0x8000) OR drop_bit 14 (y AND 0x8000))"

primrec getLeaf :: "qnode \<Rightarrow> u32 \<Rightarrow> u32 \<Rightarrow> nat option" where
  "getLeaf (QLeaf a) = (\<lambda>x y. Some a)"
| "getLeaf (QNode ch) = (\<lambda>x y.
     (case (map_option getLeaf \<circ> ch) (child_index x y) of None \<Rightarrow> None
      | Some get \<Rightarrow> get (push_bit 1 x) (push_bit 1 y)))"

lemma getLeaf_node [simp]:
  "getLeaf (QNode ch) x y =
     (case ch (child_index x y) of None \<Rightarrow> None
      | Some node \<Rightarrow> getLeaf node (push_bit 1 x) (push_bit 1 y))"
  by (simp split: option.split)

declare getLeaf.simps(2) [simp del]

text \<open>
  \<open>createLeaf\<close>: the leaf at the coordinates and the changed tree, given the address of
  the leaf to allocate when there is none; the flag is \<open>newLeaf\<close>. The code's \<open>level\<close> would
  wrap below 0, which no tree of the map reaches (\<open>None\<close>).
\<close>

fun createLeaf :: "nat \<Rightarrow> qnode \<Rightarrow> u32 \<Rightarrow> u32 \<Rightarrow> nat \<Rightarrow> (nat \<times> qnode \<times> bool) option" where
  "createLeaf level (QLeaf a) x y fresh = Some (a, QLeaf a, False)"
| "createLeaf 0 (QNode ch) x y fresh = None"
| "createLeaf (Suc level) (QNode ch) x y fresh =
     (let index = child_index x y;
          (node, new) = (case ch index of
             Some node \<Rightarrow> (node, False)
           | None \<Rightarrow> if Suc level \<noteq> FLOOR_BITS then (empty_node, False) else (QLeaf fresh, True))
      in case createLeaf level node (x * 2) (y * 2) fresh of
           None \<Rightarrow> None
         | Some (a, node', new') \<Rightarrow> Some (a, QNode (ch(index \<mapsto> node')), new \<or> new'))"

record map_state =
  root :: qnode
  leaves :: "nat \<Rightarrow> leaf"
  nextLeaf :: nat

definition leaf_of :: "map_state \<Rightarrow> u32 \<Rightarrow> u32 \<Rightarrow> nat option" where
  "leaf_of m x y = getLeaf (root m) x y"

definition upd_leaf :: "nat \<Rightarrow> (leaf \<Rightarrow> leaf) \<Rightarrow> map_state \<Rightarrow> map_state" where
  "upd_leaf a f m = m\<lparr>leaves := (leaves m)(a := f (leaves m a))\<rparr>"

definition tile_x :: "u16 \<Rightarrow> nat" where
  "tile_x x = unat (ucast x AND FLOOR_MASK)"

text \<open>\<open>Map::getTile\<close>.\<close>

definition getTile :: "map_state \<Rightarrow> u16 \<Rightarrow> u16 \<Rightarrow> u8 \<Rightarrow> nat option" where
  "getTile m x y z =
     (if unat z \<ge> MAP_MAX_LAYERS then None
      else (case leaf_of m (ucast x) (ucast y) of None \<Rightarrow> None
            | Some leaf \<Rightarrow>
               (case floors (leaves m leaf) (unat z) of None \<Rightarrow> None
                | Some fl \<Rightarrow> fl (tile_x x) (tile_x y))))"

text \<open>
  \<open>Map::setTile\<close> up to the slot of the tile: the leaf, its links and its floor. The
  neighbours are looked up at wrapped 32-bit coordinates.
\<close>

definition set_link :: "(nat option \<Rightarrow> leaf \<Rightarrow> leaf) \<Rightarrow> nat option \<Rightarrow> nat \<Rightarrow> map_state \<Rightarrow> map_state" where
  "set_link f neighbour leaf m =
     (case neighbour of None \<Rightarrow> m | Some n \<Rightarrow> upd_leaf n (f (Some leaf)) m)"

definition set_S :: "nat option \<Rightarrow> leaf \<Rightarrow> leaf" where "set_S l n = n\<lparr>leafS := l\<rparr>"
definition set_E :: "nat option \<Rightarrow> leaf \<Rightarrow> leaf" where "set_E l n = n\<lparr>leafE := l\<rparr>"

definition link_leaf :: "u32 \<Rightarrow> u32 \<Rightarrow> nat \<Rightarrow> map_state \<Rightarrow> map_state" where
  "link_leaf x y leaf m =
     (let m = set_link set_S (leaf_of m x (y - 8)) leaf m;
          m = set_link set_E (leaf_of m (x - 8) y) leaf m;
          m = (case leaf_of m x (y + 8) of None \<Rightarrow> m | Some s \<Rightarrow> upd_leaf leaf (set_S (Some s)) m)
      in case leaf_of m (x + 8) y of None \<Rightarrow> m | Some e \<Rightarrow> upd_leaf leaf (set_E (Some e)) m)"

definition createFloor :: "nat \<Rightarrow> leaf \<Rightarrow> leaf" where
  "createFloor z l =
     (case floors l z of None \<Rightarrow> l\<lparr>floors := (floors l)(z \<mapsto> (\<lambda>_ _. None))\<rparr> | Some _ \<Rightarrow> l)"

definition set_slot :: "nat \<Rightarrow> nat \<Rightarrow> nat \<Rightarrow> nat option \<Rightarrow> leaf \<Rightarrow> leaf" where
  "set_slot z ox oy t l =
     (case floors l z of None \<Rightarrow> l
      | Some fl \<Rightarrow> l\<lparr>floors := (floors l)(z \<mapsto> fl(ox := (fl ox)(oy := t)))\<rparr>)"

text \<open>
  When the slot is taken, the items of the new tile go to the old one and the new tile
  is deleted: \<open>merge old new\<close> is the effect on the tiles, which are not part of this theory,
  and the slot keeps the old pointer.
\<close>

definition setTile :: "(nat \<Rightarrow> nat \<Rightarrow> 'w \<Rightarrow> 'w) \<Rightarrow> u16 \<Rightarrow> u16 \<Rightarrow> u8 \<Rightarrow> nat \<Rightarrow> map_state \<times> 'w \<Rightarrow> (map_state \<times> 'w) option" where
  "setTile merge x y z newTile = (\<lambda>(m, w).
     if unat z \<ge> MAP_MAX_LAYERS then Some (m, w)
     else
       (case createLeaf 15 (root m) (ucast x) (ucast y) (nextLeaf m) of
          None \<Rightarrow> None
        | Some (leaf, root', isNew) \<Rightarrow>
           (let m = m\<lparr>root := root'\<rparr>;
                m = (if isNew then link_leaf (ucast x) (ucast y) leaf
                       (m\<lparr>leaves := (leaves m)(leaf := new_leaf), nextLeaf := nextLeaf m + 1\<rparr>) else m);
                m = upd_leaf leaf (createFloor (unat z)) m;
                slot = the (floors (leaves m leaf) (unat z)) (tile_x x) (tile_x y)
            in Some (case slot of
                 Some old \<Rightarrow> (m, merge old newTile w)
               | None \<Rightarrow> (upd_leaf leaf (set_slot (unat z) (tile_x x) (tile_x y) (Some newTile)) m, w)))))"

section \<open>Keys\<close>

text \<open>
  The tree looks at bits 15 to 3: the path of a coordinate pair is the list of the child
  indices, and two pairs have the same path when they have the same key, the index of
  the leaf in the plane of leaves.
\<close>

definition key :: "u32 \<Rightarrow> nat" where
  "key x = unat x div 8 mod 2 ^ 13"

fun path :: "nat \<Rightarrow> u32 \<Rightarrow> u32 \<Rightarrow> nat list" where
  "path 0 x y = []"
| "path (Suc n) x y = child_index x y # path n (push_bit 1 x) (push_bit 1 y)"

definition and_bit :: "nat \<Rightarrow> u32 \<Rightarrow> nat" where
  "and_bit n x = (if bit x n then 1 else 0)"

lemma bit_0x8000: "bit (0x8000 :: u32) i \<longleftrightarrow> i = 15"
proof -
  have "(0x8000 :: u32) = push_bit 15 1" by simp
  then show ?thesis by (simp only: bit_push_bit_iff bit_1_iff) auto
qed

lemma child_index_bits: "child_index x y = and_bit 15 x + 2 * and_bit 15 y"
proof -
  have "x AND 0x8000 = (if bit x 15 then 0x8000 else 0)" for x :: u32
    by (rule bit_word_eqI) (auto simp: bit_and_iff bit_0x8000 simp del: bit_numeral_word_iff)
  then show ?thesis by (auto simp: child_index_def and_bit_def)
qed

lemma and_bit_push: "and_bit 15 (push_bit k x) = (if k \<le> 15 then and_bit (15 - k) x else 0)"
  by (auto simp: and_bit_def bit_push_bit_iff)

lemma path_map:
  "k + n \<le> 16 \<Longrightarrow> path n (push_bit k x) (push_bit k y) =
     map (\<lambda>i. and_bit (15 - (k + i)) x + 2 * and_bit (15 - (k + i)) y) [0..<n]"
proof (induction n arbitrary: k)
  case 0
  then show ?case by simp
next
  case (Suc n)
  have "path n (push_bit (Suc k) x) (push_bit (Suc k) y) =
      map (\<lambda>i. and_bit (15 - (Suc k + i)) x + 2 * and_bit (15 - (Suc k + i)) y) [0..<n]"
    by (rule Suc.IH) (use Suc.prems in simp)
  moreover have sh: "push_bit 1 (push_bit k v) = push_bit (Suc k) v" for v :: u32
    by (simp only: push_bit_push_bit plus_1_eq_Suc)
  have "path (Suc n) (push_bit k x) (push_bit k y) =
      child_index (push_bit k x) (push_bit k y) # path n (push_bit (Suc k) x) (push_bit (Suc k) y)"
    by (simp only: path.simps sh)
  moreover have "[0..<Suc n] = 0 # map Suc [0..<n]" by (simp add: upt_conv_Cons map_Suc_upt)
  moreover have "child_index (push_bit k x) (push_bit k y) = and_bit (15 - k) x + 2 * and_bit (15 - k) y"
    using Suc.prems by (simp add: child_index_bits and_bit_push)
  ultimately show ?case by (simp only: list.map map_map comp_def add_Suc_right add_Suc add_0_right)
qed

lemma bit_key: "bit (key x) i \<longleftrightarrow> i < 13 \<and> bit x (i + 3)"
proof -
  have "key x = take_bit 13 (drop_bit 3 (unat x))"
    by (simp add: key_def take_bit_eq_mod drop_bit_eq_div)
  then show ?thesis
    by (simp add: bit_take_bit_iff bit_drop_bit_eq bit_unsigned_iff add.commute)
qed

lemma path_eq_key: "path 13 x y = path 13 x' y' \<longleftrightarrow> key x = key x' \<and> key y = key y'"
proof -
  have b: "and_bit i x + 2 * and_bit i y = and_bit i x' + 2 * and_bit i y' \<longleftrightarrow>
      (bit x i = bit x' i) \<and> (bit y i = bit y' i)" for i
    by (auto simp: and_bit_def)
  have "path 13 x y = path 13 x' y' \<longleftrightarrow> (\<forall>i < 13. (bit x (15 - i) = bit x' (15 - i)) \<and> (bit y (15 - i) = bit y' (15 - i)))"
    using path_map [of 0 13 x y] path_map [of 0 13 x' y'] by (auto simp: map_eq_conv b)
  also have "\<dots> \<longleftrightarrow> (\<forall>j < 13. (bit x (j + 3) = bit x' (j + 3)) \<and> (bit y (j + 3) = bit y' (j + 3)))"
  proof
    assume *: "\<forall>i<13. (bit x (15 - i) = bit x' (15 - i)) \<and> (bit y (15 - i) = bit y' (15 - i))"
    show "\<forall>j<13. (bit x (j + 3) = bit x' (j + 3)) \<and> (bit y (j + 3) = bit y' (j + 3))"
    proof (intro allI impI)
      fix j :: nat assume "j < 13"
      then have "15 - (12 - j) = j + 3" "12 - j < 13" by simp_all
      with * show "(bit x (j + 3) = bit x' (j + 3)) \<and> (bit y (j + 3) = bit y' (j + 3))" by metis
    qed
  next
    assume *: "\<forall>j<13. (bit x (j + 3) = bit x' (j + 3)) \<and> (bit y (j + 3) = bit y' (j + 3))"
    show "\<forall>i<13. (bit x (15 - i) = bit x' (15 - i)) \<and> (bit y (15 - i) = bit y' (15 - i))"
    proof (intro allI impI)
      fix i :: nat assume "i < 13"
      then have "(12 - i) + 3 = 15 - i" "12 - i < 13" by simp_all
      with * show "(bit x (15 - i) = bit x' (15 - i)) \<and> (bit y (15 - i) = bit y' (15 - i))" by metis
    qed
  qed
  also have "\<dots> \<longleftrightarrow> key x = key x' \<and> key y = key y'"
    by (auto simp: bit_eq_iff bit_key)
  finally show ?thesis .
qed

section \<open>Lookup and creation\<close>

text \<open>A tree of depth \<open>n\<close>: nodes above, leaves at the bottom, nothing in between.\<close>

fun depth_ok :: "nat \<Rightarrow> qnode \<Rightarrow> bool" where
  "depth_ok 0 node = (case node of QLeaf _ \<Rightarrow> True | QNode _ \<Rightarrow> False)"
| "depth_ok (Suc n) node = (case node of QLeaf _ \<Rightarrow> False
     | QNode ch \<Rightarrow> (\<forall>i c. ch i = Some c \<longrightarrow> depth_ok n c))"

lemma depth_ok_0E: "depth_ok 0 node \<Longrightarrow> (\<And>a. node = QLeaf a \<Longrightarrow> thesis) \<Longrightarrow> thesis"
  by (cases node) auto

lemma depth_ok_SucE:
  "depth_ok (Suc n) node \<Longrightarrow>
   (\<And>ch. node = QNode ch \<Longrightarrow> (\<And>i c. ch i = Some c \<Longrightarrow> depth_ok n c) \<Longrightarrow> thesis) \<Longrightarrow> thesis"
  by (cases node) auto

lemma depth_ok_empty: "depth_ok (Suc n) empty_node"
  by (simp add: empty_node_def)

lemma getLeaf_empty [simp]: "getLeaf empty_node x y = None"
  by (simp add: empty_node_def)

text \<open>The addresses of the leaves of a tree.\<close>

definition leaf_at :: "qnode \<Rightarrow> nat \<Rightarrow> bool" where
  "leaf_at node a \<longleftrightarrow> (\<exists>x y. getLeaf node x y = Some a)"

lemma getLeaf_path:
  "depth_ok n node \<Longrightarrow> path n x y = path n x' y' \<Longrightarrow> getLeaf node x y = getLeaf node x' y'"
proof (induction n arbitrary: node x y x' y')
  case 0
  from 0(1) obtain a where "node = QLeaf a" by (rule depth_ok_0E)
  then show ?case by simp
next
  case (Suc n)
  then obtain ch where ch: "node = QNode ch" "\<And>i c. ch i = Some c \<Longrightarrow> depth_ok n c"
    by (blast elim: depth_ok_SucE)
  have p: "child_index x y = child_index x' y'" "path n (push_bit 1 x) (push_bit 1 y) = path n (push_bit 1 x') (push_bit 1 y')"
    using Suc.prems(2) by simp_all
  show ?case
    using ch p Suc.IH [OF _ p(2)] by (auto split: option.split)
qed

lemma createLeaf_spec:
  "depth_ok n node \<Longrightarrow>
   \<exists>a node' new. createLeaf (n + 2) node x y fresh = Some (a, node', new) \<and> depth_ok n node' \<and>
     (\<forall>x' y'. getLeaf node' x' y' = (if path n x' y' = path n x y then Some a else getLeaf node x' y')) \<and>
     (case getLeaf node x y of None \<Rightarrow> a = fresh \<and> new | Some b \<Rightarrow> a = b \<and> \<not> new)"
proof (induction n arbitrary: node x y)
  case 0
  then obtain b where "node = QLeaf b" by (rule depth_ok_0E)
  then show ?case by (intro exI [of _ b] exI [of _ "QLeaf b"] exI [of _ False]) simp
next
  case (Suc n)
  then obtain ch where ch: "node = QNode ch" "\<And>i c. ch i = Some c \<Longrightarrow> depth_ok n c"
    by (blast elim: depth_ok_SucE)
  let ?i = "child_index x y"
  show ?case
  proof (cases "ch ?i = None \<and> n = 0")
    case True
    then show ?thesis
      using ch by (auto simp: FLOOR_BITS_def numeral_eq_Suc split: option.split)
  next
    case False
    define c where "c = (case ch ?i of None \<Rightarrow> empty_node | Some c \<Rightarrow> c)"
    have c: "depth_ok n c" using False ch(2) depth_ok_empty by (cases n) (auto simp: c_def split: option.split)
    obtain a c' new where IH: "createLeaf (n + 2) c (push_bit 1 x) (push_bit 1 y) fresh = Some (a, c', new)"
      "depth_ok n c'"
      "\<And>x' y'. getLeaf c' x' y' =
        (if path n x' y' = path n (push_bit 1 x) (push_bit 1 y) then Some a else getLeaf c x' y')"
      "case getLeaf c (push_bit 1 x) (push_bit 1 y) of None \<Rightarrow> a = fresh \<and> new | Some b \<Rightarrow> a = b \<and> \<not> new"
      using Suc.IH [OF c, of "push_bit 1 x" "push_bit 1 y"] by blast
    have dbl: "x * 2 = push_bit 1 x" "y * 2 = push_bit 1 y"
      by (simp_all add: push_bit_eq_mult mult.commute)
    have sel: "(case ch ?i of Some node \<Rightarrow> (node, False)
        | None \<Rightarrow> if Suc (n + 2) \<noteq> FLOOR_BITS then (empty_node, False) else (QLeaf fresh, True)) = (c, False)"
      using False by (cases "ch ?i") (auto simp: c_def FLOOR_BITS_def)
    have "createLeaf (Suc n + 2) node x y fresh = Some (a, QNode (ch(?i \<mapsto> c')), new)"
      unfolding add_Suc ch(1) createLeaf.simps Let_def sel dbl prod.case IH(1) by simp
    moreover have "depth_ok (Suc n) (QNode (ch(?i \<mapsto> c')))"
      using ch(2) IH(2) by auto
    moreover have "getLeaf (QNode (ch(?i \<mapsto> c'))) x' y' =
        (if path (Suc n) x' y' = path (Suc n) x y then Some a else getLeaf node x' y')" for x' y'
      using ch(1) IH(3) by (auto simp: c_def split: option.splits)
    moreover have "getLeaf node x y = getLeaf c (push_bit 1 x) (push_bit 1 y)"
      using ch(1) by (auto simp: c_def split: option.split)
    ultimately show ?thesis using IH(4) by auto
  qed
qed

section \<open>The invariant of the map\<close>

text \<open>
  Every leaf is at depth 13 and at an address in use, no leaf is shared between two
  keys, and its two links are the leaves south and east of it, with the lookups in
  wrapped 32-bit coordinates.
\<close>

definition linked :: "map_state \<Rightarrow> bool" where
  "linked m \<longleftrightarrow> (\<forall>x y a. leaf_of m x y = Some a \<longrightarrow>
     leafS (leaves m a) = leaf_of m x (y + 8) \<and> leafE (leaves m a) = leaf_of m (x + 8) y)"

definition addressed :: "map_state \<Rightarrow> bool" where
  "addressed m \<longleftrightarrow>
     (\<forall>x y a. leaf_of m x y = Some a \<longrightarrow> a < nextLeaf m) \<and>
     (\<forall>x y x' y' a. leaf_of m x y = Some a \<longrightarrow> leaf_of m x' y' = Some a \<longrightarrow> key x = key x' \<and> key y = key y')"

definition map_inv :: "map_state \<Rightarrow> bool" where
  "map_inv m \<longleftrightarrow> depth_ok 13 (root m) \<and> addressed m \<and> linked m"

definition empty_map :: map_state where
  "empty_map = \<lparr>root = empty_node, leaves = (\<lambda>_. new_leaf), nextLeaf = 0\<rparr>"

lemma depth_ok_13_empty: "depth_ok 13 empty_node"
  using depth_ok_empty [of 12] by simp

lemma map_inv_empty: "map_inv empty_map"
  by (simp add: map_inv_def addressed_def linked_def empty_map_def leaf_of_def depth_ok_13_empty)

lemma key_of_nat: "n mod 2 ^ 32 div 8 mod 2 ^ 13 = n div 8 mod (2 ^ 13 :: nat)"
proof -
  have "n mod 2 ^ 32 = 8 * (n div 8 mod 2 ^ 29) + n mod 8"
    using mod_mult2_eq [of n 8 "2 ^ 29"] by simp
  then have "n mod 2 ^ 32 div 8 = n div 8 mod 2 ^ 29"
    by simp
  moreover have "(2 ^ 13 :: nat) dvd 2 ^ 29" by (rule le_imp_power_dvd) simp
  ultimately show ?thesis by (simp only: mod_mod_cancel)
qed

lemma key_add: "key (x + 8) = (key x + 1) mod 2 ^ 13"
proof -
  have "unat (x + 8) = (unat x + 8) mod 2 ^ 32" by (simp add: unat_word_ariths)
  then have "key (x + 8) = (unat x + 8) div 8 mod 2 ^ 13"
    by (simp only: key_def key_of_nat)
  also have "(unat x + 8) div 8 = unat x div 8 + 1" by simp
  finally show ?thesis by (simp only: key_def mod_add_left_eq)
qed

lemma key_sub: "key x = (key (x - 8) + 1) mod 2 ^ 13"
  using key_add [of "x - 8"] by simp

lemma succ_mod_eq: "a < k \<Longrightarrow> b < k \<Longrightarrow> (a + 1) mod k = (b + 1) mod k \<longleftrightarrow> a = (b :: nat)"
  by (auto simp: mod_Suc split: if_splits)

lemma key_shift: "key (y + 8) = key y' \<longleftrightarrow> key y = key (y' - 8)"
proof -
  have "key y < 2^13" "key (y' - 8) < 2^13" by (simp_all add: key_def)
  then show ?thesis unfolding key_add key_sub[of y'] by (rule succ_mod_eq)
qed

lemma key_neq: "key (y - 8) \<noteq> key y"
proof
  assume "key (y - 8) = key y"
  then have "key y = (key y + 1) mod 2 ^ 13" using key_sub [of y] by simp
  then show False by (cases "key y + 1 = 2 ^ 13") (auto simp: mod_Suc key_def split: if_splits)
qed

lemma key_ucast: "key (ucast (x :: u16)) = unat x div 8"
proof -
  have "unat x div 8 < 2 ^ 13" using unsigned_less [of x, where 'a = nat] by simp
  then show ?thesis by (simp add: key_def)
qed

lemma tile_x_mod: "tile_x x = unat x mod 8"
proof -
  have "(ucast x :: u32) AND FLOOR_MASK = take_bit 3 (ucast x)"
    by (simp add: FLOOR_MASK_def take_bit_eq_mask mask_eq_exp_minus_1)
  then show ?thesis
    by (simp only: tile_x_def unsigned_take_bit_eq) (simp add: take_bit_eq_mod)
qed

lemma same_slot: "key (ucast x) = key (ucast x') \<and> tile_x x = tile_x x' \<longleftrightarrow> x = x'"
  unfolding key_ucast tile_x_mod by (metis div_mult_mod_eq word_unat_eq_iff)

lemma leaf_of_key:
  "depth_ok 13 (root m) \<Longrightarrow> key x = key x' \<Longrightarrow> key y = key y' \<Longrightarrow> leaf_of m x y = leaf_of m x' y'"
  unfolding leaf_of_def by (rule getLeaf_path [of 13]) (simp_all only: path_eq_key)

lemma leaf_of_upd [simp]: "leaf_of (upd_leaf a f m) x y = leaf_of m x y"
  by (simp add: leaf_of_def upd_leaf_def)

lemma leaves_upd: "leaves (upd_leaf a f m) b = (if b = a then f (leaves m a) else leaves m b)"
  by (simp add: upd_leaf_def)

lemma root_upd [simp]: "root (upd_leaf a f m) = root m" "nextLeaf (upd_leaf a f m) = nextLeaf m"
  by (simp_all add: upd_leaf_def)

lemma root_link [simp]: "root (link_leaf x y a m) = root m" "nextLeaf (link_leaf x y a m) = nextLeaf m"
  by (simp_all add: link_leaf_def set_link_def Let_def split: option.split)

lemma leaf_of_link [simp]: "leaf_of (link_leaf x y a m) = leaf_of m"
  by (simp add: leaf_of_def fun_eq_iff)

lemma link_leaf_links:
  "leafS (leaves (link_leaf x y a m) b) =
     (if b = a \<and> leaf_of m x (y + 8) \<noteq> None then leaf_of m x (y + 8)
      else if leaf_of m x (y - 8) = Some b then Some a else leafS (leaves m b))"
  "leafE (leaves (link_leaf x y a m) b) =
     (if b = a \<and> leaf_of m (x + 8) y \<noteq> None then leaf_of m (x + 8) y
      else if leaf_of m (x - 8) y = Some b then Some a else leafE (leaves m b))"
  by (auto simp: link_leaf_def set_link_def set_S_def set_E_def Let_def leaves_upd split: option.split)

lemma link_leaf_contents:
  "floors (leaves (link_leaf x y a m) b) = floors (leaves m b)"
  "creature_list (leaves (link_leaf x y a m) b) = creature_list (leaves m b)"
  "player_list (leaves (link_leaf x y a m) b) = player_list (leaves m b)"
  by (auto simp: link_leaf_def set_link_def set_S_def set_E_def Let_def leaves_upd split: option.split)

text \<open>Linking a fresh leaf restores the invariant.\<close>

lemma map_inv_new_leaf:
  assumes inv: "map_inv m" and free: "leaf_of m x y = None" and d: "depth_ok 13 (root m')"
    and lk: "\<And>x' y'. leaf_of m' x' y' =
      (if key x' = key x \<and> key y' = key y then Some (nextLeaf m) else leaf_of m x' y')"
    and m': "leaves m' = (leaves m)(nextLeaf m := new_leaf)" "nextLeaf m' = nextLeaf m + 1"
  shows "map_inv (link_leaf x y (nextLeaf m) m')"
proof -
  let ?a = "nextLeaf m"
  have old: "b < ?a" if h: "leaf_of m x' y' = Some b" for x' y' b
    using inv h unfolding map_inv_def addressed_def by blast
  have inj: "key x1 = key x2 \<and> key y1 = key y2" if h: "leaf_of m x1 y1 = Some b" "leaf_of m x2 y2 = Some b" for x1 y1 x2 y2 b
    using inv h unfolding map_inv_def addressed_def by blast
  have links: "leafS (leaves m b) = leaf_of m x' (y' + 8)" "leafE (leaves m b) = leaf_of m (x' + 8) y'"
    if h: "leaf_of m x' y' = Some b" for x' y' b
    using inv h unfolding map_inv_def linked_def by blast+
  have cong: "leaf_of m x1 y1 = leaf_of m x2 y2" if h: "key x1 = key x2" "key y1 = key y2" for x1 y1 x2 y2
    using inv h by (intro leaf_of_key) (auto simp: map_inv_def)
  have "addressed m'"
    unfolding addressed_def
  proof (intro conjI allI impI)
    show "b < nextLeaf m'" if h: "leaf_of m' x1 y1 = Some b" for x1 y1 b
      using h old by (fastforce simp: lk m' split: if_splits)
    show "key x1 = key x2" "key y1 = key y2"
      if h: "leaf_of m' x1 y1 = Some b" "leaf_of m' x2 y2 = Some b" for x1 y1 x2 y2 b
      using h old [of x1 y1 b] old [of x2 y2 b] inj [of x1 y1 b x2 y2]
      by (auto simp: lk split: if_splits)
  qed
  moreover have "linked (link_leaf x y ?a m')"
    unfolding linked_def
  proof (intro allI impI)
    fix x' y' b assume h: "leaf_of (link_leaf x y ?a m') x' y' = Some b"
    show "leafS (leaves (link_leaf x y ?a m') b) = leaf_of (link_leaf x y ?a m') x' (y' + 8) \<and>
        leafE (leaves (link_leaf x y ?a m') b) = leaf_of (link_leaf x y ?a m') (x' + 8) y'"
    proof (cases "key x' = key x \<and> key y' = key y")
      case True
      then have "b = ?a" using h by (simp add: lk)
      moreover have "leaf_of m' x' (y' + 8) = leaf_of m' x (y + 8)" "leaf_of m' (x' + 8) y' = leaf_of m' (x + 8) y"
        using True leaf_of_key [OF d] by (simp_all add: key_add)
      moreover have "leaf_of m' x (y - 8) \<noteq> Some ?a" "leaf_of m' (x - 8) y \<noteq> Some ?a"
        using old by (auto simp: lk key_neq split: if_splits)
      ultimately show ?thesis by (auto simp: link_leaf_links m' new_leaf_def)
    next
      case False
      then have b: "leaf_of m x' y' = Some b" using h by (auto simp: lk split: if_splits)
      with old have "b \<noteq> ?a" by auto
      moreover have here: "leaf_of m u v = Some b \<longleftrightarrow> key x' = key u \<and> key y' = key v" for u v
        using b cong inj by metis
      have "leaf_of m' x (y - 8) = Some b \<longleftrightarrow> key x' = key x \<and> key (y' + 8) = key y"
        by (simp add: lk key_neq here key_shift)
      moreover have "leaf_of m' (x - 8) y = Some b \<longleftrightarrow> key (x' + 8) = key x \<and> key y' = key y"
        by (simp add: lk key_neq here key_shift)
      ultimately show ?thesis by (simp add: link_leaf_links m' links [OF b] lk)
    qed
  qed
  moreover have "addressed (link_leaf x y ?a m') = addressed m'"
    by (simp only: addressed_def leaf_of_link root_link)
  ultimately show ?thesis
    using d by (simp add: map_inv_def)
qed

section \<open>Setting and reading tiles\<close>

lemma createFloor_simps [simp]:
  "leafS (createFloor z l) = leafS l" "leafE (createFloor z l) = leafE l"
  "creature_list (createFloor z l) = creature_list l" "player_list (createFloor z l) = player_list l"
  by (simp_all add: createFloor_def split: option.split)

lemma set_slot_simps [simp]:
  "leafS (set_slot z i j t l) = leafS l" "leafE (set_slot z i j t l) = leafE l"
  "creature_list (set_slot z i j t l) = creature_list l" "player_list (set_slot z i j t l) = player_list l"
  by (simp_all add: set_slot_def split: option.split)

lemma map_inv_upd:
  assumes "map_inv m" "\<And>l. leafS (f l) = leafS l" "\<And>l. leafE (f l) = leafE l"
  shows "map_inv (upd_leaf a f m)"
proof -
  have "leafS (leaves (upd_leaf a f m) b) = leafS (leaves m b)" "leafE (leaves (upd_leaf a f m) b) = leafE (leaves m b)" for b
    by (simp_all add: leaves_upd assms)
  then have "linked (upd_leaf a f m) = linked m" by (simp only: linked_def leaf_of_upd)
  moreover have "addressed (upd_leaf a f m) = addressed m"
    by (simp only: addressed_def leaf_of_upd root_upd)
  ultimately show ?thesis using assms(1) by (simp add: map_inv_def)
qed

definition tile_in :: "leaf \<Rightarrow> nat \<Rightarrow> nat \<Rightarrow> nat \<Rightarrow> nat option" where
  "tile_in l z i j = (case floors l z of None \<Rightarrow> None | Some fl \<Rightarrow> fl i j)"

lemma getTile_tile_in:
  "getTile m x y z = (if unat z \<ge> MAP_MAX_LAYERS then None
     else case leaf_of m (ucast x) (ucast y) of None \<Rightarrow> None
       | Some a \<Rightarrow> tile_in (leaves m a) (unat z) (tile_x x) (tile_x y))"
  by (auto simp: getTile_def tile_in_def split: option.split)

lemma tile_in_createFloor [simp]: "tile_in (createFloor z l) z' i j = tile_in l z' i j"
  by (auto simp: tile_in_def createFloor_def split: option.split)

lemma tile_in_set_slot:
  "tile_in (set_slot z i j t (createFloor z l)) z' i' j' =
     (if z' = z \<and> i' = i \<and> j' = j then t else tile_in l z' i' j')"
  by (auto simp: tile_in_def createFloor_def set_slot_def split: option.split)

lemma slot_is_tile_in: "the (floors (createFloor z l) z) i j = tile_in l z i j"
  by (auto simp: tile_in_def createFloor_def split: option.split)

lemma tile_in_new_leaf [simp]: "tile_in new_leaf z i j = None"
  by (simp add: tile_in_def new_leaf_def)

text \<open>The leaf part of \<open>setTile\<close>: creating and linking the leaf changes no tile.\<close>

definition ensure_leaf :: "u32 \<Rightarrow> u32 \<Rightarrow> map_state \<Rightarrow> (nat \<times> map_state) option" where
  "ensure_leaf x y m =
     (case createLeaf 15 (root m) x y (nextLeaf m) of None \<Rightarrow> None
      | Some (leaf, root', isNew) \<Rightarrow> Some (leaf,
          if isNew then link_leaf x y leaf
            (m\<lparr>root := root', leaves := (leaves m)(leaf := new_leaf), nextLeaf := nextLeaf m + 1\<rparr>)
          else m\<lparr>root := root'\<rparr>))"

lemma setTile_ensure:
  "setTile merge x y z t (m, w) =
     (if unat z \<ge> MAP_MAX_LAYERS then Some (m, w)
      else case ensure_leaf (ucast x) (ucast y) m of None \<Rightarrow> None
        | Some (a, m1) \<Rightarrow> Some (case tile_in (leaves m1 a) (unat z) (tile_x x) (tile_x y) of
            Some old \<Rightarrow> (upd_leaf a (createFloor (unat z)) m1, merge old t w)
          | None \<Rightarrow> (upd_leaf a (set_slot (unat z) (tile_x x) (tile_x y) (Some t))
                (upd_leaf a (createFloor (unat z)) m1), w)))"
  by (auto simp: setTile_def ensure_leaf_def Let_def leaves_upd slot_is_tile_in split: option.split)

definition ensured :: "map_state \<Rightarrow> u32 \<Rightarrow> u32 \<Rightarrow> nat \<Rightarrow> map_state \<Rightarrow> bool" where
  "ensured m x y a m1 \<longleftrightarrow>
     ensure_leaf x y m = Some (a, m1) \<and> map_inv m1 \<and> (leaf_of m x y = None \<or> leaf_of m x y = Some a) \<and>
     (\<forall>x' y'. leaf_of m1 x' y' = (if key x' = key x \<and> key y' = key y then Some a else leaf_of m x' y')) \<and>
     (leaf_of m x y = Some a \<longrightarrow> leaves m1 = leaves m) \<and>
     (leaf_of m x y = None \<longrightarrow> tile_in (leaves m1 a) = (\<lambda>_ _ _. None) \<and>
        creature_list (leaves m1 a) = [] \<and> player_list (leaves m1 a) = []) \<and>
     (\<forall>b. b \<noteq> a \<longrightarrow> floors (leaves m1 b) = floors (leaves m b) \<and>
        creature_list (leaves m1 b) = creature_list (leaves m b) \<and> player_list (leaves m1 b) = player_list (leaves m b))"

lemma ensuredD:
  assumes "ensured m x y a m1"
  shows "ensure_leaf x y m = Some (a, m1)" "map_inv m1"
    "leaf_of m1 x' y' = (if key x' = key x \<and> key y' = key y then Some a else leaf_of m x' y')"
    "leaf_of m x y = Some a \<Longrightarrow> leaves m1 = leaves m"
    "leaf_of m x y = None \<Longrightarrow> tile_in (leaves m1 a) = (\<lambda>_ _ _. None)"
    "leaf_of m x y = None \<Longrightarrow> creature_list (leaves m1 a) = [] \<and> player_list (leaves m1 a) = []"
    "b \<noteq> a \<Longrightarrow> floors (leaves m1 b) = floors (leaves m b) \<and>
      creature_list (leaves m1 b) = creature_list (leaves m b) \<and> player_list (leaves m1 b) = player_list (leaves m b)"
    "leaf_of m x y = None \<or> leaf_of m x y = Some a"
  using assms unfolding ensured_def by blast+

lemma ensure_leaf_spec:
  assumes inv: "map_inv m"
  obtains a m1 where "ensured m x y a m1"
proof -
  have d: "depth_ok 13 (root m)" using inv by (simp add: map_inv_def)
  obtain a r new where c: "createLeaf 15 (root m) x y (nextLeaf m) = Some (a, r, new)" "depth_ok 13 r"
    "\<And>x' y'. getLeaf r x' y' = (if path 13 x' y' = path 13 x y then Some a else getLeaf (root m) x' y')"
    "case getLeaf (root m) x y of None \<Rightarrow> a = nextLeaf m \<and> new | Some b \<Rightarrow> a = b \<and> \<not> new"
    using createLeaf_spec [OF d, of x y "nextLeaf m"] by auto
  show thesis
  proof (cases "leaf_of m x y")
    case None
    then have n: "a = nextLeaf m" "new" using c(4) by (auto simp: leaf_of_def)
    let ?m = "m\<lparr>root := r, leaves := (leaves m)(nextLeaf m := new_leaf), nextLeaf := nextLeaf m + 1\<rparr>"
    have lk: "leaf_of ?m x' y' = (if key x' = key x \<and> key y' = key y then Some (nextLeaf m) else leaf_of m x' y')" for x' y'
      using c(3) by (simp add: leaf_of_def path_eq_key n)
    have "map_inv (link_leaf x y (nextLeaf m) ?m)"
      by (rule map_inv_new_leaf [OF inv None _ lk]) (simp_all add: c(2))
    then show thesis
      using None c(1) n lk
      by (intro that [of a "link_leaf x y a ?m"])
        (auto simp: ensured_def ensure_leaf_def link_leaf_contents fun_eq_iff tile_in_def new_leaf_def)
  next
    case (Some b)
    then have n: "a = b" "\<not> new" using c(4) by (auto simp: leaf_of_def)
    let ?m = "m\<lparr>root := r\<rparr>"
    have same: "leaf_of ?m x' y' = leaf_of m x' y'" for x' y'
      using leaf_of_key [OF d, of x' x y' y] Some n
      by (simp add: leaf_of_def c(3) path_eq_key)
    have "addressed ?m = addressed m" "linked ?m = linked m"
      by (simp_all only: addressed_def linked_def same) simp_all
    then have "map_inv ?m"
      using inv c(2) by (simp add: map_inv_def)
    moreover have "leaf_of m x' y' = Some a" if h: "key x' = key x" "key y' = key y" for x' y'
      using leaf_of_key [OF d h] Some n by simp
    ultimately show thesis
      using Some c(1) n by (intro that [of a ?m]) (simp add: ensured_def ensure_leaf_def same)
  qed
qed

text \<open>
  What \<open>setTile\<close> does: it succeeds, keeps the invariant, and changes the answer of
  \<open>getTile\<close> at its own coordinates only, where the first tile stays.
\<close>

lemma setTile_spec:
  assumes inv: "map_inv m"
  shows "\<exists>m' w'. setTile merge x y z t (m, w) = Some (m', w') \<and> map_inv m' \<and>
    (\<forall>x' y' z'. getTile m' x' y' z' =
       (if x' = x \<and> y' = y \<and> z' = z \<and> unat z < MAP_MAX_LAYERS \<and> getTile m x y z = None
        then Some t else getTile m x' y' z')) \<and>
    w' = (if unat z < MAP_MAX_LAYERS then case getTile m x y z of None \<Rightarrow> w | Some old \<Rightarrow> merge old t w else w)"
proof (cases "unat z < MAP_MAX_LAYERS")
  case False
  then show ?thesis using inv by (simp add: setTile_ensure)
next
  case True
  define X where "X = (ucast x :: u32)"
  define Y where "Y = (ucast y :: u32)"
  obtain a m1 where en: "ensured m X Y a m1"
    by (rule ensure_leaf_spec [OF inv])
  note e = ensuredD [OF en]
  have here: "leaf_of m1 X Y = Some a" by (simp add: e(3))
  have inj: "b \<noteq> a" if h: "leaf_of m1 x' y' = Some b" "\<not> (key x' = key X \<and> key y' = key Y)" for x' y' b
    using e(2) here h unfolding map_inv_def addressed_def by blast
  have cong: "leaf_of m x' y' = leaf_of m X Y" if h: "key x' = key X" "key y' = key Y" for x' y'
    using h inv by (intro leaf_of_key) (simp_all add: map_inv_def)
  have same: "getTile m1 x' y' z' = getTile m x' y' z'" for x' y' z'
  proof (cases "key (ucast x') = key X \<and> key (ucast y') = key Y")
    case True
    have k: "leaf_of m1 (ucast x') (ucast y') = Some a" "leaf_of m (ucast x') (ucast y') = leaf_of m X Y"
      subgoal using True by (simp add: e(3))
      subgoal by (rule cong) (simp_all add: True)
      done
    show ?thesis
    proof (cases "leaf_of m X Y")
      case None
      then show ?thesis using e(5) by (simp add: getTile_tile_in k)
    next
      case (Some b)
      then show ?thesis using e(4,8) by (simp add: getTile_tile_in k)
    qed
  next
    case False
    have "leaf_of m1 (ucast x') (ucast y') = leaf_of m (ucast x') (ucast y')"
      by (simp only: e(3) if_not_P [OF False])
    moreover have "tile_in (leaves m1 b) = tile_in (leaves m b)" if h: "leaf_of m1 (ucast x') (ucast y') = Some b" for b
      using e(7) [OF inj [OF h False]] by (simp add: tile_in_def fun_eq_iff)
    ultimately show ?thesis by (simp add: getTile_tile_in split: option.split)
  qed
  have at: "tile_in (leaves m1 a) (unat z) (tile_x x) (tile_x y) = getTile m x y z"
    using True here unfolding same [symmetric] by (simp add: getTile_tile_in X_def Y_def)
  let ?m2 = "upd_leaf a (createFloor (unat z)) m1"
  have fl: "getTile ?m2 x' y' z' = getTile m x' y' z'" for x' y' z'
    unfolding same [symmetric] by (simp add: getTile_tile_in leaves_upd split: option.split)
  have i2: "map_inv ?m2" by (rule map_inv_upd [OF e(2)]) simp_all
  show ?thesis
  proof (cases "getTile m x y z")
    case (Some old)
    then show ?thesis using True e(1) at i2 fl by (simp add: setTile_ensure X_def Y_def)
  next
    case None
    let ?m3 = "upd_leaf a (set_slot (unat z) (tile_x x) (tile_x y) (Some t)) ?m2"
    have "map_inv ?m3" by (rule map_inv_upd [OF i2]) simp_all
    moreover have "getTile ?m3 x' y' z' = (if x' = x \<and> y' = y \<and> z' = z then Some t else getTile m x' y' z')" for x' y' z'
    proof (cases "key (ucast x') = key X \<and> key (ucast y') = key Y")
      case k: True
      then have "leaf_of m1 (ucast x') (ucast y') = Some a" by (simp add: e(3))
      moreover have "x' = x \<and> y' = y \<longleftrightarrow> tile_x x' = tile_x x \<and> tile_x y' = tile_x y"
        using k same_slot [of x' x] same_slot [of y' y] by (simp add: X_def Y_def)
      ultimately show ?thesis
        using True unfolding same [symmetric]
        by (auto simp: getTile_tile_in leaves_upd tile_in_set_slot word_unat_eq_iff)
    next
      case k: False
      then have "\<not> (x' = x \<and> y' = y)" by (auto simp: X_def Y_def)
      then show ?thesis
        using inj [OF _ k] unfolding same [symmetric]
        by (auto simp: getTile_tile_in leaves_upd split: option.split)
    qed
    ultimately show ?thesis using True e(1) at None by (simp add: setTile_ensure X_def Y_def)
  qed
qed

section \<open>The store of tiles\<close>

text \<open>
  The specification is a partial function from coordinates to tiles in which a tile, once
  set, stays. Loading a map is a sequence of \<open>setTile\<close>.
\<close>

type_synonym tile_op = "(u16 \<times> u16 \<times> u8) \<times> nat"

definition set_tile_op :: "(nat \<Rightarrow> nat \<Rightarrow> 'w \<Rightarrow> 'w) \<Rightarrow> tile_op \<Rightarrow> map_state \<times> 'w \<Rightarrow> map_state \<times> 'w" where
  "set_tile_op merge op mw = (case op of ((x, y, z), t) \<Rightarrow> the (setTile merge x y z t mw))"

definition spec_set :: "tile_op \<Rightarrow> (u16 \<times> u16 \<times> u8 \<rightharpoonup> nat) \<Rightarrow> (u16 \<times> u16 \<times> u8 \<rightharpoonup> nat)" where
  "spec_set op M = (case op of ((x, y, z), t) \<Rightarrow>
     if unat z < MAP_MAX_LAYERS \<and> M (x, y, z) = None then M((x, y, z) \<mapsto> t) else M)"

definition tiles_rel :: "map_state \<times> 'w \<Rightarrow> (u16 \<times> u16 \<times> u8 \<rightharpoonup> nat) \<Rightarrow> bool" where
  "tiles_rel mw M \<longleftrightarrow> map_inv (fst mw) \<and> (\<forall>x y z. getTile (fst mw) x y z = M (x, y, z))"

interpretation tile_store: refinement "set_tile_op merge" spec_set tiles_rel
proof
  fix mw :: "map_state \<times> 'a" and M :: "u16 \<times> u16 \<times> u8 \<Rightarrow> nat option" and p :: tile_op
  assume r: "tiles_rel mw M"
  obtain m w where mw: "mw = (m, w)" by (cases mw)
  obtain x y z t where p: "p = ((x, y, z), t)" by (metis prod_cases4 prod.exhaust)
  have inv: "map_inv m" and get: "\<And>x y z. getTile m x y z = M (x, y, z)" using r by (simp_all add: tiles_rel_def mw)
  show "tiles_rel (set_tile_op merge p mw) (spec_set p M)"
    using setTile_spec [OF inv, of merge x y z t w]
    by (auto simp: tiles_rel_def set_tile_op_def spec_set_def mw p get)
qed

lemma tiles_rel_empty: "tiles_rel (empty_map, w) (\<lambda>_. None)"
  using map_inv_empty by (simp add: tiles_rel_def getTile_def leaf_of_def empty_map_def)

lemma spec_set_first:
  "unat z < MAP_MAX_LAYERS \<Longrightarrow>
   fold spec_set ops M (x, y, z) = (case M (x, y, z) of Some t \<Rightarrow> Some t
     | None \<Rightarrow> map_option snd (find (\<lambda>p. fst p = (x, y, z)) ops))"
proof (induction ops arbitrary: M)
  case Nil
  then show ?case by (simp split: option.split)
next
  case (Cons p ops)
  obtain c t where p: "p = (c, t)" by (cases p)
  show ?case
    using Cons by (cases c) (auto simp: p spec_set_def split: option.split)
qed

text \<open>
  C3. Loading tiles in any order into an empty map builds a tree in which \<open>getTile\<close>
  answers, for every coordinate of a valid floor, the first tile that was set there, or
  nothing when none was; the depth of the tree, the sharing of leaves and their south and
  east links stay right throughout.
\<close>

theorem map_stores_first_tile:
  assumes "unat z < MAP_MAX_LAYERS"
  shows "let m = fst (fold (set_tile_op merge) ops (empty_map, w))
    in map_inv m \<and> getTile m x y z = map_option snd (find (\<lambda>p. fst p = (x, y, z)) ops)"
proof -
  have "tiles_rel (fold (set_tile_op merge) ops (empty_map, w)) (fold spec_set ops (\<lambda>_. None))"
    by (rule tile_store.run_rel [OF tiles_rel_empty])
  with spec_set_first [OF assms] show ?thesis
    by (simp add: tiles_rel_def Let_def)
qed

theorem map_stores_first_tile_witness:
  "let m = fst (fold (set_tile_op (\<lambda>old new w. w + 1))
      [((100, 200, 7), 1), ((65535, 0, 7), 2), ((100, 200, 7), 3)] (empty_map, 0 :: nat))
   in map_inv m \<and> getTile m 100 200 7 = Some 1"
  using map_stores_first_tile [of 7 "\<lambda>old new w. w + 1"
      "[((100, 200, 7), 1), ((65535, 0, 7), 2), ((100, 200, 7), 3)]" "0 :: nat" 100 200]
  by (simp add: MAP_MAX_LAYERS_def Let_def)

text \<open>
  \<open>setTile\<close> never fails on a map that satisfies the invariant; on a fresh coordinate it
  stores the tile, on a taken one it hands the new tile's contents to the old tile, and no
  other coordinate is affected.
\<close>

theorem set_tile_effect:
  assumes "map_inv m" and "unat z < MAP_MAX_LAYERS"
  shows "\<exists>m' w'. setTile merge x y z t (m, w) = Some (m', w') \<and> map_inv m' \<and>
    getTile m' x y z = (case getTile m x y z of None \<Rightarrow> Some t | Some old \<Rightarrow> Some old) \<and>
    w' = (case getTile m x y z of None \<Rightarrow> w | Some old \<Rightarrow> merge old t w) \<and>
    (\<forall>x' y' z'. (x', y', z') \<noteq> (x, y, z) \<longrightarrow> getTile m' x' y' z' = getTile m x' y' z')"
proof -
  obtain m' w' where "setTile merge x y z t (m, w) = Some (m', w')" "map_inv m'"
    "\<forall>x' y' z'. getTile m' x' y' z' =
       (if x' = x \<and> y' = y \<and> z' = z \<and> unat z < MAP_MAX_LAYERS \<and> getTile m x y z = None
        then Some t else getTile m x' y' z')"
    "w' = (if unat z < MAP_MAX_LAYERS then case getTile m x y z of None \<Rightarrow> w | Some old \<Rightarrow> merge old t w else w)"
    using setTile_spec [OF assms(1), of merge x y z t w] by (elim exE conjE) (rule that)
  with assms(2) show ?thesis by (intro exI [of _ m'] exI [of _ w']) (simp split: option.split)
qed

theorem set_tile_effect_witness:
  "\<exists>m' w'. setTile (\<lambda>old new w. w + 1) 100 200 7 5 (empty_map, 0 :: nat) = Some (m', w') \<and>
     getTile m' 100 200 7 = Some 5"
proof -
  have "getTile empty_map 100 200 7 = None"
    by (simp add: getTile_def leaf_of_def empty_map_def)
  have "unat (7 :: u8) < MAP_MAX_LAYERS" by (simp add: MAP_MAX_LAYERS_def)
  from set_tile_effect [OF map_inv_empty this, of "\<lambda>old new w. w + 1" 100 200 5 "0 :: nat"]
  obtain m' w' where "setTile (\<lambda>old new w. w + 1) 100 200 7 5 (empty_map, 0 :: nat) = Some (m', w')"
    and "getTile m' 100 200 7 = (case getTile empty_map 100 200 7 of None \<Rightarrow> Some 5 | Some old \<Rightarrow> Some old)"
    by blast
  with \<open>getTile empty_map 100 200 7 = None\<close> show ?thesis
    by (intro exI [of _ m'] exI [of _ w']) simp
qed

end
