(* ===== verification/Spectators.thy ===== *)
theory Spectators imports MapTree begin

text \<open>
  Who sees a position (map.cpp): the creature lists of the leaves, the scan of the leaves
  around a position along their south and east links, and the two caches of its results.
  A creature is a pointer; its position and whether it is a player are functions.
\<close>

section \<open>The creature lists of the leaves\<close>

definition addCreature :: "(nat \<Rightarrow> bool) \<Rightarrow> nat \<Rightarrow> leaf \<Rightarrow> leaf" where
  "addCreature isPlayer c l =
     (let l = l\<lparr>creature_list := creature_list l @ [c]\<rparr>
      in if isPlayer c then l\<lparr>player_list := player_list l @ [c]\<rparr> else l)"

text \<open>The asserts that the creature is in the lists are the \<open>None\<close> results.\<close>

definition removeCreature :: "(nat \<Rightarrow> bool) \<Rightarrow> nat \<Rightarrow> leaf \<Rightarrow> leaf option" where
  "removeCreature isPlayer c l =
     (if c \<notin> set (creature_list l) then None
      else (let l = l\<lparr>creature_list := swap_erase c (creature_list l)\<rparr>
            in if isPlayer c then
                 (if c \<notin> set (player_list l) then None
                  else Some (l\<lparr>player_list := swap_erase c (player_list l)\<rparr>))
               else Some l))"

text \<open>
  The part of \<open>Map::moveCreature\<close> that concerns the map: the creature changes leaf when
  its new tile lies in another one; dereferencing a missing leaf is \<open>None\<close>.
\<close>

definition switch_leaf :: "(nat \<Rightarrow> bool) \<Rightarrow> nat \<Rightarrow> position \<Rightarrow> position \<Rightarrow> map_state \<Rightarrow> map_state option" where
  "switch_leaf isPlayer c oldPos newPos m =
     (let leaf = leaf_of m (ucast (px oldPos)) (ucast (py oldPos));
          new_leaf = leaf_of m (ucast (px newPos)) (ucast (py newPos))
      in if leaf \<noteq> new_leaf then
           (case leaf of None \<Rightarrow> None
            | Some a \<Rightarrow>
               (case removeCreature isPlayer c (leaves m a) of None \<Rightarrow> None
                | Some l \<Rightarrow>
                   (case new_leaf of None \<Rightarrow> None
                    | Some b \<Rightarrow> Some (upd_leaf b (addCreature isPlayer c) (upd_leaf a (\<lambda>_. l) m)))))
         else Some m)"

text \<open>A walking creature faces its step; east and west win over north and south.\<close>

definition step_direction :: "bool \<Rightarrow> position \<Rightarrow> position \<Rightarrow> direction \<Rightarrow> direction" where
  "step_direction teleport oldPos newPos d =
     (if \<not> teleport then
        (let d = (if py oldPos > py newPos then North
                  else if py oldPos < py newPos then South else d)
         in if px oldPos < px newPos then East
            else if px oldPos > px newPos then West else d)
      else d)"

section \<open>The scan\<close>

record view_range =
  minRangeX :: int
  maxRangeX :: int
  minRangeY :: int
  maxRangeY :: int
  minRangeZ :: int
  maxRangeZ :: int

text \<open>The two tests of the loop body: the floor, and the box shifted by the floor offset.\<close>

definition in_view :: "position \<Rightarrow> view_range \<Rightarrow> position \<Rightarrow> bool" where
  "in_view center r cpos =
     (let min_y = getY center + minRangeY r; min_x = getX center + minRangeX r;
          max_y = getY center + maxRangeY r; max_x = getX center + maxRangeX r
      in if minRangeZ r > getZ cpos \<or> maxRangeZ r < getZ cpos then False
         else (let offsetZ = getOffsetZ center cpos
               in \<not> (min_y + offsetZ > getY cpos \<or> max_y + offsetZ < getY cpos \<or>
                     min_x + offsetZ > getX cpos \<or> max_x + offsetZ < getX cpos)))"

definition scan_leaf :: "(nat \<Rightarrow> bool) \<Rightarrow> nat list \<Rightarrow> nat set \<Rightarrow> nat set" where
  "scan_leaf sees node_list spectators =
     fold (\<lambda>c S. if sees c then insert c S else S) node_list spectators"

definition node_list :: "bool \<Rightarrow> leaf \<Rightarrow> nat list" where
  "node_list onlyPlayers l = (if onlyPlayers then player_list l else creature_list l)"

function scan_row :: "map_state \<Rightarrow> (nat \<Rightarrow> bool) \<Rightarrow> bool \<Rightarrow> int \<Rightarrow> int \<Rightarrow> int \<Rightarrow> nat option \<Rightarrow> nat set \<Rightarrow> nat set" where
  "scan_row m sees onlyPlayers ny endx2 nx e spectators =
     (if nx \<le> endx2 then
        (case e of
           Some a \<Rightarrow> scan_row m sees onlyPlayers ny endx2 (nx + 8) (leafE (leaves m a))
             (scan_leaf sees (node_list onlyPlayers (leaves m a)) spectators)
         | None \<Rightarrow> scan_row m sees onlyPlayers ny endx2 (nx + 8)
             (leaf_of m (of_int (nx + 8)) (of_int ny)) spectators)
      else spectators)"
  by pat_completeness auto
termination
  by (relation "measure (\<lambda>(m, sees, onlyPlayers, ny, endx2, nx, e, S). nat (endx2 + 8 - nx))") auto

function scan_rows :: "map_state \<Rightarrow> (nat \<Rightarrow> bool) \<Rightarrow> bool \<Rightarrow> int \<Rightarrow> int \<Rightarrow> int \<Rightarrow> int \<Rightarrow> nat option \<Rightarrow> nat set \<Rightarrow> nat set" where
  "scan_rows m sees onlyPlayers startx1 endx2 endy2 ny s spectators =
     (if ny \<le> endy2 then
        (let spectators = scan_row m sees onlyPlayers ny endx2 startx1 s spectators
         in scan_rows m sees onlyPlayers startx1 endx2 endy2 (ny + 8)
              (case s of Some a \<Rightarrow> leafS (leaves m a)
               | None \<Rightarrow> leaf_of m (of_int startx1) (of_int (ny + 8)))
              spectators)
      else spectators)"
  by pat_completeness auto
termination
  by (relation "measure (\<lambda>(m, sees, onlyPlayers, startx1, endx2, endy2, ny, s, S). nat (endy2 + 8 - ny))") auto

declare scan_row.simps [simp del] scan_rows.simps [simp del]

text \<open>\<open>std::min<uint32_t>(0xFFFF, std::max<int32_t>(0, v))\<close>.\<close>

definition clamp :: "int \<Rightarrow> int" where
  "clamp v = min 65535 (max 0 v)"

definition getSpectatorsInternal ::
  "map_state \<Rightarrow> (nat \<Rightarrow> position) \<Rightarrow> position \<Rightarrow> view_range \<Rightarrow> bool \<Rightarrow> nat set \<Rightarrow> nat set" where
  "getSpectatorsInternal m cpos center r onlyPlayers spectators =
     (let min_y = getY center + minRangeY r;
          min_x = getX center + minRangeX r;
          max_y = getY center + maxRangeY r;
          max_x = getX center + maxRangeX r;
          minoffset = getZ center - maxRangeZ r;
          x1 = clamp (min_x + minoffset);
          y1 = clamp (min_y + minoffset);
          maxoffset = getZ center - minRangeZ r;
          x2 = clamp (max_x + maxoffset);
          y2 = clamp (max_y + maxoffset);
          startx1 = x1 - x1 mod 8;
          starty1 = y1 - y1 mod 8;
          endx2 = x2 - x2 mod 8;
          endy2 = y2 - y2 mod 8
      in scan_rows m (\<lambda>c. in_view center r (cpos c)) onlyPlayers startx1 endx2 endy2 starty1
           (leaf_of m (of_int startx1) (of_int starty1)) spectators)"

section \<open>The caches\<close>

record spectator_caches =
  spectatorCache :: "position \<rightharpoonup> nat set"
  playersSpectatorCache :: "position \<rightharpoonup> nat set"

definition clearSpectatorCache :: "spectator_caches \<Rightarrow> spectator_caches" where
  "clearSpectatorCache k = k\<lparr>spectatorCache := Map.empty, playersSpectatorCache := Map.empty\<rparr>"

definition maxViewportX :: int where "maxViewportX = 11"
definition maxViewportY :: int where "maxViewportY = 11"

text \<open>The floors seen from a floor: everything above ground, two floors each way below.\<close>

definition floor_range :: "bool \<Rightarrow> position \<Rightarrow> int \<times> int" where
  "floor_range multifloor center =
     (if multifloor then
        (if pz center > 7 then (max (getZ center - 2) 0, min (getZ center + 2) (int MAP_MAX_LAYERS - 1))
         else if pz center = 6 then (0, 8)
         else if pz center = 7 then (0, 9)
         else (0, 7))
      else (getZ center, getZ center))"

definition the_range :: "bool \<Rightarrow> position \<Rightarrow> int \<Rightarrow> int \<Rightarrow> int \<Rightarrow> int \<Rightarrow> view_range" where
  "the_range multifloor center minX maxX minY maxY =
     \<lparr>minRangeX = minX, maxRangeX = maxX, minRangeY = minY, maxRangeY = maxY,
      minRangeZ = fst (floor_range multifloor center), maxRangeZ = snd (floor_range multifloor center)\<rparr>"

text \<open>
  \<open>Map::getSpectators\<close>: the set handed in is extended; the result for the default range
  over several floors comes from the caches or goes there, and the players' cache is tried
  before the players are picked out of the general one.
\<close>

definition getSpectators ::
  "map_state \<Rightarrow> (nat \<Rightarrow> position) \<Rightarrow> (nat \<Rightarrow> bool) \<Rightarrow> position \<Rightarrow> bool \<Rightarrow> bool \<Rightarrow> int \<Rightarrow> int \<Rightarrow> int \<Rightarrow> int \<Rightarrow>
    nat set \<times> spectator_caches \<Rightarrow> nat set \<times> spectator_caches" where
  "getSpectators m cpos isPlayer center multifloor onlyPlayers minX maxX minY maxY = (\<lambda>(spectators, k).
     if unat (pz center) \<ge> MAP_MAX_LAYERS then (spectators, k)
     else
       (let minX = (if minX = 0 then - maxViewportX else - minX);
            maxX = (if maxX = 0 then maxViewportX else maxX);
            minY = (if minY = 0 then - maxViewportY else - minY);
            maxY = (if maxY = 0 then maxViewportY else maxY);
            cacheable = (minX = - maxViewportX \<and> maxX = maxViewportX \<and> minY = - maxViewportY \<and>
              maxY = maxViewportY \<and> multifloor);
            scan = getSpectatorsInternal m cpos center (the_range multifloor center minX maxX minY maxY)
              onlyPlayers spectators
        in if cacheable then
             (case (if onlyPlayers then playersSpectatorCache k center else None) of
                Some cached \<Rightarrow> (if spectators \<noteq> {} then spectators \<union> cached else cached, k)
              | None \<Rightarrow>
                 (case spectatorCache k center of
                    Some cached \<Rightarrow>
                      (if \<not> onlyPlayers then (if spectators \<noteq> {} then spectators \<union> cached else cached)
                       else spectators \<union> {c \<in> cached. isPlayer c}, k)
                  | None \<Rightarrow>
                     (scan, if onlyPlayers then k\<lparr>playersSpectatorCache := (playersSpectatorCache k)(center \<mapsto> scan)\<rparr>
                            else k\<lparr>spectatorCache := (spectatorCache k)(center \<mapsto> scan)\<rparr>)))
           else (scan, k)))"

section \<open>What the scan finds\<close>

text \<open>
  The creatures of the map: each stands in the list of the leaf of its position and in no
  other, and the list of players is the players of the list.
\<close>

definition placed :: "(nat \<Rightarrow> bool) \<Rightarrow> map_state \<Rightarrow> (nat \<Rightarrow> position) \<Rightarrow> bool" where
  "placed isPlayer m cpos \<longleftrightarrow>
     (\<forall>x y a. leaf_of m x y = Some a \<longrightarrow>
        distinct (creature_list (leaves m a)) \<and> distinct (player_list (leaves m a)) \<and>
        set (player_list (leaves m a)) = {c \<in> set (creature_list (leaves m a)). isPlayer c} \<and>
        (\<forall>c \<in> set (creature_list (leaves m a)).
           leaf_of m (ucast (px (cpos c))) (ucast (py (cpos c))) = Some a))"

definition on_map :: "map_state \<Rightarrow> (nat \<Rightarrow> position) \<Rightarrow> nat \<Rightarrow> bool" where
  "on_map m cpos c =
     (case leaf_of m (ucast (px (cpos c))) (ucast (py (cpos c))) of None \<Rightarrow> False
      | Some a \<Rightarrow> c \<in> set (creature_list (leaves m a)))"

lemma scan_leaf_eq: "scan_leaf sees cs S = S \<union> {c \<in> set cs. sees c}"
  by (induction cs arbitrary: S) (auto simp: scan_leaf_def)

text \<open>What one leaf contributes, and a row of leaves.\<close>

definition seen_at :: "map_state \<Rightarrow> (nat \<Rightarrow> bool) \<Rightarrow> bool \<Rightarrow> int \<Rightarrow> int \<Rightarrow> nat set" where
  "seen_at m sees onlyPlayers nx ny =
     (case leaf_of m (of_int nx) (of_int ny) of None \<Rightarrow> {}
      | Some a \<Rightarrow> {c \<in> set (node_list onlyPlayers (leaves m a)). sees c})"

lemma linkedD:
  assumes "map_inv m" "leaf_of m x y = Some a"
  shows "leafS (leaves m a) = leaf_of m x (y + 8)" "leafE (leaves m a) = leaf_of m (x + 8) y"
  using assms unfolding map_inv_def linked_def by blast+

lemma steps_of_8: "{n. s \<le> n \<and> n \<le> e \<and> (n - s) mod 8 = 0} =
    (if s \<le> e then insert s {n. s + 8 \<le> n \<and> n \<le> e \<and> (n - (s + 8)) mod 8 = (0 :: int)} else {})"
proof (rule set_eqI)
  fix n :: int
  have "s \<le> n \<and> n \<le> e \<and> (n - s) mod 8 = 0 \<longleftrightarrow>
      s \<le> e \<and> (n = s \<or> s + 8 \<le> n \<and> n \<le> e \<and> (n - (s + 8)) mod 8 = 0)"
    by presburger
  then show "n \<in> {n. s \<le> n \<and> n \<le> e \<and> (n - s) mod 8 = 0} \<longleftrightarrow>
      n \<in> (if s \<le> e then insert s {n. s + 8 \<le> n \<and> n \<le> e \<and> (n - (s + 8)) mod 8 = 0} else {})"
    by (simp only: mem_Collect_eq insert_iff empty_iff split: if_split) blast
qed

lemma scan_row_eq:
  assumes inv: "map_inv m"
  shows "e = leaf_of m (of_int nx) (of_int ny) \<Longrightarrow>
    scan_row m sees onlyPlayers ny endx2 nx e S =
      S \<union> (\<Union>n \<in> {n. nx \<le> n \<and> n \<le> endx2 \<and> (n - nx) mod 8 = 0}. seen_at m sees onlyPlayers n ny)"
proof (induction "nat (endx2 + 8 - nx)" arbitrary: nx e S rule: less_induct)
  case less
  show ?case
  proof (cases "nx \<le> endx2")
    case False
    then show ?thesis by (simp add: scan_row.simps [of m sees onlyPlayers ny endx2 nx] steps_of_8 [of nx])
  next
    case True
    have IH: "scan_row m sees onlyPlayers ny endx2 (nx + 8) (leaf_of m (of_int (nx + 8)) (of_int ny)) S' =
        S' \<union> (\<Union>n \<in> {n. nx + 8 \<le> n \<and> n \<le> endx2 \<and> (n - (nx + 8)) mod 8 = 0}. seen_at m sees onlyPlayers n ny)" for S'
      using True by (intro less.hyps) auto
    show ?thesis
    proof (cases e)
      case None
      then show ?thesis
        using True less.prems
        by (simp add: scan_row.simps [of m sees onlyPlayers ny endx2 nx] IH [simplified] steps_of_8 [of nx] seen_at_def)
    next
      case (Some a)
      then have "leafE (leaves m a) = leaf_of m (of_int (nx + 8)) (of_int ny)"
        using linkedD(2) [OF inv] less.prems by simp
      then have "scan_row m sees onlyPlayers ny endx2 nx e S =
          scan_row m sees onlyPlayers ny endx2 (nx + 8) (leaf_of m (of_int (nx + 8)) (of_int ny))
            (S \<union> seen_at m sees onlyPlayers nx ny)"
        using True Some less.prems [symmetric]
        by (simp add: scan_row.simps [of m sees onlyPlayers ny endx2 nx] scan_leaf_eq seen_at_def)
      then show ?thesis
        using True by (simp only: IH steps_of_8 [of nx]) auto
    qed
  qed
qed

lemma scan_rows_eq:
  assumes inv: "map_inv m"
  shows "s = leaf_of m (of_int startx1) (of_int ny) \<Longrightarrow>
    scan_rows m sees onlyPlayers startx1 endx2 endy2 ny s S =
      S \<union> (\<Union>k \<in> {k. ny \<le> k \<and> k \<le> endy2 \<and> (k - ny) mod 8 = 0}.
             \<Union>n \<in> {n. startx1 \<le> n \<and> n \<le> endx2 \<and> (n - startx1) mod 8 = 0}. seen_at m sees onlyPlayers n k)"
proof (induction "nat (endy2 + 8 - ny)" arbitrary: ny s S rule: less_induct)
  case less
  show ?case
  proof (cases "ny \<le> endy2")
    case False
    then show ?thesis by (simp add: scan_rows.simps [of m sees onlyPlayers startx1 endx2 endy2 ny] steps_of_8 [of ny])
  next
    case True
    define row where "row = (\<Union>n \<in> {n. startx1 \<le> n \<and> n \<le> endx2 \<and> (n - startx1) mod 8 = 0}. seen_at m sees onlyPlayers n ny)"
    have IH: "scan_rows m sees onlyPlayers startx1 endx2 endy2 (ny + 8) (leaf_of m (of_int startx1) (of_int (ny + 8))) S' =
        S' \<union> (\<Union>k \<in> {k. ny + 8 \<le> k \<and> k \<le> endy2 \<and> (k - (ny + 8)) mod 8 = 0}.
             \<Union>n \<in> {n. startx1 \<le> n \<and> n \<le> endx2 \<and> (n - startx1) mod 8 = 0}. seen_at m sees onlyPlayers n k)" for S'
      using True by (intro less.hyps) auto
    have "(case s of Some a \<Rightarrow> leafS (leaves m a) | None \<Rightarrow> leaf_of m (of_int startx1) (of_int (ny + 8))) =
        leaf_of m (of_int startx1) (of_int (ny + 8))"
      using linkedD(1) [OF inv] less.prems by (simp split: option.split)
    then have "scan_rows m sees onlyPlayers startx1 endx2 endy2 ny s S =
        scan_rows m sees onlyPlayers startx1 endx2 endy2 (ny + 8) (leaf_of m (of_int startx1) (of_int (ny + 8))) (S \<union> row)"
      using True scan_row_eq [OF inv less.prems]
      by (simp only: scan_rows.simps [of m sees onlyPlayers startx1 endx2 endy2 ny] Let_def row_def if_True)
    then show ?thesis
      using True by (simp only: IH steps_of_8 [of ny] row_def) auto
  qed
qed

lemma set_node_list:
  "placed isPlayer m cpos \<Longrightarrow> leaf_of m x y = Some a \<Longrightarrow>
   set (node_list onlyPlayers (leaves m a)) = {c \<in> set (creature_list (leaves m a)). onlyPlayers \<longrightarrow> isPlayer c}"
  unfolding placed_def node_list_def by (cases onlyPlayers) auto

definition view :: "map_state \<Rightarrow> (nat \<Rightarrow> position) \<Rightarrow> (nat \<Rightarrow> bool) \<Rightarrow> position \<Rightarrow> view_range \<Rightarrow> bool \<Rightarrow> nat set" where
  "view m cpos isPlayer center r onlyPlayers =
     {c. on_map m cpos c \<and> in_view center r (cpos c) \<and> (onlyPlayers \<longrightarrow> isPlayer c)}"

text \<open>The leaf of a position is reached by the aligned coordinates of the scan.\<close>

lemma key_of_int: "0 \<le> n \<Longrightarrow> n < 65536 \<Longrightarrow> key (of_int n) = nat n div 8"
proof -
  assume n: "0 \<le> n" "n < 65536"
  then have "unat (of_int n :: u32) = nat n"
    by (simp add: unat_eq_nat_uint uint_word_of_int)
  moreover have "nat n div 8 < 2 ^ 13" using n by simp
  ultimately show ?thesis by (simp add: key_def)
qed

lemma aligned:
  assumes "0 \<le> n" "n < 65536"
  shows "0 \<le> n - n mod 8" "n - n mod 8 < 65536" "nat (n - n mod 8) div 8 = nat n div (8 :: nat)"
proof -
  show "0 \<le> n - n mod 8" "n - n mod 8 < 65536" using assms by presburger+
  have "nat (n - n mod 8) div 8 = nat ((n - n mod 8) div 8)" using assms by (simp add: nat_div_distrib)
  also have "(n - n mod 8) div 8 = n div 8" by presburger
  finally show "nat (n - n mod 8) div 8 = nat n div 8" using assms by (simp add: nat_div_distrib)
qed

lemma aligned_leaf:
  assumes "map_inv m"
  shows "leaf_of m (of_int (uint x - uint x mod 8)) (of_int (uint y - uint y mod 8)) =
    leaf_of m (ucast (x :: u16)) (ucast (y :: u16))"
proof (rule leaf_of_key)
  show "depth_ok 13 (root m)" using assms by (simp add: map_inv_def)
  have "key (of_int (uint z - uint z mod 8)) = key (ucast z)" for z :: u16
  proof -
    have z: "0 \<le> uint z" "uint z < 65536" using unsigned_less [of z, where 'a = int] by simp_all
    have "key (of_int (uint z - uint z mod 8)) = nat (uint z - uint z mod 8) div 8"
      by (rule key_of_int [OF aligned(1) [OF z] aligned(2) [OF z]])
    also have "\<dots> = nat (uint z) div 8" by (rule aligned(3) [OF z])
    also have "\<dots> = unat z div 8" by simp
    finally show ?thesis by (simp add: key_ucast)
  qed
  then show "key (of_int (uint x - uint x mod 8)) = key (ucast x)"
    "key (of_int (uint y - uint y mod 8)) = key (ucast y)" by blast+
qed

lemma in_view_iff:
  "in_view center r p \<longleftrightarrow>
     minRangeZ r \<le> getZ p \<and> getZ p \<le> maxRangeZ r \<and>
     getX center + minRangeX r + (getZ center - getZ p) \<le> getX p \<and>
     getX p \<le> getX center + maxRangeX r + (getZ center - getZ p) \<and>
     getY center + minRangeY r + (getZ center - getZ p) \<le> getY p \<and>
     getY p \<le> getY center + maxRangeY r + (getZ center - getZ p)"
  by (auto simp: in_view_def Let_def getOffsetZ_def)

lemma aligned_between:
  assumes "lo \<le> n" "n \<le> hi" "0 \<le> n" "n < 65536"
  shows "n - n mod 8 \<in> {k. clamp lo - clamp lo mod 8 \<le> k \<and> k \<le> clamp hi - clamp hi mod 8 \<and>
    (k - (clamp lo - clamp lo mod 8)) mod 8 = (0 :: int)}"
proof -
  define a where "a = clamp lo"
  define b where "b = clamp hi"
  have "a \<le> n" "n \<le> b" using assms by (auto simp: clamp_def a_def b_def)
  then have "a - a mod 8 \<le> n - n mod 8" "n - n mod 8 \<le> b - b mod 8" "((n - n mod 8) - (a - a mod 8)) mod 8 = 0"
    by presburger+
  then show ?thesis by (simp only: a_def b_def mem_Collect_eq)
qed

lemma getX_bounds: "0 \<le> getX p" "getX p < 65536" "0 \<le> getY p" "getY p < 65536"
  using unsigned_less [of "px p", where 'a = int] unsigned_less [of "py p", where 'a = int]
  by (simp_all add: getX_def getY_def)

lemma seen_at_view:
  assumes p: "placed isPlayer m cpos"
  shows "seen_at m (\<lambda>c. in_view center r (cpos c)) onlyPlayers nx ny \<subseteq> view m cpos isPlayer center r onlyPlayers"
proof (cases "leaf_of m (of_int nx) (of_int ny)")
  case None
  then show ?thesis by (simp add: seen_at_def)
next
  case (Some a)
  have "leaf_of m (ucast (px (cpos c))) (ucast (py (cpos c))) = Some a" if h: "c \<in> set (creature_list (leaves m a))" for c
    using p Some h unfolding placed_def by blast
  then show ?thesis
    using Some set_node_list [OF p Some] by (auto simp: seen_at_def view_def on_map_def)
qed

lemma view_seen_at:
  assumes inv: "map_inv m" and p: "placed isPlayer m cpos" and c: "c \<in> view m cpos isPlayer center r onlyPlayers"
  shows "c \<in> seen_at m (\<lambda>c. in_view center r (cpos c)) onlyPlayers
    (getX (cpos c) - getX (cpos c) mod 8) (getY (cpos c) - getY (cpos c) mod 8)"
proof -
  obtain a where a: "leaf_of m (ucast (px (cpos c))) (ucast (py (cpos c))) = Some a" "c \<in> set (creature_list (leaves m a))"
    using c by (auto simp: view_def on_map_def split: option.splits)
  then have "leaf_of m (of_int (getX (cpos c) - getX (cpos c) mod 8)) (of_int (getY (cpos c) - getY (cpos c) mod 8)) = Some a"
    unfolding getX_def getY_def aligned_leaf [OF inv] by simp
  then show ?thesis
    using a(2) c set_node_list [OF p a(1)] by (auto simp: seen_at_def view_def)
qed

lemma getSpectatorsInternal_view:
  assumes inv: "map_inv m" and p: "placed isPlayer m cpos"
  shows "getSpectatorsInternal m cpos center r onlyPlayers S = S \<union> view m cpos isPlayer center r onlyPlayers"
proof -
  let ?x1 = "clamp (getX center + minRangeX r + (getZ center - maxRangeZ r))"
  let ?x2 = "clamp (getX center + maxRangeX r + (getZ center - minRangeZ r))"
  let ?y1 = "clamp (getY center + minRangeY r + (getZ center - maxRangeZ r))"
  let ?y2 = "clamp (getY center + maxRangeY r + (getZ center - minRangeZ r))"
  let ?ys = "{k. ?y1 - ?y1 mod 8 \<le> k \<and> k \<le> ?y2 - ?y2 mod 8 \<and> (k - (?y1 - ?y1 mod 8)) mod 8 = 0}"
  let ?xs = "{k. ?x1 - ?x1 mod 8 \<le> k \<and> k \<le> ?x2 - ?x2 mod 8 \<and> (k - (?x1 - ?x1 mod 8)) mod 8 = 0}"
  let ?seen = "\<lambda>n k. seen_at m (\<lambda>c. in_view center r (cpos c)) onlyPlayers n k"
  have "getSpectatorsInternal m cpos center r onlyPlayers S = S \<union> (\<Union>k \<in> ?ys. \<Union>n \<in> ?xs. ?seen n k)"
    unfolding getSpectatorsInternal_def Let_def by (rule scan_rows_eq [OF inv refl])
  also have "(\<Union>k \<in> ?ys. \<Union>n \<in> ?xs. ?seen n k) = view m cpos isPlayer center r onlyPlayers"
  proof (intro equalityI subsetI)
    fix c assume "c \<in> (\<Union>k \<in> ?ys. \<Union>n \<in> ?xs. ?seen n k)"
    then show "c \<in> view m cpos isPlayer center r onlyPlayers"
      using seen_at_view [OF p] by blast
  next
    fix c assume c: "c \<in> view m cpos isPlayer center r onlyPlayers"
    then have v: "in_view center r (cpos c)" by (simp add: view_def)
    have "getX (cpos c) - getX (cpos c) mod 8 \<in> ?xs"
      by (rule aligned_between) (use v getX_bounds [of "cpos c"] in \<open>auto simp: in_view_iff\<close>)
    moreover have "getY (cpos c) - getY (cpos c) mod 8 \<in> ?ys"
      by (rule aligned_between) (use v getX_bounds [of "cpos c"] in \<open>auto simp: in_view_iff\<close>)
    ultimately show "c \<in> (\<Union>k \<in> ?ys. \<Union>n \<in> ?xs. ?seen n k)"
      using view_seen_at [OF inv p c] by (intro UN_I)
  qed
  finally show ?thesis .
qed

section \<open>The caches stay coherent\<close>

text \<open>A cached set is the view of its position over the default range and several floors.\<close>

definition default_view :: "map_state \<Rightarrow> (nat \<Rightarrow> position) \<Rightarrow> (nat \<Rightarrow> bool) \<Rightarrow> position \<Rightarrow> bool \<Rightarrow> nat set" where
  "default_view m cpos isPlayer center onlyPlayers =
     view m cpos isPlayer center (the_range True center (- maxViewportX) maxViewportX (- maxViewportY) maxViewportY) onlyPlayers"

definition coherent :: "map_state \<Rightarrow> (nat \<Rightarrow> position) \<Rightarrow> (nat \<Rightarrow> bool) \<Rightarrow> spectator_caches \<Rightarrow> bool" where
  "coherent m cpos isPlayer k \<longleftrightarrow>
     (\<forall>p S. spectatorCache k p = Some S \<longrightarrow> S = default_view m cpos isPlayer p False) \<and>
     (\<forall>p S. playersSpectatorCache k p = Some S \<longrightarrow> S = default_view m cpos isPlayer p True)"

lemma coherent_clear: "coherent m cpos isPlayer (clearSpectatorCache k)"
  by (simp add: coherent_def clearSpectatorCache_def)

definition effective_range :: "position \<Rightarrow> bool \<Rightarrow> int \<Rightarrow> int \<Rightarrow> int \<Rightarrow> int \<Rightarrow> view_range" where
  "effective_range center multifloor minX maxX minY maxY =
     the_range multifloor center (if minX = 0 then - maxViewportX else - minX) (if maxX = 0 then maxViewportX else maxX)
       (if minY = 0 then - maxViewportY else - minY) (if maxY = 0 then maxViewportY else maxY)"

lemma view_players: "view m cpos isPlayer center r True = {c \<in> view m cpos isPlayer center r False. isPlayer c}"
  by (auto simp: view_def)

lemma getSpectators_eq:
  assumes inv: "map_inv m" and p: "placed isPlayer m cpos" and k: "coherent m cpos isPlayer k"
    and z: "unat (pz center) < MAP_MAX_LAYERS"
  shows "fst (getSpectators m cpos isPlayer center multifloor onlyPlayers minX maxX minY maxY (S, k)) =
      S \<union> view m cpos isPlayer center (effective_range center multifloor minX maxX minY maxY) onlyPlayers" (is ?A)
    and "S = {} \<Longrightarrow> coherent m cpos isPlayer
      (snd (getSpectators m cpos isPlayer center multifloor onlyPlayers minX maxX minY maxY (S, k)))" (is "_ \<Longrightarrow> ?B")
proof -
  define a where "a = (if minX = 0 then - maxViewportX else - minX)"
  define b where "b = (if maxX = 0 then maxViewportX else maxX)"
  define c where "c = (if minY = 0 then - maxViewportY else - minY)"
  define d where "d = (if maxY = 0 then maxViewportY else maxY)"
  define r where "r = the_range multifloor center a b c d"
  have eff: "effective_range center multifloor minX maxX minY maxY = r"
    by (simp add: effective_range_def r_def a_def b_def c_def d_def)
  note scan = getSpectatorsInternal_view [OF inv p, of center r onlyPlayers S]
  have cs: "spectatorCache k center = Some C \<Longrightarrow> C = default_view m cpos isPlayer center False"
    "playersSpectatorCache k center = Some C \<Longrightarrow> C = default_view m cpos isPlayer center True" for C
    using k by (auto simp: coherent_def)
  have cached: "default_view m cpos isPlayer center o' = view m cpos isPlayer center r o'"
    if h: "a = - maxViewportX \<and> b = maxViewportX \<and> c = - maxViewportY \<and> d = maxViewportY \<and> multifloor" for o'
    using h by (simp add: default_view_def r_def)
  note unf = getSpectators_def Let_def a_def [symmetric] b_def [symmetric] c_def [symmetric] d_def [symmetric] r_def [symmetric]
  have z': "\<not> unat (pz center) \<ge> MAP_MAX_LAYERS" using z by simp
  show ?A
  proof (cases "a = - maxViewportX \<and> b = maxViewportX \<and> c = - maxViewportY \<and> d = maxViewportY \<and> multifloor")
    case False
    then show ?thesis unfolding eff unf by (simp only: prod.case if_not_P [OF z'] if_not_P [OF False] if_False fst_conv scan)
  next
    case True
    note h = cached [OF True] and t = cs [unfolded cached [OF True]]
    show ?thesis
      unfolding eff unf scan prod.case if_not_P [OF z'] if_P [OF True]
      by (cases onlyPlayers; cases "playersSpectatorCache k center"; cases "spectatorCache k center")
        (auto dest: t simp: view_players [of m cpos isPlayer center r])
  qed
  show ?B if "S = {}"
  proof (cases "a = - maxViewportX \<and> b = maxViewportX \<and> c = - maxViewportY \<and> d = maxViewportY \<and> multifloor")
    case False
    then show ?thesis using k unfolding unf by (simp only: prod.case if_not_P [OF z'] if_not_P [OF False] if_False snd_conv)
  next
    case True
    have "coherent m cpos isPlayer (k\<lparr>playersSpectatorCache := (playersSpectatorCache k)(center \<mapsto> view m cpos isPlayer center r True)\<rparr>)"
      "coherent m cpos isPlayer (k\<lparr>spectatorCache := (spectatorCache k)(center \<mapsto> view m cpos isPlayer center r False)\<rparr>)"
      using k by (auto simp: coherent_def cached [OF True])
    then show ?thesis
      using k \<open>S = {}\<close> unfolding unf prod.case if_not_P [OF z'] if_P [OF True]
      by (cases onlyPlayers; cases "playersSpectatorCache k center"; cases "spectatorCache k center")
        (simp_all add: getSpectatorsInternal_view [OF inv p])
  qed
qed

text \<open>
  C8. \<open>Map::getSpectators\<close> finds exactly the creatures in view. On a map that satisfies the
  invariant, with every creature in the list of its leaf and caches whose entries are right,
  a query adds to the given set the creatures whose position is in the box around the
  centre, shifted by one tile per floor of difference, on the floors seen from the centre,
  and only the players when asked, whether the answer is scanned or cached.
\<close>

theorem spectators_exact:
  assumes "map_inv m" and "placed isPlayer m cpos" and "coherent m cpos isPlayer k"
    and "unat (pz center) < MAP_MAX_LAYERS"
  shows "fst (getSpectators m cpos isPlayer center multifloor onlyPlayers minX maxX minY maxY (S, k)) =
    S \<union> {c. on_map m cpos c \<and> (onlyPlayers \<longrightarrow> isPlayer c) \<and>
          in_view center (effective_range center multifloor minX maxX minY maxY) (cpos c)}"
  by (simp only: getSpectators_eq(1) [OF assms] view_def) blast

text \<open>A map with one leaf and one creature, for the witnesses.\<close>

definition sample_pos :: position where "sample_pos = \<lparr>px = 100, py = 100, pz = 7\<rparr>"

lemma map_inv_sample:
  obtains m where "map_inv m" "\<exists>a. leaf_of m (ucast (px sample_pos)) (ucast (py sample_pos)) = Some a"
    "placed isPlayer m cpos"
proof -
  define X where "X = (ucast (px sample_pos) :: u32)"
  define Y where "Y = (ucast (py sample_pos) :: u32)"
  obtain a m where e: "ensured empty_map X Y a m" by (rule ensure_leaf_spec [OF map_inv_empty])
  have none: "leaf_of empty_map x y = None" for x y by (simp add: leaf_of_def empty_map_def)
  have "leaf_of m X Y = Some a" by (simp add: ensuredD(3) [OF e])
  moreover have "b = a" if h: "leaf_of m x y = Some b" for x y b
    using h none by (simp add: ensuredD(3) [OF e] split: if_splits)
  moreover have "creature_list (leaves m a) = [] \<and> player_list (leaves m a) = []"
    by (rule ensuredD(6) [OF e none])
  ultimately have "placed isPlayer m cpos" unfolding placed_def by fastforce
  moreover have "leaf_of m X Y = Some a" by (simp add: ensuredD(3) [OF e])
  ultimately show thesis
    using ensuredD(2) [OF e] by (intro that [of m]) (auto simp: X_def Y_def)
qed

theorem spectators_exact_witness:
  "\<exists>m k. map_inv m \<and> fst (getSpectators m (\<lambda>_. sample_pos) (\<lambda>_. True) sample_pos True False 0 0 0 0 ({}, k)) =
     {c. on_map m (\<lambda>_. sample_pos) c}"
proof -
  obtain m where m: "map_inv m" "placed (\<lambda>_. True) m (\<lambda>_. sample_pos)"
    by (rule map_inv_sample)
  define k where "k = clearSpectatorCache \<lparr>spectatorCache = Map.empty, playersSpectatorCache = Map.empty\<rparr>"
  have "unat (pz sample_pos) < MAP_MAX_LAYERS" by (simp add: sample_pos_def MAP_MAX_LAYERS_def)
  note eq = spectators_exact [OF m coherent_clear [of m "\<lambda>_. sample_pos" "\<lambda>_. True"] this]
  have "in_view sample_pos (effective_range sample_pos True 0 0 0 0) sample_pos"
    by (simp add: in_view_iff effective_range_def the_range_def floor_range_def sample_pos_def
        maxViewportX_def maxViewportY_def getX_def getY_def getZ_def)
  then have "fst (getSpectators m (\<lambda>_. sample_pos) (\<lambda>_. True) sample_pos True False 0 0 0 0 ({}, k)) =
      {c. on_map m (\<lambda>_. sample_pos) c}"
    by (simp add: eq k_def)
  with m(1) show ?thesis by blast
qed

text \<open>
  A query that starts from an empty set keeps the caches right, and clearing them makes
  them right for any later state of the map.
\<close>

theorem spectator_caches_stay_coherent:
  assumes "map_inv m" and "placed isPlayer m cpos" and "coherent m cpos isPlayer k"
    and "unat (pz center) < MAP_MAX_LAYERS"
  shows "coherent m cpos isPlayer
      (snd (getSpectators m cpos isPlayer center multifloor onlyPlayers minX maxX minY maxY ({}, k))) \<and>
    coherent m' cpos' isPlayer (clearSpectatorCache k')"
  using getSpectators_eq(2) [OF assms refl] coherent_clear by blast

theorem spectator_caches_stay_coherent_witness:
  "\<exists>m k. map_inv m \<and> coherent m (\<lambda>_. sample_pos) (\<lambda>_. True)
     (snd (getSpectators m (\<lambda>_. sample_pos) (\<lambda>_. True) sample_pos True True 0 0 0 0 ({}, clearSpectatorCache k)))"
proof -
  obtain m where m: "map_inv m" "placed (\<lambda>_. True) m (\<lambda>_. sample_pos)"
    by (rule map_inv_sample)
  have "unat (pz sample_pos) < MAP_MAX_LAYERS" by (simp add: sample_pos_def MAP_MAX_LAYERS_def)
  from m(1) spectator_caches_stay_coherent [OF m coherent_clear [of m "\<lambda>_. sample_pos" "\<lambda>_. True"] this]
  show ?thesis by blast
qed

section \<open>Changing leaves\<close>

lemma removeCreature_Some:
  "c \<in> set (creature_list l) \<Longrightarrow> (isPlayer c \<Longrightarrow> c \<in> set (player_list l)) \<Longrightarrow>
   removeCreature isPlayer c l = Some (l\<lparr>creature_list := swap_erase c (creature_list l),
     player_list := if isPlayer c then swap_erase c (player_list l) else player_list l\<rparr>)"
  by (simp add: removeCreature_def)

text \<open>The invariant of one leaf, apart from where its creatures stand.\<close>

definition leaf_ok :: "(nat \<Rightarrow> bool) \<Rightarrow> leaf \<Rightarrow> bool" where
  "leaf_ok isPlayer l \<longleftrightarrow> distinct (creature_list l) \<and> distinct (player_list l) \<and>
     set (player_list l) = {c \<in> set (creature_list l). isPlayer c}"

lemma placed_leaf_ok:
  "placed isPlayer m cpos \<longleftrightarrow> (\<forall>x y a. leaf_of m x y = Some a \<longrightarrow> leaf_ok isPlayer (leaves m a) \<and>
     (\<forall>c \<in> set (creature_list (leaves m a)). leaf_of m (ucast (px (cpos c))) (ucast (py (cpos c))) = Some a))"
  unfolding placed_def leaf_ok_def by blast

lemma placedI [intro?]:
  assumes "\<And>x y a. leaf_of m x y = Some a \<Longrightarrow> leaf_ok isPlayer (leaves m a)"
    "\<And>x y a c. leaf_of m x y = Some a \<Longrightarrow> c \<in> set (creature_list (leaves m a)) \<Longrightarrow>
      leaf_of m (ucast (px (cpos c))) (ucast (py (cpos c))) = Some a"
  shows "placed isPlayer m cpos"
  unfolding placed_leaf_ok using assms by blast

lemma placedD:
  assumes "placed isPlayer m cpos" "leaf_of m x y = Some a"
  shows "leaf_ok isPlayer (leaves m a)"
    "c \<in> set (creature_list (leaves m a)) \<Longrightarrow> leaf_of m (ucast (px (cpos c))) (ucast (py (cpos c))) = Some a"
  using assms unfolding placed_leaf_ok by blast+

lemma leaf_ok_remove:
  assumes "leaf_ok isPlayer l" "c \<in> set (creature_list l)"
  shows "\<exists>l'. removeCreature isPlayer c l = Some l' \<and> leaf_ok isPlayer l' \<and>
    set (creature_list l') = set (creature_list l) - {c} \<and> leafS l' = leafS l \<and> leafE l' = leafE l \<and> floors l' = floors l"
  using assms by (subst removeCreature_Some) (auto simp: leaf_ok_def)

lemma addCreature_eq:
  "addCreature isPlayer c l = l\<lparr>creature_list := creature_list l @ [c],
     player_list := if isPlayer c then player_list l @ [c] else player_list l\<rparr>"
  by (simp add: addCreature_def Let_def)

lemma leaf_ok_add:
  "leaf_ok isPlayer l \<Longrightarrow> c \<notin> set (creature_list l) \<Longrightarrow>
   leaf_ok isPlayer (addCreature isPlayer c l) \<and>
   set (creature_list (addCreature isPlayer c l)) = insert c (set (creature_list l))"
  unfolding addCreature_eq leaf_ok_def by (cases "isPlayer c") auto

lemma addCreature_rest [simp]:
  "leafS (addCreature isPlayer c l) = leafS l" "leafE (addCreature isPlayer c l) = leafE l"
  "floors (addCreature isPlayer c l) = floors l"
  by (simp_all add: addCreature_eq)

lemma map_inv_upd_leaf:
  assumes "map_inv m" "leafS l = leafS (leaves m a)" "leafE l = leafE (leaves m a)"
  shows "map_inv (upd_leaf a (\<lambda>_. l) m)"
proof -
  have "leafS (leaves (upd_leaf a (\<lambda>_. l) m) b) = leafS (leaves m b)"
    "leafE (leaves (upd_leaf a (\<lambda>_. l) m) b) = leafE (leaves m b)" for b
    by (simp_all add: leaves_upd assms)
  then have "linked (upd_leaf a (\<lambda>_. l) m) = linked m" by (simp only: linked_def leaf_of_upd)
  moreover have "addressed (upd_leaf a (\<lambda>_. l) m) = addressed m"
    by (simp only: addressed_def leaf_of_upd root_upd)
  ultimately show ?thesis using assms(1) by (simp add: map_inv_def)
qed

text \<open>A creature of the map stands in the list of no other leaf.\<close>

lemma placed_once:
  "placed isPlayer m cpos \<Longrightarrow> leaf_of m (ucast (px (cpos c))) (ucast (py (cpos c))) = Some a \<Longrightarrow>
   leaf_of m x y = Some b \<Longrightarrow> c \<in> set (creature_list (leaves m b)) \<Longrightarrow> b = a"
  unfolding placed_leaf_ok by fastforce

lemma switch_leaf_spec:
  assumes inv: "map_inv m" and p: "placed isPlayer m cpos" and c: "on_map m cpos c"
    and new: "leaf_of m (ucast (px newPos)) (ucast (py newPos)) = Some b"
  obtains m' where "switch_leaf isPlayer c (cpos c) newPos m = Some m'" "map_inv m'"
    "placed isPlayer m' (cpos(c := newPos))" "on_map m' (cpos(c := newPos)) = on_map m cpos"
    "getTile m' = getTile m"
proof -
  obtain a where a: "leaf_of m (ucast (px (cpos c))) (ucast (py (cpos c))) = Some a" "c \<in> set (creature_list (leaves m a))"
    using c by (auto simp: on_map_def split: option.splits)
  show thesis
  proof (cases "a = b")
    case True
    have "placed isPlayer m (cpos(c := newPos))"
    proof
      fix x y d e assume d: "leaf_of m x y = Some d" "e \<in> set (creature_list (leaves m d))"
      show "leaf_of m (ucast (px ((cpos(c := newPos)) e))) (ucast (py ((cpos(c := newPos)) e))) = Some d"
        using placedD(2) [OF p d] placed_once [OF p a(1) d(1)] d(2) new True by (cases "e = c") auto
    qed (rule placedD(1) [OF p])
    moreover have "on_map m (cpos(c := newPos)) = on_map m cpos"
    proof (rule ext)
      fix e show "on_map m (cpos(c := newPos)) e = on_map m cpos e"
        using a new True by (cases "e = c") (simp_all add: on_map_def)
    qed
    ultimately show thesis using a new True inv by (intro that [of m]) (simp_all add: switch_leaf_def)
  next
    case False
    have oka: "leaf_ok isPlayer (leaves m a)" and okb: "leaf_ok isPlayer (leaves m b)"
      using p a(1) new unfolding placed_leaf_ok by blast+
    obtain l where l: "removeCreature isPlayer c (leaves m a) = Some l" "leaf_ok isPlayer l"
      "set (creature_list l) = set (creature_list (leaves m a)) - {c}" "leafS l = leafS (leaves m a)"
      "leafE l = leafE (leaves m a)" "floors l = floors (leaves m a)"
      using leaf_ok_remove [OF oka a(2)] by blast
    define m1 where "m1 = upd_leaf a (\<lambda>_. l) m"
    define m2 where "m2 = upd_leaf b (addCreature isPlayer c) m1"
    have lv: "leaves m2 d = (if d = b then addCreature isPlayer c (leaves m b) else if d = a then l else leaves m d)" for d
      using False by (simp add: m2_def m1_def leaves_upd)
    have lk: "leaf_of m2 x y = leaf_of m x y" for x y by (simp add: m2_def m1_def)
    have cb: "c \<notin> set (creature_list (leaves m b))" using placed_once [OF p a(1) new] False by blast
    note add = leaf_ok_add [OF okb cb]
    have sets: "set (creature_list (leaves m2 d)) =
        (if d = b then insert c (set (creature_list (leaves m b)))
         else if d = a then set (creature_list (leaves m a)) - {c} else set (creature_list (leaves m d)))" for d
      using add l(3) by (simp add: lv)
    have "map_inv m1" unfolding m1_def by (rule map_inv_upd_leaf [OF inv l(4,5)])
    then have "map_inv m2" unfolding m2_def by (rule map_inv_upd) simp_all
    moreover have "placed isPlayer m2 (cpos(c := newPos))"
      unfolding placed_leaf_ok lk
    proof (intro allI impI conjI)
      fix x y d assume d: "leaf_of m x y = Some d"
      then have okd: "leaf_ok isPlayer (leaves m d)"
        and at: "\<And>e. e \<in> set (creature_list (leaves m d)) \<Longrightarrow> leaf_of m (ucast (px (cpos e))) (ucast (py (cpos e))) = Some d"
        using p unfolding placed_leaf_ok by blast+
      show "leaf_ok isPlayer (leaves m2 d)" using okd l(2) add by (simp add: lv)
      show "\<forall>e \<in> set (creature_list (leaves m2 d)).
          leaf_of m (ucast (px ((cpos(c := newPos)) e))) (ucast (py ((cpos(c := newPos)) e))) = Some d"
        using at new placed_once [OF p a(1) d] by (auto simp: sets split: if_splits)
    qed
    moreover have "on_map m2 (cpos(c := newPos)) = on_map m cpos"
    proof (rule ext)
      fix e
      show "on_map m2 (cpos(c := newPos)) e = on_map m cpos e"
        using a new False by (cases "e = c") (auto simp: on_map_def lk sets split: option.split)
    qed
    moreover have "getTile m2 = getTile m"
      by (intro ext) (auto simp: getTile_def lk lv l(6) split: option.split)
    moreover have "switch_leaf isPlayer c (cpos c) newPos m = Some m2"
      using a(1) new False l(1) by (simp add: switch_leaf_def m2_def m1_def)
    ultimately show thesis by (intro that [of m2])
  qed
qed

text \<open>
  A creature that moves to a tile of the map changes leaf without a trace: the switch
  succeeds, the creatures on the map are the same, each is in the list of the leaf of its
  position and of no other, and the links and the tiles are untouched. With the exact scan
  this means the mover is seen from the new position on, and no longer from the old one.
\<close>

theorem moving_creature_is_found:
  assumes "map_inv m" and "placed isPlayer m cpos" and "on_map m cpos c"
    and "leaf_of m (ucast (px newPos)) (ucast (py newPos)) \<noteq> None"
  shows "\<exists>m'. switch_leaf isPlayer c (cpos c) newPos m = Some m' \<and> map_inv m' \<and>
    placed isPlayer m' (cpos(c := newPos)) \<and> on_map m' (cpos(c := newPos)) = on_map m cpos \<and> getTile m' = getTile m"
proof -
  obtain b where "leaf_of m (ucast (px newPos)) (ucast (py newPos)) = Some b" using assms(4) by blast
  from switch_leaf_spec [OF assms(1-3) this] show ?thesis by blast
qed

theorem moving_creature_is_found_witness:
  "\<exists>m m'. switch_leaf (\<lambda>_. True) 5 sample_pos (sample_pos\<lparr>px := 101\<rparr>) m = Some m' \<and>
     placed (\<lambda>_. True) m' ((\<lambda>_. sample_pos)(5 := sample_pos\<lparr>px := 101\<rparr>))"
proof -
  obtain m a where m: "map_inv m" "leaf_of m (ucast (px sample_pos)) (ucast (py sample_pos)) = Some a"
    "placed (\<lambda>_. True) m (\<lambda>_. sample_pos)"
    by (rule map_inv_sample) blast
  let ?m = "upd_leaf a (\<lambda>l. (new_leaf)\<lparr>leafS := leafS l, leafE := leafE l, creature_list := [5], player_list := [5]\<rparr>) m"
  have "map_inv ?m" by (rule map_inv_upd [OF m(1)]) simp_all
  moreover have "placed (\<lambda>_. True) ?m (\<lambda>_. sample_pos)"
  proof
    fix x y d assume d: "leaf_of ?m x y = Some d"
    then have d': "leaf_of m x y = Some d" by simp
    show "leaf_ok (\<lambda>_. True) (leaves ?m d)"
      using placedD(1) [OF m(3) d'] by (simp add: leaves_upd leaf_ok_def)
    fix c assume "c \<in> set (creature_list (leaves ?m d))"
    then show "leaf_of ?m (ucast (px sample_pos)) (ucast (py sample_pos)) = Some d"
      using placedD(2) [OF m(3) d'] m(2) by (auto simp: leaves_upd split: if_splits)
  qed
  moreover have "on_map ?m (\<lambda>_. sample_pos) 5" using m(2) by (simp add: on_map_def leaves_upd)
  moreover have "leaf_of ?m (ucast (px (sample_pos\<lparr>px := 101\<rparr>))) (ucast (py (sample_pos\<lparr>px := 101\<rparr>))) \<noteq> None"
  proof -
    have "key (ucast (px (sample_pos\<lparr>px := 101\<rparr>))) = key (ucast (px sample_pos))"
      by (simp add: sample_pos_def key_def)
    then have "leaf_of m (ucast (px (sample_pos\<lparr>px := 101\<rparr>))) (ucast (py (sample_pos\<lparr>px := 101\<rparr>))) = Some a"
      using m(1) by (subst m(2) [symmetric], intro leaf_of_key) (simp_all add: map_inv_def)
    then show ?thesis by simp
  qed
  ultimately have "\<exists>m'. switch_leaf (\<lambda>_. True) 5 ((\<lambda>_. sample_pos) 5) (sample_pos\<lparr>px := 101\<rparr>) ?m = Some m' \<and> map_inv m' \<and>
      placed (\<lambda>_. True) m' ((\<lambda>_. sample_pos)(5 := sample_pos\<lparr>px := 101\<rparr>)) \<and>
      on_map m' ((\<lambda>_. sample_pos)(5 := sample_pos\<lparr>px := 101\<rparr>)) = on_map ?m (\<lambda>_. sample_pos) \<and> getTile m' = getTile ?m"
    by (rule moving_creature_is_found)
  then show ?thesis by blast
qed

end
