(* ===== verification/AStar.thy ===== *)
theory AStar imports Geometry begin

text \<open>
  Path finding (map.cpp): the node pool \<open>AStarNodes\<close>, the search loop of
  \<open>Map::getPathMatching\<close> and the reconstruction of the directions. Nodes are indices
  into the pool. What the search asks of the map and of the creature is collected in a record
  of functions; the theory \<open>Walk\<close> fills it in.
\<close>

section \<open>The node pool\<close>

definition MAX_NODES :: nat where "MAX_NODES = 512"
definition MAP_NORMALWALKCOST :: int where "MAP_NORMALWALKCOST = 10"
definition MAP_DIAGONALWALKCOST :: int where "MAP_DIAGONALWALKCOST = 25"

record astar_node =
  parent :: "nat option"
  node_f :: int
  node_x :: u16
  node_y :: u16

record astar_nodes =
  nodes :: "nat \<Rightarrow> astar_node"
  openNodes :: "nat \<Rightarrow> bool"
  nodeTable :: "u32 \<rightharpoonup> nat"
  curNode :: nat
  closedNodes :: int

text \<open>\<open>(x << 16) | y\<close>.\<close>

definition table_key :: "u32 \<Rightarrow> u32 \<Rightarrow> u32" where
  "table_key x y = push_bit 16 x OR y"

definition empty_astar_node :: astar_node where
  "empty_astar_node = \<lparr>parent = None, node_f = 0, node_x = 0, node_y = 0\<rparr>"

definition newAStarNodes :: "u32 \<Rightarrow> u32 \<Rightarrow> astar_nodes" where
  "newAStarNodes x y =
     \<lparr>nodes = (\<lambda>_. empty_astar_node)(0 := \<lparr>parent = None, node_f = 0, node_x = ucast x, node_y = ucast y\<rparr>),
      openNodes = (\<lambda>_. False)(0 := True),
      nodeTable = [table_key x y \<mapsto> 0],
      curNode = 1,
      closedNodes = 0\<rparr>"

definition createOpenNode :: "nat \<Rightarrow> u32 \<Rightarrow> u32 \<Rightarrow> int \<Rightarrow> astar_nodes \<Rightarrow> astar_nodes option" where
  "createOpenNode par x y f s =
     (if curNode s \<ge> MAX_NODES then None
      else
        (let retNode = curNode s
         in Some (s\<lparr>curNode := curNode s + 1,
                    openNodes := (openNodes s)(retNode := True),
                    nodeTable := (nodeTable s)(table_key x y \<mapsto> retNode),
                    nodes := (nodes s)(retNode :=
                      \<lparr>parent = Some par, node_f = f, node_x = ucast x, node_y = ucast y\<rparr>)\<rparr>)))"

text \<open>The best node is the first open one with the least cost below the largest 32-bit integer.\<close>

definition best_of :: "astar_nodes \<Rightarrow> nat \<Rightarrow> int \<times> nat option \<Rightarrow> int \<times> nat option" where
  "best_of s i = (\<lambda>(best_f, best).
     if openNodes s i \<and> node_f (nodes s i) < best_f then (node_f (nodes s i), Some i) else (best_f, best))"

definition getBestNode :: "astar_nodes \<Rightarrow> nat option" where
  "getBestNode s =
     (if curNode s = 0 then None
      else snd (fold (best_of s) [0..<curNode s] (2 ^ 31 - 1, None)))"

definition closeNode :: "nat \<Rightarrow> astar_nodes \<Rightarrow> astar_nodes" where
  "closeNode n s = s\<lparr>openNodes := (openNodes s)(n := False), closedNodes := closedNodes s + 1\<rparr>"

definition openNode :: "nat \<Rightarrow> astar_nodes \<Rightarrow> astar_nodes" where
  "openNode n s =
     (if \<not> openNodes s n then s\<lparr>openNodes := (openNodes s)(n := True), closedNodes := closedNodes s - 1\<rparr>
      else s)"

definition getNodeByPosition :: "u32 \<Rightarrow> u32 \<Rightarrow> astar_nodes \<Rightarrow> nat option" where
  "getNodeByPosition x y s = nodeTable s (table_key x y)"

definition getMapWalkCost :: "astar_node \<Rightarrow> position \<Rightarrow> int" where
  "getMapWalkCost node neighborPos =
     (if \<bar>uint (node_x node) - getX neighborPos\<bar> = \<bar>uint (node_y node) - getY neighborPos\<bar>
      then MAP_DIAGONALWALKCOST else MAP_NORMALWALKCOST)"

section \<open>The neighbours to visit\<close>

text \<open>
  The rows of \<open>dirNeighbors\<close> in the order of the \<open>Direction\<close> enumeration; of five
  neighbours the first three are orthogonal.
\<close>

fun dirNeighbors :: "direction \<Rightarrow> (int \<times> int) list" where
  "dirNeighbors North = [(-1, 0), (0, 1), (1, 0), (1, 1), (-1, 1)]"
| "dirNeighbors East = [(-1, 0), (0, 1), (0, -1), (-1, -1), (-1, 1)]"
| "dirNeighbors South = [(-1, 0), (1, 0), (0, -1), (-1, -1), (1, -1)]"
| "dirNeighbors West = [(0, 1), (1, 0), (0, -1), (1, -1), (1, 1)]"
| "dirNeighbors SouthWest = [(1, 0), (0, -1), (-1, -1), (1, -1), (1, 1)]"
| "dirNeighbors SouthEast = [(-1, 0), (0, -1), (-1, -1), (1, -1), (-1, 1)]"
| "dirNeighbors NorthWest = [(0, 1), (1, 0), (1, -1), (1, 1), (-1, 1)]"
| "dirNeighbors NorthEast = [(-1, 0), (0, 1), (-1, -1), (1, 1), (-1, 1)]"
| "dirNeighbors NoDirection = []"

definition allNeighbors :: "(int \<times> int) list" where
  "allNeighbors = [(-1, 0), (0, 1), (1, 0), (0, -1), (-1, -1), (1, -1), (1, 1), (-1, 1)]"

text \<open>The row chosen for a node from the offset of its parent.\<close>

definition row_for :: "bool \<Rightarrow> int \<Rightarrow> int \<Rightarrow> direction" where
  "row_for allowDiagonal offset_x offset_y =
     (if offset_y = 0 then (if offset_x = -1 then West else East)
      else if \<not> allowDiagonal \<or> offset_x = 0 then (if offset_y = -1 then North else South)
      else if offset_y = -1 then (if offset_x = -1 then NorthWest else NorthEast)
      else if offset_x = -1 then SouthWest else SouthEast)"

definition neighbors_of :: "bool \<Rightarrow> astar_nodes \<Rightarrow> nat \<Rightarrow> (int \<times> int) list" where
  "neighbors_of allowDiagonal s n =
     (case parent (nodes s n) of
        Some p \<Rightarrow>
          (let offset_x = uint (node_x (nodes s p)) - uint (node_x (nodes s n));
               offset_y = uint (node_y (nodes s p)) - uint (node_y (nodes s n));
               dirCount = (if allowDiagonal then 5 else 3)
           in take dirCount (dirNeighbors (row_for allowDiagonal offset_x offset_y)))
      | None \<Rightarrow> allNeighbors)"

section \<open>The search\<close>

text \<open>
  \<open>condition pos best\<close> is the call of the path condition with its updated best match, and
  has no value when the call is undefined; the other functions are those the code calls.
\<close>

record search_env =
  condition :: "position \<Rightarrow> int \<Rightarrow> (bool \<times> int) option"
  in_range :: "position \<Rightarrow> bool"
  can_walk :: "position \<Rightarrow> nat option"
  tile_of :: "position \<Rightarrow> nat option"
  tile_cost :: "nat \<Rightarrow> int"
  maxSearchDist :: int
  keepDistance :: bool
  allowDiagonal :: bool

datatype 's expansion = Expanded 's | Out_of_nodes 's

text \<open>
  One pass of the loop over the neighbours. Using a tile that is not there is undefined
  (\<open>None\<close>); when the pool is exhausted the loop is left.
\<close>

definition visit :: "search_env \<Rightarrow> position \<Rightarrow> nat \<Rightarrow> int \<Rightarrow> position \<Rightarrow> astar_nodes \<Rightarrow> astar_nodes expansion option" where
  "visit env startPos n f pos s =
     (if maxSearchDist env \<noteq> 0 \<and>
         (getDistanceX startPos pos > maxSearchDist env \<or> getDistanceY startPos pos > maxSearchDist env)
      then Some (Expanded s)
      else if keepDistance env \<and> \<not> in_range env pos then Some (Expanded s)
      else
        (let neighborNode = getNodeByPosition (ucast (px pos)) (ucast (py pos)) s;
             tile = (case neighborNode of Some _ \<Rightarrow> tile_of env pos | None \<Rightarrow> can_walk env pos)
         in if neighborNode = None \<and> tile = None then Some (Expanded s)
            else
              (case tile of None \<Rightarrow> None
               | Some t \<Rightarrow>
                  (let cost = getMapWalkCost (nodes s n) pos;
                       extraCost = tile_cost env t;
                       newf = f + cost + extraCost
                   in case neighborNode of
                        Some j \<Rightarrow>
                          (if node_f (nodes s j) \<le> newf then Some (Expanded s)
                           else Some (Expanded (openNode j
                             (s\<lparr>nodes := (nodes s)(j := (nodes s j)\<lparr>node_f := newf, parent := Some n\<rparr>)\<rparr>))))
                      | None \<Rightarrow>
                          (case createOpenNode n (ucast (px pos)) (ucast (py pos)) newf s of
                             None \<Rightarrow> Some (Out_of_nodes s)
                           | Some s' \<Rightarrow> Some (Expanded s'))))))"

fun expand :: "search_env \<Rightarrow> position \<Rightarrow> nat \<Rightarrow> int \<Rightarrow> position list \<Rightarrow> astar_nodes \<Rightarrow> astar_nodes expansion option" where
  "expand env startPos n f [] s = Some (Expanded s)"
| "expand env startPos n f (pos # rest) s =
     (case visit env startPos n f pos s of
        None \<Rightarrow> None
      | Some (Out_of_nodes s') \<Rightarrow> Some (Out_of_nodes s')
      | Some (Expanded s') \<Rightarrow> expand env startPos n f rest s')"

definition node_pos :: "position \<Rightarrow> astar_nodes \<Rightarrow> nat \<Rightarrow> position" where
  "node_pos startPos s n = \<lparr>px = node_x (nodes s n), py = node_y (nodes s n), pz = pz startPos\<rparr>"

definition offset_pos :: "position \<Rightarrow> int \<times> int \<Rightarrow> position" where
  "offset_pos p d = p\<lparr>px := px p + of_int (fst d), py := py p + of_int (snd d)\<rparr>"

record search_state =
  pool :: astar_nodes
  found :: "nat option"
  endPos :: position
  bestMatch :: int

text \<open>The loop of \<open>getPathMatching\<close>; \<open>Some None\<close> is \<open>return false\<close>.\<close>

partial_function (option) search :: "search_env \<Rightarrow> position \<Rightarrow> search_state \<Rightarrow> search_state option option" where
  "search env startPos st =
     (if \<not> (maxSearchDist env \<noteq> 0 \<or> closedNodes (pool st) < 100) then Some (Some st)
      else
        (case getBestNode (pool st) of
           None \<Rightarrow> (if found st \<noteq> None then Some (Some st) else Some None)
         | Some n \<Rightarrow>
            (let pos = node_pos startPos (pool st) n
             in case condition env pos (bestMatch st) of
                  None \<Rightarrow> None
                | Some (hit, bm) \<Rightarrow>
                   (let st1 = (if hit then st\<lparr>found := Some n, endPos := pos, bestMatch := bm\<rparr>
                               else st\<lparr>bestMatch := bm\<rparr>)
                    in if hit \<and> bm = 0 then Some (Some st1)
                       else
                         (case expand env startPos n (node_f (nodes (pool st1) n))
                            (map (offset_pos pos) (neighbors_of (allowDiagonal env) (pool st1) n)) (pool st1) of
                            None \<Rightarrow> None
                          | Some (Out_of_nodes s) \<Rightarrow>
                              (if found st1 \<noteq> None then search env startPos (st1\<lparr>pool := closeNode n s\<rparr>)
                               else Some None)
                          | Some (Expanded s) \<Rightarrow> search env startPos (st1\<lparr>pool := closeNode n s\<rparr>))))))"

text \<open>The direction pushed for a step back from a position to its parent.\<close>

definition back_direction :: "int \<Rightarrow> int \<Rightarrow> direction list" where
  "back_direction dx dy =
     (if dx = 1 \<and> dy = 1 then [NorthWest]
      else if dx = -1 \<and> dy = 1 then [NorthEast]
      else if dx = 1 \<and> dy = -1 then [SouthWest]
      else if dx = -1 \<and> dy = -1 then [SouthEast]
      else if dx = 1 then [West]
      else if dx = -1 then [East]
      else if dy = 1 then [North]
      else if dy = -1 then [South]
      else [])"

partial_function (option) trace_back :: "(nat \<Rightarrow> astar_node) \<Rightarrow> nat option \<Rightarrow> int \<Rightarrow> int \<Rightarrow> direction list \<Rightarrow> direction list option" where
  "trace_back ns n prevx prevy dirList =
     (case n of None \<Rightarrow> Some dirList
      | Some i \<Rightarrow>
         (let dx = uint (node_x (ns i)) - prevx;
              dy = uint (node_y (ns i)) - prevy
          in trace_back ns (parent (ns i)) (uint (node_x (ns i))) (uint (node_y (ns i)))
               (back_direction dx dy @ dirList)))"

text \<open>\<open>Map::getPathMatching\<close>: the answer and the directions, pushed in front of the given list.\<close>

definition getPathMatching :: "search_env \<Rightarrow> position \<Rightarrow> direction list \<Rightarrow> (bool \<times> direction list) option" where
  "getPathMatching env startPos dirList =
     (case search env startPos
        \<lparr>pool = newAStarNodes (ucast (px startPos)) (ucast (py startPos)), found = None,
         endPos = \<lparr>px = 0, py = 0, pz = 0\<rparr>, bestMatch = 0\<rparr> of
        None \<Rightarrow> None
      | Some None \<Rightarrow> Some (False, dirList)
      | Some (Some st) \<Rightarrow>
         (case found st of None \<Rightarrow> Some (False, dirList)
          | Some n \<Rightarrow>
             (case trace_back (nodes (pool st)) (parent (nodes (pool st) n))
                     (getX (endPos st)) (getY (endPos st)) dirList of
                None \<Rightarrow> None
              | Some dirs \<Rightarrow> Some (True, dirs))))"

end
