(* ===== verification/AStarProps.thy ===== *)
theory AStarProps imports AStar begin

text \<open>
  Correctness of the path search: an invariant of the node pool, in which costs fall
  strictly along parents, a rank that every iteration lowers, and the directions that the
  reconstruction produces.
\<close>

section \<open>Positions and keys\<close>

lemma table_key_inj:
  assumes "table_key (ucast (x :: u16)) (ucast (y :: u16)) = table_key (ucast (x' :: u16)) (ucast (y' :: u16))"
  shows "x = x' \<and> y = y'"
proof -
  have b: "bit (table_key (ucast x) (ucast y)) i \<longleftrightarrow> (if i < 16 then bit y i else i < 32 \<and> bit x (i - 16))" for x y :: u16 and i
    by (auto simp: table_key_def bit_or_iff bit_push_bit_iff bit_unsigned_iff dest: bit_imp_le_length)
  have eq: "bit (table_key (ucast x) (ucast y)) i = bit (table_key (ucast x') (ucast y')) i" for i
    using assms by simp
  have "y = y'"
  proof (rule bit_word_eqI)
    fix i assume "i < LENGTH(16)"
    then show "bit y i = bit y' i" using eq [of i] by (simp add: b)
  qed
  moreover have "x = x'"
  proof (rule bit_word_eqI)
    fix i assume "i < LENGTH(16)"
    then show "bit x i = bit x' i" using eq [of "i + 16"] by (simp add: b)
  qed
  ultimately show ?thesis by simp
qed

lemma ucast_u32_u16: "ucast (ucast (x :: u16) :: u32) = x"
  by (rule bit_word_eqI) (simp add: bit_unsigned_iff)

definition adjacent :: "position \<Rightarrow> position \<Rightarrow> bool" where
  "adjacent p q \<longleftrightarrow> \<bar>getX p - getX q\<bar> \<le> 1 \<and> \<bar>getY p - getY q\<bar> \<le> 1 \<and> pz p = pz q \<and> p \<noteq> q"

definition king_offset :: "int \<times> int \<Rightarrow> bool" where
  "king_offset d \<longleftrightarrow> d \<in> {-1, 0, 1} \<times> {-1, 0, 1} - {(0, 0)}"

lemma offset_pos_coords:
  assumes "inner p" "king_offset d"
  shows "getX (offset_pos p d) = getX p + fst d" "getY (offset_pos p d) = getY p + snd d"
proof -
  have w: "uint (w + of_int k) = uint w + k" if h: "0 < uint w" "uint w < 65535" "k \<in> {-1, 0, 1}" for w :: u16 and k
    using h by (auto simp: uint_plus_1 uint_minus_1)
  have "fst d \<in> {-1, 0, 1}" "snd d \<in> {-1, 0, 1}" using assms(2) by (auto simp: king_offset_def)
  then show "getX (offset_pos p d) = getX p + fst d" "getY (offset_pos p d) = getY p + snd d"
    using w [of "px p" "fst d"] w [of "py p" "snd d"] assms(1)
    by (simp_all add: inner_def getX_def getY_def offset_pos_def del: insert_iff)
qed

lemma offset_pos_z: "pz (offset_pos p d) = pz p"
  by (simp add: offset_pos_def)

lemma adjacent_offset_pos: "inner p \<Longrightarrow> king_offset d \<Longrightarrow> adjacent p (offset_pos p d)"
proof -
  assume *: "inner p" "king_offset d"
  note c = offset_pos_coords [OF *]
  have "offset_pos p d \<noteq> p"
  proof
    assume "offset_pos p d = p"
    then have "fst d = 0 \<and> snd d = 0" using c by simp
    then show False using *(2) by (cases d) (simp add: king_offset_def)
  qed
  then show ?thesis
    using *(2) by (auto simp: adjacent_def c king_offset_def offset_pos_z)
qed

lemma neighbors_king: "d \<in> set (neighbors_of diag s n) \<Longrightarrow> king_offset d"
proof -
  assume d: "d \<in> set (neighbors_of diag s n)"
  have rows: "\<forall>e \<in> set (dirNeighbors r). king_offset e" for r
    by (cases r) (simp_all add: king_offset_def)
  have "\<forall>e \<in> set allNeighbors. king_offset e"
    by (simp add: allNeighbors_def king_offset_def)
  with d rows show ?thesis
    by (auto simp: neighbors_of_def Let_def split: option.splits dest: in_set_takeD)
qed

text \<open>The direction pushed for an adjacent parent leads from the parent to the child.\<close>

lemma back_direction_step:
  assumes "inner p" "inner q" "adjacent p q"
  obtains d where "back_direction (getX p - getX q) (getY p - getY q) = [d]" "getNextPosition d p = q"
proof -
  define dx where "dx = getX p - getX q"
  define dy where "dy = getY p - getY q"
  have range: "dx \<in> {-1, 0, 1}" "dy \<in> {-1, 0, 1}" using assms(3) by (auto simp: adjacent_def dx_def dy_def)
  have "\<not> (dx = 0 \<and> dy = 0)"
  proof
    assume "dx = 0 \<and> dy = 0"
    then have "px p = px q" "py p = py q" by (auto simp: dx_def dy_def getX_def getY_def word_uint_eq_iff)
    then show False using assms(3) position_eqI unfolding adjacent_def by blast
  qed
  then obtain d where d: "back_direction dx dy = [d]" "d \<noteq> NoDirection"
    "(if d \<in> {East, NorthEast, SouthEast} then 1 else if d \<in> {West, NorthWest, SouthWest} then -1 else 0) = - dx"
    "(if d \<in> {South, SouthWest, SouthEast} then 1 else if d \<in> {North, NorthWest, NorthEast} then -1 else 0) = - dy"
    using range by (auto simp: back_direction_def)
  have "getX (getNextPosition d p) = getX q" "getY (getNextPosition d p) = getY q"
    using next_position_coords(1,2) [OF assms(1), of d] unfolding d(3,4) by (simp_all add: dx_def dy_def)
  moreover have "pz (getNextPosition d p) = pz q"
    using assms(3) by (cases d) (simp_all add: adjacent_def)
  ultimately have "getNextPosition d p = q"
    by (intro position_eqI) (simp_all add: getX_def getY_def word_uint_eq_iff)
  with d(1) show thesis by (intro that) (simp_all add: dx_def dy_def)
qed

section \<open>The invariant of the pool\<close>

text \<open>What is assumed of the map and the creature.\<close>

definition env_ok :: "search_env \<Rightarrow> position \<Rightarrow> bool" where
  "env_ok env startPos \<longleftrightarrow>
     inner startPos \<and> tile_of env startPos \<noteq> None \<and>
     (\<forall>p. can_walk env p \<noteq> None \<longrightarrow> inner p \<and> tile_of env p \<noteq> None) \<and>
     (\<forall>t. 0 \<le> tile_cost env t) \<and> (\<forall>p b. condition env p b \<noteq> None)"

definition node_key :: "astar_nodes \<Rightarrow> nat \<Rightarrow> u32" where
  "node_key s i = table_key (ucast (node_x (nodes s i))) (ucast (node_y (nodes s i)))"

definition node_ok :: "search_env \<Rightarrow> position \<Rightarrow> astar_nodes \<Rightarrow> nat \<Rightarrow> bool" where
  "node_ok env startPos s i \<longleftrightarrow>
     0 \<le> node_f (nodes s i) \<and> inner (node_pos startPos s i) \<and> tile_of env (node_pos startPos s i) \<noteq> None \<and>
     nodeTable s (node_key s i) = Some i \<and>
     (if i = 0 then parent (nodes s i) = None \<and> node_f (nodes s i) = 0 \<and> node_pos startPos s i = startPos
      else can_walk env (node_pos startPos s i) \<noteq> None \<and>
        (\<exists>p < curNode s. parent (nodes s i) = Some p \<and> node_f (nodes s p) < node_f (nodes s i) \<and>
           adjacent (node_pos startPos s p) (node_pos startPos s i)))"

definition pool_inv :: "search_env \<Rightarrow> position \<Rightarrow> astar_nodes \<Rightarrow> bool" where
  "pool_inv env startPos s \<longleftrightarrow>
     0 < curNode s \<and> curNode s \<le> MAX_NODES \<and> (\<forall>i < curNode s. node_ok env startPos s i) \<and>
     (\<forall>k i. nodeTable s k = Some i \<longrightarrow> i < curNode s \<and> k = node_key s i) \<and>
     (\<forall>i. openNodes s i \<longrightarrow> i < curNode s)"

lemma pool_invD:
  assumes "pool_inv env startPos s"
  shows "0 < curNode s" "curNode s \<le> MAX_NODES" "i < curNode s \<Longrightarrow> node_ok env startPos s i"
    "nodeTable s k = Some i \<Longrightarrow> i < curNode s \<and> k = node_key s i" "openNodes s i \<Longrightarrow> i < curNode s"
  using assms unfolding pool_inv_def by blast+

lemma node_okD:
  assumes "node_ok env startPos s i"
  shows "0 \<le> node_f (nodes s i)" "inner (node_pos startPos s i)" "tile_of env (node_pos startPos s i) \<noteq> None"
    "nodeTable s (node_key s i) = Some i"
    "i = 0 \<Longrightarrow> parent (nodes s i) = None \<and> node_f (nodes s i) = 0 \<and> node_pos startPos s i = startPos"
    "i \<noteq> 0 \<Longrightarrow> can_walk env (node_pos startPos s i) \<noteq> None"
    "i \<noteq> 0 \<Longrightarrow> \<exists>p < curNode s. parent (nodes s i) = Some p \<and> node_f (nodes s p) < node_f (nodes s i) \<and>
           adjacent (node_pos startPos s p) (node_pos startPos s i)"
  using assms unfolding node_ok_def by (auto split: if_splits)

lemma pool_inv_new:
  assumes "env_ok env startPos"
  shows "pool_inv env startPos (newAStarNodes (ucast (px startPos)) (ucast (py startPos)))"
proof -
  let ?s = "newAStarNodes (ucast (px startPos)) (ucast (py startPos))"
  have "node_pos startPos ?s 0 = startPos"
    by (intro position_eqI) (simp_all add: node_pos_def newAStarNodes_def ucast_u32_u16)
  then have "node_ok env startPos ?s 0"
    using assms by (simp add: node_ok_def env_ok_def) (simp add: newAStarNodes_def node_key_def ucast_u32_u16)
  then show ?thesis
    by (auto simp: pool_inv_def MAX_NODES_def) (auto simp: newAStarNodes_def node_key_def ucast_u32_u16 split: if_splits)
qed

text \<open>Closing and opening nodes.\<close>

lemma pool_inv_open:
  assumes "pool_inv env startPos s" "nodes s' = nodes s" "nodeTable s' = nodeTable s" "curNode s' = curNode s"
    "\<And>i. openNodes s' i \<Longrightarrow> i < curNode s"
  shows "pool_inv env startPos s'"
  using assms unfolding pool_inv_def node_ok_def node_pos_def node_key_def by simp

lemma closeNode_simps [simp]:
  "nodes (closeNode n s) = nodes s" "nodeTable (closeNode n s) = nodeTable s" "curNode (closeNode n s) = curNode s"
  "openNodes (closeNode n s) = (openNodes s)(n := False)"
  by (simp_all add: closeNode_def)

lemma openNode_simps [simp]:
  "nodes (openNode n s) = nodes s" "nodeTable (openNode n s) = nodeTable s" "curNode (openNode n s) = curNode s"
  "openNodes (openNode n s) = (openNodes s)(n := True)"
  by (simp_all add: openNode_def fun_upd_idem)

lemma pool_inv_closeNode: "pool_inv env startPos s \<Longrightarrow> pool_inv env startPos (closeNode n s)"
  by (rule pool_inv_open) (auto dest: pool_invD(5) split: if_splits)

section \<open>One visit\<close>

definition cost_sum :: "astar_nodes \<Rightarrow> int" where
  "cost_sum s = (\<Sum>i < curNode s. node_f (nodes s i))"

text \<open>What decreases: the free nodes, then the costs.\<close>

definition cheaper :: "astar_nodes \<Rightarrow> astar_nodes \<Rightarrow> bool" where
  "cheaper s' s \<longleftrightarrow> curNode s < curNode s' \<or> curNode s' = curNode s \<and> cost_sum s' < cost_sum s"

lemma cheaper_trans: "cheaper s2 s1 \<Longrightarrow> cheaper s1 s \<Longrightarrow> cheaper s2 s"
  by (auto simp: cheaper_def)

definition visited :: "search_env \<Rightarrow> position \<Rightarrow> nat \<Rightarrow> astar_nodes \<Rightarrow> astar_nodes \<Rightarrow> bool" where
  "visited env startPos n s s' \<longleftrightarrow>
     pool_inv env startPos s' \<and> curNode s \<le> curNode s' \<and> nodes s' n = nodes s n \<and>
     (\<forall>i < curNode s. node_pos startPos s' i = node_pos startPos s i) \<and> (s' = s \<or> cheaper s' s)"

lemma visited_refl: "pool_inv env startPos s \<Longrightarrow> visited env startPos n s s"
  by (simp add: visited_def)

lemma visited_trans:
  "visited env startPos n s s1 \<Longrightarrow> visited env startPos n s1 s2 \<Longrightarrow> visited env startPos n s s2"
  unfolding visited_def using cheaper_trans by fastforce

lemma getMapWalkCost_pos: "0 < getMapWalkCost nd p"
  by (simp add: getMapWalkCost_def MAP_DIAGONALWALKCOST_def MAP_NORMALWALKCOST_def)

text \<open>Lowering the cost of a node and giving it a new parent.\<close>

lemma reparent:
  assumes inv: "pool_inv env startPos s" and n: "n < curNode s" and j: "j < curNode s" "j \<noteq> n" "j \<noteq> 0"
    and f: "node_f (nodes s n) < newf" "newf < node_f (nodes s j)"
    and adj: "adjacent (node_pos startPos s n) (node_pos startPos s j)"
  shows "visited env startPos n s
    (openNode j (s\<lparr>nodes := (nodes s)(j := (nodes s j)\<lparr>node_f := newf, parent := Some n\<rparr>)\<rparr>))"
proof -
  let ?s = "openNode j (s\<lparr>nodes := (nodes s)(j := (nodes s j)\<lparr>node_f := newf, parent := Some n\<rparr>)\<rparr>)"
  have pos: "node_pos startPos ?s i = node_pos startPos s i" "node_key ?s i = node_key s i" for i
    by (simp_all add: node_pos_def node_key_def)
  have ok: "node_ok env startPos ?s i" if h: "i < curNode s" for i
  proof (cases "i = j")
    case True
    have "0 \<le> node_f (nodes s n)" by (rule node_okD(1) [OF pool_invD(3) [OF inv n]])
    then show ?thesis
      using True j n f adj node_okD [OF pool_invD(3) [OF inv j(1)]]
      unfolding node_ok_def pos by simp
  next
    case False
    note o = node_okD [OF pool_invD(3) [OF inv h]]
    have "\<exists>p < curNode s. parent (nodes s i) = Some p \<and> node_f (nodes ?s p) < node_f (nodes s i) \<and>
           adjacent (node_pos startPos s p) (node_pos startPos s i)" if i: "i \<noteq> 0"
    proof -
      obtain p where p: "p < curNode s" "parent (nodes s i) = Some p" "node_f (nodes s p) < node_f (nodes s i)"
        "adjacent (node_pos startPos s p) (node_pos startPos s i)"
        using o(7) [OF i] by blast
      moreover have "node_f (nodes ?s p) \<le> node_f (nodes s p)" using f by simp
      ultimately show ?thesis by (intro exI [of _ p]) auto
    qed
    then show ?thesis using False o unfolding node_ok_def pos by simp
  qed
  have "pool_inv env startPos ?s"
    using ok inv j(1) unfolding pool_inv_def pos by (auto split: if_splits)
  moreover have "cost_sum ?s < cost_sum s"
  proof -
    have "(\<Sum>i < curNode s. node_f (nodes ?s i)) < (\<Sum>i < curNode s. node_f (nodes s i))"
    proof (rule sum_strict_mono_ex1)
      show "\<forall>i \<in> {..<curNode s}. node_f (nodes ?s i) \<le> node_f (nodes s i)" using f by simp
      show "\<exists>i \<in> {..<curNode s}. node_f (nodes ?s i) < node_f (nodes s i)"
        using f j(1) by (intro bexI [of _ j]) simp_all
    qed simp
    then show ?thesis by (simp add: cost_sum_def)
  qed
  ultimately show ?thesis using j(2) by (simp add: visited_def pos cheaper_def)
qed

text \<open>Adding a node.\<close>

lemma add_node:
  assumes inv: "pool_inv env startPos s" and n: "n < curNode s" and free: "nodeTable s (table_key (ucast (px pos)) (ucast (py pos))) = None"
    and f: "node_f (nodes s n) < newf" and adj: "adjacent (node_pos startPos s n) pos"
    and w: "can_walk env pos \<noteq> None" "inner pos" "tile_of env pos \<noteq> None"
    and c: "createOpenNode n (ucast (px pos)) (ucast (py pos)) newf s = Some s'"
  shows "visited env startPos n s s'"
proof -
  let ?c = "curNode s"
  have lt: "?c < MAX_NODES" and s': "s' = s\<lparr>curNode := ?c + 1, openNodes := (openNodes s)(?c := True),
      nodeTable := (nodeTable s)(table_key (ucast (px pos)) (ucast (py pos)) \<mapsto> ?c),
      nodes := (nodes s)(?c := \<lparr>parent = Some n, node_f = newf, node_x = px pos, node_y = py pos\<rparr>)\<rparr>"
    using c by (auto simp: createOpenNode_def Let_def ucast_u32_u16 split: if_splits)
  have old: "node_pos startPos s' i = node_pos startPos s i" "node_key s' i = node_key s i" "nodes s' i = nodes s i"
    if h: "i < ?c" for i
    using h by (simp_all add: s' node_pos_def node_key_def)
  have z: "pz pos = pz startPos" using adj by (simp add: adjacent_def node_pos_def)
  have new: "node_pos startPos s' ?c = pos" "node_key s' ?c = table_key (ucast (px pos)) (ucast (py pos))"
    by (auto simp: s' node_pos_def node_key_def z intro: position_eqI)
  have key: "node_key s i \<noteq> table_key (ucast (px pos)) (ucast (py pos))" if h: "i < ?c" for i
    using free node_okD(4) [OF pool_invD(3) [OF inv h]] by auto
  have ok: "node_ok env startPos s' i" if h: "i < curNode s'" for i
  proof (cases "i = ?c")
    case True
    have "0 \<le> node_f (nodes s n)" by (rule node_okD(1) [OF pool_invD(3) [OF inv n]])
    moreover have "node_pos startPos s' n = node_pos startPos s n" "nodes s' n = nodes s n" using old n by blast+
    moreover have "n < curNode s'" using n by (simp add: s')
    ultimately show ?thesis
      using True w f adj pool_invD(1) [OF inv] unfolding node_ok_def True new
      by (simp add: s')
  next
    case False
    then have i: "i < ?c" using h by (simp add: s')
    note o = node_okD [OF pool_invD(3) [OF inv i]]
    have "\<exists>p < curNode s'. parent (nodes s i) = Some p \<and> node_f (nodes s' p) < node_f (nodes s i) \<and>
           adjacent (node_pos startPos s' p) (node_pos startPos s i)" if nz: "i \<noteq> 0"
    proof -
      obtain p where p: "p < ?c" "parent (nodes s i) = Some p" "node_f (nodes s p) < node_f (nodes s i)"
        "adjacent (node_pos startPos s p) (node_pos startPos s i)"
        using o(7) [OF nz] by blast
      then show ?thesis using old [OF p(1)] by (intro exI [of _ p]) (simp add: s')
    qed
    moreover have "nodeTable s' (node_key s i) = Some i" using o(4) key [OF i] by (simp add: s')
    ultimately show ?thesis using o unfolding node_ok_def old [OF i] by simp
  qed
  have "\<forall>k i. nodeTable s' k = Some i \<longrightarrow> i < curNode s' \<and> k = node_key s' i"
  proof (intro allI impI)
    fix k i assume k: "nodeTable s' k = Some i"
    show "i < curNode s' \<and> k = node_key s' i"
    proof (cases "k = table_key (ucast (px pos)) (ucast (py pos))")
      case True
      then have "i = ?c" using k by (simp add: s')
      then show ?thesis using True new(2) by (simp add: s')
    next
      case False
      then have "nodeTable s k = Some i" using k by (simp add: s')
      then have "i < ?c \<and> k = node_key s i" by (rule pool_invD(4) [OF inv])
      then show ?thesis using old(2) by (simp add: s')
    qed
  qed
  moreover have "\<forall>i. openNodes s' i \<longrightarrow> i < curNode s'"
    using pool_invD(5) [OF inv] by (auto simp: s' less_SucI)
  moreover have "0 < curNode s'" "curNode s' \<le> MAX_NODES" using lt by (simp_all add: s')
  ultimately have "pool_inv env startPos s'" using ok unfolding pool_inv_def by blast
  moreover have "?c < curNode s'" by (simp add: s')
  ultimately show ?thesis using old n by (simp add: visited_def cheaper_def)
qed

lemma found_node:
  assumes inv: "pool_inv env startPos s" and g: "getNodeByPosition (ucast (px pos)) (ucast (py pos)) s = Some j"
    and adj: "adjacent (node_pos startPos s n) pos"
  shows "j < curNode s" "node_pos startPos s j = pos"
proof -
  have "j < curNode s \<and> table_key (ucast (px pos)) (ucast (py pos)) = node_key s j"
    using pool_invD(4) [OF inv] g unfolding getNodeByPosition_def by blast
  then show "j < curNode s" by blast
  have "px pos = node_x (nodes s j) \<and> py pos = node_y (nodes s j)"
    using \<open>j < curNode s \<and> _\<close> unfolding node_key_def by (intro table_key_inj) blast
  then show "node_pos startPos s j = pos"
    using adj by (intro position_eqI) (simp_all add: node_pos_def adjacent_def)
qed

definition skipped :: "search_env \<Rightarrow> position \<Rightarrow> position \<Rightarrow> bool" where
  "skipped env startPos pos \<longleftrightarrow>
     maxSearchDist env \<noteq> 0 \<and>
       (getDistanceX startPos pos > maxSearchDist env \<or> getDistanceY startPos pos > maxSearchDist env) \<or>
     keepDistance env \<and> \<not> in_range env pos"

lemma visit_eq:
  "visit env startPos n f pos s =
     (if skipped env startPos pos then Some (Expanded s)
      else case getNodeByPosition (ucast (px pos)) (ucast (py pos)) s of
        Some j \<Rightarrow> (case tile_of env pos of None \<Rightarrow> None
          | Some t \<Rightarrow> if node_f (nodes s j) \<le> f + getMapWalkCost (nodes s n) pos + tile_cost env t then Some (Expanded s)
              else Some (Expanded (openNode j (s\<lparr>nodes := (nodes s)(j := (nodes s j)
                \<lparr>node_f := f + getMapWalkCost (nodes s n) pos + tile_cost env t, parent := Some n\<rparr>)\<rparr>))))
      | None \<Rightarrow> (case can_walk env pos of None \<Rightarrow> Some (Expanded s)
          | Some t \<Rightarrow> (case createOpenNode n (ucast (px pos)) (ucast (py pos))
                (f + getMapWalkCost (nodes s n) pos + tile_cost env t) s of
              None \<Rightarrow> Some (Out_of_nodes s) | Some s' \<Rightarrow> Some (Expanded s'))))"
  by (auto simp: visit_def skipped_def Let_def split: option.split)

lemma visit_spec:
  assumes env: "env_ok env startPos" and inv: "pool_inv env startPos s" and n: "n < curNode s"
    and adj: "adjacent (node_pos startPos s n) pos"
  shows "\<exists>s'. visited env startPos n s s' \<and>
    (visit env startPos n (node_f (nodes s n)) pos s = Some (Expanded s') \<or>
     visit env startPos n (node_f (nodes s n)) pos s = Some (Out_of_nodes s'))"
proof -
  let ?f = "node_f (nodes s n)"
  let ?newf = "\<lambda>t. ?f + getMapWalkCost (nodes s n) pos + tile_cost env t"
  have newf: "?f < ?newf t" for t
  proof -
    have "0 \<le> tile_cost env t" using env by (simp add: env_ok_def)
    then show ?thesis using getMapWalkCost_pos [of "nodes s n" pos] by simp
  qed
  consider (skip) "visit env startPos n ?f pos s = Some (Expanded s)"
    | (old) j t where "getNodeByPosition (ucast (px pos)) (ucast (py pos)) s = Some j" "?newf t < node_f (nodes s j)"
        "visit env startPos n ?f pos s = Some (Expanded (openNode j (s\<lparr>nodes := (nodes s)(j := (nodes s j)\<lparr>node_f := ?newf t, parent := Some n\<rparr>)\<rparr>)))"
    | (new) t where "getNodeByPosition (ucast (px pos)) (ucast (py pos)) s = None" "can_walk env pos = Some t"
        "visit env startPos n ?f pos s = (case createOpenNode n (ucast (px pos)) (ucast (py pos)) (?newf t) s of
           None \<Rightarrow> Some (Out_of_nodes s) | Some s' \<Rightarrow> Some (Expanded s'))"
    | (undef) j where "getNodeByPosition (ucast (px pos)) (ucast (py pos)) s = Some j" "tile_of env pos = None"
  proof (cases "getNodeByPosition (ucast (px pos)) (ucast (py pos)) s")
    case (Some j)
    show thesis
    proof (cases "skipped env startPos pos")
      case True
      then show thesis by (intro skip) (simp add: visit_eq)
    next
      case False
      show thesis
      proof (cases "tile_of env pos")
        case None
        then show thesis using Some by (intro undef)
      next
        case (Some t)
        then show thesis
        proof (cases "node_f (nodes s j) \<le> ?newf t")
          case True
          then show thesis using False Some \<open>getNodeByPosition _ _ _ = Some j\<close> by (intro skip) (simp add: visit_eq)
        next
          case le: False
          then show thesis using False Some \<open>getNodeByPosition _ _ _ = Some j\<close> by (intro old [of j t]) (simp_all add: visit_eq)
        qed
      qed
    qed
  next
    case None
    show thesis
    proof (cases "skipped env startPos pos \<or> can_walk env pos = None")
      case True
      then show thesis using None by (intro skip) (auto simp: visit_eq)
    next
      case False
      then obtain t where "can_walk env pos = Some t" by blast
      then show thesis using None False by (intro new [of t]) (simp_all add: visit_eq)
    qed
  qed
  then show ?thesis
  proof cases
    case skip
    then show ?thesis using visited_refl [OF inv] by blast
  next
    case (old j t)
    note jn = found_node [OF inv old(1) adj]
    have "j \<noteq> 0"
    proof
      assume "j = 0"
      then have "node_f (nodes s j) = 0" using node_okD(5) [OF pool_invD(3) [OF inv jn(1)]] by simp
      moreover have "0 \<le> ?f" by (rule node_okD(1) [OF pool_invD(3) [OF inv n]])
      ultimately show False using old(2) newf [of t] by simp
    qed
    moreover have "j \<noteq> n" using jn(2) adj by (auto simp: adjacent_def)
    ultimately show ?thesis
      using reparent [OF inv n jn(1) _ _ newf old(2)] adj jn(2) old(3) by auto
  next
    case (new t)
    have w: "inner pos" "tile_of env pos \<noteq> None" "can_walk env pos \<noteq> None"
      using env new(2) unfolding env_ok_def by (metis option.discI)+
    show ?thesis
    proof (cases "createOpenNode n (ucast (px pos)) (ucast (py pos)) (?newf t) s")
      case None
      then show ?thesis using new(3) visited_refl [OF inv] by auto
    next
      case (Some s')
      have "visited env startPos n s s'"
        by (rule add_node [OF inv n _ newf adj w(3,1,2) Some]) (use new(1) in \<open>simp add: getNodeByPosition_def\<close>)
      then show ?thesis using new(3) Some by auto
    qed
  next
    case (undef j)
    note jn = found_node [OF inv undef(1) adj]
    have "tile_of env pos \<noteq> None"
      using node_okD(3) [OF pool_invD(3) [OF inv jn(1)]] unfolding jn(2) .
    then show ?thesis using undef(2) by simp
  qed
qed

lemma expand_spec:
  "env_ok env startPos \<Longrightarrow> pool_inv env startPos s \<Longrightarrow> n < curNode s \<Longrightarrow>
   \<forall>pos \<in> set ps. adjacent (node_pos startPos s n) pos \<Longrightarrow>
   \<exists>s'. visited env startPos n s s' \<and>
     (expand env startPos n (node_f (nodes s n)) ps s = Some (Expanded s') \<or>
      expand env startPos n (node_f (nodes s n)) ps s = Some (Out_of_nodes s'))"
proof (induction ps arbitrary: s)
  case Nil
  then show ?case using visited_refl by auto
next
  case (Cons pos ps)
  have "adjacent (node_pos startPos s n) pos" using Cons.prems(4) by simp
  from visit_spec [OF Cons.prems(1-3) this] obtain s1 where s1: "visited env startPos n s s1"
    "visit env startPos n (node_f (nodes s n)) pos s = Some (Expanded s1) \<or>
     visit env startPos n (node_f (nodes s n)) pos s = Some (Out_of_nodes s1)"
    by blast
  have v: "pool_inv env startPos s1" "n < curNode s1" "nodes s1 n = nodes s n"
    "node_pos startPos s1 n = node_pos startPos s n"
    using s1(1) Cons.prems(3) by (auto simp: visited_def)
  from s1(2) show ?case
  proof
    assume e: "visit env startPos n (node_f (nodes s n)) pos s = Some (Out_of_nodes s1)"
    then show ?thesis using s1(1) by (intro exI [of _ s1]) simp
  next
    assume e: "visit env startPos n (node_f (nodes s n)) pos s = Some (Expanded s1)"
    have "\<forall>q \<in> set ps. adjacent (node_pos startPos s1 n) q" using Cons.prems(4) by (simp add: v)
    from Cons.IH [OF Cons.prems(1) v(1,2) this] obtain s2 where "visited env startPos n s1 s2"
      "expand env startPos n (node_f (nodes s n)) ps s1 = Some (Expanded s2) \<or>
       expand env startPos n (node_f (nodes s n)) ps s1 = Some (Out_of_nodes s2)"
      unfolding v by blast
    then show ?thesis using visited_trans [OF s1(1)] e by (intro exI [of _ s2]) simp
  qed
qed

section \<open>The loop ends\<close>

lemma fold_best_of:
  "snd (fold (best_of s) js b) = Some n \<Longrightarrow> snd b = Some n \<or> n \<in> set js \<and> openNodes s n"
proof (induction js arbitrary: b)
  case Nil
  then show ?case by simp
next
  case (Cons j js)
  then have "snd (best_of s j b) = Some n \<or> n \<in> set js \<and> openNodes s n" by simp
  then show ?case by (cases b) (auto simp: best_of_def split: if_splits)
qed

lemma getBestNode_open: "getBestNode s = Some n \<Longrightarrow> n < curNode s \<and> openNodes s n"
  using fold_best_of [of s "[0..<curNode s]" "(2 ^ 31 - 1, None)" n] by (auto simp: getBestNode_def split: if_splits)

text \<open>A position that satisfies the path condition for some best match so far.\<close>

definition accepted :: "search_env \<Rightarrow> position \<Rightarrow> bool" where
  "accepted env p \<longleftrightarrow> (\<exists>b bm. condition env p b = Some (True, bm))"

lemma acceptedI: "condition env p b = Some (True, bm) \<Longrightarrow> accepted env p"
  unfolding accepted_def by blast

definition state_ok :: "search_env \<Rightarrow> position \<Rightarrow> search_state \<Rightarrow> bool" where
  "state_ok env startPos st \<longleftrightarrow> pool_inv env startPos (pool st) \<and>
     (case found st of None \<Rightarrow> True
      | Some n \<Rightarrow> n < curNode (pool st) \<and> endPos st = node_pos startPos (pool st) n \<and>
          accepted env (endPos st))"

definition open_count :: "astar_nodes \<Rightarrow> nat" where
  "open_count s = card {i. openNodes s i}"

definition search_rank :: "((nat \<times> nat \<times> nat) \<times> (nat \<times> nat \<times> nat)) set" where
  "search_rank = less_than <*lex*> less_than <*lex*> less_than"

definition rank_of :: "search_state \<Rightarrow> nat \<times> nat \<times> nat" where
  "rank_of st = (MAX_NODES - curNode (pool st), nat (cost_sum (pool st)), open_count (pool st))"

lemma wf_rank: "wf (inv_image search_rank rank_of)"
  unfolding search_rank_def by (intro wf_inv_image wf_lex_prod wf_less_than)

lemma cost_sum_nonneg: "pool_inv env startPos s \<Longrightarrow> 0 \<le> cost_sum s"
  unfolding cost_sum_def by (intro sum_nonneg) (auto intro: node_okD(1) pool_invD(3))

lemma rank_step:
  assumes inv: "pool_inv env startPos s" and v: "visited env startPos n s s'" and n: "openNodes s n"
    and st: "pool st = s" "pool st' = closeNode n s'"
  shows "(rank_of st', rank_of st) \<in> search_rank"
proof -
  have inv': "pool_inv env startPos s'" using v by (simp add: visited_def)
  have cs: "cost_sum (closeNode n s') = cost_sum s'" by (simp add: cost_sum_def)
  from v have "s' = s \<or> cheaper s' s" by (simp add: visited_def)
  then show ?thesis
  proof
    assume eq: "s' = s"
    have "finite {i. openNodes s i}"
      by (rule finite_subset [of _ "{..<curNode s}"]) (auto dest: pool_invD(5) [OF inv])
    moreover have "{i. openNodes (closeNode n s) i} = {i. openNodes s i} - {n}" by auto
    ultimately have "open_count (closeNode n s) < open_count s"
      using n unfolding open_count_def by (simp only:) (intro card_Diff1_less, simp_all)
    then show ?thesis by (simp add: search_rank_def rank_of_def st eq cost_sum_def)
  next
    assume "cheaper s' s"
    then show ?thesis
      using pool_invD(2) [OF inv'] cost_sum_nonneg [OF inv'] cost_sum_nonneg [OF inv]
      by (auto simp: cheaper_def search_rank_def rank_of_def st cs)
  qed
qed

lemma state_ok_step:
  assumes "visited env startPos n (pool st) s'" "state_ok env startPos st"
  shows "state_ok env startPos (st\<lparr>pool := closeNode n s'\<rparr>)"
proof -
  have v: "pool_inv env startPos s'" "curNode (pool st) \<le> curNode s'"
    "\<forall>i < curNode (pool st). node_pos startPos s' i = node_pos startPos (pool st) i"
    using assms(1) by (simp_all add: visited_def)
  moreover have "node_pos startPos (closeNode n s') i = node_pos startPos s' i" for i
    by (simp add: node_pos_def)
  ultimately show ?thesis
    using assms(2) pool_inv_closeNode [OF v(1)] by (fastforce simp: state_ok_def split: option.splits)
qed

lemma search_ends:
  assumes env: "env_ok env startPos"
  shows "state_ok env startPos st \<Longrightarrow>
    \<exists>r. search env startPos st = Some r \<and> (\<forall>st'. r = Some st' \<longrightarrow> state_ok env startPos st')"
proof (induction st rule: wf_induct_rule [OF wf_rank])
  case (1 st)
  have inv: "pool_inv env startPos (pool st)" using 1(2) by (simp add: state_ok_def)
  show ?case
  proof (cases "maxSearchDist env \<noteq> 0 \<or> closedNodes (pool st) < 100")
    case False
    then show ?thesis using 1(2) by (subst search.simps) simp
  next
    case go: True
    show ?thesis
    proof (cases "getBestNode (pool st)")
      case None
      then show ?thesis using go 1(2) by (subst search.simps) auto
    next
      case (Some n)
      note n = getBestNode_open [OF Some]
      define pos where "pos = node_pos startPos (pool st) n"
      obtain hit bm where c: "condition env pos (bestMatch st) = Some (hit, bm)"
        using env unfolding env_ok_def by (metis option.exhaust prod.exhaust)
      define st1 where "st1 = (if hit then st\<lparr>found := Some n, endPos := pos, bestMatch := bm\<rparr> else st\<lparr>bestMatch := bm\<rparr>)"
      have p1: "pool st1 = pool st" by (simp add: st1_def)
      have ok1: "state_ok env startPos st1"
        using 1(2) c n by (auto simp: state_ok_def st1_def pos_def split: option.splits intro: acceptedI)
      define ps where "ps = map (offset_pos pos) (neighbors_of (allowDiagonal env) (pool st) n)"
      have "inner pos" unfolding pos_def using n inv by (intro node_okD(2) pool_invD(3)) simp_all
      then have "\<forall>q \<in> set ps. adjacent (node_pos startPos (pool st) n) q"
        unfolding ps_def by (auto simp: pos_def [symmetric] intro: adjacent_offset_pos neighbors_king)
      from expand_spec [OF env inv _ this] n obtain s' where s': "visited env startPos n (pool st) s'"
        "expand env startPos n (node_f (nodes (pool st) n)) ps (pool st) = Some (Expanded s') \<or>
         expand env startPos n (node_f (nodes (pool st) n)) ps (pool st) = Some (Out_of_nodes s')"
        by blast
      let ?next = "st1\<lparr>pool := closeNode n s'\<rparr>"
      have eq: "search env startPos st =
          (if hit \<and> bm = 0 then Some (Some st1)
           else case expand env startPos n (node_f (nodes (pool st) n)) ps (pool st) of None \<Rightarrow> None
             | Some (Out_of_nodes s) \<Rightarrow> (if found st1 \<noteq> None then search env startPos (st1\<lparr>pool := closeNode n s\<rparr>) else Some None)
             | Some (Expanded s) \<Rightarrow> search env startPos (st1\<lparr>pool := closeNode n s\<rparr>))"
        by (subst search.simps)
          (simp only: go Some c option.case prod.case Let_def pos_def [symmetric] st1_def [symmetric] p1 ps_def
            not_True_eq_False if_False)
      have "state_ok env startPos ?next"
        using state_ok_step [of env startPos n st1 s'] s'(1) ok1 p1 by simp
      moreover have "(?next, st) \<in> inv_image search_rank rank_of"
        using rank_step [OF inv s'(1) _ refl, of ?next] n by simp
      ultimately have "\<exists>r. search env startPos ?next = Some r \<and> (\<forall>st'. r = Some st' \<longrightarrow> state_ok env startPos st')"
        using 1(1) by blast
      with eq s'(2) ok1 show ?thesis by auto
    qed
  qed
qed

section \<open>The directions\<close>

text \<open>A walk whose every step ends where the creature can walk.\<close>

fun walk_ok :: "search_env \<Rightarrow> position \<Rightarrow> direction list \<Rightarrow> bool" where
  "walk_ok env p [] = True"
| "walk_ok env p (d # ds) = (can_walk env (getNextPosition d p) \<noteq> None \<and> walk_ok env (getNextPosition d p) ds)"

abbreviation follow :: "direction list \<Rightarrow> position \<Rightarrow> position" where
  "follow ds p \<equiv> fold getNextPosition ds p"

lemma walk_ok_append: "walk_ok env p (ds @ es) \<longleftrightarrow> walk_ok env p ds \<and> walk_ok env (follow ds p) es"
  by (induction ds arbitrary: p) auto

lemma trace_back_path:
  assumes inv: "pool_inv env startPos s"
  shows "i < curNode s \<Longrightarrow>
    \<exists>path. trace_back (nodes s) (parent (nodes s i)) (uint (node_x (nodes s i))) (uint (node_y (nodes s i))) acc = Some (path @ acc) \<and>
      walk_ok env startPos path \<and> follow path startPos = node_pos startPos s i"
proof (induction "nat (node_f (nodes s i))" arbitrary: i acc rule: less_induct)
  case less
  note ok = node_okD [OF pool_invD(3) [OF inv less.prems]]
  show ?case
  proof (cases "i = 0")
    case True
    then show ?thesis using ok(5) by (intro exI [of _ "[]"]) (simp add: trace_back.simps)
  next
    case False
    obtain p where p: "p < curNode s" "parent (nodes s i) = Some p" "node_f (nodes s p) < node_f (nodes s i)"
      "adjacent (node_pos startPos s p) (node_pos startPos s i)"
      using ok(7) [OF False] by blast
    note okp = node_okD [OF pool_invD(3) [OF inv p(1)]]
    obtain d where d: "back_direction (getX (node_pos startPos s p) - getX (node_pos startPos s i))
        (getY (node_pos startPos s p) - getY (node_pos startPos s i)) = [d]"
      "getNextPosition d (node_pos startPos s p) = node_pos startPos s i"
      by (rule back_direction_step [OF okp(2) ok(2) p(4)])
    have "nat (node_f (nodes s p)) < nat (node_f (nodes s i))" using p(3) okp(1) by simp
    from less.hyps [OF this p(1), of "d # acc"] obtain path where
      path: "trace_back (nodes s) (parent (nodes s p)) (uint (node_x (nodes s p))) (uint (node_y (nodes s p))) (d # acc) = Some (path @ d # acc)"
      "walk_ok env startPos path" "follow path startPos = node_pos startPos s p"
      by blast
    have "trace_back (nodes s) (parent (nodes s i)) (uint (node_x (nodes s i))) (uint (node_y (nodes s i))) acc = Some ((path @ [d]) @ acc)"
      unfolding p(2) using d(1) path(1)
      by (subst trace_back.simps) (simp add: node_pos_def getX_def getY_def)
    moreover have "walk_ok env startPos (path @ [d])"
      using path(2,3) d(2) ok(6) [OF False] by (simp add: walk_ok_append)
    moreover have "follow (path @ [d]) startPos = node_pos startPos s i"
      using path(3) d(2) by simp
    ultimately show ?thesis by blast
  qed
qed

lemma path_search_result:
  assumes "env_ok env startPos"
  shows "getPathMatching env startPos dirList = Some (False, dirList) \<or>
    (\<exists>path. getPathMatching env startPos dirList = Some (True, path @ dirList) \<and>
       walk_ok env startPos path \<and> accepted env (follow path startPos))"
proof -
  define st where "st = \<lparr>pool = newAStarNodes (ucast (px startPos)) (ucast (py startPos)), found = None,
    endPos = \<lparr>px = 0, py = 0, pz = 0\<rparr>, bestMatch = 0\<rparr>"
  have "state_ok env startPos st"
    using pool_inv_new [OF assms] by (simp add: state_ok_def st_def)
  then obtain r where r: "search env startPos st = Some r" "\<forall>st'. r = Some st' \<longrightarrow> state_ok env startPos st'"
    using search_ends [OF assms] by blast
  show ?thesis
  proof (cases "\<exists>st' n. r = Some st' \<and> found st' = Some n")
    case False
    then show ?thesis
      using r(1) by (cases r) (auto simp: getPathMatching_def st_def [symmetric])
  next
    case True
    then obtain st' n where st': "r = Some st'" "found st' = Some n" by blast
    have ok: "pool_inv env startPos (pool st')" "n < curNode (pool st')" "endPos st' = node_pos startPos (pool st') n"
      "accepted env (endPos st')"
      using r(2) st' by (auto simp: state_ok_def)
    from trace_back_path [OF ok(1,2), of dirList] obtain path where
      "trace_back (nodes (pool st')) (parent (nodes (pool st') n)) (getX (endPos st')) (getY (endPos st')) dirList = Some (path @ dirList)"
      "walk_ok env startPos path" "follow path startPos = endPos st'"
      unfolding ok(3) by (auto simp: node_pos_def getX_def getY_def)
    then show ?thesis
      using r(1) st' ok(4) by (auto simp: getPathMatching_def st_def [symmetric])
  qed
qed

end
