(* ===== verification/Sight.thy ===== *)
theory Sight imports MapTree begin

text \<open>
  Lines of sight (map.cpp): \<open>checkSightLine\<close> walks from one position to another along the
  straight line between them and then down the floors, \<open>isSightClear\<close> tries both ends, and
  \<open>canThrowObjectTo\<close> adds the range tests. Whether a tile blocks projectiles and how many
  things lie on it are functions of the tile. The loop is a partial function: no result
  stands for a loop that does not end and for an overflow of the 32-bit arithmetic, which is
  undefined; the theorems show when there is a result.
\<close>

section \<open>The walk\<close>

definition fits32 :: "int \<Rightarrow> bool" where
  "fits32 v \<longleftrightarrow> - (2 ^ 31) < v \<and> v < 2 ^ 31"

text \<open>\<open>std::abs(A * x + B * y + C)\<close>, undefined when a step overflows.\<close>

definition line_value :: "int \<Rightarrow> int \<Rightarrow> int \<Rightarrow> int \<Rightarrow> int \<Rightarrow> int option" where
  "line_value A B C x y =
     (if fits32 (A * x) \<and> fits32 (B * y) \<and> fits32 (A * x + B * y) \<and> fits32 (A * x + B * y + C)
      then Some \<bar>A * x + B * y + C\<bar> else None)"

definition direction_sign :: "u16 \<Rightarrow> u16 \<Rightarrow> int" where
  "direction_sign a b = (if a < b then 1 else if a = b then 0 else -1)"

text \<open>The two conditional moves of the loop body; the second sees the effect of the first.\<close>

definition sight_move :: "position \<Rightarrow> int \<Rightarrow> int \<Rightarrow> int \<Rightarrow> int \<Rightarrow> int \<Rightarrow> position \<Rightarrow> position" where
  "sight_move destination mx my hor ver cross start =
     (let start = (if py start \<noteq> py destination \<and> (px start = px destination \<or> hor > ver \<or> hor > cross)
                   then start\<lparr>py := py start + of_int my\<rparr> else start);
          start = (if px start \<noteq> px destination \<and> (py start = py destination \<or> ver > hor \<or> ver > cross)
                   then start\<lparr>px := px start + of_int mx\<rparr> else start)
      in start)"

text \<open>The loop: the position reached, or \<open>Some None\<close> when a tile blocks the way.\<close>

partial_function (option) sight_walk ::
  "(position \<Rightarrow> bool) \<Rightarrow> position \<Rightarrow> int \<Rightarrow> int \<Rightarrow> int \<Rightarrow> int \<Rightarrow> int \<Rightarrow> position \<Rightarrow> position option option" where
  "sight_walk blocked destination mx my A B C start =
     (if px start \<noteq> px destination \<or> py start \<noteq> py destination then
        Option.bind (line_value A B C (uint (px start) + mx) (uint (py start))) (\<lambda>hor.
        Option.bind (line_value A B C (uint (px start)) (uint (py start) + my)) (\<lambda>ver.
        Option.bind (line_value A B C (uint (px start) + mx) (uint (py start) + my)) (\<lambda>cross.
          let start = sight_move destination mx my hor ver cross start
          in if blocked start then Some None
             else sight_walk blocked destination mx my A B C start)))
      else Some (Some start))"

lemma word_distance_Suc: "d \<noteq> z \<Longrightarrow> unat ((d :: 'a::len word) - z) = Suc (unat (d - (z + 1)))"
proof -
  assume "d \<noteq> z"
  then have "d - z \<noteq> 0" by simp
  then have "unat (d - z - 1) = unat (d - z) - 1" "unat (d - z) \<noteq> 0"
    by (simp_all add: unat_minus_one unat_eq_zero)
  then show ?thesis by (simp add: diff_diff_eq [symmetric])
qed

text \<open>The jump between the floors.\<close>

function floors_clear :: "(position \<Rightarrow> bool) \<Rightarrow> u8 \<Rightarrow> position \<Rightarrow> bool" where
  "floors_clear occupied z start =
     (if pz start \<noteq> z then
        (if occupied start then False else floors_clear occupied z (start\<lparr>pz := pz start + 1\<rparr>))
      else True)"
  by pat_completeness auto

termination
  by (relation "measure (\<lambda>(occupied, z, start). unat (z - pz start))") (auto simp: word_distance_Suc)

declare floors_clear.simps [simp del]

definition tile_at :: "map_state \<Rightarrow> position \<Rightarrow> nat option" where
  "tile_at m p = getTile m (px p) (py p) (pz p)"

definition blocked_at :: "map_state \<Rightarrow> (nat \<Rightarrow> bool) \<Rightarrow> position \<Rightarrow> bool" where
  "blocked_at m blocksProjectile p =
     (case tile_at m p of None \<Rightarrow> False | Some tile \<Rightarrow> blocksProjectile tile)"

definition occupied_at :: "map_state \<Rightarrow> (nat \<Rightarrow> nat) \<Rightarrow> position \<Rightarrow> bool" where
  "occupied_at m thingCount p =
     (case tile_at m p of None \<Rightarrow> False | Some tile \<Rightarrow> thingCount tile > 0)"

definition checkSightLine :: "map_state \<Rightarrow> (nat \<Rightarrow> bool) \<Rightarrow> (nat \<Rightarrow> nat) \<Rightarrow> position \<Rightarrow> position \<Rightarrow> bool option" where
  "checkSightLine m blocksProjectile thingCount fromPos toPos =
     (if pos_eq fromPos toPos then Some True
      else
        (let start = (if pz fromPos > pz toPos then toPos else fromPos);
             destination = (if pz fromPos > pz toPos then fromPos else toPos);
             mx = direction_sign (px start) (px destination);
             my = direction_sign (py start) (py destination);
             A = getOffsetY destination start;
             B = getOffsetX start destination;
             C = - (A * getX destination + B * getY destination)
         in if \<not> (fits32 (A * getX destination) \<and> fits32 (B * getY destination) \<and> fits32 C) then None
            else
              (case sight_walk (blocked_at m blocksProjectile) destination mx my A B C start of
                 None \<Rightarrow> None
               | Some None \<Rightarrow> Some False
               | Some (Some start) \<Rightarrow> Some (floors_clear (occupied_at m thingCount) (pz destination) start))))"

text \<open>\<open>checkSightLine(from, to) || checkSightLine(to, from)\<close>, evaluated from left to right.\<close>

definition isSightClear :: "map_state \<Rightarrow> (nat \<Rightarrow> bool) \<Rightarrow> (nat \<Rightarrow> nat) \<Rightarrow> position \<Rightarrow> position \<Rightarrow> bool \<Rightarrow> bool option" where
  "isSightClear m blocksProjectile thingCount fromPos toPos floorCheck =
     (if floorCheck \<and> pz fromPos \<noteq> pz toPos then Some False
      else (case checkSightLine m blocksProjectile thingCount fromPos toPos of
              None \<Rightarrow> None
            | Some True \<Rightarrow> Some True
            | Some False \<Rightarrow> checkSightLine m blocksProjectile thingCount toPos fromPos))"

definition canThrowObjectTo ::
  "map_state \<Rightarrow> (nat \<Rightarrow> bool) \<Rightarrow> (nat \<Rightarrow> nat) \<Rightarrow> position \<Rightarrow> position \<Rightarrow> bool \<Rightarrow> int \<Rightarrow> int \<Rightarrow> bool option" where
  "canThrowObjectTo m blocksProjectile thingCount fromPos toPos checkLineOfSight rangex rangey =
     (if (pz fromPos \<ge> 8 \<and> pz toPos < 8) \<or> (pz toPos \<ge> 8 \<and> pz fromPos < 8) then Some False
      else
        (let deltaz = getDistanceZ fromPos toPos
         in if deltaz > 2 then Some False
            else if getDistanceX fromPos toPos - deltaz > rangex then Some False
            else if getDistanceY fromPos toPos - deltaz > rangey then Some False
            else if \<not> checkLineOfSight then Some True
            else isSightClear m blocksProjectile thingCount fromPos toPos False))"

section \<open>The ray\<close>

text \<open>
  The reference: the positions visited by the walk when nothing is in the way, with the
  arithmetic of the integers.
\<close>

definition ray_step :: "position \<Rightarrow> position \<Rightarrow> position \<Rightarrow> position" where
  "ray_step orig destination p =
     (let mx = direction_sign (px orig) (px destination);
          my = direction_sign (py orig) (py destination);
          A = getOffsetY destination orig;
          B = getOffsetX orig destination;
          off = (\<lambda>x y. \<bar>A * (x - getX destination) + B * (y - getY destination)\<bar>)
      in sight_move destination mx my (off (getX p + mx) (getY p)) (off (getX p) (getY p + my))
           (off (getX p + mx) (getY p + my)) p)"

fun ray :: "position \<Rightarrow> position \<Rightarrow> nat \<Rightarrow> position \<Rightarrow> position list" where
  "ray orig destination 0 p = []"
| "ray orig destination (Suc n) p =
     (if px p = px destination \<and> py p = py destination then []
      else ray_step orig destination p # ray orig destination n (ray_step orig destination p))"

text \<open>Enough steps for any walk from \<open>p\<close>.\<close>

definition steps_left :: "position \<Rightarrow> position \<Rightarrow> nat" where
  "steps_left destination p = nat (getDistanceX destination p + getDistanceY destination p)"

definition between :: "int \<Rightarrow> int \<Rightarrow> int \<Rightarrow> bool" where
  "between a x b \<longleftrightarrow> a \<le> x \<and> x \<le> b \<or> b \<le> x \<and> x \<le> a"

definition in_box :: "position \<Rightarrow> position \<Rightarrow> position \<Rightarrow> bool" where
  "in_box orig destination p \<longleftrightarrow>
     between (getX orig) (getX p) (getX destination) \<and> between (getY orig) (getY p) (getY destination) \<and> pz p = pz orig"

lemma direction_sign_int: "direction_sign a b = (if uint a < uint b then 1 else if uint a = uint b then 0 else -1)"
  by (auto simp: direction_sign_def word_less_def word_uint_eq_iff)

lemma uint_u16: "0 \<le> uint (x :: u16)" "uint (x :: u16) < 65536"
  using unsigned_less [of x, where 'a = int] by simp_all

text \<open>One coordinate moves towards the destination, without wrapping around.\<close>

lemma toward:
  fixes a x d :: u16
  assumes b: "between (uint a) (uint x) (uint d)" and n: "x \<noteq> d"
  shows "uint (x + of_int (direction_sign a d)) = uint x + direction_sign a d"
    and "between (uint a) (uint x + direction_sign a d) (uint d)"
    and "\<bar>uint d - (uint x + direction_sign a d)\<bar> = \<bar>uint d - uint x\<bar> - 1"
    and "direction_sign a d = 1 \<and> uint x < uint d \<or> direction_sign a d = -1 \<and> uint d < uint x"
proof -
  have n': "uint x \<noteq> uint d" using n by (simp add: word_uint_eq_iff)
  show s: "direction_sign a d = 1 \<and> uint x < uint d \<or> direction_sign a d = -1 \<and> uint d < uint x"
    using b n' by (auto simp: direction_sign_int between_def)
  then show "between (uint a) (uint x + direction_sign a d) (uint d)"
    "\<bar>uint d - (uint x + direction_sign a d)\<bar> = \<bar>uint d - uint x\<bar> - 1"
    using b by (auto simp: between_def)
  from s show "uint (x + of_int (direction_sign a d)) = uint x + direction_sign a d"
  proof
    assume h: "direction_sign a d = 1 \<and> uint x < uint d"
    then have "uint x + 1 < 2 ^ LENGTH(16)" using uint_u16 [of d] by simp
    then show ?thesis using h by (simp add: uint_plus_1)
  next
    assume h: "direction_sign a d = -1 \<and> uint d < uint x"
    then have "0 < uint x" using uint_u16(1) [of d] by linarith
    then show ?thesis using h by (simp add: uint_minus_1)
  qed
qed

text \<open>When both coordinates differ, the crossing error is the smallest: some move is made.\<close>

lemma some_move:
  fixes p q e :: int
  assumes "p > 0 \<and> q < 0 \<or> p < 0 \<and> q > 0"
  shows "\<bar>e + p\<bar> > \<bar>e + q\<bar> \<or> \<bar>e + p\<bar> > \<bar>e + p + q\<bar> \<or> \<bar>e + q\<bar> > \<bar>e + p\<bar> \<or> \<bar>e + q\<bar> > \<bar>e + p + q\<bar>"
  using assms by (auto simp: abs_if split: if_splits)

definition moved :: "position \<Rightarrow> position \<Rightarrow> position \<Rightarrow> bool \<Rightarrow> bool \<Rightarrow> position" where
  "moved orig destination p hx hy =
     p\<lparr>px := if hx then px p + of_int (direction_sign (px orig) (px destination)) else px p,
       py := if hy then py p + of_int (direction_sign (py orig) (py destination)) else py p\<rparr>"

text \<open>A step moves at least one coordinate, and only coordinates that differ.\<close>

lemma ray_step_moved:
  assumes box: "in_box orig destination p" and ne: "px p \<noteq> px destination \<or> py p \<noteq> py destination"
  obtains hx hy where "ray_step orig destination p = moved orig destination p hx hy" "hx \<or> hy"
    "hx \<Longrightarrow> px p \<noteq> px destination" "hy \<Longrightarrow> py p \<noteq> py destination"
proof -
  define mx where "mx = direction_sign (px orig) (px destination)"
  define my where "my = direction_sign (py orig) (py destination)"
  define A where "A = getOffsetY destination orig"
  define B where "B = getOffsetX orig destination"
  define off where "off x y = \<bar>A * (x - getX destination) + B * (y - getY destination)\<bar>" for x y
  define hor where "hor = off (getX p + mx) (getY p)"
  define ver where "ver = off (getX p) (getY p + my)"
  define cross where "cross = off (getX p + mx) (getY p + my)"
  have eq: "ray_step orig destination p = sight_move destination mx my hor ver cross p"
    by (simp add: ray_step_def Let_def mx_def my_def A_def B_def hor_def ver_def cross_def off_def)
  have progress: "hor > ver \<or> hor > cross \<or> ver > hor \<or> ver > cross" if h: "px p \<noteq> px destination" "py p \<noteq> py destination"
  proof -
    have bx: "between (uint (px orig)) (uint (px p)) (uint (px destination))"
      and b_y: "between (uint (py orig)) (uint (py p)) (uint (py destination))"
      using box by (simp_all add: in_box_def getX_def getY_def)
    have sx: "mx = 1 \<and> uint (px p) < uint (px destination) \<or> mx = -1 \<and> uint (px destination) < uint (px p)"
      unfolding mx_def by (rule toward(4) [OF bx h(1)])
    have sy: "my = 1 \<and> uint (py p) < uint (py destination) \<or> my = -1 \<and> uint (py destination) < uint (py p)"
      unfolding my_def by (rule toward(4) [OF b_y h(2)])
    have sA: "(my = 1 \<longrightarrow> A > 0) \<and> (my = -1 \<longrightarrow> A < 0)"
      using sy b_y by (auto simp: A_def offset_defs between_def)
    have sB: "(mx = 1 \<longrightarrow> B < 0) \<and> (mx = -1 \<longrightarrow> B > 0)"
      using sx bx by (auto simp: B_def offset_defs between_def)
    have pq: "A * mx > 0 \<and> B * my < 0 \<or> A * mx < 0 \<and> B * my > 0"
      using sx sy sA sB by auto
    define e where "e = A * (getX p - getX destination) + B * (getY p - getY destination)"
    have "hor = \<bar>e + A * mx\<bar>" "ver = \<bar>e + B * my\<bar>" "cross = \<bar>e + A * mx + B * my\<bar>"
      by (simp_all add: hor_def ver_def cross_def off_def e_def algebra_simps)
    with some_move [OF pq, of e] show ?thesis by simp
  qed
  define hy where "hy \<longleftrightarrow> py p \<noteq> py destination \<and> (px p = px destination \<or> hor > ver \<or> hor > cross)"
  define q where "q = (if hy then p\<lparr>py := py p + of_int my\<rparr> else p)"
  define hx where "hx \<longleftrightarrow> px p \<noteq> px destination \<and> (py q = py destination \<or> ver > hor \<or> ver > cross)"
  have "ray_step orig destination p = moved orig destination p hx hy"
    unfolding eq sight_move_def moved_def hx_def hy_def q_def Let_def mx_def my_def by simp
  moreover have "hx \<or> hy"
    using ne progress by (auto simp: hx_def hy_def q_def)
  ultimately show thesis by (rule that) (simp_all add: hx_def hy_def)
qed

lemma ray_step_facts:
  assumes box: "in_box orig destination p" and ne: "px p \<noteq> px destination \<or> py p \<noteq> py destination"
  shows "in_box orig destination (ray_step orig destination p)" (is ?box)
    and "steps_left destination (ray_step orig destination p) < steps_left destination p" (is ?left)
    and "areInRange3 1 1 0 p (ray_step orig destination p)" (is ?near)
    and "ray_step orig destination p \<noteq> p" (is ?new)
proof -
  obtain hx hy where eq: "ray_step orig destination p = moved orig destination p hx hy" and h: "hx \<or> hy"
    "hx \<Longrightarrow> px p \<noteq> px destination" "hy \<Longrightarrow> py p \<noteq> py destination"
    using ray_step_moved [OF assms] by blast
  have bx: "between (uint (px orig)) (uint (px p)) (uint (px destination))"
    and b_y: "between (uint (py orig)) (uint (py p)) (uint (py destination))"
    using box by (simp_all add: in_box_def getX_def getY_def)
  note tx = toward [OF bx] and ty = toward [OF b_y]
  let ?q = "moved orig destination p hx hy"
  have X: "uint (px ?q) = uint (px p) + (if hx then direction_sign (px orig) (px destination) else 0)"
    using tx(1) h(2) by (simp add: moved_def)
  have Y: "uint (py ?q) = uint (py p) + (if hy then direction_sign (py orig) (py destination) else 0)"
    using ty(1) h(3) by (simp add: moved_def)
  have Z: "pz ?q = pz p" by (simp add: moved_def)
  have dx: "\<bar>uint (px destination) - uint (px ?q)\<bar> = \<bar>uint (px destination) - uint (px p)\<bar> - (if hx then 1 else 0)"
    using tx(3) h(2) X by auto
  have dy: "\<bar>uint (py destination) - uint (py ?q)\<bar> = \<bar>uint (py destination) - uint (py p)\<bar> - (if hy then 1 else 0)"
    using ty(3) h(3) Y by auto
  show ?box
    using box tx(2) ty(2) h unfolding eq in_box_def getX_def getY_def X Y Z by auto
  show ?left
  proof -
    have "hx \<Longrightarrow> 0 < \<bar>uint (px destination) - uint (px p)\<bar>" "hy \<Longrightarrow> 0 < \<bar>uint (py destination) - uint (py p)\<bar>"
      using h(2,3) by (auto simp: word_uint_eq_iff)
    then show ?thesis
      unfolding eq steps_left_def distance_defs dx dy using h(1) by (auto simp: add_pos_nonneg)
  qed
  have m: "\<bar>uint (px p) - uint (px ?q)\<bar> \<le> 1" "\<bar>uint (py p) - uint (py ?q)\<bar> \<le> 1"
    unfolding X Y by (auto simp: direction_sign_def)
  then show ?near
    unfolding eq areInRange3_def distance_defs Z by simp
  have "uint (px ?q) \<noteq> uint (px p) \<or> uint (py ?q) \<noteq> uint (py p)"
    using h tx(4) ty(4) unfolding X Y by auto
  then show ?new unfolding eq by auto
qed

section \<open>The walk follows the ray\<close>

text \<open>Positions close enough for the 32-bit arithmetic.\<close>

definition near_enough :: "position \<Rightarrow> position \<Rightarrow> bool" where
  "near_enough p q \<longleftrightarrow> getDistanceX p q \<le> 16383 \<and> getDistanceY p q \<le> 16383"

lemma product_bound:
  fixes a b :: int
  shows "\<bar>a\<bar> \<le> m \<Longrightarrow> \<bar>b\<bar> \<le> n \<Longrightarrow> \<bar>a * b\<bar> \<le> m * n"
  unfolding abs_mult by (rule mult_mono) auto

lemma line_value_near:
  assumes "\<bar>A\<bar> \<le> 16383" "\<bar>B\<bar> \<le> 16383" "\<bar>x\<bar> \<le> 65536" "\<bar>y\<bar> \<le> 65536" "\<bar>x - dx\<bar> \<le> 16384" "\<bar>y - dy\<bar> \<le> 16384"
  shows "line_value A B (- (A * dx + B * dy)) x y = Some \<bar>A * (x - dx) + B * (y - dy)\<bar>"
proof -
  have "A * x + B * y + - (A * dx + B * dy) = A * (x - dx) + B * (y - dy)"
    by (simp add: algebra_simps)
  moreover have "\<bar>A * x\<bar> \<le> 16383 * 65536" "\<bar>B * y\<bar> \<le> 16383 * 65536"
    "\<bar>A * (x - dx)\<bar> \<le> 16383 * 16384" "\<bar>B * (y - dy)\<bar> \<le> 16383 * 16384"
    by (rule product_bound; rule assms)+
  ultimately show ?thesis
    unfolding line_value_def fits32_def by auto
qed

lemma coords_near:
  assumes "in_box orig destination p" "near_enough orig destination" "\<bar>mx\<bar> \<le> 1" "\<bar>my\<bar> \<le> 1"
  shows "\<bar>getX p + mx\<bar> \<le> 65536" "\<bar>getY p + my\<bar> \<le> 65536"
    "\<bar>getX p + mx - getX destination\<bar> \<le> 16384" "\<bar>getY p + my - getY destination\<bar> \<le> 16384"
proof -
  have "0 \<le> getX p" "getX p < 65536" "0 \<le> getY p" "getY p < 65536"
    using uint_u16 by (simp_all add: getX_def getY_def)
  then show "\<bar>getX p + mx\<bar> \<le> 65536" "\<bar>getY p + my\<bar> \<le> 65536"
    using assms(3,4) by auto
  show "\<bar>getX p + mx - getX destination\<bar> \<le> 16384" "\<bar>getY p + my - getY destination\<bar> \<le> 16384"
    using assms by (auto simp: in_box_def between_def near_enough_def getDistanceX_def getDistanceY_def
        getOffsetX_def getOffsetY_def)
qed

lemma abs_direction_sign: "\<bar>direction_sign a b\<bar> \<le> 1"
  by (simp add: direction_sign_def)

lemma sight_walk_ray:
  assumes near: "near_enough orig destination"
    and defs: "mx = direction_sign (px orig) (px destination)" "my = direction_sign (py orig) (py destination)"
      "A = getOffsetY destination orig" "B = getOffsetX orig destination"
      "C = - (A * getX destination + B * getY destination)"
  shows "in_box orig destination p \<Longrightarrow> steps_left destination p \<le> n \<Longrightarrow>
    sight_walk blocked destination mx my A B C p =
      Some (if \<exists>q \<in> set (ray orig destination n p). blocked q then None
            else Some (p\<lparr>px := px destination, py := py destination\<rparr>))"
proof (induction n arbitrary: p)
  case 0
  then have "px p = px destination \<and> py p = py destination"
    by (auto simp: steps_left_def distance_defs word_uint_eq_iff)
  then have "p = p\<lparr>px := px destination, py := py destination\<rparr>" by (intro position_eqI) simp_all
  then show ?case using \<open>px p = px destination \<and> py p = py destination\<close>
    by (subst sight_walk.simps) simp
next
  case (Suc n)
  show ?case
  proof (cases "px p = px destination \<and> py p = py destination")
    case True
    then have "p = p\<lparr>px := px destination, py := py destination\<rparr>" by (intro position_eqI) simp_all
    then show ?thesis using True by (subst sight_walk.simps) simp
  next
    case False
    define q where "q = ray_step orig destination p"
    have ne: "px p \<noteq> px destination \<or> py p \<noteq> py destination" using False by simp
    note facts = ray_step_facts [OF Suc.prems(1) ne, folded q_def]
    have AB: "\<bar>A\<bar> \<le> 16383" "\<bar>B\<bar> \<le> 16383"
      using near by (auto simp: near_enough_def distance_defs defs(3,4) offset_defs)
    have m: "\<bar>mx\<bar> \<le> 1" "\<bar>my\<bar> \<le> 1" "\<bar>0\<bar> \<le> (1 :: int)" by (simp_all add: defs(1,2) abs_direction_sign)
    note cn = coords_near [OF Suc.prems(1) near]
    have lv: "line_value A B C (getX p + mx) (getY p) = Some \<bar>A * (getX p + mx - getX destination) + B * (getY p - getY destination)\<bar>"
      "line_value A B C (getX p) (getY p + my) = Some \<bar>A * (getX p - getX destination) + B * (getY p + my - getY destination)\<bar>"
      "line_value A B C (getX p + mx) (getY p + my) = Some \<bar>A * (getX p + mx - getX destination) + B * (getY p + my - getY destination)\<bar>"
      unfolding defs(5)
      using cn [OF m(1,2)] cn [OF m(1,3)] cn [OF m(3,2)]
      by (simp_all only: line_value_near [OF AB] add_0_right)
    have "sight_walk blocked destination mx my A B C p =
        (if blocked q then Some None else sight_walk blocked destination mx my A B C q)"
      using ne lv unfolding getX_def getY_def
      by (subst sight_walk.simps) (simp add: q_def ray_step_def Let_def defs(1-4) getX_def getY_def)
    moreover have "sight_walk blocked destination mx my A B C q =
        Some (if \<exists>r \<in> set (ray orig destination n q). blocked r then None
              else Some (q\<lparr>px := px destination, py := py destination\<rparr>))"
      using facts(1,2) Suc.prems(2) by (intro Suc.IH) simp_all
    moreover have "q\<lparr>px := px destination, py := py destination\<rparr> = p\<lparr>px := px destination, py := py destination\<rparr>"
      using facts(1) Suc.prems(1) by (intro position_eqI) (simp_all add: in_box_def)
    ultimately show ?thesis using False by (simp add: q_def)
  qed
qed

text \<open>A path whose consecutive positions are neighbours, diagonals included.\<close>

fun king_path :: "position \<Rightarrow> position list \<Rightarrow> bool" where
  "king_path p [] = True"
| "king_path p (q # qs) = (q \<noteq> p \<and> areInRange3 1 1 0 p q \<and> king_path q qs)"

lemma ray_facts:
  "in_box orig destination p \<Longrightarrow> steps_left destination p \<le> n \<Longrightarrow>
   king_path p (ray orig destination n p) \<and>
   last (p # ray orig destination n p) = p\<lparr>px := px destination, py := py destination\<rparr> \<and>
   (\<forall>q \<in> set (ray orig destination n p). in_box orig destination q)"
proof (induction n arbitrary: p)
  case 0
  then have "px p = px destination \<and> py p = py destination"
    by (auto simp: steps_left_def distance_defs word_uint_eq_iff)
  then have "p = p\<lparr>px := px destination, py := py destination\<rparr>" by (intro position_eqI) simp_all
  then show ?case by simp
next
  case (Suc n)
  show ?case
  proof (cases "px p = px destination \<and> py p = py destination")
    case True
    then have "p = p\<lparr>px := px destination, py := py destination\<rparr>" by (intro position_eqI) simp_all
    then show ?thesis using True by simp
  next
    case False
    define q where "q = ray_step orig destination p"
    have "px p \<noteq> px destination \<or> py p \<noteq> py destination" using False by simp
    note facts = ray_step_facts [OF Suc.prems(1) this, folded q_def]
    have IH: "king_path q (ray orig destination n q) \<and>
        last (q # ray orig destination n q) = q\<lparr>px := px destination, py := py destination\<rparr> \<and>
        (\<forall>r \<in> set (ray orig destination n q). in_box orig destination r)"
      using facts(1,2) Suc.prems(2) by (intro Suc.IH) simp_all
    have "q\<lparr>px := px destination, py := py destination\<rparr> = p\<lparr>px := px destination, py := py destination\<rparr>"
      using facts(1) Suc.prems(1) by (intro position_eqI) (simp_all add: in_box_def)
    then show ?thesis using IH facts False by (simp add: q_def [symmetric])
  qed
qed

lemma floors_clear_iff:
  "pz start \<le> z \<Longrightarrow> floors_clear occupied z start \<longleftrightarrow>
     (\<forall>k. pz start \<le> k \<and> k < z \<longrightarrow> \<not> occupied (start\<lparr>pz := k\<rparr>))"
proof (induction "unat (z - pz start)" arbitrary: start)
  case 0
  then have "pz start = z" by (simp add: unat_eq_zero)
  then show ?case by (subst floors_clear.simps) (auto dest: leD)
next
  case (Suc n)
  then have ne: "z \<noteq> pz start" by auto
  with Suc.prems have lt: "pz start < z" by simp
  have n: "n = unat (z - pz (start\<lparr>pz := pz start + 1\<rparr>))"
    using Suc.hyps(2) word_distance_Suc [OF ne] by simp
  have nx: "unat (pz start + 1) = unat (pz start) + 1"
    using lt unsigned_less [of z, where 'a = nat] by (simp add: word_less_nat_alt unat_word_ariths)
  then have le: "pz (start\<lparr>pz := pz start + 1\<rparr>) \<le> z"
    using lt by (simp add: word_less_nat_alt word_le_nat_alt)
  have split: "pz start \<le> k \<and> k < z \<longleftrightarrow> k = pz start \<or> pz start + 1 \<le> k \<and> k < z" for k
    using lt nx by (auto simp: word_less_nat_alt word_le_nat_alt word_unat_eq_iff)
  have same: "start\<lparr>pz := pz start\<rparr> = start" by (intro position_eqI) simp_all
  have "floors_clear occupied z start \<longleftrightarrow> \<not> occupied start \<and> floors_clear occupied z (start\<lparr>pz := pz start + 1\<rparr>)"
    using ne by (subst floors_clear.simps) auto
  then show ?case
    unfolding Suc.hyps(1) [OF n le] split by (auto simp: same)
qed

lemma sight_line_result:
  assumes "near_enough fromPos toPos" and "fromPos \<noteq> toPos"
    and "start = (if pz fromPos > pz toPos then toPos else fromPos)"
    and "destination = (if pz fromPos > pz toPos then fromPos else toPos)"
  shows "\<exists>path. king_path start path \<and> last (start # path) = destination\<lparr>pz := pz start\<rparr> \<and>
    (\<forall>q \<in> set path. in_box start destination q) \<and>
    (\<forall>m blocksProjectile thingCount. checkSightLine m blocksProjectile thingCount fromPos toPos =
       Some ((\<forall>q \<in> set path. \<not> blocked_at m blocksProjectile q) \<and>
         (\<forall>z. pz start \<le> z \<and> z < pz destination \<longrightarrow> \<not> occupied_at m thingCount (destination\<lparr>pz := z\<rparr>))))"
proof -
  define path where "path = ray start destination (steps_left destination start) start"
  have box: "in_box start destination start" by (auto simp: in_box_def between_def)
  have near: "near_enough start destination"
    using assms(1) by (simp add: assms(3,4) near_enough_def distance_sym)
  have e: "start\<lparr>px := px destination, py := py destination\<rparr> = destination\<lparr>pz := pz start\<rparr>"
    by (intro position_eqI) simp_all
  note facts = ray_facts [OF box order_refl, folded path_def, unfolded e]
  define A where "A = getOffsetY destination start"
  define B where "B = getOffsetX start destination"
  have AB: "\<bar>A\<bar> \<le> 16383" "\<bar>B\<bar> \<le> 16383"
    using near by (auto simp: near_enough_def distance_defs A_def B_def)
  have "\<bar>getX destination\<bar> \<le> 65536" "\<bar>getY destination\<bar> \<le> 65536"
    using uint_u16 [of "px destination"] uint_u16 [of "py destination"] by (simp_all add: getX_def getY_def)
  then have "\<bar>A * getX destination\<bar> \<le> 16383 * 65536" "\<bar>B * getY destination\<bar> \<le> 16383 * 65536"
    using AB by (blast intro: product_bound)+
  then have fits: "fits32 (A * getX destination) \<and> fits32 (B * getY destination) \<and>
      fits32 (- (A * getX destination + B * getY destination))"
    by (auto simp: fits32_def)
  have le: "pz start \<le> pz destination" by (auto simp: assms(3,4))
  have "checkSightLine m b t fromPos toPos =
      Some ((\<forall>q \<in> set path. \<not> blocked_at m b q) \<and>
        (\<forall>z. pz start \<le> z \<and> z < pz destination \<longrightarrow> \<not> occupied_at m t (destination\<lparr>pz := z\<rparr>)))" for m b t
  proof -
    have walk: "sight_walk (blocked_at m b) destination (direction_sign (px start) (px destination))
        (direction_sign (py start) (py destination)) A B (- (A * getX destination + B * getY destination)) start =
      Some (if \<exists>q \<in> set path. blocked_at m b q then None else Some (destination\<lparr>pz := pz start\<rparr>))"
      using sight_walk_ray [OF near refl refl A_def B_def refl box order_refl, of "blocked_at m b"]
      by (simp only: e path_def)
    have "floors_clear (occupied_at m t) (pz destination) (destination\<lparr>pz := pz start\<rparr>) \<longleftrightarrow>
        (\<forall>z. pz start \<le> z \<and> z < pz destination \<longrightarrow> \<not> occupied_at m t (destination\<lparr>pz := z\<rparr>))"
      using le by (subst floors_clear_iff) simp_all
    moreover have "checkSightLine m b t fromPos toPos =
        (if \<exists>q \<in> set path. blocked_at m b q then Some False
         else Some (floors_clear (occupied_at m t) (pz destination) (destination\<lparr>pz := pz start\<rparr>)))"
      using assms(2) fits
      unfolding checkSightLine_def Let_def assms(3,4) [symmetric] A_def [symmetric] B_def [symmetric] walk
      by (simp only: pos_eq_iff if_False simp_thms) simp
    ultimately show ?thesis by auto
  qed
  with facts show ?thesis by blast
qed



text \<open>
  \<open>isSightClear\<close> casts one ray only when the floors differ: \<open>checkSightLine\<close> starts from
  the lower floor number whatever the order of its arguments, so the second call repeats
  the first. On one floor the answer does not depend on the order of the two positions.
\<close>

theorem sight_across_floors_single_ray:
  "(pz p \<noteq> pz q \<longrightarrow> checkSightLine m blocksProjectile thingCount p q = checkSightLine m blocksProjectile thingCount q p \<and>
      isSightClear m blocksProjectile thingCount p q False = checkSightLine m blocksProjectile thingCount p q) \<and>
   (near_enough p q \<longrightarrow> isSightClear m blocksProjectile thingCount p q floorCheck =
      isSightClear m blocksProjectile thingCount q p floorCheck)"
proof -
  have same: "checkSightLine m blocksProjectile thingCount p q = checkSightLine m blocksProjectile thingCount q p"
    if h: "pz p \<noteq> pz q"
    using h by (auto simp: checkSightLine_def not_less_iff_gr_or_eq dest: order.asym)
  have ans: "\<exists>r. checkSightLine m blocksProjectile thingCount a b = Some r" if h: "near_enough a b" for a b
  proof (cases "a = b")
    case True
    then show ?thesis by (intro exI [of _ True]) (simp add: checkSightLine_def)
  next
    case False
    from sight_line_result [OF h False refl refl] show ?thesis by blast
  qed
  have "isSightClear m blocksProjectile thingCount p q False = checkSightLine m blocksProjectile thingCount p q" if h: "pz p \<noteq> pz q"
    using same [OF h] by (auto simp: isSightClear_def split: option.split bool.split)
  moreover have "isSightClear m blocksProjectile thingCount p q floorCheck =
      isSightClear m blocksProjectile thingCount q p floorCheck" if h: "near_enough p q"
  proof -
    have "near_enough q p" using h by (simp add: near_enough_def distance_sym)
    with ans h obtain r r' where "checkSightLine m blocksProjectile thingCount p q = Some r"
      "checkSightLine m blocksProjectile thingCount q p = Some r'" by metis
    then show ?thesis by (cases r; cases r') (auto simp: isSightClear_def)
  qed
  ultimately show ?thesis using same by blast
qed

theorem sight_across_floors_single_ray_witness:
  "\<forall>m b t. isSightClear m b t \<lparr>px = 100, py = 100, pz = 6\<rparr> \<lparr>px = 103, py = 102, pz = 7\<rparr> False =
   checkSightLine m b t \<lparr>px = 103, py = 102, pz = 7\<rparr> \<lparr>px = 100, py = 100, pz = 6\<rparr>"
  using sight_across_floors_single_ray [of "\<lparr>px = 100, py = 100, pz = 6\<rparr>" "\<lparr>px = 103, py = 102, pz = 7\<rparr>"]
  by simp

text \<open>A map with a single tile, for the witnesses.\<close>

lemma one_tile_map:
  assumes "unat (pz t) < MAP_MAX_LAYERS"
  obtains m where "\<And>q. tile_at m q = (if q = t then Some 1 else None)"
proof -
  have none: "getTile empty_map x y z = None" for x y z
    by (simp add: getTile_def leaf_of_def empty_map_def)
  obtain m where m: "\<forall>x' y' z'. getTile m x' y' z' =
      (if x' = px t \<and> y' = py t \<and> z' = pz t \<and> unat (pz t) < MAP_MAX_LAYERS \<and> getTile empty_map (px t) (py t) (pz t) = None
       then Some 1 else getTile empty_map x' y' z')"
    using setTile_spec [OF map_inv_empty, of "\<lambda>_ _ w. w" "px t" "py t" "pz t" 1 "0 :: nat"] by (elim exE conjE) (rule that)
  show thesis
  proof
    fix q
    have "q = t \<longleftrightarrow> px q = px t \<and> py q = py t \<and> pz q = pz t" by (auto intro: position_eqI)
    then show "tile_at m q = (if q = t then Some 1 else None)"
      using m assms none unfolding tile_at_def by simp
  qed
qed

end
