(* ===== verification/Walk.thy ===== *)
theory Walk imports AStarProps Sight begin

text \<open>
  How a creature sees the ground around it (creature.cpp): the walk cache, a square of
  booleans around the creature that moves with it, \<open>Map::canWalkTo\<close>, the cost of tiles, the
  condition that ends a path search, and \<open>Creature::getPathTo\<close>, which puts them together.
  Whether a tile can be entered is a function of the tile, as are its visible creatures and
  fields.
\<close>

section \<open>The walk cache\<close>

definition mapWalkWidth :: nat where "mapWalkWidth = 23"
definition mapWalkHeight :: nat where "mapWalkHeight = 23"
definition maxWalkCacheWidth :: int where "maxWalkCacheWidth = 11"
definition maxWalkCacheHeight :: int where "maxWalkCacheHeight = 11"

lemmas walk_consts = mapWalkWidth_def mapWalkHeight_def maxWalkCacheWidth_def maxWalkCacheHeight_def

type_synonym walk_cache = "nat \<Rightarrow> nat \<Rightarrow> bool"

text \<open>\<open>tile && tile->queryAdd(...) == RETURNVALUE_NOERROR\<close>.\<close>

definition enterable :: "(nat \<Rightarrow> bool) \<Rightarrow> nat option \<Rightarrow> bool" where
  "enterable queryAdd tile = (case tile of None \<Rightarrow> False | Some t \<Rightarrow> queryAdd t)"

definition set_cell :: "nat \<Rightarrow> nat \<Rightarrow> bool \<Rightarrow> walk_cache \<Rightarrow> walk_cache" where
  "set_cell r k b c = c(r := (c r)(k := b))"

definition updateTileCache :: "(nat \<Rightarrow> bool) \<Rightarrow> nat option \<Rightarrow> int \<Rightarrow> int \<Rightarrow> walk_cache \<Rightarrow> walk_cache" where
  "updateTileCache queryAdd tile dx dy c =
     (if \<bar>dx\<bar> \<le> maxWalkCacheWidth \<and> \<bar>dy\<bar> \<le> maxWalkCacheHeight
      then set_cell (nat (maxWalkCacheHeight + dy)) (nat (maxWalkCacheWidth + dx)) (enterable queryAdd tile) c
      else c)"

definition updateTileCacheAt :: "(nat \<Rightarrow> bool) \<Rightarrow> position \<Rightarrow> nat option \<Rightarrow> position \<Rightarrow> walk_cache \<Rightarrow> walk_cache" where
  "updateTileCacheAt queryAdd myPos tile pos c =
     (if pz pos = pz myPos then
        updateTileCache queryAdd tile (getOffsetX pos myPos) (getOffsetY pos myPos) c
      else c)"

text \<open>The offsets \<open>-n, ..., n\<close> of a loop.\<close>

definition offsets :: "int \<Rightarrow> int list" where
  "offsets n = map (\<lambda>i. int i - n) [0..<nat (2 * n + 1)]"

definition updateMapCache :: "(nat \<Rightarrow> bool) \<Rightarrow> map_state \<Rightarrow> position \<Rightarrow> walk_cache \<Rightarrow> walk_cache" where
  "updateMapCache queryAdd m myPos c =
     fold (\<lambda>y. fold (\<lambda>x c.
         let pos = offset_pos myPos (x, y)
         in updateTileCacheAt queryAdd myPos (tile_at m pos) pos c)
       (offsets maxWalkCacheWidth)) (offsets maxWalkCacheHeight) c"

definition getWalkCache :: "bool \<Rightarrow> walk_cache \<Rightarrow> position \<Rightarrow> position \<Rightarrow> int" where
  "getWalkCache useCacheMap c myPos pos =
     (if \<not> useCacheMap then 2
      else if pz myPos \<noteq> pz pos then 0
      else if pos_eq pos myPos then 1
      else
        (let dx = getOffsetX pos myPos
         in if \<bar>dx\<bar> \<le> maxWalkCacheWidth then
              (let dy = getOffsetY pos myPos
               in if \<bar>dy\<bar> \<le> maxWalkCacheHeight then
                    (if c (nat (maxWalkCacheHeight + dy)) (nat (maxWalkCacheWidth + dx)) then 1 else 0)
                  else 2)
            else 2))"

text \<open>The four shifts of \<open>onCreatureMove\<close>, loop by loop.\<close>

definition shift_y_south :: "walk_cache \<Rightarrow> walk_cache" where
  "shift_y_south c = fold (\<lambda>y c. c(y + 1 := c y)) (rev [0..<mapWalkHeight - 1]) c"

definition shift_y_north :: "walk_cache \<Rightarrow> walk_cache" where
  "shift_y_north c = fold (\<lambda>y c. c(y := c (y + 1))) [0..<mapWalkHeight - 1] c"

definition shift_x_west :: "nat \<Rightarrow> nat \<Rightarrow> walk_cache \<Rightarrow> walk_cache" where
  "shift_x_west starty endy c =
     fold (\<lambda>y. fold (\<lambda>x c. set_cell y x (c y (x + 1)) c) [0..<mapWalkWidth - 1]) [starty..<endy + 1] c"

definition shift_x_east :: "nat \<Rightarrow> nat \<Rightarrow> walk_cache \<Rightarrow> walk_cache" where
  "shift_x_east starty endy c =
     fold (\<lambda>y. fold (\<lambda>x c. set_cell y (x + 1) (c y x) c) (rev [0..<mapWalkWidth - 1])) [starty..<endy + 1] c"

definition update_row :: "(nat \<Rightarrow> bool) \<Rightarrow> map_state \<Rightarrow> position \<Rightarrow> int \<Rightarrow> walk_cache \<Rightarrow> walk_cache" where
  "update_row queryAdd m myPos dy c =
     fold (\<lambda>x. updateTileCache queryAdd (tile_at m (offset_pos myPos (x, dy))) x dy) (offsets maxWalkCacheWidth) c"

definition update_column :: "(nat \<Rightarrow> bool) \<Rightarrow> map_state \<Rightarrow> position \<Rightarrow> int \<Rightarrow> walk_cache \<Rightarrow> walk_cache" where
  "update_column queryAdd m myPos dx c =
     fold (\<lambda>y. updateTileCache queryAdd (tile_at m (offset_pos myPos (dx, y))) dx y) (offsets maxWalkCacheHeight) c"

text \<open>
  The rows that the shifts in \<open>x\<close> move. \<open>getDistanceY\<close> is never negative, so the branch
  for negative distances is dead.
\<close>

definition shift_rows :: "position \<Rightarrow> position \<Rightarrow> nat \<times> nat" where
  "shift_rows oldPos newPos =
     (let starty = 0; endy = int mapWalkHeight - 1; dy = getDistanceY oldPos newPos
      in if dy < 0 then (nat starty, nat (endy + dy))
         else if dy > 0 then (nat dy, nat endy)
         else (nat starty, nat endy))"

text \<open>The cache part of \<open>Creature::onCreatureMove\<close> for the moving creature itself.\<close>

definition move_cache :: "(nat \<Rightarrow> bool) \<Rightarrow> map_state \<Rightarrow> bool \<Rightarrow> position \<Rightarrow> position \<Rightarrow> position \<Rightarrow> walk_cache \<Rightarrow> walk_cache" where
  "move_cache queryAdd m teleport oldPos newPos myPos c =
     (if teleport \<or> pz oldPos \<noteq> pz newPos then updateMapCache queryAdd m myPos c
      else
        (let c = (if py oldPos > py newPos then
                    update_row queryAdd m myPos (- maxWalkCacheHeight) (shift_y_south c)
                  else if py oldPos < py newPos then
                    update_row queryAdd m myPos maxWalkCacheHeight (shift_y_north c)
                  else c);
             rows = shift_rows oldPos newPos;
             c = (if px oldPos < px newPos then
                    update_column queryAdd m myPos maxWalkCacheWidth (shift_x_west (fst rows) (snd rows) c)
                  else if px oldPos > px newPos then
                    update_column queryAdd m myPos (- maxWalkCacheWidth) (shift_x_east (fst rows) (snd rows) c)
                  else c)
         in updateTileCacheAt queryAdd myPos (tile_at m oldPos) oldPos c))"

text \<open>The cache when another creature moves, appears or disappears, or a tile changes.\<close>

definition other_moved :: "(nat \<Rightarrow> bool) \<Rightarrow> map_state \<Rightarrow> position \<Rightarrow> position \<Rightarrow> position \<Rightarrow> walk_cache \<Rightarrow> walk_cache" where
  "other_moved queryAdd m myPos oldPos newPos c =
     (let c = (if pz newPos = pz myPos then updateTileCacheAt queryAdd myPos (tile_at m newPos) newPos c else c)
      in if pz oldPos = pz myPos then updateTileCacheAt queryAdd myPos (tile_at m oldPos) oldPos c else c)"

section \<open>What the loops do\<close>

lemma fold_down_rows: "fold (\<lambda>y c. c(y + 1 := c y)) (rev [0..<n]) c r = (if 0 < r \<and> r \<le> n then c (r - 1) else c r)"
  for c :: "nat \<Rightarrow> 'a"
proof (induction n arbitrary: c)
  case 0
  then show ?case by simp
next
  case (Suc n)
  have "fold (\<lambda>y c. c(y + 1 := c y)) (rev [0..<Suc n]) c r =
      fold (\<lambda>y c. c(y + 1 := c y)) (rev [0..<n]) (c(n + 1 := c n)) r" by simp
  also have "\<dots> = (if 0 < r \<and> r \<le> n then (c(n + 1 := c n)) (r - 1) else (c(n + 1 := c n)) r)"
    by (rule Suc.IH)
  also have "\<dots> = (if 0 < r \<and> r \<le> Suc n then c (r - 1) else c r)" by (auto simp: le_Suc_eq)
  finally show ?case .
qed

lemma fold_up_rows: "fold (\<lambda>y c. c(y := c (y + 1))) [0..<n] c r = (if r < n then c (r + 1) else c r)"
  for c :: "nat \<Rightarrow> 'a"
  by (induction n arbitrary: r) auto

lemma shift_y_rows:
  "shift_y_south c r = (if 0 < r \<and> r < 23 then c (r - 1) else c r)"
  "shift_y_north c r = (if r < 22 then c (r + 1) else c r)"
  unfolding shift_y_south_def shift_y_north_def walk_consts fold_down_rows fold_up_rows by auto

lemma fold_row_west:
  "fold (\<lambda>x c. set_cell y x (c y (x + 1)) c) [0..<n] c = c(y := (\<lambda>k. if k < n then c y (k + 1) else c y k))"
proof (induction n)
  case 0
  then show ?case by simp
next
  case (Suc n)
  then show ?case by (auto simp: set_cell_def fun_eq_iff less_Suc_eq)
qed

lemma fold_row_east:
  "fold (\<lambda>x c. set_cell y (x + 1) (c y x) c) (rev [0..<n]) c =
     c(y := (\<lambda>k. if 0 < k \<and> k \<le> n then c y (k - 1) else c y k))"
proof (induction n arbitrary: c)
  case 0
  then show ?case by (simp add: fun_eq_iff)
next
  case (Suc n)
  have "fold (\<lambda>x c. set_cell y (x + 1) (c y x) c) (rev [0..<Suc n]) c =
      fold (\<lambda>x c. set_cell y (x + 1) (c y x) c) (rev [0..<n]) (set_cell y (n + 1) (c y n) c)" by simp
  also have "\<dots> = c(y := (\<lambda>k. if 0 < k \<and> k \<le> Suc n then c y (k - 1) else c y k))"
    unfolding Suc.IH by (auto simp: set_cell_def fun_eq_iff le_Suc_eq)
  finally show ?case .
qed

lemma fold_rows: "fold (\<lambda>y c. c(y := g (c y))) [a..<b] c r = (if a \<le> r \<and> r < b then g (c r) else c r)"
  by (induction b arbitrary: r) (auto simp: less_Suc_eq)

lemma shift_x_rows:
  "shift_x_west a e c r = (if a \<le> r \<and> r \<le> e then (\<lambda>k. if k < 22 then c r (k + 1) else c r k) else c r)"
  "shift_x_east a e c r = (if a \<le> r \<and> r \<le> e then (\<lambda>k. if 0 < k \<and> k < 23 then c r (k - 1) else c r k) else c r)"
proof -
  show "shift_x_west a e c r = (if a \<le> r \<and> r \<le> e then (\<lambda>k. if k < 22 then c r (k + 1) else c r k) else c r)"
    unfolding shift_x_west_def walk_consts fold_row_west fold_rows [where g = "\<lambda>row k. if k < 23 - 1 then row (k + 1) else row k"]
    by auto
  show "shift_x_east a e c r = (if a \<le> r \<and> r \<le> e then (\<lambda>k. if 0 < k \<and> k < 23 then c r (k - 1) else c r k) else c r)"
    unfolding shift_x_east_def walk_consts fold_row_east
      fold_rows [where g = "\<lambda>row k. if 0 < k \<and> k \<le> 23 - 1 then row (k - 1) else row k"]
    by (auto simp: fun_eq_iff)
qed

lemma offsets_11: "offsets 11 = map (\<lambda>i. int i - 11) [0..<23]"
  by (simp add: offsets_def)

lemma update_row_eq:
  assumes "\<bar>dy\<bar> \<le> 11"
  shows "update_row queryAdd m myPos dy c r k =
    (if r = nat (11 + dy) \<and> k < 23 then enterable queryAdd (tile_at m (offset_pos myPos (int k - 11, dy))) else c r k)"
proof -
  have "update_row queryAdd m myPos dy c =
      fold (\<lambda>i. set_cell (nat (11 + dy)) i (enterable queryAdd (tile_at m (offset_pos myPos (int i - 11, dy))))) [0..<23] c"
    unfolding update_row_def walk_consts offsets_11 fold_map
    by (rule fold_cong) (use assms in \<open>auto simp: updateTileCache_def walk_consts abs_le_iff fun_eq_iff\<close>)
  moreover have "fold (\<lambda>i. set_cell R i (v i)) [0..<n] c r k = (if r = R \<and> k < n then v k else c r k)" for R v n
    by (induction n arbitrary: r k) (auto simp: set_cell_def less_Suc_eq)
  ultimately show ?thesis by simp
qed

lemma update_column_eq:
  assumes "\<bar>dx\<bar> \<le> 11"
  shows "update_column queryAdd m myPos dx c r k =
    (if k = nat (11 + dx) \<and> r < 23 then enterable queryAdd (tile_at m (offset_pos myPos (dx, int r - 11))) else c r k)"
proof -
  have "update_column queryAdd m myPos dx c =
      fold (\<lambda>i. set_cell i (nat (11 + dx)) (enterable queryAdd (tile_at m (offset_pos myPos (dx, int i - 11))))) [0..<23] c"
    unfolding update_column_def walk_consts offsets_11 fold_map
    by (rule fold_cong) (use assms in \<open>auto simp: updateTileCache_def walk_consts abs_le_iff fun_eq_iff\<close>)
  moreover have "fold (\<lambda>i. set_cell i K (v i)) [0..<n] c r k = (if k = K \<and> r < n then v r else c r k)" for K v n
    by (induction n arbitrary: r k) (auto simp: set_cell_def less_Suc_eq)
  ultimately show ?thesis by simp
qed

section \<open>The cache follows the creature\<close>

text \<open>
  The position a cell stands for, and a row of cells that are right about the positions
  outside of a set: the tiles the creature left and entered change during the move.
\<close>

definition cell_pos :: "position \<Rightarrow> nat \<Rightarrow> nat \<Rightarrow> position" where
  "cell_pos p r k = offset_pos p (int k - 11, int r - 11)"

definition row_exact :: "position set \<Rightarrow> (position \<Rightarrow> bool) \<Rightarrow> position \<Rightarrow> walk_cache \<Rightarrow> nat \<Rightarrow> bool" where
  "row_exact E look p c r \<longleftrightarrow> (\<forall>k < 23. cell_pos p r k \<notin> E \<longrightarrow> c r k = look (cell_pos p r k))"

definition cache_exact :: "position set \<Rightarrow> (position \<Rightarrow> bool) \<Rightarrow> position \<Rightarrow> walk_cache \<Rightarrow> bool" where
  "cache_exact E look p c \<longleftrightarrow> (\<forall>r < 23. row_exact E look p c r)"

lemma cell_pos_shift:
  "cell_pos (p\<lparr>py := py p - 1\<rparr>) (Suc r) k = cell_pos p r k"
  "cell_pos (p\<lparr>py := py p + 1\<rparr>) r k = cell_pos p (Suc r) k"
  "cell_pos (p\<lparr>px := px p + 1\<rparr>) r k = cell_pos p r (Suc k)"
  "cell_pos (p\<lparr>px := px p - 1\<rparr>) r (Suc k) = cell_pos p r k"
  by (simp_all add: cell_pos_def offset_pos_def algebra_simps)

lemma row_exact_y:
  "row_exact E look p c r \<Longrightarrow> r < 22 \<Longrightarrow> row_exact E look (p\<lparr>py := py p - 1\<rparr>) (shift_y_south c) (Suc r)"
  "row_exact E look p c (Suc r) \<Longrightarrow> r < 22 \<Longrightarrow> row_exact E look (p\<lparr>py := py p + 1\<rparr>) (shift_y_north c) r"
  by (simp_all add: row_exact_def shift_y_rows cell_pos_shift)

lemma row_exact_update_row:
  "\<bar>dy\<bar> \<le> 11 \<Longrightarrow> row_exact E (\<lambda>p. enterable queryAdd (tile_at m p)) p (update_row queryAdd m p dy c) (nat (11 + dy))"
  "\<bar>dy\<bar> \<le> 11 \<Longrightarrow> r \<noteq> nat (11 + dy) \<Longrightarrow>
   row_exact E look p' (update_row queryAdd m p dy c) r = row_exact E look p' c r"
  by (auto simp: row_exact_def update_row_eq cell_pos_def abs_le_iff)

lemma row_exact_west_shift:
  assumes "r < 23" "a \<le> r" "r \<le> e" "row_exact E (\<lambda>p. enterable queryAdd (tile_at m p)) p c r"
  shows "row_exact E (\<lambda>p. enterable queryAdd (tile_at m p)) (p\<lparr>px := px p + 1\<rparr>)
    (update_column queryAdd m (p\<lparr>px := px p + 1\<rparr>) 11 (shift_x_west a e c)) r"
  unfolding row_exact_def
proof (intro allI impI)
  fix k :: nat assume k: "k < 23" "cell_pos (p\<lparr>px := px p + 1\<rparr>) r k \<notin> E"
  show "update_column queryAdd m (p\<lparr>px := px p + 1\<rparr>) 11 (shift_x_west a e c) r k =
      enterable queryAdd (tile_at m (cell_pos (p\<lparr>px := px p + 1\<rparr>) r k))"
  proof (cases "k = 22")
    case True
    then show ?thesis using assms(1) by (simp add: update_column_eq cell_pos_def)
  next
    case False
    then show ?thesis
      using assms k by (simp add: update_column_eq shift_x_rows cell_pos_shift row_exact_def)
  qed
qed

lemma row_exact_east_shift:
  assumes "r < 23" "a \<le> r" "r \<le> e" "row_exact E (\<lambda>p. enterable queryAdd (tile_at m p)) p c r"
  shows "row_exact E (\<lambda>p. enterable queryAdd (tile_at m p)) (p\<lparr>px := px p - 1\<rparr>)
    (update_column queryAdd m (p\<lparr>px := px p - 1\<rparr>) (- 11) (shift_x_east a e c)) r"
  unfolding row_exact_def
proof (intro allI impI)
  fix k :: nat assume k: "k < 23" "cell_pos (p\<lparr>px := px p - 1\<rparr>) r k \<notin> E"
  show "update_column queryAdd m (p\<lparr>px := px p - 1\<rparr>) (- 11) (shift_x_east a e c) r k =
      enterable queryAdd (tile_at m (cell_pos (p\<lparr>px := px p - 1\<rparr>) r k))"
  proof (cases k)
    case 0
    then show ?thesis using assms(1) by (simp add: update_column_eq cell_pos_def)
  next
    case (Suc j)
    then show ?thesis
      using assms k by (simp add: update_column_eq shift_x_rows cell_pos_shift row_exact_def)
  qed
qed

lemma row_exact_column_only:
  assumes "r < 23" "\<not> (a \<le> r \<and> r \<le> e)" "row_exact E (\<lambda>p. enterable queryAdd (tile_at m p)) p c r" "\<bar>dx\<bar> \<le> 11"
  shows "row_exact E (\<lambda>p. enterable queryAdd (tile_at m p)) p (update_column queryAdd m p dx (shift_x_west a e c)) r"
    "row_exact E (\<lambda>p. enterable queryAdd (tile_at m p)) p (update_column queryAdd m p dx (shift_x_east a e c)) r"
  using assms by (auto simp: row_exact_def update_column_eq shift_x_rows cell_pos_def)

text \<open>A window that does not reach over the border of the coordinate space.\<close>

definition window_inside :: "position \<Rightarrow> bool" where
  "window_inside p \<longleftrightarrow> 11 \<le> getX p \<and> getX p \<le> 65524 \<and> 11 \<le> getY p \<and> getY p \<le> 65524"

lemma window_inner: "window_inside p \<Longrightarrow> inner p"
  by (simp add: window_inside_def inner_def)

lemma uint_plus_of_int:
  "0 \<le> uint (w :: u16) + k \<Longrightarrow> uint w + k < 65536 \<Longrightarrow> uint (w + of_int k) = uint w + k"
  by (simp add: uint_word_ariths uint_word_of_int mod_add_right_eq mod_pos_pos_trivial)

lemma cell_pos_coords:
  assumes "window_inside p" "r < 23" "k < 23"
  shows "getX (cell_pos p r k) = getX p + int k - 11" "getY (cell_pos p r k) = getY p + int r - 11"
    "pz (cell_pos p r k) = pz p"
  using assms uint_plus_of_int [of "px p" "int k - 11"] uint_plus_of_int [of "py p" "int r - 11"]
  by (simp_all add: cell_pos_def offset_pos_def window_inside_def getX_def getY_def)

lemma position_eq_coords: "p = q \<longleftrightarrow> getX p = getX q \<and> getY p = getY q \<and> pz p = pz q"
  by (auto simp: getX_def getY_def word_uint_eq_iff intro: position_eqI)

text \<open>Updating one tile makes its cell right and leaves the others alone.\<close>

lemma cache_exact_update:
  assumes w: "window_inside p" and e: "cache_exact E (\<lambda>p. enterable queryAdd (tile_at m p)) p c"
  shows "cache_exact (E - {q}) (\<lambda>p. enterable queryAdd (tile_at m p)) p (updateTileCacheAt queryAdd p (tile_at m q) q c)"
  unfolding cache_exact_def row_exact_def
proof (intro allI impI)
  fix r k :: nat assume rk: "r < 23" "k < 23" and ne: "cell_pos p r k \<notin> E - {q}"
  note cp = cell_pos_coords [OF w rk]
  show "updateTileCacheAt queryAdd p (tile_at m q) q c r k = enterable queryAdd (tile_at m (cell_pos p r k))"
  proof (cases "cell_pos p r k = q")
    case True
    then have "pz q = pz p" "getOffsetX q p = int k - 11" "getOffsetY q p = int r - 11"
      using cp by (auto simp: getOffsetX_def getOffsetY_def)
    then show ?thesis
      using rk True by (auto simp: updateTileCacheAt_def updateTileCache_def walk_consts set_cell_def abs_le_iff)
  next
    case False
    then have "c r k = enterable queryAdd (tile_at m (cell_pos p r k))"
      using e rk ne by (auto simp: cache_exact_def row_exact_def)
    moreover have "updateTileCacheAt queryAdd p (tile_at m q) q c r k = c r k"
    proof (rule ccontr)
      assume "updateTileCacheAt queryAdd p (tile_at m q) q c r k \<noteq> c r k"
      then have "pz q = pz p" "\<bar>getOffsetX q p\<bar> \<le> 11" "\<bar>getOffsetY q p\<bar> \<le> 11"
        "r = nat (11 + getOffsetY q p)" "k = nat (11 + getOffsetX q p)"
        by (auto simp: updateTileCacheAt_def updateTileCache_def walk_consts set_cell_def split: if_splits)
      then have "getX q = getX p + int k - 11" "getY q = getY p + int r - 11" "pz q = pz p"
        by (auto simp: getOffsetX_def getOffsetY_def abs_le_iff)
      then have "cell_pos p r k = q" using cp by (simp add: position_eq_coords)
      with False show False by simp
    qed
    ultimately show ?thesis by simp
  qed
qed

text \<open>What the creature reads from an exact cache.\<close>

lemma getWalkCache_exact:
  assumes w: "window_inside p" and e: "cache_exact E look p c"
    and q: "pz q = pz p" "q \<noteq> p" "\<bar>getOffsetX q p\<bar> \<le> 11" "\<bar>getOffsetY q p\<bar> \<le> 11" "q \<notin> E"
  shows "getWalkCache True c p q = (if look q then 1 else 0)"
proof -
  let ?r = "nat (11 + getOffsetY q p)" and ?k = "nat (11 + getOffsetX q p)"
  have rk: "?r < 23" "?k < 23" using q(3,4) by (auto simp: abs_le_iff)
  have "cell_pos p ?r ?k = q"
    unfolding position_eq_coords cell_pos_coords [OF w rk]
    using q by (auto simp: getOffsetX_def getOffsetY_def abs_le_iff)
  then have "c ?r ?k = look q" using e rk q(5) by (auto simp: cache_exact_def row_exact_def)
  then show ?thesis using q by (simp add: getWalkCache_def walk_consts)
qed

lemma word_step:
  "0 < uint (w :: u16) \<Longrightarrow> w - 1 < w \<and> \<not> w < w - 1" "uint (w :: u16) < 65535 \<Longrightarrow> w < w + 1 \<and> \<not> w + 1 < w"
  by (auto simp: word_less_def uint_minus_1 uint_plus_1)

text \<open>
  Before the old tile is looked at again, all six straight and northward steps have made every
  row exact.
\<close>

definition straight :: "direction set" where
  "straight = {North, East, South, West, NorthEast, NorthWest}"

lemma all_rows_north: "(\<And>r. r < 22 \<Longrightarrow> P (Suc r)) \<Longrightarrow> P 0 \<Longrightarrow> r < 23 \<Longrightarrow> P r" for r :: nat
  by (cases r) auto

lemma all_rows_south: "(\<And>r. r < 22 \<Longrightarrow> P r) \<Longrightarrow> P 22 \<Longrightarrow> r < 23 \<Longrightarrow> P r" for r :: nat
  by (cases "r = 22") auto

lemma inner_steps:
  assumes "inner p"
  shows "py p - 1 < py p" "\<not> py p < py p - 1" "py p < py p + 1" "\<not> py p + 1 < py p"
    "px p - 1 < px p" "\<not> px p < px p - 1" "px p < px p + 1" "\<not> px p + 1 < px p"
    "uint (py p - 1) = uint (py p) - 1" "uint (py p + 1) = uint (py p) + 1"
  using assms word_step [of "py p"] word_step [of "px p"] uint_minus_1 [of "py p"] uint_plus_1 [of "py p"]
  by (auto simp: inner_def getX_def getY_def)

lemma shift_rows_eq:
  assumes "inner p"
  shows "shift_rows p (p\<lparr>px := x, py := py p - 1\<rparr>) = (1, 22)" "shift_rows p (p\<lparr>px := x, py := py p + 1\<rparr>) = (1, 22)"
    "shift_rows p (p\<lparr>px := x\<rparr>) = (0, 22)"
  using inner_steps(9,10) [OF assms]
  by (simp_all add: shift_rows_def Let_def distance_defs walk_consts)

text \<open>The moves, direction by direction, before the old tile is looked at again.\<close>

definition before_update :: "(nat \<Rightarrow> bool) \<Rightarrow> map_state \<Rightarrow> direction \<Rightarrow> position \<Rightarrow> walk_cache \<Rightarrow> walk_cache" where
  "before_update queryAdd m d p c =
     (let p' = getNextPosition d p;
          c = (if d \<in> {North, NorthEast, NorthWest} then update_row queryAdd m p' (- 11) (shift_y_south c)
               else if d \<in> {South, SouthEast, SouthWest} then update_row queryAdd m p' 11 (shift_y_north c)
               else c);
          a = (if d \<in> {East, West} then 0 else 1)
      in if d \<in> {East, NorthEast, SouthEast} then update_column queryAdd m p' 11 (shift_x_west a 22 c)
         else if d \<in> {West, NorthWest, SouthWest} then update_column queryAdd m p' (- 11) (shift_x_east a 22 c)
         else c)"

lemma move_cache_step:
  assumes "inner p" "d \<noteq> NoDirection"
  shows "move_cache queryAdd m False p (getNextPosition d p) (getNextPosition d p) c =
    updateTileCacheAt queryAdd (getNextPosition d p) (tile_at m p) p (before_update queryAdd m d p c)"
proof -
  note st = inner_steps [OF assms(1)]
  note sr = shift_rows_eq [OF assms(1)]
  show ?thesis
    using assms(2)
    by (cases d) (simp_all add: move_cache_def before_update_def Let_def st sr walk_consts)
qed

lemma swap_xy: "p\<lparr>py := a, px := b\<rparr> = (p :: position)\<lparr>px := b, py := a\<rparr>"
  by (rule position_eqI) simp_all

lemma before_update_exact:
  assumes d: "d \<in> straight" and e: "cache_exact E (\<lambda>p. enterable queryAdd (tile_at m p)) p c"
  shows "cache_exact E (\<lambda>p. enterable queryAdd (tile_at m p)) (getNextPosition d p) (before_update queryAdd m d p c)"
proof -
  let ?look = "\<lambda>p. enterable queryAdd (tile_at m p)"
  have r: "row_exact E ?look p c r" if h: "r < 23" for r using e h by (simp add: cache_exact_def)
  note ry = row_exact_update_row
  have north: "row_exact E ?look (p\<lparr>py := py p - 1\<rparr>) (update_row queryAdd m q (- 11) (shift_y_south c)) (Suc k)"
    if h: "k < 22" for q k
    using row_exact_y(1) [of E ?look p c k] r h ry(2) [of "- 11" "Suc k"] by simp
  have south: "row_exact E ?look (p\<lparr>py := py p + 1\<rparr>) (update_row queryAdd m q 11 (shift_y_north c)) k"
    if h: "k < 22" for q k
    using row_exact_y(2) [of E ?look p c k] r [of "Suc k"] h ry(2) [of 11 k] by simp
  have row0: "row_exact E ?look q (update_row queryAdd m q (- 11) (shift_y_south c)) 0"
    and row22: "row_exact E ?look q (update_row queryAdd m q 11 (shift_y_north c)) 22" for q
    using ry(1) [of "- 11" E queryAdd m q] ry(1) [of 11 E queryAdd m q] by simp_all
  show ?thesis
    unfolding cache_exact_def
  proof (intro allI impI)
    fix k :: nat assume k: "k < 23"
    let ?goal = "row_exact E ?look (getNextPosition d p) (before_update queryAdd m d p c)"
    from d consider "d = North" | "d = South" | "d = East" | "d = West" | "d = NorthEast" | "d = NorthWest"
      by (auto simp: straight_def)
    then show "?goal k"
    proof cases
      case 1
      show ?thesis
      proof (rule all_rows_north [OF _ _ k])
        fix j :: nat assume j: "j < 22"
        show "?goal (Suc j)" using north [OF j] unfolding 1 by (simp add: before_update_def)
      next
        show "?goal 0" using row0 unfolding 1 by (simp add: before_update_def)
      qed
    next
      case 2
      show ?thesis
      proof (rule all_rows_south [OF _ _ k])
        fix j :: nat assume j: "j < 22"
        show "?goal j" using south [OF j] unfolding 2 by (simp add: before_update_def)
      next
        show "?goal 22" using row22 unfolding 2 by (simp add: before_update_def)
      qed
    next
      case 3
      show ?thesis using row_exact_west_shift [OF k _ _ r [OF k], of 0 22] k unfolding 3 by (simp add: before_update_def)
    next
      case 4
      show ?thesis using row_exact_east_shift [OF k _ _ r [OF k], of 0 22] k unfolding 4 by (simp add: before_update_def)
    next
      case 5
      let ?q = "p\<lparr>px := px p + 1, py := py p - 1\<rparr>"
      show ?thesis
      proof (rule all_rows_north [OF _ _ k])
        fix j :: nat assume j: "j < 22"
        show "?goal (Suc j)"
          using row_exact_west_shift [OF _ _ _ north [OF j, of ?q], of 1 22] j unfolding 5 by (simp add: before_update_def Let_def swap_xy)
      next
        show "?goal 0"
          using row_exact_column_only(1) [OF _ _ row0 [of ?q], of 1 22 11] unfolding 5 by (simp add: before_update_def Let_def swap_xy)
      qed
    next
      case 6
      let ?q = "p\<lparr>px := px p - 1, py := py p - 1\<rparr>"
      show ?thesis
      proof (rule all_rows_north [OF _ _ k])
        fix j :: nat assume j: "j < 22"
        show "?goal (Suc j)"
          using row_exact_east_shift [OF _ _ _ north [OF j, of ?q], of 1 22] j unfolding 6 by (simp add: before_update_def Let_def swap_xy)
      next
        show "?goal 0"
          using row_exact_column_only(2) [OF _ _ row0 [of ?q], of 1 22 "- 11"] unfolding 6 by (simp add: before_update_def Let_def swap_xy)
      qed
    qed
  qed
qed

lemma next_position_z: "pz (getNextPosition d p) = pz p"
  by (cases d) simp_all

text \<open>
  C34. The walk cache follows its creature: if it was right about every tile around the old
  position, it is right about every tile around the new one after a step in a straight
  direction or to the north-east or north-west, and \<open>getWalkCache\<close> answers 1 exactly for the
  tiles that can be entered. Only the tiles that the creature left and entered may have
  changed with the step, and both positions are far enough from the border of the map for the whole
  cache to lie on it.
\<close>

theorem walk_cache_follows:
  assumes d: "d \<in> straight" and w: "window_inside p" "window_inside (getNextPosition d p)"
    and exact: "cache_exact {p, getNextPosition d p} look p c"
    and same: "\<forall>q. q \<noteq> p \<and> q \<noteq> getNextPosition d p \<longrightarrow> look q = enterable queryAdd (tile_at m q)"
    and q: "pz q = pz p" "q \<noteq> getNextPosition d p"
      "getDistanceX q (getNextPosition d p) \<le> 11" "getDistanceY q (getNextPosition d p) \<le> 11"
  shows "getWalkCache True (move_cache queryAdd m False p (getNextPosition d p) (getNextPosition d p) c) (getNextPosition d p) q =
    (if enterable queryAdd (tile_at m q) then 1 else 0)"
proof -
  let ?p' = "getNextPosition d p"
  have e: "cache_exact {p, ?p'} (\<lambda>q. enterable queryAdd (tile_at m q)) p c"
    using exact same by (auto simp: cache_exact_def row_exact_def)
  have dn: "d \<noteq> NoDirection" using d by (auto simp: straight_def)
  have "cache_exact ({p, ?p'} - {p}) (\<lambda>q. enterable queryAdd (tile_at m q)) ?p'
      (move_cache queryAdd m False p ?p' ?p' c)"
    unfolding move_cache_step [OF window_inner [OF w(1)] dn]
    by (rule cache_exact_update [OF w(2) before_update_exact [OF d e]])
  from getWalkCache_exact [OF w(2) this] q show ?thesis
    by (simp add: next_position_z getDistanceX_def getDistanceY_def)
qed

theorem walk_cache_follows_witness:
  "getWalkCache True (move_cache (\<lambda>_. True) empty_map False \<lparr>px = 1000, py = 1000, pz = 7\<rparr>
      \<lparr>px = 1000, py = 999, pz = 7\<rparr> \<lparr>px = 1000, py = 999, pz = 7\<rparr> (\<lambda>_ _. False))
     \<lparr>px = 1000, py = 999, pz = 7\<rparr> \<lparr>px = 995, py = 990, pz = 7\<rparr> = 0"
proof -
  have n: "getNextPosition North \<lparr>px = 1000, py = 1000, pz = 7\<rparr> = \<lparr>px = 1000, py = 999, pz = 7\<rparr>" by simp
  have none: "enterable (\<lambda>_. True) (tile_at empty_map q) = False" for q
    by (simp add: enterable_def tile_at_def getTile_def leaf_of_def empty_map_def)
  show ?thesis
    using walk_cache_follows [of North "\<lparr>px = 1000, py = 1000, pz = 7\<rparr>" "\<lambda>_. False" "\<lambda>_ _. False" "\<lambda>_. True" empty_map
        "\<lparr>px = 995, py = 990, pz = 7\<rparr>"]
    unfolding n none
    by (simp add: straight_def window_inside_def distance_defs cache_exact_def row_exact_def)
qed

text \<open>
  The rows that a step to the south-east or south-west spoils: the northern row is not
  shifted and the southern one, already right, is.
\<close>

lemma south_east_rows:
  assumes e: "cache_exact E (\<lambda>q. enterable queryAdd (tile_at m q)) p c" and k: "k < 22"
  shows "cell_pos p 1 k \<notin> E \<Longrightarrow> before_update queryAdd m SouthEast p c 0 k =
      enterable queryAdd (tile_at m (cell_pos p 1 k))"
    and "before_update queryAdd m SouthEast p c 22 k =
      enterable queryAdd (tile_at m (cell_pos (getNextPosition SouthEast p) 22 (Suc k)))"
proof -
  have "row_exact E (\<lambda>q. enterable queryAdd (tile_at m q)) p c 1" using e by (simp add: cache_exact_def)
  then show "cell_pos p 1 k \<notin> E \<Longrightarrow> before_update queryAdd m SouthEast p c 0 k =
      enterable queryAdd (tile_at m (cell_pos p 1 k))"
    using k by (simp add: before_update_def Let_def update_column_eq shift_x_rows update_row_eq shift_y_rows row_exact_def)
  show "before_update queryAdd m SouthEast p c 22 k =
      enterable queryAdd (tile_at m (cell_pos (getNextPosition SouthEast p) 22 (Suc k)))"
    using k by (simp add: before_update_def Let_def update_column_eq shift_x_rows update_row_eq cell_pos_def)
qed

lemma getWalkCache_cell:
  assumes w: "window_inside p" and rk: "r < 23" "k < 23" "r \<noteq> 11"
  shows "getWalkCache True c p (cell_pos p r k) = (if c r k then 1 else 0)"
proof -
  note cp = cell_pos_coords [OF w rk(1,2)]
  have o: "getOffsetX (cell_pos p r k) p = int k - 11" "getOffsetY (cell_pos p r k) p = int r - 11"
    by (simp_all add: getOffsetX_def getOffsetY_def cp)
  have "cell_pos p r k \<noteq> p" using cp(2) rk(3) by auto
  then show ?thesis using rk by (auto simp: getWalkCache_def o walk_consts cp(3) abs_le_iff)
qed

lemma move_cache_row:
  assumes w: "window_inside p" "window_inside (getNextPosition SouthEast p)" and r: "r \<noteq> 10"
  shows "move_cache queryAdd m False p (getNextPosition SouthEast p) (getNextPosition SouthEast p) c r k =
    before_update queryAdd m SouthEast p c r k"
proof -
  have "getOffsetY p (getNextPosition SouthEast p) = -1"
    using inner_steps(10) [OF window_inner [OF w(1)]] by (simp add: getOffsetY_def getY_def)
  moreover have "move_cache queryAdd m False p (getNextPosition SouthEast p) (getNextPosition SouthEast p) c =
      updateTileCacheAt queryAdd (getNextPosition SouthEast p) (tile_at m p) p (before_update queryAdd m SouthEast p c)"
    by (rule move_cache_step [OF window_inner [OF w(1)]]) simp
  ultimately show ?thesis
    using r by (simp add: updateTileCacheAt_def updateTileCache_def walk_consts set_cell_def del: getNextPosition.simps)
qed

text \<open>
  A step to the south-east spoils the walk cache. Starting from a cache that is right,
  the creature afterwards reads, for the tiles of the northern row around its new position,
  the answer of the tile one further west, and for those of the southern row that of the
  tile one further east: the rows to shift are chosen by a distance, which is never
  negative, where the sign of the step decides which row is already right.
\<close>

theorem south_east_step_spoils_cache:
  assumes w: "window_inside p" "window_inside (getNextPosition SouthEast p)"
    and e: "cache_exact {p, getNextPosition SouthEast p} (\<lambda>q. enterable queryAdd (tile_at m q)) p c"
    and k: "k < 22"
  shows "let p' = getNextPosition SouthEast p; c' = move_cache queryAdd m False p p' p' c;
      north = cell_pos p' 0 k; south = cell_pos p' 22 k
    in getWalkCache True c' p' north = (if enterable queryAdd (tile_at m (offset_pos north (-1, 0))) then 1 else 0) \<and>
       getWalkCache True c' p' south = (if enterable queryAdd (tile_at m (offset_pos south (1, 0))) then 1 else 0)"
proof -
  let ?p' = "getNextPosition SouthEast p"
  have nb: "offset_pos (cell_pos ?p' 0 k) (-1, 0) = cell_pos p 1 k"
    "offset_pos (cell_pos ?p' 22 k) (1, 0) = cell_pos ?p' 22 (Suc k)"
    by (simp_all add: cell_pos_def offset_pos_def algebra_simps)
  have cp: "getY (cell_pos p 1 k) = getY p - 10" using cell_pos_coords(2) [OF w(1), of 1 k] k by simp
  have "getY ?p' = getY p + 1" using inner_steps(10) [OF window_inner [OF w(1)]] by (simp add: getY_def)
  then have "cell_pos p 1 k \<notin> {p, ?p'}" using cp by auto
  from south_east_rows(1) [OF e k this] south_east_rows(2) [OF e k]
  have "move_cache queryAdd m False p ?p' ?p' c 0 k = enterable queryAdd (tile_at m (cell_pos p 1 k))"
    "move_cache queryAdd m False p ?p' ?p' c 22 k = enterable queryAdd (tile_at m (cell_pos ?p' 22 (Suc k)))"
    using move_cache_row [OF w] by simp_all
  moreover have "getWalkCache True c' ?p' (cell_pos ?p' 0 k) = (if c' 0 k then 1 else 0)"
    "getWalkCache True c' ?p' (cell_pos ?p' 22 k) = (if c' 22 k then 1 else 0)" for c'
    using k by (simp_all add: getWalkCache_cell [OF w(2)] del: getNextPosition.simps)
  ultimately show ?thesis by (simp only: Let_def nb)
qed

theorem south_east_step_spoils_cache_witness:
  "\<exists>m c. let p = \<lparr>px = 1000, py = 1000, pz = 7\<rparr>; p' = \<lparr>px = 1001, py = 1001, pz = 7\<rparr>;
       tile = \<lparr>px = 1001, py = 990, pz = 7\<rparr>
     in enterable (\<lambda>_. True) (tile_at m tile) \<and>
        getWalkCache True (move_cache (\<lambda>_. True) m False p p' p' c) p' tile = 0"
proof -
  define p :: position where "p = \<lparr>px = 1000, py = 1000, pz = 7\<rparr>"
  define p' :: position where "p' = \<lparr>px = 1001, py = 1001, pz = 7\<rparr>"
  define t :: position where "t = \<lparr>px = 1001, py = 990, pz = 7\<rparr>"
  have "unat (pz t) < MAP_MAX_LAYERS" by (simp add: t_def MAP_MAX_LAYERS_def)
  then obtain m where tile: "\<And>q. tile_at m q = (if q = t then Some 1 else None)"
    using one_tile_map by blast
  define c where "c r k = enterable (\<lambda>_. True) (tile_at m (cell_pos p r k))" for r k
  have w: "window_inside p" "window_inside (getNextPosition SouthEast p)"
    by (simp_all add: p_def window_inside_def getX_def getY_def)
  have "cache_exact {p, getNextPosition SouthEast p} (\<lambda>q. enterable (\<lambda>_. True) (tile_at m q)) p c"
    by (simp add: cache_exact_def row_exact_def c_def)
  note wrong = south_east_step_spoils_cache [OF w this, of 11, unfolded Let_def]
  have p': "getNextPosition SouthEast p = p'" by (simp add: p_def p'_def)
  have "cell_pos p' 0 11 = t" "offset_pos t (-1, 0) \<noteq> t" by (simp_all add: cell_pos_def offset_pos_def p'_def t_def)
  then have "getWalkCache True (move_cache (\<lambda>_. True) m False p p' p' c) p' t = 0"
    using wrong unfolding p' by (simp add: tile enterable_def)
  moreover have "enterable (\<lambda>_. True) (tile_at m t)" by (simp add: tile enterable_def)
  ultimately show ?thesis unfolding Let_def p_def p'_def t_def by blast
qed

end
