(* ===== verification/Pathing.thy ===== *)
theory Pathing imports Walk begin

text \<open>
  \<open>Creature::getPathTo\<close> (creature.cpp, map.cpp): the end condition of a path search, the walk
  tests and costs of tiles, and the search over them. It joins the map, the walk cache, the
  lines of sight and the node pool.
\<close>

section \<open>The parts of the search\<close>

record find_path_params =
  fpp_fullPathSearch :: bool
  fpp_clearSight :: bool
  fpp_allowDiagonal :: bool
  fpp_keepDistance :: bool
  fpp_maxSearchDist :: int
  fpp_minTargetDist :: int
  fpp_maxTargetDist :: int

text \<open>\<open>FrozenPathingConditionCall::isInRange\<close>, test by test.\<close>

definition isInRange :: "position \<Rightarrow> find_path_params \<Rightarrow> position \<Rightarrow> position \<Rightarrow> bool" where
  "isInRange targetPos fpp startPos testPos =
     (if fpp_fullPathSearch fpp then
        (if getX testPos > getX targetPos + fpp_maxTargetDist fpp then False
         else if getX testPos < getX targetPos - fpp_maxTargetDist fpp then False
         else if getY testPos > getY targetPos + fpp_maxTargetDist fpp then False
         else if getY testPos < getY targetPos - fpp_maxTargetDist fpp then False
         else True)
      else
        (let dx = getOffsetX startPos targetPos;
             dxMax = (if dx \<ge> 0 then fpp_maxTargetDist fpp else 0);
             dxMin = (if dx \<le> 0 then fpp_maxTargetDist fpp else 0);
             dy = getOffsetY startPos targetPos;
             dyMax = (if dy \<ge> 0 then fpp_maxTargetDist fpp else 0);
             dyMin = (if dy \<le> 0 then fpp_maxTargetDist fpp else 0)
         in if getX testPos > getX targetPos + dxMax then False
            else if getX testPos < getX targetPos - dxMin then False
            else if getY testPos > getY targetPos + dyMax then False
            else if getY testPos < getY targetPos - dyMin then False
            else True))"

text \<open>
  \<open>FrozenPathingConditionCall::operator()\<close>: the answer and the new best match; \<open>sight\<close> is
  \<open>isSightClear(testPos, targetPos, true)\<close>.
\<close>

definition path_condition ::
  "(position \<Rightarrow> position \<Rightarrow> bool option) \<Rightarrow> position \<Rightarrow> find_path_params \<Rightarrow> position \<Rightarrow> position \<Rightarrow> int \<Rightarrow> (bool \<times> int) option" where
  "path_condition sight targetPos fpp startPos testPos bestMatchDist =
     (if \<not> isInRange targetPos fpp startPos testPos then Some (False, bestMatchDist)
      else
        (case (if fpp_clearSight fpp then sight testPos targetPos else Some True) of
           None \<Rightarrow> None
         | Some False \<Rightarrow> Some (False, bestMatchDist)
         | Some True \<Rightarrow>
            (let testDist = max (getDistanceX targetPos testPos) (getDistanceY targetPos testPos)
             in if fpp_maxTargetDist fpp = 1 then
                  (if testDist < fpp_minTargetDist fpp \<or> testDist > fpp_maxTargetDist fpp
                   then Some (False, bestMatchDist) else Some (True, bestMatchDist))
                else if testDist \<le> fpp_maxTargetDist fpp then
                  (if testDist < fpp_minTargetDist fpp then Some (False, bestMatchDist)
                   else if testDist = fpp_maxTargetDist fpp then Some (True, 0)
                   else if testDist > bestMatchDist then Some (True, testDist)
                   else Some (False, bestMatchDist))
                else Some (False, bestMatchDist))))"

text \<open>\<open>Map::canWalkTo\<close>.\<close>

definition canWalkTo ::
  "map_state \<Rightarrow> (nat \<Rightarrow> bool) \<Rightarrow> bool \<Rightarrow> walk_cache \<Rightarrow> position \<Rightarrow> nat option \<Rightarrow> position \<Rightarrow> nat option" where
  "canWalkTo m queryAdd useCacheMap c myPos creatureTile pos =
     (let walkCache = getWalkCache useCacheMap c myPos pos
      in if walkCache = 0 then None
         else if walkCache = 1 then tile_at m pos
         else
           (let tile = tile_at m pos
            in if creatureTile \<noteq> tile then
                 (case tile of None \<Rightarrow> None | Some t \<Rightarrow> if \<not> queryAdd t then None else tile)
               else tile))"

text \<open>\<open>AStarNodes::getTileWalkCost\<close>, with what the tile shows to the creature.\<close>

definition getTileWalkCost ::
  "(nat \<Rightarrow> bool) \<Rightarrow> (nat \<Rightarrow> 'combat option) \<Rightarrow> ('combat \<Rightarrow> bool) \<Rightarrow> ('combat \<Rightarrow> bool) \<Rightarrow> nat \<Rightarrow> int" where
  "getTileWalkCost topVisibleCreature fieldItem isImmune hasCondition tile =
     (let cost = 0;
          cost = (if topVisibleCreature tile then cost + MAP_NORMALWALKCOST * 3 else cost)
      in case fieldItem tile of
           None \<Rightarrow> cost
         | Some combatType \<Rightarrow>
             if \<not> isImmune combatType \<and> \<not> hasCondition combatType then cost + MAP_NORMALWALKCOST * 18 else cost)"

text \<open>What a creature is for the search.\<close>

record 'combat walker =
  wk_position :: position
  wk_useCacheMap :: bool
  wk_cache :: walk_cache
  wk_queryAdd :: "nat \<Rightarrow> bool"
  wk_topVisibleCreature :: "nat \<Rightarrow> bool"
  wk_fieldItem :: "nat \<Rightarrow> 'combat option"
  wk_isImmune :: "'combat \<Rightarrow> bool"
  wk_hasCondition :: "'combat \<Rightarrow> bool"

definition wk_tile :: "map_state \<Rightarrow> 'combat walker \<Rightarrow> nat option" where
  "wk_tile m w = tile_at m (wk_position w)"

definition path_env ::
  "map_state \<Rightarrow> (nat \<Rightarrow> bool) \<Rightarrow> (nat \<Rightarrow> nat) \<Rightarrow> 'combat walker \<Rightarrow> position \<Rightarrow> find_path_params \<Rightarrow> search_env" where
  "path_env m blocksProjectile thingCount w targetPos fpp =
     \<lparr>condition = path_condition (\<lambda>p q. isSightClear m blocksProjectile thingCount p q True) targetPos fpp (wk_position w),
      in_range = isInRange targetPos fpp (wk_position w),
      can_walk = canWalkTo m (wk_queryAdd w) (wk_useCacheMap w) (wk_cache w) (wk_position w) (wk_tile m w),
      tile_of = tile_at m,
      tile_cost = getTileWalkCost (wk_topVisibleCreature w) (wk_fieldItem w) (wk_isImmune w) (wk_hasCondition w),
      maxSearchDist = fpp_maxSearchDist fpp,
      keepDistance = fpp_keepDistance fpp,
      allowDiagonal = fpp_allowDiagonal fpp\<rparr>"

definition getPathTo ::
  "map_state \<Rightarrow> (nat \<Rightarrow> bool) \<Rightarrow> (nat \<Rightarrow> nat) \<Rightarrow> 'combat walker \<Rightarrow> position \<Rightarrow> direction list \<Rightarrow> find_path_params \<Rightarrow>
    (bool \<times> direction list) option" where
  "getPathTo m blocksProjectile thingCount w targetPos dirList fpp =
     getPathMatching (path_env m blocksProjectile thingCount w targetPos fpp) (wk_position w) dirList"

text \<open>The overload with the distances as arguments.\<close>

definition getPathTo_dist ::
  "map_state \<Rightarrow> (nat \<Rightarrow> bool) \<Rightarrow> (nat \<Rightarrow> nat) \<Rightarrow> 'combat walker \<Rightarrow> position \<Rightarrow> direction list \<Rightarrow>
    int \<Rightarrow> int \<Rightarrow> bool \<Rightarrow> bool \<Rightarrow> int \<Rightarrow> (bool \<times> direction list) option" where
  "getPathTo_dist m blocksProjectile thingCount w targetPos dirList minTargetDist maxTargetDist fullPathSearch clearSight maxDist =
     getPathTo m blocksProjectile thingCount w targetPos dirList
       \<lparr>fpp_fullPathSearch = fullPathSearch, fpp_clearSight = clearSight, fpp_allowDiagonal = True,
        fpp_keepDistance = False, fpp_maxSearchDist = maxDist,
        fpp_minTargetDist = minTargetDist, fpp_maxTargetDist = maxTargetDist\<rparr>"

section \<open>The search is right for creatures\<close>

lemma canWalkTo_tile: "canWalkTo m queryAdd useCache c p ct q = Some t \<Longrightarrow> tile_at m q = Some t"
  by (auto simp: canWalkTo_def Let_def split: if_splits option.splits)

lemma getTileWalkCost_nonneg: "0 \<le> getTileWalkCost topVisible field immune cond t"
  by (simp add: getTileWalkCost_def MAP_NORMALWALKCOST_def split: option.split)

lemma isInRange_near:
  "isInRange targetPos fpp startPos testPos \<Longrightarrow> fpp_maxTargetDist fpp \<le> 16383 \<Longrightarrow> near_enough testPos targetPos"
  by (auto simp: isInRange_def Let_def near_enough_def getDistanceX_def getDistanceY_def getOffsetX_def getOffsetY_def
      abs_le_iff split: if_splits)

lemma isSightClear_defined: "near_enough p q \<Longrightarrow> isSightClear m b t p q fc \<noteq> None"
proof -
  assume near: "near_enough p q"
  then have "near_enough q p" by (simp add: near_enough_def distance_sym)
  have "checkSightLine m b t a d \<noteq> None" if h: "near_enough a d" for a d
  proof (cases "a = d")
    case True
    then show ?thesis by (simp add: checkSightLine_def)
  next
    case False
    from sight_line_result [OF h False refl refl] show ?thesis by auto
  qed
  from this [OF near] this [OF \<open>near_enough q p\<close>] show ?thesis
    unfolding isSightClear_def by (auto split: option.split bool.split)
qed

text \<open>What an accepted position is.\<close>

lemma path_condition_True:
  "path_condition sight targetPos fpp startPos testPos b = Some (True, bm) \<Longrightarrow>
   isInRange targetPos fpp startPos testPos \<and> (fpp_clearSight fpp \<longrightarrow> sight testPos targetPos = Some True) \<and>
   fpp_minTargetDist fpp \<le> max (getDistanceX targetPos testPos) (getDistanceY targetPos testPos) \<and>
   max (getDistanceX targetPos testPos) (getDistanceY targetPos testPos) \<le> fpp_maxTargetDist fpp"
proof -
  define d where "d = max (getDistanceX targetPos testPos) (getDistanceY targetPos testPos)"
  assume "path_condition sight targetPos fpp startPos testPos b = Some (True, bm)"
  then show ?thesis
    unfolding path_condition_def Let_def d_def [symmetric]
    by (simp split: if_splits option.splits bool.splits)
qed

lemma path_condition_defined:
  "(isInRange targetPos fpp startPos testPos \<Longrightarrow> sight testPos targetPos \<noteq> None) \<Longrightarrow>
   path_condition sight targetPos fpp startPos testPos b \<noteq> None"
  unfolding path_condition_def Let_def
  by (auto split: option.split bool.split simp del: not_None_eq)

lemma env_ok_path_env:
  assumes "\<forall>q. tile_at m q \<noteq> None \<longrightarrow> inner q" and "tile_at m (wk_position w) \<noteq> None" and "fpp_maxTargetDist fpp \<le> 16383"
  shows "env_ok (path_env m blocksProjectile thingCount w targetPos fpp) (wk_position w)"
proof -
  let ?env = "path_env m blocksProjectile thingCount w targetPos fpp"
  have walk: "tile_of ?env p \<noteq> None" if h: "can_walk ?env p \<noteq> None" for p
    using h canWalkTo_tile by (fastforce simp: path_env_def)
  have "condition ?env p b \<noteq> None" for p b
    using path_condition_defined [of targetPos fpp "wk_position w" p] isSightClear_defined isInRange_near assms(3)
    by (simp add: path_env_def)
  moreover have "inner (wk_position w)" using assms(1,2) by blast
  moreover have "inner p" if h: "can_walk ?env p \<noteq> None" for p
    using walk [OF h] assms(1) by (simp add: path_env_def)
  moreover have "tile_of ?env (wk_position w) \<noteq> None" using assms(2) by (simp add: path_env_def)
  moreover have "0 \<le> tile_cost ?env t" for t by (simp add: path_env_def getTileWalkCost_nonneg)
  ultimately show ?thesis using walk unfolding env_ok_def by blast
qed

text \<open>
  C1. \<open>Creature::getPathTo\<close> always returns, for a target distance of at most 16383. If it
  returns true, the directions it puts in front of the list lead from the creature, over
  tiles that \<open>canWalkTo\<close> allows, to a position in range of the target, in clear sight of it
  when asked, and at a distance from it between the two bounds; if it returns false the list
  is untouched. The creature stands on a tile, and the map has no tile on the border of the
  coordinate space.
\<close>

theorem getPathTo_correct:
  assumes "\<forall>q. tile_at m q \<noteq> None \<longrightarrow> inner q" and "tile_at m (wk_position w) \<noteq> None"
    and "fpp_maxTargetDist fpp \<le> 16383"
  shows "getPathTo m blocksProjectile thingCount w targetPos dirList fpp = Some (False, dirList) \<or>
    (\<exists>path. getPathTo m blocksProjectile thingCount w targetPos dirList fpp = Some (True, path @ dirList) \<and>
       walk_ok (path_env m blocksProjectile thingCount w targetPos fpp) (wk_position w) path \<and>
       (let e = follow path (wk_position w); dist = max (getDistanceX targetPos e) (getDistanceY targetPos e)
        in isInRange targetPos fpp (wk_position w) e \<and>
           (fpp_clearSight fpp \<longrightarrow> isSightClear m blocksProjectile thingCount e targetPos True = Some True) \<and>
           fpp_minTargetDist fpp \<le> dist \<and> dist \<le> fpp_maxTargetDist fpp))"
proof -
  let ?env = "path_env m blocksProjectile thingCount w targetPos fpp"
  have acc: "isInRange targetPos fpp (wk_position w) e \<and>
      (fpp_clearSight fpp \<longrightarrow> isSightClear m blocksProjectile thingCount e targetPos True = Some True) \<and>
      fpp_minTargetDist fpp \<le> max (getDistanceX targetPos e) (getDistanceY targetPos e) \<and>
      max (getDistanceX targetPos e) (getDistanceY targetPos e) \<le> fpp_maxTargetDist fpp"
    if h: "accepted ?env e" for e
    using h path_condition_True unfolding accepted_def path_env_def by fastforce
  from path_search_result [OF env_ok_path_env [OF assms], of blocksProjectile thingCount targetPos dirList]
  show ?thesis
    unfolding getPathTo_def [symmetric] Let_def using acc by blast
qed

definition sample_walker :: "nat walker" where
  "sample_walker = \<lparr>wk_position = \<lparr>px = 100, py = 100, pz = 7\<rparr>, wk_useCacheMap = False, wk_cache = (\<lambda>_ _. False),
     wk_queryAdd = (\<lambda>_. True), wk_topVisibleCreature = (\<lambda>_. False), wk_fieldItem = (\<lambda>_. None),
     wk_isImmune = (\<lambda>_. False), wk_hasCondition = (\<lambda>_. False)\<rparr>"

definition sample_params :: find_path_params where
  "sample_params = \<lparr>fpp_fullPathSearch = True, fpp_clearSight = True, fpp_allowDiagonal = True, fpp_keepDistance = False,
     fpp_maxSearchDist = 10, fpp_minTargetDist = 0, fpp_maxTargetDist = 1\<rparr>"

theorem getPathTo_correct_witness:
  "\<exists>m r. tile_at m (wk_position sample_walker) = Some 1 \<and>
     getPathTo m (\<lambda>_. False) (\<lambda>_. 0) sample_walker \<lparr>px = 101, py = 100, pz = 7\<rparr> [] sample_params = Some r"
proof -
  have "unat (pz (wk_position sample_walker)) < MAP_MAX_LAYERS" by (simp add: sample_walker_def MAP_MAX_LAYERS_def)
  then obtain m where m: "\<And>q. tile_at m q = (if q = wk_position sample_walker then Some 1 else None)"
    by (rule one_tile_map) blast
  have "\<forall>q. tile_at m q \<noteq> None \<longrightarrow> inner q"
    by (auto simp: m sample_walker_def inner_def getX_def getY_def)
  moreover have "tile_at m (wk_position sample_walker) \<noteq> None" by (simp add: m)
  moreover have "fpp_maxTargetDist sample_params \<le> 16383" by (simp add: sample_params_def)
  ultimately show ?thesis
    using getPathTo_correct [of m sample_walker sample_params "\<lambda>_. False" "\<lambda>_. 0" "\<lparr>px = 101, py = 100, pz = 7\<rparr>" "[]"] m
    by (metis (no_types, lifting))
qed

end
