(* ===== verification/Attributes.thy ===== *)
theory Attributes imports Streams begin

text \<open>
  \<open>ItemAttributes\<close> of item.h and item.cpp: the attributes an item carries besides its
  type, kept as a forward list of tagged values together with a word that has the
  bit of every tag in the list. The theory models the typed getters and setters, the
  custom attributes with their byte format, and shows that the list and the word
  stay consistent, so that the component is a finite map from tags to values.
\<close>

section \<open>Tags\<close>

datatype item_attr_type =
    ITEM_ATTRIBUTE_NONE
  | ITEM_ATTRIBUTE_ACTIONID
  | ITEM_ATTRIBUTE_UNIQUEID
  | ITEM_ATTRIBUTE_DESCRIPTION
  | ITEM_ATTRIBUTE_TEXT
  | ITEM_ATTRIBUTE_DATE
  | ITEM_ATTRIBUTE_WRITER
  | ITEM_ATTRIBUTE_NAME
  | ITEM_ATTRIBUTE_ARTICLE
  | ITEM_ATTRIBUTE_PLURALNAME
  | ITEM_ATTRIBUTE_WEIGHT
  | ITEM_ATTRIBUTE_ATTACK
  | ITEM_ATTRIBUTE_DEFENSE
  | ITEM_ATTRIBUTE_EXTRADEFENSE
  | ITEM_ATTRIBUTE_ARMOR
  | ITEM_ATTRIBUTE_HITCHANCE
  | ITEM_ATTRIBUTE_SHOOTRANGE
  | ITEM_ATTRIBUTE_OWNER
  | ITEM_ATTRIBUTE_DURATION
  | ITEM_ATTRIBUTE_DECAYSTATE
  | ITEM_ATTRIBUTE_CORPSEOWNER
  | ITEM_ATTRIBUTE_CHARGES
  | ITEM_ATTRIBUTE_FLUIDTYPE
  | ITEM_ATTRIBUTE_DOORID
  | ITEM_ATTRIBUTE_CUSTOM

text \<open>The value of each enumerator.\<close>

fun attr_bit :: "item_attr_type \<Rightarrow> u32" where
  "attr_bit ITEM_ATTRIBUTE_NONE = 0"
| "attr_bit ITEM_ATTRIBUTE_ACTIONID = push_bit 0 1"
| "attr_bit ITEM_ATTRIBUTE_UNIQUEID = push_bit 1 1"
| "attr_bit ITEM_ATTRIBUTE_DESCRIPTION = push_bit 2 1"
| "attr_bit ITEM_ATTRIBUTE_TEXT = push_bit 3 1"
| "attr_bit ITEM_ATTRIBUTE_DATE = push_bit 4 1"
| "attr_bit ITEM_ATTRIBUTE_WRITER = push_bit 5 1"
| "attr_bit ITEM_ATTRIBUTE_NAME = push_bit 6 1"
| "attr_bit ITEM_ATTRIBUTE_ARTICLE = push_bit 7 1"
| "attr_bit ITEM_ATTRIBUTE_PLURALNAME = push_bit 8 1"
| "attr_bit ITEM_ATTRIBUTE_WEIGHT = push_bit 9 1"
| "attr_bit ITEM_ATTRIBUTE_ATTACK = push_bit 10 1"
| "attr_bit ITEM_ATTRIBUTE_DEFENSE = push_bit 11 1"
| "attr_bit ITEM_ATTRIBUTE_EXTRADEFENSE = push_bit 12 1"
| "attr_bit ITEM_ATTRIBUTE_ARMOR = push_bit 13 1"
| "attr_bit ITEM_ATTRIBUTE_HITCHANCE = push_bit 14 1"
| "attr_bit ITEM_ATTRIBUTE_SHOOTRANGE = push_bit 15 1"
| "attr_bit ITEM_ATTRIBUTE_OWNER = push_bit 16 1"
| "attr_bit ITEM_ATTRIBUTE_DURATION = push_bit 17 1"
| "attr_bit ITEM_ATTRIBUTE_DECAYSTATE = push_bit 18 1"
| "attr_bit ITEM_ATTRIBUTE_CORPSEOWNER = push_bit 19 1"
| "attr_bit ITEM_ATTRIBUTE_CHARGES = push_bit 20 1"
| "attr_bit ITEM_ATTRIBUTE_FLUIDTYPE = push_bit 21 1"
| "attr_bit ITEM_ATTRIBUTE_DOORID = push_bit 22 1"
| "attr_bit ITEM_ATTRIBUTE_CUSTOM = push_bit 31 1"

definition isIntAttrType :: "item_attr_type \<Rightarrow> bool" where
  "isIntAttrType t = (attr_bit t AND 0x7FFE13 \<noteq> 0)"

definition isStrAttrType :: "item_attr_type \<Rightarrow> bool" where
  "isStrAttrType t = (attr_bit t AND 0x1EC \<noteq> 0)"

definition isCustomAttrType :: "item_attr_type \<Rightarrow> bool" where
  "isCustomAttrType t = (attr_bit t AND 0x80000000 \<noteq> 0)"

lemma isIntAttrType_simps [simp]:
  "isIntAttrType ITEM_ATTRIBUTE_ACTIONID" "isIntAttrType ITEM_ATTRIBUTE_UNIQUEID"
  "isIntAttrType ITEM_ATTRIBUTE_DATE" "isIntAttrType ITEM_ATTRIBUTE_WEIGHT"
  "isIntAttrType ITEM_ATTRIBUTE_ATTACK" "isIntAttrType ITEM_ATTRIBUTE_DEFENSE"
  "isIntAttrType ITEM_ATTRIBUTE_EXTRADEFENSE" "isIntAttrType ITEM_ATTRIBUTE_ARMOR"
  "isIntAttrType ITEM_ATTRIBUTE_HITCHANCE" "isIntAttrType ITEM_ATTRIBUTE_SHOOTRANGE"
  "isIntAttrType ITEM_ATTRIBUTE_OWNER" "isIntAttrType ITEM_ATTRIBUTE_DURATION"
  "isIntAttrType ITEM_ATTRIBUTE_DECAYSTATE" "isIntAttrType ITEM_ATTRIBUTE_CORPSEOWNER"
  "isIntAttrType ITEM_ATTRIBUTE_CHARGES" "isIntAttrType ITEM_ATTRIBUTE_FLUIDTYPE"
  "isIntAttrType ITEM_ATTRIBUTE_DOORID" "\<not> isIntAttrType ITEM_ATTRIBUTE_CUSTOM"
  "\<not> isIntAttrType ITEM_ATTRIBUTE_NONE"
  by (simp_all add: isIntAttrType_def)

lemma isStrAttrType_simps [simp]:
  "isStrAttrType ITEM_ATTRIBUTE_DESCRIPTION" "isStrAttrType ITEM_ATTRIBUTE_TEXT"
  "isStrAttrType ITEM_ATTRIBUTE_WRITER" "isStrAttrType ITEM_ATTRIBUTE_NAME"
  "isStrAttrType ITEM_ATTRIBUTE_ARTICLE" "isStrAttrType ITEM_ATTRIBUTE_PLURALNAME"
  "\<not> isStrAttrType ITEM_ATTRIBUTE_CUSTOM" "\<not> isStrAttrType ITEM_ATTRIBUTE_NONE"
  by (simp_all add: isStrAttrType_def)

text \<open>
  The three masks split the tags: every tag but \<open>NONE\<close> is of exactly one kind, so a
  tag tells which member of the union holds the value.
\<close>

lemma attr_kinds:
  "(isIntAttrType t \<longleftrightarrow> t \<noteq> ITEM_ATTRIBUTE_NONE \<and> \<not> isStrAttrType t \<and> t \<noteq> ITEM_ATTRIBUTE_CUSTOM) \<and>
   (isCustomAttrType t \<longleftrightarrow> t = ITEM_ATTRIBUTE_CUSTOM)"
  by (cases t) (simp_all add: isIntAttrType_def isStrAttrType_def isCustomAttrType_def)

lemma attr_bit_disjoint: "a \<noteq> b \<Longrightarrow> attr_bit a AND attr_bit b = 0"
  by (cases a; cases b) simp_all

lemma attr_bit_zero [simp]: "attr_bit t = 0 \<longleftrightarrow> t = ITEM_ATTRIBUTE_NONE"
  by (cases t) simp_all

section \<open>Values\<close>

text \<open>
  \<open>CustomAttribute\<close> is a \<open>boost::variant\<close> of nothing, a string, a 64-bit integer, a
  double (its 64-bit image here) and a bool.
\<close>

datatype custom_attr =
    CBlank
  | CString bytes
  | CInt u64
  | CDouble u64
  | CBool bool

text \<open>
  The \<open>unordered_map\<close> of custom attributes is an association list in its iteration
  order; the union of an attribute is a datatype whose zeroed state is \<open>VInt 0\<close>.
\<close>

type_synonym custom_map = "(bytes \<times> custom_attr) list"

datatype attr_value = VInt u64 | VStr bytes | VCustom custom_map

record attribute =
  atype :: item_attr_type
  avalue :: attr_value

record item_attributes =
  attr_list :: "attribute list"
  attributeBits :: u32

definition no_attributes :: item_attributes where
  "no_attributes = \<lparr>attr_list = [], attributeBits = 0\<rparr>"

text \<open>Reading a member of the union. The kind of the tag makes it the right member.\<close>

fun as_integer :: "attr_value \<Rightarrow> u64" where
  "as_integer (VInt i) = i"
| "as_integer _ = 0"

fun as_string :: "attr_value \<Rightarrow> bytes" where
  "as_string (VStr s) = s"
| "as_string _ = []"

fun as_custom :: "attr_value \<Rightarrow> custom_map" where
  "as_custom (VCustom m) = m"
| "as_custom _ = []"

section \<open>The list of attributes\<close>

definition hasAttribute :: "item_attr_type \<Rightarrow> item_attributes \<Rightarrow> bool" where
  "hasAttribute t s = (attr_bit t AND attributeBits s \<noteq> 0)"

fun find_attr :: "item_attr_type \<Rightarrow> attribute list \<Rightarrow> attribute option" where
  "find_attr t [] = None"
| "find_attr t (a # xs) = (if atype a = t then Some a else find_attr t xs)"

definition getExistingAttr :: "item_attr_type \<Rightarrow> item_attributes \<Rightarrow> attribute option" where
  "getExistingAttr t s = (if hasAttribute t s then find_attr t (attr_list s) else None)"

fun update_first :: "item_attr_type \<Rightarrow> (attr_value \<Rightarrow> attr_value) \<Rightarrow> attribute list \<Rightarrow> attribute list" where
  "update_first t f [] = []"
| "update_first t f (a # xs) =
     (if atype a = t then a\<lparr>avalue := f (avalue a)\<rparr> # xs else a # update_first t f xs)"

text \<open>
  \<open>getAttr\<close> returns a reference through which the caller changes the value; the
  change is the argument \<open>f\<close>.
\<close>

definition getAttr ::
  "item_attr_type \<Rightarrow> (attr_value \<Rightarrow> attr_value) \<Rightarrow> item_attributes \<Rightarrow> item_attributes" where
  "getAttr t f s =
     (if hasAttribute t s \<and> find_attr t (attr_list s) \<noteq> None
      then s\<lparr>attr_list := update_first t f (attr_list s)\<rparr>
      else s\<lparr>attributeBits := attributeBits s OR attr_bit t,
             attr_list := \<lparr>atype = t, avalue = f (VInt 0)\<rparr> # attr_list s\<rparr>)"

fun erase_attr :: "item_attr_type \<Rightarrow> attribute list \<Rightarrow> attribute list" where
  "erase_attr t [] = []"
| "erase_attr t (a # xs) = (if atype a = t then xs else a # erase_attr t xs)"

definition removeAttribute :: "item_attr_type \<Rightarrow> item_attributes \<Rightarrow> item_attributes" where
  "removeAttribute t s =
     (if \<not> hasAttribute t s then s
      else s\<lparr>attr_list := erase_attr t (attr_list s),
             attributeBits := attributeBits s AND NOT (attr_bit t)\<rparr>)"

definition getStrAttr :: "item_attr_type \<Rightarrow> item_attributes \<Rightarrow> bytes" where
  "getStrAttr t s =
     (if \<not> isStrAttrType t then []
      else case getExistingAttr t s of None \<Rightarrow> [] | Some a \<Rightarrow> as_string (avalue a))"

definition setStrAttr :: "item_attr_type \<Rightarrow> bytes \<Rightarrow> item_attributes \<Rightarrow> item_attributes" where
  "setStrAttr t v s =
     (if \<not> isStrAttrType t then s
      else if v = [] then s
      else getAttr t (\<lambda>_. VStr v) s)"

definition getIntAttr :: "item_attr_type \<Rightarrow> item_attributes \<Rightarrow> u64" where
  "getIntAttr t s =
     (if \<not> isIntAttrType t then 0
      else case getExistingAttr t s of None \<Rightarrow> 0 | Some a \<Rightarrow> as_integer (avalue a))"

definition setIntAttr :: "item_attr_type \<Rightarrow> u64 \<Rightarrow> item_attributes \<Rightarrow> item_attributes" where
  "setIntAttr t v s = (if \<not> isIntAttrType t then s else getAttr t (\<lambda>_. VInt v) s)"

definition increaseIntAttr :: "item_attr_type \<Rightarrow> u64 \<Rightarrow> item_attributes \<Rightarrow> item_attributes" where
  "increaseIntAttr t v s =
     (if \<not> isIntAttrType t then s else getAttr t (\<lambda>x. VInt (as_integer x + v)) s)"

section \<open>Custom attributes\<close>

text \<open>\<open>tolower\<close> in the C locale, on a byte and on a string.\<close>

definition lower_byte :: "u8 \<Rightarrow> u8" where
  "lower_byte c = (if 65 \<le> c \<and> c \<le> 90 then c + 32 else c)"

definition asLowerCaseString :: "bytes \<Rightarrow> bytes" where
  "asLowerCaseString source = map lower_byte source"

definition erase_custom :: "bytes \<Rightarrow> custom_map \<Rightarrow> custom_map" where
  "erase_custom key m = filter (\<lambda>(k, v). k \<noteq> key) m"

text \<open>\<open>emplace\<close> and \<open>insert\<close> leave an existing entry as it is.\<close>

definition emplace_custom :: "bytes \<Rightarrow> custom_attr \<Rightarrow> custom_map \<Rightarrow> custom_map" where
  "emplace_custom key v m = (if map_of m key = None then (key, v) # m else m)"

definition getCustomAttributeMap :: "item_attributes \<Rightarrow> custom_map option" where
  "getCustomAttributeMap s =
     (if \<not> hasAttribute ITEM_ATTRIBUTE_CUSTOM s then None
      else case find_attr ITEM_ATTRIBUTE_CUSTOM (attr_list s) of
             None \<Rightarrow> Some []
           | Some a \<Rightarrow> Some (as_custom (avalue a)))"

definition getCustomAttribute :: "bytes \<Rightarrow> item_attributes \<Rightarrow> custom_attr option" where
  "getCustomAttribute key s =
     (case getCustomAttributeMap s of
        None \<Rightarrow> None
      | Some m \<Rightarrow> map_of m (asLowerCaseString key))"

definition removeCustomAttribute :: "bytes \<Rightarrow> item_attributes \<Rightarrow> item_attributes \<times> bool" where
  "removeCustomAttribute key s =
     (case getCustomAttributeMap s of
        None \<Rightarrow> (s, False)
      | Some m \<Rightarrow>
          if map_of m (asLowerCaseString key) = None then (s, False)
          else (getAttr ITEM_ATTRIBUTE_CUSTOM
                  (\<lambda>x. VCustom (erase_custom (asLowerCaseString key) (as_custom x))) s, True))"

definition setCustomAttribute :: "bytes \<Rightarrow> custom_attr \<Rightarrow> item_attributes \<Rightarrow> item_attributes" where
  "setCustomAttribute key v s =
     (let key = asLowerCaseString key;
          s = (if hasAttribute ITEM_ATTRIBUTE_CUSTOM s then fst (removeCustomAttribute key s)
               else getAttr ITEM_ATTRIBUTE_CUSTOM (\<lambda>_. VCustom []) s)
      in getAttr ITEM_ATTRIBUTE_CUSTOM (\<lambda>x. VCustom (emplace_custom key v (as_custom x))) s)"

text \<open>The tag byte is \<open>value.which()\<close>, the position of the member in the variant.\<close>

fun which_custom :: "custom_attr \<Rightarrow> u8" where
  "which_custom CBlank = 0"
| "which_custom (CString _) = 1"
| "which_custom (CInt _) = 2"
| "which_custom (CDouble _) = 3"
| "which_custom (CBool _) = 4"

definition serialize_custom :: "custom_attr \<Rightarrow> prop_write_stream \<Rightarrow> prop_write_stream" where
  "serialize_custom v s =
     (let s = pw_write 1 (which_custom v) s in
      case v of
        CBlank \<Rightarrow> s
      | CString str \<Rightarrow> pw_writeString str s
      | CInt i \<Rightarrow> pw_write 8 i s
      | CDouble d \<Rightarrow> pw_write 8 d s
      | CBool b \<Rightarrow> pw_write 1 (if b then 1 else 0 :: u8) s)"

definition with_value :: "prop_stream \<times> 'a option \<Rightarrow> ('a \<Rightarrow> 'b) \<Rightarrow> prop_stream \<times> 'b option" where
  "with_value r f = (fst r, map_option f (snd r))"

definition unserialize_custom :: "prop_stream \<Rightarrow> prop_stream \<times> custom_attr option" where
  "unserialize_custom s =
     (case ps_read 1 s of
        (s, None) \<Rightarrow> (s, None)
      | (s, Some pos) \<Rightarrow>
          if (pos :: u8) = 1 then with_value (ps_readString s) CString
          else if pos = 2 then with_value (ps_read 8 s) CInt
          else if pos = 3 then with_value (ps_read 8 s) CDouble
          else if pos = 4 then with_value (ps_read 1 s) (\<lambda>b :: u8. CBool (b \<noteq> 0))
          else (s, None))"

section \<open>Consistency\<close>

text \<open>
  The well-formed states: no tag occurs twice, \<open>attributeBits\<close> is the union of the
  bits of the tags in the list, and every value has the kind of its tag, so that no
  getter ever reads the wrong member of the union.
\<close>

fun attr_mask :: "attribute list \<Rightarrow> u32" where
  "attr_mask [] = 0"
| "attr_mask (a # xs) = attr_bit (atype a) OR attr_mask xs"

definition custom_ok :: "custom_map \<Rightarrow> bool" where
  "custom_ok m = (distinct (map fst m) \<and> (\<forall>(k, v) \<in> set m. asLowerCaseString k = k))"

fun kind_ok :: "item_attr_type \<Rightarrow> attr_value \<Rightarrow> bool" where
  "kind_ok t (VInt i) = isIntAttrType t"
| "kind_ok t (VStr s) = (isStrAttrType t \<and> s \<noteq> [])"
| "kind_ok t (VCustom m) = (t = ITEM_ATTRIBUTE_CUSTOM \<and> custom_ok m)"

definition attrs_wf :: "item_attributes \<Rightarrow> bool" where
  "attrs_wf s = (distinct (map atype (attr_list s)) \<and>
                 attributeBits s = attr_mask (attr_list s) \<and>
                 (\<forall>a \<in> set (attr_list s). kind_ok (atype a) (avalue a)))"

text \<open>The map that the attributes stand for.\<close>

definition attr_map :: "item_attributes \<Rightarrow> item_attr_type \<rightharpoonup> attr_value" where
  "attr_map s t = map_option avalue (find_attr t (attr_list s))"

lemma kind_ok_not_none: "kind_ok t v \<Longrightarrow> t \<noteq> ITEM_ATTRIBUTE_NONE"
  by (cases v) auto

lemma find_attr_None: "find_attr t xs = None \<longleftrightarrow> t \<notin> atype ` set xs"
  by (induction xs) auto

lemma find_attr_type: "find_attr t xs = Some a \<Longrightarrow> atype a = t \<and> a \<in> set xs"
  by (induction xs) (auto split: if_splits)

lemma mask_and_zero:
  "t \<notin> atype ` set xs \<Longrightarrow> attr_bit t AND attr_mask xs = 0"
  by (induction xs) (auto simp: bit.conj_disj_distrib attr_bit_disjoint)

lemma mask_and_nonzero:
  "t \<in> atype ` set xs \<Longrightarrow> t \<noteq> ITEM_ATTRIBUTE_NONE \<Longrightarrow> attr_bit t AND attr_mask xs \<noteq> 0"
proof (induction xs)
  case Nil
  then show ?case by simp
next
  case (Cons a xs)
  have or0: "x OR y = 0 \<Longrightarrow> x = 0 \<and> y = 0" for x y :: u32
    by (metis bit.disj_zero_right or.left_idem word_bw_comms(2))
  from Cons show ?case
    by (auto simp: bit.conj_disj_distrib dest: or0)
qed

lemma hasAttribute_iff:
  "attrs_wf s \<Longrightarrow> hasAttribute t s \<longleftrightarrow> attr_map s t \<noteq> None"
proof -
  assume wf: "attrs_wf s"
  have none: "ITEM_ATTRIBUTE_NONE \<notin> atype ` set (attr_list s)"
    using wf kind_ok_not_none by (fastforce simp: attrs_wf_def)
  have bits: "attributeBits s = attr_mask (attr_list s)" using wf by (simp add: attrs_wf_def)
  show ?thesis
  proof (cases "t \<in> atype ` set (attr_list s)")
    case True
    with none have "t \<noteq> ITEM_ATTRIBUTE_NONE" by metis
    with True show ?thesis
      by (simp add: hasAttribute_def bits attr_map_def find_attr_None mask_and_nonzero del: not_None_eq)
  next
    case False
    then show ?thesis
      by (simp add: hasAttribute_def bits attr_map_def find_attr_None mask_and_zero del: not_None_eq)
  qed
qed

lemma getExistingAttr_map:
  "attrs_wf s \<Longrightarrow> map_option avalue (getExistingAttr t s) = attr_map s t"
  using hasAttribute_iff [of s t] by (auto simp: getExistingAttr_def attr_map_def)

lemma find_update_first:
  "map_option avalue (find_attr t' (update_first t f xs)) =
     (if t' = t then map_option (\<lambda>a. f (avalue a)) (find_attr t xs)
      else map_option avalue (find_attr t' xs))"
  by (induction xs) auto

lemma types_update_first [simp]: "map atype (update_first t f xs) = map atype xs"
  by (induction xs) auto

lemma mask_update_first [simp]: "attr_mask (update_first t f xs) = attr_mask xs"
  by (induction xs) auto

lemma set_update_first:
  "a \<in> set (update_first t f xs) \<Longrightarrow>
     a \<in> set xs \<or> (\<exists>b \<in> set xs. atype b = t \<and> a = b\<lparr>avalue := f (avalue b)\<rparr>)"
  by (induction xs) (auto split: if_splits)

text \<open>\<open>getAttr\<close> with a change of the value is an update of the map.\<close>

lemma getAttr_map:
  assumes "attrs_wf s"
  shows "attr_map (getAttr t f s) =
           (attr_map s)(t \<mapsto> f (case attr_map s t of None \<Rightarrow> VInt 0 | Some v \<Rightarrow> v))"
proof (cases "find_attr t (attr_list s) = None")
  case True
  then show ?thesis by (auto simp: getAttr_def attr_map_def fun_eq_iff)
next
  case False
  moreover have "hasAttribute t s"
    using False by (simp add: hasAttribute_iff [OF assms] attr_map_def)
  ultimately show ?thesis
    by (auto simp: getAttr_def attr_map_def find_update_first fun_eq_iff)
qed

lemma getAttr_wf:
  assumes "attrs_wf s"
    and "\<forall>v. (attr_map s t = Some v \<or> attr_map s t = None \<and> v = VInt 0) \<longrightarrow> kind_ok t (f v)"
  shows "attrs_wf (getAttr t f s)"
proof (cases "find_attr t (attr_list s)")
  case None
  then have "t \<notin> atype ` set (attr_list s)" by (simp add: find_attr_None)
  moreover have "kind_ok t (f (VInt 0))" using assms(2) None by (simp add: attr_map_def)
  ultimately show ?thesis
    using assms(1) None by (auto simp: getAttr_def attrs_wf_def or.commute)
next
  case (Some a)
  have has: "hasAttribute t s"
    using Some by (simp add: hasAttribute_iff [OF assms(1)] attr_map_def)
  have "kind_ok (atype b) (f (avalue b))" if "b \<in> set (attr_list s)" "atype b = t" for b
  proof -
    have "distinct (map atype (attr_list s))" using assms(1) by (simp add: attrs_wf_def)
    with find_attr_type [OF Some] that have "b = a" by (auto simp: distinct_map inj_on_def)
    with Some that assms(2) show ?thesis by (simp add: attr_map_def)
  qed
  then have "\<forall>b \<in> set (update_first t f (attr_list s)). kind_ok (atype b) (avalue b)"
    using assms(1) by (auto simp: attrs_wf_def dest: set_update_first)
  with has Some assms(1) show ?thesis by (simp add: getAttr_def attrs_wf_def)
qed

lemma find_erase_attr:
  "distinct (map atype xs) \<Longrightarrow>
     find_attr t' (erase_attr t xs) = (if t' = t then None else find_attr t' xs)"
  by (induction xs) (auto simp: find_attr_None)

lemma set_erase_attr: "set (erase_attr t xs) \<subseteq> set xs"
  by (induction xs) auto

lemma distinct_erase_attr: "distinct (map atype xs) \<Longrightarrow> distinct (map atype (erase_attr t xs))"
  using set_erase_attr by (induction xs) fastforce+

lemma and_not_disjoint: "x AND y = 0 \<Longrightarrow> y AND NOT x = (y :: u32)"
  by (auto simp: bit_eq_iff bit_and_iff bit_not_iff)

lemma mask_erase_attr:
  assumes "distinct (map atype xs)" "t \<in> atype ` set xs"
  shows "attr_mask (erase_attr t xs) = attr_mask xs AND NOT (attr_bit t)"
  using assms
proof (induction xs)
  case Nil
  then show ?case by simp
next
  case (Cons a xs)
  show ?case
  proof (cases "atype a = t")
    case True
    then have "attr_bit t AND attr_mask xs = 0" using Cons.prems by (intro mask_and_zero) auto
    then show ?thesis using True by (simp add: bit.conj_disj_distrib2 and_not_disjoint)
  next
    case False
    then have "attr_bit t AND attr_bit (atype a) = 0" by (intro attr_bit_disjoint) simp
    with False Cons show ?thesis by (simp add: bit.conj_disj_distrib2 and_not_disjoint)
  qed
qed

lemma removeAttribute_map:
  assumes "attrs_wf s"
  shows "attr_map (removeAttribute t s) = (attr_map s)(t := None)"
proof (cases "hasAttribute t s")
  case True
  then show ?thesis
    using assms by (auto simp: removeAttribute_def attr_map_def attrs_wf_def find_erase_attr fun_eq_iff)
next
  case False
  then show ?thesis using hasAttribute_iff [OF assms, of t] by (auto simp: removeAttribute_def)
qed

lemma removeAttribute_wf:
  assumes "attrs_wf s"
  shows "attrs_wf (removeAttribute t s)"
proof (cases "hasAttribute t s")
  case True
  then have "t \<in> atype ` set (attr_list s)"
    using hasAttribute_iff [OF assms, of t] find_attr_None [of t "attr_list s"]
    by (auto simp: attr_map_def)
  with True assms show ?thesis
    using set_erase_attr [of t "attr_list s"]
    by (auto simp: removeAttribute_def attrs_wf_def distinct_erase_attr mask_erase_attr)
qed (simp add: removeAttribute_def assms)

section \<open>The interface\<close>

text \<open>
  What the items rely on: a finite map with an invariant. A sequence of conditional
  assignments acts on the map as the same sequence of updates.
\<close>

locale attribute_map =
  fixes inv :: "'s \<Rightarrow> bool"
    and look :: "'s \<Rightarrow> 'k \<rightharpoonup> 'v"
    and put :: "'k \<Rightarrow> 'v \<Rightarrow> 's \<Rightarrow> 's"
    and del :: "'k \<Rightarrow> 's \<Rightarrow> 's"
    and ok :: "'k \<Rightarrow> 'v \<Rightarrow> bool"
  assumes put_inv: "inv s \<Longrightarrow> ok k v \<Longrightarrow> inv (put k v s)"
    and put_look: "inv s \<Longrightarrow> ok k v \<Longrightarrow> look (put k v s) = (look s)(k \<mapsto> v)"
    and del_inv: "inv s \<Longrightarrow> inv (del k s)"
    and del_look: "inv s \<Longrightarrow> look (del k s) = (look s)(k := None)"
begin

definition put_if :: "bool \<times> 'k \<times> 'v \<Rightarrow> 's \<Rightarrow> 's" where
  "put_if p s = (case p of (c, k, v) \<Rightarrow> if c then put k v s else s)"

definition upd_if :: "bool \<times> 'k \<times> 'v \<Rightarrow> ('k \<rightharpoonup> 'v) \<Rightarrow> ('k \<rightharpoonup> 'v)" where
  "upd_if p m = (case p of (c, k, v) \<Rightarrow> if c then m(k \<mapsto> v) else m)"

lemma puts:
  "inv s \<Longrightarrow> \<forall>(c, k, v) \<in> set ps. c \<longrightarrow> ok k v \<Longrightarrow>
     inv (fold put_if ps s) \<and> look (fold put_if ps s) = fold upd_if ps (look s)"
  by (induction ps arbitrary: s) (auto simp: put_if_def upd_if_def put_inv put_look)

lemma del_put: "inv s \<Longrightarrow> ok k v \<Longrightarrow> look (del k (put k v s)) = look (del k s)"
  by (auto simp: del_look put_look put_inv)

end

interpretation attrs: attribute_map attrs_wf attr_map "\<lambda>t v. getAttr t (\<lambda>_. v)"
  removeAttribute kind_ok
proof
  fix s t v
  assume "attrs_wf s" "kind_ok t v"
  then show "attrs_wf (getAttr t (\<lambda>_. v) s)" by (intro getAttr_wf) auto
next
  fix s t v
  assume "attrs_wf s"
  then show "attr_map (getAttr t (\<lambda>_. v) s) = (attr_map s)(t \<mapsto> v)" by (simp add: getAttr_map)
qed (auto simp: removeAttribute_wf removeAttribute_map)

section \<open>The operations on well-formed attributes\<close>

lemma no_attributes_wf [simp]: "attrs_wf no_attributes" "attr_map no_attributes = Map.empty"
  by (auto simp: attrs_wf_def no_attributes_def attr_map_def fun_eq_iff)

lemma attr_map_kind: "attrs_wf s \<Longrightarrow> attr_map s t = Some v \<Longrightarrow> kind_ok t v"
  using find_attr_type by (fastforce simp: attr_map_def attrs_wf_def)

lemma kind_okE:
  assumes "kind_ok t v"
  obtains i where "v = VInt i" "isIntAttrType t"
    | str where "v = VStr str" "isStrAttrType t" "str \<noteq> []"
    | m where "v = VCustom m" "t = ITEM_ATTRIBUTE_CUSTOM" "custom_ok m"
  using assms by (cases v) auto

lemma attr_map_int:
  "attrs_wf s \<Longrightarrow> isIntAttrType t \<Longrightarrow> attr_map s t = Some v \<Longrightarrow> \<exists>i. v = VInt i"
  using attr_map_kind [of s t v] attr_kinds [of t] by (cases v) auto

lemma attr_map_str:
  "attrs_wf s \<Longrightarrow> isStrAttrType t \<Longrightarrow> attr_map s t = Some v \<Longrightarrow> \<exists>str. v = VStr str \<and> str \<noteq> []"
  using attr_map_kind [of s t v] attr_kinds [of t] by (cases v) auto

lemma attr_map_custom:
  "attrs_wf s \<Longrightarrow> attr_map s ITEM_ATTRIBUTE_CUSTOM = Some v \<Longrightarrow> \<exists>m. v = VCustom m \<and> custom_ok m"
  using attr_map_kind [of s ITEM_ATTRIBUTE_CUSTOM v] by (cases v) auto

lemma getIntAttr_map:
  "attrs_wf s \<Longrightarrow> isIntAttrType t \<Longrightarrow>
     getIntAttr t s = (case attr_map s t of None \<Rightarrow> 0 | Some v \<Rightarrow> as_integer v)"
  by (simp add: getIntAttr_def flip: getExistingAttr_map split: option.split)

lemma getStrAttr_map:
  "attrs_wf s \<Longrightarrow> isStrAttrType t \<Longrightarrow>
     getStrAttr t s = (case attr_map s t of None \<Rightarrow> [] | Some v \<Rightarrow> as_string v)"
  by (simp add: getStrAttr_def flip: getExistingAttr_map split: option.split)

lemma getCustomAttributeMap_map:
  "attrs_wf s \<Longrightarrow>
     getCustomAttributeMap s = map_option as_custom (attr_map s ITEM_ATTRIBUTE_CUSTOM)"
  using hasAttribute_iff [of s ITEM_ATTRIBUTE_CUSTOM]
  by (auto simp: getCustomAttributeMap_def attr_map_def split: option.splits)

lemma setIntAttr_put: "isIntAttrType t \<Longrightarrow> setIntAttr t v s = getAttr t (\<lambda>_. VInt v) s"
  by (simp add: setIntAttr_def)

lemma setStrAttr_put:
  "isStrAttrType t \<Longrightarrow> setStrAttr t v s = (if v = [] then s else getAttr t (\<lambda>_. VStr v) s)"
  by (simp add: setStrAttr_def)

lemma increaseIntAttr_laws:
  assumes "attrs_wf s" "isIntAttrType t"
  shows "attrs_wf (increaseIntAttr t v s)"
    and "attr_map (increaseIntAttr t v s) = (attr_map s)(t \<mapsto> VInt (getIntAttr t s + v))"
  using assms
  by (auto simp: increaseIntAttr_def getAttr_map getIntAttr_map intro!: getAttr_wf split: option.split)

lemma lower_byte_idem [simp]: "lower_byte (lower_byte c) = lower_byte c"
  unfolding lower_byte_def by (simp split: if_split) uint_arith

lemma lower_idem [simp]: "asLowerCaseString (asLowerCaseString k) = asLowerCaseString k"
  by (simp add: asLowerCaseString_def)

lemma erase_custom_map [simp]: "map_of (erase_custom key m) = (map_of m)(key := None)"
  by (induction m) (auto simp: erase_custom_def fun_eq_iff)

lemma erase_custom_ok: "custom_ok m \<Longrightarrow> custom_ok (erase_custom key m)"
  by (auto simp: custom_ok_def erase_custom_def distinct_map inj_on_def)

lemma emplace_custom_ok:
  "custom_ok m \<Longrightarrow> asLowerCaseString key = key \<Longrightarrow> custom_ok (emplace_custom key v m)"
  by (auto simp: custom_ok_def emplace_custom_def map_of_eq_None_iff)

lemma emplace_custom_map:
  "map_of (emplace_custom key v m) =
     (if map_of m key = None then (map_of m)(key \<mapsto> v) else map_of m)"
  by (auto simp: emplace_custom_def)

text \<open>\<open>setCustomAttribute\<close> stores the value under the lower-case key.\<close>

definition custom_of :: "item_attributes \<Rightarrow> bytes \<rightharpoonup> custom_attr" where
  "custom_of s = (case attr_map s ITEM_ATTRIBUTE_CUSTOM of None \<Rightarrow> Map.empty | Some v \<Rightarrow> map_of (as_custom v))"

lemma custom_ok_Nil [simp]: "custom_ok []"
  by (simp add: custom_ok_def)

text \<open>A change of the custom map that keeps its shape is an update of the attribute.\<close>

lemma custom_change:
  assumes "attrs_wf s" "attr_map s ITEM_ATTRIBUTE_CUSTOM = Some (VCustom m)" "custom_ok (f m)"
  shows "attrs_wf (getAttr ITEM_ATTRIBUTE_CUSTOM (\<lambda>x. VCustom (f (as_custom x))) s)"
    and "attr_map (getAttr ITEM_ATTRIBUTE_CUSTOM (\<lambda>x. VCustom (f (as_custom x))) s) =
           (attr_map s)(ITEM_ATTRIBUTE_CUSTOM \<mapsto> VCustom (f m))"
  using assms by (auto simp: getAttr_map intro!: getAttr_wf)

lemma removeCustomAttribute_laws:
  assumes "attrs_wf s" "attr_map s ITEM_ATTRIBUTE_CUSTOM = Some (VCustom m)"
  shows "attrs_wf (fst (removeCustomAttribute key s))"
    and "\<exists>m'. attr_map (fst (removeCustomAttribute key s)) =
                (attr_map s)(ITEM_ATTRIBUTE_CUSTOM \<mapsto> VCustom m') \<and> custom_ok m' \<and>
              map_of m' = (map_of m)(asLowerCaseString key := None)"
proof -
  have ok: "custom_ok m" using attr_map_custom [OF assms] by auto
  have g: "getCustomAttributeMap s = Some m"
    using assms by (simp add: getCustomAttributeMap_map)
  note e = custom_change [OF assms, of "erase_custom (asLowerCaseString key)",
      OF erase_custom_ok [OF ok]]
  show "attrs_wf (fst (removeCustomAttribute key s))"
    using e(1) assms(1) by (simp add: removeCustomAttribute_def g)
  show "\<exists>m'. attr_map (fst (removeCustomAttribute key s)) =
                (attr_map s)(ITEM_ATTRIBUTE_CUSTOM \<mapsto> VCustom m') \<and> custom_ok m' \<and>
              map_of m' = (map_of m)(asLowerCaseString key := None)"
  proof (cases "map_of m (asLowerCaseString key) = None")
    case True
    then show ?thesis
      using assms ok by (intro exI [of _ m]) (auto simp: removeCustomAttribute_def g)
  next
    case False
    then show ?thesis
      using e(2) ok
      by (intro exI [of _ "erase_custom (asLowerCaseString key) m"])
        (simp add: removeCustomAttribute_def g erase_custom_ok del: not_None_eq)
  qed
qed

lemma setCustomAttribute_laws:
  assumes "attrs_wf s"
  shows "attrs_wf (setCustomAttribute key v s)"
    and "\<exists>m. attr_map (setCustomAttribute key v s) =
               (attr_map s)(ITEM_ATTRIBUTE_CUSTOM \<mapsto> VCustom m) \<and> custom_ok m \<and>
             map_of m = (custom_of s)(asLowerCaseString key \<mapsto> v)"
proof -
  let ?k = "asLowerCaseString key"
  let ?s1 = "if hasAttribute ITEM_ATTRIBUTE_CUSTOM s then fst (removeCustomAttribute ?k s)
             else getAttr ITEM_ATTRIBUTE_CUSTOM (\<lambda>_. VCustom []) s"
  have "\<exists>m1. attrs_wf ?s1 \<and> custom_ok m1 \<and> map_of m1 = (custom_of s)(?k := None) \<and>
             attr_map ?s1 = (attr_map s)(ITEM_ATTRIBUTE_CUSTOM \<mapsto> VCustom m1)"
  proof (cases "attr_map s ITEM_ATTRIBUTE_CUSTOM")
    case None
    moreover from this have "\<not> hasAttribute ITEM_ATTRIBUTE_CUSTOM s"
      by (simp add: hasAttribute_iff [OF assms])
    ultimately show ?thesis
      using assms attrs.put_inv [OF assms, of ITEM_ATTRIBUTE_CUSTOM "VCustom []"]
      by (intro exI [of _ "[]"]) (auto simp: getAttr_map custom_of_def)
  next
    case (Some v0)
    then obtain m where m: "attr_map s ITEM_ATTRIBUTE_CUSTOM = Some (VCustom m)" "custom_ok m"
      using attr_map_custom [OF assms] by blast
    have has: "hasAttribute ITEM_ATTRIBUTE_CUSTOM s"
      using Some by (simp add: hasAttribute_iff [OF assms])
    have "custom_of s = map_of m" by (simp add: custom_of_def m)
    then show ?thesis
      using has removeCustomAttribute_laws [OF assms m(1), of ?k] by auto
  qed
  then obtain m1 where m1: "attrs_wf ?s1" "custom_ok m1" "map_of m1 = (custom_of s)(?k := None)"
    "attr_map ?s1 = (attr_map s)(ITEM_ATTRIBUTE_CUSTOM \<mapsto> VCustom m1)"
    by (elim exE conjE) (rule that)
  have at: "attr_map ?s1 ITEM_ATTRIBUTE_CUSTOM = Some (VCustom m1)" by (simp add: m1(4))
  have ok: "custom_ok (emplace_custom ?k v m1)" using m1(2) by (simp add: emplace_custom_ok)
  note c = custom_change [OF m1(1) at, of "emplace_custom ?k v", OF ok]
  have eq: "setCustomAttribute key v s =
      getAttr ITEM_ATTRIBUTE_CUSTOM (\<lambda>x. VCustom (emplace_custom ?k v (as_custom x))) ?s1"
    by (simp add: setCustomAttribute_def Let_def)
  show "attrs_wf (setCustomAttribute key v s)" unfolding eq by (rule c(1))
  show "\<exists>m. attr_map (setCustomAttribute key v s) =
               (attr_map s)(ITEM_ATTRIBUTE_CUSTOM \<mapsto> VCustom m) \<and> custom_ok m \<and>
             map_of m = (custom_of s)(?k \<mapsto> v)"
    unfolding eq c(2) m1(4) using ok m1(3)
    by (intro exI [of _ "emplace_custom ?k v m1"]) (auto simp: emplace_custom_map)
qed

section \<open>The byte format of a custom attribute\<close>

definition custom_storable :: "custom_attr \<Rightarrow> bool" where
  "custom_storable v = (case v of CBlank \<Rightarrow> False | CString s \<Rightarrow> length s \<le> 65535 | _ \<Rightarrow> True)"

definition enc_custom :: "custom_attr \<Rightarrow> bytes" where
  "enc_custom v = wbuffer (serialize_custom v pw_empty)"

definition dec_custom :: "bytes \<Rightarrow> (custom_attr \<times> bytes) option" where
  "dec_custom bs =
     (case unserialize_custom (ps_init bs) of
        (s, None) \<Rightarrow> None | (s, Some v) \<Rightarrow> Some (v, unread s))"

lemma pw_write_append: "wbuffer (pw_write n v s) = wbuffer s @ enc_int n v"
  by (simp add: enc_int_def pw_defs)

lemma pw_writeString_append: "wbuffer (pw_writeString v s) = wbuffer s @ enc_str v"
  by (simp add: enc_str_def pw_defs)

lemma ps_eta: "s = ps_init (unread s)"
  by (simp add: ps_init_def)

lemma ps_read_enc:
  "LENGTH('a) = 8 * n \<Longrightarrow>
     ps_read n (ps_init (enc_int n (v :: 'a::len word) @ rest)) = (ps_init rest, Some v)"
  by (simp add: enc_int_def ps_defs pw_defs)

lemma ps_readString_enc:
  "length v \<le> 65535 \<Longrightarrow> ps_readString (ps_init (enc_str v @ rest)) = (ps_init rest, Some v)"
  by (simp add: enc_str_eq ps_defs Let_def unat_of_nat)

lemma serialize_custom_append: "wbuffer (serialize_custom v s) = wbuffer s @ enc_custom v"
  by (cases v) (simp_all add: serialize_custom_def enc_custom_def pw_write_append
      pw_writeString_append Let_def pw_empty_def)

lemma unserialize_serialize_custom:
  "custom_storable v \<Longrightarrow>
     unserialize_custom (ps_init (enc_custom v @ rest)) = (ps_init rest, Some v)"
  by (cases v) (simp_all add: custom_storable_def enc_custom_def serialize_custom_def Let_def
      pw_write_append pw_writeString_append pw_empty_def unserialize_custom_def ps_read_enc
      ps_readString_enc with_value_def)

interpretation ccustom: codec enc_custom dec_custom custom_storable
  by unfold_locales (simp add: dec_custom_def unserialize_serialize_custom, simp add: ps_init_def)

lemma unserialize_custom_blank:
  "unserialize_custom (ps_init (enc_custom CBlank @ rest)) = (ps_init rest, None)"
  by (simp add: enc_custom_def serialize_custom_def Let_def pw_write_append pw_empty_def
      unserialize_custom_def ps_read_enc)

section \<open>Attributes as three maps\<close>

text \<open>The changes a caller can make, and what each means for the maps of values.\<close>

datatype attr_op =
    SetInt item_attr_type u64
  | IncreaseInt item_attr_type u64
  | SetStr item_attr_type bytes
  | RemoveAttr item_attr_type
  | SetCustom bytes custom_attr
  | RemoveCustom bytes

fun attr_step :: "attr_op \<Rightarrow> item_attributes \<Rightarrow> item_attributes" where
  "attr_step (SetInt t v) s = setIntAttr t v s"
| "attr_step (IncreaseInt t v) s = increaseIntAttr t v s"
| "attr_step (SetStr t v) s = setStrAttr t v s"
| "attr_step (RemoveAttr t) s = removeAttribute t s"
| "attr_step (SetCustom k v) s = setCustomAttribute k v s"
| "attr_step (RemoveCustom k) s = fst (removeCustomAttribute k s)"

record attr_maps =
  ints :: "item_attr_type \<rightharpoonup> u64"
  strs :: "item_attr_type \<rightharpoonup> bytes"
  customs :: "(bytes \<rightharpoonup> custom_attr) option"

fun attr_spec :: "attr_op \<Rightarrow> attr_maps \<Rightarrow> attr_maps" where
  "attr_spec (SetInt t v) a = (if isIntAttrType t then a\<lparr>ints := (ints a)(t \<mapsto> v)\<rparr> else a)"
| "attr_spec (IncreaseInt t v) a =
     (if isIntAttrType t
      then a\<lparr>ints := (ints a)(t \<mapsto> (case ints a t of None \<Rightarrow> 0 | Some i \<Rightarrow> i) + v)\<rparr> else a)"
| "attr_spec (SetStr t v) a =
     (if isStrAttrType t \<and> v \<noteq> [] then a\<lparr>strs := (strs a)(t \<mapsto> v)\<rparr> else a)"
| "attr_spec (RemoveAttr t) a =
     \<lparr>ints = (ints a)(t := None), strs = (strs a)(t := None),
      customs = (if t = ITEM_ATTRIBUTE_CUSTOM then None else customs a)\<rparr>"
| "attr_spec (SetCustom k v) a =
     a\<lparr>customs := Some ((case customs a of None \<Rightarrow> Map.empty | Some m \<Rightarrow> m)(asLowerCaseString k \<mapsto> v))\<rparr>"
| "attr_spec (RemoveCustom k) a =
     a\<lparr>customs := map_option (\<lambda>m. m(asLowerCaseString k := None)) (customs a)\<rparr>"

definition maps_of :: "(item_attr_type \<rightharpoonup> attr_value) \<Rightarrow> attr_maps" where
  "maps_of m =
     \<lparr>ints = (\<lambda>t. if isIntAttrType t then map_option as_integer (m t) else None),
      strs = (\<lambda>t. if isStrAttrType t then map_option as_string (m t) else None),
      customs = map_option (\<lambda>v. map_of (as_custom v)) (m ITEM_ATTRIBUTE_CUSTOM)\<rparr>"

definition attr_rel :: "item_attributes \<Rightarrow> attr_maps \<Rightarrow> bool" where
  "attr_rel c a = (attrs_wf c \<and> a = maps_of (attr_map c))"

lemma int_not_str: "isIntAttrType t \<Longrightarrow> \<not> isStrAttrType t \<and> t \<noteq> ITEM_ATTRIBUTE_CUSTOM"
  using attr_kinds [of t] by blast

lemma maps_of_upd:
  "isIntAttrType t \<Longrightarrow> maps_of (m(t \<mapsto> VInt v)) = (maps_of m)\<lparr>ints := (ints (maps_of m))(t \<mapsto> v)\<rparr>"
  "isStrAttrType t \<Longrightarrow> maps_of (m(t \<mapsto> VStr str)) = (maps_of m)\<lparr>strs := (strs (maps_of m))(t \<mapsto> str)\<rparr>"
  "maps_of (m(ITEM_ATTRIBUTE_CUSTOM \<mapsto> VCustom c)) = (maps_of m)\<lparr>customs := Some (map_of c)\<rparr>"
  using int_not_str by (auto simp: maps_of_def fun_eq_iff)

lemma attr_step_rel: "attr_rel c a \<Longrightarrow> attr_rel (attr_step p c) (attr_spec p a)"
proof -
  assume "attr_rel c a"
  then have wf: "attrs_wf c" and a: "a = maps_of (attr_map c)" by (simp_all add: attr_rel_def)
  show ?thesis
  proof (cases p)
    case (SetInt t v)
    then show ?thesis
      using attrs.put_inv [OF wf, of t "VInt v"] attrs.put_look [OF wf, of t "VInt v"] wf
      by (auto simp: attr_rel_def a setIntAttr_def maps_of_upd)
  next
    case (IncreaseInt t v)
    have "getIntAttr t c = (case ints a t of None \<Rightarrow> 0 | Some i \<Rightarrow> i)" if "isIntAttrType t"
      using that by (simp add: a maps_of_def getIntAttr_map [OF wf] split: option.split)
    with IncreaseInt show ?thesis
      using increaseIntAttr_laws [OF wf, of t v] wf
      by (cases "isIntAttrType t")
        (simp_all add: attr_rel_def a maps_of_upd increaseIntAttr_def)
  next
    case (SetStr t v)
    then show ?thesis
      using attrs.put_inv [OF wf, of t "VStr v"] attrs.put_look [OF wf, of t "VStr v"] wf
      by (auto simp: attr_rel_def a setStrAttr_def maps_of_upd)
  next
    case (RemoveAttr t)
    then show ?thesis
      by (auto simp: attr_rel_def a maps_of_def fun_eq_iff removeAttribute_wf [OF wf]
          removeAttribute_map [OF wf])
  next
    case (SetCustom k v)
    obtain m where m: "attr_map (setCustomAttribute k v c) =
        (attr_map c)(ITEM_ATTRIBUTE_CUSTOM \<mapsto> VCustom m)"
      "map_of m = (custom_of c)(asLowerCaseString k \<mapsto> v)"
      using setCustomAttribute_laws(2) [OF wf, of k v] by blast
    have "custom_of c = (case customs a of None \<Rightarrow> Map.empty | Some m \<Rightarrow> m)"
      by (simp add: a maps_of_def custom_of_def split: option.split)
    with SetCustom m show ?thesis
      using setCustomAttribute_laws(1) [OF wf, of k v] by (simp add: attr_rel_def a maps_of_upd)
  next
    case (RemoveCustom k)
    show ?thesis
    proof (cases "attr_map c ITEM_ATTRIBUTE_CUSTOM")
      case None
      then have "removeCustomAttribute k c = (c, False)"
        by (simp add: removeCustomAttribute_def getCustomAttributeMap_map [OF wf])
      with None RemoveCustom wf show ?thesis by (simp add: attr_rel_def a maps_of_def)
    next
      case (Some v)
      then obtain m where m: "attr_map c ITEM_ATTRIBUTE_CUSTOM = Some (VCustom m)"
        using attr_map_custom [OF wf] by blast
      obtain m' where m': "attr_map (fst (removeCustomAttribute k c)) =
          (attr_map c)(ITEM_ATTRIBUTE_CUSTOM \<mapsto> VCustom m')"
        "map_of m' = (map_of m)(asLowerCaseString k := None)"
        using removeCustomAttribute_laws(2) [OF wf m, of k] by blast
      have "customs a = Some (map_of m)" by (simp add: a maps_of_def m)
      with m' RemoveCustom show ?thesis
        using removeCustomAttribute_laws(1) [OF wf m, of k] by (simp add: attr_rel_def a maps_of_upd)
    qed
  qed
qed

interpretation attr_refinement: refinement attr_step attr_spec attr_rel
  by unfold_locales (rule attr_step_rel)

lemma attr_rel_getters:
  assumes "attr_rel c a"
  shows "hasAttribute t c \<longleftrightarrow> ints a t \<noteq> None \<or> strs a t \<noteq> None \<or>
           t = ITEM_ATTRIBUTE_CUSTOM \<and> customs a \<noteq> None"
    and "getIntAttr t c = (case ints a t of None \<Rightarrow> 0 | Some i \<Rightarrow> i)"
    and "getStrAttr t c = (case strs a t of None \<Rightarrow> [] | Some str \<Rightarrow> str)"
    and "getCustomAttribute k c = (case customs a of None \<Rightarrow> None | Some m \<Rightarrow> m (asLowerCaseString k))"
proof -
  have wf: "attrs_wf c" and a: "a = maps_of (attr_map c)"
    using assms by (simp_all add: attr_rel_def)
  have none: "attr_map c ITEM_ATTRIBUTE_NONE = None"
    using attr_map_kind [OF wf] kind_ok_not_none by (cases "attr_map c ITEM_ATTRIBUTE_NONE") auto
  show "hasAttribute t c \<longleftrightarrow> ints a t \<noteq> None \<or> strs a t \<noteq> None \<or>
           t = ITEM_ATTRIBUTE_CUSTOM \<and> customs a \<noteq> None"
    using attr_kinds [of t] none by (auto simp: hasAttribute_iff [OF wf] a maps_of_def)
  show "getIntAttr t c = (case ints a t of None \<Rightarrow> 0 | Some i \<Rightarrow> i)"
    using getIntAttr_map [OF wf, of t]
    by (cases "isIntAttrType t") (auto simp: a maps_of_def getIntAttr_def split: option.split)
  show "getStrAttr t c = (case strs a t of None \<Rightarrow> [] | Some str \<Rightarrow> str)"
    using getStrAttr_map [OF wf, of t]
    by (cases "isStrAttrType t") (auto simp: a maps_of_def getStrAttr_def split: option.split)
  show "getCustomAttribute k c = (case customs a of None \<Rightarrow> None | Some m \<Rightarrow> m (asLowerCaseString k))"
    by (simp add: getCustomAttribute_def getCustomAttributeMap_map [OF wf] a maps_of_def
        split: option.split)
qed

lemma attr_rel_empty: "attr_rel no_attributes \<lparr>ints = Map.empty, strs = Map.empty, customs = None\<rparr>"
  by (auto simp: attr_rel_def maps_of_def fun_eq_iff)

text \<open>
  C29. After any sequence of changes to fresh attributes, the list and the bit word
  agree with one another, and every getter answers what the maps of integer values,
  strings and custom attributes say: a value set last is the value read, whatever was
  set under another tag, removal removes, an empty string is not stored, and custom
  keys are the same up to case.
\<close>

theorem attributes_implement_maps:
  "\<forall>t k. let c = fold attr_step ops no_attributes;
             a = fold attr_spec ops \<lparr>ints = Map.empty, strs = Map.empty, customs = None\<rparr> in
     attrs_wf c \<and>
     hasAttribute t c =
       (case (ints a t, strs a t) of (None, None) \<Rightarrow> t = ITEM_ATTRIBUTE_CUSTOM \<and> customs a \<noteq> None | _ \<Rightarrow> True) \<and>
     getIntAttr t c = (case ints a t of None \<Rightarrow> 0 | Some i \<Rightarrow> i) \<and>
     getStrAttr t c = (case strs a t of None \<Rightarrow> [] | Some str \<Rightarrow> str) \<and>
     getCustomAttribute k c =
       (case customs a of None \<Rightarrow> None | Some m \<Rightarrow> m (asLowerCaseString k))"
proof -
  have rel: "attr_rel (fold attr_step ops no_attributes)
      (fold attr_spec ops \<lparr>ints = Map.empty, strs = Map.empty, customs = None\<rparr>)"
    by (rule attr_refinement.run_rel [OF attr_rel_empty])
  have wf: "attrs_wf (fold attr_step ops no_attributes)" using rel by (simp only: attr_rel_def)
  show ?thesis
    unfolding Let_def
    by (intro allI conjI wf attr_rel_getters(2-) [OF rel])
      (simp add: attr_rel_getters(1) [OF rel] split: option.split)
qed

end
