(* ===== verification/Items.thy ===== *)
theory Items imports Attributes begin

text \<open>
  \<open>Item\<close> of item.h and item.cpp: an item is its type id, a count and optional
  attributes. The table \<open>Item::items\<close>, loaded from items.otb and items.xml, is the
  function \<open>items\<close> from ids to types. The theory holds construction, subtypes,
  weight and comparison, and the two directions of the attribute format: \<open>serializeAttr\<close>
  and \<open>unserializeAttr\<close> with \<open>readAttr\<close>. Subclasses of \<open>Item\<close> with attributes of
  their own (containers, doors, beds, teleports, depots) override \<open>readAttr\<close> and are
  not part of it.
\<close>

section \<open>Item types\<close>

datatype itemgroup =
    ITEM_GROUP_NONE | ITEM_GROUP_GROUND | ITEM_GROUP_CONTAINER | ITEM_GROUP_WEAPON
  | ITEM_GROUP_AMMUNITION | ITEM_GROUP_ARMOR | ITEM_GROUP_CHARGES | ITEM_GROUP_TELEPORT
  | ITEM_GROUP_MAGICFIELD | ITEM_GROUP_WRITEABLE | ITEM_GROUP_KEY | ITEM_GROUP_SPLASH
  | ITEM_GROUP_FLUID | ITEM_GROUP_DOOR | ITEM_GROUP_DEPRECATED | ITEM_GROUP_LAST

datatype item_types =
    ITEM_TYPE_NONE | ITEM_TYPE_DEPOT | ITEM_TYPE_MAILBOX | ITEM_TYPE_TRASHHOLDER
  | ITEM_TYPE_CONTAINER | ITEM_TYPE_DOOR | ITEM_TYPE_MAGICFIELD | ITEM_TYPE_TELEPORT
  | ITEM_TYPE_BED | ITEM_TYPE_KEY | ITEM_TYPE_RUNE | ITEM_TYPE_LAST

text \<open>The members of \<open>ItemType\<close> the modelled operations read.\<close>

record item_type =
  it_group :: itemgroup
  it_type :: item_types
  it_id :: u16
  it_stackable :: bool
  it_weight :: u32
  it_decayTime :: u32
  it_charges :: u32
  it_decayTo :: u32
  it_maxItems :: u16
  it_pickupable :: bool
  it_moveable :: bool
  it_stopTime :: bool

type_synonym item_table = "u16 \<Rightarrow> item_type"

definition isContainer :: "item_type \<Rightarrow> bool" where
  "isContainer t = (it_group t = ITEM_GROUP_CONTAINER)"

definition isSplash :: "item_type \<Rightarrow> bool" where
  "isSplash t = (it_group t = ITEM_GROUP_SPLASH)"

definition isFluidContainer :: "item_type \<Rightarrow> bool" where
  "isFluidContainer t = (it_group t = ITEM_GROUP_FLUID)"

definition hasSubType :: "item_type \<Rightarrow> bool" where
  "hasSubType t = (isFluidContainer t \<or> isSplash t \<or> it_stackable t \<or> it_charges t \<noteq> 0)"

section \<open>Items\<close>

record item =
  item_id :: u16
  item_count :: u8
  item_attrs :: "item_attributes option"

text \<open>\<open>getAttributes\<close> creates the attributes when they are first needed.\<close>

definition getAttributes :: "item \<Rightarrow> item_attributes" where
  "getAttributes it = (case item_attrs it of None \<Rightarrow> no_attributes | Some s \<Rightarrow> s)"

definition on_attrs :: "(item_attributes \<Rightarrow> item_attributes) \<Rightarrow> item \<Rightarrow> item" where
  "on_attrs f it = it\<lparr>item_attrs := Some (f (getAttributes it))\<rparr>"

definition i_hasAttribute :: "item_attr_type \<Rightarrow> item \<Rightarrow> bool" where
  "i_hasAttribute t it = (case item_attrs it of None \<Rightarrow> False | Some s \<Rightarrow> hasAttribute t s)"

definition i_removeAttribute :: "item_attr_type \<Rightarrow> item \<Rightarrow> item" where
  "i_removeAttribute t it =
     (case item_attrs it of None \<Rightarrow> it | Some s \<Rightarrow> it\<lparr>item_attrs := Some (removeAttribute t s)\<rparr>)"

definition i_getStrAttr :: "item_attr_type \<Rightarrow> item \<Rightarrow> bytes" where
  "i_getStrAttr t it = (case item_attrs it of None \<Rightarrow> [] | Some s \<Rightarrow> getStrAttr t s)"

definition i_setStrAttr :: "item_attr_type \<Rightarrow> bytes \<Rightarrow> item \<Rightarrow> item" where
  "i_setStrAttr t v it = on_attrs (setStrAttr t v) it"

text \<open>The integers of an \<open>Item\<close> are 32 bits wide, those of its attributes 64.\<close>

definition i_getIntAttr :: "item_attr_type \<Rightarrow> item \<Rightarrow> u32" where
  "i_getIntAttr t it = (case item_attrs it of None \<Rightarrow> 0 | Some s \<Rightarrow> ucast (getIntAttr t s))"

definition i_setIntAttr :: "item_attr_type \<Rightarrow> u32 \<Rightarrow> item \<Rightarrow> item" where
  "i_setIntAttr t v it = on_attrs (setIntAttr t (scast v)) it"

definition i_increaseIntAttr :: "item_attr_type \<Rightarrow> u32 \<Rightarrow> item \<Rightarrow> item" where
  "i_increaseIntAttr t v it = on_attrs (increaseIntAttr t (scast v)) it"

definition i_setCustomAttribute :: "bytes \<Rightarrow> custom_attr \<Rightarrow> item \<Rightarrow> item" where
  "i_setCustomAttribute k v it = on_attrs (setCustomAttribute k v) it"

definition setActionId :: "u16 \<Rightarrow> item \<Rightarrow> item" where
  "setActionId n it =
     (let n = (if n < 100 then 100 else n) in i_setIntAttr ITEM_ATTRIBUTE_ACTIONID (ucast n) it)"

definition getActionId :: "item \<Rightarrow> u16" where
  "getActionId it = ucast (i_getIntAttr ITEM_ATTRIBUTE_ACTIONID it)"

definition getUniqueId :: "item \<Rightarrow> u16" where
  "getUniqueId it = ucast (i_getIntAttr ITEM_ATTRIBUTE_UNIQUEID it)"

definition setCharges :: "u16 \<Rightarrow> item \<Rightarrow> item" where
  "setCharges n it = i_setIntAttr ITEM_ATTRIBUTE_CHARGES (ucast n) it"

definition getCharges :: "item \<Rightarrow> u16" where
  "getCharges it = ucast (i_getIntAttr ITEM_ATTRIBUTE_CHARGES it)"

definition setFluidType :: "u16 \<Rightarrow> item \<Rightarrow> item" where
  "setFluidType n it = i_setIntAttr ITEM_ATTRIBUTE_FLUIDTYPE (ucast n) it"

definition getFluidType :: "item \<Rightarrow> u16" where
  "getFluidType it = ucast (i_getIntAttr ITEM_ATTRIBUTE_FLUIDTYPE it)"

definition setDuration :: "u32 \<Rightarrow> item \<Rightarrow> item" where
  "setDuration time it = i_setIntAttr ITEM_ATTRIBUTE_DURATION time it"

definition getDuration :: "item \<Rightarrow> u32" where
  "getDuration it = i_getIntAttr ITEM_ATTRIBUTE_DURATION it"

definition DECAYING_FALSE :: u32 where "DECAYING_FALSE = 0"
definition DECAYING_TRUE :: u32 where "DECAYING_TRUE = 1"
definition DECAYING_PENDING :: u32 where "DECAYING_PENDING = 2"

definition setDecaying :: "u32 \<Rightarrow> item \<Rightarrow> item" where
  "setDecaying decayState it = i_setIntAttr ITEM_ATTRIBUTE_DECAYSTATE decayState it"

text \<open>The cast to \<open>ItemDecayState_t\<close> keeps eight bits.\<close>

definition getDecaying :: "item \<Rightarrow> u8" where
  "getDecaying it = ucast (i_getIntAttr ITEM_ATTRIBUTE_DECAYSTATE it)"

definition getDefaultDuration :: "item_table \<Rightarrow> item \<Rightarrow> u32" where
  "getDefaultDuration items it = it_decayTime (items (item_id it)) * 1000"

definition setDefaultDuration :: "item_table \<Rightarrow> item \<Rightarrow> item" where
  "setDefaultDuration items it =
     (if getDefaultDuration items it \<noteq> 0 then setDuration (getDefaultDuration items it) it else it)"

definition setItemCount :: "u8 \<Rightarrow> item \<Rightarrow> item" where
  "setItemCount n it = it\<lparr>item_count := n\<rparr>"

definition getSubType :: "item_table \<Rightarrow> item \<Rightarrow> u16" where
  "getSubType items it =
     (let t = items (item_id it) in
      if isFluidContainer t \<or> isSplash t then getFluidType it
      else if it_stackable t then ucast (item_count it)
      else if it_charges t \<noteq> 0 then getCharges it
      else ucast (item_count it))"

definition setSubType :: "item_table \<Rightarrow> u16 \<Rightarrow> item \<Rightarrow> item" where
  "setSubType items n it =
     (let t = items (item_id it) in
      if isFluidContainer t \<or> isSplash t then setFluidType n it
      else if it_stackable t then setItemCount (ucast n) it
      else if it_charges t \<noteq> 0 then setCharges n it
      else setItemCount (ucast n) it)"

text \<open>The constructor \<open>Item(type, count)\<close>.\<close>

definition newItem :: "item_table \<Rightarrow> u16 \<Rightarrow> u16 \<Rightarrow> item" where
  "newItem items tid n =
     (let it = \<lparr>item_id = tid, item_count = 1, item_attrs = None\<rparr>;
          t = items tid;
          it = (if isFluidContainer t \<or> isSplash t then setFluidType n it
                else if it_stackable t then
                  (if n \<noteq> 0 then setItemCount (ucast n) it
                   else if it_charges t \<noteq> 0 then setItemCount (ucast (it_charges t)) it
                   else it)
                else if it_charges t \<noteq> 0 then
                  (if n \<noteq> 0 then setCharges n it else setCharges (ucast (it_charges t)) it)
                else it)
      in setDefaultDuration items it)"

definition setDefaultSubtype :: "item_table \<Rightarrow> item \<Rightarrow> item" where
  "setDefaultSubtype items it =
     (let t = items (item_id it);
          it = setItemCount 1 it
      in if it_charges t \<noteq> 0 then
           (if it_stackable t then setItemCount (ucast (it_charges t)) it
            else setCharges (ucast (it_charges t)) it)
         else it)"

definition setID :: "item_table \<Rightarrow> u16 \<Rightarrow> item \<Rightarrow> item" where
  "setID items newid it =
     (let prevIt = items (item_id it);
          it = it\<lparr>item_id := newid\<rparr>;
          t = items newid;
          newDuration = it_decayTime t * 1000;
          it = (if newDuration = 0 \<and> \<not> it_stopTime t \<and> sint (it_decayTo t) < 0
                then i_removeAttribute ITEM_ATTRIBUTE_DURATION
                       (i_removeAttribute ITEM_ATTRIBUTE_DECAYSTATE it)
                else it);
          it = i_removeAttribute ITEM_ATTRIBUTE_CORPSEOWNER it
      in if 0 < newDuration \<and> (\<not> it_stopTime prevIt \<or> \<not> i_hasAttribute ITEM_ATTRIBUTE_DURATION it)
         then setDuration newDuration (setDecaying DECAYING_FALSE it)
         else it)"

definition getBaseWeight :: "item_table \<Rightarrow> item \<Rightarrow> u32" where
  "getBaseWeight items it =
     (if i_hasAttribute ITEM_ATTRIBUTE_WEIGHT it then i_getIntAttr ITEM_ATTRIBUTE_WEIGHT it
      else it_weight (items (item_id it)))"

definition getWeight :: "item_table \<Rightarrow> item \<Rightarrow> u32" where
  "getWeight items it =
     (let weight = getBaseWeight items it in
      if it_stackable (items (item_id it)) then weight * max 1 (ucast (item_count it))
      else weight)"

definition countByType :: "item_table \<Rightarrow> item \<Rightarrow> int \<Rightarrow> u32" where
  "countByType items it subType =
     (if subType = -1 \<or> subType = uint (getSubType items it) then ucast (item_count it) else 0)"

text \<open>
  Comparison of two items. String attributes are compared by content and integers by
  value; for custom attributes the code compares the \<open>integer\<close> member of the union,
  which holds the pointer to the map. Every item owns its map, so the pointers are
  equal only when an item is compared with itself, which \<open>same\<close> tells.
\<close>

definition same_value :: "bool \<Rightarrow> attribute \<Rightarrow> attribute \<Rightarrow> bool" where
  "same_value same a b =
     (if isStrAttrType (atype a) then as_string (avalue a) = as_string (avalue b)
      else case (avalue a, avalue b) of
             (VInt i, VInt j) \<Rightarrow> i = j
           | _ \<Rightarrow> same)"

definition equals :: "bool \<Rightarrow> item \<Rightarrow> item \<Rightarrow> bool" where
  "equals same it other =
     (if item_id it \<noteq> item_id other then False
      else case item_attrs it of
             None \<Rightarrow> item_attrs other = None
           | Some s \<Rightarrow>
               (case item_attrs other of
                  None \<Rightarrow> False
                | Some s' \<Rightarrow>
                    attributeBits s = attributeBits s' \<and>
                    (\<forall>a \<in> set (attr_list s). \<forall>b \<in> set (attr_list s').
                       atype a = atype b \<longrightarrow> same_value same a b)))"

end
