(* ===== verification/ItemIO.thy ===== *)
theory ItemIO imports Items begin

text \<open>
  The byte format of an item's attributes (item.cpp): \<open>serializeAttr\<close> writes tag bytes
  each followed by a value, \<open>unserializeAttr\<close> reads them back one by one with
  \<open>readAttr\<close>. A read changes the item and, for unique ids, the table of the game.
\<close>

section \<open>Tags of the format\<close>

datatype attr_types =
    ATTR_TILE_FLAGS | ATTR_ACTION_ID | ATTR_UNIQUE_ID | ATTR_TEXT | ATTR_DESC | ATTR_TELE_DEST
  | ATTR_ITEM | ATTR_DEPOT_ID | ATTR_RUNE_CHARGES | ATTR_HOUSEDOORID | ATTR_COUNT
  | ATTR_DURATION | ATTR_DECAYING_STATE | ATTR_WRITTENDATE | ATTR_WRITTENBY
  | ATTR_SLEEPERGUID | ATTR_SLEEPSTART | ATTR_CHARGES | ATTR_CONTAINER_ITEMS | ATTR_NAME
  | ATTR_ARTICLE | ATTR_PLURALNAME | ATTR_WEIGHT | ATTR_ATTACK | ATTR_DEFENSE
  | ATTR_EXTRADEFENSE | ATTR_ARMOR | ATTR_HITCHANCE | ATTR_SHOOTRANGE
  | ATTR_CUSTOM_ATTRIBUTES

fun attr_code :: "attr_types \<Rightarrow> u8" where
  "attr_code ATTR_TILE_FLAGS = 3"
| "attr_code ATTR_ACTION_ID = 4"
| "attr_code ATTR_UNIQUE_ID = 5"
| "attr_code ATTR_TEXT = 6"
| "attr_code ATTR_DESC = 7"
| "attr_code ATTR_TELE_DEST = 8"
| "attr_code ATTR_ITEM = 9"
| "attr_code ATTR_DEPOT_ID = 10"
| "attr_code ATTR_RUNE_CHARGES = 12"
| "attr_code ATTR_HOUSEDOORID = 14"
| "attr_code ATTR_COUNT = 15"
| "attr_code ATTR_DURATION = 16"
| "attr_code ATTR_DECAYING_STATE = 17"
| "attr_code ATTR_WRITTENDATE = 18"
| "attr_code ATTR_WRITTENBY = 19"
| "attr_code ATTR_SLEEPERGUID = 20"
| "attr_code ATTR_SLEEPSTART = 21"
| "attr_code ATTR_CHARGES = 22"
| "attr_code ATTR_CONTAINER_ITEMS = 23"
| "attr_code ATTR_NAME = 24"
| "attr_code ATTR_ARTICLE = 25"
| "attr_code ATTR_PLURALNAME = 26"
| "attr_code ATTR_WEIGHT = 27"
| "attr_code ATTR_ATTACK = 28"
| "attr_code ATTR_DEFENSE = 29"
| "attr_code ATTR_EXTRADEFENSE = 30"
| "attr_code ATTR_ARMOR = 31"
| "attr_code ATTR_HITCHANCE = 32"
| "attr_code ATTR_SHOOTRANGE = 33"
| "attr_code ATTR_CUSTOM_ATTRIBUTES = 34"

text \<open>The cast of a byte to \<open>AttrTypes_t\<close>; a byte that is no enumerator is \<open>None\<close>.\<close>

definition attr_of_code :: "u8 \<Rightarrow> attr_types option" where
  "attr_of_code b = List.find (\<lambda>t. attr_code t = b)
     [ATTR_TILE_FLAGS, ATTR_ACTION_ID, ATTR_UNIQUE_ID, ATTR_TEXT, ATTR_DESC, ATTR_TELE_DEST,
      ATTR_ITEM, ATTR_DEPOT_ID, ATTR_RUNE_CHARGES, ATTR_HOUSEDOORID, ATTR_COUNT,
      ATTR_DURATION, ATTR_DECAYING_STATE, ATTR_WRITTENDATE, ATTR_WRITTENBY,
      ATTR_SLEEPERGUID, ATTR_SLEEPSTART, ATTR_CHARGES, ATTR_CONTAINER_ITEMS, ATTR_NAME,
      ATTR_ARTICLE, ATTR_PLURALNAME, ATTR_WEIGHT, ATTR_ATTACK, ATTR_DEFENSE,
      ATTR_EXTRADEFENSE, ATTR_ARMOR, ATTR_HITCHANCE, ATTR_SHOOTRANGE,
      ATTR_CUSTOM_ATTRIBUTES]"

lemma attr_of_code_code [simp]: "attr_of_code (attr_code t) = Some t"
  by (cases t) (simp_all add: attr_of_code_def)

lemma attr_code_nonzero [simp]: "attr_code t \<noteq> 0"
  by (cases t) simp_all

section \<open>Reading\<close>

datatype attr_read = ATTR_READ_CONTINUE | ATTR_READ_ERROR | ATTR_READ_END

text \<open>
  The item being read and the table \<open>Game::uniqueItems\<close>; \<open>self\<close> is the address the
  table keeps for the item.
\<close>

record read_state =
  rs_item :: item
  uniqueItems :: "u16 \<rightharpoonup> nat"

definition addUniqueItem :: "u16 \<Rightarrow> nat \<Rightarrow> read_state \<Rightarrow> read_state \<times> bool" where
  "addUniqueItem n self st =
     (if uniqueItems st n = None then (st\<lparr>uniqueItems := (uniqueItems st)(n \<mapsto> self)\<rparr>, True)
      else (st, False))"

definition setUniqueId :: "nat \<Rightarrow> u16 \<Rightarrow> read_state \<Rightarrow> read_state" where
  "setUniqueId self n st =
     (if i_hasAttribute ITEM_ATTRIBUTE_UNIQUEID (rs_item st) then st
      else case addUniqueItem n self st of
             (st, True) \<Rightarrow>
               st\<lparr>rs_item := on_attrs (setIntAttr ITEM_ATTRIBUTE_UNIQUEID (ucast n)) (rs_item st)\<rparr>
           | (st, False) \<Rightarrow> st)"

text \<open>The common shape of a case of \<open>readAttr\<close>: a failed read is an error, a value is used.\<close>

definition use_value ::
  "prop_stream \<times> 'a option \<Rightarrow> ('a \<Rightarrow> item \<Rightarrow> item) \<Rightarrow> read_state \<Rightarrow>
     attr_read \<times> prop_stream \<times> read_state" where
  "use_value r f st =
     (case r of
        (s, None) \<Rightarrow> (ATTR_READ_ERROR, s, st)
      | (s, Some v) \<Rightarrow> (ATTR_READ_CONTINUE, s, st\<lparr>rs_item := f v (rs_item st)\<rparr>))"

definition skip_value ::
  "nat \<Rightarrow> prop_stream \<Rightarrow> read_state \<Rightarrow> attr_read \<times> prop_stream \<times> read_state" where
  "skip_value n s st =
     (case ps_skip n s of
        (s, ok) \<Rightarrow> (if ok then ATTR_READ_CONTINUE else ATTR_READ_ERROR, s, st))"

fun read_customs :: "nat \<Rightarrow> prop_stream \<Rightarrow> item \<Rightarrow> bool \<times> prop_stream \<times> item" where
  "read_customs 0 s it = (True, s, it)"
| "read_customs (Suc n) s it =
     (case ps_readString s of
        (s, None) \<Rightarrow> (False, s, it)
      | (s, Some key) \<Rightarrow>
          (case unserialize_custom s of
             (s, None) \<Rightarrow> (False, s, it)
           | (s, Some val) \<Rightarrow> read_customs n s (i_setCustomAttribute key val it)))"

definition readAttr ::
  "item_table \<Rightarrow> nat \<Rightarrow> attr_types option \<Rightarrow> prop_stream \<Rightarrow> read_state \<Rightarrow>
     attr_read \<times> prop_stream \<times> read_state" where
  "readAttr items self attr s st =
     (case attr of
        None \<Rightarrow> (ATTR_READ_ERROR, s, st)
      | Some t \<Rightarrow>
        (case t of
           ATTR_COUNT \<Rightarrow> use_value (ps_read 1 s) (\<lambda>n :: u8. setSubType items (ucast n)) st
         | ATTR_RUNE_CHARGES \<Rightarrow> use_value (ps_read 1 s) (\<lambda>n :: u8. setSubType items (ucast n)) st
         | ATTR_ACTION_ID \<Rightarrow> use_value (ps_read 2 s) setActionId st
         | ATTR_UNIQUE_ID \<Rightarrow>
             (case ps_read 2 s of
                (s, None) \<Rightarrow> (ATTR_READ_ERROR, s, st)
              | (s, Some n) \<Rightarrow> (ATTR_READ_CONTINUE, s, setUniqueId self n st))
         | ATTR_TEXT \<Rightarrow> use_value (ps_readString s) (i_setStrAttr ITEM_ATTRIBUTE_TEXT) st
         | ATTR_WRITTENDATE \<Rightarrow> use_value (ps_read 4 s) (i_setIntAttr ITEM_ATTRIBUTE_DATE) st
         | ATTR_WRITTENBY \<Rightarrow> use_value (ps_readString s) (i_setStrAttr ITEM_ATTRIBUTE_WRITER) st
         | ATTR_DESC \<Rightarrow> use_value (ps_readString s) (i_setStrAttr ITEM_ATTRIBUTE_DESCRIPTION) st
         | ATTR_CHARGES \<Rightarrow> use_value (ps_read 2 s) (setSubType items) st
         | ATTR_DURATION \<Rightarrow>
             use_value (ps_read 4 s) (\<lambda>d :: u32. setDuration (if sint d < 0 then 0 else d)) st
         | ATTR_DECAYING_STATE \<Rightarrow>
             use_value (ps_read 1 s)
               (\<lambda>state :: u8. if ucast state \<noteq> DECAYING_FALSE then setDecaying DECAYING_PENDING
                              else (\<lambda>it. it)) st
         | ATTR_NAME \<Rightarrow> use_value (ps_readString s) (i_setStrAttr ITEM_ATTRIBUTE_NAME) st
         | ATTR_ARTICLE \<Rightarrow> use_value (ps_readString s) (i_setStrAttr ITEM_ATTRIBUTE_ARTICLE) st
         | ATTR_PLURALNAME \<Rightarrow> use_value (ps_readString s) (i_setStrAttr ITEM_ATTRIBUTE_PLURALNAME) st
         | ATTR_WEIGHT \<Rightarrow> use_value (ps_read 4 s) (i_setIntAttr ITEM_ATTRIBUTE_WEIGHT) st
         | ATTR_ATTACK \<Rightarrow> use_value (ps_read 4 s) (i_setIntAttr ITEM_ATTRIBUTE_ATTACK) st
         | ATTR_DEFENSE \<Rightarrow> use_value (ps_read 4 s) (i_setIntAttr ITEM_ATTRIBUTE_DEFENSE) st
         | ATTR_EXTRADEFENSE \<Rightarrow> use_value (ps_read 4 s) (i_setIntAttr ITEM_ATTRIBUTE_EXTRADEFENSE) st
         | ATTR_ARMOR \<Rightarrow> use_value (ps_read 4 s) (i_setIntAttr ITEM_ATTRIBUTE_ARMOR) st
         | ATTR_HITCHANCE \<Rightarrow>
             use_value (ps_read 1 s) (\<lambda>h :: u8. i_setIntAttr ITEM_ATTRIBUTE_HITCHANCE (scast h)) st
         | ATTR_SHOOTRANGE \<Rightarrow>
             use_value (ps_read 1 s) (\<lambda>h :: u8. i_setIntAttr ITEM_ATTRIBUTE_SHOOTRANGE (ucast h)) st
         | ATTR_DEPOT_ID \<Rightarrow> skip_value 2 s st
         | ATTR_HOUSEDOORID \<Rightarrow> skip_value 1 s st
         | ATTR_SLEEPERGUID \<Rightarrow> skip_value 4 s st
         | ATTR_SLEEPSTART \<Rightarrow> skip_value 4 s st
         | ATTR_TELE_DEST \<Rightarrow> skip_value 5 s st
         | ATTR_CONTAINER_ITEMS \<Rightarrow> (ATTR_READ_ERROR, s, st)
         | ATTR_CUSTOM_ATTRIBUTES \<Rightarrow>
             (case ps_read 8 s of
                (s, None) \<Rightarrow> (ATTR_READ_ERROR, s, st)
              | (s, Some entries) \<Rightarrow>
                  (case read_customs (unat (entries :: u64)) s (rs_item st) of
                     (ok, s, it) \<Rightarrow>
                       (if ok then ATTR_READ_CONTINUE else ATTR_READ_ERROR, s, st\<lparr>rs_item := it\<rparr>)))
         | ATTR_TILE_FLAGS \<Rightarrow> (ATTR_READ_ERROR, s, st)
         | ATTR_ITEM \<Rightarrow> (ATTR_READ_ERROR, s, st)))"

text \<open>No read lengthens the stream.\<close>

lemma ps_read_len: "ps_read n s = (s', r) \<Longrightarrow> length (unread s') \<le> length (unread s)"
  by (auto simp: ps_defs split: if_splits)

lemma ps_readString_len: "ps_readString s = (s', r) \<Longrightarrow> length (unread s') \<le> length (unread s)"
  by (drule ps_readString_suffix) auto

lemma ps_skip_len: "ps_skip n s = (s', r) \<Longrightarrow> length (unread s') \<le> length (unread s)"
  by (auto simp: ps_defs split: if_splits)

lemma ps_fst_len:
  "length (unread (fst (ps_read n s :: prop_stream \<times> 'a::len word option))) \<le> length (unread s)"
  "length (unread (fst (ps_readString s))) \<le> length (unread s)"
  using ps_read_len [of n s] ps_readString_len [of s] by (metis prod.collapse)+

lemma unserialize_custom_len:
  "unserialize_custom s = (s', r) \<Longrightarrow> length (unread s') \<le> length (unread s)"
  unfolding unserialize_custom_def with_value_def
  by (auto split: prod.splits option.splits if_splits
      dest!: ps_read_len ps_readString_len
      intro: order_trans [OF ps_fst_len(1)] order_trans [OF ps_fst_len(2)])

lemma read_customs_len:
  "read_customs n s it = (ok, s', it') \<Longrightarrow> length (unread s') \<le> length (unread s)"
  by (induction n s it rule: read_customs.induct)
    (fastforce split: prod.splits option.splits dest!: ps_readString_len unserialize_custom_len)+

lemma use_value_len:
  "use_value r f st = (ret, s', st') \<Longrightarrow> length (unread (fst r)) \<le> n \<Longrightarrow> length (unread s') \<le> n"
  by (auto simp: use_value_def split: prod.splits option.splits)

lemma skip_value_len:
  "skip_value n s st = (ret, s', st') \<Longrightarrow> length (unread s') \<le> length (unread s)"
  by (auto simp: skip_value_def split: prod.splits if_splits dest: ps_skip_len)

lemma readAttr_len:
  assumes "readAttr items self attr s st = (ret, s', st')"
  shows "length (unread s') \<le> length (unread s)"
proof (cases attr)
  case None
  with assms show ?thesis by (simp add: readAttr_def)
next
  case (Some t)
  show ?thesis
    using assms
    by (cases t)
      (auto simp: readAttr_def Some split: prod.splits option.splits
        dest: use_value_len [OF _ ps_fst_len(1)] use_value_len [OF _ ps_fst_len(2)]
          skip_value_len read_customs_len ps_read_len intro: order_trans)
qed

text \<open>The loop of \<open>unserializeAttr\<close>.\<close>

function unserializeAttr ::
  "item_table \<Rightarrow> nat \<Rightarrow> prop_stream \<Rightarrow> read_state \<Rightarrow> bool \<times> prop_stream \<times> read_state" where
  "unserializeAttr items self s st =
     (case ps_read 1 s of
        (s1, None) \<Rightarrow> (True, s1, st)
      | (s1, Some attr_type) \<Rightarrow>
          if attr_type = 0 then (True, s1, st)
          else (case readAttr items self (attr_of_code attr_type) s1 st of
                  (ret, s2, st') \<Rightarrow>
                    if ret = ATTR_READ_ERROR then (False, s2, st')
                    else if ret = ATTR_READ_END then (True, s2, st')
                    else unserializeAttr items self s2 st'))"
  by pat_completeness auto
termination
proof (relation "measure (\<lambda>(items, self, s, st). length (unread s))", goal_cases)
  case 1
  show ?case by simp
next
  case (2 items self s st p s1 o1 attr_type q ret q')
  then show ?case
    by (auto simp: ps_defs split: if_splits dest!: readAttr_len [OF sym] intro: le_less_trans)
qed

declare unserializeAttr.simps [simp del]

section \<open>Writing\<close>

text \<open>Writing one tagged value, when the condition holds.\<close>

definition put_attr ::
  "bool \<Rightarrow> attr_types \<Rightarrow> (prop_write_stream \<Rightarrow> prop_write_stream) \<Rightarrow>
     prop_write_stream \<Rightarrow> prop_write_stream" where
  "put_attr c t w s = (if c then w (pw_write 1 (attr_code t) s) else s)"

fun write_customs :: "custom_map \<Rightarrow> prop_write_stream \<Rightarrow> prop_write_stream" where
  "write_customs [] s = s"
| "write_customs ((k, v) # m) s = write_customs m (serialize_custom v (pw_writeString k s))"

definition custom_list :: "item \<Rightarrow> custom_map" where
  "custom_list it =
     (case getCustomAttributeMap (getAttributes it) of None \<Rightarrow> [] | Some m \<Rightarrow> m)"

definition serializeAttr :: "item_table \<Rightarrow> item \<Rightarrow> prop_write_stream \<Rightarrow> prop_write_stream" where
  "serializeAttr items it s =
     (let t = items (item_id it);
          s = put_attr (it_stackable t \<or> isFluidContainer t \<or> isSplash t) ATTR_COUNT
                (pw_write 1 (ucast (getSubType items it) :: u8)) s;
          s = put_attr (getCharges it \<noteq> 0) ATTR_CHARGES (pw_write 2 (getCharges it)) s;
          s = put_attr (it_moveable t \<and> getActionId it \<noteq> 0) ATTR_ACTION_ID
                (pw_write 2 (getActionId it)) s;
          s = put_attr (i_getStrAttr ITEM_ATTRIBUTE_TEXT it \<noteq> []) ATTR_TEXT
                (pw_writeString (i_getStrAttr ITEM_ATTRIBUTE_TEXT it)) s;
          s = put_attr (i_getIntAttr ITEM_ATTRIBUTE_DATE it \<noteq> 0) ATTR_WRITTENDATE
                (pw_write 4 (i_getIntAttr ITEM_ATTRIBUTE_DATE it)) s;
          s = put_attr (i_getStrAttr ITEM_ATTRIBUTE_WRITER it \<noteq> []) ATTR_WRITTENBY
                (pw_writeString (i_getStrAttr ITEM_ATTRIBUTE_WRITER it)) s;
          s = put_attr (i_getStrAttr ITEM_ATTRIBUTE_DESCRIPTION it \<noteq> []) ATTR_DESC
                (pw_writeString (i_getStrAttr ITEM_ATTRIBUTE_DESCRIPTION it)) s;
          s = put_attr (i_hasAttribute ITEM_ATTRIBUTE_DURATION it) ATTR_DURATION
                (pw_write 4 (i_getIntAttr ITEM_ATTRIBUTE_DURATION it)) s;
          s = put_attr (ucast (getDecaying it) = DECAYING_TRUE \<or> ucast (getDecaying it) = DECAYING_PENDING)
                ATTR_DECAYING_STATE (pw_write 1 (getDecaying it)) s;
          s = put_attr (i_hasAttribute ITEM_ATTRIBUTE_NAME it) ATTR_NAME
                (pw_writeString (i_getStrAttr ITEM_ATTRIBUTE_NAME it)) s;
          s = put_attr (i_hasAttribute ITEM_ATTRIBUTE_ARTICLE it) ATTR_ARTICLE
                (pw_writeString (i_getStrAttr ITEM_ATTRIBUTE_ARTICLE it)) s;
          s = put_attr (i_hasAttribute ITEM_ATTRIBUTE_PLURALNAME it) ATTR_PLURALNAME
                (pw_writeString (i_getStrAttr ITEM_ATTRIBUTE_PLURALNAME it)) s;
          s = put_attr (i_hasAttribute ITEM_ATTRIBUTE_WEIGHT it) ATTR_WEIGHT
                (pw_write 4 (i_getIntAttr ITEM_ATTRIBUTE_WEIGHT it)) s;
          s = put_attr (i_hasAttribute ITEM_ATTRIBUTE_ATTACK it) ATTR_ATTACK
                (pw_write 4 (i_getIntAttr ITEM_ATTRIBUTE_ATTACK it)) s;
          s = put_attr (i_hasAttribute ITEM_ATTRIBUTE_DEFENSE it) ATTR_DEFENSE
                (pw_write 4 (i_getIntAttr ITEM_ATTRIBUTE_DEFENSE it)) s;
          s = put_attr (i_hasAttribute ITEM_ATTRIBUTE_EXTRADEFENSE it) ATTR_EXTRADEFENSE
                (pw_write 4 (i_getIntAttr ITEM_ATTRIBUTE_EXTRADEFENSE it)) s;
          s = put_attr (i_hasAttribute ITEM_ATTRIBUTE_ARMOR it) ATTR_ARMOR
                (pw_write 4 (i_getIntAttr ITEM_ATTRIBUTE_ARMOR it)) s;
          s = put_attr (i_hasAttribute ITEM_ATTRIBUTE_HITCHANCE it) ATTR_HITCHANCE
                (pw_write 1 (ucast (i_getIntAttr ITEM_ATTRIBUTE_HITCHANCE it) :: u8)) s;
          s = put_attr (i_hasAttribute ITEM_ATTRIBUTE_SHOOTRANGE it) ATTR_SHOOTRANGE
                (pw_write 1 (ucast (i_getIntAttr ITEM_ATTRIBUTE_SHOOTRANGE it) :: u8)) s
      in put_attr (i_hasAttribute ITEM_ATTRIBUTE_CUSTOM it) ATTR_CUSTOM_ATTRIBUTES
           (\<lambda>s. write_customs (custom_list it)
                  (pw_write 8 (of_nat (length (custom_list it)) :: u64) s)) s)"

end
