(* ===== verification/ItemIOProps.thy ===== *)
theory ItemIOProps imports ItemIO begin

text \<open>
  What an item writes is read back: the attributes of an item stored with
  \<open>serializeAttr\<close> and loaded with \<open>unserializeAttr\<close> into a new item of the same type.
\<close>

section \<open>Items as attribute maps\<close>

definition item_inv :: "item \<Rightarrow> bool" where
  "item_inv it = attrs_wf (getAttributes it)"

definition item_look :: "item \<Rightarrow> item_attr_type \<rightharpoonup> attr_value" where
  "item_look it = attr_map (getAttributes it)"

definition iput :: "item_attr_type \<Rightarrow> attr_value \<Rightarrow> item \<Rightarrow> item" where
  "iput t v it = on_attrs (getAttr t (\<lambda>_. v)) it"

lemma getAttributes_on_attrs [simp]: "getAttributes (on_attrs f it) = f (getAttributes it)"
  by (simp add: on_attrs_def getAttributes_def)

lemma on_attrs_fields [simp]:
  "item_id (on_attrs f it) = item_id it" "item_count (on_attrs f it) = item_count it"
  by (simp_all add: on_attrs_def)

lemma iput_fields [simp]:
  "item_id (iput t v it) = item_id it" "item_count (iput t v it) = item_count it"
  by (simp_all add: iput_def)

lemma no_attributes_getters:
  "hasAttribute t no_attributes = False" "getIntAttr t no_attributes = 0"
  "getStrAttr t no_attributes = []"
  by (simp_all add: hasAttribute_iff getIntAttr_def getStrAttr_def getExistingAttr_def)

lemma item_getters:
  "i_hasAttribute t it = hasAttribute t (getAttributes it)"
  "i_getIntAttr t it = ucast (getIntAttr t (getAttributes it))"
  "i_getStrAttr t it = getStrAttr t (getAttributes it)"
  by (simp_all add: i_hasAttribute_def i_getIntAttr_def i_getStrAttr_def getAttributes_def
      no_attributes_getters split: option.split)

interpretation iattrs: attribute_map item_inv item_look iput i_removeAttribute kind_ok
proof
  fix it k v
  assume "item_inv it" "kind_ok k v"
  then show "item_inv (iput k v it)" "item_look (iput k v it) = (item_look it)(k \<mapsto> v)"
    by (simp_all add: item_inv_def item_look_def iput_def attrs.put_inv attrs.put_look)
next
  fix it k
  assume "item_inv it"
  then show "item_inv (i_removeAttribute k it)" "item_look (i_removeAttribute k it) = (item_look it)(k := None)"
    by (auto simp: item_inv_def item_look_def i_removeAttribute_def getAttributes_def
        removeAttribute_wf removeAttribute_map fun_eq_iff split: option.splits)
qed

lemma item_has: "item_inv it \<Longrightarrow> i_hasAttribute t it \<longleftrightarrow> item_look it t \<noteq> None"
  by (simp add: item_getters item_inv_def item_look_def hasAttribute_iff)

lemma item_int:
  "item_inv it \<Longrightarrow> isIntAttrType t \<Longrightarrow>
     i_getIntAttr t it = (case item_look it t of None \<Rightarrow> 0 | Some v \<Rightarrow> ucast (as_integer v))"
  by (simp add: item_getters item_inv_def item_look_def getIntAttr_map split: option.split)

lemma item_str:
  "item_inv it \<Longrightarrow> isStrAttrType t \<Longrightarrow>
     i_getStrAttr t it = (case item_look it t of None \<Rightarrow> [] | Some v \<Rightarrow> as_string v)"
  by (simp add: item_getters item_inv_def item_look_def getStrAttr_map)

lemma i_setIntAttr_iput: "isIntAttrType t \<Longrightarrow> i_setIntAttr t v it = iput t (VInt (scast v)) it"
  by (simp add: i_setIntAttr_def iput_def on_attrs_def setIntAttr_put)

lemma i_setStrAttr_iput: "isStrAttrType t \<Longrightarrow> v \<noteq> [] \<Longrightarrow> i_setStrAttr t v it = iput t (VStr v) it"
  by (simp add: i_setStrAttr_def iput_def on_attrs_def setStrAttr_put)

lemma ucast_scast [simp]: "ucast (scast (v :: u32) :: u64) = v"
  by (rule bit_word_eqI) (auto simp: bit_ucast_iff bit_signed_iff)

lemma ucast_ucast16 [simp]: "ucast (ucast (n :: u16) :: u32) = n"
  by (rule bit_word_eqI) (auto simp: bit_ucast_iff)

lemma ucast_scast8 [simp]: "ucast (scast (n :: u8) :: u32) = n" "ucast (ucast n :: u32) = n"
  by (rule bit_word_eqI, auto simp: bit_ucast_iff bit_signed_iff)+

lemma ucast_ucast8 [simp]: "ucast (ucast (n :: u8) :: u16) = n"
  by (rule bit_word_eqI) (auto simp: bit_ucast_iff)

section \<open>Bytes and reads\<close>

definition chunk :: "bool \<Rightarrow> attr_types \<Rightarrow> bytes \<Rightarrow> bytes" where
  "chunk c t pl = (if c then attr_code t # pl else [])"

lemma enc_byte: "enc_int 1 (b :: u8) = [b]"
  by (simp add: enc_int_def pw_defs)

lemma put_attr_write:
  "wbuffer (put_attr c t (pw_write n v) s) = wbuffer s @ chunk c t (enc_int n v)"
  "wbuffer (put_attr c t (pw_writeString str) s) = wbuffer s @ chunk c t (enc_str str)"
  by (simp_all add: put_attr_def chunk_def pw_write_append pw_writeString_append
      enc_byte [simplified])

definition enc_customs :: "custom_map \<Rightarrow> bytes" where
  "enc_customs m = concat (map (\<lambda>(k, v). enc_str k @ enc_custom v) m)"

lemma write_customs_append: "wbuffer (write_customs m s) = wbuffer s @ enc_customs m"
  by (induction m s rule: write_customs.induct)
    (simp_all add: enc_customs_def serialize_custom_append pw_writeString_append)

lemma put_attr_customs:
  "wbuffer (put_attr c t (\<lambda>s. write_customs m (pw_write n v s)) s) =
     wbuffer s @ chunk c t (enc_int n v @ enc_customs m)"
  by (simp add: put_attr_def chunk_def pw_write_append write_customs_append enc_byte [simplified])

lemma unserialize_nil: "unserializeAttr items self (ps_init []) st = (True, ps_init [], st)"
  by (simp add: unserializeAttr.simps ps_defs)

lemma unserialize_chunk:
  assumes "c \<Longrightarrow> readAttr items self (Some t) (ps_init (pl @ rest)) st =
             (ATTR_READ_CONTINUE, ps_init rest, st\<lparr>rs_item := f (rs_item st)\<rparr>)"
  shows "unserializeAttr items self (ps_init (chunk c t pl @ rest)) st =
           unserializeAttr items self (ps_init rest) (if c then st\<lparr>rs_item := f (rs_item st)\<rparr> else st)"
proof (cases c)
  case True
  have "ps_read 1 (ps_init (attr_code t # pl @ rest)) = (ps_init (pl @ rest), Some (attr_code t))"
    using ps_read_enc [of 1 "attr_code t" "pl @ rest"] by (simp add: enc_byte [simplified])
  with True assms show ?thesis
    by (subst unserializeAttr.simps) (simp add: chunk_def del: One_nat_def)
qed (simp add: chunk_def)

text \<open>
  A row is one tagged value that the reader turns into one assignment; a list of rows is
  read as the list of its conditional assignments.
\<close>

type_synonym row = "bool \<times> attr_types \<times> bytes \<times> item_attr_type \<times> attr_value"

definition row_bytes :: "row \<Rightarrow> bytes" where
  "row_bytes r = (case r of (c, t, pl, k, v) \<Rightarrow> chunk c t pl)"

definition row_put :: "row \<Rightarrow> bool \<times> item_attr_type \<times> attr_value" where
  "row_put r = (case r of (c, t, pl, k, v) \<Rightarrow> (c, k, v))"

lemma row_simps [simp]:
  "row_bytes (c, t, pl, k, v) = chunk c t pl" "row_put (c, t, pl, k, v) = (c, k, v)"
  by (simp_all add: row_bytes_def row_put_def)

definition row_ok :: "item_table \<Rightarrow> u16 \<Rightarrow> row \<Rightarrow> bool" where
  "row_ok items tid r = (case r of (c, t, pl, k, v) \<Rightarrow> c \<longrightarrow> kind_ok k v \<and>
     (\<forall>self rest st. item_id (rs_item st) = tid \<longrightarrow>
        readAttr items self (Some t) (ps_init (pl @ rest)) st =
          (ATTR_READ_CONTINUE, ps_init rest, st\<lparr>rs_item := iput k v (rs_item st)\<rparr>)))"

lemma row_okD:
  "row_ok items tid (c, t, pl, k, v) \<Longrightarrow> c \<Longrightarrow> item_id (rs_item st) = tid \<Longrightarrow>
     readAttr items self (Some t) (ps_init (pl @ rest)) st =
       (ATTR_READ_CONTINUE, ps_init rest, st\<lparr>rs_item := iput k v (rs_item st)\<rparr>)"
  by (simp add: row_ok_def)

lemma put_if_fields [simp]:
  "item_id (iattrs.put_if p it) = item_id it" "item_count (iattrs.put_if p it) = item_count it"
  by (simp_all add: iattrs.put_if_def split: prod.split)

lemma fold_put_if_fields:
  "item_id (fold iattrs.put_if ps it) = item_id it \<and> item_count (fold iattrs.put_if ps it) = item_count it"
  by (induction ps arbitrary: it) simp_all

lemma unserialize_rows:
  assumes "\<forall>r \<in> set rows. row_ok items tid r" "item_id (rs_item st) = tid"
  shows "unserializeAttr items self (ps_init (concat (map row_bytes rows) @ rest)) st =
           unserializeAttr items self (ps_init rest)
             (st\<lparr>rs_item := fold iattrs.put_if (map row_put rows) (rs_item st)\<rparr>)"
  using assms
proof (induction rows arbitrary: st)
  case Nil
  then show ?case by simp
next
  case (Cons r rows)
  obtain c t pl k v where r: "r = (c, t, pl, k, v)" by (cases r) auto
  let ?st = "st\<lparr>rs_item := iattrs.put_if (c, k, v) (rs_item st)\<rparr>"
  have "unserializeAttr items self (ps_init (chunk c t pl @ concat (map row_bytes rows) @ rest)) st =
      unserializeAttr items self (ps_init (concat (map row_bytes rows) @ rest))
        (if c then st\<lparr>rs_item := iput k v (rs_item st)\<rparr> else st)"
    using Cons.prems r by (intro unserialize_chunk row_okD) simp_all
  also have "(if c then st\<lparr>rs_item := iput k v (rs_item st)\<rparr> else st) = ?st"
    by (simp add: iattrs.put_if_def)
  also have "unserializeAttr items self (ps_init (concat (map row_bytes rows) @ rest)) ?st =
      unserializeAttr items self (ps_init rest)
        (?st\<lparr>rs_item := fold iattrs.put_if (map row_put rows) (rs_item ?st)\<rparr>)"
    using Cons.prems by (intro Cons.IH) simp_all
  finally show ?case by (simp add: r)
qed

section \<open>The rows of an item\<close>

definition str_row :: "bool \<Rightarrow> attr_types \<Rightarrow> item_attr_type \<Rightarrow> item \<Rightarrow> row" where
  "str_row c t k it = (c, t, enc_str (i_getStrAttr k it), k, VStr (i_getStrAttr k it))"

definition int_row :: "bool \<Rightarrow> attr_types \<Rightarrow> item_attr_type \<Rightarrow> item \<Rightarrow> row" where
  "int_row c t k it = (c, t, enc_int 4 (i_getIntAttr k it), k, VInt (scast (i_getIntAttr k it)))"

definition decays :: "item \<Rightarrow> bool" where
  "decays it = (ucast (getDecaying it) = DECAYING_TRUE \<or> ucast (getDecaying it) = DECAYING_PENDING)"

definition rows_of :: "item_table \<Rightarrow> item \<Rightarrow> row list" where
  "rows_of items it =
     [(getCharges it \<noteq> 0, ATTR_CHARGES, enc_int 2 (getCharges it), ITEM_ATTRIBUTE_CHARGES,
         VInt (scast (ucast (getCharges it) :: u32))),
      (it_moveable (items (item_id it)) \<and> getActionId it \<noteq> 0, ATTR_ACTION_ID,
         enc_int 2 (getActionId it), ITEM_ATTRIBUTE_ACTIONID,
         VInt (scast (ucast (getActionId it) :: u32))),
      str_row (i_getStrAttr ITEM_ATTRIBUTE_TEXT it \<noteq> []) ATTR_TEXT ITEM_ATTRIBUTE_TEXT it,
      int_row (i_getIntAttr ITEM_ATTRIBUTE_DATE it \<noteq> 0) ATTR_WRITTENDATE ITEM_ATTRIBUTE_DATE it,
      str_row (i_getStrAttr ITEM_ATTRIBUTE_WRITER it \<noteq> []) ATTR_WRITTENBY ITEM_ATTRIBUTE_WRITER it,
      str_row (i_getStrAttr ITEM_ATTRIBUTE_DESCRIPTION it \<noteq> []) ATTR_DESC ITEM_ATTRIBUTE_DESCRIPTION it,
      int_row (i_hasAttribute ITEM_ATTRIBUTE_DURATION it) ATTR_DURATION ITEM_ATTRIBUTE_DURATION it,
      (decays it, ATTR_DECAYING_STATE, enc_int 1 (getDecaying it), ITEM_ATTRIBUTE_DECAYSTATE,
         VInt (scast DECAYING_PENDING)),
      str_row (i_hasAttribute ITEM_ATTRIBUTE_NAME it) ATTR_NAME ITEM_ATTRIBUTE_NAME it,
      str_row (i_hasAttribute ITEM_ATTRIBUTE_ARTICLE it) ATTR_ARTICLE ITEM_ATTRIBUTE_ARTICLE it,
      str_row (i_hasAttribute ITEM_ATTRIBUTE_PLURALNAME it) ATTR_PLURALNAME ITEM_ATTRIBUTE_PLURALNAME it,
      int_row (i_hasAttribute ITEM_ATTRIBUTE_WEIGHT it) ATTR_WEIGHT ITEM_ATTRIBUTE_WEIGHT it,
      int_row (i_hasAttribute ITEM_ATTRIBUTE_ATTACK it) ATTR_ATTACK ITEM_ATTRIBUTE_ATTACK it,
      int_row (i_hasAttribute ITEM_ATTRIBUTE_DEFENSE it) ATTR_DEFENSE ITEM_ATTRIBUTE_DEFENSE it,
      int_row (i_hasAttribute ITEM_ATTRIBUTE_EXTRADEFENSE it) ATTR_EXTRADEFENSE ITEM_ATTRIBUTE_EXTRADEFENSE it,
      int_row (i_hasAttribute ITEM_ATTRIBUTE_ARMOR it) ATTR_ARMOR ITEM_ATTRIBUTE_ARMOR it,
      (i_hasAttribute ITEM_ATTRIBUTE_HITCHANCE it, ATTR_HITCHANCE,
         enc_int 1 (ucast (i_getIntAttr ITEM_ATTRIBUTE_HITCHANCE it) :: u8), ITEM_ATTRIBUTE_HITCHANCE,
         VInt (scast (scast (ucast (i_getIntAttr ITEM_ATTRIBUTE_HITCHANCE it) :: u8) :: u32))),
      (i_hasAttribute ITEM_ATTRIBUTE_SHOOTRANGE it, ATTR_SHOOTRANGE,
         enc_int 1 (ucast (i_getIntAttr ITEM_ATTRIBUTE_SHOOTRANGE it) :: u8), ITEM_ATTRIBUTE_SHOOTRANGE,
         VInt (scast (ucast (ucast (i_getIntAttr ITEM_ATTRIBUTE_SHOOTRANGE it) :: u8) :: u32)))]"

definition has_count :: "item_table \<Rightarrow> item \<Rightarrow> bool" where
  "has_count items it =
     (let t = items (item_id it) in it_stackable t \<or> isFluidContainer t \<or> isSplash t)"

text \<open>The bytes of an item: the count, the rows, the custom attributes.\<close>

lemma serializeAttr_bytes:
  "wbuffer (serializeAttr items it s) = wbuffer s @
     chunk (has_count items it) ATTR_COUNT (enc_int 1 (ucast (getSubType items it) :: u8)) @
     concat (map row_bytes (rows_of items it)) @
     chunk (i_hasAttribute ITEM_ATTRIBUTE_CUSTOM it) ATTR_CUSTOM_ATTRIBUTES
       (enc_int 8 (of_nat (length (custom_list it)) :: u64) @ enc_customs (custom_list it))"
  unfolding serializeAttr_def rows_of_def Let_def put_attr_customs put_attr_write
  by (simp add: has_count_def decays_def str_row_def int_row_def Let_def)

text \<open>
  The items whose attributes the format can hold: strings fit the 16-bit length, a
  charge count sits on a type with charges, an action id is at least 100 as
  \<open>setActionId\<close> makes it, the remaining duration is not negative, and custom
  attributes are not blank.
\<close>

definition storable :: "item_table \<Rightarrow> item \<Rightarrow> bool" where
  "storable items it =
     (let t = items (item_id it) in
      item_inv it \<and>
      (\<forall>k. length (i_getStrAttr k it) \<le> 65535) \<and>
      (getCharges it \<noteq> 0 \<longrightarrow> \<not> has_count items it \<and> it_charges t \<noteq> 0) \<and>
      (getActionId it \<noteq> 0 \<longrightarrow> 100 \<le> getActionId it) \<and>
      (i_hasAttribute ITEM_ATTRIBUTE_DURATION it \<longrightarrow> 0 \<le> sint (getDuration it)) \<and>
      (isFluidContainer t \<or> isSplash t \<longrightarrow> getFluidType it < 256) \<and>
      length (custom_list it) < 2 ^ 64 \<and>
      (\<forall>(k, v) \<in> set (custom_list it). length k \<le> 65535 \<and> custom_storable v))"

lemma storableD:
  assumes "storable items it"
  shows "item_inv it" "length (i_getStrAttr k it) \<le> 65535"
    "getCharges it \<noteq> 0 \<Longrightarrow> \<not> has_count items it \<and> it_charges (items (item_id it)) \<noteq> 0"
    "getActionId it \<noteq> 0 \<Longrightarrow> 100 \<le> getActionId it"
    "i_hasAttribute ITEM_ATTRIBUTE_DURATION it \<Longrightarrow> 0 \<le> sint (getDuration it)"
    "isFluidContainer (items (item_id it)) \<or> isSplash (items (item_id it)) \<Longrightarrow> getFluidType it < 256"
    "length (custom_list it) < 2 ^ 64"
    "\<forall>(k, v) \<in> set (custom_list it). length k \<le> 65535 \<and> custom_storable v"
  using assms by (auto simp: storable_def Let_def)

lemma has_str_nonempty:
  "item_inv it \<Longrightarrow> isStrAttrType k \<Longrightarrow> i_hasAttribute k it \<Longrightarrow> i_getStrAttr k it \<noteq> []"
  using attr_map_str [of "getAttributes it" k]
  by (fastforce simp: item_has item_str item_inv_def item_look_def)

lemma str_row_ok:
  assumes "length (i_getStrAttr k it) \<le> 65535" "c \<Longrightarrow> i_getStrAttr k it \<noteq> []" "isStrAttrType k"
    and "\<And>self s st. readAttr items self (Some t) s st = use_value (ps_readString s) (i_setStrAttr k) st"
  shows "row_ok items tid (str_row c t k it)"
  using assms
  by (simp add: str_row_def row_ok_def use_value_def ps_readString_enc i_setStrAttr_iput)

lemma int_row_ok:
  assumes "isIntAttrType k"
    and "\<And>self s st. readAttr items self (Some t) s st = use_value (ps_read 4 s) (i_setIntAttr k) st"
  shows "row_ok items tid (int_row c t k it)"
  using assms by (simp add: int_row_def row_ok_def use_value_def ps_read_enc i_setIntAttr_iput)

lemma rows_of_ok:
  assumes "storable items it"
  shows "\<forall>r \<in> set (rows_of items it). row_ok items (item_id it) r"
proof -
  note inv = storableD(1) [OF assms]
  have str: "row_ok items (item_id it) (str_row c t k it)"
    if "c \<Longrightarrow> i_getStrAttr k it \<noteq> []" "isStrAttrType k"
      "\<And>self s st. readAttr items self (Some t) s st = use_value (ps_readString s) (i_setStrAttr k) st"
    for c t k
    using that storableD(2) [OF assms] by (intro str_row_ok)
  have charges: "row_ok items (item_id it) (getCharges it \<noteq> 0, ATTR_CHARGES, enc_int 2 (getCharges it),
      ITEM_ATTRIBUTE_CHARGES, VInt (scast (ucast (getCharges it) :: u32)))"
    using storableD(3) [OF assms]
    by (auto simp: row_ok_def readAttr_def use_value_def ps_read_enc setSubType_def Let_def
        has_count_def setCharges_def i_setIntAttr_iput)
  have action: "row_ok items (item_id it) (c \<and> getActionId it \<noteq> 0, ATTR_ACTION_ID,
      enc_int 2 (getActionId it), ITEM_ATTRIBUTE_ACTIONID,
      VInt (scast (ucast (getActionId it) :: u32)))" for c
    using storableD(4) [OF assms]
    by (auto simp: row_ok_def readAttr_def use_value_def ps_read_enc setActionId_def Let_def
        i_setIntAttr_iput not_less)
  have duration: "row_ok items (item_id it)
      (int_row (i_hasAttribute ITEM_ATTRIBUTE_DURATION it) ATTR_DURATION ITEM_ATTRIBUTE_DURATION it)"
    using storableD(5) [OF assms]
    by (auto simp: row_ok_def int_row_def readAttr_def use_value_def ps_read_enc setDuration_def
        getDuration_def i_setIntAttr_iput)
  have decay: "row_ok items (item_id it) (decays it, ATTR_DECAYING_STATE, enc_int 1 (getDecaying it),
      ITEM_ATTRIBUTE_DECAYSTATE, VInt (scast DECAYING_PENDING))"
    by (auto simp: row_ok_def readAttr_def use_value_def ps_read_enc setDecaying_def decays_def
        i_setIntAttr_iput DECAYING_TRUE_def DECAYING_PENDING_def DECAYING_FALSE_def
        simp del: One_nat_def)
  have bytes: "row_ok items (item_id it) (c, ATTR_HITCHANCE, enc_int 1 (h :: u8),
        ITEM_ATTRIBUTE_HITCHANCE, VInt (scast (scast h :: u32)))"
      "row_ok items (item_id it) (c, ATTR_SHOOTRANGE, enc_int 1 (h :: u8),
        ITEM_ATTRIBUTE_SHOOTRANGE, VInt (scast (ucast h :: u32)))" for c h
    by (simp_all add: row_ok_def readAttr_def use_value_def ps_read_enc i_setIntAttr_iput
        del: One_nat_def)
  show ?thesis
    unfolding rows_of_def
    by (simp add: charges action duration decay bytes str int_row_ok readAttr_def
        has_str_nonempty [OF inv] del: One_nat_def)
qed

section \<open>Custom attributes\<close>

lemma read_customs_enc:
  "\<forall>(k, v) \<in> set m. length k \<le> 65535 \<and> custom_storable v \<Longrightarrow>
     read_customs (length m) (ps_init (enc_customs m @ rest)) it =
       (True, ps_init rest, fold (\<lambda>(k, v). i_setCustomAttribute k v) m it)"
  by (induction m arbitrary: it)
    (auto simp: enc_customs_def ps_readString_enc unserialize_serialize_custom)

lemma custom_of_upd:
  "custom_of s = (case attr_map s ITEM_ATTRIBUTE_CUSTOM of None \<Rightarrow> Map.empty | Some v \<Rightarrow> map_of (as_custom v))"
  by (simp add: custom_of_def)

lemma getCustomAttribute_custom_of:
  "attrs_wf s \<Longrightarrow> getCustomAttribute k s = custom_of s (asLowerCaseString k)"
  by (simp add: getCustomAttribute_def getCustomAttributeMap_map custom_of_upd split: option.split)

lemma i_setCustomAttribute_laws:
  assumes "item_inv it"
  shows "item_inv (i_setCustomAttribute k v it)"
    and "k' \<noteq> ITEM_ATTRIBUTE_CUSTOM \<Longrightarrow> item_look (i_setCustomAttribute k v it) k' = item_look it k'"
    and "custom_of (getAttributes (i_setCustomAttribute k v it)) =
           (custom_of (getAttributes it))(asLowerCaseString k \<mapsto> v)"
    and "item_id (i_setCustomAttribute k v it) = item_id it"
    and "item_count (i_setCustomAttribute k v it) = item_count it"
proof -
  have wf: "attrs_wf (getAttributes it)" using assms by (simp add: item_inv_def)
  obtain m where m: "attr_map (setCustomAttribute k v (getAttributes it)) =
      (attr_map (getAttributes it))(ITEM_ATTRIBUTE_CUSTOM \<mapsto> VCustom m)"
    "map_of m = (custom_of (getAttributes it))(asLowerCaseString k \<mapsto> v)"
    using setCustomAttribute_laws(2) [OF wf] by blast
  show "item_inv (i_setCustomAttribute k v it)"
    using setCustomAttribute_laws(1) [OF wf] by (simp add: item_inv_def i_setCustomAttribute_def)
  show "k' \<noteq> ITEM_ATTRIBUTE_CUSTOM \<Longrightarrow> item_look (i_setCustomAttribute k v it) k' = item_look it k'"
    using m by (simp add: item_look_def i_setCustomAttribute_def)
  show "custom_of (getAttributes (i_setCustomAttribute k v it)) =
           (custom_of (getAttributes it))(asLowerCaseString k \<mapsto> v)"
    using m by (simp add: i_setCustomAttribute_def custom_of_upd)
qed (simp_all add: i_setCustomAttribute_def)

lemma fold_customs:
  assumes "item_inv it"
  shows "item_inv (fold (\<lambda>(k, v). i_setCustomAttribute k v) m it) \<and>
     (\<forall>k. k \<noteq> ITEM_ATTRIBUTE_CUSTOM \<longrightarrow>
        item_look (fold (\<lambda>(k, v). i_setCustomAttribute k v) m it) k = item_look it k) \<and>
     item_id (fold (\<lambda>(k, v). i_setCustomAttribute k v) m it) = item_id it \<and>
     item_count (fold (\<lambda>(k, v). i_setCustomAttribute k v) m it) = item_count it \<and>
     (custom_ok m \<longrightarrow> custom_of (getAttributes (fold (\<lambda>(k, v). i_setCustomAttribute k v) m it)) =
        custom_of (getAttributes it) ++ map_of m)"
  using assms
proof (induction m arbitrary: it)
  case Nil
  then show ?case by simp
next
  case (Cons p m)
  obtain k v where p: "p = (k, v)" by (cases p)
  note laws = i_setCustomAttribute_laws [OF Cons.prems, where k = k and v = v]
  have ok: "custom_ok m" "k \<notin> fst ` set m" "asLowerCaseString k = k" if "custom_ok (p # m)"
    using that by (auto simp: custom_ok_def p)
  have add: "f(k \<mapsto> v) ++ map_of m = f ++ map_of ((k, v) # m)" if "custom_ok (p # m)" for f
    using ok(2) [OF that] map_of_eq_None_iff [of m k]
    by (auto simp: map_add_def fun_eq_iff split: option.split)
  show ?case
    using Cons.IH [OF laws(1)] laws ok add
    by (simp only: p fold_simps prod.case) (simp del: map_of.simps fun_upd_apply)
qed

lemma custom_list_of:
  assumes "item_inv it"
  shows "custom_ok (custom_list it)" "map_of (custom_list it) = custom_of (getAttributes it)"
    and "\<not> i_hasAttribute ITEM_ATTRIBUTE_CUSTOM it \<Longrightarrow> custom_list it = []"
proof -
  have wf: "attrs_wf (getAttributes it)" using assms by (simp add: item_inv_def)
  show "custom_ok (custom_list it)" "map_of (custom_list it) = custom_of (getAttributes it)"
    using attr_map_custom [OF wf]
    by (auto simp: custom_list_def getCustomAttributeMap_map [OF wf] custom_of_upd split: option.split)
  show "\<not> i_hasAttribute ITEM_ATTRIBUTE_CUSTOM it \<Longrightarrow> custom_list it = []"
    by (simp add: custom_list_def item_getters getCustomAttributeMap_def)
qed

section \<open>The whole item\<close>

definition count_step :: "item_table \<Rightarrow> item \<Rightarrow> item \<Rightarrow> item" where
  "count_step items it j =
     (if has_count items it then setSubType items (ucast (ucast (getSubType items it) :: u8)) j else j)"

lemma count_step_inv:
  assumes "item_inv j" "item_id j = item_id it"
  shows "item_inv (count_step items it j)" "item_id (count_step items it j) = item_id it"
  using assms iattrs.put_inv [OF assms(1)]
  by (auto simp: count_step_def setSubType_def Let_def setFluidType_def setCharges_def
      setItemCount_def i_setIntAttr_iput) (simp_all add: item_inv_def getAttributes_def)

lemma read_all:
  assumes st: "storable items it" and j: "item_inv (rs_item s0)" "item_id (rs_item s0) = item_id it"
  shows "\<exists>r. unserializeAttr items self (ps_init (wbuffer (serializeAttr items it pw_empty))) s0 =
               (True, ps_init [], s0\<lparr>rs_item := r\<rparr>) \<and>
             item_inv r \<and> item_id r = item_id it \<and>
             item_count r = item_count (count_step items it (rs_item s0)) \<and>
             (\<forall>k. k \<noteq> ITEM_ATTRIBUTE_CUSTOM \<longrightarrow> item_look r k =
                fold iattrs.upd_if (map row_put (rows_of items it))
                  (item_look (count_step items it (rs_item s0))) k) \<and>
             custom_of (getAttributes r) =
               custom_of (getAttributes (fold iattrs.put_if (map row_put (rows_of items it))
                 (count_step items it (rs_item s0)))) ++ custom_of (getAttributes it)"
proof -
  let ?j1 = "count_step items it (rs_item s0)"
  let ?s1 = "s0\<lparr>rs_item := ?j1\<rparr>"
  let ?j2 = "fold iattrs.put_if (map row_put (rows_of items it)) ?j1"
  let ?s2 = "s0\<lparr>rs_item := ?j2\<rparr>"
  let ?m = "custom_list it"
  let ?r = "fold (\<lambda>(k, v). i_setCustomAttribute k v) ?m ?j2"
  let ?cb = "enc_int 8 (of_nat (length ?m) :: u64) @ enc_customs ?m"
  let ?rows = "concat (map row_bytes (rows_of items it))"
  let ?tail = "chunk (i_hasAttribute ITEM_ATTRIBUTE_CUSTOM it) ATTR_CUSTOM_ATTRIBUTES ?cb"
  note inv = storableD(1) [OF st]
  note j1 = count_step_inv [OF j, of items]
  have step1: "unserializeAttr items self
      (ps_init (chunk (has_count items it) ATTR_COUNT (enc_int 1 (ucast (getSubType items it) :: u8)) @ ?rows @ ?tail)) s0 =
      unserializeAttr items self (ps_init (?rows @ ?tail)) ?s1"
  proof (subst unserialize_chunk)
    show "readAttr items self (Some ATTR_COUNT)
        (ps_init (enc_int 1 (ucast (getSubType items it) :: u8) @ ?rows @ ?tail)) s0 =
        (ATTR_READ_CONTINUE, ps_init (?rows @ ?tail),
         s0\<lparr>rs_item := setSubType items (ucast (ucast (getSubType items it) :: u8)) (rs_item s0)\<rparr>)"
      by (simp add: readAttr_def use_value_def ps_read_enc del: One_nat_def)
  qed (simp add: count_step_def)
  have step2: "unserializeAttr items self (ps_init (?rows @ ?tail)) ?s1 =
      unserializeAttr items self (ps_init ?tail) ?s2"
    using unserialize_rows [OF rows_of_ok [OF st], of ?s1 self ?tail] j1 by simp
  have rd: "readAttr items self (Some ATTR_CUSTOM_ATTRIBUTES) (ps_init (?cb @ [])) ?s2 =
      (ATTR_READ_CONTINUE, ps_init [], ?s2\<lparr>rs_item := ?r\<rparr>)"
  proof -
    have "unat (of_nat (length ?m) :: u64) = length ?m"
      using storableD(7) [OF st] by (simp add: unat_of_nat)
    then show ?thesis
      using read_customs_enc [OF storableD(8) [OF st], of "[]" ?j2]
      by (simp add: readAttr_def ps_read_enc)
  qed
  have "unserializeAttr items self (ps_init (?tail @ [])) ?s2 =
      unserializeAttr items self (ps_init [])
        (if i_hasAttribute ITEM_ATTRIBUTE_CUSTOM it then ?s2\<lparr>rs_item := ?r\<rparr> else ?s2)"
    by (subst unserialize_chunk [where f = "\<lambda>_. ?r"]) (use rd in simp_all)
  also have "(if i_hasAttribute ITEM_ATTRIBUTE_CUSTOM it then ?s2\<lparr>rs_item := ?r\<rparr> else ?s2) = s0\<lparr>rs_item := ?r\<rparr>"
    using custom_list_of(3) [OF inv] by simp
  finally have run: "unserializeAttr items self (ps_init (wbuffer (serializeAttr items it pw_empty))) s0 =
      (True, ps_init [], s0\<lparr>rs_item := ?r\<rparr>)"
    using step1 step2 by (simp add: serializeAttr_bytes pw_empty_def unserialize_nil)
  have oks: "\<forall>(c, k, v) \<in> set (map row_put (rows_of items it)). c \<longrightarrow> kind_ok k v"
    using rows_of_ok [OF st] by (auto simp: row_ok_def row_put_def)
  note puts = iattrs.puts [OF j1(1) oks]
  have inv2: "item_inv ?j2" using puts by blast
  note customs = fold_customs [OF inv2, of ?m]
  show ?thesis
    using run customs puts j1 custom_list_of(1,2) [OF inv] fold_put_if_fields
    by (intro exI [of _ ?r]) simp
qed

section \<open>Reading into a new item\<close>

lemma plain_item [simp]:
  "item_inv \<lparr>item_id = t, item_count = n, item_attrs = None\<rparr>"
  "item_look \<lparr>item_id = t, item_count = n, item_attrs = None\<rparr> = Map.empty"
  by (simp_all add: item_inv_def item_look_def getAttributes_def)

lemma count_attrs [simp]:
  "item_inv (setItemCount n it) = item_inv it" "item_look (setItemCount n it) = item_look it"
  "item_id (setItemCount n it) = item_id it"
  by (simp_all add: setItemCount_def item_inv_def item_look_def getAttributes_def)

lemma iput_inv_look [simp]:
  "item_inv it \<Longrightarrow> kind_ok k v \<Longrightarrow> item_inv (iput k v it)"
  "item_inv it \<Longrightarrow> kind_ok k v \<Longrightarrow> item_look (iput k v it) = (item_look it)(k \<mapsto> v)"
  by (simp_all add: iattrs.put_inv iattrs.put_look)

lemma newItem_laws:
  "item_inv (newItem items t n)" "item_id (newItem items t n) = t"
  "k \<notin> {ITEM_ATTRIBUTE_FLUIDTYPE, ITEM_ATTRIBUTE_CHARGES, ITEM_ATTRIBUTE_DURATION} \<Longrightarrow>
     item_look (newItem items t n) k = None"
  "item_look (newItem items t n) ITEM_ATTRIBUTE_DURATION =
     (if it_decayTime (items t) * 1000 = 0 then None
      else Some (VInt (scast (it_decayTime (items t) * 1000))))"
  by (simp_all add: newItem_def Let_def setDefaultDuration_def setDuration_def setCharges_def
      setFluidType_def i_setIntAttr_iput getDefaultDuration_def)

lemma upd_if_apply:
  "iattrs.upd_if (c, k, v) m t = (if c \<and> t = k then Some v else m t)"
  by (simp add: iattrs.upd_if_def)

lemma count_step_look:
  assumes "item_inv j" "item_id j = item_id it" "getCharges it \<noteq> 0 \<longrightarrow> \<not> has_count items it"
    "k \<noteq> ITEM_ATTRIBUTE_FLUIDTYPE"
  shows "item_look (count_step items it j) k = item_look j k"
  using assms
  by (auto simp: count_step_def setSubType_def Let_def setFluidType_def i_setIntAttr_iput has_count_def)

lemma customs_untouched:
  assumes "item_inv it" "\<forall>(c, k, v) \<in> set ps. c \<longrightarrow> kind_ok k v \<and> k \<noteq> ITEM_ATTRIBUTE_CUSTOM"
  shows "custom_of (getAttributes (fold iattrs.put_if ps it)) = custom_of (getAttributes it)"
proof -
  have "item_look (fold iattrs.put_if ps it) ITEM_ATTRIBUTE_CUSTOM = item_look it ITEM_ATTRIBUTE_CUSTOM"
    using assms
  proof (induction ps arbitrary: it)
    case (Cons p ps)
    then show ?case by (cases p) (auto simp: iattrs.put_if_def)
  qed simp
  then show ?thesis by (simp add: custom_of_upd item_look_def)
qed

text \<open>
  The bytes that hold the subtype and the charges of a reloaded item; the fluid type of
  a fluid container is one byte.
\<close>

lemma ucast_small16: "x < 256 \<Longrightarrow> ucast (ucast (x :: u16) :: u8) = x"
proof -
  assume "x < 256"
  then have "uint x < 256" by (simp add: word_less_def)
  then show ?thesis
    by (simp add: word_uint_eq_iff unsigned_ucast_eq unsigned_take_bit_eq take_bit_int_eq_self)
qed

lemma count_step_subtype:
  assumes "storable items it" "item_inv j" "item_id j = item_id it" "has_count items it"
  shows "isFluidContainer (items (item_id it)) \<or> isSplash (items (item_id it)) \<Longrightarrow>
           item_look (count_step items it j) ITEM_ATTRIBUTE_FLUIDTYPE =
             Some (VInt (scast (ucast (getFluidType it) :: u32)))"
    and "\<not> (isFluidContainer (items (item_id it)) \<or> isSplash (items (item_id it))) \<Longrightarrow>
           item_count (count_step items it j) = item_count it"
  using assms storableD(6) [OF assms(1)]
  by (auto simp: count_step_def setSubType_def getSubType_def Let_def setFluidType_def
      i_setIntAttr_iput has_count_def setItemCount_def ucast_small16)

lemma storable_item_comes_back:
  assumes "storable items it"
  shows "\<exists>r. unserializeAttr items self (ps_init (wbuffer (serializeAttr items it pw_empty)))
               \<lparr>rs_item = newItem items (item_id it) 0, uniqueItems = u\<rparr> =
               (True, ps_init [], \<lparr>rs_item = r, uniqueItems = u\<rparr>) \<and>
     item_id r = item_id it \<and>
     (has_count items it \<longrightarrow> getSubType items r = getSubType items it) \<and>
     (\<forall>k \<in> {ITEM_ATTRIBUTE_TEXT, ITEM_ATTRIBUTE_WRITER, ITEM_ATTRIBUTE_DESCRIPTION,
            ITEM_ATTRIBUTE_NAME, ITEM_ATTRIBUTE_ARTICLE, ITEM_ATTRIBUTE_PLURALNAME}.
        i_getStrAttr k r = i_getStrAttr k it) \<and>
     (\<forall>k \<in> {ITEM_ATTRIBUTE_DATE, ITEM_ATTRIBUTE_WEIGHT, ITEM_ATTRIBUTE_ATTACK,
            ITEM_ATTRIBUTE_DEFENSE, ITEM_ATTRIBUTE_EXTRADEFENSE, ITEM_ATTRIBUTE_ARMOR}.
        i_getIntAttr k r = i_getIntAttr k it) \<and>
     (\<forall>k \<in> {ITEM_ATTRIBUTE_HITCHANCE, ITEM_ATTRIBUTE_SHOOTRANGE}.
        (ucast (i_getIntAttr k r) :: u8) = ucast (i_getIntAttr k it)) \<and>
     getCharges r = (if getCharges it \<noteq> 0 then getCharges it
                     else getCharges (newItem items (item_id it) 0)) \<and>
     getActionId r = (if it_moveable (items (item_id it)) then getActionId it else 0) \<and>
     getDuration r = (if i_hasAttribute ITEM_ATTRIBUTE_DURATION it then getDuration it
                      else it_decayTime (items (item_id it)) * 1000) \<and>
     getDecaying r = (if decays it then ucast DECAYING_PENDING else 0) \<and>
     \<not> i_hasAttribute ITEM_ATTRIBUTE_UNIQUEID r \<and>
     (\<forall>k. getCustomAttribute k (getAttributes r) = getCustomAttribute k (getAttributes it))"
proof -
  let ?j = "newItem items (item_id it) 0"
  let ?s = "\<lparr>rs_item = ?j, uniqueItems = u\<rparr>"
  note st = assms
  note inv = storableD(1) [OF st]
  have j: "item_inv (rs_item ?s)" "item_id (rs_item ?s) = item_id it"
    by (simp_all add: newItem_laws)
  obtain r where run: "unserializeAttr items self (ps_init (wbuffer (serializeAttr items it pw_empty))) ?s =
        (True, ps_init [], ?s\<lparr>rs_item := r\<rparr>)"
    and r: "item_inv r" "item_id r = item_id it"
      "item_count r = item_count (count_step items it ?j)"
    and look: "\<forall>k. k \<noteq> ITEM_ATTRIBUTE_CUSTOM \<longrightarrow> item_look r k =
        fold iattrs.upd_if (map row_put (rows_of items it)) (item_look (count_step items it ?j)) k"
    and cust: "custom_of (getAttributes r) = custom_of (getAttributes (fold iattrs.put_if
        (map row_put (rows_of items it)) (count_step items it ?j))) ++ custom_of (getAttributes it)"
    using read_all [OF st j, of self] by (elim exE conjE) (rule that, simp_all)
  have base: "item_look (count_step items it ?j) k = item_look ?j k" if "k \<noteq> ITEM_ATTRIBUTE_FLUIDTYPE" for k
    using that j storableD(3) [OF st] by (intro count_step_look) auto
  note rows = rows_of_def str_row_def int_row_def upd_if_apply base newItem_laws
  note ints = item_int [OF r(1)] item_int [OF inv] item_has [OF inv] item_has [OF r(1)]
  note st_has = item_str [OF r(1)] item_str [OF inv]
  have R: "item_look r k = fold iattrs.upd_if (map row_put (rows_of items it))
      (item_look (count_step items it ?j)) k" if "k \<noteq> ITEM_ATTRIBUTE_CUSTOM" for k
    using look that by blast
  have zero: "i_getIntAttr k it = 0" if "\<not> i_hasAttribute k it" "isIntAttrType k" for k
    using that by (simp add: ints)
  have nil: "i_getStrAttr k it = []" if "\<not> i_hasAttribute k it" "isStrAttrType k" for k
    using that by (simp add: ints st_has)
  have texts: "\<forall>k \<in> {ITEM_ATTRIBUTE_TEXT, ITEM_ATTRIBUTE_WRITER, ITEM_ATTRIBUTE_DESCRIPTION,
            ITEM_ATTRIBUTE_NAME, ITEM_ATTRIBUTE_ARTICLE, ITEM_ATTRIBUTE_PLURALNAME}.
        i_getStrAttr k r = i_getStrAttr k it"
    by (simp add: st_has(1) R rows nil)
  have nums: "\<forall>k \<in> {ITEM_ATTRIBUTE_DATE, ITEM_ATTRIBUTE_WEIGHT, ITEM_ATTRIBUTE_ATTACK,
            ITEM_ATTRIBUTE_DEFENSE, ITEM_ATTRIBUTE_EXTRADEFENSE, ITEM_ATTRIBUTE_ARMOR}.
        i_getIntAttr k r = i_getIntAttr k it"
    by (simp add: ints(1) R rows zero)
  have small: "\<forall>k \<in> {ITEM_ATTRIBUTE_HITCHANCE, ITEM_ATTRIBUTE_SHOOTRANGE}.
        (ucast (i_getIntAttr k r) :: u8) = ucast (i_getIntAttr k it)"
    by (simp add: ints(1) R rows zero)
  have charges: "getCharges r = (if getCharges it \<noteq> 0 then getCharges it else getCharges ?j)"
    by (simp add: getCharges_def ints(1) R rows item_int [OF newItem_laws(1)])
  have action: "getActionId r = (if it_moveable (items (item_id it)) then getActionId it else 0)"
    by (simp add: getActionId_def ints(1) R rows)
  have duration: "getDuration r = (if i_hasAttribute ITEM_ATTRIBUTE_DURATION it then getDuration it
                      else it_decayTime (items (item_id it)) * 1000)"
    by (simp add: getDuration_def ints(1) R rows)
  have decay: "getDecaying r = (if decays it then ucast DECAYING_PENDING else 0)"
    by (simp add: getDecaying_def ints(1) R rows)
  have uid: "\<not> i_hasAttribute ITEM_ATTRIBUTE_UNIQUEID r"
    by (simp add: ints(4) R rows)
  have subtype: "getSubType items r = getSubType items it" if "has_count items it"
    using count_step_subtype [OF st j that [unfolded]] that r
    by (auto simp: getSubType_def Let_def getFluidType_def ints(1) R rows(1-4) has_count_def)
  have "custom_of (getAttributes (fold iattrs.put_if (map row_put (rows_of items it))
      (count_step items it ?j))) = custom_of (getAttributes (count_step items it ?j))"
  proof (rule customs_untouched)
    show "item_inv (count_step items it ?j)" using count_step_inv [OF j, of items] by simp
    show "\<forall>(c, k, v) \<in> set (map row_put (rows_of items it)).
        c \<longrightarrow> kind_ok k v \<and> k \<noteq> ITEM_ATTRIBUTE_CUSTOM"
      using rows_of_ok [OF st] by (auto simp: row_ok_def row_put_def rows_of_def str_row_def int_row_def)
  qed
  also have "custom_of (getAttributes (count_step items it ?j)) = Map.empty"
    by (simp add: custom_of_upd base newItem_laws flip: item_look_def)
  finally have "custom_of (getAttributes r) = custom_of (getAttributes it)"
    using cust by simp
  then have customs: "\<forall>k. getCustomAttribute k (getAttributes r) = getCustomAttribute k (getAttributes it)"
    using inv r(1) by (simp add: getCustomAttribute_custom_of item_inv_def)
  show ?thesis
    using customs run r(2) subtype texts nums small charges action duration decay uid
    by (intro exI [of _ r]) simp
qed

text \<open>A magic weapon: five charges, a text, a custom attribute.\<close>

definition example_table :: item_table where
  "example_table tid =
     \<lparr>it_group = ITEM_GROUP_CHARGES, it_type = ITEM_TYPE_NONE, it_id = tid, it_stackable = False,
      it_weight = 0, it_decayTime = 0, it_charges = 40, it_decayTo = -1, it_maxItems = 8,
      it_pickupable = True, it_moveable = True, it_stopTime = False\<rparr>"

definition example_item :: item where
  "example_item =
     i_setCustomAttribute [65] (CInt 7)
       (i_setStrAttr ITEM_ATTRIBUTE_TEXT [104, 105] (newItem example_table 2400 5))"

lemma example_attrs:
  "item_attrs example_item = Some
     \<lparr>attr_list = [\<lparr>atype = ITEM_ATTRIBUTE_CUSTOM, avalue = VCustom [([97], CInt 7)]\<rparr>,
                   \<lparr>atype = ITEM_ATTRIBUTE_TEXT, avalue = VStr [104, 105]\<rparr>,
                   \<lparr>atype = ITEM_ATTRIBUTE_CHARGES, avalue = VInt 5\<rparr>],
      attributeBits = 0x80100008\<rparr>"
  "item_id example_item = 2400" "item_count example_item = 1"
  by code_simp+

lemma example_storable: "storable example_table example_item"
proof -
  have "item_inv example_item" by code_simp
  moreover have "length (i_getStrAttr k example_item) \<le> 65535" for k
    by (simp add: i_getStrAttr_def example_attrs getStrAttr_def getExistingAttr_def)
  moreover have "getCharges example_item = 5" "getActionId example_item = 0"
    "\<not> i_hasAttribute ITEM_ATTRIBUTE_DURATION example_item" "custom_list example_item = [([97], CInt 7)]"
    by code_simp+
  ultimately show ?thesis
    by (simp add: storable_def Let_def has_count_def example_table_def isFluidContainer_def
        isSplash_def custom_storable_def)
qed



section \<open>What does not come back\<close>

text \<open>
  Charges stored with an item whose type has none are read into the count: for a
  type that is neither stackable nor a fluid nor charged, the reader of
  \<open>ATTR_CHARGES\<close> calls \<open>setSubType\<close>, which sets the count to the low byte of the
  charges, and the item loses its charges.
\<close>

theorem foreign_charges_become_count:
  assumes "\<not> has_count items it" "it_charges (items (item_id it)) = 0" "item_inv it"
  shows "unserializeAttr items self (ps_init (chunk True ATTR_CHARGES (enc_int 2 (n :: u16))))
           \<lparr>rs_item = it, uniqueItems = u\<rparr> =
         (True, ps_init [], \<lparr>rs_item = setItemCount (ucast n) it, uniqueItems = u\<rparr>) \<and>
         getCharges (setItemCount (ucast n) it) = getCharges it"
proof
  show "unserializeAttr items self (ps_init (chunk True ATTR_CHARGES (enc_int 2 n)))
           \<lparr>rs_item = it, uniqueItems = u\<rparr> =
         (True, ps_init [], \<lparr>rs_item = setItemCount (ucast n) it, uniqueItems = u\<rparr>)"
    using unserialize_chunk [of True items self ATTR_CHARGES "enc_int 2 n" "[]"
        "\<lparr>rs_item = it, uniqueItems = u\<rparr>" "setSubType items n"] assms
    by (simp add: readAttr_def use_value_def ps_read_enc [of 2 _ "[]", simplified]
        unserialize_nil setSubType_def Let_def has_count_def)
  show "getCharges (setItemCount (ucast n) it) = getCharges it"
    by (simp add: getCharges_def i_getIntAttr_def setItemCount_def)
qed

theorem foreign_charges_become_count_witness:
  "\<exists>r. unserializeAttr (\<lambda>t. example_table t\<lparr>it_charges := 0\<rparr>) 1
          (ps_init (chunk True ATTR_CHARGES (enc_int 2 (300 :: u16))))
          \<lparr>rs_item = \<lparr>item_id = 1, item_count = 1, item_attrs = None\<rparr>, uniqueItems = Map.empty\<rparr> =
        (True, ps_init [], \<lparr>rs_item = r, uniqueItems = Map.empty\<rparr>) \<and> item_count r = 44"
  using foreign_charges_become_count [of "\<lambda>t. example_table t\<lparr>it_charges := 0\<rparr>"
      "\<lparr>item_id = 1, item_count = 1, item_attrs = None\<rparr>" 1 300 Map.empty]
  by (auto simp: has_count_def example_table_def isFluidContainer_def isSplash_def Let_def setItemCount_def)

section \<open>Comparison\<close>

lemma find_attr_mem:
  "distinct (map atype xs) \<Longrightarrow> a \<in> set xs \<Longrightarrow> find_attr (atype a) xs = Some a"
  by (induction xs) auto

lemma mask_eq_types:
  assumes "attrs_wf s" "attrs_wf s'" "attributeBits s = attributeBits s'"
  shows "attr_map s t = None \<longleftrightarrow> attr_map s' t = None"
  using hasAttribute_iff [OF assms(1), of t] hasAttribute_iff [OF assms(2), of t] assms(3)
  by (auto simp: hasAttribute_def)

lemma bit_attr_mask: "bit (attr_mask xs) n \<longleftrightarrow> (\<exists>a \<in> set xs. bit (attr_bit (atype a)) n)"
  by (induction xs) (auto simp: bit_or_iff)

lemma same_map_same_mask:
  assumes "attrs_wf s" "attrs_wf s'" "attr_map s = attr_map s'"
  shows "attributeBits s = attributeBits s'"
proof -
  have types: "atype ` set (attr_list x) = dom (attr_map x)" for x
    using find_attr_None [of _ "attr_list x"] by (auto simp: attr_map_def dom_def)
  have "bit (attr_mask (attr_list s)) n \<longleftrightarrow> bit (attr_mask (attr_list s')) n" for n
    using types [of s] types [of s'] assms(3) unfolding bit_attr_mask by (metis imageE imageI)
  then have "attr_mask (attr_list s) = attr_mask (attr_list s')" by (simp add: bit_eq_iff)
  with assms show ?thesis by (simp add: attrs_wf_def)
qed

text \<open>
  \<open>Item::equals\<close> on two different items holds exactly when they have the same type
  and the same attributes and neither carries a custom attribute: custom attributes
  are compared by the address of their map, so two items that have any never stack.
\<close>

theorem equals_compares_attributes:
  assumes "\<forall>s. item_attrs a = Some s \<longrightarrow> attrs_wf s" "\<forall>s. item_attrs b = Some s \<longrightarrow> attrs_wf s"
  shows "equals False a b \<longleftrightarrow>
     item_id a = item_id b \<and> (item_attrs a = None \<longleftrightarrow> item_attrs b = None) \<and>
     item_look a = item_look b \<and> item_look a ITEM_ATTRIBUTE_CUSTOM = None"
proof (cases "item_attrs a")
  case None
  then show ?thesis
    by (auto simp: equals_def item_look_def getAttributes_def)
next
  case s: (Some s)
  show ?thesis
  proof (cases "item_attrs b")
    case None
    with s show ?thesis by (simp add: equals_def)
  next
    case s': (Some s')
    have wf: "attrs_wf s" "attrs_wf s'" using assms s s' by simp_all
    let ?vals = "\<forall>x \<in> set (attr_list s). \<forall>y \<in> set (attr_list s'). atype x = atype y \<longrightarrow> same_value False x y"
    have "attributeBits s = attributeBits s' \<and> ?vals \<longleftrightarrow>
        attr_map s = attr_map s' \<and> attr_map s ITEM_ATTRIBUTE_CUSTOM = None"
    proof
      assume L: "attributeBits s = attributeBits s' \<and> ?vals"
      have val: "v = v' \<and> t \<noteq> ITEM_ATTRIBUTE_CUSTOM" if "attr_map s t = Some v" "attr_map s' t = Some v'" for t v v'
      proof -
        from that obtain x y where xy: "x \<in> set (attr_list s)" "y \<in> set (attr_list s')"
          "atype x = t" "atype y = t" "avalue x = v" "avalue y = v'"
          by (auto simp: attr_map_def dest!: find_attr_type)
        with L have "same_value False x y" by auto
        moreover have "kind_ok t v" "kind_ok t v'"
          using that attr_map_kind [OF wf(1)] attr_map_kind [OF wf(2)] by auto
        ultimately show ?thesis
          using xy int_not_str [of t]
          by (cases v; cases v') (auto simp: same_value_def)
      qed
      note none = mask_eq_types [OF wf conjunct1 [OF L]]
      have both: "attr_map s t = attr_map s' t \<and>
          (attr_map s t \<noteq> None \<longrightarrow> t \<noteq> ITEM_ATTRIBUTE_CUSTOM)" for t
      proof (cases "attr_map s t")
        case None
        then show ?thesis using none [of t] by simp
      next
        case (Some v)
        then obtain v' where "attr_map s' t = Some v'" using none [of t] by force
        then show ?thesis using val [OF Some] Some by simp
      qed
      then have "attr_map s = attr_map s'" by (simp add: fun_eq_iff)
      moreover have "attr_map s ITEM_ATTRIBUTE_CUSTOM = None"
        using both [of ITEM_ATTRIBUTE_CUSTOM] by blast
      ultimately show "attr_map s = attr_map s' \<and> attr_map s ITEM_ATTRIBUTE_CUSTOM = None" by blast
    next
      assume R: "attr_map s = attr_map s' \<and> attr_map s ITEM_ATTRIBUTE_CUSTOM = None"
      have "same_value False x y"
        if xy: "x \<in> set (attr_list s)" "y \<in> set (attr_list s')" "atype x = atype y" for x y
      proof -
        have d: "distinct (map atype (attr_list s))" "distinct (map atype (attr_list s'))"
          using wf by (simp_all add: attrs_wf_def)
        have "attr_map s (atype x) = Some (avalue x)" "attr_map s' (atype x) = Some (avalue y)"
          using find_attr_mem [OF d(1) xy(1)] find_attr_mem [OF d(2) xy(2)] xy(3)
          by (simp_all add: attr_map_def)
        moreover from this have "kind_ok (atype x) (avalue x)" "avalue y = avalue x"
          "atype x \<noteq> ITEM_ATTRIBUTE_CUSTOM"
          using attr_map_kind [OF wf(1)] R by auto
        ultimately show ?thesis by (cases "avalue x") (auto simp: same_value_def)
      qed
      with R same_map_same_mask [OF wf] show "attributeBits s = attributeBits s' \<and> ?vals" by blast
    qed
    with s s' show ?thesis by (simp add: equals_def item_look_def getAttributes_def)
  qed
qed

theorem equals_compares_attributes_witness:
  "\<not> equals False example_item example_item \<and>
   equals False (i_setStrAttr ITEM_ATTRIBUTE_TEXT [104] (newItem example_table 2400 5))
                (i_setStrAttr ITEM_ATTRIBUTE_TEXT [104] (newItem example_table 2400 5))"
proof
  have "attrs_wf (the (item_attrs example_item))" by code_simp
  then show "\<not> equals False example_item example_item"
    using equals_compares_attributes [of example_item example_item]
    by (simp add: example_attrs item_look_def getAttributes_def attr_map_def)
  let ?i = "i_setStrAttr ITEM_ATTRIBUTE_TEXT [104] (newItem example_table 2400 5)"
  have "attrs_wf (the (item_attrs ?i))" "item_look ?i ITEM_ATTRIBUTE_CUSTOM = None" by code_simp+
  moreover from this have "\<forall>s. item_attrs ?i = Some s \<longrightarrow> attrs_wf s"
    by (metis option.sel)
  ultimately show "equals False ?i ?i"
    using equals_compares_attributes [of ?i ?i] by blast
qed

end
