(* ===== verification/Containers.thy ===== *)
theory Containers imports Items begin

text \<open>
  \<open>Container\<close> of container.h and container.cpp: items that hold items. Items live at
  addresses of a store; an item points to the cylinder it is in, a container to its
  items, and every container keeps the total weight of its contents, updated along
  the parent pointers. A cylinder that is not a plain container (a tile, a player,
  the virtual cylinder, an inbox or a depot) is \<open>Outer\<close>: what the code asks of it
  (its parent, whether it is an inbox or another
  kind of container, its \<open>queryAdd\<close>) is a field of \<open>outer_env\<close>.
\<close>

section \<open>Return values\<close>

text \<open>
  The enumerators of \<open>ReturnValue\<close> that containers answer with; the others, which only
  other cylinders use, are \<open>RETURNVALUE_OTHER\<close> with their number.
\<close>

datatype ReturnValue =
    RETURNVALUE_NOERROR
  | RETURNVALUE_NOTPOSSIBLE
  | RETURNVALUE_NOTMOVEABLE
  | RETURNVALUE_CONTAINERNOTENOUGHROOM
  | RETURNVALUE_CANNOTPICKUP
  | RETURNVALUE_THISISIMPOSSIBLE
  | RETURNVALUE_OTHER nat

section \<open>The store\<close>

datatype cylinder = InContainer nat | Outer nat

record container =
  itemlist :: "nat list"
  maxSize :: u32
  totalWeight :: u32
  unlocked :: bool

record obj =
  o_item :: item
  o_parent :: "cylinder option"
  o_cont :: "container option"

type_synonym store = "nat \<rightharpoonup> obj"

record outer_env =
  item_tab :: item_table
  outer_parent :: "nat \<Rightarrow> nat option"
  is_inbox :: "nat \<Rightarrow> bool"
  is_container :: "nat \<Rightarrow> bool"
  is_virtual :: "nat \<Rightarrow> bool"
  outer_queryAdd :: "nat \<Rightarrow> nat \<Rightarrow> u32 \<Rightarrow> u32 \<Rightarrow> ReturnValue"

definition cont_of :: "store \<Rightarrow> nat \<Rightarrow> container option" where
  "cont_of s c = (case s c of None \<Rightarrow> None | Some ob \<Rightarrow> o_cont ob)"

definition items_of :: "store \<Rightarrow> nat \<Rightarrow> nat list" where
  "items_of s c = (case cont_of s c of None \<Rightarrow> [] | Some cp \<Rightarrow> itemlist cp)"

definition upd_obj :: "nat \<Rightarrow> (obj \<Rightarrow> obj) \<Rightarrow> store \<Rightarrow> store" where
  "upd_obj a f s = s(a := map_option f (s a))"

definition upd_cont :: "nat \<Rightarrow> (container \<Rightarrow> container) \<Rightarrow> store \<Rightarrow> store" where
  "upd_cont c f s = upd_obj c (\<lambda>ob. ob\<lparr>o_cont := map_option f (o_cont ob)\<rparr>) s"

definition setParent :: "nat \<Rightarrow> cylinder option \<Rightarrow> store \<Rightarrow> store" where
  "setParent x p s = upd_obj x (\<lambda>ob. ob\<lparr>o_parent := p\<rparr>) s"

definition getParent :: "store \<Rightarrow> nat \<Rightarrow> cylinder option" where
  "getParent s a = (case s a of None \<Rightarrow> None | Some ob \<Rightarrow> o_parent ob)"

text \<open>The parent of any cylinder. The cylinders around an outer one are outer ones too.\<close>

definition cyl_parent :: "outer_env \<Rightarrow> store \<Rightarrow> cylinder \<Rightarrow> cylinder option" where
  "cyl_parent E s y = (case y of InContainer a \<Rightarrow> getParent s a | Outer n \<Rightarrow> map_option Outer (outer_parent E n))"

definition getParentContainer :: "store \<Rightarrow> nat \<Rightarrow> nat option" where
  "getParentContainer s c =
     (case getParent s c of Some (InContainer p) \<Rightarrow> Some p | _ \<Rightarrow> None)"

text \<open>\<open>Item::getWeight\<close> and \<open>Container::getWeight\<close>: a container adds its contents.\<close>

definition weight_at :: "outer_env \<Rightarrow> store \<Rightarrow> nat \<Rightarrow> u32" where
  "weight_at E s a =
     (case s a of None \<Rightarrow> 0
      | Some ob \<Rightarrow> getWeight (item_tab E) (o_item ob) +
                   (case o_cont ob of None \<Rightarrow> 0 | Some cp \<Rightarrow> totalWeight cp))"

text \<open>\<open>updateItemWeight\<close> follows the parents as long as they are containers.\<close>

definition bump :: "u32 \<Rightarrow> container \<Rightarrow> container" where
  "bump diff cp = cp\<lparr>totalWeight := totalWeight cp + diff\<rparr>"

partial_function (option) updateItemWeight :: "nat \<Rightarrow> u32 \<Rightarrow> store \<Rightarrow> store option" where
  "updateItemWeight c diff s =
     (let s = upd_cont c (bump diff) s in
      case getParentContainer s c of
        None \<Rightarrow> Some s
      | Some p \<Rightarrow> updateItemWeight p diff s)"

section \<open>Looking at a container\<close>

definition getItemByIndex :: "store \<Rightarrow> nat \<Rightarrow> nat \<Rightarrow> nat option" where
  "getItemByIndex s c index =
     (if index \<ge> length (items_of s c) then None else Some (items_of s c ! index))"

fun index_from :: "nat \<Rightarrow> nat \<Rightarrow> nat list \<Rightarrow> nat option" where
  "index_from index thing [] = None"
| "index_from index thing (x # xs) =
     (if x = thing then Some index else index_from (index + 1) thing xs)"

text \<open>\<open>None\<close> is the answer \<open>-1\<close>.\<close>

definition getThingIndex :: "store \<Rightarrow> nat \<Rightarrow> nat \<Rightarrow> nat option" where
  "getThingIndex s c thing = index_from 0 thing (items_of s c)"

definition getItemTypeCount :: "outer_env \<Rightarrow> store \<Rightarrow> nat \<Rightarrow> u16 \<Rightarrow> int \<Rightarrow> u32" where
  "getItemTypeCount E s c itemId subType =
     foldl (\<lambda>count x. case s x of
              None \<Rightarrow> count
            | Some ob \<Rightarrow> if item_id (o_item ob) = itemId
                then count + countByType (item_tab E) (o_item ob) subType else count)
       0 (items_of s c)"

text \<open>
  The iterator over a container and everything in it: the containers whose lists are
  still to be walked, and the rest of the list of the first of them from the
  position \<open>cur\<close> on.
\<close>

record container_iterator =
  over :: "nat list"
  cur :: "nat list"

definition iterator :: "store \<Rightarrow> nat \<Rightarrow> container_iterator" where
  "iterator s c =
     (if items_of s c \<noteq> [] then \<lparr>over = [c], cur = items_of s c\<rparr> else \<lparr>over = [], cur = []\<rparr>)"

definition hasNext :: "container_iterator \<Rightarrow> bool" where
  "hasNext it = (over it \<noteq> [])"

definition advance :: "store \<Rightarrow> container_iterator \<Rightarrow> container_iterator" where
  "advance s it =
     (let i = hd (cur it);
          it = (if items_of s i \<noteq> [] then it\<lparr>over := over it @ [i]\<rparr> else it);
          it = it\<lparr>cur := tl (cur it)\<rparr>
      in if cur it = [] then
           (let it = it\<lparr>over := tl (over it)\<rparr>
            in if over it \<noteq> [] then it\<lparr>cur := items_of s (hd (over it))\<rparr> else it)
         else it)"

text \<open>The items a loop over the iterator sees, in order.\<close>

partial_function (option) visit_all :: "store \<Rightarrow> container_iterator \<Rightarrow> nat list \<Rightarrow> nat list option" where
  "visit_all s it seen =
     (if hasNext it then visit_all s (advance s it) (seen @ [hd (cur it)]) else Some seen)"

partial_function (option) count_all :: "store \<Rightarrow> container_iterator \<Rightarrow> u32 \<Rightarrow> u32 option" where
  "count_all s it counter =
     (if hasNext it then count_all s (advance s it) (counter + 1) else Some counter)"

definition getItemHoldingCount :: "store \<Rightarrow> nat \<Rightarrow> u32 option" where
  "getItemHoldingCount s c = count_all s (iterator s c) 0"

partial_function (option) find_item :: "store \<Rightarrow> nat \<Rightarrow> container_iterator \<Rightarrow> bool option" where
  "find_item s x it =
     (if hasNext it then
        (if hd (cur it) = x then Some True else find_item s x (advance s it))
      else Some False)"

definition isHoldingItem :: "store \<Rightarrow> nat \<Rightarrow> nat \<Rightarrow> bool option" where
  "isHoldingItem s c x = find_item s x (iterator s c)"

section \<open>Queries\<close>

definition FLAG_NOLIMIT :: u32 where "FLAG_NOLIMIT = push_bit 0 1"
definition FLAG_CHILDISOWNER :: u32 where "FLAG_CHILDISOWNER = push_bit 3 1"
definition FLAG_IGNORENOTMOVEABLE :: u32 where "FLAG_IGNORENOTMOVEABLE = push_bit 6 1"
definition FLAG_IGNOREAUTOSTACK :: u32 where "FLAG_IGNOREAUTOSTACK = push_bit 7 1"

definition hasBitSet :: "u32 \<Rightarrow> u32 \<Rightarrow> bool" where
  "hasBitSet flag flags = (flags AND flag \<noteq> 0)"

definition INDEX_WHEREEVER :: int where "INDEX_WHEREEVER = -1"

text \<open>
  The loop of \<open>queryAdd\<close> over the cylinders around the container; \<open>limit\<close> tells
  whether inboxes are checked. It returns the answer of an early return, if any.
\<close>

partial_function (option) check_parents ::
  "outer_env \<Rightarrow> store \<Rightarrow> nat \<Rightarrow> bool \<Rightarrow> cylinder option \<Rightarrow> ReturnValue option option" where
  "check_parents E s thing limit y =
     (case y of
        None \<Rightarrow> Some None
      | Some cyl \<Rightarrow>
          if cyl = InContainer thing then Some (Some RETURNVALUE_THISISIMPOSSIBLE)
          else if limit \<and> (case cyl of InContainer _ \<Rightarrow> False | Outer n \<Rightarrow> is_inbox E n)
            then Some (Some RETURNVALUE_CONTAINERNOTENOUGHROOM)
          else check_parents E s thing limit (cyl_parent E s cyl))"

text \<open>\<open>Item::getTopParent\<close> of a container: the last cylinder that still has a parent.\<close>

partial_function (option) top_walk ::
  "outer_env \<Rightarrow> store \<Rightarrow> cylinder \<Rightarrow> cylinder \<Rightarrow> cylinder option" where
  "top_walk E s prevaux aux =
     (case cyl_parent E s aux of
        None \<Rightarrow> Some prevaux
      | Some p \<Rightarrow> top_walk E s aux p)"

definition getTopParent :: "outer_env \<Rightarrow> store \<Rightarrow> nat \<Rightarrow> cylinder option" where
  "getTopParent E s c =
     (case getParent s c of
        None \<Rightarrow> Some (InContainer c)
      | Some aux \<Rightarrow> top_walk E s (InContainer c) aux)"

text \<open>
  \<open>queryAdd\<close>; \<open>None\<close> is a loop that does not end. The query of the top parent has the
  flag \<open>FLAG_CHILDISOWNER\<close>, on which a container answers at once.
\<close>

definition queryAdd ::
  "outer_env \<Rightarrow> store \<Rightarrow> nat \<Rightarrow> int \<Rightarrow> nat \<Rightarrow> u32 \<Rightarrow> u32 \<Rightarrow> ReturnValue option" where
  "queryAdd E s c index thing count flags =
     (if hasBitSet FLAG_CHILDISOWNER flags then Some RETURNVALUE_NOERROR
      else case (cont_of s c, s thing) of
        (Some cp, Some ob) \<Rightarrow>
          if \<not> unlocked cp then Some RETURNVALUE_NOTPOSSIBLE
          else if \<not> it_pickupable (item_tab E (item_id (o_item ob))) then Some RETURNVALUE_CANNOTPICKUP
          else if thing = c then Some RETURNVALUE_THISISIMPOSSIBLE
          else (case check_parents E s thing (\<not> hasBitSet FLAG_NOLIMIT flags) (getParent s c) of
                  None \<Rightarrow> None
                | Some (Some r) \<Rightarrow> Some r
                | Some None \<Rightarrow>
                    if \<not> hasBitSet FLAG_NOLIMIT flags \<and> index = INDEX_WHEREEVER \<and>
                       length (itemlist cp) \<ge> unat (maxSize cp)
                    then Some RETURNVALUE_CONTAINERNOTENOUGHROOM
                    else (case getTopParent E s c of
                            None \<Rightarrow> None
                          | Some (InContainer a) \<Rightarrow> Some RETURNVALUE_NOERROR
                          | Some (Outer n) \<Rightarrow>
                              Some (outer_queryAdd E n thing count (flags OR FLAG_CHILDISOWNER))))
      | _ \<Rightarrow> Some RETURNVALUE_NOTPOSSIBLE)"

text \<open>
  \<open>queryMaxCount\<close>: the room for more of an item. The pair is the answer and
  \<open>maxQueryCount\<close>. The comparison of two items does not depend on their order.
\<close>

definition can_stack :: "store \<Rightarrow> nat \<Rightarrow> nat \<Rightarrow> bool" where
  "can_stack s y thing =
     (case (s y, s thing) of
        (Some oy, Some ot) \<Rightarrow> equals (y = thing) (o_item oy) (o_item ot) \<and> item_count (o_item oy) < 100
      | _ \<Rightarrow> False)"

definition stack_room :: "store \<Rightarrow> nat \<Rightarrow> u32" where
  "stack_room s y = (case s y of None \<Rightarrow> 0 | Some ob \<Rightarrow> 100 - ucast (item_count (o_item ob)))"

fun stack_slots ::
  "outer_env \<Rightarrow> store \<Rightarrow> nat \<Rightarrow> nat \<Rightarrow> u32 \<Rightarrow> nat list \<Rightarrow> nat \<Rightarrow> u32 \<Rightarrow> u32 option" where
  "stack_slots E s c thing flags [] slotIndex n = Some n"
| "stack_slots E s c thing flags (y # ys) slotIndex n =
     (if y \<noteq> thing \<and> can_stack s y thing then
        (case queryAdd E s c (int slotIndex) thing (stack_room s y) flags of
           None \<Rightarrow> None
         | Some r \<Rightarrow> stack_slots E s c thing flags ys (slotIndex + 1)
                       (if r = RETURNVALUE_NOERROR then n + stack_room s y else n))
      else stack_slots E s c thing flags ys slotIndex n)"

definition freeSlots :: "container \<Rightarrow> u32" where
  "freeSlots cp =
     (let free = (of_nat (unat (maxSize cp)) - of_nat (length (itemlist cp)) :: u32)
      in if sint free < 0 then 0 else free)"

definition queryMaxCount ::
  "outer_env \<Rightarrow> store \<Rightarrow> nat \<Rightarrow> int \<Rightarrow> nat \<Rightarrow> u32 \<Rightarrow> u32 \<Rightarrow> (ReturnValue \<times> u32) option" where
  "queryMaxCount E s c index thing count flags =
     (case (cont_of s c, s thing) of
        (Some cp, Some ob) \<Rightarrow>
          if hasBitSet FLAG_NOLIMIT flags then Some (RETURNVALUE_NOERROR, max 1 count)
          else if it_stackable (item_tab E (item_id (o_item ob))) then
            (case (if index = INDEX_WHEREEVER then stack_slots E s c thing flags (itemlist cp) 0 0
                   else (case (if 0 \<le> index then getItemByIndex s c (nat index) else None) of
                           None \<Rightarrow> Some 0
                         | Some y \<Rightarrow>
                             if can_stack s y thing then
                               (case queryAdd E s c index thing (stack_room s y) flags of
                                  None \<Rightarrow> None
                                | Some r \<Rightarrow> Some (if r = RETURNVALUE_NOERROR then stack_room s y else 0))
                             else Some 0)) of
               None \<Rightarrow> None
             | Some n \<Rightarrow>
                 (let maxQueryCount = freeSlots cp * 100 + n in
                  Some (if maxQueryCount < count then RETURNVALUE_CONTAINERNOTENOUGHROOM
                        else RETURNVALUE_NOERROR, maxQueryCount)))
          else Some (if freeSlots cp = 0 then RETURNVALUE_CONTAINERNOTENOUGHROOM
                     else RETURNVALUE_NOERROR, freeSlots cp)
      | _ \<Rightarrow> Some (RETURNVALUE_NOTPOSSIBLE, 0))"

text \<open>
  \<open>queryDestination\<close> resolves an index sent by a client: the cylinder, the index and the
  item at the destination. The item the caller passes in is \<open>destItem\<close>.
\<close>

fun stack_target :: "store \<Rightarrow> nat \<Rightarrow> nat list \<Rightarrow> nat \<Rightarrow> (nat \<times> nat) option" where
  "stack_target s thing [] n = None"
| "stack_target s thing (y # ys) n =
     (if y \<noteq> thing \<and> can_stack s y thing then Some (y, n) else stack_target s thing ys (n + 1))"

definition queryDestination ::
  "outer_env \<Rightarrow> store \<Rightarrow> nat \<Rightarrow> int \<Rightarrow> nat \<Rightarrow> nat option \<Rightarrow> u32 \<Rightarrow> cylinder \<times> int \<times> nat option" where
  "queryDestination E s c index thing destItem flags =
     (case (cont_of s c, s thing) of
        (Some cp, Some ob) \<Rightarrow>
          if \<not> unlocked cp then (InContainer c, index, None)
          else if index = 254 then
            (case getParent s c of
               Some (InContainer p) \<Rightarrow> (InContainer p, INDEX_WHEREEVER, None)
             | Some (Outer n) \<Rightarrow>
                 if is_container E n then (Outer n, INDEX_WHEREEVER, None)
                 else (InContainer c, INDEX_WHEREEVER, None)
             | None \<Rightarrow> (InContainer c, INDEX_WHEREEVER, None))
          else
            (let (index, destItem) =
                   (if index = 255 \<or> index \<ge> sint (maxSize cp) then (INDEX_WHEREEVER, None)
                    else (index, destItem));
                 destItem =
                   (if index \<noteq> INDEX_WHEREEVER \<and> 0 \<le> index then
                      (case getItemByIndex s c (nat index) of None \<Rightarrow> destItem | Some y \<Rightarrow> Some y)
                    else destItem)
             in if index \<noteq> INDEX_WHEREEVER \<and> (case destItem of None \<Rightarrow> False | Some y \<Rightarrow> cont_of s y \<noteq> None)
                then (InContainer (the destItem), INDEX_WHEREEVER, None)
                else if \<not> hasBitSet FLAG_IGNOREAUTOSTACK flags \<and>
                        it_stackable (item_tab E (item_id (o_item ob))) \<and>
                        o_parent ob \<noteq> Some (InContainer c)
                then (case stack_target s thing (itemlist cp) 0 of
                        Some (y, n) \<Rightarrow> (InContainer c, int n, Some y)
                      | None \<Rightarrow> (InContainer c, index, destItem))
                else (InContainer c, index, destItem))
      | _ \<Rightarrow> (InContainer c, index, destItem))"

definition queryRemove :: "outer_env \<Rightarrow> store \<Rightarrow> nat \<Rightarrow> nat \<Rightarrow> u32 \<Rightarrow> u32 \<Rightarrow> ReturnValue" where
  "queryRemove E s c thing count flags =
     (case (getThingIndex s c thing, s thing) of
        (Some index, Some ob) \<Rightarrow>
          (let t = item_tab E (item_id (o_item ob)) in
           if count = 0 \<or> it_stackable t \<and> count > ucast (item_count (o_item ob))
             then RETURNVALUE_NOTPOSSIBLE
           else if \<not> it_moveable t \<and> \<not> hasBitSet FLAG_IGNORENOTMOVEABLE flags
             then RETURNVALUE_NOTMOVEABLE
           else RETURNVALUE_NOERROR)
      | _ \<Rightarrow> RETURNVALUE_NOTPOSSIBLE)"

section \<open>Changes\<close>

text \<open>What the container tells the players around it.\<close>

datatype cevent =
    AddContainerItem nat nat
  | UpdateContainerItem nat nat nat nat
  | RemoveContainerItem nat nat nat

definition tell_add :: "outer_env \<Rightarrow> store \<Rightarrow> nat \<Rightarrow> nat \<Rightarrow> cevent list" where
  "tell_add E s c x =
     (case getParent s c of
        None \<Rightarrow> []
      | Some (Outer n) \<Rightarrow> if is_virtual E n then [] else [AddContainerItem c x]
      | Some (InContainer p) \<Rightarrow> [AddContainerItem c x])"

definition tell_if_parent :: "store \<Rightarrow> nat \<Rightarrow> cevent \<Rightarrow> cevent list" where
  "tell_if_parent s c ev = (if getParent s c = None then [] else [ev])"

definition push_item :: "outer_env \<Rightarrow> (nat list \<Rightarrow> nat list) \<Rightarrow> nat \<Rightarrow> nat \<Rightarrow> store \<Rightarrow> store option" where
  "push_item E f c x s =
     (let s = upd_cont c (\<lambda>cp. cp\<lparr>itemlist := f (itemlist cp)\<rparr>) (setParent x (Some (InContainer c)) s)
      in updateItemWeight c (weight_at E s x) s)"

definition addThing :: "outer_env \<Rightarrow> int \<Rightarrow> nat \<Rightarrow> nat \<Rightarrow> store \<Rightarrow> (store \<times> cevent list) option" where
  "addThing E index c x s =
     (case cont_of s c of
        None \<Rightarrow> Some (s, [])
      | Some cp \<Rightarrow>
          if index \<ge> sint (maxSize cp) then Some (s, [])
          else map_option (\<lambda>s. (s, tell_add E s c x)) (push_item E (\<lambda>xs. x # xs) c x s))"

definition addItemBack :: "outer_env \<Rightarrow> nat \<Rightarrow> nat \<Rightarrow> store \<Rightarrow> (store \<times> cevent list) option" where
  "addItemBack E c x s =
     map_option (\<lambda>s. (s, tell_add E s c x)) (push_item E (\<lambda>xs. xs @ [x]) c x s)"

definition internalAddThing :: "outer_env \<Rightarrow> nat \<Rightarrow> nat \<Rightarrow> store \<Rightarrow> (store \<times> cevent list) option" where
  "internalAddThing E c x s = map_option (\<lambda>s. (s, [])) (push_item E (\<lambda>xs. x # xs) c x s)"

definition change_item :: "nat \<Rightarrow> (item \<Rightarrow> item) \<Rightarrow> store \<Rightarrow> store" where
  "change_item x f s = upd_obj x (\<lambda>ob. ob\<lparr>o_item := f (o_item ob)\<rparr>) s"

text \<open>A change of an item in the container, with the difference of its weights passed up.\<close>

definition reweigh :: "outer_env \<Rightarrow> nat \<Rightarrow> nat \<Rightarrow> (item \<Rightarrow> item) \<Rightarrow> store \<Rightarrow> store option" where
  "reweigh E c x f s =
     (let oldWeight = weight_at E s x;
          s = change_item x f s
      in updateItemWeight c (- oldWeight + weight_at E s x) s)"

definition updateThing ::
  "outer_env \<Rightarrow> nat \<Rightarrow> nat \<Rightarrow> u16 \<Rightarrow> u32 \<Rightarrow> store \<Rightarrow> (store \<times> cevent list) option" where
  "updateThing E c x itemId count s =
     (case getThingIndex s c x of
        None \<Rightarrow> Some (s, [])
      | Some index \<Rightarrow>
          map_option (\<lambda>s. (s, tell_if_parent s c (UpdateContainerItem c index x x)))
            (reweigh E c x (\<lambda>it. setSubType (item_tab E) (ucast count) (setID (item_tab E) itemId it)) s))"

definition replaceThing ::
  "outer_env \<Rightarrow> nat \<Rightarrow> nat \<Rightarrow> nat \<Rightarrow> store \<Rightarrow> (store \<times> cevent list) option" where
  "replaceThing E c index x s =
     (case getItemByIndex s c index of
        None \<Rightarrow> Some (s, [])
      | Some replaced \<Rightarrow>
          (let s = setParent x (Some (InContainer c))
                     (upd_cont c (\<lambda>cp. cp\<lparr>itemlist := (itemlist cp)[index := x]\<rparr>) s)
           in map_option
                (\<lambda>s. (setParent replaced None s,
                      tell_if_parent s c (UpdateContainerItem c index replaced x)))
                (updateItemWeight c (- weight_at E s replaced + weight_at E s x) s)))"

definition removeThing ::
  "outer_env \<Rightarrow> nat \<Rightarrow> nat \<Rightarrow> u32 \<Rightarrow> store \<Rightarrow> (store \<times> cevent list) option" where
  "removeThing E c x count s =
     (case (getThingIndex s c x, s x) of
        (Some index, Some ob) \<Rightarrow>
          if it_stackable (item_tab E (item_id (o_item ob))) \<and> count \<noteq> ucast (item_count (o_item ob))
          then (let left = (ucast (item_count (o_item ob)) - count :: u32);
                    newCount = (if sint left < 0 then 0 else ucast left :: u8)
                in map_option (\<lambda>s. (s, tell_if_parent s c (UpdateContainerItem c index x x)))
                     (reweigh E c x (setItemCount newCount) s))
          else map_option
                 (\<lambda>s. (upd_cont c (\<lambda>cp. cp\<lparr>itemlist := take index (itemlist cp) @ drop (index + 1) (itemlist cp)\<rparr>)
                         (setParent x None s),
                       tell_if_parent s c (RemoveContainerItem c index x)))
                 (updateItemWeight c (- weight_at E s x) s)
      | _ \<Rightarrow> Some (s, []))"

end
