(* ===== verification/ContainerProps.thy ===== *)
theory ContainerProps imports Containers begin

text \<open>
  The forest of containers: the invariant of the store (parent pointers and item lists
  agree, nothing contains itself, every total weight is the sum of the weights of the
  contents), its preservation by every change, and the exactness of the iterator.
\<close>

section \<open>The invariant\<close>

definition inside :: "store \<Rightarrow> (nat \<times> nat) set" where
  "inside s = {(p, x). getParentContainer s x = Some p}"

definition linked :: "store \<Rightarrow> bool" where
  "linked s = ((\<forall>c x. x \<in> set (items_of s c) \<longleftrightarrow> (c, x) \<in> inside s) \<and> (\<forall>c. distinct (items_of s c)))"

definition weighed :: "outer_env \<Rightarrow> store \<Rightarrow> bool" where
  "weighed E s = (\<forall>c cp. cont_of s c = Some cp \<longrightarrow>
     totalWeight cp = sum_list (map (weight_at E s) (itemlist cp)))"

definition store_inv :: "outer_env \<Rightarrow> store \<Rightarrow> bool" where
  "store_inv E s = (finite (dom s) \<and> linked s \<and> wf (inside s) \<and> weighed E s)"

lemma store_invD:
  assumes "store_inv E s"
  shows "finite (dom s)" "linked s" "wf (inside s)" "weighed E s"
  using assms by (simp_all add: store_inv_def)

lemma forest_linkedD:
  assumes "linked s"
  shows "x \<in> set (items_of s c) \<longleftrightarrow> (c, x) \<in> inside s" "distinct (items_of s c)"
  using assms by (simp_all add: linked_def)

lemma inside_fun: "(p, x) \<in> inside s \<Longrightarrow> (q, x) \<in> inside s \<Longrightarrow> p = q"
  by (simp add: inside_def)

lemma inside_iff: "(p, x) \<in> inside s \<longleftrightarrow> getParentContainer s x = Some p"
  by (simp add: inside_def)

lemma inside_dom: "(p, x) \<in> inside s \<Longrightarrow> s x \<noteq> None"
  by (auto simp: inside_def getParentContainer_def getParent_def split: option.splits)

section \<open>Changes of one object\<close>

lemma upd_obj_apply: "upd_obj a f s b = (if b = a then map_option f (s b) else s b)"
  by (simp add: upd_obj_def)

lemma upd_cont_parent [simp]:
  "getParent (upd_cont c f s) a = getParent s a"
  "getParentContainer (upd_cont c f s) a = getParentContainer s a"
  "inside (upd_cont c f s) = inside s"
proof -
  show p: "getParent (upd_cont c f s) a = getParent s a" for a
    by (simp add: getParent_def upd_cont_def upd_obj_apply split: option.split)
  show "getParentContainer (upd_cont c f s) a = getParentContainer s a" for a
    by (simp add: getParentContainer_def p)
  then show "inside (upd_cont c f s) = inside s" by (simp add: inside_def)
qed

lemma cont_of_upd_cont: "cont_of (upd_cont c f s) a = (if a = c then map_option f (cont_of s a) else cont_of s a)"
  by (simp add: cont_of_def upd_cont_def upd_obj_apply split: option.split)

lemma cont_of_upd_obj:
  "(\<And>ob. o_cont (f ob) = o_cont ob) \<Longrightarrow> cont_of (upd_obj a f s) b = cont_of s b"
  by (simp add: cont_of_def upd_obj_apply split: option.split)

lemma cont_of_setParent [simp]: "cont_of (setParent x p s) a = cont_of s a"
  by (simp add: setParent_def cont_of_upd_obj)

lemma cont_of_change_item [simp]: "cont_of (change_item x f s) a = cont_of s a"
  by (simp add: change_item_def cont_of_upd_obj)

lemma items_of_cong: "cont_of s a = cont_of s' a \<Longrightarrow> items_of s a = items_of s' a"
  by (simp add: items_of_def)

lemma items_of_setParent [simp]:
  "items_of (setParent x p s) a = items_of s a" "items_of (change_item x f s) a = items_of s a"
  by (simp_all add: items_of_def)

lemma change_item_parent [simp]:
  "getParent (change_item x f s) a = getParent s a"
  "getParentContainer (change_item x f s) a = getParentContainer s a"
  "inside (change_item x f s) = inside s"
proof -
  show p: "getParent (change_item x f s) a = getParent s a" for a
    by (simp add: getParent_def change_item_def upd_obj_apply split: option.split)
  show "getParentContainer (change_item x f s) a = getParentContainer s a" for a
    by (simp add: getParentContainer_def p)
  then show "inside (change_item x f s) = inside s" by (simp add: inside_def)
qed

lemma getParent_setParent:
  "s x \<noteq> None \<Longrightarrow> getParent (setParent x p s) a = (if a = x then p else getParent s a)"
  by (auto simp: getParent_def setParent_def upd_obj_apply split: option.split)

lemma inside_setParent_in:
  "s x \<noteq> None \<Longrightarrow> getParentContainer s x = None \<Longrightarrow>
     inside (setParent x (Some (InContainer c)) s) = insert (c, x) (inside s)"
  by (auto simp: inside_def getParentContainer_def getParent_setParent split: option.splits cylinder.splits)

lemma inside_setParent_None:
  "s x \<noteq> None \<Longrightarrow> inside (setParent x None s) = {(p, y). (p, y) \<in> inside s \<and> y \<noteq> x}"
  by (auto simp: inside_def getParentContainer_def getParent_setParent)

lemma dom_updates [simp]:
  "dom (upd_obj a f s) = dom s" "dom (upd_cont a g s) = dom s" "dom (setParent a p s) = dom s"
  "dom (change_item a h s) = dom s"
  by (auto simp: upd_obj_def upd_cont_def setParent_def change_item_def dom_def)

section \<open>The walk of updateItemWeight\<close>

text \<open>The walk adds the difference to the container and to everything around it.\<close>

definition bump_all :: "nat set \<Rightarrow> u32 \<Rightarrow> store \<Rightarrow> store" where
  "bump_all A d s = (\<lambda>a. if a \<in> A then map_option (\<lambda>ob. ob\<lparr>o_cont := map_option (bump d) (o_cont ob)\<rparr>) (s a) else s a)"

definition around :: "store \<Rightarrow> nat \<Rightarrow> nat set" where
  "around s c = {e. (e, c) \<in> (inside s)\<^sup>*}"

lemma bump_all_parent [simp]:
  "getParent (bump_all A d s) a = getParent s a"
  "getParentContainer (bump_all A d s) a = getParentContainer s a"
  "inside (bump_all A d s) = inside s" "dom (bump_all A d s) = dom s"
proof -
  show p: "getParent (bump_all A d s) a = getParent s a" for a
    by (simp add: getParent_def bump_all_def split: option.split)
  show "getParentContainer (bump_all A d s) a = getParentContainer s a" for a
    by (simp add: getParentContainer_def p)
  then show "inside (bump_all A d s) = inside s" by (simp add: inside_def)
  show "dom (bump_all A d s) = dom s" by (auto simp: bump_all_def dom_def)
qed

lemma cont_of_bump_all:
  "cont_of (bump_all A d s) a = (if a \<in> A then map_option (bump d) (cont_of s a) else cont_of s a)"
  by (simp add: cont_of_def bump_all_def split: option.split)

lemma items_of_bump_all [simp]: "items_of (bump_all A d s) a = items_of s a"
  by (simp add: items_of_def cont_of_bump_all bump_def split: option.split)

lemma items_of_cont:
  "items_of s c \<noteq> [] \<Longrightarrow> \<exists>cc. cont_of s c = Some cc \<and> itemlist cc = items_of s c"
  by (simp add: items_of_def split: option.splits)

lemma upd_cont_bump: "upd_cont c (bump d) s = bump_all {c} d s"
  by (auto simp: upd_cont_def upd_obj_def bump_all_def fun_eq_iff)

lemma around_None: "getParentContainer s c = None \<Longrightarrow> around s c = {c}"
proof -
  assume n: "getParentContainer s c = None"
  have "(e, c) \<in> (inside s)\<^sup>* \<Longrightarrow> e = c" for e
    by (cases rule: rtrancl.cases) (auto simp: inside_iff n elim: rtrancl.cases)
  then show ?thesis by (auto simp: around_def)
qed

lemma around_Some: "getParentContainer s c = Some p \<Longrightarrow> around s c = insert c (around s p)"
proof -
  assume n: "getParentContainer s c = Some p"
  have "(e, c) \<in> (inside s)\<^sup>* \<Longrightarrow> e = c \<or> (e, p) \<in> (inside s)\<^sup>*" for e
    by (erule rtrancl.cases) (auto simp: inside_iff n)
  moreover have "(p, c) \<in> inside s" by (simp add: inside_iff n)
  ultimately show ?thesis by (auto simp: around_def intro: rtrancl_into_rtrancl)
qed

lemma around_inside: "inside s = inside s' \<Longrightarrow> around s c = around s' c"
  by (simp add: around_def)

lemma not_around_parent:
  assumes "wf (inside s)" "getParentContainer s c = Some p"
  shows "c \<notin> around s p"
proof
  assume "c \<in> around s p"
  moreover have "(p, c) \<in> inside s" using assms(2) by (simp add: inside_iff)
  ultimately have "(c, c) \<in> (inside s)\<^sup>+" by (simp add: around_def)
  with assms(1) show False by (meson wf_not_refl wf_trancl)
qed

lemma bump_all_insert:
  "c \<notin> A \<Longrightarrow> bump_all A d (bump_all {c} d s) = bump_all (insert c A) d s"
  by (auto simp: bump_all_def fun_eq_iff)

lemma updateItemWeight_walk:
  assumes "wf (inside s)"
  shows "updateItemWeight c d s = Some (bump_all (around s c) d s)"
proof -
  have "\<forall>s. inside s = r \<longrightarrow> updateItemWeight c d s = Some (bump_all (around s c) d s)"
    if "wf r" for r
    using that
  proof (induction c rule: wf_induct_rule)
    case (less c)
    show ?case
    proof (intro allI impI)
      fix s
      assume r: "inside s = r"
      let ?s = "bump_all {c} d s"
      show "updateItemWeight c d s = Some (bump_all (around s c) d s)"
      proof (cases "getParentContainer s c")
        case None
        then show ?thesis
          by (subst updateItemWeight.simps) (simp add: upd_cont_bump around_None)
      next
        case (Some p)
        then have "(p, c) \<in> r" using r by (simp add: inside_iff flip: r)
        with less r have "updateItemWeight p d ?s = Some (bump_all (around ?s p) d ?s)" by simp
        moreover have "around ?s p = around s p" by (rule around_inside) simp
        moreover have "c \<notin> around s p" using not_around_parent Some \<open>wf r\<close> r by blast
        ultimately show ?thesis
          by (subst updateItemWeight.simps)
            (simp add: upd_cont_bump Some around_Some bump_all_insert)
      qed
    qed
  qed
  with assms show ?thesis by blast
qed

section \<open>Sums of weights\<close>

lemma sum_list_bump_one:
  assumes "distinct xs" "\<And>y z. y \<in> set xs \<Longrightarrow> z \<in> set xs \<Longrightarrow> y \<in> A \<Longrightarrow> z \<in> A \<Longrightarrow> y = z"
  shows "sum_list (map (\<lambda>y. f y + (if y \<in> A then d else (0 :: u32))) xs) =
           sum_list (map f xs) + (if \<exists>y \<in> set xs. y \<in> A then d else 0)"
  using assms
proof (induction xs)
  case Nil
  then show ?case by simp
next
  case (Cons x xs)
  have IH: "sum_list (map (\<lambda>y. f y + (if y \<in> A then d else 0)) xs) =
      sum_list (map f xs) + (if \<exists>y \<in> set xs. y \<in> A then d else 0)"
    using Cons.prems by (intro Cons.IH) auto
  show ?case
  proof (cases "x \<in> A")
    case True
    then have "\<not> (\<exists>y \<in> set xs. y \<in> A)" using Cons.prems by fastforce
    with True IH show ?thesis by (simp add: algebra_simps)
  next
    case False
    with IH show ?thesis by (simp add: algebra_simps)
  qed
qed

lemma around_refl [simp]: "c \<in> around s c"
  by (simp add: around_def)

lemma around_up: "y \<in> around s c \<Longrightarrow> (e, y) \<in> inside s \<Longrightarrow> e \<in> around s c"
  by (simp add: around_def)

lemma around_child:
  assumes "wf (inside s)"
  shows "(\<exists>y. (e, y) \<in> inside s \<and> y \<in> around s c) \<longleftrightarrow> e \<in> around s c \<and> e \<noteq> c"
proof
  assume "\<exists>y. (e, y) \<in> inside s \<and> y \<in> around s c"
  then obtain y where y: "(e, y) \<in> inside s" "(y, c) \<in> (inside s)\<^sup>*" by (auto simp: around_def)
  then have "(e, c) \<in> (inside s)\<^sup>+" by simp
  with assms show "e \<in> around s c \<and> e \<noteq> c"
    by (auto simp: around_def dest: wf_trancl wf_not_refl)
next
  assume "e \<in> around s c \<and> e \<noteq> c"
  then have "(e, c) \<in> (inside s)\<^sup>*" "e \<noteq> c" by (simp_all add: around_def)
  then show "\<exists>y. (e, y) \<in> inside s \<and> y \<in> around s c"
    by (auto simp: around_def elim: converse_rtranclE)
qed

lemma around_chain:
  assumes "y \<in> around s c" "z \<in> around s c"
  shows "(y, z) \<in> (inside s)\<^sup>* \<or> (z, y) \<in> (inside s)\<^sup>*"
proof -
  have "single_valued ((inside s)\<inverse>)" by (auto simp: single_valued_def intro: inside_fun)
  moreover have "(c, y) \<in> ((inside s)\<inverse>)\<^sup>*" "(c, z) \<in> ((inside s)\<inverse>)\<^sup>*"
    using assms by (simp_all add: around_def rtrancl_converse)
  ultimately have "(y, z) \<in> ((inside s)\<inverse>)\<^sup>* \<or> (z, y) \<in> ((inside s)\<inverse>)\<^sup>*"
    by (rule single_valued_confluent)
  then show ?thesis by (auto simp: rtrancl_converse)
qed

lemma around_unique:
  assumes wf: "wf (inside s)" and yz: "(e, y) \<in> inside s" "(e, z) \<in> inside s"
    "y \<in> around s c" "z \<in> around s c"
  shows "y = z"
proof -
  have no: "u = v" if "(u, v) \<in> (inside s)\<^sup>*" "(e, u) \<in> inside s" "(e, v) \<in> inside s" for u v
    using that(1)
  proof (cases rule: rtranclE)
    case (step w)
    then have "w = e" using that(3) inside_fun by blast
    then have "(e, e) \<in> (inside s)\<^sup>+" using step(1) that(2) by (meson rtrancl_into_trancl2)
    then show ?thesis using wf by (meson wf_not_refl wf_trancl)
  qed simp
  show ?thesis using around_chain [OF yz(3,4)] no yz by blast
qed

lemma weight_at_bump:
  assumes "a \<in> A \<Longrightarrow> cont_of s a \<noteq> None"
  shows "weight_at E (bump_all A d s) a = weight_at E s a + (if a \<in> A then d else 0)"
  using assms
  by (auto simp: weight_at_def bump_all_def cont_of_def bump_def split: option.splits)

text \<open>
  If every container is right but one, which lacks \<open>d\<close>, the walk from that container
  makes every container right.
\<close>

lemma weighed_bump:
  assumes lk: "linked s" and wf: "wf (inside s)"
    and others: "\<And>e cp. e \<noteq> c \<Longrightarrow> cont_of s e = Some cp \<Longrightarrow>
                   totalWeight cp = sum_list (map (weight_at E s) (itemlist cp))"
    and own: "cont_of s c = Some cc" "totalWeight cc + d = sum_list (map (weight_at E s) (itemlist cc))"
  shows "weighed E (bump_all (around s c) d s)"
  unfolding weighed_def
proof (intro allI impI)
  fix e cp'
  let ?A = "around s c"
  assume "cont_of (bump_all ?A d s) e = Some cp'"
  then obtain cp where cp: "cont_of s e = Some cp" "cp' = (if e \<in> ?A then bump d cp else cp)"
    by (auto simp: cont_of_bump_all split: if_splits)
  have items: "items_of s e = itemlist cp" using cp by (simp add: items_of_def)
  have conts: "a \<in> ?A \<Longrightarrow> cont_of s a \<noteq> None" for a
  proof -
    assume a: "a \<in> ?A"
    show ?thesis
    proof (cases "a = c")
      case True
      then show ?thesis using own by simp
    next
      case False
      then obtain y where "(a, y) \<in> inside s" using around_child [OF wf, of a c] a by blast
      then have "items_of s a \<noteq> []" using forest_linkedD(1) [OF lk] by force
      then show ?thesis by (auto simp: items_of_def split: option.splits)
    qed
  qed
  have "sum_list (map (weight_at E (bump_all ?A d s)) (itemlist cp)) =
      sum_list (map (\<lambda>y. weight_at E s y + (if y \<in> ?A then d else 0)) (itemlist cp))"
    by (intro arg_cong [of _ _ sum_list] map_cong refl weight_at_bump conts)
  also have "\<dots> = sum_list (map (weight_at E s) (itemlist cp)) +
      (if \<exists>y \<in> set (itemlist cp). y \<in> ?A then d else 0)"
    using forest_linkedD [OF lk] around_unique [OF wf]
    by (intro sum_list_bump_one) (simp_all flip: items)
  also have "(\<exists>y \<in> set (itemlist cp). y \<in> ?A) \<longleftrightarrow> e \<in> ?A \<and> e \<noteq> c"
    using around_child [OF wf, of e c] forest_linkedD(1) [OF lk, of _ e] by (auto simp flip: items)
  finally have sum: "sum_list (map (weight_at E (bump_all ?A d s)) (itemlist cp)) =
      sum_list (map (weight_at E s) (itemlist cp)) + (if e \<in> ?A \<and> e \<noteq> c then d else 0)" .
  show "totalWeight cp' = sum_list (map (weight_at E (bump_all ?A d s)) (itemlist cp'))"
  proof (cases "e = c")
    case True
    then show ?thesis using sum own cp by (simp add: bump_def)
  next
    case False
    then show ?thesis using sum others [OF False cp(1)] cp by (simp add: bump_def)
  qed
qed

lemma bump_all_inv:
  assumes "finite (dom s)" "linked s" "wf (inside s)"
    and "\<And>e cp. e \<noteq> c \<Longrightarrow> cont_of s e = Some cp \<Longrightarrow>
           totalWeight cp = sum_list (map (weight_at E s) (itemlist cp))"
    and "cont_of s c = Some cc" "totalWeight cc + d = sum_list (map (weight_at E s) (itemlist cc))"
  shows "store_inv E (bump_all (around s c) d s)"
proof -
  have "linked (bump_all (around s c) d s)" using assms(2) by (simp add: linked_def)
  with assms show ?thesis by (simp add: store_inv_def weighed_bump [OF assms(2-6)])
qed

text \<open>The weight of an object depends on its item and its total weight only.\<close>

lemma weight_at_upd_cont [simp]:
  "(\<And>cp. totalWeight (f cp) = totalWeight cp) \<Longrightarrow> weight_at E (upd_cont c f s) a = weight_at E s a"
  by (auto simp: weight_at_def upd_cont_def upd_obj_apply split: option.split)

lemma weight_at_setParent [simp]: "weight_at E (setParent x p s) a = weight_at E s a"
  by (auto simp: weight_at_def setParent_def upd_obj_apply split: option.split)

lemma weight_at_change_item: "a \<noteq> x \<Longrightarrow> weight_at E (change_item x f s) a = weight_at E s a"
  by (auto simp: weight_at_def change_item_def upd_obj_apply split: option.split)

lemma weighedD:
  "weighed E s \<Longrightarrow> cont_of s c = Some cp \<Longrightarrow> totalWeight cp = sum_list (map (weight_at E s) (itemlist cp))"
  by (simp add: weighed_def)

section \<open>Adding\<close>

text \<open>An item may be put into a container when it is in none and does not hold it.\<close>

definition can_put :: "store \<Rightarrow> nat \<Rightarrow> nat \<Rightarrow> bool" where
  "can_put s c x = (cont_of s c \<noteq> None \<and> s x \<noteq> None \<and> getParentContainer s x = None \<and> x \<notin> around s c)"

definition inserts :: "nat \<Rightarrow> (nat list \<Rightarrow> nat list) \<Rightarrow> bool" where
  "inserts x f = (\<forall>xs. set (f xs) = insert x (set xs) \<and> (x \<notin> set xs \<longrightarrow> distinct (f xs) = distinct xs) \<and>
     (\<forall>g :: nat \<Rightarrow> u32. sum_list (map g (f xs)) = g x + sum_list (map g xs)))"

lemma inserts_front_back [simp]: "inserts x (\<lambda>xs. x # xs)" "inserts x (\<lambda>xs. xs @ [x])"
  by (auto simp: inserts_def algebra_simps)

lemma push_item_ok:
  assumes inv: "store_inv E s" and can: "can_put s c x" and f: "inserts x f"
  shows "\<exists>s'. push_item E f c x s = Some s' \<and> store_inv E s' \<and>
           items_of s' c = f (items_of s c) \<and> getParentContainer s' x = Some c"
proof -
  note D = store_invD [OF inv]
  let ?s1 = "upd_cont c (\<lambda>cp. cp\<lparr>itemlist := f (itemlist cp)\<rparr>) (setParent x (Some (InContainer c)) s)"
  let ?d = "weight_at E ?s1 x"
  obtain cc where cc: "cont_of s c = Some cc" using can by (auto simp: can_put_def)
  have x: "s x \<noteq> None" "getParentContainer s x = None" "x \<notin> around s c"
    using can by (simp_all add: can_put_def)
  have ins: "inside ?s1 = insert (c, x) (inside s)" by (simp add: inside_setParent_in x)
  have wf: "wf (inside ?s1)" using D(3) x(3) unfolding ins by (simp add: wf_insert around_def)
  have items: "items_of ?s1 e = (if e = c then f (items_of s c) else items_of s e)" for e
    by (simp add: items_of_def cont_of_upd_cont cc split: option.split)
  have out: "x \<notin> set (items_of s e)" for e
    using forest_linkedD(1) [OF D(2), of x e] x(2) by (simp add: inside_iff)
  have lk: "linked ?s1"
    using D(2) f out unfolding linked_def ins items by (auto simp: inserts_def)
  have w: "weight_at E ?s1 = weight_at E s" by (rule ext) simp
  have "store_inv E (bump_all (around ?s1 c) ?d ?s1)"
  proof (rule bump_all_inv [OF _ lk wf])
    show "finite (dom ?s1)" using D(1) by simp
    show "totalWeight cp = sum_list (map (weight_at E ?s1) (itemlist cp))"
      if "e \<noteq> c" "cont_of ?s1 e = Some cp" for e cp
      using that weighedD [OF D(4), of e cp] unfolding w by (simp add: cont_of_upd_cont)
    show "cont_of ?s1 c = Some (cc\<lparr>itemlist := f (itemlist cc)\<rparr>)"
      by (simp add: cont_of_upd_cont cc)
    show "totalWeight (cc\<lparr>itemlist := f (itemlist cc)\<rparr>) + ?d =
        sum_list (map (weight_at E ?s1) (itemlist (cc\<lparr>itemlist := f (itemlist cc)\<rparr>)))"
      using f weighedD [OF D(4) cc] unfolding w by (simp add: inserts_def algebra_simps)
  qed
  moreover have "push_item E f c x s = Some (bump_all (around ?s1 c) ?d ?s1)"
    by (simp add: push_item_def Let_def updateItemWeight_walk [OF wf])
  moreover have "items_of (bump_all (around ?s1 c) ?d ?s1) c = f (items_of s c)"
    using items [of c] by simp
  moreover have "getParentContainer (bump_all (around ?s1 c) ?d ?s1) x = Some c"
    using ins by (simp flip: inside_iff)
  ultimately show ?thesis by blast
qed

section \<open>Changing an item in place\<close>

lemma reweigh_ok:
  assumes inv: "store_inv E s" and x: "x \<in> set (items_of s c)"
  shows "\<exists>s'. reweigh E c x f s = Some s' \<and> store_inv E s' \<and> inside s' = inside s \<and>
           (\<forall>a. items_of s' a = items_of s a) \<and>
           (\<forall>ob. s x = Some ob \<longrightarrow> (\<exists>ob'. s' x = Some ob' \<and> o_item ob' = f (o_item ob)))"
proof -
  note D = store_invD [OF inv]
  let ?s1 = "change_item x f s"
  let ?d = "- weight_at E s x + weight_at E ?s1 x"
  have wf: "wf (inside ?s1)" using D(3) by simp
  obtain cc where cc: "cont_of s c = Some cc" "x \<in> set (itemlist cc)"
    using x items_of_cont [of s c] by fastforce
  have dist: "distinct (itemlist cc)" using forest_linkedD(2) [OF D(2), of c] cc by (simp add: items_of_def)
  have lk: "linked ?s1" using D(2) by (simp add: linked_def)
  have sums: "sum_list (map (weight_at E ?s1) xs) = sum_list (map (weight_at E s) xs)" if "x \<notin> set xs" for xs
    using that by (intro arg_cong [of _ _ sum_list] map_cong refl weight_at_change_item) auto
  have "store_inv E (bump_all (around ?s1 c) ?d ?s1)"
  proof (rule bump_all_inv [OF _ lk wf])
    show "finite (dom ?s1)" using D(1) by simp
    show "totalWeight cp = sum_list (map (weight_at E ?s1) (itemlist cp))"
      if "e \<noteq> c" "cont_of ?s1 e = Some cp" for e cp
    proof -
      have "x \<notin> set (items_of s e)"
        using that(1) x forest_linkedD(1) [OF D(2)] inside_fun by blast
      then show ?thesis
        using that weighedD [OF D(4), of e cp] sums [of "itemlist cp"] by (simp add: items_of_def)
    qed
    show "cont_of ?s1 c = Some cc" using cc by simp
    obtain ys zs where split: "itemlist cc = ys @ x # zs" using cc(2) by (meson split_list)
    then have "x \<notin> set ys" "x \<notin> set zs" using dist by simp_all
    then show "totalWeight cc + ?d = sum_list (map (weight_at E ?s1) (itemlist cc))"
      using weighedD [OF D(4) cc(1)] by (simp add: split sums)
  qed
  moreover have "reweigh E c x f s = Some (bump_all (around ?s1 c) ?d ?s1)"
    by (simp add: reweigh_def Let_def updateItemWeight_walk [OF wf])
  moreover have "inside (bump_all A d ?s1) = inside s" for A d by simp
  moreover have "items_of (bump_all A d ?s1) a = items_of s a" for A d a
    by simp
  moreover have "\<exists>ob'. bump_all A d ?s1 x = Some ob' \<and> o_item ob' = f (o_item ob)" if "s x = Some ob" for A d ob
    using that by (simp add: bump_all_def change_item_def upd_obj_apply)
  ultimately show ?thesis by blast
qed

section \<open>Taking out\<close>

lemma bump_all_setParent: "setParent x p (bump_all A d s) = bump_all A d (setParent x p s)"
  by (auto simp: setParent_def upd_obj_def bump_all_def fun_eq_iff map_option_case split: option.split)

lemma bump_all_upd_items:
  "upd_cont c (\<lambda>cp. cp\<lparr>itemlist := f (itemlist cp)\<rparr>) (bump_all A d s) =
     bump_all A d (upd_cont c (\<lambda>cp. cp\<lparr>itemlist := f (itemlist cp)\<rparr>) s)"
  by (auto simp: upd_cont_def upd_obj_def bump_all_def bump_def fun_eq_iff map_option_case
      split: option.split)

lemma around_subset:
  assumes "r \<subseteq> inside s" "inside s' = r" "\<And>p y. (p, y) \<in> inside s \<Longrightarrow> (p, y) \<notin> r \<Longrightarrow> y \<notin> around s c"
  shows "around s' c = around s c"
proof -
  have "(e, c) \<in> (inside s)\<^sup>* \<Longrightarrow> (e, c) \<in> r\<^sup>*" for e
  proof (induction rule: converse_rtrancl_induct)
    case (step y z)
    then have "z \<in> around s c" by (simp add: around_def)
    then have "(y, z) \<in> r" using assms(3) step(1) by blast
    with step show ?case by simp
  qed simp
  moreover have "r\<^sup>* \<subseteq> (inside s)\<^sup>*" by (rule rtrancl_mono [OF assms(1)])
  ultimately show ?thesis using assms(2) by (auto simp: around_def)
qed

lemma index_from_nth:
  "index_from k thing xs = Some i \<Longrightarrow> k \<le> i \<and> i < k + length xs \<and> xs ! (i - k) = thing"
  by (induction k thing xs rule: index_from.induct) (auto split: if_splits simp: nth_Cons')

lemma index_from_None: "index_from k thing xs = None \<longleftrightarrow> thing \<notin> set xs"
  by (induction k thing xs rule: index_from.induct) auto

lemma getThingIndex_nth:
  "getThingIndex s c x = Some i \<Longrightarrow> i < length (items_of s c) \<and> items_of s c ! i = x"
  using index_from_nth [of 0 x "items_of s c" i] by (simp add: getThingIndex_def)

lemma getThingIndex_None: "getThingIndex s c x = None \<longleftrightarrow> x \<notin> set (items_of s c)"
  by (simp add: getThingIndex_def index_from_None)

lemma child_not_around:
  assumes "wf (inside s)" "(c, x) \<in> inside s"
  shows "x \<notin> around s c"
proof
  assume "x \<in> around s c"
  then have "(c, c) \<in> (inside s)\<^sup>+" using assms(2) by (auto simp: around_def intro: rtrancl_into_trancl2)
  with assms(1) show False by (meson wf_not_refl wf_trancl)
qed

lemma wf_less: "wf (inside s) \<Longrightarrow> r \<subseteq> inside s \<Longrightarrow> wf r"
  by (rule wf_subset)

text \<open>Full removal: the walk first, then the parent pointer and the list.\<close>

lemma remove_ok:
  assumes inv: "store_inv E s" and idx: "i < length (items_of s c)" "items_of s c ! i = x"
  shows "\<exists>s'. map_option
             (\<lambda>s. upd_cont c (\<lambda>cp. cp\<lparr>itemlist := take i (itemlist cp) @ drop (i + 1) (itemlist cp)\<rparr>)
                     (setParent x None s))
             (updateItemWeight c (- weight_at E s x) s) = Some s' \<and> store_inv E s' \<and>
           set (items_of s' c) = set (items_of s c) - {x} \<and> getParent s' x = None"
proof -
  note D = store_invD [OF inv]
  let ?f = "\<lambda>xs. take i xs @ drop (i + 1) xs"
  let ?s1 = "upd_cont c (\<lambda>cp. cp\<lparr>itemlist := ?f (itemlist cp)\<rparr>) (setParent x None s)"
  let ?d = "- weight_at E s x"
  obtain cc where cc: "cont_of s c = Some cc" "itemlist cc = items_of s c"
    using idx items_of_cont [of s c] by fastforce
  have xin: "(c, x) \<in> inside s" using forest_linkedD(1) [OF D(2)] idx nth_mem by metis
  have sx: "s x \<noteq> None" using inside_dom [OF xin] .
  have ins: "inside ?s1 = {(p, y). (p, y) \<in> inside s \<and> y \<noteq> x}"
    by (simp add: inside_setParent_None sx)
  have wf: "wf (inside ?s1)" unfolding ins by (rule wf_subset [OF D(3)]) auto
  have ar: "around ?s1 c = around s c"
    using child_not_around [OF D(3) xin] by (intro around_subset [OF _ ins]) auto
  have split: "items_of s c = take i (items_of s c) @ x # drop (i + 1) (items_of s c)"
    using id_take_nth_drop [OF idx(1)] idx(2) by simp
  have dist: "distinct (take i (items_of s c) @ x # drop (i + 1) (items_of s c))"
    using forest_linkedD(2) [OF D(2), of c] split by simp
  have fset: "set (?f (items_of s c)) = set (items_of s c) - {x}" "distinct (?f (items_of s c))"
    using dist by (subst (2) split, auto)
  have items: "items_of ?s1 e = (if e = c then ?f (items_of s c) else items_of s e)" for e
    by (simp add: items_of_def cont_of_upd_cont cc(1) split: option.split)
  have lk: "linked ?s1"
    unfolding linked_def
  proof (intro conjI allI)
    fix e y
    show "y \<in> set (items_of ?s1 e) \<longleftrightarrow> (e, y) \<in> inside ?s1"
      using forest_linkedD(1) [OF D(2), of y e] inside_fun [OF xin, of e] fset(1)
      unfolding ins items by auto
    show "distinct (items_of ?s1 e)"
      using forest_linkedD(2) [OF D(2), of e] fset(2) unfolding items by presburger
  qed
  have w: "weight_at E ?s1 = weight_at E s" by (rule ext) simp
  have "store_inv E (bump_all (around ?s1 c) ?d ?s1)"
  proof (rule bump_all_inv [OF _ lk wf])
    show "finite (dom ?s1)" using D(1) by simp
    show "totalWeight cp = sum_list (map (weight_at E ?s1) (itemlist cp))"
      if "e \<noteq> c" "cont_of ?s1 e = Some cp" for e cp
      using that weighedD [OF D(4), of e cp] unfolding w by (simp add: cont_of_upd_cont)
    show "cont_of ?s1 c = Some (cc\<lparr>itemlist := ?f (itemlist cc)\<rparr>)" by (simp add: cont_of_upd_cont cc)
    have "totalWeight cc = sum_list (map (weight_at E s) (take i (items_of s c) @ x # drop (i + 1) (items_of s c)))"
      using weighedD [OF D(4) cc(1)] split cc(2) by simp
    then show "totalWeight (cc\<lparr>itemlist := ?f (itemlist cc)\<rparr>) + ?d =
        sum_list (map (weight_at E ?s1) (itemlist (cc\<lparr>itemlist := ?f (itemlist cc)\<rparr>)))"
      unfolding w by (simp add: cc(2))
  qed
  moreover have "map_option
      (\<lambda>s. upd_cont c (\<lambda>cp. cp\<lparr>itemlist := ?f (itemlist cp)\<rparr>) (setParent x None s))
      (updateItemWeight c ?d s) = Some (bump_all (around ?s1 c) ?d ?s1)"
    by (simp only: updateItemWeight_walk [OF D(3)] option.map bump_all_setParent
        bump_all_upd_items [of c ?f] ar)
  moreover have "set (items_of (bump_all (around ?s1 c) ?d ?s1) c) = set (items_of s c) - {x}"
    using items [of c] fset(1) by simp
  moreover have "getParent (bump_all (around ?s1 c) ?d ?s1) x = None"
    by (simp add: getParent_setParent sx)
  ultimately show ?thesis by blast
qed

lemma set_update_distinct:
  "distinct xs \<Longrightarrow> i < length xs \<Longrightarrow> set (xs[i := x]) = insert x (set xs - {xs ! i})"
proof -
  assume d: "distinct xs" "i < length xs"
  define ys zs where "ys = take i xs" and "zs = drop (Suc i) xs"
  have split: "xs = ys @ xs ! i # zs" using d id_take_nth_drop [of i xs] by (simp add: ys_def zs_def)
  have "length ys = i" using d by (simp add: ys_def)
  then have "xs[i := x] = (ys @ xs ! i # zs)[length ys := x]" by (simp flip: split)
  then have "xs[i := x] = ys @ x # zs" by simp
  moreover have "xs ! i \<notin> set ys \<union> set zs" using d(1) split by (metis Un_iff distinct.simps(2) distinct_append disjoint_iff list.set_intros(1))
  ultimately show ?thesis using split by (metis (no_types, lifting) Diff_insert_absorb Un_insert_right list.set(2) set_append)
qed

lemma sum_list_update:
  "i < length xs \<Longrightarrow>
     sum_list (map g (xs[i := x])) = sum_list (map g xs) - g (xs ! i) + (g x :: u32)"
  by (subst (2) id_take_nth_drop, assumption, simp add: upd_conv_take_nth_drop algebra_simps)

lemma replace_ok:
  assumes inv: "store_inv E s" and can: "can_put s c x"
    and idx: "i < length (items_of s c)" "items_of s c ! i = r"
  shows "\<exists>s'. map_option (setParent r None)
             (updateItemWeight c (- weight_at E (setParent x (Some (InContainer c))
                  (upd_cont c (\<lambda>cp. cp\<lparr>itemlist := (itemlist cp)[i := x]\<rparr>) s)) r +
                weight_at E (setParent x (Some (InContainer c))
                  (upd_cont c (\<lambda>cp. cp\<lparr>itemlist := (itemlist cp)[i := x]\<rparr>) s)) x)
               (setParent x (Some (InContainer c))
                  (upd_cont c (\<lambda>cp. cp\<lparr>itemlist := (itemlist cp)[i := x]\<rparr>) s))) = Some s' \<and>
           store_inv E s' \<and> items_of s' c = (items_of s c)[i := x] \<and> getParent s' r = None"
proof -
  note D = store_invD [OF inv]
  let ?f = "\<lambda>xs. xs[i := x]"
  let ?s0 = "setParent x (Some (InContainer c)) (upd_cont c (\<lambda>cp. cp\<lparr>itemlist := ?f (itemlist cp)\<rparr>) s)"
  let ?s1 = "setParent r None ?s0"
  have w0: "weight_at E ?s0 = weight_at E s" by (rule ext) simp
  have w: "weight_at E ?s1 = weight_at E s" by (rule ext) simp
  let ?d = "- weight_at E s r + weight_at E s x"
  obtain cc where cc: "cont_of s c = Some cc" "itemlist cc = items_of s c"
    using idx items_of_cont [of s c] by fastforce
  have x: "s x \<noteq> None" "getParentContainer s x = None" "x \<notin> around s c"
    using can by (simp_all add: can_put_def)
  have rin: "(c, r) \<in> inside s" using forest_linkedD(1) [OF D(2)] idx nth_mem by metis
  have rx: "r \<noteq> x" using rin x(2) by (auto simp: inside_iff)
  have "r \<in> dom s" using inside_dom [OF rin] by (simp add: domIff)
  then have "r \<in> dom ?s0" by (simp only: dom_updates)
  then have sr: "?s0 r \<noteq> None" by (simp only: domIff not_False_eq_True)
  have "upd_cont c (\<lambda>cp. cp\<lparr>itemlist := ?f (itemlist cp)\<rparr>) s x \<noteq> None"
    using x(1) by (auto simp: upd_cont_def upd_obj_apply)
  then have ins0: "inside ?s0 = insert (c, x) (inside s)"
    by (subst inside_setParent_in) (simp_all add: x(2))
  have wf0: "wf (inside ?s0)" using D(3) x(3) unfolding ins0 by (simp add: wf_insert around_def)
  have ins: "inside ?s1 = {(p, y). (p, y) \<in> insert (c, x) (inside s) \<and> y \<noteq> r}"
    unfolding inside_setParent_None [where s = ?s0 and x = r, OF sr] ins0 ..
  have wf: "wf (inside ?s1)"
    unfolding ins by (rule wf_subset [OF wf0 [unfolded ins0]]) auto
  have ar: "around ?s1 c = around ?s0 c"
    using child_not_around [OF wf0, of c r] rin ins0 by (intro around_subset [OF _ ins]) auto
  have items: "items_of ?s1 e = (if e = c then ?f (items_of s c) else items_of s e)" for e
    by (simp add: items_of_def cont_of_upd_cont cc(1) split: option.split)
  have out: "x \<notin> set (items_of s e)" for e
    using forest_linkedD(1) [OF D(2), of x e] x(2) by (simp add: inside_iff)
  have fset: "set (?f (items_of s c)) = insert x (set (items_of s c) - {r})" "distinct (?f (items_of s c))"
  proof -
    show "set (?f (items_of s c)) = insert x (set (items_of s c) - {r})"
      using set_update_distinct [OF forest_linkedD(2) [OF D(2)] idx(1), of x] unfolding idx(2) .
    show "distinct (?f (items_of s c))"
      using out by (intro distinct_list_update forest_linkedD(2) [OF D(2)]) blast
  qed
  have lk: "linked ?s1"
    unfolding linked_def
  proof (intro conjI allI)
    fix e y
    show "y \<in> set (items_of ?s1 e) \<longleftrightarrow> (e, y) \<in> inside ?s1"
      using forest_linkedD(1) [OF D(2), of y e] inside_fun [OF rin, of e] fset(1) rx
      unfolding ins items by auto
    show "distinct (items_of ?s1 e)"
      using forest_linkedD(2) [OF D(2), of e] fset(2) unfolding items by presburger
  qed
  have "store_inv E (bump_all (around ?s1 c) ?d ?s1)"
  proof (rule bump_all_inv [OF _ lk wf])
    show "finite (dom ?s1)" using D(1) by simp
    show "totalWeight cp = sum_list (map (weight_at E ?s1) (itemlist cp))"
      if "e \<noteq> c" "cont_of ?s1 e = Some cp" for e cp
      using that weighedD [OF D(4), of e cp] unfolding w by (simp add: cont_of_upd_cont)
    show "cont_of ?s1 c = Some (cc\<lparr>itemlist := ?f (itemlist cc)\<rparr>)" by (simp add: cont_of_upd_cont cc)
    show "totalWeight (cc\<lparr>itemlist := ?f (itemlist cc)\<rparr>) + ?d =
        sum_list (map (weight_at E ?s1) (itemlist (cc\<lparr>itemlist := ?f (itemlist cc)\<rparr>)))"
      using weighedD [OF D(4) cc(1)] idx unfolding w by (simp add: cc(2) sum_list_update)
  qed
  moreover have "map_option (setParent r None)
      (updateItemWeight c (- weight_at E ?s0 r + weight_at E ?s0 x) ?s0) =
      Some (bump_all (around ?s1 c) ?d ?s1)"
    by (simp only: w0 updateItemWeight_walk [OF wf0] option.map bump_all_setParent ar)
  moreover have "items_of (bump_all (around ?s1 c) ?d ?s1) c = ?f (items_of s c)"
    using items [of c] by simp
  moreover have "getParent (bump_all (around ?s1 c) ?d ?s1) r = None"
    by (simp only: bump_all_parent getParent_setParent [where s = ?s0 and x = r, OF sr] simp_thms if_True)
  ultimately show ?thesis by blast
qed

section \<open>Every change keeps the invariant\<close>

datatype container_op =
    OpAdd int nat nat
  | OpAddBack nat nat
  | OpInternalAdd nat nat
  | OpUpdate nat nat u16 u32
  | OpReplace nat nat nat
  | OpRemove nat nat u32

fun run_op :: "outer_env \<Rightarrow> container_op \<Rightarrow> store \<Rightarrow> (store \<times> cevent list) option" where
  "run_op E (OpAdd index c x) s = addThing E index c x s"
| "run_op E (OpAddBack c x) s = addItemBack E c x s"
| "run_op E (OpInternalAdd c x) s = internalAddThing E c x s"
| "run_op E (OpUpdate c x itemId count) s = updateThing E c x itemId count s"
| "run_op E (OpReplace c index x) s = replaceThing E c index x s"
| "run_op E (OpRemove c x count) s = removeThing E c x count s"

text \<open>What the callers have to see to: an item that is put somewhere is free to be put there.\<close>

fun op_ok :: "store \<Rightarrow> container_op \<Rightarrow> bool" where
  "op_ok s (OpAdd index c x) = can_put s c x"
| "op_ok s (OpAddBack c x) = can_put s c x"
| "op_ok s (OpInternalAdd c x) = can_put s c x"
| "op_ok s (OpReplace c index x) = can_put s c x"
| "op_ok s _ = True"

lemma op_keeps_inv:
  assumes inv: "store_inv E s" and ok: "op_ok s p"
  shows "\<exists>s' ev. run_op E p s = Some (s', ev) \<and> store_inv E s'"
proof (cases p)
  case (OpAdd index c x)
  then show ?thesis
    using push_item_ok [OF inv _ inserts_front_back(1), of c x] ok inv
    by (auto simp: addThing_def split: option.split)
next
  case (OpAddBack c x)
  then show ?thesis
    using push_item_ok [OF inv _ inserts_front_back(2), of c x] ok by (auto simp: addItemBack_def)
next
  case (OpInternalAdd c x)
  then show ?thesis
    using push_item_ok [OF inv _ inserts_front_back(1), of c x] ok by (auto simp: internalAddThing_def)
next
  case (OpUpdate c x itemId count)
  show ?thesis
  proof (cases "getThingIndex s c x")
    case None
    then show ?thesis using OpUpdate inv by (simp add: updateThing_def)
  next
    case (Some i)
    then have "x \<in> set (items_of s c)" using getThingIndex_None [of s c x] by simp
    from reweigh_ok [OF inv this, of "\<lambda>it. setSubType (item_tab E) (ucast count) (setID (item_tab E) itemId it)"]
    show ?thesis using OpUpdate Some by (auto simp: updateThing_def)
  qed
next
  case (OpReplace c index x)
  show ?thesis
  proof (cases "getItemByIndex s c index")
    case None
    then show ?thesis using OpReplace inv by (simp add: replaceThing_def)
  next
    case (Some r)
    then have i: "index < length (items_of s c)" "items_of s c ! index = r"
      by (simp_all add: getItemByIndex_def split: if_splits)
    have can: "can_put s c x" using ok OpReplace by simp
    from replace_ok [OF inv can i] show ?thesis
      using OpReplace Some by (auto simp: replaceThing_def Let_def)
  qed
next
  case (OpRemove c x count)
  show ?thesis
  proof (cases "getThingIndex s c x")
    case None
    then show ?thesis using OpRemove inv by (simp add: removeThing_def)
  next
    case (Some i)
    then have x: "x \<in> set (items_of s c)" using getThingIndex_None [of s c x] by simp
    then obtain ob where ob: "s x = Some ob"
      using forest_linkedD(1) [OF store_invD(2) [OF inv]] inside_dom by blast
    note i = getThingIndex_nth [OF Some]
    obtain s1 where s1: "map_option
             (\<lambda>s. upd_cont c (\<lambda>cp. cp\<lparr>itemlist := take i (itemlist cp) @ drop (i + 1) (itemlist cp)\<rparr>)
                     (setParent x None s))
             (updateItemWeight c (- weight_at E s x) s) = Some s1" "store_inv E s1"
      using remove_ok [OF inv conjunct1 [OF i] conjunct2 [OF i]] by blast
    show ?thesis
    proof (cases "it_stackable (item_tab E (item_id (o_item ob))) \<and> count \<noteq> ucast (item_count (o_item ob))")
      case True
      let ?n = "if sint (ucast (item_count (o_item ob)) - count) < 0 then 0
                else ucast (ucast (item_count (o_item ob)) - count :: u32) :: u8"
      obtain s2 where "reweigh E c x (setItemCount ?n) s = Some s2" "store_inv E s2"
        using reweigh_ok [OF inv x, of "setItemCount ?n"] by blast
      then show ?thesis
        by (simp only: OpRemove run_op.simps removeThing_def Some ob option.case prod.case True
            simp_thms if_True Let_def) simp
    next
      case False
      obtain s3 where u: "updateItemWeight c (- weight_at E s x) s = Some s3" using s1(1) by blast
      show ?thesis
        using s1
        by (simp only: OpRemove run_op.simps removeThing_def Some ob option.case prod.case False
            if_False u option.map) simp
    qed
  qed
qed

end
