(* ===== verification/ContainerTheorems.thy ===== *)
theory ContainerTheorems imports ContainerProps begin

text \<open>
  The properties of the containers: the weights, the iterator, the queries.
\<close>

section \<open>An example\<close>

text \<open>
  A bag on the ground with 50 coins and a smaller bag that holds a key; a second key
  lies beside the bag.
\<close>

definition shop_table :: item_table where
  "shop_table tid =
     \<lparr>it_group = (if tid = 1987 then ITEM_GROUP_CONTAINER else ITEM_GROUP_NONE), it_type = ITEM_TYPE_NONE,
      it_id = tid, it_stackable = (tid = 2148), it_weight = (if tid = 1987 then 800 else 10),
      it_decayTime = 0, it_charges = 0, it_decayTo = -1, it_maxItems = 8,
      it_pickupable = True, it_moveable = True, it_stopTime = False\<rparr>"

definition shop_env :: outer_env where
  "shop_env = \<lparr>item_tab = shop_table, outer_parent = (\<lambda>_. None), is_inbox = (\<lambda>_. False),
     is_container = (\<lambda>_. False), is_virtual = (\<lambda>_. False), outer_queryAdd = (\<lambda>_ _ _ _. RETURNVALUE_NOERROR)\<rparr>"

definition plain :: "u16 \<Rightarrow> u8 \<Rightarrow> cylinder option \<Rightarrow> container option \<Rightarrow> obj" where
  "plain tid n p cp =
     \<lparr>o_item = \<lparr>item_id = tid, item_count = n, item_attrs = None\<rparr>, o_parent = p, o_cont = cp\<rparr>"

definition bag :: "nat list \<Rightarrow> u32 \<Rightarrow> container" where
  "bag xs w = \<lparr>itemlist = xs, maxSize = 8, totalWeight = w, unlocked = True\<rparr>"

definition shop :: store where
  "shop =
     [1 \<mapsto> plain 1987 1 (Some (Outer 0)) (Some (bag [2, 3] 1310)),
      2 \<mapsto> plain 2148 50 (Some (InContainer 1)) None,
      3 \<mapsto> plain 1987 1 (Some (InContainer 1)) (Some (bag [4] 10)),
      4 \<mapsto> plain 2088 1 (Some (InContainer 3)) None,
      5 \<mapsto> plain 2088 1 (Some (Outer 0)) None]"

lemma shop_values:
  "cont_of shop c = (if c = 1 then Some (bag [2, 3] 1310) else if c = 3 then Some (bag [4] 10) else None)"
  "items_of shop c = (if c = 1 then [2, 3] else if c = 3 then [4] else [])"
  "getParentContainer shop c = (if c = 2 \<or> c = 3 then Some 1 else if c = 4 then Some 3 else None)"
  by (simp_all add: cont_of_def items_of_def shop_def plain_def bag_def getParentContainer_def getParent_def)

lemma shop_weights: "map (weight_at shop_env shop) [1, 2, 3, 4] = [2110, 500, 810, 10]"
  by code_simp

lemma shop_inside: "inside shop = {(1, 2), (1, 3), (3, 4)}"
  by (auto simp: inside_def shop_values split: if_splits)

lemma shop_inv: "store_inv shop_env shop"
  unfolding store_inv_def
proof (intro conjI)
  show "finite (dom shop)" by (simp add: shop_def)
  show "linked shop" by (auto simp: linked_def shop_values shop_inside)
  show "wf (inside shop)"
    unfolding shop_inside by (rule wf_subset [OF wf_measure [of id]]) auto
  have "weight_at shop_env shop 2 = 500" "weight_at shop_env shop 3 = 810" "weight_at shop_env shop 4 = 10"
    using shop_weights by simp_all
  then show "weighed shop_env shop" by (auto simp: weighed_def shop_values bag_def)
qed

section \<open>The iterator\<close>

definition reach :: "store \<Rightarrow> nat set \<Rightarrow> nat set" where
  "reach s P = {y. \<exists>p \<in> P. (p, y) \<in> (inside s)\<^sup>*}"

definition kids :: "store \<Rightarrow> nat \<Rightarrow> nat set" where
  "kids s i = set (items_of s i)"

definition pending :: "store \<Rightarrow> container_iterator \<Rightarrow> nat set" where
  "pending s it = (if over it = [] then {} else set (cur it) \<union> (\<Union>q \<in> set (tl (over it)). kids s q))"

lemma reach_self: "i \<in> P \<Longrightarrow> i \<in> reach s P"
  by (auto simp: reach_def)

lemma reach_step: "reach s (insert i R) = insert i (reach s (R \<union> {y. (i, y) \<in> inside s}))"
proof -
  have "(i, y) \<in> (inside s)\<^sup>* \<longleftrightarrow> y = i \<or> (\<exists>z. (i, z) \<in> inside s \<and> (z, y) \<in> (inside s)\<^sup>*)" for y
    by (auto elim: converse_rtranclE intro: converse_rtrancl_into_rtrancl)
  then show ?thesis by (auto simp: reach_def)
qed

text \<open>
  An item that is next cannot come again: its container is already done, and nothing
  contains itself.
\<close>

lemma reach_fresh:
  assumes wf: "wf (inside s)" and q: "(q, i) \<in> inside s" "q \<notin> reach s (insert i R)" and i: "i \<notin> R"
  shows "i \<notin> reach s (R \<union> {y. (i, y) \<in> inside s})"
proof
  assume "i \<in> reach s (R \<union> {y. (i, y) \<in> inside s})"
  then obtain p where p: "p \<in> R \<or> (i, p) \<in> inside s" "(p, i) \<in> (inside s)\<^sup>*" by (auto simp: reach_def)
  from p(1) show False
  proof
    assume "p \<in> R"
    then have "p \<noteq> i" using i by blast
    from p(2) show False
    proof (cases rule: rtranclE)
      case base
      with \<open>p \<noteq> i\<close> show False by simp
    next
      case (step w)
      then have "w = q" using q(1) inside_fun by blast
      then have "q \<in> reach s (insert i R)" using step(1) \<open>p \<in> R\<close> by (auto simp: reach_def)
      with q(2) show False by simp
    qed
  next
    assume "(i, p) \<in> inside s"
    then have "(i, i) \<in> (inside s)\<^sup>+" using p(2) by (rule rtrancl_into_trancl2)
    with wf show False by (meson wf_not_refl wf_trancl)
  qed
qed

definition walk_inv :: "store \<Rightarrow> nat \<Rightarrow> container_iterator \<Rightarrow> nat list \<Rightarrow> bool" where
  "walk_inv s c it seen =
     ((over it \<noteq> [] \<longrightarrow> cur it \<noteq> [] \<and> set (cur it) \<subseteq> kids s (hd (over it))) \<and>
      distinct (cur it) \<and> distinct (over it) \<and> (\<forall>q \<in> set (over it). items_of s q \<noteq> []) \<and>
      set (over it) \<subseteq> insert c (set seen) \<and>
      reach s (pending s it) \<inter> insert c (set seen) = {})"

lemma kids_inside: "linked s \<Longrightarrow> kids s i = {y. (i, y) \<in> inside s}"
  using forest_linkedD(1) [of s] by (auto simp: kids_def)

lemma advance_step:
  assumes lk: "linked s" and wf: "wf (inside s)" and inv: "walk_inv s c it seen" and nx: "hasNext it"
  defines "i \<equiv> hd (cur it)"
  shows "walk_inv s c (advance s it) (seen @ [i])"
    and "reach s (pending s it) = insert i (reach s (pending s (advance s it)))"
    and "i \<notin> reach s (pending s (advance s it))" "i \<notin> set seen"
proof -
  obtain q qs where over: "over it = q # qs" using nx by (cases "over it") (auto simp: hasNext_def)
  obtain ys where cur: "cur it = i # ys"
    using inv over by (cases "cur it") (auto simp: walk_inv_def i_def)
  let ?R = "set ys \<union> (\<Union>p \<in> set qs. kids s p)"
  have I: "set (i # ys) \<subseteq> kids s q" "distinct (i # ys)" "distinct (q # qs)"
    "\<forall>p \<in> set (q # qs). items_of s p \<noteq> []" "set (q # qs) \<subseteq> insert c (set seen)"
    "reach s (pending s it) \<inter> insert c (set seen) = {}"
    using inv over cur by (auto simp: walk_inv_def)
  have pend: "pending s it = insert i ?R" using over cur by (simp add: pending_def)
  have qi: "(q, i) \<in> inside s" using I(1) by (simp add: kids_inside [OF lk])
  have iR: "i \<notin> ?R"
  proof
    assume "i \<in> ?R"
    then obtain p where "p \<in> set qs" "(p, i) \<in> inside s"
      using I(2) by (auto simp: kids_inside [OF lk])
    then have "p = q" using qi inside_fun by blast
    with \<open>p \<in> set qs\<close> I(3) show False by simp
  qed
  have "q \<in> insert c (set seen)" using I(5) by simp
  then have "q \<notin> reach s (pending s it)" using I(6) by blast
  then have "q \<notin> reach s (insert i ?R)" by (simp only: pend not_False_eq_True)
  note fresh = reach_fresh [OF wf qi this iR, folded kids_inside [OF lk]]
  note rstep = reach_step [of s i ?R, folded kids_inside [OF lk]]
  have "i \<in> reach s (insert i ?R)"
    by (rule reach_self) (rule insertI1)
  then have "i \<in> reach s (pending s it)" by (simp only: pend)
  then have inew: "i \<notin> insert c (set seen)" using I(6) by blast
  let ?it = "advance s it"
  let ?qs = "if items_of s i \<noteq> [] then qs @ [i] else qs"
  have adv: "?it = (if ys = [] then
        (if ?qs \<noteq> [] then \<lparr>over = ?qs, cur = items_of s (hd ?qs)\<rparr> else \<lparr>over = [], cur = []\<rparr>)
      else \<lparr>over = q # ?qs, cur = ys\<rparr>)"
    using over cur by (cases it) (simp add: advance_def Let_def)
  have qskids: "(\<Union>p \<in> set ?qs. kids s p) = (\<Union>p \<in> set qs. kids s p) \<union> kids s i"
    by (auto simp: kids_def)
  have pend': "pending s ?it = ?R \<union> kids s i"
  proof (cases "ys = []")
    case True
    show ?thesis
    proof (cases "?qs = []")
      case True
      then show ?thesis using adv \<open>ys = []\<close> qskids by (simp add: pending_def)
    next
      case False
      then obtain p ps where ps: "?qs = p # ps" by (cases ?qs) auto
      then have "?it = \<lparr>over = p # ps, cur = items_of s p\<rparr>" using adv True by simp
      then have "pending s ?it = (\<Union>p \<in> set ?qs. kids s p)" by (simp add: pending_def ps kids_def)
      then show ?thesis using qskids True by (simp only: list.set) blast
    qed
  next
    case False
    then have "pending s ?it = set ys \<union> (\<Union>p \<in> set ?qs. kids s p)" using adv by (simp add: pending_def)
    then show ?thesis using qskids by blast
  qed
  show 2: "reach s (pending s it) = insert i (reach s (pending s ?it))"
    using rstep pend pend' by simp
  show 3: "i \<notin> reach s (pending s ?it)" using fresh pend' by simp
  show "i \<notin> set seen" using inew by simp
  have qs_ok: "distinct ?qs" "\<forall>p \<in> set ?qs. items_of s p \<noteq> []" "set ?qs \<subseteq> insert c (set (seen @ [i]))"
    "q \<notin> set ?qs" "q \<in> insert c (set (seen @ [i]))"
    using I inew by auto
  have disj: "reach s (pending s ?it) \<inter> insert c (set (seen @ [i])) = {}"
    using I(6) 2 3 by auto
  show "walk_inv s c ?it (seen @ [i])"
  proof (cases "ys = []")
    case True
    show ?thesis
    proof (cases "?qs = []")
      case True
      then show ?thesis using adv \<open>ys = []\<close> disj by (simp add: walk_inv_def)
    next
      case False
      then obtain p ps where ps: "?qs = p # ps" by (cases ?qs) auto
      then have it: "?it = \<lparr>over = p # ps, cur = items_of s p\<rparr>" using adv True by simp
      show ?thesis
        using qs_ok disj forest_linkedD(2) [OF lk, of p] unfolding ps walk_inv_def it by (simp add: kids_def)
    qed
  next
    case False
    then have it: "?it = \<lparr>over = q # ?qs, cur = ys\<rparr>" using adv by simp
    show ?thesis
      unfolding walk_inv_def it using disj [unfolded it] qs_ok I(1,2,4) False
      by (simp only: container_iterator.simps list.sel list.set distinct.simps ball_simps insert_subset
          simp_thms)
  qed
qed

text \<open>A loop over the iterator sees what is pending, each item once, and ends.\<close>

lemma walk_exact:
  assumes lk: "linked s" and wf: "wf (inside s)" and fin: "finite (reach s (pending s it))"
    and inv: "walk_inv s c it seen"
  shows "\<exists>vs. distinct vs \<and> set vs = reach s (pending s it) \<and>
           visit_all s it seen = Some (seen @ vs) \<and>
           (\<forall>k. count_all s it k = Some (k + of_nat (length vs))) \<and>
           (\<forall>x. find_item s x it = Some (x \<in> set vs))"
  using fin inv
proof (induction "card (reach s (pending s it))" arbitrary: it seen rule: less_induct)
  case less
  show ?case
  proof (cases "hasNext it")
    case False
    then have "reach s (pending s it) = {}" by (simp add: hasNext_def pending_def reach_def)
    with False show ?thesis
      by (intro exI [of _ "[]"])
        (simp add: visit_all.simps [of s it] count_all.simps [of s it] find_item.simps [of s _ it])
  next
    case True
    let ?i = "hd (cur it)"
    note st = advance_step [OF lk wf less.prems(2) True]
    have fin': "finite (reach s (pending s (advance s it)))" using less.prems(1) st(2) by simp
    then have "card (reach s (pending s (advance s it))) < card (reach s (pending s it))"
      unfolding st(2) using st(3) by simp
    from less.hyps [OF this fin' st(1)] obtain vs where vs: "distinct vs"
      "set vs = reach s (pending s (advance s it))"
      "visit_all s (advance s it) (seen @ [?i]) = Some ((seen @ [?i]) @ vs)"
      "\<forall>k. count_all s (advance s it) k = Some (k + of_nat (length vs))"
      "\<forall>x. find_item s x (advance s it) = Some (x \<in> set vs)"
      by blast
    show ?thesis
    proof (intro exI [of _ "?i # vs"] conjI allI)
      show "distinct (?i # vs)" using vs st(3) by simp
      show "set (?i # vs) = reach s (pending s it)" using vs(2) st(2) by simp
      show "visit_all s it seen = Some (seen @ ?i # vs)"
        using vs(3) True by (simp add: visit_all.simps [of s it])
      show "count_all s it k = Some (k + of_nat (length (?i # vs)))" for k
        using vs(4) True by (simp add: count_all.simps [of s it] algebra_simps)
      show "find_item s x it = Some (x \<in> set (?i # vs))" for x
        using vs(5) True by (auto simp: find_item.simps [of s x it])
    qed
  qed
qed

lemma reach_below: "reach s {y. (c, y) \<in> inside s} = {x. (c, x) \<in> (inside s)\<^sup>+}"
  by (auto simp: reach_def trancl_unfold_left)

lemma inside_finite: "finite (dom s) \<Longrightarrow> finite {x. (c, x) \<in> (inside s)\<^sup>+}"
proof (rule finite_subset)
  show "{x. (c, x) \<in> (inside s)\<^sup>+} \<subseteq> dom s"
  proof
    fix x
    assume "x \<in> {x. (c, x) \<in> (inside s)\<^sup>+}"
    then obtain p where "(p, x) \<in> inside s" by (auto elim: tranclE)
    then show "x \<in> dom s" using inside_dom by (simp add: domIff)
  qed
qed

lemma iterator_exact:
  assumes "store_inv E s"
  shows "\<exists>vs. visit_all s (iterator s c) [] = Some vs \<and> distinct vs \<and>
           set vs = {x. (c, x) \<in> (inside s)\<^sup>+} \<and>
           getItemHoldingCount s c = Some (of_nat (card {x. (c, x) \<in> (inside s)\<^sup>+})) \<and>
           (\<forall>x. isHoldingItem s c x = Some ((c, x) \<in> (inside s)\<^sup>+))"
proof -
  note D = store_invD [OF assms]
  have below: "reach s (pending s (iterator s c)) = {x. (c, x) \<in> (inside s)\<^sup>+}"
  proof (cases "items_of s c = []")
    case True
    then have none: "{y. (c, y) \<in> inside s} = {}" using forest_linkedD(1) [OF D(2), of _ c] by auto
    have "pending s (iterator s c) = {}" using True by (simp add: pending_def iterator_def)
    then show ?thesis unfolding reach_below [symmetric] none by simp
  next
    case False
    then have "pending s (iterator s c) = kids s c" by (simp add: pending_def iterator_def kids_def)
    then show ?thesis by (simp add: kids_inside [OF D(2)] reach_below)
  qed
  have "c \<notin> {x. (c, x) \<in> (inside s)\<^sup>+}" using D(3) by (simp add: wf_trancl wf_not_refl)
  then have "walk_inv s c (iterator s c) []"
    using below forest_linkedD(2) [OF D(2), of c] by (auto simp: walk_inv_def iterator_def kids_def)
  moreover have "finite (reach s (pending s (iterator s c)))" unfolding below by (rule inside_finite [OF D(1)])
  ultimately obtain vs where vs: "distinct vs" "set vs = {x. (c, x) \<in> (inside s)\<^sup>+}"
    "visit_all s (iterator s c) [] = Some ([] @ vs)"
    "\<forall>k. count_all s (iterator s c) k = Some (k + of_nat (length vs))"
    "\<forall>x. find_item s x (iterator s c) = Some (x \<in> set vs)"
    using walk_exact [OF D(2,3)] below by metis
  moreover have "length vs = card {x. (c, x) \<in> (inside s)\<^sup>+}" using vs(1,2) distinct_card by metis
  ultimately show ?thesis
    by (intro exI [of _ vs]) (simp add: getItemHoldingCount_def isHoldingItem_def)
qed

text \<open>
  C23. A loop over the iterator of a container ends after having seen everything in it,
  at any depth, exactly once; \<open>getItemHoldingCount\<close> is the number of these items and
  \<open>isHoldingItem\<close> tells whether an item is one of them.
\<close>

theorem iterator_sees_everything_once:
  assumes "store_inv E s"
  shows "\<exists>vs. visit_all s (iterator s c) [] = Some vs \<and> distinct vs \<and>
           set vs = {x. (c, x) \<in> (inside s)\<^sup>+} \<and>
           getItemHoldingCount s c = Some (of_nat (card {x. (c, x) \<in> (inside s)\<^sup>+})) \<and>
           (\<forall>x. isHoldingItem s c x = Some ((c, x) \<in> (inside s)\<^sup>+))"
  using iterator_exact [OF assms] .

theorem iterator_sees_everything_once_witness:
  "\<exists>vs. visit_all shop (iterator shop 1) [] = Some vs \<and> distinct vs \<and> set vs = {2, 3, 4} \<and>
     isHoldingItem shop 1 4 = Some True \<and> isHoldingItem shop 1 5 = Some False"
proof -
  have "(a, b) \<in> (inside shop)\<^sup>+ \<Longrightarrow> (a, b) \<in> {(1, 2), (1, 3), (3, 4), (1, 4)}" for a b
    by (induction rule: trancl_induct) (auto simp: shop_inside)
  moreover have "(1, 2) \<in> inside shop" "(1, 3) \<in> inside shop" "(3, 4) \<in> inside shop"
    by (simp_all add: shop_inside)
  moreover from this have "(1, 4) \<in> (inside shop)\<^sup>+" by (meson trancl.intros)
  ultimately have below: "(1, b) \<in> (inside shop)\<^sup>+ \<longleftrightarrow> b \<in> {2, 3, 4}" for b
    by (auto dest: r_into_trancl)
  show ?thesis
    using iterator_sees_everything_once [OF shop_inv, of 1] unfolding below by auto
qed

section \<open>The queries\<close>

definition outer_ends :: "outer_env \<Rightarrow> bool" where
  "outer_ends E = wf {(p, n). outer_parent E n = Some p}"

text \<open>Every walk over parents ends, as it goes up the forest and then the outer cylinders.\<close>

lemma cylinder_induct:
  assumes "outer_ends E" "wf (inside s)"
    and step: "\<And>y. (\<And>p. cyl_parent E s y = Some p \<Longrightarrow> P p) \<Longrightarrow> P y"
  shows "P y"
proof -
  have outer: "P (Outer n)" for n
    using assms(1) [unfolded outer_ends_def]
  proof (induction n rule: wf_induct_rule)
    case (less n)
    show ?case by (rule step) (auto simp: cyl_parent_def intro: less)
  qed
  have inner: "P (InContainer a)" for a
    using assms(2)
  proof (induction a rule: wf_induct_rule)
    case (less a)
    show ?case
    proof (rule step)
      fix p
      assume p: "cyl_parent E s (InContainer a) = Some p"
      show "P p"
      proof (cases p)
        case (InContainer b)
        then have "(b, a) \<in> inside s" using p by (simp add: inside_iff getParentContainer_def cyl_parent_def)
        then show ?thesis using less InContainer by simp
      qed (simp add: outer)
    qed
  qed
  show ?thesis by (cases y) (auto intro: outer inner)
qed

lemma check_parents_ends:
  assumes "outer_ends E" "wf (inside s)"
  shows "\<exists>r. check_parents E s thing limit y = Some r \<and> r \<noteq> Some RETURNVALUE_NOERROR"
proof (cases y)
  case None
  then show ?thesis by (simp add: check_parents.simps)
next
  case (Some cyl)
  have "\<exists>r. check_parents E s thing limit (Some cyl) = Some r \<and> r \<noteq> Some RETURNVALUE_NOERROR"
  proof (induction rule: cylinder_induct [OF assms])
    case (1 cyl)
    then show ?case
      by (subst check_parents.simps, cases "cyl_parent E s cyl") (auto simp: check_parents.simps [of _ _ _ _ None])
  qed
  with Some show ?thesis by simp
qed

lemma check_parents_pass:
  assumes "outer_ends E" "wf (inside s)"
  shows "check_parents E s thing limit (Some cyl) = Some None \<Longrightarrow> cyl = InContainer a \<Longrightarrow> thing \<notin> around s a"
proof (induction arbitrary: a rule: cylinder_induct [OF assms])
  case (1 cyl)
  have ne: "thing \<noteq> a" and rest: "check_parents E s thing limit (getParent s a) = Some None"
    using 1(2,3) by (auto simp: check_parents.simps [of E s thing limit "Some _"] cyl_parent_def split: if_splits)
  show ?case
  proof (cases "getParentContainer s a")
    case None
    then show ?thesis using ne by (simp add: around_None)
  next
    case (Some p)
    then have p: "getParent s a = Some (InContainer p)"
      by (simp add: getParentContainer_def split: option.splits cylinder.splits)
    then have "thing \<notin> around s p" using rest 1(1) [of "InContainer p" p] 1(3) by (simp add: cyl_parent_def)
    then show ?thesis using ne Some by (simp add: around_Some)
  qed
qed

lemma top_walk_ends:
  assumes "outer_ends E" "wf (inside s)"
  shows "\<exists>r. top_walk E s prevaux aux = Some r"
proof (induction arbitrary: prevaux rule: cylinder_induct [OF assms])
  case (1 aux)
  then show ?case by (subst top_walk.simps) (auto split: option.split)
qed

text \<open>
  C25. \<open>queryAdd\<close> always answers. Asked for a child container (with \<open>FLAG_CHILDISOWNER\<close>) it agrees
  without looking at anything; asked for an item of its own, when it allows the item into the container
  then the container is unlocked and is neither the item nor anywhere inside it; if limits
  apply and no slot is named, the container has a free slot. So an item that has been
  taken from its old place may be put in (\<open>can_put\<close>): no container ever gets into
  itself.
\<close>

theorem queryAdd_sound:
  assumes "store_inv E s" "outer_ends E" "cont_of s c = Some cp"
  shows "\<exists>r. queryAdd E s c index x count flags = Some r \<and>
           (hasBitSet FLAG_CHILDISOWNER flags \<longrightarrow> r = RETURNVALUE_NOERROR) \<and>
           (\<not> hasBitSet FLAG_CHILDISOWNER flags \<and> r = RETURNVALUE_NOERROR \<longrightarrow>
              unlocked cp \<and> x \<notin> around s c \<and>
              (getParentContainer s x = None \<longrightarrow> can_put s c x) \<and>
              (\<not> hasBitSet FLAG_NOLIMIT flags \<and> index = INDEX_WHEREEVER \<longrightarrow>
                 length (itemlist cp) < unat (maxSize cp)))"
proof (cases "hasBitSet FLAG_CHILDISOWNER flags")
  case True
  then show ?thesis by (simp add: queryAdd_def)
next
  case own: False
  show ?thesis
proof (cases "s x")
  case None
  then show ?thesis using assms(3) own by (simp add: queryAdd_def)
next
  case (Some ob)
  note wf = store_invD(3) [OF assms(1)]
  obtain r where r: "check_parents E s x (\<not> hasBitSet FLAG_NOLIMIT flags) (getParent s c) = Some r"
    "r \<noteq> Some RETURNVALUE_NOERROR"
    using check_parents_ends [OF assms(2) wf] by blast
  obtain t where t: "getTopParent E s c = Some t"
    using top_walk_ends [OF assms(2) wf] by (cases "getParent s c") (auto simp: getTopParent_def)
  have notin: "x \<notin> around s c" if "r = None" "x \<noteq> c"
  proof (cases "getParentContainer s c")
    case None
    then show ?thesis using that by (simp add: around_None)
  next
    case (Some p)
    then have "getParent s c = Some (InContainer p)"
      by (simp add: getParentContainer_def split: option.splits cylinder.splits)
    then have "x \<notin> around s p" using check_parents_pass [OF assms(2) wf] r that(1) by auto
    then show ?thesis using that Some by (simp add: around_Some)
  qed
  show ?thesis
    using assms(3) own Some r t notin
    by (cases r; cases t) (auto simp: queryAdd_def can_put_def)
  qed
qed

theorem queryAdd_sound_witness:
  "queryAdd shop_env shop 3 INDEX_WHEREEVER 5 1 0 = Some RETURNVALUE_NOERROR \<and> can_put shop 3 5 \<and>
   queryAdd shop_env shop 3 INDEX_WHEREEVER 1 1 0 = Some RETURNVALUE_THISISIMPOSSIBLE"
proof -
  have p: "getParent shop 1 = Some (Outer 0)" "getParent shop 3 = Some (InContainer 1)"
    by (simp_all add: getParent_def shop_def plain_def)
  have cp: "cyl_parent shop_env shop (InContainer 1) = Some (Outer 0)"
    "cyl_parent shop_env shop (Outer 0) = None"
    by (simp_all add: cyl_parent_def p shop_env_def del: One_nat_def)
  note ch = check_parents.simps [of shop_env shop _ _ "Some (InContainer 1)"]
    check_parents.simps [of shop_env shop _ _ "Some (Outer 0)"]
    check_parents.simps [of shop_env shop _ _ None]
  note top = top_walk.simps [of shop_env shop "InContainer 3" "InContainer 1"]
    top_walk.simps [of shop_env shop "InContainer 1" "Outer 0"]
  have obs: "shop 1 = Some (plain 1987 1 (Some (Outer 0)) (Some (bag [2, 3] 1310)))"
    "shop 5 = Some (plain 2088 1 (Some (Outer 0)) None)"
    by (simp_all add: shop_def)
  have q: "queryAdd shop_env shop 3 INDEX_WHEREEVER 5 1 0 = Some RETURNVALUE_NOERROR"
    "queryAdd shop_env shop 3 INDEX_WHEREEVER 1 1 0 = Some RETURNVALUE_THISISIMPOSSIBLE"
    by (simp_all add: queryAdd_def hasBitSet_def shop_values obs p ch cp top getTopParent_def bag_def
        plain_def del: One_nat_def) (simp_all add: shop_env_def shop_table_def)
  have "outer_ends shop_env" by (simp add: outer_ends_def shop_env_def)
  then have "can_put shop 3 5"
    using queryAdd_sound [OF shop_inv, where c = 3 and cp = "bag [4] 10" and index = INDEX_WHEREEVER
        and x = 5 and count = 1 and flags = 0] q(1)
    by (simp add: shop_values hasBitSet_def)
  with q show ?thesis by blast
qed

section \<open>Weights\<close>

definition own_weight :: "outer_env \<Rightarrow> store \<Rightarrow> nat \<Rightarrow> u32" where
  "own_weight E s x = (case s x of None \<Rightarrow> 0 | Some ob \<Rightarrow> getWeight (item_tab E) (o_item ob))"

definition below :: "store \<Rightarrow> nat \<Rightarrow> nat set" where
  "below s c = {x. (c, x) \<in> (inside s)\<^sup>+}"

lemma insert_below: "insert x (below s x) = {z. (x, z) \<in> (inside s)\<^sup>*}"
  by (auto simp: below_def rtrancl_eq_or_trancl)

lemma sint_small: "unat (w :: u32) < 2 ^ 31 \<Longrightarrow> sint w = int (unat w)"
proof -
  assume "unat w < 2 ^ 31"
  then have "unat w < 2147483648" by simp
  then have "int (unat w) < 2147483648" by linarith
  then have "uint w < 2 ^ 31" by (simp only: of_nat_unat) simp
  moreover have "- (2 ^ 31) \<le> uint w" by (rule order_trans [of _ 0]) simp_all
  ultimately have "signed_take_bit 31 (uint w) = uint w" by (rule signed_take_bit_int_eq_self [rotated])
  then show ?thesis by (simp add: sint_uint)
qed

lemma below_unfold: "below s c = (\<Union>x \<in> {x. (c, x) \<in> inside s}. insert x (below s x))"
  unfolding insert_below by (auto simp: below_def trancl_unfold_left)

text \<open>The kept total of a container is the sum over everything in it, at any depth.\<close>

lemma total_weight_deep:
  assumes inv: "store_inv E s"
  shows "cont_of s c = Some cp \<Longrightarrow> totalWeight cp = (\<Sum>x \<in> below s c. own_weight E s x)"
proof -
  note D = store_invD [OF inv]
  have fin: "finite (below s e)" for e unfolding below_def by (rule inside_finite [OF D(1)])
  have "inside s \<subseteq> (\<lambda>x. (the (getParentContainer s x), x)) ` dom s"
    using inside_dom by (force simp: inside_iff domIff)
  then have "finite (inside s)" using D(1) by (meson finite_imageI finite_subset)
  then have "wf ((inside s)\<inverse>)" using D(3) by (simp add: finite_acyclic_wf_converse wf_acyclic)
  then show "cont_of s c = Some cp \<Longrightarrow> totalWeight cp = (\<Sum>x \<in> below s c. own_weight E s x)"
  proof (induction c arbitrary: cp rule: wf_induct_rule)
    case (less c)
    let ?K = "{x. (c, x) \<in> inside s}"
    have K: "set (itemlist cp) = ?K" "distinct (itemlist cp)"
      using forest_linkedD(1) [OF D(2), of _ c] forest_linkedD(2) [OF D(2), of c] less.prems
      by (auto simp: items_of_def)
    have sub: "weight_at E s x = (\<Sum>y \<in> insert x (below s x). own_weight E s y)" if x: "x \<in> ?K" for x
    proof -
      have "x \<notin> below s x" using D(3) by (auto simp: below_def dest: wf_trancl wf_not_refl)
      moreover have "weight_at E s x = own_weight E s x + (\<Sum>y \<in> below s x. own_weight E s y)"
      proof (cases "cont_of s x")
        case None
        then have "items_of s x = []" by (simp add: items_of_def)
        then have "below s x = {}" using forest_linkedD(1) [OF D(2), of _ x] by (subst below_unfold) auto
        with None show ?thesis by (auto simp: weight_at_def own_weight_def cont_of_def split: option.splits)
      next
        case (Some cx)
        then have "totalWeight cx = (\<Sum>y \<in> below s x. own_weight E s y)" using less.IH x by simp
        with Some show ?thesis by (auto simp: weight_at_def own_weight_def cont_of_def split: option.splits)
      qed
      ultimately show ?thesis using fin by simp
    qed
    have "totalWeight cp = (\<Sum>x \<in> ?K. weight_at E s x)"
      using weighedD [OF D(4) less.prems] sum_list_distinct_conv_sum_set [OF K(2)] K(1) by simp
    also have "\<dots> = (\<Sum>x \<in> ?K. \<Sum>y \<in> insert x (below s x). own_weight E s y)"
      by (rule sum.cong) (simp_all add: sub)
    also have "\<dots> = (\<Sum>y \<in> below s c. own_weight E s y)"
      unfolding below_unfold [of s c]
    proof (rule sum.UNION_disjoint [symmetric])
      show "finite ?K" using K(1) by (metis List.finite_set)
      show "\<forall>x \<in> ?K. finite (insert x (below s x))" using fin by simp
      show "\<forall>x \<in> ?K. \<forall>y \<in> ?K. x \<noteq> y \<longrightarrow> insert x (below s x) \<inter> insert y (below s y) = {}"
      proof (intro ballI impI equals0I)
        fix x y z
        assume xy: "x \<in> ?K" "y \<in> ?K" "x \<noteq> y" "z \<in> insert x (below s x) \<inter> insert y (below s y)"
        then have "x \<in> around s z" "y \<in> around s z" by (auto simp: around_def below_def)
        with xy show False using around_unique [OF D(3), of c x y z] by simp
      qed
    qed
    finally show ?case .
  qed
qed

text \<open>A sequence of changes, of which those are carried out that their callers may make.\<close>

fun run_ops :: "outer_env \<Rightarrow> container_op list \<Rightarrow> store \<Rightarrow> store option" where
  "run_ops E [] s = Some s"
| "run_ops E (p # ps) s =
     (if op_ok s p then (case run_op E p s of None \<Rightarrow> None | Some (s', ev) \<Rightarrow> run_ops E ps s')
      else run_ops E ps s)"

text \<open>
  C18. Adding, replacing, changing and removing items, in any order, always comes to an
  end and keeps the forest of containers: afterwards the weight that each container
  keeps is the sum (modulo 2^32) of the weights of all items in it at any depth, parent
  pointers and item lists agree, and no container is inside itself.
\<close>

theorem container_weights_stay_exact:
  assumes "store_inv E s"
  shows "\<exists>s'. run_ops E ops s = Some s' \<and> store_inv E s' \<and>
           (\<forall>c cp. cont_of s' c = Some cp \<longrightarrow>
              totalWeight cp = (\<Sum>x \<in> below s' c. own_weight E s' x)) \<and>
           (\<forall>c. c \<notin> below s' c)"
proof -
  have "\<exists>s'. run_ops E ops s = Some s' \<and> store_inv E s'"
    using assms
  proof (induction ops arbitrary: s)
    case (Cons p ps)
    then show ?case using op_keeps_inv [OF Cons.prems, of p] by (fastforce split: if_splits)
  qed simp
  then obtain s' where s': "run_ops E ops s = Some s'" "store_inv E s'" by blast
  moreover have "c \<notin> below s' c" for c
    using store_invD(3) [OF s'(2)] by (auto simp: below_def dest: wf_trancl wf_not_refl)
  ultimately show ?thesis using total_weight_deep [OF s'(2)] by blast
qed

theorem container_weights_stay_exact_witness:
  "\<exists>s'. run_ops shop_env [OpRemove 1 3 1, OpAdd 0 3 5] shop = Some s' \<and> store_inv shop_env s'"
  using container_weights_stay_exact [OF shop_inv] by blast

text \<open>
  What \<open>queryRemove\<close> allows, \<open>removeThing\<close> does: either a part of a stack is taken,
  and the rest, one at least, stays in the container, or the item leaves the
  container, and no other item does.
\<close>

theorem removal_takes_what_was_asked:
  assumes "store_inv E s" "queryRemove E s c x count flags = RETURNVALUE_NOERROR" "s x = Some ob"
  shows "\<exists>s' ev. removeThing E c x count s = Some (s', ev) \<and> store_inv E s' \<and>
     (if it_stackable (item_tab E (item_id (o_item ob))) \<and> count \<noteq> ucast (item_count (o_item ob))
      then (\<exists>ob'. s' x = Some ob' \<and> 0 < item_count (o_item ob') \<and>
              unat (item_count (o_item ob')) = unat (item_count (o_item ob)) - unat count \<and>
              items_of s' c = items_of s c)
      else set (items_of s' c) = set (items_of s c) - {x} \<and> getParent s' x = None)"
proof -
  obtain i where i: "getThingIndex s c x = Some i"
    using assms(2) by (auto simp: queryRemove_def split: option.splits)
  then have x: "x \<in> set (items_of s c)" using getThingIndex_None [of s c x] by simp
  let ?n = "item_count (o_item ob)"
  show ?thesis
  proof (cases "it_stackable (item_tab E (item_id (o_item ob))) \<and> count \<noteq> ucast ?n")
    case True
    then have le: "count < ucast ?n"
      using assms(2,3) i by (auto simp: queryRemove_def Let_def split: if_splits)
    define left where "left = (ucast ?n - count :: u32)"
    have n: "unat (ucast ?n :: u32) = unat ?n" by simp
    have lt: "unat count < unat ?n" using le by (simp add: word_less_nat_alt)
    then have left: "unat left = unat ?n - unat count"
      using le by (simp add: left_def unat_sub word_le_nat_alt)
    then have small: "unat left \<le> 255" using u8_le_255 [of ?n] by simp
    then have pos: "\<not> sint left < 0" by (simp add: sint_small)
    have cnt: "unat (ucast left :: u8) = unat left"
      using small by (simp add: unsigned_ucast_eq take_bit_nat_eq_self)
    let ?f = "setItemCount (if sint left < 0 then 0 else ucast left :: u8)"
    obtain s' where s': "reweigh E c x ?f s = Some s'" "store_inv E s'"
      "\<forall>a. items_of s' a = items_of s a"
      "\<exists>ob'. s' x = Some ob' \<and> o_item ob' = ?f (o_item ob)"
      using reweigh_ok [OF assms(1) x, of ?f] assms(3) by blast
    obtain ev where "removeThing E c x count s = Some (s', ev)"
      using i assms(3) True s'(1) [unfolded left_def] by (simp add: removeThing_def Let_def)
    moreover have "\<exists>ob'. s' x = Some ob' \<and> 0 < item_count (o_item ob') \<and>
        unat (item_count (o_item ob')) = unat ?n - unat count"
      using s'(4) pos cnt left lt by (auto simp: setItemCount_def word_less_nat_alt)
    ultimately show ?thesis using s'(2,3) True by (auto simp del: not_None_eq)
  next
    case False
    note nth = getThingIndex_nth [OF i]
    obtain s' where s': "map_option
             (\<lambda>s. upd_cont c (\<lambda>cp. cp\<lparr>itemlist := take i (itemlist cp) @ drop (i + 1) (itemlist cp)\<rparr>)
                     (setParent x None s))
             (updateItemWeight c (- weight_at E s x) s) = Some s'" "store_inv E s'"
      "set (items_of s' c) = set (items_of s c) - {x}" "getParent s' x = None"
      using remove_ok [OF assms(1) conjunct1 [OF nth] conjunct2 [OF nth]] by blast
    obtain s3 where u: "updateItemWeight c (- weight_at E s x) s = Some s3" using s'(1) by blast
    have "\<exists>ev. removeThing E c x count s = Some (s', ev)"
      using s'(1)
      by (simp only: removeThing_def i assms(3) option.case prod.case False if_False u option.map) simp
    then show ?thesis using s'(2-4) False by (simp only: if_False) blast
  qed
qed

theorem removal_takes_what_was_asked_witness:
  "\<exists>s' ev. removeThing shop_env 1 2 20 shop = Some (s', ev) \<and> items_of s' 1 = [2, 3] \<and>
     (\<exists>ob. s' 2 = Some ob \<and> unat (item_count (o_item ob)) = 30)"
proof -
  have q: "queryRemove shop_env shop 1 2 20 0 = RETURNVALUE_NOERROR" by code_simp
  have ob: "shop 2 = Some (plain 2148 50 (Some (InContainer 1)) None)" by (simp add: shop_def)
  show ?thesis
    using removal_takes_what_was_asked [OF shop_inv q ob]
    by (auto simp: plain_def shop_env_def shop_table_def shop_values)
qed

end
