(* ===== verification/Trade.thy ===== *)
theory Trade imports ContainerTheorems begin

text \<open>
  Trading between two players (game.cpp, player.cpp): the handlers that request, accept
  and close a trade, and the checks that close it when players or items move. The state
  is the trade fields of the players online and the table \<open>tradeItems\<close> of offered
  items; the forest of items is a \<open>store\<close> of the containers. What other components
  answer (positions, scripts, the tests and moves of items) is part of a request.
\<close>

section \<open>State\<close>

datatype tradestate =
    TRADE_NONE | TRADE_INITIATED | TRADE_ACCEPT | TRADE_ACKNOWLEDGE | TRADE_TRANSFER

record trader =
  tradeState :: tradestate
  tradePartner :: "nat option"
  tradeItem :: "nat option"

definition no_trade :: trader where
  "no_trade = \<lparr>tradeState = TRADE_NONE, tradePartner = None, tradeItem = None\<rparr>"

text \<open>What a player is told.\<close>

datatype trade_msg =
    TradeItemRequest nat nat bool
  | WantsToTrade nat
  | TradeCancelled
  | TradeClose
  | TradeRefused ReturnValue
  | TradeText string

text \<open>
  \<open>tradeItems\<close> is the map from offered items to the players who offer them;
  \<open>tradeMoves\<close> lists the items handed over, with their receivers.
\<close>

record trade_world =
  traders :: "nat \<rightharpoonup> trader"
  tradeItems :: "(nat \<times> nat) list"
  tradeMsgs :: "(nat \<times> trade_msg) list"
  tradeMoves :: "(nat \<times> nat) list"

definition tr :: "trade_world \<Rightarrow> nat \<Rightarrow> trader" where
  "tr w p = (case traders w p of None \<Rightarrow> no_trade | Some t \<Rightarrow> t)"

definition upd_trader :: "nat \<Rightarrow> (trader \<Rightarrow> trader) \<Rightarrow> trade_world \<Rightarrow> trade_world" where
  "upd_trader p f w = w\<lparr>traders := (traders w)(p := map_option f (traders w p))\<rparr>"

definition tell :: "nat \<Rightarrow> trade_msg \<Rightarrow> trade_world \<Rightarrow> trade_world" where
  "tell p m w = w\<lparr>tradeMsgs := tradeMsgs w @ [(p, m)]\<rparr>"

definition put_offer :: "nat \<Rightarrow> nat \<Rightarrow> trade_world \<Rightarrow> trade_world" where
  "put_offer i p w = w\<lparr>tradeItems := (i, p) # filter (\<lambda>(j, q). j \<noteq> i) (tradeItems w)\<rparr>"

text \<open>Finding and erasing the entry of an item; a null pointer is in no entry.\<close>

definition erase_offer :: "nat option \<Rightarrow> trade_world \<Rightarrow> trade_world" where
  "erase_offer i w = w\<lparr>tradeItems := filter (\<lambda>(j, q). Some j \<noteq> i) (tradeItems w)\<rparr>"

section \<open>Closing\<close>

definition drop_offer :: "nat \<Rightarrow> trade_world \<Rightarrow> trade_world" where
  "drop_offer p w =
     (if tradeItem (tr w p) \<noteq> None
      then upd_trader p (\<lambda>t. t\<lparr>tradeItem := None\<rparr>) (erase_offer (tradeItem (tr w p)) w)
      else w)"

definition reset_trader :: "nat \<Rightarrow> trade_world \<Rightarrow> trade_world" where
  "reset_trader p w = upd_trader p (\<lambda>t. t\<lparr>tradeState := TRADE_NONE, tradePartner := None\<rparr>) w"

definition close_side :: "nat \<Rightarrow> trade_world \<Rightarrow> trade_world" where
  "close_side p w = tell p TradeClose (tell p TradeCancelled (reset_trader p (drop_offer p w)))"

definition internalCloseTrade :: "nat \<Rightarrow> trade_world \<Rightarrow> trade_world" where
  "internalCloseTrade p w =
     (let partner = tradePartner (tr w p) in
      if (case partner of None \<Rightarrow> False | Some q \<Rightarrow> tradeState (tr w q) = TRADE_TRANSFER) \<or>
         tradeState (tr w p) = TRADE_TRANSFER
      then w
      else (let w = close_side p w in
            case partner of None \<Rightarrow> w | Some q \<Rightarrow> close_side q w))"

definition playerCloseTrade :: "nat \<Rightarrow> trade_world \<Rightarrow> trade_world" where
  "playerCloseTrade p w = (if traders w p = None then w else internalCloseTrade p w)"

section \<open>Requesting\<close>

definition internalStartTrade :: "nat \<Rightarrow> nat \<Rightarrow> nat \<Rightarrow> trade_world \<Rightarrow> trade_world \<times> bool" where
  "internalStartTrade p q i w =
     (if tradeState (tr w p) \<noteq> TRADE_NONE \<and>
         \<not> (tradeState (tr w p) = TRADE_ACKNOWLEDGE \<and> tradePartner (tr w p) = Some q)
      then (tell p (TradeText ''You are already trading.'') w, False)
      else if tradeState (tr w q) \<noteq> TRADE_NONE \<and> tradePartner (tr w q) \<noteq> Some p
      then (tell p (TradeText ''This player is already trading.'') w, False)
      else
        (let w = upd_trader p (\<lambda>t. t\<lparr>tradePartner := Some q, tradeItem := Some i,
                                    tradeState := TRADE_INITIATED\<rparr>) w;
             w = put_offer i p w;
             w = tell p (TradeItemRequest p i True) w
         in (if tradeState (tr w q) = TRADE_NONE
             then upd_trader q (\<lambda>t. t\<lparr>tradeState := TRADE_ACKNOWLEDGE, tradePartner := Some p\<rparr>)
                    (tell q (WantsToTrade p) w)
             else (let w = (case tradeItem (tr w q) of
                              None \<Rightarrow> w | Some c \<Rightarrow> tell p (TradeItemRequest q c False) w)
                   in tell q (TradeItemRequest p i False) w), True)))"

text \<open>
  What \<open>playerRequestTrade\<close> learns from the rest of the game: whether the players are
  near and in sight of each other, the thing at the given position and whether it has
  the expected sprite, may be picked up and has no unique id, whether it is near or can
  be walked to (the request is then repeated later), and the answer of the script.
\<close>

record trade_request =
  rq_inRange :: bool
  rq_reachable :: bool
  rq_thing :: "nat option"
  rq_suitable :: bool
  rq_sameFloor :: bool
  rq_near :: bool
  rq_path :: bool
  rq_script :: bool

text \<open>The scan of \<open>tradeItems\<close> for a conflict with the new offer.\<close>

definition in_conflict :: "store \<Rightarrow> nat \<Rightarrow> (nat \<times> nat) list \<Rightarrow> bool" where
  "in_conflict s i offers =
     list_ex (\<lambda>(j, q). i = j \<or>
        cont_of s i \<noteq> None \<and> isHoldingItem s i j = Some True \<or>
        cont_of s j \<noteq> None \<and> isHoldingItem s j i = Some True) offers"

definition too_many :: "store \<Rightarrow> nat \<Rightarrow> bool" where
  "too_many s i =
     (cont_of s i \<noteq> None \<and>
      (case getItemHoldingCount s i of None \<Rightarrow> True | Some n \<Rightarrow> n + 1 > 100))"

definition playerRequestTrade ::
  "store \<Rightarrow> trade_request \<Rightarrow> nat \<Rightarrow> nat \<Rightarrow> trade_world \<Rightarrow> trade_world" where
  "playerRequestTrade s rq p q w =
     (if traders w p = None then w
      else if traders w q = None \<or> q = p then tell p (TradeText ''Sorry, not possible.'') w
      else if \<not> rq_inRange rq then tell p (TradeText ''tells you to move closer.'') w
      else if \<not> rq_reachable rq then tell p (TradeText ''Creature is not reachable.'') w
      else (case rq_thing rq of
              None \<Rightarrow> tell p (TradeRefused RETURNVALUE_NOTPOSSIBLE) w
            | Some i \<Rightarrow>
                if \<not> rq_suitable rq then tell p (TradeRefused RETURNVALUE_NOTPOSSIBLE) w
                else if \<not> rq_sameFloor rq then tell p (TradeText ''First go to the floor.'') w
                else if \<not> rq_near rq then (if rq_path rq then w else tell p (TradeText ''There is no way.'') w)
                else if in_conflict s i (tradeItems w)
                then tell p (TradeText ''This item is already being traded.'') w
                else if too_many s i
                then tell p (TradeText ''You can not trade more than 100 items.'') w
                else if \<not> rq_script rq then w
                else fst (internalStartTrade p q i w)))"

section \<open>Accepting\<close>

text \<open>
  The answers to the calls of \<open>playerAcceptTrade\<close>: the line of sight, the script, the
  tests of adding and removing both items, and the two moves.
\<close>

record trade_answers =
  ac_reachable :: bool
  ac_script :: bool
  ac_add1 :: ReturnValue
  ac_add2 :: ReturnValue
  ac_remove1 :: ReturnValue
  ac_remove2 :: ReturnValue
  ac_move1 :: ReturnValue
  ac_move2 :: ReturnValue

definition hand_over :: "ReturnValue \<Rightarrow> nat option \<Rightarrow> nat \<Rightarrow> trade_world \<Rightarrow> trade_world" where
  "hand_over r i p w =
     (case i of
        Some x \<Rightarrow> if r = RETURNVALUE_NOERROR then w\<lparr>tradeMoves := tradeMoves w @ [(x, p)]\<rparr> else w
      | None \<Rightarrow> w)"

text \<open>
  The exchange once both have accepted: \<open>internalAddItem\<close> answers \<open>NOTPOSSIBLE\<close> for a null
  item; the result of the second move is not looked at. The flag is \<open>isSuccess\<close>.
\<close>

definition exchange ::
  "trade_answers \<Rightarrow> nat \<Rightarrow> nat \<Rightarrow> nat option \<Rightarrow> nat option \<Rightarrow> trade_world \<Rightarrow>
     trade_world \<times> bool \<times> ReturnValue \<times> ReturnValue" where
  "exchange a p q item1 item2 w =
     (let ret1 = (if item1 = None then RETURNVALUE_NOTPOSSIBLE else ac_add1 a);
          ret2 = (if item2 = None then RETURNVALUE_NOTPOSSIBLE else ac_add2 a)
      in if ret1 = RETURNVALUE_NOERROR \<and> ret2 = RETURNVALUE_NOERROR then
           (let ret1 = ac_remove1 a; ret2 = ac_remove2 a in
            if ret1 = RETURNVALUE_NOERROR \<and> ret2 = RETURNVALUE_NOERROR then
              (let ret1 = ac_move1 a; w = hand_over ret1 item1 q w in
               if ret1 = RETURNVALUE_NOERROR
               then (hand_over (ac_move2 a) item2 p w, True, ret1, ret2)
               else (w, False, ret1, ret2))
            else (w, False, ret1, ret2))
         else (w, False, ret1, ret2))"

definition tell_failure :: "nat \<Rightarrow> ReturnValue \<Rightarrow> trade_world \<Rightarrow> trade_world" where
  "tell_failure p r w = (if tradeItem (tr w p) \<noteq> None then tell p (TradeRefused r) w else w)"

definition end_trade :: "nat \<Rightarrow> trade_world \<Rightarrow> trade_world" where
  "end_trade p w = tell p TradeClose (upd_trader p (\<lambda>_. no_trade) w)"

definition set_state :: "nat \<Rightarrow> tradestate \<Rightarrow> trade_world \<Rightarrow> trade_world" where
  "set_state p st w = upd_trader p (\<lambda>t. t\<lparr>tradeState := st\<rparr>) w"

definition playerAcceptTrade :: "trade_answers \<Rightarrow> nat \<Rightarrow> trade_world \<Rightarrow> trade_world" where
  "playerAcceptTrade a p w =
     (if traders w p = None then w
      else if \<not> (tradeState (tr w p) = TRADE_ACKNOWLEDGE \<or> tradeState (tr w p) = TRADE_INITIATED) then w
      else (case tradePartner (tr w p) of
              None \<Rightarrow> w
            | Some q \<Rightarrow>
                if \<not> ac_reachable a then tell p (TradeText ''Creature is not reachable.'') w
                else
                  (let w = set_state p TRADE_ACCEPT w in
                   if tradeState (tr w q) \<noteq> TRADE_ACCEPT then w
                   else if \<not> ac_script a then internalCloseTrade p w
                   else
                     (let item1 = tradeItem (tr w p);
                          item2 = tradeItem (tr w q);
                          w = set_state q TRADE_TRANSFER (set_state p TRADE_TRANSFER w);
                          w = erase_offer item2 (erase_offer item1 w)
                      in case exchange a p q item1 item2 w of
                           (w, isSuccess, ret1, ret2) \<Rightarrow>
                             (let w = (if isSuccess then w else tell_failure p ret2 (tell_failure q ret1 w))
                              in end_trade q (end_trade p w))))))"

section \<open>Movement, changes of items, login and logout\<close>

definition onPlayerMoved :: "bool \<Rightarrow> bool \<Rightarrow> nat \<Rightarrow> trade_world \<Rightarrow> trade_world" where
  "onPlayerMoved itemNear partnerNear p w =
     (if tradeState (tr w p) = TRADE_TRANSFER then w
      else (let w = (if tradeItem (tr w p) \<noteq> None \<and> \<not> itemNear then internalCloseTrade p w else w)
            in if tradePartner (tr w p) \<noteq> None \<and> \<not> partnerNear then internalCloseTrade p w else w))"

text \<open>\<open>checkTradeState\<close>: an item that is offered, or lies in an offered container, has changed.\<close>

partial_function (option) holder_walk :: "store \<Rightarrow> nat \<Rightarrow> nat option \<Rightarrow> bool option" where
  "holder_walk s offered container =
     (case container of
        None \<Rightarrow> Some False
      | Some c \<Rightarrow> if c = offered then Some True else holder_walk s offered (getParentContainer s c))"

definition checkTradeState :: "store \<Rightarrow> nat \<Rightarrow> nat \<Rightarrow> trade_world \<Rightarrow> trade_world option" where
  "checkTradeState s p item w =
     (case tradeItem (tr w p) of
        None \<Rightarrow> Some w
      | Some i \<Rightarrow>
          if tradeState (tr w p) = TRADE_TRANSFER then Some w
          else if i = item then Some (internalCloseTrade p w)
          else map_option (\<lambda>b. if b then internalCloseTrade p w else w)
                 (holder_walk s i (getParentContainer s item)))"

definition trader_login :: "nat \<Rightarrow> trade_world \<Rightarrow> trade_world" where
  "trader_login p w = (if traders w p = None then w\<lparr>traders := (traders w)(p \<mapsto> no_trade)\<rparr> else w)"

definition trader_logout :: "nat \<Rightarrow> trade_world \<Rightarrow> trade_world" where
  "trader_logout p w =
     (let w = (if tradePartner (tr w p) \<noteq> None then internalCloseTrade p w else w)
      in w\<lparr>traders := (traders w)(p := None)\<rparr>)"

datatype trade_op =
    Request trade_request nat nat
  | Accept trade_answers nat
  | Close nat
  | Moved bool bool nat
  | Changed nat nat
  | Login nat
  | Logout nat

fun trade_step :: "store \<Rightarrow> trade_op \<Rightarrow> trade_world \<Rightarrow> trade_world" where
  "trade_step s (Request rq p q) w = playerRequestTrade s rq p q w"
| "trade_step s (Accept a p) w = playerAcceptTrade a p w"
| "trade_step s (Close p) w = playerCloseTrade p w"
| "trade_step s (Moved itemNear partnerNear p) w = onPlayerMoved itemNear partnerNear p w"
| "trade_step s (Changed p item) w = (case checkTradeState s p item w of None \<Rightarrow> w | Some w' \<Rightarrow> w')"
| "trade_step s (Login p) w = trader_login p w"
| "trade_step s (Logout p) w = trader_logout p w"

definition quiet_world :: trade_world where
  "quiet_world = \<lparr>traders = Map.empty, tradeItems = [], tradeMsgs = [], tradeMoves = []\<rparr>"

end
