(* ===== verification/TradeProps.thy ===== *)
theory TradeProps imports Trade begin

text \<open>
  The trade protocol: an invariant of all players' trade states and of the table of
  offers that every handler keeps, and what an exchange does.
\<close>

section \<open>The invariant\<close>

definition pok :: "(nat \<rightharpoonup> trader) \<Rightarrow> nat \<Rightarrow> trader \<Rightarrow> bool" where
  "pok T p t =
     (tradeState t \<noteq> TRADE_TRANSFER \<and>
      (tradeState t = TRADE_NONE \<longleftrightarrow> tradePartner t = None) \<and>
      (tradeState t = TRADE_NONE \<or> tradeState t = TRADE_ACKNOWLEDGE \<longrightarrow> tradeItem t = None) \<and>
      (tradeState t = TRADE_INITIATED \<longrightarrow> tradeItem t \<noteq> None) \<and>
      (\<forall>q. tradePartner t = Some q \<longrightarrow> q \<noteq> p \<and>
         (\<exists>u. T q = Some u \<and> tradePartner u = Some p \<and>
              (tradeItem t \<noteq> None \<or> tradeItem u \<noteq> None) \<and>
              \<not> (tradeState t = TRADE_ACCEPT \<and> tradeState u = TRADE_ACCEPT))))"

definition players_ok :: "(nat \<rightharpoonup> trader) \<Rightarrow> bool" where
  "players_ok T = (\<forall>p t. T p = Some t \<longrightarrow> pok T p t)"

definition offers_ok :: "(nat \<rightharpoonup> trader) \<Rightarrow> (nat \<times> nat) set \<Rightarrow> bool" where
  "offers_ok T A = (\<forall>i p. (i, p) \<in> A \<longleftrightarrow> (\<exists>t. T p = Some t \<and> tradeItem t = Some i))"

definition apart :: "store \<Rightarrow> (nat \<times> nat) set \<Rightarrow> bool" where
  "apart s A = (\<forall>i p j q. (i, p) \<in> A \<longrightarrow> (j, q) \<in> A \<longrightarrow>
     (i, j) \<notin> (inside s)\<^sup>+ \<and> (i = j \<longrightarrow> p = q))"

definition trade_inv :: "store \<Rightarrow> trade_world \<Rightarrow> bool" where
  "trade_inv s w = (players_ok (traders w) \<and> offers_ok (traders w) (set (tradeItems w)) \<and>
                    apart s (set (tradeItems w)))"

lemma tr_Some: "traders w p = Some t \<Longrightarrow> tr w p = t"
  by (simp add: tr_def)

lemma tr_None: "traders w p = None \<Longrightarrow> tr w p = no_trade"
  by (simp add: tr_def)

lemma traders_simps [simp]:
  "traders (upd_trader p f w) = (traders w)(p := map_option f (traders w p))"
  "traders (tell p m w) = traders w" "traders (put_offer i p w) = traders w"
  "traders (erase_offer x w) = traders w" "traders (hand_over r x p w) = traders w"
  by (simp_all add: upd_trader_def tell_def put_offer_def erase_offer_def hand_over_def split: option.split)

lemma tradeItems_simps [simp]:
  "tradeItems (upd_trader p f w) = tradeItems w" "tradeItems (tell p m w) = tradeItems w"
  "tradeItems (put_offer i p w) = (i, p) # filter (\<lambda>(j, q). j \<noteq> i) (tradeItems w)"
  "tradeItems (erase_offer x w) = filter (\<lambda>(j, q). Some j \<noteq> x) (tradeItems w)"
  "tradeItems (hand_over r y p w) = tradeItems w"
  by (simp_all add: upd_trader_def tell_def put_offer_def erase_offer_def hand_over_def split: option.split)

lemma tr_simps [simp]:
  "tr (tell p m w) q = tr w q" "tr (erase_offer x w) q = tr w q" "tr (put_offer i p w) q = tr w q"
  "tr (hand_over r y p w) q = tr w q"
  by (simp_all add: tr_def)

lemma tr_upd: "tr (upd_trader p f w) q = (if q = p \<and> traders w p \<noteq> None then f (tr w p) else tr w q)"
  by (auto simp: tr_def split: option.split)

section \<open>Leaving a trade\<close>

text \<open>Both partners back at rest.\<close>

definition parted :: "(nat \<rightharpoonup> trader) \<Rightarrow> nat \<Rightarrow> nat \<Rightarrow> (nat \<rightharpoonup> trader)" where
  "parted T p q = T(p \<mapsto> no_trade, q \<mapsto> no_trade)"

lemma no_trade_ok: "pok T p no_trade"
  by (simp add: pok_def no_trade_def)

lemma partner_obt:
  assumes "players_ok T" "T p = Some t" "tradePartner t = Some q"
  obtains u where "T q = Some u" "tradePartner u = Some p" "q \<noteq> p" "tradeState t \<noteq> TRADE_TRANSFER"
    "tradeState u \<noteq> TRADE_TRANSFER" "tradeItem t \<noteq> None \<or> tradeItem u \<noteq> None"
    "\<not> (tradeState t = TRADE_ACCEPT \<and> tradeState u = TRADE_ACCEPT)"
proof -
  have "pok T p t" using assms by (simp add: players_ok_def)
  then obtain u where u: "T q = Some u" "tradePartner u = Some p" "q \<noteq> p" "tradeState t \<noteq> TRADE_TRANSFER"
    "tradeItem t \<noteq> None \<or> tradeItem u \<noteq> None" "\<not> (tradeState t = TRADE_ACCEPT \<and> tradeState u = TRADE_ACCEPT)"
    using assms(3) by (auto simp: pok_def)
  moreover have "pok T q u" using assms(1) u(1) by (simp add: players_ok_def)
  then have "tradeState u \<noteq> TRADE_TRANSFER" by (simp add: pok_def)
  ultimately show thesis by (intro that)
qed

lemma parted_ok:
  assumes "players_ok T" "T p = Some t" "tradePartner t = Some q"
  shows "players_ok (parted T p q)"
  unfolding players_ok_def
proof (intro allI impI)
  fix r v
  assume v: "parted T p q r = Some v"
  show "pok (parted T p q) r v"
  proof (cases "r = p \<or> r = q")
    case True
    then have "v = no_trade" using v by (auto simp: parted_def split: if_splits)
    then show ?thesis by (simp add: no_trade_ok)
  next
    case False
    then have rv: "T r = Some v" using v by (simp add: parted_def)
    then have ok: "pok T r v" using assms(1) by (simp add: players_ok_def)
    obtain u where u: "T q = Some u" "tradePartner u = Some p"
      using partner_obt [OF assms] by blast
    have "tradePartner v \<noteq> Some p" "tradePartner v \<noteq> Some q"
      using ok assms(2,3) u False by (auto simp: pok_def)
    with ok show ?thesis by (auto simp: pok_def parted_def)
  qed
qed

lemma offer_owner:
  assumes "offers_ok T A" "apart s A" "T p = Some t" "tradeItem t = Some i" "T r = Some v" "tradeItem v = Some i"
  shows "r = p"
  using assms unfolding offers_ok_def apart_def by blast

lemma parted_offers:
  assumes "offers_ok T A" "apart s A" "T p = Some t" "T q = Some u"
  shows "offers_ok (parted T p q) {(j, r) \<in> A. Some j \<noteq> tradeItem t \<and> Some j \<noteq> tradeItem u}"
    and "apart s {(j, r) \<in> A. Some j \<noteq> tradeItem t \<and> Some j \<noteq> tradeItem u}"
proof -
  have "((i, r) \<in> A \<and> Some i \<noteq> tradeItem t \<and> Some i \<noteq> tradeItem u) \<longleftrightarrow>
        (\<exists>v. parted T p q r = Some v \<and> tradeItem v = Some i)" for i r
  proof (cases "r = p \<or> r = q")
    case True
    have "(i, r) \<in> A \<Longrightarrow> Some i = tradeItem t \<or> Some i = tradeItem u"
      using assms(1,3,4) True by (auto simp: offers_ok_def)
    with True show ?thesis by (auto simp: parted_def no_trade_def)
  next
    case False
    have "T r = Some v \<Longrightarrow> tradeItem v = Some i \<Longrightarrow> Some i \<noteq> tradeItem t \<and> Some i \<noteq> tradeItem u" for v
      using offer_owner [OF assms(1,2,3), of i r v] offer_owner [OF assms(1,2,4), of i r v] False by auto
    moreover have "(i, r) \<in> A \<longleftrightarrow> (\<exists>v. T r = Some v \<and> tradeItem v = Some i)"
      using assms(1) by (simp add: offers_ok_def)
    ultimately show ?thesis using False by (auto simp: parted_def)
  qed
  then show "offers_ok (parted T p q) {(j, r) \<in> A. Some j \<noteq> tradeItem t \<and> Some j \<noteq> tradeItem u}"
    by (simp add: offers_ok_def)
  show "apart s {(j, r) \<in> A. Some j \<noteq> tradeItem t \<and> Some j \<noteq> tradeItem u}"
    using assms(2) by (auto simp: apart_def)
qed

lemma close_side_eq:
  "traders (close_side p w) = (traders w)(p := map_option (\<lambda>_. no_trade) (traders w p))"
  "tradeItems (close_side p w) = filter (\<lambda>(j, q). Some j \<noteq> tradeItem (tr w p)) (tradeItems w)"
proof -
  have "filter (\<lambda>(j, q). Some j \<noteq> None) xs = xs" for xs :: "(nat \<times> nat) list"
    by (simp add: filter_True split_beta)
  then show "traders (close_side p w) = (traders w)(p := map_option (\<lambda>_. no_trade) (traders w p))"
    "tradeItems (close_side p w) = filter (\<lambda>(j, q). Some j \<noteq> tradeItem (tr w p)) (tradeItems w)"
    by (auto simp: close_side_def reset_trader_def drop_offer_def no_trade_def option.map_comp o_def
        tr_def fun_eq_iff split: option.splits)
qed

lemma tr_close_side: "q \<noteq> p \<Longrightarrow> tr (close_side p w) q = tr w q"
  by (simp add: tr_def close_side_eq)

lemma close_eq:
  assumes "traders w p = Some t" "tradePartner t = Some q" "traders w q = Some u" "p \<noteq> q"
    "tradeState t \<noteq> TRADE_TRANSFER" "tradeState u \<noteq> TRADE_TRANSFER"
  shows "traders (internalCloseTrade p w) = parted (traders w) p q"
    and "set (tradeItems (internalCloseTrade p w)) =
           {(j, r) \<in> set (tradeItems w). Some j \<noteq> tradeItem t \<and> Some j \<noteq> tradeItem u}"
proof -
  have eq: "internalCloseTrade p w = close_side q (close_side p w)"
    using assms by (simp add: internalCloseTrade_def tr_Some Let_def)
  show "traders (internalCloseTrade p w) = parted (traders w) p q"
    using assms unfolding eq by (auto simp: close_side_eq parted_def fun_eq_iff)
  show "set (tradeItems (internalCloseTrade p w)) =
           {(j, r) \<in> set (tradeItems w). Some j \<noteq> tradeItem t \<and> Some j \<noteq> tradeItem u}"
    using assms(4) unfolding eq
    by (auto simp: close_side_eq tr_close_side tr_Some [OF assms(1)] tr_Some [OF assms(3)])
qed

lemma close_alone:
  assumes "traders w p = Some t" "tradePartner t = None" "trade_inv s w"
  shows "traders (internalCloseTrade p w) = traders w" "tradeItems (internalCloseTrade p w) = tradeItems w"
proof -
  have "pok (traders w) p t" using assms(1,3) by (simp add: trade_inv_def players_ok_def)
  then have t: "t = no_trade"
    using assms(2) by (intro trader.equality) (auto simp: pok_def no_trade_def)
  have "filter (\<lambda>(j, q). True) xs = xs" for xs :: "(nat \<times> nat) list"
    by (simp add: filter_True split_beta)
  then show "traders (internalCloseTrade p w) = traders w" "tradeItems (internalCloseTrade p w) = tradeItems w"
    using assms(1) t
    by (auto simp: internalCloseTrade_def tr_Some Let_def close_side_eq no_trade_def)
qed

lemma close_inv:
  assumes inv: "trade_inv s w"
  shows "trade_inv s (internalCloseTrade p w)"
proof (cases "traders w p")
  case None
  have "filter (\<lambda>(j, q). True) xs = xs" for xs :: "(nat \<times> nat) list"
    by (simp add: filter_True split_beta)
  then have "traders (internalCloseTrade p w) = traders w" "tradeItems (internalCloseTrade p w) = tradeItems w"
    using None by (auto simp: internalCloseTrade_def tr_None Let_def close_side_eq no_trade_def)
  with inv show ?thesis by (simp add: trade_inv_def)
next
  case (Some t)
  show ?thesis
  proof (cases "tradePartner t")
    case None
    with close_alone [OF Some None inv] inv show ?thesis by (simp add: trade_inv_def)
  next
    case q: (Some q)
    obtain u where u: "traders w q = Some u" "q \<noteq> p" "tradeState t \<noteq> TRADE_TRANSFER"
      "tradeState u \<noteq> TRADE_TRANSFER"
      using inv partner_obt [where T = "traders w", OF _ Some q] by (auto simp: trade_inv_def)
    note eq = close_eq [OF Some q u(1) u(2) [symmetric] u(3,4)]
    show ?thesis
      using inv parted_ok [where T = "traders w", OF _ Some q]
        parted_offers [where T = "traders w", OF _ _ Some u(1)]
      unfolding trade_inv_def eq by blast
  qed
qed

section \<open>Starting a trade\<close>

lemma free_trader:
  assumes "players_ok T" "T p = Some t" "tradeState t = TRADE_NONE"
  shows "t = no_trade"
proof -
  have "pok T p t" using assms by (simp add: players_ok_def)
  then show ?thesis using assms(3) by (intro trader.equality) (auto simp: pok_def no_trade_def)
qed

text \<open>A table of players changed only at two partners, who are fine in the new table, is fine.\<close>

lemma players_ok_pair:
  assumes ok: "players_ok T" and T: "T p = Some t" "T q = Some u" "p \<noteq> q"
    and only: "\<And>r. tradePartner t = Some r \<Longrightarrow> r = q" "\<And>r. tradePartner u = Some r \<Longrightarrow> r = p"
    and new: "pok (T(p \<mapsto> t', q \<mapsto> u')) p t'" "pok (T(p \<mapsto> t', q \<mapsto> u')) q u'"
  shows "players_ok (T(p \<mapsto> t', q \<mapsto> u'))"
  unfolding players_ok_def
proof (intro allI impI)
  fix r v
  assume v: "(T(p \<mapsto> t', q \<mapsto> u')) r = Some v"
  show "pok (T(p \<mapsto> t', q \<mapsto> u')) r v"
  proof (cases "r = p \<or> r = q")
    case True
    then show ?thesis using v new T(3) by auto
  next
    case False
    then have rv: "T r = Some v" using v by simp
    then have okv: "pok T r v" using ok by (simp add: players_ok_def)
    have "tradePartner v \<noteq> Some p" "tradePartner v \<noteq> Some q"
      using okv T False only by (auto simp: pok_def)
    with okv show ?thesis by (auto simp: pok_def)
  qed
qed

text \<open>What an accepted request does to both players.\<close>

definition offering :: "nat \<Rightarrow> nat \<Rightarrow> trader" where
  "offering q i = \<lparr>tradeState = TRADE_INITIATED, tradePartner = Some q, tradeItem = Some i\<rparr>"

definition approached :: "nat \<Rightarrow> trader \<Rightarrow> trader" where
  "approached p u = (if tradeState u = TRADE_NONE
                     then u\<lparr>tradeState := TRADE_ACKNOWLEDGE, tradePartner := Some p\<rparr> else u)"

lemma start_eq:
  assumes T: "traders w p = Some t" "traders w q = Some u" "p \<noteq> q"
    and go: "tradeState t = TRADE_NONE \<or> tradeState t = TRADE_ACKNOWLEDGE \<and> tradePartner t = Some q"
      "tradeState u = TRADE_NONE \<or> tradePartner u = Some p"
  shows "traders (fst (internalStartTrade p q i w)) = (traders w)(p \<mapsto> offering q i, q \<mapsto> approached p u)"
    and "tradeItems (fst (internalStartTrade p q i w)) = (i, p) # filter (\<lambda>(j, r). j \<noteq> i) (tradeItems w)"
    and "snd (internalStartTrade p q i w)"
  using assms
  by (auto simp: internalStartTrade_def tr_Some tr_upd Let_def offering_def approached_def fun_eq_iff
      split: option.splits)

lemma start_refused:
  assumes T: "traders w p = Some t" "traders w q = Some u"
    and go: "\<not> ((tradeState t = TRADE_NONE \<or> tradeState t = TRADE_ACKNOWLEDGE \<and> tradePartner t = Some q) \<and>
      (tradeState u = TRADE_NONE \<or> tradePartner u = Some p))"
  shows "traders (fst (internalStartTrade p q i w)) = traders w"
    and "tradeItems (fst (internalStartTrade p q i w)) = tradeItems w"
    and "\<not> snd (internalStartTrade p q i w)"
  using assms by (auto simp: internalStartTrade_def tr_Some Let_def)

lemma start_inv:
  assumes inv: "trade_inv s w" and T: "traders w p = Some t" "traders w q = Some u" "p \<noteq> q"
    and new: "\<And>j r. (j, r) \<in> set (tradeItems w) \<Longrightarrow>
                i \<noteq> j \<and> (i, j) \<notin> (inside s)\<^sup>+ \<and> (j, i) \<notin> (inside s)\<^sup>+" "(i, i) \<notin> (inside s)\<^sup>+"
  shows "trade_inv s (fst (internalStartTrade p q i w))"
proof (cases "(tradeState t = TRADE_NONE \<or> tradeState t = TRADE_ACKNOWLEDGE \<and> tradePartner t = Some q) \<and>
      (tradeState u = TRADE_NONE \<or> tradePartner u = Some p)")
  case False
  then show ?thesis using inv start_refused [OF T(1,2) False] by (simp add: trade_inv_def)
next
  case True
  then have go: "tradeState t = TRADE_NONE \<or> tradeState t = TRADE_ACKNOWLEDGE \<and> tradePartner t = Some q"
    "tradeState u = TRADE_NONE \<or> tradePartner u = Some p" by auto
  have ok: "players_ok (traders w)" and off: "offers_ok (traders w) (set (tradeItems w))"
    and ap: "apart s (set (tradeItems w))" using inv by (simp_all add: trade_inv_def)
  have pt: "pok (traders w) p t" and qu: "pok (traders w) q u"
    using ok T by (simp_all add: players_ok_def)
  have both: "tradePartner t = Some q \<longleftrightarrow> tradePartner u = Some p"
    using pt qu T(1,2) by (auto simp: pok_def)
  have noitem: "tradeItem t = None" using go(1) pt by (auto simp: pok_def)
  have only: "\<And>r. tradePartner t = Some r \<Longrightarrow> r = q" "\<And>r. tradePartner u = Some r \<Longrightarrow> r = p"
    using go pt qu by (auto simp: pok_def)
  let ?T = "(traders w)(p \<mapsto> offering q i, q \<mapsto> approached p u)"
  have 1: "pok ?T p (offering q i)" "pok ?T q (approached p u)"
    using T(3) go both pt qu by (auto simp: pok_def offering_def approached_def)
  have off': "(j, r) \<in> insert (i, p) (set (tradeItems w)) \<longleftrightarrow> (\<exists>v. ?T r = Some v \<and> tradeItem v = Some j)" for j r
  proof -
    have "(j, r) \<in> set (tradeItems w) \<longleftrightarrow> (\<exists>v. traders w r = Some v \<and> tradeItem v = Some j)"
      using off by (simp add: offers_ok_def)
    then show ?thesis using T noitem by (auto simp: offering_def approached_def)
  qed
  have same: "set ((i, p) # filter (\<lambda>(j, r). j \<noteq> i) (tradeItems w)) = insert (i, p) (set (tradeItems w))"
    using new(1) by auto
  have "apart s (insert (i, p) (set (tradeItems w)))"
    using ap new unfolding apart_def insert_iff prod.inject by metis
  then show ?thesis
    using players_ok_pair [where T = "traders w", OF ok T only 1] off' start_eq(1,2) [OF T go]
    unfolding trade_inv_def same offers_ok_def by (simp only: same) blast
qed

lemma no_conflict:
  assumes E: "store_inv E s" and ok: "\<not> in_conflict s i offers" and j: "(j, r) \<in> set offers"
  shows "i \<noteq> j \<and> (i, j) \<notin> (inside s)\<^sup>+ \<and> (j, i) \<notin> (inside s)\<^sup>+"
proof -
  have holds: "isHoldingItem s a b = Some ((a, b) \<in> (inside s)\<^sup>+)" for a b
    using iterator_exact [OF E, of a] by blast
  have empty: "cont_of s a = None \<Longrightarrow> (a, b) \<notin> (inside s)\<^sup>+" for a b
  proof
    assume "cont_of s a = None" "(a, b) \<in> (inside s)\<^sup>+"
    then obtain c where "(a, c) \<in> inside s" by (auto dest: tranclD)
    then have "c \<in> set (items_of s a)" using forest_linkedD(1) [OF store_invD(2) [OF E]] by blast
    with \<open>cont_of s a = None\<close> show False by (simp add: items_of_def)
  qed
  have "\<not> (i = j \<or> cont_of s i \<noteq> None \<and> (i, j) \<in> (inside s)\<^sup>+ \<or> cont_of s j \<noteq> None \<and> (j, i) \<in> (inside s)\<^sup>+)"
    using ok j unfolding in_conflict_def list_ex_iff holds by auto
  then show ?thesis using empty by blast
qed

lemma request_inv:
  assumes E: "store_inv E s" and inv: "trade_inv s w"
  shows "trade_inv s (playerRequestTrade s rq p q w)"
proof -
  have told: "trade_inv s (tell p m w)" for m using inv by (simp add: trade_inv_def)
  have "trade_inv s (fst (internalStartTrade p q i w))"
    if "traders w p = Some t" "traders w q = Some u" "q \<noteq> p" "\<not> in_conflict s i (tradeItems w)" for t u i
    using start_inv [OF inv that(1,2) that(3) [symmetric]] no_conflict [OF E that(4)]
      wf_not_refl [OF wf_trancl [OF store_invD(3) [OF E]]] by blast
  then show ?thesis
    using told inv by (auto simp: playerRequestTrade_def split: option.splits)
qed

section \<open>Accepting a trade\<close>

lemma accept_one:
  assumes inv: "trade_inv s w" and T: "traders w p = Some t" "tradePartner t = Some q" "traders w q = Some u"
    and st: "tradeState u \<noteq> TRADE_ACCEPT"
  shows "trade_inv s (set_state p TRADE_ACCEPT w)"
proof -
  let ?t = "t\<lparr>tradeState := TRADE_ACCEPT\<rparr>"
  have ok: "players_ok (traders w)" and off: "offers_ok (traders w) (set (tradeItems w))"
    using inv by (simp_all add: trade_inv_def)
  have pt: "pok (traders w) p t" and qu: "pok (traders w) q u"
    using ok T by (simp_all add: players_ok_def)
  have pq: "p \<noteq> q" and mutual: "tradePartner u = Some p" using pt T by (auto simp: pok_def)
  have eq: "(traders w)(p \<mapsto> ?t, q \<mapsto> u) = (traders w)(p \<mapsto> ?t)" using T(3) pq by (auto simp: fun_eq_iff)
  have "players_ok ((traders w)(p \<mapsto> ?t, q \<mapsto> u))"
    using T pt qu pq mutual st
    by (intro players_ok_pair [where T = "traders w", OF ok T(1,3) pq]) (auto simp: pok_def)
  moreover have "offers_ok ((traders w)(p \<mapsto> ?t)) (set (tradeItems w))"
    using off T(1) by (auto simp: offers_ok_def)
  ultimately show ?thesis using inv T(1) unfolding eq by (simp add: trade_inv_def set_state_def)
qed

lemma exchange_frame:
  "traders (fst (exchange a p q x y w)) = traders w" "tradeItems (fst (exchange a p q x y w)) = tradeItems w"
  by (simp_all add: exchange_def Let_def)

lemma accept_both_eq:
  assumes T: "traders w p = Some t" "tradePartner t = Some q" "traders w q = Some u" "p \<noteq> q"
    and st: "tradeState t = TRADE_ACKNOWLEDGE \<or> tradeState t = TRADE_INITIATED" "tradeState u = TRADE_ACCEPT"
    and mutual: "tradePartner u = Some p" and go: "ac_reachable a"
  shows "traders (playerAcceptTrade a p w) = parted (traders w) p q"
    and "set (tradeItems (playerAcceptTrade a p w)) =
           {(j, r) \<in> set (tradeItems w). Some j \<noteq> tradeItem t \<and> Some j \<noteq> tradeItem u}"
proof -
  let ?w = "set_state p TRADE_ACCEPT w"
  have w: "traders ?w p = Some (t\<lparr>tradeState := TRADE_ACCEPT\<rparr>)" "traders ?w q = Some u"
    "tradeItems ?w = tradeItems w"
    using T by (simp_all add: set_state_def)
  have trs: "tr w p = t" "tr ?w p = t\<lparr>tradeState := TRADE_ACCEPT\<rparr>" "tr ?w q = u"
    using T w by (simp_all add: tr_def)
  note closed = close_eq [OF w(1) _ w(2) T(4), unfolded trader.select_convs]
  have refuse: "playerAcceptTrade a p w = internalCloseTrade p ?w" if "\<not> ac_script a"
    using that T st go by (auto simp: playerAcceptTrade_def trs Let_def)
  have done1: "traders (playerAcceptTrade a p w) = parted (traders w) p q \<and>
      set (tradeItems (playerAcceptTrade a p w)) =
           {(j, r) \<in> set (tradeItems w). Some j \<noteq> tradeItem t \<and> Some j \<noteq> tradeItem u}" if "ac_script a"
  proof -
    let ?w1 = "erase_offer (tradeItem u) (erase_offer (tradeItem t)
      (set_state q TRADE_TRANSFER (set_state p TRADE_TRANSFER ?w)))"
    obtain w2 b r1 r2 where x: "exchange a p q (tradeItem t) (tradeItem u) ?w1 = (w2, b, r1, r2)"
      by (metis prod_cases4)
    have w2: "traders w2 = traders ?w1" "tradeItems w2 = tradeItems ?w1"
      using exchange_frame [of a p q "tradeItem t" "tradeItem u" ?w1] by (simp_all add: x)
    have fail: "traders (tell_failure r m v) = traders v" "tradeItems (tell_failure r m v) = tradeItems v" for r m v
      by (simp_all add: tell_failure_def)
    have "playerAcceptTrade a p w =
        end_trade q (end_trade p (if b then w2 else tell_failure p r2 (tell_failure q r1 w2)))"
      using that T st go x by (auto simp: playerAcceptTrade_def trs Let_def)
    then show ?thesis
      using T by (auto simp: end_trade_def fail w2 parted_def set_state_def fun_eq_iff)
  qed
  show "traders (playerAcceptTrade a p w) = parted (traders w) p q"
    "set (tradeItems (playerAcceptTrade a p w)) =
           {(j, r) \<in> set (tradeItems w). Some j \<noteq> tradeItem t \<and> Some j \<noteq> tradeItem u}"
  proof -
    have "parted (traders ?w) p q = parted (traders w) p q" by (simp add: set_state_def parted_def)
    then show "traders (playerAcceptTrade a p w) = parted (traders w) p q"
      "set (tradeItems (playerAcceptTrade a p w)) =
           {(j, r) \<in> set (tradeItems w). Some j \<noteq> tradeItem t \<and> Some j \<noteq> tradeItem u}"
      using done1 refuse closed T(2) st(2) w(3) by (cases "ac_script a"; simp)+
  qed
qed

lemma accept_inv:
  assumes inv: "trade_inv s w"
  shows "trade_inv s (playerAcceptTrade a p w)"
proof -
  have told: "trade_inv s (tell p m w)" for m using inv by (simp add: trade_inv_def)
  have ok: "players_ok (traders w)" using inv by (simp add: trade_inv_def)
  have "trade_inv s (playerAcceptTrade a p w)"
    if T: "traders w p = Some t" "tradePartner t = Some q" and go: "ac_reachable a"
      and st: "tradeState t = TRADE_ACKNOWLEDGE \<or> tradeState t = TRADE_INITIATED" for t q
  proof -
    obtain u where u: "traders w q = Some u" "tradePartner u = Some p" "q \<noteq> p"
      using partner_obt [where T = "traders w", OF ok T] by blast
    show ?thesis
    proof (cases "tradeState u = TRADE_ACCEPT")
      case True
      note eq = accept_both_eq [OF T u(1) u(3) [symmetric] st True u(2) go]
      show ?thesis
        using inv parted_ok [where T = "traders w", OF _ T] parted_offers [where T = "traders w", OF _ _ T(1) u(1)]
        unfolding trade_inv_def eq by blast
    next
      case False
      have "tr (set_state p TRADE_ACCEPT w) q = u" using u(1,3) by (simp add: tr_def set_state_def)
      then have "playerAcceptTrade a p w = set_state p TRADE_ACCEPT w"
        using T st go False by (auto simp: playerAcceptTrade_def tr_Some Let_def)
      then show ?thesis using accept_one [OF inv T u(1) False] by simp
    qed
  qed
  then show ?thesis
    using told inv by (auto simp: playerAcceptTrade_def tr_def no_trade_def split: option.splits)
qed

section \<open>The other handlers\<close>

lemma moved_inv: "trade_inv s w \<Longrightarrow> trade_inv s (onPlayerMoved b c p w)"
  by (auto simp: onPlayerMoved_def Let_def intro: close_inv)

text \<open>In a well-founded forest the walk from an item to its holders ends.\<close>

lemma holder_walk_ends:
  assumes "wf (inside s)"
  shows "\<exists>b. holder_walk s i c = Some b"
proof (cases c)
  case (Some x)
  have "\<exists>b. holder_walk s i (Some x) = Some b"
    using assms
  proof (induction x rule: wf_induct_rule)
    case (less x)
    then show ?case
      by (cases "getParentContainer s x") (auto simp: inside_def holder_walk.simps [of _ _ "Some x"] holder_walk.simps [of _ _ None])
  qed
  with Some show ?thesis by simp
next
  case None
  have "holder_walk s i None = Some False" by (simp add: holder_walk.simps)
  with None show ?thesis by blast
qed

lemma checkTradeState_returns: "wf (inside s) \<Longrightarrow> checkTradeState s p i w \<noteq> None"
  using holder_walk_ends by (fastforce simp: checkTradeState_def split: option.split)

lemma changed_inv: "trade_inv s w \<Longrightarrow> checkTradeState s' p i w = Some w' \<Longrightarrow> trade_inv s w'"
  by (auto simp: checkTradeState_def intro: close_inv split: option.splits if_splits)

lemma login_inv:
  assumes inv: "trade_inv s w"
  shows "trade_inv s (trader_login p w)"
proof (cases "traders w p")
  case None
  let ?T = "(traders w)(p \<mapsto> no_trade)"
  have "pok ?T r v" if "?T r = Some v" for r v
  proof (cases "r = p")
    case True
    with that show ?thesis by (simp add: no_trade_ok)
  next
    case False
    then have "pok (traders w) r v" using inv that by (simp add: trade_inv_def players_ok_def)
    then show ?thesis using None by (auto simp: pok_def)
  qed
  then have "players_ok ?T" by (simp add: players_ok_def)
  moreover have "offers_ok ?T (set (tradeItems w))"
    using inv None by (auto simp: trade_inv_def offers_ok_def no_trade_def)
  ultimately show ?thesis using inv None by (simp add: trade_inv_def trader_login_def)
qed (use inv in \<open>simp add: trader_login_def\<close>)

lemma logout_inv:
  assumes inv: "trade_inv s w"
  shows "trade_inv s (trader_logout p w)"
proof -
  define w' where "w' = (if tradePartner (tr w p) \<noteq> None then internalCloseTrade p w else w)"
  have inv': "trade_inv s w'" using inv close_inv by (simp add: w'_def)
  have rest: "traders w' p = None \<or> traders w' p = Some no_trade"
  proof (cases "traders w p")
    case None
    then show ?thesis by (simp add: w'_def tr_def no_trade_def)
  next
    case (Some t)
    have ok: "players_ok (traders w)" using inv by (simp add: trade_inv_def)
    show ?thesis
    proof (cases "tradePartner t")
      case None
      have "pok (traders w) p t" using ok Some by (simp add: players_ok_def)
      then have "tradeState t = TRADE_NONE" using None by (simp add: pok_def)
      with free_trader [OF ok Some] show ?thesis using Some None by (simp add: w'_def tr_def)
    next
      case q: (Some q)
      obtain u where u: "traders w q = Some u" "q \<noteq> p" "tradeState t \<noteq> TRADE_TRANSFER"
        "tradeState u \<noteq> TRADE_TRANSFER"
        using partner_obt [where T = "traders w", OF ok Some q] by blast
      have "traders w' = parted (traders w) p q"
        using close_eq(1) [OF Some q u(1) u(2) [symmetric] u(3,4)] Some q by (simp add: w'_def tr_def)
      then show ?thesis using u(2) by (simp add: parted_def)
    qed
  qed
  let ?T = "(traders w')(p := None)"
  have "pok ?T r v" if "?T r = Some v" for r v
  proof -
    have rv: "r \<noteq> p" "traders w' r = Some v" using that by (auto split: if_splits)
    then have okv: "pok (traders w') r v" using inv' by (simp add: trade_inv_def players_ok_def)
    then have "tradePartner v \<noteq> Some p" using rest by (auto simp: pok_def no_trade_def)
    with okv show ?thesis by (auto simp: pok_def)
  qed
  then have "players_ok ?T" by (simp add: players_ok_def)
  moreover have "offers_ok ?T (set (tradeItems w'))"
    using inv' rest by (auto simp: trade_inv_def offers_ok_def no_trade_def)
  moreover have "trader_logout p w = w'\<lparr>traders := ?T\<rparr>"
    by (simp only: trader_logout_def w'_def Let_def)
  ultimately show ?thesis using inv' by (simp add: trade_inv_def)
qed

lemma step_inv: "store_inv E s \<Longrightarrow> trade_inv s w \<Longrightarrow> trade_inv s (trade_step s a w)"
  by (cases a) (auto intro: request_inv accept_inv close_inv moved_inv login_inv logout_inv
      dest: changed_inv simp: playerCloseTrade_def split: option.split)

end
