(* ===== verification/TradeTheorems.thy ===== *)
theory TradeTheorems imports TradeProps begin

text \<open>
  The properties of the trade protocol: the pairing of the players and the table of
  offers after any sequence of handlers, offers that never contain each other, what a
  trade accepted by both does, and an acceptance that outlives the offer it was given for.
\<close>

section \<open>Any sequence of handlers\<close>

text \<open>
  A forest without items: its invariant only says that no item is offered twice, and it
  is kept whatever the forest is at the time of each request.
\<close>

definition bare :: store where "bare = (\<lambda>_. None)"

lemma bare_inside: "inside bare = {}"
  by (simp add: bare_def inside_def getParentContainer_def getParent_def)

lemma bare_step: "trade_inv bare w \<Longrightarrow> trade_inv bare (trade_step s a w)"
proof (cases a)
  case (Request rq p q)
  assume inv: "trade_inv bare w"
  have told: "trade_inv bare (tell p m w)" for m using inv by (simp add: trade_inv_def)
  have "trade_inv bare (fst (internalStartTrade p q i w))"
    if "traders w p = Some t" "traders w q = Some u" "q \<noteq> p" "\<not> in_conflict s i (tradeItems w)" for t u i
    using that(4) by (intro start_inv [OF inv that(1,2) that(3) [symmetric]])
      (auto simp: bare_inside in_conflict_def list_ex_iff)
  then show ?thesis
    using told inv by (auto simp: Request playerRequestTrade_def split: option.splits)
qed (auto intro: accept_inv close_inv moved_inv login_inv logout_inv
      dest: changed_inv simp: playerCloseTrade_def split: option.split)

interpretation trades: step_machine "\<lambda>(s, a). trade_step s a" "trade_inv bare"
  by unfold_locales (auto intro: bare_step)

lemma quiet_inv: "trade_inv s quiet_world"
  by (simp add: trade_inv_def quiet_world_def players_ok_def offers_ok_def apart_def)

lemma bare_unique: "trade_inv bare w \<Longrightarrow> single_valued (set (tradeItems w))"
  by (auto simp: trade_inv_def apart_def single_valued_def)

text \<open>
  C19. However the handlers of requests, acceptances, closing, movement, changed items,
  login and logout follow each other, and whatever containers and scripts answer, trades
  stay paired: a player is without a partner exactly at rest and then offers nothing, partners point at each
  other, are both online and different, one of them offers an item, they never both rest in
  the accepted state and nobody rests in the transfer state; the table of offers holds
  exactly the items the players offer, none of them for two players.
\<close>

theorem trade_partners_agree:
  "players_ok (traders (fold (\<lambda>(s, a). trade_step s a) ops quiet_world)) \<and>
   offers_ok (traders (fold (\<lambda>(s, a). trade_step s a) ops quiet_world))
     (set (tradeItems (fold (\<lambda>(s, a). trade_step s a) ops quiet_world))) \<and>
   single_valued (set (tradeItems (fold (\<lambda>(s, a). trade_step s a) ops quiet_world)))"
  using trades.run_inv [OF quiet_inv, of ops] bare_unique unfolding trade_inv_def by blast

section \<open>Offers never contain each other\<close>

lemma run_apart: "store_inv E s \<Longrightarrow> trade_inv s w \<Longrightarrow> trade_inv s (fold (trade_step s) ops w)"
  by (induction ops arbitrary: w) (auto intro: step_inv)

text \<open>
  As long as the containers stay as they are, of all the items on offer none lies,
  at any depth, in a container that is on offer too.
\<close>

theorem offers_never_nested:
  assumes "store_inv E s"
    and "(i, p) \<in> set (tradeItems (fold (trade_step s) ops quiet_world))"
    and "(j, q) \<in> set (tradeItems (fold (trade_step s) ops quiet_world))"
  shows "(i, j) \<notin> (inside s)\<^sup>+"
  using run_apart [OF assms(1) quiet_inv, of ops] assms(2,3) unfolding trade_inv_def apart_def by blast

definition good_request :: "nat \<Rightarrow> trade_request" where
  "good_request i = \<lparr>rq_inRange = True, rq_reachable = True, rq_thing = Some i, rq_suitable = True,
     rq_sameFloor = True, rq_near = True, rq_path = True, rq_script = True\<rparr>"

text \<open>A coin in the inner bag is on offer; offering the whole bag in return is refused.\<close>

definition bag_trade :: "trade_op list" where
  "bag_trade = [Login 1, Login 2, Request (good_request 4) 1 2, Request (good_request 3) 2 1]"

lemma bag_trade_offers: "tradeItems (fold (trade_step shop) (bag_trade @ [Request (good_request 5) 2 1]) quiet_world) =
  [(5, 2), (4, 1)]"
proof -
  have "(3, 4) \<in> (inside shop)\<^sup>+" by (simp add: shop_inside r_into_trancl)
  then have "isHoldingItem shop 3 4 = Some True" using iterator_exact [OF shop_inv, of 3] by metis
  then show ?thesis
    by (simp add: bag_trade_def quiet_world_def trader_login_def playerRequestTrade_def good_request_def
        in_conflict_def too_many_def shop_values internalStartTrade_def no_trade_def tr_def upd_trader_def
        put_offer_def tell_def Let_def)
qed

theorem offers_never_nested_witness:
  "(5, 2) \<in> set (tradeItems (fold (trade_step shop) (bag_trade @ [Request (good_request 5) 2 1]) quiet_world)) \<and>
   (4, 1) \<in> set (tradeItems (fold (trade_step shop) (bag_trade @ [Request (good_request 5) 2 1]) quiet_world)) \<and>
   (5, 4) \<notin> (inside shop)\<^sup>+"
  using offers_never_nested [OF shop_inv, of 5 2 "bag_trade @ [Request (good_request 5) 2 1]" 4 1]
  by (simp only: bag_trade_offers) simp

section \<open>What a trade does\<close>

definition moves_of :: "trade_answers \<Rightarrow> nat \<Rightarrow> nat \<Rightarrow> nat option \<Rightarrow> nat option \<Rightarrow> (nat \<times> nat) list" where
  "moves_of a p q item1 item2 =
     (case (item1, item2) of
        (Some x, Some y) \<Rightarrow>
          if ac_add1 a = RETURNVALUE_NOERROR \<and> ac_add2 a = RETURNVALUE_NOERROR \<and>
             ac_remove1 a = RETURNVALUE_NOERROR \<and> ac_remove2 a = RETURNVALUE_NOERROR \<and>
             ac_move1 a = RETURNVALUE_NOERROR
          then (x, q) # (if ac_move2 a = RETURNVALUE_NOERROR then [(y, p)] else [])
          else []
      | _ \<Rightarrow> [])"

lemma tradeMoves_simps [simp]:
  "tradeMoves (upd_trader p f w) = tradeMoves w" "tradeMoves (tell p m w) = tradeMoves w"
  "tradeMoves (erase_offer x w) = tradeMoves w" "tradeMoves (put_offer i p w) = tradeMoves w"
  "tradeMoves (set_state p st w) = tradeMoves w" "tradeMoves (end_trade p w) = tradeMoves w"
  "tradeMoves (tell_failure p r w) = tradeMoves w"
  by (simp_all add: upd_trader_def tell_def erase_offer_def put_offer_def set_state_def end_trade_def
      tell_failure_def)

lemma exchange_moves:
  "tradeMoves (fst (exchange a p q x y w)) = tradeMoves w @ moves_of a p q x y"
  by (cases x; cases y) (auto simp: exchange_def moves_of_def hand_over_def Let_def)

lemma accept_moves:
  assumes T: "traders w p = Some t" "tradePartner t = Some q" "traders w q = Some u" "p \<noteq> q"
    and st: "tradeState t = TRADE_ACKNOWLEDGE \<or> tradeState t = TRADE_INITIATED" "tradeState u = TRADE_ACCEPT"
    and go: "ac_reachable a" "ac_script a"
  shows "tradeMoves (playerAcceptTrade a p w) = tradeMoves w @ moves_of a p q (tradeItem t) (tradeItem u)"
proof -
  let ?w = "set_state p TRADE_ACCEPT w"
  have w: "traders ?w p = Some (t\<lparr>tradeState := TRADE_ACCEPT\<rparr>)" "traders ?w q = Some u"
    using T by (simp_all add: set_state_def)
  have trs: "tr w p = t" "tr ?w p = t\<lparr>tradeState := TRADE_ACCEPT\<rparr>" "tr ?w q = u"
    using T w by (simp_all add: tr_def)
  let ?w1 = "erase_offer (tradeItem u) (erase_offer (tradeItem t)
    (set_state q TRADE_TRANSFER (set_state p TRADE_TRANSFER ?w)))"
  obtain w2 b r1 r2 where x: "exchange a p q (tradeItem t) (tradeItem u) ?w1 = (w2, b, r1, r2)"
    by (metis surj_pair)
  have "playerAcceptTrade a p w =
      end_trade q (end_trade p (if b then w2 else tell_failure p r2 (tell_failure q r1 w2)))"
    using T st go x by (auto simp: playerAcceptTrade_def trs Let_def)
  then show ?thesis
    using exchange_moves [of a p q "tradeItem t" "tradeItem u" ?w1] by (simp add: x)
qed

text \<open>
  C20. When the second of two partners accepts, in sight of the other and with the
  script's consent, both are at rest afterwards and both offers are off the table.
  Items are handed over exactly when both offer one and every test and the first move
  succeed: the acceptor's item to the partner, and the partner's item to the acceptor
  unless the second move, whose result is not looked at, fails. Otherwise nothing moves.
\<close>

theorem accepted_by_both:
  assumes "trade_inv s w" "traders w p = Some t" "tradePartner t = Some q" "traders w q = Some u"
    and "tradeState t = TRADE_ACKNOWLEDGE \<or> tradeState t = TRADE_INITIATED" "tradeState u = TRADE_ACCEPT"
    and "ac_reachable a" "ac_script a"
  shows "tr (playerAcceptTrade a p w) p = no_trade \<and> tr (playerAcceptTrade a p w) q = no_trade \<and>
    set (tradeItems (playerAcceptTrade a p w)) =
      {(j, r) \<in> set (tradeItems w). Some j \<noteq> tradeItem t \<and> Some j \<noteq> tradeItem u} \<and>
    tradeMoves (playerAcceptTrade a p w) = tradeMoves w @
      (if tradeItem t \<noteq> None \<and> tradeItem u \<noteq> None \<and>
          [ac_add1 a, ac_add2 a, ac_remove1 a, ac_remove2 a, ac_move1 a] = replicate 5 RETURNVALUE_NOERROR
       then (the (tradeItem t), q) # (if ac_move2 a = RETURNVALUE_NOERROR then [(the (tradeItem u), p)] else [])
       else [])"
proof -
  have ok: "players_ok (traders w)" using assms(1) by (simp add: trade_inv_def)
  have u: "tradePartner u = Some p" "p \<noteq> q"
    using partner_obt [where T = "traders w", OF ok assms(2,3)] assms(4) by auto
  note eq = accept_both_eq [OF assms(2,3,4) u(2) assms(5,6) u(1) assms(7)]
  show ?thesis
    using u(2) eq accept_moves [OF assms(2,3,4) u(2) assms(5-8)]
    by (auto simp: tr_def parted_def moves_of_def numeral_eq_Suc split: option.split)
qed

section \<open>An acceptance without an offer\<close>

definition willing :: trade_answers where
  "willing = \<lparr>ac_reachable = True, ac_script = True, ac_add1 = RETURNVALUE_NOERROR,
     ac_add2 = RETURNVALUE_NOERROR, ac_remove1 = RETURNVALUE_NOERROR, ac_remove2 = RETURNVALUE_NOERROR,
     ac_move1 = RETURNVALUE_NOERROR, ac_move2 = RETURNVALUE_NOERROR\<rparr>"

definition coin_trade :: "trade_op list" where
  "coin_trade = [Login 1, Login 2, Request (good_request 4) 1 2, Accept willing 1, Request (good_request 5) 2 1]"

lemmas trade_eval = quiet_world_def trader_login_def playerRequestTrade_def good_request_def
  in_conflict_def too_many_def shop_values internalStartTrade_def no_trade_def tr_def upd_trader_def
  put_offer_def tell_def Let_def playerAcceptTrade_def willing_def set_state_def

lemma coin_trade_state:
  "traders (fold (trade_step shop) coin_trade quiet_world) 1 =
     Some \<lparr>tradeState = TRADE_ACCEPT, tradePartner = Some 2, tradeItem = Some 4\<rparr>"
  "traders (fold (trade_step shop) coin_trade quiet_world) 2 =
     Some \<lparr>tradeState = TRADE_INITIATED, tradePartner = Some 1, tradeItem = Some 5\<rparr>"
  "tradeMoves (fold (trade_step shop) coin_trade quiet_world) = []"
  by (simp_all add: coin_trade_def trade_eval)

theorem accepted_by_both_witness:
  "tradeMoves (playerAcceptTrade willing 2 (fold (trade_step shop) coin_trade quiet_world)) = [(5, 1), (4, 2)] \<and>
   tr (playerAcceptTrade willing 2 (fold (trade_step shop) coin_trade quiet_world)) 1 = no_trade"
proof -
  have inv: "trade_inv shop (fold (trade_step shop) coin_trade quiet_world)"
    by (intro run_apart [OF shop_inv] quiet_inv)
  show ?thesis
    using accepted_by_both [OF inv coin_trade_state(2) _ , of 1 _ willing] coin_trade_state
    by (simp add: willing_def numeral_eq_Suc)
qed

text \<open>
  A player may accept before the partner has offered anything, and the acceptance
  is not taken back when the offer arrives: whatever item the partner then offers, the
  partner's own acceptance hands both items over.
\<close>

theorem acceptance_outlives_offer:
  assumes "traders w p = Some no_trade" "traders w q = Some no_trade" "p \<noteq> q" "tradeItems w = []"
    and "i \<noteq> j" "cont_of s i = None" "cont_of s j = None"
  shows "let w1 = playerAcceptTrade willing p (playerRequestTrade s (good_request i) p q w) in
         tradeState (tr w1 p) = TRADE_ACCEPT \<and> tradeItem (tr w1 q) = None \<and>
         tradeMoves (playerAcceptTrade willing q (playerRequestTrade s (good_request j) q p w1)) =
           tradeMoves w @ [(j, p), (i, q)]"
proof -
  define w1 where "w1 = playerAcceptTrade willing p (playerRequestTrade s (good_request i) p q w)"
  define w2 where "w2 = playerRequestTrade s (good_request j) q p w1"
  have 1: "traders w1 p = Some \<lparr>tradeState = TRADE_ACCEPT, tradePartner = Some q, tradeItem = Some i\<rparr>"
    "traders w1 q = Some \<lparr>tradeState = TRADE_ACKNOWLEDGE, tradePartner = Some p, tradeItem = None\<rparr>"
    "tradeItems w1 = [(i, p)]" "tradeMoves w1 = tradeMoves w"
    using assms by (simp_all add: w1_def trade_eval)
  have 2: "traders w2 p = Some \<lparr>tradeState = TRADE_ACCEPT, tradePartner = Some q, tradeItem = Some i\<rparr>"
    "traders w2 q = Some \<lparr>tradeState = TRADE_INITIATED, tradePartner = Some p, tradeItem = Some j\<rparr>"
    "tradeMoves w2 = tradeMoves w"
    using assms(3,5-7) 1 by (simp_all add: w2_def trade_eval)
  have "tradeMoves (playerAcceptTrade willing q w2) = tradeMoves w @ [(j, p), (i, q)]"
    using accept_moves [OF 2(2) _ 2(1) assms(3) [symmetric]] 2(3)
    by (simp add: willing_def moves_of_def)
  then show ?thesis
    unfolding w1_def [symmetric] Let_def using 1 by (simp add: w2_def tr_def)
qed

theorem acceptance_outlives_offer_witness:
  "let w = fold (trade_step shop) [Login 1, Login 2] quiet_world;
       w1 = playerAcceptTrade willing 1 (playerRequestTrade shop (good_request 4) 1 2 w)
   in tradeItem (tr w1 2) = None \<and>
      tradeMoves (playerAcceptTrade willing 2 (playerRequestTrade shop (good_request 5) 2 1 w1)) = [(5, 1), (4, 2)]"
  using acceptance_outlives_offer [of "fold (trade_step shop) [Login 1, Login 2] quiet_world" 1 2 4 5 shop]
  by (simp add: Let_def quiet_world_def trader_login_def shop_values)

end
