(* ===== verification/Experience.thy ===== *)
theory Experience imports Prelude begin

text \<open>
  Levels, magic level and skills of a player (player.h, player.cpp, vocation.cpp and the
  part of iologindata.cpp that checks them at login). The integers keep their widths. What
  a script makes of an amount is an argument of the operation, and so is the powers'
  table of a vocation and the share lost by a death, which the code computes in floating
  point. Messages and the effects on other creatures are left out.
\<close>

type_synonym s32 = "32 word"

record vocation =
  gainHP :: u32
  gainMana :: u32
  gainCap :: u32
  voc_baseSpeed :: u32
  voc_none :: bool

record skill =
  sk_tries :: u64
  sk_level :: u16
  sk_percent :: u8

record magic =
  mg_level :: u32
  mg_spent :: u64
  mg_percent :: u8

record progress =
  pr_level :: u32
  pr_exp :: u64
  pr_levelPercent :: u8
  pr_health :: s32
  pr_healthMax :: s32
  pr_mana :: u32
  pr_manaMax :: u32
  pr_capacity :: u32
  pr_speed :: u32
  pr_maxSpeed :: bool
  pr_stamina :: u16
  pr_noExperience :: bool

section \<open>The requirements of a vocation\<close>

text \<open>
  Both tables are caches of a power computed in floating point, here \<open>pow_tries\<close> and
  \<open>pow_mana\<close>; the cache of the skills holds only 32 bits.
\<close>

definition SKILL_LAST :: nat where "SKILL_LAST = 6"

definition getReqSkillTries ::
  "(nat \<Rightarrow> u16 \<Rightarrow> u64) \<Rightarrow> nat \<Rightarrow> u16 \<Rightarrow> (nat \<Rightarrow> u16 \<rightharpoonup> u32) \<Rightarrow> u64 \<times> (nat \<Rightarrow> u16 \<rightharpoonup> u32)" where
  "getReqSkillTries pow_tries sk level cacheSkill =
     (if sk > SKILL_LAST then (0, cacheSkill)
      else case cacheSkill sk level of
             Some tries \<Rightarrow> (ucast tries, cacheSkill)
           | None \<Rightarrow> (let tries = pow_tries sk level
                     in (tries, cacheSkill(sk := (cacheSkill sk)(level \<mapsto> ucast tries)))))"

definition round_mana :: "u64 \<Rightarrow> u64" where
  "round_mana reqMana =
     (let modResult = ucast (reqMana mod 20) :: u32 in
      if modResult < 10 then reqMana - ucast modResult else reqMana - ucast (modResult + 20))"

definition getReqMana :: "(u32 \<Rightarrow> u64) \<Rightarrow> u32 \<Rightarrow> (u32 \<rightharpoonup> u64) \<Rightarrow> u64 \<times> (u32 \<rightharpoonup> u64)" where
  "getReqMana pow_mana magLevel cacheMana =
     (case cacheMana magLevel of
        Some m \<Rightarrow> (m, cacheMana)
      | None \<Rightarrow> (let m = round_mana (pow_mana magLevel) in (m, cacheMana(magLevel \<mapsto> m))))"

section \<open>Levels\<close>

definition getExpForLevel :: "u32 \<Rightarrow> u64" where
  "getExpForLevel lv =
     (let lv = scast (lv - 1) :: u64
      in ((50 * lv * lv * lv) - (150 * lv * lv) + (400 * lv)) div 3)"

definition getPercentLevel :: "u64 \<Rightarrow> u64 \<Rightarrow> u8" where
  "getPercentLevel count nextLevelCount =
     (if nextLevelCount = 0 then 0
      else let result = ucast ((count * 100) div nextLevelCount) :: u8
           in if result > 100 then 0 else result)"

definition max0 :: "s32 \<Rightarrow> s32" where
  "max0 x = (if x <s 0 then 0 else x)"

definition PLAYER_MAX_SPEED :: u32 where "PLAYER_MAX_SPEED = 1500"

definition updateBaseSpeed :: "vocation \<Rightarrow> progress \<Rightarrow> progress" where
  "updateBaseSpeed V p =
     p\<lparr>pr_speed := (if \<not> pr_maxSpeed p then voc_baseSpeed V + (2 * (pr_level p - 1)) else PLAYER_MAX_SPEED)\<rparr>"

definition level_up :: "vocation \<Rightarrow> progress \<Rightarrow> progress" where
  "level_up V p =
     p\<lparr>pr_level := pr_level p + 1,
       pr_healthMax := pr_healthMax p + gainHP V, pr_health := pr_health p + gainHP V,
       pr_manaMax := pr_manaMax p + gainMana V, pr_mana := pr_mana p + gainMana V,
       pr_capacity := pr_capacity p + gainCap V\<rparr>"

definition level_down :: "vocation \<Rightarrow> progress \<Rightarrow> progress" where
  "level_down V p =
     p\<lparr>pr_level := pr_level p - 1,
       pr_healthMax := max0 (pr_healthMax p - gainHP V),
       pr_manaMax := max0 (pr_manaMax p - gainMana V),
       pr_capacity := max0 (pr_capacity p - gainCap V)\<rparr>"

text \<open>The loop of \<open>addExperience\<close>, with the requirements of the present and the next level.\<close>

lemma word_climb:
  fixes n m :: "'a::len word"
  assumes "n < m"
  shows "2 ^ LENGTH('a) - unat m < 2 ^ LENGTH('a) - unat n"
proof -
  have "unat n < unat m" "unat m < 2 ^ LENGTH('a)" using assms by (simp_all add: word_less_nat_alt)
  then show ?thesis by linarith
qed

lemma word_descend:
  fixes n :: "'a::len word"
  assumes "1 < n"
  shows "unat (n - 1) < unat n"
proof -
  have "0 < unat n" using assms unfolding word_less_nat_alt by linarith
  moreover from this have "n \<noteq> 0" by auto
  ultimately show ?thesis by (simp add: unat_minus_one)
qed

function level_up_loop :: "vocation \<Rightarrow> u64 \<Rightarrow> u64 \<Rightarrow> progress \<Rightarrow> u64 \<times> u64 \<times> progress" where
  "level_up_loop V currLevelExp nextLevelExp p =
     (if pr_exp p \<ge> nextLevelExp then
        (let p = level_up V p;
             currLevelExp = nextLevelExp;
             nextLevelExp = getExpForLevel (pr_level p + 1)
         in if currLevelExp \<ge> nextLevelExp then (currLevelExp, nextLevelExp, p)
            else level_up_loop V currLevelExp nextLevelExp p)
      else (currLevelExp, nextLevelExp, p))"
  by pat_completeness auto
termination
  by (relation "measure (\<lambda>(V, c, n, p). 2 ^ 64 - unat n)")
    (auto simp: not_le intro!: word_climb [where 'a = 64, simplified])

declare level_up_loop.simps [simp del]

definition refresh_level :: "vocation \<Rightarrow> u32 \<Rightarrow> progress \<Rightarrow> progress" where
  "refresh_level V prevLevel p =
     (if prevLevel \<noteq> pr_level p
      then updateBaseSpeed V (p\<lparr>pr_health := pr_healthMax p, pr_mana := pr_manaMax p\<rparr>)
      else p)"

definition set_level_percent :: "u64 \<Rightarrow> u64 \<Rightarrow> progress \<Rightarrow> progress" where
  "set_level_percent currLevelExp nextLevelExp p =
     p\<lparr>pr_levelPercent := (if nextLevelExp > currLevelExp
        then getPercentLevel (pr_exp p - currLevelExp) (nextLevelExp - currLevelExp) else 0)\<rparr>"

definition addExperience :: "vocation \<Rightarrow> (u64 \<Rightarrow> u64) \<Rightarrow> u64 \<Rightarrow> progress \<Rightarrow> progress" where
  "addExperience V onGainExperience exp p =
     (let currLevelExp = getExpForLevel (pr_level p);
          nextLevelExp = getExpForLevel (pr_level p + 1) in
      if currLevelExp \<ge> nextLevelExp then p\<lparr>pr_levelPercent := 0\<rparr>
      else let exp = onGainExperience exp in
        if exp = 0 then p
        else case level_up_loop V currLevelExp nextLevelExp (p\<lparr>pr_exp := pr_exp p + exp\<rparr>) of
               (currLevelExp, nextLevelExp, p') \<Rightarrow>
                 set_level_percent currLevelExp nextLevelExp (refresh_level V (pr_level p) p'))"

function level_down_loop :: "vocation \<Rightarrow> progress \<Rightarrow> progress" where
  "level_down_loop V p =
     (if pr_level p > 1 \<and> pr_exp p < getExpForLevel (pr_level p)
      then level_down_loop V (level_down V p) else p)"
  by pat_completeness auto
termination
  by (relation "measure (\<lambda>(V, p). unat (pr_level p))")
    (auto simp: level_down_def intro: word_descend)

declare level_down_loop.simps [simp del]

definition refresh_percent :: "progress \<Rightarrow> progress" where
  "refresh_percent p =
     set_level_percent (getExpForLevel (pr_level p)) (getExpForLevel (pr_level p + 1)) p"

definition removeExperience :: "vocation \<Rightarrow> (u64 \<Rightarrow> u64) \<Rightarrow> u64 \<Rightarrow> progress \<Rightarrow> progress" where
  "removeExperience V onLoseExperience exp p =
     (if pr_exp p = 0 \<or> exp = 0 then p
      else let exp = onLoseExperience exp in
        if exp = 0 then p
        else let p' = level_down_loop V
                        (p\<lparr>pr_exp := (if (pr_exp p - exp) <s 0 then 0 else pr_exp p - exp)\<rparr>)
             in refresh_percent (refresh_level V (pr_level p) p'))"

definition gainExperience :: "vocation \<Rightarrow> (u64 \<Rightarrow> u64) \<Rightarrow> u64 \<Rightarrow> progress \<Rightarrow> progress" where
  "gainExperience V onGainExperience gainExp p =
     (if pr_noExperience p \<or> gainExp = 0 \<or> pr_stamina p = 0 then p
      else addExperience V onGainExperience gainExp p)"

text \<open>The levels lost by a death; \<open>expLoss\<close> is the amount the script settled on.\<close>

definition death_experience :: "vocation \<Rightarrow> u64 \<Rightarrow> progress \<Rightarrow> progress" where
  "death_experience V expLoss p =
     (if expLoss \<noteq> 0
      then refresh_percent (level_down_loop V
             (if voc_none V \<or> pr_level p > 7 then p\<lparr>pr_exp := pr_exp p - expLoss\<rparr> else p))
      else p)"

text \<open>At login the stored values are checked against each other.\<close>

definition load_level :: "u32 \<Rightarrow> u64 \<Rightarrow> progress \<Rightarrow> progress" where
  "load_level level experience p =
     (let level = max 1 level;
          currExpCount = getExpForLevel level;
          nextExpCount = getExpForLevel (level + 1);
          experience = (if experience < currExpCount \<or> experience > nextExpCount then currExpCount else experience)
      in set_level_percent currExpCount nextExpCount (p\<lparr>pr_level := level, pr_exp := experience\<rparr>))"

section \<open>Skills\<close>

text \<open>
  The loops of the advances: they return the rest of the amount, the requirements of the
  present and the next level, and the skill. A loop that runs forever is \<open>None\<close>.
\<close>

partial_function (option) skill_loop ::
  "(u16 \<Rightarrow> u64) \<Rightarrow> u64 \<Rightarrow> u64 \<Rightarrow> u64 \<Rightarrow> skill \<Rightarrow> (u64 \<times> u64 \<times> u64 \<times> skill) option" where
  "skill_loop req count currReqTries nextReqTries sk =
     (if sk_tries sk + count \<ge> nextReqTries then
        (let count = count - (nextReqTries - sk_tries sk);
             sk = \<lparr>sk_tries = 0, sk_level = sk_level sk + 1, sk_percent = 0\<rparr>;
             currReqTries = nextReqTries;
             nextReqTries = req (sk_level sk + 1)
         in if currReqTries \<ge> nextReqTries then Some (0, currReqTries, nextReqTries, sk)
            else skill_loop req count currReqTries nextReqTries sk)
      else Some (count, currReqTries, nextReqTries, sk))"

definition settle_skill :: "u64 \<times> u64 \<times> u64 \<times> skill \<Rightarrow> skill" where
  "settle_skill r =
     (case r of (count, currReqTries, nextReqTries, sk) \<Rightarrow>
        let sk = sk\<lparr>sk_tries := sk_tries sk + count\<rparr>
        in sk\<lparr>sk_percent := (if nextReqTries > currReqTries
                            then getPercentLevel (sk_tries sk) nextReqTries else 0)\<rparr>)"

definition addSkillAdvance :: "(u16 \<Rightarrow> u64) \<Rightarrow> (u64 \<Rightarrow> u64) \<Rightarrow> u64 \<Rightarrow> skill \<Rightarrow> skill option" where
  "addSkillAdvance req onGainSkillTries count sk =
     (let currReqTries = req (sk_level sk); nextReqTries = req (sk_level sk + 1) in
      if currReqTries \<ge> nextReqTries then Some sk
      else let count = onGainSkillTries count in
        if count = 0 then Some sk
        else map_option settle_skill (skill_loop req count currReqTries nextReqTries sk))"

text \<open>\<open>addOfflineTrainingTries\<close> for a skill: the same advance, after refusing no tries.\<close>

definition offline_skill :: "(u16 \<Rightarrow> u64) \<Rightarrow> (u64 \<Rightarrow> u64) \<Rightarrow> u64 \<Rightarrow> skill \<Rightarrow> (skill \<times> bool) option" where
  "offline_skill req onGainSkillTries tries sk =
     (if tries = 0 then Some (sk, False)
      else let currReqTries = req (sk_level sk); nextReqTries = req (sk_level sk + 1) in
        if currReqTries \<ge> nextReqTries then Some (sk, False)
        else map_option
          (\<lambda>r. let sk' = settle_skill r
               in (sk', sk_level sk' \<noteq> sk_level sk \<or> sk_percent sk' \<noteq> sk_percent (case r of (_, _, _, s) \<Rightarrow> s)))
          (skill_loop req (onGainSkillTries tries) currReqTries nextReqTries sk))"

section \<open>Magic level\<close>

text \<open>
  A magic skill is the level with the mana spent for the next. The loop of
  \<open>addManaSpent\<close> leaves the function at the highest level (\<open>Inl\<close>), before the mana is
  added and the percentage computed; that of the offline training goes on.
\<close>

partial_function (option) mana_loop ::
  "(u32 \<Rightarrow> u64) \<Rightarrow> u64 \<Rightarrow> u64 \<Rightarrow> u64 \<Rightarrow> magic \<Rightarrow> (magic + u64 \<times> u64 \<times> u64 \<times> magic) option" where
  "mana_loop req amount currReqMana nextReqMana m =
     (if mg_spent m + amount \<ge> nextReqMana then
        (let amount = amount - (nextReqMana - mg_spent m);
             m = m\<lparr>mg_level := mg_level m + 1, mg_spent := 0\<rparr>;
             currReqMana = nextReqMana;
             nextReqMana = req (mg_level m + 1)
         in if currReqMana \<ge> nextReqMana then Some (Inl m)
            else mana_loop req amount currReqMana nextReqMana m)
      else Some (Inr (amount, currReqMana, nextReqMana, m)))"

definition settle_magic :: "u64 \<times> u64 \<times> u64 \<times> magic \<Rightarrow> magic" where
  "settle_magic r =
     (case r of (amount, currReqMana, nextReqMana, m) \<Rightarrow>
        let m = m\<lparr>mg_spent := mg_spent m + amount\<rparr>
        in m\<lparr>mg_percent := (if nextReqMana > currReqMana
                            then getPercentLevel (mg_spent m) nextReqMana else 0)\<rparr>)"

definition addManaSpent :: "(u32 \<Rightarrow> u64) \<Rightarrow> bool \<Rightarrow> (u64 \<Rightarrow> u64) \<Rightarrow> u64 \<Rightarrow> magic \<Rightarrow> magic option" where
  "addManaSpent req noMana onGainSkillTries amount m =
     (if noMana then Some m
      else let currReqMana = req (mg_level m); nextReqMana = req (mg_level m + 1) in
        if currReqMana \<ge> nextReqMana then Some m
        else let amount = onGainSkillTries amount in
          if amount = 0 then Some m
          else map_option (\<lambda>r. case r of Inl m' \<Rightarrow> m' | Inr r \<Rightarrow> settle_magic r)
                 (mana_loop req amount currReqMana nextReqMana m))"

section \<open>Losses by a death\<close>

text \<open>All the mana and tries spent so far, as the code sums them up.\<close>

definition sum_mana :: "(u32 \<Rightarrow> u64) \<Rightarrow> magic \<Rightarrow> u64" where
  "sum_mana req m = sum_list (map (\<lambda>i. req (of_nat i)) [1..<Suc (unat (mg_level m))]) + mg_spent m"

definition sum_tries :: "(u16 \<Rightarrow> u64) \<Rightarrow> skill \<Rightarrow> u64" where
  "sum_tries req sk = sum_list (map (\<lambda>c. req (of_nat c)) [11..<Suc (unat (sk_level sk))]) + sk_tries sk"

function lose_mana_loop :: "(u32 \<Rightarrow> u64) \<Rightarrow> u64 \<Rightarrow> magic \<Rightarrow> u64 \<times> magic" where
  "lose_mana_loop req lostMana m =
     (if lostMana > mg_spent m \<and> mg_level m > 0
      then lose_mana_loop req (lostMana - mg_spent m)
             (m\<lparr>mg_spent := req (mg_level m), mg_level := mg_level m - 1\<rparr>)
      else (lostMana, m))"
  by pat_completeness auto
termination
  by (relation "measure (\<lambda>(req, l, m). unat (mg_level m))") (auto simp: unat_minus_one unat_gt_0)

declare lose_mana_loop.simps [simp del]

definition death_mana :: "(u32 \<Rightarrow> u64) \<Rightarrow> (u64 \<Rightarrow> u64) \<Rightarrow> magic \<Rightarrow> magic" where
  "death_mana req lost_share m =
     (case lose_mana_loop req (lost_share (sum_mana req m)) m of
        (lostMana, m) \<Rightarrow>
          let m = m\<lparr>mg_spent := mg_spent m - lostMana\<rparr>;
              nextReqMana = req (mg_level m + 1)
          in m\<lparr>mg_percent := (if nextReqMana > req (mg_level m)
                              then getPercentLevel (mg_spent m) nextReqMana else 0)\<rparr>)"

function lose_tries_loop :: "(u16 \<Rightarrow> u64) \<Rightarrow> u32 \<Rightarrow> skill \<Rightarrow> u32 \<times> skill" where
  "lose_tries_loop req lostSkillTries sk =
     (if ucast lostSkillTries > sk_tries sk then
        (let lostSkillTries = lostSkillTries - ucast (sk_tries sk) in
         if sk_level sk \<le> 10 then (0, sk\<lparr>sk_level := 10, sk_tries := 0\<rparr>)
         else lose_tries_loop req lostSkillTries
                (sk\<lparr>sk_tries := req (sk_level sk), sk_level := sk_level sk - 1\<rparr>))
      else (lostSkillTries, sk))"
  by pat_completeness auto
termination
  by (relation "measure (\<lambda>(req, l, sk). unat (sk_level sk))")
    (auto simp: not_le intro!: word_descend elim: order.strict_trans [rotated])

declare lose_tries_loop.simps [simp del]

definition death_skill :: "(u16 \<Rightarrow> u64) \<Rightarrow> (u64 \<Rightarrow> u32) \<Rightarrow> skill \<Rightarrow> skill" where
  "death_skill req lost_share sk =
     (case lose_tries_loop req (lost_share (sum_tries req sk)) sk of
        (lostSkillTries, sk) \<Rightarrow>
          let rest = ucast (sk_tries sk - ucast lostSkillTries) :: s32;
              sk = sk\<lparr>sk_tries := scast (max0 rest)\<rparr>
          in sk\<lparr>sk_percent := getPercentLevel (sk_tries sk) (req (sk_level sk))\<rparr>)"

end
