(* ===== verification/ExperienceProps.thy ===== *)
theory ExperienceProps imports Experience begin

text \<open>
  Levels follow the experience: the table of requirements against a recursive
  definition, the level and the maxima of health, mana and capacity as functions of the
  experience alone, and the conservation of the tries and the mana spent.
\<close>

section \<open>The table of levels\<close>

text \<open>The experience needed to gain \<open>l\<close> levels, from what the next level costs.\<close>

fun total_exp :: "nat \<Rightarrow> nat" where
  "total_exp 0 = 0"
| "total_exp (Suc l) = total_exp l + 50 * (l * l + 2 - l)"

lemma total_exp_poly: "3 * int (total_exp l) = 50 * int l ^ 3 - 150 * int l ^ 2 + 400 * int l"
proof (induction l)
  case (Suc l)
  have "l \<le> l * l + 2" by (cases l) auto
  then have "int (l * l + 2 - l) = int l * int l + 2 - int l" by (simp add: of_nat_diff)
  then have "3 * int (total_exp (Suc l)) = 3 * int (total_exp l) + 150 * (int l * int l + 2 - int l)" by simp
  also have "\<dots> = 50 * int (Suc l) ^ 3 - 150 * int (Suc l) ^ 2 + 400 * int (Suc l)"
    unfolding Suc.IH by (simp add: power3_eq_cube power2_eq_square algebra_simps)
  finally show ?case .
qed simp

lemma total_exp_nat: "3 * total_exp l + 150 * l * l = 50 * l * l * l + 400 * l"
proof -
  have "int (3 * total_exp l + 150 * l * l) = int (50 * l * l * l + 400 * l)"
    using total_exp_poly [of l] by (simp add: power3_eq_cube power2_eq_square)
  then show ?thesis by (rule of_nat_eq_iff [THEN iffD1])
qed

lemma total_exp_step: "total_exp l < total_exp (Suc l)"
proof -
  have "l < l * l + 2" by (cases l) auto
  then show ?thesis by simp
qed

lemma total_exp_mono: "l \<le> k \<Longrightarrow> total_exp l \<le> total_exp k"
  by (rule lift_Suc_mono_le [of total_exp, OF less_imp_le [OF total_exp_step]])

lemma total_exp_strict: "l < k \<Longrightarrow> total_exp l < total_exp k"
  by (rule lift_Suc_mono_less [of total_exp, OF total_exp_step])

definition MAXL :: nat where "MAXL = 700000"

declare total_exp.simps [simp del]

lemma total_exp_MAXL: "total_exp MAXL < 2 ^ 63" "3 * total_exp (Suc (Suc MAXL)) < 2 ^ 64"
proof -
  have "3 * int (total_exp MAXL) < 27670116110564327424"
    unfolding total_exp_poly MAXL_def by simp
  then have "total_exp MAXL < 9223372036854775808" by linarith
  then show "total_exp MAXL < 2 ^ 63" by simp
  have "3 * int (total_exp (Suc (Suc MAXL))) < 18446744073709551616"
    unfolding total_exp_poly MAXL_def by simp
  then have "3 * total_exp (Suc (Suc MAXL)) < 18446744073709551616" by linarith
  then show "3 * total_exp (Suc (Suc MAXL)) < 2 ^ 64" by simp
qed

lemma sint_of_nat_small: "n < 2 ^ 31 \<Longrightarrow> sint (of_nat n :: u32) = int n"
  by (simp add: signed_of_nat signed_take_bit_int_eq_self_iff signed_take_bit_int_eq_self)

lemma scast_small: "n < 2 ^ 31 \<Longrightarrow> (scast (of_nat n :: u32) :: u64) = of_nat n"
  by (simp add: scast_eq sint_of_nat_small)

lemma getExp_table:
  assumes "l \<le> Suc (Suc MAXL)"
  shows "getExpForLevel (of_nat (Suc l)) = of_nat (total_exp l)" "unat (getExpForLevel (of_nat (Suc l))) = total_exp l"
proof -
  have small: "3 * total_exp l < 2 ^ 64"
    using total_exp_mono [OF assms] total_exp_MAXL(2) by linarith
  have "l < 2 ^ 31" using assms by (simp add: MAXL_def)
  then have lv: "(scast ((of_nat (Suc l) :: u32) - 1) :: u64) = of_nat l" by (simp add: scast_small)
  have "(50 * of_nat l * of_nat l * of_nat l - 150 * of_nat l * of_nat l + 400 * of_nat l :: u64)
      = of_nat (50 * l * l * l + 400 * l) - of_nat (150 * l * l)" by simp
  also have "\<dots> = of_nat (3 * total_exp l)"
    unfolding total_exp_nat [symmetric] by simp
  finally have "getExpForLevel (of_nat (Suc l)) = of_nat (3 * total_exp l) div 3"
    unfolding getExpForLevel_def Let_def lv by simp
  moreover have "unat (of_nat (3 * total_exp l) :: u64) = 3 * total_exp l"
    using small by (simp add: unat_of_nat take_bit_nat_eq_self_iff del: of_nat_mult)
  ultimately show 1: "unat (getExpForLevel (of_nat (Suc l))) = total_exp l"
    by (simp add: unat_div_distrib)
  have "of_nat (unat (getExpForLevel (of_nat (Suc l)))) = getExpForLevel (of_nat (Suc l))"
    by (simp only: of_nat_unat ucast_id)
  then show "getExpForLevel (of_nat (Suc l)) = of_nat (total_exp l)" unfolding 1 by (rule sym)
qed

section \<open>Levels and the maxima\<close>

text \<open>
  \<open>at_gain l\<close>: the player has gained \<open>l\<close> levels and has the maxima that follow from the
  values \<open>h\<close>, \<open>m\<close>, \<open>c\<close> of the first level. \<open>room\<close>: the maxima stay below \<open>2^31\<close>.
\<close>

definition at_gain :: "vocation \<Rightarrow> s32 \<Rightarrow> u32 \<Rightarrow> u32 \<Rightarrow> nat \<Rightarrow> progress \<Rightarrow> bool" where
  "at_gain V h m c l p =
     (pr_level p = of_nat (Suc l) \<and>
      pr_healthMax p = h + gainHP V * of_nat l \<and>
      pr_manaMax p = m + gainMana V * of_nat l \<and>
      pr_capacity p = c + gainCap V * of_nat l)"

definition room :: "vocation \<Rightarrow> s32 \<Rightarrow> u32 \<Rightarrow> u32 \<Rightarrow> bool" where
  "room V h m c =
     (unat h + unat (gainHP V) * MAXL < 2 ^ 31 \<and> unat m + unat (gainMana V) * MAXL < 2 ^ 31 \<and>
      unat c + unat (gainCap V) * MAXL < 2 ^ 31)"

lemma max0_room:
  fixes h g :: u32
  assumes "unat h + unat g * MAXL < 2 ^ 31" "l < MAXL"
  shows "max0 (h + g * of_nat (Suc l) - g) = h + g * of_nat l"
proof -
  have eq: "h + g * of_nat (Suc l) - g = h + g * of_nat l" by (simp add: algebra_simps)
  have "unat g * l \<le> unat g * MAXL" using assms(2) by simp
  then have "unat h + unat g * l < 2 ^ 31" using assms(1) by linarith
  moreover have "h + g * of_nat l = of_nat (unat h + unat g * l)" by simp
  ultimately have "0 \<le> sint (h + g * of_nat l)"
    by (simp only: sint_of_nat_small of_nat_0_le_iff)
  then show ?thesis unfolding eq max0_def word_sless_alt by simp
qed

lemma at_gain_up:
  "at_gain V h m c l p \<Longrightarrow> at_gain V h m c (Suc l) (level_up V p)"
  by (simp add: at_gain_def level_up_def algebra_simps)

lemma at_gain_down:
  assumes "at_gain V h m c (Suc l) p" "room V h m c" "l < MAXL"
  shows "at_gain V h m c l (level_down V p)"
  using assms max0_room [of h "gainHP V" l] max0_room [of m "gainMana V" l] max0_room [of c "gainCap V" l]
  by (simp add: at_gain_def level_down_def room_def)

lemma next_level:
  assumes "at_gain V h m c l p" "l \<le> MAXL"
  shows "unat (getExpForLevel (pr_level p)) = total_exp l"
    and "unat (getExpForLevel (pr_level p + 1)) = total_exp (Suc l)"
proof -
  have "pr_level p + 1 = of_nat (Suc (Suc l))" using assms(1) by (simp add: at_gain_def)
  then show "unat (getExpForLevel (pr_level p + 1)) = total_exp (Suc l)"
    using getExp_table(2) [of "Suc l"] assms(2) by simp
  show "unat (getExpForLevel (pr_level p)) = total_exp l"
    using getExp_table(2) [of l] assms by (simp add: at_gain_def)
qed

lemma level_up_loop_ok:
  assumes "at_gain V h m c l p" "total_exp l \<le> unat (pr_exp p)" "unat (pr_exp p) < total_exp MAXL"
  shows "\<exists>k p'. level_up_loop V (getExpForLevel (pr_level p)) (getExpForLevel (pr_level p + 1)) p =
           (getExpForLevel (pr_level p'), getExpForLevel (pr_level p' + 1), p') \<and>
         at_gain V h m c k p' \<and> pr_exp p' = pr_exp p \<and>
         total_exp k \<le> unat (pr_exp p) \<and> unat (pr_exp p) < total_exp (Suc k)"
  using assms
proof (induction "MAXL - l" arbitrary: l p rule: less_induct)
  case less
  have l: "l < MAXL" using less.prems total_exp_mono [of MAXL l] by (cases "l < MAXL") auto
  note exps = next_level [OF less.prems(1) less_imp_le [OF l]]
  show ?case
  proof (cases "unat (pr_exp p) < total_exp (Suc l)")
    case True
    then have "\<not> pr_exp p \<ge> getExpForLevel (pr_level p + 1)" by (simp add: word_le_nat_alt exps)
    then show ?thesis
      using less.prems True by (subst level_up_loop.simps) auto
  next
    case False
    let ?p = "level_up V p"
    have up: "at_gain V h m c (Suc l) ?p" by (rule at_gain_up [OF less.prems(1)])
    have lv: "pr_level ?p = pr_level p + 1" and ex: "pr_exp ?p = pr_exp p" by (simp_all add: level_up_def)
    have more: "pr_exp p \<ge> getExpForLevel (pr_level p + 1)" using False by (simp add: word_le_nat_alt exps)
    have "unat (getExpForLevel (pr_level ?p + 1)) = total_exp (Suc (Suc l))"
      by (rule next_level(2) [OF up Suc_leI [OF l]])
    then have cont: "\<not> getExpForLevel (pr_level p + 1) \<ge> getExpForLevel (pr_level ?p + 1)"
      using total_exp_step [of "Suc l"] by (simp add: word_le_nat_alt exps)
    have "level_up_loop V (getExpForLevel (pr_level p)) (getExpForLevel (pr_level p + 1)) p =
        level_up_loop V (getExpForLevel (pr_level ?p)) (getExpForLevel (pr_level ?p + 1)) ?p"
      using more cont by (subst level_up_loop.simps) (simp add: lv Let_def)
    moreover have "MAXL - Suc l < MAXL - l" using l by simp
    ultimately show ?thesis
      using less.hyps [OF _ up] False less.prems(3) by (simp add: ex)
  qed
qed

lemma level_down_loop_ok:
  assumes "at_gain V h m c l p" "l < MAXL" "room V h m c" "unat (pr_exp p) < total_exp (Suc l)"
  shows "\<exists>k. at_gain V h m c k (level_down_loop V p) \<and> pr_exp (level_down_loop V p) = pr_exp p \<and>
         k < MAXL \<and> total_exp k \<le> unat (pr_exp p) \<and> unat (pr_exp p) < total_exp (Suc k)"
  using assms
proof (induction l arbitrary: p)
  case 0
  then have "\<not> pr_level p > 1" by (simp add: at_gain_def)
  with 0 show ?case by (subst (1 2) level_down_loop.simps) (auto simp: total_exp.simps(1))
next
  case (Suc l)
  note exps = next_level [OF Suc.prems(1) less_imp_le [OF Suc.prems(2)]]
  show ?case
  proof (cases "unat (pr_exp p) < total_exp (Suc l)")
    case False
    then have "\<not> pr_exp p < getExpForLevel (pr_level p)" by (simp add: word_less_nat_alt exps)
    with Suc.prems False show ?thesis by (subst (1 2) level_down_loop.simps) auto
  next
    case True
    have "unat (pr_level p) = Suc (Suc l)"
      using Suc.prems(1,2) by (simp add: at_gain_def MAXL_def unat_of_nat take_bit_nat_eq_self_iff del: of_nat_Suc)
    then have "pr_level p > 1" "pr_exp p < getExpForLevel (pr_level p)"
      using True by (simp_all add: word_less_nat_alt exps)
    then have eq: "level_down_loop V p = level_down_loop V (level_down V p)"
      by (subst level_down_loop.simps) simp
    have "at_gain V h m c l (level_down V p)" "pr_exp (level_down V p) = pr_exp p"
      using at_gain_down [OF Suc.prems(1,3)] Suc.prems(2) by (simp_all add: level_down_def)
    then show ?thesis using Suc.IH [of "level_down V p"] Suc.prems(2,3) True unfolding eq by simp
  qed
qed

section \<open>Gains, losses and deaths\<close>

text \<open>
  The amounts are those the scripts settle on: a gain or a loss of \<open>asked\<close> becomes one of \<open>y\<close>.
\<close>

datatype xp_op =
    Gain u64 u64
  | Lose u64 u64
  | Death u64

fun xp_step :: "vocation \<Rightarrow> xp_op \<Rightarrow> progress \<Rightarrow> progress" where
  "xp_step V (Gain asked y) p = addExperience V (\<lambda>_. y) asked p"
| "xp_step V (Lose asked y) p = removeExperience V (\<lambda>_. y) asked p"
| "xp_step V (Death y) p = death_experience V y p"

text \<open>
  What is assumed of the amounts: the experience stays below that of level \<open>MAXL\<close>, a loss fits
  in a signed integer, and a death does not take more than there is.
\<close>

fun xp_fits :: "xp_op \<Rightarrow> progress \<Rightarrow> bool" where
  "xp_fits (Gain asked y) p = (unat (pr_exp p) + unat y < total_exp MAXL)"
| "xp_fits (Lose asked y) p = (unat y < 2 ^ 63)"
| "xp_fits (Death y) p = (y \<le> pr_exp p)"

fun xp_run :: "vocation \<Rightarrow> xp_op list \<Rightarrow> progress \<Rightarrow> progress option" where
  "xp_run V [] p = Some p"
| "xp_run V (a # ops) p = (if xp_fits a p then xp_run V ops (xp_step V a p) else None)"

definition follows :: "vocation \<Rightarrow> s32 \<Rightarrow> u32 \<Rightarrow> u32 \<Rightarrow> progress \<Rightarrow> bool" where
  "follows V h m c p =
     (\<exists>l<MAXL. at_gain V h m c l p \<and> total_exp l \<le> unat (pr_exp p) \<and> unat (pr_exp p) < total_exp (Suc l))"

lemma refresh_follows [simp]:
  "follows V h m c (set_level_percent a b p) = follows V h m c p"
  "follows V h m c (refresh_level V lv p) = follows V h m c p"
  "follows V h m c (refresh_percent p) = follows V h m c p"
  "pr_exp (set_level_percent a b p) = pr_exp p" "pr_exp (refresh_level V lv p) = pr_exp p"
  "pr_exp (refresh_percent p) = pr_exp p"
  by (simp_all add: follows_def at_gain_def set_level_percent_def refresh_level_def updateBaseSpeed_def
      refresh_percent_def)

lemma at_gain_exp [simp]: "at_gain V h m c l (p\<lparr>pr_exp := e\<rparr>) = at_gain V h m c l p"
  by (simp add: at_gain_def)

lemma gain_follows:
  assumes "follows V h m c p" "unat (pr_exp p) + unat y < total_exp MAXL"
  shows "follows V h m c (addExperience V (\<lambda>_. y) asked p)"
    "unat (pr_exp (addExperience V (\<lambda>_. y) asked p)) = unat (pr_exp p) + unat y"
proof -
  obtain l where l: "l < MAXL" "at_gain V h m c l p" "total_exp l \<le> unat (pr_exp p)"
    using assms(1) by (auto simp: follows_def)
  let ?p = "p\<lparr>pr_exp := pr_exp p + y\<rparr>"
  have sum: "unat (pr_exp p + y) = unat (pr_exp p) + unat y"
    using assms(2) total_exp_MAXL(1) by (intro unat_add_lem [THEN iffD1]) simp
  have next1: "\<not> getExpForLevel (pr_level p) \<ge> getExpForLevel (pr_level p + 1)"
    using next_level [OF l(2) less_imp_le [OF l(1)]] total_exp_step [of l] by (simp add: word_le_nat_alt)
  obtain k p' where loop: "level_up_loop V (getExpForLevel (pr_level ?p)) (getExpForLevel (pr_level ?p + 1)) ?p =
           (getExpForLevel (pr_level p'), getExpForLevel (pr_level p' + 1), p')"
    and p': "at_gain V h m c k p'" "pr_exp p' = pr_exp p + y"
      "total_exp k \<le> unat (pr_exp p + y)" "unat (pr_exp p + y) < total_exp (Suc k)"
    using level_up_loop_ok [of V h m c l ?p] l assms(2) by (auto simp: sum)
  have "k < MAXL" using p'(3) assms(2) total_exp_mono [of MAXL k] by (cases "k < MAXL") (auto simp: sum)
  then have "follows V h m c p'" using p' by (auto simp: follows_def)
  then show "follows V h m c (addExperience V (\<lambda>_. y) asked p)"
    using assms(1) next1 loop by (simp add: addExperience_def Let_def)
  show "unat (pr_exp (addExperience V (\<lambda>_. y) asked p)) = unat (pr_exp p) + unat y"
    using next1 loop p'(2) by (simp add: addExperience_def Let_def sum)
qed

lemma down_follows:
  assumes "follows V h m c p" "room V h m c" "e \<le> pr_exp p"
  shows "follows V h m c (level_down_loop V (p\<lparr>pr_exp := e\<rparr>))" "pr_exp (level_down_loop V (p\<lparr>pr_exp := e\<rparr>)) = e"
proof -
  obtain l where l: "l < MAXL" "at_gain V h m c l p" "unat (pr_exp p) < total_exp (Suc l)"
    using assms(1) by (auto simp: follows_def)
  have "unat e \<le> unat (pr_exp p)" using assms(3) by (simp add: word_le_nat_alt)
  then have "unat e < total_exp (Suc l)" using l(3) by linarith
  then show "follows V h m c (level_down_loop V (p\<lparr>pr_exp := e\<rparr>))" "pr_exp (level_down_loop V (p\<lparr>pr_exp := e\<rparr>)) = e"
    using level_down_loop_ok [of V h m c l "p\<lparr>pr_exp := e\<rparr>"] l(1,2) assms(2) by (auto simp: follows_def)
qed

lemma sint_diff:
  fixes e y :: u64
  assumes "unat e < 2 ^ 63" "unat y < 2 ^ 63"
  shows "sint (e - y) = uint e - uint y"
proof -
  have "uint e < 2 ^ 63" "uint y < 2 ^ 63"
    using assms by (simp_all only: uint_nat) (metis of_nat_less_numeral_power_cancel_iff)+
  then have range: "- (2 ^ 63) \<le> uint e - uint y" "uint e - uint y < 2 ^ 63"
    using uint_ge_0 [of e] uint_ge_0 [of y] by linarith+
  have "e - y = word_of_int (uint e - uint y)" by simp
  then have "sint (e - y) = signed_take_bit 63 (uint e - uint y)"
    by (simp only: sint_sbintrunc') simp
  also have "\<dots> = uint e - uint y" using range by (rule signed_take_bit_int_eq_self)
  finally show ?thesis .
qed

lemma clamped_loss:
  fixes e y :: u64
  assumes "unat e < 2 ^ 63" "unat y < 2 ^ 63"
  shows "unat (if (e - y) <s 0 then 0 else e - y) = unat e - unat y"
proof -
  have neg: "(e - y) <s 0 \<longleftrightarrow> e < y"
    by (simp add: word_sless_alt sint_diff [OF assms] word_less_def)
  show ?thesis
  proof (cases "e < y")
    case True
    then show ?thesis using neg by (simp add: word_less_nat_alt)
  next
    case False
    then show ?thesis using neg by (simp add: unat_sub not_less)
  qed
qed

lemma lose_follows:
  assumes "follows V h m c p" "room V h m c" "unat y < 2 ^ 63"
  shows "follows V h m c (removeExperience V (\<lambda>_. y) asked p)"
    "unat (pr_exp (removeExperience V (\<lambda>_. y) asked p)) =
       (if asked = 0 then unat (pr_exp p) else unat (pr_exp p) - unat y)"
proof -
  let ?e = "if (pr_exp p - y) <s 0 then 0 else pr_exp p - y"
  have "unat (pr_exp p) < 2 ^ 63"
    using assms(1) total_exp_MAXL(1) total_exp_mono [of "Suc _" MAXL] unfolding follows_def
    by (meson Suc_leI less_le_trans order.strict_trans)
  then have e: "unat ?e = unat (pr_exp p) - unat y" using clamped_loss assms(3) by blast
  then have le: "?e \<le> pr_exp p" unfolding word_le_nat_alt by simp
  note down = down_follows [OF assms(1,2) le]
  show "follows V h m c (removeExperience V (\<lambda>_. y) asked p)"
    using assms(1) down(1) by (simp add: removeExperience_def Let_def del: if_split)
  show "unat (pr_exp (removeExperience V (\<lambda>_. y) asked p)) =
       (if asked = 0 then unat (pr_exp p) else unat (pr_exp p) - unat y)"
    using down(2) e by (auto simp: removeExperience_def Let_def simp del: if_split)
qed

lemma death_follows:
  assumes "follows V h m c p" "room V h m c" "y \<le> pr_exp p"
  shows "follows V h m c (death_experience V y p)"
proof -
  have "pr_exp p - y \<le> pr_exp p" using assms(3) by (simp add: word_le_nat_alt unat_sub)
  note down = down_follows(1) [OF assms(1,2) this] down_follows(1) [OF assms(1,2) order.refl]
  show ?thesis using assms(1) down by (simp add: death_experience_def)
qed

section \<open>The property\<close>

lemma xp_step_follows:
  assumes "follows V h m c p" "room V h m c" "xp_fits a p"
  shows "follows V h m c (xp_step V a p)"
  using assms gain_follows(1) lose_follows(1) death_follows by (cases a) simp_all

lemma xp_run_follows:
  "xp_run V ops p = Some p' \<Longrightarrow> room V h m c \<Longrightarrow> follows V h m c p \<Longrightarrow> follows V h m c p'"
  by (induction ops arbitrary: p) (auto intro: xp_step_follows split: if_splits)

text \<open>
  C2. Level and maxima are functions of the experience, whatever the order of the gains,
  losses and deaths that led to it: the level is the one whose requirement, summed up
  from the cost of each level, is met while that of the next is not, and the maxima of
  health, mana and capacity are those of the first level plus the vocation's gain for
  each level above it, which stay below 2 to the 31 up to that level. The experience stays below that
  of level 700000, which keeps the arithmetic of the requirements within 64 bits.
\<close>

theorem level_follows_experience:
  assumes "follows V h m c p" "room V h m c" "xp_run V ops p = Some p'"
  shows "\<exists>l < 700000. total_exp l \<le> unat (pr_exp p') \<and> unat (pr_exp p') < total_exp (Suc l) \<and>
    pr_level p' = of_nat (Suc l) \<and>
    pr_healthMax p' = h + gainHP V * of_nat l \<and>
    pr_manaMax p' = m + gainMana V * of_nat l \<and>
    pr_capacity p' = c + gainCap V * of_nat l"
  using xp_run_follows [OF assms(3,2,1)] unfolding follows_def at_gain_def MAXL_def by blast

definition knight :: vocation where
  "knight = \<lparr>gainHP = 15, gainMana = 5, gainCap = 2500, voc_baseSpeed = 220, voc_none = False\<rparr>"

definition newcomer :: progress where
  "newcomer = \<lparr>pr_level = 1, pr_exp = 0, pr_levelPercent = 0, pr_health = 150, pr_healthMax = 150,
     pr_mana = 55, pr_manaMax = 55, pr_capacity = 40000, pr_speed = 220, pr_maxSpeed = False,
     pr_stamina = 2520, pr_noExperience = False\<rparr>"

lemma newcomer_follows: "follows knight 150 55 40000 newcomer"
proof -
  have "at_gain knight 150 55 40000 0 newcomer" "total_exp 0 \<le> unat (pr_exp newcomer)"
    "unat (pr_exp newcomer) < total_exp (Suc 0)" "0 < MAXL"
    by (simp_all add: at_gain_def newcomer_def total_exp.simps MAXL_def)
  then show ?thesis unfolding follows_def by blast
qed

lemma big_total: "100000 < total_exp MAXL"
proof -
  have "300000 < 3 * int (total_exp MAXL)" unfolding total_exp_poly MAXL_def by simp
  then show ?thesis by linarith
qed

text \<open>A newcomer gains 5000 points, of which 4900 are lost again: level 2.\<close>

theorem level_follows_experience_witness:
  "\<exists>p'. xp_run knight [Gain 5000 5000, Lose 1 4900] newcomer = Some p' \<and>
     pr_level p' = 2 \<and> pr_healthMax p' = 165 \<and> pr_manaMax p' = 60 \<and> pr_capacity p' = 42500"
proof -
  let ?p1 = "addExperience knight (\<lambda>_. 5000) 5000 newcomer"
  let ?p2 = "removeExperience knight (\<lambda>_. 4900) 1 ?p1"
  have room: "room knight 150 55 40000" by (simp add: room_def knight_def MAXL_def)
  have fits: "unat (pr_exp newcomer) + unat (5000 :: u64) < total_exp MAXL"
    using big_total by (simp add: newcomer_def)
  note gain = gain_follows [OF newcomer_follows fits]
  have run: "xp_run knight [Gain 5000 5000, Lose 1 4900] newcomer = Some ?p2"
    using fits by simp
  have "unat (pr_exp ?p2) = 100"
    using lose_follows(2) [OF gain(1) room, of 4900 1] gain(2) by (simp add: newcomer_def)
  then obtain l where l: "total_exp l \<le> 100" "100 < total_exp (Suc l)" "pr_level ?p2 = of_nat (Suc l)"
    "pr_healthMax ?p2 = 150 + 15 * of_nat l" "pr_manaMax ?p2 = 55 + 5 * of_nat l"
    "pr_capacity ?p2 = 40000 + 2500 * of_nat l"
    using level_follows_experience [OF newcomer_follows room run] by (auto simp: knight_def)
  have two: "total_exp (Suc 0) = 100" "total_exp (Suc (Suc 0)) = 200" by (simp_all add: total_exp.simps)
  have "l = Suc 0"
  proof (rule ccontr)
    assume "l \<noteq> Suc 0"
    then consider "Suc l \<le> Suc 0" | "Suc (Suc 0) \<le> l" by linarith
    then show False
    proof cases
      case 1
      from total_exp_mono [OF this] show False using l(2) two by linarith
    next
      case 2
      from total_exp_mono [OF this] show False using l(1) two by linarith
    qed
  qed
  then show ?thesis using run l(3-6) by auto
qed

end
