(* ===== verification/SkillProps.thy ===== *)
theory SkillProps imports ExperienceProps begin

text \<open>
  Skills and magic levels: no try is lost or made up by an advance or a death, the loops
  end, and what happens at the highest magic level.
\<close>

section \<open>All the tries of a skill\<close>

text \<open>The tries needed for level \<open>n\<close> from level 10 on, as a natural number.\<close>

definition tries_to :: "(u16 \<Rightarrow> u64) \<Rightarrow> nat \<Rightarrow> nat" where
  "tries_to req n = (\<Sum>c\<in>{10<..n}. unat (req (of_nat c)))"

definition skill_total :: "(u16 \<Rightarrow> u64) \<Rightarrow> skill \<Rightarrow> nat" where
  "skill_total req sk = tries_to req (unat (sk_level sk)) + unat (sk_tries sk)"

lemma tries_to_Suc: "10 \<le> n \<Longrightarrow> tries_to req (Suc n) = tries_to req n + unat (req (of_nat (Suc n)))"
proof -
  assume "10 \<le> n"
  then have "{10<..Suc n} = insert (Suc n) {10<..n}" by auto
  then show ?thesis by (simp add: tries_to_def del: of_nat_Suc)
qed

lemma tries_to_10 [simp]: "tries_to req 10 = 0"
  by (simp add: tries_to_def)

lemma tries_to_mono: "m \<le> n \<Longrightarrow> tries_to req m \<le> tries_to req n"
  unfolding tries_to_def by (rule sum_mono2) auto

text \<open>The requirements rise up to the highest level \<open>B\<close>.\<close>

definition rising :: "(u16 \<Rightarrow> u64) \<Rightarrow> nat \<Rightarrow> bool" where
  "rising req B = (B < 2 ^ 16 \<and> (\<forall>c. 10 \<le> c \<longrightarrow> c < B \<longrightarrow> req (of_nat c) < req (of_nat (Suc c))))"

lemma unat_level: "n < 2 ^ 16 \<Longrightarrow> unat (of_nat n :: u16) = n"
  by (simp add: unat_of_nat take_bit_nat_eq_self_iff)

lemma level_cases: "(w :: u16) = of_nat (unat w)"
  by (simp only: of_nat_unat ucast_id)

lemma skill_loop_ok:
  assumes R: "rising req B" and n: "sk_level sk = of_nat n" "10 \<le> n" "n < B"
    and now: "sk_tries sk \<le> req (of_nat (Suc n))" "prev < req (of_nat (Suc n))"
    and fits: "unat (sk_tries sk) + unat count < 2 ^ 64"
      "tries_to req n + unat (sk_tries sk) + unat count < tries_to req B"
  shows "\<exists>k c prev' sk'. skill_loop req count prev (req (of_nat (Suc n))) sk = Some (c, prev', req (of_nat (Suc k)), sk') \<and>
     sk_level sk' = of_nat k \<and> n \<le> k \<and> k < B \<and> prev' < req (of_nat (Suc k)) \<and>
     unat (sk_tries sk') + unat c < unat (req (of_nat (Suc k))) \<and>
     tries_to req k + unat (sk_tries sk') + unat c = tries_to req n + unat (sk_tries sk) + unat count"
  using n now fits
proof (induction "B - n" arbitrary: n count prev sk rule: less_induct)
  case less
  let ?next = "req (of_nat (Suc n))"
  have sum: "unat (sk_tries sk + count) = unat (sk_tries sk) + unat count"
    using less.prems(6) by (intro unat_add_lem [THEN iffD1]) simp
  have le: "unat (sk_tries sk) \<le> unat ?next" using less.prems(4) by (simp add: word_le_nat_alt)
  show ?case
  proof (cases "sk_tries sk + count \<ge> ?next")
    case False
    then have "unat (sk_tries sk) + unat count < unat ?next" by (simp add: word_le_nat_alt sum)
    with False less.prems show ?thesis by (subst skill_loop.simps) auto
  next
    case True
    then have reach: "unat ?next \<le> unat (sk_tries sk) + unat count" by (simp add: word_le_nat_alt sum)
    let ?count = "count - (?next - sk_tries sk)"
    let ?sk = "\<lparr>sk_tries = 0, sk_level = sk_level sk + 1, sk_percent = 0\<rparr>"
    have d: "unat (?next - sk_tries sk) = unat ?next - unat (sk_tries sk)"
      using less.prems(4) by (simp add: unat_sub)
    then have "?next - sk_tries sk \<le> count" using reach by (simp add: word_le_nat_alt)
    then have rest: "unat ?count = unat (sk_tries sk) + unat count - unat ?next"
      using d reach le by (simp add: unat_sub)
    have T: "tries_to req (Suc n) = tries_to req n + unat ?next"
      by (rule tries_to_Suc [OF less.prems(2)])
    then have "tries_to req (Suc n) < tries_to req B" using reach less.prems(7) by linarith
    then have n': "Suc n < B" using tries_to_mono [of B "Suc n" req] by (cases "Suc n < B") auto
    then have next2: "?next < req (of_nat (Suc (Suc n)))"
      using R less.prems(2) n' unfolding rising_def by (metis Suc_leD le_SucI)
    have lv: "sk_level ?sk = of_nat (Suc n)" "sk_level ?sk + 1 = of_nat (Suc (Suc n))"
      using less.prems(1) by simp_all
    have w: "(of_nat n :: u16) + 1 = of_nat (Suc n)" by simp
    have eq: "skill_loop req count prev ?next sk = skill_loop req ?count ?next (req (of_nat (Suc (Suc n)))) ?sk"
      using True next2 [folded not_le] less.prems(1) by (subst skill_loop.simps) (simp add: Let_def)
    have "\<exists>k c prev' sk'. skill_loop req ?count ?next (req (of_nat (Suc (Suc n)))) ?sk = Some (c, prev', req (of_nat (Suc k)), sk') \<and>
       sk_level sk' = of_nat k \<and> Suc n \<le> k \<and> k < B \<and> prev' < req (of_nat (Suc k)) \<and>
       unat (sk_tries sk') + unat c < unat (req (of_nat (Suc k))) \<and>
       tries_to req k + unat (sk_tries sk') + unat c = tries_to req (Suc n) + unat (sk_tries ?sk) + unat ?count"
      using less.prems(2,3,6,7) n' next2 T rest reach
      by (intro less.hyps) (simp_all add: less.prems(1) w del: of_nat_Suc)
    then obtain k c prev' sk' where step: "skill_loop req ?count ?next (req (of_nat (Suc (Suc n)))) ?sk = Some (c, prev', req (of_nat (Suc k)), sk')"
       "sk_level sk' = of_nat k" "Suc n \<le> k" "k < B" "prev' < req (of_nat (Suc k))"
       "unat (sk_tries sk') + unat c < unat (req (of_nat (Suc k)))"
       "tries_to req k + unat (sk_tries sk') + unat c = tries_to req (Suc n) + unat (sk_tries ?sk) + unat ?count"
      by blast
    have "tries_to req k + unat (sk_tries sk') + unat c = tries_to req n + unat (sk_tries sk) + unat count"
      using step(7) T rest reach by simp
    with step(1-6) show ?thesis unfolding eq using Suc_leD by blast
  qed
qed

lemma settle_skill_ok:
  assumes "sk_level sk = of_nat k" "k < 2 ^ 16" "prev < req (of_nat (Suc k))"
    "unat (sk_tries sk) + unat c < unat (req (of_nat (Suc k)))"
  shows "skill_total req (settle_skill (c, prev, req (of_nat (Suc k)), sk)) = tries_to req k + unat (sk_tries sk) + unat c"
    "sk_level (settle_skill (c, prev, req (of_nat (Suc k)), sk)) = of_nat k"
    "sk_tries (settle_skill (c, prev, req (of_nat (Suc k)), sk)) < req (of_nat (Suc k))"
    "sk_percent (settle_skill (c, prev, req (of_nat (Suc k)), sk)) =
       getPercentLevel (sk_tries (settle_skill (c, prev, req (of_nat (Suc k)), sk))) (req (of_nat (Suc k)))"
proof -
  have "unat (sk_tries sk) + unat c < 2 ^ 64"
    using assms(4) unsigned_less [of "req (of_nat (Suc k))", where 'a = nat] by (simp del: of_nat_Suc)
  then have sum: "unat (sk_tries sk + c) = unat (sk_tries sk) + unat c"
    by (intro unat_add_lem [THEN iffD1]) simp
  show "skill_total req (settle_skill (c, prev, req (of_nat (Suc k)), sk)) = tries_to req k + unat (sk_tries sk) + unat c"
    using assms(1,2) by (simp add: skill_total_def settle_skill_def Let_def sum unat_level del: of_nat_Suc)
  show "sk_level (settle_skill (c, prev, req (of_nat (Suc k)), sk)) = of_nat k"
    using assms(1) by (simp add: settle_skill_def Let_def)
  show "sk_tries (settle_skill (c, prev, req (of_nat (Suc k)), sk)) < req (of_nat (Suc k))"
    using assms(4) by (simp add: settle_skill_def Let_def word_less_nat_alt sum del: of_nat_Suc)
  show "sk_percent (settle_skill (c, prev, req (of_nat (Suc k)), sk)) =
       getPercentLevel (sk_tries (settle_skill (c, prev, req (of_nat (Suc k)), sk))) (req (of_nat (Suc k)))"
    using assms(3) by (simp add: settle_skill_def Let_def del: of_nat_Suc)
qed

section \<open>Losing tries\<close>

lemma lose_tries_ok:
  assumes "sk_level sk = of_nat n" "10 \<le> n" "n < 2 ^ 16" "unat lost \<le> tries_to req n + unat (sk_tries sk)"
  shows "\<exists>k l' sk'. lose_tries_loop req lost sk = (l', sk') \<and> sk_level sk' = of_nat k \<and> 10 \<le> k \<and> k \<le> n \<and>
     unat l' \<le> unat (sk_tries sk') \<and> (k = n \<longrightarrow> sk_tries sk' = sk_tries sk \<and> l' = lost) \<and>
     (k < n \<longrightarrow> sk_tries sk' = req (of_nat (Suc k)) \<and> l' \<noteq> 0) \<and>
     tries_to req k + unat (sk_tries sk') - unat l' = tries_to req n + unat (sk_tries sk) - unat lost"
  using assms
proof (induction n arbitrary: lost sk)
  case (Suc n)
  show ?case
  proof (cases "ucast lost > sk_tries sk")
    case False
    then have "unat lost \<le> unat (sk_tries sk)" by (simp add: word_less_nat_alt not_less)
    moreover have "lose_tries_loop req lost sk = (lost, sk)" using False by (subst lose_tries_loop.simps) simp
    ultimately show ?thesis using Suc.prems(1,2) by (intro exI [of _ "Suc n"]) auto
  next
    case True
    then have more: "unat (sk_tries sk) < unat lost" by (simp add: word_less_nat_alt)
    have small: "unat (ucast (sk_tries sk) :: u32) = unat (sk_tries sk)"
    proof -
      have "unat (sk_tries sk) < 2 ^ 32" using more unsigned_less [of lost, where 'a = nat] by simp
      then show ?thesis by (simp add: unsigned_ucast_eq take_bit_nat_eq_self_iff)
    qed
    let ?lost = "lost - ucast (sk_tries sk)"
    have rest: "unat ?lost = unat lost - unat (sk_tries sk)"
      using more small by (subst unat_sub) (simp_all add: word_le_nat_alt)
    have n10: "10 \<le> n"
    proof (rule ccontr)
      assume "\<not> 10 \<le> n"
      then have "Suc n = 10" using Suc.prems(2) by linarith
      then show False using Suc.prems(4) more tries_to_10 [of req] by simp
    qed
    let ?sk = "sk\<lparr>sk_tries := req (sk_level sk), sk_level := sk_level sk - 1\<rparr>"
    have lv: "\<not> sk_level sk \<le> 10"
      using Suc.prems(1,3) n10 by (simp add: word_le_nat_alt unat_level del: of_nat_Suc)
    have eq: "lose_tries_loop req lost sk = lose_tries_loop req ?lost ?sk"
      using True lv by (subst lose_tries_loop.simps) (simp add: Let_def)
    have T: "tries_to req (Suc n) = tries_to req n + unat (req (of_nat (Suc n)))"
      by (rule tries_to_Suc [OF n10])
    have 1: "sk_level ?sk = of_nat n" "sk_tries ?sk = req (of_nat (Suc n))"
      using Suc.prems(1) by simp_all
    have n16: "n < 2 ^ 16" using Suc.prems(3) by simp
    have le: "unat ?lost \<le> tries_to req n + unat (sk_tries ?sk)"
      using Suc.prems(4) more unfolding 1 rest T by linarith
    obtain k l' sk' where step: "lose_tries_loop req ?lost ?sk = (l', sk')" "sk_level sk' = of_nat k"
      "10 \<le> k" "k \<le> n" "unat l' \<le> unat (sk_tries sk')" "k = n \<longrightarrow> sk_tries sk' = sk_tries ?sk \<and> l' = ?lost"
      "k < n \<longrightarrow> sk_tries sk' = req (of_nat (Suc k)) \<and> l' \<noteq> 0"
      "tries_to req k + unat (sk_tries sk') - unat l' = tries_to req n + unat (sk_tries ?sk) - unat ?lost"
      using Suc.IH [OF 1(1) n10 n16 le] by blast
    have "?lost \<noteq> 0" using rest more by (metis unat_0 diff_is_0_eq not_le)
    then have "sk_tries sk' = req (of_nat (Suc k)) \<and> l' \<noteq> 0"
      using step(4,6,7) 1(2) by (cases "k = n") auto
    moreover have "tries_to req k + unat (sk_tries sk') - unat l' = tries_to req (Suc n) + unat (sk_tries sk) - unat lost"
      using step(8) more unfolding 1 rest T by linarith
    ultimately show ?thesis unfolding eq using step(1-5) by auto
  qed
qed simp


section \<open>The properties\<close>

text \<open>
  C30. While the requirements rise and the highest level is out of reach, an advance
  returns, and every try counts: the tries of the skill, those of all its levels
  included, grow by exactly the amount the script settled on, the rest is short of the
  next level, and the percentage is taken of the tries of that level.
\<close>

theorem skill_advance_exact:
  assumes "rising req B" "10 \<le> unat (sk_level sk)" "unat (sk_level sk) < B"
    and "sk_tries sk \<le> req (sk_level sk + 1)" "unat (sk_tries sk) + unat y < 2 ^ 64"
    and "skill_total req sk + unat y < tries_to req B" "y \<noteq> 0"
  shows "\<exists>sk'. addSkillAdvance req (\<lambda>_. y) count sk = Some sk' \<and>
    skill_total req sk' = skill_total req sk + unat y \<and>
    sk_tries sk' < req (sk_level sk' + 1) \<and>
    sk_percent sk' = getPercentLevel (sk_tries sk') (req (sk_level sk' + 1))"
proof -
  define n where "n = unat (sk_level sk)"
  have lv: "sk_level sk = of_nat n" unfolding n_def by (rule level_cases)
  have w: "(of_nat k :: u16) + 1 = of_nat (Suc k)" for k by simp
  have rise: "req (of_nat n) < req (of_nat (Suc n))"
    using assms(1-3) unfolding rising_def n_def by blast
  have n: "10 \<le> n" "n < B" using assms(2,3) by (simp_all add: n_def)
  have now: "sk_tries sk \<le> req (of_nat (Suc n))" using assms(4) by (simp add: lv w del: of_nat_Suc)
  have fits: "tries_to req n + unat (sk_tries sk) + unat y < tries_to req B"
    using assms(6) by (simp add: skill_total_def n_def)
  obtain k c prev sk' where loop: "skill_loop req y (req (of_nat n)) (req (of_nat (Suc n))) sk = Some (c, prev, req (of_nat (Suc k)), sk')"
     "sk_level sk' = of_nat k" "k < B" "prev < req (of_nat (Suc k))"
     "unat (sk_tries sk') + unat c < unat (req (of_nat (Suc k)))"
     "tries_to req k + unat (sk_tries sk') + unat c = tries_to req n + unat (sk_tries sk) + unat y"
    using skill_loop_ok [OF assms(1) lv n now rise assms(5) fits] by blast
  have k: "k < 2 ^ 16" using loop(3) assms(1) by (simp add: rising_def)
  note settled = settle_skill_ok [where req = req and k = k and sk = sk', OF loop(2) k loop(4,5)]
  have "addSkillAdvance req (\<lambda>_. y) count sk = Some (settle_skill (c, prev, req (of_nat (Suc k)), sk'))"
    using rise assms(7) loop(1) by (simp add: addSkillAdvance_def Let_def lv w not_le del: of_nat_Suc)
  moreover have "skill_total req sk = tries_to req n + unat (sk_tries sk)"
    by (simp add: skill_total_def n_def)
  ultimately show ?thesis
    using settled loop(6) by (auto simp: w simp del: of_nat_Suc)
qed

text \<open>
  C31. A death takes exactly its share: as long as no level needs \<open>2^31\<close> tries, the tries of a
  skill, those of all its levels included, shrink by the amount lost, the level stays
  at 10 or above, and what is left is at most the tries of the next level.
\<close>

theorem death_takes_its_share:
  assumes "10 \<le> unat (sk_level sk)" "sk_tries sk \<le> req (sk_level sk + 1)"
    and "\<And>c. unat (req c) < 2 ^ 31" "unat y \<le> skill_total req sk"
  shows "skill_total req (death_skill req (\<lambda>_. y) sk) = skill_total req sk - unat y \<and>
    10 \<le> unat (sk_level (death_skill req (\<lambda>_. y) sk)) \<and>
    unat (sk_level (death_skill req (\<lambda>_. y) sk)) \<le> unat (sk_level sk) \<and>
    sk_tries (death_skill req (\<lambda>_. y) sk) \<le> req (sk_level (death_skill req (\<lambda>_. y) sk) + 1)"
proof -
  define n where "n = unat (sk_level sk)"
  have lv: "sk_level sk = of_nat n" unfolding n_def by (rule level_cases)
  have w: "(of_nat k :: u16) + 1 = of_nat (Suc k)" for k by simp
  have n: "10 \<le> n" "n < 2 ^ 16"
    using assms(1) unsigned_less [of "sk_level sk", where 'a = nat] by (simp_all add: n_def)
  have total: "skill_total req sk = tries_to req n + unat (sk_tries sk)"
    by (simp add: skill_total_def n_def)
  obtain k l' sk' where loop: "lose_tries_loop req y sk = (l', sk')" "sk_level sk' = of_nat k" "10 \<le> k" "k \<le> n"
    "unat l' \<le> unat (sk_tries sk')" "k = n \<longrightarrow> sk_tries sk' = sk_tries sk \<and> l' = y"
    "k < n \<longrightarrow> sk_tries sk' = req (of_nat (Suc k)) \<and> l' \<noteq> 0"
    "tries_to req k + unat (sk_tries sk') - unat l' = tries_to req n + unat (sk_tries sk) - unat y"
    using lose_tries_ok [OF lv n] assms(4) unfolding total by blast
  have k: "k < 2 ^ 16" using loop(4) n(2) by simp
  have le: "sk_tries sk' \<le> req (of_nat (Suc k))"
    using loop(4,6,7) assms(2) lv w by (cases "k = n") auto
  have d: "unat (sk_tries sk' - ucast l') = unat (sk_tries sk') - unat l'"
    using loop(5) by (subst unat_sub) (simp_all add: word_le_nat_alt)
  have small: "unat (sk_tries sk') - unat l' < 2 ^ 31"
    using le assms(3) [of "of_nat (Suc k)"] by (simp add: word_le_nat_alt del: of_nat_Suc)
  define rest where "rest = unat (sk_tries sk') - unat l'"
  have "sk_tries sk' - ucast l' = of_nat rest"
    unfolding rest_def d [symmetric] by (simp only: of_nat_unat ucast_id)
  then have "ucast (sk_tries sk' - ucast l') = (of_nat rest :: s32)"
    using small by (simp add: rest_def [symmetric] unsigned_of_nat take_bit_nat_eq_self)
  moreover have "max0 (of_nat rest) = of_nat rest"
    using small by (simp add: max0_def word_sless_alt sint_of_nat_small rest_def)
  ultimately have tries: "sk_tries (death_skill req (\<lambda>_. y) sk) = of_nat rest"
    using scast_small [of rest] small
    by (simp add: death_skill_def Let_def loop(1) rest_def [symmetric])
  have level: "sk_level (death_skill req (\<lambda>_. y) sk) = of_nat k"
    by (simp add: death_skill_def Let_def loop(1,2))
  have u: "unat (of_nat rest :: u64) = rest"
    using small by (simp add: rest_def [symmetric] unat_of_nat take_bit_nat_eq_self_iff)
  have "skill_total req (death_skill req (\<lambda>_. y) sk) = tries_to req k + rest"
    by (simp add: skill_total_def tries level u unat_level [OF k])
  also have "\<dots> = tries_to req n + unat (sk_tries sk) - unat y"
    using loop(5,8) by (simp add: rest_def)
  finally have 1: "skill_total req (death_skill req (\<lambda>_. y) sk) = skill_total req sk - unat y"
    unfolding total .
  have "of_nat rest \<le> sk_tries sk'" unfolding word_le_nat_alt u by (simp add: rest_def)
  with le have "of_nat rest \<le> req (of_nat (Suc k))" by (rule order.trans [rotated])
  with 1 show ?thesis
    using loop(3,4) unfolding tries level w unat_level [OF k] n_def by blast
qed

text \<open>A skill that needs ten more tries on each level than on the one before, up to level 50.\<close>

definition easy :: "u16 \<Rightarrow> u64" where
  "easy c = (if c \<le> 50 then ucast c * 10 else 0)"

lemma easy_value: "c \<le> 50 \<Longrightarrow> easy (of_nat c) = of_nat (c * 10)"
  by (simp add: easy_def word_le_nat_alt unat_of_nat take_bit_nat_eq_self unsigned_of_nat)

lemma easy_unat: "c \<le> 50 \<Longrightarrow> unat (easy (of_nat c)) = c * 10"
  by (simp add: easy_value unat_of_nat take_bit_nat_eq_self del: of_nat_mult)

lemma easy_rising: "rising easy 50"
  by (simp add: rising_def word_less_nat_alt easy_unat del: of_nat_Suc)

lemma easy_small: "unat (easy c) < 2 ^ 31"
proof (cases "c \<le> 50")
  case True
  then have "unat c \<le> 50" by (simp add: word_le_nat_alt)
  then have "unat (easy (of_nat (unat c))) < 2 ^ 31" by (subst easy_unat) simp_all
  then show ?thesis by (simp only: of_nat_unat ucast_id)
qed (simp add: easy_def)

lemma easy_sums: "10 \<le> n \<Longrightarrow> n \<le> 50 \<Longrightarrow> tries_to easy n + 550 = 5 * n * (n + 1)"
proof (induction n rule: nat_induct_at_least)
  case (Suc n)
  then show ?case
    using tries_to_Suc [OF Suc.hyps, of easy] easy_unat [of "Suc n"] by (simp add: algebra_simps del: of_nat_Suc)
qed simp

definition swordsman :: skill where
  "swordsman = \<lparr>sk_tries = 5, sk_level = 12, sk_percent = 0\<rparr>"

lemma swordsman_facts: "skill_total easy swordsman = 235" "tries_to easy 50 = 12200"
  "unat (sk_level swordsman) = 12" "sk_tries swordsman = 5" "easy (sk_level swordsman + 1) = 130"
  using easy_sums [of 12] easy_sums [of 50] by (simp_all add: skill_total_def swordsman_def easy_def)

theorem skill_advance_exact_witness:
  "\<exists>sk'. addSkillAdvance easy (\<lambda>_. 300) 1 swordsman = Some sk' \<and> skill_total easy sk' = 535 \<and>
     sk_tries sk' < easy (sk_level sk' + 1)"
proof -
  have "(5 :: u64) \<le> 130" "unat (5 :: u64) + unat (300 :: u64) < 2 ^ 64" "(300 :: u64) \<noteq> 0" by simp_all
  then show ?thesis
    using skill_advance_exact [OF easy_rising, of swordsman 300 1] by (auto simp: swordsman_facts)
qed

theorem death_takes_its_share_witness:
  "skill_total easy (death_skill easy (\<lambda>_. 30) swordsman) = 205"
proof -
  have "(5 :: u64) \<le> 130" "unat (30 :: u32) \<le> 235" by simp_all
  then show ?thesis
    using death_takes_its_share [of swordsman easy 30, OF _ _ easy_small] by (simp add: swordsman_facts)
qed

section \<open>The highest magic level\<close>

text \<open>
  The advance to the highest magic level leaves the function early: the mana spent is
  reset, but the percentage towards the next level stays the one shown before.
\<close>

theorem top_magic_level_keeps_percent:
  assumes "req (mg_level m) < req (mg_level m + 1)" "req (mg_level m + 2) \<le> req (mg_level m + 1)"
    and "req (mg_level m + 1) \<le> mg_spent m + y" "y \<noteq> 0"
  shows "addManaSpent req False (\<lambda>_. y) amount m =
    Some \<lparr>mg_level = mg_level m + 1, mg_spent = 0, mg_percent = mg_percent m\<rparr>"
proof -
  have "mg_level m + 1 + 1 = mg_level m + 2" by simp
  then have "mana_loop req y (req (mg_level m)) (req (mg_level m + 1)) m =
      Some (Inl \<lparr>mg_level = mg_level m + 1, mg_spent = 0, mg_percent = mg_percent m\<rparr>)"
    using assms(2,3) by (subst mana_loop.simps) (simp add: Let_def add.commute)
  then show ?thesis
    using assms(1,4) by (simp add: addManaSpent_def Let_def not_le)
qed

theorem top_magic_level_keeps_percent_witness:
  "addManaSpent (\<lambda>l. if l = 1 then 100 else if l = 2 then 400 else 0) False (\<lambda>_. 8) 8
     \<lparr>mg_level = 1, mg_spent = 396, mg_percent = 99\<rparr> =
   Some \<lparr>mg_level = 2, mg_spent = 0, mg_percent = 99\<rparr>"
  using top_magic_level_keeps_percent [of "\<lambda>l. if l = 1 then 100 else if l = 2 then 400 else 0"
      "\<lparr>mg_level = 1, mg_spent = 396, mg_percent = 99\<rparr>" 8 8]
  by simp

end
