(* ===== verification/Money.thy ===== *)
theory Money imports ContainerTheorems begin

text \<open>
  Money (game.cpp, player.cpp, item.cpp): the walk through a player's things and their
  containers that collects the coins, paying with change, and adding an amount as
  coins. The things are addresses of a store of containers; what is done with them is a
  list of actions, in the order of the code.
\<close>

section \<open>The worth of an item\<close>

definition ITEM_GOLD_COIN :: u16 where "ITEM_GOLD_COIN = 2148"
definition ITEM_PLATINUM_COIN :: u16 where "ITEM_PLATINUM_COIN = 2152"
definition ITEM_CRYSTAL_COIN :: u16 where "ITEM_CRYSTAL_COIN = 2160"

definition getWorth :: "item \<Rightarrow> u32" where
  "getWorth it =
     (if item_id it = ITEM_GOLD_COIN then ucast (item_count it)
      else if item_id it = ITEM_PLATINUM_COIN then ucast (item_count it) * 100
      else if item_id it = ITEM_CRYSTAL_COIN then ucast (item_count it) * 10000
      else 0)"

section \<open>Collecting the coins\<close>

text \<open>
  \<open>moneyMap\<close> is a multimap from the worth of a stack to the stack, ordered by worth;
  \<open>emplace\<close> puts a new entry behind those of the same worth. The walk keeps the
  containers still to be opened, the count and the map.
\<close>

type_synonym coin_walk = "nat list \<times> u64 \<times> (u32 \<times> nat) list"

fun emplace :: "u32 \<Rightarrow> nat \<Rightarrow> (u32 \<times> nat) list \<Rightarrow> (u32 \<times> nat) list" where
  "emplace w x [] = [(w, x)]"
| "emplace w x ((v, y) # m) = (if w < v then (w, x) # (v, y) # m else (v, y) # emplace w x m)"

definition look_at :: "store \<Rightarrow> nat \<Rightarrow> coin_walk \<Rightarrow> coin_walk" where
  "look_at s x = (\<lambda>(containers, moneyCount, moneyMap).
     case s x of
       None \<Rightarrow> (containers, moneyCount, moneyMap)
     | Some ob \<Rightarrow>
         if o_cont ob \<noteq> None then (containers @ [x], moneyCount, moneyMap)
         else let worth = getWorth (o_item ob) in
           if worth \<noteq> 0 then (containers, moneyCount + ucast worth, emplace worth x moneyMap)
           else (containers, moneyCount, moneyMap))"

definition look_all :: "store \<Rightarrow> nat list \<Rightarrow> coin_walk \<Rightarrow> coin_walk" where
  "look_all s xs st = fold (look_at s) xs st"

partial_function (option) open_containers :: "store \<Rightarrow> coin_walk \<Rightarrow> (u64 \<times> (u32 \<times> nat) list) option" where
  "open_containers s st =
     (case st of
        ([], moneyCount, moneyMap) \<Rightarrow> Some (moneyCount, moneyMap)
      | (c # cs, moneyCount, moneyMap) \<Rightarrow>
          open_containers s (look_all s (items_of s c) (cs, moneyCount, moneyMap)))"

definition collect_money :: "store \<Rightarrow> nat list \<Rightarrow> (u64 \<times> (u32 \<times> nat) list) option" where
  "collect_money s things = open_containers s (look_all s things ([], 0, []))"

text \<open>\<open>Player::getMoney\<close> is the same walk without the map.\<close>

definition getMoney :: "store \<Rightarrow> nat option list \<Rightarrow> u64 option" where
  "getMoney s inventory = map_option fst (collect_money s (List.map_filter id inventory))"

section \<open>Adding coins\<close>

text \<open>
  \<open>AddCoins\<close> creates a stack and adds it to the cylinder or, when it has no room, to the
  tile; \<open>RemoveItem\<close> takes a whole stack or a number of its coins.
\<close>

datatype money_act =
    AddCoins u16 u16
  | RemoveItem nat "u32 option"

lemma ucast_down_up:
  assumes "unat (x :: u32) < 2 ^ 16"
  shows "(ucast (ucast x :: u16) :: u32) = x"
proof -
  have x: "x = of_nat (unat x)" by (simp only: of_nat_unat ucast_id)
  show ?thesis using assms
    by (subst (1 2) x) (simp add: unsigned_of_nat take_bit_nat_eq_self del: of_nat_unat)
qed

function crystal_loop :: "u32 \<Rightarrow> money_act list" where
  "crystal_loop crystalCoins =
     (if crystalCoins > 0 then
        (let count = ucast (min 100 crystalCoins) :: u16
         in AddCoins ITEM_CRYSTAL_COIN count # crystal_loop (crystalCoins - ucast count))
      else [])"
  by pat_completeness auto
termination
proof (relation "measure unat", goal_cases)
  case (2 n count)
  have "unat (min 100 n) \<le> 100" by (simp add: min_def word_le_nat_alt)
  then have "ucast count = min 100 n" unfolding 2(2) by (intro ucast_down_up) simp
  moreover have "min 100 n \<le> n" "min 100 n \<noteq> 0" using 2(1) by (auto simp: min_def)
  ultimately have "unat (n - ucast count) = unat n - unat (min 100 n)" "0 < unat (min 100 n)" "unat (min 100 n) \<le> unat n"
    by (simp_all add: unat_sub word_le_nat_alt unat_gt_0)
  then show ?case by simp
qed simp

declare crystal_loop.simps [simp del]

definition addMoney :: "u64 \<Rightarrow> money_act list" where
  "addMoney money =
     (if money = 0 then []
      else
        (let crystalCoins = ucast (money div 10000) :: u32;
             money = money - ucast (crystalCoins * 10000);
             platinumCoins = ucast (money div 100) :: u16;
             rest = (if platinumCoins \<noteq> 0 then money - ucast platinumCoins * 100 else money)
         in crystal_loop crystalCoins @
            (if platinumCoins \<noteq> 0 then [AddCoins ITEM_PLATINUM_COIN platinumCoins] else []) @
            (if rest \<noteq> 0 then [AddCoins ITEM_GOLD_COIN (ucast rest)] else [])))"

section \<open>Paying\<close>

text \<open>
  The stacks are taken from the cheapest on; the last one is split, and the change is
  added before the coins of the stack are removed. \<open>removeCount\<close> is the quotient rounded
  up, which \<open>std::ceil\<close> of the floating-point quotient computes exactly for these sizes.
\<close>

definition item_at :: "store \<Rightarrow> nat \<Rightarrow> item" where
  "item_at s x = o_item (the (s x))"

fun pay :: "store \<Rightarrow> u64 \<Rightarrow> (u32 \<times> nat) list \<Rightarrow> money_act list" where
  "pay s money [] = []"
| "pay s money ((w, x) # moneyMap) =
     (if ucast w < money then RemoveItem x None # pay s (money - ucast w) moneyMap
      else if ucast w > money then
        (let worth = w div ucast (item_count (item_at s x));
             removeCount = of_nat ((unat money + unat worth - 1) div unat worth) :: u32
         in addMoney (ucast (worth * removeCount) - money) @ [RemoveItem x (Some removeCount)])
      else [RemoveItem x None])"

definition removeMoney :: "store \<Rightarrow> nat list \<Rightarrow> u64 \<Rightarrow> (bool \<times> money_act list) option" where
  "removeMoney s things money =
     (if money = 0 then Some (True, [])
      else map_option (\<lambda>(moneyCount, moneyMap).
             if moneyCount < money then (False, []) else (True, pay s money moneyMap))
           (collect_money s things))"

end
