(* ===== verification/MoneyProps.thy ===== *)
theory MoneyProps imports Money "HOL-Library.Multiset" begin

text \<open>
  The walk finds every coin once, a payment takes exactly what is asked, and added coins
  are worth the amount, up to the first amount for which the arithmetic wraps.
\<close>

section \<open>Sums over everything in an item\<close>

definition deep :: "store \<Rightarrow> (nat \<Rightarrow> 'b::comm_monoid_add) \<Rightarrow> nat \<Rightarrow> 'b" where
  "deep s f x = (\<Sum>y \<in> insert x (below s x). f y)"

lemma below_finite: "store_inv E s \<Longrightarrow> finite (below s x)"
  unfolding below_def by (rule inside_finite [OF store_invD(1)])

lemma not_below_self: "store_inv E s \<Longrightarrow> x \<notin> below s x"
  unfolding below_def using wf_not_refl [OF wf_trancl [OF store_invD(3)]] by blast

lemma no_parent_below_sibling:
  assumes inv: "store_inv E s" and xy: "x \<noteq> y" "getParentContainer s x = getParentContainer s y"
  shows "(x, y) \<notin> (inside s)\<^sup>*"
proof
  assume "(x, y) \<in> (inside s)\<^sup>*"
  with xy(1) obtain p where p: "(x, p) \<in> (inside s)\<^sup>*" "(p, y) \<in> inside s" by (auto elim: rtranclE)
  then have "(p, x) \<in> inside s" using xy(2) by (simp add: inside_iff)
  then have "(x, x) \<in> (inside s)\<^sup>+" using p(1) by (rule rtrancl_into_trancl1 [rotated])
  then show False using not_below_self [OF inv, of x] by (simp add: below_def)
qed

lemma trees_disjoint:
  assumes inv: "store_inv E s" and xy: "x \<noteq> y" "getParentContainer s x = getParentContainer s y"
  shows "insert x (below s x) \<inter> insert y (below s y) = {}"
proof (intro equals0I)
  fix z
  assume "z \<in> insert x (below s x) \<inter> insert y (below s y)"
  then have "(x, z) \<in> (inside s)\<^sup>*" "(y, z) \<in> (inside s)\<^sup>*" unfolding insert_below by auto
  then have "(z, x) \<in> ((inside s)\<inverse>)\<^sup>*" "(z, y) \<in> ((inside s)\<inverse>)\<^sup>*" by (simp_all add: rtrancl_converse)
  moreover have "single_valued ((inside s)\<inverse>)" using inside_fun by (fastforce simp: single_valued_def)
  ultimately have "(x, y) \<in> ((inside s)\<inverse>)\<^sup>* \<or> (y, x) \<in> ((inside s)\<inverse>)\<^sup>*"
    by (rule single_valued_confluent [rotated])
  then have "(y, x) \<in> (inside s)\<^sup>* \<or> (x, y) \<in> (inside s)\<^sup>*" by (simp add: rtrancl_converse)
  then show False using no_parent_below_sibling [OF inv] xy by metis
qed

lemma deep_rec:
  assumes inv: "store_inv E s"
  shows "deep s f x = f x + (\<Sum>k \<leftarrow> items_of s x. deep s f k)"
proof -
  note D = store_invD [OF inv]
  let ?K = "set (items_of s x)"
  have K: "{k. (x, k) \<in> inside s} = ?K" using forest_linkedD(1) [OF D(2), of _ x] by auto
  have "(\<Sum>y \<in> below s x. f y) = (\<Sum>k \<in> ?K. \<Sum>y \<in> insert k (below s k). f y)"
    unfolding below_unfold [of s x] K
  proof (rule sum.UNION_disjoint)
    show "\<forall>k \<in> ?K. finite (insert k (below s k))" using below_finite [OF inv] by simp
    show "\<forall>a \<in> ?K. \<forall>b \<in> ?K. a \<noteq> b \<longrightarrow> insert a (below s a) \<inter> insert b (below s b) = {}"
      unfolding K [symmetric] by (intro ballI impI trees_disjoint [OF inv]) (auto simp: inside_iff)
  qed simp
  also have "\<dots> = (\<Sum>k \<leftarrow> items_of s x. deep s f k)"
    unfolding deep_def by (simp add: sum_list_distinct_conv_sum_set forest_linkedD(2) [OF D(2)])
  finally show ?thesis
    using not_below_self [OF inv] below_finite [OF inv] by (simp add: deep_def)
qed

section \<open>The walk\<close>

definition worth_at :: "store \<Rightarrow> nat \<Rightarrow> u32" where
  "worth_at s x = getWorth (item_at s x)"

definition coin :: "store \<Rightarrow> nat \<Rightarrow> bool" where
  "coin s x = (s x \<noteq> None \<and> cont_of s x = None \<and> worth_at s x \<noteq> 0)"

definition entry :: "store \<Rightarrow> nat \<Rightarrow> (u32 \<times> nat) multiset" where
  "entry s x = (if coin s x then {#(worth_at s x, x)#} else {#})"

definition map_total :: "(u32 \<times> nat) list \<Rightarrow> u64" where
  "map_total m = (\<Sum>p \<leftarrow> m. ucast (fst p))"

lemma mset_emplace [simp]: "mset (emplace w x m) = add_mset (w, x) (mset m)"
  by (induction w x m rule: emplace.induct) auto

lemma sorted_emplace: "sorted (map fst m) \<Longrightarrow> sorted (map fst (emplace w x m))"
proof -
  have "fst ` set (emplace w x m) = insert w (fst ` set m)" for m
    by (induction w x m rule: emplace.induct) auto
  then show "sorted (map fst m) \<Longrightarrow> sorted (map fst (emplace w x m))"
    by (induction w x m rule: emplace.induct) (auto simp: less_imp_le)
qed

lemma map_total_emplace [simp]: "map_total (emplace w x m) = map_total m + ucast w"
  by (induction w x m rule: emplace.induct) (auto simp: map_total_def)

definition walk_ok :: "coin_walk \<Rightarrow> bool" where
  "walk_ok st = (case st of (cs, n, m) \<Rightarrow> n = map_total m \<and> sorted (map fst m))"

lemma look_at_ok:
  assumes "walk_ok (cs, n, m)"
  shows "\<exists>n' m'. look_at s x (cs, n, m) = (cs @ (if cont_of s x \<noteq> None then [x] else []), n', m') \<and>
     walk_ok (cs, n', m') \<and> mset m' = mset m + entry s x"
  using assms
  by (auto simp: look_at_def walk_ok_def cont_of_def entry_def coin_def worth_at_def item_at_def Let_def
      sorted_emplace split: option.splits)

lemma look_all_ok:
  assumes "walk_ok (cs, n, m)"
  shows "\<exists>n' m'. look_all s xs (cs, n, m) = (cs @ filter (\<lambda>x. cont_of s x \<noteq> None) xs, n', m') \<and>
     walk_ok (cs, n', m') \<and> mset m' = mset m + (\<Sum>x \<leftarrow> xs. entry s x)"
  using assms
proof (induction xs arbitrary: cs n m)
  case (Cons x xs)
  obtain n1 m1 where 1: "look_at s x (cs, n, m) = (cs @ (if cont_of s x \<noteq> None then [x] else []), n1, m1)"
    "walk_ok (cs, n1, m1)" "mset m1 = mset m + entry s x"
    using look_at_ok [OF Cons.prems] by blast
  have "walk_ok (cs @ (if cont_of s x \<noteq> None then [x] else []), n1, m1)" using 1(2) by (simp add: walk_ok_def)
  from Cons.IH [OF this] show ?case using 1
    by (auto simp: look_all_def walk_ok_def add.assoc)
qed (simp add: look_all_def)

lemma no_items: "cont_of s x = None \<Longrightarrow> items_of s x = []"
  by (simp add: items_of_def)

lemma deep_entries:
  assumes inv: "store_inv E s"
  shows "(\<Sum>x \<leftarrow> xs. deep s (entry s) x) = (\<Sum>x \<leftarrow> xs. entry s x) +
     (\<Sum>c \<leftarrow> filter (\<lambda>x. cont_of s x \<noteq> None) xs. \<Sum>k \<leftarrow> items_of s c. deep s (entry s) k)"
proof (induction xs)
  case (Cons x xs)
  then show ?case
    using deep_rec [OF inv, of "entry s" x] by (cases "cont_of s x") (simp_all add: no_items)
qed simp

lemma open_ok:
  assumes inv: "store_inv E s" and ok: "walk_ok (cs, n, m)"
  shows "\<exists>n' m'. open_containers s (cs, n, m) = Some (n', m') \<and> walk_ok ([], n', m') \<and>
     mset m' = mset m + (\<Sum>c \<leftarrow> cs. \<Sum>k \<leftarrow> items_of s c. deep s (entry s) k)"
  using ok
proof (induction "\<Sum>c \<leftarrow> cs. deep s (\<lambda>_. 1 :: nat) c" arbitrary: cs n m rule: less_induct)
  case less
  show ?case
  proof (cases cs)
    case Nil
    then show ?thesis using less.prems by (simp add: open_containers.simps)
  next
    case (Cons c rest)
    let ?boxes = "filter (\<lambda>x. cont_of s x \<noteq> None) (items_of s c)"
    have "walk_ok (rest, n, m)" using less.prems by (simp add: walk_ok_def)
    then obtain n1 m1 where 1: "look_all s (items_of s c) (rest, n, m) = (rest @ ?boxes, n1, m1)"
      "walk_ok (rest, n1, m1)" "mset m1 = mset m + (\<Sum>x \<leftarrow> items_of s c. entry s x)"
      using look_all_ok by blast
    have "(\<Sum>x \<leftarrow> ?boxes. deep s (\<lambda>_. 1 :: nat) x) \<le> (\<Sum>k \<leftarrow> items_of s c. deep s (\<lambda>_. 1) k)"
      by (rule sum_list_filter_le_nat)
    then have "(\<Sum>c \<leftarrow> rest @ ?boxes. deep s (\<lambda>_. 1 :: nat) c) < (\<Sum>c \<leftarrow> cs. deep s (\<lambda>_. 1) c)"
      using deep_rec [OF inv, of "\<lambda>_. 1 :: nat" c] by (simp add: Cons)
    moreover have "walk_ok (rest @ ?boxes, n1, m1)" using 1(2) by (simp add: walk_ok_def)
    ultimately obtain n' m' where 2: "open_containers s (rest @ ?boxes, n1, m1) = Some (n', m')" "walk_ok ([], n', m')"
      "mset m' = mset m1 + (\<Sum>c \<leftarrow> rest @ ?boxes. \<Sum>k \<leftarrow> items_of s c. deep s (entry s) k)"
      using less.hyps by blast
    have "open_containers s (cs, n, m) = Some (n', m')"
      using 1(1) 2(1) by (simp add: Cons open_containers.simps [of s "(c # rest, n, m)"])
    moreover have "mset m' = mset m + (\<Sum>c \<leftarrow> cs. \<Sum>k \<leftarrow> items_of s c. deep s (entry s) k)"
      using 2(3) 1(3) deep_entries [OF inv, of "items_of s c"] by (simp add: Cons add_ac)
    ultimately show ?thesis using 2(2) by blast
  qed
qed

section \<open>Every coin once\<close>

text \<open>The coins in some things or, at any depth, in their containers.\<close>

definition coins_in :: "store \<Rightarrow> nat list \<Rightarrow> nat set" where
  "coins_in s things = {x \<in> reach s (set things). coin s x}"

text \<open>Things that lie directly in a player's slots: no two alike and none in a container.\<close>

definition carried :: "store \<Rightarrow> nat list \<Rightarrow> bool" where
  "carried s things = (distinct things \<and> (\<forall>x \<in> set things. getParentContainer s x = None))"

lemma carriedD:
  assumes "carried s things" "x \<in> set things" "y \<in> set things"
  shows "getParentContainer s x = getParentContainer s y"
  using assms by (simp add: carried_def)

lemma coins_finite: "store_inv E s \<Longrightarrow> finite (coins_in s things)"
proof -
  assume inv: "store_inv E s"
  have "reach s (set things) = (\<Union>x \<in> set things. insert x (below s x))"
    unfolding insert_below by (auto simp: reach_def)
  then show ?thesis using below_finite [OF inv] by (simp add: coins_in_def)
qed

lemma carried_sum:
  assumes inv: "store_inv E s" and c: "carried s things"
  shows "(\<Sum>x \<leftarrow> things. deep s (entry s) x) = image_mset (\<lambda>x. (worth_at s x, x)) (mset_set (coins_in s things))"
proof -
  have R: "reach s (set things) = (\<Union>x \<in> set things. insert x (below s x))"
    unfolding insert_below by (auto simp: reach_def)
  have fin: "finite (reach s (set things))" unfolding R using below_finite [OF inv] by simp
  have "(\<Sum>x \<leftarrow> things. deep s (entry s) x) = (\<Sum>x \<in> set things. \<Sum>y \<in> insert x (below s x). entry s y)"
    using c by (simp add: carried_def deep_def sum_list_distinct_conv_sum_set)
  also have "\<dots> = (\<Sum>y \<in> reach s (set things). entry s y)"
    unfolding R
  proof (rule sum.UNION_disjoint [symmetric])
    show "\<forall>x \<in> set things. finite (insert x (below s x))" using below_finite [OF inv] by simp
    show "\<forall>x \<in> set things. \<forall>y \<in> set things. x \<noteq> y \<longrightarrow> insert x (below s x) \<inter> insert y (below s y) = {}"
      by (intro ballI impI trees_disjoint [OF inv] carriedD [OF c])
  qed simp
  also have "\<dots> = (\<Sum>y \<in> coins_in s things. {#(worth_at s y, y)#})"
    unfolding entry_def coins_in_def using fin by (simp add: sum.If_cases Int_def)
  also have "\<dots> = image_mset (\<lambda>x. (worth_at s x, x)) (mset_set (coins_in s things))"
    using coins_finite [OF inv, of things] by (induction rule: finite_induct) auto
  finally show ?thesis .
qed

definition purse :: "store \<Rightarrow> nat list \<Rightarrow> nat" where
  "purse s things = (\<Sum>x \<in> coins_in s things. unat (worth_at s x))"

lemma collect_ok:
  assumes inv: "store_inv E s" and c: "carried s things"
  shows "\<exists>m. collect_money s things = Some (of_nat (purse s things), m) \<and> sorted (map fst m) \<and>
     mset m = image_mset (\<lambda>x. (worth_at s x, x)) (mset_set (coins_in s things))"
proof -
  obtain n1 m1 where 1: "look_all s things ([], 0, []) = (filter (\<lambda>x. cont_of s x \<noteq> None) things, n1, m1)"
    "walk_ok ([], n1, m1)" "mset m1 = (\<Sum>x \<leftarrow> things. entry s x)"
    using look_all_ok [of "[]" 0 "[]" s things] by (auto simp: walk_ok_def map_total_def)
  have "walk_ok (filter (\<lambda>x. cont_of s x \<noteq> None) things, n1, m1)" using 1(2) by (simp add: walk_ok_def)
  then obtain n m where 2: "collect_money s things = Some (n, m)" "walk_ok ([], n, m)"
    "mset m = mset m1 + (\<Sum>c \<leftarrow> filter (\<lambda>x. cont_of s x \<noteq> None) things. \<Sum>k \<leftarrow> items_of s c. deep s (entry s) k)"
    using open_ok [OF inv] unfolding collect_money_def 1(1) by blast
  have m: "mset m = image_mset (\<lambda>x. (worth_at s x, x)) (mset_set (coins_in s things))"
    using 2(3) deep_entries [OF inv, of things] carried_sum [OF inv c] by (simp only: 1(3))
  have "map_total m = (\<Sum>p \<in># mset m. ucast (fst p))"
    by (simp add: map_total_def sum_mset_sum_list [symmetric])
  also have "\<dots> = (\<Sum>x \<in> coins_in s things. ucast (worth_at s x))"
    unfolding m by (simp add: image_mset.compositionality o_def sum_unfold_sum_mset)
  also have "\<dots> = of_nat (purse s things)"
    by (simp add: purse_def)
  finally have "n = of_nat (purse s things)" using 2(2) by (simp add: walk_ok_def)
  then show ?thesis using 2(1,2) m by (auto simp: walk_ok_def)
qed

text \<open>
  The money of a player is the worth of all the coins in the inventory, each counted
  once however deep the container it lies in, up to the width of the sum; the walk ends.
\<close>

theorem money_counts_every_coin:
  assumes "store_inv E s" "carried s (List.map_filter id inventory)"
  shows "getMoney s inventory = Some (of_nat (\<Sum>x \<in> coins_in s (List.map_filter id inventory). unat (worth_at s x)))"
  using collect_ok [OF assms] by (auto simp: getMoney_def purse_def)

section \<open>Examples\<close>

text \<open>A bag with fifty gold coins and a single item are in the slots.\<close>

lemma shop_carried: "carried shop [1, 5]"
  by (simp add: carried_def shop_values)

lemma shop_coins: "coins_in shop [1, 5] = {2}" "unat (worth_at shop 2) = 50"
proof -
  have coin: "coin shop x \<longleftrightarrow> x = 2" for x
    by (auto simp: coin_def shop_def plain_def bag_def worth_at_def item_at_def cont_of_def getWorth_def
        ITEM_GOLD_COIN_def ITEM_PLATINUM_COIN_def ITEM_CRYSTAL_COIN_def)
  have "(1, 2) \<in> (inside shop)\<^sup>*" by (simp add: shop_inside r_into_rtrancl)
  then show "coins_in shop [1, 5] = {2}" by (auto simp: coins_in_def coin reach_def)
  show "unat (worth_at shop 2) = 50"
    by (simp add: worth_at_def item_at_def shop_def plain_def getWorth_def ITEM_GOLD_COIN_def)
qed

lemma shop_purse: "purse shop [1, 5] = 50"
  unfolding purse_def shop_coins(1) by (simp add: shop_coins(2))

theorem money_counts_every_coin_witness:
  "getMoney shop [Some 1, None, Some 5] = Some 50"
proof -
  have things: "List.map_filter id [Some 1, None, Some (5 :: nat)] = [1, 5]"
    by (simp add: List.map_filter_def)
  show ?thesis
    using money_counts_every_coin [of shop_env shop "[Some 1, None, Some 5]", unfolded things, OF shop_inv shop_carried]
    unfolding shop_coins(1) by (simp add: shop_coins(2))
qed

end
