(* ===== verification/MoneyTheorems.thy ===== *)
theory MoneyTheorems imports MoneyProps begin

text \<open>
  Added coins and payments: the coins of an amount, the first amount for which the
  arithmetic wraps, and the exact change.
\<close>

section \<open>Coins\<close>

text \<open>What items.otb says of the three coins: they stack and are no fluids.\<close>

definition coins_stack :: "item_table \<Rightarrow> bool" where
  "coins_stack tab = list_all (\<lambda>t. it_stackable (tab t) \<and> \<not> isFluidContainer (tab t) \<and> \<not> isSplash (tab t))
     [ITEM_GOLD_COIN, ITEM_PLATINUM_COIN, ITEM_CRYSTAL_COIN]"

definition stack_worth :: "item_table \<Rightarrow> u16 \<Rightarrow> u16 \<Rightarrow> nat" where
  "stack_worth tab t n = unat (getWorth (newItem tab t n))"

lemma ucast_small_count:
  assumes "unat (n :: u16) \<le> 100"
  shows "unat (ucast n :: u8) = unat n"
  using assms by (simp add: unsigned_ucast_eq take_bit_nat_eq_self)

lemma new_coin:
  assumes "coins_stack tab" "t \<in> {ITEM_GOLD_COIN, ITEM_PLATINUM_COIN, ITEM_CRYSTAL_COIN}" "n \<noteq> 0"
  shows "item_id (newItem tab t n) = t" "item_count (newItem tab t n) = ucast n"
  using assms
  by (auto simp: coins_stack_def newItem_def Let_def setDefaultDuration_def setDuration_def i_setIntAttr_def
      on_attrs_def setItemCount_def)

lemma unat_times_small:
  assumes "unat (c :: u8) \<le> 100" "k \<le> 10000"
  shows "unat ((ucast c :: u32) * of_nat k) = unat c * k"
proof -
  have "unat c * k \<le> 100 * 10000" using assms by (intro mult_le_mono)
  then have "unat c * k < 2 ^ 32" by simp
  moreover have "(ucast c :: u32) * of_nat k = of_nat (unat c * k)" by simp
  ultimately show ?thesis by (simp only: unat_of_nat) simp
qed

lemma coin_worths:
  assumes "coins_stack tab" "n \<noteq> 0" "unat n \<le> 100"
  shows "stack_worth tab ITEM_GOLD_COIN n = unat n"
    and "stack_worth tab ITEM_PLATINUM_COIN n = unat n * 100"
    and "stack_worth tab ITEM_CRYSTAL_COIN n = unat n * 10000"
proof -
  note c = ucast_small_count [OF assms(3)]
  have le: "unat (ucast n :: u8) \<le> 100" using c assms(3) by simp
  show "stack_worth tab ITEM_GOLD_COIN n = unat n"
    using new_coin [OF assms(1) _ assms(2)] unat_times_small [OF le, of 1] c
    by (simp add: stack_worth_def getWorth_def)
  show "stack_worth tab ITEM_PLATINUM_COIN n = unat n * 100"
    using new_coin [OF assms(1) _ assms(2)] unat_times_small [OF le, of 100] c
    by (simp add: stack_worth_def getWorth_def ITEM_GOLD_COIN_def ITEM_PLATINUM_COIN_def)
  show "stack_worth tab ITEM_CRYSTAL_COIN n = unat n * 10000"
    using new_coin [OF assms(1) _ assms(2)] unat_times_small [OF le, of 10000] c
    by (simp add: stack_worth_def getWorth_def ITEM_GOLD_COIN_def ITEM_PLATINUM_COIN_def ITEM_CRYSTAL_COIN_def)
qed

section \<open>Adding an amount\<close>

text \<open>What the new coins are worth, and whether every stack has 1 to 100 coins.\<close>

fun added :: "item_table \<Rightarrow> money_act list \<Rightarrow> nat" where
  "added tab [] = 0"
| "added tab (AddCoins t n # acts) = stack_worth tab t n + added tab acts"
| "added tab (RemoveItem x k # acts) = added tab acts"

fun proper_stacks :: "money_act list \<Rightarrow> bool" where
  "proper_stacks [] = True"
| "proper_stacks (AddCoins t n # acts) = (1 \<le> unat n \<and> unat n \<le> 100 \<and> proper_stacks acts)"
| "proper_stacks (RemoveItem x k # acts) = proper_stacks acts"

lemma added_append [simp]: "added tab (as @ bs) = added tab as + added tab bs"
  by (induction tab as rule: added.induct) auto

lemma proper_append [simp]: "proper_stacks (as @ bs) = (proper_stacks as \<and> proper_stacks bs)"
  by (induction as rule: proper_stacks.induct) auto

lemma crystal_added:
  assumes "coins_stack tab"
  shows "added tab (crystal_loop n) = unat n * 10000 \<and> proper_stacks (crystal_loop n)"
proof (induction n rule: crystal_loop.induct)
  case (1 n)
  show ?case
  proof (cases "n > 0")
    case False
    then have "n = 0" by (simp add: word_gt_0)
    then show ?thesis by (simp add: crystal_loop.simps)
  next
    case True
    let ?c = "ucast (min 100 n) :: u16"
    have le: "unat (min 100 n) \<le> 100" "min 100 n \<le> n" "min 100 n \<noteq> 0"
      using True by (auto simp: min_def word_le_nat_alt)
    have up: "(ucast ?c :: u32) = min 100 n" using le(1) by (intro ucast_down_up) simp
    have c: "unat ?c = unat (min 100 n)"
      using le(1) by (simp add: unsigned_ucast_eq take_bit_nat_eq_self)
    have pos: "0 < unat (min 100 n)" using le(3) by (simp add: unat_gt_0)
    then have c0: "?c \<noteq> 0" using c by (metis unat_0 less_irrefl)
    have IH: "added tab (crystal_loop (n - min 100 n)) = unat (n - min 100 n) * 10000"
      "proper_stacks (crystal_loop (n - min 100 n))"
      using "1.IH" [OF True refl] unfolding up by blast+
    have eq: "crystal_loop n = AddCoins ITEM_CRYSTAL_COIN ?c # crystal_loop (n - min 100 n)"
      using True by (subst crystal_loop.simps) (simp add: Let_def up)
    have "unat (n - min 100 n) + unat (min 100 n) = unat n"
      using le(2) by (simp add: unat_sub word_le_nat_alt)
    then have "unat (min 100 n) * 10000 + unat (n - min 100 n) * 10000 = unat n * 10000"
      by linarith
    then show ?thesis
      using IH c0 c le(1) pos coin_worths(3) [OF assms c0] unfolding eq by simp
  qed
qed

lemma ucast_of_nat_small:
  assumes "n < 2 ^ LENGTH('a::len)" "n < 2 ^ LENGTH('b::len)"
  shows "(ucast (of_nat n :: 'a word) :: 'b word) = of_nat n"
  using assms by (simp add: unsigned_of_nat take_bit_nat_eq_self)

lemma u64_eqI: "unat (w :: u64) = n \<Longrightarrow> w = of_nat n"
  by (drule sym) (simp only: of_nat_unat ucast_id)

text \<open>The three numbers of coins, for any amount whose crystal coins fit.\<close>

lemma addMoney_parts:
  assumes tab: "coins_stack tab" and m: "unat m < 4294970000"
  shows "added tab (addMoney m) = unat m \<and> proper_stacks (addMoney m)"
proof (cases "m = 0")
  case True
  then show ?thesis by (simp add: addMoney_def)
next
  case False
  define q r p g where "q = unat m div 10000" and "r = unat m mod 10000" and "p = r div 100" and "g = r mod 100"
  have b: "q < 429497" "r < 10000" "p < 100" "g < 100"
    using m unfolding q_def r_def p_def g_def by (simp_all add: less_mult_imp_div_less)
  have split: "unat m = q * 10000 + p * 100 + g" "unat m = q * 10000 + r" "r = p * 100 + g"
    by (simp_all add: q_def r_def p_def g_def)
  have "m div 10000 = of_nat q" by (rule u64_eqI) (simp add: unat_div_distrib q_def)
  then have cc: "(ucast (m div 10000) :: u32) = of_nat q" using b(1) by (simp add: ucast_of_nat_small)
  have "(ucast (of_nat q * 10000 :: u32) :: u64) = ucast (of_nat (q * 10000) :: u32)" by simp
  also have "\<dots> = of_nat (q * 10000)" using b(1) by (intro ucast_of_nat_small) simp_all
  finally have "m - ucast (of_nat q * 10000 :: u32) = of_nat (unat m) - of_nat (q * 10000)"
    by (simp only: of_nat_unat ucast_id)
  also have "\<dots> = of_nat r" unfolding split(2) by simp
  finally have m1: "m - ucast (of_nat q * 10000 :: u32) = of_nat r" .
  have "unat (of_nat r div 100 :: u64) = p"
    using b(2) by (simp add: unat_div_distrib unat_of_nat take_bit_nat_eq_self p_def)
  then have "of_nat r div 100 = (of_nat p :: u64)" by (rule u64_eqI)
  then have pp: "(ucast (of_nat r div 100 :: u64) :: u16) = of_nat p" using b(3) by (simp add: ucast_of_nat_small)
  have u: "unat (of_nat p :: u16) = p" "unat (of_nat g :: u16) = g" "unat (of_nat q :: u32) = q"
    "unat (of_nat g :: u64) = g"
    using b by (simp_all add: unat_of_nat take_bit_nat_eq_self)
  have nz: "(of_nat p :: u16) \<noteq> 0 \<longleftrightarrow> p \<noteq> 0" "(of_nat g :: u64) \<noteq> 0 \<longleftrightarrow> g \<noteq> 0"
    using u(1,4) unat_eq_zero [of "of_nat p :: u16"] unat_eq_zero [of "of_nat g :: u64"] by simp_all
  have rest: "(if (of_nat p :: u16) \<noteq> 0 then of_nat r - ucast (of_nat p :: u16) * 100 else of_nat r :: u64) = of_nat g"
  proof (cases "p = 0")
    case True
    then show ?thesis using nz(1) split(3) by simp
  next
    case False
    have "(ucast (of_nat p :: u16) :: u64) = of_nat p" using b(3) by (intro ucast_of_nat_small) simp_all
    then show ?thesis using nz(1) False unfolding split(3) by simp
  qed
  have gg: "(ucast (of_nat g :: u64) :: u16) = of_nat g" using b(4) by (simp add: ucast_of_nat_small)
  have "addMoney m = crystal_loop (of_nat q) @
      (if p \<noteq> 0 then [AddCoins ITEM_PLATINUM_COIN (of_nat p)] else []) @
      (if g \<noteq> 0 then [AddCoins ITEM_GOLD_COIN (of_nat g)] else [])"
    unfolding addMoney_def Let_def cc m1 pp
    unfolding rest
    unfolding gg nz using False by simp
  moreover have "stack_worth tab ITEM_PLATINUM_COIN (of_nat p) = p * 100" if "p \<noteq> 0"
    using coin_worths(2) [OF tab, of "of_nat p"] nz(1) that b(3) u(1) by simp
  moreover have "stack_worth tab ITEM_GOLD_COIN (of_nat g) = g" if "g \<noteq> 0"
  proof -
    have "(of_nat g :: u16) \<noteq> 0" using u(2) that by (metis unat_0)
    then show ?thesis using coin_worths(1) [OF tab, of "of_nat g"] b(4) u(2) by simp
  qed
  ultimately show ?thesis
    using crystal_added [OF tab, of "of_nat q"] b u split(1) by auto
qed

text \<open>
  An amount is added as crystal, platinum and gold coins of exactly that worth, in
  stacks of 1 to 100 coins, for every amount below 4294970000. That bound is sharp: the
  product that takes off the crystal coins is computed with 32 bits, and 4294970000
  gold coins become more than were asked for.
\<close>

theorem added_coins_are_worth_it:
  assumes "coins_stack tab" "unat m < 4294970000"
  shows "added tab (addMoney m) = unat m \<and> proper_stacks (addMoney m) \<and>
    4294970000 < added tab (addMoney 4294970000)"
proof -
  have "addMoney 4294970000 = crystal_loop 429497 @
      [AddCoins ITEM_PLATINUM_COIN 23592, AddCoins ITEM_GOLD_COIN (ucast (4292608096 :: u64))]"
    by (simp add: addMoney_def Let_def)
  moreover have "stack_worth tab ITEM_PLATINUM_COIN 23592 = 4000"
    using new_coin [OF assms(1), of ITEM_PLATINUM_COIN 23592]
    by (simp add: stack_worth_def getWorth_def ITEM_GOLD_COIN_def ITEM_PLATINUM_COIN_def)
  ultimately have "4294970000 < added tab (addMoney 4294970000)"
    using crystal_added [OF assms(1), of 429497] by simp
  then show ?thesis using addMoney_parts [OF assms] by blast
qed

definition coin_table :: item_table where
  "coin_table tid = (shop_table tid)\<lparr>it_stackable := (tid = 2148 \<or> tid = 2152 \<or> tid = 2160)\<rparr>"

lemma coin_table_stack: "coins_stack coin_table"
  by (simp add: coins_stack_def coin_table_def shop_table_def isFluidContainer_def isSplash_def
      ITEM_GOLD_COIN_def ITEM_PLATINUM_COIN_def ITEM_CRYSTAL_COIN_def)

theorem added_coins_are_worth_it_witness:
  "added coin_table (addMoney 123456789) = 123456789 \<and> proper_stacks (addMoney 123456789)"
  using added_coins_are_worth_it [OF coin_table_stack, of 123456789] by simp

section \<open>Paying\<close>

text \<open>The worth of the coins an action takes, and the stacks it touches.\<close>

fun taken :: "store \<Rightarrow> money_act list \<Rightarrow> nat" where
  "taken s [] = 0"
| "taken s (AddCoins t n # acts) = taken s acts"
| "taken s (RemoveItem x None # acts) = unat (worth_at s x) + taken s acts"
| "taken s (RemoveItem x (Some n) # acts) =
     unat n * (unat (worth_at s x) div unat (item_count (item_at s x))) + taken s acts"

fun removals :: "money_act list \<Rightarrow> (nat \<times> u32 option) list" where
  "removals [] = []"
| "removals (AddCoins t n # acts) = removals acts"
| "removals (RemoveItem x k # acts) = (x, k) # removals acts"

definition in_stock :: "store \<Rightarrow> nat \<times> u32 option \<Rightarrow> bool" where
  "in_stock s r = (case r of (x, None) \<Rightarrow> True
     | (x, Some n) \<Rightarrow> 1 \<le> unat n \<and> unat n \<le> unat (item_count (item_at s x)))"

lemma taken_append [simp]: "taken s (as @ bs) = taken s as + taken s bs"
  by (induction s as rule: taken.induct) auto

lemma removals_append [simp]: "removals (as @ bs) = removals as @ removals bs"
  by (induction as rule: removals.induct) auto

lemma crystal_only_adds: "removals (crystal_loop n) = [] \<and> taken s (crystal_loop n) = 0"
proof (induction n rule: crystal_loop.induct)
  case (1 n)
  then show ?case by (subst (1 2) crystal_loop.simps) (auto simp: Let_def)
qed

lemma addMoney_only_adds: "removals (addMoney m) = []" "taken s (addMoney m) = 0"
  by (simp_all add: addMoney_def Let_def crystal_only_adds)

lemma coin_unit:
  assumes "getWorth it \<noteq> 0"
  obtains u where "u \<in> {1, 100, 10000}" "unat (getWorth it) = u * unat (item_count it)"
    "unat (getWorth it div ucast (item_count it)) = u" "0 < unat (item_count it)"
proof -
  let ?k = "unat (item_count it)"
  have k: "?k < 256" using unsigned_less [of "item_count it", where 'a = nat] by simp
  have "\<exists>u \<in> {1, 100, 10000}. getWorth it = ucast (item_count it) * of_nat u"
    using assms by (simp add: getWorth_def split: if_splits)
  then obtain u where u: "u \<in> {1, 100, 10000}" "getWorth it = ucast (item_count it) * of_nat u" by blast
  have "?k * u \<le> 255 * 10000" using u(1) k by (intro mult_le_mono) auto
  then have "?k * u < 2 ^ 32" by simp
  moreover have "getWorth it = of_nat (?k * u)" using u(2) by simp
  ultimately have w: "unat (getWorth it) = ?k * u" by (simp only: unat_of_nat) simp
  have pos: "0 < ?k" using w assms by (metis unat_eq_zero mult_0 neq0_conv)
  have "unat (ucast (item_count it) :: u32) = ?k" by (rule unat_ucast_up) simp
  then have "unat (getWorth it div ucast (item_count it)) = u"
    using w pos by (simp add: unat_div_distrib)
  then show thesis using that u(1) w pos by (simp add: mult.commute)
qed

text \<open>The coins of a stack rounded up to an amount below its worth.\<close>

lemma round_up:
  fixes a u k :: nat
  assumes "0 < a" "a < u * k" "0 < u"
  defines "n \<equiv> (a + u - 1) div u"
  shows "a \<le> n * u" "n * u < a + u" "1 \<le> n" "n \<le> k"
proof -
  have d: "n * u + (a + u - 1) mod u = a + u - 1" unfolding n_def by (rule div_mult_mod_eq)
  have m: "(a + u - 1) mod u < u" using assms(3) by simp
  show lo: "a \<le> n * u" using d m by linarith
  show hi: "n * u < a + u" using d assms(1) by linarith
  show "1 \<le> n" using lo assms(1) by (cases n) auto
  have "n * u < Suc k * u" using hi assms(2) by (simp add: mult.commute)
  then have "n < Suc k" by (simp only: mult_less_cancel2)
  then show "n \<le> k" by (simp only: less_Suc_eq_le)
qed

lemma pay_split:
  assumes tab: "coins_stack tab" and c: "coin s x" and money: "0 < unat money" "unat money < unat (worth_at s x)"
  defines "acts \<equiv> pay s money [(worth_at s x, x)]"
  shows "taken s acts = unat money + added tab acts" "proper_stacks acts"
    "\<exists>n. removals acts = [(x, Some n)] \<and> in_stock s (x, Some n)"
proof -
  let ?it = "item_at s x" let ?w = "worth_at s x"
  have "getWorth ?it \<noteq> 0" using c by (simp add: coin_def worth_at_def)
  then obtain u where u: "u \<in> {1, 100, 10000}" "unat ?w = u * unat (item_count ?it)"
    "unat (?w div ucast (item_count ?it)) = u" "0 < unat (item_count ?it)"
    unfolding worth_at_def by (rule coin_unit)
  define n where "n = (unat money + u - 1) div u"
  have u0: "0 < u" "u \<le> 10000" using u(1) by auto
  have n: "unat money \<le> n * u" "n * u < unat money + u" "1 \<le> n" "n \<le> unat (item_count ?it)"
    using round_up [OF money(1) _ u0(1), of "unat (item_count ?it)"] money(2) u(2) by (simp_all add: n_def)
  have n256: "n < 256" using n(4) unsigned_less [of "item_count ?it", where 'a = nat] by simp
  have un: "unat (of_nat n :: u32) = n" using n256 by (simp add: unat_of_nat take_bit_nat_eq_self)
  have "n * u \<le> 255 * 10000" using n256 u0(2) by (intro mult_le_mono) auto
  then have small: "n * u < 2 ^ 32" by simp
  have div: "?w div ucast (item_count ?it) = of_nat u"
    using u(3) by (metis of_nat_unat ucast_id)
  have uu: "unat (of_nat u :: u32) = u" using u0(2) by (simp add: unat_of_nat take_bit_nat_eq_self)
  have prod: "(of_nat u * of_nat n :: u32) = of_nat (n * u)" by simp
  have "ucast (of_nat (n * u) :: u32) = (of_nat (n * u) :: u64)" using small by (intro ucast_of_nat_small) simp_all
  then have change: "unat (ucast (of_nat (n * u) :: u32) - money) = n * u - unat money"
    using n(1) small by (subst unat_sub) (simp_all add: word_le_nat_alt unat_of_nat take_bit_nat_eq_self del: of_nat_mult)
  have acts: "acts = addMoney (ucast (of_nat (n * u) :: u32) - money) @ [RemoveItem x (Some (of_nat n))]"
    using money u(3) unfolding acts_def
    by (simp add: word_less_nat_alt Let_def div uu n_def [symmetric, unfolded One_nat_def] prod del: of_nat_mult)
  have "unat (ucast (of_nat (n * u) :: u32) - money) < 4294970000" unfolding change using n(2) u0(2) by simp
  note sum = addMoney_parts [OF tab this]
  have "u * unat (item_count ?it) div unat (item_count ?it) = u" using u(4) by simp
  then show "taken s acts = unat money + added tab acts"
    using n(1) sum unfolding acts by (simp add: addMoney_only_adds un u(2) change del: of_nat_mult)
  show "proper_stacks acts" using sum unfolding acts by simp
  show "\<exists>n. removals acts = [(x, Some n)] \<and> in_stock s (x, Some n)"
    using n(3,4) unfolding acts by (simp add: addMoney_only_adds in_stock_def un)
qed

lemma pay_ok:
  assumes tab: "coins_stack tab"
    and m: "\<And>w x. (w, x) \<in> set m \<Longrightarrow> w = worth_at s x \<and> coin s x"
    and money: "0 < unat money" "unat money \<le> (\<Sum>p \<leftarrow> m. unat (fst p))"
  shows "taken s (pay s money m) = unat money + added tab (pay s money m) \<and> proper_stacks (pay s money m) \<and>
     (\<exists>k. map fst (removals (pay s money m)) = map snd (take k m)) \<and>
     list_all (in_stock s) (removals (pay s money m))"
  using m money
proof (induction m arbitrary: money)
  case (Cons p m)
  obtain w x where p: "p = (w, x)" by (cases p)
  have wx: "w = worth_at s x" "coin s x" using Cons.prems(1) p by auto
  consider "unat w < unat money" | "unat w = unat money" | "unat money < unat w" by linarith
  then show ?case
  proof cases
    case 1
    then have eq: "pay s money (p # m) = RemoveItem x None # pay s (money - ucast w) m"
      by (simp add: p word_less_nat_alt)
    have d: "unat (money - ucast w) = unat money - unat w"
      using 1 by (subst unat_sub) (simp_all add: word_le_nat_alt)
    have le: "unat (money - ucast w) \<le> (\<Sum>p \<leftarrow> m. unat (fst p))" "0 < unat (money - ucast w)"
      using Cons.prems(3) 1 d by (simp_all add: p)
    have "w = worth_at s x \<and> coin s x" if "(w, x) \<in> set m" for w x
      by (rule Cons.prems(1)) (simp add: that)
    note IH = Cons.IH [OF this le(2,1)]
    then obtain k where "map fst (removals (pay s (money - ucast w) m)) = map snd (take k m)" by blast
    then have "map fst (removals (pay s money (p # m))) = map snd (take (Suc k) (p # m))"
      unfolding eq by (simp add: p)
    moreover have whole: "in_stock s (x, None)" by (simp add: in_stock_def)
    ultimately have pre: "\<exists>k. map fst (removals (pay s money (p # m))) = map snd (take k (p # m))" by blast
    have "taken s (pay s money (p # m)) = unat money + added tab (pay s money (p # m))"
      "proper_stacks (pay s money (p # m))" "list_all (in_stock s) (removals (pay s money (p # m)))"
      using IH d 1 wx(1) whole unfolding eq by simp_all
    with pre show ?thesis by blast
  next
    case 2
    then have "pay s money (p # m) = [RemoveItem x None]" by (simp add: p word_less_nat_alt)
    then show ?thesis using 2 wx(1) by (auto simp: in_stock_def p intro: exI [of _ 1])
  next
    case 3
    then have eq: "pay s money (p # m) = pay s money [(worth_at s x, x)]"
      by (simp add: p wx(1) word_less_nat_alt)
    note split = pay_split [OF tab wx(2) Cons.prems(2) 3 [unfolded wx(1)]]
    obtain n where "removals (pay s money (p # m)) = [(x, Some n)]" "in_stock s (x, Some n)"
      using split(3) unfolding eq by blast
    then show ?thesis using split(1,2) unfolding eq by (auto simp: p intro: exI [of _ 1])
  qed
qed simp

lemma pay_whole_but_last: "list_all (\<lambda>r. snd r = None) (butlast (removals (pay s money m)))"
  by (induction s money m rule: pay.induct) (simp_all add: Let_def addMoney_only_adds)

lemma mset_set_list:
  assumes "mset xs = mset_set A" "finite A"
  shows "distinct xs" "set xs = A"
proof -
  show set: "set xs = A" using assms by (metis set_mset_mset finite_set_mset_mset_set)
  show "distinct xs" unfolding distinct_count_atmost_1 using assms set by simp
qed

text \<open>
  C24. Paying an amount succeeds exactly when the player's coins are worth it (together less than
  2 to the 64), and then the coins taken, less the change given back, are worth exactly the amount;
  stacks are taken each once and only such that the player has; every stack but the last is taken
  whole, and of the last, when it is not, at least one coin and no more than it has are removed. The
  change comes in proper stacks. A refused payment takes nothing.
\<close>

theorem payment_is_exact:
  assumes "store_inv E s" "carried s things" "coins_stack tab" "money \<noteq> 0" "purse s things < 2 ^ 64"
  shows "\<exists>acts. removeMoney s things money = Some (unat money \<le> purse s things, acts) \<and>
    (if unat money \<le> purse s things
     then taken s acts = unat money + added tab acts \<and> proper_stacks acts \<and>
          distinct (map fst (removals acts)) \<and> set (map fst (removals acts)) \<subseteq> coins_in s things \<and>
          list_all (in_stock s) (removals acts) \<and>
          list_all (\<lambda>r. snd r = None) (butlast (removals acts))
     else acts = [])"
proof -
  obtain m where m: "collect_money s things = Some (of_nat (purse s things), m)"
    "mset m = image_mset (\<lambda>x. (worth_at s x, x)) (mset_set (coins_in s things))"
    using collect_ok [OF assms(1,2)] by blast
  have "unat (of_nat (purse s things) :: u64) = purse s things"
    using assms(5) by (simp add: unat_of_nat take_bit_nat_eq_self)
  then have enough: "(of_nat (purse s things) :: u64) < money \<longleftrightarrow> purse s things < unat money"
    by (simp add: word_less_nat_alt)
  then have eq: "removeMoney s things money =
      Some (unat money \<le> purse s things, if unat money \<le> purse s things then pay s money m else [])"
    using m(1) assms(4) by (auto simp: removeMoney_def)
  have "mset (map snd m) = mset_set (coins_in s things)"
    unfolding mset_map m(2) by (simp add: image_mset.compositionality o_def)
  then have keys: "distinct (map snd m)" "set (map snd m) = coins_in s things"
    using mset_set_list coins_finite [OF assms(1)] by blast+
  have "(\<Sum>p \<leftarrow> m. unat (fst p)) = (\<Sum>p \<in># mset m. unat (fst p))" by (simp add: sum_mset_sum_list [symmetric])
  also have "\<dots> = purse s things"
    unfolding m(2) by (simp add: image_mset.compositionality o_def purse_def sum_unfold_sum_mset)
  finally have sum: "(\<Sum>p \<leftarrow> m. unat (fst p)) = purse s things" .
  have entries: "w = worth_at s x \<and> coin s x" if "(w, x) \<in> set m" for w x
  proof -
    have "(w, x) \<in># mset m" using that by simp
    then show ?thesis unfolding m(2) using coins_finite [OF assms(1)] by (auto simp: coins_in_def)
  qed
  show ?thesis
  proof (cases "unat money \<le> purse s things")
    case False
    then show ?thesis using eq by auto
  next
    case True
    have "0 < unat money" using assms(4) by (simp add: unat_gt_0)
    note ok = pay_ok [OF assms(3) entries this True [folded sum]]
    then obtain k where k: "map fst (removals (pay s money m)) = map snd (take k m)" by blast
    have "distinct (map snd (take k m))" "set (map snd (take k m)) \<subseteq> coins_in s things"
      using keys set_take_subset [of k "map snd m"] by (simp_all add: take_map [symmetric])
    then have touched: "distinct (map fst (removals (pay s money m)))"
      "set (map fst (removals (pay s money m))) \<subseteq> coins_in s things"
      unfolding k by blast+
    show ?thesis
      by (rule exI [of _ "pay s money m"]) (use eq ok True touched pay_whole_but_last in simp)
  qed
qed

theorem payment_is_exact_witness:
  "\<exists>acts. removeMoney shop [1, 5] 20 = Some (True, acts) \<and> taken shop acts = 20 + added coin_table acts"
  using payment_is_exact [OF shop_inv shop_carried coin_table_stack, of 20]
  unfolding shop_purse by auto

end
