(* ===== verification/Tiles.thy ===== *)
theory Tiles imports Containers begin

text \<open>
  A tile of the map (tile.h, tile.cpp): the ground, the items and the creatures on it, and a
  word of flags that caches what its items are. The items are one vector whose first
  \<open>downItemCount\<close> elements lie below the creatures; the others are always on top. Objects live at
  addresses; a missing vector of a static tile is the empty list. What is sent to
  spectators, the browse-field containers and the scripts are left out.
\<close>

section \<open>Types and objects\<close>

text \<open>The members of \<open>ItemType\<close> that tiles read, beside those of the table of items.\<close>

record ground_type =
  gt_alwaysOnTop :: bool
  gt_alwaysOnTopOrder :: u8
  gt_floorChange :: u8
  gt_blockSolid :: bool
  gt_blockPathFind :: bool
  gt_blockProjectile :: bool
  gt_hasHeight :: bool
  gt_isVertical :: bool
  gt_isHorizontal :: bool
  gt_isHangable :: bool
  gt_allowPickupable :: bool
  gt_lookThrough :: bool
  gt_replaceable :: bool

datatype item_class =
    PlainItem | TeleportItem | MagicFieldItem | MailboxItem | TrashHolderItem | BedItem
  | ContainerItem | DepotLockerItem

record tile_obj =
  to_item :: item
  to_class :: item_class
  to_parent :: "nat option"

record tile_env =
  te_items :: item_table
  te_types :: "u16 \<Rightarrow> ground_type"
  te_self :: nat

record tile =
  tl_ground :: "nat option"
  tl_items :: "nat list"
  tl_down :: nat
  tl_creatures :: "nat list"
  tl_flags :: u32
  tl_objs :: "nat \<Rightarrow> tile_obj"

datatype tile_thing = ItemThing nat | CreatureThing nat

definition id_of :: "tile \<Rightarrow> nat \<Rightarrow> u16" where
  "id_of t x = item_id (to_item (tl_objs t x))"

definition type_of :: "tile_env \<Rightarrow> tile \<Rightarrow> nat \<Rightarrow> item_type" where
  "type_of E t x = te_items E (id_of t x)"

definition gtype :: "tile_env \<Rightarrow> tile \<Rightarrow> nat \<Rightarrow> ground_type" where
  "gtype E t x = te_types E (id_of t x)"

definition isGroundTile :: "item_type \<Rightarrow> bool" where
  "isGroundTile it = (it_group it = ITEM_GROUP_GROUND)"

definition isMagicFieldType :: "item_type \<Rightarrow> bool" where
  "isMagicFieldType it = (it_type it = ITEM_TYPE_MAGICFIELD)"

definition isBedType :: "item_type \<Rightarrow> bool" where
  "isBedType it = (it_type it = ITEM_TYPE_BED)"

definition on_top :: "tile_env \<Rightarrow> tile \<Rightarrow> nat \<Rightarrow> bool" where
  "on_top E t x = gt_alwaysOnTop (gtype E t x)"

definition top_order :: "tile_env \<Rightarrow> tile \<Rightarrow> nat \<Rightarrow> u8" where
  "top_order E t x = gt_alwaysOnTopOrder (gtype E t x)"

definition set_parent :: "nat option \<Rightarrow> nat \<Rightarrow> tile \<Rightarrow> tile" where
  "set_parent p x t = t\<lparr>tl_objs := (tl_objs t)(x := (tl_objs t x)\<lparr>to_parent := p\<rparr>)\<rparr>"

definition change_obj :: "(item \<Rightarrow> item) \<Rightarrow> nat \<Rightarrow> tile \<Rightarrow> tile" where
  "change_obj f x t = t\<lparr>tl_objs := (tl_objs t)(x := (tl_objs t x)\<lparr>to_item := f (to_item (tl_objs t x))\<rparr>)\<rparr>"

definition downItems :: "tile \<Rightarrow> nat list" where
  "downItems t = take (tl_down t) (tl_items t)"

definition topItems :: "tile \<Rightarrow> nat list" where
  "topItems t = drop (tl_down t) (tl_items t)"

section \<open>Properties\<close>

datatype item_property =
    CONST_PROP_BLOCKSOLID | CONST_PROP_HASHEIGHT | CONST_PROP_BLOCKPROJECTILE | CONST_PROP_BLOCKPATH
  | CONST_PROP_ISVERTICAL | CONST_PROP_ISHORIZONTAL | CONST_PROP_MOVEABLE
  | CONST_PROP_IMMOVABLEBLOCKSOLID | CONST_PROP_IMMOVABLEBLOCKPATH
  | CONST_PROP_IMMOVABLENOFIELDBLOCKPATH | CONST_PROP_NOFIELDBLOCKPATH | CONST_PROP_SUPPORTHANGABLE

fun item_hasProperty :: "tile_env \<Rightarrow> item \<Rightarrow> item_property \<Rightarrow> bool" where
  "item_hasProperty E it prop =
     (let t = te_items E (item_id it); g = te_types E (item_id it);
          unique = i_hasAttribute ITEM_ATTRIBUTE_UNIQUEID it in
      case prop of
        CONST_PROP_BLOCKSOLID \<Rightarrow> gt_blockSolid g
      | CONST_PROP_MOVEABLE \<Rightarrow> it_moveable t \<and> \<not> unique
      | CONST_PROP_HASHEIGHT \<Rightarrow> gt_hasHeight g
      | CONST_PROP_BLOCKPROJECTILE \<Rightarrow> gt_blockProjectile g
      | CONST_PROP_BLOCKPATH \<Rightarrow> gt_blockPathFind g
      | CONST_PROP_ISVERTICAL \<Rightarrow> gt_isVertical g
      | CONST_PROP_ISHORIZONTAL \<Rightarrow> gt_isHorizontal g
      | CONST_PROP_IMMOVABLEBLOCKSOLID \<Rightarrow> gt_blockSolid g \<and> (\<not> it_moveable t \<or> unique)
      | CONST_PROP_IMMOVABLEBLOCKPATH \<Rightarrow> gt_blockPathFind g \<and> (\<not> it_moveable t \<or> unique)
      | CONST_PROP_IMMOVABLENOFIELDBLOCKPATH \<Rightarrow>
          \<not> isMagicFieldType t \<and> gt_blockPathFind g \<and> (\<not> it_moveable t \<or> unique)
      | CONST_PROP_NOFIELDBLOCKPATH \<Rightarrow> \<not> isMagicFieldType t \<and> gt_blockPathFind g
      | CONST_PROP_SUPPORTHANGABLE \<Rightarrow> gt_isHorizontal g \<or> gt_isVertical g)"

definition obj_hasProperty :: "tile_env \<Rightarrow> tile \<Rightarrow> nat \<Rightarrow> item_property \<Rightarrow> bool" where
  "obj_hasProperty E t x prop = item_hasProperty E (to_item (tl_objs t x)) prop"

text \<open>\<open>Tile::hasProperty\<close>, without and with an item that does not count.\<close>

definition tile_hasProperty :: "tile_env \<Rightarrow> tile \<Rightarrow> item_property \<Rightarrow> bool" where
  "tile_hasProperty E t prop =
     ((case tl_ground t of None \<Rightarrow> False | Some g \<Rightarrow> obj_hasProperty E t g prop) \<or>
      list_ex (\<lambda>x. obj_hasProperty E t x prop) (tl_items t))"

definition other_hasProperty :: "tile_env \<Rightarrow> tile \<Rightarrow> nat \<Rightarrow> item_property \<Rightarrow> bool" where
  "other_hasProperty E t exclude prop =
     ((case tl_ground t of None \<Rightarrow> False | Some g \<Rightarrow> exclude \<noteq> g \<and> obj_hasProperty E t g prop) \<or>
      list_ex (\<lambda>x. x \<noteq> exclude \<and> obj_hasProperty E t x prop) (tl_items t))"

fun height_from :: "tile_env \<Rightarrow> tile \<Rightarrow> nat \<Rightarrow> nat \<Rightarrow> nat list \<Rightarrow> bool" where
  "height_from E t n height [] = False"
| "height_from E t n height (x # xs) =
     (let height = (if obj_hasProperty E t x CONST_PROP_HASHEIGHT then height + 1 else height)
      in if n = height then True else height_from E t n height xs)"

definition hasHeight :: "tile_env \<Rightarrow> tile \<Rightarrow> nat \<Rightarrow> bool" where
  "hasHeight E t n =
     height_from E t n 0 ((case tl_ground t of None \<Rightarrow> [] | Some g \<Rightarrow> [g]) @ tl_items t)"

section \<open>Flags\<close>

definition TILESTATE_FLOORCHANGE_DOWN :: u32 where "TILESTATE_FLOORCHANGE_DOWN = push_bit 0 1"
definition TILESTATE_FLOORCHANGE_NORTH :: u32 where "TILESTATE_FLOORCHANGE_NORTH = push_bit 1 1"
definition TILESTATE_FLOORCHANGE_SOUTH :: u32 where "TILESTATE_FLOORCHANGE_SOUTH = push_bit 2 1"
definition TILESTATE_FLOORCHANGE_EAST :: u32 where "TILESTATE_FLOORCHANGE_EAST = push_bit 3 1"
definition TILESTATE_FLOORCHANGE_WEST :: u32 where "TILESTATE_FLOORCHANGE_WEST = push_bit 4 1"
definition TILESTATE_FLOORCHANGE_SOUTH_ALT :: u32 where "TILESTATE_FLOORCHANGE_SOUTH_ALT = push_bit 5 1"
definition TILESTATE_FLOORCHANGE_EAST_ALT :: u32 where "TILESTATE_FLOORCHANGE_EAST_ALT = push_bit 6 1"
definition TILESTATE_PROTECTIONZONE :: u32 where "TILESTATE_PROTECTIONZONE = push_bit 7 1"
definition TILESTATE_NOPVPZONE :: u32 where "TILESTATE_NOPVPZONE = push_bit 8 1"
definition TILESTATE_NOLOGOUT :: u32 where "TILESTATE_NOLOGOUT = push_bit 9 1"
definition TILESTATE_PVPZONE :: u32 where "TILESTATE_PVPZONE = push_bit 10 1"
definition TILESTATE_TELEPORT :: u32 where "TILESTATE_TELEPORT = push_bit 11 1"
definition TILESTATE_MAGICFIELD :: u32 where "TILESTATE_MAGICFIELD = push_bit 12 1"
definition TILESTATE_MAILBOX :: u32 where "TILESTATE_MAILBOX = push_bit 13 1"
definition TILESTATE_TRASHHOLDER :: u32 where "TILESTATE_TRASHHOLDER = push_bit 14 1"
definition TILESTATE_BED :: u32 where "TILESTATE_BED = push_bit 15 1"
definition TILESTATE_DEPOT :: u32 where "TILESTATE_DEPOT = push_bit 16 1"
definition TILESTATE_BLOCKSOLID :: u32 where "TILESTATE_BLOCKSOLID = push_bit 17 1"
definition TILESTATE_BLOCKPATH :: u32 where "TILESTATE_BLOCKPATH = push_bit 18 1"
definition TILESTATE_IMMOVABLEBLOCKSOLID :: u32 where "TILESTATE_IMMOVABLEBLOCKSOLID = push_bit 19 1"
definition TILESTATE_IMMOVABLEBLOCKPATH :: u32 where "TILESTATE_IMMOVABLEBLOCKPATH = push_bit 20 1"
definition TILESTATE_IMMOVABLENOFIELDBLOCKPATH :: u32 where "TILESTATE_IMMOVABLENOFIELDBLOCKPATH = push_bit 21 1"
definition TILESTATE_NOFIELDBLOCKPATH :: u32 where "TILESTATE_NOFIELDBLOCKPATH = push_bit 22 1"
definition TILESTATE_SUPPORTS_HANGABLE :: u32 where "TILESTATE_SUPPORTS_HANGABLE = push_bit 23 1"

definition TILESTATE_FLOORCHANGE :: u32 where
  "TILESTATE_FLOORCHANGE =
     TILESTATE_FLOORCHANGE_DOWN OR TILESTATE_FLOORCHANGE_NORTH OR TILESTATE_FLOORCHANGE_SOUTH OR
     TILESTATE_FLOORCHANGE_EAST OR TILESTATE_FLOORCHANGE_WEST OR TILESTATE_FLOORCHANGE_SOUTH_ALT OR
     TILESTATE_FLOORCHANGE_EAST_ALT"

definition hasFlag :: "u32 \<Rightarrow> tile \<Rightarrow> bool" where
  "hasFlag flag t = hasBitSet flag (tl_flags t)"

definition setFlag :: "u32 \<Rightarrow> tile \<Rightarrow> tile" where
  "setFlag flag t = t\<lparr>tl_flags := tl_flags t OR flag\<rparr>"

definition resetFlag :: "u32 \<Rightarrow> tile \<Rightarrow> tile" where
  "resetFlag flag t = t\<lparr>tl_flags := tl_flags t AND NOT flag\<rparr>"

definition set_if :: "bool \<Rightarrow> u32 \<Rightarrow> tile \<Rightarrow> tile" where
  "set_if b flag t = (if b then setFlag flag t else t)"

definition reset_if :: "bool \<Rightarrow> u32 \<Rightarrow> tile \<Rightarrow> tile" where
  "reset_if b flag t = (if b then resetFlag flag t else t)"

text \<open>The floor changes are one byte whose bits are those of the flags.\<close>

definition setTileFlags :: "tile_env \<Rightarrow> nat \<Rightarrow> tile \<Rightarrow> tile" where
  "setTileFlags E x t =
     (let cls = to_class (tl_objs t x); has = obj_hasProperty E t x;
          t = set_if (\<not> hasFlag TILESTATE_FLOORCHANGE t \<and> gt_floorChange (gtype E t x) \<noteq> 0)
                (ucast (gt_floorChange (gtype E t x))) t;
          t = set_if (has CONST_PROP_IMMOVABLEBLOCKSOLID) TILESTATE_IMMOVABLEBLOCKSOLID t;
          t = set_if (has CONST_PROP_BLOCKPATH) TILESTATE_BLOCKPATH t;
          t = set_if (has CONST_PROP_NOFIELDBLOCKPATH) TILESTATE_NOFIELDBLOCKPATH t;
          t = set_if (has CONST_PROP_IMMOVABLENOFIELDBLOCKPATH) TILESTATE_IMMOVABLENOFIELDBLOCKPATH t;
          t = set_if (cls = TeleportItem) TILESTATE_TELEPORT t;
          t = set_if (cls = MagicFieldItem) TILESTATE_MAGICFIELD t;
          t = set_if (cls = MailboxItem) TILESTATE_MAILBOX t;
          t = set_if (cls = TrashHolderItem) TILESTATE_TRASHHOLDER t;
          t = set_if (has CONST_PROP_BLOCKSOLID) TILESTATE_BLOCKSOLID t;
          t = set_if (cls = BedItem) TILESTATE_BED t;
          t = set_if (cls = DepotLockerItem) TILESTATE_DEPOT t
      in set_if (has CONST_PROP_SUPPORTHANGABLE) TILESTATE_SUPPORTS_HANGABLE t)"

definition resetTileFlags :: "tile_env \<Rightarrow> nat \<Rightarrow> tile \<Rightarrow> tile" where
  "resetTileFlags E x t =
     (let cls = to_class (tl_objs t x); has = obj_hasProperty E t x;
          last = (\<lambda>prop. obj_hasProperty E t x prop \<and> \<not> other_hasProperty E t x prop);
          t = reset_if (gt_floorChange (gtype E t x) \<noteq> 0) TILESTATE_FLOORCHANGE t;
          t = reset_if (last CONST_PROP_BLOCKSOLID) TILESTATE_BLOCKSOLID t;
          t = reset_if (last CONST_PROP_IMMOVABLEBLOCKSOLID) TILESTATE_IMMOVABLEBLOCKSOLID t;
          t = reset_if (last CONST_PROP_BLOCKPATH) TILESTATE_BLOCKPATH t;
          t = reset_if (last CONST_PROP_NOFIELDBLOCKPATH) TILESTATE_NOFIELDBLOCKPATH t;
          t = reset_if (last CONST_PROP_IMMOVABLEBLOCKPATH) TILESTATE_IMMOVABLEBLOCKPATH t;
          t = reset_if (last CONST_PROP_IMMOVABLENOFIELDBLOCKPATH) TILESTATE_IMMOVABLENOFIELDBLOCKPATH t;
          t = reset_if (cls = TeleportItem) TILESTATE_TELEPORT t;
          t = reset_if (cls = MagicFieldItem) TILESTATE_MAGICFIELD t;
          t = reset_if (cls = MailboxItem) TILESTATE_MAILBOX t;
          t = reset_if (cls = TrashHolderItem) TILESTATE_TRASHHOLDER t;
          t = reset_if (cls = BedItem) TILESTATE_BED t;
          t = reset_if (cls = DepotLockerItem) TILESTATE_DEPOT t
      in reset_if (has CONST_PROP_SUPPORTHANGABLE) TILESTATE_SUPPORTS_HANGABLE t)"


section \<open>Adding\<close>

text \<open>
  \<open>TileItemVector\<close>: an item goes below the creatures at the front of the vector, and among
  the items on top before the first one the test stops at. The count of the items below is
  16 bits wide.
\<close>

definition tile_push_down :: "nat \<Rightarrow> tile \<Rightarrow> tile" where
  "tile_push_down x t = t\<lparr>tl_items := x # tl_items t, tl_down := (tl_down t + 1) mod 2 ^ 16\<rparr>"

fun insert_before :: "(nat \<Rightarrow> bool) \<Rightarrow> nat \<Rightarrow> nat list \<Rightarrow> nat list" where
  "insert_before stop x [] = [x]"
| "insert_before stop x (y # ys) = (if stop y then x # y # ys else y # insert_before stop x ys)"

definition insert_top :: "(nat \<Rightarrow> bool) \<Rightarrow> nat \<Rightarrow> tile \<Rightarrow> tile" where
  "insert_top stop x t = t\<lparr>tl_items := downItems t @ insert_before stop x (topItems t)\<rparr>"

definition add_creature :: "nat \<Rightarrow> tile \<Rightarrow> tile" where
  "add_creature c t = t\<lparr>tl_creatures := c # tl_creatures t\<rparr>"

fun tile_internalAddThing :: "tile_env \<Rightarrow> tile_thing \<Rightarrow> tile \<Rightarrow> tile" where
  "tile_internalAddThing E (CreatureThing c) t = add_creature c t"
| "tile_internalAddThing E (ItemThing x) t =
     (let t = set_parent (Some (te_self E)) x t in
      if isGroundTile (type_of E t x) then
        (if tl_ground t = None then setTileFlags E x (t\<lparr>tl_ground := Some x\<rparr>) else t)
      else if 0xFFFF \<le> length (tl_items t) then t
      else
        let t = (if on_top E t x then insert_top (\<lambda>y. top_order E t x < top_order E t y) x t
                 else tile_push_down x t)
        in setTileFlags E x t)"

section \<open>Indices\<close>

text \<open>\<open>getThingIndex\<close>: the ground, the items on top, the creatures, the items below.\<close>

definition ground_count :: "tile \<Rightarrow> nat" where
  "ground_count t = (if tl_ground t = None then 0 else 1)"

definition found_at :: "nat option \<Rightarrow> int" where
  "found_at i = (case i of None \<Rightarrow> -1 | Some n \<Rightarrow> int n)"

fun tile_getThingIndex :: "tile_env \<Rightarrow> tile \<Rightarrow> tile_thing \<Rightarrow> int" where
  "tile_getThingIndex E t (CreatureThing c) =
     found_at (index_from (ground_count t + length (topItems t)) c (tl_creatures t))"
| "tile_getThingIndex E t (ItemThing x) =
     (if tl_ground t = Some x then 0
      else if on_top E t x then found_at (index_from (ground_count t) x (topItems t))
      else found_at (index_from (ground_count t + length (topItems t) + length (tl_creatures t)) x
                       (downItems t)))"

definition thing_at :: "nat \<Rightarrow> tile \<Rightarrow> tile_thing option" where
  "thing_at n t =
     (let top = length (tl_items t) - tl_down t in
      if n < top then Some (ItemThing (tl_items t ! (tl_down t + n)))
      else if n - top < length (tl_creatures t) then Some (CreatureThing (tl_creatures t ! (n - top)))
      else if n - top - length (tl_creatures t) < tl_down t
        then Some (ItemThing (tl_items t ! (n - top - length (tl_creatures t))))
      else None)"

definition tile_getThing :: "tile \<Rightarrow> nat \<Rightarrow> tile_thing option" where
  "tile_getThing t n =
     (case tl_ground t of
        Some g \<Rightarrow> if n = 0 then Some (ItemThing g) else thing_at (n - 1) t
      | None \<Rightarrow> thing_at n t)"

section \<open>Removing\<close>

definition erase_top :: "nat \<Rightarrow> tile \<Rightarrow> tile" where
  "erase_top x t = t\<lparr>tl_items := downItems t @ erase_first x (topItems t)\<rparr>"

definition erase_down :: "nat \<Rightarrow> tile \<Rightarrow> tile" where
  "erase_down x t = t\<lparr>tl_items := erase_first x (downItems t) @ topItems t, tl_down := tl_down t - 1\<rparr>"

text \<open>What is left of a stack: the subtraction is one of 32 bits, its sign is looked at after.\<close>

definition count_left :: "u8 \<Rightarrow> u32 \<Rightarrow> u8" where
  "count_left have count = word_of_int (max 0 (sint (ucast have - count)))"

fun tile_removeThing :: "tile_env \<Rightarrow> tile_thing \<Rightarrow> u32 \<Rightarrow> tile \<Rightarrow> tile" where
  "tile_removeThing E (CreatureThing c) count t = t\<lparr>tl_creatures := erase_first c (tl_creatures t)\<rparr>"
| "tile_removeThing E (ItemThing x) count t =
     (if tile_getThingIndex E t (ItemThing x) = -1 then t
      else if tl_ground t = Some x then
        resetTileFlags E x ((set_parent None x t)\<lparr>tl_ground := None\<rparr>)
      else if on_top E t x then
        (if x \<notin> set (topItems t) then t
         else resetTileFlags E x (erase_top x (set_parent None x t)))
      else if x \<notin> set (downItems t) then t
      else if it_stackable (type_of E t x) \<and> count \<noteq> ucast (item_count (to_item (tl_objs t x))) then
        change_obj (\<lambda>it. setItemCount (count_left (item_count it) count) it) x t
      else resetTileFlags E x (erase_down x (set_parent None x t)))"

section \<open>Adding with its effects\<close>

text \<open>A ground replaces the one there is.\<close>

definition place_ground :: "tile_env \<Rightarrow> nat \<Rightarrow> tile \<Rightarrow> tile" where
  "place_ground E x t =
     (case tl_ground t of
        None \<Rightarrow> setTileFlags E x (t\<lparr>tl_ground := Some x\<rparr>)
      | Some old \<Rightarrow>
          (let t = (set_parent None old t)\<lparr>tl_ground := Some x\<rparr>
           in setTileFlags E x (resetTileFlags E old t)))"

text \<open>A splash takes the place of the first splash that is there.\<close>

definition drop_old_splash :: "tile_env \<Rightarrow> nat \<Rightarrow> tile \<Rightarrow> tile" where
  "drop_old_splash E x t =
     (if isSplash (type_of E t x) then
        (case List.find (\<lambda>y. isSplash (type_of E t y)) (topItems t) of
           None \<Rightarrow> t
         | Some old \<Rightarrow> set_parent None old (tile_removeThing E (ItemThing old) 1 t))
      else t)"

text \<open>
  A magic field takes the place of the first field that is there; a field that cannot be
  replaced stays, and the new one is not added (\<open>None\<close>).
\<close>

definition drop_old_field :: "tile_env \<Rightarrow> nat \<Rightarrow> tile \<Rightarrow> tile option" where
  "drop_old_field E x t =
     (if isMagicFieldType (type_of E t x) then
        (case List.find (\<lambda>y. to_class (tl_objs t y) = MagicFieldItem) (downItems t) of
           None \<Rightarrow> Some t
         | Some old \<Rightarrow>
             if gt_replaceable (gtype E t old)
             then Some (set_parent None old (tile_removeThing E (ItemThing old) 1 t))
             else None)
      else Some t)"

fun tile_addThing :: "tile_env \<Rightarrow> tile_thing \<Rightarrow> tile \<Rightarrow> tile" where
  "tile_addThing E (CreatureThing c) t = add_creature c t"
| "tile_addThing E (ItemThing x) t =
     (if 0xFFFF \<le> length (tl_items t) then t
      else
        let t = set_parent (Some (te_self E)) x t in
        if isGroundTile (type_of E t x) then place_ground E x t
        else if on_top E t x then
          (let t = drop_old_splash E x t
           in setTileFlags E x (insert_top (\<lambda>y. top_order E t x \<le> top_order E t y) x t))
        else
          (case drop_old_field E x t of
             None \<Rightarrow> set_parent None x t
           | Some t \<Rightarrow> setTileFlags E x (tile_push_down x t)))"

section \<open>Changing and replacing\<close>

definition tile_updateThing :: "tile_env \<Rightarrow> tile_thing \<Rightarrow> u16 \<Rightarrow> u32 \<Rightarrow> tile \<Rightarrow> tile" where
  "tile_updateThing E thing itemId count t =
     (case thing of
        CreatureThing _ \<Rightarrow> t
      | ItemThing x \<Rightarrow>
          if tile_getThingIndex E t thing = -1 then t
          else
            let t = resetTileFlags E x t;
                t = change_obj (\<lambda>it. setSubType (te_items E) (ucast count) (setID (te_items E) itemId it)) x t
            in setTileFlags E x t)"

text \<open>The slot of the old thing receives the new one; a slot with a creature is left alone.\<close>

definition replace_item :: "nat \<Rightarrow> nat \<Rightarrow> tile \<Rightarrow> (tile \<times> nat) option" where
  "replace_item pos x t =
     (let top = length (tl_items t) - tl_down t;
          rest = pos - top - length (tl_creatures t) in
      if pos < top then
        Some (t\<lparr>tl_items := (tl_items t)[tl_down t + pos := x]\<rparr>, tl_items t ! (tl_down t + pos))
      else if pos - top < length (tl_creatures t) then None
      else if rest < tl_down t then
        Some (t\<lparr>tl_items := (tl_items t)[rest := x]\<rparr>, tl_items t ! rest)
      else None)"

fun tile_replaceThing :: "tile_env \<Rightarrow> nat \<Rightarrow> tile_thing \<Rightarrow> tile \<Rightarrow> tile" where
  "tile_replaceThing E index (CreatureThing _) t = t"
| "tile_replaceThing E index (ItemThing x) t =
     (case (case tl_ground t of
              Some g \<Rightarrow> if index = 0 then Some (t\<lparr>tl_ground := Some x\<rparr>, g)
                        else replace_item (index - 1) x t
            | None \<Rightarrow> replace_item index x t) of
        None \<Rightarrow> t
      | Some (t, old) \<Rightarrow>
          (let t = set_parent (Some (te_self E)) x t
           in set_parent None old (setTileFlags E x (resetTileFlags E old t))))"

end
