(* ===== verification/TileProps.thy ===== *)
theory TileProps imports Tiles begin

text \<open>
  Invariants of a tile: the items below and on top stay apart, every thing is there once
  with the tile as its parent, and the cached flags say what the items are. Every
  operation keeps them, and the indices of things and \<open>getThing\<close> are inverse.
\<close>

section \<open>Flags as bits\<close>

lemma one_bit: "f = (push_bit k 1 :: u32) \<Longrightarrow> k < 32 \<Longrightarrow> bit f n \<longleftrightarrow> n = k"
  by (auto simp: bit_simps)

lemma one_flag:
  assumes "f = (push_bit k 1 :: u32)" "k < 32"
  shows "hasBitSet f w \<longleftrightarrow> bit w k"
proof -
  have "(\<exists>n<32. bit (w AND f) n) \<longleftrightarrow> bit w k"
    using assms(2) by (auto simp: bit_and_iff one_bit [OF assms])
  thus ?thesis
    by (auto simp: hasBitSet_def bit_eq_iff)
qed

lemma tl_flags_set_if: "tl_flags (set_if b f t) = (if b then tl_flags t OR f else tl_flags t)"
  by (simp add: set_if_def setFlag_def)

lemma tl_flags_reset_if: "tl_flags (reset_if b f t) = (if b then tl_flags t AND NOT f else tl_flags t)"
  by (simp add: reset_if_def resetFlag_def)

lemma bit_set_if: "bit (tl_flags (set_if b f t)) n \<longleftrightarrow> bit (tl_flags t) n \<or> b \<and> bit f n"
  by (simp add: tl_flags_set_if bit_simps)

lemma bit_reset_if:
  "bit (tl_flags (reset_if b f t)) n \<longleftrightarrow> bit (tl_flags t) n \<and> \<not> (b \<and> bit f n)"
  using bit_imp_le_length [of "tl_flags t" n] by (auto simp: tl_flags_reset_if bit_simps)

lemmas tilestate_defs =
  TILESTATE_FLOORCHANGE_DOWN_def TILESTATE_FLOORCHANGE_NORTH_def TILESTATE_FLOORCHANGE_SOUTH_def
  TILESTATE_FLOORCHANGE_EAST_def TILESTATE_FLOORCHANGE_WEST_def TILESTATE_FLOORCHANGE_SOUTH_ALT_def
  TILESTATE_FLOORCHANGE_EAST_ALT_def TILESTATE_PROTECTIONZONE_def TILESTATE_NOPVPZONE_def
  TILESTATE_NOLOGOUT_def TILESTATE_PVPZONE_def TILESTATE_TELEPORT_def TILESTATE_MAGICFIELD_def
  TILESTATE_MAILBOX_def TILESTATE_TRASHHOLDER_def TILESTATE_BED_def TILESTATE_DEPOT_def
  TILESTATE_BLOCKSOLID_def TILESTATE_BLOCKPATH_def TILESTATE_IMMOVABLEBLOCKSOLID_def
  TILESTATE_IMMOVABLEBLOCKPATH_def TILESTATE_IMMOVABLENOFIELDBLOCKPATH_def
  TILESTATE_NOFIELDBLOCKPATH_def TILESTATE_SUPPORTS_HANGABLE_def

lemmas flag_bits = tilestate_defs [THEN one_bit, simplified]
lemmas flag_tests = tilestate_defs [THEN one_flag, simplified]

lemma high_bit_floor: "8 \<le> n \<Longrightarrow> \<not> bit (ucast (w :: u8) :: u32) n"
  using bit_imp_le_length [of w n] by (auto simp: bit_simps)

lemma bit_floorchange: "bit TILESTATE_FLOORCHANGE n \<longleftrightarrow> n < 7"
  by (auto simp: TILESTATE_FLOORCHANGE_def bit_or_iff flag_bits)

text \<open>The five properties whose flags are kept exact, with their flags.\<close>

definition tracked :: "item_property set" where
  "tracked = {CONST_PROP_BLOCKSOLID, CONST_PROP_IMMOVABLEBLOCKSOLID, CONST_PROP_BLOCKPATH,
              CONST_PROP_NOFIELDBLOCKPATH, CONST_PROP_IMMOVABLENOFIELDBLOCKPATH}"

fun state_flag :: "item_property \<Rightarrow> u32" where
  "state_flag CONST_PROP_BLOCKSOLID = TILESTATE_BLOCKSOLID"
| "state_flag CONST_PROP_IMMOVABLEBLOCKSOLID = TILESTATE_IMMOVABLEBLOCKSOLID"
| "state_flag CONST_PROP_BLOCKPATH = TILESTATE_BLOCKPATH"
| "state_flag CONST_PROP_NOFIELDBLOCKPATH = TILESTATE_NOFIELDBLOCKPATH"
| "state_flag CONST_PROP_IMMOVABLENOFIELDBLOCKPATH = TILESTATE_IMMOVABLENOFIELDBLOCKPATH"
| "state_flag p = 0"

lemma tracked_cases:
  "p \<in> tracked \<Longrightarrow>
   (P CONST_PROP_BLOCKSOLID \<Longrightarrow> P CONST_PROP_IMMOVABLEBLOCKSOLID \<Longrightarrow> P CONST_PROP_BLOCKPATH \<Longrightarrow>
    P CONST_PROP_NOFIELDBLOCKPATH \<Longrightarrow> P CONST_PROP_IMMOVABLENOFIELDBLOCKPATH \<Longrightarrow> P p)"
  by (auto simp: tracked_def)

lemma hasFlag_set:
  "p \<in> tracked \<Longrightarrow>
   hasFlag (state_flag p) (setTileFlags E x t) \<longleftrightarrow> hasFlag (state_flag p) t \<or> obj_hasProperty E t x p"
  by (erule tracked_cases)
     (simp_all add: setTileFlags_def Let_def hasFlag_def flag_tests bit_set_if flag_bits high_bit_floor)

lemma hasFlag_reset:
  "p \<in> tracked \<Longrightarrow>
   hasFlag (state_flag p) (resetTileFlags E x t) \<longleftrightarrow>
   hasFlag (state_flag p) t \<and> \<not> (obj_hasProperty E t x p \<and> \<not> other_hasProperty E t x p)"
  by (erule tracked_cases)
     (simp_all add: resetTileFlags_def Let_def hasFlag_def flag_tests bit_reset_if flag_bits bit_floorchange)

section \<open>What operations leave alone\<close>

lemma set_if_frame [simp]:
  "tl_ground (set_if b f t) = tl_ground t" "tl_items (set_if b f t) = tl_items t"
  "tl_down (set_if b f t) = tl_down t" "tl_creatures (set_if b f t) = tl_creatures t"
  "tl_objs (set_if b f t) = tl_objs t"
  by (simp_all add: set_if_def setFlag_def)

lemma setTileFlags_frame [simp]:
  "tl_ground (setTileFlags E x t) = tl_ground t" "tl_items (setTileFlags E x t) = tl_items t"
  "tl_down (setTileFlags E x t) = tl_down t" "tl_creatures (setTileFlags E x t) = tl_creatures t"
  "tl_objs (setTileFlags E x t) = tl_objs t"
  by (simp_all add: setTileFlags_def Let_def)

lemma reset_if_frame [simp]:
  "tl_ground (reset_if b f t) = tl_ground t" "tl_items (reset_if b f t) = tl_items t"
  "tl_down (reset_if b f t) = tl_down t" "tl_creatures (reset_if b f t) = tl_creatures t"
  "tl_objs (reset_if b f t) = tl_objs t"
  by (simp_all add: reset_if_def resetFlag_def)

lemma resetTileFlags_frame [simp]:
  "tl_ground (resetTileFlags E x t) = tl_ground t" "tl_items (resetTileFlags E x t) = tl_items t"
  "tl_down (resetTileFlags E x t) = tl_down t" "tl_creatures (resetTileFlags E x t) = tl_creatures t"
  "tl_objs (resetTileFlags E x t) = tl_objs t"
  by (simp_all add: resetTileFlags_def Let_def)

lemma set_parent_frame [simp]:
  "tl_ground (set_parent p x t) = tl_ground t" "tl_items (set_parent p x t) = tl_items t"
  "tl_down (set_parent p x t) = tl_down t" "tl_creatures (set_parent p x t) = tl_creatures t"
  "tl_flags (set_parent p x t) = tl_flags t"
  "to_item (tl_objs (set_parent p x t) y) = to_item (tl_objs t y)"
  "to_class (tl_objs (set_parent p x t) y) = to_class (tl_objs t y)"
  "to_parent (tl_objs (set_parent p x t) y) = (if y = x then p else to_parent (tl_objs t y))"
  by (simp_all add: set_parent_def)

lemma change_obj_frame [simp]:
  "tl_ground (change_obj f x t) = tl_ground t" "tl_items (change_obj f x t) = tl_items t"
  "tl_down (change_obj f x t) = tl_down t" "tl_creatures (change_obj f x t) = tl_creatures t"
  "tl_flags (change_obj f x t) = tl_flags t"
  "to_item (tl_objs (change_obj f x t) y) = (if y = x then f (to_item (tl_objs t x)) else to_item (tl_objs t y))"
  "to_class (tl_objs (change_obj f x t) y) = to_class (tl_objs t y)"
  "to_parent (tl_objs (change_obj f x t) y) = to_parent (tl_objs t y)"
  by (simp_all add: change_obj_def)

lemma item_facts:
  "on_top E t x = gt_alwaysOnTop (te_types E (item_id (to_item (tl_objs t x))))"
  "obj_hasProperty E t x p = item_hasProperty E (to_item (tl_objs t x)) p"
  "type_of E t x = te_items E (item_id (to_item (tl_objs t x)))"
  by (simp_all add: on_top_def gtype_def id_of_def obj_hasProperty_def type_of_def)

section \<open>Contents\<close>

definition contents :: "tile \<Rightarrow> nat set" where
  "contents t = set_option (tl_ground t) \<union> set (tl_items t)"

lemma tile_hasProperty_contents:
  "tile_hasProperty E t p \<longleftrightarrow> (\<exists>y\<in>contents t. obj_hasProperty E t y p)"
  by (auto simp: tile_hasProperty_def contents_def list_ex_iff split: option.splits)

lemma other_hasProperty_contents:
  "other_hasProperty E t x p \<longleftrightarrow> (\<exists>y\<in>contents t - {x}. obj_hasProperty E t y p)"
  by (auto simp: other_hasProperty_def contents_def list_ex_iff split: option.splits)

text \<open>The flags tell the properties of the items of \<open>C\<close>.\<close>

definition agree :: "tile_env \<Rightarrow> tile \<Rightarrow> nat set \<Rightarrow> bool" where
  "agree E t C = (\<forall>p\<in>tracked. hasFlag (state_flag p) t \<longleftrightarrow> (\<exists>y\<in>C. obj_hasProperty E t y p))"

lemma agree_cong:
  assumes "tl_flags t' = tl_flags t" "\<And>y. y \<in> C \<Longrightarrow> to_item (tl_objs t' y) = to_item (tl_objs t y)"
  shows "agree E t' C \<longleftrightarrow> agree E t C"
  using assms by (simp add: agree_def hasFlag_def item_facts cong: bex_cong)

lemma agree_set: "agree E t C \<Longrightarrow> agree E (setTileFlags E x t) (insert x C)"
  by (auto simp: agree_def hasFlag_set item_facts)

lemma agree_reset:
  "agree E t C \<Longrightarrow> x \<in> C \<Longrightarrow> contents t - {x} = C - {x} \<Longrightarrow> agree E (resetTileFlags E x t) (C - {x})"
  by (auto simp: agree_def hasFlag_reset item_facts other_hasProperty_contents)

section \<open>Well-formed tiles\<close>

definition sane :: "tile_env \<Rightarrow> tile \<Rightarrow> nat \<Rightarrow> bool" where
  "sane E t x = (to_class (tl_objs t x) = MagicFieldItem \<longrightarrow> \<not> it_stackable (type_of E t x))"

definition tile_layout :: "tile_env \<Rightarrow> tile \<Rightarrow> bool" where
  "tile_layout E t =
     (tl_down t \<le> length (tl_items t) \<and> length (tl_items t) \<le> 0xFFFF \<and>
      (\<forall>x\<in>set (downItems t). \<not> on_top E t x) \<and> (\<forall>x\<in>set (topItems t). on_top E t x) \<and>
      distinct (tl_items t) \<and> (\<forall>g\<in>set_option (tl_ground t). g \<notin> set (tl_items t)) \<and>
      distinct (tl_creatures t))"

definition tile_wf :: "tile_env \<Rightarrow> tile \<Rightarrow> bool" where
  "tile_wf E t =
     (tile_layout E t \<and>
      (\<forall>x\<in>contents t. to_parent (tl_objs t x) = Some (te_self E) \<and> sane E t x) \<and>
      agree E t (contents t))"

lemma set_insert_before [simp]: "set (insert_before stop x ys) = insert x (set ys)"
  by (induction ys) auto

lemma length_insert_before [simp]: "length (insert_before stop x ys) = Suc (length ys)"
  by (induction ys) auto

lemma distinct_insert_before [simp]: "distinct (insert_before stop x ys) \<longleftrightarrow> x \<notin> set ys \<and> distinct ys"
  by (induction ys) auto

lemma items_split: "tl_items t = downItems t @ topItems t"
  by (simp add: downItems_def topItems_def)

lemma down_length: "tl_down t \<le> length (tl_items t) \<Longrightarrow> length (downItems t) = tl_down t"
  by (simp add: downItems_def)

text \<open>The same layout, on the two parts of the vector.\<close>

lemma layout_iff:
  assumes "tl_items t = D @ T" "tl_down t = length D"
  shows "tile_layout E t \<longleftrightarrow>
     length D + length T \<le> 0xFFFF \<and> (\<forall>x\<in>set D. \<not> on_top E t x) \<and> (\<forall>x\<in>set T. on_top E t x) \<and>
     distinct D \<and> distinct T \<and> set D \<inter> set T = {} \<and>
     (\<forall>g\<in>set_option (tl_ground t). g \<notin> set D \<and> g \<notin> set T) \<and> distinct (tl_creatures t)"
  using assms by (auto simp: tile_layout_def downItems_def topItems_def)

lemma layout_parts:
  "tile_layout E t \<Longrightarrow>
     tl_down t = length (downItems t) \<and>
     length (downItems t) + length (topItems t) \<le> 0xFFFF \<and> (\<forall>x\<in>set (downItems t). \<not> on_top E t x) \<and>
     (\<forall>x\<in>set (topItems t). on_top E t x) \<and> distinct (downItems t) \<and> distinct (topItems t) \<and>
     set (downItems t) \<inter> set (topItems t) = {} \<and>
     (\<forall>g\<in>set_option (tl_ground t). g \<notin> set (downItems t) \<and> g \<notin> set (topItems t)) \<and>
     distinct (tl_creatures t)"
  using layout_iff [OF items_split, of t E] by (auto simp: tile_layout_def down_length)

lemma contents_parts: "contents t = set_option (tl_ground t) \<union> set (downItems t) \<union> set (topItems t)"
  using items_split [of t] by (metis contents_def set_append Un_assoc)

lemma layout_setTileFlags [simp]: "tile_layout E (setTileFlags E x t) = tile_layout E t"
  by (simp add: tile_layout_def item_facts downItems_def topItems_def)

lemma layout_resetTileFlags [simp]: "tile_layout E (resetTileFlags E x t) = tile_layout E t"
  by (simp add: tile_layout_def item_facts downItems_def topItems_def)

lemma layout_set_parent [simp]: "tile_layout E (set_parent p x t) = tile_layout E t"
  by (simp add: tile_layout_def item_facts downItems_def topItems_def)

lemma contents_frame [simp]:
  "contents (setTileFlags E x t) = contents t" "contents (resetTileFlags E x t) = contents t"
  "contents (set_parent p x t) = contents t" "contents (change_obj f x t) = contents t"
  by (simp_all add: contents_def)

lemma sane_frame [simp]:
  "sane E (setTileFlags E y t) x = sane E t x" "sane E (resetTileFlags E y t) x = sane E t x"
  "sane E (set_parent p y t) x = sane E t x"
  by (simp_all add: sane_def item_facts)

text \<open>A thing that comes in or goes out with its flags.\<close>

lemma wf_come_in:
  assumes "tile_wf E t" "tile_layout E t'" "contents t' = insert x (contents t)" "x \<notin> contents t"
    and "tl_flags t' = tl_flags t" "sane E t' x" "to_parent (tl_objs t' x) = Some (te_self E)"
    and "\<And>y. to_item (tl_objs t' y) = to_item (tl_objs t y)"
    and "\<And>y. to_class (tl_objs t' y) = to_class (tl_objs t y)"
    and "\<And>y. y \<noteq> x \<Longrightarrow> to_parent (tl_objs t' y) = to_parent (tl_objs t y)"
  shows "tile_wf E (setTileFlags E x t')"
proof -
  have "agree E t' (contents t)"
    using assms(1,5,8) agree_cong [of t' t "contents t" E] by (auto simp: tile_wf_def)
  hence "agree E (setTileFlags E x t') (contents t')"
    by (simp add: agree_set assms(3))
  moreover have "\<forall>y\<in>contents t'. to_parent (tl_objs t' y) = Some (te_self E) \<and> sane E t' y"
  proof
    fix y assume "y \<in> contents t'"
    then consider "y = x" | "y \<in> contents t" "y \<noteq> x"
      using assms(3,4) by auto
    thus "to_parent (tl_objs t' y) = Some (te_self E) \<and> sane E t' y"
      using assms(1,6-10) by cases (simp_all add: tile_wf_def sane_def item_facts)
  qed
  ultimately show ?thesis
    using assms(2) by (simp add: tile_wf_def)
qed

lemma wf_go_out:
  assumes "tile_wf E t" "tile_layout E t'" "contents t' = contents t - {x}" "x \<in> contents t"
    and "tl_flags t' = tl_flags t"
    and "\<And>y. to_item (tl_objs t' y) = to_item (tl_objs t y)"
    and "\<And>y. to_class (tl_objs t' y) = to_class (tl_objs t y)"
    and "\<And>y. y \<noteq> x \<Longrightarrow> to_parent (tl_objs t' y) = to_parent (tl_objs t y)"
  shows "tile_wf E (resetTileFlags E x t')"
proof -
  have "agree E t' (contents t)"
    using assms(1,5,6) agree_cong [of t' t "contents t" E] by (auto simp: tile_wf_def)
  hence "agree E (resetTileFlags E x t') (contents t')"
    using agree_reset [of E t' "contents t" x] assms(3,4) by simp
  moreover have "\<forall>y\<in>contents t'. to_parent (tl_objs t' y) = Some (te_self E) \<and> sane E t' y"
    using assms(1,3,6-8) by (auto simp: tile_wf_def sane_def item_facts)
  ultimately show ?thesis
    using assms(2) by (simp add: tile_wf_def)
qed

section \<open>Things come in\<close>

lemma wf_layout: "tile_wf E t \<Longrightarrow> tile_layout E t"
  by (simp add: tile_wf_def)

lemma wf_set_parent: "x \<notin> contents t \<Longrightarrow> tile_wf E (set_parent p x t) \<longleftrightarrow> tile_wf E t"
  using agree_cong [of "set_parent p x t" t "contents t" E] by (auto simp: tile_wf_def)

lemma on_top_frame [simp]:
  "on_top E (t\<lparr>tl_items := xs\<rparr>) y = on_top E t y" "on_top E (t\<lparr>tl_items := xs, tl_down := n\<rparr>) y = on_top E t y"
  "on_top E (t\<lparr>tl_ground := g\<rparr>) y = on_top E t y" "on_top E (t\<lparr>tl_creatures := cs\<rparr>) y = on_top E t y"
  "on_top E (set_parent p x t) y = on_top E t y"
  "on_top E (setTileFlags E x t) y = on_top E t y" "on_top E (resetTileFlags E x t) y = on_top E t y"
  by (simp_all add: item_facts)

lemma parts_frame [simp]:
  "downItems (set_parent p x t) = downItems t" "topItems (set_parent p x t) = topItems t"
  "downItems (t\<lparr>tl_ground := g\<rparr>) = downItems t" "topItems (t\<lparr>tl_ground := g\<rparr>) = topItems t"
  "downItems (t\<lparr>tl_creatures := cs\<rparr>) = downItems t" "topItems (t\<lparr>tl_creatures := cs\<rparr>) = topItems t"
  "downItems (setTileFlags E x t) = downItems t" "topItems (setTileFlags E x t) = topItems t"
  "downItems (resetTileFlags E x t) = downItems t" "topItems (resetTileFlags E x t) = topItems t"
  "downItems (change_obj f x t) = downItems t" "topItems (change_obj f x t) = topItems t"
  by (simp_all add: downItems_def topItems_def)

lemma contents_items [simp]:
  "contents (t\<lparr>tl_items := xs\<rparr>) = set_option (tl_ground t) \<union> set xs"
  "contents (t\<lparr>tl_items := xs, tl_down := n\<rparr>) = set_option (tl_ground t) \<union> set xs"
  by (simp_all add: contents_def)

lemma wf_new_ground:
  assumes "tile_wf E t" "x \<notin> contents t" "sane E t x" "tl_ground t = None"
    "to_parent (tl_objs t x) = Some (te_self E)"
  shows "tile_wf E (setTileFlags E x (t\<lparr>tl_ground := Some x\<rparr>))"
proof (rule wf_come_in [OF assms(1)])
  show "tile_layout E (t\<lparr>tl_ground := Some x\<rparr>)"
    using assms(1,2) by (simp add: tile_wf_def tile_layout_def contents_def)
qed (use assms in \<open>auto simp: contents_def sane_def item_facts\<close>)

lemma wf_push_down:
  assumes "tile_wf E t" "x \<notin> contents t" "sane E t x" "\<not> on_top E t x" "length (tl_items t) < 0xFFFF"
    "to_parent (tl_objs t x) = Some (te_self E)"
  shows "tile_wf E (setTileFlags E x (tile_push_down x t))"
proof (rule wf_come_in [OF assms(1)])
  have "tl_down t < 0xFFFF"
    using assms(1,5) by (auto simp: tile_wf_def tile_layout_def)
  hence "tl_items (tile_push_down x t) = (x # downItems t) @ topItems t"
    "tl_down (tile_push_down x t) = length (x # downItems t)"
    using layout_parts [OF wf_layout [OF assms(1)]] items_split [of t]
    by (simp_all add: tile_push_down_def)
  from layout_iff [OF this, of E] show "tile_layout E (tile_push_down x t)"
    using layout_parts [OF wf_layout [OF assms(1)]] assms(2,4,5) arg_cong [OF items_split [of t], of length]
    by (auto simp: tile_push_down_def contents_parts)
qed (use assms in \<open>auto simp: tile_push_down_def contents_def sane_def item_facts\<close>)

lemma wf_insert_top:
  assumes "tile_wf E t" "x \<notin> contents t" "sane E t x" "on_top E t x" "length (tl_items t) < 0xFFFF"
    "to_parent (tl_objs t x) = Some (te_self E)"
  shows "tile_wf E (setTileFlags E x (insert_top stop x t))"
proof (rule wf_come_in [OF assms(1)])
  have "tl_items (insert_top stop x t) = downItems t @ insert_before stop x (topItems t)"
    "tl_down (insert_top stop x t) = length (downItems t)"
    using layout_parts [OF wf_layout [OF assms(1)]] by (simp_all add: insert_top_def)
  from layout_iff [OF this, of E] show "tile_layout E (insert_top stop x t)"
    using layout_parts [OF wf_layout [OF assms(1)]] assms(2,4,5) arg_cong [OF items_split [of t], of length]
    by (auto simp: insert_top_def contents_parts)
  show "contents (insert_top stop x t) = insert x (contents t)"
    by (auto simp: insert_top_def contents_parts [of t])
qed (use assms in \<open>auto simp: insert_top_def sane_def item_facts\<close>)

section \<open>Things go out\<close>

lemma wf_drop_ground:
  assumes "tile_wf E t" "tl_ground t = Some x"
  shows "tile_wf E (resetTileFlags E x ((set_parent None x t)\<lparr>tl_ground := None\<rparr>))"
proof (rule wf_go_out [OF assms(1)])
  show "tile_layout E ((set_parent None x t)\<lparr>tl_ground := None\<rparr>)"
    using assms(1) by (simp add: tile_wf_def tile_layout_def)
  show "contents ((set_parent None x t)\<lparr>tl_ground := None\<rparr>) = contents t - {x}"
    using assms by (auto simp: tile_wf_def tile_layout_def contents_def)
qed (use assms in \<open>auto simp: contents_def\<close>)

lemma wf_erase_top:
  assumes "tile_wf E t" "x \<in> set (topItems t)"
  shows "tile_wf E (resetTileFlags E x (erase_top x (set_parent None x t)))"
proof (rule wf_go_out [OF assms(1)])
  note parts = layout_parts [OF wf_layout [OF assms(1)]]
  let ?t = "erase_top x (set_parent None x t)"
  have "tl_items ?t = downItems t @ erase_first x (topItems t)" "tl_down ?t = length (downItems t)"
    using parts by (simp_all add: erase_top_def)
  from layout_iff [OF this, of E] show "tile_layout E ?t"
    using parts assms(2)
    by (auto simp: erase_top_def erase_first_eq_remove1 length_remove1)
  show "contents ?t = contents t - {x}"
    using parts assms(2) by (auto simp: contents_parts [of t] erase_top_def)
qed (use assms in \<open>auto simp: erase_top_def contents_parts\<close>)

lemma wf_erase_down:
  assumes "tile_wf E t" "x \<in> set (downItems t)"
  shows "tile_wf E (resetTileFlags E x (erase_down x (set_parent None x t)))"
proof (rule wf_go_out [OF assms(1)])
  note parts = layout_parts [OF wf_layout [OF assms(1)]]
  let ?t = "erase_down x (set_parent None x t)"
  have "tl_items ?t = erase_first x (downItems t) @ topItems t"
    "tl_down ?t = length (erase_first x (downItems t))"
    using parts assms(2) by (simp_all add: erase_down_def erase_first_eq_remove1 length_remove1)
  from layout_iff [OF this, of E] show "tile_layout E ?t"
    using parts assms(2)
    by (auto simp: erase_down_def erase_first_eq_remove1 length_remove1)
  show "contents ?t = contents t - {x}"
    using parts assms(2) by (auto simp: contents_parts [of t] erase_down_def)
qed (use assms in \<open>auto simp: erase_down_def contents_parts\<close>)

section \<open>A thing for another\<close>

lemma agree_swap:
  assumes "agree E t C" "old \<in> C" "x \<noteq> old" "contents t = insert x (C - {old})"
  shows "agree E (setTileFlags E x (resetTileFlags E old t)) (insert x (C - {old}))"
  using assms by (auto simp: agree_def hasFlag_set hasFlag_reset item_facts other_hasProperty_contents)

lemma wf_swap:
  assumes "tile_wf E t" "tile_layout E t'" "old \<in> contents t" "x \<notin> contents t"
    and "contents t' = insert x (contents t - {old})"
    and "tl_flags t' = tl_flags t" "sane E t' x" "to_parent (tl_objs t' x) = Some (te_self E)"
    and "\<And>y. to_item (tl_objs t' y) = to_item (tl_objs t y)"
    and "\<And>y. to_class (tl_objs t' y) = to_class (tl_objs t y)"
    and "\<And>y. y \<noteq> x \<Longrightarrow> y \<noteq> old \<Longrightarrow> to_parent (tl_objs t' y) = to_parent (tl_objs t y)"
  shows "tile_wf E (setTileFlags E x (resetTileFlags E old t'))"
proof -
  have "agree E t' (contents t)"
    using assms(1,6,9) agree_cong [of t' t "contents t" E] by (auto simp: tile_wf_def)
  hence "agree E (setTileFlags E x (resetTileFlags E old t')) (contents t')"
    using agree_swap [of E t' "contents t" old x] assms(3-5) by auto
  moreover have "\<forall>y\<in>contents t'. to_parent (tl_objs t' y) = Some (te_self E) \<and> sane E t' y"
  proof
    fix y assume "y \<in> contents t'"
    then consider "y = x" | "y \<in> contents t" "y \<noteq> x" "y \<noteq> old"
      using assms(4,5) by auto
    thus "to_parent (tl_objs t' y) = Some (te_self E) \<and> sane E t' y"
      using assms(1,7-11) by cases (simp_all add: tile_wf_def sane_def item_facts)
  qed
  ultimately show ?thesis
    using assms(2) by (simp add: tile_wf_def)
qed

lemma wf_other_ground:
  assumes "tile_wf E t" "x \<notin> contents t" "sane E t x" "tl_ground t = Some old"
    "to_parent (tl_objs t' x) = Some (te_self E)" "tl_items t' = tl_items t" "tl_down t' = tl_down t"
    "tl_creatures t' = tl_creatures t" "tl_flags t' = tl_flags t" "tl_ground t' = Some x"
    and "\<And>y. to_item (tl_objs t' y) = to_item (tl_objs t y)"
    and "\<And>y. to_class (tl_objs t' y) = to_class (tl_objs t y)"
    and "\<And>y. y \<noteq> x \<Longrightarrow> y \<noteq> old \<Longrightarrow> to_parent (tl_objs t' y) = to_parent (tl_objs t y)"
  shows "tile_wf E (setTileFlags E x (resetTileFlags E old t'))"
proof (rule wf_swap [OF assms(1)])
  show "tile_layout E t'"
    using assms(1,2,6-8,10,11)
    by (simp add: tile_wf_def tile_layout_def contents_def item_facts downItems_def topItems_def)
  show "contents t' = insert x (contents t - {old})"
    using assms(1,4,6,10) by (auto simp: contents_def tile_wf_def tile_layout_def)
  show "sane E t' x"
    using assms(3,11,12) by (simp add: sane_def item_facts)
qed (use assms in \<open>auto simp: contents_def\<close>)

lemma wf_replace_item:
  assumes wf: "tile_wf E t" and x: "x \<notin> contents t" "sane E t x"
    and r: "replace_item pos x t = Some (t', old)" and top: "on_top E t x = on_top E t old"
  shows "tile_wf E (setTileFlags E x (resetTileFlags E old (set_parent (Some (te_self E)) x t')))"
    and "old \<in> contents t" and "contents t' = insert x (contents t - {old})"
proof -
  note parts = layout_parts [OF wf_layout [OF wf]]
  let ?D = "downItems t" and ?T = "topItems t"
  have len: "length (tl_items t) - tl_down t = length ?T"
    by (simp add: topItems_def)
  obtain D' T' where t': "t' = t\<lparr>tl_items := D' @ T'\<rparr>" "length D' = length ?D" "length T' = length ?T"
    and new: "distinct D'" "distinct T'" "old \<in> contents t"
      "set D' \<union> set T' = insert x (set ?D \<union> set ?T - {old})" "old \<notin> set_option (tl_ground t)"
    and sides: "\<forall>y\<in>set D'. \<not> on_top E t y" "\<forall>y\<in>set T'. on_top E t y"
  proof -
    consider "pos < length ?T" "t' = t\<lparr>tl_items := (tl_items t)[tl_down t + pos := x]\<rparr>"
        "old = tl_items t ! (tl_down t + pos)"
      | i where "i < tl_down t" "t' = t\<lparr>tl_items := (tl_items t)[i := x]\<rparr>" "old = tl_items t ! i"
      using r by (auto simp: replace_item_def Let_def len split: if_splits)
    thus thesis
    proof cases
      case 1
      have [simp]: "old = ?T ! pos"
        using 1(1) parts by (simp add: 1(3) items_split [of t] nth_append)
      have mem: "old \<in> set ?T"
        using 1(1) by simp
      show thesis
      proof (rule that [of ?D "?T[pos := x]"])
        show "t' = t\<lparr>tl_items := ?D @ ?T[pos := x]\<rparr>"
          using parts by (simp add: 1(2) items_split [of t] list_update_append)
        show "set ?D \<union> set (?T[pos := x]) = insert x (set ?D \<union> set ?T - {old})"
          using 1(1) parts mem set_update_distinct [of ?T pos x] by auto
        show "\<forall>y\<in>set (?T[pos := x]). on_top E t y"
          using 1(1) parts mem top set_update_distinct [of ?T pos x] by auto
        show "distinct (?T[pos := x])"
          using parts x(1) by (simp add: distinct_list_update contents_parts)
        show "old \<notin> set_option (tl_ground t)" "old \<in> contents t"
          using parts mem by (auto simp: contents_parts simp del: \<open>old = ?T ! pos\<close>)
      qed (use parts in auto)
    next
      case 2
      have i: "i < length ?D"
        using 2(1) parts by simp
      have [simp]: "old = ?D ! i"
        using i by (simp add: 2(3) items_split [of t] nth_append)
      have mem: "old \<in> set ?D"
        using i by simp
      show thesis
      proof (rule that [of "?D[i := x]" ?T])
        show "t' = t\<lparr>tl_items := ?D[i := x] @ ?T\<rparr>"
          using i by (simp add: 2(2) items_split [of t] list_update_append)
        show "set (?D[i := x]) \<union> set ?T = insert x (set ?D \<union> set ?T - {old})"
          using i parts mem set_update_distinct [of ?D i x] by auto
        show "\<forall>y\<in>set (?D[i := x]). \<not> on_top E t y"
          using i parts mem top set_update_distinct [of ?D i x] by auto
        show "distinct (?D[i := x])"
          using parts x(1) by (simp add: distinct_list_update contents_parts)
        show "old \<notin> set_option (tl_ground t)" "old \<in> contents t"
          using parts mem by (auto simp: contents_parts simp del: \<open>old = ?D ! i\<close>)
      qed (use parts in auto)
    qed
  qed
  show old: "old \<in> contents t" by (rule new)
  show c: "contents t' = insert x (contents t - {old})"
    using new(4,5) by (auto simp: t'(1) contents_parts [of t])
  have "tl_items t' = D' @ T'" "tl_down t' = length D'"
    using parts t' by simp_all
  from layout_iff [OF this, of E] have "tile_layout E t'"
    using parts new sides x(1) t' by (auto simp: contents_parts)
  show "tile_wf E (setTileFlags E x (resetTileFlags E old (set_parent (Some (te_self E)) x t')))"
    by (rule wf_swap [OF wf _ old x(1)])
       (use \<open>tile_layout E t'\<close> c x(2) in \<open>simp_all add: t'(1) sane_def item_facts\<close>)
qed

section \<open>Every operation keeps the tile well-formed\<close>

lemma wf_creatures:
  "tile_wf E t \<Longrightarrow> distinct cs \<Longrightarrow> tile_wf E (t\<lparr>tl_creatures := cs\<rparr>)"
  using agree_cong [of "t\<lparr>tl_creatures := cs\<rparr>" t "contents t" E]
  by (auto simp: tile_wf_def tile_layout_def contents_def sane_def item_facts)

text \<open>A thing that is not on the tile yet.\<close>

fun new_thing :: "tile_env \<Rightarrow> tile \<Rightarrow> tile_thing \<Rightarrow> bool" where
  "new_thing E t (CreatureThing c) = (c \<notin> set (tl_creatures t))"
| "new_thing E t (ItemThing x) = (x \<notin> contents t \<and> sane E t x)"

lemma wf_own: "tile_wf E t \<Longrightarrow> x \<notin> contents t \<Longrightarrow> tile_wf E (set_parent p x t)"
  by (simp add: wf_set_parent)

lemma wf_distinct_creatures: "tile_wf E t \<Longrightarrow> distinct (tl_creatures t)"
  by (simp add: tile_wf_def tile_layout_def)

lemma internalAddThing_wf:
  "tile_wf E t \<Longrightarrow> new_thing E t thing \<Longrightarrow> tile_wf E (tile_internalAddThing E thing t)"
  by (cases thing)
     (auto simp: add_creature_def Let_def item_facts wf_distinct_creatures
       intro!: wf_creatures wf_new_ground wf_push_down wf_insert_top wf_own)

lemma count_keeps [simp]:
  "item_id (setItemCount n it) = item_id it"
  "i_hasAttribute a (setItemCount n it) = i_hasAttribute a it"
  by (simp_all add: setItemCount_def i_hasAttribute_def getAttributes_def)

lemma hasProperty_count [simp]: "item_hasProperty E (setItemCount n it) p = item_hasProperty E it p"
  by simp

lemma wf_change_count:
  "tile_wf E t \<Longrightarrow> tile_wf E (change_obj (\<lambda>it. setItemCount (f it) it) x t)"
proof -
  let ?t = "change_obj (\<lambda>it. setItemCount (f it) it) x t"
  have same: "on_top E ?t y = on_top E t y" "sane E ?t y = sane E t y"
    "obj_hasProperty E ?t y p = obj_hasProperty E t y p" for y p
    by (simp_all add: item_facts sane_def del: item_hasProperty.simps)
  assume "tile_wf E t"
  thus "tile_wf E ?t"
    by (simp add: tile_wf_def tile_layout_def agree_def hasFlag_def same)
qed

lemma removeThing_wf: "tile_wf E t \<Longrightarrow> tile_wf E (tile_removeThing E thing n t)"
  by (cases thing)
     (simp_all add: wf_creatures wf_distinct_creatures wf_drop_ground wf_erase_top wf_erase_down
       wf_change_count)

lemma index_from_found: "found_at (index_from k x xs) = -1 \<longleftrightarrow> x \<notin> set xs"
  by (induction k x xs rule: index_from.induct) (auto simp: found_at_def)

text \<open>What an item that is on the tile leaves behind when it is taken off as a whole.\<close>

lemma removed_top:
  assumes "tile_wf E t" "y \<in> set (topItems t)"
  shows "tile_removeThing E (ItemThing y) n t = resetTileFlags E y (erase_top y (set_parent None y t))"
  using layout_parts [OF wf_layout [OF assms(1)]] assms(2)
  by (auto simp: index_from_found)

lemma removed_down:
  assumes "tile_wf E t" "y \<in> set (downItems t)" "\<not> it_stackable (type_of E t y)"
  shows "tile_removeThing E (ItemThing y) n t = resetTileFlags E y (erase_down y (set_parent None y t))"
  using layout_parts [OF wf_layout [OF assms(1)]] assms(2,3)
  by (auto simp: index_from_found)

lemma erase_top_facts:
  assumes "tile_wf E t" "y \<in> set (topItems t)"
  defines "t' \<equiv> set_parent None y (resetTileFlags E y (erase_top y (set_parent None y t)))"
  shows "tile_wf E t'" "contents t' = contents t - {y}" "length (tl_items t') < length (tl_items t)"
    and "x \<noteq> y \<Longrightarrow> tl_objs t' x = tl_objs t x"
proof -
  note parts = layout_parts [OF wf_layout [OF assms(1)]]
  show c: "contents t' = contents t - {y}"
    using parts assms(2) by (auto simp: t'_def contents_parts [of t] erase_top_def)
  show "tile_wf E t'"
    using wf_erase_top [OF assms(1,2)] c by (simp add: t'_def wf_set_parent)
  show "length (tl_items t') < length (tl_items t)"
    using assms(2) length_pos_if_in_set [OF assms(2)] arg_cong [OF items_split [of t], of length]
    by (simp add: t'_def erase_top_def erase_first_eq_remove1 length_remove1)
  show "x \<noteq> y \<Longrightarrow> tl_objs t' x = tl_objs t x"
    by (simp add: t'_def erase_top_def set_parent_def)
qed

lemma erase_down_facts:
  assumes "tile_wf E t" "y \<in> set (downItems t)"
  defines "t' \<equiv> set_parent None y (resetTileFlags E y (erase_down y (set_parent None y t)))"
  shows "tile_wf E t'" "contents t' = contents t - {y}" "length (tl_items t') < length (tl_items t)"
    and "x \<noteq> y \<Longrightarrow> tl_objs t' x = tl_objs t x"
proof -
  note parts = layout_parts [OF wf_layout [OF assms(1)]]
  show c: "contents t' = contents t - {y}"
    using parts assms(2) by (auto simp: t'_def contents_parts [of t] erase_down_def)
  show "tile_wf E t'"
    using wf_erase_down [OF assms(1,2)] c by (simp add: t'_def wf_set_parent)
  show "length (tl_items t') < length (tl_items t)"
    using assms(2) length_pos_if_in_set [OF assms(2)] arg_cong [OF items_split [of t], of length]
    by (simp add: t'_def erase_down_def erase_first_eq_remove1 length_remove1)
  show "x \<noteq> y \<Longrightarrow> tl_objs t' x = tl_objs t x"
    by (simp add: t'_def erase_down_def set_parent_def)
qed

lemma find_member: "List.find P xs = Some y \<Longrightarrow> y \<in> set xs \<and> P y"
  by (induction xs) (auto split: if_splits)

lemma drop_old_splash_facts:
  assumes "tile_wf E t" "x \<notin> contents t"
  defines "t' \<equiv> drop_old_splash E x t"
  shows "tile_wf E t' \<and> contents t' \<subseteq> contents t \<and> length (tl_items t') \<le> length (tl_items t) \<and>
    tl_objs t' x = tl_objs t x"
proof (cases "isSplash (type_of E t x)")
  case True
  show ?thesis
  proof (cases "List.find (\<lambda>y. isSplash (type_of E t y)) (topItems t)")
    case (Some y)
    have y: "y \<in> set (topItems t)"
      using find_member [OF Some] by simp
    hence "x \<noteq> y"
      using assms(2) by (auto simp: contents_parts)
    have "t' = set_parent None y (resetTileFlags E y (erase_top y (set_parent None y t)))"
      using True Some removed_top [OF assms(1) y, of 1]
      by (simp add: t'_def drop_old_splash_def del: tile_removeThing.simps)
    thus ?thesis
      using erase_top_facts [OF assms(1) y] \<open>x \<noteq> y\<close> by auto
  qed (use assms in \<open>simp add: drop_old_splash_def\<close>)
qed (use assms in \<open>simp add: drop_old_splash_def\<close>)

lemma drop_old_field_facts:
  assumes "tile_wf E t" "x \<notin> contents t" "drop_old_field E x t = Some t'"
  shows "tile_wf E t' \<and> contents t' \<subseteq> contents t \<and> length (tl_items t') \<le> length (tl_items t) \<and>
    tl_objs t' x = tl_objs t x"
proof (cases "List.find (\<lambda>y. to_class (tl_objs t y) = MagicFieldItem) (downItems t)")
  case None
  thus ?thesis
    using assms by (auto simp: drop_old_field_def split: if_splits)
next
  case (Some y)
  have y: "y \<in> set (downItems t)" "to_class (tl_objs t y) = MagicFieldItem"
    using find_member [OF Some] by simp_all
  hence "x \<noteq> y" "\<not> it_stackable (type_of E t y)"
    using assms(1,2) by (auto simp: contents_parts tile_wf_def sane_def)
  from this(2) have "tile_removeThing E (ItemThing y) 1 t =
      resetTileFlags E y (erase_down y (set_parent None y t))"
    by (rule removed_down [OF assms(1) y(1)])
  hence "t' = t \<or> t' = set_parent None y (resetTileFlags E y (erase_down y (set_parent None y t)))"
    using assms(3) unfolding drop_old_field_def Some by (simp split: if_splits del: tile_removeThing.simps)
  thus ?thesis
    using erase_down_facts [OF assms(1) y(1)] assms(1) \<open>x \<noteq> y\<close> by auto
qed

lemma addThing_wf:
  assumes "tile_wf E t" "new_thing E t thing"
  shows "tile_wf E (tile_addThing E thing t)"
proof (cases thing)
  case (CreatureThing c)
  thus ?thesis
    using assms by (simp add: add_creature_def wf_creatures wf_distinct_creatures)
next
  case (ItemThing x)
  let ?s = "set_parent (Some (te_self E)) x t"
  have x: "x \<notin> contents t" "sane E t x"
    using assms(2) ItemThing by simp_all
  have s: "tile_wf E ?s" "x \<notin> contents ?s"
    using wf_own [OF assms(1) x(1)] x(1) by simp_all
  have ground: "tile_wf E (place_ground E x ?s)"
  proof (cases "tl_ground t")
    case None
    thus ?thesis
      using wf_new_ground [OF s] x by (simp add: place_ground_def)
  next
    case (Some old)
    hence "x \<noteq> old"
      using x(1) by (auto simp: contents_def)
    hence "tile_wf E (setTileFlags E x (resetTileFlags E old ((set_parent None old ?s)\<lparr>tl_ground := Some x\<rparr>)))"
      by (intro wf_other_ground [OF assms(1) x Some]) simp_all
    thus ?thesis
      using Some by (simp add: place_ground_def Let_def)
  qed
  have top: "tile_wf E (setTileFlags E x (insert_top P x (drop_old_splash E x ?s)))"
    if "on_top E t x" "length (tl_items t) < 0xFFFF" for P
    using drop_old_splash_facts [OF s] x that
    by (auto intro!: wf_insert_top simp: item_facts sane_def)
  have down: "tile_wf E (setTileFlags E x (tile_push_down x t'))"
    if "drop_old_field E x ?s = Some t'" "\<not> on_top E t x" "length (tl_items t) < 0xFFFF" for t'
    using drop_old_field_facts [OF s that(1)] x that
    by (auto intro!: wf_push_down simp: item_facts sane_def)
  show ?thesis
    using assms(1) x ground top down
    by (auto simp: ItemThing Let_def wf_set_parent split: option.splits)
qed

lemma agree_reset_own: "agree E t (contents t) \<Longrightarrow> x \<in> contents t \<Longrightarrow> agree E (resetTileFlags E x t) (contents t - {x})"
  using agree_reset [of E t "contents t" x] by simp

text \<open>
  The item may turn into another one of its side of the vector; the operation looks at
  nothing else than the id and the attributes of the item.
\<close>

lemma item_index_exists:
  "tile_wf E t \<Longrightarrow> tile_getThingIndex E t (ItemThing x) \<noteq> -1 \<longleftrightarrow> x \<in> contents t"
  using layout_parts [of E t]
  by (auto simp: tile_wf_def index_from_found contents_parts split: if_splits)

lemma wf_retype:
  assumes "tile_wf E t" "x \<in> contents t"
    and "gt_alwaysOnTop (te_types E (item_id (f (to_item (tl_objs t x))))) = on_top E t x"
    and "sane E (change_obj f x t) x"
  shows "tile_wf E (setTileFlags E x (change_obj f x (resetTileFlags E x t)))"
proof -
  let ?s = "change_obj f x (resetTileFlags E x t)"
  have "agree E (resetTileFlags E x t) (contents t - {x})"
    using assms(1,2) by (simp add: tile_wf_def agree_reset_own)
  hence "agree E ?s (contents t - {x})"
    using agree_cong [of ?s "resetTileFlags E x t" "contents t - {x}" E] by simp
  hence "agree E (setTileFlags E x ?s) (contents t)"
    using agree_set [of E ?s "contents t - {x}" x] assms(2) by (simp add: insert_absorb)
  moreover have "on_top E ?s y = on_top E t y" for y
    using assms(3) by (simp add: item_facts)
  moreover have "sane E ?s y" if "y \<in> contents t" for y
    using assms(1,4) that by (cases "y = x") (auto simp: tile_wf_def sane_def item_facts)
  ultimately show ?thesis
    using assms(1) by (simp add: tile_wf_def tile_layout_def)
qed

lemma id_keeps:
  "item_id (on_attrs f it) = item_id it" "item_id (i_setIntAttr a v it) = item_id it"
  "item_id (i_removeAttribute a it) = item_id it" "item_id (setCharges n it) = item_id it"
  "item_id (setFluidType n it) = item_id it" "item_id (setDuration d it) = item_id it"
  "item_id (setDecaying d it) = item_id it"
  by (simp_all add: setFluidType_def setCharges_def i_setIntAttr_def i_removeAttribute_def
      setDuration_def setDecaying_def on_attrs_def split: option.splits)

lemma item_id_after_update: "item_id (setSubType items n (setID items i it)) = i"
  by (simp add: setSubType_def setID_def Let_def id_keeps)

text \<open>What an operation asks for; the game sees to it before it calls the tile.\<close>

datatype tile_op =
    TAdd tile_thing | TInternalAdd tile_thing | TRemove tile_thing u32
  | TUpdate tile_thing u16 u32 | TReplace nat tile_thing

fun tile_op_ok :: "tile_env \<Rightarrow> tile_op \<Rightarrow> tile \<Rightarrow> bool" where
  "tile_op_ok E (TAdd thing) t = new_thing E t thing"
| "tile_op_ok E (TInternalAdd thing) t = new_thing E t thing"
| "tile_op_ok E (TRemove thing n) t = True"
| "tile_op_ok E (TUpdate thing i n) t =
     (case thing of
        CreatureThing _ \<Rightarrow> True
      | ItemThing x \<Rightarrow>
          gt_alwaysOnTop (te_types E i) = on_top E t x \<and>
          (to_class (tl_objs t x) = MagicFieldItem \<longrightarrow> \<not> it_stackable (te_items E i)))"
| "tile_op_ok E (TReplace index thing) t =
     (new_thing E t thing \<and>
      (case (thing, tile_getThing t index) of
         (ItemThing x, Some (ItemThing old)) \<Rightarrow> tl_ground t = Some old \<or> on_top E t x = on_top E t old
       | _ \<Rightarrow> True))"

fun tile_do :: "tile_env \<Rightarrow> tile_op \<Rightarrow> tile \<Rightarrow> tile" where
  "tile_do E (TAdd thing) t = tile_addThing E thing t"
| "tile_do E (TInternalAdd thing) t = tile_internalAddThing E thing t"
| "tile_do E (TRemove thing n) t = tile_removeThing E thing n t"
| "tile_do E (TUpdate thing i n) t = tile_updateThing E thing i n t"
| "tile_do E (TReplace index thing) t = tile_replaceThing E index thing t"

definition tile_step :: "tile_env \<Rightarrow> tile_op \<Rightarrow> tile \<Rightarrow> tile" where
  "tile_step E op t = (if tile_op_ok E op t then tile_do E op t else t)"

lemma updateThing_wf:
  assumes "tile_wf E t" "tile_op_ok E (TUpdate thing i n) t"
  shows "tile_wf E (tile_updateThing E thing i n t)"
proof (cases thing)
  case (ItemThing x)
  show ?thesis
  proof (cases "x \<in> contents t")
    case True
    thus ?thesis
      using assms item_index_exists [OF assms(1), of x] wf_retype [OF assms(1) True]
      by (simp add: tile_updateThing_def ItemThing Let_def item_id_after_update sane_def item_facts
          del: tile_getThingIndex.simps)
  next
    case False
    thus ?thesis
      using assms(1) item_index_exists [OF assms(1), of x]
      by (simp add: tile_updateThing_def ItemThing del: tile_getThingIndex.simps)
  qed
qed (simp add: tile_updateThing_def assms(1))

text \<open>The slot that is replaced is the one \<open>getThing\<close> looks at.\<close>

lemma replace_item_old: "replace_item pos x t = Some (t', old) \<Longrightarrow> thing_at pos t = Some (ItemThing old)"
  by (auto simp: replace_item_def thing_at_def Let_def split: if_splits)

lemma thing_at_item:
  "tl_down t \<le> length (tl_items t) \<Longrightarrow> thing_at pos t = Some (ItemThing old) \<Longrightarrow> old \<in> set (tl_items t)"
  by (auto simp: thing_at_def Let_def split: if_splits)

lemma replaceThing_wf:
  assumes "tile_wf E t" "tile_op_ok E (TReplace index thing) t"
  shows "tile_wf E (tile_replaceThing E index thing t)"
proof (cases thing)
  case (ItemThing x)
  have x: "x \<notin> contents t" "sane E t x"
    using assms(2) ItemThing by simp_all
  have item: "tile_wf E (set_parent None old (setTileFlags E x (resetTileFlags E old
      (set_parent (Some (te_self E)) x t'))))"
    if r: "replace_item pos x t = Some (t', old)" and at: "tile_getThing t index = thing_at pos t" for pos t' old
  proof -
    note old = replace_item_old [OF r]
    have "old \<in> set (tl_items t)"
      using thing_at_item [OF _ old] assms(1) by (simp add: tile_wf_def tile_layout_def)
    hence "tl_ground t \<noteq> Some old"
      using assms(1) by (auto simp: tile_wf_def tile_layout_def)
    hence "on_top E t x = on_top E t old"
      using assms(2) old by (simp add: ItemThing at)
    from wf_replace_item [OF assms(1) x r this] x(1) show ?thesis
      by (auto intro!: wf_own)
  qed
  show ?thesis
  proof (cases "tl_ground t")
    case None
    thus ?thesis
      using item [of index] assms(1)
      by (auto simp: ItemThing Let_def tile_getThing_def split: option.split)
  next
    case (Some g)
    let ?s = "set_parent (Some (te_self E)) x (t\<lparr>tl_ground := Some x\<rparr>)"
    have "x \<noteq> g"
      using x(1) Some by (auto simp: contents_def)
    have "tile_wf E (setTileFlags E x (resetTileFlags E g ?s))"
      by (rule wf_other_ground [OF assms(1) x Some]) (use \<open>x \<noteq> g\<close> in simp_all)
    moreover have "g \<notin> contents ?s"
      using assms(1) Some \<open>x \<noteq> g\<close> by (auto simp: contents_def tile_wf_def tile_layout_def)
    ultimately have "tile_wf E (set_parent None g (setTileFlags E x (resetTileFlags E g ?s)))"
      by (simp add: wf_own)
    thus ?thesis
      using item [of "index - 1"] assms(1) Some
      by (auto simp: ItemThing Let_def tile_getThing_def split: option.split)
  qed
qed (simp add: assms(1))

lemma tile_step_wf: "tile_wf E t \<Longrightarrow> tile_wf E (tile_step E op t)"
  by (cases op)
     (simp_all add: tile_step_def addThing_wf internalAddThing_wf removeThing_wf updateThing_wf
       replaceThing_wf del: tile_addThing.simps tile_internalAddThing.simps tile_removeThing.simps
       tile_replaceThing.simps tile_op_ok.simps(4,5) new_thing.simps)

interpretation tiles: step_machine "tile_step E" "tile_wf E" for E
  by unfold_locales (rule tile_step_wf)

end
