(* ===== verification/TileTheorems.thy ===== *)
theory TileTheorems imports TileProps begin

text \<open>
  What holds on every tile that starts empty and goes through any sequence of operations:
  its flags are those of its items, its things and its indices correspond, its parts stay in
  order.
\<close>

text \<open>A new tile; its objects are the items of the world.\<close>

definition new_tile :: "u32 \<Rightarrow> (nat \<Rightarrow> tile_obj) \<Rightarrow> tile" where
  "new_tile flags objs =
     \<lparr>tl_ground = None, tl_items = [], tl_down = 0, tl_creatures = [], tl_flags = flags, tl_objs = objs\<rparr>"

lemma new_tile_wf: "tile_wf E (new_tile 0 objs)"
proof -
  have "\<not> hasFlag (state_flag p) (new_tile 0 objs)" for p
    by (simp add: hasFlag_def hasBitSet_def new_tile_def)
  thus ?thesis
    by (simp add: tile_wf_def tile_layout_def agree_def contents_def)
       (simp add: new_tile_def downItems_def topItems_def)
qed

definition tile_after :: "tile_env \<Rightarrow> tile_op list \<Rightarrow> (nat \<Rightarrow> tile_obj) \<Rightarrow> tile" where
  "tile_after E ops objs = fold (tile_step E) ops (new_tile 0 objs)"

lemma tile_after_wf: "tile_wf E (tile_after E ops objs)"
  unfolding tile_after_def by (rule tiles.run_inv) (rule new_tile_wf)

section \<open>Flags\<close>

lemma wf_flag: "tile_wf E t \<Longrightarrow> p \<in> tracked \<Longrightarrow> hasFlag (state_flag p) t = tile_hasProperty E t p"
  by (simp add: tile_wf_def agree_def tile_hasProperty_contents)


section \<open>Indices\<close>

lemma index_from_iff:
  "distinct xs \<Longrightarrow> index_from k x xs = Some n \<longleftrightarrow> k \<le> n \<and> n - k < length xs \<and> xs ! (n - k) = x"
proof (induction xs arbitrary: k)
  case (Cons y ys)
  show ?case
  proof (cases "n \<le> k")
    case True
    thus ?thesis
      using Cons by auto
  next
    case False
    then obtain m where m: "n - k = Suc m" "n - Suc k = m"
      by (metis Suc_diff_Suc not_le)
    thus ?thesis
      using Cons False by (auto simp: nth_eq_iff_index_eq in_set_conv_nth)
  qed
qed simp

lemma found_at_iff: "found_at i = int n \<longleftrightarrow> i = Some n"
  by (auto simp: found_at_def split: option.splits)

text \<open>The slots after the ground, region by region.\<close>

lemma thing_at_regions:
  assumes "tile_layout E t"
  shows "thing_at n t =
    (if n < length (topItems t) then Some (ItemThing (topItems t ! n))
     else if n - length (topItems t) < length (tl_creatures t)
       then Some (CreatureThing (tl_creatures t ! (n - length (topItems t))))
     else if n - length (topItems t) - length (tl_creatures t) < length (downItems t)
       then Some (ItemThing (downItems t ! (n - length (topItems t) - length (tl_creatures t))))
     else None)"
proof -
  note parts = layout_parts [OF assms]
  have "length (tl_items t) - tl_down t = length (topItems t)"
    by (simp add: topItems_def)
  moreover have "m < length (downItems t) \<Longrightarrow> tl_items t ! m = downItems t ! m" for m
    by (simp add: items_split [of t] nth_append)
  moreover have "tl_items t ! (tl_down t + m) = topItems t ! m" for m
    using parts by (simp add: items_split [of t] nth_append)
  ultimately show ?thesis
    using parts by (simp add: thing_at_def Let_def)
qed

lemma creature_slot:
  assumes "tile_layout E t"
  shows "thing_at n t = Some (CreatureThing c) \<longleftrightarrow>
    index_from (length (topItems t)) c (tl_creatures t) = Some n"
  using layout_parts [OF assms] by (auto simp: thing_at_regions [OF assms] index_from_iff)

lemma item_slot:
  assumes "tile_layout E t"
  shows "thing_at n t = Some (ItemThing x) \<longleftrightarrow>
    (if on_top E t x then index_from 0 x (topItems t) = Some n
     else index_from (length (topItems t) + length (tl_creatures t)) x (downItems t) = Some n)"
proof -
  note parts = layout_parts [OF assms]
  have "on_top E t (topItems t ! m)" if "m < length (topItems t)" for m
    using parts that by simp
  moreover have "\<not> on_top E t (downItems t ! m)" if "m < length (downItems t)" for m
    using parts that by simp
  ultimately show ?thesis
    using parts by (auto simp: thing_at_regions [OF assms] index_from_iff diff_diff_left)
qed

lemma index_from_shift: "index_from (Suc k) x xs = Some (Suc n) \<longleftrightarrow> index_from k x xs = Some n"
  by (induction k x xs rule: index_from.induct) auto

lemma index_from_ge: "index_from k x xs = Some n \<Longrightarrow> k \<le> n"
  by (induction k x xs rule: index_from.induct) (auto split: if_splits)

lemma slots_and_indices:
  assumes "tile_wf E t"
  shows "tile_getThing t n = Some thing \<longleftrightarrow> tile_getThingIndex E t thing = int n"
proof -
  have layout: "tile_layout E t"
    using assms by (rule wf_layout)
  have fresh: "thing_at m t = Some (ItemThing g) \<Longrightarrow> tl_ground t \<noteq> Some g" for m g
    using thing_at_item [of t m g] layout by (auto simp: tile_layout_def)
  show ?thesis
  proof (cases "tl_ground t")
    case None
    thus ?thesis
      by (cases thing)
         (simp_all add: tile_getThing_def ground_count_def found_at_iff creature_slot [OF layout]
           item_slot [OF layout])
  next
    case (Some g)
    show ?thesis
    proof (cases n)
      case 0
      thus ?thesis
        using Some
        by (cases thing)
           (auto simp: tile_getThing_def ground_count_def found_at_iff [of _ 0, simplified]
             dest!: index_from_ge)
    next
      case (Suc m)
      show ?thesis
        using Some Suc fresh [of m g]
        by (cases thing)
           (auto simp: tile_getThing_def ground_count_def found_at_iff [of _ "Suc m", simplified]
             creature_slot [OF layout] item_slot [OF layout] index_from_shift)
    qed
  qed
qed

text \<open>
  C6. The index that \<open>getThingIndex\<close> gives for a thing and the thing that \<open>getThing\<close> finds at
  an index always belong together: the ground comes first, then the items on top, the creatures
  and the items below, each thing at one index.
\<close>
theorem things_and_indices:
  "tile_getThing (tile_after E ops objs) n = Some thing \<longleftrightarrow>
   tile_getThingIndex E (tile_after E ops objs) thing = int n"
  by (rule slots_and_indices) (rule tile_after_wf)

section \<open>The order of the stack\<close>

lemma filter_sides:
  assumes "tile_layout E t"
  shows "filter (on_top E t) (tl_items t) = topItems t"
    and "filter (\<lambda>x. \<not> on_top E t x) (tl_items t) = downItems t"
proof -
  note parts = layout_parts [OF assms]
  have "filter (on_top E t) (downItems t) = []" "filter (on_top E t) (topItems t) = topItems t"
    "filter (\<lambda>x. \<not> on_top E t x) (topItems t) = []"
    "filter (\<lambda>x. \<not> on_top E t x) (downItems t) = downItems t"
    using parts by (auto simp: filter_id_conv filter_empty_conv)
  thus "filter (on_top E t) (tl_items t) = topItems t"
    and "filter (\<lambda>x. \<not> on_top E t x) (tl_items t) = downItems t"
    by (simp_all add: items_split [of t])
qed

text \<open>
  C7. The items of a tile, always at most 65535 and each once, are split by the count of items
  below into those that are always on top and those that are not; the tile is the parent of
  each of them, and no creature is listed twice.
\<close>
theorem tile_stack_well_formed:
  "filter (on_top E (tile_after E ops objs)) (tl_items (tile_after E ops objs))
     = topItems (tile_after E ops objs) \<and>
   filter (\<lambda>x. \<not> on_top E (tile_after E ops objs) x) (tl_items (tile_after E ops objs))
     = downItems (tile_after E ops objs) \<and>
   tl_down (tile_after E ops objs) = length (downItems (tile_after E ops objs)) \<and>
   length (tl_items (tile_after E ops objs)) \<le> 65535 \<and>
   distinct (tl_items (tile_after E ops objs)) \<and> distinct (tl_creatures (tile_after E ops objs)) \<and>
   filter (\<lambda>x. to_parent (tl_objs (tile_after E ops objs) x) \<noteq> Some (te_self E))
     (tl_items (tile_after E ops objs)) = []"
proof -
  let ?t = "tile_after E ops objs"
  have wf: "tile_wf E ?t" by (rule tile_after_wf)
  note layout = wf_layout [OF wf]
  have "tl_down ?t = length (downItems ?t)" "length (tl_items ?t) \<le> 65535"
    "distinct (tl_items ?t)" "distinct (tl_creatures ?t)"
    using layout layout_parts [OF layout] by (simp_all add: tile_layout_def)
  moreover have "filter (\<lambda>x. to_parent (tl_objs ?t x) \<noteq> Some (te_self E)) (tl_items ?t) = []"
    using wf by (auto simp: tile_wf_def contents_def filter_empty_conv)
  ultimately show ?thesis
    using filter_sides [OF layout] by blast
qed

text \<open>Adding and removing keeps the items on top sorted by their order.\<close>

definition top_sorted :: "tile_env \<Rightarrow> tile \<Rightarrow> bool" where
  "top_sorted E t = sorted (map (top_order E t) (topItems t))"

lemma sorted_insert_before:
  assumes "\<And>y. stop y \<Longrightarrow> f x \<le> f y" "\<And>y. \<not> stop y \<Longrightarrow> f y \<le> f x"
  shows "sorted (map f ys) \<Longrightarrow> sorted (map f (insert_before stop x ys))"
  by (induction ys) (use assms in \<open>auto intro: order_trans\<close>)

lemma sorted_erase_first: "sorted (map f ys) \<Longrightarrow> sorted (map f (erase_first x ys))"
  by (induction ys) (use set_erase_first_subset in fastforce)+

lemma top_order_frame [simp]:
  "top_order E (t\<lparr>tl_items := xs\<rparr>) = top_order E t" "top_order E (t\<lparr>tl_items := xs, tl_down := n\<rparr>) = top_order E t"
  "top_order E (t\<lparr>tl_ground := g\<rparr>) = top_order E t" "top_order E (t\<lparr>tl_creatures := cs\<rparr>) = top_order E t"
  "top_order E (set_parent p x t) = top_order E t"
  "top_order E (setTileFlags E x t) = top_order E t" "top_order E (resetTileFlags E x t) = top_order E t"
  "top_order E (change_obj (\<lambda>it. setItemCount (h it) it) x t) = top_order E t"
  by (simp_all add: fun_eq_iff top_order_def gtype_def id_of_def)

lemma top_sorted_frame [simp]:
  "top_sorted E (setTileFlags E x t) = top_sorted E t" "top_sorted E (resetTileFlags E x t) = top_sorted E t"
  "top_sorted E (set_parent p x t) = top_sorted E t" "top_sorted E (t\<lparr>tl_ground := g\<rparr>) = top_sorted E t"
  "top_sorted E (t\<lparr>tl_creatures := cs\<rparr>) = top_sorted E t"
  "top_sorted E (change_obj (\<lambda>it. setItemCount (h it) it) x t) = top_sorted E t"
  by (simp_all add: top_sorted_def)

lemma topItems_eq: "tl_items t = D @ T \<Longrightarrow> tl_down t = length D \<Longrightarrow> topItems t = T"
  by (simp add: topItems_def)

lemma topItems_moves:
  assumes "tile_layout E t"
  shows "topItems (insert_top stop x t) = insert_before stop x (topItems t)"
    and "topItems (erase_top x t) = erase_first x (topItems t)"
    and "length (tl_items t) < 0xFFFF \<Longrightarrow> topItems (tile_push_down x t) = topItems t"
    and "x \<in> set (downItems t) \<Longrightarrow> topItems (erase_down x t) = topItems t"
proof -
  note parts = layout_parts [OF assms]
  show "topItems (insert_top stop x t) = insert_before stop x (topItems t)"
    by (rule topItems_eq [of _ "downItems t"]) (use parts in \<open>simp_all add: insert_top_def\<close>)
  show "topItems (erase_top x t) = erase_first x (topItems t)"
    by (rule topItems_eq [of _ "downItems t"]) (use parts in \<open>simp_all add: erase_top_def\<close>)
  have "length (tl_items t) = length (downItems t) + length (topItems t)"
    using arg_cong [OF items_split [of t], of length] by simp
  thus "length (tl_items t) < 0xFFFF \<Longrightarrow> topItems (tile_push_down x t) = topItems t"
    by (intro topItems_eq [of _ "x # downItems t"])
       (use parts in \<open>simp_all add: tile_push_down_def items_split [of t]\<close>)
  show "x \<in> set (downItems t) \<Longrightarrow> topItems (erase_down x t) = topItems t"
    by (rule topItems_eq [of _ "erase_first x (downItems t)"])
       (use parts in \<open>simp_all add: erase_down_def erase_first_eq_remove1 length_remove1\<close>)
qed

fun adds_or_removes :: "tile_op \<Rightarrow> bool" where
  "adds_or_removes (TAdd thing) = True"
| "adds_or_removes (TInternalAdd thing) = True"
| "adds_or_removes (TRemove thing n) = True"
| "adds_or_removes _ = False"

lemma sorted_insert_top:
  "tile_layout E t \<Longrightarrow> top_sorted E t \<Longrightarrow> (\<And>y. stop y \<Longrightarrow> top_order E t x \<le> top_order E t y) \<Longrightarrow>
   (\<And>y. \<not> stop y \<Longrightarrow> top_order E t y \<le> top_order E t x) \<Longrightarrow> top_sorted E (insert_top stop x t)"
  unfolding top_sorted_def
  by (simp add: topItems_moves sorted_insert_before) (simp add: insert_top_def sorted_insert_before)

lemma sorted_erase_top:
  "tile_layout E t \<Longrightarrow> top_sorted E t \<Longrightarrow> top_sorted E (erase_top x t)"
  unfolding top_sorted_def by (simp add: topItems_moves) (simp add: erase_top_def sorted_erase_first)

lemma sorted_push_down:
  "tile_layout E t \<Longrightarrow> length (tl_items t) < 0xFFFF \<Longrightarrow> top_sorted E t \<Longrightarrow> top_sorted E (tile_push_down x t)"
  unfolding top_sorted_def by (simp add: topItems_moves) (simp add: tile_push_down_def)

lemma sorted_erase_down:
  "tile_layout E t \<Longrightarrow> x \<in> set (downItems t) \<Longrightarrow> top_sorted E t \<Longrightarrow> top_sorted E (erase_down x t)"
  unfolding top_sorted_def by (simp add: topItems_moves) (simp add: erase_down_def)

lemma removeThing_sorted:
  assumes "tile_wf E t" "top_sorted E t"
  shows "top_sorted E (tile_removeThing E thing n t)"
  using assms wf_layout [OF assms(1)]
  by (cases thing) (simp_all add: sorted_erase_top sorted_erase_down)

lemma drop_splash_sorted: "tile_wf E t \<Longrightarrow> top_sorted E t \<Longrightarrow> top_sorted E (drop_old_splash E x t)"
  by (simp add: drop_old_splash_def removeThing_sorted split: option.split del: tile_removeThing.simps)

lemma drop_field_sorted:
  "tile_wf E t \<Longrightarrow> top_sorted E t \<Longrightarrow> drop_old_field E x t = Some t' \<Longrightarrow> top_sorted E t'"
  by (auto simp: drop_old_field_def removeThing_sorted simp del: tile_removeThing.simps
      split: option.splits if_splits)

lemma internalAddThing_sorted:
  assumes "tile_wf E t" "top_sorted E t"
  shows "top_sorted E (tile_internalAddThing E thing t)"
  using assms wf_layout [OF assms(1)]
  by (cases thing)
     (auto simp: Let_def add_creature_def intro!: sorted_insert_top sorted_push_down)

lemma addThing_sorted:
  assumes "tile_wf E t" "new_thing E t thing" "top_sorted E t"
  shows "top_sorted E (tile_addThing E thing t)"
proof (cases thing)
  case (ItemThing x)
  let ?s = "set_parent (Some (te_self E)) x t"
  have s: "tile_wf E ?s" "x \<notin> contents ?s" "top_sorted E ?s"
    using assms ItemThing by (simp_all add: wf_set_parent)
  have ground: "top_sorted E (place_ground E x ?s)"
    using s(3) by (simp add: place_ground_def Let_def split: option.split)
  have top: "top_sorted E (insert_top (\<lambda>y. top_order E u x \<le> top_order E u y) x (drop_old_splash E x ?s))"
    if "top_order E u = top_order E (drop_old_splash E x ?s)" for u
    using drop_old_splash_facts [OF s(1,2)] drop_splash_sorted [OF s(1,3)]
    by (auto simp: that intro!: sorted_insert_top wf_layout)
  have down: "top_sorted E (tile_push_down x t')"
    if "drop_old_field E x ?s = Some t'" "length (tl_items t) < 0xFFFF" for t'
    using drop_old_field_facts [OF s(1,2) that(1)] drop_field_sorted [OF s(1,3) that(1)] that(2)
    by (auto intro!: sorted_push_down wf_layout)
  show ?thesis
    using assms(3) ground top down by (auto simp: ItemThing Let_def split: option.split)
qed (simp add: add_creature_def assms(3))

definition sorted_tile :: "tile_env \<Rightarrow> tile \<Rightarrow> bool" where
  "sorted_tile E t = (tile_wf E t \<and> top_sorted E t)"

definition guarded_step :: "tile_env \<Rightarrow> tile_op \<Rightarrow> tile \<Rightarrow> tile" where
  "guarded_step E op t = (if adds_or_removes op then tile_step E op t else t)"

lemma guarded_step_sorted: "sorted_tile E t \<Longrightarrow> sorted_tile E (guarded_step E op t)"
  unfolding sorted_tile_def guarded_step_def using tile_step_wf [of E t op]
  by (cases op)
     (simp_all add: tile_step_def addThing_sorted internalAddThing_sorted removeThing_sorted
       del: tile_addThing.simps tile_internalAddThing.simps tile_removeThing.simps new_thing.simps)

interpretation sorted_tiles: step_machine "guarded_step E" "sorted_tile E" for E
  by unfold_locales (rule guarded_step_sorted)

lemma fold_guarded: "list_all P ops \<Longrightarrow> fold (\<lambda>x s. if P x then f x s else s) ops s = fold f ops s"
  by (induction ops arbitrary: s) simp_all

text \<open>
  On a tile that things are only added to and removed from, as new items or by a load, the
  items that are always on top stay sorted by their order: borders, then ladders and splashes,
  then doors.
\<close>
theorem top_items_stay_sorted:
  assumes "list_all adds_or_removes ops"
  shows "sorted (map (top_order E (tile_after E ops objs)) (topItems (tile_after E ops objs)))"
proof -
  have "top_sorted E (new_tile 0 objs)"
    by (simp add: top_sorted_def new_tile_def topItems_def)
  hence "sorted_tile E (fold (guarded_step E) ops (new_tile 0 objs))"
    by (intro sorted_tiles.run_inv) (simp add: sorted_tile_def new_tile_wf)
  moreover have "fold (guarded_step E) ops (new_tile 0 objs) = tile_after E ops objs"
    using fold_guarded [OF assms, of "tile_step E"] by (simp add: tile_after_def guarded_step_def [abs_def])
  ultimately show ?thesis
    by (simp add: sorted_tile_def top_sorted_def)
qed

section \<open>A small world\<close>

text \<open>Item 0 is a ground, item 1 a border, item 2 a door on top, the others are plain things.\<close>

definition small_env :: tile_env where
  "small_env =
     \<lparr>te_items = (\<lambda>i. \<lparr>it_group = (if i = 0 then ITEM_GROUP_GROUND else ITEM_GROUP_NONE), it_type = ITEM_TYPE_NONE,
        it_id = i, it_stackable = False, it_weight = 1, it_decayTime = 0, it_charges = 0, it_decayTo = 0,
        it_maxItems = 0, it_pickupable = True, it_moveable = (i \<noteq> 2), it_stopTime = False\<rparr>),
      te_types = (\<lambda>i. \<lparr>gt_alwaysOnTop = (i = 1 \<or> i = 2), gt_alwaysOnTopOrder = (if i = 2 then 3 else 1),
        gt_floorChange = 0, gt_blockSolid = (i = 2), gt_blockPathFind = False, gt_blockProjectile = False,
        gt_hasHeight = False, gt_isVertical = False, gt_isHorizontal = False, gt_isHangable = False,
        gt_allowPickupable = False, gt_lookThrough = False, gt_replaceable = True\<rparr>),
      te_self = 7\<rparr>"

definition small_objs :: "nat \<Rightarrow> tile_obj" where
  "small_objs x = \<lparr>to_item = \<lparr>item_id = of_nat x, item_count = 1, item_attrs = None\<rparr>,
     to_class = PlainItem, to_parent = None\<rparr>"

lemma small_objs_simps [simp]:
  "to_item (small_objs x) = \<lparr>item_id = of_nat x, item_count = 1, item_attrs = None\<rparr>"
  "to_class (small_objs x) = PlainItem"
  by (simp_all add: small_objs_def)

lemma small_world:
  "on_top small_env t x \<longleftrightarrow> id_of t x = 1 \<or> id_of t x = 2"
  "top_order small_env t x = (if id_of t x = 2 then 3 else 1)"
  "isGroundTile (type_of small_env t x) \<longleftrightarrow> id_of t x = 0"
  "\<not> isSplash (type_of small_env t x)" "\<not> isMagicFieldType (type_of small_env t x)"
  "\<not> it_stackable (type_of small_env t x)"
  by (simp_all add: on_top_def top_order_def gtype_def type_of_def isGroundTile_def isSplash_def
      isMagicFieldType_def small_env_def)

lemma top_items_stay_sorted_witness:
  "topItems (tile_after small_env [TAdd (ItemThing 2), TAdd (ItemThing 3), TAdd (ItemThing 1)] small_objs) = [1, 2] \<and>
   sorted (map (top_order small_env
       (tile_after small_env [TAdd (ItemThing 2), TAdd (ItemThing 3), TAdd (ItemThing 1)] small_objs))
     (topItems (tile_after small_env [TAdd (ItemThing 2), TAdd (ItemThing 3), TAdd (ItemThing 1)] small_objs)))"
proof
  show "topItems (tile_after small_env [TAdd (ItemThing 2), TAdd (ItemThing 3), TAdd (ItemThing 1)] small_objs) = [1, 2]"
    by (simp add: tile_after_def tile_step_def new_tile_def contents_def sane_def small_world topItems_def
        downItems_def insert_top_def drop_old_splash_def drop_old_field_def tile_push_down_def
        setTileFlags_def Let_def id_of_def)
qed (rule top_items_stay_sorted, simp)

end
