(* ===== verification/TileQuery.thy ===== *)
theory TileQuery imports Tiles Geometry begin

text \<open>
  The questions a tile answers (tile.cpp): may a creature or an item come in, may an
  item go, where does a thing that steps on it end up, what is on it. A creature is known by
  what its methods answer; a player who tries to walk through others keeps the time and the
  place of the last attempt (\<open>Player::canWalkthrough\<close>).
\<close>

section \<open>Creatures\<close>

datatype creature_kind = PlayerKind | MonsterKind | NpcKind

text \<open>\<open>ci_tile\<close>: the flags of the creature's tile and whether its ground has a walk stack.\<close>

record creature_info =
  ci_kind :: creature_kind
  ci_ghost :: bool
  ci_invisible :: bool
  ci_access :: bool
  ci_seeInvisible :: bool
  ci_level :: u32
  ci_pos :: position
  ci_tile :: "(u32 \<times> bool) option"
  ci_pzLocked :: bool
  ci_pushable :: bool
  ci_master :: "nat option"
  ci_pushCreatures :: bool
  ci_pushItems :: bool
  ci_immune :: "nat \<Rightarrow> bool"
  ci_walksField :: "nat \<Rightarrow> bool"
  ci_ignoresField :: bool

record creature_env =
  ce_info :: "nat \<Rightarrow> creature_info"
  ce_protection :: u32
  ce_now :: int
  ce_fieldDamage :: "u16 \<Rightarrow> int"
  ce_fieldCombat :: "u16 \<Rightarrow> nat"

definition is_player :: "creature_env \<Rightarrow> nat \<Rightarrow> bool" where
  "is_player C c = (ci_kind (ce_info C c) = PlayerKind)"

definition is_monster :: "creature_env \<Rightarrow> nat \<Rightarrow> bool" where
  "is_monster C c = (ci_kind (ce_info C c) = MonsterKind)"

text \<open>\<open>isInGhostMode\<close> is false for creatures that are not players.\<close>

definition is_ghost :: "creature_env \<Rightarrow> nat \<Rightarrow> bool" where
  "is_ghost C c = (is_player C c \<and> ci_ghost (ce_info C c))"

definition isSummon :: "creature_env \<Rightarrow> nat \<Rightarrow> bool" where
  "isSummon C c = (ci_master (ce_info C c) \<noteq> None)"

record walker =
  lastWalkthroughAttempt :: int
  lastWalkthroughPosition :: position

definition canSeeCreature :: "creature_env \<Rightarrow> nat \<Rightarrow> nat \<Rightarrow> bool" where
  "canSeeCreature C p c =
     (if c = p then True
      else if is_ghost C c \<and> \<not> ci_access (ce_info C p) then False
      else if \<not> is_player C c \<and> \<not> ci_seeInvisible (ce_info C p) \<and> ci_invisible (ce_info C c) then False
      else True)"

definition canWalkthrough :: "creature_env \<Rightarrow> nat \<Rightarrow> nat \<Rightarrow> walker \<Rightarrow> bool \<times> walker" where
  "canWalkthrough C p c w =
     (let ci = ce_info C c in
      if ci_access (ce_info C p) \<or> is_ghost C c then (True, w)
      else if \<not> is_player C c then (False, w)
      else
        (case ci_tile ci of
           None \<Rightarrow> (False, w)
         | Some (flags, walkStack) \<Rightarrow>
             if \<not> hasBitSet TILESTATE_PROTECTIONZONE flags \<and> ce_protection C < ci_level ci then (False, w)
             else if \<not> walkStack then (False, w)
             else if 2000 < ce_now C - lastWalkthroughAttempt w
               then (False, w\<lparr>lastWalkthroughAttempt := ce_now C\<rparr>)
             else if pos_neq (ci_pos ci) (lastWalkthroughPosition w)
               then (False, w\<lparr>lastWalkthroughPosition := ci_pos ci\<rparr>)
             else (True, w\<lparr>lastWalkthroughPosition := ci_pos ci\<rparr>)))"

definition canWalkthroughEx :: "creature_env \<Rightarrow> nat \<Rightarrow> nat \<Rightarrow> bool" where
  "canWalkthroughEx C p c =
     (if ci_access (ce_info C p) then True
      else if \<not> is_player C c then False
      else
        (case ci_tile (ce_info C c) of
           None \<Rightarrow> False
         | Some (flags, _) \<Rightarrow>
             hasBitSet TILESTATE_PROTECTIONZONE flags \<or> ci_level (ce_info C c) \<le> ce_protection C))"

section \<open>What is on the tile\<close>

definition getTopDownItem :: "tile \<Rightarrow> nat option" where
  "getTopDownItem t = (if tl_down t = 0 then None else Some (tl_items t ! 0))"

definition getTopTopItem :: "tile \<Rightarrow> nat option" where
  "getTopTopItem t = (if length (tl_items t) - tl_down t = 0 then None else Some (last (tl_items t)))"

definition getItemByTopOrder :: "tile_env \<Rightarrow> tile \<Rightarrow> int \<Rightarrow> nat option" where
  "getItemByTopOrder E t topOrder = List.find (\<lambda>x. uint (top_order E t x) = topOrder) (rev (topItems t))"

definition getTopCreature :: "tile \<Rightarrow> nat option" where
  "getTopCreature t = (case tl_creatures t of [] \<Rightarrow> None | c # _ \<Rightarrow> Some c)"

definition getBottomCreature :: "tile \<Rightarrow> nat option" where
  "getBottomCreature t = (case rev (tl_creatures t) of [] \<Rightarrow> None | c # _ \<Rightarrow> Some c)"

text \<open>
  Whom a creature sees: players look with \<open>canSeeCreature\<close> of Player, the others with the one
  of Creature, which the argument \<open>sees\<close> gives.
\<close>

definition visible_in ::
  "creature_env \<Rightarrow> (nat \<Rightarrow> nat \<Rightarrow> bool) \<Rightarrow> nat option \<Rightarrow> nat list \<Rightarrow> nat option" where
  "visible_in C sees viewer cs =
     (case viewer of
        Some v \<Rightarrow>
          if is_player C v \<and> ci_access (ce_info C v) then (case cs of [] \<Rightarrow> None | c # _ \<Rightarrow> Some c)
          else List.find (\<lambda>c. if is_player C v then canSeeCreature C v c else sees v c) cs
      | None \<Rightarrow> List.find (\<lambda>c. \<not> ci_invisible (ce_info C c) \<and> \<not> is_ghost C c) cs)"

definition getTopVisibleCreature ::
  "creature_env \<Rightarrow> (nat \<Rightarrow> nat \<Rightarrow> bool) \<Rightarrow> nat option \<Rightarrow> tile \<Rightarrow> nat option" where
  "getTopVisibleCreature C sees viewer t = visible_in C sees viewer (tl_creatures t)"

definition getBottomVisibleCreature ::
  "creature_env \<Rightarrow> (nat \<Rightarrow> nat \<Rightarrow> bool) \<Rightarrow> nat option \<Rightarrow> tile \<Rightarrow> nat option" where
  "getBottomVisibleCreature C sees viewer t = visible_in C sees viewer (rev (tl_creatures t))"

definition getTopVisibleThing ::
  "tile_env \<Rightarrow> creature_env \<Rightarrow> (nat \<Rightarrow> nat \<Rightarrow> bool) \<Rightarrow> nat option \<Rightarrow> tile \<Rightarrow> tile_thing option" where
  "getTopVisibleThing E C sees viewer t =
     (case getTopVisibleCreature C sees viewer t of
        Some c \<Rightarrow> Some (CreatureThing c)
      | None \<Rightarrow>
          (case List.find (\<lambda>x. \<not> gt_lookThrough (gtype E t x)) (downItems t @ rev (topItems t)) of
             Some x \<Rightarrow> Some (ItemThing x)
           | None \<Rightarrow> map_option ItemThing (tl_ground t)))"

text \<open>
  \<open>getFieldItem\<close>, \<open>getTrashHolder\<close>, \<open>getMailbox\<close> and \<open>getBedItem\<close> look at the flag, the
  ground and the items from the last one on; \<open>getTeleportItem\<close> does not look at the ground.
\<close>

definition special_item :: "u32 \<Rightarrow> item_class \<Rightarrow> tile \<Rightarrow> nat option" where
  "special_item flag cls t =
     (if \<not> hasFlag flag t then None
      else List.find (\<lambda>x. to_class (tl_objs t x) = cls)
             ((case tl_ground t of None \<Rightarrow> [] | Some g \<Rightarrow> [g]) @ rev (tl_items t)))"

definition getFieldItem :: "tile \<Rightarrow> nat option" where
  "getFieldItem t = special_item TILESTATE_MAGICFIELD MagicFieldItem t"

definition getTrashHolder :: "tile \<Rightarrow> nat option" where
  "getTrashHolder t = special_item TILESTATE_TRASHHOLDER TrashHolderItem t"

definition getMailbox :: "tile \<Rightarrow> nat option" where
  "getMailbox t = special_item TILESTATE_MAILBOX MailboxItem t"

definition getBedItem :: "tile \<Rightarrow> nat option" where
  "getBedItem t = special_item TILESTATE_BED BedItem t"

definition getTeleportItem :: "tile \<Rightarrow> nat option" where
  "getTeleportItem t =
     (if \<not> hasFlag TILESTATE_TELEPORT t then None
      else List.find (\<lambda>x. to_class (tl_objs t x) = TeleportItem) (rev (tl_items t)))"

definition getThingCount :: "tile \<Rightarrow> nat" where
  "getThingCount t = length (tl_creatures t) + length (tl_items t) + ground_count t"

definition tile_getItemTypeCount :: "tile_env \<Rightarrow> tile \<Rightarrow> u16 \<Rightarrow> int \<Rightarrow> u32" where
  "tile_getItemTypeCount E t itemId subType =
     fold (\<lambda>x count. if id_of t x = itemId
                     then count + countByType (te_items E) (to_item (tl_objs t x)) subType else count)
       ((case tl_ground t of None \<Rightarrow> [] | Some g \<Rightarrow> [g]) @ tl_items t) 0"

definition isMoveableBlocking :: "tile \<Rightarrow> bool" where
  "isMoveableBlocking t = (tl_ground t = None \<or> hasFlag TILESTATE_BLOCKSOLID t)"

definition getUseItem :: "tile \<Rightarrow> nat \<Rightarrow> nat option" where
  "getUseItem t index =
     (if tl_items t = [] then tl_ground t
      else (case tile_getThing t index of Some (ItemThing x) \<Rightarrow> Some x | _ \<Rightarrow> None))"

datatype ZoneType = ZONE_PROTECTION | ZONE_NOPVP | ZONE_PVP | ZONE_NOLOGOUT | ZONE_NORMAL

definition getZone :: "tile \<Rightarrow> ZoneType" where
  "getZone t =
     (if hasFlag TILESTATE_PROTECTIONZONE t then ZONE_PROTECTION
      else if hasFlag TILESTATE_NOPVPZONE t then ZONE_NOPVP
      else if hasFlag TILESTATE_PVPZONE t then ZONE_PVP
      else ZONE_NORMAL)"

section \<open>Stack positions\<close>

text \<open>
  Positions as the client numbers them: at most ten things, the creatures the player does not
  see left out. The creatures are counted from the bottom, except in \<open>getStackposOfItem\<close>.
\<close>

fun client_index :: "(nat \<Rightarrow> bool) \<Rightarrow> nat \<Rightarrow> nat \<Rightarrow> nat list \<Rightarrow> int" where
  "client_index sees creature n [] = -1"
| "client_index sees creature n (c # cs) =
     (if c = creature then int n
      else client_index sees creature (if sees c then n + 1 else n) cs)"

definition getClientIndexOfCreature :: "creature_env \<Rightarrow> tile \<Rightarrow> nat \<Rightarrow> nat \<Rightarrow> int" where
  "getClientIndexOfCreature C t player creature =
     client_index (canSeeCreature C player) creature (ground_count t + length (topItems t))
       (rev (tl_creatures t))"

fun stackpos_creature :: "(nat \<Rightarrow> bool) \<Rightarrow> nat \<Rightarrow> nat \<Rightarrow> nat list \<Rightarrow> int" where
  "stackpos_creature sees creature n [] = -1"
| "stackpos_creature sees creature n (c # cs) =
     (if c = creature then int n
      else if sees c then (if 10 \<le> n + 1 then -1 else stackpos_creature sees creature (n + 1) cs)
      else stackpos_creature sees creature n cs)"

definition getStackposOfCreature :: "creature_env \<Rightarrow> tile \<Rightarrow> nat \<Rightarrow> nat \<Rightarrow> int" where
  "getStackposOfCreature C t player creature =
     (let n = ground_count t + length (topItems t) in
      if 10 \<le> n then -1
      else stackpos_creature (canSeeCreature C player) creature n (rev (tl_creatures t)))"

fun stackpos_item :: "nat \<Rightarrow> nat \<Rightarrow> nat list \<Rightarrow> int" where
  "stackpos_item item n [] = -1"
| "stackpos_item item n (x # xs) =
     (if x = item then int n else if 10 \<le> n + 1 then -1 else stackpos_item item (n + 1) xs)"

fun pass_creatures :: "(nat \<Rightarrow> bool) \<Rightarrow> nat \<Rightarrow> nat list \<Rightarrow> nat option" where
  "pass_creatures sees n [] = Some n"
| "pass_creatures sees n (c # cs) =
     (if sees c then (if 10 \<le> n + 1 then None else pass_creatures sees (n + 1) cs)
      else pass_creatures sees n cs)"

definition getStackposOfItem :: "tile_env \<Rightarrow> creature_env \<Rightarrow> tile \<Rightarrow> nat \<Rightarrow> nat \<Rightarrow> int" where
  "getStackposOfItem E C t player item =
     (if tl_ground t = Some item then 0
      else if on_top E t item then stackpos_item item (ground_count t) (topItems t)
      else
        let n = ground_count t + length (topItems t) in
        if 10 \<le> n then -1
        else
          (case pass_creatures (canSeeCreature C player) n (tl_creatures t) of
             None \<Rightarrow> -1
           | Some n \<Rightarrow> stackpos_item item n (downItems t)))"

section \<open>May it come in\<close>

definition FLAG_IGNOREBLOCKITEM :: u32 where "FLAG_IGNOREBLOCKITEM = push_bit 1 1"
definition FLAG_IGNOREBLOCKCREATURE :: u32 where "FLAG_IGNOREBLOCKCREATURE = push_bit 2 1"
definition FLAG_PATHFINDING :: u32 where "FLAG_PATHFINDING = push_bit 4 1"
definition FLAG_IGNOREFIELDDAMAGE :: u32 where "FLAG_IGNOREFIELDDAMAGE = push_bit 5 1"

text \<open>The numbers of the return values that only tiles answer with.\<close>

definition RETURNVALUE_NOTENOUGHROOM :: ReturnValue where
  "RETURNVALUE_NOTENOUGHROOM = RETURNVALUE_OTHER 2"
definition RETURNVALUE_PLAYERISPZLOCKED :: ReturnValue where
  "RETURNVALUE_PLAYERISPZLOCKED = RETURNVALUE_OTHER 3"
definition RETURNVALUE_NEEDEXCHANGE :: ReturnValue where
  "RETURNVALUE_NEEDEXCHANGE = RETURNVALUE_OTHER 13"
definition RETURNVALUE_PLAYERISPZLOCKEDLEAVEPVPZONE :: ReturnValue where
  "RETURNVALUE_PLAYERISPZLOCKEDLEAVEPVPZONE = RETURNVALUE_OTHER 52"
definition RETURNVALUE_PLAYERISPZLOCKEDENTERPVPZONE :: ReturnValue where
  "RETURNVALUE_PLAYERISPZLOCKEDENTERPVPZONE = RETURNVALUE_OTHER 53"

text \<open>A monster that pushes others stops for all but monsters that let themselves be pushed.\<close>

definition push_stops :: "creature_env \<Rightarrow> nat \<Rightarrow> bool" where
  "push_stops C c =
     (\<not> is_ghost C c \<and>
      (\<not> is_monster C c \<or> \<not> ci_pushable (ce_info C c) \<or>
       (case ci_master (ce_info C c) of None \<Rightarrow> False | Some m \<Rightarrow> is_player C m)))"

definition monster_queryAdd :: "tile_env \<Rightarrow> creature_env \<Rightarrow> tile \<Rightarrow> nat \<Rightarrow> u32 \<Rightarrow> ReturnValue" where
  "monster_queryAdd E C t m flags =
     (let ci = ce_info C m in
      if hasFlag (TILESTATE_PROTECTIONZONE OR TILESTATE_FLOORCHANGE OR TILESTATE_TELEPORT) t
        then RETURNVALUE_NOTPOSSIBLE
      else if ci_pushCreatures ci \<and> \<not> isSummon C m \<and> list_ex (push_stops C) (tl_creatures t)
        then RETURNVALUE_NOTPOSSIBLE
      else if \<not> (ci_pushCreatures ci \<and> \<not> isSummon C m) \<and> list_ex (\<lambda>c. \<not> is_ghost C c) (tl_creatures t)
        then RETURNVALUE_NOTENOUGHROOM
      else if hasFlag TILESTATE_IMMOVABLEBLOCKSOLID t then RETURNVALUE_NOTPOSSIBLE
      else if hasBitSet FLAG_PATHFINDING flags \<and> hasFlag TILESTATE_IMMOVABLENOFIELDBLOCKPATH t
        then RETURNVALUE_NOTPOSSIBLE
      else if (hasFlag TILESTATE_BLOCKSOLID t \<or>
               hasBitSet FLAG_PATHFINDING flags \<and> hasFlag TILESTATE_NOFIELDBLOCKPATH t) \<and>
              \<not> (ci_pushItems ci \<or> hasBitSet FLAG_IGNOREBLOCKITEM flags)
        then RETURNVALUE_NOTPOSSIBLE
      else
        (case getFieldItem t of
           None \<Rightarrow> RETURNVALUE_NOERROR
         | Some field \<Rightarrow>
             let combat = ce_fieldCombat C (id_of t field) in
             if gt_blockSolid (gtype E t field) \<or> ce_fieldDamage C (id_of t field) = 0
               then RETURNVALUE_NOERROR
             else if \<not> ci_immune ci combat then
               (if hasBitSet FLAG_IGNOREFIELDDAMAGE flags then
                  (if \<not> (ci_walksField ci combat \<or> ci_ignoresField ci) then RETURNVALUE_NOTPOSSIBLE
                   else RETURNVALUE_NOERROR)
                else RETURNVALUE_NOTPOSSIBLE)
             else RETURNVALUE_NOERROR))"

text \<open>The loop over the creatures stops at the first one the player cannot walk through.\<close>

fun walk_through_all :: "creature_env \<Rightarrow> nat \<Rightarrow> nat list \<Rightarrow> walker \<Rightarrow> bool \<times> walker" where
  "walk_through_all C p [] w = (True, w)"
| "walk_through_all C p (c # cs) w =
     (let (ok, w) = canWalkthrough C p c w
      in if ok then walk_through_all C p cs w else (False, w))"

definition pz_answer :: "u32 \<Rightarrow> tile \<Rightarrow> ReturnValue option" where
  "pz_answer own t =
     (if \<not> hasBitSet TILESTATE_PVPZONE own \<and> hasFlag TILESTATE_PVPZONE t
        then Some RETURNVALUE_PLAYERISPZLOCKEDENTERPVPZONE
      else if hasBitSet TILESTATE_PVPZONE own \<and> \<not> hasFlag TILESTATE_PVPZONE t
        then Some RETURNVALUE_PLAYERISPZLOCKEDLEAVEPVPZONE
      else if (\<not> hasBitSet TILESTATE_NOPVPZONE own \<and> hasFlag TILESTATE_NOPVPZONE t) \<or>
              (\<not> hasBitSet TILESTATE_PROTECTIONZONE own \<and> hasFlag TILESTATE_PROTECTIONZONE t)
        then Some RETURNVALUE_PLAYERISPZLOCKED
      else None)"

definition immovable_blocks :: "tile_env \<Rightarrow> tile \<Rightarrow> nat \<Rightarrow> bool" where
  "immovable_blocks E t x =
     (gt_blockSolid (gtype E t x) \<and>
      (\<not> it_moveable (type_of E t x) \<or> i_hasAttribute ITEM_ATTRIBUTE_UNIQUEID (to_item (tl_objs t x))))"

text \<open>The end that players and NPCs share.\<close>

definition items_answer :: "tile_env \<Rightarrow> tile \<Rightarrow> u32 \<Rightarrow> ReturnValue" where
  "items_answer E t flags =
     (if \<not> hasBitSet FLAG_IGNOREBLOCKITEM flags then
        (if hasFlag TILESTATE_BLOCKSOLID t then RETURNVALUE_NOTENOUGHROOM else RETURNVALUE_NOERROR)
      else if list_ex (immovable_blocks E t)
                ((case tl_ground t of None \<Rightarrow> [] | Some g \<Rightarrow> [g]) @ tl_items t)
        then RETURNVALUE_NOTPOSSIBLE
      else RETURNVALUE_NOERROR)"

definition player_queryAdd ::
  "tile_env \<Rightarrow> creature_env \<Rightarrow> tile \<Rightarrow> nat \<Rightarrow> u32 \<Rightarrow> walker \<Rightarrow> ReturnValue \<times> walker" where
  "player_queryAdd E C t p flags w =
     (let ci = ce_info C p;
          (through, w) =
            (if hasBitSet FLAG_IGNOREBLOCKCREATURE flags \<or> ci_access ci then (True, w)
             else walk_through_all C p (tl_creatures t) w)
      in if \<not> through then (RETURNVALUE_NOTPOSSIBLE, w)
         else if ci_tile ci = None \<and> hasFlag TILESTATE_NOLOGOUT t then (RETURNVALUE_NOTPOSSIBLE, w)
         else
           (case (case ci_tile ci of
                    Some (own, _) \<Rightarrow> if ci_pzLocked ci then pz_answer own t else None
                  | None \<Rightarrow> None) of
              Some r \<Rightarrow> (r, w)
            | None \<Rightarrow> (items_answer E t flags, w)))"

definition npc_queryAdd :: "tile_env \<Rightarrow> creature_env \<Rightarrow> tile \<Rightarrow> u32 \<Rightarrow> ReturnValue" where
  "npc_queryAdd E C t flags =
     (if \<not> hasBitSet FLAG_IGNOREBLOCKCREATURE flags \<and> list_ex (\<lambda>c. \<not> is_ghost C c) (tl_creatures t)
        then RETURNVALUE_NOTENOUGHROOM
      else items_answer E t flags)"

definition creature_queryAdd ::
  "tile_env \<Rightarrow> creature_env \<Rightarrow> tile \<Rightarrow> nat \<Rightarrow> u32 \<Rightarrow> walker \<Rightarrow> ReturnValue \<times> walker" where
  "creature_queryAdd E C t c flags w =
     (if hasBitSet FLAG_NOLIMIT flags then (RETURNVALUE_NOERROR, w)
      else if hasBitSet FLAG_PATHFINDING flags \<and> hasFlag (TILESTATE_FLOORCHANGE OR TILESTATE_TELEPORT) t
        then (RETURNVALUE_NOTPOSSIBLE, w)
      else if tl_ground t = None then (RETURNVALUE_NOTPOSSIBLE, w)
      else
        (case ci_kind (ce_info C c) of
           MonsterKind \<Rightarrow> (monster_queryAdd E C t c flags, w)
         | PlayerKind \<Rightarrow> player_queryAdd E C t c flags w
         | NpcKind \<Rightarrow> (npc_queryAdd E C t flags, w)))"

text \<open>
  An item on a blocking one: it may lie there when the blocking one takes what can be picked up
  and it neither blocks nor is a field, or when it can be picked up and the blocking one has a
  height, stays where it is and is no bed.
\<close>

definition item_refused_by :: "tile_env \<Rightarrow> tile \<Rightarrow> nat \<Rightarrow> nat \<Rightarrow> bool" where
  "item_refused_by E t x y =
     (let ii = gtype E t y; it = type_of E t x in
      gt_blockSolid ii \<and>
      (\<not> gt_allowPickupable ii \<or> isMagicFieldType it \<or> gt_blockSolid (gtype E t x)) \<and>
      (\<not> it_pickupable it \<or> \<not> gt_hasHeight ii \<or> it_pickupable (type_of E t y) \<or>
       isBedType (type_of E t y)))"

definition item_queryAdd :: "tile_env \<Rightarrow> creature_env \<Rightarrow> tile \<Rightarrow> nat \<Rightarrow> u32 \<Rightarrow> ReturnValue" where
  "item_queryAdd E C t x flags =
     (let hangable = gt_isHangable (gtype E t x) in
      if 0xFFFF \<le> length (tl_items t) then RETURNVALUE_NOTPOSSIBLE
      else if hasBitSet FLAG_NOLIMIT flags then RETURNVALUE_NOERROR
      else if tl_ground t = None \<and> \<not> hangable then RETURNVALUE_NOTPOSSIBLE
      else if gt_blockSolid (gtype E t x) \<and> \<not> hasBitSet FLAG_IGNOREBLOCKCREATURE flags \<and>
              list_ex (\<lambda>c. \<not> is_ghost C c) (tl_creatures t)
        then RETURNVALUE_NOTENOUGHROOM
      else if hangable \<and> hasFlag TILESTATE_SUPPORTS_HANGABLE t then
        (if list_ex (\<lambda>y. gt_isHangable (gtype E t y)) (tl_items t) then RETURNVALUE_NEEDEXCHANGE
         else RETURNVALUE_NOERROR)
      else if list_ex (item_refused_by E t x)
                ((case tl_ground t of None \<Rightarrow> [] | Some g \<Rightarrow> [g]) @ tl_items t)
        then RETURNVALUE_NOTENOUGHROOM
      else RETURNVALUE_NOERROR)"

definition tile_queryMaxCount :: "u32 \<Rightarrow> u32 \<times> ReturnValue" where
  "tile_queryMaxCount count = (max 1 count, RETURNVALUE_NOERROR)"

fun tile_queryRemove :: "tile_env \<Rightarrow> tile \<Rightarrow> tile_thing \<Rightarrow> u32 \<Rightarrow> u32 \<Rightarrow> ReturnValue" where
  "tile_queryRemove E t (CreatureThing c) count flags = RETURNVALUE_NOTPOSSIBLE"
| "tile_queryRemove E t (ItemThing x) count flags =
     (if tile_getThingIndex E t (ItemThing x) = -1 then RETURNVALUE_NOTPOSSIBLE
      else if count = 0 \<or>
              it_stackable (type_of E t x) \<and> ucast (item_count (to_item (tl_objs t x))) < count
        then RETURNVALUE_NOTPOSSIBLE
      else if \<not> it_moveable (type_of E t x) \<and> \<not> hasBitSet FLAG_IGNORENOTMOVEABLE flags
        then RETURNVALUE_NOTMOVEABLE
      else RETURNVALUE_NOERROR)"

section \<open>Where it ends up\<close>

text \<open>
  \<open>queryDestination\<close>: stairs and holes lead to a tile of the floor above or below. The
  coordinates wrap in their types. The result is the place of the tile, none when it is the
  tile itself, with the flags.
\<close>

definition moved :: "bool \<Rightarrow> u16 \<Rightarrow> u16 \<Rightarrow> position \<Rightarrow> position" where
  "moved b dx dy p = (if b then p\<lparr>px := px p + dx, py := py p + dy\<rparr> else p)"

definition down_destination :: "(position \<Rightarrow> tile option) \<Rightarrow> position \<Rightarrow> position option" where
  "down_destination getTile pos =
     (let here = pos\<lparr>pz := pz pos + 1\<rparr>;
          has = (\<lambda>p flag. case getTile p of None \<Rightarrow> False | Some u \<Rightarrow> hasFlag flag u) in
      if has (moved True 0 (-1) here) TILESTATE_FLOORCHANGE_SOUTH_ALT
        then Some (moved True 0 (-2) here)
      else if has (moved True (-1) 0 here) TILESTATE_FLOORCHANGE_EAST_ALT
        then Some (moved True (-2) 0 here)
      else
        (case getTile here of
           None \<Rightarrow> None
         | Some u \<Rightarrow>
             Some (moved (hasFlag TILESTATE_FLOORCHANGE_WEST u) 1 0
                  (moved (hasFlag TILESTATE_FLOORCHANGE_EAST_ALT u) (-2) 0
                  (moved (hasFlag TILESTATE_FLOORCHANGE_EAST u) (-1) 0
                  (moved (hasFlag TILESTATE_FLOORCHANGE_SOUTH_ALT u) 0 (-2)
                  (moved (hasFlag TILESTATE_FLOORCHANGE_SOUTH u) 0 (-1)
                  (moved (hasFlag TILESTATE_FLOORCHANGE_NORTH u) 0 1 here))))))))"

definition up_destination :: "tile \<Rightarrow> position \<Rightarrow> position" where
  "up_destination t pos =
     (let here = pos\<lparr>pz := pz pos - 1\<rparr> in
      moved (hasFlag TILESTATE_FLOORCHANGE_EAST_ALT t) 2 0
     (moved (hasFlag TILESTATE_FLOORCHANGE_SOUTH_ALT t) 0 2
     (moved (hasFlag TILESTATE_FLOORCHANGE_WEST t) (-1) 0
     (moved (hasFlag TILESTATE_FLOORCHANGE_EAST t) 1 0
     (moved (hasFlag TILESTATE_FLOORCHANGE_SOUTH t) 0 1
     (moved (hasFlag TILESTATE_FLOORCHANGE_NORTH t) 0 (-1) here))))))"

definition floor_destination :: "(position \<Rightarrow> tile option) \<Rightarrow> tile \<Rightarrow> position \<Rightarrow> position option" where
  "floor_destination getTile t pos =
     (let dest = (if hasFlag TILESTATE_FLOORCHANGE_DOWN t then down_destination getTile pos
                  else if hasFlag TILESTATE_FLOORCHANGE t then Some (up_destination t pos)
                  else None)
      in case dest of None \<Rightarrow> None | Some p \<Rightarrow> if getTile p = None then None else Some p)"

definition tile_queryDestination ::
  "(position \<Rightarrow> tile option) \<Rightarrow> tile \<Rightarrow> position \<Rightarrow> u32 \<Rightarrow> position option \<times> nat option \<times> u32" where
  "tile_queryDestination getTile t pos flags =
     (case floor_destination getTile t pos of
        None \<Rightarrow> (None, getTopDownItem t, flags)
      | Some p \<Rightarrow>
          (Some p, (case getTile p of None \<Rightarrow> None | Some u \<Rightarrow> getTopDownItem u),
           flags OR FLAG_NOLIMIT))"

end
