(* ===== verification/TileAnswers.thy ===== *)
theory TileAnswers imports TileTheorems TileQuery begin

text \<open>
  What the answers of a tile are worth: nothing is let into walls, what is let in gets in,
  stairs and holes belong together, the stack positions of both protocols agree.
\<close>

section \<open>Walls\<close>

lemma immovable_blocks_property:
  "immovable_blocks E t x = obj_hasProperty E t x CONST_PROP_IMMOVABLEBLOCKSOLID"
  by (auto simp: immovable_blocks_def item_facts gtype_def id_of_def Let_def)

lemma blocks_property: "obj_hasProperty E t x CONST_PROP_IMMOVABLEBLOCKSOLID \<Longrightarrow>
    obj_hasProperty E t x CONST_PROP_BLOCKSOLID"
  by (simp add: item_facts Let_def)

lemma items_answer_free:
  assumes "tile_wf E t" "items_answer E t flags = RETURNVALUE_NOERROR"
  shows "\<not> tile_hasProperty E t CONST_PROP_IMMOVABLEBLOCKSOLID"
proof (cases "hasBitSet FLAG_IGNOREBLOCKITEM flags")
  case True
  thus ?thesis
    using assms(2)
    by (auto simp: items_answer_def tile_hasProperty_def list_ex_iff immovable_blocks_property
        split: option.splits if_splits)
next
  case False
  hence "\<not> hasFlag TILESTATE_BLOCKSOLID t"
    using assms(2) by (auto simp: items_answer_def RETURNVALUE_NOTENOUGHROOM_def split: if_splits)
  thus ?thesis
    using wf_flag [OF assms(1), of CONST_PROP_BLOCKSOLID] blocks_property
    by (auto simp: tracked_def tile_hasProperty_contents simp del: item_hasProperty.simps)
qed

lemma monster_answer_free:
  assumes "tile_wf E t" "monster_queryAdd E C t m flags = RETURNVALUE_NOERROR"
  shows "\<not> tile_hasProperty E t CONST_PROP_IMMOVABLEBLOCKSOLID"
proof -
  have "\<not> hasFlag TILESTATE_IMMOVABLEBLOCKSOLID t"
    using assms(2) by (auto simp: monster_queryAdd_def Let_def RETURNVALUE_NOTENOUGHROOM_def split: if_splits)
  thus ?thesis
    using wf_flag [OF assms(1), of CONST_PROP_IMMOVABLEBLOCKSOLID] by (simp add: tracked_def)
qed

lemma player_answer_free:
  "fst (player_queryAdd E C t p flags w) = RETURNVALUE_NOERROR \<Longrightarrow>
   items_answer E t flags = RETURNVALUE_NOERROR"
  by (auto simp: player_queryAdd_def Let_def pz_answer_def RETURNVALUE_PLAYERISPZLOCKED_def
      RETURNVALUE_PLAYERISPZLOCKEDENTERPVPZONE_def RETURNVALUE_PLAYERISPZLOCKEDLEAVEPVPZONE_def
      split: prod.splits option.splits if_splits)

lemma npc_answer_free:
  "npc_queryAdd E C t flags = RETURNVALUE_NOERROR \<Longrightarrow> items_answer E t flags = RETURNVALUE_NOERROR"
  by (auto simp: npc_queryAdd_def RETURNVALUE_NOTENOUGHROOM_def split: if_splits)

text \<open>
  C4. No creature, player, monster or NPC, is let onto a tile without a ground or with something
  solid that cannot be moved, whatever other checks its flags switch off, unless it asks for no
  limit at all.
\<close>
theorem nobody_walks_into_walls:
  assumes "fst (creature_queryAdd E C (tile_after E ops objs) c flags w) = RETURNVALUE_NOERROR"
    and "\<not> hasBitSet FLAG_NOLIMIT flags"
  shows "tl_ground (tile_after E ops objs) \<noteq> None \<and>
    \<not> tile_hasProperty E (tile_after E ops objs) CONST_PROP_IMMOVABLEBLOCKSOLID"
proof -
  let ?t = "tile_after E ops objs"
  note free = items_answer_free [OF tile_after_wf] monster_answer_free [OF tile_after_wf]
  have "tl_ground ?t \<noteq> None"
    using assms by (auto simp: creature_queryAdd_def split: if_splits)
  moreover have "\<not> tile_hasProperty E ?t CONST_PROP_IMMOVABLEBLOCKSOLID"
    using assms free
    by (auto simp: creature_queryAdd_def dest!: player_answer_free npc_answer_free
        split: if_splits creature_kind.splits)
  ultimately show ?thesis by simp
qed

section \<open>Stack positions\<close>

lemma client_index_ge: "client_index sees c n cs = -1 \<or> int n \<le> client_index sees c n cs"
  by (induction cs arbitrary: n) (use order_trans in \<open>fastforce+\<close>)

lemma stackpos_client_index:
  "n < 10 \<Longrightarrow> stackpos_creature sees c n cs =
     (if client_index sees c n cs < 10 then client_index sees c n cs else -1)"
proof (induction cs arbitrary: n)
  case (Cons d ds)
  show ?case
    using Cons client_index_ge [of sees c "Suc n" ds] by auto
qed simp

text \<open>
  The stack position of a creature, which the code computes by its own loop with early
  exits, is its client index when that is below ten, and none otherwise.
\<close>
theorem stackpos_is_client_index:
  "getStackposOfCreature C t player c =
     (if getClientIndexOfCreature C t player c < 10 then getClientIndexOfCreature C t player c else -1)"
  using client_index_ge [of "canSeeCreature C player" c "ground_count t + length (topItems t)" "rev (tl_creatures t)"]
  by (auto simp: getStackposOfCreature_def getClientIndexOfCreature_def Let_def stackpos_client_index)

section \<open>Stairs and holes\<close>

lemma moved_simps [simp]:
  "px (moved b dx dy p) = px p + (if b then dx else 0)"
  "py (moved b dx dy p) = py p + (if b then dy else 0)"
  "pz (moved b dx dy p) = pz p"
  by (simp_all add: moved_def)

text \<open>
  Stairs and the hole above them belong together: where stairs lead up by some squares on the
  floor above, falling through the hole over them leads by as many squares to the opposite side,
  on the floor of the stairs, unless one of the long stairs lies next to them.
\<close>
theorem stairs_and_holes_are_opposite:
  assumes "getTile pos = Some t"
    and "\<And>u. getTile (pos\<lparr>py := py pos - 1\<rparr>) = Some u \<Longrightarrow> \<not> hasFlag TILESTATE_FLOORCHANGE_SOUTH_ALT u"
    and "\<And>u. getTile (pos\<lparr>px := px pos - 1\<rparr>) = Some u \<Longrightarrow> \<not> hasFlag TILESTATE_FLOORCHANGE_EAST_ALT u"
  shows "case down_destination getTile (pos\<lparr>pz := pz pos - 1\<rparr>) of
      None \<Rightarrow> False
    | Some down \<Rightarrow>
        px down - px pos = px pos - px (up_destination t pos) \<and>
        py down - py pos = py pos - py (up_destination t pos) \<and>
        pz down = pz pos \<and> pz (up_destination t pos) = pz pos - 1"
proof -
  have here: "(pos\<lparr>pz := pz pos - 1\<rparr>)\<lparr>pz := pz (pos\<lparr>pz := pz pos - 1\<rparr>) + 1\<rparr> = pos"
    by simp
  have near: "moved True 0 (-1) pos = pos\<lparr>py := py pos - 1\<rparr>" "moved True (-1) 0 pos = pos\<lparr>px := px pos - 1\<rparr>"
    by (simp_all add: moved_def)
  have "\<not> (case getTile (pos\<lparr>py := py pos - 1\<rparr>) of None \<Rightarrow> False
           | Some u \<Rightarrow> hasFlag TILESTATE_FLOORCHANGE_SOUTH_ALT u)"
    and "\<not> (case getTile (pos\<lparr>px := px pos - 1\<rparr>) of None \<Rightarrow> False
           | Some u \<Rightarrow> hasFlag TILESTATE_FLOORCHANGE_EAST_ALT u)"
    using assms by (auto split: option.splits)
  then obtain down where down: "down_destination getTile (pos\<lparr>pz := pz pos - 1\<rparr>) = Some down"
    and place: "down = moved (hasFlag TILESTATE_FLOORCHANGE_WEST t) 1 0
                  (moved (hasFlag TILESTATE_FLOORCHANGE_EAST_ALT t) (-2) 0
                  (moved (hasFlag TILESTATE_FLOORCHANGE_EAST t) (-1) 0
                  (moved (hasFlag TILESTATE_FLOORCHANGE_SOUTH_ALT t) 0 (-2)
                  (moved (hasFlag TILESTATE_FLOORCHANGE_SOUTH t) 0 (-1)
                  (moved (hasFlag TILESTATE_FLOORCHANGE_NORTH t) 0 1 pos)))))"
    unfolding down_destination_def Let_def here near by (simp add: assms(1))
  have "px down - px pos = px pos - px (up_destination t pos)"
    and "py down - py pos = py pos - py (up_destination t pos)"
    by (simp_all add: up_destination_def Let_def place)
  thus ?thesis
    by (simp add: down) (simp add: up_destination_def Let_def place)
qed

section \<open>Coming in and going out\<close>

lemma add_plain_item:
  assumes "length (tl_items t) < 0xFFFF" "\<not> isGroundTile (type_of E t x)" "\<not> isSplash (type_of E t x)"
    "\<not> isMagicFieldType (type_of E t x)"
  defines "s \<equiv> set_parent (Some (te_self E)) x t"
  shows "tile_addThing E (ItemThing x) t = setTileFlags E x
     (if on_top E t x then insert_top (\<lambda>y. top_order E s x \<le> top_order E s y) x s else tile_push_down x s)"
  using assms by (simp add: Let_def drop_old_splash_def drop_old_field_def item_facts)

lemma place_ground_contents: "x \<in> contents (place_ground E x t)"
  by (auto simp: place_ground_def Let_def contents_def split: option.split)

lemma added_is_there:
  assumes "length (tl_items t) < 0xFFFF" "\<not> isMagicFieldType (type_of E t x)"
  shows "x \<in> contents (tile_addThing E (ItemThing x) t)"
  using assms place_ground_contents
  by (auto simp: Let_def item_facts drop_old_field_def insert_top_def tile_push_down_def)

text \<open>
  An item that is no magic field and that the tile accepts is on the tile once it is added,
  with the tile as its parent.
\<close>
theorem accepted_items_get_in:
  assumes "item_queryAdd E C (tile_after E ops objs) x flags = RETURNVALUE_NOERROR"
    and "new_thing E (tile_after E ops objs) (ItemThing x)"
    and "\<not> isMagicFieldType (type_of E (tile_after E ops objs) x)"
  shows "tile_getThingIndex E (tile_addThing E (ItemThing x) (tile_after E ops objs)) (ItemThing x) \<noteq> -1 \<and>
    to_parent (tl_objs (tile_addThing E (ItemThing x) (tile_after E ops objs)) x) = Some (te_self E)"
proof -
  let ?t = "tile_after E ops objs"
  have "length (tl_items ?t) < 0xFFFF"
    using assms(1) by (auto simp: item_queryAdd_def Let_def split: if_splits)
  hence "x \<in> contents (tile_addThing E (ItemThing x) ?t)"
    using assms(3) by (rule added_is_there)
  moreover have "tile_wf E (tile_addThing E (ItemThing x) ?t)"
    by (rule addThing_wf [OF tile_after_wf assms(2)])
  ultimately show ?thesis
    using item_index_exists by (auto simp: tile_wf_def simp del: tile_addThing.simps tile_getThingIndex.simps)
qed

lemma erase_insert_before: "x \<notin> set ys \<Longrightarrow> erase_first x (insert_before stop x ys) = ys"
  by (induction ys) auto

lemma push_down_parts:
  assumes "tile_layout E t" "length (tl_items t) < 0xFFFF"
  shows "downItems (tile_push_down x t) = x # downItems t"
proof -
  have "tl_down t < 0xFFFF"
    using assms by (simp add: tile_layout_def)
  thus ?thesis by (simp add: tile_push_down_def downItems_def)
qed

definition add_and_take :: "tile_env \<Rightarrow> nat \<Rightarrow> u32 \<Rightarrow> tile \<Rightarrow> tile" where
  "add_and_take E x n t = tile_removeThing E (ItemThing x) n (tile_addThing E (ItemThing x) t)"

lemma add_then_remove_wf:
  assumes "tile_wf E t" "new_thing E t (ItemThing x)" "length (tl_items t) < 65535"
    "\<not> isGroundTile (type_of E t x)" "\<not> isSplash (type_of E t x)" "\<not> isMagicFieldType (type_of E t x)"
    "\<not> it_stackable (type_of E t x)"
  shows "tl_ground (add_and_take E x n t) = tl_ground t \<and> tl_items (add_and_take E x n t) = tl_items t \<and>
    tl_down (add_and_take E x n t) = tl_down t \<and> tl_creatures (add_and_take E x n t) = tl_creatures t \<and>
    hasFlag TILESTATE_BLOCKSOLID (add_and_take E x n t) = hasFlag TILESTATE_BLOCKSOLID t"
proof -
  let ?s = "set_parent (Some (te_self E)) x t"
  note wf = assms(1) and a = assms(2-)
  define t' where "t' = add_and_take E x n t"
  note t' = t'_def [unfolded add_and_take_def]
  have x: "x \<notin> contents t"
    using a(1) by simp
  define u where "u = tile_addThing E (ItemThing x) t"
  have wf_u: "tile_wf E u"
    unfolding u_def by (rule addThing_wf [OF wf a(1)])
  have layout: "tile_layout E ?s"
    using wf_layout [OF wf] by simp
  have parts: "tl_items t = downItems t @ topItems t" "x \<notin> set (topItems t)" "x \<notin> set (downItems t)"
    "tl_down t = length (downItems t)"
    using x layout_parts [OF wf_layout [OF wf]] items_split [of t] by (auto simp: contents_parts)
  have wf': "tile_wf E t'"
    unfolding t' u_def [symmetric] by (rule removeThing_wf [OF wf_u])
  have lists: "tl_ground t' = tl_ground t \<and> tl_items t' = tl_items t \<and> tl_down t' = tl_down t \<and>
    tl_creatures t' = tl_creatures t \<and> to_item \<circ> tl_objs t' = to_item \<circ> tl_objs t"
  proof (cases "on_top E t x")
    case True
    define P where "P = (\<lambda>y. top_order E ?s x \<le> top_order E ?s y)"
    have u: "u = setTileFlags E x (insert_top P x ?s)"
      using add_plain_item [of t E x] a True by (simp add: u_def P_def)
    have "tl_items u = downItems t @ insert_before P x (topItems t)" "tl_down u = length (downItems t)"
      by (simp_all add: u insert_top_def parts(4))
    hence d: "topItems u = insert_before P x (topItems t)" "downItems u = downItems t"
      by (simp_all add: topItems_def [of u] downItems_def [of u])
    have f: "tl_ground u = tl_ground t" "tl_creatures u = tl_creatures t" "tl_down u = tl_down t"
      "to_item (tl_objs u y) = to_item (tl_objs t y)" for y
      by (simp_all add: u insert_top_def)
    have t'_eq: "t' = resetTileFlags E x (erase_top x (set_parent None x u))"
      unfolding t' u_def [symmetric] by (intro removed_top [OF wf_u]) (simp add: d)
    have "tl_items t' = downItems t @ erase_first x (insert_before P x (topItems t))"
      by (simp add: t'_eq erase_top_def d)
    thus ?thesis
      by (simp add: erase_insert_before parts(1,2)) (simp add: t'_eq erase_top_def f fun_eq_iff parts(1) [symmetric])
  next
    case False
    have u: "u = setTileFlags E x (tile_push_down x ?s)"
      using add_plain_item [of t E x] a False by (simp add: u_def)
    have d: "downItems u = x # downItems t" "topItems u = topItems t"
      using push_down_parts [OF layout] topItems_moves(3) [OF layout] a(2) by (simp_all add: u)
    have "\<not> it_stackable (type_of E u x)"
      using a(6) by (simp add: u tile_push_down_def item_facts)
    hence t'_eq: "t' = resetTileFlags E x (erase_down x (set_parent None x u))"
      unfolding t' u_def [symmetric] by (intro removed_down [OF wf_u]) (simp add: d)
    have f: "tl_ground u = tl_ground t" "tl_creatures u = tl_creatures t"
      "to_item (tl_objs u y) = to_item (tl_objs t y)" for y
      by (simp_all add: u tile_push_down_def)
    have "tl_down u = Suc (tl_down t)"
      using layout_parts [OF wf_layout [OF wf_u]] d parts(4) by simp
    moreover have "tl_items t' = downItems t @ topItems t"
      by (simp add: t'_eq erase_down_def d)
    ultimately show ?thesis
      by (simp add: parts(1)) (simp add: t'_eq erase_down_def f fun_eq_iff parts(1) [symmetric])
  qed
  hence "obj_hasProperty E t' y p = obj_hasProperty E t y p" for y p
    by (auto simp: item_facts fun_eq_iff simp del: item_hasProperty.simps)
  hence "tile_hasProperty E t' p = tile_hasProperty E t p" for p
    using lists by (simp add: tile_hasProperty_contents contents_def del: item_hasProperty.simps)
  hence "hasFlag TILESTATE_BLOCKSOLID t' = hasFlag TILESTATE_BLOCKSOLID t"
    using wf_flag [OF wf, of CONST_PROP_BLOCKSOLID] wf_flag [OF wf', of CONST_PROP_BLOCKSOLID]
    by (simp add: tracked_def del: item_hasProperty.simps)
  thus ?thesis
    using lists unfolding t'_def by simp
qed

text \<open>
  Adding an item and taking it off again as a whole gives back the same things in the same
  order, and the same flags for what blocks, unless the item replaces others (a ground, a
  splash, a magic field).
\<close>
theorem add_then_remove:
  assumes "new_thing E (tile_after E ops objs) (ItemThing x)"
    and "length (tl_items (tile_after E ops objs)) < 65535"
    and "\<not> isGroundTile (type_of E (tile_after E ops objs) x)"
    and "\<not> isSplash (type_of E (tile_after E ops objs) x)"
    and "\<not> isMagicFieldType (type_of E (tile_after E ops objs) x)"
    and "\<not> it_stackable (type_of E (tile_after E ops objs) x)"
  shows "tl_ground (add_and_take E x n (tile_after E ops objs)) = tl_ground (tile_after E ops objs) \<and>
    tl_items (add_and_take E x n (tile_after E ops objs)) = tl_items (tile_after E ops objs) \<and>
    tl_down (add_and_take E x n (tile_after E ops objs)) = tl_down (tile_after E ops objs) \<and>
    tl_creatures (add_and_take E x n (tile_after E ops objs)) = tl_creatures (tile_after E ops objs) \<and>
    hasFlag TILESTATE_BLOCKSOLID (add_and_take E x n (tile_after E ops objs))
      = hasFlag TILESTATE_BLOCKSOLID (tile_after E ops objs)"
  by (rule add_then_remove_wf [OF tile_after_wf assms])

section \<open>Concrete cases\<close>

definition small_creatures :: creature_env where
  "small_creatures =
     \<lparr>ce_info = (\<lambda>c. \<lparr>ci_kind = PlayerKind, ci_ghost = False, ci_invisible = False, ci_access = False,
        ci_seeInvisible = False, ci_level = 8, ci_pos = \<lparr>px = 1, py = 1, pz = 7\<rparr>, ci_tile = None,
        ci_pzLocked = False, ci_pushable = True, ci_master = None, ci_pushCreatures = False,
        ci_pushItems = False, ci_immune = (\<lambda>_. False), ci_walksField = (\<lambda>_. False), ci_ignoresField = False\<rparr>),
      ce_protection = 1, ce_now = 0, ce_fieldDamage = (\<lambda>_. 0), ce_fieldCombat = (\<lambda>_. 0)\<rparr>"

lemma small_no_flags:
  assumes "id_of t x \<noteq> 2" "to_class (tl_objs t x) = PlainItem"
  shows "setTileFlags small_env x t = t"
proof -
  have "\<not> obj_hasProperty small_env t x p"
    if "p \<in> {CONST_PROP_IMMOVABLEBLOCKSOLID, CONST_PROP_BLOCKPATH, CONST_PROP_NOFIELDBLOCKPATH,
      CONST_PROP_IMMOVABLENOFIELDBLOCKPATH, CONST_PROP_BLOCKSOLID, CONST_PROP_SUPPORTHANGABLE}" for p
    using that assms(1) by (auto simp: obj_hasProperty_def small_env_def id_of_def)
  moreover have "gt_floorChange (gtype small_env t x) = 0"
    by (simp add: small_env_def gtype_def)
  ultimately show ?thesis
    using assms(2) by (simp add: setTileFlags_def Let_def set_if_def del: item_hasProperty.simps)
qed

lemma ground_only:
  "tile_after small_env [TAdd (ItemThing 0)] small_objs =
   set_parent (Some 7) 0 ((new_tile 0 small_objs)\<lparr>tl_ground := Some 0\<rparr>)"
proof -
  let ?s = "set_parent (Some 7) 0 (new_tile 0 small_objs)"
  have "tile_after small_env [TAdd (ItemThing 0)] small_objs = place_ground small_env 0 ?s"
    by (simp add: tile_after_def tile_step_def contents_def sane_def small_world id_of_def)
       (simp add: new_tile_def id_of_def small_env_def)
  thus ?thesis
    by (simp add: place_ground_def small_no_flags id_of_def) (simp add: new_tile_def small_no_flags id_of_def set_parent_def)
qed

lemma nobody_walks_into_walls_witness:
  "fst (creature_queryAdd small_env small_creatures (tile_after small_env [TAdd (ItemThing 0)] small_objs) 5 0
     \<lparr>lastWalkthroughAttempt = 0, lastWalkthroughPosition = \<lparr>px = 0, py = 0, pz = 0\<rparr>\<rparr>)
     = RETURNVALUE_NOERROR \<and>
   tl_ground (tile_after small_env [TAdd (ItemThing 0)] small_objs) \<noteq> None \<and>
   \<not> tile_hasProperty small_env (tile_after small_env [TAdd (ItemThing 0)] small_objs)
       CONST_PROP_IMMOVABLEBLOCKSOLID"
proof -
  have ok: "fst (creature_queryAdd small_env small_creatures (tile_after small_env [TAdd (ItemThing 0)] small_objs) 5 0
     \<lparr>lastWalkthroughAttempt = 0, lastWalkthroughPosition = \<lparr>px = 0, py = 0, pz = 0\<rparr>\<rparr>)
     = RETURNVALUE_NOERROR"
    by (simp add: ground_only creature_queryAdd_def player_queryAdd_def items_answer_def hasFlag_def
        hasBitSet_def small_creatures_def Let_def new_tile_def)
  thus ?thesis
    using nobody_walks_into_walls [OF ok] by (simp add: hasBitSet_def)
qed

text \<open>Stairs to the north at (5, 5, 7) and nothing around them.\<close>

definition stairs_map :: "position \<Rightarrow> tile option" where
  "stairs_map p = (if p = \<lparr>px = 5, py = 5, pz = 7\<rparr>
     then Some (new_tile TILESTATE_FLOORCHANGE_NORTH small_objs) else None)"

lemma stairs_and_holes_are_opposite_witness:
  "case down_destination stairs_map (\<lparr>px = 5, py = 5, pz = 7\<rparr>\<lparr>pz := pz \<lparr>px = 5, py = 5, pz = 7\<rparr> - 1\<rparr>) of
      None \<Rightarrow> False
    | Some down \<Rightarrow>
        px down - px \<lparr>px = 5, py = 5, pz = 7\<rparr> = px \<lparr>px = 5, py = 5, pz = 7\<rparr> -
          px (up_destination (new_tile TILESTATE_FLOORCHANGE_NORTH small_objs) \<lparr>px = 5, py = 5, pz = 7\<rparr>) \<and>
        py down - py \<lparr>px = 5, py = 5, pz = 7\<rparr> = py \<lparr>px = 5, py = 5, pz = 7\<rparr> -
          py (up_destination (new_tile TILESTATE_FLOORCHANGE_NORTH small_objs) \<lparr>px = 5, py = 5, pz = 7\<rparr>) \<and>
        pz down = pz \<lparr>px = 5, py = 5, pz = 7\<rparr> \<and>
        pz (up_destination (new_tile TILESTATE_FLOORCHANGE_NORTH small_objs) \<lparr>px = 5, py = 5, pz = 7\<rparr>)
          = pz \<lparr>px = 5, py = 5, pz = 7\<rparr> - 1"
  by (rule stairs_and_holes_are_opposite) (auto simp: stairs_map_def split: if_splits)

lemma accepted_items_get_in_witness:
  "tile_getThingIndex small_env
     (tile_addThing small_env (ItemThing 3) (tile_after small_env [TAdd (ItemThing 0)] small_objs)) (ItemThing 3) \<noteq> -1 \<and>
   to_parent (tl_objs (tile_addThing small_env (ItemThing 3)
     (tile_after small_env [TAdd (ItemThing 0)] small_objs)) 3) = Some (te_self small_env)"
proof (rule accepted_items_get_in)
  show "item_queryAdd small_env small_creatures (tile_after small_env [TAdd (ItemThing 0)] small_objs) 3 0
      = RETURNVALUE_NOERROR"
    by (simp add: ground_only item_queryAdd_def item_refused_by_def gtype_def type_of_def id_of_def Let_def
        hasBitSet_def)
       (simp add: new_tile_def small_env_def)
  show "new_thing small_env (tile_after small_env [TAdd (ItemThing 0)] small_objs) (ItemThing 3)"
    by (simp add: ground_only contents_def sane_def new_tile_def)
qed (rule small_world)

lemma add_then_remove_witness:
  "tl_ground (add_and_take small_env 3 1 (tile_after small_env [TAdd (ItemThing 0)] small_objs))
     = tl_ground (tile_after small_env [TAdd (ItemThing 0)] small_objs) \<and>
   tl_items (add_and_take small_env 3 1 (tile_after small_env [TAdd (ItemThing 0)] small_objs))
     = tl_items (tile_after small_env [TAdd (ItemThing 0)] small_objs) \<and>
   tl_down (add_and_take small_env 3 1 (tile_after small_env [TAdd (ItemThing 0)] small_objs))
     = tl_down (tile_after small_env [TAdd (ItemThing 0)] small_objs) \<and>
   tl_creatures (add_and_take small_env 3 1 (tile_after small_env [TAdd (ItemThing 0)] small_objs))
     = tl_creatures (tile_after small_env [TAdd (ItemThing 0)] small_objs) \<and>
   hasFlag TILESTATE_BLOCKSOLID (add_and_take small_env 3 1 (tile_after small_env [TAdd (ItemThing 0)] small_objs))
     = hasFlag TILESTATE_BLOCKSOLID (tile_after small_env [TAdd (ItemThing 0)] small_objs)"
proof (rule add_then_remove)
  show "new_thing small_env (tile_after small_env [TAdd (ItemThing 0)] small_objs) (ItemThing 3)"
    by (simp add: ground_only contents_def sane_def new_tile_def)
  show "length (tl_items (tile_after small_env [TAdd (ItemThing 0)] small_objs)) < 65535"
    by (simp add: ground_only new_tile_def)
qed (simp_all add: small_world ground_only id_of_def new_tile_def)

end
