(* ===== verification/Conditions.thy ===== *)
theory Conditions imports Streams begin

text \<open>
  Conditions of creatures (condition.h, condition.cpp): poison, haste, regeneration, cooldowns.
  A condition is the record of the base class with the data of its class. This theory has
  their making, their parameters and their serialization; what they do to a creature is in
  CreatureConditions. Integers of 32 bits are words, read with \<open>sint\<close> where they are signed;
  floats are the words of their images; times are the milliseconds of \<open>OTSYS_TIME\<close>.
\<close>

section \<open>Types\<close>

definition CONDITION_POISON :: u32 where "CONDITION_POISON = 1"
definition CONDITION_FIRE :: u32 where "CONDITION_FIRE = 2"
definition CONDITION_ENERGY :: u32 where "CONDITION_ENERGY = 4"
definition CONDITION_BLEEDING :: u32 where "CONDITION_BLEEDING = 8"
definition CONDITION_HASTE :: u32 where "CONDITION_HASTE = 16"
definition CONDITION_PARALYZE :: u32 where "CONDITION_PARALYZE = 32"
definition CONDITION_OUTFIT :: u32 where "CONDITION_OUTFIT = 64"
definition CONDITION_INVISIBLE :: u32 where "CONDITION_INVISIBLE = 128"
definition CONDITION_LIGHT :: u32 where "CONDITION_LIGHT = 256"
definition CONDITION_MANASHIELD :: u32 where "CONDITION_MANASHIELD = 512"
definition CONDITION_INFIGHT :: u32 where "CONDITION_INFIGHT = 1024"
definition CONDITION_DRUNK :: u32 where "CONDITION_DRUNK = 2048"
definition CONDITION_EXHAUST_WEAPON :: u32 where "CONDITION_EXHAUST_WEAPON = 4096"
definition CONDITION_REGENERATION :: u32 where "CONDITION_REGENERATION = 8192"
definition CONDITION_SOUL :: u32 where "CONDITION_SOUL = 16384"
definition CONDITION_DROWN :: u32 where "CONDITION_DROWN = 32768"
definition CONDITION_MUTED :: u32 where "CONDITION_MUTED = 65536"
definition CONDITION_CHANNELMUTEDTICKS :: u32 where "CONDITION_CHANNELMUTEDTICKS = 131072"
definition CONDITION_YELLTICKS :: u32 where "CONDITION_YELLTICKS = 262144"
definition CONDITION_ATTRIBUTES :: u32 where "CONDITION_ATTRIBUTES = 524288"
definition CONDITION_FREEZING :: u32 where "CONDITION_FREEZING = 1048576"
definition CONDITION_DAZZLED :: u32 where "CONDITION_DAZZLED = 2097152"
definition CONDITION_CURSED :: u32 where "CONDITION_CURSED = 4194304"
definition CONDITION_EXHAUST_COMBAT :: u32 where "CONDITION_EXHAUST_COMBAT = 8388608"
definition CONDITION_EXHAUST_HEAL :: u32 where "CONDITION_EXHAUST_HEAL = 16777216"
definition CONDITION_PACIFIED :: u32 where "CONDITION_PACIFIED = 33554432"
definition CONDITION_SPELLCOOLDOWN :: u32 where "CONDITION_SPELLCOOLDOWN = 67108864"
definition CONDITION_SPELLGROUPCOOLDOWN :: u32 where "CONDITION_SPELLGROUPCOOLDOWN = 134217728"

lemmas condition_type_defs =
  CONDITION_POISON_def CONDITION_FIRE_def CONDITION_ENERGY_def CONDITION_BLEEDING_def
  CONDITION_HASTE_def CONDITION_PARALYZE_def CONDITION_OUTFIT_def CONDITION_INVISIBLE_def
  CONDITION_LIGHT_def CONDITION_MANASHIELD_def CONDITION_INFIGHT_def CONDITION_DRUNK_def
  CONDITION_EXHAUST_WEAPON_def CONDITION_REGENERATION_def CONDITION_SOUL_def CONDITION_DROWN_def
  CONDITION_MUTED_def CONDITION_CHANNELMUTEDTICKS_def CONDITION_YELLTICKS_def
  CONDITION_ATTRIBUTES_def CONDITION_FREEZING_def CONDITION_DAZZLED_def CONDITION_CURSED_def
  CONDITION_EXHAUST_COMBAT_def CONDITION_EXHAUST_HEAL_def CONDITION_PACIFIED_def
  CONDITION_SPELLCOOLDOWN_def CONDITION_SPELLGROUPCOOLDOWN_def

datatype condition_param =
    CONDITION_PARAM_OWNER | CONDITION_PARAM_TICKS | CONDITION_PARAM_HEALTHGAIN
  | CONDITION_PARAM_HEALTHTICKS | CONDITION_PARAM_MANAGAIN | CONDITION_PARAM_MANATICKS
  | CONDITION_PARAM_DELAYED | CONDITION_PARAM_SPEED | CONDITION_PARAM_LIGHT_LEVEL
  | CONDITION_PARAM_LIGHT_COLOR | CONDITION_PARAM_SOULGAIN | CONDITION_PARAM_SOULTICKS
  | CONDITION_PARAM_MINVALUE | CONDITION_PARAM_MAXVALUE | CONDITION_PARAM_STARTVALUE
  | CONDITION_PARAM_TICKINTERVAL | CONDITION_PARAM_FORCEUPDATE | CONDITION_PARAM_SKILL_MELEE
  | CONDITION_PARAM_SKILL_FIST | CONDITION_PARAM_SKILL_CLUB | CONDITION_PARAM_SKILL_SWORD
  | CONDITION_PARAM_SKILL_AXE | CONDITION_PARAM_SKILL_DISTANCE | CONDITION_PARAM_SKILL_SHIELD
  | CONDITION_PARAM_SKILL_FISHING | CONDITION_PARAM_STAT_MAXHITPOINTS
  | CONDITION_PARAM_STAT_MAXMANAPOINTS | CONDITION_PARAM_STAT_MAGICPOINTS
  | CONDITION_PARAM_STAT_MAXHITPOINTSPERCENT | CONDITION_PARAM_STAT_MAXMANAPOINTSPERCENT
  | CONDITION_PARAM_STAT_MAGICPOINTSPERCENT | CONDITION_PARAM_PERIODICDAMAGE
  | CONDITION_PARAM_SKILL_MELEEPERCENT | CONDITION_PARAM_SKILL_FISTPERCENT
  | CONDITION_PARAM_SKILL_CLUBPERCENT | CONDITION_PARAM_SKILL_SWORDPERCENT
  | CONDITION_PARAM_SKILL_AXEPERCENT | CONDITION_PARAM_SKILL_DISTANCEPERCENT
  | CONDITION_PARAM_SKILL_SHIELDPERCENT | CONDITION_PARAM_SKILL_FISHINGPERCENT
  | CONDITION_PARAM_BUFF_SPELL | CONDITION_PARAM_SUBID | CONDITION_PARAM_FIELD
  | CONDITION_PARAM_DISABLE_DEFENSE | CONDITION_PARAM_SPECIALSKILL_CRITICALHITCHANCE
  | CONDITION_PARAM_SPECIALSKILL_CRITICALHITAMOUNT
  | CONDITION_PARAM_SPECIALSKILL_HITPOINTSLEECHCHANCE
  | CONDITION_PARAM_SPECIALSKILL_HITPOINTSLEECHAMOUNT
  | CONDITION_PARAM_SPECIALSKILL_MANAPOINTSLEECHCHANCE
  | CONDITION_PARAM_SPECIALSKILL_MANAPOINTSLEECHAMOUNT

text \<open>
  \<open>ConditionId_t\<close> is a signed byte. An \<open>Outfit_t\<close> is written as it lies in memory, with a
  byte of padding after its eleven.
\<close>

type_synonym condition_id = u8

definition CONDITIONID_DEFAULT :: condition_id where "CONDITIONID_DEFAULT = -1"
definition CONDITIONID_COMBAT :: condition_id where "CONDITIONID_COMBAT = 0"

record outfit =
  lookType :: u16
  lookTypeEx :: u16
  lookMount :: u16
  lookHead :: u8
  lookBody :: u8
  lookLegs :: u8
  lookFeet :: u8
  lookAddons :: u8
  look_padding :: u8

record interval_info =
  iv_timeLeft :: u32
  iv_value :: u32
  iv_interval :: u32

record attributes_data =
  skills :: "u32 list"
  skillsPercent :: "u32 list"
  specialSkills :: "u32 list"
  stats :: "u32 list"
  statsPercent :: "u32 list"
  currentSkill :: nat
  currentStat :: nat
  disableDefense :: bool

record regeneration_data =
  internalHealthTicks :: u32
  internalManaTicks :: u32
  healthTicks :: u32
  manaTicks :: u32
  healthGain :: u32
  manaGain :: u32

record soul_data =
  internalSoulTicks :: u32
  soulTicks :: u32
  soulGain :: u32

record damage_data =
  maxDamage :: u32
  minDamage :: u32
  startDamage :: u32
  periodDamage :: u32
  periodDamageTick :: u32
  tickInterval :: u32
  forceUpdate :: bool
  delayed :: bool
  field :: bool
  owner :: u32
  damageList :: "interval_info list"

record speed_data =
  speedDelta :: u32
  mina :: u32
  minb :: u32
  maxa :: u32
  maxb :: u32

record light_data =
  light_level :: u8
  light_color :: u8
  internalLightTicks :: u32
  lightChangeInterval :: u32

datatype condition_data =
    ConditionGeneric
  | ConditionAttributes attributes_data
  | ConditionRegeneration regeneration_data
  | ConditionSoul soul_data
  | ConditionInvisible
  | ConditionDamage damage_data
  | ConditionSpeed speed_data
  | ConditionOutfit outfit
  | ConditionLight light_data
  | ConditionSpellCooldown
  | ConditionSpellGroupCooldown

record condition =
  c_id :: condition_id
  c_type :: u32
  c_ticks :: u32
  c_endTime :: int
  c_subId :: u32
  c_isBuff :: bool
  c_data :: condition_data

section \<open>Making conditions\<close>

definition max_time :: int where "max_time = 2 ^ 63 - 1"

definition base_condition :: "condition_data \<Rightarrow> condition_id \<Rightarrow> u32 \<Rightarrow> u32 \<Rightarrow> bool \<Rightarrow> u32 \<Rightarrow> condition" where
  "base_condition data cid type ticks buff subId =
     \<lparr>c_id = cid, c_type = type, c_ticks = ticks, c_endTime = (if ticks = -1 then max_time else 0),
      c_subId = subId, c_isBuff = buff, c_data = data\<rparr>"

definition new_attributes :: attributes_data where
  "new_attributes =
     \<lparr>skills = replicate 7 0, skillsPercent = replicate 7 0, specialSkills = replicate 6 0,
      stats = replicate 4 0, statsPercent = replicate 4 0, currentSkill = 0, currentStat = 0,
      disableDefense = False\<rparr>"

definition new_regeneration :: regeneration_data where
  "new_regeneration =
     \<lparr>internalHealthTicks = 0, internalManaTicks = 0, healthTicks = 1000, manaTicks = 1000,
      healthGain = 0, manaGain = 0\<rparr>"

definition new_soul :: soul_data where
  "new_soul = \<lparr>internalSoulTicks = 0, soulTicks = 0, soulGain = 0\<rparr>"

definition new_damage :: damage_data where
  "new_damage =
     \<lparr>maxDamage = 0, minDamage = 0, startDamage = 0, periodDamage = 0, periodDamageTick = 0,
      tickInterval = 2000, forceUpdate = False, delayed = False, field = False, owner = 0,
      damageList = []\<rparr>"

definition new_speed :: "u32 \<Rightarrow> speed_data" where
  "new_speed changeSpeed = \<lparr>speedDelta = changeSpeed, mina = 0, minb = 0, maxa = 0, maxb = 0\<rparr>"

definition new_outfit :: outfit where
  "new_outfit =
     \<lparr>lookType = 0, lookTypeEx = 0, lookMount = 0, lookHead = 0, lookBody = 0, lookLegs = 0,
      lookFeet = 0, lookAddons = 0, look_padding = 0\<rparr>"

definition new_light :: "u8 \<Rightarrow> u8 \<Rightarrow> light_data" where
  "new_light level color =
     \<lparr>light_level = level, light_color = color, internalLightTicks = 0, lightChangeInterval = 0\<rparr>"

text \<open>The class of a condition follows from its type; a condition of damage starts without ticks.\<close>

definition createCondition ::
  "condition_id \<Rightarrow> u32 \<Rightarrow> u32 \<Rightarrow> u32 \<Rightarrow> bool \<Rightarrow> u32 \<Rightarrow> condition option" where
  "createCondition cid type ticks param buff subId =
     (if type \<in> set [CONDITION_POISON, CONDITION_FIRE, CONDITION_ENERGY, CONDITION_DROWN,
           CONDITION_FREEZING, CONDITION_DAZZLED, CONDITION_CURSED, CONDITION_BLEEDING]
        then Some (base_condition (ConditionDamage new_damage) cid type 0 buff subId)
      else if type = CONDITION_HASTE \<or> type = CONDITION_PARALYZE
        then Some (base_condition (ConditionSpeed (new_speed param)) cid type ticks buff subId)
      else if type = CONDITION_INVISIBLE
        then Some (base_condition ConditionInvisible cid type ticks buff subId)
      else if type = CONDITION_OUTFIT
        then Some (base_condition (ConditionOutfit new_outfit) cid type ticks buff subId)
      else if type = CONDITION_LIGHT
        then Some (base_condition
               (ConditionLight (new_light (ucast (param AND 0xFF)) (ucast (drop_bit 8 (param AND 0xFF00)))))
               cid type ticks buff subId)
      else if type = CONDITION_REGENERATION
        then Some (base_condition (ConditionRegeneration new_regeneration) cid type ticks buff subId)
      else if type = CONDITION_SOUL
        then Some (base_condition (ConditionSoul new_soul) cid type ticks buff subId)
      else if type = CONDITION_ATTRIBUTES
        then Some (base_condition (ConditionAttributes new_attributes) cid type ticks buff subId)
      else if type = CONDITION_SPELLCOOLDOWN
        then Some (base_condition ConditionSpellCooldown cid type ticks buff subId)
      else if type = CONDITION_SPELLGROUPCOOLDOWN
        then Some (base_condition ConditionSpellGroupCooldown cid type ticks buff subId)
      else if type \<in> set [CONDITION_INFIGHT, CONDITION_DRUNK, CONDITION_EXHAUST_WEAPON,
           CONDITION_EXHAUST_COMBAT, CONDITION_EXHAUST_HEAL, CONDITION_MUTED,
           CONDITION_CHANNELMUTEDTICKS, CONDITION_YELLTICKS, CONDITION_PACIFIED, CONDITION_MANASHIELD]
        then Some (base_condition ConditionGeneric cid type ticks buff subId)
      else None)"

definition isPersistent :: "condition \<Rightarrow> bool" where
  "isPersistent c =
     (if c_ticks c = -1 then False
      else if \<not> (c_id c = CONDITIONID_DEFAULT \<or> c_id c = CONDITIONID_COMBAT \<or> c_type c = CONDITION_MUTED)
        then False
      else True)"

definition setTicks :: "int \<Rightarrow> u32 \<Rightarrow> condition \<Rightarrow> condition" where
  "setTicks now newTicks c = c\<lparr>c_ticks := newTicks, c_endTime := sint newTicks + now\<rparr>"

section \<open>Parameters\<close>

text \<open>The result tells whether the parameter was known; the change happens either way.\<close>

definition base_setParam :: "condition_param \<Rightarrow> u32 \<Rightarrow> condition \<Rightarrow> bool \<times> condition" where
  "base_setParam param v c =
     (case param of
        CONDITION_PARAM_TICKS \<Rightarrow> (True, c\<lparr>c_ticks := v\<rparr>)
      | CONDITION_PARAM_BUFF_SPELL \<Rightarrow> (True, c\<lparr>c_isBuff := (v \<noteq> 0)\<rparr>)
      | CONDITION_PARAM_SUBID \<Rightarrow> (True, c\<lparr>c_subId := v\<rparr>)
      | _ \<Rightarrow> (False, c))"

definition abs32 :: "u32 \<Rightarrow> u32" where
  "abs32 v = (if sint v < 0 then - v else v)"

definition at_least_0 :: "u32 \<Rightarrow> u32" where
  "at_least_0 v = (if sint v < 0 then 0 else v)"

text \<open>
  The indices of \<open>skills_t\<close>: fist 0, club 1, sword 2, axe 3, distance 4, shield 5, fishing 6;
  of \<open>stats_t\<close>: hit points 0, mana points 1, magic points 3.
\<close>

definition attributes_setParam :: "condition_param \<Rightarrow> u32 \<Rightarrow> attributes_data \<Rightarrow> attributes_data option" where
  "attributes_setParam param v d =
     (case param of
        CONDITION_PARAM_SKILL_MELEE \<Rightarrow> Some (d\<lparr>skills := (skills d)[1 := v, 3 := v, 2 := v]\<rparr>)
      | CONDITION_PARAM_SKILL_MELEEPERCENT \<Rightarrow>
          Some (d\<lparr>skillsPercent := (skillsPercent d)[1 := v, 3 := v, 2 := v]\<rparr>)
      | CONDITION_PARAM_SKILL_FIST \<Rightarrow> Some (d\<lparr>skills := (skills d)[0 := v]\<rparr>)
      | CONDITION_PARAM_SKILL_FISTPERCENT \<Rightarrow> Some (d\<lparr>skillsPercent := (skillsPercent d)[0 := v]\<rparr>)
      | CONDITION_PARAM_SKILL_CLUB \<Rightarrow> Some (d\<lparr>skills := (skills d)[1 := v]\<rparr>)
      | CONDITION_PARAM_SKILL_CLUBPERCENT \<Rightarrow> Some (d\<lparr>skillsPercent := (skillsPercent d)[1 := v]\<rparr>)
      | CONDITION_PARAM_SKILL_SWORD \<Rightarrow> Some (d\<lparr>skills := (skills d)[2 := v]\<rparr>)
      | CONDITION_PARAM_SKILL_SWORDPERCENT \<Rightarrow> Some (d\<lparr>skillsPercent := (skillsPercent d)[2 := v]\<rparr>)
      | CONDITION_PARAM_SKILL_AXE \<Rightarrow> Some (d\<lparr>skills := (skills d)[3 := v]\<rparr>)
      | CONDITION_PARAM_SKILL_AXEPERCENT \<Rightarrow> Some (d\<lparr>skillsPercent := (skillsPercent d)[3 := v]\<rparr>)
      | CONDITION_PARAM_SKILL_DISTANCE \<Rightarrow> Some (d\<lparr>skills := (skills d)[4 := v]\<rparr>)
      | CONDITION_PARAM_SKILL_DISTANCEPERCENT \<Rightarrow> Some (d\<lparr>skillsPercent := (skillsPercent d)[4 := v]\<rparr>)
      | CONDITION_PARAM_SKILL_SHIELD \<Rightarrow> Some (d\<lparr>skills := (skills d)[5 := v]\<rparr>)
      | CONDITION_PARAM_SKILL_SHIELDPERCENT \<Rightarrow> Some (d\<lparr>skillsPercent := (skillsPercent d)[5 := v]\<rparr>)
      | CONDITION_PARAM_SKILL_FISHING \<Rightarrow> Some (d\<lparr>skills := (skills d)[6 := v]\<rparr>)
      | CONDITION_PARAM_SKILL_FISHINGPERCENT \<Rightarrow> Some (d\<lparr>skillsPercent := (skillsPercent d)[6 := v]\<rparr>)
      | CONDITION_PARAM_STAT_MAXHITPOINTS \<Rightarrow> Some (d\<lparr>stats := (stats d)[0 := v]\<rparr>)
      | CONDITION_PARAM_STAT_MAXMANAPOINTS \<Rightarrow> Some (d\<lparr>stats := (stats d)[1 := v]\<rparr>)
      | CONDITION_PARAM_STAT_MAGICPOINTS \<Rightarrow> Some (d\<lparr>stats := (stats d)[3 := v]\<rparr>)
      | CONDITION_PARAM_STAT_MAXHITPOINTSPERCENT \<Rightarrow>
          Some (d\<lparr>statsPercent := (statsPercent d)[0 := at_least_0 v]\<rparr>)
      | CONDITION_PARAM_STAT_MAXMANAPOINTSPERCENT \<Rightarrow>
          Some (d\<lparr>statsPercent := (statsPercent d)[1 := at_least_0 v]\<rparr>)
      | CONDITION_PARAM_STAT_MAGICPOINTSPERCENT \<Rightarrow>
          Some (d\<lparr>statsPercent := (statsPercent d)[3 := at_least_0 v]\<rparr>)
      | CONDITION_PARAM_DISABLE_DEFENSE \<Rightarrow> Some (d\<lparr>disableDefense := (v \<noteq> 0)\<rparr>)
      | CONDITION_PARAM_SPECIALSKILL_CRITICALHITCHANCE \<Rightarrow> Some (d\<lparr>specialSkills := (specialSkills d)[0 := v]\<rparr>)
      | CONDITION_PARAM_SPECIALSKILL_CRITICALHITAMOUNT \<Rightarrow> Some (d\<lparr>specialSkills := (specialSkills d)[1 := v]\<rparr>)
      | CONDITION_PARAM_SPECIALSKILL_HITPOINTSLEECHCHANCE \<Rightarrow> Some (d\<lparr>specialSkills := (specialSkills d)[2 := v]\<rparr>)
      | CONDITION_PARAM_SPECIALSKILL_HITPOINTSLEECHAMOUNT \<Rightarrow> Some (d\<lparr>specialSkills := (specialSkills d)[3 := v]\<rparr>)
      | CONDITION_PARAM_SPECIALSKILL_MANAPOINTSLEECHCHANCE \<Rightarrow> Some (d\<lparr>specialSkills := (specialSkills d)[4 := v]\<rparr>)
      | CONDITION_PARAM_SPECIALSKILL_MANAPOINTSLEECHAMOUNT \<Rightarrow> Some (d\<lparr>specialSkills := (specialSkills d)[5 := v]\<rparr>)
      | _ \<Rightarrow> None)"

definition regeneration_setParam :: "condition_param \<Rightarrow> u32 \<Rightarrow> regeneration_data \<Rightarrow> regeneration_data option" where
  "regeneration_setParam param v d =
     (case param of
        CONDITION_PARAM_HEALTHGAIN \<Rightarrow> Some (d\<lparr>healthGain := v\<rparr>)
      | CONDITION_PARAM_HEALTHTICKS \<Rightarrow> Some (d\<lparr>healthTicks := v\<rparr>)
      | CONDITION_PARAM_MANAGAIN \<Rightarrow> Some (d\<lparr>manaGain := v\<rparr>)
      | CONDITION_PARAM_MANATICKS \<Rightarrow> Some (d\<lparr>manaTicks := v\<rparr>)
      | _ \<Rightarrow> None)"

definition soul_setParam :: "condition_param \<Rightarrow> u32 \<Rightarrow> soul_data \<Rightarrow> soul_data option" where
  "soul_setParam param v d =
     (case param of
        CONDITION_PARAM_SOULGAIN \<Rightarrow> Some (d\<lparr>soulGain := v\<rparr>)
      | CONDITION_PARAM_SOULTICKS \<Rightarrow> Some (d\<lparr>soulTicks := v\<rparr>)
      | _ \<Rightarrow> None)"

text \<open>
  Damage answers true for three parameters and what the base class said for six others, which
  is never true; to the parameters of the base class it answers false after it has set them.
\<close>

definition damage_setParam :: "condition_param \<Rightarrow> u32 \<Rightarrow> damage_data \<Rightarrow> bool \<times> damage_data" where
  "damage_setParam param v d =
     (case param of
        CONDITION_PARAM_OWNER \<Rightarrow> (True, d\<lparr>owner := v\<rparr>)
      | CONDITION_PARAM_FORCEUPDATE \<Rightarrow> (True, d\<lparr>forceUpdate := (v \<noteq> 0)\<rparr>)
      | CONDITION_PARAM_DELAYED \<Rightarrow> (True, d\<lparr>delayed := (v \<noteq> 0)\<rparr>)
      | CONDITION_PARAM_MAXVALUE \<Rightarrow> (False, d\<lparr>maxDamage := abs32 v\<rparr>)
      | CONDITION_PARAM_MINVALUE \<Rightarrow> (False, d\<lparr>minDamage := abs32 v\<rparr>)
      | CONDITION_PARAM_STARTVALUE \<Rightarrow> (False, d\<lparr>startDamage := abs32 v\<rparr>)
      | CONDITION_PARAM_TICKINTERVAL \<Rightarrow> (False, d\<lparr>tickInterval := abs32 v\<rparr>)
      | CONDITION_PARAM_PERIODICDAMAGE \<Rightarrow> (False, d\<lparr>periodDamage := v\<rparr>)
      | CONDITION_PARAM_FIELD \<Rightarrow> (False, d\<lparr>field := (v \<noteq> 0)\<rparr>)
      | _ \<Rightarrow> (False, d))"

definition or_base :: "('d \<Rightarrow> condition_data) \<Rightarrow> 'd option \<Rightarrow> bool \<times> condition \<Rightarrow> bool \<times> condition" where
  "or_base mk d r = (case d of None \<Rightarrow> r | Some d \<Rightarrow> (True, (snd r)\<lparr>c_data := mk d\<rparr>))"

definition speed_setParam :: "condition_param \<Rightarrow> u32 \<Rightarrow> speed_data \<Rightarrow> condition \<Rightarrow> bool \<times> condition" where
  "speed_setParam param v d c =
     (let c = snd (base_setParam param v c) in
      if param \<noteq> CONDITION_PARAM_SPEED then (False, c)
      else (True, c\<lparr>c_data := ConditionSpeed (d\<lparr>speedDelta := v\<rparr>),
              c_type := (if 0 < sint v then CONDITION_HASTE else CONDITION_PARALYZE)\<rparr>))"

text \<open>Light answers false to what the base class has set.\<close>

definition light_setParam :: "condition_param \<Rightarrow> u32 \<Rightarrow> light_data \<Rightarrow> condition \<Rightarrow> bool \<times> condition" where
  "light_setParam param v d c =
     (let r = base_setParam param v c in
      if fst r then (False, snd r)
      else (case param of
          CONDITION_PARAM_LIGHT_LEVEL \<Rightarrow> (True, c\<lparr>c_data := ConditionLight (d\<lparr>light_level := ucast v\<rparr>)\<rparr>)
        | CONDITION_PARAM_LIGHT_COLOR \<Rightarrow> (True, c\<lparr>c_data := ConditionLight (d\<lparr>light_color := ucast v\<rparr>)\<rparr>)
        | _ \<Rightarrow> (False, c)))"

definition setParam :: "condition_param \<Rightarrow> u32 \<Rightarrow> condition \<Rightarrow> bool \<times> condition" where
  "setParam param v c =
     (let r = base_setParam param v c in
      case c_data c of
        ConditionAttributes d \<Rightarrow> or_base ConditionAttributes (attributes_setParam param v d) r
      | ConditionRegeneration d \<Rightarrow> or_base ConditionRegeneration (regeneration_setParam param v d) r
      | ConditionSoul d \<Rightarrow> or_base ConditionSoul (soul_setParam param v d) r
      | ConditionDamage d \<Rightarrow>
          (let (ret, d) = damage_setParam param v d in (ret, (snd r)\<lparr>c_data := ConditionDamage d\<rparr>))
      | ConditionSpeed d \<Rightarrow> speed_setParam param v d c
      | ConditionLight d \<Rightarrow> light_setParam param v d c
      | _ \<Rightarrow> r)"

section \<open>Icons\<close>

definition base_getIcons :: "condition \<Rightarrow> u32" where
  "base_getIcons c = (if c_isBuff c then 0x1000 else 0)"

definition generic_getIcons :: "condition \<Rightarrow> u32" where
  "generic_getIcons c =
     (let t = c_type c in
      base_getIcons c OR (if t = CONDITION_MANASHIELD then 0x10 else if t = CONDITION_INFIGHT then 0x80
        else if t = CONDITION_DRUNK then 0x8 else 0))"

definition damage_getIcons :: "condition \<Rightarrow> u32" where
  "damage_getIcons c =
     (let t = c_type c in
      base_getIcons c OR (if t = CONDITION_FIRE then 0x2 else if t = CONDITION_ENERGY then 0x4
        else if t = CONDITION_DROWN then 0x100 else if t = CONDITION_POISON then 0x1
        else if t = CONDITION_FREEZING then 0x200 else if t = CONDITION_DAZZLED then 0x400
        else if t = CONDITION_CURSED then 0x800 else if t = CONDITION_BLEEDING then 0x8000 else 0))"

definition speed_getIcons :: "condition \<Rightarrow> u32" where
  "speed_getIcons c =
     (let t = c_type c in
      base_getIcons c OR (if t = CONDITION_HASTE then 0x40 else if t = CONDITION_PARALYZE then 0x20 else 0))"

definition getIcons :: "condition \<Rightarrow> u32" where
  "getIcons c =
     (case c_data c of
        ConditionDamage _ \<Rightarrow> damage_getIcons c
      | ConditionSpeed _ \<Rightarrow> speed_getIcons c
      | ConditionOutfit _ \<Rightarrow> base_getIcons c
      | ConditionLight _ \<Rightarrow> base_getIcons c
      | _ \<Rightarrow> generic_getIcons c)"

end
