(* ===== verification/DamageList.thy ===== *)
theory DamageList imports Conditions begin

text \<open>
  How a damage is cut into rounds (\<open>ConditionDamage::generateDamageList\<close>). The comparison
  of the two quotients of floats is an argument, \<open>closer i sum med\<close>: one more \<open>i\<close> brings
  the sum closer to \<open>med\<close>. The loops may in principle run forever, so the inner one is a
  partial function. The products are those of 32 bits as long as \<open>start * amount\<close> fits.
\<close>

type_synonym closeness = "int \<Rightarrow> int \<Rightarrow> int \<Rightarrow> bool"

partial_function (option) damage_steps ::
  "closeness \<Rightarrow> int \<Rightarrow> int \<Rightarrow> int \<Rightarrow> int list \<Rightarrow> (int \<times> int list) option" where
  "damage_steps closer i med s vs =
     (if closer i (s + i) med then damage_steps closer i med (s + i) (vs @ [i])
      else Some (s + i, vs @ [i]))"

fun damage_rounds ::
  "closeness \<Rightarrow> int \<Rightarrow> int \<Rightarrow> nat \<Rightarrow> int \<Rightarrow> int list \<Rightarrow> int list option" where
  "damage_rounds closer amount start 0 s vs = Some vs"
| "damage_rounds closer amount start (Suc i) s vs =
     (let n = start - int i; med = n * amount div start in
      case damage_steps closer (int (Suc i)) med s vs of
        None \<Rightarrow> None
      | Some (s, vs) \<Rightarrow> damage_rounds closer amount start i s vs)"

definition generateDamageList :: "closeness \<Rightarrow> int \<Rightarrow> int \<Rightarrow> int list option" where
  "generateDamageList closer amount start = damage_rounds closer \<bar>amount\<bar> start (nat start) 0 []"

section \<open>The inner loop\<close>

lemma damage_steps_ends:
  assumes "0 < i" "\<And>s. closer i s med \<Longrightarrow> s < med"
  shows "\<exists>k. damage_steps closer i med s vs = Some (s + i * int (Suc k), vs @ replicate (Suc k) i) \<and>
    \<not> closer i (s + i * int (Suc k)) med \<and> s + i * int (Suc k) \<le> max s med + i"
proof (induction "nat (med - s)" arbitrary: s vs rule: less_induct)
  case less
  show ?case
  proof (cases "closer i (s + i) med")
    case True
    hence "s + i < med" by (rule assms(2))
    hence "nat (med - (s + i)) < nat (med - s)" using assms(1) by simp
    from less [OF this, of "vs @ [i]"] obtain k where k:
      "damage_steps closer i med (s + i) (vs @ [i]) =
         Some (s + i + i * int (Suc k), (vs @ [i]) @ replicate (Suc k) i)"
      "\<not> closer i (s + i + i * int (Suc k)) med" "s + i + i * int (Suc k) \<le> max (s + i) med + i"
      by blast
    have "damage_steps closer i med s vs = damage_steps closer i med (s + i) (vs @ [i])"
      using True by (subst damage_steps.simps) simp
    moreover have e: "s + i * int (Suc (Suc k)) = s + i + i * int (Suc k)"
      by (simp add: algebra_simps)
    have "s + i + i * int (Suc k) \<le> max s med + i"
      using k(3) \<open>s + i < med\<close> by simp
    moreover have "(vs @ [i]) @ replicate (Suc k) i = vs @ replicate (Suc (Suc k)) i"
      by simp
    ultimately show ?thesis
      using k(1,2) by (intro exI [of _ "Suc k"]) (simp only: e simp_thms)
  next
    case False
    hence "damage_steps closer i med s vs = Some (s + i, vs @ [i])"
      by (subst damage_steps.simps) simp
    with False show ?thesis
      by (intro exI [of _ 0]) simp
  qed
qed

section \<open>The outer loop\<close>

definition descending :: "int list \<Rightarrow> bool" where
  "descending vs \<longleftrightarrow> sorted_wrt (\<ge>) vs"

lemma descending_replicate:
  assumes "descending vs" "list_all (\<lambda>v. i \<le> v) vs"
  shows "descending (vs @ replicate k i)"
proof -
  have "sorted_wrt (\<ge>) (replicate k i)"
    by (induction k) auto
  thus ?thesis
    using assms by (auto simp: descending_def sorted_wrt_append list_all_iff)
qed

lemma round_bound: "(2::int) * t \<le> 2 * m' + p \<Longrightarrow> m' \<le> m + q \<Longrightarrow> r = p + 2 * q \<Longrightarrow> 2 * t \<le> 2 * m + r"
  by simp

lemma damage_rounds_ends:
  assumes closer: "\<And>i s med. 0 < i \<Longrightarrow> 0 \<le> med \<Longrightarrow> closer i s med \<Longrightarrow> s < med"
      "\<And>s. 0 \<le> s \<Longrightarrow> s < amount \<Longrightarrow> closer 1 s amount"
    and amount: "0 \<le> amount"
  shows "int i \<le> start \<Longrightarrow> descending vs \<Longrightarrow> list_all (\<lambda>v. int i < v) vs \<Longrightarrow>
    \<exists>ws. damage_rounds closer amount start i (sum_list vs) vs = Some ws \<and> descending ws \<and>
      set ws = set vs \<union> {1..int i} \<and> 2 * sum_list ws \<le> 2 * max amount (sum_list vs) + int i * (int i + 1) \<and>
      (0 < i \<longrightarrow> amount \<le> sum_list ws)"
proof (induction i arbitrary: vs)
  case (Suc i)
  let ?i = "int (Suc i)" and ?med = "(start - int i) * amount div start"
  have "0 \<le> ?med"
    using Suc.prems(1) amount by (simp add: pos_imp_zdiv_nonneg_iff)
  then obtain k where k: "damage_steps closer ?i ?med (sum_list vs) vs =
      Some (sum_list vs + ?i * int (Suc k), vs @ replicate (Suc k) ?i)"
    "\<not> closer ?i (sum_list vs + ?i * int (Suc k)) ?med"
    "sum_list vs + ?i * int (Suc k) \<le> max (sum_list vs) ?med + ?i"
    using damage_steps_ends [of ?i closer ?med "sum_list vs" vs] closer(1) by (metis of_nat_0_less_iff zero_less_Suc)
  let ?vs = "vs @ replicate (Suc k) ?i"
  have sum: "sum_list ?vs = sum_list vs + ?i * int (Suc k)"
    by (simp add: sum_list_replicate algebra_simps)
  have "0 < start" using Suc.prems(1) by simp
  hence med: "?med \<le> amount"
    using amount Suc.prems(1) zdiv_mono1 [of "(start - int i) * amount" "start * amount" start]
    by (simp add: mult_right_mono)
  have desc: "descending ?vs"
    using Suc.prems(2,3) by (intro descending_replicate) (auto simp: list_all_iff)
  have "int i \<le> start" "list_all (\<lambda>v. int i < v) ?vs"
    using Suc.prems by (auto simp: list_all_iff)
  moreover have nonneg: "0 \<le> sum_list ?vs"
  proof (rule sum_list_nonneg)
    fix x assume "x \<in> set ?vs"
    then have "int i < x" using calculation(2) unfolding list_all_iff by blast
    then show "0 \<le> x" by simp
  qed
  ultimately obtain ws where ws:
    "damage_rounds closer amount start i (sum_list ?vs) ?vs = Some ws" "descending ws"
    "set ws = set ?vs \<union> {1..int i}" "2 * sum_list ws \<le> 2 * max amount (sum_list ?vs) + int i * (int i + 1)"
    "0 < i \<longrightarrow> amount \<le> sum_list ws"
    using Suc.IH [OF _ desc] by blast
  have "damage_rounds closer amount start (Suc i) (sum_list vs) vs = Some ws"
    using k(1) ws(1) by (simp only: damage_rounds.simps Let_def option.case prod.case sum)
  moreover have "{1..?i} = insert ?i {1..int i}" "set ?vs = insert ?i (set vs)"
    by auto
  hence "set ws = set vs \<union> {1..?i}"
    by (simp only: ws(3) Un_insert_left Un_insert_right)
  moreover have "2 * sum_list ws \<le> 2 * max amount (sum_list vs) + ?i * (?i + 1)"
  proof -
    have "max amount (sum_list ?vs) \<le> max amount (sum_list vs) + ?i"
      using k(3) med sum by linarith
    moreover have "?i * (?i + 1) = int i * (int i + 1) + 2 * ?i"
      by (simp add: algebra_simps)
    ultimately show ?thesis using ws(4) round_bound by blast
  qed
  moreover have "amount \<le> sum_list ws"
  proof (cases "i = 0")
    case True
    hence "ws = ?vs" "?med = amount"
      using ws(1) \<open>0 < start\<close> by simp_all
    thus ?thesis
      using closer(2) [of "sum_list ?vs"] nonneg k(2) True sum by fastforce
  qed (use ws(5) in simp)
  ultimately show ?case
    using ws(2) by blast
qed simp

lemma damage_list_ends:
  assumes "\<And>i s med. 0 < i \<Longrightarrow> 0 \<le> med \<Longrightarrow> closer i s med \<Longrightarrow> s < med"
    "\<And>s. 0 \<le> s \<Longrightarrow> s < \<bar>amount\<bar> \<Longrightarrow> closer 1 s \<bar>amount\<bar>" "0 < start"
  shows "\<exists>vs. generateDamageList closer amount start = Some vs \<and> descending vs \<and> set vs = {1..start} \<and>
    \<bar>amount\<bar> \<le> sum_list vs \<and> 2 * sum_list vs \<le> 2 * \<bar>amount\<bar> + start * (start + 1)"
  using damage_rounds_ends [where closer = closer and amount = "\<bar>amount\<bar>" and i = "nat start" and start = start and vs = "[]"]
    assms by (auto simp: generateDamageList_def descending_def)

text \<open>The comparison without rounding: \<open>sum + i\<close> is closer to \<open>med\<close> than \<open>sum\<close>.\<close>

definition closer_exact :: closeness where
  "closer_exact i s med \<longleftrightarrow> \<bar>med - (s + i)\<bar> < \<bar>med - s\<bar> \<and> 0 < i"

end
