(* ===== verification/CreatureConditions.thy ===== *)
theory CreatureConditions imports DamageList "HOL-Library.Signed_Division" begin

text \<open>
  What conditions do to the creature that has them (condition.cpp, creature.cpp, and
  \<open>setVarSkill\<close>, \<open>setVarStats\<close>, \<open>changeMana\<close>, \<open>changeSoul\<close> of the player). The creature
  is a record of what they change. Damage is logged; whether combat lets it through, random
  numbers and products with floats are given by the environment. Messages, icons and scripts are
  left out.
\<close>

section \<open>The creature\<close>

datatype delayed_call = ForceAddCondition condition | ForceRemoveCondition u32

record host =
  h_player :: bool
  h_monster :: bool
  h_baseSpeed :: u32
  h_varSpeed :: u32
  h_varSkills :: "u32 list"
  h_varSpecialSkills :: "u32 list"
  h_varStats :: "u32 list"
  h_useDefense :: bool
  h_visible :: bool
  h_health :: int
  h_healthMax :: int
  h_mana :: int
  h_manaMax :: int
  h_soul :: int
  h_soulMax :: int
  h_light :: "u8 \<times> u8"
  h_normalLight :: "u8 \<times> u8"
  h_outfit :: outfit
  h_defaultOutfit :: outfit
  h_damage :: "(u32 \<times> u32) list"
  h_conditions :: "condition list"
  h_scheduled :: "(int \<times> delayed_call) list"

text \<open>
  \<open>x_percent\<close> is \<open>base * ((percent - 100) / 100.f)\<close> cut to an integer, \<open>x_formula\<close> the
  bounds of \<open>getFormulaValues\<close>, \<open>x_field\<close> the type of combat of the field on the tile,
  \<open>x_combat\<close> the answer of combat to a damage, \<open>x_closer\<close> the
  comparison of \<open>generateDamageList\<close>, \<open>x_nextAction\<close> the delay of a player that cannot act yet.
\<close>

record cond_env =
  x_now :: int
  x_protection :: bool
  x_walkDelay :: int
  x_suppressed :: u32
  x_nextAction :: "u32 option"
  x_field :: "u32 option"
  x_random :: "int \<Rightarrow> int \<Rightarrow> int"
  x_percent :: "int \<Rightarrow> u32 \<Rightarrow> u32"
  x_formula :: "speed_data \<Rightarrow> u32 \<Rightarrow> int \<times> int"
  x_closer :: closeness
  x_baseSkill :: "nat \<Rightarrow> int"
  x_magicLevel :: int
  x_playerId :: "u32 \<Rightarrow> bool"
  x_combat :: "u32 \<Rightarrow> u32 \<Rightarrow> bool"
  x_infiniteMana :: bool

definition h_maxHealth :: "host \<Rightarrow> int" where
  "h_maxHealth h = (if h_player h then max 1 (h_healthMax h + sint (h_varStats h ! 0)) else h_healthMax h)"

definition h_maxMana :: "host \<Rightarrow> int" where
  "h_maxMana h = max 0 (h_manaMax h + sint (h_varStats h ! 1))"

definition changeHealth :: "int \<Rightarrow> host \<Rightarrow> host" where
  "changeHealth d h =
     h\<lparr>h_health := (if 0 < d then h_health h + min d (h_maxHealth h - h_health h) else max 0 (h_health h + d))\<rparr>"

definition changeMana :: "cond_env \<Rightarrow> int \<Rightarrow> host \<Rightarrow> host" where
  "changeMana X d h =
     (if x_infiniteMana X then h
      else h\<lparr>h_mana := (if 0 < d then h_mana h + min d (h_maxMana h - h_mana h) else max 0 (h_mana h + d))\<rparr>)"

definition changeSoul :: "int \<Rightarrow> host \<Rightarrow> host" where
  "changeSoul d h =
     h\<lparr>h_soul := (if 0 < d then h_soul h + min d (h_soulMax h - h_soul h) else max 0 (h_soul h + d))\<rparr>"

definition setVarStats :: "cond_env \<Rightarrow> nat \<Rightarrow> u32 \<Rightarrow> host \<Rightarrow> host" where
  "setVarStats X stat modifier h =
     (let h = h\<lparr>h_varStats := (h_varStats h)[stat := h_varStats h ! stat + modifier]\<rparr> in
      if stat = 0 then
        (if h_maxHealth h < h_health h then changeHealth (h_maxHealth h - h_health h) h else h)
      else if stat = 1 then
        (if h_maxMana h < h_mana h then changeMana X (h_maxMana h - h_mana h) h else h)
      else h)"

definition changeSpeed :: "u32 \<Rightarrow> host \<Rightarrow> host" where
  "changeSpeed delta h =
     (let varSpeed = h_baseSpeed h + h_varSpeed h - h_baseSpeed h in
      h\<lparr>h_varSpeed := varSpeed + delta\<rparr>)"

section \<open>The base class\<close>

definition base_start :: "cond_env \<Rightarrow> condition \<Rightarrow> condition" where
  "base_start X c = (if 0 < sint (c_ticks c) then c\<lparr>c_endTime := sint (c_ticks c) + x_now X\<rparr> else c)"

definition base_execute :: "cond_env \<Rightarrow> u32 \<Rightarrow> condition \<Rightarrow> bool \<times> condition" where
  "base_execute X interval c =
     (if c_ticks c = -1 then (True, c)
      else (x_now X \<le> c_endTime c, c\<lparr>c_ticks := at_least_0 (c_ticks c - interval)\<rparr>))"

definition base_update :: "cond_env \<Rightarrow> condition \<Rightarrow> condition \<Rightarrow> bool" where
  "base_update X n c =
     (if c_type c \<noteq> c_type n then False
      else if c_ticks c = -1 \<and> 0 < sint (c_ticks n) then False
      else if 0 \<le> sint (c_ticks n) \<and> x_now X + sint (c_ticks n) < c_endTime c then False
      else True)"

section \<open>Attributes\<close>

definition updatePercentStats :: "cond_env \<Rightarrow> host \<Rightarrow> attributes_data \<Rightarrow> attributes_data" where
  "updatePercentStats X h d =
     d\<lparr>stats := map (\<lambda>i.
         let p = statsPercent d ! i in
         if p = 0 then stats d ! i
         else if i = 0 then x_percent X (h_maxHealth h) p
         else if i = 1 then x_percent X (h_maxMana h) p
         else if i = 3 then x_percent X (x_magicLevel X) p
         else stats d ! i) [0..<length (stats d)]\<rparr>"

definition updatePercentSkills :: "cond_env \<Rightarrow> attributes_data \<Rightarrow> attributes_data" where
  "updatePercentSkills X d =
     d\<lparr>skills := map (\<lambda>i.
         let p = skillsPercent d ! i in
         if p = 0 then skills d ! i else x_percent X (x_baseSkill X i) p) [0..<length (skills d)]\<rparr>"

text \<open>\<open>setVarSkill\<close> and \<open>setVarSpecialSkill\<close> add to the entry; adding zero is left out by the code.\<close>

definition add_vars :: "u32 list \<Rightarrow> u32 list \<Rightarrow> u32 list" where
  "add_vars xs vs = map2 (+) xs vs"

definition updateSkills :: "attributes_data \<Rightarrow> host \<Rightarrow> host" where
  "updateSkills d h =
     h\<lparr>h_varSkills := add_vars (h_varSkills h) (skills d),
       h_varSpecialSkills := add_vars (h_varSpecialSkills h) (specialSkills d)\<rparr>"

definition updateStats :: "cond_env \<Rightarrow> u32 list \<Rightarrow> host \<Rightarrow> host" where
  "updateStats X vs h =
     fold (\<lambda>i h. if vs ! i \<noteq> 0 then setVarStats X i (vs ! i) h else h) [0..<length vs] h"

definition apply_attributes :: "cond_env \<Rightarrow> attributes_data \<Rightarrow> host \<Rightarrow> attributes_data \<times> host" where
  "apply_attributes X d h =
     (if h_player h then
        let d = updatePercentSkills X d;
            h = updateSkills d h;
            d = updatePercentStats X h d
        in (d, updateStats X (stats d) h)
      else (d, h))"

definition end_attributes :: "cond_env \<Rightarrow> attributes_data \<Rightarrow> host \<Rightarrow> host" where
  "end_attributes X d h =
     (let h = (if h_player h then
                 updateStats X (map uminus (stats d))
                   (h\<lparr>h_varSkills := add_vars (h_varSkills h) (map uminus (skills d)),
                      h_varSpecialSkills := add_vars (h_varSpecialSkills h) (map uminus (specialSkills d))\<rparr>)
               else h)
      in if disableDefense d then h\<lparr>h_useDefense := True\<rparr> else h)"

section \<open>Damage\<close>

text \<open>\<open>std::round(value / 2.)\<close>: halves away from zero.\<close>

definition half :: "u32 \<Rightarrow> u32" where
  "half v = word_of_int (if 0 \<le> sint v then (sint v + 1) div 2 else - ((- sint v + 1) div 2))"

definition doDamage :: "cond_env \<Rightarrow> condition \<Rightarrow> damage_data \<Rightarrow> u32 \<Rightarrow> host \<Rightarrow> bool \<times> host" where
  "doDamage X c d healthChange h =
     (if x_suppressed X AND c_type c \<noteq> 0 then (True, h)
      else
        let v = (if field d \<and> h_player h \<and> x_playerId X (owner d) then half healthChange else healthChange)
        in if x_combat X (c_type c) v then (True, h\<lparr>h_damage := h_damage h @ [(c_type c, v)]\<rparr>)
           else (False, h))"

definition getNextDamage :: "condition \<Rightarrow> damage_data \<Rightarrow> (u32 \<times> damage_data) option" where
  "getNextDamage c d =
     (if periodDamage d \<noteq> 0 then Some (periodDamage d, d)
      else (case damageList d of
              [] \<Rightarrow> None
            | iv # ivs \<Rightarrow> Some (iv_value iv, if c_ticks c \<noteq> -1 then d\<lparr>damageList := ivs\<rparr> else d)))"

text \<open>One round of \<open>addDamage\<close>; \<open>EVENT_CREATURE_THINK_INTERVAL\<close> is 1000.\<close>

definition add_round :: "int \<Rightarrow> u32 \<Rightarrow> u32 \<Rightarrow> condition \<times> damage_data \<Rightarrow> condition \<times> damage_data" where
  "add_round now time v p =
     (let (c, d) = p;
          d = d\<lparr>damageList := damageList d @ [\<lparr>iv_timeLeft = time, iv_value = v, iv_interval = time\<rparr>]\<rparr>
      in if c_ticks c \<noteq> -1 then (setTicks now (c_ticks c + time) c, d) else (c, d))"

definition addDamage ::
  "int \<Rightarrow> int \<Rightarrow> u32 \<Rightarrow> u32 \<Rightarrow> condition \<times> damage_data \<Rightarrow> bool \<times> condition \<times> damage_data" where
  "addDamage now rounds time v p =
     (let (c, d) = p; time = (if sint time < 1000 then 1000 else time) in
      if rounds = -1 then
        (True, c\<lparr>c_ticks := -1\<rparr>, d\<lparr>periodDamage := v, tickInterval := abs32 time\<rparr>)
      else if 0 < sint (periodDamage d) then (False, c, d)
      else (True, (add_round now time v ^^ nat rounds) (c, d)))"

text \<open>
  The list is always made under the laws of \<open>damage_list_ends\<close>, which DamageFloats shows of the
  comparison in floating point; then \<open>None\<close> does not occur.
\<close>

definition damages :: "cond_env \<Rightarrow> int \<Rightarrow> int \<Rightarrow> int list" where
  "damages X amount start =
     (case generateDamageList (x_closer X) amount start of Some vs \<Rightarrow> vs | None \<Rightarrow> [])"

definition init_damage :: "cond_env \<Rightarrow> condition \<times> damage_data \<Rightarrow> bool \<times> condition \<times> damage_data" where
  "init_damage X p =
     (let (c, d) = p in
      if periodDamage d \<noteq> 0 then (True, c, d)
      else if damageList d \<noteq> [] then (True, c, d)
      else
        let c = setTicks (x_now X) 0 c;
            amount = x_random X (sint (minDamage d)) (sint (maxDamage d));
            (c, d) =
              (if amount \<noteq> 0 then
                 let d = (if sint (maxDamage d) < sint (startDamage d) then d\<lparr>startDamage := maxDamage d\<rparr>
                          else if startDamage d = 0
                            then d\<lparr>startDamage := word_of_int (max 1 ((amount + 19) div 20))\<rparr>
                          else d)
                 in fold (\<lambda>v p. snd (addDamage (x_now X) 1 (tickInterval d) (word_of_int (- v)) p))
                      (damages X amount (sint (startDamage d))) (c, d)
               else (c, d))
        in (damageList d \<noteq> [], c, d))"

text \<open>The sum wraps in 32 bits.\<close>

definition getTotalDamage :: "damage_data \<Rightarrow> u32" where
  "getTotalDamage d =
     abs32 (if damageList d \<noteq> [] then sum_list (map iv_value (damageList d))
            else minDamage d + word_of_int (sint (maxDamage d - minDamage d) sdiv 2))"

definition damage_update :: "condition \<Rightarrow> damage_data \<Rightarrow> condition \<Rightarrow> damage_data \<Rightarrow> bool" where
  "damage_update n nd c d =
     (if forceUpdate nd then True
      else if c_ticks c = -1 \<and> 0 < sint (c_ticks n) then False
      else sint (getTotalDamage d) < sint (getTotalDamage nd))"

text \<open>\<open>Creature::onTickCondition\<close>: a condition of the field the creature stands in goes on.\<close>

definition field_damage_of :: "u32 \<Rightarrow> u32 option" where
  "field_damage_of type =
     (if type = CONDITION_FIRE then Some 0x8 else if type = CONDITION_ENERGY then Some 0x2
      else if type = CONDITION_POISON then Some 0x4 else if type = CONDITION_FREEZING then Some 0x200
      else if type = CONDITION_DAZZLED then Some 0x400 else if type = CONDITION_CURSED then Some 0x800
      else if type = CONDITION_DROWN then Some 0x100 else if type = CONDITION_BLEEDING then Some 0x1
      else None)"

definition onTickCondition :: "cond_env \<Rightarrow> u32 \<Rightarrow> bool \<Rightarrow> bool" where
  "onTickCondition X type bRemove =
     (case (x_field X, field_damage_of type) of
        (Some combat, Some own) \<Rightarrow> combat \<noteq> own
      | _ \<Rightarrow> bRemove)"

section \<open>The operations of a condition\<close>

definition with_data :: "condition_data \<Rightarrow> condition \<Rightarrow> condition" where
  "with_data d c = c\<lparr>c_data := d\<rparr>"

text \<open>The delta of a speed condition that has none is drawn between the bounds of its formula.\<close>

definition draw_speed :: "cond_env \<Rightarrow> host \<Rightarrow> speed_data \<Rightarrow> speed_data" where
  "draw_speed X h d =
     (if speedDelta d = 0 then
        (let (lo, hi) = x_formula X d (h_baseSpeed h) in d\<lparr>speedDelta := word_of_int (x_random X lo hi)\<rparr>)
      else d)"

text \<open>\<open>ticks / lightInfo.level\<close>; for the level 0 the code divides by zero.\<close>

definition light_interval :: "u32 \<Rightarrow> u8 \<Rightarrow> u32" where
  "light_interval ticks level = word_of_int (sint ticks sdiv uint level)"

definition isInvisible :: "host \<Rightarrow> bool" where
  "isInvisible h = list_ex (\<lambda>c. c_type c = CONDITION_INVISIBLE) (h_conditions h)"

definition damage_next :: "cond_env \<Rightarrow> condition \<Rightarrow> damage_data \<Rightarrow> host \<Rightarrow> bool \<times> condition \<times> host" where
  "damage_next X c d h =
     (if delayed d then (True, with_data (ConditionDamage d) c, h)
      else
        (case getNextDamage c d of
           None \<Rightarrow> (True, with_data (ConditionDamage d) c, h)
         | Some (v, d) \<Rightarrow>
             (case doDamage X c d v h of (ok, h) \<Rightarrow> (ok, with_data (ConditionDamage d) c, h))))"

definition attributes_start :: "cond_env \<Rightarrow> attributes_data \<Rightarrow> condition \<Rightarrow> host \<Rightarrow> bool \<times> condition \<times> host" where
  "attributes_start X d c h =
     (case apply_attributes X d (h\<lparr>h_useDefense := \<not> disableDefense d\<rparr>) of
        (d, h) \<Rightarrow> (True, with_data (ConditionAttributes d) c, h))"

definition damage_start :: "cond_env \<Rightarrow> damage_data \<Rightarrow> condition \<Rightarrow> host \<Rightarrow> bool \<times> condition \<times> host" where
  "damage_start X d c h =
     (case init_damage X (c, d) of
        (ok, c, d) \<Rightarrow> if \<not> ok then (False, with_data (ConditionDamage d) c, h) else damage_next X c d h)"

definition speed_start :: "cond_env \<Rightarrow> speed_data \<Rightarrow> condition \<Rightarrow> host \<Rightarrow> bool \<times> condition \<times> host" where
  "speed_start X d c h =
     (let d = draw_speed X h d in (True, with_data (ConditionSpeed d) c, changeSpeed (speedDelta d) h))"

definition light_start :: "light_data \<Rightarrow> condition \<Rightarrow> host \<Rightarrow> bool \<times> condition \<times> host" where
  "light_start d c h =
     (True, with_data (ConditionLight (d\<lparr>internalLightTicks := 0,
              lightChangeInterval := light_interval (c_ticks c) (light_level d)\<rparr>)) c,
      h\<lparr>h_light := (light_level d, light_color d)\<rparr>)"

definition outfit_start :: "outfit \<Rightarrow> condition \<Rightarrow> host \<Rightarrow> bool \<times> condition \<times> host" where
  "outfit_start o1 c h = (True, c, h\<lparr>h_outfit := o1\<rparr>)"

definition invisible_start :: "condition \<Rightarrow> host \<Rightarrow> bool \<times> condition \<times> host" where
  "invisible_start c h = (True, c, h\<lparr>h_visible := False\<rparr>)"

definition startCondition :: "cond_env \<Rightarrow> condition \<Rightarrow> host \<Rightarrow> bool \<times> condition \<times> host" where
  "startCondition X c h =
     (let c = base_start X c in
      case c_data c of
        ConditionAttributes d \<Rightarrow> attributes_start X d c h
      | ConditionInvisible \<Rightarrow> invisible_start c h
      | ConditionDamage d \<Rightarrow> damage_start X d c h
      | ConditionSpeed d \<Rightarrow> speed_start X d c h
      | ConditionOutfit o1 \<Rightarrow> outfit_start o1 c h
      | ConditionLight d \<Rightarrow> light_start d c h
      | _ \<Rightarrow> (True, c, h))"

lemmas startCondition_defs = startCondition_def attributes_start_def damage_start_def speed_start_def
  light_start_def outfit_start_def invisible_start_def

definition invisible_end :: "host \<Rightarrow> host" where
  "invisible_end h = (if \<not> isInvisible h then h\<lparr>h_visible := True\<rparr> else h)"

definition speed_end :: "speed_data \<Rightarrow> host \<Rightarrow> host" where
  "speed_end d h = changeSpeed (- speedDelta d) h"

definition outfit_end :: "host \<Rightarrow> host" where
  "outfit_end h = h\<lparr>h_outfit := h_defaultOutfit h\<rparr>"

definition light_end :: "host \<Rightarrow> host" where
  "light_end h = h\<lparr>h_light := h_normalLight h\<rparr>"

definition endCondition :: "cond_env \<Rightarrow> condition \<Rightarrow> host \<Rightarrow> host" where
  "endCondition X c h =
     (case c_data c of
        ConditionAttributes d \<Rightarrow> end_attributes X d h
      | ConditionInvisible \<Rightarrow> invisible_end h
      | ConditionSpeed d \<Rightarrow> speed_end d h
      | ConditionOutfit _ \<Rightarrow> outfit_end h
      | ConditionLight _ \<Rightarrow> light_end h
      | _ \<Rightarrow> h)"

lemmas endCondition_defs = endCondition_def invisible_end_def speed_end_def outfit_end_def light_end_def

definition execute_regeneration ::
  "cond_env \<Rightarrow> u32 \<Rightarrow> regeneration_data \<Rightarrow> host \<Rightarrow> regeneration_data \<times> host" where
  "execute_regeneration X interval d h =
     (let d = d\<lparr>internalHealthTicks := internalHealthTicks d + interval,
                internalManaTicks := internalManaTicks d + interval\<rparr> in
      if x_protection X then (d, h)
      else
        let (d, h) = (if healthTicks d \<le> internalHealthTicks d
                      then (d\<lparr>internalHealthTicks := 0\<rparr>, changeHealth (sint (healthGain d)) h) else (d, h))
        in if manaTicks d \<le> internalManaTicks d
           then (d\<lparr>internalManaTicks := 0\<rparr>, if h_player h then changeMana X (sint (manaGain d)) h else h)
           else (d, h))"

definition execute_soul :: "cond_env \<Rightarrow> u32 \<Rightarrow> soul_data \<Rightarrow> host \<Rightarrow> soul_data \<times> host" where
  "execute_soul X interval d h =
     (let d = d\<lparr>internalSoulTicks := internalSoulTicks d + interval\<rparr> in
      if h_player h \<and> \<not> x_protection X \<and> soulTicks d \<le> internalSoulTicks d
      then (d\<lparr>internalSoulTicks := 0\<rparr>, changeSoul (sint (soulGain d)) h)
      else (d, h))"

text \<open>
  Damage: what is left of the interval for the ticks of the base class comes last. While the
  creature stands in the field the list stays, and the end moves on.
\<close>

definition execute_damage ::
  "cond_env \<Rightarrow> u32 \<Rightarrow> condition \<Rightarrow> damage_data \<Rightarrow> host \<Rightarrow> u32 \<times> condition \<times> host" where
  "execute_damage X interval c d h =
     (if periodDamage d \<noteq> 0 then
        (let d = d\<lparr>periodDamageTick := periodDamageTick d + interval\<rparr> in
         if sint (tickInterval d) \<le> sint (periodDamageTick d) then
           (let d = d\<lparr>periodDamageTick := 0\<rparr>
            in (interval, with_data (ConditionDamage d) c, snd (doDamage X c d (periodDamage d) h)))
         else (interval, with_data (ConditionDamage d) c, h))
      else
        (case damageList d of
           [] \<Rightarrow> (interval, c, h)
         | iv # ivs \<Rightarrow>
             let bRemove = onTickCondition X (c_type c) (c_ticks c \<noteq> -1);
                 iv = iv\<lparr>iv_timeLeft := iv_timeLeft iv - interval\<rparr>;
                 due = sint (iv_timeLeft iv) \<le> 0;
                 d' = d\<lparr>damageList :=
                        (if \<not> due then iv # ivs else if bRemove then ivs
                         else iv\<lparr>iv_timeLeft := iv_interval iv\<rparr> # ivs)\<rparr>;
                 h = (if due then snd (doDamage X c d' (iv_value iv) h) else h);
                 c = with_data (ConditionDamage d') c
             in if bRemove then (interval, c, h)
                else (0, if 0 < sint (c_ticks c) then c\<lparr>c_endTime := c_endTime c + sint interval\<rparr> else c, h)))"

definition execute_light :: "u32 \<Rightarrow> light_data \<Rightarrow> host \<Rightarrow> light_data \<times> host" where
  "execute_light interval d h =
     (let d = d\<lparr>internalLightTicks := internalLightTicks d + interval\<rparr> in
      if lightChangeInterval d \<le> internalLightTicks d then
        (d\<lparr>internalLightTicks := 0\<rparr>,
         case h_light h of (level, color) \<Rightarrow> if 0 < level then h\<lparr>h_light := (level - 1, color)\<rparr> else h)
      else (d, h))"

definition executeCondition :: "cond_env \<Rightarrow> u32 \<Rightarrow> condition \<Rightarrow> host \<Rightarrow> bool \<times> condition \<times> host" where
  "executeCondition X interval c h =
     (let (interval, c, h) =
        (case c_data c of
           ConditionRegeneration d \<Rightarrow>
             (case execute_regeneration X interval d h of
                (d, h) \<Rightarrow> (interval, with_data (ConditionRegeneration d) c, h))
         | ConditionSoul d \<Rightarrow>
             (case execute_soul X interval d h of (d, h) \<Rightarrow> (interval, with_data (ConditionSoul d) c, h))
         | ConditionDamage d \<Rightarrow> execute_damage X interval c d h
         | ConditionLight d \<Rightarrow>
             (case execute_light interval d h of (d, h) \<Rightarrow> (interval, with_data (ConditionLight d) c, h))
         | _ \<Rightarrow> (interval, c, h));
        (alive, c) = base_execute X interval c
      in (alive, c, h))"

text \<open>
  A condition that meets the one the creature has already: the classes are the same, since the
  types are. Speed looks at no end time.
\<close>

definition add_damage ::
  "cond_env \<Rightarrow> condition \<Rightarrow> damage_data \<Rightarrow> condition \<Rightarrow> damage_data \<Rightarrow> host \<Rightarrow> condition \<times> host" where
  "add_damage X n nd c d h =
     (if c_type n \<noteq> c_type c \<or> \<not> damage_update n nd c d then (c, h)
      else
        let c = setTicks (x_now X) (c_ticks n) c;
            nextTimeLeft = (case damageList d of [] \<Rightarrow> tickInterval nd | iv # _ \<Rightarrow> iv_timeLeft iv);
            d = d\<lparr>owner := owner nd, maxDamage := maxDamage nd, minDamage := minDamage nd,
                   startDamage := startDamage nd, tickInterval := tickInterval nd,
                   periodDamage := periodDamage nd, damageList := damageList nd\<rparr>;
            (ok, c, d) = init_damage X (c, d)
        in if \<not> ok then (with_data (ConditionDamage d) c, h)
           else
             let d = (case damageList d of [] \<Rightarrow> d
                      | iv # ivs \<Rightarrow> d\<lparr>damageList := iv\<lparr>iv_timeLeft := nextTimeLeft\<rparr> # ivs\<rparr>)
             in snd (damage_next X c d h))"

definition merged_ticks :: "cond_env \<Rightarrow> condition \<Rightarrow> condition \<Rightarrow> condition" where
  "merged_ticks X n c = setTicks (x_now X) (c_ticks n) c"

definition generic_merge :: "cond_env \<Rightarrow> condition \<Rightarrow> condition \<Rightarrow> host \<Rightarrow> condition \<times> host" where
  "generic_merge X n c h = (if base_update X n c then merged_ticks X n c else c, h)"

definition attributes_merge ::
  "cond_env \<Rightarrow> condition \<Rightarrow> attributes_data \<Rightarrow> condition \<Rightarrow> attributes_data \<Rightarrow> host \<Rightarrow> condition \<times> host" where
  "attributes_merge X n nd c d h =
     (if \<not> base_update X n c then (c, h)
      else
        let h = end_attributes X d h;
            d = d\<lparr>skills := skills nd, specialSkills := specialSkills nd,
                  skillsPercent := skillsPercent nd, stats := stats nd,
                  statsPercent := statsPercent nd, disableDefense := disableDefense nd\<rparr>
        in case apply_attributes X d h of
             (d, h) \<Rightarrow> (with_data (ConditionAttributes d) (merged_ticks X n c), h))"

definition regeneration_merge ::
  "cond_env \<Rightarrow> condition \<Rightarrow> regeneration_data \<Rightarrow> condition \<Rightarrow> regeneration_data \<Rightarrow> host \<Rightarrow> condition \<times> host" where
  "regeneration_merge X n nd c d h =
     (if \<not> base_update X n c then (c, h)
      else (with_data (ConditionRegeneration (d\<lparr>healthTicks := healthTicks nd, manaTicks := manaTicks nd,
              healthGain := healthGain nd, manaGain := manaGain nd\<rparr>)) (merged_ticks X n c), h))"

definition soul_merge ::
  "cond_env \<Rightarrow> condition \<Rightarrow> soul_data \<Rightarrow> condition \<Rightarrow> soul_data \<Rightarrow> host \<Rightarrow> condition \<times> host" where
  "soul_merge X n nd c d h =
     (if \<not> base_update X n c then (c, h)
      else (with_data (ConditionSoul (d\<lparr>soulTicks := soulTicks nd, soulGain := soulGain nd\<rparr>))
              (merged_ticks X n c), h))"

definition speed_merge ::
  "cond_env \<Rightarrow> condition \<Rightarrow> speed_data \<Rightarrow> condition \<Rightarrow> speed_data \<Rightarrow> host \<Rightarrow> condition \<times> host" where
  "speed_merge X n nd c d h =
     (if c_type c \<noteq> c_type n \<or> (c_ticks c = -1 \<and> 0 < sint (c_ticks n)) then (c, h)
      else
        let d' = draw_speed X h nd; change = speedDelta d' - speedDelta d
        in (with_data (ConditionSpeed d') (merged_ticks X n c), if change \<noteq> 0 then changeSpeed change h else h))"

definition outfit_merge :: "cond_env \<Rightarrow> condition \<Rightarrow> outfit \<Rightarrow> condition \<Rightarrow> host \<Rightarrow> condition \<times> host" where
  "outfit_merge X n o1 c h =
     (if \<not> base_update X n c then (c, h)
      else (with_data (ConditionOutfit o1) (merged_ticks X n c), h\<lparr>h_outfit := o1\<rparr>))"

definition light_merge :: "cond_env \<Rightarrow> condition \<Rightarrow> light_data \<Rightarrow> condition \<Rightarrow> host \<Rightarrow> condition \<times> host" where
  "light_merge X n nd c h =
     (if \<not> base_update X n c then (c, h)
      else
        let c = merged_ticks X n c
        in (with_data (ConditionLight \<lparr>light_level = light_level nd, light_color = light_color nd,
              internalLightTicks = 0, lightChangeInterval = light_interval (c_ticks c) (light_level nd)\<rparr>) c,
            h\<lparr>h_light := (light_level nd, light_color nd)\<rparr>))"

definition mergeCondition :: "cond_env \<Rightarrow> condition \<Rightarrow> condition \<Rightarrow> host \<Rightarrow> condition \<times> host" where
  "mergeCondition X n c h =
     (case (c_data c, c_data n) of
        (ConditionAttributes d, ConditionAttributes nd) \<Rightarrow> attributes_merge X n nd c d h
      | (ConditionRegeneration d, ConditionRegeneration nd) \<Rightarrow> regeneration_merge X n nd c d h
      | (ConditionSoul d, ConditionSoul nd) \<Rightarrow> soul_merge X n nd c d h
      | (ConditionDamage d, ConditionDamage nd) \<Rightarrow> add_damage X n nd c d h
      | (ConditionSpeed d, ConditionSpeed nd) \<Rightarrow> speed_merge X n nd c d h
      | (ConditionOutfit _, ConditionOutfit o1) \<Rightarrow> outfit_merge X n o1 c h
      | (ConditionLight _, ConditionLight nd) \<Rightarrow> light_merge X n nd c h
      | _ \<Rightarrow> generic_merge X n c h)"

lemmas mergeCondition_defs = mergeCondition_def merged_ticks_def generic_merge_def attributes_merge_def
  regeneration_merge_def soul_merge_def speed_merge_def outfit_merge_def light_merge_def

end
