(* ===== verification/Afflictions.thy ===== *)
theory Afflictions imports CreatureConditions begin

text \<open>
  The list of conditions of a creature (creature.cpp, game.cpp, player.cpp, monster.cpp): how
  conditions are found, added, removed and executed. A loop of the code keeps an iterator; here
  it keeps what is before and what is after it. The pointer to a condition is its place in the
  list.
\<close>

section \<open>Looking them up\<close>

definition same_key :: "condition \<Rightarrow> condition \<Rightarrow> bool" where
  "same_key n c \<longleftrightarrow> c_type c = c_type n \<and> c_id c = c_id n \<and> c_subId c = c_subId n"

definition getConditionByType :: "u32 \<Rightarrow> host \<Rightarrow> condition option" where
  "getConditionByType type h = find (\<lambda>c. c_type c = type) (h_conditions h)"

definition getCondition :: "u32 \<Rightarrow> condition_id \<Rightarrow> u32 \<Rightarrow> host \<Rightarrow> condition option" where
  "getCondition type cid subId h =
     find (\<lambda>c. c_type c = type \<and> c_id c = cid \<and> c_subId c = subId) (h_conditions h)"

definition hasCondition :: "cond_env \<Rightarrow> u32 \<Rightarrow> u32 \<Rightarrow> host \<Rightarrow> bool" where
  "hasCondition X type subId h \<longleftrightarrow>
     (if x_suppressed X AND type \<noteq> 0 then False
      else list_ex (\<lambda>c. c_type c = type \<and> c_subId c = subId \<and> x_now X \<le> c_endTime c) (h_conditions h))"

section \<open>Removing\<close>

definition schedule :: "int \<Rightarrow> delayed_call \<Rightarrow> host \<Rightarrow> host" where
  "schedule delay call h = h\<lparr>h_scheduled := h_scheduled h @ [(delay, call)]\<rparr>"

text \<open>The condition between \<open>cs\<close> and \<open>ds\<close> leaves the list, then it ends.\<close>

definition drop_condition :: "cond_env \<Rightarrow> condition list \<Rightarrow> condition \<Rightarrow> condition list \<Rightarrow> host \<Rightarrow> host" where
  "drop_condition X cs c ds h = endCondition X c (h\<lparr>h_conditions := cs @ ds\<rparr>)"

definition must_wait :: "cond_env \<Rightarrow> u32 \<Rightarrow> bool \<Rightarrow> bool" where
  "must_wait X type force \<longleftrightarrow> \<not> force \<and> type = CONDITION_PARALYZE \<and> 0 < x_walkDelay X"

fun remove_loop ::
  "cond_env \<Rightarrow> (condition \<Rightarrow> bool) \<Rightarrow> u32 \<Rightarrow> bool \<Rightarrow> condition list \<Rightarrow> condition list \<Rightarrow> host \<Rightarrow> host" where
  "remove_loop X sel type force cs [] h = h"
| "remove_loop X sel type force cs (c # ds) h =
     (if \<not> sel c then remove_loop X sel type force (cs @ [c]) ds h
      else if must_wait X type force then schedule (x_walkDelay X) (ForceRemoveCondition type) h
      else remove_loop X sel type force cs ds (drop_condition X cs c ds h))"

definition removeConditionType :: "cond_env \<Rightarrow> u32 \<Rightarrow> bool \<Rightarrow> host \<Rightarrow> host" where
  "removeConditionType X type force h =
     remove_loop X (\<lambda>c. c_type c = type) type force [] (h_conditions h) h"

definition removeConditionId :: "cond_env \<Rightarrow> u32 \<Rightarrow> condition_id \<Rightarrow> bool \<Rightarrow> host \<Rightarrow> host" where
  "removeConditionId X type cid force h =
     remove_loop X (\<lambda>c. c_type c = type \<and> c_id c = cid) type force [] (h_conditions h) h"

definition removeCondition :: "cond_env \<Rightarrow> condition list \<Rightarrow> condition \<Rightarrow> condition list \<Rightarrow> bool \<Rightarrow> host \<Rightarrow> host" where
  "removeCondition X cs c ds force h =
     (if must_wait X (c_type c) force
      then schedule (x_walkDelay X) (ForceRemoveCondition (c_type c)) h
      else drop_condition X cs c ds h)"

text \<open>
  \<open>onCombatRemoveCondition\<close>: what a player wears keeps its conditions (that the item may
  break is left out), and a player that cannot act yet keeps the condition for the full seconds
  of the delay. The delay is unsigned, the ticks are not.
\<close>

definition onCombatRemoveCondition ::
  "cond_env \<Rightarrow> condition list \<Rightarrow> condition \<Rightarrow> condition list \<Rightarrow> host \<Rightarrow> host" where
  "onCombatRemoveCondition X cs c ds h =
     (if h_player h then
        if 0 < sint (c_id c) then h
        else (case x_nextAction X of
                Some delay \<Rightarrow>
                  let ticks = delay - delay mod 1000 in
                  if sint ticks < 0 then removeCondition X cs c ds False h
                  else h\<lparr>h_conditions := cs @ setTicks (x_now X) ticks c # ds\<rparr>
              | None \<Rightarrow> removeCondition X cs c ds False h)
      else removeCondition X cs c ds False h)"

text \<open>The code collects the conditions first; removing one leaves the others as they are.\<close>

fun combat_loop :: "cond_env \<Rightarrow> u32 \<Rightarrow> nat \<Rightarrow> nat \<Rightarrow> host \<Rightarrow> host" where
  "combat_loop X type k 0 h = h"
| "combat_loop X type k (Suc n) h =
     (let c = h_conditions h ! k in
      if c_type c = type then
        let h' = onCombatRemoveCondition X (take k (h_conditions h)) c (drop (Suc k) (h_conditions h)) h;
            gone = (length (h_conditions h') < length (h_conditions h))
        in combat_loop X type (if gone then k else Suc k) n h'
      else combat_loop X type (Suc k) n h)"

definition removeCombatCondition :: "cond_env \<Rightarrow> u32 \<Rightarrow> host \<Rightarrow> host" where
  "removeCombatCondition X type h = combat_loop X type 0 (length (h_conditions h)) h"

text \<open>A player that dies loses the persistent conditions.\<close>

fun death_loop :: "cond_env \<Rightarrow> condition list \<Rightarrow> condition list \<Rightarrow> host \<Rightarrow> host" where
  "death_loop X cs [] h = h"
| "death_loop X cs (c # ds) h =
     (if isPersistent c then death_loop X cs ds (drop_condition X cs c ds h)
      else death_loop X (cs @ [c]) ds h)"

definition removePersistent :: "cond_env \<Rightarrow> host \<Rightarrow> host" where
  "removePersistent X h = death_loop X [] (h_conditions h) h"

section \<open>Adding\<close>

text \<open>Monsters override \<open>onAddCondition\<close> and do not call the one of creatures.\<close>

definition onAddCondition :: "cond_env \<Rightarrow> u32 \<Rightarrow> host \<Rightarrow> host" where
  "onAddCondition X type h =
     (if h_monster h then h
      else if type = CONDITION_PARALYZE \<and> hasCondition X CONDITION_HASTE 0 h
        then removeConditionType X CONDITION_HASTE False h
      else if type = CONDITION_HASTE \<and> hasCondition X CONDITION_PARALYZE 0 h
        then removeConditionType X CONDITION_PARALYZE False h
      else h)"

definition addCondition :: "cond_env \<Rightarrow> condition \<Rightarrow> bool \<Rightarrow> host \<Rightarrow> bool \<times> host" where
  "addCondition X n force h =
     (if \<not> force \<and> c_type n = CONDITION_HASTE \<and> hasCondition X CONDITION_PARALYZE 0 h \<and> 0 < x_walkDelay X
      then (False, schedule (x_walkDelay X) (ForceAddCondition n) h)
      else
        (case List.extract (same_key n) (h_conditions h) of
           Some (cs, c, ds) \<Rightarrow>
             (case mergeCondition X n c h of (c, h) \<Rightarrow> (True, h\<lparr>h_conditions := cs @ c # ds\<rparr>))
         | None \<Rightarrow>
             (case startCondition X n h of
                (ok, c, h) \<Rightarrow>
                  if ok then (True, onAddCondition X (c_type c) (h\<lparr>h_conditions := h_conditions h @ [c]\<rparr>))
                  else (False, h))))"

section \<open>Executing\<close>

fun execute_loop :: "cond_env \<Rightarrow> u32 \<Rightarrow> condition list \<Rightarrow> condition list \<Rightarrow> host \<Rightarrow> host" where
  "execute_loop X interval cs [] h = h"
| "execute_loop X interval cs (c # ds) h =
     (case executeCondition X interval c h of
        (alive, c, h) \<Rightarrow>
          if alive then execute_loop X interval (cs @ [c]) ds (h\<lparr>h_conditions := cs @ c # ds\<rparr>)
          else execute_loop X interval cs ds (drop_condition X cs c ds h))"

definition executeConditions :: "cond_env \<Rightarrow> u32 \<Rightarrow> host \<Rightarrow> host" where
  "executeConditions X interval h = execute_loop X interval [] (h_conditions h) h"

section \<open>The operations in any order\<close>

text \<open>
  \<open>ForceAdd\<close> and \<open>ForceRemove\<close> of game.cpp are \<open>addCondition\<close> and
  \<open>removeConditionType\<close> with \<open>force\<close>.
\<close>

datatype affliction_op =
    AddCondition condition bool
  | RemoveType u32 bool
  | RemoveId u32 condition_id bool
  | RemoveCombat u32
  | RemovePersistent
  | ExecuteAll u32

definition forceAddCondition :: "cond_env \<Rightarrow> condition \<Rightarrow> host \<Rightarrow> host" where
  "forceAddCondition X n h = snd (addCondition X n True h)"

definition forceRemoveCondition :: "cond_env \<Rightarrow> u32 \<Rightarrow> host \<Rightarrow> host" where
  "forceRemoveCondition X type h = removeConditionType X type True h"

definition affliction_step :: "cond_env \<times> affliction_op \<Rightarrow> host \<Rightarrow> host" where
  "affliction_step p h =
     (case p of (X, AddCondition n force) \<Rightarrow>
        if force then forceAddCondition X n h else snd (addCondition X n False h)
      | (X, RemoveType type force) \<Rightarrow>
        if force then forceRemoveCondition X type h else removeConditionType X type False h
      | (X, RemoveId type cid force) \<Rightarrow> removeConditionId X type cid force h
      | (X, RemoveCombat type) \<Rightarrow> removeCombatCondition X type h
      | (X, RemovePersistent) \<Rightarrow> removePersistent X h
      | (X, ExecuteAll interval) \<Rightarrow> executeConditions X interval h)"

end
