(* ===== verification/ConditionIO.thy ===== *)
theory ConditionIO imports Conditions begin

text \<open>
  Conditions as bytes: \<open>serialize\<close> and \<open>unserialize\<close> of every class, and the lists of
  conditions that iologindata.cpp stores with a player. The clock \<open>now\<close> stands still while a
  list is loaded.
\<close>

section \<open>Attributes\<close>

definition CONDITIONATTR_TYPE :: u8 where "CONDITIONATTR_TYPE = 1"
definition CONDITIONATTR_ID :: u8 where "CONDITIONATTR_ID = 2"
definition CONDITIONATTR_TICKS :: u8 where "CONDITIONATTR_TICKS = 3"
definition CONDITIONATTR_HEALTHTICKS :: u8 where "CONDITIONATTR_HEALTHTICKS = 4"
definition CONDITIONATTR_HEALTHGAIN :: u8 where "CONDITIONATTR_HEALTHGAIN = 5"
definition CONDITIONATTR_MANATICKS :: u8 where "CONDITIONATTR_MANATICKS = 6"
definition CONDITIONATTR_MANAGAIN :: u8 where "CONDITIONATTR_MANAGAIN = 7"
definition CONDITIONATTR_DELAYED :: u8 where "CONDITIONATTR_DELAYED = 8"
definition CONDITIONATTR_OWNER :: u8 where "CONDITIONATTR_OWNER = 9"
definition CONDITIONATTR_INTERVALDATA :: u8 where "CONDITIONATTR_INTERVALDATA = 10"
definition CONDITIONATTR_SPEEDDELTA :: u8 where "CONDITIONATTR_SPEEDDELTA = 11"
definition CONDITIONATTR_FORMULA_MINA :: u8 where "CONDITIONATTR_FORMULA_MINA = 12"
definition CONDITIONATTR_FORMULA_MINB :: u8 where "CONDITIONATTR_FORMULA_MINB = 13"
definition CONDITIONATTR_FORMULA_MAXA :: u8 where "CONDITIONATTR_FORMULA_MAXA = 14"
definition CONDITIONATTR_FORMULA_MAXB :: u8 where "CONDITIONATTR_FORMULA_MAXB = 15"
definition CONDITIONATTR_LIGHTCOLOR :: u8 where "CONDITIONATTR_LIGHTCOLOR = 16"
definition CONDITIONATTR_LIGHTLEVEL :: u8 where "CONDITIONATTR_LIGHTLEVEL = 17"
definition CONDITIONATTR_LIGHTTICKS :: u8 where "CONDITIONATTR_LIGHTTICKS = 18"
definition CONDITIONATTR_LIGHTINTERVAL :: u8 where "CONDITIONATTR_LIGHTINTERVAL = 19"
definition CONDITIONATTR_SOULTICKS :: u8 where "CONDITIONATTR_SOULTICKS = 20"
definition CONDITIONATTR_SOULGAIN :: u8 where "CONDITIONATTR_SOULGAIN = 21"
definition CONDITIONATTR_SKILLS :: u8 where "CONDITIONATTR_SKILLS = 22"
definition CONDITIONATTR_STATS :: u8 where "CONDITIONATTR_STATS = 23"
definition CONDITIONATTR_OUTFIT :: u8 where "CONDITIONATTR_OUTFIT = 24"
definition CONDITIONATTR_PERIODDAMAGE :: u8 where "CONDITIONATTR_PERIODDAMAGE = 25"
definition CONDITIONATTR_ISBUFF :: u8 where "CONDITIONATTR_ISBUFF = 26"
definition CONDITIONATTR_SUBID :: u8 where "CONDITIONATTR_SUBID = 27"
definition CONDITIONATTR_END :: u8 where "CONDITIONATTR_END = 254"

lemmas conditionattr_defs =
  CONDITIONATTR_TYPE_def CONDITIONATTR_ID_def CONDITIONATTR_TICKS_def CONDITIONATTR_HEALTHTICKS_def
  CONDITIONATTR_HEALTHGAIN_def CONDITIONATTR_MANATICKS_def CONDITIONATTR_MANAGAIN_def
  CONDITIONATTR_DELAYED_def CONDITIONATTR_OWNER_def CONDITIONATTR_INTERVALDATA_def
  CONDITIONATTR_SPEEDDELTA_def CONDITIONATTR_FORMULA_MINA_def CONDITIONATTR_FORMULA_MINB_def
  CONDITIONATTR_FORMULA_MAXA_def CONDITIONATTR_FORMULA_MAXB_def CONDITIONATTR_LIGHTCOLOR_def
  CONDITIONATTR_LIGHTLEVEL_def CONDITIONATTR_LIGHTTICKS_def CONDITIONATTR_LIGHTINTERVAL_def
  CONDITIONATTR_SOULTICKS_def CONDITIONATTR_SOULGAIN_def CONDITIONATTR_SKILLS_def
  CONDITIONATTR_STATS_def CONDITIONATTR_OUTFIT_def CONDITIONATTR_PERIODDAMAGE_def
  CONDITIONATTR_ISBUFF_def CONDITIONATTR_SUBID_def CONDITIONATTR_END_def

section \<open>Writing\<close>

definition put :: "u8 \<Rightarrow> nat \<Rightarrow> 'a::len word \<Rightarrow> prop_write_stream \<Rightarrow> prop_write_stream" where
  "put attr n v s = pw_write n v (pw_write 1 attr s)"

definition base_serialize :: "condition \<Rightarrow> prop_write_stream \<Rightarrow> prop_write_stream" where
  "base_serialize c s =
     (let s = put CONDITIONATTR_TYPE 4 (c_type c) s;
          s = put CONDITIONATTR_ID 4 (scast (c_id c) :: u32) s;
          s = put CONDITIONATTR_TICKS 4 (c_ticks c) s;
          s = put CONDITIONATTR_ISBUFF 1 (if c_isBuff c then 1 else 0 :: u8) s
      in put CONDITIONATTR_SUBID 4 (c_subId c) s)"

definition write_interval :: "interval_info \<Rightarrow> prop_write_stream \<Rightarrow> prop_write_stream" where
  "write_interval iv s =
     pw_write 4 (iv_interval iv) (pw_write 4 (iv_value iv) (pw_write 4 (iv_timeLeft iv) s))"

definition put_interval :: "interval_info \<Rightarrow> prop_write_stream \<Rightarrow> prop_write_stream" where
  "put_interval iv s = write_interval iv (pw_write 1 CONDITIONATTR_INTERVALDATA s)"

definition write_outfit :: "outfit \<Rightarrow> prop_write_stream \<Rightarrow> prop_write_stream" where
  "write_outfit o1 s =
     (let s = pw_write 2 (lookMount o1) (pw_write 2 (lookTypeEx o1) (pw_write 2 (lookType o1) s));
          s = pw_write 1 (lookLegs o1) (pw_write 1 (lookBody o1) (pw_write 1 (lookHead o1) s))
      in pw_write 1 (look_padding o1) (pw_write 1 (lookAddons o1) (pw_write 1 (lookFeet o1) s)))"

definition attributes_serialize :: "attributes_data \<Rightarrow> prop_write_stream \<Rightarrow> prop_write_stream" where
  "attributes_serialize d s =
     fold (put CONDITIONATTR_STATS 4) (stats d) (fold (put CONDITIONATTR_SKILLS 4) (skills d) s)"

definition regeneration_serialize :: "regeneration_data \<Rightarrow> prop_write_stream \<Rightarrow> prop_write_stream" where
  "regeneration_serialize d s =
     put CONDITIONATTR_MANAGAIN 4 (manaGain d)
       (put CONDITIONATTR_MANATICKS 4 (manaTicks d)
         (put CONDITIONATTR_HEALTHGAIN 4 (healthGain d)
           (put CONDITIONATTR_HEALTHTICKS 4 (healthTicks d) s)))"

definition soul_serialize :: "soul_data \<Rightarrow> prop_write_stream \<Rightarrow> prop_write_stream" where
  "soul_serialize d s =
     put CONDITIONATTR_SOULTICKS 4 (soulTicks d) (put CONDITIONATTR_SOULGAIN 4 (soulGain d) s)"

definition damage_serialize :: "damage_data \<Rightarrow> prop_write_stream \<Rightarrow> prop_write_stream" where
  "damage_serialize d s =
     fold put_interval (damageList d)
       (put CONDITIONATTR_PERIODDAMAGE 4 (periodDamage d)
         (put CONDITIONATTR_DELAYED 1 (if delayed d then 1 else 0 :: u8) s))"

definition speed_serialize :: "speed_data \<Rightarrow> prop_write_stream \<Rightarrow> prop_write_stream" where
  "speed_serialize d s =
     put CONDITIONATTR_FORMULA_MAXB 4 (maxb d)
       (put CONDITIONATTR_FORMULA_MAXA 4 (maxa d)
         (put CONDITIONATTR_FORMULA_MINB 4 (minb d)
           (put CONDITIONATTR_FORMULA_MINA 4 (mina d)
             (put CONDITIONATTR_SPEEDDELTA 4 (speedDelta d) s))))"

definition outfit_serialize :: "outfit \<Rightarrow> prop_write_stream \<Rightarrow> prop_write_stream" where
  "outfit_serialize d s =
     write_outfit d (pw_write 1 CONDITIONATTR_OUTFIT s)"

definition light_serialize :: "light_data \<Rightarrow> prop_write_stream \<Rightarrow> prop_write_stream" where
  "light_serialize d s =
     put CONDITIONATTR_LIGHTINTERVAL 4 (lightChangeInterval d)
       (put CONDITIONATTR_LIGHTTICKS 4 (internalLightTicks d)
         (put CONDITIONATTR_LIGHTLEVEL 4 (ucast (light_level d) :: u32)
           (put CONDITIONATTR_LIGHTCOLOR 4 (ucast (light_color d) :: u32) s)))"

definition data_serialize :: "condition_data \<Rightarrow> prop_write_stream \<Rightarrow> prop_write_stream" where
  "data_serialize data s =
     (case data of
        ConditionAttributes d \<Rightarrow> attributes_serialize d s
      | ConditionRegeneration d \<Rightarrow> regeneration_serialize d s
      | ConditionSoul d \<Rightarrow> soul_serialize d s
      | ConditionDamage d \<Rightarrow> damage_serialize d s
      | ConditionSpeed d \<Rightarrow> speed_serialize d s
      | ConditionOutfit d \<Rightarrow> outfit_serialize d s
      | ConditionLight d \<Rightarrow> light_serialize d s
      | _ \<Rightarrow> s)"

lemmas serialize_defs = data_serialize_def attributes_serialize_def regeneration_serialize_def soul_serialize_def damage_serialize_def
  speed_serialize_def outfit_serialize_def light_serialize_def

definition serialize :: "condition \<Rightarrow> prop_write_stream \<Rightarrow> prop_write_stream" where
  "serialize c s = data_serialize (c_data c) (base_serialize c s)"

text \<open>The conditions of a player that is saved.\<close>

definition saveConditions :: "condition list \<Rightarrow> prop_write_stream \<Rightarrow> prop_write_stream" where
  "saveConditions cs s =
     fold (\<lambda>c s. if isPersistent c then pw_write 1 CONDITIONATTR_END (serialize c s) else s) cs s"

section \<open>Reading\<close>

type_synonym 'a reader = "prop_stream \<Rightarrow> prop_stream \<times> 'a option"

definition read_into ::
  "'v reader \<Rightarrow> ('v \<Rightarrow> condition \<Rightarrow> condition) \<Rightarrow> prop_stream \<Rightarrow> condition \<Rightarrow> bool \<times> prop_stream \<times> condition" where
  "read_into rd f s c =
     (case rd s of (s1, None) \<Rightarrow> (False, s1, c) | (s1, Some v) \<Rightarrow> (True, s1, f v c))"

text \<open>\<open>read<T>\<close> of a struct of twelve bytes.\<close>

definition read_interval :: "interval_info reader" where
  "read_interval s =
     (if ps_size s < 12 then (s, None)
      else let b = unread s in
        (s\<lparr>unread := drop 12 b\<rparr>,
         Some \<lparr>iv_timeLeft = of_le (take 4 b), iv_value = of_le (take 4 (drop 4 b)),
               iv_interval = of_le (take 4 (drop 8 b))\<rparr>))"

definition read_outfit :: "outfit reader" where
  "read_outfit s =
     (if ps_size s < 12 then (s, None)
      else let b = unread s in
        (s\<lparr>unread := drop 12 b\<rparr>,
         Some \<lparr>lookType = of_le (take 2 b), lookTypeEx = of_le (take 2 (drop 2 b)),
               lookMount = of_le (take 2 (drop 4 b)), lookHead = b ! 6, lookBody = b ! 7,
               lookLegs = b ! 8, lookFeet = b ! 9, lookAddons = b ! 10, look_padding = b ! 11\<rparr>))"

definition read4 :: "u32 reader" where "read4 = ps_read 4"
definition read1 :: "u8 reader" where "read1 = ps_read 1"

definition base_unserializeProp :: "u8 \<Rightarrow> prop_stream \<Rightarrow> condition \<Rightarrow> bool \<times> prop_stream \<times> condition" where
  "base_unserializeProp attr s c =
     (if attr = CONDITIONATTR_TYPE then read_into read4 (\<lambda>v c. c\<lparr>c_type := v\<rparr>) s c
      else if attr = CONDITIONATTR_ID then read_into read4 (\<lambda>v c. c\<lparr>c_id := ucast v\<rparr>) s c
      else if attr = CONDITIONATTR_TICKS then read_into read4 (\<lambda>v c. c\<lparr>c_ticks := v\<rparr>) s c
      else if attr = CONDITIONATTR_ISBUFF then read_into read1 (\<lambda>v c. c\<lparr>c_isBuff := (v \<noteq> 0)\<rparr>) s c
      else if attr = CONDITIONATTR_SUBID then read_into read4 (\<lambda>v c. c\<lparr>c_subId := v\<rparr>) s c
      else if attr = CONDITIONATTR_END then (True, s, c)
      else (False, s, c))"

text \<open>
  Every class looks at its own attributes first. A skill or stat beyond the end of its array is
  not written here; the code writes past the array.
\<close>

definition attributes_unserializeProp ::
  "u8 \<Rightarrow> prop_stream \<Rightarrow> attributes_data \<Rightarrow> condition \<Rightarrow> bool \<times> prop_stream \<times> condition" where
  "attributes_unserializeProp attr s d c =
     (if attr = CONDITIONATTR_SKILLS then
       read_into read4 (\<lambda>v c. c\<lparr>c_data := ConditionAttributes
         (d\<lparr>skills := (skills d)[currentSkill d := v], currentSkill := currentSkill d + 1\<rparr>)\<rparr>) s c
     else if attr = CONDITIONATTR_STATS then
       read_into read4 (\<lambda>v c. c\<lparr>c_data := ConditionAttributes
         (d\<lparr>stats := (stats d)[currentStat d := v], currentStat := currentStat d + 1\<rparr>)\<rparr>) s c
     else base_unserializeProp attr s c)"

definition regeneration_unserializeProp ::
  "u8 \<Rightarrow> prop_stream \<Rightarrow> regeneration_data \<Rightarrow> condition \<Rightarrow> bool \<times> prop_stream \<times> condition" where
  "regeneration_unserializeProp attr s d c =
     (if attr = CONDITIONATTR_HEALTHTICKS then
       read_into read4 (\<lambda>v c. c\<lparr>c_data := ConditionRegeneration (d\<lparr>healthTicks := v\<rparr>)\<rparr>) s c
     else if attr = CONDITIONATTR_HEALTHGAIN then
       read_into read4 (\<lambda>v c. c\<lparr>c_data := ConditionRegeneration (d\<lparr>healthGain := v\<rparr>)\<rparr>) s c
     else if attr = CONDITIONATTR_MANATICKS then
       read_into read4 (\<lambda>v c. c\<lparr>c_data := ConditionRegeneration (d\<lparr>manaTicks := v\<rparr>)\<rparr>) s c
     else if attr = CONDITIONATTR_MANAGAIN then
       read_into read4 (\<lambda>v c. c\<lparr>c_data := ConditionRegeneration (d\<lparr>manaGain := v\<rparr>)\<rparr>) s c
     else base_unserializeProp attr s c)"

definition soul_unserializeProp ::
  "u8 \<Rightarrow> prop_stream \<Rightarrow> soul_data \<Rightarrow> condition \<Rightarrow> bool \<times> prop_stream \<times> condition" where
  "soul_unserializeProp attr s d c =
     (if attr = CONDITIONATTR_SOULGAIN then
       read_into read4 (\<lambda>v c. c\<lparr>c_data := ConditionSoul (d\<lparr>soulGain := v\<rparr>)\<rparr>) s c
     else if attr = CONDITIONATTR_SOULTICKS then
       read_into read4 (\<lambda>v c. c\<lparr>c_data := ConditionSoul (d\<lparr>soulTicks := v\<rparr>)\<rparr>) s c
     else base_unserializeProp attr s c)"

definition damage_unserializeProp ::
  "int \<Rightarrow> u8 \<Rightarrow> prop_stream \<Rightarrow> damage_data \<Rightarrow> condition \<Rightarrow> bool \<times> prop_stream \<times> condition" where
  "damage_unserializeProp now attr s d c =
     (if attr = CONDITIONATTR_DELAYED then
       read_into read1 (\<lambda>v c. c\<lparr>c_data := ConditionDamage (d\<lparr>delayed := (v \<noteq> 0)\<rparr>)\<rparr>) s c
     else if attr = CONDITIONATTR_PERIODDAMAGE then
       read_into read4 (\<lambda>v c. c\<lparr>c_data := ConditionDamage (d\<lparr>periodDamage := v\<rparr>)\<rparr>) s c
     else if attr = CONDITIONATTR_OWNER then (case ps_skip 4 s of (s1, ok) \<Rightarrow> (ok, s1, c))
     else if attr = CONDITIONATTR_INTERVALDATA then
       read_into read_interval (\<lambda>iv c.
         let c = c\<lparr>c_data := ConditionDamage (d\<lparr>damageList := damageList d @ [iv]\<rparr>)\<rparr> in
         if c_ticks c \<noteq> -1 then setTicks now (c_ticks c + iv_interval iv) c else c) s c
     else base_unserializeProp attr s c)"

definition speed_unserializeProp ::
  "u8 \<Rightarrow> prop_stream \<Rightarrow> speed_data \<Rightarrow> condition \<Rightarrow> bool \<times> prop_stream \<times> condition" where
  "speed_unserializeProp attr s d c =
     (if attr = CONDITIONATTR_SPEEDDELTA then
       read_into read4 (\<lambda>v c. c\<lparr>c_data := ConditionSpeed (d\<lparr>speedDelta := v\<rparr>)\<rparr>) s c
     else if attr = CONDITIONATTR_FORMULA_MINA then
       read_into read4 (\<lambda>v c. c\<lparr>c_data := ConditionSpeed (d\<lparr>mina := v\<rparr>)\<rparr>) s c
     else if attr = CONDITIONATTR_FORMULA_MINB then
       read_into read4 (\<lambda>v c. c\<lparr>c_data := ConditionSpeed (d\<lparr>minb := v\<rparr>)\<rparr>) s c
     else if attr = CONDITIONATTR_FORMULA_MAXA then
       read_into read4 (\<lambda>v c. c\<lparr>c_data := ConditionSpeed (d\<lparr>maxa := v\<rparr>)\<rparr>) s c
     else if attr = CONDITIONATTR_FORMULA_MAXB then
       read_into read4 (\<lambda>v c. c\<lparr>c_data := ConditionSpeed (d\<lparr>maxb := v\<rparr>)\<rparr>) s c
     else base_unserializeProp attr s c)"

definition outfit_unserializeProp ::
  "u8 \<Rightarrow> prop_stream \<Rightarrow> condition \<Rightarrow> bool \<times> prop_stream \<times> condition" where
  "outfit_unserializeProp attr s c =
     (if attr = CONDITIONATTR_OUTFIT then
       read_into read_outfit (\<lambda>v c. c\<lparr>c_data := ConditionOutfit v\<rparr>) s c
     else base_unserializeProp attr s c)"

definition light_unserializeProp ::
  "u8 \<Rightarrow> prop_stream \<Rightarrow> light_data \<Rightarrow> condition \<Rightarrow> bool \<times> prop_stream \<times> condition" where
  "light_unserializeProp attr s d c =
     (if attr = CONDITIONATTR_LIGHTCOLOR then
       read_into read4 (\<lambda>v c. c\<lparr>c_data := ConditionLight (d\<lparr>light_color := ucast v\<rparr>)\<rparr>) s c
     else if attr = CONDITIONATTR_LIGHTLEVEL then
       read_into read4 (\<lambda>v c. c\<lparr>c_data := ConditionLight (d\<lparr>light_level := ucast v\<rparr>)\<rparr>) s c
     else if attr = CONDITIONATTR_LIGHTTICKS then
       read_into read4 (\<lambda>v c. c\<lparr>c_data := ConditionLight (d\<lparr>internalLightTicks := v\<rparr>)\<rparr>) s c
     else if attr = CONDITIONATTR_LIGHTINTERVAL then
       read_into read4 (\<lambda>v c. c\<lparr>c_data := ConditionLight (d\<lparr>lightChangeInterval := v\<rparr>)\<rparr>) s c
     else base_unserializeProp attr s c)"

definition unserializeProp ::
  "int \<Rightarrow> u8 \<Rightarrow> prop_stream \<Rightarrow> condition \<Rightarrow> bool \<times> prop_stream \<times> condition" where
  "unserializeProp now attr s c =
     (case c_data c of
        ConditionAttributes d \<Rightarrow> attributes_unserializeProp attr s d c
      | ConditionRegeneration d \<Rightarrow> regeneration_unserializeProp attr s d c
      | ConditionSoul d \<Rightarrow> soul_unserializeProp attr s d c
      | ConditionDamage d \<Rightarrow> damage_unserializeProp now attr s d c
      | ConditionSpeed d \<Rightarrow> speed_unserializeProp attr s d c
      | ConditionOutfit _ \<Rightarrow> outfit_unserializeProp attr s c
      | ConditionLight d \<Rightarrow> light_unserializeProp attr s d c
      | _ \<Rightarrow> base_unserializeProp attr s c)"

lemmas unserializeProp_defs = unserializeProp_def attributes_unserializeProp_def regeneration_unserializeProp_def soul_unserializeProp_def
  damage_unserializeProp_def speed_unserializeProp_def outfit_unserializeProp_def light_unserializeProp_def

text \<open>Reading never gives bytes back.\<close>

lemma read_into_len:
  "read_into rd f s c = (ok, s', c') \<Longrightarrow> (\<And>s1 v. rd s = (s1, v) \<Longrightarrow> length (unread s1) \<le> length (unread s)) \<Longrightarrow>
   length (unread s') \<le> length (unread s)"
  by (auto simp: read_into_def split: prod.splits option.splits)

lemma reader_len:
  "read4 s = (s1, v4) \<Longrightarrow> length (unread s1) \<le> length (unread s)"
  "read1 s = (s1, v1) \<Longrightarrow> length (unread s1) \<le> length (unread s)"
  "read_interval s = (s1, iv) \<Longrightarrow> length (unread s1) \<le> length (unread s)"
  "read_outfit s = (s1, out) \<Longrightarrow> length (unread s1) \<le> length (unread s)"
  by (auto simp: read4_def read1_def read_interval_def read_outfit_def Let_def ps_defs split: if_splits)

lemmas read_len = read_into_len [OF _ reader_len(1)] read_into_len [OF _ reader_len(2)]
  read_into_len [OF _ reader_len(3)] read_into_len [OF _ reader_len(4)]

lemma base_unserializeProp_len:
  "base_unserializeProp attr s c = (ok, s', c') \<Longrightarrow> length (unread s') \<le> length (unread s)"
  by (auto simp: base_unserializeProp_def split: if_splits dest: read_len)

lemma unserializeProp_len:
  "unserializeProp now attr s c = (ok, s', c') \<Longrightarrow> length (unread s') \<le> length (unread s)"
  by (cases "c_data c")
     (auto simp: unserializeProp_defs ps_defs split: if_splits dest: read_len base_unserializeProp_len)

function unserialize :: "int \<Rightarrow> prop_stream \<Rightarrow> condition \<Rightarrow> bool \<times> prop_stream \<times> condition" where
  "unserialize now s c =
     (case ps_read 1 s of
        (s1, None) \<Rightarrow> (True, s1, c)
      | (s1, Some attr) \<Rightarrow>
          if attr = CONDITIONATTR_END then (True, s1, c)
          else (case unserializeProp now attr s1 c of
                  (ok, s2, c2) \<Rightarrow> if \<not> ok then (False, s2, c2) else unserialize now s2 c2))"
  by pat_completeness auto
termination
  by (relation "measure (\<lambda>(now, s, c). length (unread s))")
     (auto simp: ps_defs split: if_splits dest!: unserializeProp_len [OF sym] intro: le_less_trans)

declare unserialize.simps [simp del]

lemma unserialize_len:
  "unserialize now s c = (ok, s', c') \<Longrightarrow> length (unread s') \<le> length (unread s)"
proof (induction now s c rule: unserialize.induct)
  case (1 now s c)
  obtain s1 v where r: "ps_read 1 s = (s1, v :: u8 option)"
    by fastforce
  hence len: "length (unread s1) \<le> length (unread s)"
    by (auto simp: ps_defs split: if_splits)
  show ?case
  proof (cases "v = None \<or> v = Some CONDITIONATTR_END")
    case True
    thus ?thesis
      using "1.prems" r len by (subst (asm) unserialize.simps) auto
  next
    case False
    then obtain attr where v: "v = Some attr" "attr \<noteq> CONDITIONATTR_END"
      by auto
    obtain ok1 s2 c2 where u: "unserializeProp now attr s1 c = (ok1, s2, c2)"
      by (cases "unserializeProp now attr s1 c")
    have "length (unread s2) \<le> length (unread s1)"
      by (rule unserializeProp_len [OF u])
    moreover have "ok1 \<Longrightarrow> unserialize now s2 c2 = (ok, s', c')" "\<not> ok1 \<Longrightarrow> s' = s2"
      using "1.prems" r v u by (subst (asm) unserialize.simps, simp)+
    ultimately show ?thesis
      using "1.IH" [OF r [symmetric] v(1) v(2) u [symmetric] refl] len by (cases ok1) auto
  qed
qed

text \<open>\<open>createCondition(PropStream)\<close>: five values, each after its attribute.\<close>

definition expect :: "u8 \<Rightarrow> 'v reader \<Rightarrow> prop_stream \<Rightarrow> ('v \<times> prop_stream) option" where
  "expect attr rd s =
     (case ps_read 1 s of
        (s1, None) \<Rightarrow> None
      | (s1, Some a) \<Rightarrow>
          if a \<noteq> attr then None
          else (case rd s1 of (s2, None) \<Rightarrow> None | (s2, Some v) \<Rightarrow> Some (v, s2)))"

definition createConditionFrom :: "prop_stream \<Rightarrow> (condition \<times> prop_stream) option" where
  "createConditionFrom s =
     (case expect CONDITIONATTR_TYPE read4 s of None \<Rightarrow> None | Some (type, s) \<Rightarrow>
      case expect CONDITIONATTR_ID read4 s of None \<Rightarrow> None | Some (cid, s) \<Rightarrow>
      case expect CONDITIONATTR_TICKS read4 s of None \<Rightarrow> None | Some (ticks, s) \<Rightarrow>
      case expect CONDITIONATTR_ISBUFF read1 s of None \<Rightarrow> None | Some (buff, s) \<Rightarrow>
      case expect CONDITIONATTR_SUBID read4 s of None \<Rightarrow> None | Some (subId, s) \<Rightarrow>
        (case createCondition (ucast cid) type ticks 0 (buff \<noteq> 0) subId of
           None \<Rightarrow> None | Some c \<Rightarrow> Some (c, s)))"

lemma expect_len: "expect attr rd s = Some (v, s') \<Longrightarrow>
    (\<And>s1 s2 w. rd s1 = (s2, w) \<Longrightarrow> length (unread s2) \<le> length (unread s1)) \<Longrightarrow>
    length (unread s') < length (unread s)"
  by (fastforce simp: expect_def ps_defs split: prod.splits option.splits if_splits intro: le_less_trans)

lemma expect4_len: "expect attr read4 s = Some (v, s') \<Longrightarrow> length (unread s') < length (unread s)"
  by (rule expect_len) (auto dest: reader_len)

lemma expect1_len: "expect attr read1 s = Some (v, s') \<Longrightarrow> length (unread s') < length (unread s)"
  by (rule expect_len) (auto dest: reader_len)

lemma createConditionFrom_len:
  "createConditionFrom s = Some (c, s') \<Longrightarrow> length (unread s') < length (unread s)"
  unfolding createConditionFrom_def
  by (auto split: option.splits prod.splits dest!: expect4_len expect1_len)

text \<open>The loading loop of the player; a condition that cannot be read is dropped.\<close>

function loadConditions :: "int \<Rightarrow> prop_stream \<Rightarrow> condition list \<Rightarrow> condition list" where
  "loadConditions now s stored =
     (case createConditionFrom s of
        None \<Rightarrow> stored
      | Some (c, s1) \<Rightarrow>
          (case unserialize now s1 c of
             (ok, s2, c2) \<Rightarrow> loadConditions now s2 (if ok then c2 # stored else stored)))"
  by pat_completeness auto
termination
  by (relation "measure (\<lambda>(now, s, stored). length (unread s))")
     (auto dest!: createConditionFrom_len unserialize_len [OF sym] intro: le_less_trans)

declare loadConditions.simps [simp del]

end
