(* ===== verification/ConditionIOProps.thy ===== *)
theory ConditionIOProps imports ConditionIO begin

text \<open>
  What a stored condition is when it is read back: the class and what \<open>serialize\<close> writes; the
  ticks of a damage are added up again from its intervals, and a list of conditions comes back
  in reverse order.
\<close>

section \<open>The bytes\<close>

definition attr_bytes :: "u8 \<Rightarrow> nat \<Rightarrow> 'a::len word \<Rightarrow> bytes" where
  "attr_bytes a n v = a # to_le n v"

lemma to_le_1 [simp]: "to_le (Suc 0) (a :: u8) = [a]"
  by simp

lemma wbuffer_pw [simp]: "wbuffer (pw_write n v s) = wbuffer s @ to_le n v" "wbuffer pw_empty = []"
  by (simp_all add: pw_defs)

lemma wbuffer_put [simp]: "wbuffer (put a n v s) = wbuffer s @ attr_bytes a n v"
  by (simp add: put_def attr_bytes_def)

lemma wbuffer_fold_put [simp]:
  "wbuffer (fold (put a n) vs s) = wbuffer s @ concat (map (attr_bytes a n) vs)"
  by (induction vs arbitrary: s) simp_all

definition interval_bytes :: "interval_info \<Rightarrow> bytes" where
  "interval_bytes iv = to_le 4 (iv_timeLeft iv) @ to_le 4 (iv_value iv) @ to_le 4 (iv_interval iv)"

lemma wbuffer_fold_intervals [simp]:
  "wbuffer (fold put_interval ivs s) =
   wbuffer s @ concat (map (\<lambda>iv. CONDITIONATTR_INTERVALDATA # interval_bytes iv) ivs)"
  by (induction ivs arbitrary: s) (simp_all add: put_interval_def write_interval_def interval_bytes_def)

definition outfit_bytes :: "outfit \<Rightarrow> bytes" where
  "outfit_bytes o1 = to_le 2 (lookType o1) @ to_le 2 (lookTypeEx o1) @ to_le 2 (lookMount o1) @
     [lookHead o1, lookBody o1, lookLegs o1, lookFeet o1, lookAddons o1, look_padding o1]"

lemma wbuffer_outfit [simp]: "wbuffer (write_outfit o1 s) = wbuffer s @ outfit_bytes o1"
  by (simp add: write_outfit_def outfit_bytes_def Let_def)

definition data_bytes :: "condition_data \<Rightarrow> bytes" where
  "data_bytes d = wbuffer (data_serialize d pw_empty)"

lemma wbuffer_data: "wbuffer (data_serialize d s) = wbuffer s @ data_bytes d"
  by (cases d) (simp_all add: serialize_defs data_bytes_def)

definition base_bytes :: "condition \<Rightarrow> bytes" where
  "base_bytes c =
     attr_bytes CONDITIONATTR_TYPE 4 (c_type c) @ attr_bytes CONDITIONATTR_ID 4 (scast (c_id c) :: u32) @
     attr_bytes CONDITIONATTR_TICKS 4 (c_ticks c) @
     attr_bytes CONDITIONATTR_ISBUFF 1 (if c_isBuff c then 1 else 0 :: u8) @
     attr_bytes CONDITIONATTR_SUBID 4 (c_subId c)"

lemma wbuffer_serialize: "wbuffer (serialize c s) = wbuffer s @ base_bytes c @ data_bytes (c_data c)"
  by (simp add: serialize_def wbuffer_data base_serialize_def base_bytes_def Let_def)

definition stored_bytes :: "condition \<Rightarrow> bytes" where
  "stored_bytes c = base_bytes c @ data_bytes (c_data c) @ [CONDITIONATTR_END]"

lemma wbuffer_save:
  "wbuffer (saveConditions cs s) = wbuffer s @ concat (map stored_bytes (filter isPersistent cs))"
  unfolding saveConditions_def
  by (induction cs arbitrary: s) (simp_all add: wbuffer_serialize stored_bytes_def)

section \<open>Reading them\<close>

lemma read_bytes:
  "ps_read (Suc 0) \<lparr>unread = b # r\<rparr> = (\<lparr>unread = r\<rparr>, Some b)"
  "read1 \<lparr>unread = b # r\<rparr> = (\<lparr>unread = r\<rparr>, Some b)"
  "read4 \<lparr>unread = to_le 4 v @ r\<rparr> = (\<lparr>unread = r\<rparr>, Some v)"
  by (simp_all add: read1_def read4_def ps_defs)

lemma read_interval_bytes: "read_interval \<lparr>unread = interval_bytes iv @ r\<rparr> = (\<lparr>unread = r\<rparr>, Some iv)"
  by (simp add: read_interval_def interval_bytes_def ps_size_def Let_def)

lemma read_outfit_bytes: "read_outfit \<lparr>unread = outfit_bytes o1 @ r\<rparr> = (\<lparr>unread = r\<rparr>, Some o1)"
  by (simp add: read_outfit_def outfit_bytes_def ps_size_def Let_def nth_append)

lemma unserialize_cons:
  "unserialize now \<lparr>unread = a # r\<rparr> c =
     (if a = CONDITIONATTR_END then (True, \<lparr>unread = r\<rparr>, c)
      else (case unserializeProp now a \<lparr>unread = r\<rparr> c of
              (ok, s2, c2) \<Rightarrow> if \<not> ok then (False, s2, c2) else unserialize now s2 c2))"
  by (subst unserialize.simps) (simp add: read_bytes)

lemma id_back [simp]: "(ucast (scast (w :: u8) :: u32) :: u8) = w"
  by (rule bit_word_eqI) (auto simp: bit_simps)

lemma flag_back [simp]: "((if b then 1 else 0 :: u8) \<noteq> 0) = b" "((if b then 1 else 0 :: u8) = 0) = (\<not> b)"
  by simp_all

lemma createConditionFrom_bytes:
  "createConditionFrom \<lparr>unread = base_bytes c @ r\<rparr> =
     map_option (\<lambda>c. (c, \<lparr>unread = r\<rparr>))
       (createCondition (c_id c) (c_type c) (c_ticks c) 0 (c_isBuff c) (c_subId c))"
  by (simp add: createConditionFrom_def base_bytes_def attr_bytes_def expect_def read_bytes
      split: option.split cong: if_cong del: if_cancel)

section \<open>What comes back\<close>

definition reload_data :: "condition_data \<Rightarrow> condition_data" where
  "reload_data data =
     (case data of
        ConditionAttributes d \<Rightarrow> ConditionAttributes
          (new_attributes\<lparr>skills := skills d, stats := stats d, currentSkill := 7, currentStat := 4\<rparr>)
      | ConditionRegeneration d \<Rightarrow> ConditionRegeneration
          (d\<lparr>internalHealthTicks := 0, internalManaTicks := 0\<rparr>)
      | ConditionSoul d \<Rightarrow> ConditionSoul (d\<lparr>internalSoulTicks := 0\<rparr>)
      | ConditionDamage d \<Rightarrow> ConditionDamage
          (new_damage\<lparr>delayed := delayed d, periodDamage := periodDamage d, damageList := damageList d\<rparr>)
      | _ \<Rightarrow> data)"

definition add_interval :: "int \<Rightarrow> interval_info \<Rightarrow> condition \<Rightarrow> condition" where
  "add_interval now iv c = (if c_ticks c \<noteq> -1 then setTicks now (c_ticks c + iv_interval iv) c else c)"

definition reload :: "int \<Rightarrow> condition \<Rightarrow> condition" where
  "reload now c =
     (case c_data c of
        ConditionDamage d \<Rightarrow>
          fold (add_interval now) (damageList d)
            (c\<lparr>c_ticks := 0, c_endTime := 0, c_data := reload_data (c_data c)\<rparr>)
      | _ \<Rightarrow> c\<lparr>c_endTime := 0, c_data := reload_data (c_data c)\<rparr>)"

text \<open>The data have the class of the type, and the arrays their sizes.\<close>

fun class_no :: "condition_data \<Rightarrow> nat" where
  "class_no ConditionGeneric = 0" | "class_no (ConditionAttributes _) = 1"
| "class_no (ConditionRegeneration _) = 2" | "class_no (ConditionSoul _) = 3"
| "class_no ConditionInvisible = 4" | "class_no (ConditionDamage _) = 5"
| "class_no (ConditionSpeed _) = 6" | "class_no (ConditionOutfit _) = 7"
| "class_no (ConditionLight _) = 8" | "class_no ConditionSpellCooldown = 9"
| "class_no ConditionSpellGroupCooldown = 10"

definition class_ok :: "condition \<Rightarrow> bool" where
  "class_ok c =
     ((case createCondition (c_id c) (c_type c) (c_ticks c) 0 (c_isBuff c) (c_subId c) of
         None \<Rightarrow> False | Some c0 \<Rightarrow> class_no (c_data c0) = class_no (c_data c)) \<and>
      (case c_data c of
         ConditionAttributes d \<Rightarrow> length (skills d) = 7 \<and> length (stats d) = 4
       | _ \<Rightarrow> True))"

lemma createCondition_fresh:
  "createCondition cid t k 0 b u = Some c0 \<Longrightarrow>
   c0 = base_condition (c_data c0) cid t (if class_no (c_data c0) = 5 then 0 else k) b u \<and>
   (case c_data c0 of
      ConditionAttributes d \<Rightarrow> d = new_attributes
    | ConditionRegeneration d \<Rightarrow> d = new_regeneration
    | ConditionSoul d \<Rightarrow> d = new_soul
    | ConditionDamage d \<Rightarrow> d = new_damage
    | ConditionSpeed d \<Rightarrow> d = new_speed 0
    | ConditionOutfit d \<Rightarrow> d = new_outfit
    | ConditionLight d \<Rightarrow> d = new_light 0 0
    | _ \<Rightarrow> True)"
  by (auto simp: createCondition_def base_condition_def split: if_splits)

lemmas read_steps = unserialize_cons unserializeProp_defs read_into_def read_bytes conditionattr_defs
  data_bytes_def serialize_defs attr_bytes_def

lemma byte_back [simp]: "(ucast (ucast (w :: u8) :: u32) :: u8) = w"
  by (rule bit_word_eqI) (auto simp: bit_simps)

lemma read_regeneration:
  "c_data c = ConditionRegeneration d0 \<Longrightarrow>
   unserialize now \<lparr>unread = data_bytes (ConditionRegeneration d) @ CONDITIONATTR_END # r\<rparr> c =
   (True, \<lparr>unread = r\<rparr>, c\<lparr>c_data := ConditionRegeneration (d0\<lparr>healthTicks := healthTicks d,
      healthGain := healthGain d, manaTicks := manaTicks d, manaGain := manaGain d\<rparr>)\<rparr>)"
  by (simp add: read_steps)

lemma read_soul:
  "c_data c = ConditionSoul d0 \<Longrightarrow>
   unserialize now \<lparr>unread = data_bytes (ConditionSoul d) @ CONDITIONATTR_END # r\<rparr> c =
   (True, \<lparr>unread = r\<rparr>, c\<lparr>c_data := ConditionSoul (d0\<lparr>soulGain := soulGain d, soulTicks := soulTicks d\<rparr>)\<rparr>)"
  by (simp add: read_steps)

lemma read_speed:
  "c_data c = ConditionSpeed d0 \<Longrightarrow>
   unserialize now \<lparr>unread = data_bytes (ConditionSpeed d) @ CONDITIONATTR_END # r\<rparr> c =
   (True, \<lparr>unread = r\<rparr>, c\<lparr>c_data := ConditionSpeed d\<rparr>)"
  by (simp add: read_steps)

lemma read_light:
  "c_data c = ConditionLight d0 \<Longrightarrow>
   unserialize now \<lparr>unread = data_bytes (ConditionLight d) @ CONDITIONATTR_END # r\<rparr> c =
   (True, \<lparr>unread = r\<rparr>, c\<lparr>c_data := ConditionLight d\<rparr>)"
  by (simp add: read_steps)

lemma read_outfit_data:
  "c_data c = ConditionOutfit d0 \<Longrightarrow>
   unserialize now \<lparr>unread = data_bytes (ConditionOutfit d) @ CONDITIONATTR_END # r\<rparr> c =
   (True, \<lparr>unread = r\<rparr>, c\<lparr>c_data := ConditionOutfit d\<rparr>)"
  by (simp add: read_steps read_outfit_bytes)

lemma data_same: "c_data c = x \<Longrightarrow> c\<lparr>c_data := x\<rparr> = c"
  by (cases c) simp

fun write_at :: "nat \<Rightarrow> 'a list \<Rightarrow> 'a list \<Rightarrow> 'a list" where
  "write_at k [] xs = xs"
| "write_at k (v # vs) xs = write_at (Suc k) vs (xs[k := v])"

lemma write_at_take: "k + length vs = length xs \<Longrightarrow> write_at k vs xs = take k xs @ vs"
proof (induction vs arbitrary: k xs)
  case (Cons v vs)
  hence "write_at k (v # vs) xs = take (Suc k) (xs[k := v]) @ vs"
    by simp
  also have "take (Suc k) (xs[k := v]) = take k xs @ [v]"
    using Cons.prems by (simp add: take_Suc_conv_app_nth)
  finally show ?case by simp
qed simp

lemma read_skills:
  "c_data c = ConditionAttributes d \<Longrightarrow>
   unserialize now \<lparr>unread = concat (map (attr_bytes CONDITIONATTR_SKILLS 4) vs) @ r\<rparr> c =
   unserialize now \<lparr>unread = r\<rparr> (c\<lparr>c_data := ConditionAttributes
     (d\<lparr>skills := write_at (currentSkill d) vs (skills d), currentSkill := currentSkill d + length vs\<rparr>)\<rparr>)"
proof (induction vs arbitrary: c d)
  case (Cons v vs)
  let ?d = "d\<lparr>skills := (skills d)[currentSkill d := v], currentSkill := Suc (currentSkill d)\<rparr>"
  have step: "unserializeProp now CONDITIONATTR_SKILLS \<lparr>unread = to_le 4 v @ r'\<rparr> c =
      (True, \<lparr>unread = r'\<rparr>, c\<lparr>c_data := ConditionAttributes ?d\<rparr>)" for r'
    by (simp add: unserializeProp_defs Cons.prems read_into_def read_bytes)
  have "CONDITIONATTR_SKILLS \<noteq> CONDITIONATTR_END"
    by (simp add: conditionattr_defs)
  thus ?case
    using Cons.IH [of "c\<lparr>c_data := ConditionAttributes ?d\<rparr>" ?d]
    by (simp add: unserialize_cons attr_bytes_def [of _ _ v] step)
qed (simp add: data_same)

lemma read_stats:
  "c_data c = ConditionAttributes d \<Longrightarrow>
   unserialize now \<lparr>unread = concat (map (attr_bytes CONDITIONATTR_STATS 4) vs) @ r\<rparr> c =
   unserialize now \<lparr>unread = r\<rparr> (c\<lparr>c_data := ConditionAttributes
     (d\<lparr>stats := write_at (currentStat d) vs (stats d), currentStat := currentStat d + length vs\<rparr>)\<rparr>)"
proof (induction vs arbitrary: c d)
  case (Cons v vs)
  let ?d = "d\<lparr>stats := (stats d)[currentStat d := v], currentStat := Suc (currentStat d)\<rparr>"
  have step: "unserializeProp now CONDITIONATTR_STATS \<lparr>unread = to_le 4 v @ r'\<rparr> c =
      (True, \<lparr>unread = r'\<rparr>, c\<lparr>c_data := ConditionAttributes ?d\<rparr>)" for r'
    by (simp add: unserializeProp_defs Cons.prems read_into_def read_bytes) (simp add: conditionattr_defs)
  have "CONDITIONATTR_STATS \<noteq> CONDITIONATTR_END"
    by (simp add: conditionattr_defs)
  thus ?case
    using Cons.IH [of "c\<lparr>c_data := ConditionAttributes ?d\<rparr>" ?d]
    by (simp add: unserialize_cons attr_bytes_def [of _ _ v] step)
qed (simp add: data_same)

lemma read_attributes:
  "c_data c = ConditionAttributes new_attributes \<Longrightarrow> length (skills d) = 7 \<Longrightarrow> length (stats d) = 4 \<Longrightarrow>
   unserialize now \<lparr>unread = data_bytes (ConditionAttributes d) @ CONDITIONATTR_END # r\<rparr> c =
   (True, \<lparr>unread = r\<rparr>, c\<lparr>c_data := reload_data (ConditionAttributes d)\<rparr>)"
  by (simp add: data_bytes_def serialize_defs read_skills read_stats unserialize_cons reload_data_def
      new_attributes_def write_at_take)

lemma read_intervals:
  "c_data c = ConditionDamage d \<Longrightarrow>
   unserialize now \<lparr>unread = concat (map (\<lambda>iv. CONDITIONATTR_INTERVALDATA # interval_bytes iv) ivs) @ r\<rparr> c =
   unserialize now \<lparr>unread = r\<rparr> (fold (add_interval now) ivs
     (c\<lparr>c_data := ConditionDamage (d\<lparr>damageList := damageList d @ ivs\<rparr>)\<rparr>))"
proof (induction ivs arbitrary: c d)
  case (Cons iv ivs)
  let ?c = "c\<lparr>c_data := ConditionDamage (d\<lparr>damageList := damageList d @ [iv]\<rparr>)\<rparr>"
  have step: "unserializeProp now CONDITIONATTR_INTERVALDATA \<lparr>unread = interval_bytes iv @ r'\<rparr> c =
      (True, \<lparr>unread = r'\<rparr>, add_interval now iv ?c)" for r'
    by (simp add: unserializeProp_defs Cons.prems read_into_def read_interval_bytes add_interval_def Let_def)
       (simp add: conditionattr_defs)
  have upd: "add_interval now iv (x\<lparr>c_data := dd\<rparr>) = (add_interval now iv x)\<lparr>c_data := dd\<rparr>" for x dd
    by (simp add: add_interval_def setTicks_def)
  have "CONDITIONATTR_INTERVALDATA \<noteq> CONDITIONATTR_END"
    by (simp add: conditionattr_defs)
  thus ?case
    using Cons.IH [of "add_interval now iv ?c" "d\<lparr>damageList := damageList d @ [iv]\<rparr>"]
    by (simp add: unserialize_cons step upd)
qed (simp add: data_same)

lemma read_damage:
  "c_data c = ConditionDamage new_damage \<Longrightarrow>
   unserialize now \<lparr>unread = data_bytes (ConditionDamage d) @ CONDITIONATTR_END # r\<rparr> c =
   (True, \<lparr>unread = r\<rparr>, fold (add_interval now) (damageList d) (c\<lparr>c_data := reload_data (ConditionDamage d)\<rparr>))"
proof -
  assume c: "c_data c = ConditionDamage new_damage"
  let ?c = "c\<lparr>c_data := ConditionDamage (new_damage\<lparr>delayed := delayed d, periodDamage := periodDamage d\<rparr>)\<rparr>"
  have "unserialize now \<lparr>unread = attr_bytes CONDITIONATTR_DELAYED 1 (if delayed d then 1 else 0 :: u8) @
      attr_bytes CONDITIONATTR_PERIODDAMAGE 4 (periodDamage d) @ r'\<rparr> c = unserialize now \<lparr>unread = r'\<rparr> ?c" for r'
    using c by (simp add: attr_bytes_def unserialize_cons unserializeProp_defs read_into_def read_bytes conditionattr_defs)
  thus ?thesis
    by (simp add: data_bytes_def serialize_defs read_intervals unserialize_cons reload_data_def)
       (simp add: new_damage_def)
qed

section \<open>The round trip\<close>

lemma reload_step:
  assumes "class_ok c" "isPersistent c"
  shows "\<exists>c0. createConditionFrom \<lparr>unread = stored_bytes c @ r\<rparr> =
        Some (c0, \<lparr>unread = data_bytes (c_data c) @ CONDITIONATTR_END # r\<rparr>) \<and>
      unserialize now \<lparr>unread = data_bytes (c_data c) @ CONDITIONATTR_END # r\<rparr> c0 =
        (True, \<lparr>unread = r\<rparr>, reload now c)"
proof -
  obtain c0 where c0: "createCondition (c_id c) (c_type c) (c_ticks c) 0 (c_isBuff c) (c_subId c) = Some c0"
    and cls: "class_no (c_data c0) = class_no (c_data c)"
    using assms(1) by (auto simp: class_ok_def split: option.splits)
  note fresh = createCondition_fresh [OF c0]
  have "c_ticks c \<noteq> -1"
    using assms(2) by (auto simp: isPersistent_def split: if_splits)
  have base: "c0 = c\<lparr>c_ticks := (if class_no (c_data c) = 5 then 0 else c_ticks c), c_endTime := 0,
      c_data := c_data c0\<rparr>"
  proof (rule trans [OF fresh [THEN conjunct1]])
    show "base_condition (c_data c0) (c_id c) (c_type c) (if class_no (c_data c0) = 5 then 0 else c_ticks c)
        (c_isBuff c) (c_subId c) =
      c\<lparr>c_ticks := (if class_no (c_data c) = 5 then 0 else c_ticks c), c_endTime := 0, c_data := c_data c0\<rparr>"
      using \<open>c_ticks c \<noteq> -1\<close> by (cases c) (simp add: base_condition_def cls)
  qed
  have "unserialize now \<lparr>unread = data_bytes (c_data c) @ CONDITIONATTR_END # r\<rparr> c0 =
      (True, \<lparr>unread = r\<rparr>, reload now c)"
  proof (cases "c_data c")
    case (ConditionAttributes d)
    then obtain d0 where "c_data c0 = ConditionAttributes d0" using cls by (cases "c_data c0") auto
    thus ?thesis
      using fresh assms(1) ConditionAttributes read_attributes [of c0 d now r] base
      by (simp add: class_ok_def reload_def)
  next
    case (ConditionRegeneration d)
    then obtain d0 where "c_data c0 = ConditionRegeneration d0" using cls by (cases "c_data c0") auto
    thus ?thesis
      using fresh ConditionRegeneration read_regeneration [of c0 d0 now d r] base
      by (simp add: reload_def reload_data_def new_regeneration_def)
  next
    case (ConditionSoul d)
    then obtain d0 where "c_data c0 = ConditionSoul d0" using cls by (cases "c_data c0") auto
    thus ?thesis
      using fresh ConditionSoul read_soul [of c0 d0 now d r] base
      by (simp add: reload_def reload_data_def new_soul_def)
  next
    case (ConditionDamage d)
    then obtain d0 where "c_data c0 = ConditionDamage d0" using cls by (cases "c_data c0") auto
    thus ?thesis
      using fresh ConditionDamage read_damage [of c0 now d r] base
      by (simp add: reload_def)
  next
    case (ConditionSpeed d)
    then obtain d0 where "c_data c0 = ConditionSpeed d0" using cls by (cases "c_data c0") auto
    thus ?thesis
      using ConditionSpeed read_speed [of c0 d0 now d r] base
      by (simp add: reload_def reload_data_def)
  next
    case (ConditionOutfit d)
    then obtain d0 where "c_data c0 = ConditionOutfit d0" using cls by (cases "c_data c0") auto
    thus ?thesis
      using ConditionOutfit read_outfit_data [of c0 d0 now d r] base
      by (simp add: reload_def reload_data_def)
  next
    case (ConditionLight d)
    then obtain d0 where "c_data c0 = ConditionLight d0" using cls by (cases "c_data c0") auto
    thus ?thesis
      using ConditionLight read_light [of c0 d0 now d r] base
      by (simp add: reload_def reload_data_def)
  qed (use cls base in \<open>cases "c_data c0"; simp add: data_bytes_def serialize_defs unserialize_cons
         reload_def reload_data_def\<close>)+
  thus ?thesis
    by (simp add: stored_bytes_def createConditionFrom_bytes c0)
qed

lemma createConditionFrom_empty: "createConditionFrom \<lparr>unread = []\<rparr> = None"
  by (simp add: createConditionFrom_def expect_def ps_defs)

lemma load_stored:
  "list_all (\<lambda>c. class_ok c \<and> isPersistent c) cs \<Longrightarrow>
   loadConditions now \<lparr>unread = concat (map stored_bytes cs)\<rparr> stored = rev (map (reload now) cs) @ stored"
proof (induction cs arbitrary: stored)
  case Nil
  show ?case
    by (subst loadConditions.simps) (simp add: createConditionFrom_empty)
next
  case (Cons c cs)
  then obtain c0 where "createConditionFrom \<lparr>unread = stored_bytes c @ concat (map stored_bytes cs)\<rparr> =
      Some (c0, \<lparr>unread = data_bytes (c_data c) @ CONDITIONATTR_END # concat (map stored_bytes cs)\<rparr>)"
    "unserialize now \<lparr>unread = data_bytes (c_data c) @ CONDITIONATTR_END # concat (map stored_bytes cs)\<rparr> c0 =
      (True, \<lparr>unread = concat (map stored_bytes cs)\<rparr>, reload now c)"
    using reload_step by fastforce
  thus ?case
    using Cons by (subst loadConditions.simps) simp
qed

text \<open>
  C22. The conditions that are saved with a player come back when he logs in, every persistent
  one of them and no other, in reverse order, with their class, type, id and what their class
  stores; a damage has its intervals again and the sum of them as its ticks.
\<close>
theorem stored_conditions_come_back:
  assumes "list_all class_ok cs"
  shows "loadConditions now (ps_init (fst (pw_getStream (saveConditions cs pw_empty)))) [] =
    rev (map (reload now) (filter isPersistent cs))"
proof -
  have "list_all (\<lambda>c. class_ok c \<and> isPersistent c) (filter isPersistent cs)"
    using assms by (simp add: list_all_iff)
  from load_stored [OF this, of now "[]"] show ?thesis
    by (simp add: pw_getStream_def ps_init_def wbuffer_save)
qed

definition demo_stored :: "condition list" where
  "demo_stored =
     [base_condition (ConditionRegeneration (new_regeneration\<lparr>healthGain := 5\<rparr>)) CONDITIONID_DEFAULT
        CONDITION_REGENERATION 600000 False 0,
      base_condition (ConditionDamage (new_damage\<lparr>damageList := [\<lparr>iv_timeLeft = 2000, iv_value = -10, iv_interval = 4000\<rparr>]\<rparr>))
        CONDITIONID_COMBAT CONDITION_POISON 4000 False 0]"

theorem stored_conditions_come_back_witness:
  "list_all class_ok demo_stored \<and>
   loadConditions 0 (ps_init (fst (pw_getStream (saveConditions demo_stored pw_empty)))) [] =
     rev (map (reload 0) (filter isPersistent demo_stored))"
proof
  show "list_all class_ok demo_stored"
    by (simp add: demo_stored_def class_ok_def base_condition_def createCondition_def condition_type_defs)
  thus "loadConditions 0 (ps_init (fst (pw_getStream (saveConditions demo_stored pw_empty)))) [] =
      rev (map (reload 0) (filter isPersistent demo_stored))"
    by (rule stored_conditions_come_back)
qed

end
