(* ===== verification/AfflictionProps.thy ===== *)
theory AfflictionProps imports Afflictions ConditionIOProps begin

text \<open>
  The books of the conditions: what a condition gives to a creature it takes back when it ends.
  The locale \<open>accounted\<close> states what the four operations of a condition do to one
  quantity of the creature; inside it the loops over the list are shown to keep the difference
  of that quantity and the sum over the list.
\<close>

section \<open>Frames\<close>

definition sized :: "condition \<Rightarrow> bool" where
  "sized c \<longleftrightarrow>
     (case c_data c of
        ConditionAttributes d \<Rightarrow>
          length (skills d) = 7 \<and> length (specialSkills d) = 6 \<and> length (stats d) = 4
      | _ \<Rightarrow> True)"

definition sized_host :: "host \<Rightarrow> bool" where
  "sized_host h \<longleftrightarrow> length (h_varSkills h) = 7 \<and> length (h_varSpecialSkills h) = 6 \<and> length (h_varStats h) = 4"

text \<open>What no operation of a condition changes.\<close>

definition kept :: "host \<Rightarrow> host \<Rightarrow> bool" where
  "kept h h' \<longleftrightarrow>
     h_player h' = h_player h \<and> h_monster h' = h_monster h \<and> h_conditions h' = h_conditions h \<and>
     h_scheduled h' = h_scheduled h \<and> h_baseSpeed h' = h_baseSpeed h \<and>
     length (h_varSkills h') = length (h_varSkills h) \<and>
     length (h_varSpecialSkills h') = length (h_varSpecialSkills h) \<and>
     length (h_varStats h') = length (h_varStats h)"

text \<open>The quantities that conditions change and give back.\<close>

definition same_vars :: "host \<Rightarrow> host \<Rightarrow> bool" where
  "same_vars h h' \<longleftrightarrow>
     kept h h' \<and> h_varSpeed h' = h_varSpeed h \<and> h_varSkills h' = h_varSkills h \<and>
     h_varSpecialSkills h' = h_varSpecialSkills h \<and> h_varStats h' = h_varStats h \<and>
     h_visible h' = h_visible h"

lemma same_vars_refl [simp]: "same_vars h h"
  by (simp add: same_vars_def kept_def)

lemma same_vars_trans: "same_vars a b \<Longrightarrow> same_vars b c \<Longrightarrow> same_vars a c"
  by (simp add: same_vars_def kept_def)

lemma same_vars_basic [simp]:
  "same_vars h (changeHealth x h)" "same_vars h (changeMana X x h)" "same_vars h (changeSoul x h)"
  by (simp_all add: same_vars_def kept_def changeHealth_def changeMana_def changeSoul_def)

lemma same_vars_doDamage: "doDamage X c d v h = (ok, h') \<Longrightarrow> same_vars h h'"
  by (auto simp: doDamage_def Let_def same_vars_def kept_def split: if_splits)

lemma setVarStats_facts:
  "h_varStats (setVarStats X i v h) = (h_varStats h)[i := h_varStats h ! i + v]"
  "same_vars (h\<lparr>h_varStats := (h_varStats h)[i := h_varStats h ! i + v]\<rparr>) (setVarStats X i v h)"
  by (simp_all add: setVarStats_def Let_def changeHealth_def changeMana_def same_vars_def kept_def)

definition but_stats :: "host \<Rightarrow> host \<Rightarrow> bool" where
  "but_stats h h' \<longleftrightarrow>
     kept h h' \<and> h_varSpeed h' = h_varSpeed h \<and> h_varSkills h' = h_varSkills h \<and>
     h_varSpecialSkills h' = h_varSpecialSkills h \<and> h_visible h' = h_visible h"

lemma but_stats_trans: "but_stats a b \<Longrightarrow> but_stats b c \<Longrightarrow> but_stats a c"
  by (simp add: but_stats_def kept_def)

lemma but_stats_setVarStats: "but_stats h (setVarStats X i v h)"
  using setVarStats_facts(2) [of h i v X] by (simp add: same_vars_def but_stats_def kept_def)

lemma but_stats_refl [simp]: "but_stats h h"
  by (simp add: but_stats_def kept_def)

lemma but_stats_updateStats: "but_stats h (updateStats X vs h)"
proof -
  let ?f = "\<lambda>i h. if vs ! i \<noteq> 0 then setVarStats X i (vs ! i) h else h"
  have step: "but_stats h (?f i h)" for i h
    by (simp add: but_stats_setVarStats)
  have "but_stats h (fold ?f is h)" for "is"
  proof (induction "is" arbitrary: h)
    case (Cons i "is")
    show ?case
      using but_stats_trans [OF step [of h i] Cons [of "?f i h"]] by (simp only: fold_simps)
  qed simp
  thus ?thesis by (simp only: updateStats_def)
qed

lemma updateStats_at:
  assumes "length (h_varStats h) = length vs" "j < length vs"
  shows "h_varStats (updateStats X vs h) ! j = h_varStats h ! j + vs ! j"
proof -
  let ?f = "\<lambda>i h. if vs ! i \<noteq> 0 then setVarStats X i (vs ! i) h else h"
  have "n \<le> length vs \<Longrightarrow> length (h_varStats (fold ?f [0..<n] h)) = length vs \<and>
      h_varStats (fold ?f [0..<n] h) ! j = h_varStats h ! j + (if j < n then vs ! j else 0)" for n
  proof (induction n)
    case (Suc n)
    let ?h = "fold ?f [0..<n] h"
    from Suc have "length (h_varStats ?h) = length vs"
      "h_varStats ?h ! j = h_varStats h ! j + (if j < n then vs ! j else 0)" "n < length vs"
      by auto
    thus ?case
      using assms by (cases "j = n") (auto simp: setVarStats_facts(1) less_Suc_eq)
  qed (use assms in simp)
  from this [of "length vs"] assms show ?thesis
    by (simp add: updateStats_def)
qed

section \<open>What a condition gives\<close>

datatype bonus = Speed | Skill nat | SpecialSkill nat | Stat nat

definition var_of :: "bonus \<Rightarrow> host \<Rightarrow> u32" where
  "var_of b h =
     (case b of
        Speed \<Rightarrow> h_varSpeed h
      | Skill i \<Rightarrow> if i < 7 then h_varSkills h ! i else 0
      | SpecialSkill i \<Rightarrow> if i < 6 then h_varSpecialSkills h ! i else 0
      | Stat i \<Rightarrow> if i < 4 then h_varStats h ! i else 0)"

definition attribute_bonus :: "bonus \<Rightarrow> attributes_data \<Rightarrow> u32" where
  "attribute_bonus b d =
     (case b of
        Speed \<Rightarrow> 0
      | Skill i \<Rightarrow> if i < 7 then skills d ! i else 0
      | SpecialSkill i \<Rightarrow> if i < 6 then specialSkills d ! i else 0
      | Stat i \<Rightarrow> if i < 4 then stats d ! i else 0)"

definition gives :: "bonus \<Rightarrow> bool \<Rightarrow> condition \<Rightarrow> u32" where
  "gives b player c =
     (case c_data c of
        ConditionSpeed d \<Rightarrow> if b = Speed then speedDelta d else 0
      | ConditionAttributes d \<Rightarrow> if player then attribute_bonus b d else 0
      | _ \<Rightarrow> 0)"

lemma same_vars_var: "same_vars h h' \<Longrightarrow> var_of b h' = var_of b h"
  by (cases b) (simp_all add: var_of_def same_vars_def)

lemma var_of_list [simp]:
  "var_of b (h\<lparr>h_conditions := cs\<rparr>) = var_of b h" "var_of b (h\<lparr>h_scheduled := k\<rparr>) = var_of b h"
  "var_of b (h\<lparr>h_useDefense := u\<rparr>) = var_of b h" "var_of b (h\<lparr>h_visible := u\<rparr>) = var_of b h"
  "var_of b (h\<lparr>h_outfit := o1\<rparr>) = var_of b h" "var_of b (h\<lparr>h_light := l\<rparr>) = var_of b h"
  by (cases b; simp add: var_of_def)+

lemma var_of_changeSpeed: "var_of b (changeSpeed v h) = var_of b h + (if b = Speed then v else 0)"
  by (cases b) (simp_all add: var_of_def changeSpeed_def Let_def)

lemma var_of_vectors:
  assumes "length (h_varSkills h) = 7" "length sk = 7" "length (h_varSpecialSkills h) = 6" "length ss = 6"
    "length (h_varStats h) = 4" "length st = 4"
  shows "var_of b (updateStats X st (h\<lparr>h_varSkills := add_vars (h_varSkills h) sk,
      h_varSpecialSkills := add_vars (h_varSpecialSkills h) ss\<rparr>)) =
    var_of b h + attribute_bonus b (new_attributes\<lparr>skills := sk, specialSkills := ss, stats := st\<rparr>)"
proof -
  let ?h = "h\<lparr>h_varSkills := add_vars (h_varSkills h) sk,
      h_varSpecialSkills := add_vars (h_varSpecialSkills h) ss\<rparr>"
  have "but_stats ?h (updateStats X st ?h)"
    by (rule but_stats_updateStats)
  thus ?thesis
    using assms updateStats_at [of ?h st _ X]
    by (cases b) (simp_all add: var_of_def attribute_bonus_def but_stats_def add_vars_def)
qed

section \<open>Attributes\<close>

definition sized_attributes :: "attributes_data \<Rightarrow> bool" where
  "sized_attributes d \<longleftrightarrow> length (skills d) = 7 \<and> length (specialSkills d) = 6 \<and> length (stats d) = 4"

lemma sized_simps [simp]:
  "c_data c = ConditionAttributes d \<Longrightarrow> sized c = sized_attributes d"
  "c_data c = ConditionGeneric \<Longrightarrow> sized c" "c_data c = ConditionRegeneration r \<Longrightarrow> sized c"
  "c_data c = ConditionSoul s \<Longrightarrow> sized c" "c_data c = ConditionInvisible \<Longrightarrow> sized c"
  "c_data c = ConditionDamage dd \<Longrightarrow> sized c" "c_data c = ConditionSpeed sd \<Longrightarrow> sized c"
  "c_data c = ConditionOutfit o1 \<Longrightarrow> sized c" "c_data c = ConditionLight l \<Longrightarrow> sized c"
  "c_data c = ConditionSpellCooldown \<Longrightarrow> sized c" "c_data c = ConditionSpellGroupCooldown \<Longrightarrow> sized c"
  by (simp_all add: sized_def sized_attributes_def)

lemma attribute_bonus_cong:
  "skills d = skills e \<Longrightarrow> specialSkills d = specialSkills e \<Longrightarrow> stats d = stats e \<Longrightarrow>
   attribute_bonus b d = attribute_bonus b e"
  by (cases b) (simp_all add: attribute_bonus_def)

lemma attribute_bonus_uminus:
  "sized_attributes d \<Longrightarrow>
   attribute_bonus b (e\<lparr>skills := map uminus (skills d), specialSkills := map uminus (specialSkills d),
      stats := map uminus (stats d)\<rparr>) = - attribute_bonus b d"
  by (cases b) (simp_all add: attribute_bonus_def sized_attributes_def)

lemma kept_vectors:
  assumes "length sk = length (h_varSkills h)" "length ss = length (h_varSpecialSkills h)"
  shows "kept h (updateStats X st (h\<lparr>h_varSkills := add_vars (h_varSkills h) sk,
      h_varSpecialSkills := add_vars (h_varSpecialSkills h) ss\<rparr>))" (is "kept h (updateStats X st ?h)")
    "h_visible (updateStats X st (h\<lparr>h_varSkills := add_vars (h_varSkills h) sk,
      h_varSpecialSkills := add_vars (h_varSpecialSkills h) ss\<rparr>)) = h_visible h"
  using but_stats_updateStats [of ?h X st] assms
  by (simp_all add: but_stats_def kept_def add_vars_def)

lemma updatePercent_fields [simp]:
  "length (skills (updatePercentSkills X d)) = length (skills d)"
  "specialSkills (updatePercentSkills X d) = specialSkills d" "stats (updatePercentSkills X d) = stats d"
  "skills (updatePercentStats X h d) = skills d" "specialSkills (updatePercentStats X h d) = specialSkills d"
  "length (stats (updatePercentStats X h d)) = length (stats d)"
  by (simp_all add: updatePercentSkills_def updatePercentStats_def)

lemma apply_attributes_laws:
  assumes "sized_host h" "sized_attributes d" "apply_attributes X d h = (d', h')"
  shows "kept h h' \<and> h_visible h' = h_visible h \<and> sized_attributes d' \<and>
    var_of b h' = var_of b h + (if h_player h then attribute_bonus b d' else 0)"
proof (cases "h_player h")
  case True
  let ?d = "updatePercentSkills X d"
  let ?h = "h\<lparr>h_varSkills := add_vars (h_varSkills h) (skills ?d),
      h_varSpecialSkills := add_vars (h_varSpecialSkills h) (specialSkills ?d)\<rparr>"
  have d': "d' = updatePercentStats X ?h ?d" and h': "h' = updateStats X (stats d') ?h"
    using assms(3) True by (auto simp: apply_attributes_def Let_def updateSkills_def)
  have sized: "sized_attributes d'"
    using assms(2) by (simp add: d' sized_attributes_def)
  moreover have "kept h h' \<and> h_visible h' = h_visible h"
    using assms(1,2) kept_vectors [of "skills ?d" h "specialSkills ?d" X "stats d'"]
    by (simp add: h' sized_host_def sized_attributes_def)
  moreover have "attribute_bonus b d' =
      attribute_bonus b (new_attributes\<lparr>skills := skills ?d, specialSkills := specialSkills ?d, stats := stats d'\<rparr>)"
    by (rule attribute_bonus_cong) (simp_all add: d')
  ultimately show ?thesis
    using assms(1,2) True var_of_vectors [of h "skills ?d" "specialSkills ?d" "stats d'" b X]
    by (simp add: h' sized_host_def sized_attributes_def)
next
  case False
  thus ?thesis using assms by (simp add: apply_attributes_def kept_def)
qed

lemma end_attributes_laws:
  assumes "sized_host h" "sized_attributes d"
  shows "kept h (end_attributes X d h) \<and> h_visible (end_attributes X d h) = h_visible h \<and>
    var_of b (end_attributes X d h) = var_of b h - (if h_player h then attribute_bonus b d else 0)"
proof -
  let ?sk = "map uminus (skills d)" and ?ss = "map uminus (specialSkills d)" and ?st = "map uminus (stats d)"
  let ?h = "updateStats X ?st (h\<lparr>h_varSkills := add_vars (h_varSkills h) ?sk,
      h_varSpecialSkills := add_vars (h_varSpecialSkills h) ?ss\<rparr>)"
  have e: "end_attributes X d h =
      (let h1 = if h_player h then ?h else h in if disableDefense d then h1\<lparr>h_useDefense := True\<rparr> else h1)"
    by (simp add: end_attributes_def Let_def)
  have "kept h ?h" "h_visible ?h = h_visible h" "var_of b ?h = var_of b h - attribute_bonus b d"
    using assms kept_vectors [of ?sk h ?ss X ?st] var_of_vectors [of h ?sk ?ss ?st b X]
      attribute_bonus_uminus [OF assms(2), of b new_attributes]
    by (simp_all add: sized_host_def sized_attributes_def)
  moreover have "kept h (h1\<lparr>h_useDefense := True\<rparr>) = kept h h1" for h1
    by (simp add: kept_def)
  ultimately show ?thesis
    by (cases "h_player h"; cases "disableDefense d") (simp_all add: e Let_def kept_def)
qed

section \<open>The operations of one condition\<close>

definition hides :: "condition \<Rightarrow> bool" where
  "hides c \<longleftrightarrow> c_data c = ConditionInvisible"

definition same_identity :: "condition \<Rightarrow> condition \<Rightarrow> bool" where
  "same_identity c c' \<longleftrightarrow> c_type c' = c_type c \<and> c_id c' = c_id c \<and> c_subId c' = c_subId c \<and> hides c' = hides c"

definition same_head :: "condition \<Rightarrow> condition \<Rightarrow> bool" where
  "same_head c c' \<longleftrightarrow> c_type c' = c_type c \<and> c_id c' = c_id c \<and> c_subId c' = c_subId c \<and> c_data c' = c_data c"

lemma same_head_trans: "same_head a b \<Longrightarrow> same_head b c \<Longrightarrow> same_head a c"
  by (simp add: same_head_def)

lemma same_head_basic [simp]:
  "same_head c c" "same_head c (setTicks now k c)" "same_head c (base_start X c)" "same_head c (c\<lparr>c_ticks := k\<rparr>)"
  "same_head c (c\<lparr>c_endTime := t\<rparr>)"
  by (simp_all add: same_head_def setTicks_def base_start_def)

lemma same_head_execute: "same_head c (snd (base_execute X i c))"
  by (simp add: same_head_def base_execute_def)

lemma same_head_identity: "same_head c c' \<Longrightarrow> same_identity c c'"
  by (simp add: same_head_def same_identity_def hides_def)

lemma same_head_simps: "same_head c c' \<Longrightarrow> gives b p c' = gives b p c" "same_head c c' \<Longrightarrow> sized c' = sized c"
  by (simp_all add: same_head_def gives_def sized_def)

lemma same_head_round: "same_head (fst p) (fst (add_round now t v p))"
  by (simp add: add_round_def Let_def split: prod.split)

lemma same_head_rounds: "same_head (fst p) (fst ((add_round now t v ^^ n) p))"
proof (induction n)
  case (Suc n)
  show ?case
    using same_head_trans [OF Suc same_head_round [of "(add_round now t v ^^ n) p" now t v]] by simp
qed simp

lemma same_head_addDamage: "same_head (fst p) (fst (snd (addDamage now rounds time v p)))"
  by (cases p) (simp add: addDamage_def Let_def same_head_rounds [of "(_, _)", simplified])

lemma same_head_addDamages:
  "same_head (fst p) (fst (fold (\<lambda>v p. snd (addDamage now rounds time (f v) p)) vs p))"
proof (induction vs arbitrary: p)
  case (Cons v vs)
  show ?case
    using same_head_trans [OF same_head_addDamage Cons] by simp
qed simp

lemma same_head_init:
  assumes "init_damage X (c, d) = (ok, c', d')"
  shows "same_head c c'"
proof -
  let ?c = "setTicks (x_now X) 0 c"
  have folds: "same_head c (fst (fold (\<lambda>v p. snd (addDamage (x_now X) 1 t (word_of_int (- v)) p)) vs (?c, d0)))" for t vs d0
    using same_head_trans [OF _ same_head_addDamages
        [of "(?c, d0)" "x_now X" 1 t "\<lambda>v. word_of_int (- v)" vs], of c] by simp
  have "same_head c (fst (snd (init_damage X (c, d))))"
    using folds by (simp add: init_damage_def Let_def case_prod_beta)
  thus ?thesis
    by (simp add: assms)
qed

lemma with_data_simps [simp]:
  "c_data (with_data d c) = d" "c_type (with_data d c) = c_type c" "c_id (with_data d c) = c_id c"
  "c_subId (with_data d c) = c_subId c" "hides (with_data d c) \<longleftrightarrow> d = ConditionInvisible"
  by (simp_all add: with_data_def hides_def)

lemma base_start_data [simp]:
  "c_data (base_start X c) = c_data c" "c_type (base_start X c) = c_type c" "c_id (base_start X c) = c_id c"
  "c_subId (base_start X c) = c_subId c" "c_data (setTicks now k c) = c_data c"
  "c_type (setTicks now k c) = c_type c" "c_id (setTicks now k c) = c_id c" "c_subId (setTicks now k c) = c_subId c"
  by (simp_all add: base_start_def setTicks_def)

lemma damage_next_laws:
  assumes "damage_next X c d h = (ok, c', h')"
  shows "same_vars h h' \<and> (\<exists>d'. c' = with_data (ConditionDamage d') c)"
  using assms unfolding damage_next_def
  by (auto split: if_splits option.splits prod.splits dest: same_vars_doDamage)

text \<open>The account of a step: what the condition gives changes by what the creature gets.\<close>

definition accounts :: "bonus \<Rightarrow> host \<Rightarrow> condition \<Rightarrow> condition \<Rightarrow> host \<Rightarrow> bool" where
  "accounts b h c c' h' \<longleftrightarrow>
     kept h h' \<and> same_identity c c' \<and> sized c' \<and>
     var_of b h' - gives b (h_player h) c' = var_of b h - gives b (h_player h) c"

lemma accounts_damage:
  assumes "same_vars h h'" "same_head c c0" "c' = with_data (ConditionDamage d') c0" "c_data c = ConditionDamage d"
  shows "accounts b h c c' h' \<and> h_visible h' = h_visible h \<and> gives b p c' = 0"
  using assms same_vars_var [OF assms(1), of b]
  by (simp add: accounts_def same_vars_def same_head_def same_identity_def hides_def gives_def)

lemma start_laws:
  assumes "sized_host h" "sized c" "startCondition X c h = (ok, c', h')"
  shows "kept h h' \<and> same_identity c c' \<and> sized c' \<and>
    var_of b h' = var_of b h + (if ok then gives b (h_player h) c' else 0) \<and>
    h_visible h' = (h_visible h \<and> \<not> hides c)"
proof (cases "c_data c")
  case (ConditionAttributes d)
  let ?h = "h\<lparr>h_useDefense := \<not> disableDefense d\<rparr>"
  obtain d1 where a: "apply_attributes X d ?h = (d1, h')" and c': "c' = with_data (ConditionAttributes d1) (base_start X c)"
    and "ok"
    using assms(3) ConditionAttributes by (auto simp: startCondition_defs Let_def split: prod.splits)
  have "sized_host ?h" "sized_attributes d"
    using assms(1,2) ConditionAttributes by (simp_all add: sized_host_def)
  from apply_attributes_laws [OF this a, of b] show ?thesis
    using \<open>ok\<close> ConditionAttributes by (simp add: c' kept_def same_identity_def hides_def gives_def)
next
  case (ConditionDamage d)
  obtain ok0 c0 d0 where i: "init_damage X (base_start X c, d) = (ok0, c0, d0)"
    by (cases "init_damage X (base_start X c, d)")
  have head: "same_head c c0"
    by (rule same_head_trans [OF _ same_head_init [OF i]]) simp
  have "same_vars h h' \<and> (\<exists>d'. c' = with_data (ConditionDamage d') c0)"
    using assms(3) ConditionDamage i
    by (auto simp: startCondition_defs Let_def split: if_splits dest: damage_next_laws)
  then obtain d' where "same_vars h h'" and c': "c' = with_data (ConditionDamage d') c0"
    by blast
  from accounts_damage [OF this(1) head c' ConditionDamage, of b "h_player h"] show ?thesis
    using ConditionDamage c' by (simp add: accounts_def hides_def gives_def)
next
  case (ConditionSpeed d)
  thus ?thesis
    using assms(3)
    by (auto simp: startCondition_defs Let_def kept_def same_identity_def hides_def gives_def var_of_changeSpeed)
       (simp_all add: changeSpeed_def Let_def)
qed (use assms(3) in \<open>auto simp: startCondition_defs Let_def kept_def same_identity_def hides_def gives_def\<close>)

lemma end_laws:
  assumes "sized_host h" "sized c"
  shows "kept h (endCondition X c h) \<and> var_of b (endCondition X c h) = var_of b h - gives b (h_player h) c \<and>
    h_visible (endCondition X c h) = (h_visible h \<or> hides c \<and> \<not> isInvisible h)"
proof (cases "c_data c")
  case (ConditionAttributes d)
  thus ?thesis
    using assms end_attributes_laws [of h d X b] by (simp add: endCondition_defs gives_def hides_def)
next
  case (ConditionSpeed d)
  thus ?thesis
    by (simp add: endCondition_defs gives_def hides_def var_of_changeSpeed) (simp add: changeSpeed_def Let_def kept_def)
qed (simp_all add: endCondition_defs gives_def hides_def kept_def)

lemma execute_parts:
  "execute_regeneration X i r h = (r', h1) \<Longrightarrow> same_vars h h1"
  "execute_soul X i s h = (s', h2) \<Longrightarrow> same_vars h h2"
  "execute_light i l h = (l', h3) \<Longrightarrow> same_vars h h3"
  by (auto simp: execute_regeneration_def execute_soul_def execute_light_def Let_def split: if_splits prod.splits
      intro: same_vars_trans [OF same_vars_basic(1) same_vars_basic(2)])
     (simp_all add: same_vars_def kept_def)

lemma execute_damage_laws:
  assumes "c_data c = ConditionDamage d" "execute_damage X i c d h = (i', c', h')"
  shows "same_vars h h' \<and> c_type c' = c_type c \<and> c_id c' = c_id c \<and> c_subId c' = c_subId c \<and>
    (\<exists>d'. c_data c' = ConditionDamage d')"
proof -
  have dmg: "same_vars h (snd (doDamage X c e v h))" for e v
    by (metis prod.exhaust_sel same_vars_doDamage)
  thus ?thesis
    using assms by (auto simp: execute_damage_def Let_def split: if_splits list.splits)
qed

lemma base_execute_cases:
  "base_execute X i c = (alive, c') \<Longrightarrow> same_head c c' \<and> (alive \<longrightarrow> c_ticks c' = -1 \<or> x_now X \<le> c_endTime c')"
  using same_head_execute [of c X i] by (auto simp: base_execute_def split: if_splits)

lemma execute_laws:
  assumes "sized c" "executeCondition X i c h = (alive, c', h')"
  shows "same_vars h h' \<and> same_identity c c' \<and> sized c' \<and> gives b p c' = gives b p c \<and>
    (alive \<longrightarrow> c_ticks c' = -1 \<or> x_now X \<le> c_endTime c')"
proof -
  obtain i1 c1 where *: "same_vars h h' \<and> same_identity c c1 \<and> sized c1 \<and> gives b p c1 = gives b p c"
    "base_execute X i1 c1 = (alive, c')"
  proof (cases "c_data c")
    case (ConditionDamage d)
    obtain i1 c1 h1 where e: "execute_damage X i c d h = (i1, c1, h1)"
      by (cases "execute_damage X i c d h")
    hence "base_execute X i1 c1 = (alive, c')" "h' = h1"
      using assms(2) ConditionDamage by (auto simp: executeCondition_def split: prod.splits)
    with execute_damage_laws [OF ConditionDamage e] ConditionDamage that show ?thesis
      by (fastforce simp: same_identity_def hides_def gives_def)
  qed (use assms that in \<open>fastforce simp: executeCondition_def Let_def same_identity_def hides_def gives_def
         split: prod.splits dest: execute_parts\<close>)+
  note b = base_execute_cases [OF *(2)]
  from b have "same_identity c c'"
    using *(1) by (simp add: same_head_def same_identity_def hides_def)
  with *(1) b same_head_simps [of c1 c'] show ?thesis
    by auto
qed

definition merges :: "bonus \<Rightarrow> host \<Rightarrow> condition \<Rightarrow> condition \<times> host \<Rightarrow> bool" where
  "merges b h c r \<longleftrightarrow> accounts b h c (fst r) (snd r) \<and> h_visible (snd r) = h_visible h"

lemma merges_quiet:
  assumes "sized c" "same_identity c c'" "sized c'" "gives b (h_player h) c' = gives b (h_player h) c"
    "kept h h'" "var_of b h' = var_of b h" "h_visible h' = h_visible h"
  shows "merges b h c (c', h')"
  using assms by (simp add: merges_def accounts_def)

lemma merges_plain:
  assumes "sized c" "same_head c c'"
  shows "merges b h c (c', h)"
  using assms same_head_simps [OF assms(2)]
  by (intro merges_quiet) (simp_all add: same_head_identity kept_def)

lemma merge_attributes:
  assumes "sized_host h" "sized c" "sized n" "c_data c = ConditionAttributes d" "c_data n = ConditionAttributes nd"
  shows "merges b h c (mergeCondition X n c h)"
proof (cases "base_update X n c")
  case True
  let ?h = "end_attributes X d h"
  let ?d = "d\<lparr>skills := skills nd, specialSkills := specialSkills nd, skillsPercent := skillsPercent nd,
    stats := stats nd, statsPercent := statsPercent nd, disableDefense := disableDefense nd\<rparr>"
  obtain d1 h1 where a: "apply_attributes X ?d ?h = (d1, h1)"
    by (cases "apply_attributes X ?d ?h")
  have sz: "sized_attributes d" "sized_attributes nd" "sized_attributes ?d"
    using assms by (simp_all add: sized_attributes_def)
  note e = end_attributes_laws [OF assms(1) sz(1), of X b]
  hence "sized_host ?h"
    using assms(1) by (simp add: kept_def sized_host_def)
  note ap = apply_attributes_laws [OF this sz(3) a, of b]
  have m: "mergeCondition X n c h = (with_data (ConditionAttributes d1) (setTicks (x_now X) (c_ticks n) c), h1)"
    using True a by (simp add: mergeCondition_defs assms(4,5))
  show ?thesis
    unfolding m merges_def accounts_def
    using e ap assms(4) by (simp add: same_identity_def hides_def gives_def kept_def)
next
  case False
  hence "mergeCondition X n c h = (c, h)"
    by (simp add: mergeCondition_defs assms(4,5))
  with assms(2) merges_plain show ?thesis by simp
qed

lemma merge_damage:
  assumes "sized c" "c_data c = ConditionDamage d"
  shows "merges b h c (add_damage X n nd c d h)"
proof (cases "c_type n \<noteq> c_type c \<or> \<not> damage_update n nd c d")
  case True
  with assms(1) merges_plain show ?thesis by (auto simp: add_damage_def)
next
  case False
  let ?d = "d\<lparr>owner := owner nd, maxDamage := maxDamage nd, minDamage := minDamage nd,
     startDamage := startDamage nd, tickInterval := tickInterval nd,
     periodDamage := periodDamage nd, damageList := damageList nd\<rparr>"
  let ?c = "setTicks (x_now X) (c_ticks n) c"
  obtain ok c1 d1 where i: "init_damage X (?c, ?d) = (ok, c1, d1)"
    by (cases "init_damage X (?c, ?d)")
  have head: "same_head c c1"
    by (rule same_head_trans [OF _ same_head_init [OF i]]) simp
  have "\<exists>c' h' d'. add_damage X n nd c d h = (c', h') \<and> same_vars h h' \<and> c' = with_data (ConditionDamage d') c1"
  proof (cases ok)
    case True
    then obtain e where e: "add_damage X n nd c d h = snd (damage_next X c1 e h)"
      using False i by (simp add: add_damage_def Let_def)
    obtain k c' h' where "damage_next X c1 e h = (k, c', h')"
      by (cases "damage_next X c1 e h")
    with e damage_next_laws [OF this] show ?thesis by auto
  qed (use False i in \<open>auto simp: add_damage_def Let_def\<close>)
  then obtain c' h' d' where "add_damage X n nd c d h = (c', h')" "same_vars h h'"
    "c' = with_data (ConditionDamage d') c1"
    by blast
  with accounts_damage [OF this(2) head this(3) assms(2)] show ?thesis
    by (simp add: merges_def)
qed

lemma merge_speed:
  assumes "sized c" "c_data c = ConditionSpeed d" "c_data n = ConditionSpeed nd"
  shows "merges b h c (mergeCondition X n c h)"
proof (cases "c_type c \<noteq> c_type n \<or> (c_ticks c = -1 \<and> 0 < sint (c_ticks n))")
  case True
  hence "mergeCondition X n c h = (c, h)"
    by (auto simp: mergeCondition_defs assms)
  with assms(1) merges_plain show ?thesis by simp
next
  case False
  let ?d = "draw_speed X h nd"
  have m: "mergeCondition X n c h = (with_data (ConditionSpeed ?d) (setTicks (x_now X) (c_ticks n) c),
      if speedDelta ?d - speedDelta d \<noteq> 0 then changeSpeed (speedDelta ?d - speedDelta d) h else h)"
    using False by (auto simp: mergeCondition_defs assms Let_def)
  have "kept h (changeSpeed v h)" "h_visible (changeSpeed v h) = h_visible h" for v
    by (simp_all add: changeSpeed_def Let_def kept_def)
  thus ?thesis
    unfolding m merges_def accounts_def
    using assms by (simp add: same_identity_def hides_def gives_def var_of_changeSpeed kept_def)
qed

lemma merge_laws:
  assumes "sized_host h" "sized c" "sized n"
  shows "merges b h c (mergeCondition X n c h)"
proof (cases "class_no (c_data c) = class_no (c_data n)")
  case True
  show ?thesis
  proof (cases "c_data c")
    case (ConditionAttributes d)
    with True obtain nd where "c_data n = ConditionAttributes nd" by (cases "c_data n") auto
    with assms ConditionAttributes show ?thesis by (simp add: merge_attributes)
  next
    case (ConditionDamage d)
    with True obtain nd where "c_data n = ConditionDamage nd" by (cases "c_data n") auto
    with assms ConditionDamage merge_damage [OF assms(2) ConditionDamage] show ?thesis
      by (simp add: mergeCondition_defs Let_def)
  next
    case (ConditionSpeed d)
    with True obtain nd where "c_data n = ConditionSpeed nd" by (cases "c_data n") auto
    with assms ConditionSpeed show ?thesis by (simp add: merge_speed)
  qed (use True assms in \<open>cases "c_data n"; auto simp: mergeCondition_defs Let_def same_identity_def hides_def
         gives_def kept_def intro!: merges_quiet\<close>)+
next
  case False
  hence "mergeCondition X n c h \<in> {(setTicks (x_now X) (c_ticks n) c, h), (c, h)}"
    by (cases "c_data c"; cases "c_data n"; simp add: mergeCondition_defs Let_def)
  with assms merges_plain show ?thesis by auto
qed

end
