(* ===== verification/AfflictionTheorems.thy ===== *)
theory AfflictionTheorems imports AfflictionProps begin

text \<open>
  What the list of conditions of a creature keeps, whatever is added, removed and executed:
  the bonuses of the creature are the sums over its conditions, it is visible when no condition
  hides it, and no two conditions have the same type, id and subid.
\<close>

section \<open>The invariant\<close>

definition fair :: "condition \<Rightarrow> bool" where
  "fair c \<longleftrightarrow> sized c \<and> (hides c \<longleftrightarrow> c_type c = CONDITION_INVISIBLE)"

definition key_of :: "condition \<Rightarrow> u32 \<times> condition_id \<times> u32" where
  "key_of c = (c_type c, c_id c, c_subId c)"

definition total :: "bonus \<Rightarrow> bool \<Rightarrow> condition list \<Rightarrow> u32" where
  "total b player cs = sum_list (map (gives b player) cs)"

definition books_of :: "(bonus \<Rightarrow> u32) \<Rightarrow> condition list \<Rightarrow> host \<Rightarrow> bool" where
  "books_of k cs h \<longleftrightarrow>
     sized_host h \<and> list_all fair cs \<and> (\<forall>b. var_of b h = k b + total b (h_player h) cs) \<and>
     h_visible h = (\<not> list_ex hides cs) \<and> distinct (map key_of cs)"

definition well_kept :: "(bonus \<Rightarrow> u32) \<Rightarrow> host \<Rightarrow> bool" where
  "well_kept k h \<longleftrightarrow> books_of k (h_conditions h) h"

lemma total_simps [simp]:
  "total b p [] = 0" "total b p (c # cs) = gives b p c + total b p cs"
  "total b p (cs @ ds) = total b p cs + total b p ds"
  by (simp_all add: total_def)

lemma books_of_frames [simp]:
  "books_of k cs (h\<lparr>h_conditions := ds\<rparr>) = books_of k cs h"
  "books_of k cs (schedule t call h) = books_of k cs h"
  "h_conditions (schedule t call h) = h_conditions h"
  by (simp_all add: books_of_def sized_host_def schedule_def)

lemma same_vars_books: "same_vars h h' \<Longrightarrow> books_of k cs h \<Longrightarrow> books_of k cs h'"
  using same_vars_var [of h h'] by (simp add: books_of_def sized_host_def same_vars_def kept_def)

lemma books_of_same:
  assumes "same_identity c c'" "sized c'" "\<And>b. gives b (h_player h) c' = gives b (h_player h) c"
  shows "books_of k (cs @ c # ds) h \<Longrightarrow> books_of k (cs @ c' # ds) h"
  using assms by (simp add: books_of_def fair_def same_identity_def key_of_def)

lemma invisible_fair: "list_all fair (h_conditions h) \<Longrightarrow> isInvisible h = list_ex hides (h_conditions h)"
  by (simp add: isInvisible_def list_all_iff list_ex_iff fair_def)

lemma drop_books:
  assumes "books_of k (cs @ c # ds) h"
  shows "books_of k (cs @ ds) (drop_condition X cs c ds h) \<and> h_conditions (drop_condition X cs c ds h) = cs @ ds"
proof -
  let ?h = "h\<lparr>h_conditions := cs @ ds\<rparr>"
  have "sized_host ?h" "sized c"
    using assms by (simp_all add: books_of_def sized_host_def fair_def)
  note e = end_laws [OF this, of X]
  have "isInvisible ?h = list_ex hides (cs @ ds)"
    using assms invisible_fair [of ?h] by (simp add: books_of_def)
  hence vis: "h_visible (endCondition X c ?h) = (\<not> list_ex hides (cs @ ds))"
    using e assms by (auto simp: books_of_def)
  have "sized_host (endCondition X c ?h)"
    using e \<open>sized_host ?h\<close> by (simp add: kept_def sized_host_def)
  moreover have "var_of b (endCondition X c ?h) = k b + total b (h_player (endCondition X c ?h)) (cs @ ds)" for b
    using e [of b] assms by (simp add: books_of_def kept_def)
  ultimately show ?thesis
    using assms vis e by (simp add: drop_condition_def books_of_def kept_def)
qed

section \<open>Removing\<close>

lemma remove_loop_kept:
  "books_of k (cs @ ds) h \<Longrightarrow> h_conditions h = cs @ ds \<Longrightarrow> well_kept k (remove_loop X sel t force cs ds h)"
proof (induction ds arbitrary: cs h)
  case (Cons c ds)
  show ?case
    using Cons.prems Cons.IH [of "cs @ [c]" h] Cons.IH [of cs "drop_condition X cs c ds h"]
      drop_books [OF Cons.prems(1), of X]
    by (simp add: well_kept_def)
qed (simp add: well_kept_def)

lemma removeType_kept: "well_kept k h \<Longrightarrow> well_kept k (removeConditionType X t force h)"
  by (simp add: removeConditionType_def well_kept_def remove_loop_kept [unfolded well_kept_def])

lemma removeId_kept: "well_kept k h \<Longrightarrow> well_kept k (removeConditionId X t cid force h)"
  by (simp add: removeConditionId_def well_kept_def remove_loop_kept [unfolded well_kept_def])

lemma death_loop_kept:
  "books_of k (cs @ ds) h \<Longrightarrow> h_conditions h = cs @ ds \<Longrightarrow> well_kept k (death_loop X cs ds h)"
proof (induction ds arbitrary: cs h)
  case (Cons c ds)
  show ?case
    using Cons.prems Cons.IH [of "cs @ [c]" h] Cons.IH [of cs "drop_condition X cs c ds h"]
      drop_books [OF Cons.prems(1), of X]
    by simp
qed (simp add: well_kept_def)

lemma removeCondition_kept:
  assumes "books_of k (cs @ c # ds) h" "h_conditions h = cs @ c # ds"
  shows "well_kept k (removeCondition X cs c ds force h) \<and>
    h_conditions (removeCondition X cs c ds force h) \<in> {cs @ c # ds, cs @ ds}"
  using assms drop_books [OF assms(1), of X] by (simp add: removeCondition_def well_kept_def)

lemma combatRemove_kept:
  assumes "books_of k (cs @ c # ds) h" "h_conditions h = cs @ c # ds"
  shows "well_kept k (onCombatRemoveCondition X cs c ds h) \<and>
    (\<exists>c'. h_conditions (onCombatRemoveCondition X cs c ds h) \<in> {cs @ c' # ds, cs @ ds})"
proof -
  have "books_of k (cs @ setTicks now t c # ds) h" for now t
  proof (rule books_of_same [OF _ _ _ assms(1)])
    have head: "same_head c (setTicks now t c)" by simp
    show "same_identity c (setTicks now t c)" by (rule same_head_identity [OF head])
    show "sized (setTicks now t c)"
      using assms(1) same_head_simps(2) [OF head] by (simp add: books_of_def fair_def)
    show "gives b (h_player h) (setTicks now t c) = gives b (h_player h) c" for b
      by (rule same_head_simps(1) [OF head])
  qed
  thus ?thesis
    using assms removeCondition_kept [OF assms, of X False]
    by (auto simp: onCombatRemoveCondition_def well_kept_def Let_def split: option.split)
qed

lemma combat_loop_kept:
  "well_kept k h \<Longrightarrow> i + n = length (h_conditions h) \<Longrightarrow> well_kept k (combat_loop X t i n h)"
proof (induction n arbitrary: i h)
  case (Suc n)
  let ?c = "h_conditions h ! i" and ?cs = "take i (h_conditions h)" and ?ds = "drop (Suc i) (h_conditions h)"
  have split: "h_conditions h = ?cs @ ?c # ?ds"
    using Suc.prems(2) by (simp add: id_take_nth_drop)
  hence "books_of k (?cs @ ?c # ?ds) h"
    using Suc.prems(1) by (simp add: well_kept_def)
  note r = combatRemove_kept [OF this split, of X]
  have "length (h_conditions (onCombatRemoveCondition X ?cs ?c ?ds h)) \<in> {i + Suc n, i + n}"
    using r Suc.prems(2) by auto
  with r Suc show ?case
    by (auto simp: Let_def)
qed simp

section \<open>Adding\<close>

lemma onAdd_kept: "well_kept k h \<Longrightarrow> well_kept k (onAddCondition X t h)"
  by (simp add: onAddCondition_def removeType_kept)

lemma key_same: "same_key n c \<longleftrightarrow> key_of c = key_of n"
  by (auto simp: same_key_def key_of_def)

lemma start_visible: "startCondition X c h = (False, c', h') \<Longrightarrow> \<not> hides c"
  by (auto simp: startCondition_defs hides_def)

lemma addCondition_kept:
  assumes "well_kept k h" "fair n"
  shows "well_kept k (snd (addCondition X n force h))"
proof (cases "\<not> force \<and> c_type n = CONDITION_HASTE \<and> hasCondition X CONDITION_PARALYZE 0 h \<and> 0 < x_walkDelay X")
  case True
  thus ?thesis using assms(1) by (simp add: addCondition_def well_kept_def)
next
  case free: False
  show ?thesis
  proof (cases "List.extract (same_key n) (h_conditions h)")
    case None
    obtain ok c h1 where s: "startCondition X n h = (ok, c, h1)"
      by (cases "startCondition X n h")
    have "sized_host h" "sized n"
      using assms by (simp_all add: well_kept_def books_of_def fair_def)
    note l = start_laws [OF this s]
    have new: "key_of c \<notin> key_of ` set (h_conditions h)"
      using None l by (auto simp: extract_None_iff key_same same_identity_def key_of_def image_iff)
    have "books_of k (h_conditions h @ [c]) h1" if ok
      using that assms l new
      by (simp add: well_kept_def books_of_def kept_def sized_host_def fair_def same_identity_def)
    moreover have "books_of k (h_conditions h) h1" if "\<not> ok"
      using that assms l start_visible [of X n h c h1] s
      by (simp add: well_kept_def books_of_def kept_def sized_host_def)
    moreover have "h_conditions h1 = h_conditions h"
      using l by (simp add: kept_def)
    ultimately show ?thesis
      using None free s by (auto simp: addCondition_def well_kept_def intro: onAdd_kept [unfolded well_kept_def])
  next
    case (Some r)
    obtain cs c ds where r: "r = (cs, c, ds)" by (cases r)
    have split: "h_conditions h = cs @ c # ds"
      using Some r by (simp add: extract_Some_iff)
    hence b: "books_of k (cs @ c # ds) h"
      using assms(1) by (simp add: well_kept_def)
    obtain c' h1 where m: "mergeCondition X n c h = (c', h1)"
      by (cases "mergeCondition X n c h")
    have "sized_host h" "sized c" "sized n"
      using b assms(2) by (simp_all add: books_of_def fair_def)
    note l = merge_laws [OF this, of _ X, unfolded m merges_def accounts_def fst_conv snd_conv]
    have var: "var_of b h1 = var_of b h - gives b (h_player h) c + gives b (h_player h) c'" for b
      using l [of b] by (simp add: algebra_simps)
    have "books_of k (cs @ c' # ds) h1"
      using b l var
      by (simp add: books_of_def kept_def sized_host_def fair_def same_identity_def key_of_def)
    thus ?thesis
      using Some r free m by (auto simp: addCondition_def well_kept_def)
  qed
qed

section \<open>Executing\<close>

lemma execute_loop_kept:
  "books_of k (cs @ ds) h \<Longrightarrow> h_conditions h = cs @ ds \<Longrightarrow> well_kept k (execute_loop X i cs ds h)"
proof (induction ds arbitrary: cs h)
  case (Cons c ds)
  obtain alive c' h' where e: "executeCondition X i c h = (alive, c', h')"
    by (cases "executeCondition X i c h")
  have "sized c"
    using Cons.prems(1) by (simp add: books_of_def fair_def)
  note l = execute_laws [OF this e]
  have "books_of k (cs @ c' # ds) h'"
    using books_of_same [OF _ _ _ same_vars_books [OF _ Cons.prems(1)]] l by blast
  thus ?case
    using drop_books [of k cs c' ds h' X] Cons.IH [of "cs @ [c']" "h'\<lparr>h_conditions := cs @ c' # ds\<rparr>"]
      Cons.IH [of cs "drop_condition X cs c' ds h'"]
    by (simp add: e)
qed (simp add: well_kept_def)

fun fair_op :: "affliction_op \<Rightarrow> bool" where
  "fair_op (AddCondition n force) = fair n"
| "fair_op _ = True"

lemma affliction_step_kept:
  assumes "well_kept k h" "fair_op (snd p)"
  shows "well_kept k (affliction_step p h)"
proof -
  obtain X op where p: "p = (X, op)" by (cases p)
  have "well_kept k (execute_loop X i [] (h_conditions h) h)" "well_kept k (death_loop X [] (h_conditions h) h)" for i
    using assms(1) execute_loop_kept [of k "[]"] death_loop_kept [of k "[]"] by (simp_all add: well_kept_def)
  thus ?thesis
    using assms removeType_kept removeId_kept addCondition_kept combat_loop_kept [of k h 0 "length (h_conditions h)"]
    by (cases op) (simp_all add: p affliction_step_def forceAddCondition_def forceRemoveCondition_def
        removeCombatCondition_def removePersistent_def executeConditions_def)
qed

interpretation affliction_machine:
  step_machine "\<lambda>p h. if fair_op (snd p) then affliction_step p h else h" "well_kept k" for k
  by unfold_locales (simp add: affliction_step_kept)

lemma fold_kept: "well_kept k h \<Longrightarrow> list_all (fair_op \<circ> snd) ops \<Longrightarrow> well_kept k (fold affliction_step ops h)"
proof -
  assume "well_kept k h" "list_all (fair_op \<circ> snd) ops"
  hence "fold (\<lambda>p h. if fair_op (snd p) then affliction_step p h else h) ops h = fold affliction_step ops h"
    by (induction ops arbitrary: h) (auto simp: affliction_step_kept)
  with affliction_machine.run_inv [OF \<open>well_kept k h\<close>, of ops] show ?thesis by simp
qed

lemma healthy_kept:
  "sized_host h \<Longrightarrow> h_conditions h = [] \<Longrightarrow> h_visible h \<Longrightarrow> well_kept (\<lambda>b. var_of b h) h"
  by (simp add: well_kept_def books_of_def)

section \<open>Alive after they were executed\<close>

definition alive :: "cond_env \<Rightarrow> condition \<Rightarrow> bool" where
  "alive X c \<longleftrightarrow> c_ticks c = -1 \<or> x_now X \<le> c_endTime c"

lemma end_list [simp]: "h_conditions (endCondition X c h) = h_conditions h"
proof -
  have "h_conditions (updateStats X vs h1) = h_conditions h1" for vs h1
    using but_stats_updateStats [of h1 X vs] by (simp add: but_stats_def kept_def)
  thus ?thesis
    by (cases "c_data c") (simp_all add: endCondition_defs end_attributes_def Let_def changeSpeed_def)
qed

lemma drop_list [simp]: "h_conditions (drop_condition X cs c ds h) = cs @ ds"
  by (simp add: drop_condition_def)

lemma execute_alive: "executeCondition X i c h = (True, c', h') \<Longrightarrow> alive X c'"
  by (auto simp: executeCondition_def alive_def Let_def split: prod.splits dest!: base_execute_cases)

lemma execute_loop_alive:
  "list_all (alive X) cs \<Longrightarrow> h_conditions h = cs @ ds \<Longrightarrow> list_all (alive X) (h_conditions (execute_loop X i cs ds h))"
proof (induction ds arbitrary: cs h)
  case (Cons c ds)
  obtain ok c' h' where e: "executeCondition X i c h = (ok, c', h')"
    by (cases "executeCondition X i c h")
  show ?case
    using Cons.prems Cons.IH [of "cs @ [c']" "h'\<lparr>h_conditions := cs @ c' # ds\<rparr>"]
      Cons.IH [of cs "drop_condition X cs c' ds h'"] execute_alive [of X i c h c' h'] e
    by (cases ok) simp_all
qed simp

section \<open>Haste and paralysis\<close>

lemma remove_loop_all:
  "\<not> must_wait X t force \<Longrightarrow> h_conditions h = cs @ ds \<Longrightarrow>
   h_conditions (remove_loop X sel t force cs ds h) = cs @ filter (\<lambda>c. \<not> sel c) ds"
proof (induction ds arbitrary: cs h)
  case (Cons c ds)
  thus ?case
    using Cons.IH [of h "cs @ [c]"] Cons.IH [of "drop_condition X cs c ds h" cs] by simp
qed simp

lemma removeType_all:
  "\<not> must_wait X t force \<Longrightarrow> h_conditions (removeConditionType X t force h) = filter (\<lambda>c. c_type c \<noteq> t) (h_conditions h)"
  by (simp add: removeConditionType_def remove_loop_all)

lemma updateStats_frames [simp]:
  "h_conditions (updateStats X vs h) = h_conditions h" "h_monster (updateStats X vs h) = h_monster h"
  using but_stats_updateStats [of h X vs] by (simp_all add: but_stats_def kept_def)

lemma start_frames:
  assumes "startCondition X c h = (ok, c', h')"
  shows "h_conditions h' = h_conditions h \<and> h_monster h' = h_monster h \<and> c_type c' = c_type c"
proof (cases "c_data c")
  case (ConditionAttributes d)
  thus ?thesis
    using assms by (auto simp: startCondition_defs apply_attributes_def updateSkills_def Let_def split: if_splits)
next
  case (ConditionDamage d)
  obtain ok0 c0 d0 where i: "init_damage X (base_start X c, d) = (ok0, c0, d0)"
    by (cases "init_damage X (base_start X c, d)")
  have "same_head c c0"
    by (rule same_head_trans [OF _ same_head_init [OF i]]) simp
  thus ?thesis
    using assms ConditionDamage i
    by (auto simp: startCondition_defs Let_def same_vars_def kept_def same_head_def split: if_splits
        dest!: damage_next_laws)
qed (use assms in \<open>auto simp: startCondition_defs Let_def changeSpeed_def\<close>)

section \<open>Properties\<close>

text \<open>A hasted player and what happens to him, to apply the theorems to.\<close>

definition demo_host :: host where
  "demo_host =
     \<lparr>h_player = True, h_monster = False, h_baseSpeed = 220, h_varSpeed = 0,
      h_varSkills = replicate 7 0, h_varSpecialSkills = replicate 6 0, h_varStats = replicate 4 0,
      h_useDefense = True, h_visible = True, h_health = 150, h_healthMax = 150, h_mana = 0, h_manaMax = 0,
      h_soul = 0, h_soulMax = 100, h_light = (0, 0), h_normalLight = (0, 0), h_outfit = new_outfit,
      h_defaultOutfit = new_outfit, h_damage = [], h_conditions = [], h_scheduled = []\<rparr>"

definition demo_env :: "int \<Rightarrow> cond_env" where
  "demo_env now =
     \<lparr>x_now = now, x_protection = False, x_walkDelay = 0, x_suppressed = 0, x_nextAction = None,
      x_field = None, x_random = (\<lambda>lo hi. lo), x_percent = (\<lambda>base p. 0), x_formula = (\<lambda>d v. (0, 0)),
      x_closer = closer_exact, x_baseSkill = (\<lambda>i. 10), x_magicLevel = 0,
      x_playerId = (\<lambda>i. False), x_combat = (\<lambda>t v. True), x_infiniteMana = False\<rparr>"

definition demo_haste :: condition where
  "demo_haste = base_condition (ConditionSpeed (new_speed 40)) CONDITIONID_COMBAT CONDITION_HASTE 5000 False 0"

definition demo_paralysis :: condition where
  "demo_paralysis = base_condition (ConditionSpeed (new_speed (-100))) CONDITIONID_COMBAT CONDITION_PARALYZE 5000 False 0"

definition demo_ops :: "(cond_env \<times> affliction_op) list" where
  "demo_ops =
     [(demo_env 0, AddCondition demo_haste False), (demo_env 1000, ExecuteAll 1000),
      (demo_env 2000, AddCondition demo_paralysis False), (demo_env 9000, ExecuteAll 1000)]"

lemmas demo_defs = demo_host_def demo_env_def demo_haste_def demo_paralysis_def base_condition_def

lemma demo_facts:
  "sized_host demo_host" "h_conditions demo_host = []" "h_visible demo_host" "\<not> h_monster demo_host"
  "list_all (fair_op \<circ> snd) demo_ops" "c_type demo_paralysis = CONDITION_PARALYZE"
  by (simp_all add: demo_ops_def demo_defs sized_host_def fair_def sized_def hides_def condition_type_defs)

text \<open>
  C21. Whatever conditions are added to a creature, merged, removed, dispelled and executed, its
  speed, skills, special skills and stats are those it began with and the sum of what its
  present conditions give: when they are gone, it has its own again.
\<close>
theorem conditions_give_back:
  assumes "sized_host h" "h_conditions h = []" "h_visible h" "list_all (fair_op \<circ> snd) ops"
  shows "var_of b (fold affliction_step ops h) =
    var_of b h + total b (h_player (fold affliction_step ops h)) (h_conditions (fold affliction_step ops h))"
  using fold_kept [OF healthy_kept [OF assms(1,2,3)] assms(4)] by (simp add: well_kept_def books_of_def)

theorem conditions_give_back_witness:
  "var_of Speed (fold affliction_step demo_ops demo_host) =
   var_of Speed demo_host +
   total Speed (h_player (fold affliction_step demo_ops demo_host)) (h_conditions (fold affliction_step demo_ops demo_host))"
  by (rule conditions_give_back [OF demo_facts(1,2,3,5)])

text \<open>
  C27. No two conditions of a creature have the same type, id and subid, and the creature is
  visible exactly when none of its conditions is one of invisibility.
\<close>
theorem conditions_unique_and_hidden:
  assumes "sized_host h" "h_conditions h = []" "h_visible h" "list_all (fair_op \<circ> snd) ops"
  shows "distinct (map key_of (h_conditions (fold affliction_step ops h))) \<and>
    h_visible (fold affliction_step ops h) = (\<not> isInvisible (fold affliction_step ops h))"
  using fold_kept [OF healthy_kept [OF assms(1,2,3)] assms(4)] invisible_fair
  by (simp add: well_kept_def books_of_def)

theorem conditions_unique_and_hidden_witness:
  "distinct (map key_of (h_conditions (fold affliction_step demo_ops demo_host))) \<and>
   h_visible (fold affliction_step demo_ops demo_host) = (\<not> isInvisible (fold affliction_step demo_ops demo_host))"
  by (rule conditions_unique_and_hidden [OF demo_facts(1,2,3,5)])

text \<open>
  After the conditions of a creature were executed, every one that is left is endless or
  ends now or later; the others ended in that round.
\<close>
theorem executed_conditions_are_alive:
  "list_all (alive X) (h_conditions (executeConditions X interval h))"
  by (simp add: executeConditions_def execute_loop_alive)

definition demo_hasted :: host where
  "demo_hasted = demo_host\<lparr>h_varSpeed := 40, h_conditions := [demo_haste\<lparr>c_endTime := 5000\<rparr>]\<rparr>"

definition demo_paralysed :: host where
  "demo_paralysed = demo_host\<lparr>h_varSpeed := -100, h_conditions := [demo_paralysis\<lparr>c_endTime := 5000\<rparr>]\<rparr>"

lemma demo_paralysis_added:
  "List.extract (same_key demo_paralysis) (h_conditions demo_hasted) = None"
  "\<not> h_monster demo_hasted"
  "addCondition (demo_env 0) demo_paralysis False demo_hasted = (True, demo_paralysed)"
  by (simp_all add: addCondition_def demo_hasted_def demo_paralysed_def demo_defs condition_type_defs
      startCondition_defs base_start_def draw_speed_def new_speed_def with_data_def changeSpeed_def Let_def
      onAddCondition_def hasCondition_def extract_Nil_code extract_Cons_code same_key_def
      removeConditionType_def must_wait_def drop_condition_def endCondition_defs)

text \<open>
  A new paralysis takes away the haste of a player or NPC: afterwards the creature has no
  haste and the paralysis is in its list, as it was started.
\<close>
theorem paralysis_ends_haste:
  assumes "addCondition X n force h = (True, h')" "c_type n = CONDITION_PARALYZE" "\<not> h_monster h"
    "List.extract (same_key n) (h_conditions h) = None"
  shows "\<not> hasCondition X CONDITION_HASTE 0 h' \<and> fst (snd (startCondition X n h)) \<in> set (h_conditions h')"
proof -
  have ne: "CONDITION_PARALYZE \<noteq> CONDITION_HASTE"
    by (simp add: condition_type_defs)
  obtain ok c h1 where s: "startCondition X n h = (ok, c, h1)"
    by (cases "startCondition X n h")
  note f = start_frames [OF s]
  let ?h = "h1\<lparr>h_conditions := h_conditions h1 @ [c]\<rparr>"
  have h': "h' = onAddCondition X CONDITION_PARALYZE ?h"
    using assms(1,2,4) ne s f by (auto simp: addCondition_def split: if_splits)
  show ?thesis
  proof (cases "hasCondition X CONDITION_HASTE 0 ?h")
    case True
    hence "h' = removeConditionType X CONDITION_HASTE False ?h"
      using h' f assms(3) by (simp add: onAddCondition_def)
    hence "h_conditions h' = filter (\<lambda>c. c_type c \<noteq> CONDITION_HASTE) (h_conditions ?h)"
      using removeType_all [of X CONDITION_HASTE False ?h] ne by (simp add: must_wait_def)
    thus ?thesis
      using f s ne assms(2) by (auto simp: hasCondition_def list_ex_iff)
  next
    case False
    hence "h' = ?h"
      using h' f ne by (simp add: onAddCondition_def)
    with False s show ?thesis by simp
  qed
qed

theorem paralysis_ends_haste_witness:
  "\<not> hasCondition (demo_env 0) CONDITION_HASTE 0 demo_paralysed \<and>
   fst (snd (startCondition (demo_env 0) demo_paralysis demo_hasted)) \<in> set (h_conditions demo_paralysed)"
  by (rule paralysis_ends_haste [OF demo_paralysis_added(3) demo_facts(6) demo_paralysis_added(2,1)])

end
