(* ===== verification/DamageFloats.thy ===== *)
theory DamageFloats imports Complex_Main DamageList begin

text \<open>
  The comparison that ends a round of \<open>ConditionDamage::generateDamageList\<close>, in the floating point
  of the code: the quotients are rounded to \<open>float\<close>, their distances from 1 to \<open>double\<close>. The two
  roundings are arguments; what is used of them is what rounding to nearest gives in both formats.
\<close>

definition float_sum :: "(rat \<Rightarrow> rat) \<Rightarrow> int \<Rightarrow> int \<Rightarrow> rat" where
  "float_sum fl s i = fl (fl (of_int s) + fl (of_int i))"

definition closer_float :: "(rat \<Rightarrow> rat) \<Rightarrow> (rat \<Rightarrow> rat) \<Rightarrow> closeness" where
  "closer_float fl dbl i s med \<longleftrightarrow>
     med \<noteq> 0 \<and>
     \<bar>dbl (1 - fl (float_sum fl s i / fl (of_int med)))\<bar> < \<bar>dbl (1 - fl (fl (of_int s) / fl (of_int med)))\<bar>"

text \<open>
  A division by zero gives infinity on both sides, and the comparison is false. A rounding with
  \<open>p\<close> bits is monotone, keeps what it has rounded and integers of at most \<open>p\<close> bits, and errs
  by at most half a unit of the last place on numbers up to 1.
\<close>

definition rounding :: "nat \<Rightarrow> (rat \<Rightarrow> rat) \<Rightarrow> bool" where
  "rounding p r \<longleftrightarrow>
     mono r \<and> (\<forall>x. r (r x) = r x) \<and> (\<forall>k. \<bar>k\<bar> \<le> 2 ^ p \<longrightarrow> r (of_int k) = of_int k) \<and>
     (\<forall>x. 0 \<le> x \<and> x \<le> 1 \<longrightarrow> \<bar>r x - x\<bar> \<le> 1 / 2 ^ Suc p)"

lemma rounding_mono: "rounding p r \<Longrightarrow> x \<le> y \<Longrightarrow> r x \<le> r y"
  by (simp add: rounding_def monoD)

lemma rounding_int: "rounding p r \<Longrightarrow> \<bar>k\<bar> \<le> 2 ^ p \<Longrightarrow> r (of_int k) = of_int k"
  by (simp add: rounding_def)

lemma rounding_01: "rounding p r \<Longrightarrow> r 0 = 0 \<and> r 1 = 1"
  using rounding_int [of p r 0] rounding_int [of p r 1] by simp

lemma rounding_error: "rounding p r \<Longrightarrow> 0 \<le> x \<Longrightarrow> x \<le> 1 \<Longrightarrow> \<bar>r x - x\<bar> \<le> 1 / 2 ^ Suc p"
  by (simp add: rounding_def)

text \<open>Beyond \<open>med\<close>, more is never closer.\<close>

lemma closer_below:
  assumes fl: "rounding p fl" and dbl: "rounding q dbl" and "0 < i" "0 \<le> med"
    and "closer_float fl dbl i s med"
  shows "s < med"
proof (rule ccontr)
  assume "\<not> s < med"
  then have le: "med \<le> s" "0 < med" using assms(4,5) by (auto simp: closer_float_def)
  let ?m = "fl (of_int med)" and ?s = "fl (of_int s)"
  have "1 \<le> ?m" using rounding_mono [OF fl, of 1 "of_int med"] rounding_01 [OF fl] le(2) by simp
  moreover have "?m \<le> ?s" using rounding_mono [OF fl] le(1) by simp
  moreover have "?s \<le> float_sum fl s i"
  proof -
    have "0 \<le> fl (of_int i)" using rounding_mono [OF fl, of 0 "of_int i"] rounding_01 [OF fl] assms(3) by simp
    then have "fl ?s \<le> float_sum fl s i"
      unfolding float_sum_def by (intro rounding_mono [OF fl]) simp
    then show ?thesis using fl by (simp add: rounding_def)
  qed
  ultimately have "1 \<le> ?s / ?m" "?s / ?m \<le> float_sum fl s i / ?m"
    by (simp_all add: divide_right_mono)
  then have "1 \<le> fl (?s / ?m)" "fl (?s / ?m) \<le> fl (float_sum fl s i / ?m)"
    using rounding_mono [OF fl] rounding_01 [OF fl] by metis+
  then have "dbl (1 - fl (float_sum fl s i / ?m)) \<le> dbl (1 - fl (?s / ?m))" "dbl (1 - fl (?s / ?m)) \<le> dbl 0"
    by (simp_all add: rounding_mono [OF dbl])
  then show False using assms(5) rounding_01 [OF dbl] by (simp add: closer_float_def)
qed

text \<open>Below \<open>med\<close>, one more is always closer, as long as the quotients can be told apart.\<close>

lemma closer_one:
  assumes fl: "rounding 24 fl" and dbl: "rounding 53 dbl" and "0 \<le> s" "s < med" "med \<le> 2 ^ 23"
  shows "closer_float fl dbl 1 s med"
proof -
  define a b where ab: "a = (of_int s :: rat) / of_int med" "b = (of_int (s + 1) :: rat) / of_int med"
  have ints: "fl (of_int s) = of_int s" "fl (of_int med) = of_int med" "fl (of_int 1) = of_int 1"
      "fl (of_int (s + 1)) = of_int (s + 1)"
    using assms(3-5) by (intro rounding_int [OF fl]; simp)+
  then have sum: "float_sum fl s 1 = of_int (s + 1)" by (simp add: float_sum_def)
  have m: "0 < (of_int med :: rat)" "of_int med \<le> (2 ^ 23 :: rat)"
    using assms(3-5) of_int_le_iff [of med "2 ^ 23", where 'a = rat] by simp_all
  have "of_int (s + 1) \<le> (of_int med :: rat)" using assms(4) by (metis of_int_le_iff zless_imp_add1_zle)
  then have bounds: "0 \<le> a" "b \<le> 1" "b - a = 1 / of_int med"
    using m(1) assms(3) by (simp_all add: ab field_simps)
  have "1 / (2 ^ 23 :: rat) \<le> 1 / of_int med" using m by (intro divide_left_mono) simp_all
  then have gap: "a + 1 / 2 ^ 23 \<le> b" using bounds(3) by simp
  have "\<bar>fl a - a\<bar> \<le> 1 / 2 ^ 25" "\<bar>fl b - b\<bar> \<le> 1 / 2 ^ 25"
    using rounding_error [OF fl, of a] rounding_error [OF fl, of b] bounds gap by simp_all
  then have "fl a \<le> a + 1 / 2 ^ 25" "b - 1 / 2 ^ 25 \<le> fl b"
    unfolding abs_diff_le_iff by simp_all
  moreover have "0 \<le> fl a" "fl b \<le> 1"
    using rounding_mono [OF fl, of 0 a] rounding_mono [OF fl, of b 1] rounding_01 [OF fl] bounds(1,2) by simp_all
  ultimately have f: "fl a + 1 / 2 ^ 24 \<le> fl b" "0 \<le> fl a" "fl b \<le> 1"
    using gap by simp_all
  let ?x = "1 - fl b" and ?y = "1 - fl a"
  have "\<bar>dbl ?x - ?x\<bar> \<le> 1 / 2 ^ 54" "\<bar>dbl ?y - ?y\<bar> \<le> 1 / 2 ^ 54"
    using rounding_error [OF dbl, of ?x] rounding_error [OF dbl, of ?y] f by simp_all
  then have "dbl ?x \<le> ?x + 1 / 2 ^ 54" "?y - 1 / 2 ^ 54 \<le> dbl ?y"
    unfolding abs_diff_le_iff by simp_all
  moreover have "0 \<le> dbl ?x"
    using rounding_mono [OF dbl, of 0 ?x] rounding_01 [OF dbl] f by simp
  ultimately have "0 \<le> dbl ?x" "dbl ?x < dbl ?y" using f(1) by simp_all
  then have "\<bar>dbl ?x\<bar> < \<bar>dbl ?y\<bar>" by simp
  then show ?thesis
    using m(1) sum ints(1,2) by (simp add: closer_float_def ab)
qed

text \<open>
  C26. The list of damages of a condition is made after finitely many steps, in the floating point of
  the code: for amounts up to 2 to the 23, where \<open>float\<close> can still tell the quotients apart, and whatever
  monotone rounding to nearest is used, the list falls, has every value from \<open>start\<close> down to 1,
  and its sum is at least the amount asked for and exceeds it by no more than all those values
  together. The sums and products are unbounded here; they are those of the code as long as they fit into
  its 32 bits.
\<close>
theorem damage_list_terminates:
  assumes "rounding 24 fl" "rounding 53 dbl" "\<bar>amount\<bar> \<le> 2 ^ 23" "0 < start"
  shows "\<exists>vs. generateDamageList (closer_float fl dbl) amount start = Some vs \<and> descending vs \<and>
    set vs = {1..start} \<and> \<bar>amount\<bar> \<le> sum_list vs \<and>
    2 * sum_list vs \<le> 2 * \<bar>amount\<bar> + start * (start + 1)"
  using closer_below [OF assms(1,2)] closer_one [OF assms(1,2)] assms(3,4) by (intro damage_list_ends) auto

theorem damage_list_terminates_witness:
  "\<exists>vs. generateDamageList (closer_float (\<lambda>x. x) (\<lambda>x. x)) 100 5 = Some vs \<and> descending vs \<and>
    set vs = {1..5} \<and> \<bar>100\<bar> \<le> sum_list vs \<and> 2 * sum_list vs \<le> 2 * \<bar>100\<bar> + 5 * (5 + 1)"
  by (rule damage_list_terminates) (auto simp: rounding_def mono_def)

end
