(* ===== verification/GameView.thy ===== *)
theory GameView imports TileQuery begin

text \<open>
  What a client is told of the map (protocolgame.cpp): the descriptions of tiles, floors and
  regions, the creatures it knows, and what is sent when its player moves. A creature is named by
  its id. A description is the list of what the client reads: the things of a tile,
  and markers, which are the two bytes \<open>k\<close> and 0xFF. The bytes of items and creatures, and what
  a full buffer drops, are left out.
\<close>

section \<open>What a client sees\<close>

definition protocol_canSee :: "position \<Rightarrow> int \<Rightarrow> int \<Rightarrow> int \<Rightarrow> bool" where
  "protocol_canSee me x y z =
     (let mz = uint (pz me); offsetz = mz - z in
      if mz \<le> 7 \<and> 7 < z then False
      else if 8 \<le> mz \<and> 2 < \<bar>mz - z\<bar> then False
      else uint (px me) - 8 + offsetz \<le> x \<and> x \<le> uint (px me) + 9 + offsetz \<and>
           uint (py me) - 6 + offsetz \<le> y \<and> y \<le> uint (py me) + 7 + offsetz)"

section \<open>Known creatures\<close>

text \<open>
  \<open>ke_sees\<close>: the creature with that id is there and can be seen; \<open>ke_order\<close>: the order in
  which the hash set is walked.
\<close>

record known_env =
  ke_sees :: "nat \<Rightarrow> bool"
  ke_order :: "nat list \<Rightarrow> nat list"

definition first_but :: "nat \<Rightarrow> nat list \<Rightarrow> nat" where
  "first_but cid ids = (if hd ids = cid then hd (tl ids) else hd ids)"

text \<open>Known, the creature to forget (0 for none), and the new set.\<close>

definition checkCreatureAsKnown :: "known_env \<Rightarrow> nat \<Rightarrow> nat list \<Rightarrow> bool \<times> nat \<times> nat list" where
  "checkCreatureAsKnown K cid known =
     (if cid \<in> set known then (True, 0, known)
      else
        let known = cid # known in
        if 1300 < length known then
          (case List.find (\<lambda>i. \<not> ke_sees K i) (ke_order K known) of
             Some i \<Rightarrow> (False, i, remove1 i known)
           | None \<Rightarrow> (let i = first_but cid (ke_order K known) in (False, i, remove1 i known)))
        else (False, 0, known))"

section \<open>Tiles\<close>

datatype thing_desc = ItemDesc nat | CreatureDesc nat bool nat

text \<open>The loops return what they described, the count, and whether the function returned.\<close>

fun describe_tops :: "bool \<Rightarrow> nat \<Rightarrow> nat list \<Rightarrow> thing_desc list \<times> nat \<times> bool" where
  "describe_tops own n [] = ([], n, False)"
| "describe_tops own n (x # xs) =
     (if n + 1 = 9 \<and> own then ([ItemDesc x], n + 1, False)
      else if n + 1 = 10 then ([ItemDesc x], n + 1, True)
      else (case describe_tops own (n + 1) xs of (ds, n, stop) \<Rightarrow> (ItemDesc x # ds, n, stop)))"

fun describe_creatures ::
  "known_env \<Rightarrow> (nat \<Rightarrow> bool) \<Rightarrow> nat \<Rightarrow> bool \<Rightarrow> bool \<Rightarrow> nat \<Rightarrow> nat list \<Rightarrow> nat list \<Rightarrow>
   thing_desc list \<times> nat \<times> bool \<times> nat list" where
  "describe_creatures K sees me own added n known [] = ([], n, False, known)"
| "describe_creatures K sees me own added n known (c # cs) =
     (if \<not> sees c then describe_creatures K sees me own added n known cs
      else
        let c = (if own \<and> n = 9 \<and> \<not> added then me else c);
            added = (added \<or> c = me);
            (isKnown, removed, known) = checkCreatureAsKnown K c known;
            d = CreatureDesc c isKnown removed
        in if n + 1 = 10 then ([d], n + 1, True, known)
           else (case describe_creatures K sees me own added (n + 1) known cs of
                   (ds, n, stop, known) \<Rightarrow> (d # ds, n, stop, known)))"

fun describe_downs :: "nat \<Rightarrow> nat list \<Rightarrow> thing_desc list" where
  "describe_downs n [] = []"
| "describe_downs n (x # xs) = ItemDesc x # (if n + 1 = 10 then [] else describe_downs (n + 1) xs)"

definition GetTileDescription ::
  "known_env \<Rightarrow> (nat \<Rightarrow> bool) \<Rightarrow> nat \<Rightarrow> bool \<Rightarrow> tile \<Rightarrow> nat list \<Rightarrow> thing_desc list \<times> nat list" where
  "GetTileDescription K sees me own t known =
     (let ground = (case tl_ground t of None \<Rightarrow> [] | Some g \<Rightarrow> [ItemDesc g]);
          (tops, n, stop) = describe_tops own (length ground) (topItems t)
      in if stop then (ground @ tops, known)
         else
           let (creatures, n, stop, known) =
                 describe_creatures K sees me own False n known (rev (tl_creatures t))
           in (ground @ tops @ creatures @ (if stop then [] else describe_downs n (downItems t)), known))"

section \<open>Floors and regions\<close>

datatype 'd token = Things 'd | Marker u8

type_synonym 's describer = "int \<times> int \<times> int \<Rightarrow> 's \<Rightarrow> (thing_desc list \<times> 's) option"

definition floor_coords :: "int \<Rightarrow> int \<Rightarrow> int \<Rightarrow> int \<Rightarrow> int \<Rightarrow> int \<Rightarrow> (int \<times> int \<times> int) list" where
  "floor_coords x y z width height offset =
     concat (map (\<lambda>nx. map (\<lambda>ny. (x + nx + offset, y + ny + offset, z)) [0..height - 1]) [0..width - 1])"

definition flush_skip :: "int \<Rightarrow> thing_desc list token list" where
  "flush_skip skip = (if 0 \<le> skip then [Marker (word_of_int skip)] else [])"

type_synonym 's floor_state = "thing_desc list token list \<times> int \<times> 's"

definition floor_step :: "'s describer \<Rightarrow> int \<times> int \<times> int \<Rightarrow> 's floor_state \<Rightarrow> 's floor_state" where
  "floor_step D p st =
     (let (out, skip, s) = st in
      case D p s of
        Some (d, s) \<Rightarrow> (out @ flush_skip skip @ [Things d], 0, s)
      | None \<Rightarrow> if skip = 0xFE then (out @ [Marker 0xFF], -1, s) else (out, skip + 1, s))"

definition GetFloorDescription ::
  "'s describer \<Rightarrow> int \<Rightarrow> int \<Rightarrow> int \<Rightarrow> int \<Rightarrow> int \<Rightarrow> int \<Rightarrow> 's floor_state \<Rightarrow> 's floor_state" where
  "GetFloorDescription D x y z width height offset =
     fold (floor_step D) (floor_coords x y z width height offset)"

definition finish :: "'s floor_state \<Rightarrow> thing_desc list token list \<times> 's" where
  "finish st = (let (out, skip, s) = st in (out @ flush_skip skip, s))"

definition map_floors :: "int \<Rightarrow> int list" where
  "map_floors z = (if 7 < z then [z - 2..min 15 (z + 2)] else rev [0..7])"

definition GetMapDescription ::
  "'s describer \<Rightarrow> int \<Rightarrow> int \<Rightarrow> int \<Rightarrow> int \<Rightarrow> int \<Rightarrow> 's \<Rightarrow> thing_desc list token list \<times> 's" where
  "GetMapDescription D x y z width height s =
     finish (fold (\<lambda>nz. GetFloorDescription D x y nz width height (z - nz)) (map_floors z) ([], -1, s))"

section \<open>Moves\<close>

text \<open>What a message to the client may hold, in the order of its parts.\<close>

datatype segment =
    FullMap position "thing_desc list token list"
  | AddCreature position int nat bool nat
  | RemoveThing position int
  | MoveThing position int position
  | FloorUp "thing_desc list token list"
  | FloorDown "thing_desc list token list"
  | NorthRow "thing_desc list token list"
  | SouthRow "thing_desc list token list"
  | EastColumn "thing_desc list token list"
  | WestColumn "thing_desc list token list"

type_synonym 's sender = "'s \<Rightarrow> segment list \<times> 's"

definition silent :: "'s sender" where "silent s = ([], s)"

definition and_then :: "'s sender \<Rightarrow> 's sender \<Rightarrow> 's sender" where
  "and_then f g s = (case f s of (xs, s) \<Rightarrow> (case g s of (ys, s) \<Rightarrow> (xs @ ys, s)))"

definition part :: "(thing_desc list token list \<Rightarrow> segment) \<Rightarrow> ('s \<Rightarrow> thing_desc list token list \<times> 's) \<Rightarrow> 's sender" where
  "part mk f s = (case f s of (ts, s) \<Rightarrow> ([mk ts], s))"

definition sendMapDescription :: "'s describer \<Rightarrow> position \<Rightarrow> position \<Rightarrow> 's sender" where
  "sendMapDescription D me pos =
     part (FullMap me) (GetMapDescription D (uint (px pos) - 8) (uint (py pos) - 6) (uint (pz pos)) 18 14)"

text \<open>The position in the stack is read as an unsigned number: a negative one is above 10.\<close>

definition RemoveTileThing :: "position \<Rightarrow> int \<Rightarrow> 's sender" where
  "RemoveTileThing pos stackpos s = (if stackpos < 0 \<or> 10 \<le> stackpos then [] else [RemoveThing pos stackpos], s)"

text \<open>Floors one after the other with one counter: their number and their offset.\<close>

definition floors :: "'s describer \<Rightarrow> position \<Rightarrow> (int \<times> int) list \<Rightarrow> 's \<Rightarrow> thing_desc list token list \<times> 's" where
  "floors D oldPos zs s =
     finish (fold (\<lambda>(z, offset). GetFloorDescription D (uint (px oldPos) - 8) (uint (py oldPos) - 6) z 18 14 offset)
       zs ([], -1, s))"

definition up_floors :: "position \<Rightarrow> position \<Rightarrow> (int \<times> int) list" where
  "up_floors newPos oldPos =
     (if pz newPos = 7 then [(5, 3), (4, 4), (3, 5), (2, 6), (1, 7), (0, 8)]
      else if 7 < pz newPos then [(uint (pz oldPos) - 3, 3)] else [])"

definition MoveUpCreature :: "'s describer \<Rightarrow> position \<Rightarrow> position \<Rightarrow> 's sender" where
  "MoveUpCreature D newPos oldPos =
     (let x = uint (px oldPos); y = uint (py oldPos); z = uint (pz newPos) in
      and_then (part FloorUp (if up_floors newPos oldPos = [] then Pair [] else floors D oldPos (up_floors newPos oldPos)))
        (and_then (part WestColumn (GetMapDescription D (x - 8) (y - 5) z 1 14))
                  (part NorthRow (GetMapDescription D (x - 8) (y - 6) z 18 1))))"

definition down_floors :: "position \<Rightarrow> position \<Rightarrow> (int \<times> int) list" where
  "down_floors newPos oldPos =
     (let z = uint (pz newPos) in
      if z = 8 then [(z, -1), (z + 1, -2), (z + 2, -3)]
      else if pz oldPos < pz newPos \<and> 8 < z \<and> z < 14 then [(z + 2, -3)] else [])"

definition MoveDownCreature :: "'s describer \<Rightarrow> position \<Rightarrow> position \<Rightarrow> 's sender" where
  "MoveDownCreature D newPos oldPos =
     (let x = uint (px oldPos); y = uint (py oldPos); z = uint (pz newPos) in
      and_then (part FloorDown (if down_floors newPos oldPos = [] then Pair [] else floors D oldPos (down_floors newPos oldPos)))
        (and_then (part EastColumn (GetMapDescription D (x + 9) (y - 7) z 1 14))
                  (part SouthRow (GetMapDescription D (x - 8) (y + 7) z 18 1))))"

definition sendOwnMove ::
  "'s describer \<Rightarrow> position \<Rightarrow> position \<Rightarrow> int \<Rightarrow> bool \<Rightarrow> 's sender" where
  "sendOwnMove D newPos oldPos oldStackPos teleport =
     (let ox = uint (px oldPos); oy = uint (py oldPos); nx = uint (px newPos); ny = uint (py newPos);
          z = uint (pz newPos) in
      if 10 \<le> oldStackPos then sendMapDescription D newPos newPos
      else if teleport then and_then (RemoveTileThing oldPos oldStackPos) (sendMapDescription D newPos newPos)
      else
        and_then (if pz oldPos = 7 \<and> 8 \<le> pz newPos then RemoveTileThing oldPos oldStackPos
                  else Pair [MoveThing oldPos oldStackPos newPos])
       (and_then (if pz oldPos < pz newPos then MoveDownCreature D newPos oldPos
                  else if pz newPos < pz oldPos then MoveUpCreature D newPos oldPos else silent)
       (and_then (if ny < oy then part NorthRow (GetMapDescription D (ox - 8) (ny - 6) z 18 1)
                  else if oy < ny then part SouthRow (GetMapDescription D (ox - 8) (ny + 7) z 18 1) else silent)
                 (if ox < nx then part EastColumn (GetMapDescription D (nx + 9) (ny - 6) z 1 14)
                  else if nx < ox then part WestColumn (GetMapDescription D (nx - 8) (ny - 6) z 1 14) else silent))))"

text \<open>
  Another creature moves: \<open>sees\<close> tells whether the client sees a position; the creature is
  at its new place already.
\<close>

definition sendAddCreature ::
  "known_env \<Rightarrow> bool \<Rightarrow> nat \<Rightarrow> position \<Rightarrow> int \<Rightarrow> nat list sender" where
  "sendAddCreature K seesPos cid pos stackpos known =
     (if \<not> seesPos \<or> stackpos = -1 then ([], known)
      else (case checkCreatureAsKnown K cid known of
              (isKnown, removed, known) \<Rightarrow> ([AddCreature pos stackpos cid isKnown removed], known)))"

definition sendOtherMove ::
  "known_env \<Rightarrow> (position \<Rightarrow> bool) \<Rightarrow> nat \<Rightarrow> position \<Rightarrow> int \<Rightarrow> position \<Rightarrow> int \<Rightarrow> bool \<Rightarrow> nat list sender" where
  "sendOtherMove K sees cid newPos newStackPos oldPos oldStackPos teleport =
     (if sees oldPos \<and> sees newPos then
        if teleport \<or> (pz oldPos = 7 \<and> 8 \<le> pz newPos) \<or> 10 \<le> oldStackPos then
          and_then (RemoveTileThing oldPos oldStackPos) (sendAddCreature K (sees newPos) cid newPos newStackPos)
        else Pair [MoveThing oldPos oldStackPos newPos]
      else if sees oldPos then RemoveTileThing oldPos oldStackPos
      else if sees newPos then sendAddCreature K (sees newPos) cid newPos newStackPos
      else silent)"

end
