(* ===== verification/GameViewProps.thy ===== *)
theory GameViewProps imports GameView begin

text \<open>
  The descriptions can be read: \<open>expand\<close> is how a client reads things and markers, and what it
  reads is the region, tile by tile. The regions are those the player sees, and the rows, columns and
  floors of a step are all that comes into view.
\<close>

section \<open>Reading a description\<close>

text \<open>
  A marker \<open>k\<close> after the things of a tile stands for \<open>k\<close> places without a tile; a marker
  where a tile could begin stands for one more.
\<close>

fun expand :: "'d token list \<Rightarrow> 'd option list" where
  "expand [] = []"
| "expand (Things d # Marker k # r) = Some d # replicate (unat k) None @ expand r"
| "expand (Things d # r) = Some d # expand r"
| "expand (Marker k # r) = replicate (Suc (unat k)) None @ expand r"

definition closed :: "'d token list \<Rightarrow> bool" where
  "closed out \<longleftrightarrow> (\<forall>r. expand (out @ r) = expand out @ expand r)"

lemma closed_nil [simp]: "closed []"
  by (simp add: closed_def)

lemma closed_marker: "closed out \<Longrightarrow> closed (out @ [Marker k])"
  by (simp add: closed_def)

lemma closed_things_marker: "closed out \<Longrightarrow> closed (out @ [Things d, Marker k])"
  by (simp add: closed_def)

text \<open>What the loop over a floor has written for the tiles it has seen.\<close>

definition written :: "'s floor_state \<Rightarrow> thing_desc list option list \<Rightarrow> bool" where
  "written st ts \<longleftrightarrow>
     (let (out, skip, s) = st in
      if skip < 0 then skip = -1 \<and> closed out \<and> expand out = ts
      else skip \<le> 254 \<and> (\<exists>c. closed c \<and>
        (out = c \<and> ts = expand c @ replicate (Suc (nat skip)) None \<or>
         (\<exists>d. out = c @ [Things d] \<and> ts = expand c @ Some d # replicate (nat skip) None))))"

lemma unat_skip: "0 \<le> skip \<Longrightarrow> skip \<le> 255 \<Longrightarrow> unat (word_of_int skip :: u8) = nat skip"
  by (simp add: unat_eq_nat_uint uint_word_of_int take_bit_int_eq_self)

lemma written_finish:
  assumes "written (out, skip, s) ts"
  shows "closed (out @ flush_skip skip) \<and> expand (out @ flush_skip skip) = ts"
proof (cases "skip < 0")
  case False
  hence sk: "unat (word_of_int skip :: u8) = nat skip"
    using assms by (simp add: written_def unat_skip)
  from False assms obtain c where c: "closed c"
    "out = c \<and> ts = expand c @ replicate (Suc (nat skip)) None \<or>
     (\<exists>d. out = c @ [Things d] \<and> ts = expand c @ Some d # replicate (nat skip) None)"
    by (auto simp: written_def)
  hence e: "expand (c @ r) = expand c @ expand r" for r
    by (simp add: closed_def)
  show ?thesis
    using c(2) closed_marker [OF c(1)] closed_things_marker [OF c(1)] False sk
    by (auto simp: flush_skip_def e)
qed (use assms in \<open>simp add: written_def flush_skip_def\<close>)

definition describe_one :: "'s describer \<Rightarrow> int \<times> int \<times> int \<Rightarrow> 's \<Rightarrow> thing_desc list option \<times> 's" where
  "describe_one D p s = (case D p s of None \<Rightarrow> (None, s) | Some (d, s) \<Rightarrow> (Some d, s))"

fun describe_all :: "'s describer \<Rightarrow> (int \<times> int \<times> int) list \<Rightarrow> 's \<Rightarrow> thing_desc list option list \<times> 's" where
  "describe_all D [] s = ([], s)"
| "describe_all D (p # ps) s =
     (case describe_one D p s of (d, s) \<Rightarrow> (case describe_all D ps s of (ds, s) \<Rightarrow> (d # ds, s)))"

lemma describe_all_append:
  "describe_all D (ps @ qs) s =
     (case describe_all D ps s of (ds, s) \<Rightarrow> (case describe_all D qs s of (es, s) \<Rightarrow> (ds @ es, s)))"
  by (induction ps arbitrary: s) (auto split: prod.split)

lemma floor_step_written:
  assumes "written (out, skip, s) ts"
  shows "\<exists>out' skip'. floor_step D p (out, skip, s) = (out', skip', snd (describe_one D p s)) \<and>
    written (out', skip', s') (ts @ [fst (describe_one D p s)])"
proof (cases "D p s")
  case (Some r)
  obtain d s1 where r: "r = (d, s1)" by (cases r)
  from written_finish [OF assms] show ?thesis
    by (auto simp: floor_step_def Some r describe_one_def written_def intro!: exI [of _ "out @ flush_skip skip"])
next
  case None
  show ?thesis
  proof (cases "skip = 254")
    case True
    with assms obtain c where c: "closed c"
      "out = c \<and> ts = expand c @ replicate 255 None \<or>
       (\<exists>d. out = c @ [Things d] \<and> ts = expand c @ Some d # replicate 254 None)"
      by (auto simp: written_def eval_nat_numeral simp del: replicate.simps)
    hence e: "expand (c @ r) = expand c @ expand r" for r
      by (simp add: closed_def)
    have "replicate n x @ [x] = replicate (Suc n) x" for n and x :: "thing_desc list option"
      by (simp add: replicate_append_same)
    from this [of 255 None] this [of 254 None]
    have "replicate 255 None @ [None :: thing_desc list option] = replicate 256 None"
      "replicate 254 None @ [None :: thing_desc list option] = replicate 255 None"
      by (simp_all del: replicate.simps)
    with c(2) closed_marker [OF c(1)] closed_things_marker [OF c(1)] show ?thesis
      by (auto simp: floor_step_def None True describe_one_def written_def e)
  next
    case False
    hence "written (out, skip + 1, s') (ts @ [None])"
      using assms by (auto simp: written_def replicate_append_same nat_add_distrib split: if_splits)
    with False show ?thesis
      by (simp add: floor_step_def None describe_one_def)
  qed
qed

lemma floor_written:
  "written (out, skip, s) ts \<Longrightarrow>
   \<exists>out' skip'. fold (floor_step D) ps (out, skip, s) = (out', skip', snd (describe_all D ps s)) \<and>
    written (out', skip', s') (ts @ fst (describe_all D ps s))"
proof (induction ps arbitrary: out skip s ts)
  case Nil
  thus ?case by (simp add: written_def)
next
  case (Cons p ps)
  obtain d s1 where d: "describe_one D p s = (d, s1)" by (cases "describe_one D p s")
  from floor_step_written [OF Cons.prems, of D p s1] d obtain out1 skip1 where
    f: "floor_step D p (out, skip, s) = (out1, skip1, s1)" "written (out1, skip1, s1) (ts @ [d])"
    by auto
  from Cons.IH [OF f(2)] show ?case
    by (auto simp: f(1) d split: prod.split)
qed

text \<open>Floors one after the other, each with its place and offset.\<close>

lemma floors_written:
  "written (out, skip, s) ts \<Longrightarrow>
   \<exists>out' skip'. fold (\<lambda>c. GetFloorDescription D (fx c) (fy c) (fz c) w h (off c)) cs (out, skip, s) =
      (out', skip', snd (describe_all D (concat (map (\<lambda>c. floor_coords (fx c) (fy c) (fz c) w h (off c)) cs)) s)) \<and>
    written (out', skip', s') (ts @ fst (describe_all D (concat (map (\<lambda>c. floor_coords (fx c) (fy c) (fz c) w h (off c)) cs)) s))"
proof (induction cs arbitrary: out skip s ts)
  case Nil
  thus ?case by (simp add: written_def)
next
  case (Cons c cs)
  let ?ps = "floor_coords (fx c) (fy c) (fz c) w h (off c)"
  obtain ds s1 where d: "describe_all D ?ps s = (ds, s1)" by (cases "describe_all D ?ps s")
  from floor_written [OF Cons.prems, of D ?ps s1] d obtain out1 skip1 where
    f: "GetFloorDescription D (fx c) (fy c) (fz c) w h (off c) (out, skip, s) = (out1, skip1, s1)"
    "written (out1, skip1, s1) (ts @ ds)"
    by (auto simp: GetFloorDescription_def)
  from Cons.IH [OF f(2)] show ?case
    by (auto simp: f(1) d describe_all_append split: prod.split)
qed

lemma written_start: "written ([], -1, s) []"
  by (simp add: written_def)

lemma floors_read_back:
  "finish (fold (\<lambda>c. GetFloorDescription D (fx c) (fy c) (fz c) w h (off c)) cs ([], -1, s)) = (out, s') \<Longrightarrow>
   closed out \<and> describe_all D (concat (map (\<lambda>c. floor_coords (fx c) (fy c) (fz c) w h (off c)) cs)) s = (expand out, s')"
proof -
  assume f: "finish (fold (\<lambda>c. GetFloorDescription D (fx c) (fy c) (fz c) w h (off c)) cs ([], -1, s)) = (out, s')"
  let ?ps = "concat (map (\<lambda>c. floor_coords (fx c) (fy c) (fz c) w h (off c)) cs)"
  from floors_written [OF written_start, where s' = "snd (describe_all D ?ps s)"] obtain out1 skip1 where
    w: "fold (\<lambda>c. GetFloorDescription D (fx c) (fy c) (fz c) w h (off c)) cs ([], -1, s) =
      (out1, skip1, snd (describe_all D ?ps s))"
    "written (out1, skip1, snd (describe_all D ?ps s)) (fst (describe_all D ?ps s))"
    by fastforce
  from f w(1) have "out = out1 @ flush_skip skip1" "s' = snd (describe_all D ?ps s)"
    by (simp_all add: finish_def)
  with written_finish [OF w(2)] show ?thesis
    by (simp add: prod_eq_iff)
qed

definition map_coords :: "int \<Rightarrow> int \<Rightarrow> int \<Rightarrow> int \<Rightarrow> int \<Rightarrow> (int \<times> int \<times> int) list" where
  "map_coords x y z width height =
     concat (map (\<lambda>nz. floor_coords x y nz width height (z - nz)) (map_floors z))"

lemma GetMapDescription_reads:
  "GetMapDescription D x y z w h s = (out, s') \<Longrightarrow>
   closed out \<and> describe_all D (map_coords x y z w h) s = (expand out, s')"
  unfolding GetMapDescription_def map_coords_def by (rule floors_read_back)

definition floors_coords :: "position \<Rightarrow> (int \<times> int) list \<Rightarrow> (int \<times> int \<times> int) list" where
  "floors_coords oldPos zs =
     concat (map (\<lambda>(z, offset). floor_coords (uint (px oldPos) - 8) (uint (py oldPos) - 6) z 18 14 offset) zs)"

lemma floors_reads:
  "floors D oldPos zs s = (out, s') \<Longrightarrow> closed out \<and> describe_all D (floors_coords oldPos zs) s = (expand out, s')"
  unfolding floors_def floors_coords_def case_prod_beta by (rule floors_read_back)

section \<open>Which places\<close>

lemma floor_coords_iff:
  "(a, b, c) \<in> set (floor_coords x y z w h off) \<longleftrightarrow>
   c = z \<and> x + off \<le> a \<and> a < x + off + w \<and> y + off \<le> b \<and> b < y + off + h"
proof
  assume "c = z \<and> x + off \<le> a \<and> a < x + off + w \<and> y + off \<le> b \<and> b < y + off + h"
  hence "a = x + (a - x - off) + off" "b = y + (b - y - off) + off" "c = z"
    "a - x - off \<in> {0..w - 1}" "b - y - off \<in> {0..h - 1}"
    by auto
  thus "(a, b, c) \<in> set (floor_coords x y z w h off)"
    unfolding floor_coords_def set_concat set_map image_image set_upto by blast
qed (auto simp: floor_coords_def)

lemma map_floors_iff:
  "c \<in> set (map_floors z) \<longleftrightarrow> (if 7 < z then z - 2 \<le> c \<and> c \<le> z + 2 \<and> c \<le> 15 else 0 \<le> c \<and> c \<le> 7)"
  by (auto simp: map_floors_def)

lemma distinct_grid:
  fixes off :: int
  shows "distinct xs \<Longrightarrow> distinct ys \<Longrightarrow>
    distinct (concat (map (\<lambda>nx. map (\<lambda>ny. (x + nx + off, y + ny + off, z)) ys) xs))"
  by (induction xs) (auto simp: distinct_map inj_on_def)

lemma distinct_floors:
  "distinct zs \<Longrightarrow> distinct (concat (map (\<lambda>nz. floor_coords x y nz w h (z - nz)) zs))"
proof (induction zs)
  case (Cons a zs)
  have "set (floor_coords x y a w h (z - a)) \<inter> (\<Union>nz \<in> set zs. set (floor_coords x y nz w h (z - nz))) = {}"
    using Cons.prems by (auto simp: floor_coords_iff)
  with Cons show ?case by (simp add: distinct_grid floor_coords_def)
qed simp

lemma distinct_map_coords: "distinct (map_coords x y z w h)"
  unfolding map_coords_def by (rule distinct_floors) (simp add: map_floors_def)

lemma map_coords_iff:
  "(a, b, c) \<in> set (map_coords x y z w h) \<longleftrightarrow>
   c \<in> set (map_floors z) \<and> x + z - c \<le> a \<and> a < x + z - c + w \<and> y + z - c \<le> b \<and> b < y + z - c + h"
  by (auto simp: map_coords_def floor_coords_iff algebra_simps)

lemma floors_coords_iff:
  "(a, b, c) \<in> set (floors_coords p zs) \<longleftrightarrow>
   (\<exists>off. (c, off) \<in> set zs \<and> uint (px p) - 8 + off \<le> a \<and> a < uint (px p) + 10 + off \<and>
      uint (py p) - 6 + off \<le> b \<and> b < uint (py p) + 8 + off)"
  by (force simp: floors_coords_def floor_coords_iff)

definition in_view :: "position \<Rightarrow> int \<times> int \<times> int \<Rightarrow> bool" where
  "in_view me q = (let (x, y, z) = q in 0 \<le> z \<and> z \<le> 15 \<and> protocol_canSee me x y z)"

lemma map_view_iff:
  "in_view me (a, b, c) \<longleftrightarrow>
   (if uint (pz me) \<le> 7 then 0 \<le> c \<and> c \<le> 7 else uint (pz me) - 2 \<le> c \<and> c \<le> uint (pz me) + 2 \<and> c \<le> 15 \<and> 0 \<le> c) \<and>
   uint (px me) - 8 + uint (pz me) - c \<le> a \<and> a \<le> uint (px me) + 9 + uint (pz me) - c \<and>
   uint (py me) - 6 + uint (pz me) - c \<le> b \<and> b \<le> uint (py me) + 7 + uint (pz me) - c"
  by (auto simp: in_view_def protocol_canSee_def Let_def)

lemma map_is_view:
  "set (map_coords (uint (px me) - 8) (uint (py me) - 6) (uint (pz me)) 18 14) = {q. in_view me q}"
proof -
  have "q \<in> set (map_coords (uint (px me) - 8) (uint (py me) - 6) (uint (pz me)) 18 14) \<longleftrightarrow> in_view me q" for q
    by (cases q) (auto simp: map_coords_iff map_floors_iff map_view_iff)
  thus ?thesis by blast
qed

section \<open>What a step shows\<close>

definition step_coords :: "position \<Rightarrow> position \<Rightarrow> (int \<times> int \<times> int) list" where
  "step_coords newPos oldPos =
     (let ox = uint (px oldPos); oy = uint (py oldPos); nx = uint (px newPos); ny = uint (py newPos);
          z = uint (pz newPos) in
      (if pz oldPos < pz newPos then
         floors_coords oldPos (down_floors newPos oldPos) @ map_coords (ox + 9) (oy - 7) z 1 14 @
         map_coords (ox - 8) (oy + 7) z 18 1
       else if pz newPos < pz oldPos then
         floors_coords oldPos (up_floors newPos oldPos) @ map_coords (ox - 8) (oy - 5) z 1 14 @
         map_coords (ox - 8) (oy - 6) z 18 1
       else []) @
      (if ny < oy then map_coords (ox - 8) (ny - 6) z 18 1
       else if oy < ny then map_coords (ox - 8) (ny + 7) z 18 1 else []) @
      (if ox < nx then map_coords (nx + 9) (ny - 6) z 1 14
       else if nx < ox then map_coords (nx - 8) (ny - 6) z 1 14 else []))"

lemma step_same_floor:
  assumes "pz newPos = pz oldPos" "\<bar>uint (px newPos) - uint (px oldPos)\<bar> \<le> 1" "\<bar>uint (py newPos) - uint (py oldPos)\<bar> \<le> 1"
    "in_view newPos q"
  shows "in_view oldPos q \<or> q \<in> set (step_coords newPos oldPos)"
  using assms
  by (cases q) (auto simp: map_view_iff step_coords_def Let_def map_coords_iff map_floors_iff split: if_splits)

lemma byte_less: "(a :: u8) < b \<longleftrightarrow> uint a < uint b"
  by (rule word_less_def)

lemma byte_consts: "(a :: u8) = 7 \<longleftrightarrow> uint a = 7" "(7 :: u8) < a \<longleftrightarrow> 7 < uint a"
  by (simp_all add: word_less_def word_uint_eq_iff)

lemma down_floors_iff:
  assumes "uint (pz newPos) = uint (pz oldPos) + 1"
  shows "(c, off) \<in> set (down_floors newPos oldPos) \<longleftrightarrow>
    off = uint (pz oldPos) - c \<and>
    (let z = uint (pz newPos) in z = 8 \<and> 8 \<le> c \<and> c \<le> 10 \<or> 8 < z \<and> z < 14 \<and> c = z + 2)"
  using assms by (auto simp: down_floors_def Let_def byte_less)

lemma up_floors_iff:
  assumes "uint (pz oldPos) = uint (pz newPos) + 1"
  shows "(c, off) \<in> set (up_floors newPos oldPos) \<longleftrightarrow>
    off = uint (pz oldPos) - c \<and>
    (let z = uint (pz newPos) in z = 7 \<and> 0 \<le> c \<and> c \<le> 5 \<or> 7 < z \<and> c = z - 2)"
proof (cases "uint (pz newPos) = 7")
  case True
  have "(c, off) \<in> {(5, 3), (4, 4), (3, 5), (2, 6), (1, 7), (0, 8)} \<longleftrightarrow> off = 8 - c \<and> 0 \<le> c \<and> c \<le> 5"
    by auto
  thus ?thesis
    using True assms by (simp add: up_floors_def byte_consts)
next
  case False
  thus ?thesis
    using assms by (auto simp: up_floors_def Let_def byte_consts)
qed

lemma in_view_floor:
  "in_view me (a, b, c) \<longleftrightarrow>
   c \<in> set (map_floors (uint (pz me))) \<and>
   uint (px me) - 8 + uint (pz me) - c \<le> a \<and> a \<le> uint (px me) + 9 + uint (pz me) - c \<and>
   uint (py me) - 6 + uint (pz me) - c \<le> b \<and> b \<le> uint (py me) + 7 + uint (pz me) - c"
  by (auto simp: map_view_iff map_floors_iff)

text \<open>
  The two dimensions of a step: \<open>a\<close> and \<open>b\<close> relative to the old place, \<open>k\<close> the change of
  the offset.
\<close>

lemma new_floors:
  assumes "c \<in> set (map_floors z)" "z \<le> 15" "0 \<le> z"
  shows "c \<in> set (map_floors (z - 1)) \<or> z = 8 \<and> 8 \<le> c \<and> c \<le> 10 \<or> 8 < z \<and> z < 14 \<and> c = z + 2"
    "z < 15 \<Longrightarrow> c \<in> set (map_floors (z + 1)) \<or> z = 7 \<and> 0 \<le> c \<and> c \<le> 5 \<or> 7 < z \<and> c = z - 2"
  using assms by (auto simp: map_floors_iff split: if_splits)

lemma shift_cases:
  fixes a b :: int
  assumes "\<bar>dx\<bar> \<le> 1" "\<bar>dy\<bar> \<le> 1" "dx - 7 \<le> a" "a \<le> dx + 10" "dy - 5 \<le> b" "b \<le> dy + 8"
  shows "- 8 \<le> a \<and> a \<le> 9 \<and> - 6 \<le> b \<and> b \<le> 7 \<or> a = 10 \<and> - 6 \<le> b \<and> b \<le> 7 \<or>
    b = 8 \<and> - 7 \<le> a \<and> a \<le> 10 \<or> dy = 1 \<and> b = 9 \<and> - 7 \<le> a \<and> a \<le> 10 \<or>
    dx = 1 \<and> a = 11 \<or> dx = -1 \<and> a = -8"
proof -
  have "a \<le> 9 \<or> a = 10 \<or> a = 11 \<and> dx = 1" "- 7 \<le> a \<or> a = -8 \<and> dx = -1"
    "b \<le> 7 \<or> b = 8 \<or> b = 9 \<and> dy = 1" "- 6 \<le> b"
    using assms by linarith+
  thus ?thesis by auto
qed

lemma step_down:
  assumes dz: "uint (pz newPos) = uint (pz oldPos) + 1"
    and d: "\<bar>uint (px newPos) - uint (px oldPos)\<bar> \<le> 1" "\<bar>uint (py newPos) - uint (py oldPos)\<bar> \<le> 1"
    and v: "in_view newPos (a, b, c)" and z: "uint (pz newPos) \<le> 15"
  shows "in_view oldPos (a, b, c) \<or> (a, b, c) \<in> set (step_coords newPos oldPos)"
proof -
  define X Y Z dx dy where xy: "X = uint (px oldPos)" "Y = uint (py oldPos)" "Z = uint (pz oldPos)"
    "dx = uint (px newPos) - uint (px oldPos)" "dy = uint (py newPos) - uint (py oldPos)"
  define a' b' where ab: "a' = a - X - (Z - c)" "b' = b - Y - (Z - c)"
  have new: "uint (px newPos) = X + dx" "uint (py newPos) = Y + dy" "uint (pz newPos) = Z + 1"
    using dz by (simp_all add: xy)
  have fl: "c \<in> set (map_floors (Z + 1))" and r: "dx - 7 \<le> a'" "a' \<le> dx + 10" "dy - 5 \<le> b'" "b' \<le> dy + 8"
    using v unfolding in_view_floor new by (simp_all add: ab)
  have "pz oldPos < pz newPos" using dz by (simp add: byte_less)
  hence step: "(a, b, c) \<in> set (step_coords newPos oldPos)"
    if "(a, b, c) \<in> set (floors_coords oldPos (down_floors newPos oldPos)) \<or>
      (a, b, c) \<in> set (map_coords (X + 9) (Y - 7) (Z + 1) 1 14) \<or>
      (a, b, c) \<in> set (map_coords (X - 8) (Y + 7) (Z + 1) 18 1) \<or>
      dy = 1 \<and> (a, b, c) \<in> set (map_coords (X - 8) (Y + dy + 7) (Z + 1) 18 1) \<or>
      dx = 1 \<and> (a, b, c) \<in> set (map_coords (X + dx + 9) (Y + dy - 6) (Z + 1) 1 14) \<or>
      dx = -1 \<and> (a, b, c) \<in> set (map_coords (X + dx - 8) (Y + dy - 6) (Z + 1) 1 14)"
    using that by (auto simp: step_coords_def Let_def new xy(1-3)[symmetric])
  have east: "a' = 10 \<Longrightarrow> - 6 \<le> b' \<Longrightarrow> b' \<le> 7 \<Longrightarrow> (a, b, c) \<in> set (map_coords (X + 9) (Y - 7) (Z + 1) 1 14)"
    and south: "b' = 8 \<Longrightarrow> - 7 \<le> a' \<Longrightarrow> a' \<le> 10 \<Longrightarrow> (a, b, c) \<in> set (map_coords (X - 8) (Y + 7) (Z + 1) 18 1)"
    and south1: "b' = 9 \<Longrightarrow> - 7 \<le> a' \<Longrightarrow> a' \<le> 10 \<Longrightarrow> dy = 1 \<Longrightarrow> (a, b, c) \<in> set (map_coords (X - 8) (Y + dy + 7) (Z + 1) 18 1)"
    and east1: "a' = 11 \<Longrightarrow> dx = 1 \<Longrightarrow> (a, b, c) \<in> set (map_coords (X + dx + 9) (Y + dy - 6) (Z + 1) 1 14)"
    and west1: "a' = -8 \<Longrightarrow> dx = -1 \<Longrightarrow> (a, b, c) \<in> set (map_coords (X + dx - 8) (Y + dy - 6) (Z + 1) 1 14)"
    using fl r by (auto simp: map_coords_iff ab)
  have inside: "in_view oldPos (a, b, c) \<or> (a, b, c) \<in> set (floors_coords oldPos (down_floors newPos oldPos))"
    if "- 8 \<le> a'" "a' \<le> 9" "- 6 \<le> b'" "b' \<le> 7"
  proof (cases "c \<in> set (map_floors Z)")
    case True
    thus ?thesis using that unfolding in_view_floor by (simp add: ab xy)
  next
    case False
    hence "(c, Z - c) \<in> set (down_floors newPos oldPos)"
      using new_floors(1) [OF fl] z new(3) unfolding down_floors_iff [OF dz] by (auto simp: xy Let_def)
    thus ?thesis
      using that unfolding floors_coords_iff by (intro disjI2 exI [of _ "Z - c"]) (simp add: ab xy)
  qed
  have "\<bar>dx\<bar> \<le> 1" "\<bar>dy\<bar> \<le> 1" using d by (simp_all add: xy)
  from shift_cases [OF this r] show ?thesis
    using inside east south south1 east1 west1 step by (elim disjE conjE) blast+
qed

lemma shift_cases_up:
  fixes a b :: int
  assumes "\<bar>dx\<bar> \<le> 1" "\<bar>dy\<bar> \<le> 1" "dx - 9 \<le> a" "a \<le> dx + 8" "dy - 7 \<le> b" "b \<le> dy + 6"
  shows "- 8 \<le> a \<and> a \<le> 9 \<and> - 6 \<le> b \<and> b \<le> 7 \<or> a = -9 \<and> - 6 \<le> b \<and> b \<le> 7 \<or>
    b = -7 \<and> - 9 \<le> a \<and> a \<le> 8 \<or> dy = -1 \<and> b = -8 \<and> - 9 \<le> a \<and> a \<le> 8 \<or>
    dx = 1 \<and> a = 9 \<or> dx = -1 \<and> a = -10"
proof -
  have "a \<le> 8 \<or> a = 9 \<and> dx = 1" "- 8 \<le> a \<or> a = -9 \<or> a = -10 \<and> dx = -1"
    "- 6 \<le> b \<or> b = -7 \<or> b = -8 \<and> dy = -1" "b \<le> 7"
    using assms by linarith+
  thus ?thesis by auto
qed

lemma step_up:
  assumes dz: "uint (pz oldPos) = uint (pz newPos) + 1"
    and d: "\<bar>uint (px newPos) - uint (px oldPos)\<bar> \<le> 1" "\<bar>uint (py newPos) - uint (py oldPos)\<bar> \<le> 1"
    and v: "in_view newPos (a, b, c)" and z: "uint (pz oldPos) \<le> 15"
  shows "in_view oldPos (a, b, c) \<or> (a, b, c) \<in> set (step_coords newPos oldPos)"
proof -
  define X Y Z dx dy where xy: "X = uint (px oldPos)" "Y = uint (py oldPos)" "Z = uint (pz newPos)"
    "dx = uint (px newPos) - uint (px oldPos)" "dy = uint (py newPos) - uint (py oldPos)"
  define a' b' where ab: "a' = a - X - (Z + 1 - c)" "b' = b - Y - (Z + 1 - c)"
  have new: "uint (px newPos) = X + dx" "uint (py newPos) = Y + dy" "uint (pz oldPos) = Z + 1"
    using dz by (simp_all add: xy)
  have fl: "c \<in> set (map_floors Z)" and r: "dx - 9 \<le> a'" "a' \<le> dx + 8" "dy - 7 \<le> b'" "b' \<le> dy + 6"
    using v unfolding in_view_floor new xy(3)[symmetric] by (simp_all add: ab)
  have "pz newPos < pz oldPos" "\<not> pz oldPos < pz newPos" using dz by (simp_all add: byte_less)
  hence step: "(a, b, c) \<in> set (step_coords newPos oldPos)"
    if "(a, b, c) \<in> set (floors_coords oldPos (up_floors newPos oldPos)) \<or>
      (a, b, c) \<in> set (map_coords (X - 8) (Y - 5) Z 1 14) \<or>
      (a, b, c) \<in> set (map_coords (X - 8) (Y - 6) Z 18 1) \<or>
      dy = -1 \<and> (a, b, c) \<in> set (map_coords (X - 8) (Y + dy - 6) Z 18 1) \<or>
      dx = 1 \<and> (a, b, c) \<in> set (map_coords (X + dx + 9) (Y + dy - 6) Z 1 14) \<or>
      dx = -1 \<and> (a, b, c) \<in> set (map_coords (X + dx - 8) (Y + dy - 6) Z 1 14)"
    using that by (auto simp: step_coords_def Let_def new(1,2) xy(1-3)[symmetric])
  have west: "a' = -9 \<Longrightarrow> - 6 \<le> b' \<Longrightarrow> b' \<le> 7 \<Longrightarrow> (a, b, c) \<in> set (map_coords (X - 8) (Y - 5) Z 1 14)"
    and north: "b' = -7 \<Longrightarrow> - 9 \<le> a' \<Longrightarrow> a' \<le> 8 \<Longrightarrow> (a, b, c) \<in> set (map_coords (X - 8) (Y - 6) Z 18 1)"
    and north1: "b' = -8 \<Longrightarrow> - 9 \<le> a' \<Longrightarrow> a' \<le> 8 \<Longrightarrow> dy = -1 \<Longrightarrow> (a, b, c) \<in> set (map_coords (X - 8) (Y + dy - 6) Z 18 1)"
    and east1: "a' = 9 \<Longrightarrow> dx = 1 \<Longrightarrow> (a, b, c) \<in> set (map_coords (X + dx + 9) (Y + dy - 6) Z 1 14)"
    and west1: "a' = -10 \<Longrightarrow> dx = -1 \<Longrightarrow> (a, b, c) \<in> set (map_coords (X + dx - 8) (Y + dy - 6) Z 1 14)"
    using fl r by (auto simp: map_coords_iff ab)
  have inside: "in_view oldPos (a, b, c) \<or> (a, b, c) \<in> set (floors_coords oldPos (up_floors newPos oldPos))"
    if "- 8 \<le> a'" "a' \<le> 9" "- 6 \<le> b'" "b' \<le> 7"
  proof (cases "c \<in> set (map_floors (Z + 1))")
    case True
    thus ?thesis using that unfolding in_view_floor new(3) by (simp add: ab xy)
  next
    case False
    hence "(c, Z + 1 - c) \<in> set (up_floors newPos oldPos)"
      using new_floors(2) [OF fl] z new(3) unfolding up_floors_iff [OF dz] new(3) by (auto simp: xy Let_def)
    thus ?thesis
      using that unfolding floors_coords_iff by (intro disjI2 exI [of _ "Z + 1 - c"]) (simp add: ab xy)
  qed
  have "\<bar>dx\<bar> \<le> 1" "\<bar>dy\<bar> \<le> 1" using d by (simp_all add: xy)
  from shift_cases_up [OF this r] show ?thesis
    using inside west north north1 east1 west1 step by (elim disjE conjE) blast+
qed

section \<open>What the messages say\<close>

text \<open>The descriptions in the parts of a message, read one after the other.\<close>

fun tokens_of :: "segment \<Rightarrow> thing_desc list token list" where
  "tokens_of (FullMap p ts) = ts" | "tokens_of (FloorUp ts) = ts" | "tokens_of (FloorDown ts) = ts"
| "tokens_of (NorthRow ts) = ts" | "tokens_of (SouthRow ts) = ts" | "tokens_of (EastColumn ts) = ts"
| "tokens_of (WestColumn ts) = ts" | "tokens_of _ = []"

definition told :: "segment list \<Rightarrow> thing_desc list option list" where
  "told segs = concat (map (expand \<circ> tokens_of) segs)"

definition tells :: "'s describer \<Rightarrow> 's sender \<Rightarrow> (int \<times> int \<times> int) list \<Rightarrow> bool" where
  "tells D f ps \<longleftrightarrow> (\<forall>s. describe_all D ps s = map_prod told id (f s))"

lemma tells_silent: "tells D silent []"
  by (simp add: tells_def silent_def told_def)

lemma tells_plain: "tells D (RemoveTileThing p k) []" "tells D (Pair [MoveThing p k q]) []"
  by (simp_all add: tells_def told_def RemoveTileThing_def)

lemma tells_then: "tells D f ps \<Longrightarrow> tells D g qs \<Longrightarrow> tells D (and_then f g) (ps @ qs)"
  by (auto simp: tells_def and_then_def describe_all_append told_def split: prod.split)

lemma tells_map:
  assumes "\<And>ts. tokens_of (mk ts) = ts"
  shows "tells D (part mk (GetMapDescription D x y z w h)) (map_coords x y z w h)"
  unfolding tells_def part_def
  using GetMapDescription_reads [of D x y z w h] assms by (auto simp: told_def split: prod.split)

lemma tells_floors:
  assumes "\<And>ts. tokens_of (mk ts) = ts"
  shows "tells D (part mk (if zs = [] then Pair [] else floors D oldPos zs)) (floors_coords oldPos zs)"
  unfolding tells_def part_def
  using floors_reads [of D oldPos zs] assms by (auto simp: told_def floors_coords_def split: prod.split)

lemmas tells_intros = tells_silent tells_plain tells_then tells_map tells_floors

lemma tells_if: "(c \<Longrightarrow> tells D f ps) \<Longrightarrow> (\<not> c \<Longrightarrow> tells D g qs) \<Longrightarrow> tells D (if c then f else g) (if c then ps else qs)"
  by simp

lemma sendOwnMove_tells:
  "oldStackPos < 10 \<Longrightarrow> tells D (sendOwnMove D newPos oldPos oldStackPos False) (step_coords newPos oldPos)"
proof -
  assume "oldStackPos < 10"
  have up: "tells D (MoveUpCreature D newPos oldPos) (floors_coords oldPos (up_floors newPos oldPos) @
      map_coords (uint (px oldPos) - 8) (uint (py oldPos) - 5) (uint (pz newPos)) 1 14 @
      map_coords (uint (px oldPos) - 8) (uint (py oldPos) - 6) (uint (pz newPos)) 18 1)"
    unfolding MoveUpCreature_def Let_def by (intro tells_intros) simp_all
  have down: "tells D (MoveDownCreature D newPos oldPos) (floors_coords oldPos (down_floors newPos oldPos) @
      map_coords (uint (px oldPos) + 9) (uint (py oldPos) - 7) (uint (pz newPos)) 1 14 @
      map_coords (uint (px oldPos) - 8) (uint (py oldPos) + 7) (uint (pz newPos)) 18 1)"
    unfolding MoveDownCreature_def Let_def by (intro tells_intros) simp_all
  have first: "tells D (if pz oldPos = 7 \<and> 8 \<le> pz newPos then RemoveTileThing oldPos oldStackPos
      else Pair [MoveThing oldPos oldStackPos newPos]) []"
    by (simp add: tells_plain)
  have "tells D (sendOwnMove D newPos oldPos oldStackPos False) ([] @ step_coords newPos oldPos)"
    using \<open>oldStackPos < 10\<close> unfolding sendOwnMove_def step_coords_def Let_def
    by (simp only: if_False not_le if_not_P)
       (intro tells_then tells_if first up down tells_map tells_silent; simp)
  thus ?thesis by simp
qed

end
