(* ===== verification/GameViewTheorems.thy ===== *)
theory GameViewTheorems imports GameViewProps "HOL-Library.Multiset" begin

text \<open>
  The properties of what clients are told: descriptions read back, the view is complete after
  every step, the creatures of a tile are where the server counts them, and client and
  server agree on the creatures the client knows.
\<close>

section \<open>The things of a tile\<close>

lemma tops_all:
  "n + length xs < (if own then 9 else 10) \<Longrightarrow>
   describe_tops own n xs = (map ItemDesc xs, n + length xs, False)"
  by (induction xs arbitrary: n) (auto split: if_splits)

lemma tops_own:
  "n \<le> 8 \<Longrightarrow> 9 \<le> n + length xs \<Longrightarrow> describe_tops True n xs = (map ItemDesc (take (9 - n) xs), 9, False)"
proof (induction xs arbitrary: n)
  case (Cons x xs)
  show ?case
  proof (cases "n = 8")
    case False
    hence "9 - n = Suc (9 - Suc n)" using Cons.prems by simp
    thus ?thesis using Cons.IH [of "Suc n"] Cons.prems False by simp
  qed simp
qed simp

lemma client_index_at_least: "client_index sees c n cs = -1 \<or> int n \<le> client_index sees c n cs"
  by (induction cs arbitrary: n) (auto, smt (verit, ccfv_SIG) of_nat_Suc)

lemma client_index_member: "c \<in> set cs \<Longrightarrow> int n \<le> client_index sees c n cs"
  using client_index_at_least
  by (induction cs arbitrary: n) (auto, smt (verit, ccfv_SIG) of_nat_Suc)

text \<open>The tenth place of the player's own tile is his own when none of the places before is.\<close>

definition shown_at ::
  "(nat \<Rightarrow> bool) \<Rightarrow> nat \<Rightarrow> bool \<Rightarrow> bool \<Rightarrow> nat \<Rightarrow> nat list \<Rightarrow> nat \<Rightarrow> nat" where
  "shown_at sees me own added n cs c =
     (if own \<and> \<not> added \<and> client_index sees c n cs = 9 \<and> \<not> (me \<in> set cs \<and> client_index sees me n cs < 9)
      then me else c)"

lemma creatures_at_index:
  assumes "sees me" "sees c"
  shows "c \<in> set cs \<Longrightarrow> client_index sees c n cs < 10 \<Longrightarrow>
    describe_creatures K sees me own added n known cs = (ds, n', stop, known') \<Longrightarrow>
    nat (client_index sees c n cs) - n < length ds \<and>
    (\<exists>k r. ds ! (nat (client_index sees c n cs) - n) = CreatureDesc (shown_at sees me own added n cs c) k r)"
proof (induction cs arbitrary: n added known ds n' stop known')
  case (Cons c1 cs)
  show ?case
  proof (cases "c1 = c")
    case True
    obtain k r known1 where "checkCreatureAsKnown K (if own \<and> n = 9 \<and> \<not> added then me else c) known = (k, r, known1)"
      by (metis prod_cases3)
    hence "ds \<noteq> [] \<and> hd ds = CreatureDesc (if own \<and> n = 9 \<and> \<not> added then me else c) k r"
      using Cons.prems(3) True assms(2) by (auto simp: Let_def split: prod.splits if_splits)
    moreover have "shown_at sees me own added n (c1 # cs) c = (if own \<and> n = 9 \<and> \<not> added then me else c)"
      using client_index_member [of me "c1 # cs" n sees] True assms(2) by (auto simp: shown_at_def)
    ultimately show ?thesis
      using True assms(2) by (cases ds) auto
  next
    case other: False
    hence mem: "c \<in> set cs" using Cons.prems(1) by simp
    show ?thesis
    proof (cases "sees c1")
      case False
      moreover have "shown_at sees me own added n (c1 # cs) c = shown_at sees me own added n cs c"
        using False other assms(1) by (auto simp: shown_at_def)
      ultimately show ?thesis
        using Cons.IH [of n added known ds n' stop known'] Cons.prems other mem by simp
    next
      case True
      have idx: "client_index sees c n (c1 # cs) = client_index sees c (Suc n) cs"
        using True other by simp
      have n: "Suc n < 10"
        using Cons.prems(2) client_index_member [OF mem, of "Suc n" sees] unfolding idx by linarith
      obtain k r known1 where chk: "checkCreatureAsKnown K c1 known = (k, r, known1)"
        by (cases "checkCreatureAsKnown K c1 known")
      have e: "describe_creatures K sees me own added n known (c1 # cs) =
          (case describe_creatures K sees me own (added \<or> c1 = me) (Suc n) known1 cs of
             (ds, n, stop, known) \<Rightarrow> (CreatureDesc c1 k r # ds, n, stop, known))"
        using True n chk by (simp add: Let_def)
      obtain ds1 n1 stop1 known2 where
        d: "describe_creatures K sees me own (added \<or> c1 = me) (Suc n) known1 cs = (ds1, n1, stop1, known2)"
        by (cases "describe_creatures K sees me own (added \<or> c1 = me) (Suc n) known1 cs")
      have "ds = CreatureDesc c1 k r # ds1"
        using Cons.prems(3) unfolding e d by simp
      moreover have "nat (client_index sees c (Suc n) cs) - n = Suc (nat (client_index sees c (Suc n) cs) - Suc n)"
        using client_index_member [OF mem, of "Suc n" sees] by linarith
      moreover have "shown_at sees me own added n (c1 # cs) c = shown_at sees me own (added \<or> c1 = me) (Suc n) cs c"
        using True n other by (auto simp: shown_at_def)
      ultimately show ?thesis
        using Cons.IH [OF mem _ d] Cons.prems(2) unfolding idx by simp
    qed
  qed
qed simp

lemma own_creature_in:
  "me \<in> set cs \<Longrightarrow> sees me \<Longrightarrow> n \<le> 9 \<Longrightarrow>
   \<exists>k r. CreatureDesc me k r \<in> set (fst (describe_creatures K sees me True False n known cs))"
proof (induction cs arbitrary: n known)
  case (Cons c cs)
  show ?case
  proof (cases "sees c")
    case False
    with Cons show ?thesis by auto
  next
    case seen: True
    define c1 where "c1 = (if n = 9 then me else c)"
    obtain k r known1 where chk: "checkCreatureAsKnown K c1 known = (k, r, known1)"
      by (cases "checkCreatureAsKnown K c1 known")
    have e: "describe_creatures K sees me True False n known (c # cs) =
        (if n + 1 = 10 then ([CreatureDesc c1 k r], n + 1, True, known1)
         else (case describe_creatures K sees me True (c1 = me) (n + 1) known1 cs of
                 (ds, n, stop, known) \<Rightarrow> (CreatureDesc c1 k r # ds, n, stop, known)))"
      using seen chk by (simp add: c1_def Let_def)
    show ?thesis
    proof (cases "c1 = me")
      case True
      thus ?thesis unfolding e by (auto split: prod.split)
    next
      case False
      hence "me \<in> set cs" "n + 1 \<le> 9" "n + 1 \<noteq> 10"
        using Cons.prems by (auto simp: c1_def split: if_splits)
      from Cons.IH [OF this(1) Cons.prems(2) this(2), of known1] this(3) False show ?thesis
        unfolding e by (simp add: case_prod_beta)
    qed
  qed
qed simp

lemma nth_middle_part:
  "length xs = n \<Longrightarrow> n \<le> j \<Longrightarrow> j - n < length ds \<Longrightarrow> j < length (xs @ ds @ r) \<and> (xs @ ds @ r) ! j = ds ! (j - n)"
  by (auto simp: nth_append)

section \<open>Known creatures\<close>

text \<open>
  What a client does when it reads a creature: one it knows must be among its creatures, for
  a new one it forgets the other that comes with it. The server asks for one creature after the other.
\<close>

fun client_hears :: "thing_desc \<Rightarrow> nat set \<Rightarrow> nat set" where
  "client_hears (CreatureDesc c isKnown removed) cl = (if isKnown then cl else insert c (cl - {removed}))"
| "client_hears (ItemDesc x) cl = cl"

fun understood :: "thing_desc \<Rightarrow> nat set \<Rightarrow> bool" where
  "understood (CreatureDesc c isKnown removed) cl = (isKnown \<longrightarrow> c \<in> cl)"
| "understood (ItemDesc x) cl = True"

fun client_run :: "thing_desc list \<Rightarrow> nat set \<Rightarrow> bool \<times> nat set" where
  "client_run [] cl = (True, cl)"
| "client_run (d # ds) cl = (case client_run ds (client_hears d cl) of (ok, cl') \<Rightarrow> (understood d cl \<and> ok, cl'))"

fun show_creatures :: "(known_env \<times> nat) list \<Rightarrow> nat list \<Rightarrow> thing_desc list \<times> nat list" where
  "show_creatures [] known = ([], known)"
| "show_creatures ((K, c) # rs) known =
     (case checkCreatureAsKnown K c known of
        (isKnown, removed, known) \<Rightarrow>
          (case show_creatures rs known of (ds, known) \<Rightarrow> (CreatureDesc c isKnown removed # ds, known)))"

text \<open>
  The server's set is inside that of the client, who may also keep creatures of \<open>U\<close>.
\<close>

definition known_ok :: "nat set \<Rightarrow> nat list \<Rightarrow> nat set \<Rightarrow> bool" where
  "known_ok U known cl \<longleftrightarrow> set known \<subseteq> cl \<and> cl \<subseteq> set known \<union> U \<and>
     distinct known \<and> length known \<le> 1300 \<and> 0 \<notin> set known"

lemma first_but_other:
  assumes "mset ids = mset (c # known)" "distinct (c # known)" "known \<noteq> []"
  shows "first_but c ids \<in> set known"
proof -
  have m: "set ids = set (c # known)"
    by (rule mset_eq_setD [OF assms(1)])
  have d: "distinct ids"
    using mset_eq_imp_distinct_iff [OF assms(1)] assms(2) by blast
  have "length ids = Suc (length known)"
    using mset_eq_length [OF assms(1)] by simp
  then obtain x y zs where "ids = x # y # zs"
    using assms(3) by (cases ids; cases "tl ids") auto
  thus ?thesis
    using m d by (auto simp: first_but_def)
qed

lemma check_known:
  assumes "known_ok U known cl" "0 < c" "\<And>ids. mset (ke_order K ids) = mset ids" "ke_sees K c \<or> c \<in> U"
    "checkCreatureAsKnown K c known = (isKnown, removed, known')"
  shows "understood (CreatureDesc c isKnown removed) cl \<and>
    known_ok U known' (client_hears (CreatureDesc c isKnown removed) cl)"
proof -
  consider (old) "c \<in> set known" | (room) "c \<notin> set known" "length known < 1300" | (full) "c \<notin> set known" "length known = 1300"
    using assms(1) by (force simp: known_ok_def)
  thus ?thesis
  proof cases
    case full
    have ord: "mset (ke_order K (c # known)) = mset (c # known)" by (rule assms(3))
    have ne: "known \<noteq> []" using full by auto
    have dist: "distinct (c # known)" using assms(1) full by (simp add: known_ok_def)
    obtain i where i: "(isKnown, removed, known') = (False, i, remove1 i (c # known))"
      "i \<in> set known \<or> i = c \<and> c \<in> U"
    proof (cases "List.find (\<lambda>i. \<not> ke_sees K i) (ke_order K (c # known))")
      case None
      from first_but_other [OF ord dist ne] None assms(5) full that show thesis
        by (auto simp: checkCreatureAsKnown_def Let_def)
    next
      case (Some i)
      hence "i \<in> set (ke_order K (c # known))" "\<not> ke_sees K i"
        by (auto simp: find_Some_iff)
      hence "i \<in> set known \<or> i = c \<and> c \<in> U"
        using assms(4) mset_eq_setD [OF ord] by auto
      with Some assms(5) full that show thesis
        by (auto simp: checkCreatureAsKnown_def Let_def)
    qed
    thus ?thesis
      using assms(1,2) full dist
      by (cases "i = c") (auto simp: known_ok_def length_remove1 set_remove1_eq)
  qed (use assms(1,2,5) in \<open>auto simp: checkCreatureAsKnown_def Let_def known_ok_def\<close>)
qed

lemma show_creatures_known:
  assumes "\<forall>(K, c) \<in> set rs. 0 < c \<and> (\<forall>ids. mset (ke_order K ids) = mset ids)"
    "\<forall>(K, c) \<in> set rs. ke_sees K c \<or> c \<in> U"
  shows "known_ok U known cl \<Longrightarrow> show_creatures rs known = (ds, known') \<Longrightarrow>
   fst (client_run ds cl) \<and> known_ok U known' (snd (client_run ds cl))"
  using assms
proof (induction rs arbitrary: known cl ds)
  case (Cons p rs)
  obtain K c where p: "p = (K, c)" by (cases p)
  obtain k r known1 where chk: "checkCreatureAsKnown K c known = (k, r, known1)"
    by (cases "checkCreatureAsKnown K c known")
  obtain ds1 where ds: "show_creatures rs known1 = (ds1, known')" "ds = CreatureDesc c k r # ds1"
    using Cons.prems(2) chk by (auto simp: p split: prod.splits)
  have "understood (CreatureDesc c k r) cl \<and> known_ok U known1 (client_hears (CreatureDesc c k r) cl)"
    using Cons.prems(3,4) by (intro check_known [OF Cons.prems(1) _ _ _ chk]) (auto simp: p)
  with Cons.IH [OF _ ds(1)] Cons.prems(3,4) show ?case
    unfolding ds(2) by (auto simp: case_prod_beta simp del: client_hears.simps understood.simps)
qed simp

section \<open>Properties\<close>

text \<open>
  C12. A client that reads the description of a region, with its markers for places without a
  tile, gets back every place of the region with what is there: nothing is shifted or lost, however many
  places in a row have no tile.
\<close>
theorem map_description_reads_back:
  "map_prod expand id (GetMapDescription D x y z width height s) = describe_all D (map_coords x y z width height) s"
  using GetMapDescription_reads [of D x y z width height s] by (cases "GetMapDescription D x y z width height s") simp

text \<open>
  C14. The full map a player is sent describes exactly the places that the protocol counts as seen by him,
  each once: what \<open>sendMapDescription\<close> sends from his position reads back, place by place, as the
  places in his view.
\<close>
theorem map_description_is_view:
  "\<exists>ps. distinct ps \<and> set ps = {(x, y, z). 0 \<le> z \<and> z \<le> 15 \<and> protocol_canSee me x y z} \<and>
     (\<forall>D (s :: 's). \<exists>ts s'. sendMapDescription D me me s = ([FullMap me ts], s') \<and>
        describe_all D ps s = (expand ts, s'))"
proof -
  let ?ps = "map_coords (uint (px me) - 8) (uint (py me) - 6) (uint (pz me)) 18 14"
  have "set ?ps = {(x, y, z). 0 \<le> z \<and> z \<le> 15 \<and> protocol_canSee me x y z}"
    unfolding map_is_view by (auto simp: in_view_def)
  moreover have "\<exists>ts s'. sendMapDescription D me me s = ([FullMap me ts], s') \<and>
      describe_all D ?ps s = (expand ts, s')" for D :: "'s describer" and s
    using GetMapDescription_reads [of D "uint (px me) - 8" "uint (py me) - 6" "uint (pz me)" 18 14 s]
    by (cases "GetMapDescription D (uint (px me) - 8) (uint (py me) - 6) (uint (pz me)) 18 14 s")
      (simp add: sendMapDescription_def GameView.part_def)
  ultimately show ?thesis using distinct_map_coords by blast
qed

text \<open>
  C13. When a player makes a step, diagonally and to the floor above or below too, that is no teleport
  and starts among the first ten things of its tile (otherwise the full map is sent), whatever comes into
  his view is in the rows, columns and floors that are sent, and what is sent can be read.
\<close>
theorem steps_show_what_comes_into_view:
  assumes "\<bar>uint (px newPos) - uint (px oldPos)\<bar> \<le> 1" "\<bar>uint (py newPos) - uint (py oldPos)\<bar> \<le> 1"
    "\<bar>uint (pz newPos) - uint (pz oldPos)\<bar> \<le> 1" "uint (pz newPos) \<le> 15" "uint (pz oldPos) \<le> 15"
    "in_view newPos q" "oldStackPos < 10"
  shows "(in_view oldPos q \<or> q \<in> set (step_coords newPos oldPos)) \<and>
    map_prod told id (sendOwnMove D newPos oldPos oldStackPos False s) = describe_all D (step_coords newPos oldPos) s"
proof -
  obtain a b c where q: "q = (a, b, c)" by (cases q)
  consider "uint (pz newPos) = uint (pz oldPos)" | "uint (pz newPos) = uint (pz oldPos) + 1"
    | "uint (pz oldPos) = uint (pz newPos) + 1"
    using assms(3) by linarith
  hence "in_view oldPos q \<or> q \<in> set (step_coords newPos oldPos)"
  proof cases
    case 1
    hence "pz newPos = pz oldPos" by (simp add: word_uint_eq_iff)
    thus ?thesis using step_same_floor assms by blast
  next
    case 2
    thus ?thesis using step_down [OF 2 assms(1,2) _ assms(4)] assms(6) unfolding q by blast
  next
    case 3
    thus ?thesis using step_up [OF 3 assms(1,2) _ assms(5)] assms(6) unfolding q by blast
  qed
  moreover have "tells D (sendOwnMove D newPos oldPos oldStackPos False) (step_coords newPos oldPos)"
    by (rule sendOwnMove_tells [OF assms(7)])
  ultimately show ?thesis
    by (simp add: tells_def)
qed

definition demo_known :: known_env where
  "demo_known = \<lparr>ke_sees = (\<lambda>i. True), ke_order = (\<lambda>ids. ids)\<rparr>"

definition demo_place :: "nat \<Rightarrow> nat \<Rightarrow> nat \<Rightarrow> position" where
  "demo_place x y z = \<lparr>px = of_nat x, py = of_nat y, pz = of_nat z\<rparr>"

theorem steps_show_what_comes_into_view_witness:
  "(in_view (demo_place 100 100 8) (110, 100, 7) \<or>
    (110, 100, 7) \<in> set (step_coords (demo_place 101 101 7) (demo_place 100 100 8))) \<and>
   map_prod told id (sendOwnMove (\<lambda>p u. None) (demo_place 101 101 7) (demo_place 100 100 8) 1 False ()) =
     describe_all (\<lambda>p u. None) (step_coords (demo_place 101 101 7) (demo_place 100 100 8)) ()"
  using steps_show_what_comes_into_view [of "demo_place 101 101 7" "demo_place 100 100 8" "(110, 100, 7)" 1 "\<lambda>p u. None" "()"]
  by (simp add: demo_place_def map_view_iff)

text \<open>
C15. A creature that a player sees on a tile is described at the place among the things of the tile
  where the server counts it for that client, as long as this is one of the first ten; only the tenth
  place of the tile the player stands on shows the player himself instead, unless he has one of the
  nine places before.
\<close>
theorem creatures_where_the_server_counts:
  assumes "creature \<in> set (tl_creatures t)" "canSeeCreature C me creature"
    "getClientIndexOfCreature C t me creature < 10"
  shows "\<exists>k r. nat (getClientIndexOfCreature C t me creature) <
      length (fst (GetTileDescription K (canSeeCreature C me) me own t known)) \<and>
    fst (GetTileDescription K (canSeeCreature C me) me own t known) ! nat (getClientIndexOfCreature C t me creature) =
      CreatureDesc
        (if own \<and> getClientIndexOfCreature C t me creature = 9 \<and>
            \<not> (me \<in> set (tl_creatures t) \<and> getClientIndexOfCreature C t me me < 9)
         then me else creature) k r"
proof -
  define ground where "ground = (case tl_ground t of None \<Rightarrow> [] | Some g \<Rightarrow> [ItemDesc g])"
  have gl: "length ground = ground_count t" "ground_count t \<le> 1"
    by (auto simp: ground_def ground_count_def split: option.split)
  let ?n = "ground_count t + length (topItems t)" and ?sees = "canSeeCreature C me"
  let ?i = "client_index ?sees creature ?n (rev (tl_creatures t))"
  have mem: "creature \<in> set (rev (tl_creatures t))" using assms(1) by simp
  have lt: "?i < 10" using assms(3) by (simp add: getClientIndexOfCreature_def)
  hence n: "?n < 10" using client_index_member [OF mem, of ?n ?sees] by linarith
  have tops: "describe_tops own (length ground) (topItems t) = (map ItemDesc (topItems t), ?n, False)"
  proof (cases "own \<and> ?n = 9")
    case True
    hence "9 - ground_count t = length (topItems t)" by linarith
    with True tops_own [of "ground_count t" "topItems t"] gl show ?thesis by simp
  next
    case False
    with n tops_all [of "ground_count t" "topItems t" own] gl show ?thesis by auto
  qed
  obtain ds n' stop known' where d: "describe_creatures K ?sees me own False ?n known (rev (tl_creatures t)) =
      (ds, n', stop, known')"
    by (cases "describe_creatures K ?sees me own False ?n known (rev (tl_creatures t))")
  have me: "?sees me" by (simp add: canSeeCreature_def)
  define who where "who = (if own \<and> getClientIndexOfCreature C t me creature = 9 \<and>
      \<not> (me \<in> set (tl_creatures t) \<and> getClientIndexOfCreature C t me me < 9) then me else creature)"
  have shown: "shown_at ?sees me own False ?n (rev (tl_creatures t)) creature = who"
    by (simp add: shown_at_def who_def getClientIndexOfCreature_def)
  note at = creatures_at_index [OF me assms(2) mem lt d, unfolded shown]
  have all: "fst (GetTileDescription K ?sees me own t known) =
      (ground @ map ItemDesc (topItems t)) @ ds @ (if stop then [] else describe_downs n' (downItems t))"
    by (simp add: GetTileDescription_def ground_def[symmetric] tops d Let_def)
  have len: "length (ground @ map ItemDesc (topItems t)) = ?n"
    by (simp add: gl)
  have ge: "int ?n \<le> ?i" by (rule client_index_member [OF mem])
  show ?thesis
    unfolding who_def [symmetric] unfolding all getClientIndexOfCreature_def
    using at nth_middle_part [OF len _ at [THEN conjunct1]] ge by (simp add: le_nat_iff)
qed

definition demo_creatures :: creature_env where
  "demo_creatures =
     \<lparr>ce_info = (\<lambda>c. \<lparr>ci_kind = PlayerKind, ci_ghost = False, ci_invisible = False, ci_access = False,
        ci_seeInvisible = False, ci_level = 8, ci_pos = demo_place 1 1 7, ci_tile = None,
        ci_pzLocked = False, ci_pushable = True, ci_master = None, ci_pushCreatures = False,
        ci_pushItems = False, ci_immune = (\<lambda>_. False), ci_walksField = (\<lambda>_. False), ci_ignoresField = False\<rparr>),
      ce_protection = 1, ce_now = 0, ce_fieldDamage = (\<lambda>_. 0), ce_fieldCombat = (\<lambda>_. 0)\<rparr>"

definition demo_full_tile :: tile where
  "demo_full_tile =
     \<lparr>tl_ground = Some 1, tl_items = [2, 3, 4], tl_down = 1, tl_creatures = [100, 101], tl_flags = 0,
      tl_objs = (\<lambda>x. \<lparr>to_item = \<lparr>item_id = 1, item_count = 1, item_attrs = None\<rparr>, to_class = PlainItem, to_parent = None\<rparr>)\<rparr>"

theorem creatures_where_the_server_counts_witness:
  "\<exists>k r. nat (getClientIndexOfCreature demo_creatures demo_full_tile 100 101) <
      length (fst (GetTileDescription demo_known (canSeeCreature demo_creatures 100) 100 True demo_full_tile [])) \<and>
    fst (GetTileDescription demo_known (canSeeCreature demo_creatures 100) 100 True demo_full_tile []) !
      nat (getClientIndexOfCreature demo_creatures demo_full_tile 100 101) = CreatureDesc 101 k r"
proof -
  have mem: "101 \<in> set (tl_creatures demo_full_tile)" by (simp add: demo_full_tile_def)
  have sees: "canSeeCreature demo_creatures 100 101" by (simp add: canSeeCreature_def demo_creatures_def is_ghost_def is_player_def)
  have idx: "getClientIndexOfCreature demo_creatures demo_full_tile 100 101 = 3"
    by (simp add: getClientIndexOfCreature_def demo_full_tile_def ground_count_def topItems_def sees)
  show ?thesis
    using creatures_where_the_server_counts [OF mem sees, of demo_known True "[]"] by (simp add: idx)
qed

text \<open>
  C17. However full the tile is on which a player stands, he himself is among the things his
  client is told of it.
\<close>
theorem own_creature_is_described:
  assumes "me \<in> set (tl_creatures t)"
  shows "\<exists>k r. CreatureDesc me k r \<in> set (fst (GetTileDescription K (canSeeCreature C me) me True t known))"
proof -
  define ground where "ground = (case tl_ground t of None \<Rightarrow> [] | Some g \<Rightarrow> [ItemDesc g])"
  have "length ground \<le> 1" by (simp add: ground_def split: option.split)
  then obtain tops n where tops: "describe_tops True (length ground) (topItems t) = (tops, n, False)" "n \<le> 9"
    using tops_own [of "length ground" "topItems t"] tops_all [of "length ground" "topItems t" True]
    by (cases "9 \<le> length ground + length (topItems t)") auto
  have "canSeeCreature C me me" by (simp add: canSeeCreature_def)
  from own_creature_in [where sees = "canSeeCreature C me" and cs = "rev (tl_creatures t)" and K = K and known = known,
      OF _ this tops(2)] assms show ?thesis
    by (auto simp: GetTileDescription_def ground_def[symmetric] tops(1) Let_def split: prod.split) blast+
qed

theorem own_creature_is_described_witness:
  "\<exists>k r. CreatureDesc 100 k r \<in>
     set (fst (GetTileDescription demo_known (canSeeCreature demo_creatures 100) 100 True demo_full_tile []))"
  by (rule own_creature_is_described) (simp add: demo_full_tile_def)

text \<open>
  C16. A client never hears of a creature as known that it does not know: after any creatures were
  shown to it, beginning with none, and in whatever order the set is walked, every creature the server
  holds for known is known to the client; there are at most 1300 of them, each once. The client
  knows no others, but for such that were shown to it when the server did not count them as
  seen: those the server may forget while the client learns of them.
\<close>
theorem client_knows_its_creatures:
  assumes "\<forall>(K, c) \<in> set rs. 0 < c \<and> (\<forall>ids. mset (ke_order K ids) = mset ids)"
    "show_creatures rs [] = (ds, known)"
  shows "fst (client_run ds {}) \<and> set known \<subseteq> snd (client_run ds {}) \<and>
    snd (client_run ds {}) - set known \<subseteq> {c. \<exists>K. (K, c) \<in> set rs \<and> \<not> ke_sees K c} \<and>
    distinct known \<and> length known \<le> 1300"
proof -
  let ?U = "{c. \<exists>K. (K, c) \<in> set rs \<and> \<not> ke_sees K c}"
  have "known_ok ?U [] {}" by (simp add: known_ok_def)
  moreover have "\<forall>(K, c) \<in> set rs. ke_sees K c \<or> c \<in> ?U" by auto
  ultimately have "fst (client_run ds {}) \<and> known_ok ?U known (snd (client_run ds {}))"
    using show_creatures_known [OF assms(1) _ _ assms(2), of ?U "{}"] by blast
  then show ?thesis by (auto simp: known_ok_def)
qed

theorem client_knows_its_creatures_witness:
  "fst (client_run [CreatureDesc 7 False 0, CreatureDesc 8 False 0, CreatureDesc 7 True 0] {}) \<and>
   set [8, 7] \<subseteq> snd (client_run [CreatureDesc 7 False 0, CreatureDesc 8 False 0, CreatureDesc 7 True 0] {})"
proof -
  have rs: "\<forall>(K, c) \<in> set [(demo_known, 7 :: nat), (demo_known, 8), (demo_known, 7)].
      0 < c \<and> (\<forall>ids. mset (ke_order K ids) = mset ids)"
    by (simp add: demo_known_def)
  have "show_creatures [(demo_known, 7), (demo_known, 8), (demo_known, 7)] [] =
      ([CreatureDesc 7 False 0, CreatureDesc 8 False 0, CreatureDesc 7 True 0], [8, 7])"
    by (simp add: demo_known_def checkCreatureAsKnown_def)
  from client_knows_its_creatures [OF rs this] show ?thesis by blast
qed

end
