(* ===== verification/GameParse.thy ===== *)
theory GameParse imports NetMsgProps Conditions "HOL-Library.State_Monad" "HOL-Library.Monad_Syntax" begin

text \<open>
  What the server makes of the packets of a client (protocolgame.cpp): every parse function reads its
  fields from the message and hands a call of the game to the dispatcher. The parsers are state
  monads over the message. A call is a value of \<open>game_command\<close>, without the id of the player, which is
  always the one of the connection; \<open>Timed\<close> calls expire.
\<close>

section \<open>Calls of the game\<close>

datatype (plugins only: code size) game_command =
    PlayerReceivePingBack | PlayerReceivePing | PlayerMove direction | PlayerStopAutoWalk | PlayerTurn direction
  | PlayerCloseShop | PlayerAcceptTrade | PlayerCloseTrade | PlayerRequestChannels | PlayerCloseNpcChannel
  | PlayerLeaveParty | PlayerCreatePrivateChannel | PlayerCancelAttackAndFollow | PlayerRequestOutfit
  | PlayerShowQuestLog | PlayerLeaveMarket | ParsePlayerExtendedOpcode u8 bytes | PlayerAutoWalk "direction list"
  | PlayerEquipItem u16 | PlayerMoveThing position u16 u8 position u8 | PlayerLookInShop u16 u8
  | PlayerPurchaseItem u16 u8 u8 bool bool | PlayerSellItem u16 u8 u8 bool | PlayerRequestTrade position u8 u32 u16
  | PlayerLookInTrade bool u8 | PlayerUseItem position u8 u8 u16 | PlayerUseItemEx position u8 u16 position u8 u16
  | PlayerUseWithCreature position u8 u32 u16 | PlayerRotateItem position u8 u16 | PlayerCloseContainer u8
  | PlayerMoveUpContainer u8 | PlayerWriteItem u32 bytes | PlayerUpdateHouseWindow u8 u32 bytes
  | PlayerLookAt position u8 | PlayerLookInBattleList u32 | PlayerSay u16 u8 bytes bytes | PlayerOpenChannel u16
  | PlayerCloseChannel u16 | PlayerOpenPrivateChannel bytes | PlayerSetFightModes nat bool bool
  | PlayerSetAttackedCreature u32 | PlayerFollowCreature u32 | PlayerInviteToParty u32 | PlayerJoinParty u32
  | PlayerRevokePartyInvitation u32 | PlayerPassPartyLeadership u32 | PlayerEnableSharedPartyExperience bool
  | PlayerChannelInvite bytes | PlayerChannelExclude bytes | PlayerUpdateContainer u8 | PlayerBrowseField position
  | PlayerSeekInContainer u8 u16 | PlayerChangeOutfit outfit | PlayerToggleMount bool | PlayerRequestAddVip bytes
  | PlayerRequestRemoveVip u32 | PlayerRequestEditVip u32 bytes u32 bool | PlayerReportBug bytes position u8
  | PlayerDebugAssert bytes bytes bytes bytes | PlayerShowQuestLine u16
  | PlayerReportRuleViolation bytes u8 u8 bytes bytes | PlayerBrowseMarketOwnOffers | PlayerBrowseMarketOwnHistory
  | PlayerBrowseMarket u16 | PlayerCreateMarketOffer u8 u16 u16 u32 bool | PlayerCancelMarketOffer u32 u16
  | PlayerAcceptMarketOffer u32 u16 u16 | PlayerAnswerModalWindow u32 u8 u8

datatype packet_action = Disconnect | Logout | Task game_command | Timed game_command

section \<open>Reading fields\<close>

type_synonym 'a message_reader = "(netmsg, 'a) state"

definition getByte :: "u8 message_reader" where "getByte = State nm_getByte"
definition get16 :: "u16 message_reader" where "get16 = State (nm_get 2)"
definition get32 :: "u32 message_reader" where "get32 = State (nm_get 4)"
definition getString :: "bytes message_reader" where "getString = State (nm_getString 0)"
definition getPosition :: "position message_reader" where "getPosition = State nm_getPosition"

definition skipBytes :: "u16 \<Rightarrow> unit message_reader" where
  "skipBytes n = State (\<lambda>m. ((), nm_skipBytes n m))"

type_synonym packet_parser = "packet_action list message_reader"

definition addGameTask :: "game_command \<Rightarrow> packet_parser" where
  "addGameTask c = State_Monad.return [Task c]"

definition addGameTaskTimed :: "game_command \<Rightarrow> packet_parser" where
  "addGameTaskTimed c = State_Monad.return [Timed c]"

definition nothing :: packet_parser where
  "nothing = State_Monad.return []"

section \<open>Parse functions\<close>

definition parseChannelInvite :: packet_parser where
  "parseChannelInvite =
     do { name \<leftarrow> getString; addGameTask (PlayerChannelInvite name) }"

definition parseChannelExclude :: packet_parser where
  "parseChannelExclude =
     do { name \<leftarrow> getString; addGameTask (PlayerChannelExclude name) }"

definition parseOpenChannel :: packet_parser where
  "parseOpenChannel =
     do { channelId \<leftarrow> get16; addGameTask (PlayerOpenChannel channelId) }"

definition parseCloseChannel :: packet_parser where
  "parseCloseChannel =
     do { channelId \<leftarrow> get16; addGameTask (PlayerCloseChannel channelId) }"

definition parseOpenPrivateChannel :: packet_parser where
  "parseOpenPrivateChannel =
     do { receiver \<leftarrow> getString; addGameTask (PlayerOpenPrivateChannel receiver) }"

definition parseSetOutfit :: packet_parser where
  "parseSetOutfit =
     do { look \<leftarrow> get16; head \<leftarrow> getByte; body \<leftarrow> getByte; legs \<leftarrow> getByte; feet \<leftarrow> getByte;
          addons \<leftarrow> getByte; mount \<leftarrow> get16;
          addGameTask (PlayerChangeOutfit (new_outfit\<lparr>lookType := look, lookHead := head, lookBody := body,
            lookLegs := legs, lookFeet := feet, lookAddons := addons, lookMount := mount\<rparr>)) }"

definition parseToggleMount :: packet_parser where
  "parseToggleMount =
     do { mount \<leftarrow> getByte; addGameTask (PlayerToggleMount (mount \<noteq> 0)) }"

definition parseUseItem :: packet_parser where
  "parseUseItem =
     do { pos \<leftarrow> getPosition; spriteId \<leftarrow> get16; stackpos \<leftarrow> getByte; index \<leftarrow> getByte;
          addGameTaskTimed (PlayerUseItem pos stackpos index spriteId) }"

definition parseUseItemEx :: packet_parser where
  "parseUseItemEx =
     do { fromPos \<leftarrow> getPosition; fromSpriteId \<leftarrow> get16; fromStackPos \<leftarrow> getByte;
          toPos \<leftarrow> getPosition; toSpriteId \<leftarrow> get16; toStackPos \<leftarrow> getByte;
          addGameTaskTimed (PlayerUseItemEx fromPos fromStackPos fromSpriteId toPos toStackPos toSpriteId) }"

definition parseUseWithCreature :: packet_parser where
  "parseUseWithCreature =
     do { fromPos \<leftarrow> getPosition; spriteId \<leftarrow> get16; fromStackPos \<leftarrow> getByte; creatureId \<leftarrow> get32;
          addGameTaskTimed (PlayerUseWithCreature fromPos fromStackPos creatureId spriteId) }"

definition parseCloseContainer :: packet_parser where
  "parseCloseContainer =
     do { cid \<leftarrow> getByte; addGameTask (PlayerCloseContainer cid) }"

definition parseUpArrowContainer :: packet_parser where
  "parseUpArrowContainer =
     do { cid \<leftarrow> getByte; addGameTask (PlayerMoveUpContainer cid) }"

definition parseUpdateContainer :: packet_parser where
  "parseUpdateContainer =
     do { cid \<leftarrow> getByte; addGameTask (PlayerUpdateContainer cid) }"

definition parseThrow :: packet_parser where
  "parseThrow =
     do { fromPos \<leftarrow> getPosition; spriteId \<leftarrow> get16; fromStackpos \<leftarrow> getByte; toPos \<leftarrow> getPosition;
          count \<leftarrow> getByte;
          (if toPos \<noteq> fromPos then addGameTaskTimed (PlayerMoveThing fromPos spriteId fromStackpos toPos count) else nothing) }"

definition parseLookAt :: packet_parser where
  "parseLookAt =
     do { pos \<leftarrow> getPosition; _ \<leftarrow> skipBytes 2; stackpos \<leftarrow> getByte; addGameTaskTimed (PlayerLookAt pos stackpos) }"

definition parseLookInBattleList :: packet_parser where
  "parseLookInBattleList =
     do { creatureId \<leftarrow> get32; addGameTaskTimed (PlayerLookInBattleList creatureId) }"

definition TALKTYPE_PRIVATE_TO :: u8 where "TALKTYPE_PRIVATE_TO = 5"
definition TALKTYPE_CHANNEL_Y :: u8 where "TALKTYPE_CHANNEL_Y = 7"
definition TALKTYPE_CHANNEL_R1 :: u8 where "TALKTYPE_CHANNEL_R1 = 14"
definition TALKTYPE_PRIVATE_RED_TO :: u8 where "TALKTYPE_PRIVATE_RED_TO = 16"

definition parseSay :: packet_parser where
  "parseSay =
     do { type \<leftarrow> getByte;
          (receiver, channelId) \<leftarrow>
            (if type \<in> {TALKTYPE_PRIVATE_TO, TALKTYPE_PRIVATE_RED_TO} then
               do { receiver \<leftarrow> getString; State_Monad.return (receiver, 0) }
             else if type \<in> {TALKTYPE_CHANNEL_Y, TALKTYPE_CHANNEL_R1} then
               do { channelId \<leftarrow> get16; State_Monad.return ([], channelId) }
             else State_Monad.return ([], 0));
          text \<leftarrow> getString;
          (if 255 < length text then nothing else addGameTask (PlayerSay channelId type receiver text)) }"

definition parseFightModes :: packet_parser where
  "parseFightModes =
     do { rawFightMode \<leftarrow> getByte; rawChaseMode \<leftarrow> getByte; rawSecureMode \<leftarrow> getByte;
          addGameTask (PlayerSetFightModes (if rawFightMode = 1 then 1 else if rawFightMode = 2 then 2 else 3)
            (rawChaseMode \<noteq> 0) (rawSecureMode \<noteq> 0)) }"

definition parseAttack :: packet_parser where
  "parseAttack =
     do { creatureId \<leftarrow> get32; addGameTask (PlayerSetAttackedCreature creatureId) }"

definition parseFollow :: packet_parser where
  "parseFollow =
     do { creatureId \<leftarrow> get32; addGameTask (PlayerFollowCreature creatureId) }"

definition parseEquipObject :: packet_parser where
  "parseEquipObject =
     do { spriteId \<leftarrow> get16; addGameTaskTimed (PlayerEquipItem spriteId) }"

definition parseTextWindow :: packet_parser where
  "parseTextWindow =
     do { windowTextId \<leftarrow> get32; newText \<leftarrow> getString; addGameTask (PlayerWriteItem windowTextId newText) }"

definition parseHouseWindow :: packet_parser where
  "parseHouseWindow =
     do { doorId \<leftarrow> getByte; hid \<leftarrow> get32; text \<leftarrow> getString;
          addGameTask (PlayerUpdateHouseWindow doorId hid text) }"

definition parseLookInShop :: packet_parser where
  "parseLookInShop =
     do { itemId \<leftarrow> get16; count \<leftarrow> getByte; addGameTaskTimed (PlayerLookInShop itemId count) }"

definition parsePlayerPurchase :: packet_parser where
  "parsePlayerPurchase =
     do { itemId \<leftarrow> get16; count \<leftarrow> getByte; amount \<leftarrow> getByte; ignoreCap \<leftarrow> getByte;
          inBackpacks \<leftarrow> getByte;
          addGameTaskTimed (PlayerPurchaseItem itemId count amount (ignoreCap \<noteq> 0) (inBackpacks \<noteq> 0)) }"

definition parsePlayerSale :: packet_parser where
  "parsePlayerSale =
     do { itemId \<leftarrow> get16; count \<leftarrow> getByte; amount \<leftarrow> getByte; ignoreEquipped \<leftarrow> getByte;
          addGameTaskTimed (PlayerSellItem itemId count amount (ignoreEquipped \<noteq> 0)) }"

definition parseRequestTrade :: packet_parser where
  "parseRequestTrade =
     do { pos \<leftarrow> getPosition; spriteId \<leftarrow> get16; stackpos \<leftarrow> getByte; playerId \<leftarrow> get32;
          addGameTask (PlayerRequestTrade pos stackpos playerId spriteId) }"

definition parseLookInTrade :: packet_parser where
  "parseLookInTrade =
     do { counterOffer \<leftarrow> getByte; index \<leftarrow> getByte; addGameTaskTimed (PlayerLookInTrade (counterOffer = 1) index) }"

definition parseAddVip :: packet_parser where
  "parseAddVip =
     do { name \<leftarrow> getString; addGameTask (PlayerRequestAddVip name) }"

definition parseRemoveVip :: packet_parser where
  "parseRemoveVip =
     do { guid \<leftarrow> get32; addGameTask (PlayerRequestRemoveVip guid) }"

definition parseEditVip :: packet_parser where
  "parseEditVip =
     do { guid \<leftarrow> get32; description \<leftarrow> getString; icon \<leftarrow> get32; notify \<leftarrow> getByte;
          addGameTask (PlayerRequestEditVip guid description (min 10 icon) (notify \<noteq> 0)) }"

definition parseRotateItem :: packet_parser where
  "parseRotateItem =
     do { pos \<leftarrow> getPosition; spriteId \<leftarrow> get16; stackpos \<leftarrow> getByte;
          addGameTaskTimed (PlayerRotateItem pos stackpos spriteId) }"

definition parseRuleViolationReport :: packet_parser where
  "parseRuleViolationReport =
     do { reportType \<leftarrow> getByte; reportReason \<leftarrow> getByte; targetName \<leftarrow> getString; comment \<leftarrow> getString;
          translation \<leftarrow>
            (if reportType = 0 then getString
             else if reportType = 1 then
               do { translation \<leftarrow> getString; _ \<leftarrow> get32; State_Monad.return translation }
             else State_Monad.return []);
          addGameTask (PlayerReportRuleViolation targetName reportType reportReason comment translation) }"

definition parseBugReport :: packet_parser where
  "parseBugReport =
     do { category \<leftarrow> getByte; message \<leftarrow> getString;
          position \<leftarrow> (if category = 0 then getPosition else State_Monad.return \<lparr>px = 0, py = 0, pz = 0\<rparr>);
          addGameTask (PlayerReportBug message position category) }"

definition parseInviteToParty :: packet_parser where
  "parseInviteToParty =
     do { targetId \<leftarrow> get32; addGameTask (PlayerInviteToParty targetId) }"

definition parseJoinParty :: packet_parser where
  "parseJoinParty =
     do { targetId \<leftarrow> get32; addGameTask (PlayerJoinParty targetId) }"

definition parseRevokePartyInvite :: packet_parser where
  "parseRevokePartyInvite =
     do { targetId \<leftarrow> get32; addGameTask (PlayerRevokePartyInvitation targetId) }"

definition parsePassPartyLeadership :: packet_parser where
  "parsePassPartyLeadership =
     do { targetId \<leftarrow> get32; addGameTask (PlayerPassPartyLeadership targetId) }"

definition parseEnableSharedPartyExperience :: packet_parser where
  "parseEnableSharedPartyExperience =
     do { active \<leftarrow> getByte; addGameTask (PlayerEnableSharedPartyExperience (active = 1)) }"

definition parseQuestLine :: packet_parser where
  "parseQuestLine =
     do { questId \<leftarrow> get16; addGameTask (PlayerShowQuestLine questId) }"

definition parseMarketLeave :: packet_parser where
  "parseMarketLeave = addGameTask PlayerLeaveMarket"

definition parseMarketBrowse :: packet_parser where
  "parseMarketBrowse =
     do { browseId \<leftarrow> get16;
          (if browseId = 0xFFFE then addGameTask PlayerBrowseMarketOwnOffers
           else if browseId = 0xFFFF then addGameTask PlayerBrowseMarketOwnHistory
           else addGameTask (PlayerBrowseMarket browseId)) }"

definition parseMarketCreateOffer :: packet_parser where
  "parseMarketCreateOffer =
     do { type \<leftarrow> getByte; spriteId \<leftarrow> get16; amount \<leftarrow> get16; price \<leftarrow> get32; anonymous \<leftarrow> getByte;
          addGameTask (PlayerCreateMarketOffer type spriteId amount price (anonymous \<noteq> 0)) }"

definition parseMarketCancelOffer :: packet_parser where
  "parseMarketCancelOffer =
     do { timestamp \<leftarrow> get32; counter \<leftarrow> get16; addGameTask (PlayerCancelMarketOffer timestamp counter) }"

definition parseMarketAcceptOffer :: packet_parser where
  "parseMarketAcceptOffer =
     do { timestamp \<leftarrow> get32; counter \<leftarrow> get16; amount \<leftarrow> get16;
          addGameTask (PlayerAcceptMarketOffer timestamp counter amount) }"

definition parseModalWindowAnswer :: packet_parser where
  "parseModalWindowAnswer =
     do { wid \<leftarrow> get32; button \<leftarrow> getByte; choice \<leftarrow> getByte;
          addGameTask (PlayerAnswerModalWindow wid button choice) }"

definition parseBrowseField :: packet_parser where
  "parseBrowseField =
     do { pos \<leftarrow> getPosition; addGameTask (PlayerBrowseField pos) }"

definition parseSeekInContainer :: packet_parser where
  "parseSeekInContainer =
     do { containerId \<leftarrow> getByte; index \<leftarrow> get16; addGameTask (PlayerSeekInContainer containerId index) }"

definition parseExtendedOpcode :: packet_parser where
  "parseExtendedOpcode =
     do { opcode \<leftarrow> getByte; buffer \<leftarrow> getString; addGameTask (ParsePlayerExtendedOpcode opcode buffer) }"

text \<open>After the check that none was sent before.\<close>

definition parseDebugAssert :: packet_parser where
  "parseDebugAssert =
     do { assertLine \<leftarrow> getString; date \<leftarrow> getString; description \<leftarrow> getString; comment \<leftarrow> getString;
          addGameTask (PlayerDebugAssert assertLine date description comment) }"

text \<open>
  The path of an automatic walk is read from the end of the message; other bytes are dropped.
  \<open>None\<close> is a read outside of the buffer.
\<close>

definition path_direction :: "u8 \<Rightarrow> direction option" where
  "path_direction b =
     (if b = 1 then Some East else if b = 2 then Some NorthEast else if b = 3 then Some North
      else if b = 4 then Some NorthWest else if b = 5 then Some West else if b = 6 then Some SouthWest
      else if b = 7 then Some South else if b = 8 then Some SouthEast else None)"

fun read_path :: "nat \<Rightarrow> netmsg \<Rightarrow> direction list \<Rightarrow> (direction list \<times> netmsg) option" where
  "read_path 0 m path = Some (path, m)"
| "read_path (Suc n) m path =
     (case nm_getPreviousByte m of
        None \<Rightarrow> None
      | Some (b, m) \<Rightarrow>
          read_path n m (case path_direction b of None \<Rightarrow> path | Some d \<Rightarrow> d # path))"

definition parseAutoWalk :: "netmsg \<Rightarrow> (packet_action list \<times> netmsg) option" where
  "parseAutoWalk m =
     (let (numdirs, m) = nm_getByte m in
      if numdirs = 0 \<or> pos_of m + unat numdirs \<noteq> body_len m + 8 then Some ([], m)
      else
        (case read_path (unat numdirs) (nm_skipBytes (ucast numdirs) m) [] of
           None \<Rightarrow> None
         | Some (path, m) \<Rightarrow> Some (if path = [] then [] else [Task (PlayerAutoWalk path)], m)))"

section \<open>The dispatch\<close>

record protocol_game =
  pg_acceptPackets :: bool
  pg_player :: "(bool \<times> int) option"
  pg_debugAssertSent :: bool

text \<open>Whether the player was removed, and his health. The other packets by their first byte:\<close>

definition packet_table :: "(u8 \<times> packet_parser) list" where
  "packet_table =
     [(0x14, State_Monad.return [Logout]),
      (0x1D, addGameTask PlayerReceivePingBack), (0x1E, addGameTask PlayerReceivePing), (0x32, parseExtendedOpcode),
      (0x65, addGameTask (PlayerMove North)), (0x66, addGameTask (PlayerMove East)), (0x67, addGameTask (PlayerMove South)),
      (0x68, addGameTask (PlayerMove West)), (0x69, addGameTask PlayerStopAutoWalk),
      (0x6A, addGameTask (PlayerMove NorthEast)), (0x6B, addGameTask (PlayerMove SouthEast)),
      (0x6C, addGameTask (PlayerMove SouthWest)), (0x6D, addGameTask (PlayerMove NorthWest)),
      (0x6F, addGameTaskTimed (PlayerTurn North)), (0x70, addGameTaskTimed (PlayerTurn East)),
      (0x71, addGameTaskTimed (PlayerTurn South)), (0x72, addGameTaskTimed (PlayerTurn West)), (0x77, parseEquipObject),
      (0x78, parseThrow), (0x79, parseLookInShop), (0x7A, parsePlayerPurchase), (0x7B, parsePlayerSale),
      (0x7C, addGameTask PlayerCloseShop), (0x7D, parseRequestTrade), (0x7E, parseLookInTrade),
      (0x7F, addGameTask PlayerAcceptTrade), (0x80, addGameTask PlayerCloseTrade), (0x82, parseUseItem),
      (0x83, parseUseItemEx), (0x84, parseUseWithCreature), (0x85, parseRotateItem),
      (0x87, parseCloseContainer), (0x88, parseUpArrowContainer), (0x89, parseTextWindow),
      (0x8A, parseHouseWindow), (0x8C, parseLookAt), (0x8D, parseLookInBattleList), (0x96, parseSay),
      (0x97, addGameTask PlayerRequestChannels), (0x98, parseOpenChannel), (0x99, parseCloseChannel),
      (0x9A, parseOpenPrivateChannel), (0x9E, addGameTask PlayerCloseNpcChannel), (0xA0, parseFightModes),
      (0xA1, parseAttack), (0xA2, parseFollow), (0xA3, parseInviteToParty), (0xA4, parseJoinParty),
      (0xA5, parseRevokePartyInvite), (0xA6, parsePassPartyLeadership), (0xA7, addGameTask PlayerLeaveParty),
      (0xA8, parseEnableSharedPartyExperience), (0xAA, addGameTask PlayerCreatePrivateChannel),
      (0xAB, parseChannelInvite), (0xAC, parseChannelExclude), (0xBE, addGameTask PlayerCancelAttackAndFollow),
      (0xCA, parseUpdateContainer), (0xCB, parseBrowseField), (0xCC, parseSeekInContainer),
      (0xD2, addGameTask PlayerRequestOutfit), (0xD3, parseSetOutfit), (0xD4, parseToggleMount),
      (0xDC, parseAddVip), (0xDD, parseRemoveVip), (0xDE, parseEditVip), (0xE6, parseBugReport),
      (0xF0, addGameTaskTimed PlayerShowQuestLog), (0xF1, parseQuestLine), (0xF2, parseRuleViolationReport),
      (0xF4, parseMarketLeave), (0xF5, parseMarketBrowse), (0xF6, parseMarketCreateOffer),
      (0xF7, parseMarketCancelOffer), (0xF8, parseMarketAcceptOffer), (0xF9, parseModalWindowAnswer)]"

definition parse_body ::
  "u8 \<Rightarrow> protocol_game \<Rightarrow> netmsg \<Rightarrow> (packet_action list \<times> protocol_game \<times> netmsg) option" where
  "parse_body recvbyte s m =
     (if recvbyte = 0x64 then
        (case parseAutoWalk m of None \<Rightarrow> None | Some (as, m) \<Rightarrow> Some (as, s, m))
      else if recvbyte = 0xE8 then
        (if pg_debugAssertSent s then Some ([], s, m)
         else (case run_state parseDebugAssert m of (as, m) \<Rightarrow> Some (as, s\<lparr>pg_debugAssertSent := True\<rparr>, m)))
      else
        (case map_of packet_table recvbyte of
           None \<Rightarrow> Some ([], s, m)
         | Some p \<Rightarrow> (case run_state p m of (as, m) \<Rightarrow> Some (as, s, m))))"

definition parsePacket ::
  "bool \<Rightarrow> protocol_game \<Rightarrow> netmsg \<Rightarrow> (packet_action list \<times> protocol_game \<times> netmsg) option" where
  "parsePacket shutdown s m =
     (if \<not> pg_acceptPackets s \<or> shutdown \<or> nm_length m = 0 then Some ([], s, m)
      else
        let (recvbyte, m) = nm_getByte m in
        (case pg_player s of
           None \<Rightarrow> Some (if recvbyte = 0x0F then [Disconnect] else [], s, m)
         | Some (removed, health) \<Rightarrow>
             if (removed \<or> health \<le> 0) \<and> recvbyte = 0x0F then Some ([Disconnect], s, m)
             else if (removed \<or> health \<le> 0) \<and> recvbyte \<noteq> 0x14 then Some ([], s, m)
             else
               (case parse_body recvbyte s m of
                  None \<Rightarrow> None
                | Some (as, s, m) \<Rightarrow> Some (as @ (if nm_overrun m then [Disconnect] else []), s, m))))"

end
