(* ===== verification/GameParseProps.thy ===== *)
theory GameParseProps imports GameParse begin

text \<open>
  The protocol of the client as fields, and what the parsers owe to it: a command that a client
  writes is the command the game is asked to execute, nothing but such commands is executed, and
  no packet makes the server read outside of the buffer.
\<close>

section \<open>What a client writes\<close>

abbreviation flag :: "bool \<Rightarrow> field" where "flag b \<equiv> F8 (of_bool b)"

definition move_code :: "direction \<Rightarrow> u8" where
  "move_code d =
     (case d of North \<Rightarrow> 0x65 | East \<Rightarrow> 0x66 | South \<Rightarrow> 0x67 | West \<Rightarrow> 0x68 | NorthEast \<Rightarrow> 0x6A
      | SouthEast \<Rightarrow> 0x6B | SouthWest \<Rightarrow> 0x6C | NorthWest \<Rightarrow> 0x6D | NoDirection \<Rightarrow> 0)"

definition turn_code :: "direction \<Rightarrow> u8" where
  "turn_code d = (case d of North \<Rightarrow> 0x6F | East \<Rightarrow> 0x70 | South \<Rightarrow> 0x71 | West \<Rightarrow> 0x72 | _ \<Rightarrow> 0)"

definition path_code :: "direction \<Rightarrow> u8" where
  "path_code d =
     (case d of East \<Rightarrow> 1 | NorthEast \<Rightarrow> 2 | North \<Rightarrow> 3 | NorthWest \<Rightarrow> 4 | West \<Rightarrow> 5 | SouthWest \<Rightarrow> 6
      | South \<Rightarrow> 7 | SouthEast \<Rightarrow> 8 | NoDirection \<Rightarrow> 0)"

definition say_fields :: "u16 \<Rightarrow> u8 \<Rightarrow> bytes \<Rightarrow> field list" where
  "say_fields channelId type receiver =
     (if type \<in> {TALKTYPE_PRIVATE_TO, TALKTYPE_PRIVATE_RED_TO} then [FStr receiver]
      else if type \<in> {TALKTYPE_CHANNEL_Y, TALKTYPE_CHANNEL_R1} then [F16 channelId] else [])"

definition translation_fields :: "u8 \<Rightarrow> bytes \<Rightarrow> field list" where
  "translation_fields reportType translation =
     (if reportType = 0 then [FStr translation]
      else if reportType = 1 then [FStr translation, F32 0] else [])"

primrec client_packet :: "game_command \<Rightarrow> u8 \<times> field list" where
  "client_packet PlayerReceivePingBack = (0x1D, [])"
| "client_packet PlayerReceivePing = (0x1E, [])"
| "client_packet (PlayerMove d) = (move_code d, [])"
| "client_packet PlayerStopAutoWalk = (0x69, [])"
| "client_packet (PlayerTurn d) = (turn_code d, [])"
| "client_packet PlayerCloseShop = (0x7C, [])"
| "client_packet PlayerAcceptTrade = (0x7F, [])"
| "client_packet PlayerCloseTrade = (0x80, [])"
| "client_packet PlayerRequestChannels = (0x97, [])"
| "client_packet PlayerCloseNpcChannel = (0x9E, [])"
| "client_packet PlayerLeaveParty = (0xA7, [])"
| "client_packet PlayerCreatePrivateChannel = (0xAA, [])"
| "client_packet PlayerCancelAttackAndFollow = (0xBE, [])"
| "client_packet PlayerRequestOutfit = (0xD2, [])"
| "client_packet PlayerShowQuestLog = (0xF0, [])"
| "client_packet PlayerLeaveMarket = (0xF4, [])"
| "client_packet (ParsePlayerExtendedOpcode opcode buffer) = (0x32, [F8 opcode, FStr buffer])"
| "client_packet (PlayerAutoWalk path) = (0x64, F8 (of_nat (length path)) # map (\<lambda>d. F8 (path_code d)) path)"
| "client_packet (PlayerEquipItem sprite) = (0x77, [F16 sprite])"
| "client_packet (PlayerMoveThing from sprite stack to count) =
     (0x78, [FPos from, F16 sprite, F8 stack, FPos to, F8 count])"
| "client_packet (PlayerLookInShop item count) = (0x79, [F16 item, F8 count])"
| "client_packet (PlayerPurchaseItem item count amount cap packs) =
     (0x7A, [F16 item, F8 count, F8 amount, flag cap, flag packs])"
| "client_packet (PlayerSellItem item count amount equipped) =
     (0x7B, [F16 item, F8 count, F8 amount, flag equipped])"
| "client_packet (PlayerRequestTrade pos stack partner sprite) =
     (0x7D, [FPos pos, F16 sprite, F8 stack, F32 partner])"
| "client_packet (PlayerLookInTrade counter index) = (0x7E, [flag counter, F8 index])"
| "client_packet (PlayerUseItem pos stack index sprite) =
     (0x82, [FPos pos, F16 sprite, F8 stack, F8 index])"
| "client_packet (PlayerUseItemEx from stack sprite to toStack toSprite) =
     (0x83, [FPos from, F16 sprite, F8 stack, FPos to, F16 toSprite, F8 toStack])"
| "client_packet (PlayerUseWithCreature pos stack creature sprite) =
     (0x84, [FPos pos, F16 sprite, F8 stack, F32 creature])"
| "client_packet (PlayerRotateItem pos stack sprite) = (0x85, [FPos pos, F16 sprite, F8 stack])"
| "client_packet (PlayerCloseContainer cid) = (0x87, [F8 cid])"
| "client_packet (PlayerMoveUpContainer cid) = (0x88, [F8 cid])"
| "client_packet (PlayerWriteItem wid text) = (0x89, [F32 wid, FStr text])"
| "client_packet (PlayerUpdateHouseWindow door wid text) = (0x8A, [F8 door, F32 wid, FStr text])"
| "client_packet (PlayerLookAt pos stack) = (0x8C, [FPos pos, F16 0, F8 stack])"
| "client_packet (PlayerLookInBattleList creature) = (0x8D, [F32 creature])"
| "client_packet (PlayerSay channel type receiver text) =
     (0x96, F8 type # say_fields channel type receiver @ [FStr text])"
| "client_packet (PlayerOpenChannel channel) = (0x98, [F16 channel])"
| "client_packet (PlayerCloseChannel channel) = (0x99, [F16 channel])"
| "client_packet (PlayerOpenPrivateChannel receiver) = (0x9A, [FStr receiver])"
| "client_packet (PlayerSetFightModes mode chase secure) = (0xA0, [F8 (of_nat mode), flag chase, flag secure])"
| "client_packet (PlayerSetAttackedCreature creature) = (0xA1, [F32 creature])"
| "client_packet (PlayerFollowCreature creature) = (0xA2, [F32 creature])"
| "client_packet (PlayerInviteToParty target) = (0xA3, [F32 target])"
| "client_packet (PlayerJoinParty target) = (0xA4, [F32 target])"
| "client_packet (PlayerRevokePartyInvitation target) = (0xA5, [F32 target])"
| "client_packet (PlayerPassPartyLeadership target) = (0xA6, [F32 target])"
| "client_packet (PlayerEnableSharedPartyExperience active) = (0xA8, [flag active])"
| "client_packet (PlayerChannelInvite name) = (0xAB, [FStr name])"
| "client_packet (PlayerChannelExclude name) = (0xAC, [FStr name])"
| "client_packet (PlayerUpdateContainer cid) = (0xCA, [F8 cid])"
| "client_packet (PlayerBrowseField pos) = (0xCB, [FPos pos])"
| "client_packet (PlayerSeekInContainer cid index) = (0xCC, [F8 cid, F16 index])"
| "client_packet (PlayerChangeOutfit look) =
     (0xD3, [F16 (lookType look), F8 (lookHead look), F8 (lookBody look), F8 (lookLegs look),
             F8 (lookFeet look), F8 (lookAddons look), F16 (lookMount look)])"
| "client_packet (PlayerToggleMount mount) = (0xD4, [flag mount])"
| "client_packet (PlayerRequestAddVip name) = (0xDC, [FStr name])"
| "client_packet (PlayerRequestRemoveVip guid) = (0xDD, [F32 guid])"
| "client_packet (PlayerRequestEditVip guid description icon notify) =
     (0xDE, [F32 guid, FStr description, F32 icon, flag notify])"
| "client_packet (PlayerReportBug message pos category) =
     (0xE6, [F8 category, FStr message] @ (if category = 0 then [FPos pos] else []))"
| "client_packet (PlayerDebugAssert line date description comment) =
     (0xE8, [FStr line, FStr date, FStr description, FStr comment])"
| "client_packet (PlayerShowQuestLine quest) = (0xF1, [F16 quest])"
| "client_packet (PlayerReportRuleViolation target type reason comment translation) =
     (0xF2, [F8 type, F8 reason, FStr target, FStr comment] @ translation_fields type translation)"
| "client_packet PlayerBrowseMarketOwnOffers = (0xF5, [F16 0xFFFE])"
| "client_packet PlayerBrowseMarketOwnHistory = (0xF5, [F16 0xFFFF])"
| "client_packet (PlayerBrowseMarket item) = (0xF5, [F16 item])"
| "client_packet (PlayerCreateMarketOffer type sprite amount price anonymous) =
     (0xF6, [F8 type, F16 sprite, F16 amount, F32 price, flag anonymous])"
| "client_packet (PlayerCancelMarketOffer timestamp counter) = (0xF7, [F32 timestamp, F16 counter])"
| "client_packet (PlayerAcceptMarketOffer timestamp counter amount) =
     (0xF8, [F32 timestamp, F16 counter, F16 amount])"
| "client_packet (PlayerAnswerModalWindow wid button choice) = (0xF9, [F32 wid, F8 button, F8 choice])"

text \<open>The commands a packet can carry; \<open>action_of\<close> adds whether the dispatcher lets it expire.\<close>

definition sendable :: "game_command \<Rightarrow> bool" where
  "sendable c \<longleftrightarrow>
     (case c of
        PlayerMove d \<Rightarrow> d \<noteq> NoDirection
      | PlayerTurn d \<Rightarrow> d \<in> {North, East, South, West}
      | PlayerAutoWalk path \<Rightarrow> path \<noteq> [] \<and> length path \<le> 255 \<and> NoDirection \<notin> set path
      | PlayerMoveThing from sprite stack to count \<Rightarrow> to \<noteq> from
      | PlayerSay channel type receiver text \<Rightarrow>
          length text \<le> 255 \<and>
          (type \<notin> {TALKTYPE_CHANNEL_Y, TALKTYPE_CHANNEL_R1} \<longrightarrow> channel = 0) \<and>
          (type \<notin> {TALKTYPE_PRIVATE_TO, TALKTYPE_PRIVATE_RED_TO} \<longrightarrow> receiver = [])
      | PlayerSetFightModes mode chase secure \<Rightarrow> mode \<in> {1, 2, 3}
      | PlayerChangeOutfit look \<Rightarrow> lookTypeEx look = 0 \<and> look_padding look = 0
      | PlayerRequestEditVip guid description icon notify \<Rightarrow> icon \<le> 10
      | PlayerReportBug message pos category \<Rightarrow> category \<noteq> 0 \<longrightarrow> pos = \<lparr>px = 0, py = 0, pz = 0\<rparr>
      | PlayerReportRuleViolation target type reason comment translation \<Rightarrow>
          type \<notin> {0, 1} \<longrightarrow> translation = []
      | PlayerBrowseMarket item \<Rightarrow> item \<notin> {0xFFFE, 0xFFFF}
      | _ \<Rightarrow> True)"

definition expires :: "game_command \<Rightarrow> bool" where
  "expires c \<longleftrightarrow>
     (case c of
        PlayerTurn _ \<Rightarrow> True | PlayerEquipItem _ \<Rightarrow> True | PlayerMoveThing _ _ _ _ _ \<Rightarrow> True
      | PlayerLookInShop _ _ \<Rightarrow> True | PlayerPurchaseItem _ _ _ _ _ \<Rightarrow> True
      | PlayerSellItem _ _ _ _ \<Rightarrow> True | PlayerLookInTrade _ _ \<Rightarrow> True | PlayerUseItem _ _ _ _ \<Rightarrow> True
      | PlayerUseItemEx _ _ _ _ _ _ \<Rightarrow> True | PlayerUseWithCreature _ _ _ _ \<Rightarrow> True
      | PlayerRotateItem _ _ _ \<Rightarrow> True | PlayerLookAt _ _ \<Rightarrow> True | PlayerLookInBattleList _ \<Rightarrow> True
      | PlayerShowQuestLog \<Rightarrow> True | _ \<Rightarrow> False)"

definition action_of :: "game_command \<Rightarrow> packet_action" where
  "action_of c = (if expires c then Timed c else Task c)"

lemmas parser_defs = parseChannelInvite_def parseChannelExclude_def parseOpenChannel_def
  parseCloseChannel_def parseOpenPrivateChannel_def parseSetOutfit_def parseToggleMount_def
  parseUseItem_def parseUseItemEx_def parseUseWithCreature_def parseCloseContainer_def
  parseUpArrowContainer_def parseUpdateContainer_def parseThrow_def parseLookAt_def
  parseLookInBattleList_def parseSay_def parseFightModes_def parseAttack_def parseFollow_def
  parseEquipObject_def parseTextWindow_def parseHouseWindow_def parseLookInShop_def
  parsePlayerPurchase_def parsePlayerSale_def parseRequestTrade_def parseLookInTrade_def
  parseAddVip_def parseRemoveVip_def parseEditVip_def parseRotateItem_def
  parseRuleViolationReport_def parseBugReport_def parseInviteToParty_def parseJoinParty_def
  parseRevokePartyInvite_def parsePassPartyLeadership_def parseEnableSharedPartyExperience_def
  parseQuestLine_def parseMarketLeave_def parseMarketBrowse_def parseMarketCreateOffer_def
  parseMarketCancelOffer_def parseMarketAcceptOffer_def parseModalWindowAnswer_def
  parseBrowseField_def parseSeekInContainer_def parseExtendedOpcode_def parseDebugAssert_def

lemma bind_if: "State_Monad.bind (if b then p else q) f = (if b then State_Monad.bind p f else State_Monad.bind q f)"
  by simp

section \<open>Every parser reads inside\<close>

definition safe_reader :: "'a message_reader \<Rightarrow> bool" where
  "safe_reader p \<longleftrightarrow>
     (\<forall>m1 m2. same_inside m1 m2 \<longrightarrow> safe_pair m1 m2 (run_state p m1) (run_state p m2))"

named_theorems safe_intros

lemma safe_reader_State:
  "(\<And>m1 m2. same_inside m1 m2 \<Longrightarrow> safe_pair m1 m2 (f m1) (f m2)) \<Longrightarrow> safe_reader (State f)"
  by (simp add: safe_reader_def)

lemma safe_return [safe_intros]: "safe_reader (State_Monad.return x)"
  by (simp add: safe_reader_def safe_pair_same)

lemma safe_bind [safe_intros]:
  assumes "safe_reader p" and "\<And>x. safe_reader (f x)"
  shows "safe_reader (State_Monad.bind p f)"
  unfolding safe_reader_def
proof (intro allI impI)
  fix m1 m2 :: netmsg
  assume "same_inside m1 m2"
  then have "safe_pair m1 m2 (run_state p m1) (run_state p m2)"
    using assms(1) by (simp add: safe_reader_def)
  then show "safe_pair m1 m2 (run_state (State_Monad.bind p f) m1) (run_state (State_Monad.bind p f) m2)"
    using assms(2) safe_pair_then [where f = "\<lambda>a. run_state (f a)"]
    by (simp add: safe_reader_def case_prod_beta)
qed

lemma safe_if [safe_intros]: "safe_reader p \<Longrightarrow> safe_reader q \<Longrightarrow> safe_reader (if b then p else q)"
  by simp

lemma safe_fields [safe_intros]:
  "safe_reader getByte" "safe_reader get16" "safe_reader get32" "safe_reader getString" "safe_reader getPosition"
  unfolding getByte_def get16_def get32_def getString_def getPosition_def
  by (simp_all add: safe_reader_State nm_getByte_safe nm_get_safe nm_getString_safe nm_getPosition_safe)

lemma safe_skip [safe_intros]: "safe_reader (skipBytes n)"
  by (auto simp: skipBytes_def safe_reader_def safe_pair_def same_inside_def nm_skipBytes_def)

lemma safe_actions [safe_intros]: "safe_reader (addGameTask c)" "safe_reader (addGameTaskTimed c)" "safe_reader nothing"
  by (simp_all add: addGameTask_def addGameTaskTimed_def nothing_def safe_return)

lemma safe_case_prod [safe_intros]: "(\<And>x y. safe_reader (f x y)) \<Longrightarrow> safe_reader (case z of (x, y) \<Rightarrow> f x y)"
  by (cases z) simp

lemma safe_table: "list_all (\<lambda>e. safe_reader (snd e)) packet_table"
  unfolding packet_table_def parser_defs list.pred_inject snd_conv
  by (intro conjI TrueI safe_intros) simp

lemma safe_debug_assert: "safe_reader parseDebugAssert"
  unfolding parser_defs by (intro safe_intros)

text \<open>The path is read backwards from the end of the message.\<close>

lemma getPreviousByte_inside:
  assumes "0 < pos_of m" and "pos_of m \<le> NETWORKMESSAGE_MAXSIZE"
  shows "nm_getPreviousByte m = Some (nm_buffer m (pos_of m - 1), m\<lparr>nm_position := nm_position m - 1\<rparr>)"
    and "pos_of (m\<lparr>nm_position := nm_position m - 1\<rparr>) = pos_of m - 1"
proof -
  have "nm_position m \<noteq> 0" using assms(1) by (auto simp: pos_of_def)
  then have "unat (nm_position m - 1) = unat (nm_position m) - 1"
    by (simp add: unat_sub unat_eq_0 word_le_nat_alt Suc_leI unat_gt_0)
  then show "pos_of (m\<lparr>nm_position := nm_position m - 1\<rparr>) = pos_of m - 1"
    by (simp add: pos_of_def)
  then show "nm_getPreviousByte m = Some (nm_buffer m (pos_of m - 1), m\<lparr>nm_position := nm_position m - 1\<rparr>)"
    using assms by (simp add: nm_getPreviousByte_def Let_def)
qed

lemma bslice_Suc_end: "n < p \<Longrightarrow> bslice buf (p - Suc n) (Suc n) = bslice buf (p - Suc n) n @ [buf (p - 1)]"
  using bslice_append [of buf "p - Suc n" n 1] by (simp add: bslice_def upt_rec)

lemma read_path_bytes:
  "n \<le> pos_of m \<Longrightarrow> pos_of m \<le> NETWORKMESSAGE_MAXSIZE \<Longrightarrow>
   read_path n m path =
     Some (List.map_filter path_direction (bslice (nm_buffer m) (pos_of m - n) n) @ path,
           m\<lparr>nm_position := nm_position m - of_nat n\<rparr>)"
proof (induction n arbitrary: m path)
  case 0
  then show ?case by simp
next
  case (Suc n)
  let ?b = "nm_buffer m (pos_of m - 1)" and ?m = "m\<lparr>nm_position := nm_position m - 1\<rparr>"
  note prev = getPreviousByte_inside [of m]
  have "read_path (Suc n) m path =
      read_path n ?m (case path_direction ?b of None \<Rightarrow> path | Some d \<Rightarrow> d # path)"
    using Suc.prems prev by simp
  also have "\<dots> = Some (List.map_filter path_direction (bslice (nm_buffer m) (pos_of m - Suc n) n) @
      (case path_direction ?b of None \<Rightarrow> path | Some d \<Rightarrow> d # path),
      ?m\<lparr>nm_position := nm_position ?m - of_nat n\<rparr>)"
    using Suc.prems prev(2) by (subst Suc.IH) simp_all
  finally show ?case
    using Suc.prems
    by (simp add: bslice_Suc_end List.map_filter_def algebra_simps split: option.split)
qed

lemma pos_skip:
  "pos_of m + unat n \<le> NETWORKMESSAGE_MAXSIZE \<Longrightarrow> pos_of (nm_skipBytes (ucast (n :: u8)) m) = pos_of m + unat n"
  using unsigned_less [of n] by (simp add: nm_skipBytes_def pos_of_def net_consts unat_word_ariths unsigned_ucast_eq take_bit_nat_eq_self)

definition walk_action :: "bytes \<Rightarrow> packet_action list" where
  "walk_action bs =
     (let path = List.map_filter path_direction bs in if path = [] then [] else [Task (PlayerAutoWalk path)])"

lemma parseAutoWalk_eq:
  assumes "body_len m + 8 \<le> NETWORKMESSAGE_MAXSIZE" and "nm_getByte m = (n, m')"
  shows "parseAutoWalk m =
     Some (if n = 0 \<or> pos_of m' + unat n \<noteq> body_len m' + 8 then ([], m')
           else (walk_action (bslice (nm_buffer m') (pos_of m') (unat n)), m'))"
proof (cases "n = 0 \<or> pos_of m' + unat n \<noteq> body_len m' + 8")
  case True
  then show ?thesis by (auto simp: parseAutoWalk_def assms(2))
next
  case False
  let ?s = "nm_skipBytes (ucast n) m'"
  have "body_len m' = body_len m"
    using assms(2) by (auto simp: nm_getByte_def canRead_def body_len_def split: if_splits)
  then have lim: "pos_of m' + unat n \<le> NETWORKMESSAGE_MAXSIZE" using False assms(1) by simp
  have "read_path (unat n) ?s [] =
      Some (List.map_filter path_direction (bslice (nm_buffer ?s) (pos_of m') (unat n)),
            ?s\<lparr>nm_position := nm_position ?s - of_nat (unat n)\<rparr>)"
    using read_path_bytes [of "unat n" ?s "[]"] lim by (simp add: pos_skip)
  moreover have "?s\<lparr>nm_position := nm_position ?s - of_nat (unat n)\<rparr> = m'" "nm_buffer ?s = nm_buffer m'"
    by (simp_all add: nm_skipBytes_def)
  ultimately show ?thesis
    using False by (simp add: parseAutoWalk_def assms(2) walk_action_def Let_def)
qed

section \<open>Commands of a client are understood\<close>

definition consumes :: "'a message_reader \<Rightarrow> field list \<Rightarrow> 'a \<Rightarrow> bool" where
  "consumes p fs r \<longleftrightarrow>
     (\<forall>m. readable (fields_bytes fs) m \<longrightarrow> run_state p m = (r, advance (length (fields_bytes fs)) m))"

named_theorems consume_intros

lemma consumes_field:
  assumes "\<And>m. readable (field_bytes g) m \<Longrightarrow> run_state p m = (v, advance (length (field_bytes g)) m)"
    and "consumes (f v) gs r"
  shows "consumes (State_Monad.bind p f) (g # gs) r"
  unfolding consumes_def
proof (intro allI impI)
  fix m assume "readable (fields_bytes (g # gs)) m"
  then have "readable (field_bytes g @ fields_bytes gs) m" by (simp add: fields_bytes_def)
  note r = readable_append [OF this]
  show "run_state (State_Monad.bind p f) m = (r, advance (length (fields_bytes (g # gs))) m)"
    using assms(1) [OF r(1)] assms(2) r(2) by (simp add: consumes_def fields_bytes_def)
qed

lemma consumes_fields [consume_intros]:
  "consumes (f8 v) gs r \<Longrightarrow> consumes (State_Monad.bind getByte f8) (F8 v # gs) r"
  "consumes (f16 v16) gs r \<Longrightarrow> consumes (State_Monad.bind get16 f16) (F16 v16 # gs) r"
  "consumes (f32 v32) gs r \<Longrightarrow> consumes (State_Monad.bind get32 f32) (F32 v32 # gs) r"
  "length s \<le> 8192 \<Longrightarrow> consumes (fs s) gs r \<Longrightarrow> consumes (State_Monad.bind getString fs) (FStr s # gs) r"
  "consumes (fp q) gs r \<Longrightarrow> consumes (State_Monad.bind getPosition fp) (FPos q # gs) r"
  by (rule consumes_field;
      simp add: getByte_def get16_def get32_def getString_def getPosition_def nm_getByte_readable
        nm_get_readable nm_getString_readable nm_getPosition_readable)+

lemma consumes_skip [consume_intros]:
  "consumes (f ()) gs r \<Longrightarrow> consumes (State_Monad.bind (skipBytes 2) f) (F16 v # gs) r"
  by (rule consumes_field) (simp_all add: skipBytes_def nm_skipBytes_def advance_def)

lemma consumes_end: "p = State_Monad.return r \<Longrightarrow> consumes p [] r"
  by (simp add: consumes_def fields_bytes_def advance_def)

lemmas action_defs = addGameTask_def addGameTaskTimed_def nothing_def action_of_def expires_def

lemma consumes_say:
  assumes "sendable (PlayerSay channel type receiver text)"
    and "\<forall>f \<in> set (say_fields channel type receiver). field_ok f"
  shows "consumes parseSay (F8 type # say_fields channel type receiver @ [FStr text])
           [Task (PlayerSay channel type receiver text)]"
proof -
  have t: "length text \<le> 255" "length text \<le> 8192" using assms(1) by (auto simp: sendable_def)
  note d = TALKTYPE_PRIVATE_TO_def TALKTYPE_PRIVATE_RED_TO_def TALKTYPE_CHANNEL_Y_def TALKTYPE_CHANNEL_R1_def
  consider (personal) "type \<in> {TALKTYPE_PRIVATE_TO, TALKTYPE_PRIVATE_RED_TO}"
    | (channel) "type \<in> {TALKTYPE_CHANNEL_Y, TALKTYPE_CHANNEL_R1}"
    | (plain) "type \<notin> {TALKTYPE_PRIVATE_TO, TALKTYPE_PRIVATE_RED_TO}" "type \<notin> {TALKTYPE_CHANNEL_Y, TALKTYPE_CHANNEL_R1}"
    by blast
  then show ?thesis
  proof cases
    case personal
    then have "channel = 0" using assms(1) by (auto simp: sendable_def d)
    then show ?thesis
      unfolding parseSay_def using personal assms(2) t
      by (auto simp: say_fields_def action_defs intro!: consume_intros consumes_end)
  next
    case channel
    then have n: "type \<notin> {TALKTYPE_PRIVATE_TO, TALKTYPE_PRIVATE_RED_TO}" by (auto simp: d)
    then have "receiver = []" using assms(1) by (auto simp: sendable_def)
    then show ?thesis
      unfolding parseSay_def using channel n t
      by (auto simp: say_fields_def action_defs intro!: consume_intros consumes_end)
  next
    case plain
    then have "receiver = []" "channel = 0" using assms(1) by (auto simp: sendable_def)
    then show ?thesis
      unfolding parseSay_def using plain t
      by (auto simp: say_fields_def action_defs intro!: consume_intros consumes_end)
  qed
qed

lemma consumes_report:
  assumes "sendable (PlayerReportRuleViolation target type reason comment translation)"
    and "\<forall>f \<in> set (FStr target # FStr comment # translation_fields type translation). field_ok f"
  shows "consumes parseRuleViolationReport
           (F8 type # F8 reason # FStr target # FStr comment # translation_fields type translation)
           [Task (PlayerReportRuleViolation target type reason comment translation)]"
  unfolding parseRuleViolationReport_def using assms
  by (auto simp: translation_fields_def sendable_def action_defs bind_if intro!: consume_intros consumes_end)

lemma consumes_bug:
  assumes "sendable (PlayerReportBug message pos category)" and "length message \<le> 8192"
  shows "consumes parseBugReport (F8 category # FStr message # (if category = 0 then [FPos pos] else []))
           [Task (PlayerReportBug message pos category)]"
  unfolding parseBugReport_def using assms
  by (auto simp: sendable_def action_defs bind_if intro!: consume_intros consumes_end)

lemma consumes_outfit:
  assumes "lookTypeEx look = 0" and "look_padding look = 0"
  shows "consumes parseSetOutfit
     [F16 (lookType look), F8 (lookHead look), F8 (lookBody look), F8 (lookLegs look), F8 (lookFeet look),
      F8 (lookAddons look), F16 (lookMount look)] [Task (PlayerChangeOutfit look)]"
  unfolding parseSetOutfit_def using assms
  by (cases look) (auto simp: new_outfit_def action_defs intro!: consume_intros consumes_end)

definition special :: "game_command \<Rightarrow> bool" where
  "special c \<longleftrightarrow> fst (client_packet c) \<in> {0x64, 0xE8}"

lemma packet_codes_distinct: "distinct (map fst packet_table)"
  unfolding packet_table_def by (simp only: list.map fst_conv) code_simp

definition decodes :: "u8 \<Rightarrow> field list \<Rightarrow> packet_action \<Rightarrow> bool" where
  "decodes b fs a \<longleftrightarrow> (\<exists>p. map_of packet_table b = Some p \<and> consumes p fs [a])"

lemma decodesI: "(b, p) \<in> set packet_table \<Longrightarrow> consumes p fs [a] \<Longrightarrow> decodes b fs a"
  using map_of_is_SomeI [OF packet_codes_distinct] by (auto simp: decodes_def)

lemmas packet_entry = list.set_intros

lemma consumes_fight:
  "mode \<in> {1, 2, 3} \<Longrightarrow>
   consumes parseFightModes [F8 (of_nat mode), flag chase, flag secure] [Task (PlayerSetFightModes mode chase secure)]"
  unfolding parseFightModes_def by (auto simp: action_defs intro!: consume_intros consumes_end)

lemma move_decodes: "d \<noteq> NoDirection \<Longrightarrow> decodes (move_code d) [] (Task (PlayerMove d))"
  by (cases d; simp add: move_code_def;
      (rule decodesI, unfold packet_table_def, (rule packet_entry)+, simp add: addGameTask_def consumes_end))

lemma turn_decodes: "d \<in> {North, East, South, West} \<Longrightarrow> decodes (turn_code d) [] (Timed (PlayerTurn d))"
  by (cases d; simp add: turn_code_def;
      (rule decodesI, unfold packet_table_def, (rule packet_entry)+, simp add: addGameTaskTimed_def consumes_end))

lemma command_decodes:
  assumes "sendable c" and "\<not> special c" and "\<forall>f \<in> set (snd (client_packet c)). field_ok f"
  shows "decodes (fst (client_packet c)) (snd (client_packet c)) (action_of c)"
  by (insert assms, cases c;
      simp add: special_def sendable_def action_of_def expires_def move_decodes turn_decodes split del: if_split split_of_bool;
      (rule decodesI, unfold packet_table_def, (rule packet_entry)+,
       (rule consumes_fight consumes_say consumes_report consumes_bug consumes_outfit)?;
       auto simp: parser_defs action_defs sendable_def intro!: consume_intros consumes_end))

section \<open>The whole packet\<close>

definition packet_fields :: "game_command \<Rightarrow> field list" where
  "packet_fields c = F8 (fst (client_packet c)) # snd (client_packet c)"

text \<open>The message of a client, with the position where the server starts to read.\<close>

definition client_message :: "game_command \<Rightarrow> netmsg \<Rightarrow> netmsg" where
  "client_message c m = (write_fields (packet_fields c) m)\<lparr>nm_position := nm_position m\<rparr>"

definition playing :: "protocol_game \<Rightarrow> bool" where
  "playing s \<longleftrightarrow> pg_acceptPackets s \<and> (\<exists>h > 0. pg_player s = Some (False, h))"

lemma path_code_inverse: "NoDirection \<notin> set path \<Longrightarrow> List.map_filter path_direction (map path_code path) = path"
proof (induction path)
  case (Cons d path)
  then show ?case by (cases d) (simp_all add: List.map_filter_simps path_direction_def path_code_def)
qed (simp add: List.map_filter_simps)

lemma path_bytes: "fields_bytes (map (\<lambda>d. F8 (path_code d)) path) = map path_code path"
  by (induction path) (simp_all add: fields_bytes_def)

lemma autowalk_decodes:
  assumes "sendable (PlayerAutoWalk path)"
    and "readable (fields_bytes (snd (client_packet (PlayerAutoWalk path)))) m"
    and "pos_of m + 1 + length path = body_len m + 8"
  shows "\<exists>m'. parseAutoWalk m = Some ([Task (PlayerAutoWalk path)], m') \<and> nm_overrun m' = nm_overrun m"
proof -
  let ?n = "of_nat (length path) :: u8" and ?m = "advance 1 m"
  have ok: "path \<noteq> []" "length path \<le> 255" "NoDirection \<notin> set path"
    using assms(1) by (auto simp: sendable_def)
  then have n: "unat ?n = length path" by (simp add: unat_of_nat)
  have bytes: "readable ([?n] @ map path_code path) m"
    using assms(2) path_bytes by (simp add: fields_bytes_def)
  note r = readable_append [OF this]
  have byte: "nm_getByte m = (?n, ?m)" using r(1) by (rule nm_getByte_readable)
  have lim: "pos_of m + 1 + length path < NETWORKMESSAGE_MAXSIZE"
    using bytes by (simp add: readable_def)
  then have "body_len m + 8 \<le> NETWORKMESSAGE_MAXSIZE" using assms(3) by simp
  note walk = parseAutoWalk_eq [OF this byte]
  have "pos_of ?m = pos_of m + 1" using lim by (intro pos_advance) simp
  moreover have "?n \<noteq> 0" using n ok(1) by (metis length_0_conv unat_0)
  moreover have "bslice (nm_buffer ?m) (pos_of ?m) (length path) = map path_code path"
    using r(2) by (simp add: readable_def)
  ultimately have "parseAutoWalk m = Some (walk_action (map path_code path), ?m)"
    using walk assms(3) n by simp
  then show ?thesis
    using ok by (simp add: walk_action_def path_code_inverse) (simp add: advance_def)
qed

lemma debug_consumes:
  assumes "\<forall>f \<in> set [FStr line, FStr date, FStr description, FStr comment]. field_ok f"
  shows "consumes parseDebugAssert [FStr line, FStr date, FStr description, FStr comment]
           [Task (PlayerDebugAssert line date description comment)]"
  unfolding parseDebugAssert_def using assms by (auto simp: action_defs intro!: consume_intros consumes_end)

lemma advance_overrun [simp]: "nm_overrun (advance n m) = nm_overrun m"
  by (simp add: advance_def)

lemma special_cases:
  assumes "special c"
  obtains path where "c = PlayerAutoWalk path"
    | line date description comment where "c = PlayerDebugAssert line date description comment"
proof (cases c)
  case (PlayerMove d)
  with assms show ?thesis by (cases d) (simp_all add: special_def move_code_def)
next
  case (PlayerTurn d)
  with assms show ?thesis by (cases d) (simp_all add: special_def turn_code_def)
qed (use assms that in \<open>simp_all add: special_def\<close>)

text \<open>A client may report an error once; \<open>pg_debugAssertSent\<close> remembers it.\<close>

definition is_report :: "game_command \<Rightarrow> bool" where
  "is_report c \<longleftrightarrow> (case c of PlayerDebugAssert _ _ _ _ \<Rightarrow> True | _ \<Rightarrow> False)"

definition after_command :: "game_command \<Rightarrow> protocol_game \<Rightarrow> protocol_game" where
  "after_command c s = (if is_report c then s\<lparr>pg_debugAssertSent := True\<rparr> else s)"

lemma report_code: "fst (client_packet c) = 0xE8 \<longleftrightarrow> is_report c"
proof (cases c)
  case (PlayerMove d)
  then show ?thesis by (cases d) (simp_all add: is_report_def move_code_def)
next
  case (PlayerTurn d)
  then show ?thesis by (cases d) (simp_all add: is_report_def turn_code_def)
qed (simp_all add: is_report_def)

lemma second_report:
  "is_report c \<Longrightarrow> pg_debugAssertSent s \<Longrightarrow> parse_body (fst (client_packet c)) s m = Some ([], after_command c s, m)"
  using report_code [of c] by (simp add: parse_body_def after_command_def)

lemma body_decodes:
  assumes "sendable c" and "\<forall>f \<in> set (snd (client_packet c)). field_ok f"
    and "\<not> (is_report c \<and> pg_debugAssertSent s)"
    and "readable (fields_bytes (snd (client_packet c))) m"
    and "pos_of m + length (fields_bytes (snd (client_packet c))) = body_len m + 8"
  shows "\<exists>m'. parse_body (fst (client_packet c)) s m = Some ([action_of c], after_command c s, m') \<and>
           nm_overrun m' = nm_overrun m"
proof (cases "special c")
  case False
  then obtain p where "map_of packet_table (fst (client_packet c)) = Some p"
      "run_state p m = ([action_of c], advance (length (fields_bytes (snd (client_packet c)))) m)"
    using command_decodes [OF assms(1) False assms(2)] assms(4) by (auto simp: decodes_def consumes_def)
  with False report_code [of c] show ?thesis by (simp add: parse_body_def special_def after_command_def)
next
  case True
  then show ?thesis
  proof (cases rule: special_cases)
    case (1 path)
    have "length (fields_bytes (snd (client_packet c))) = 1 + length path"
      using path_bytes by (simp add: 1 fields_bytes_def)
    then have "\<exists>m'. parseAutoWalk m = Some ([Task (PlayerAutoWalk path)], m') \<and> nm_overrun m' = nm_overrun m"
      using autowalk_decodes assms by (simp add: 1)
    then show ?thesis by (auto simp: 1 parse_body_def action_defs after_command_def is_report_def)
  next
    case (2 line date description comment)
    then have "consumes parseDebugAssert (snd (client_packet c)) [Task c]"
      using debug_consumes assms(2) by simp
    then have "run_state parseDebugAssert m =
        ([Task c], advance (length (fields_bytes (snd (client_packet c)))) m)"
      using assms(4) by (simp add: consumes_def)
    then show ?thesis
      using assms(3) by (simp add: 2 parse_body_def action_defs after_command_def is_report_def)
  qed
qed

end
