(* ===== verification/GameParseTheorems.thy ===== *)
theory GameParseTheorems imports GameParseProps begin

text \<open>
  What the parsers of protocolgame.cpp guarantee: commands of a client arrive as they were sent, only
  commands a client can send reach the game, and the buffer is never left.
\<close>

section \<open>Commands arrive\<close>

text \<open>
  C9. Every command is understood: when a client writes a command of the protocol (strings of at most
  8192 bytes, which is all \<open>addString\<close> writes, and a total that fits into a message), the server hands
  exactly this command to the dispatcher if its player lives and is in the game, with an
  expiration when the command is one of those that expire, and sees no overrun. This covers every
  packet of the table, the walk that is read backwards and the debug report; of the debug
  reports only the first of a connection is handed on, the others are dropped.
\<close>

theorem commands_are_understood:
  assumes "writer m" and "\<not> nm_overrun m" and "playing s"
    and "sendable c" and "\<forall>f \<in> set (packet_fields c). field_ok f"
    and "canAdd (length (fields_bytes (packet_fields c))) m"
  shows "\<exists>m'. parsePacket False s (client_message c m) =
    Some (if is_report c \<and> pg_debugAssertSent s then [] else [action_of c], after_command c s, m')"
proof -
  let ?bs = "fields_bytes (packet_fields c)" and ?fs = "fields_bytes (snd (client_packet c))"
  let ?code = "fst (client_packet c)" and ?m = "client_message c m"
  have bs: "?bs = [?code] @ ?fs" by (simp add: packet_fields_def fields_bytes_def)
  have m: "?m = (put_bytes ?bs m)\<lparr>nm_position := nm_position m\<rparr>"
    using assms(1,5,6) by (simp add: client_message_def write_fields_eq)
  have "readable ?bs ?m" unfolding m using assms(1,6) by (rule readable_put_bytes)
  then have "readable ([?code] @ ?fs) ?m" by (simp add: bs)
  note r = readable_append [OF this]
  have byte: "nm_getByte ?m = (?code, advance 1 ?m)" using r(1) by (rule nm_getByte_readable)
  have len: "body_len ?m = body_len m + Suc (length ?fs)"
    using put_bytes_pos(2) [OF assms(1,6)] by (simp add: m bs body_len_def)
  have pos: "pos_of ?m = 8 + body_len m" using assms(1) by (simp add: m writer_def pos_of_def)
  have "pos_of (advance 1 ?m) = pos_of ?m + 1" using r(1) by (intro pos_advance) (simp add: readable_def)
  then have all: "pos_of (advance 1 ?m) + length ?fs = body_len (advance 1 ?m) + 8"
    using len pos by simp
  have ok: "\<forall>f \<in> set (snd (client_packet c)). field_ok f" using assms(5) by (simp add: packet_fields_def)
  have rest: "readable ?fs (advance 1 ?m)" using r(2) by simp
  have over: "\<not> nm_overrun (advance 1 ?m)" using assms(2) by (simp add: m put_bytes_def)
  obtain m' where body: "parse_body ?code s (advance 1 ?m) =
      Some (if is_report c \<and> pg_debugAssertSent s then [] else [action_of c], after_command c s, m')"
    and "\<not> nm_overrun m'"
  proof (cases "is_report c \<and> pg_debugAssertSent s")
    case True
    then show thesis using second_report [of c s] over that by simp
  next
    case False
    then show thesis using body_decodes [OF assms(4) ok False rest all] over that by auto
  qed
  moreover have "nm_length ?m \<noteq> 0" using len by (auto simp: body_len_def)
  ultimately show ?thesis using assms(3) byte by (auto simp: parsePacket_def playing_def)
qed

definition demo_game :: protocol_game where
  "demo_game = \<lparr>pg_acceptPackets = True, pg_player = Some (False, 150), pg_debugAssertSent = False\<rparr>"

definition demo_say :: game_command where "demo_say = PlayerSay 0 1 [] [72, 105]"

lemma demo_say_packet: "packet_fields demo_say = [F8 0x96, F8 1, FStr [72, 105]]"
  by (simp add: packet_fields_def demo_say_def say_fields_def TALKTYPE_PRIVATE_TO_def
      TALKTYPE_PRIVATE_RED_TO_def TALKTYPE_CHANNEL_Y_def TALKTYPE_CHANNEL_R1_def)

lemma demo_say_sendable: "sendable demo_say"
  by (simp add: demo_say_def sendable_def)

theorem commands_are_understood_witness:
  "\<exists>m'. parsePacket False demo_game (client_message demo_say fresh_msg) =
    Some (if is_report demo_say \<and> pg_debugAssertSent demo_game then [] else [action_of demo_say],
      after_command demo_say demo_game, m')"
  by (rule commands_are_understood)
    (simp_all add: demo_say_packet fresh_msg_def writer_def canAdd_def fields_bytes_def pos_of_def
      body_len_def net_consts demo_game_def playing_def demo_say_sendable)

section \<open>Nothing else arrives\<close>

definition yields :: "packet_parser \<Rightarrow> bool" where
  "yields p \<longleftrightarrow> (\<forall>m. \<forall>a \<in> set (fst (run_state p m)). a = Logout \<or> (\<exists>c. sendable c \<and> a = action_of c))"

named_theorems yield_intros

lemma yields_bind [yield_intros]: "(\<And>x. yields (f x)) \<Longrightarrow> yields (State_Monad.bind p f)"
  by (simp add: yields_def case_prod_beta)

lemma yields_task: "sendable c \<Longrightarrow> \<not> expires c \<Longrightarrow> yields (addGameTask c)"
  by (auto simp: yields_def addGameTask_def action_of_def)

lemma yields_timed: "sendable c \<Longrightarrow> expires c \<Longrightarrow> yields (addGameTaskTimed c)"
  by (auto simp: yields_def addGameTaskTimed_def action_of_def)

lemma yields_logout: "yields (State_Monad.return [Logout])"
  by (simp add: yields_def)

lemma yields_nothing: "yields nothing"
  by (simp add: yields_def nothing_def)

lemma yields_table: "list_all (\<lambda>e. yields (snd e)) packet_table"
  unfolding packet_table_def list.pred_inject snd_conv
  by (intro conjI TrueI)
    (auto simp: parser_defs bind_if sendable_def expires_def new_outfit_def
       TALKTYPE_PRIVATE_TO_def TALKTYPE_PRIVATE_RED_TO_def TALKTYPE_CHANNEL_Y_def TALKTYPE_CHANNEL_R1_def
      intro!: yield_intros yields_task yields_timed yields_logout yields_nothing)

lemma yields_debug: "yields parseDebugAssert"
  unfolding parseDebugAssert_def
  by (auto simp: sendable_def expires_def intro!: yield_intros yields_task)

lemma walk_action_sendable:
  assumes "length bs \<le> 255" and "a \<in> set (walk_action bs)"
  shows "\<exists>c. sendable c \<and> a = action_of c"
proof -
  let ?path = "List.map_filter path_direction bs"
  have "length ?path \<le> length bs" by (simp add: List.map_filter_def)
  moreover have "NoDirection \<notin> set ?path"
    by (auto simp: List.map_filter_def path_direction_def split: if_splits)
  moreover have "?path \<noteq> [] \<and> a = Task (PlayerAutoWalk ?path)"
    using assms(2) by (auto simp: walk_action_def Let_def split: if_splits)
  ultimately show ?thesis
    using assms(1) by (intro exI [of _ "PlayerAutoWalk ?path"]) (simp add: sendable_def action_defs)
qed

lemma parse_body_yields:
  assumes "body_len m + 8 \<le> NETWORKMESSAGE_MAXSIZE"
  shows "\<exists>as s' m'. parse_body b s m = Some (as, s', m') \<and>
           (\<forall>a \<in> set as. a = Logout \<or> (\<exists>c. sendable c \<and> a = action_of c))"
proof -
  have walk: "\<exists>as m'. parseAutoWalk m = Some (as, m') \<and> (\<forall>a \<in> set as. \<exists>c. sendable c \<and> a = action_of c)"
  proof -
    obtain n m' where byte: "nm_getByte m = (n, m')" by (cases "nm_getByte m")
    have "unat n \<le> 255" using unsigned_less [where 'a = nat and w = n] by simp
    then have "\<forall>a \<in> set (walk_action (bslice buf p (unat n))). \<exists>c. sendable c \<and> a = action_of c" for buf p
      by (intro ballI walk_action_sendable) simp_all
    then show ?thesis using parseAutoWalk_eq [OF assms byte] by simp
  qed
  have table: "yields p" if "map_of packet_table b = Some p" for p
    using yields_table map_of_SomeD [OF that] by (auto simp: list_all_iff)
  show ?thesis
  proof (cases "b = 0x64 \<or> b = 0xE8")
    case True
    then show ?thesis
      using walk yields_debug
      by (cases "run_state parseDebugAssert m") (fastforce simp: parse_body_def yields_def dest: spec [of _ m])
  next
    case other: False
    show ?thesis
    proof (cases "map_of packet_table b")
      case None
      then show ?thesis using other by (simp add: parse_body_def)
    next
      case (Some p)
      obtain as m' where run: "run_state p m = (as, m')" by (cases "run_state p m")
      then have "\<forall>a \<in> set as. a = Logout \<or> (\<exists>c. sendable c \<and> a = action_of c)"
        using table [OF Some] by (metis fst_conv yields_def)
      then show ?thesis using other Some run by (simp add: parse_body_def)
    qed
  qed
qed

text \<open>The packet of a player in the game is dispatched; of a dead or removed one only the logout.\<close>

definition dispatched :: "protocol_game \<Rightarrow> u8 \<Rightarrow> bool" where
  "dispatched s b \<longleftrightarrow>
     (case pg_player s of
        None \<Rightarrow> False
      | Some (removed, health) \<Rightarrow> removed \<or> health \<le> 0 \<longrightarrow> b = 0x14)"

definition unheard :: "bool \<Rightarrow> protocol_game \<Rightarrow> netmsg \<Rightarrow> bool" where
  "unheard shutdown s m \<longleftrightarrow> \<not> pg_acceptPackets s \<or> shutdown \<or> nm_length m = 0"

lemma parsePacket_unheard: "unheard shutdown s m \<Longrightarrow> parsePacket shutdown s m = Some ([], s, m)"
  by (auto simp: parsePacket_def unheard_def)

lemma parsePacket_dropped:
  assumes "\<not> unheard shutdown s m" and "nm_getByte m = (b, m1)" and "\<not> dispatched s b"
  shows "parsePacket shutdown s m = Some (if b = 0x0F then [Disconnect] else [], s, m1)"
  using assms by (auto simp: parsePacket_def unheard_def dispatched_def split: option.splits)

lemma parsePacket_dispatched:
  assumes "\<not> unheard shutdown s m" and "nm_getByte m = (b, m1)" and "dispatched s b"
    and "parse_body b s m1 = Some (as, s', m2)"
  shows "parsePacket shutdown s m = Some (as @ (if nm_overrun m2 then [Disconnect] else []), s', m2)"
  using assms by (auto simp: parsePacket_def unheard_def dispatched_def split: option.splits)

lemma dead_dispatches_logout:
  assumes "\<not> playing s" and "\<not> unheard shutdown s m" and "dispatched s b"
  shows "b = 0x14"
proof (cases "pg_player s")
  case None
  with assms(3) show ?thesis by (simp add: dispatched_def)
next
  case (Some p)
  then obtain removed health where p: "pg_player s = Some (removed, health)" by (cases p) simp
  then have "removed \<or> health \<le> 0"
    using assms(1,2) by (auto simp: playing_def unheard_def not_le)
  with p assms(3) show ?thesis by (auto simp: dispatched_def)
qed

text \<open>
  C10. Only commands of the protocol reach the game: whatever bytes a packet holds, the parser
  returns, and what it asks for is a logout, a disconnect, or a command a client can send, with
  exactly the expiration that belongs to it: texts of at most 255 bytes, icons of at most 10, one of
  the three fight modes, walks that are not empty and go in real directions, things moved to another
  place. A player who is dead or removed can only log out or be disconnected.
\<close>

theorem only_commands_reach_the_game:
  assumes "body_len m + 8 \<le> NETWORKMESSAGE_MAXSIZE"
  shows "\<exists>as s' m'. parsePacket shutdown s m = Some (as, s', m') \<and>
           set as \<subseteq> {Logout, Disconnect} \<union> action_of ` {c. sendable c} \<and>
           (\<not> playing s \<longrightarrow> set as \<subseteq> {Logout, Disconnect})"
proof -
  obtain b m1 where byte: "nm_getByte m = (b, m1)" by (cases "nm_getByte m")
  have "body_len m1 = body_len m"
    using byte by (auto simp: nm_getByte_def canRead_def body_len_def split: if_splits)
  then obtain as s' m' where body: "parse_body b s m1 = Some (as, s', m')"
      and as: "\<forall>a \<in> set as. a = Logout \<or> (\<exists>c. sendable c \<and> a = action_of c)"
    using parse_body_yields [of m1 b s] assms by auto
  have logout: "parse_body 0x14 s m1 = Some ([Logout], s, m1)"
    by (simp add: parse_body_def packet_table_def)
  show ?thesis
  proof (cases "unheard shutdown s m")
    case True
    then show ?thesis by (simp add: parsePacket_unheard)
  next
    case heard: False
    show ?thesis
    proof (cases "dispatched s b")
      case False
      then show ?thesis using parsePacket_dropped [OF heard byte] by auto
    next
      case True
      note result = parsePacket_dispatched [OF heard byte True]
      have "playing s \<or> b = 0x14" using dead_dispatches_logout [OF _ heard True] by blast
      then show ?thesis
        using result [OF body] as result logout by auto
    qed
  qed
qed

lemma demo_message_length: "body_len (client_message demo_say fresh_msg) = 6"
  by (simp add: client_message_def demo_say_packet nm_addByte_def nm_addString_def nm_add_def canAdd_def
      put_bytes_def fresh_msg_def pos_of_def body_len_def net_consts)

theorem only_commands_reach_the_game_witness:
  "\<exists>as s' m'. parsePacket False demo_game (client_message demo_say fresh_msg) = Some (as, s', m') \<and>
     set as \<subseteq> {Logout, Disconnect} \<union> action_of ` {c. sendable c} \<and>
     (\<not> playing demo_game \<longrightarrow> set as \<subseteq> {Logout, Disconnect})"
  by (rule only_commands_reach_the_game) (simp add: demo_message_length net_consts)

section \<open>The buffer is not left\<close>

definition safe_result :: "netmsg \<Rightarrow> netmsg \<Rightarrow> ('a \<times> netmsg) option \<Rightarrow> ('a \<times> netmsg) option \<Rightarrow> bool" where
  "safe_result m1 m2 r1 r2 \<longleftrightarrow>
     (\<exists>a n1 n2. r1 = Some (a, n1) \<and> r2 = Some (a, n2) \<and> safe_pair m1 m2 (a, n1) (a, n2))"

lemma safe_resultI: "safe_pair m1 m2 p1 p2 \<Longrightarrow> safe_result m1 m2 (Some p1) (Some p2)"
  by (cases p1; cases p2) (auto simp: safe_result_def safe_pair_def)

lemma getByte_both:
  assumes "same_inside m1 m2"
  obtains b n1 n2 where "nm_getByte m1 = (b, n1)" "nm_getByte m2 = (b, n2)"
    "same_inside n1 n2" "safe_pair m1 m2 (b, n1) (b, n2)" "body_len n1 = body_len m1"
proof -
  obtain b n1 b' n2 where g: "nm_getByte m1 = (b, n1)" "nm_getByte m2 = (b', n2)"
    by (metis prod.exhaust)
  have safe: "safe_pair m1 m2 (b, n1) (b', n2)" using nm_getByte_safe [OF assms] by (simp add: g)
  then have "b' = b" "same_inside n1 n2" by (simp_all add: safe_pair_def)
  moreover have "body_len n1 = body_len m1"
    using g(1) by (auto simp: nm_getByte_def canRead_def body_len_def split: if_splits)
  ultimately show thesis using that g safe by blast
qed

lemma parseAutoWalk_safe:
  assumes "same_inside m1 m2" and "body_len m1 + 8 \<le> NETWORKMESSAGE_MAXSIZE"
  shows "safe_result m1 m2 (parseAutoWalk m1) (parseAutoWalk m2)"
proof -
  obtain b n1 n2 where g: "nm_getByte m1 = (b, n1)" "nm_getByte m2 = (b, n2)"
    and same: "same_inside n1 n2" and safe: "safe_pair m1 m2 (b, n1) (b, n2)"
    using getByte_both [OF assms(1)] by metis
  have "body_len m2 + 8 \<le> NETWORKMESSAGE_MAXSIZE" using assms same_inside_pos by metis
  note walk = parseAutoWalk_eq [OF assms(2) g(1)] parseAutoWalk_eq [OF this g(2)]
  have pos: "pos_of n1 = pos_of n2" "body_len n1 = body_len n2" using same_inside_pos [OF same] by auto
  have len: "body_len n1 = body_len m1"
    using g(1) by (auto simp: nm_getByte_def canRead_def body_len_def split: if_splits)
  have "bslice (nm_buffer n1) (pos_of n1) (unat b) = bslice (nm_buffer n2) (pos_of n2) (unat b)"
    if "pos_of n1 + unat b = body_len n1 + 8"
    unfolding pos using that same assms(2) pos len by (intro bslice_cong) (simp add: same_inside_def)
  then show ?thesis
    unfolding walk using safe pos by (auto simp: safe_pair_def intro!: safe_resultI)
qed

lemma parse_body_safe:
  assumes "same_inside m1 m2" and "body_len m1 + 8 \<le> NETWORKMESSAGE_MAXSIZE"
  shows "\<exists>as s' n1 n2. parse_body b s m1 = Some (as, s', n1) \<and> parse_body b s m2 = Some (as, s', n2) \<and>
           safe_pair m1 m2 (as, n1) (as, n2)"
proof -
  have run: "\<exists>as n1 n2. run_state p m1 = (as, n1) \<and> run_state p m2 = (as, n2) \<and> safe_pair m1 m2 (as, n1) (as, n2)"
    if "safe_reader p" for p :: packet_parser
  proof -
    have "safe_pair m1 m2 (run_state p m1) (run_state p m2)" using that assms(1) by (simp add: safe_reader_def)
    then show ?thesis by (cases "run_state p m1"; cases "run_state p m2") (auto simp: safe_pair_def)
  qed
  have table: "safe_reader p" if "map_of packet_table b = Some p" for p
    using safe_table map_of_SomeD [OF that] by (auto simp: list_all_iff)
  consider (walk) "b = 0x64" | (assert) "b = 0xE8" | (other) "b \<noteq> 0x64" "b \<noteq> 0xE8" by blast
  then show ?thesis
  proof cases
    case walk
    then show ?thesis
      using parseAutoWalk_safe [OF assms] by (auto simp: parse_body_def safe_result_def)
  next
    case assert
    then show ?thesis
      using run [OF safe_debug_assert] safe_pair_same [OF assms(1)] by (auto simp: parse_body_def)
  next
    case other
    then show ?thesis
      using run [OF table] safe_pair_same [OF assms(1)]
      by (cases "map_of packet_table b") (fastforce simp: parse_body_def)+
  qed
qed

text \<open>
  C11. No packet makes the server read outside of the buffer: for a length as the connection lets it
  through, every packet is parsed, and two messages that agree inside of the buffer give the same
  actions, the same state and the same message, with nothing outside of the buffer changed. This
  includes the bytes of a walk, which are read without a check.
\<close>

theorem packets_stay_in_the_buffer:
  assumes "same_inside m1 m2" and "body_len m1 + 8 \<le> NETWORKMESSAGE_MAXSIZE"
  shows "\<exists>as s' n1 n2. parsePacket shutdown s m1 = Some (as, s', n1) \<and>
           parsePacket shutdown s m2 = Some (as, s', n2) \<and> same_inside n1 n2 \<and>
           (\<forall>i \<ge> NETWORKMESSAGE_MAXSIZE. nm_buffer n1 i = nm_buffer m1 i \<and> nm_buffer n2 i = nm_buffer m2 i)"
proof -
  obtain b n1 n2 where g: "nm_getByte m1 = (b, n1)" "nm_getByte m2 = (b, n2)"
    and same: "same_inside n1 n2" and safe: "safe_pair m1 m2 (b, n1) (b, n2)" and len: "body_len n1 = body_len m1"
    using getByte_both [OF assms(1)] by metis
  have "body_len n1 + 8 \<le> NETWORKMESSAGE_MAXSIZE" using assms(2) len by simp
  then obtain as s' k1 k2 where body: "parse_body b s n1 = Some (as, s', k1)" "parse_body b s n2 = Some (as, s', k2)"
    and k: "safe_pair n1 n2 (as, k1) (as, k2)"
    using parse_body_safe [OF same] by blast
  have heard: "unheard shutdown s m1 = unheard shutdown s m2" and over: "nm_overrun k1 = nm_overrun k2"
    using assms(1) k by (simp_all add: unheard_def same_inside_def safe_pair_def)
  consider (unheard) "unheard shutdown s m1" | (dropped) "\<not> unheard shutdown s m1" "\<not> dispatched s b"
    | (dispatched) "\<not> unheard shutdown s m1" "dispatched s b" by blast
  then show ?thesis
  proof cases
    case unheard
    then show ?thesis using assms(1) heard by (simp add: parsePacket_unheard)
  next
    case dropped
    then show ?thesis
      using parsePacket_dropped [OF _ g(1)] parsePacket_dropped [OF _ g(2)] heard safe same
      by (simp add: safe_pair_def)
  next
    case dispatched
    then show ?thesis
      using parsePacket_dispatched [OF _ g(1) _ body(1)] parsePacket_dispatched [OF _ g(2) _ body(2)]
        heard over safe k
      by (simp add: safe_pair_def)
  qed
qed

text \<open>The message of a client, and one that differs from it only behind the buffer.\<close>

definition demo_foreign :: netmsg where
  "demo_foreign = (client_message demo_say fresh_msg)
     \<lparr>nm_buffer := (\<lambda>i. if i < NETWORKMESSAGE_MAXSIZE then nm_buffer (client_message demo_say fresh_msg) i else 7)\<rparr>"

theorem packets_stay_in_the_buffer_witness:
  "\<exists>as s' n1 n2. parsePacket False demo_game (client_message demo_say fresh_msg) = Some (as, s', n1) \<and>
     parsePacket False demo_game demo_foreign = Some (as, s', n2) \<and> same_inside n1 n2 \<and>
     (\<forall>i \<ge> NETWORKMESSAGE_MAXSIZE. nm_buffer n1 i = nm_buffer (client_message demo_say fresh_msg) i \<and>
                                  nm_buffer n2 i = nm_buffer demo_foreign i)"
  by (rule packets_stay_in_the_buffer) (simp_all add: same_inside_def demo_foreign_def demo_message_length net_consts)

section \<open>Truncated packets\<close>

text \<open>
  The end of a message is only noticed after the command has been handed to the dispatcher: an
  attack packet without its creature still runs, with creature 0, and then disconnects.
\<close>

lemma truncated_attack_still_runs:
  "\<exists>m'. parsePacket False demo_game ((nm_addByte 0xA1 fresh_msg)\<lparr>nm_position := 8\<rparr>) =
     Some ([Task (PlayerSetAttackedCreature 0), Disconnect], demo_game, m')"
proof -
  let ?m = "(nm_addByte 0xA1 fresh_msg)\<lparr>nm_position := 8\<rparr>"
  let ?n = "(nm_addByte 0xA1 fresh_msg)\<lparr>nm_position := 9\<rparr>"
  have m: "?m = fresh_msg\<lparr>nm_length := 1, nm_position := 8, nm_buffer := store (\<lambda>_. 0) 8 [0xA1]\<rparr>"
    by (simp add: nm_addByte_def canAdd_def put_bytes_def fresh_msg_def pos_of_def net_consts)
  have n: "?n = ?m\<lparr>nm_position := 9\<rparr>" by simp
  have byte: "nm_getByte ?m = (0xA1, ?n)"
    unfolding n m by (simp add: nm_getByte_def canRead_def fresh_msg_def pos_of_def body_len_def net_consts store_def)
  have get: "nm_get 4 ?n = (0 :: u32, ?n\<lparr>nm_overrun := True\<rparr>)"
    unfolding n m by (simp add: nm_get_def canRead_def fresh_msg_def pos_of_def body_len_def net_consts)
  have "map_of packet_table 0xA1 = Some parseAttack"
    by (rule map_of_is_SomeI [OF packet_codes_distinct], unfold packet_table_def, (rule packet_entry)+)
  then have "parse_body 0xA1 demo_game ?n =
      Some ([Task (PlayerSetAttackedCreature 0)], demo_game, ?n\<lparr>nm_overrun := True\<rparr>)"
    by (simp add: parse_body_def parseAttack_def get32_def addGameTask_def get)
  moreover have "\<not> unheard False demo_game ?m" unfolding m by (simp add: unheard_def demo_game_def)
  moreover have "dispatched demo_game 0xA1" by (simp add: dispatched_def demo_game_def)
  ultimately show ?thesis using parsePacket_dispatched [OF _ byte] by simp
qed

end
