(* ===== verification/Spec2Isabelle.thy ===== *)
theory Spec2Isabelle
  imports Streams NetMsgProps Checksum CipherProps Sha1 Token PartyTheorems Otb Wildcard Admission Scheduling Spectators Pathing ItemIOProps ContainerTheorems TradeTheorems SkillProps MoneyTheorems TileAnswers AfflictionTheorems DamageFloats GameViewTheorems GameParseTheorems
begin

text \<open>
  The Eldor Realms game server (C++ under src/src): a model of its core and the theorems that
  make it correct.

  The program. A client connects (connection throttle, login queue), exchanges encrypted
  network messages with the server, and its player then acts in a world of tiles, items and
  creatures. One dispatcher thread executes all game actions; a scheduler thread hands it
  delayed ones. Maps and items come from binary tree files and property streams; players
  form parties, trade, walk, see each other, gain levels and carry containers of items.

  Conventions. Machine integers are words of their width, so that arithmetic wraps as in the
  code; \<open>int\<close> and \<open>nat\<close> are used where the code cannot overflow or where the overflow is
  undefined and then reported as \<open>None\<close>. Pointers are addresses of a store, null pointers
  \<open>None\<close>. What scripts, the database, floating-point formulas and the clock answer is an
  argument of the operation that uses it. Loops that end are \<open>fun\<close> or \<open>function\<close> with a
  measure, the others \<open>partial_function (option)\<close> with theorems that they return. No
  definition uses fuel.

  Theories and the sources they model:

    Prelude: words, bytes and decimal printing; the interfaces that several components
    implement: \<open>step_machine\<close> (every operation keeps an invariant), \<open>refinement\<close> (every operation
    keeps the relation to an abstract state) and the codecs.

    Geometry (position.h, position.cpp, tools.cpp): positions, their order and printing,
    directions and the step to a neighbour.

    Streams (fileloader.h): property streams as codecs; what was written is read back.

    NetMsg, NetMsgProps (networkmessage.h, networkmessage.cpp): the packet buffer with its
    position and length; round trip of typed fields, and memory safety of the guarded operations.

    Checksum, Sha1 (tools.cpp): the delayed Adler-32 equals its definition by sums modulo 65521;
    the streaming SHA-1 equals the padded message cut into blocks.

    Token (tools.cpp): \<open>generateToken\<close> is the HMAC-based one-time password.

    Cipher, CipherProps (protocol.h, protocol.cpp, outputmessage.h): XTEA on message buffers,
    padding and headers; a decrypted packet is the body that was sent.

    Otb (fileloader.h, fileloader.cpp): the checks and the parser of the binary tree format;
    parsing the escaped encoding of a forest gives that forest.

    Wildcard (wildcardtree.h, wildcardtree.cpp): the trie of player names refines a set of names.

    Admission (ban.h, ban.cpp, waitlist.h, waitlist.cpp): connection throttle and login queue.

    Scheduling (tasks.h, tasks.cpp, scheduler.h, scheduler.cpp): both threads as interleaved
    critical sections; no wake-up is lost, a stopped event never runs, events run in order.

    MapTree (map.h, map.cpp): the quadtree of tiles refines a map from positions to the tile
    first stored there. Spectators (map.h, map.cpp): the creature lists of the leaves, the scan for
    spectators and its caches, against the set of creatures in view.

    Sight (map.cpp): lines of sight as the code steps along them, with their overflows.
    AStar, AStarProps, Walk, Pathing (map.h, map.cpp, creature.h, creature.cpp): the path search
    ends, its result leads to the target through tiles that can be entered; the walk cache a
    creature moves with it equals a fresh one, but for one direction.

    Party, PartyProps, PartyTheorems (party.h, party.cpp, player.cpp, game.cpp): the store of players
    and parties; the pointers agree after any sequence of requests.

    Attributes, Items, ItemIO, ItemIOProps (item.h, item.cpp, items.h, itemloader.h): item attributes
    as a list with a bit word refine maps of values; an item that is stored is read back.

    Containers, ContainerProps, ContainerTheorems (container.h, container.cpp, cylinder.h, item.cpp): the
    forest of items and containers; weights stay exact, the iterator sees everything once, an
    accepted addition keeps the forest free of cycles, removals take what was asked.

    Trade, TradeProps, TradeTheorems (game.cpp, player.h, player.cpp): the trade protocol over the
    containers; partners and offers stay paired, offers never contain each other, what an
    exchange does.

    Experience, ExperienceProps, SkillProps (player.h, player.cpp, vocation.h, vocation.cpp,
    iologindata.cpp): levels, skills and magic level; level and maxima are functions of the
    experience, advances and deaths conserve the tries.

    Money, MoneyProps, MoneyTheorems (game.cpp, player.cpp, item.cpp): collecting coins from the
    containers, exact change, the coins of an amount.

    Tiles, TileProps, TileTheorems, TileQuery, TileAnswers (tile.h, tile.cpp, item.cpp, player.cpp): the
    stack of a tile with its cached flags, and what it answers. From an empty tile on, whatever is
    added, removed, changed and replaced, the flags for what blocks are exact, the items stay split
    into those below and those on top, things and indices correspond; nobody is let into walls,
    what is let in gets in, stairs and the holes over them lead to opposite sides.

    Conditions, ConditionIO, ConditionIOProps, DamageList, CreatureConditions (condition.h,
    condition.cpp, iologindata.cpp): the classes of conditions, their parameters, how they are stored
    and read back, how a damage is cut into rounds, and what each does to a creature when it starts,
    is merged, executed and ends. DamageFloats: the floating-point comparison of the rounds, with
    rounding to nearest. Afflictions, AfflictionProps, AfflictionTheorems (creature.cpp,
    player.cpp, game.cpp): the list of conditions of a creature. In any order of operations, bonuses
    are given back exactly, keys stay unique, nothing outlives its time.

    GameView, GameViewProps, GameViewTheorems (protocolgame.cpp): what a client is told of tiles, floors
    and regions, which creatures it knows, and what is sent when something moves. A client reads back
    what was described, sees all that comes into its view, and counts creatures as the server does.
    GameParse, GameParseProps, GameParseTheorems (protocolgame.cpp): the packets of a client as
    state monads over the message. Every command arrives as it was sent, nothing else
    reaches the game, and no packet leads out of the buffer.

  How the components rest on each other. Spectators and Pathing use the map of MapTree and the
  sight of Sight; trading and money use the forest of Containers through the facts \<open>store_inv\<close>
  gives of it; containers and tiles use the items, items the attributes, their files the streams. The
  interpretations of the interfaces stand in the theory that provides the operations
  (\<open>attrs\<close>, \<open>attr_refinement\<close>, \<open>trades\<close>, \<open>tiles\<close> and others).

  Bounds. Levels are followed up to level 700000, below which the requirement formula stays within
  64 bits; amounts of money are exact below 4294970000, and a theorem shows that this bound is
  sharp. Party, trade and container theorems have no bound; a tile holds
  at most 65535 items, as the code checks.

  Simplifications. The ranges of a query for spectators and the sums of a damage list are unbounded
  integers; the requirement of a skill is a function, where the code keeps a table of answers; the
  scheduler's shutdown is one step, and the dispatcher's \<open>stop\<close> is not a step.

  Not modelled. The Lua interpreter and its bindings (luascript.cpp and the script interfaces),
  the database and the loading of maps, houses and players (database.cpp, the io files), asynchronous
  sockets and RSA (connection.cpp, server.cpp, rsa.cpp) are interfaces to libraries that are not part
  of the sources. Monsters, NPCs, spawns, combat and spells are mostly floating-point formulas, random
  numbers and script calls. Of protocolgame.cpp, the packets
  that only write fields of objects are left out. Of tiles, what is sent to spectators, the browse-field
  containers and the scripts of moves are left out; of conditions, what a damage sets off in combat.
  Houses, chat, guilds and quests are small tables around the database and scripts, left aside for
  the components above.
\<close>

end
